(* ===== verification/Rist_Prelude.thy ===== *)
theory Rist_Prelude
  imports Main "HOL-Library.Word" "HOL-Library.Monad_Syntax"
begin

unbundle bit_operations_syntax

text \<open>
  The shared vocabulary of the development: the machine types of the Rust sources, the saturating
  operations of the standard library they use, the option-valued vector access (an index out of
  range panics in Rust and is \<open>None\<close> here), big-endian bytes, and generic lemmas on lists, words
  and power-of-two masks. The theorem collections \<open>panic_free\<close> (an operation does not panic under
  the invariants) and \<open>frame\<close> (a field an operation leaves alone) are filled by the components.
\<close>

named_theorems panic_free \<open>operations that return under their invariant\<close>
named_theorems frame \<open>fields an operation leaves unchanged\<close>

section \<open>Machine types\<close>

type_synonym u8 = "8 word"
type_synonym u16 = "16 word"
type_synonym u32 = "32 word"
type_synonym u64 = "64 word"
type_synonym bytes = "8 word list"

text \<open>Counters and instants of type \<^verbatim>\<open>u64\<close> are natural numbers and durations of type
  \<^verbatim>\<open>i64\<close> are integers; the saturating operations of the source clip at these bounds.\<close>

abbreviation u64_max :: nat where "u64_max \<equiv> 18446744073709551615"
abbreviation i64_max :: int where "i64_max \<equiv> 9223372036854775807"
abbreviation i64_min :: int where "i64_min \<equiv> - 9223372036854775808"

definition sat_i64 :: "int \<Rightarrow> int" where
  "sat_i64 x = max i64_min (min i64_max x)"

lemma sat_i64_id [simp]: "i64_min \<le> x \<Longrightarrow> x \<le> i64_max \<Longrightarrow> sat_i64 x = x"
  by (simp add: sat_i64_def)

lemma sat_i64_bounds: "i64_min \<le> sat_i64 x \<and> sat_i64 x \<le> i64_max"
  by (simp add: sat_i64_def)

lemma sat_i64_mono: "x \<le> y \<Longrightarrow> sat_i64 x \<le> sat_i64 y"
  by (auto simp: sat_i64_def)

text \<open>The plain operators on \<^verbatim>\<open>i64\<close> wrap around in a release build; where the source uses them on
  values without a bound, the model takes the result into the range of the type.\<close>

definition wrap_i64 :: "int \<Rightarrow> int" where
  "wrap_i64 x = (x + 2 ^ 63) mod 2 ^ 64 - 2 ^ 63"

lemma wrap_i64_id [simp]: "i64_min \<le> x \<Longrightarrow> x \<le> i64_max \<Longrightarrow> wrap_i64 x = x"
  by (simp add: wrap_i64_def)

lemma wrap_i64_bounds: "i64_min \<le> wrap_i64 x \<and> wrap_i64 x \<le> i64_max"
proof -
  have "0 \<le> (x + 2 ^ 63) mod 2 ^ 64 \<and> (x + 2 ^ 63) mod 2 ^ 64 < 2 ^ 64" by simp
  then show ?thesis unfolding wrap_i64_def by simp
qed

text \<open>\<^verbatim>\<open>i64::saturating_neg\<close>: only the least value has no negation.\<close>

definition sat_neg :: "int \<Rightarrow> int" where
  "sat_neg n = sat_i64 (- n)"

text \<open>Rust's integer division truncates towards zero.\<close>

definition trunc_div :: "int \<Rightarrow> int \<Rightarrow> int" where
  "trunc_div a b =
     (let q = \<bar>a\<bar> div \<bar>b\<bar> in if (a < 0) = (b < 0) then q else - q)"

lemma trunc_div_nonneg: "0 \<le> a \<Longrightarrow> 0 < b \<Longrightarrow> trunc_div a b = a div b"
  by (simp add: trunc_div_def)

section \<open>Bit lengths and powers of two\<close>

text \<open>The number of bits of a natural number.\<close>

fun nbits :: "nat \<Rightarrow> nat" where
  "nbits n = (if n = 0 then 0 else Suc (nbits (n div 2)))"

declare nbits.simps [simp del]

lemma nbits_upper: "n < 2 ^ nbits n"
proof (induction n rule: nbits.induct)
  case (1 n)
  then show ?case by (subst nbits.simps) auto
qed

lemma nbits_le: "n < 2 ^ k \<Longrightarrow> nbits n \<le> k"
proof (induction n arbitrary: k rule: nbits.induct)
  case (1 n)
  show ?case
  proof (cases "n = 0")
    case True
    then show ?thesis by (simp add: nbits.simps)
  next
    case False
    with "1.prems" obtain k' where k': "k = Suc k'" by (cases k) auto
    with "1.prems" have "n div 2 < 2 ^ k'" by simp
    from "1.IH" [OF False this] False k' show ?thesis by (simp add: nbits.simps [of n])
  qed
qed

text \<open>\<^verbatim>\<open>usize::next_power_of_two\<close>: the least power of two that is at least \<open>n\<close>.\<close>

definition next_power_of_two :: "nat \<Rightarrow> nat" where
  "next_power_of_two n = 2 ^ nbits (n - 1)"

lemma next_power_of_two_ge: "n \<le> next_power_of_two n"
  using nbits_upper [of "n - 1"] by (simp add: next_power_of_two_def)

lemma next_power_of_two_le: "n \<le> 2 ^ k \<Longrightarrow> next_power_of_two n \<le> 2 ^ k"
proof -
  assume n: "n \<le> 2 ^ k"
  have "n - 1 < 2 ^ k" using n by (cases n) auto
  then have "nbits (n - 1) \<le> k" by (rule nbits_le)
  then show ?thesis by (simp add: next_power_of_two_def)
qed

section \<open>Indexing\<close>

text \<open>\<^verbatim>\<open>v[i]\<close> panics out of range: \<open>None\<close> stands for the panic.\<close>

definition vec_get :: "'a list \<Rightarrow> nat \<Rightarrow> 'a option" where
  "vec_get xs i = (if i < length xs then Some (xs ! i) else None)"

lemma vec_get_Some [simp]: "i < length xs \<Longrightarrow> vec_get xs i = Some (xs ! i)"
  by (simp add: vec_get_def)

lemma vec_get_eq_Some: "vec_get xs i = Some x \<longleftrightarrow> i < length xs \<and> xs ! i = x"
  by (auto simp: vec_get_def)

lemma vec_get_eq_None: "vec_get xs i = None \<longleftrightarrow> length xs \<le> i"
  by (auto simp: vec_get_def)

section \<open>Big-endian bytes\<close>

definition be16 :: "u16 \<Rightarrow> bytes" where
  "be16 w = [ucast (drop_bit 8 w), ucast w]"

definition be32 :: "u32 \<Rightarrow> bytes" where
  "be32 w = [ucast (drop_bit 24 w), ucast (drop_bit 16 w), ucast (drop_bit 8 w), ucast w]"

definition of_be16 :: "u8 \<Rightarrow> u8 \<Rightarrow> u16" where
  "of_be16 a b = push_bit 8 (ucast a) OR ucast b"

definition of_be32 :: "u8 \<Rightarrow> u8 \<Rightarrow> u8 \<Rightarrow> u8 \<Rightarrow> u32" where
  "of_be32 a b c d =
     push_bit 24 (ucast a) OR push_bit 16 (ucast b) OR push_bit 8 (ucast c) OR ucast d"

lemma length_be16 [simp]: "length (be16 w) = 2"
  by (simp add: be16_def)

lemma length_be32 [simp]: "length (be32 w) = 4"
  by (simp add: be32_def)

lemma of_be16_be16 [simp]: "of_be16 (ucast (drop_bit 8 w)) (ucast w) = w"
  unfolding of_be16_def
  by (rule bit_word_eqI) (auto simp: bit_simps dest: bit_imp_le_length)

lemma of_be32_be32 [simp]:
  "of_be32 (ucast (drop_bit 24 w)) (ucast (drop_bit 16 w)) (ucast (drop_bit 8 w)) (ucast w) = w"
proof (rule bit_word_eqI)
  fix n assume n: "n < LENGTH(32)"
  consider "n < 8" | "8 \<le> n" "n < 16" | "16 \<le> n" "n < 24" | "24 \<le> n" by linarith
  then show "bit (of_be32 (ucast (drop_bit 24 w)) (ucast (drop_bit 16 w)) (ucast (drop_bit 8 w))
      (ucast w)) n \<longleftrightarrow> bit w n"
    unfolding of_be32_def using n by cases (auto simp: bit_simps)
qed

section \<open>Power-of-two masks\<close>

text \<open>A ring of \<open>2 ^ k\<close> slots is indexed by \<open>seq AND (2 ^ k - 1)\<close>.\<close>

lemma unat_and_mask [simp]: "unat (s AND mask k) = unat s mod 2 ^ k"
  for s :: "'a::len word"
  by (metis take_bit_eq_mask unsigned_take_bit_eq take_bit_eq_mod)

text \<open>Two numbers closer than the ring is long never share a slot.\<close>

lemma mod_eq_close:
  fixes a b :: nat
  assumes "a mod m = b mod m" "a \<le> b" "b < a + m"
  shows "a = b"
proof -
  from assms(1,2) have "m dvd b - a" by (metis mod_eq_dvd_iff_nat)
  moreover from assms(2,3) have "b - a < m" by linarith
  ultimately have "b - a = 0" using dvd_imp_le by fastforce
  with assms(2) show ?thesis by simp
qed

lemma mod_add_cancel:
  fixes a x y :: nat
  assumes "(a + x) mod m = (a + y) mod m" "x < m" "y < m"
  shows "x = y"
proof (cases "x \<le> y")
  case True
  with assms have "a + x = a + y" by (intro mod_eq_close [OF assms(1)]) linarith+
  then show ?thesis by simp
next
  case False
  with assms have "a + y = a + x" by (intro mod_eq_close [OF assms(1) [symmetric]]) linarith+
  then show ?thesis by simp
qed

text \<open>The gap \<open>unat (b - a)\<close> of two 32-bit numbers under steps of the base.\<close>

lemma unat_gap_add:
  fixes a b :: u32
  assumes "k \<le> unat (b - a)"
  shows "unat (b - (a + of_nat k)) = unat (b - a) - k"
proof -
  have "unat (b - a) < 2 ^ 32" using unsigned_less [of "b - a"] by simp
  with assms have k: "k < 2 ^ 32" by simp
  then have uk: "unat (of_nat k :: u32) = k" by (simp add: unat_of_nat)
  with assms have "of_nat k \<le> b - a" by (simp add: word_le_nat_alt)
  then have "unat (b - a - of_nat k) = unat (b - a) - k" by (simp add: unat_sub uk)
  then show ?thesis by (simp add: diff_diff_eq)
qed

lemma unat_gap_eq:
  fixes a b :: u32
  shows "a + of_nat (unat (b - a)) = b"
  by simp

end
