(* ===== verification/Float64.thy ===== *)
theory Float64
  imports Rist_Prelude
begin

text \<open>
  The binary64 arithmetic the flow core uses (\<^verbatim>\<open>i64 as f64\<close>, \<open>*\<close>, \<open>+\<close>, \<open>/\<close>, comparisons,
  \<^verbatim>\<open>f64 as i64\<close>). A value is an integer mantissa and a binary exponent; every operation is
  computed exactly and rounded to 53 significant bits, ties to even. The core only meets finite
  values far from the ends of the exponent range (rates, durations and small factors), so the
  model leaves the exponent unbounded and has no infinities, NaNs or subnormals.
\<close>

datatype f64 = F64 (f64_mant: int) (f64_exp: int)

text \<open>Rounding a magnitude \<open>m\<close> to 53 bits, ties to even: the low \<open>k\<close> bits are dropped.\<close>

definition round_mant :: "nat \<Rightarrow> nat \<Rightarrow> nat" where
  "round_mant m k =
     (if k = 0 then m
      else let q = m div 2 ^ k; r = m mod 2 ^ k; h = 2 ^ (k - 1)
           in if h < r \<or> (r = h \<and> odd q) then q + 1 else q)"

definition f64_rnd :: "int \<Rightarrow> int \<Rightarrow> f64" where
  "f64_rnd m e =
     (let k = nbits (nat \<bar>m\<bar>) - 53
      in F64 (sgn m * int (round_mant (nat \<bar>m\<bar>) k)) (e + int k))"

definition f64_of_int :: "int \<Rightarrow> f64" where
  "f64_of_int i = f64_rnd i 0"

definition f64_mul :: "f64 \<Rightarrow> f64 \<Rightarrow> f64" where
  "f64_mul a b = f64_rnd (f64_mant a * f64_mant b) (f64_exp a + f64_exp b)"

text \<open>Both mantissas over the smaller exponent.\<close>

definition f64_align :: "f64 \<Rightarrow> f64 \<Rightarrow> int \<times> int \<times> int" where
  "f64_align a b =
     (let e = min (f64_exp a) (f64_exp b)
      in (f64_mant a * 2 ^ nat (f64_exp a - e), f64_mant b * 2 ^ nat (f64_exp b - e), e))"

definition f64_add :: "f64 \<Rightarrow> f64 \<Rightarrow> f64" where
  "f64_add a b = (case f64_align a b of (x, y, e) \<Rightarrow> f64_rnd (x + y) e)"

definition f64_sub :: "f64 \<Rightarrow> f64 \<Rightarrow> f64" where
  "f64_sub a b = (case f64_align a b of (x, y, e) \<Rightarrow> f64_rnd (x - y) e)"

text \<open>Division by a non-zero value: 64 quotient bits more than the divisor has, and a sticky bit
  for the remainder, so that the rounding to 53 bits is the rounding of the exact quotient.\<close>

definition f64_div :: "f64 \<Rightarrow> f64 \<Rightarrow> f64" where
  "f64_div a b =
     (let m = nat \<bar>f64_mant a\<bar>; d = nat \<bar>f64_mant b\<bar>; s = 64 + nbits d;
          q = m * 2 ^ s div d; sticky = (if m * 2 ^ s mod d = 0 then 0 else 1)
      in f64_rnd (sgn (f64_mant a) * sgn (f64_mant b) * int (2 * q + sticky))
           (f64_exp a - f64_exp b - int s - 1))"

definition f64_less :: "f64 \<Rightarrow> f64 \<Rightarrow> bool" where
  "f64_less a b = (case f64_align a b of (x, y, _) \<Rightarrow> x < y)"

definition f64_le :: "f64 \<Rightarrow> f64 \<Rightarrow> bool" where
  "f64_le a b = (case f64_align a b of (x, y, _) \<Rightarrow> x \<le> y)"

text \<open>\<^verbatim>\<open>x as i64\<close>: truncation towards zero, saturating.\<close>

definition f64_to_i64 :: "f64 \<Rightarrow> int" where
  "f64_to_i64 a =
     sat_i64 (if 0 \<le> f64_exp a then f64_mant a * 2 ^ nat (f64_exp a)
              else sgn (f64_mant a) * (\<bar>f64_mant a\<bar> div 2 ^ nat (- f64_exp a)))"

text \<open>The literals \<^verbatim>\<open>1.1\<close>, \<^verbatim>\<open>0.05\<close>, \<^verbatim>\<open>0.02\<close>, as the nearest binary64 values.\<close>

definition f64_1_1 :: f64 where "f64_1_1 = F64 4953959590107546 (- 52)"
definition f64_0_05 :: f64 where "f64_0_05 = F64 7205759403792794 (- 57)"
definition f64_0_02 :: f64 where "f64_0_02 = F64 5764607523034235 (- 58)"

section \<open>Rounding\<close>

lemma round_mant_lower: "a * 2 ^ k \<le> m \<Longrightarrow> a \<le> round_mant m k"
proof -
  assume "a * 2 ^ k \<le> m"
  then have "a \<le> m div 2 ^ k" by (simp add: less_eq_div_iff_mult_less_eq)
  then show ?thesis by (auto simp: round_mant_def Let_def)
qed

lemma round_mant_upper: "m \<le> b * 2 ^ k \<Longrightarrow> round_mant m k \<le> b"
proof -
  assume m: "m \<le> b * 2 ^ k"
  have q: "m div 2 ^ k \<le> b" using div_le_mono [OF m, of "2 ^ k"] by simp
  have "m div 2 ^ k + 1 \<le> b" if r: "0 < m mod 2 ^ k"
  proof (rule ccontr)
    assume "\<not> m div 2 ^ k + 1 \<le> b"
    with q have "m div 2 ^ k = b" by linarith
    with div_mult_mod_eq [of m "2 ^ k"] r have "b * 2 ^ k < m" by simp
    with m show False by simp
  qed
  with q show ?thesis by (auto simp: round_mant_def Let_def)
qed

lemma round_mant_0 [simp]: "round_mant m 0 = m"
  by (simp add: round_mant_def)

lemma round_mant_zero [simp]: "round_mant 0 k = 0"
  by (simp add: round_mant_def)

lemma f64_of_int_exact: "\<bar>i\<bar> < 2 ^ 53 \<Longrightarrow> f64_of_int i = F64 i 0"
proof -
  assume "\<bar>i\<bar> < 2 ^ 53"
  then have "nat \<bar>i\<bar> < 2 ^ 53" by (simp add: nat_less_iff)
  then have "nbits (nat \<bar>i\<bar>) \<le> 53" by (rule nbits_le)
  then show ?thesis by (simp add: f64_of_int_def f64_rnd_def sgn_if)
qed

text \<open>\<^verbatim>\<open>(d as f64 * 1.1) as i64\<close>, the factor the core applies to its thresholds.\<close>

definition scale_1_1 :: "int \<Rightarrow> int" where
  "scale_1_1 d = f64_to_i64 (f64_mul (f64_of_int d) f64_1_1)"

text \<open>
  Scaling a non-negative integer by \<^verbatim>\<open>1.1\<close> and truncating: between the exact product rounded
  down and one more, as long as the integer has at most 49 bits.
\<close>

lemma scale_1_1_bounds:
  assumes "0 \<le> d" "d < 2 ^ 49"
  shows "d * 11 div 10 \<le> scale_1_1 d \<and> scale_1_1 d \<le> d * 11 div 10 + 1"
proof -
  define m where "m = nat d * 4953959590107546"
  define k where "k = nbits m - 53"
  define a where "a = nat d * 11 div 10"
  have d: "nat d < 2 ^ 49" using assms by (simp add: nat_less_iff)
  have md: "nat (d * 4953959590107546) = m"
    using assms by (simp add: m_def nat_mult_distrib)
  have "m < 2 ^ 102" using d by (simp add: m_def)
  then have k: "k \<le> 49" using nbits_le [of m 102] by (simp add: k_def)
  have split: "(2::nat) ^ 52 = 2 ^ (52 - k) * 2 ^ k"
    using k by (simp flip: power_add)
  have "a * 2 ^ 52 \<le> m" by (simp add: a_def m_def)
  then have lo: "a * 2 ^ (52 - k) \<le> round_mant m k"
    by (intro round_mant_lower) (simp only: mult.assoc split [symmetric])
  have "m \<le> (a + 1) * 2 ^ 52" using d by (simp add: a_def m_def)
  then have hi: "round_mant m k \<le> (a + 1) * 2 ^ (52 - k)"
    by (intro round_mant_upper) (simp only: mult.assoc split [symmetric])
  define r where "r = round_mant m k div 2 ^ (52 - k)"
  have r: "a \<le> r" "r \<le> a + 1"
    using lo div_le_mono [OF hi, of "2 ^ (52 - k)"]
    by (simp_all add: r_def less_eq_div_iff_mult_less_eq)
  have nk: "nat (52 - int k) = 52 - k" using k by (simp add: nat_diff_distrib)
  have sg: "sgn d * int (round_mant m k) = int (round_mant m k)"
    using assms by (cases "d = 0") (simp_all add: m_def)
  have "f64_mul (f64_of_int d) f64_1_1 = F64 (sgn d * int (round_mant m k)) (int k - 52)"
    using assms by (simp add: f64_mul_def f64_of_int_exact f64_1_1_def f64_rnd_def md
        Let_def k_def sgn_mult)
  then have "f64_mul (f64_of_int d) f64_1_1 = F64 (int (round_mant m k)) (int k - 52)"
    by (simp only: sg)
  then have "scale_1_1 d = sat_i64 (int r)"
    using k by (auto simp add: scale_1_1_def f64_to_i64_def nk r_def zdiv_int sgn_if)
  moreover have "int a = d * 11 div 10"
    using assms by (simp add: a_def zdiv_int)
  moreover have "int r \<le> i64_max"
    using r(2) d by (simp add: a_def)
  ultimately show ?thesis using r by simp
qed

end
