(* ===== verification/Seq_Arith.thy ===== *)
theory Seq_Arith
  imports Rist_Prelude
begin

text \<open>
  Wrap-aware sequence arithmetic (\<^verbatim>\<open>rist-core/src/seq.rs\<close>). The macro \<^verbatim>\<open>define_seq!\<close> is
  instantiated at 16 and 32 bits; here each operation is one definition over words of any width,
  used at \<open>seq16\<close> and \<open>seq32\<close>. Offsets and distances are the \<^verbatim>\<open>i64\<close> values of the source.
\<close>

type_synonym seq16 = "16 word"
type_synonym seq32 = "32 word"

definition max_gap_16 :: nat where "max_gap_16 = 2 ^ 15"
definition max_gap_32 :: nat where "max_gap_32 = 2 ^ 31"

datatype ordering = Less | Equal | Greater

definition seq_inc :: "'a::len word \<Rightarrow> 'a word" where
  "seq_inc a = a + 1"

definition seq_dec :: "'a::len word \<Rightarrow> 'a word" where
  "seq_dec a = a - 1"

text \<open>\<^verbatim>\<open>add\<close>: the offset reduced into the space first (\<^verbatim>\<open>rem_euclid\<close>).\<close>

definition seq_add :: "'a::len word \<Rightarrow> int \<Rightarrow> 'a word" where
  "seq_add a n = a + word_of_int (n mod 2 ^ LENGTH('a))"

definition seq_sub :: "'a::len word \<Rightarrow> int \<Rightarrow> 'a word" where
  "seq_sub a n = seq_add a (sat_neg n)"

definition seq_raw_gap :: "'a::len word \<Rightarrow> 'a word \<Rightarrow> nat" where
  "seq_raw_gap a b = unat (b - a)"

definition seq_distance :: "'a::len word \<Rightarrow> 'a word \<Rightarrow> int" where
  "seq_distance a b =
     (let raw = seq_raw_gap a b
      in if raw \<le> 2 ^ (LENGTH('a) - 1) then int raw else int raw - 2 ^ LENGTH('a))"

definition seq_less :: "'a::len word \<Rightarrow> 'a word \<Rightarrow> bool" where
  "seq_less a b \<longleftrightarrow> 0 < seq_distance a b"

definition seq_wrapping_cmp :: "'a::len word \<Rightarrow> 'a word \<Rightarrow> ordering" where
  "seq_wrapping_cmp a b =
     (if a = b then Equal else if seq_less a b then Less else Greater)"

definition seq_forward_gap :: "'a::len word \<Rightarrow> 'a word \<Rightarrow> nat \<times> bool" where
  "seq_forward_gap a b =
     (let raw = seq_raw_gap a b in (raw, raw \<le> 2 ^ (LENGTH('a) - 1)))"

section \<open>Gaps and distances\<close>

lemma raw_gap_lt: "seq_raw_gap a b < 2 ^ LENGTH('a)" for a b :: "'a::len word"
  unfolding seq_raw_gap_def by (rule unsigned_less)

lemma raw_gap_rev:
  fixes a b :: "'a::len word"
  assumes "a \<noteq> b"
  shows "seq_raw_gap b a = 2 ^ LENGTH('a) - seq_raw_gap a b"
proof -
  have "0 < uint (b - a)" using assms by (simp add: word_gt_0_no uint_0_iff less_le)
  moreover have "uint (b - a) < 2 ^ LENGTH('a)" by (rule unsigned_less)
  moreover have "uint (a - b) = (- uint (b - a)) mod 2 ^ LENGTH('a)"
    by (simp add: uint_word_ariths mod_minus_eq)
  ultimately have "uint (a - b) = 2 ^ LENGTH('a) - uint (b - a)"
    by (simp add: zmod_zminus1_eq_if)
  then have "int (unat (a - b) + unat (b - a)) = int (2 ^ LENGTH('a))" by simp
  then have "unat (a - b) + unat (b - a) = 2 ^ LENGTH('a)" by (rule of_nat_eq_iff [THEN iffD1])
  then show ?thesis unfolding seq_raw_gap_def by linarith
qed

lemma half_double: "(2::'b::semiring_1) ^ LENGTH('a::len) = 2 * 2 ^ (LENGTH('a) - 1)"
proof -
  obtain n where "LENGTH('a) = Suc n" using len_gt_0 gr0_implies_Suc by blast
  then show ?thesis by simp
qed

lemma seq_distance_eq:
  fixes a b :: "'a::len word"
  shows "seq_distance a b =
    (if seq_raw_gap a b \<le> 2 ^ (LENGTH('a) - 1) then int (seq_raw_gap a b)
     else int (seq_raw_gap a b) - 2 ^ LENGTH('a))"
  by (simp add: seq_distance_def Let_def)

lemma word_of_int_distance: "word_of_int (seq_distance a b) = b - a"
  by (simp add: seq_distance_eq seq_raw_gap_def word_of_int_minus)

lemma word_of_int_mod: "(word_of_int (n mod 2 ^ LENGTH('a)) :: 'a::len word) = word_of_int n"
  by (simp add: word_of_int_eq_iff take_bit_eq_mod)

lemma seq_add_eq: "seq_add a n = a + word_of_int n"
  by (simp add: seq_add_def word_of_int_mod)

lemma seq_add_0 [simp]: "seq_add a 0 = a"
  by (simp add: seq_add_eq)

lemma seq_add_add: "seq_add (seq_add a m) n = seq_add a (m + n)"
  by (simp add: seq_add_eq add.assoc)

lemma seq_less_iff:
  fixes a b :: "'a::len word"
  shows "seq_less a b \<longleftrightarrow> 0 < seq_raw_gap a b \<and> seq_raw_gap a b \<le> 2 ^ (LENGTH('a) - 1)"
proof -
  have "int (seq_raw_gap a b) < 2 ^ LENGTH('a)" using raw_gap_lt [of a b] by simp
  then show ?thesis by (auto simp: seq_less_def seq_distance_eq)
qed

lemma seq_distance_self [simp]: "seq_distance a a = 0"
  by (simp add: seq_distance_eq seq_raw_gap_def)

lemma seq_less_irrefl [simp]: "\<not> seq_less a a"
  by (simp add: seq_less_def)

lemma seq_distance_bounds:
  fixes a b :: "'a::len word"
  shows "- (2 ^ (LENGTH('a) - 1)) < seq_distance a b"
    and "seq_distance a b \<le> 2 ^ (LENGTH('a) - 1)"
proof -
  have "int (seq_raw_gap a b) < 2 ^ LENGTH('a)" using raw_gap_lt [of a b] by simp
  moreover have "(2::int) ^ LENGTH('a) = 2 * 2 ^ (LENGTH('a) - 1)" by (rule half_double)
  moreover have "\<not> seq_raw_gap a b \<le> 2 ^ (LENGTH('a) - 1) \<longleftrightarrow>
      2 ^ (LENGTH('a) - 1) < int (seq_raw_gap a b)"
    by (metis not_le of_nat_less_iff of_nat_numeral of_nat_power)
  ultimately show "- (2 ^ (LENGTH('a) - 1)) < seq_distance a b"
    and "seq_distance a b \<le> 2 ^ (LENGTH('a) - 1)"
    by (auto simp: seq_distance_eq)
qed

text \<open>Small offsets are distances.\<close>

lemma seq_distance_add:
  fixes a :: "'a::len word"
  assumes "- (2 ^ (LENGTH('a) - 1)) < n" "n \<le> 2 ^ (LENGTH('a) - 1)"
  shows "seq_distance a (seq_add a n) = n"
proof -
  define d where "d = seq_distance a (seq_add a n)"
  have "word_of_int d = (word_of_int n :: 'a word)"
    by (simp add: d_def word_of_int_distance seq_add_eq)
  then have "d mod 2 ^ LENGTH('a) = n mod 2 ^ LENGTH('a)"
    by (simp add: word_of_int_eq_iff take_bit_eq_mod)
  then have dvd: "2 ^ LENGTH('a) dvd d - n" by (simp add: mod_eq_dvd_iff)
  have "\<bar>d - n\<bar> < 2 ^ LENGTH('a)"
    using assms seq_distance_bounds [of a "seq_add a n"] half_double [where 'a = 'a and 'b = int]
    unfolding d_def by linarith
  with dvd have "d - n = 0" using zdvd_imp_le [of "2 ^ LENGTH('a)" "\<bar>d - n\<bar>"] by fastforce
  then show ?thesis by (simp add: d_def)
qed

section \<open>The properties of the sequence space\<close>

text \<open>Adding the distance recovers the other number, and the distance lies in the half-open
  window \<open>(- 2 ^ (N - 1), 2 ^ (N - 1)]\<close>.\<close>

theorem seq_add_distance:
  fixes a b :: "'a::len word"
  shows "seq_add a (seq_distance a b) = b
    \<and> - (2 ^ (LENGTH('a) - 1)) < seq_distance a b
    \<and> seq_distance a b \<le> 2 ^ (LENGTH('a) - 1)"
  using seq_distance_bounds [of a b] by (simp add: seq_add_eq word_of_int_distance)

text \<open>The circular order.\<close>

theorem seq_less_circular:
  fixes a b :: "'a::len word"
  shows "(seq_less a b \<or> seq_less b a) = (a \<noteq> b)
    \<and> (seq_less a b \<and> seq_less b a) = (seq_raw_gap a b = 2 ^ (LENGTH('a) - 1))"
proof (cases "a = b")
  case True
  then show ?thesis by (simp add: seq_raw_gap_def)
next
  case False
  then have pos: "0 < seq_raw_gap a b" by (simp add: seq_raw_gap_def unat_gt_0)
  have rev: "seq_raw_gap b a = 2 ^ LENGTH('a) - seq_raw_gap a b" using False by (rule raw_gap_rev)
  have dbl: "(2::nat) ^ LENGTH('a) = 2 * 2 ^ (LENGTH('a) - 1)" by (rule half_double)
  show ?thesis using False pos rev dbl raw_gap_lt [of a b] by (auto simp: seq_less_iff)
qed

text \<open>Sub undoes add.\<close>

theorem seq_sub_add:
  assumes "i64_min < n" "n \<le> i64_max"
  shows "seq_sub (seq_add a n) n = a \<and> seq_add (seq_sub a n) n = a"
  using assms by (simp add: seq_sub_def sat_neg_def seq_add_add)

theorem seq_sub_add_witness: "seq_sub (seq_add (65530 :: seq16) 10) 10 = 65530"
  using seq_sub_add [of 10 "65530 :: seq16"] by simp

text \<open>The least offset.\<close>

theorem seq_sub_least: "seq_sub (a :: seq32) i64_min = a - 1"
  by (simp add: seq_sub_def sat_neg_def sat_i64_def seq_add_def)

end
