(* ===== verification/Clock.thy ===== *)
theory Clock
  imports Rist_Prelude
begin

text \<open>
  Time in the deterministic core (\<^verbatim>\<open>rist-core/src/clock.rs\<close>): a \<^verbatim>\<open>Timestamp\<close> is a
  \<^verbatim>\<open>u64\<close> count of microseconds (a natural number), a \<^verbatim>\<open>Micros\<close> a signed \<^verbatim>\<open>i64\<close>
  duration (an integer), and an \<^verbatim>\<open>Ntp64\<close> the 64-bit wire form of an instant (a word). The
  operators saturate as the source's do.
\<close>

type_synonym timestamp = nat
type_synonym micros = int
type_synonym ntp64 = "64 word"

definition micros_from_millis :: "int \<Rightarrow> micros" where
  "micros_from_millis ms = sat_i64 (ms * 1000)"

definition micros_as_millis :: "micros \<Rightarrow> int" where
  "micros_as_millis d = trunc_div d 1000"

text \<open>\<^verbatim>\<open>Timestamp + Micros\<close>, \<^verbatim>\<open>Timestamp - Micros\<close> and \<^verbatim>\<open>Timestamp - Timestamp\<close>.\<close>

definition ts_add :: "timestamp \<Rightarrow> micros \<Rightarrow> timestamp" where
  "ts_add t d = (if 0 \<le> d then min u64_max (t + nat d) else t - nat (- d))"

definition ts_sub :: "timestamp \<Rightarrow> micros \<Rightarrow> timestamp" where
  "ts_sub t d = ts_add t (sat_neg d)"

definition ts_diff :: "timestamp \<Rightarrow> timestamp \<Rightarrow> micros" where
  "ts_diff a b =
     (if b \<le> a then min i64_max (int (a - b)) else sat_neg (min i64_max (int (b - a))))"

text \<open>\<^verbatim>\<open>Micros + Micros\<close> and \<^verbatim>\<open>Micros - Micros\<close>.\<close>

definition micros_add :: "micros \<Rightarrow> micros \<Rightarrow> micros" where
  "micros_add a b = sat_i64 (a + b)"

definition micros_sub :: "micros \<Rightarrow> micros \<Rightarrow> micros" where
  "micros_sub a b = sat_i64 (a - b)"

text \<open>\<^verbatim>\<open>clamp\<close> panics when its bounds are the wrong way round.\<close>

definition clamp_range :: "micros \<Rightarrow> micros \<Rightarrow> micros \<Rightarrow> micros option" where
  "clamp_range d lo hi =
     (if hi < lo then None else Some (if d < lo then lo else if hi < d then hi else d))"

lemma clamp_range_None: "clamp_range d lo hi = None \<longleftrightarrow> hi < lo"
  by (simp add: clamp_range_def)

lemma clamp_range_Some:
  "lo \<le> hi \<Longrightarrow> \<exists>r. clamp_range d lo hi = Some r \<and> lo \<le> r \<and> r \<le> hi"
  by (auto simp: clamp_range_def)

lemma clamp_range_bounds: "clamp_range d lo hi = Some r \<Longrightarrow> lo \<le> r \<and> r \<le> hi"
  by (auto simp: clamp_range_def split: if_splits)

lemma ts_add_nonneg_ge: "0 \<le> d \<Longrightarrow> t \<le> u64_max \<Longrightarrow> t \<le> ts_add t d"
  by (simp add: ts_add_def)

lemma ts_add_le_max: "t \<le> u64_max \<Longrightarrow> ts_add t d \<le> u64_max"
  by (auto simp: ts_add_def)

lemma ts_diff_eq:
  "a \<le> 9223372036854775807 \<Longrightarrow> b \<le> 9223372036854775807 \<Longrightarrow> ts_diff a b = int a - int b"
  by (auto simp: ts_diff_def sat_neg_def)

lemma ts_diff_bounds: "i64_min < ts_diff a b \<and> ts_diff a b \<le> i64_max"
  by (auto simp: ts_diff_def sat_neg_def sat_i64_def)

section \<open>NTP-64\<close>

definition us_per_second :: nat where "us_per_second = 1000000"

definition ntp_seconds :: "ntp64 \<Rightarrow> u32" where
  "ntp_seconds n = ucast (drop_bit 32 n)"

definition ntp_fraction :: "ntp64 \<Rightarrow> u32" where
  "ntp_fraction n = ucast n"

definition ntp_middle32 :: "ntp64 \<Rightarrow> u32" where
  "ntp_middle32 n = ucast (drop_bit 16 n)"

definition ntp_from_timestamp :: "timestamp \<Rightarrow> ntp64" where
  "ntp_from_timestamp t =
     (let sec = t div us_per_second;
          us = t mod us_per_second;
          frac = (us * 2 ^ 32 + us_per_second div 2) div us_per_second
      in push_bit 32 (of_nat sec) OR of_nat frac)"

definition ntp_to_timestamp :: "ntp64 \<Rightarrow> timestamp" where
  "ntp_to_timestamp n =
     (let sec = unat (drop_bit 32 n);
          frac = unat (n AND 0xFFFFFFFF);
          us = (frac * us_per_second + 2 ^ 31) div 2 ^ 32
      in sec * us_per_second + us)"

text \<open>Reading the two halves of an NTP value built from seconds and a 32-bit fraction.\<close>

lemma mask32: "(0xFFFFFFFF :: 64 word) = mask 32"
  by (simp add: mask_eq_decr_exp)

lemma ntp_parts:
  assumes "frac < 2 ^ 32"
  shows "unat (drop_bit 32 (push_bit 32 (of_nat sec) OR of_nat frac :: ntp64)) = sec mod 2 ^ 32"
    and "unat ((push_bit 32 (of_nat sec) OR of_nat frac :: ntp64) AND mask 32) = frac"
proof -
  let ?n = "push_bit 32 (of_nat sec) OR of_nat frac :: ntp64"
  have "push_bit 32 (of_nat sec) AND (of_nat frac :: ntp64) = 0"
  proof (rule bit_word_eqI)
    fix i assume "i < LENGTH(64)"
    have "\<not> bit frac i" if "32 \<le> i"
      using assms that by (metis (no_types) bit_take_bit_iff leD take_bit_nat_eq_self)
    then show "bit (push_bit 32 (of_nat sec) AND (of_nat frac :: ntp64)) i = bit (0 :: ntp64) i"
      by (auto simp: bit_simps)
  qed
  then have "?n = push_bit 32 (of_nat sec) + of_nat frac"
    by (metis disjunctive_add_eq_or)
  then have o: "?n = of_nat (sec * 2 ^ 32 + frac)" by (simp add: push_bit_eq_mult)
  have n: "unat ?n = (sec * 2 ^ 32 + frac) mod 2 ^ 64"
    unfolding o unat_of_nat by simp
  have "(sec * 2 ^ 32 + frac) mod 2 ^ 64 = (sec mod 2 ^ 32) * 2 ^ 32 + frac"
  proof -
    have "(sec * 2 ^ 32 + frac) mod (2 ^ 32 * 2 ^ 32) = 
        2 ^ 32 * ((sec * 2 ^ 32 + frac) div 2 ^ 32 mod 2 ^ 32) + (sec * 2 ^ 32 + frac) mod 2 ^ 32"
      by (rule mod_mult2_eq)
    also have "(sec * 2 ^ 32 + frac) div 2 ^ 32 = sec" using assms by simp
    also have "(sec * 2 ^ 32 + frac) mod 2 ^ 32 = frac" using assms by simp
    finally show ?thesis by (simp add: mult.commute)
  qed
  with n have u: "unat ?n = (sec mod 2 ^ 32) * 2 ^ 32 + frac" by simp
  show "unat (drop_bit 32 ?n) = sec mod 2 ^ 32"
    by (subst unat_drop_bit_eq, subst u) (use assms in \<open>simp add: drop_bit_eq_div\<close>)
  show "unat (?n AND mask 32) = frac"
    unfolding unat_and_mask u using assms by simp
qed

text \<open>A fraction of a second survives the trip through units of \<open>2 ^ -32\<close> s.\<close>

lemma ntp_fraction_roundtrip:
  fixes us :: nat
  assumes "us < 1000000"
  defines "frac \<equiv> (us * 2 ^ 32 + 500000) div 1000000"
  shows "frac < 2 ^ 32" and "(frac * 1000000 + 2 ^ 31) div 2 ^ 32 = us"
proof -
  have a: "frac * 1000000 \<le> us * 2 ^ 32 + 500000" by (simp add: frac_def)
  have b: "us * 2 ^ 32 + 500000 < (frac + 1) * 1000000"
    using dividend_less_div_times [of 1000000 "us * 2 ^ 32 + 500000"] by (simp add: frac_def)
  show "frac < 2 ^ 32" using a assms(1) by simp
  show "(frac * 1000000 + 2 ^ 31) div 2 ^ 32 = us"
    using a b by (intro div_nat_eqI) simp_all
qed

text \<open>Every instant before the end of the NTP era survives the conversion to the wire form
  and back; beyond it the seconds wrap, as NTP eras do.\<close>

theorem ntp_roundtrip:
  "ntp_to_timestamp (ntp_from_timestamp t) = t mod (2 ^ 32 * us_per_second)"
proof -
  define us where "us = t mod 1000000"
  define frac where "frac = (us * 2 ^ 32 + 500000) div 1000000"
  have us: "us < 1000000" by (simp add: us_def)
  have f: "frac < 2 ^ 32" "(frac * 1000000 + 2 ^ 31) div 2 ^ 32 = us"
    using ntp_fraction_roundtrip [OF us] by (simp_all add: frac_def)
  have "ntp_from_timestamp t = push_bit 32 (of_nat (t div 1000000)) OR of_nat frac"
    by (simp add: ntp_from_timestamp_def us_per_second_def us_def frac_def Let_def)
  then have "ntp_to_timestamp (ntp_from_timestamp t) =
      (t div 1000000 mod 2 ^ 32) * 1000000 + us"
    using ntp_parts [OF f(1), of "t div 1000000"] f(2)
    by (simp only: ntp_to_timestamp_def Let_def us_per_second_def mask32)
  also have "\<dots> = t mod (1000000 * 2 ^ 32)"
    using mod_mult2_eq [of t 1000000 "2 ^ 32"] by (simp add: us_def)
  finally show ?thesis by (simp add: us_per_second_def mult.commute)
qed

end
