(* ===== verification/Rtt.thy ===== *)
theory Rtt
  imports Float64 Clock
begin

text \<open>
  The round-trip-time estimator (\<^verbatim>\<open>rist-core/src/rtt.rs\<close>): a premultiplied moving average
  of weight 1/8 and the last raw sample, both in microseconds. Clamping panics when the upper
  bound is below the effective lower bound, so the clamped readings are option-valued.
\<close>

record estimator =
  eight_times_rtt :: int
  last_sample :: int

definition rtt_min_floor :: micros where
  "rtt_min_floor = micros_from_millis 3"

definition effective_min :: "micros \<Rightarrow> micros" where
  "effective_min rtt_min = max rtt_min rtt_min_floor"

definition est_new :: "micros \<Rightarrow> estimator" where
  "est_new rtt_min =
     \<lparr>eight_times_rtt = max 0 (sat_i64 (effective_min rtt_min * 8)), last_sample = 0\<rparr>"

definition est_observe :: "estimator \<Rightarrow> micros \<Rightarrow> estimator" where
  "est_observe e sample =
     (let s = max sample 0;
          etr = wrap_i64 (wrap_i64 (eight_times_rtt e - trunc_div (eight_times_rtt e) 8) + s)
      in \<lparr>eight_times_rtt = etr, last_sample = s\<rparr>)"

definition est_smoothed :: "estimator \<Rightarrow> micros" where
  "est_smoothed e = trunc_div (eight_times_rtt e) 8"

definition est_clamped :: "estimator \<Rightarrow> micros \<Rightarrow> micros \<Rightarrow> micros option" where
  "est_clamped e rtt_min rtt_max = clamp_range (est_smoothed e) (effective_min rtt_min) rtt_max"

definition est_last :: "estimator \<Rightarrow> micros" where
  "est_last e = last_sample e"

definition est_last_clamped :: "estimator \<Rightarrow> micros \<Rightarrow> micros \<Rightarrow> micros option" where
  "est_last_clamped e rtt_min rtt_max = clamp_range (est_last e) (effective_min rtt_min) rtt_max"

definition est_retry_interval :: "estimator \<Rightarrow> micros \<Rightarrow> micros \<Rightarrow> micros option" where
  "est_retry_interval e rtt_min rtt_max =
     do { base \<leftarrow> est_clamped e rtt_min rtt_max; Some (scale_1_1 base) }"

section \<open>The bounds the timers rest on\<close>

lemma effective_min_eq: "effective_min m = max m 3000"
  by (simp add: effective_min_def rtt_min_floor_def micros_from_millis_def)

lemma est_clamped_panic_free [panic_free]:
  "effective_min mn \<le> mx \<Longrightarrow> \<exists>r. est_clamped e mn mx = Some r"
  by (simp add: est_clamped_def clamp_range_def)

lemma est_last_clamped_panic_free [panic_free]:
  "effective_min mn \<le> mx \<Longrightarrow> \<exists>r. est_last_clamped e mn mx = Some r"
  by (simp add: est_last_clamped_def clamp_range_def)

lemma est_retry_interval_panic_free [panic_free]:
  "effective_min mn \<le> mx \<Longrightarrow> \<exists>r. est_retry_interval e mn mx = Some r"
  using est_clamped_panic_free [of mn mx e] by (auto simp: est_retry_interval_def)

text \<open>The invariant of the average under samples of at most \<open>B\<close> microseconds.\<close>

definition est_ok :: "int \<Rightarrow> estimator \<Rightarrow> bool" where
  "est_ok B e \<longleftrightarrow> 0 \<le> eight_times_rtt e \<and> eight_times_rtt e \<le> 8 * B
     \<and> 0 \<le> last_sample e \<and> last_sample e \<le> B"

lemma est_new_ok: "effective_min m \<le> B \<Longrightarrow> 8 * B \<le> i64_max \<Longrightarrow> est_ok B (est_new m)"
  using effective_min_eq [of m] by (auto simp: est_ok_def est_new_def)

lemma est_observe_ok:
  assumes "est_ok B e" "sample \<le> B" "8 * B \<le> i64_max"
  shows "est_ok B (est_observe e sample)"
proof -
  from assms(1) have e: "0 \<le> eight_times_rtt e" "eight_times_rtt e \<le> 8 * B" "0 \<le> B"
    by (auto simp: est_ok_def)
  then have "trunc_div (eight_times_rtt e) 8 = eight_times_rtt e div 8"
    by (simp add: trunc_div_nonneg)
  moreover have "eight_times_rtt e - eight_times_rtt e div 8 + max sample 0 \<le> 8 * B"
    using e assms(2) by linarith
  moreover have "0 \<le> eight_times_rtt e - eight_times_rtt e div 8 + max sample 0"
    using e by linarith
  ultimately show ?thesis
    using e assms(2,3) by (simp add: est_ok_def est_observe_def Let_def)
qed

text \<open>Folding any run of samples of at most \<open>B\<close> microseconds keeps the premultiplied average
  within \<open>[0, 8 B]\<close>, hence the smoothed reading within \<open>[0, B]\<close>: the unchecked additions of
  \<^verbatim>\<open>observe\<close> cannot overflow an \<^verbatim>\<open>i64\<close> when \<open>8 B\<close> does not.\<close>

theorem est_observe_bounded:
  assumes "effective_min rtt_min \<le> B" "8 * B \<le> i64_max" "\<forall>s \<in> set samples. s \<le> B"
  shows "est_ok B (foldl est_observe (est_new rtt_min) samples)
    \<and> 0 \<le> est_smoothed (foldl est_observe (est_new rtt_min) samples)
    \<and> est_smoothed (foldl est_observe (est_new rtt_min) samples) \<le> B"
proof -
  have ok: "est_ok B (foldl est_observe e xs)" if "est_ok B e" "\<forall>s \<in> set xs. s \<le> B" for e xs
    using that assms(2) by (induction xs arbitrary: e) (simp_all add: est_observe_ok)
  have "est_ok B (foldl est_observe (est_new rtt_min) samples)"
    using ok est_new_ok assms by blast
  then show ?thesis by (auto simp: est_ok_def est_smoothed_def trunc_div_nonneg)
qed

theorem est_observe_bounded_witness:
  "est_ok 200000 (foldl est_observe (est_new 5000) [100000, - 7, 200000])"
  using est_observe_bounded [of 5000 200000 "[100000, - 7, 200000]"]
  by (simp add: effective_min_eq)

text \<open>With a configured window that holds the 3 ms floor, the retry spacing is the clamped
  round-trip time plus a tenth, to within one microsecond, and never panics.\<close>

theorem est_retry_interval_bounds:
  assumes "effective_min rtt_min \<le> rtt_max" "rtt_max < 2 ^ 49"
  shows "\<exists>base r. est_clamped e rtt_min rtt_max = Some base
    \<and> est_retry_interval e rtt_min rtt_max = Some r
    \<and> effective_min rtt_min \<le> base \<and> base \<le> rtt_max
    \<and> base * 11 div 10 \<le> r \<and> r \<le> base * 11 div 10 + 1"
proof -
  obtain base where b: "est_clamped e rtt_min rtt_max = Some base"
    "effective_min rtt_min \<le> base" "base \<le> rtt_max"
    using clamp_range_Some [OF assms(1), of "est_smoothed e"] by (auto simp: est_clamped_def)
  moreover have "0 \<le> base" "base < 2 ^ 49" using b assms effective_min_eq [of rtt_min] by auto
  ultimately show ?thesis
    using scale_1_1_bounds [of base] by (simp add: est_retry_interval_def)
qed

theorem est_retry_interval_bounds_witness:
  "\<exists>base r. est_clamped (est_new 5000) 5000 500000 = Some base
    \<and> est_retry_interval (est_new 5000) 5000 500000 = Some r
    \<and> effective_min 5000 \<le> base \<and> base \<le> 500000
    \<and> base * 11 div 10 \<le> r \<and> r \<le> base * 11 div 10 + 1"
  by (rule est_retry_interval_bounds) (simp_all add: effective_min_eq)

end
