(* ===== verification/Wire.thy ===== *)
theory Wire
  imports Rist_Prelude Clock
begin

text \<open>
  The narrow waist (\<^verbatim>\<open>rist-core/src/wire.rs\<close>) and the effects the core emits
  (\<^verbatim>\<open>rist-core/src/flow/effects.rs\<close>): the normalized media packet, the feedback messages,
  the timers, outputs and events, and the counters of one flow. Payloads are byte lists: the
  zero-copy sharing of \<^verbatim>\<open>Bytes\<close> is not observable by the core, which never mutates one.
\<close>

datatype frag_role = Standalone | First | Middle | Last

record media_packet =
  mp_seq :: u32
  mp_source_time :: ntp64
  mp_ssrc :: u32
  mp_payload :: bytes
  mp_retransmit :: bool
  mp_path_id :: u8
  mp_frag :: frag_role
  mp_virt_src_port :: u16
  mp_virt_dst_port :: u16
  mp_short_seq :: bool

datatype feedback =
    Nack u32 "u32 list"
  | RttEchoRequest u32 u64
  | RttEchoResponse u32 u64 u32
  | SenderReport u64 u32
  | Keepalive
  | ExtSeq u16
  | LinkQuality bytes
  | FlowAttribute bytes

section \<open>Effects\<close>

datatype timer_id = Playout | NackTimer | RttEcho

text \<open>\<^verbatim>\<open>TimerId\<close> derives \<^verbatim>\<open>Ord\<close>, by which the host keys its timer wheel: the order of the
  constructors.\<close>

instantiation timer_id :: linorder
begin

definition timer_rank :: "timer_id \<Rightarrow> nat" where
  "timer_rank i = (case i of Playout \<Rightarrow> 0 | NackTimer \<Rightarrow> 1 | RttEcho \<Rightarrow> 2)"

definition less_eq_timer_id :: "timer_id \<Rightarrow> timer_id \<Rightarrow> bool" where
  "less_eq_timer_id a b \<longleftrightarrow> timer_rank a \<le> timer_rank b"

definition less_timer_id :: "timer_id \<Rightarrow> timer_id \<Rightarrow> bool" where
  "less_timer_id a b \<longleftrightarrow> timer_rank a < timer_rank b"

instance
  by standard
    (auto simp: less_eq_timer_id_def less_timer_id_def timer_rank_def split: timer_id.splits)

end

datatype flow_output =
    SendMedia u8 media_packet
  | SendFeedback u8 feedback
  | SetTimer timer_id timestamp
  | ClearTimer timer_id

datatype event =
  Deliver (ev_seq: u32) (ev_source_time: ntp64) (ev_payload: bytes) (ev_discontinuity: bool)
    (ev_frag: frag_role) (ev_virt_src_port: u16) (ev_virt_dst_port: u16)

text \<open>The counters. The gauges (the first group) stay zero in the incremental record and are
  filled by the snapshot.\<close>

record stats =
  st_smoothed_rtt_us :: int
  st_data_bitrate_bps :: int
  st_retry_bitrate_bps :: int
  st_ips_min_us :: int
  st_ips_cur_us :: int
  st_ips_max_us :: int
  st_avg_buffer_time_us :: int
  st_received :: nat
  st_received_bytes :: nat
  st_duplicates :: nat
  st_reordered :: nat
  st_overwritten :: nat
  st_too_late :: nat
  st_too_late_retransmit :: nat
  st_retransmitted_received :: nat
  st_clock_resync :: nat
  st_missing :: nat
  st_nacks_sent :: nat
  st_recovered :: nat
  st_recovered_one_retry :: nat
  st_recovered_two_nacks :: nat
  st_recovered_three_nacks :: nat
  st_recovered_four_nacks :: nat
  st_recovered_more_nacks :: nat
  st_abandoned :: nat
  st_delivered :: nat
  st_lost :: nat
  st_discontinuities :: nat
  st_ignored_feedback :: nat
  st_flow_resets :: nat
  st_framing_resets :: nat
  st_sent :: nat
  st_sent_bytes :: nat
  st_retransmitted :: nat
  st_retransmitted_bytes :: nat
  st_retransmit_skipped :: nat
  st_retransmit_suppressed :: nat
  st_retransmit_exhausted :: nat
  st_bandwidth_skipped :: nat
  st_anchored :: bool
  st_short_seq :: bool

definition stats_default :: stats where
  "stats_default =
     \<lparr>st_smoothed_rtt_us = 0, st_data_bitrate_bps = 0, st_retry_bitrate_bps = 0,
      st_ips_min_us = 0, st_ips_cur_us = 0, st_ips_max_us = 0, st_avg_buffer_time_us = 0,
      st_received = 0, st_received_bytes = 0, st_duplicates = 0, st_reordered = 0,
      st_overwritten = 0, st_too_late = 0, st_too_late_retransmit = 0,
      st_retransmitted_received = 0, st_clock_resync = 0, st_missing = 0, st_nacks_sent = 0,
      st_recovered = 0, st_recovered_one_retry = 0, st_recovered_two_nacks = 0,
      st_recovered_three_nacks = 0, st_recovered_four_nacks = 0, st_recovered_more_nacks = 0,
      st_abandoned = 0, st_delivered = 0, st_lost = 0, st_discontinuities = 0,
      st_ignored_feedback = 0, st_flow_resets = 0, st_framing_resets = 0, st_sent = 0,
      st_sent_bytes = 0, st_retransmitted = 0, st_retransmitted_bytes = 0,
      st_retransmit_skipped = 0, st_retransmit_suppressed = 0, st_retransmit_exhausted = 0,
      st_bandwidth_skipped = 0, st_anchored = False, st_short_seq = False\<rparr>"

end
