(* ===== verification/Flow_Config.thy ===== *)
theory Flow_Config
  imports Clock Wire
begin

text \<open>
  The parameters of one flow (\<^verbatim>\<open>Config\<close> of \<^verbatim>\<open>rist-core/src/flow/mod.rs\<close>) and the bounds and
  bit-rate averages derived from them (\<^verbatim>\<open>rist-core/src/flow/congestion.rs\<close>). Unsigned 32-bit
  parameters and counts are natural numbers, byte rates are the \<^verbatim>\<open>i64\<close> values as integers.
\<close>

datatype congestion_mode = Off | Normal | Aggressive

datatype timing_mode = Source | Arrival | Rtc

datatype role = Sender | Receiver

record config =
  recovery_buffer_min :: micros
  recovery_buffer_max :: micros
  reorder_buffer :: micros
  cfg_rtt_min :: micros
  cfg_rtt_max :: micros
  rtt_multiplier :: nat
  min_retries :: nat
  max_retries :: nat
  ring_size :: nat
  recovery_maxbitrate :: nat
  congestion_control :: congestion_mode
  cfg_ssrc :: u32
  start_seq :: u32
  no_recovery :: bool
  cfg_timing_mode :: timing_mode
  return_maxbitrate :: nat

definition default_ring_size :: nat where "default_ring_size = 2 ^ 16"

definition librist_defaults :: config where
  "librist_defaults =
     \<lparr>recovery_buffer_min = micros_from_millis 1000,
      recovery_buffer_max = micros_from_millis 1000,
      reorder_buffer = micros_from_millis 15,
      cfg_rtt_min = micros_from_millis 5,
      cfg_rtt_max = micros_from_millis 500,
      rtt_multiplier = 7, min_retries = 6, max_retries = 20,
      ring_size = default_ring_size,
      recovery_maxbitrate = 100000,
      congestion_control = Normal,
      cfg_ssrc = 0, start_seq = 0, no_recovery = False,
      cfg_timing_mode = Source, return_maxbitrate = 0\<rparr>"

definition recovery_buffer_of :: "config \<Rightarrow> micros" where
  "recovery_buffer_of cfg =
     (let span = micros_sub (recovery_buffer_max cfg) (recovery_buffer_min cfg)
      in micros_add (trunc_div span 2) (recovery_buffer_min cfg))"

section \<open>Derived bounds\<close>

definition rist_header_overhead_bytes :: int where "rist_header_overhead_bytes = 28"
definition rist_nack_mtu_assumed :: int where "rist_nack_mtu_assumed = 1400"
definition rist_max_jitter_ms :: int where "rist_max_jitter_ms = 5"
definition bitrate_slow_window_us :: int where "bitrate_slow_window_us = 1000000"
definition bitrate_fast_window_us :: int where "bitrate_fast_window_us = 100000"
definition ring_packet_bytes :: int where "ring_packet_bytes = 1100"
definition max_derived_ring_size :: nat where "max_derived_ring_size = 2 ^ 21"

text \<open>\<^verbatim>\<open>u32::try_from(v.max(0)).unwrap_or(u32::MAX)\<close>\<close>

definition to_u32_sat :: "int \<Rightarrow> nat" where
  "to_u32_sat v = min 4294967295 (nat (max v 0))"

definition derive_missing_counter_max :: "config \<Rightarrow> nat" where
  "derive_missing_counter_max cfg =
     (let recovery_ms = trunc_div (recovery_buffer_of cfg) 1000;
          mbps = max (int (recovery_maxbitrate cfg) div 1000) 1
      in to_u32_sat (trunc_div (wrap_i64 (recovery_ms * mbps)) rist_header_overhead_bytes))"

definition effective_kbps :: "config \<Rightarrow> int" where
  "effective_kbps cfg =
     (if recovery_maxbitrate cfg = 0 then 100000 else int (recovery_maxbitrate cfg))"

definition derive_max_nacks_per_loop :: "config \<Rightarrow> nat" where
  "derive_max_nacks_per_loop cfg =
     (let buf_max_ms = max (trunc_div (recovery_buffer_max cfg) 1000) 1;
          n0 = trunc_div (effective_kbps cfg * rist_max_jitter_ms) (8 * rist_nack_mtu_assumed);
          n1 = trunc_div (n0 * 1000) buf_max_ms;
          n = (if n1 = 0 then 1 else n1)
      in to_u32_sat (n * 2))"

definition derive_ring_size :: "config \<Rightarrow> nat" where
  "derive_ring_size cfg =
     (let w = wrap_i64 (recovery_buffer_max cfg + wrap_i64 (2 * cfg_rtt_min cfg));
          rb = recovery_buffer_of cfg;
          window_us = (if w < rb then rb else w);
          packets = max (trunc_div (wrap_i64 (window_us * effective_kbps cfg)) (8000 * ring_packet_bytes)) 0
      in max default_ring_size (min max_derived_ring_size (nat packets)))"

definition effective_ring_size :: "config \<Rightarrow> nat" where
  "effective_ring_size cfg =
     (if ring_size cfg = 0 then next_power_of_two (derive_ring_size cfg)
      else next_power_of_two (ring_size cfg))"

text \<open>The ring is a power of two, and a derived ring lies between \<open>2 ^ 16\<close> and \<open>2 ^ 21\<close> slots.\<close>

lemma effective_ring_size_pow2: "\<exists>k. effective_ring_size cfg = 2 ^ k"
  by (auto simp: effective_ring_size_def next_power_of_two_def)

lemma derive_ring_size_bounds:
  "default_ring_size \<le> derive_ring_size cfg \<and> derive_ring_size cfg \<le> max_derived_ring_size"
proof -
  have "a \<le> b \<Longrightarrow> a \<le> max a (min b x) \<and> max a (min b x) \<le> b" for a b x :: nat by simp
  moreover have "default_ring_size \<le> max_derived_ring_size"
    by (simp add: default_ring_size_def max_derived_ring_size_def)
  ultimately show ?thesis unfolding derive_ring_size_def Let_def .
qed

text \<open>Every flow gets a ring of a power of two of slots that is at least as large as asked for;
  a ring derived from the recovery window holds between \<open>2 ^ 16\<close> and \<open>2 ^ 21\<close> slots.\<close>

theorem effective_ring_size_ok:
  "(\<exists>k. effective_ring_size cfg = 2 ^ k) \<and> ring_size cfg \<le> effective_ring_size cfg
    \<and> (ring_size cfg \<noteq> 0 \<or> default_ring_size \<le> effective_ring_size cfg
         \<and> effective_ring_size cfg \<le> max_derived_ring_size)"
proof -
  have "effective_ring_size cfg \<le> max_derived_ring_size" if "ring_size cfg = 0"
    using that derive_ring_size_bounds [of cfg] next_power_of_two_le [of _ 21]
    by (simp add: effective_ring_size_def max_derived_ring_size_def)
  moreover have "default_ring_size \<le> effective_ring_size cfg" if "ring_size cfg = 0"
    using that derive_ring_size_bounds [of cfg] next_power_of_two_ge [of "derive_ring_size cfg"]
    by (simp add: effective_ring_size_def)
  ultimately show ?thesis
    using effective_ring_size_pow2 [of cfg] next_power_of_two_ge [of "ring_size cfg"]
    by (auto simp: effective_ring_size_def)
qed

theorem effective_ring_size_ok_witness:
  "default_ring_size \<le> effective_ring_size (librist_defaults\<lparr>ring_size := 0\<rparr>)
    \<and> effective_ring_size (librist_defaults\<lparr>ring_size := 0\<rparr>) \<le> max_derived_ring_size"
  using effective_ring_size_ok [of "librist_defaults\<lparr>ring_size := 0\<rparr>"] by simp

section \<open>Bit-rate averages\<close>

record bitrate_ewma =
  bytes_slow :: int
  bytes_fast :: int
  last_slow :: timestamp
  last_fast :: timestamp
  eight_slow :: int
  eight_fast :: int
  seeded :: bool

definition ewma_default :: bitrate_ewma where
  "ewma_default = \<lparr>bytes_slow = 0, bytes_fast = 0, last_slow = 0, last_fast = 0,
     eight_slow = 0, eight_fast = 0, seeded = False\<rparr>"

definition ewma_feed :: "bitrate_ewma \<Rightarrow> timestamp \<Rightarrow> int \<Rightarrow> bitrate_ewma" where
  "ewma_feed w0 now n =
     (let w = (if seeded w0 then w0
               else w0\<lparr>last_slow := now, last_fast := now, seeded := True\<rparr>);
          w = w\<lparr>bytes_slow := wrap_i64 (bytes_slow w + n), bytes_fast := wrap_i64 (bytes_fast w + n)\<rparr>;
          elapsed_slow = ts_diff now (last_slow w);
          w = (if bitrate_slow_window_us \<le> elapsed_slow
               then let sample = trunc_div (wrap_i64 (wrap_i64 (8 * bytes_slow w) * 1000000)) elapsed_slow
                    in w\<lparr>eight_slow := wrap_i64 (eight_slow w + wrap_i64 (sample - trunc_div (eight_slow w) 8)),
                         last_slow := now, bytes_slow := 0\<rparr>
               else w);
          elapsed_fast = ts_diff now (last_fast w)
      in if bitrate_fast_window_us \<le> elapsed_fast
         then let sample = trunc_div (wrap_i64 (wrap_i64 (8 * bytes_fast w) * 1000000)) elapsed_fast
              in w\<lparr>eight_fast := wrap_i64 (eight_fast w + wrap_i64 (sample - trunc_div (eight_fast w) 8)),
                   last_fast := now, bytes_fast := 0\<rparr>
         else w)"

definition slow_bps :: "bitrate_ewma \<Rightarrow> int" where
  "slow_bps w = trunc_div (eight_slow w) 8"

definition fast_bps :: "bitrate_ewma \<Rightarrow> int" where
  "fast_bps w = trunc_div (eight_fast w) 8"

definition over_budget ::
    "congestion_mode \<Rightarrow> bitrate_ewma \<Rightarrow> bitrate_ewma \<Rightarrow> nat \<Rightarrow> bool" where
  "over_budget mode data retry max_kbps =
     (let ceiling = int max_kbps * 1000
      in case mode of
           Off \<Rightarrow> False
         | Aggressive \<Rightarrow> ceiling < fast_bps data + fast_bps retry
         | Normal \<Rightarrow> ceiling < slow_bps data + fast_bps retry)"

definition wire_bytes :: "nat \<Rightarrow> int" where
  "wire_bytes payload_len = wrap_i64 (min i64_max (int payload_len) + rist_header_overhead_bytes)"

text \<open>Averages that have not wrapped; an idle window only lowers them.\<close>

definition ewma_ok :: "bitrate_ewma \<Rightarrow> bool" where
  "ewma_ok w \<longleftrightarrow> 0 \<le> bytes_slow w \<and> 0 \<le> bytes_fast w \<and> 0 \<le> eight_slow w \<and> 0 \<le> eight_fast w
     \<and> eight_slow w \<le> i64_max \<and> eight_fast w \<le> i64_max"

lemma ewma_default_ok: "ewma_ok ewma_default"
  by (simp add: ewma_ok_def ewma_default_def)

text \<open>Pure decay. With no new bytes and none pending, a refresh (the zero-length feed that
  opens every NACK pass) never raises either average, so a closed budget can reopen.\<close>

theorem ewma_refresh_decays:
  assumes "ewma_ok w" "bytes_slow w = 0" "bytes_fast w = 0"
  shows "slow_bps (ewma_feed w now 0) \<le> slow_bps w \<and> fast_bps (ewma_feed w now 0) \<le> fast_bps w"
proof -
  have t0: "trunc_div 0 t = 0" for t by (simp add: trunc_div_def)
  have mono: "trunc_div (e - trunc_div e 8) 8 \<le> trunc_div e 8" if "0 \<le> e" for e
  proof -
    have "trunc_div e 8 = e div 8" using that by (simp add: trunc_div_nonneg)
    moreover have "0 \<le> e div 8" "e div 8 \<le> e" using that by simp_all
    ultimately show ?thesis by (simp add: trunc_div_nonneg zdiv_mono1)
  qed
  have wrap: "wrap_i64 (e + wrap_i64 (- trunc_div e 8)) = e - trunc_div e 8" if "0 \<le> e" "e \<le> i64_max" for e
    using that by (simp add: trunc_div_nonneg)
  have "0 \<le> eight_slow w" "0 \<le> eight_fast w" "eight_slow w \<le> i64_max" "eight_fast w \<le> i64_max"
    using assms(1) by (simp_all add: ewma_ok_def)
  then show ?thesis
    using assms(2,3) mono by (auto simp: slow_bps_def fast_bps_def ewma_feed_def Let_def t0 wrap)
qed

theorem ewma_refresh_decays_witness:
  "slow_bps (ewma_feed (ewma_default\<lparr>eight_slow := 8000, seeded := True\<rparr>) 2000000 0) \<le> 1000"
  using ewma_refresh_decays [of "ewma_default\<lparr>eight_slow := 8000, seeded := True\<rparr>" 2000000]
  by (simp add: ewma_ok_def ewma_default_def slow_bps_def trunc_div_def)

end
