(* ===== verification/Interfaces.thy ===== *)
theory Interfaces
  imports Rist_Prelude
begin

text \<open>
  The interfaces between components, as locales, and the lemmas a client draws from them once.
  \<open>packet_store\<close> is the sequence-indexed ring as its users see it (the receiver's reorder ring and
  the sender's retransmit history provide it); \<open>total_machine\<close> is a state machine whose step never
  panics under its invariant (every stateful component provides it).
\<close>

section \<open>Runs of a machine that may panic\<close>

fun run_steps :: "('s \<Rightarrow> 'i \<Rightarrow> 's option) \<Rightarrow> 's \<Rightarrow> 'i list \<Rightarrow> 's option" where
  "run_steps step s [] = Some s"
| "run_steps step s (i # is) =
     (case step s i of None \<Rightarrow> None | Some s' \<Rightarrow> run_steps step s' is)"

lemma run_steps_append:
  "run_steps step s (xs @ ys) =
     (case run_steps step s xs of None \<Rightarrow> None | Some s' \<Rightarrow> run_steps step s' ys)"
  by (induction xs arbitrary: s) (auto split: option.splits)

locale total_machine =
  fixes step :: "'s \<Rightarrow> 'i \<Rightarrow> 's option"
    and inv :: "'s \<Rightarrow> bool"
  assumes step_total: "inv s \<Longrightarrow> \<exists>s'. step s i = Some s' \<and> inv s'"
begin

lemma run_total: "inv s \<Longrightarrow> \<exists>s'. run_steps step s is = Some s' \<and> inv s'"
proof (induction "is" arbitrary: s)
  case Nil
  then show ?case by simp
next
  case (Cons i "is")
  from step_total [OF Cons.prems, of i] obtain s' where "step s i = Some s'" "inv s'" by blast
  with Cons.IH [of s'] show ?case by simp
qed

lemma run_inv: "inv s \<Longrightarrow> run_steps step s is = Some s' \<Longrightarrow> inv s'"
  using run_total [of s "is"] by auto

lemma run_never_panics: "inv s \<Longrightarrow> run_steps step s is \<noteq> None"
  using run_total [of s "is"] by auto

end

section \<open>The sequence-indexed packet store\<close>

locale packet_store =
  fixes lookup :: "'r \<Rightarrow> u32 \<Rightarrow> 'p option"
    and store :: "'r \<Rightarrow> u32 \<Rightarrow> 'p \<Rightarrow> 'r"
    and slots :: "'r \<Rightarrow> nat"
    and invar :: "'r \<Rightarrow> bool"
  assumes invar_store: "invar r \<Longrightarrow> invar (store r s p)"
    and slots_store: "invar r \<Longrightarrow> slots (store r s p) = slots r"
    and slots_dvd: "invar r \<Longrightarrow> slots r dvd 2 ^ 32"
    and lookup_store: "invar r \<Longrightarrow> lookup (store r s p) s = Some p"
    and lookup_other: "invar r \<Longrightarrow> unat t mod slots r \<noteq> unat s mod slots r \<Longrightarrow>
          lookup (store r s p) t = lookup r t"
begin

lemma slot_apart:
  fixes s :: u32
  assumes "invar r" "0 < k" "k < slots r"
  shows "unat (s + of_nat k) mod slots r \<noteq> unat s mod slots r"
proof
  assume eq: "unat (s + of_nat k) mod slots r = unat s mod slots r"
  have "unat (s + of_nat k) = (unat s + k) mod 2 ^ 32"
    using unat_of_nat [of "unat s + k", where 'a = 32] by simp
  then have "unat (s + of_nat k) mod slots r = (unat s + k) mod slots r"
    using slots_dvd [OF assms(1)] by (simp add: mod_mod_cancel)
  with eq have "(unat s + k) mod slots r = unat s mod slots r" by simp
  then have "unat s = unat s + k" using assms(3)
    by (metis mod_eq_close le_add1 nat_add_left_cancel_less)
  with assms(2) show False by simp
qed

text \<open>Storing a run of consecutive sequence numbers: as long as the run is no longer than the
  ring, every packet of it can still be looked up.\<close>

primrec store_run :: "'r \<Rightarrow> u32 \<Rightarrow> 'p list \<Rightarrow> 'r" where
  "store_run r s [] = r"
| "store_run r s (p # ps) = store_run (store r s p) (s + 1) ps"

lemma store_run_invar: "invar r \<Longrightarrow> invar (store_run r s ps) \<and> slots (store_run r s ps) = slots r"
  by (induction ps arbitrary: r s) (simp_all add: invar_store slots_store)

lemma lookup_before_run:
  assumes "invar r" "length ps < slots r" "0 < k" "k + length ps \<le> slots r"
  shows "lookup (store_run r (s + of_nat k) ps) s = lookup r s"
  using assms
proof (induction ps arbitrary: r k)
  case Nil
  then show ?case by simp
next
  case (Cons p ps)
  have "unat (s + of_nat k) mod slots r \<noteq> unat s mod slots r"
    using Cons.prems by (intro slot_apart) simp_all
  then have keep: "lookup (store r (s + of_nat k) p) s = lookup r s"
    using Cons.prems by (intro lookup_other) simp_all
  have "lookup (store_run (store r (s + of_nat k) p) (s + of_nat (Suc k)) ps) s =
      lookup (store r (s + of_nat k) p) s"
    using Cons.prems by (intro Cons.IH) (simp_all add: invar_store slots_store)
  with keep show ?case by (simp add: ac_simps)
qed

lemma lookup_store_run:
  assumes "invar r" "length ps \<le> slots r" "i < length ps"
  shows "lookup (store_run r s ps) (s + of_nat i) = Some (ps ! i)"
  using assms
proof (induction ps arbitrary: r s i)
  case Nil
  then show ?case by simp
next
  case (Cons p ps)
  note inv = invar_store [OF Cons.prems(1), of s p]
  show ?case
  proof (cases i)
    case 0
    have "lookup (store_run (store r s p) (s + of_nat 1) ps) s = lookup (store r s p) s"
      using Cons.prems inv by (intro lookup_before_run) (simp_all add: slots_store)
    with 0 show ?thesis using lookup_store [OF Cons.prems(1), of s p] by simp
  next
    case (Suc j)
    have "lookup (store_run (store r s p) (s + 1) ps) (s + 1 + of_nat j) = Some (ps ! j)"
      using Cons.prems inv Suc by (intro Cons.IH) (simp_all add: slots_store)
    with Suc show ?thesis by (simp add: ac_simps)
  qed
qed

end

end
