(* ===== verification/Flow_State.thy ===== *)
theory Flow_State
  imports Float64 Seq_Arith Rtt Flow_Config Interfaces
begin

text \<open>
  The state of one flow (\<^verbatim>\<open>rist-core/src/flow/\<close>): the receiver's reorder ring, cursors and
  missing queue (\<^verbatim>\<open>receiver.rs\<close>), the sender's retransmit history (\<^verbatim>\<open>sender.rs\<close>) and the
  \<^verbatim>\<open>Flow\<close> that holds both (\<^verbatim>\<open>mod.rs\<close>), with their constructors. Rings are lists of slots
  read through \<open>vec_get\<close>, so an index out of range is a panic of the model as it is of the code.
\<close>

section \<open>Rings of slots\<close>

text \<open>\<^verbatim>\<open>(seq & mask) as usize\<close>, and the mask \<^verbatim>\<open>(ring_size - 1) as u32\<close>.\<close>

definition ring_index :: "u32 \<Rightarrow> u32 \<Rightarrow> nat" where
  "ring_index mk s = unat (s AND mk)"

definition ring_mask :: "nat \<Rightarrow> u32" where
  "ring_mask n = of_nat (n - 1)"

definition ring_slot :: "'s list \<Rightarrow> u32 \<Rightarrow> u32 \<Rightarrow> 's option" where
  "ring_slot ring mk s = vec_get ring (ring_index mk s)"

text \<open>The geometry every ring is built with: a power of two of slots and the matching mask.\<close>

definition ring_geometry :: "'s list \<Rightarrow> u32 \<Rightarrow> bool" where
  "ring_geometry ring mk \<longleftrightarrow> (\<exists>k \<le> 31. length ring = 2 ^ k \<and> mk = mask k)"

lemma ring_geometry_mask:
  "k \<le> 31 \<Longrightarrow> length ring = 2 ^ k \<Longrightarrow> ring_geometry ring (ring_mask (length ring))"
  by (auto simp: ring_geometry_def ring_mask_def mask_eq_decr_exp of_nat_diff)

lemma ring_geometry_update [simp]: "ring_geometry (ring[i := x]) mk = ring_geometry ring mk"
  by (simp add: ring_geometry_def)

lemma ring_geometry_length: "length r = length ring \<Longrightarrow> ring_geometry r mk = ring_geometry ring mk"
  by (simp add: ring_geometry_def)

lemma ring_index_eq: "ring_geometry ring mk \<Longrightarrow> ring_index mk s = unat s mod length ring"
  by (auto simp: ring_geometry_def ring_index_def)

lemma ring_index_less: "ring_geometry ring mk \<Longrightarrow> ring_index mk s < length ring"
  by (auto simp: ring_index_eq) (auto simp: ring_geometry_def)

lemma ring_slot_panic_free [panic_free]:
  "ring_geometry ring mk \<Longrightarrow> ring_slot ring mk s = Some (ring ! ring_index mk s)"
  by (simp add: ring_slot_def ring_index_less)

lemma ring_geometry_pos: "ring_geometry ring mk \<Longrightarrow> 0 < length ring"
  by (auto simp: ring_geometry_def)

lemma ring_geometry_dvd: "ring_geometry ring mk \<Longrightarrow> length ring dvd 2 ^ 32"
  unfolding ring_geometry_def using le_imp_power_dvd [of _ 32 "2::nat"] by fastforce

lemma ring_geometry_bound: "ring_geometry ring mk \<Longrightarrow> length ring \<le> 2 ^ 31"
  unfolding ring_geometry_def by (metis one_le_numeral power_increasing)

lemma ring_index_add:
  assumes "ring_geometry ring mk"
  shows "ring_index mk (s + of_nat k) = (ring_index mk s + k) mod length ring"
proof -
  have "unat (s + of_nat k) = (unat s + k) mod 2 ^ 32"
    using unat_of_nat [of "unat s + k", where 'a = 32] by simp
  then show ?thesis
    using ring_geometry_dvd [OF assms]
    by (simp add: ring_index_eq [OF assms] mod_mod_cancel mod_add_left_eq)
qed

text \<open>Two numbers at most a ring apart share a slot only when they are equal.\<close>

lemma ring_index_inj:
  assumes "ring_geometry ring mk" "unat (s - c) < length ring" "unat (t - c) < length ring"
    "ring_index mk s = ring_index mk t"
  shows "s = t"
proof -
  have step: "ring_index mk x = (ring_index mk c + unat (x - c)) mod length ring" for x
    using ring_index_add [OF assms(1), of c "unat (x - c)"] by simp
  have "(ring_index mk c + unat (s - c)) mod length ring =
      (ring_index mk c + unat (t - c)) mod length ring"
    using assms(4) step [of s] step [of t] by simp
  then have "unat (s - c) = unat (t - c)" using assms(2,3) by (rule mod_add_cancel)
  then have "s - c = t - c" by (simp only: word_unat_eq_iff)
  then show ?thesis by simp
qed

section \<open>The receiver half\<close>

datatype slot_state = Empty | Filled

record slot =
  sl_payload :: bytes
  sl_source_time :: ntp64
  sl_arrival :: timestamp
  sl_packet_time :: timestamp
  sl_output_time :: timestamp
  sl_path_seen :: u64
  sl_seq :: u32
  sl_frag :: frag_role
  sl_virt_src_port :: u16
  sl_virt_dst_port :: u16
  sl_state :: slot_state

definition slot_default :: slot where
  "slot_default = \<lparr>sl_payload = [], sl_source_time = 0, sl_arrival = 0, sl_packet_time = 0,
     sl_output_time = 0, sl_path_seen = 0, sl_seq = 0, sl_frag = Standalone,
     sl_virt_src_port = 0, sl_virt_dst_port = 0, sl_state = Empty\<rparr>"

record missing_entry =
  me_seq :: u32
  me_path :: u8
  me_nack_count :: nat
  me_insertion_time :: timestamp
  me_next_nack :: timestamp

record receiver_state =
  rv_ring :: "slot list"
  rv_mask :: u32
  rv_started :: bool
  rv_offset :: micros
  rv_ssrc :: u32
  rv_short_seq :: bool
  rv_last_found :: u32
  rv_max_source_time :: ntp64
  rv_last_packet_time :: timestamp
  rv_highest :: u32
  rv_deliver_next :: u32
  rv_pending_discontinuity :: bool
  rv_last_path :: u8
  rv_missing :: "missing_entry list"
  rv_playout_armed :: bool
  rv_playout_deadline :: timestamp
  rv_nack_armed :: bool
  rv_sender_max_buffer :: micros
  rv_loss_snap :: nat
  rv_recovered_snap :: nat
  rv_last_resync :: timestamp
  rv_nack_seqs_per_sec :: f64
  rv_nack_token_burst :: f64
  rv_nack_tokens :: f64
  rv_nack_tokens_time :: timestamp
  rv_ips_last_arrival :: timestamp
  rv_ips_min_us :: int
  rv_ips_cur_us :: int
  rv_ips_max_us :: int
  rv_buffer_time_sum :: int
  rv_buffer_time_samples :: nat

definition receiver_new :: "nat \<Rightarrow> receiver_state" where
  "receiver_new n =
     \<lparr>rv_ring = replicate n slot_default, rv_mask = ring_mask n, rv_started = False,
      rv_offset = 0, rv_ssrc = 0, rv_short_seq = False, rv_last_found = 0,
      rv_max_source_time = 0, rv_last_packet_time = 0, rv_highest = 0, rv_deliver_next = 0,
      rv_pending_discontinuity = False, rv_last_path = 0, rv_missing = [],
      rv_playout_armed = False, rv_playout_deadline = 0, rv_nack_armed = False,
      rv_sender_max_buffer = 0, rv_loss_snap = 0, rv_recovered_snap = 0, rv_last_resync = 0,
      rv_nack_seqs_per_sec = f64_of_int 0, rv_nack_token_burst = f64_of_int 0,
      rv_nack_tokens = f64_of_int 0, rv_nack_tokens_time = 0, rv_ips_last_arrival = 0,
      rv_ips_min_us = i64_max, rv_ips_cur_us = 0, rv_ips_max_us = 0,
      rv_buffer_time_sum = 0, rv_buffer_time_samples = 0\<rparr>"

definition receiver_empty :: receiver_state where
  "receiver_empty = receiver_new 1"

definition rist_nack_bytes_per_seq :: f64 where
  "rist_nack_bytes_per_seq = f64_of_int 4"

definition rist_nack_token_burst :: f64 where
  "rist_nack_token_burst = f64_of_int 200"

definition set_return_bandwidth :: "receiver_state \<Rightarrow> nat \<Rightarrow> receiver_state" where
  "set_return_bandwidth r kbps =
     r\<lparr>rv_nack_seqs_per_sec :=
         f64_div (f64_div (f64_mul (f64_of_int (int kbps)) (f64_of_int 1000)) (f64_of_int 8))
           rist_nack_bytes_per_seq,
       rv_nack_token_burst := rist_nack_token_burst,
       rv_nack_tokens := rist_nack_token_burst\<rparr>"

section \<open>The sender half\<close>

record sender_slot =
  ss_payload :: bytes
  ss_source_time :: ntp64
  ss_seq :: u32
  ss_transmit_count :: nat
  ss_last_retry :: timestamp
  ss_retried :: bool
  ss_frag :: frag_role
  ss_state :: slot_state

definition sender_slot_default :: sender_slot where
  "sender_slot_default = \<lparr>ss_payload = [], ss_source_time = 0, ss_seq = 0, ss_transmit_count = 0,
     ss_last_retry = 0, ss_retried = False, ss_frag = Standalone, ss_state = Empty\<rparr>"

record sender_state =
  sn_ring :: "sender_slot list"
  sn_mask :: u32
  sn_started :: bool
  sn_ssrc :: u32
  sn_next_seq :: u32
  sn_tx_path :: u8
  sn_data_bw :: bitrate_ewma
  sn_retry_bw :: bitrate_ewma

definition sender_new :: "nat \<Rightarrow> u32 \<Rightarrow> u32 \<Rightarrow> sender_state" where
  "sender_new n ssrc start =
     \<lparr>sn_ring = replicate n sender_slot_default, sn_mask = ring_mask n, sn_started = False,
      sn_ssrc = ssrc, sn_next_seq = start, sn_tx_path = 0,
      sn_data_bw = ewma_default, sn_retry_bw = ewma_default\<rparr>"

definition sender_empty :: sender_state where
  "sender_empty = sender_new 1 0 0"

section \<open>The flow\<close>

record flow =
  fl_role :: role
  fl_cfg :: config
  fl_recovery_buffer :: micros
  fl_recovery_buffer_110 :: micros
  fl_est :: estimator
  fl_missing_counter_max :: nat
  fl_max_nacks_per_loop :: nat
  fl_outputs :: "flow_output list"
  fl_events :: "event list"
  fl_stats :: stats
  fl_receiver :: receiver_state
  fl_sender :: sender_state

definition mul_1_1 :: "micros \<Rightarrow> micros" where
  "mul_1_1 d = scale_1_1 d"

definition flow_new :: "role \<Rightarrow> config \<Rightarrow> flow" where
  "flow_new role cfg =
     (let size = effective_ring_size cfg;
          rb = recovery_buffer_of cfg;
          recv = (case role of Receiver \<Rightarrow> receiver_new size | Sender \<Rightarrow> receiver_empty);
          send = (case role of Receiver \<Rightarrow> sender_empty
                  | Sender \<Rightarrow> sender_new size (cfg_ssrc cfg) (start_seq cfg));
          recv = (if role = Receiver \<and> 0 < return_maxbitrate cfg
                  then set_return_bandwidth recv (return_maxbitrate cfg) else recv)
      in \<lparr>fl_role = role, fl_cfg = cfg,
          fl_recovery_buffer = rb, fl_recovery_buffer_110 = mul_1_1 rb,
          fl_est = est_new (cfg_rtt_min cfg),
          fl_missing_counter_max = derive_missing_counter_max cfg,
          fl_max_nacks_per_loop = derive_max_nacks_per_loop cfg,
          fl_outputs = [], fl_events = [], fl_stats = stats_default,
          fl_receiver = recv, fl_sender = send\<rparr>)"

text \<open>The four kinds of mutation the methods of \<^verbatim>\<open>Flow\<close> perform.\<close>

definition push_output :: "flow_output \<Rightarrow> flow \<Rightarrow> flow" where
  "push_output out f = f\<lparr>fl_outputs := fl_outputs f @ [out]\<rparr>"

definition push_event :: "event \<Rightarrow> flow \<Rightarrow> flow" where
  "push_event e f = f\<lparr>fl_events := fl_events f @ [e]\<rparr>"

definition upd_stats :: "(stats \<Rightarrow> stats) \<Rightarrow> flow \<Rightarrow> flow" where
  "upd_stats g f = f\<lparr>fl_stats := g (fl_stats f)\<rparr>"

definition upd_recv :: "(receiver_state \<Rightarrow> receiver_state) \<Rightarrow> flow \<Rightarrow> flow" where
  "upd_recv g f = f\<lparr>fl_receiver := g (fl_receiver f)\<rparr>"

definition upd_send :: "(sender_state \<Rightarrow> sender_state) \<Rightarrow> flow \<Rightarrow> flow" where
  "upd_send g f = f\<lparr>fl_sender := g (fl_sender f)\<rparr>"

lemma push_output_simps [simp]:
  "fl_role (push_output x f) = fl_role f" "fl_cfg (push_output x f) = fl_cfg f"
  "fl_recovery_buffer (push_output x f) = fl_recovery_buffer f"
  "fl_recovery_buffer_110 (push_output x f) = fl_recovery_buffer_110 f"
  "fl_est (push_output x f) = fl_est f"
  "fl_missing_counter_max (push_output x f) = fl_missing_counter_max f"
  "fl_max_nacks_per_loop (push_output x f) = fl_max_nacks_per_loop f"
  "fl_outputs (push_output x f) = fl_outputs f @ [x]" "fl_events (push_output x f) = fl_events f"
  "fl_stats (push_output x f) = fl_stats f" "fl_receiver (push_output x f) = fl_receiver f"
  "fl_sender (push_output x f) = fl_sender f"
  by (simp_all add: push_output_def)

lemma push_event_simps [simp]:
  "fl_role (push_event x f) = fl_role f" "fl_cfg (push_event x f) = fl_cfg f"
  "fl_recovery_buffer (push_event x f) = fl_recovery_buffer f"
  "fl_recovery_buffer_110 (push_event x f) = fl_recovery_buffer_110 f"
  "fl_est (push_event x f) = fl_est f"
  "fl_missing_counter_max (push_event x f) = fl_missing_counter_max f"
  "fl_max_nacks_per_loop (push_event x f) = fl_max_nacks_per_loop f"
  "fl_outputs (push_event x f) = fl_outputs f" "fl_events (push_event x f) = fl_events f @ [x]"
  "fl_stats (push_event x f) = fl_stats f" "fl_receiver (push_event x f) = fl_receiver f"
  "fl_sender (push_event x f) = fl_sender f"
  by (simp_all add: push_event_def)

lemma upd_stats_simps [simp]:
  "fl_role (upd_stats g f) = fl_role f" "fl_cfg (upd_stats g f) = fl_cfg f"
  "fl_recovery_buffer (upd_stats g f) = fl_recovery_buffer f"
  "fl_recovery_buffer_110 (upd_stats g f) = fl_recovery_buffer_110 f"
  "fl_est (upd_stats g f) = fl_est f"
  "fl_missing_counter_max (upd_stats g f) = fl_missing_counter_max f"
  "fl_max_nacks_per_loop (upd_stats g f) = fl_max_nacks_per_loop f"
  "fl_outputs (upd_stats g f) = fl_outputs f" "fl_events (upd_stats g f) = fl_events f"
  "fl_stats (upd_stats g f) = g (fl_stats f)" "fl_receiver (upd_stats g f) = fl_receiver f"
  "fl_sender (upd_stats g f) = fl_sender f"
  by (simp_all add: upd_stats_def)

lemma upd_recv_simps [simp]:
  "fl_role (upd_recv h f) = fl_role f" "fl_cfg (upd_recv h f) = fl_cfg f"
  "fl_recovery_buffer (upd_recv h f) = fl_recovery_buffer f"
  "fl_recovery_buffer_110 (upd_recv h f) = fl_recovery_buffer_110 f"
  "fl_est (upd_recv h f) = fl_est f"
  "fl_missing_counter_max (upd_recv h f) = fl_missing_counter_max f"
  "fl_max_nacks_per_loop (upd_recv h f) = fl_max_nacks_per_loop f"
  "fl_outputs (upd_recv h f) = fl_outputs f" "fl_events (upd_recv h f) = fl_events f"
  "fl_stats (upd_recv h f) = fl_stats f" "fl_receiver (upd_recv h f) = h (fl_receiver f)"
  "fl_sender (upd_recv h f) = fl_sender f"
  by (simp_all add: upd_recv_def)

lemma upd_send_simps [simp]:
  "fl_role (upd_send k f) = fl_role f" "fl_cfg (upd_send k f) = fl_cfg f"
  "fl_recovery_buffer (upd_send k f) = fl_recovery_buffer f"
  "fl_recovery_buffer_110 (upd_send k f) = fl_recovery_buffer_110 f"
  "fl_est (upd_send k f) = fl_est f"
  "fl_missing_counter_max (upd_send k f) = fl_missing_counter_max f"
  "fl_max_nacks_per_loop (upd_send k f) = fl_max_nacks_per_loop f"
  "fl_outputs (upd_send k f) = fl_outputs f" "fl_events (upd_send k f) = fl_events f"
  "fl_stats (upd_send k f) = fl_stats f" "fl_receiver (upd_send k f) = fl_receiver f"
  "fl_sender (upd_send k f) = k (fl_sender f)"
  by (simp_all add: upd_send_def)

end
