(* ===== verification/Playout.thy ===== *)
theory Playout
  imports Flow_State
begin

text \<open>
  Time-driven in-order playout of the receiver (\<^verbatim>\<open>deliver_due\<close>, \<^verbatim>\<open>emit_deliver\<close>,
  \<^verbatim>\<open>skip_to\<close>, \<^verbatim>\<open>arm_playout\<close> and \<^verbatim>\<open>disarm_playout\<close> of
  \<^verbatim>\<open>rist-core/src/flow/receiver.rs\<close>). The loops are recursive functions over the option type
  (\<open>None\<close> is an index out of range); the delivery loop terminates because every turn empties a
  slot or brings the cursor closer to the newest sequence number.
\<close>

definition slot_holds :: "slot \<Rightarrow> u32 \<Rightarrow> bool" where
  "slot_holds s n \<longleftrightarrow> sl_state s = Filled \<and> sl_seq s = n"

section \<open>The playout timer\<close>

definition arm_playout :: "timestamp \<Rightarrow> flow \<Rightarrow> flow" where
  "arm_playout deadline f =
     (if rv_playout_armed (fl_receiver f) \<and> rv_playout_deadline (fl_receiver f) \<le> deadline then f
      else push_output (SetTimer Playout deadline)
             (upd_recv (\<lambda>r. r\<lparr>rv_playout_armed := True, rv_playout_deadline := deadline\<rparr>) f))"

definition disarm_playout :: "flow \<Rightarrow> flow" where
  "disarm_playout f =
     (if \<not> rv_playout_armed (fl_receiver f) then f
      else push_output (ClearTimer Playout)
             (upd_recv (\<lambda>r. r\<lparr>rv_playout_armed := False\<rparr>) f))"

section \<open>Delivering one slot\<close>

definition emit_deliver :: "flow \<Rightarrow> nat \<Rightarrow> flow option" where
  "emit_deliver f idx =
     do {
       s \<leftarrow> vec_get (rv_ring (fl_receiver f)) idx;
       let e = Deliver (sl_seq s) (sl_source_time s) (sl_payload s)
                 (rv_pending_discontinuity (fl_receiver f)) (sl_frag s)
                 (sl_virt_src_port s) (sl_virt_dst_port s);
       Some (upd_recv (\<lambda>r. r\<lparr>rv_deliver_next := rv_deliver_next r + 1\<rparr>)
              (upd_stats (\<lambda>st. st\<lparr>st_delivered := st_delivered st + 1\<rparr>)
                (push_event e
                  (upd_recv (\<lambda>r. r\<lparr>rv_ring := (rv_ring r)[idx := s\<lparr>sl_state := Empty, sl_payload := []\<rparr>],
                                     rv_pending_discontinuity := False\<rparr>) f))))
     }"

section \<open>Skipping a hole\<close>

definition slot_clear :: "slot \<Rightarrow> slot" where
  "slot_clear s = (if sl_state s = Filled then s\<lparr>sl_state := Empty, sl_payload := []\<rparr> else s)"

text \<open>The loop \<^verbatim>\<open>while n != target\<close> of \<^verbatim>\<open>skip_to\<close>.\<close>

function skip_clear :: "slot list \<Rightarrow> u32 \<Rightarrow> u32 \<Rightarrow> u32 \<Rightarrow> slot list option" where
  "skip_clear ring mk n target =
     (if n = target then Some ring
      else case ring_slot ring mk n of
             None \<Rightarrow> None
           | Some s \<Rightarrow> skip_clear (ring[ring_index mk n := slot_clear s]) mk (n + 1) target)"
  by pat_completeness auto
termination
proof (relation "measure (\<lambda>(ring, mk, n, target). unat (target - n))")
  fix ring :: "slot list" and mk n target :: u32 and s
  assume "n \<noteq> target"
  then have "1 \<le> unat (target - n)" by (simp add: Suc_le_eq unat_gt_0)
  then have "unat (target - (n + 1)) < unat (target - n)"
    using unat_gap_add [of 1 target n] by simp
  then show "((ring[ring_index mk n := slot_clear s], mk, n + 1, target), ring, mk, n, target)
      \<in> measure (\<lambda>(ring, mk, n, target). unat (target - n))"
    by simp
qed simp

declare skip_clear.simps [simp del]

definition skip_to :: "flow \<Rightarrow> u32 \<Rightarrow> flow option" where
  "skip_to f target =
     (let from = rv_deliver_next (fl_receiver f);
          lost = unat (target - from)
      in case skip_clear (rv_ring (fl_receiver f)) (rv_mask (fl_receiver f)) from target of
           None \<Rightarrow> None
         | Some ring \<Rightarrow>
             Some (upd_stats (\<lambda>st. st\<lparr>st_lost := st_lost st + lost,
                                      st_discontinuities := st_discontinuities st + 1\<rparr>)
                    (upd_recv (\<lambda>r. r\<lparr>rv_ring := ring, rv_deliver_next := target,
                                       rv_pending_discontinuity := True\<rparr>) f)))"

section \<open>The next buffered packet\<close>

text \<open>The scan \<^verbatim>\<open>while k <= limit\<close>: the first offset ahead of the cursor whose slot holds its
  own number.\<close>

function find_ahead :: "slot list \<Rightarrow> u32 \<Rightarrow> u32 \<Rightarrow> nat \<Rightarrow> nat \<Rightarrow> u32 option option" where
  "find_ahead ring mk cursor k limit =
     (if k \<le> limit
      then case ring_slot ring mk (cursor + of_nat k) of
             None \<Rightarrow> None
           | Some s \<Rightarrow> if slot_holds s (cursor + of_nat k) then Some (Some (cursor + of_nat k))
                       else find_ahead ring mk cursor (k + 1) limit
      else Some None)"
  by pat_completeness auto
termination
  by (relation "measure (\<lambda>(ring, mk, cursor, k, limit). limit + 1 - k)") auto

declare find_ahead.simps [simp del]

lemma find_ahead_Some:
  "find_ahead ring mk cursor k limit = Some (Some n) \<Longrightarrow>
   \<exists>j. k \<le> j \<and> j \<le> limit \<and> n = cursor + of_nat j
     \<and> (\<exists>s. ring_slot ring mk n = Some s \<and> slot_holds s n)
     \<and> (\<forall>i. k \<le> i \<and> i < j \<longrightarrow> (\<forall>s. ring_slot ring mk (cursor + of_nat i) = Some s \<longrightarrow>
            \<not> slot_holds s (cursor + of_nat i)))"
proof (induction ring mk cursor k limit rule: find_ahead.induct)
  case (1 ring mk cursor k limit)
  from "1.prems" obtain s where s: "k \<le> limit" "ring_slot ring mk (cursor + of_nat k) = Some s"
    by (auto simp: find_ahead.simps [of ring mk cursor k limit] split: if_splits option.splits)
  show ?case
  proof (cases "slot_holds s (cursor + of_nat k)")
    case True
    with "1.prems" s have "n = cursor + of_nat k"
      by (simp add: find_ahead.simps [of ring mk cursor k limit])
    with s True show ?thesis by (intro exI [of _ k]) auto
  next
    case False
    with "1.prems" s have "find_ahead ring mk cursor (k + 1) limit = Some (Some n)"
      by (simp add: find_ahead.simps [of ring mk cursor k limit])
    from "1.IH" [OF s False this] obtain j where
      j: "k + 1 \<le> j" "j \<le> limit" "n = cursor + of_nat j"
      "\<exists>s. ring_slot ring mk n = Some s \<and> slot_holds s n"
      "\<forall>i. k + 1 \<le> i \<and> i < j \<longrightarrow> (\<forall>s. ring_slot ring mk (cursor + of_nat i) = Some s \<longrightarrow>
            \<not> slot_holds s (cursor + of_nat i))" by blast
    have "\<forall>i. k \<le> i \<and> i < j \<longrightarrow> (\<forall>s. ring_slot ring mk (cursor + of_nat i) = Some s \<longrightarrow>
            \<not> slot_holds s (cursor + of_nat i))"
      using j(5) s(2) False by (metis Suc_eq_plus1 Suc_leI le_neq_implies_less option.inject)
    with j(1-4) show ?thesis by (intro exI [of _ j]) auto
  qed
qed

lemma find_ahead_None:
  "find_ahead ring mk cursor k limit = Some None \<Longrightarrow> k \<le> i \<Longrightarrow> i \<le> limit \<Longrightarrow>
   ring_slot ring mk (cursor + of_nat i) = Some s \<Longrightarrow> \<not> slot_holds s (cursor + of_nat i)"
proof (induction ring mk cursor k limit rule: find_ahead.induct)
  case (1 ring mk cursor k limit)
  from "1.prems" obtain t where t: "k \<le> limit" "ring_slot ring mk (cursor + of_nat k) = Some t"
    "\<not> slot_holds t (cursor + of_nat k)"
    "find_ahead ring mk cursor (k + 1) limit = Some None"
    by (auto simp: find_ahead.simps [of ring mk cursor k limit] split: if_splits option.splits)
  show ?case
  proof (cases "i = k")
    case True
    with t "1.prems" show ?thesis by simp
  next
    case False
    with "1.prems" show ?thesis by (intro "1.IH" [OF t]) simp_all
  qed
qed

lemma find_ahead_panic_free [panic_free]:
  "ring_geometry ring mk \<Longrightarrow> \<exists>x. find_ahead ring mk cursor k limit = Some x"
proof (induction ring mk cursor k limit rule: find_ahead.induct)
  case (1 ring mk cursor k limit)
  then show ?case
    by (cases "k \<le> limit")
      (auto simp: find_ahead.simps [of ring mk cursor k limit] ring_slot_panic_free)
qed

section \<open>Counting filled slots\<close>

definition filled_count :: "slot list \<Rightarrow> nat" where
  "filled_count ring = length (filter (\<lambda>s. sl_state s = Filled) ring)"

lemma filled_count_update:
  assumes "i < length ring" "sl_state x = Empty"
  shows "filled_count (ring[i := x]) =
    filled_count ring - (if sl_state (ring ! i) = Filled then 1 else 0)"
proof -
  have "ring[i := x] = take i ring @ x # drop (Suc i) ring"
    using assms(1) by (simp add: upd_conv_take_nth_drop)
  moreover have "filled_count ring = filled_count (take i ring @ ring ! i # drop (Suc i) ring)"
    using assms(1) by (simp flip: id_take_nth_drop)
  ultimately show ?thesis using assms(2) by (simp add: filled_count_def)
qed

lemma filled_count_clear:
  "i < length ring \<Longrightarrow> filled_count (ring[i := slot_clear (ring ! i)]) \<le> filled_count ring"
  by (cases "sl_state (ring ! i)")
    (simp_all add: slot_clear_def filled_count_update list_update_id)

lemma skip_clear_count:
  "skip_clear ring mk n target = Some ring' \<Longrightarrow>
   filled_count ring' \<le> filled_count ring \<and> length ring' = length ring"
proof (induction ring mk n target rule: skip_clear.induct)
  case (1 ring mk n target)
  show ?case
  proof (cases "n = target")
    case True
    with "1.prems" show ?thesis by (simp add: skip_clear.simps [of ring mk target target])
  next
    case False
    with "1.prems" obtain s where s: "ring_slot ring mk n = Some s"
      "skip_clear (ring[ring_index mk n := slot_clear s]) mk (n + 1) target = Some ring'"
      by (auto simp: skip_clear.simps [of ring mk n target] split: option.splits)
    then have "ring_index mk n < length ring" "s = ring ! ring_index mk n"
      by (auto simp: ring_slot_def vec_get_eq_Some)
    with "1.IH" [OF False s] show ?thesis
      using filled_count_clear [of "ring_index mk n" ring] by simp
  qed
qed

section \<open>The delivery loop\<close>

lemma distance_step:
  fixes c h :: u32
  assumes "j \<le> nat (seq_distance c h)" "0 < j"
  shows "nat (seq_distance (c + of_nat j) h) < nat (seq_distance c h)"
proof -
  have d: "0 < seq_distance c h" using assms by linarith
  then have raw: "seq_raw_gap c h \<le> 2 ^ 31" "seq_distance c h = int (seq_raw_gap c h)"
    using seq_less_iff [of c h] by (simp_all add: seq_less_def seq_distance_eq)
  then have "seq_raw_gap (c + of_nat j) h = seq_raw_gap c h - j"
    using assms(1) by (simp add: seq_raw_gap_def unat_gap_add)
  then have "seq_distance (c + of_nat j) h = int (seq_raw_gap c h - j)"
    using raw(1) by (simp add: seq_distance_eq)
  with raw(2) assms show ?thesis by simp
qed

lemma skip_to_measure:
  assumes "skip_to f target = Some f'"
  shows "filled_count (rv_ring (fl_receiver f')) \<le> filled_count (rv_ring (fl_receiver f))"
    and "rv_highest (fl_receiver f') = rv_highest (fl_receiver f)"
    and "rv_deliver_next (fl_receiver f') = target"
  using assms by (auto simp: skip_to_def Let_def split: option.splits dest!: skip_clear_count)

lemma emit_deliver_measure:
  assumes "emit_deliver f idx = Some f'" "vec_get (rv_ring (fl_receiver f)) idx = Some s"
    "sl_state s = Filled"
  shows "filled_count (rv_ring (fl_receiver f')) < filled_count (rv_ring (fl_receiver f))"
proof -
  have i: "idx < length (rv_ring (fl_receiver f))" "rv_ring (fl_receiver f) ! idx = s"
    using assms(2) by (simp_all add: vec_get_eq_Some)
  then have "s \<in> set (filter (\<lambda>s. sl_state s = Filled) (rv_ring (fl_receiver f)))"
    using assms(3) nth_mem [OF i(1)] by simp
  then have "0 < filled_count (rv_ring (fl_receiver f))"
    unfolding filled_count_def by (rule length_pos_if_in_set)
  then show ?thesis
    using assms i by (auto simp: emit_deliver_def Let_def filled_count_update)
qed

function deliver_loop :: "flow \<Rightarrow> timestamp \<Rightarrow> flow option" where
  "deliver_loop f now =
     (let r = fl_receiver f; cursor = rv_deliver_next r; idx = ring_index (rv_mask r) cursor
      in case vec_get (rv_ring r) idx of
           None \<Rightarrow> None
         | Some s \<Rightarrow>
             if slot_holds s cursor then
               if now < sl_output_time s then Some (arm_playout (sl_output_time s) f)
               else (case emit_deliver f idx of None \<Rightarrow> None | Some f' \<Rightarrow> deliver_loop f' now)
             else
               let dist = seq_distance cursor (rv_highest r)
               in if dist \<le> 0 then Some (disarm_playout f)
                  else
                    let ring_n = int (length (rv_ring r))
                    in case find_ahead (rv_ring r) (rv_mask r) cursor 1 (nat (min dist ring_n)) of
                         None \<Rightarrow> None
                       | Some None \<Rightarrow>
                           if ring_n < dist then
                             (case skip_to f (cursor + of_nat (length (rv_ring r))) of
                                None \<Rightarrow> None | Some f' \<Rightarrow> deliver_loop f' now)
                           else Some (disarm_playout f)
                       | Some (Some found) \<Rightarrow>
                           (case ring_slot (rv_ring r) (rv_mask r) found of
                              None \<Rightarrow> None
                            | Some t \<Rightarrow>
                                if now < sl_output_time t
                                then Some (arm_playout (sl_output_time t) f)
                                else (case skip_to f found of
                                        None \<Rightarrow> None | Some f' \<Rightarrow> deliver_loop f' now)))"
  by pat_completeness auto
termination
proof (relation "measures [\<lambda>(f, now). filled_count (rv_ring (fl_receiver f)),
    \<lambda>(f, now). nat (seq_distance (rv_deliver_next (fl_receiver f)) (rv_highest (fl_receiver f)))]",
    goal_cases)
  case 1
  show ?case by simp
next
  case (2 f now r cursor idx s f')
  then show ?case using emit_deliver_measure [of f idx f' s] by (simp add: slot_holds_def)
next
  case (3 f now r cursor idx s dist ring_n x f')
  then have "0 < length (rv_ring r)" by (auto simp: vec_get_eq_Some)
  with 3 have "nat (seq_distance (cursor + of_nat (length (rv_ring r))) (rv_highest r)) <
      nat (seq_distance cursor (rv_highest r))"
    by (intro distance_step) simp_all
  with 3 show ?case using skip_to_measure [of f "cursor + of_nat (length (rv_ring r))" f']
    by (auto simp: le_less)
next
  case (4 f now r cursor idx s dist ring_n x found t f')
  then obtain j where j: "1 \<le> j" "j \<le> nat (min dist ring_n)" "found = cursor + of_nat j"
    using find_ahead_Some by metis
  moreover from 4 have "dist = seq_distance cursor (rv_highest r)" by simp
  ultimately have "nat (seq_distance found (rv_highest r)) < nat (seq_distance cursor (rv_highest r))"
    using distance_step [of j cursor "rv_highest r"] by simp
  with 4 show ?case using skip_to_measure [of f found f'] by (auto simp: le_less)
qed

declare deliver_loop.simps [simp del]

definition deliver_due :: "flow \<Rightarrow> timestamp \<Rightarrow> flow option" where
  "deliver_due f now =
     (if \<not> rv_started (fl_receiver f) then Some f else deliver_loop f now)"

end
