(* ===== verification/Playout_Inv.thy ===== *)
theory Playout_Inv
  imports Playout
begin

text \<open>
  The invariant of the reorder ring and what one playout call does under it. A filled slot sits at
  the index of its own sequence number, ahead of the cursor and no further than the newest number;
  \<open>window\<close> is that distance. \<open>delivers f now f'\<close> states what playout promises: the delivered
  numbers increase strictly from the cursor, every number passed over is counted lost, and
  everything delivered was buffered and due.
\<close>

definition window :: "receiver_state \<Rightarrow> nat" where
  "window r = unat (rv_highest r + 1 - rv_deliver_next r)"

definition slots_placed :: "receiver_state \<Rightarrow> bool" where
  "slots_placed r \<longleftrightarrow>
     (\<forall>i < length (rv_ring r). sl_state (rv_ring r ! i) = Filled \<longrightarrow>
        ring_index (rv_mask r) (sl_seq (rv_ring r ! i)) = i
        \<and> unat (sl_seq (rv_ring r ! i) - rv_deliver_next r) < window r)"

definition recv_ok :: "receiver_state \<Rightarrow> bool" where
  "recv_ok r \<longleftrightarrow> ring_geometry (rv_ring r) (rv_mask r)
     \<and> (if rv_started r then window r \<le> 2 ^ 31 \<and> slots_placed r
        else \<forall>s \<in> set (rv_ring r). sl_state s = Empty)"

lemma recv_okD:
  assumes "recv_ok r" "rv_started r"
  shows "ring_geometry (rv_ring r) (rv_mask r)" "window r \<le> 2 ^ 31" "slots_placed r"
  using assms by (simp_all add: recv_ok_def)

lemma recv_ok_geometry: "recv_ok r \<Longrightarrow> ring_geometry (rv_ring r) (rv_mask r)"
  by (simp add: recv_ok_def)

text \<open>The invariant depends on five fields only.\<close>

lemma recv_ok_cong:
  "rv_ring r = rv_ring q \<Longrightarrow> rv_mask r = rv_mask q \<Longrightarrow> rv_started r = rv_started q \<Longrightarrow>
   rv_highest r = rv_highest q \<Longrightarrow> rv_deliver_next r = rv_deliver_next q \<Longrightarrow>
   recv_ok r = recv_ok q"
  by (simp add: recv_ok_def slots_placed_def window_def)

lemma window_pos_distance:
  assumes "0 < seq_distance (rv_deliver_next r) (rv_highest r)"
  shows "window r = nat (seq_distance (rv_deliver_next r) (rv_highest r)) + 1"
proof -
  have raw: "seq_raw_gap (rv_deliver_next r) (rv_highest r) \<le> 2 ^ 31"
    "seq_distance (rv_deliver_next r) (rv_highest r)
      = int (seq_raw_gap (rv_deliver_next r) (rv_highest r))"
    using assms seq_less_iff [of "rv_deliver_next r" "rv_highest r"]
    by (simp_all add: seq_less_def seq_distance_eq)
  define x where "x = rv_highest r - rv_deliver_next r"
  have x: "unat x \<le> 2 ^ 31" using raw(1) by (simp add: x_def seq_raw_gap_def)
  then have "unat (x + 1) = unat x + 1" by (simp add: unat_add_lem [THEN iffD1])
  moreover have eq: "rv_highest r + 1 - rv_deliver_next r = x + 1" by (simp add: x_def)
  moreover have "seq_distance (rv_deliver_next r) (rv_highest r) = int (unat x)"
    using raw(2) by (simp add: seq_raw_gap_def x_def)
  ultimately show ?thesis unfolding window_def eq by simp
qed

section \<open>Clearing the slots passed over\<close>

lemma slot_clear_idem [simp]: "slot_clear (slot_clear s) = slot_clear s"
  by (simp add: slot_clear_def)

lemma slot_clear_Empty [simp]: "sl_state (slot_clear s) = Empty"
  by (cases "sl_state s") (simp_all add: slot_clear_def)

lemma skip_clear_char:
  assumes "ring_geometry ring mk"
  shows "\<exists>ring'. skip_clear ring mk n target = Some ring' \<and> length ring' = length ring
    \<and> (\<forall>i < length ring. ring' ! i =
          (if \<exists>j < unat (target - n). ring_index mk (n + of_nat j) = i
           then slot_clear (ring ! i) else ring ! i))"
  using assms
proof (induction ring mk n target rule: skip_clear.induct)
  case (1 ring mk n target)
  show ?case
  proof (cases "n = target")
    case True
    then show ?thesis by (simp add: skip_clear.simps [of ring mk target target])
  next
    case False
    define ix where "ix = ring_index mk n"
    define ring1 where "ring1 = ring[ix := slot_clear (ring ! ix)]"
    have ix: "ix < length ring" using "1.prems" by (simp add: ix_def ring_index_less)
    have slot: "ring_slot ring mk n = Some (ring ! ix)"
      using "1.prems" by (simp add: ring_slot_panic_free ix_def)
    have unfold: "skip_clear ring mk n target = skip_clear ring1 mk (n + 1) target"
      using False slot by (simp add: skip_clear.simps [of ring mk n target] ring1_def ix_def)
    have gap: "unat (target - n) = Suc (unat (target - (n + 1)))"
    proof -
      have "1 \<le> unat (target - n)" using False by (simp add: Suc_le_eq unat_gt_0)
      then show ?thesis using unat_gap_add [of 1 target n] by simp
    qed
    have "ring_geometry ring1 mk" using "1.prems" by (simp add: ring1_def)
    then obtain ring' where r': "skip_clear ring1 mk (n + 1) target = Some ring'"
      "length ring' = length ring1"
      "\<forall>i < length ring1. ring' ! i =
          (if \<exists>j < unat (target - (n + 1)). ring_index mk (n + 1 + of_nat j) = i
           then slot_clear (ring1 ! i) else ring1 ! i)"
      using "1.IH" [OF False slot] unfolding ring1_def ix_def by blast
    have ex: "(\<exists>j < Suc m. P j) \<longleftrightarrow> P 0 \<or> (\<exists>j < m. P (Suc j))" for P and m :: nat
      by (auto simp: less_Suc_eq_0_disj)
    define Q where "Q i \<longleftrightarrow> (\<exists>j < unat (target - (n + 1)). ring_index mk (n + 1 + of_nat j) = i)" for i
    have step: "(\<exists>j < unat (target - n). ring_index mk (n + of_nat j) = i) \<longleftrightarrow> ix = i \<or> Q i" for i
      unfolding gap ex ix_def Q_def by (simp add: ac_simps)
    have "ring' ! i = (if ix = i \<or> Q i then slot_clear (ring ! i) else ring ! i)"
      if "i < length ring" for i
      using r'(3) ix that by (auto simp: ring1_def nth_list_update simp flip: Q_def)
    with r'(1,2) unfold show ?thesis
      unfolding step by (intro exI [of _ ring']) (simp add: ring1_def)
  qed
qed

section \<open>What playout promises\<close>

abbreviation cursor_of :: "flow \<Rightarrow> u32" where
  "cursor_of f \<equiv> rv_deliver_next (fl_receiver f)"

abbreviation ring_of :: "flow \<Rightarrow> slot list" where
  "ring_of f \<equiv> rv_ring (fl_receiver f)"

definition from_slot :: "timestamp \<Rightarrow> event \<Rightarrow> slot \<Rightarrow> bool" where
  "from_slot now e s \<longleftrightarrow> slot_holds s (ev_seq e) \<and> sl_output_time s \<le> now
     \<and> ev_payload e = sl_payload s \<and> ev_source_time e = sl_source_time s \<and> ev_frag e = sl_frag s"

definition playout_post ::
    "flow \<Rightarrow> timestamp \<Rightarrow> flow \<Rightarrow> event list \<Rightarrow> nat list \<Rightarrow> nat \<Rightarrow> bool" where
  "playout_post f now f' evs offs adv \<longleftrightarrow>
     fl_events f' = fl_events f @ evs
     \<and> map ev_seq evs = map (\<lambda>j. cursor_of f + of_nat j) offs
     \<and> sorted_wrt (<) offs \<and> (\<forall>j \<in> set offs. j < adv)
     \<and> cursor_of f' = cursor_of f + of_nat adv
     \<and> adv \<le> window (fl_receiver f) \<and> window (fl_receiver f') = window (fl_receiver f) - adv
     \<and> st_delivered (fl_stats f') = st_delivered (fl_stats f) + length offs
     \<and> st_lost (fl_stats f') + length offs = st_lost (fl_stats f) + adv
     \<and> (\<forall>e \<in> set evs. \<exists>s \<in> set (ring_of f). from_slot now e s)
     \<and> (\<forall>s \<in> set (ring_of f'). sl_state s = Filled \<longrightarrow> s \<in> set (ring_of f))"

definition delivers :: "flow \<Rightarrow> timestamp \<Rightarrow> flow \<Rightarrow> bool" where
  "delivers f now f' \<longleftrightarrow> (\<exists>evs offs adv. playout_post f now f' evs offs adv)"

lemma playout_post_trans:
  assumes "playout_post f now g evs1 offs1 adv1" "playout_post g now h evs2 offs2 adv2"
  shows "playout_post f now h (evs1 @ evs2) (offs1 @ map ((+) adv1) offs2) (adv1 + adv2)"
proof -
  note 1 = assms(1) [unfolded playout_post_def] and 2 = assms(2) [unfolded playout_post_def]
  have "map ev_seq (evs1 @ evs2) =
      map (\<lambda>j. cursor_of f + of_nat j) (offs1 @ map ((+) adv1) offs2)"
    using 1 2 by (simp add: comp_def ac_simps)
  moreover have "sorted_wrt (<) (offs1 @ map ((+) adv1) offs2)"
    using 1 2 by (auto simp: sorted_wrt_append sorted_wrt_map intro: trans_less_add1)
  moreover have "adv1 + adv2 \<le> window (fl_receiver f)"
    "window (fl_receiver h) = window (fl_receiver f) - (adv1 + adv2)"
    using 1 2 by linarith+
  moreover have "\<exists>s \<in> set (ring_of f). from_slot now e s" if "e \<in> set (evs1 @ evs2)" for e
    using that 1 2 unfolding from_slot_def slot_holds_def by fastforce
  moreover have "s \<in> set (ring_of f)" if "s \<in> set (ring_of h)" "sl_state s = Filled" for s
    using that 1 2 by blast
  moreover have "j < adv1 + adv2" if "j \<in> set (offs1 @ map ((+) adv1) offs2)" for j
    using that 1 2 by auto
  moreover have "fl_events h = fl_events f @ (evs1 @ evs2)"
    "cursor_of h = cursor_of f + of_nat (adv1 + adv2)"
    "st_delivered (fl_stats h) = st_delivered (fl_stats f) + length (offs1 @ map ((+) adv1) offs2)"
    "st_lost (fl_stats h) + length (offs1 @ map ((+) adv1) offs2)
      = st_lost (fl_stats f) + (adv1 + adv2)"
    using 1 2 by (simp_all add: ac_simps)
  ultimately show ?thesis unfolding playout_post_def by blast
qed

lemma delivers_trans: "delivers f now g \<Longrightarrow> delivers g now h \<Longrightarrow> delivers f now h"
  unfolding delivers_def using playout_post_trans by blast

lemma delivers_refl:
  assumes "fl_events f' = fl_events f" "fl_stats f' = fl_stats f"
    "ring_of f' = ring_of f" "cursor_of f' = cursor_of f"
    "rv_highest (fl_receiver f') = rv_highest (fl_receiver f)"
  shows "delivers f now f'"
proof -
  have "playout_post f now f' [] [] 0"
    using assms by (simp add: playout_post_def window_def)
  then show ?thesis unfolding delivers_def by blast
qed

section \<open>The frame of playout\<close>

definition playout_frame :: "flow \<Rightarrow> flow \<Rightarrow> bool" where
  "playout_frame f f' \<longleftrightarrow>
     fl_role f' = fl_role f \<and> fl_cfg f' = fl_cfg f \<and> fl_est f' = fl_est f
     \<and> fl_recovery_buffer f' = fl_recovery_buffer f
     \<and> fl_recovery_buffer_110 f' = fl_recovery_buffer_110 f
     \<and> fl_missing_counter_max f' = fl_missing_counter_max f
     \<and> fl_max_nacks_per_loop f' = fl_max_nacks_per_loop f
     \<and> fl_sender f' = fl_sender f
     \<and> rv_mask (fl_receiver f') = rv_mask (fl_receiver f)
     \<and> rv_started (fl_receiver f') = rv_started (fl_receiver f)
     \<and> rv_highest (fl_receiver f') = rv_highest (fl_receiver f)
     \<and> rv_missing (fl_receiver f') = rv_missing (fl_receiver f)
     \<and> rv_last_found (fl_receiver f') = rv_last_found (fl_receiver f)
     \<and> length (ring_of f') = length (ring_of f)"

lemma playout_frame_trans: "playout_frame f g \<Longrightarrow> playout_frame g h \<Longrightarrow> playout_frame f h"
  by (simp add: playout_frame_def)

lemma arm_playout_frame [frame]: "playout_frame f (arm_playout d f)"
  by (simp add: arm_playout_def playout_frame_def)

lemma disarm_playout_frame [frame]: "playout_frame f (disarm_playout f)"
  by (simp add: disarm_playout_def playout_frame_def)

lemma arm_playout_keeps [simp]:
  "fl_events (arm_playout d f) = fl_events f" "fl_stats (arm_playout d f) = fl_stats f"
  "rv_ring (fl_receiver (arm_playout d f)) = ring_of f"
  "rv_deliver_next (fl_receiver (arm_playout d f)) = cursor_of f"
  "rv_highest (fl_receiver (arm_playout d f)) = rv_highest (fl_receiver f)"
  "rv_mask (fl_receiver (arm_playout d f)) = rv_mask (fl_receiver f)"
  "rv_started (fl_receiver (arm_playout d f)) = rv_started (fl_receiver f)"
  "rv_missing (fl_receiver (arm_playout d f)) = rv_missing (fl_receiver f)"
  "rv_last_found (fl_receiver (arm_playout d f)) = rv_last_found (fl_receiver f)"
  "fl_cfg (arm_playout d f) = fl_cfg f" "fl_role (arm_playout d f) = fl_role f"
  "fl_est (arm_playout d f) = fl_est f" "fl_sender (arm_playout d f) = fl_sender f"
  by (simp_all add: arm_playout_def)

lemma disarm_playout_keeps [simp]:
  "fl_events (disarm_playout f) = fl_events f" "fl_stats (disarm_playout f) = fl_stats f"
  "rv_ring (fl_receiver (disarm_playout f)) = ring_of f"
  "rv_deliver_next (fl_receiver (disarm_playout f)) = cursor_of f"
  "rv_highest (fl_receiver (disarm_playout f)) = rv_highest (fl_receiver f)"
  "rv_mask (fl_receiver (disarm_playout f)) = rv_mask (fl_receiver f)"
  "rv_started (fl_receiver (disarm_playout f)) = rv_started (fl_receiver f)"
  by (simp_all add: disarm_playout_def)

end
