(* ===== verification/Playout_Run.thy ===== *)
theory Playout_Run
  imports Playout_Inv
begin

text \<open>
  The playout loop under the ring invariant: each of its steps (delivering the packet at the
  cursor, skipping to a target) keeps the invariant and satisfies the promise \<open>delivers\<close>, so the
  whole loop does; when it stops, the next buffered packet is not due and a timer is armed for it.
  While no number is more than one ring ahead of the cursor nothing buffered is discarded.
\<close>

section \<open>One step\<close>

definition keeps_buffered :: "flow \<Rightarrow> flow \<Rightarrow> bool" where
  "keeps_buffered f f' \<longleftrightarrow>
     (window (fl_receiver f) \<le> length (ring_of f) \<longrightarrow>
        window (fl_receiver f') \<le> length (ring_of f')
        \<and> filled_count (ring_of f') + st_delivered (fl_stats f')
          = filled_count (ring_of f) + st_delivered (fl_stats f))"

lemma keeps_buffered_trans: "keeps_buffered f g \<Longrightarrow> keeps_buffered g h \<Longrightarrow> keeps_buffered f h"
  by (simp add: keeps_buffered_def)

definition playout_step :: "flow \<Rightarrow> timestamp \<Rightarrow> flow \<Rightarrow> bool" where
  "playout_step f now f' \<longleftrightarrow>
     recv_ok (fl_receiver f') \<and> playout_frame f f' \<and> delivers f now f' \<and> keeps_buffered f f'"

lemma playout_step_trans: "playout_step f now g \<Longrightarrow> playout_step g now h \<Longrightarrow> playout_step f now h"
  unfolding playout_step_def
  using playout_frame_trans [of f g h] delivers_trans [of f now g h] keeps_buffered_trans [of f g h]
  by blast

lemma playout_step_refl: "recv_ok (fl_receiver f) \<Longrightarrow> playout_step f now f"
  by (simp add: playout_step_def delivers_refl playout_frame_def keeps_buffered_def)

lemma arm_playout_step: "recv_ok (fl_receiver f) \<Longrightarrow> playout_step f now (arm_playout d f)"
  by (simp add: playout_step_def delivers_refl arm_playout_frame keeps_buffered_def window_def
      recv_ok_cong [of "fl_receiver (arm_playout d f)" "fl_receiver f"])

lemma disarm_playout_step: "recv_ok (fl_receiver f) \<Longrightarrow> playout_step f now (disarm_playout f)"
  by (simp add: playout_step_def delivers_refl disarm_playout_frame keeps_buffered_def window_def
      recv_ok_cong [of "fl_receiver (disarm_playout f)" "fl_receiver f"])

text \<open>Advancing the cursor past slots that are emptied keeps the placement of the others.\<close>

lemma slots_placed_advance:
  assumes ok: "recv_ok r" "rv_started r" and k: "k \<le> window r"
    and q: "rv_mask q = rv_mask r" "rv_highest q = rv_highest r" "rv_started q"
      "rv_deliver_next q = rv_deliver_next r + of_nat k" "length (rv_ring q) = length (rv_ring r)"
    and kept: "\<And>i. i < length (rv_ring r) \<Longrightarrow> sl_state (rv_ring q ! i) = Filled \<Longrightarrow>
      rv_ring q ! i = rv_ring r ! i \<and>
      (\<forall>j < k. ring_index (rv_mask r) (rv_deliver_next r + of_nat j) \<noteq> i)"
  shows "recv_ok q \<and> window q = window r - k"
proof -
  note r = recv_okD [OF ok]
  have w: "window q = window r - k"
    using k unat_gap_add [of k "rv_highest r + 1" "rv_deliver_next r"] by (simp add: window_def q)
  have "ring_index (rv_mask r) (sl_seq (rv_ring q ! i)) = i
      \<and> unat (sl_seq (rv_ring q ! i) - rv_deliver_next q) < window q"
    if i: "i < length (rv_ring r)" "sl_state (rv_ring q ! i) = Filled" for i
  proof -
    let ?s = "rv_ring r ! i" and ?o = "unat (sl_seq (rv_ring r ! i) - rv_deliver_next r)"
    have same: "rv_ring q ! i = ?s" using kept [OF i] by simp
    have placed: "ring_index (rv_mask r) (sl_seq ?s) = i" "?o < window r"
      using r(3) i same by (simp_all add: slots_placed_def)
    have "k \<le> ?o"
    proof (rule ccontr)
      assume "\<not> k \<le> ?o"
      then have "ring_index (rv_mask r) (rv_deliver_next r + of_nat ?o) \<noteq> i"
        using kept [OF i] not_le by blast
      with placed(1) show False by simp
    qed
    then have "unat (sl_seq ?s - rv_deliver_next q) = ?o - k"
      using unat_gap_add [of k "sl_seq ?s" "rv_deliver_next r"] by (simp add: q)
    with placed w \<open>k \<le> ?o\<close> same show ?thesis by simp
  qed
  with w q r(1,2) have "recv_ok q"
    by (simp add: recv_ok_def slots_placed_def ring_geometry_length [of "rv_ring q" "rv_ring r"])
  with w show ?thesis by simp
qed

section \<open>Delivering the packet at the cursor\<close>

lemma emit_step:
  assumes ok: "recv_ok (fl_receiver f)" "rv_started (fl_receiver f)"
    and idx: "idx = ring_index (rv_mask (fl_receiver f)) (cursor_of f)"
    and holds: "slot_holds (ring_of f ! idx) (cursor_of f)"
    and due: "sl_output_time (ring_of f ! idx) \<le> now"
  shows "\<exists>g. emit_deliver f idx = Some g \<and> playout_step f now g
    \<and> window (fl_receiver g) < window (fl_receiver f)"
proof -
  let ?r = "fl_receiver f" and ?s = "ring_of f ! idx"
  note r = recv_okD [OF ok]
  have i: "idx < length (ring_of f)" unfolding idx using r(1) by (rule ring_index_less)
  define e where "e = Deliver (sl_seq ?s) (sl_source_time ?s) (sl_payload ?s)
      (rv_pending_discontinuity ?r) (sl_frag ?s) (sl_virt_src_port ?s) (sl_virt_dst_port ?s)"
  obtain g where g: "emit_deliver f idx = Some g"
    using i by (simp add: emit_deliver_def)
  then have
    gr: "ring_of g = (ring_of f)[idx := ?s\<lparr>sl_state := Empty, sl_payload := []\<rparr>]" and
    gc: "cursor_of g = cursor_of f + 1" and
    ge: "fl_events g = fl_events f @ [e]" and
    gs: "st_delivered (fl_stats g) = st_delivered (fl_stats f) + 1"
        "st_lost (fl_stats g) = st_lost (fl_stats f)" and
    gf: "playout_frame f g"
    using i by (auto simp: emit_deliver_def e_def playout_frame_def Let_def)
  have w: "1 \<le> window ?r"
    using r(3) i holds by (fastforce simp: slots_placed_def slot_holds_def)
  have keep: "recv_ok (fl_receiver g) \<and> window (fl_receiver g) = window ?r - 1"
  proof (rule slots_placed_advance [OF ok w])
    fix n assume "n < length (ring_of f)" "sl_state (ring_of g ! n) = Filled"
    then show "ring_of g ! n = ring_of f ! n \<and>
        (\<forall>j < 1. ring_index (rv_mask ?r) (cursor_of f + of_nat j) \<noteq> n)"
      using i by (cases "n = idx") (auto simp: gr idx)
  qed (use gf gc gr ok in \<open>simp_all add: playout_frame_def\<close>)
  have filled: "?s \<in> set (ring_of f)" "sl_state ?s = Filled" "sl_seq ?s = cursor_of f"
    using i holds by (simp_all add: slot_holds_def)
  then have "from_slot now e ?s" using due by (simp add: from_slot_def e_def slot_holds_def)
  moreover have "s \<in> set (ring_of f)" if "s \<in> set (ring_of g)" "sl_state s = Filled" for s
    using that set_update_subset_insert [of "ring_of f" idx] unfolding gr by fastforce
  ultimately have "playout_post f now g [e] [0] 1"
    using ge gs gc w keep filled by (auto simp: playout_post_def e_def)
  moreover have "keeps_buffered f g"
  proof -
    have "0 < filled_count (ring_of f)"
      unfolding filled_count_def using filled(1,2) by (intro length_pos_if_in_set) auto
    then show ?thesis
      using i filled(2) keep gs gf
      by (auto simp: keeps_buffered_def gr filled_count_update playout_frame_def)
  qed
  ultimately show ?thesis using g keep gf w by (auto simp: playout_step_def delivers_def)
qed

section \<open>Skipping a hole\<close>

text \<open>\<open>held_at r j\<close>: the number \<open>j\<close> past the cursor is buffered.\<close>

definition held_at :: "receiver_state \<Rightarrow> nat \<Rightarrow> bool" where
  "held_at r j \<longleftrightarrow>
     slot_holds (rv_ring r ! ring_index (rv_mask r) (rv_deliver_next r + of_nat j))
       (rv_deliver_next r + of_nat j)"

text \<open>With at most a ring of numbers in the window a filled slot holds the number its index
  stands for.\<close>

lemma filled_held_at:
  assumes ok: "recv_ok r" "rv_started r" and w: "window r \<le> length (rv_ring r)"
    and j: "j < window r"
    and filled: "sl_state (rv_ring r ! ring_index (rv_mask r) (rv_deliver_next r + of_nat j)) = Filled"
  shows "held_at r j"
proof -
  note r = recv_okD [OF ok]
  let ?i = "ring_index (rv_mask r) (rv_deliver_next r + of_nat j)"
  let ?s = "sl_seq (rv_ring r ! ?i)"
  have i: "?i < length (rv_ring r)" using r(1) by (rule ring_index_less)
  have "j < 2 ^ 32" using j r(2) by simp
  then have "unat (rv_deliver_next r + of_nat j - rv_deliver_next r) = j" by (simp add: unat_of_nat)
  moreover have "ring_index (rv_mask r) ?s = ?i" "unat (?s - rv_deliver_next r) < window r"
    using r(3) i filled unfolding slots_placed_def by blast+
  ultimately have "?s = rv_deliver_next r + of_nat j"
    using w j by (intro ring_index_inj [OF r(1), where c = "rv_deliver_next r"]) auto
  with filled show ?thesis by (simp add: held_at_def slot_holds_def)
qed

lemma filled_count_pointwise:
  "length xs = length ys \<Longrightarrow>
   (\<And>i. i < length xs \<Longrightarrow> sl_state (xs ! i) = Filled \<longleftrightarrow> sl_state (ys ! i) = Filled) \<Longrightarrow>
   filled_count xs = filled_count ys"
  by (simp add: filled_count_def length_filter_conv_card) (metis (no_types, lifting))

lemma skip_step:
  assumes ok: "recv_ok (fl_receiver f)" "rv_started (fl_receiver f)"
    and k: "k \<le> window (fl_receiver f)"
    and holes: "window (fl_receiver f) \<le> length (ring_of f) \<Longrightarrow>
      (\<forall>j < k. \<not> held_at (fl_receiver f) j) \<and> k < window (fl_receiver f)"
  shows "\<exists>g. skip_to f (cursor_of f + of_nat k) = Some g \<and> playout_step f now g
    \<and> window (fl_receiver g) = window (fl_receiver f) - k"
proof -
  let ?r = "fl_receiver f"
  note r = recv_okD [OF ok]
  have "k < 2 ^ 32" using k r(2) by simp
  then have gap: "unat (cursor_of f + of_nat k - cursor_of f) = k" by (simp add: unat_of_nat)
  obtain ring where
    run: "skip_clear (ring_of f) (rv_mask ?r) (cursor_of f) (cursor_of f + of_nat k) = Some ring" and
    len: "length ring = length (ring_of f)" and
    at: "\<And>i. i < length (ring_of f) \<Longrightarrow> ring ! i =
          (if \<exists>j < k. ring_index (rv_mask ?r) (cursor_of f + of_nat j) = i
           then slot_clear (ring_of f ! i) else ring_of f ! i)"
    using skip_clear_char [OF r(1), of "cursor_of f" "cursor_of f + of_nat k"] unfolding gap by blast
  define passed where
    "passed i \<longleftrightarrow> (\<exists>j < k. ring_index (rv_mask ?r) (cursor_of f + of_nat j) = i)" for i
  have at_passed: "sl_state (ring ! i) = Empty" if "i < length (ring_of f)" "passed i" for i
    using at [OF that(1)] that(2) by (simp flip: passed_def)
  have at_kept: "ring ! i = ring_of f ! i" if "i < length (ring_of f)" "\<not> passed i" for i
    using at [OF that(1)] that(2) by (simp flip: passed_def)
  obtain g where g: "skip_to f (cursor_of f + of_nat k) = Some g"
    using run by (simp add: skip_to_def Let_def)
  then have gr: "ring_of g = ring" and gc: "cursor_of g = cursor_of f + of_nat k" and
    ge: "fl_events g = fl_events f" and
    gs: "st_delivered (fl_stats g) = st_delivered (fl_stats f)"
        "st_lost (fl_stats g) = st_lost (fl_stats f) + k" and
    gf: "playout_frame f g"
    using run len gap by (auto simp: skip_to_def playout_frame_def Let_def)
  have keep: "recv_ok (fl_receiver g) \<and> window (fl_receiver g) = window ?r - k"
  proof (rule slots_placed_advance [OF ok k])
    fix i assume i: "i < length (ring_of f)" "sl_state (ring_of g ! i) = Filled"
    then have "\<not> passed i" using at_passed [of i] by (auto simp: gr)
    with at_kept [OF i(1)] show "ring_of g ! i = ring_of f ! i \<and>
        (\<forall>j < k. ring_index (rv_mask ?r) (cursor_of f + of_nat j) \<noteq> i)"
      by (auto simp: gr passed_def)
  qed (use gf gc gr len ok in \<open>simp_all add: playout_frame_def\<close>)
  have "s \<in> set (ring_of f)" if s: "s \<in> set (ring_of g)" "sl_state s = Filled" for s
  proof -
    from s(1) obtain i where "i < length (ring_of f)" "s = ring ! i"
      using len by (auto simp: gr in_set_conv_nth)
    with s(2) show ?thesis using at_passed [of i] at_kept [of i] by (cases "passed i") auto
  qed
  then have "playout_post f now g [] [] k"
    using ge gs gc k keep by (simp add: playout_post_def)
  moreover have "keeps_buffered f g"
  proof -
    have "filled_count ring = filled_count (ring_of f)"
      if w: "window ?r \<le> length (ring_of f)"
    proof (rule filled_count_pointwise [OF len])
      fix i assume i: "i < length ring"
      have "sl_state (ring_of f ! i) \<noteq> Filled" if "passed i"
        using filled_held_at [OF ok w] holes [OF w] that
        unfolding passed_def by (metis less_trans)
      with at_passed [of i] at_kept [of i] i len
      show "sl_state (ring ! i) = Filled \<longleftrightarrow> sl_state (ring_of f ! i) = Filled"
        by (cases "passed i") auto
    qed
    then show ?thesis using keep gs gr len by (auto simp: keeps_buffered_def)
  qed
  ultimately show ?thesis using g keep gf by (auto simp: playout_step_def delivers_def)
qed

section \<open>The whole loop\<close>

text \<open>Where playout stops: the first buffered packet is not due and a timer runs for it, or no
  number up to a ring ahead is buffered and no timer runs.\<close>

definition output_time_at :: "receiver_state \<Rightarrow> nat \<Rightarrow> timestamp" where
  "output_time_at r j =
     sl_output_time (rv_ring r ! ring_index (rv_mask r) (rv_deliver_next r + of_nat j))"

definition settled :: "receiver_state \<Rightarrow> timestamp \<Rightarrow> bool" where
  "settled r now \<longleftrightarrow>
     (\<exists>j. held_at r j \<and> (\<forall>i < j. \<not> held_at r i) \<and> now < output_time_at r j
        \<and> rv_playout_armed r \<and> rv_playout_deadline r \<le> output_time_at r j)
     \<or> (\<not> rv_playout_armed r \<and> (\<forall>j. j < window r \<and> j \<le> length (rv_ring r) \<longrightarrow> \<not> held_at r j))"

lemma settled_arm:
  assumes "held_at (fl_receiver f) j" "\<forall>i < j. \<not> held_at (fl_receiver f) i"
    "now < output_time_at (fl_receiver f) j"
  shows "settled (fl_receiver (arm_playout (output_time_at (fl_receiver f) j) f)) now"
  using assms
  by (auto simp: settled_def held_at_def output_time_at_def arm_playout_def intro!: exI [of _ j])

lemma settled_disarm:
  assumes "\<And>j. j < window (fl_receiver f) \<Longrightarrow> j \<le> length (ring_of f) \<Longrightarrow> \<not> held_at (fl_receiver f) j"
  shows "settled (fl_receiver (disarm_playout f)) now"
  using assms by (simp add: settled_def held_at_def window_def disarm_playout_def)

lemma window_not_ahead:
  assumes "recv_ok r" "rv_started r" "seq_distance (rv_deliver_next r) (rv_highest r) \<le> 0"
  shows "window r \<le> 1"
proof (rule ccontr)
  assume "\<not> window r \<le> 1"
  define x where "x = rv_highest r - rv_deliver_next r"
  have w: "window r = unat (x + 1)" by (simp add: window_def x_def algebra_simps)
  have "x + 1 \<noteq> 0" using \<open>\<not> window r \<le> 1\<close> w by (metis unat_0 zero_le_one)
  then have "unat (x + 1) = Suc (unat x)" using unatSuc [of x] by (simp add: add.commute)
  moreover have "unat (x + 1) \<le> 2 ^ 31" using recv_okD(2) [OF assms(1,2)] w by simp
  ultimately have "0 < unat x" "unat x < 2 ^ 31" using \<open>\<not> window r \<le> 1\<close> w by simp_all
  then have "seq_distance (rv_deliver_next r) (rv_highest r) = int (unat x)"
    by (simp add: seq_distance_eq seq_raw_gap_def x_def)
  with \<open>0 < unat x\<close> assms(3) show False by linarith
qed

text \<open>One turn of the loop either stops settled or goes on with a smaller window.\<close>

definition progresses :: "flow \<Rightarrow> timestamp \<Rightarrow> bool" where
  "progresses f now \<longleftrightarrow>
     (\<exists>g. deliver_loop f now = Some g \<and> playout_step f now g \<and> settled (fl_receiver g) now)
     \<or> (\<exists>g. deliver_loop f now = deliver_loop g now \<and> playout_step f now g
           \<and> window (fl_receiver g) < window (fl_receiver f))"

lemma progresses_stop:
  "deliver_loop f now = Some g \<Longrightarrow> playout_step f now g \<Longrightarrow> settled (fl_receiver g) now \<Longrightarrow>
   progresses f now"
  unfolding progresses_def by blast

lemma progresses_go:
  "deliver_loop f now = deliver_loop g now \<Longrightarrow> playout_step f now g \<Longrightarrow>
   window (fl_receiver g) < window (fl_receiver f) \<Longrightarrow> progresses f now"
  unfolding progresses_def by blast

text \<open>The body of the loop when no index is out of range.\<close>

lemma deliver_loop_held:
  assumes "ring_geometry (ring_of f) (rv_mask (fl_receiver f))" "held_at (fl_receiver f) 0"
  shows "deliver_loop f now =
    (if now < output_time_at (fl_receiver f) 0
     then Some (arm_playout (output_time_at (fl_receiver f) 0) f)
     else case emit_deliver f (ring_index (rv_mask (fl_receiver f)) (cursor_of f)) of
            None \<Rightarrow> None | Some f' \<Rightarrow> deliver_loop f' now)"
  using assms ring_index_less [OF assms(1), of "cursor_of f"]
  by (simp add: deliver_loop.simps [of f now] held_at_def output_time_at_def Let_def)

lemma deliver_loop_hole:
  assumes "ring_geometry (ring_of f) (rv_mask (fl_receiver f))" "\<not> held_at (fl_receiver f) 0"
  shows "seq_distance (cursor_of f) (rv_highest (fl_receiver f)) \<le> 0 \<Longrightarrow>
      deliver_loop f now = Some (disarm_playout f)"
    and "0 < seq_distance (cursor_of f) (rv_highest (fl_receiver f)) \<Longrightarrow>
      find_ahead (ring_of f) (rv_mask (fl_receiver f)) (cursor_of f) 1
        (nat (min (seq_distance (cursor_of f) (rv_highest (fl_receiver f)))
               (int (length (ring_of f))))) = Some x \<Longrightarrow>
      deliver_loop f now =
        (case x of
           None \<Rightarrow>
             if int (length (ring_of f)) < seq_distance (cursor_of f) (rv_highest (fl_receiver f))
             then case skip_to f (cursor_of f + of_nat (length (ring_of f))) of
                    None \<Rightarrow> None | Some f' \<Rightarrow> deliver_loop f' now
             else Some (disarm_playout f)
         | Some m \<Rightarrow>
             if now < sl_output_time (ring_of f ! ring_index (rv_mask (fl_receiver f)) m)
             then Some (arm_playout
                         (sl_output_time (ring_of f ! ring_index (rv_mask (fl_receiver f)) m)) f)
             else case skip_to f m of None \<Rightarrow> None | Some f' \<Rightarrow> deliver_loop f' now)"
  using assms ring_index_less [OF assms(1), of "cursor_of f"] ring_slot_panic_free [OF assms(1)]
  by (cases x; simp add: deliver_loop.simps [of f now] held_at_def Let_def)+

lemma iteration_held:
  assumes ok: "recv_ok (fl_receiver f)" "rv_started (fl_receiver f)"
    and held: "held_at (fl_receiver f) 0"
  shows "progresses f now"
proof (cases "now < output_time_at (fl_receiver f) 0")
  case True
  show ?thesis
    using deliver_loop_held [OF recv_okD(1) [OF ok] held] True settled_arm [OF held _ True]
    by (intro progresses_stop [OF _ arm_playout_step [OF ok(1)]]) simp_all
next
  case False
  let ?idx = "ring_index (rv_mask (fl_receiver f)) (cursor_of f)"
  have "slot_holds (ring_of f ! ?idx) (cursor_of f)" "sl_output_time (ring_of f ! ?idx) \<le> now"
    using held False by (simp_all add: held_at_def output_time_at_def)
  from emit_step [OF ok refl this] obtain g where g: "emit_deliver f ?idx = Some g"
    "playout_step f now g" "window (fl_receiver g) < window (fl_receiver f)" by blast
  then show ?thesis
    using deliver_loop_held [OF recv_okD(1) [OF ok] held] False by (intro progresses_go) simp_all
qed

lemma iteration_found:
  assumes ok: "recv_ok (fl_receiver f)" "rv_started (fl_receiver f)"
    and held: "held_at (fl_receiver f) j" "\<forall>i < j. \<not> held_at (fl_receiver f) i"
    and j: "0 < j" "j < window (fl_receiver f)"
    and eq: "deliver_loop f now =
      (if now < output_time_at (fl_receiver f) j
       then Some (arm_playout (output_time_at (fl_receiver f) j) f)
       else case skip_to f (cursor_of f + of_nat j) of
              None \<Rightarrow> None | Some f' \<Rightarrow> deliver_loop f' now)"
  shows "progresses f now"
proof (cases "now < output_time_at (fl_receiver f) j")
  case True
  then show ?thesis
    using eq settled_arm [OF held True]
    by (intro progresses_stop [OF _ arm_playout_step [OF ok(1)]]) simp_all
next
  case False
  obtain g where g: "skip_to f (cursor_of f + of_nat j) = Some g" "playout_step f now g"
    "window (fl_receiver g) = window (fl_receiver f) - j"
    using skip_step [OF ok, of j] held(2) j by auto
  with j show ?thesis using eq False by (intro progresses_go [of f now g]) simp_all
qed

lemma iteration_none:
  assumes ok: "recv_ok (fl_receiver f)" "rv_started (fl_receiver f)"
    and dist: "0 < seq_distance (cursor_of f) (rv_highest (fl_receiver f))"
    and none: "\<And>j. j < window (fl_receiver f) \<Longrightarrow> j \<le> length (ring_of f) \<Longrightarrow>
      \<not> held_at (fl_receiver f) j"
    and eq: "deliver_loop f now =
      (if int (length (ring_of f)) < seq_distance (cursor_of f) (rv_highest (fl_receiver f))
       then case skip_to f (cursor_of f + of_nat (length (ring_of f))) of
              None \<Rightarrow> None | Some f' \<Rightarrow> deliver_loop f' now
       else Some (disarm_playout f))"
  shows "progresses f now"
proof (cases "int (length (ring_of f)) < seq_distance (cursor_of f) (rv_highest (fl_receiver f))")
  case True
  let ?n = "length (ring_of f)"
  have k: "?n < window (fl_receiver f)" using True window_pos_distance [OF dist] by simp
  then obtain g where g: "skip_to f (cursor_of f + of_nat ?n) = Some g" "playout_step f now g"
    "window (fl_receiver g) = window (fl_receiver f) - ?n"
    using skip_step [OF ok, of ?n] by auto
  moreover have "0 < ?n" using ring_geometry_pos [OF recv_okD(1) [OF ok]] .
  ultimately show ?thesis using eq True k by (intro progresses_go [of f now g]) simp_all
next
  case False
  then show ?thesis
    using eq settled_disarm [OF none]
    by (intro progresses_stop [OF _ disarm_playout_step [OF ok(1)]]) simp_all
qed

lemma deliver_iteration:
  assumes ok: "recv_ok (fl_receiver f)" "rv_started (fl_receiver f)"
  shows "progresses f now"
proof (cases "held_at (fl_receiver f) 0")
  case True
  then show ?thesis by (rule iteration_held [OF ok])
next
  case False
  note geo = recv_okD(1) [OF ok]
  let ?dist = "seq_distance (cursor_of f) (rv_highest (fl_receiver f))"
  show ?thesis
  proof (cases "?dist \<le> 0")
    case True
    have "\<not> held_at (fl_receiver f) j" if "j < window (fl_receiver f)" for j
      using that window_not_ahead [OF ok True] False by (cases j) simp_all
    with deliver_loop_hole(1) [OF geo False True] show ?thesis
      by (intro progresses_stop [OF _ disarm_playout_step [OF ok(1)] settled_disarm]) simp_all
  next
    case dist: False
    define limit where "limit = nat (min ?dist (int (length (ring_of f))))"
    have w: "window (fl_receiver f) = nat ?dist + 1" using dist by (intro window_pos_distance) simp
    obtain x where x: "find_ahead (ring_of f) (rv_mask (fl_receiver f)) (cursor_of f) 1 limit = Some x"
      using find_ahead_panic_free [OF geo] by blast
    note eq = deliver_loop_hole(2) [OF geo False _ x [unfolded limit_def], of now]
    note slot = ring_slot_panic_free [OF geo]
    show ?thesis
    proof (cases x)
      case None
      have "\<not> held_at (fl_receiver f) j" if "j \<le> limit" for j
        using find_ahead_None [OF x [unfolded None] _ that slot] False
        by (cases "j = 0") (simp_all add: held_at_def)
      then show ?thesis using dist None eq w
        by (intro iteration_none [OF ok]) (simp_all add: limit_def)
    next
      case (Some m)
      from find_ahead_Some [OF x [unfolded Some]] obtain j where
        j: "1 \<le> j" "j \<le> limit" "m = cursor_of f + of_nat j" "held_at (fl_receiver f) j"
        "\<forall>i. 1 \<le> i \<and> i < j \<longrightarrow> \<not> held_at (fl_receiver f) i"
        by (auto simp: slot held_at_def)
      then have "\<forall>i < j. \<not> held_at (fl_receiver f) i"
        using False by (metis One_nat_def Suc_leI neq0_conv)
      then show ?thesis using j w dist eq Some
        by (intro iteration_found [OF ok j(4)]) (simp_all add: limit_def output_time_at_def)
    qed
  qed
qed

lemma deliver_loop_ok:
  assumes "recv_ok (fl_receiver f)" "rv_started (fl_receiver f)"
  shows "\<exists>g. deliver_loop f now = Some g \<and> playout_step f now g \<and> settled (fl_receiver g) now"
  using assms
proof (induction "window (fl_receiver f)" arbitrary: f rule: less_induct)
  case less
  from deliver_iteration [OF less.prems, of now] show ?case unfolding progresses_def
  proof (elim disjE exE conjE)
    fix g assume g: "deliver_loop f now = deliver_loop g now" "playout_step f now g"
      "window (fl_receiver g) < window (fl_receiver f)"
    then have "recv_ok (fl_receiver g)" "rv_started (fl_receiver g)"
      using less.prems by (simp_all add: playout_step_def playout_frame_def)
    from less.hyps [OF g(3) this] g show ?thesis using playout_step_trans by metis
  qed blast
qed

lemma deliver_due_step:
  assumes "recv_ok (fl_receiver f)"
  shows "\<exists>g. deliver_due f now = Some g \<and> playout_step f now g
    \<and> (rv_started (fl_receiver f) \<longrightarrow> settled (fl_receiver g) now)"
  using deliver_loop_ok [OF assms] playout_step_refl [OF assms]
  by (cases "rv_started (fl_receiver f)") (auto simp: deliver_due_def)

section \<open>The promises of playout\<close>

text \<open>A receiver with two buffered packets and a hole between them, for the concrete instances.\<close>

definition sample_slot :: "u32 \<Rightarrow> timestamp \<Rightarrow> slot" where
  "sample_slot n t = slot_default\<lparr>sl_seq := n, sl_output_time := t, sl_payload := [ucast n],
     sl_state := Filled\<rparr>"

definition sample_flow :: flow where
  "sample_flow = (flow_new Receiver librist_defaults)\<lparr>fl_receiver :=
     (receiver_new 4)\<lparr>rv_started := True, rv_highest := 2,
       rv_ring := [sample_slot 0 10, slot_default, sample_slot 2 30, slot_default]\<rparr>\<rparr>"

lemma all_less_4: "(\<forall>i < 4. P i) \<longleftrightarrow> P 0 \<and> P 1 \<and> P 2 \<and> P (3 :: nat)"
  by (auto simp: less_Suc_eq numeral_eq_Suc)

lemma sample_flow_ok:
  "recv_ok (fl_receiver sample_flow)" "rv_started (fl_receiver sample_flow)"
  "window (fl_receiver sample_flow) = 3" "length (ring_of sample_flow) = 4"
proof -
  show s: "rv_started (fl_receiver sample_flow)" "window (fl_receiver sample_flow) = 3"
    "length (ring_of sample_flow) = 4"
    by (simp_all add: sample_flow_def receiver_new_def window_def)
  have "ring_geometry (ring_of sample_flow) (rv_mask (fl_receiver sample_flow))"
    using ring_geometry_mask [of 2 "ring_of sample_flow"]
    by (simp add: sample_flow_def receiver_new_def numeral_eq_Suc)
  moreover have "slots_placed (fl_receiver sample_flow)"
    unfolding slots_placed_def s(2,3) all_less_4
    by (simp add: sample_flow_def receiver_new_def ring_index_def ring_mask_def sample_slot_def
        slot_default_def)
  ultimately show "recv_ok (fl_receiver sample_flow)" using s by (simp add: recv_ok_def)
qed

text \<open>C3: playout is safe. From any receiver whose ring is consistent, a playout call returns; it
  delivers packets in strictly increasing sequence order starting at the cursor, none twice, each
  with the payload, source time and framing role of a slot that was buffered and whose playout time
  had come; the cursor advances over exactly the delivered and the lost numbers, both counted; and
  the ring stays consistent.\<close>

theorem playout_in_order:
  assumes "recv_ok (fl_receiver f)"
  shows "\<exists>g. deliver_due f now = Some g \<and> delivers f now g \<and> recv_ok (fl_receiver g)"
  using deliver_due_step [OF assms, of now] unfolding playout_step_def by blast

theorem playout_in_order_witness:
  "\<exists>g. deliver_due sample_flow 20 = Some g \<and> delivers sample_flow 20 g \<and> recv_ok (fl_receiver g)"
  by (rule playout_in_order [OF sample_flow_ok(1)])

text \<open>C23: playout discards nothing while every number between the cursor and the newest one fits the
  ring: the packets buffered before the call are exactly those delivered by it and those still
  buffered after it.\<close>

theorem playout_conserves:
  assumes "recv_ok (fl_receiver f)" "window (fl_receiver f) \<le> length (rv_ring (fl_receiver f))"
  shows "\<exists>g. deliver_due f now = Some g
    \<and> filled_count (rv_ring (fl_receiver g)) + st_delivered (fl_stats g)
      = filled_count (rv_ring (fl_receiver f)) + st_delivered (fl_stats f)"
  using deliver_due_step [OF assms(1), of now] assms(2)
  unfolding playout_step_def keeps_buffered_def by blast

theorem playout_conserves_witness:
  "\<exists>g. deliver_due sample_flow 20 = Some g
    \<and> filled_count (rv_ring (fl_receiver g)) + st_delivered (fl_stats g)
      = filled_count (rv_ring (fl_receiver sample_flow)) + st_delivered (fl_stats sample_flow)"
  by (rule playout_conserves) (simp_all add: sample_flow_ok)

text \<open>C4: playout is live. When a playout call on an anchored flow returns, either the first packet
  buffered at or after the cursor is not yet due and a playout timer no later than its playout time
  is armed, or nothing is buffered within a ring of the cursor and no timer runs.\<close>

theorem playout_live:
  assumes "recv_ok (fl_receiver f)" "rv_started (fl_receiver f)"
  shows "\<exists>g. deliver_due f now = Some g \<and> settled (fl_receiver g) now"
  using deliver_due_step [OF assms(1), of now] assms(2) by blast

theorem playout_live_witness:
  "\<exists>g. deliver_due sample_flow 20 = Some g \<and> settled (fl_receiver g) 20"
  by (rule playout_live [OF sample_flow_ok(1,2)])

end
