(* ===== verification/Nack_Queue.thy ===== *)
theory Nack_Queue
  imports Playout
begin

text \<open>
  Missing detection and the NACK cadence of the receiver (\<^verbatim>\<open>mark_missing\<close>,
  \<^verbatim>\<open>add_missing\<close>, \<^verbatim>\<open>schedule_nack\<close> and \<^verbatim>\<open>process_nacks\<close> of
  \<^verbatim>\<open>rist-core/src/flow/receiver.rs\<close>). The missing queue is a list in queue order; the pass
  over it is a structural recursion that carries the flow, the entries kept and the batch.
\<close>

definition nack_cadence :: micros where "nack_cadence = micros_from_millis 5"
definition rtt_echo_interval :: micros where "rtt_echo_interval = micros_from_millis 100"

section \<open>Queueing missing entries\<close>

definition add_missing :: "flow \<Rightarrow> timestamp \<Rightarrow> u8 \<Rightarrow> u32 \<Rightarrow> timestamp \<Rightarrow> flow option" where
  "add_missing f now path missing_seq nack_time =
     do {
       let insertion = (if now < nack_time \<or> nack_time < ts_sub now (fl_recovery_buffer f)
                        then now else nack_time);
       clamped \<leftarrow> est_clamped (fl_est f) (cfg_rtt_min (fl_cfg f)) (cfg_rtt_max (fl_cfg f));
       let first_delay = max (trunc_div clamped 2) (reorder_buffer (fl_cfg f));
       let next_nack = ts_add now first_delay;
       let e = \<lparr>me_seq = missing_seq, me_path = path, me_nack_count = 0,
                me_insertion_time = insertion, me_next_nack = next_nack\<rparr>;
       Some (upd_stats (\<lambda>st. st\<lparr>st_missing := st_missing st + 1\<rparr>)
              (upd_recv (\<lambda>r. r\<lparr>rv_missing := rv_missing r @ [e]\<rparr>) f))
     }"

text \<open>The walk \<^verbatim>\<open>while m != current\<close> of \<^verbatim>\<open>mark_missing\<close>, with its two early exits: the
  buffer-bloat guard and the bound of one ring.\<close>

function mark_walk ::
    "flow \<Rightarrow> timestamp \<Rightarrow> u8 \<Rightarrow> u32 \<Rightarrow> u32 \<Rightarrow> timestamp \<Rightarrow> micros \<Rightarrow> nat \<Rightarrow> nat \<Rightarrow> flow option" where
  "mark_walk f now path m current nack_time interpacket count ring_len =
     (if m = current then Some f
      else if fl_missing_counter_max f < length (rv_missing (fl_receiver f)) then Some f
      else let nack_time = ts_add nack_time interpacket
           in case add_missing f now path m nack_time of
                None \<Rightarrow> None
              | Some f' \<Rightarrow>
                  if count + 1 = ring_len then Some f'
                  else mark_walk f' now path (m + 1) current nack_time interpacket (count + 1)
                         ring_len)"
  by pat_completeness auto
termination
proof (relation "measure (\<lambda>(f, now, path, m, current, nt, ip, count, rl). unat (current - m))",
    goal_cases)
  case (2 f now path m current nack_time interpacket count ring_len)
  then have "1 \<le> unat (current - m)" by (simp add: Suc_le_eq unat_gt_0)
  then show ?case using unat_gap_add [of 1 current m] by simp
qed simp

declare mark_walk.simps [simp del]

definition mark_missing :: "flow \<Rightarrow> timestamp \<Rightarrow> u8 \<Rightarrow> u32 \<Rightarrow> timestamp \<Rightarrow> flow option" where
  "mark_missing f now path current packet_time_now =
     (if no_recovery (fl_cfg f) then Some f
      else
        let r = fl_receiver f;
            last_found = rv_last_found r;
            gap = unat (current - last_found);
            max_gap = (if rv_short_seq r then max_gap_16 else length (rv_ring r) div 2)
        in if max_gap < gap then Some f
           else if gap = 0 then Some f
           else do {
             s \<leftarrow> ring_slot (rv_ring r) (rv_mask r) last_found;
             let packet_time_last = (if slot_holds s last_found then sl_packet_time s else now);
             let delta = max (ts_diff packet_time_now packet_time_last) 0;
             let interpacket = trunc_div delta (int gap + 1);
             mark_walk f now path (last_found + 1) current packet_time_last interpacket 1
               (length (rv_ring r))
           })"

section \<open>The NACK cadence\<close>

definition schedule_nack :: "timestamp \<Rightarrow> flow \<Rightarrow> flow" where
  "schedule_nack now f =
     (if rv_missing (fl_receiver f) = [] \<or> rv_nack_armed (fl_receiver f) then f
      else push_output (SetTimer NackTimer (ts_add now nack_cadence))
             (upd_recv (\<lambda>r. r\<lparr>rv_nack_armed := True\<rparr>) f))"

text \<open>The return-bandwidth token bucket.\<close>

definition bucket_limited :: "receiver_state \<Rightarrow> bool" where
  "bucket_limited r \<longleftrightarrow> f64_less (f64_of_int 0) (rv_nack_seqs_per_sec r)"

definition refill_tokens :: "timestamp \<Rightarrow> receiver_state \<Rightarrow> receiver_state" where
  "refill_tokens now r =
     (if bucket_limited r then
        let elapsed = ts_diff now (rv_nack_tokens_time r);
            tokens =
              (if 0 < elapsed then
                 let t = f64_add (rv_nack_tokens r)
                           (f64_mul (f64_div (f64_of_int elapsed) (f64_of_int 1000000))
                             (rv_nack_seqs_per_sec r))
                 in if f64_less (rv_nack_token_burst r) t then rv_nack_token_burst r else t
               else rv_nack_tokens r)
        in r\<lparr>rv_nack_tokens := tokens, rv_nack_tokens_time := now\<rparr>
      else r)"

definition count_recovered :: "nat \<Rightarrow> stats \<Rightarrow> stats" where
  "count_recovered n st0 =
     (let st = st0\<lparr>st_recovered := st_recovered st0 + 1\<rparr>
      in if n = 1 then st\<lparr>st_recovered_one_retry := st_recovered_one_retry st + 1\<rparr>
         else if n = 2 then st\<lparr>st_recovered_two_nacks := st_recovered_two_nacks st + 1\<rparr>
         else if n = 3 then st\<lparr>st_recovered_three_nacks := st_recovered_three_nacks st + 1\<rparr>
         else if n = 4 then st\<lparr>st_recovered_four_nacks := st_recovered_four_nacks st + 1\<rparr>
         else st\<lparr>st_recovered_more_nacks := st_recovered_more_nacks st + 1\<rparr>)"

text \<open>Whether an entry is NACKed in this pass: due, and a token is available or none is needed.\<close>

definition nack_due :: "receiver_state \<Rightarrow> timestamp \<Rightarrow> missing_entry \<Rightarrow> bool" where
  "nack_due r now e \<longleftrightarrow> me_next_nack e \<le> now
     \<and> (f64_le (rv_nack_seqs_per_sec r) (f64_of_int 0)
        \<or> f64_le (f64_of_int 1) (rv_nack_tokens r))"

fun nack_walk ::
    "flow \<Rightarrow> timestamp \<Rightarrow> micros \<Rightarrow> missing_entry list \<Rightarrow> missing_entry list \<Rightarrow> u32 list
      \<Rightarrow> (flow \<times> missing_entry list \<times> u32 list) option" where
  "nack_walk f now retry [] kept batch = Some (f, kept, batch)"
| "nack_walk f now retry (e # es) kept batch =
     (case ring_slot (rv_ring (fl_receiver f)) (rv_mask (fl_receiver f)) (me_seq e) of
        None \<Rightarrow> None
      | Some s \<Rightarrow>
          if slot_holds s (me_seq e) then
            nack_walk
              (if 0 < me_nack_count e then upd_stats (count_recovered (me_nack_count e)) f else f)
              now retry es kept batch
          else if sl_state s = Filled then nack_walk f now retry es kept batch
          else if max_retries (fl_cfg f) \<le> me_nack_count e then
            nack_walk (upd_stats (\<lambda>st. st\<lparr>st_abandoned := st_abandoned st + 1\<rparr>) f)
              now retry es kept batch
          else if fl_recovery_buffer_110 f < ts_diff now (me_insertion_time e) then
            nack_walk (upd_stats (\<lambda>st. st\<lparr>st_abandoned := st_abandoned st + 1\<rparr>) f)
              now retry es kept batch
          else if nack_due (fl_receiver f) now e then
            nack_walk
              (upd_recv (\<lambda>r. if bucket_limited r
                              then r\<lparr>rv_nack_tokens := f64_sub (rv_nack_tokens r) (f64_of_int 1)\<rparr>
                              else r)
                (upd_stats (\<lambda>st. st\<lparr>st_nacks_sent := st_nacks_sent st + 1\<rparr>) f))
              now retry es
              (kept @ [e\<lparr>me_next_nack := ts_add now retry, me_nack_count := me_nack_count e + 1\<rparr>])
              (batch @ [me_seq e])
          else nack_walk f now retry es (kept @ [e]) batch)"

definition process_nacks :: "flow \<Rightarrow> timestamp \<Rightarrow> flow option" where
  "process_nacks f now =
     (if rv_missing (fl_receiver f) = [] then Some f
      else do {
        retry \<leftarrow> est_retry_interval (fl_est f) (cfg_rtt_min (fl_cfg f)) (cfg_rtt_max (fl_cfg f));
        let f1 = upd_recv (refill_tokens now) f;
        (f2, kept, batch) \<leftarrow> nack_walk f1 now retry (rv_missing (fl_receiver f1)) [] [];
        let f3 = upd_recv (\<lambda>r. r\<lparr>rv_missing := kept\<rparr>) f2;
        Some (if batch = [] then f3
              else push_output
                     (SendFeedback (rv_last_path (fl_receiver f3))
                       (Nack (rv_ssrc (fl_receiver f3)) batch)) f3)
      })"

end
