(* ===== verification/Recv_Feed.thy ===== *)
theory Recv_Feed
  imports Nack_Queue
begin

text \<open>
  The receiver's input path (\<^verbatim>\<open>recv_feed\<close> and its helpers in
  \<^verbatim>\<open>rist-core/src/flow/receiver.rs\<close>): arrival spacing, flow-id and framing changes, the first
  packet, packet-time mapping with the source-clock wrap, too-late shedding, the
  \<open>(seq, source_time)\<close> duplicate test, insertion and missing detection; and the recovery-buffer
  auto-scaling. \<open>recv_feed\<close> is the composition of the phases in the order of the source.
\<close>

section \<open>Packet times\<close>

definition map_source_time :: "flow \<Rightarrow> ntp64 \<Rightarrow> timestamp" where
  "map_source_time f st = ts_add (ntp_to_timestamp st) (rv_offset (fl_receiver f))"

definition src_wrap_period_ntp :: ntp64 where
  "src_wrap_period_ntp = push_bit 32 0xFFFFFFFF div 90000"

definition src_wrap_half_ntp :: ntp64 where
  "src_wrap_half_ntp = src_wrap_period_ntp div 2"

definition src_wrap_period_micros :: micros where
  "src_wrap_period_micros = 2 ^ 32 * 100 div 9"

definition receiver_packet_time :: "flow \<Rightarrow> timestamp \<Rightarrow> ntp64 \<Rightarrow> bool \<Rightarrow> flow \<times> timestamp" where
  "receiver_packet_time f now st retransmit =
     (if cfg_timing_mode (fl_cfg f) = Arrival then (f, now)
      else
        let pt = map_source_time f st;
            dwell = sat_i64 (fl_recovery_buffer f * 3);
            r = fl_receiver f
        in if cfg_timing_mode (fl_cfg f) = Source \<and> \<not> retransmit
              \<and> st < rv_max_source_time r
              \<and> src_wrap_half_ntp < rv_max_source_time r - st
              \<and> dwell \<le> ts_diff now (rv_last_resync r)
           then
             let f1 = upd_recv (\<lambda>r. r\<lparr>rv_offset := micros_add (rv_offset r) src_wrap_period_micros\<rparr>) f;
                 pt = map_source_time f1 st;
                 f2 = upd_recv (\<lambda>r. r\<lparr>rv_max_source_time := st, rv_last_packet_time := pt,
                                       rv_last_resync := now\<rparr>) f1;
                 f3 = upd_stats (\<lambda>s. s\<lparr>st_clock_resync := st_clock_resync s + 1\<rparr>) f2
             in (f3, pt)
           else (f, pt))"

section \<open>Gauges\<close>

definition ips_gauges :: "flow \<Rightarrow> int \<times> int \<times> int" where
  "ips_gauges f =
     (let r = fl_receiver f; mn = (if rv_ips_min_us r = i64_max then 0 else rv_ips_min_us r)
      in (mn, rv_ips_cur_us r, rv_ips_max_us r))"

definition avg_buffer_time_us :: "flow \<Rightarrow> int" where
  "avg_buffer_time_us f =
     (if fl_role f \<noteq> Receiver then 0
      else if rv_buffer_time_samples (fl_receiver f) = 0 then fl_recovery_buffer f
      else trunc_div (rv_buffer_time_sum (fl_receiver f))
             (int (rv_buffer_time_samples (fl_receiver f))))"

definition sample_arrival_spacing :: "timestamp \<Rightarrow> flow \<Rightarrow> flow" where
  "sample_arrival_spacing now f =
     (let f1 = (if rv_started (fl_receiver f) then
                  let delta = ts_diff now (rv_ips_last_arrival (fl_receiver f))
                  in upd_recv (\<lambda>r. r\<lparr>rv_ips_cur_us := delta,
                                      rv_ips_min_us := min (rv_ips_min_us r) delta,
                                      rv_ips_max_us := max (rv_ips_max_us r) delta\<rparr>) f
                else f)
      in upd_recv (\<lambda>r. r\<lparr>rv_ips_last_arrival := now\<rparr>) f1)"

section \<open>Flow-id and framing changes\<close>

definition reset_receiver :: "flow \<Rightarrow> flow" where
  "reset_receiver f =
     upd_recv (\<lambda>r. r\<lparr>rv_ring := replicate (length (rv_ring r)) slot_default, rv_missing := [],
                      rv_started := False, rv_pending_discontinuity := False,
                      rv_playout_armed := False, rv_nack_armed := False\<rparr>) f"

definition check_flow_id :: "media_packet \<Rightarrow> flow \<Rightarrow> flow" where
  "check_flow_id pkt f =
     (if rv_started (fl_receiver f) \<and> \<not> mp_retransmit pkt
         \<and> mp_ssrc pkt AND NOT 1 \<noteq> rv_ssrc (fl_receiver f) AND NOT 1
      then upd_stats (\<lambda>st. st\<lparr>st_flow_resets := st_flow_resets st + 1\<rparr>) (reset_receiver f)
      else f)"

definition check_framing :: "timestamp \<Rightarrow> media_packet \<Rightarrow> flow \<Rightarrow> flow" where
  "check_framing now pkt f =
     (if rv_started (fl_receiver f) \<and> \<not> mp_retransmit pkt
         \<and> mp_short_seq pkt \<noteq> rv_short_seq (fl_receiver f)
      then
        let src = ntp_to_timestamp (mp_source_time pkt)
        in upd_stats (\<lambda>st. st\<lparr>st_framing_resets := st_framing_resets st + 1\<rparr>)
             (upd_recv (\<lambda>r. r\<lparr>rv_offset := ts_diff now src,
                               rv_max_source_time := mp_source_time pkt,
                               rv_last_packet_time := now,
                               rv_last_resync := now,
                               rv_short_seq := mp_short_seq pkt\<rparr>) f)
      else f)"

section \<open>Filling a slot\<close>

definition path_bit :: "u8 \<Rightarrow> u64" where
  "path_bit path = push_bit (unat (path AND 63)) 1"

definition fill_slot ::
    "media_packet \<Rightarrow> u8 \<Rightarrow> timestamp \<Rightarrow> timestamp \<Rightarrow> timestamp \<Rightarrow> slot" where
  "fill_slot pkt path now packet_time output_time =
     \<lparr>sl_payload = mp_payload pkt, sl_source_time = mp_source_time pkt, sl_arrival = now,
      sl_packet_time = packet_time, sl_output_time = output_time, sl_path_seen = path_bit path,
      sl_seq = mp_seq pkt, sl_frag = mp_frag pkt, sl_virt_src_port = mp_virt_src_port pkt,
      sl_virt_dst_port = mp_virt_dst_port pkt, sl_state = Filled\<rparr>"

definition count_received :: "media_packet \<Rightarrow> stats \<Rightarrow> stats" where
  "count_received pkt st =
     st\<lparr>st_received := st_received st + 1,
        st_received_bytes := st_received_bytes st + length (mp_payload pkt)\<rparr>"

section \<open>The first packet\<close>

definition start :: "flow \<Rightarrow> timestamp \<Rightarrow> u8 \<Rightarrow> media_packet \<Rightarrow> flow option" where
  "start f now path pkt =
     do {
       let src = ntp_to_timestamp (mp_source_time pkt);
       let output_time = ts_add now (fl_recovery_buffer f);
       _ \<leftarrow> ring_slot (rv_ring (fl_receiver f)) (rv_mask (fl_receiver f)) (mp_seq pkt);
       let f1 = upd_recv (\<lambda>r. r\<lparr>rv_offset := ts_diff now src, rv_started := True,
                  rv_ssrc := mp_ssrc pkt, rv_short_seq := mp_short_seq pkt,
                  rv_last_found := mp_seq pkt, rv_max_source_time := mp_source_time pkt,
                  rv_last_packet_time := now, rv_last_resync := now,
                  rv_highest := mp_seq pkt, rv_deliver_next := mp_seq pkt, rv_last_path := path,
                  rv_ring := (rv_ring r)[ring_index (rv_mask r) (mp_seq pkt) :=
                               fill_slot pkt path now now output_time]\<rparr>) f;
       let f2 = arm_playout output_time (upd_stats (count_received pkt) f1);
       Some (if no_recovery (fl_cfg f2) then f2
             else push_output (SetTimer RttEcho (ts_add now rtt_echo_interval)) f2)
     }"

section \<open>A packet of a started flow\<close>

definition count_too_late :: "bool \<Rightarrow> flow \<Rightarrow> flow" where
  "count_too_late retransmit f =
     upd_stats (\<lambda>st. st\<lparr>st_too_late := st_too_late st + 1,
                         st_too_late_retransmit :=
                           st_too_late_retransmit st + (if retransmit then 1 else 0)\<rparr>) f"

text \<open>Missing detection and the advance of \<^verbatim>\<open>last_found\<close>, the end of the accepted path.\<close>

definition note_arrival ::
    "flow \<Rightarrow> timestamp \<Rightarrow> u8 \<Rightarrow> media_packet \<Rightarrow> timestamp \<Rightarrow> bool \<Rightarrow> flow option" where
  "note_arrival f now path pkt packet_time out_of_order =
     (if mp_retransmit pkt then Some f
      else do {
        f1 \<leftarrow> (if \<not> out_of_order \<and> mp_seq pkt - 1 \<noteq> rv_last_found (fl_receiver f)
               then mark_missing f now path (mp_seq pkt) packet_time else Some f);
        Some (if out_of_order then f1
              else upd_recv (\<lambda>r. r\<lparr>rv_last_found := mp_seq pkt\<rparr>) f1)
      })"

text \<open>The duplicate test, the insertion and what follows it.\<close>

definition recv_insert ::
    "flow \<Rightarrow> timestamp \<Rightarrow> u8 \<Rightarrow> media_packet \<Rightarrow> timestamp \<Rightarrow> bool \<Rightarrow> flow option" where
  "recv_insert f now path pkt packet_time out_of_order =
     do {
       let seqn = mp_seq pkt;
       let idx = ring_index (rv_mask (fl_receiver f)) seqn;
       s \<leftarrow> vec_get (rv_ring (fl_receiver f)) idx;
       if slot_holds s seqn \<and> sl_source_time s = mp_source_time pkt then
         Some (upd_stats (\<lambda>st. st\<lparr>st_duplicates := st_duplicates st + 1\<rparr>)
                (upd_recv (\<lambda>r. r\<lparr>rv_ring := (rv_ring r)[idx :=
                     s\<lparr>sl_path_seen := sl_path_seen s OR path_bit path\<rparr>]\<rparr>) f))
       else do {
         let output_time = ts_add packet_time (fl_recovery_buffer f);
         let f1 = upd_stats (\<lambda>st. (count_received pkt st)
                    \<lparr>st_overwritten :=
                       st_overwritten st + (if sl_state s = Filled then 1 else 0),
                     st_reordered := st_reordered st + (if out_of_order then 1 else 0)\<rparr>) f;
         let f2 = upd_recv (\<lambda>r. r\<lparr>rv_ring := (rv_ring r)[idx :=
                      fill_slot pkt path now packet_time output_time],
                    rv_highest := (if seq_less (rv_highest r) seqn then seqn else rv_highest r),
                    rv_last_path := path\<rparr>) f1;
         f3 \<leftarrow> note_arrival f2 now path pkt packet_time out_of_order;
         Some (schedule_nack now (arm_playout output_time f3))
       }
     }"

definition recv_started :: "flow \<Rightarrow> timestamp \<Rightarrow> u8 \<Rightarrow> media_packet \<Rightarrow> flow option" where
  "recv_started f0 now path pkt =
     (let seqn = mp_seq pkt;
          retransmit = mp_retransmit pkt;
          f = (if retransmit
               then upd_stats (\<lambda>st. st\<lparr>st_retransmitted_received := st_retransmitted_received st + 1\<rparr>) f0
               else f0);
          (f, packet_time) = receiver_packet_time f now (mp_source_time pkt) retransmit;
          f = (if rv_max_source_time (fl_receiver f) < mp_source_time pkt
               then upd_recv (\<lambda>r. r\<lparr>rv_max_source_time := mp_source_time pkt,
                                     rv_last_packet_time := packet_time\<rparr>) f
               else f);
          behind = cfg_timing_mode (fl_cfg f) \<noteq> Arrival
                   \<and> packet_time < rv_last_packet_time (fl_receiver f)
                   \<and> seqn \<noteq> rv_last_found (fl_receiver f) + 1
      in if behind \<and> ts_add packet_time (fl_recovery_buffer_110 f) < now
         then Some (count_too_late retransmit f)
         else if seq_less seqn (rv_deliver_next (fl_receiver f))
         then Some (count_too_late retransmit f)
         else recv_insert f now path pkt packet_time (behind \<and> \<not> retransmit))"

definition recv_feed :: "flow \<Rightarrow> timestamp \<Rightarrow> u8 \<Rightarrow> media_packet \<Rightarrow> flow option" where
  "recv_feed f0 now path pkt =
     (let f = check_framing now pkt (check_flow_id pkt (sample_arrival_spacing now f0))
      in if \<not> rv_started (fl_receiver f)
         then (if mp_retransmit pkt then Some f else start f now path pkt)
         else recv_started f now path pkt)"

section \<open>Recovery-buffer auto-scaling\<close>

definition set_sender_max_buffer :: "flow \<Rightarrow> micros \<Rightarrow> flow" where
  "set_sender_max_buffer f max_buffer =
     (if fl_role f \<noteq> Receiver then f
      else if max_buffer < recovery_buffer_min (fl_cfg f)
      then upd_recv (\<lambda>r. r\<lparr>rv_sender_max_buffer := 0\<rparr>) f
      else
        let f1 = (if rv_sender_max_buffer (fl_receiver f) = 0
                  then upd_recv (\<lambda>r. r\<lparr>rv_loss_snap := st_lost (fl_stats f),
                                        rv_recovered_snap := st_recovered (fl_stats f)\<rparr>) f
                  else f)
        in upd_recv (\<lambda>r. r\<lparr>rv_sender_max_buffer := max_buffer\<rparr>) f1)"

definition buffer_decrease_step :: micros where
  "buffer_decrease_step = micros_from_millis 50"

definition buffer_high_loss_threshold :: nat where
  "buffer_high_loss_threshold = 25"

text \<open>The wanted buffer before clamping: the scaled round-trip time grown by the losses of the
  period, the sender's maximum under heavy loss, and at most one step below the current buffer.\<close>

definition desired_buffer :: "flow \<Rightarrow> int" where
  "desired_buffer f =
     (let r = fl_receiver f;
          base = wrap_i64 (wrap_i64 (est_smoothed (fl_est f) * int (rtt_multiplier (fl_cfg f)))
                 + reorder_buffer (fl_cfg f));
          lost_delta = st_lost (fl_stats f) - rv_loss_snap r;
          recovered_delta = st_recovered (fl_stats f) - rv_recovered_snap r;
          modifier = f64_add
                       (f64_add (f64_of_int 1) (f64_mul (f64_of_int (int lost_delta)) f64_0_05))
                       (f64_mul (f64_of_int (int recovered_delta)) f64_0_02);
          d1 = f64_to_i64 (f64_mul (f64_of_int base) modifier);
          d2 = (if buffer_high_loss_threshold < lost_delta then rv_sender_max_buffer r else d1);
          cur = fl_recovery_buffer f
      in if d2 < cur \<and> buffer_decrease_step < wrap_i64 (cur - d2)
         then wrap_i64 (cur - buffer_decrease_step) else d2)"

definition auto_scale_buffer :: "flow \<Rightarrow> flow option" where
  "auto_scale_buffer f0 =
     (if fl_role f0 \<noteq> Receiver then Some f0
      else
        let f = upd_recv (\<lambda>r. r\<lparr>rv_buffer_time_sum := wrap_i64 (rv_buffer_time_sum r + fl_recovery_buffer f0),
                                 rv_buffer_time_samples := rv_buffer_time_samples r + 1\<rparr>) f0;
            sender_max = rv_sender_max_buffer (fl_receiver f)
        in if rtt_multiplier (fl_cfg f) = 0 then Some f
           else if recovery_buffer_min (fl_cfg f) = recovery_buffer_max (fl_cfg f) then Some f
           else if sender_max \<le> 0 then Some f
           else do {
             d \<leftarrow> clamp_range (desired_buffer f) (recovery_buffer_min (fl_cfg f))
                   (recovery_buffer_max (fl_cfg f));
             let d = (if sender_max < d then sender_max else d);
             Some (upd_recv (\<lambda>r. r\<lparr>rv_loss_snap := st_lost (fl_stats f),
                                    rv_recovered_snap := st_recovered (fl_stats f)\<rparr>)
                    (f\<lparr>fl_recovery_buffer := d, fl_recovery_buffer_110 := mul_1_1 d\<rparr>))
           })"

end
