(* ===== verification/Flow_Sender.thy ===== *)
theory Flow_Sender
  imports Nack_Queue
begin

text \<open>
  The sender half (\<^verbatim>\<open>rist-core/src/flow/sender.rs\<close>): sequence assignment and first
  transmission, the retransmit history, and the service of a NACK through the gates in the order
  of the source (aged out, round-trip spacing, bandwidth, retry budget).
\<close>

section \<open>Sending\<close>

text \<open>The history slot of a first transmission.\<close>

definition sent_slot :: "u32 \<Rightarrow> ntp64 \<Rightarrow> bytes \<Rightarrow> frag_role \<Rightarrow> sender_slot" where
  "sent_slot seqn source_time payload frag =
     \<lparr>ss_payload = payload, ss_source_time = source_time, ss_seq = seqn, ss_transmit_count = 0,
      ss_last_retry = 0, ss_retried = False, ss_frag = frag, ss_state = Filled\<rparr>"

definition media_out ::
    "sender_state \<Rightarrow> u32 \<Rightarrow> ntp64 \<Rightarrow> bytes \<Rightarrow> frag_role \<Rightarrow> bool \<Rightarrow> flow_output" where
  "media_out sn seqn source_time payload frag retransmit =
     SendMedia (sn_tx_path sn)
       \<lparr>mp_seq = seqn, mp_source_time = source_time, mp_ssrc = sn_ssrc sn, mp_payload = payload,
        mp_retransmit = retransmit, mp_path_id = sn_tx_path sn, mp_frag = frag,
        mp_virt_src_port = 0, mp_virt_dst_port = 0, mp_short_seq = False\<rparr>"

definition sender_start :: "timestamp \<Rightarrow> flow \<Rightarrow> flow" where
  "sender_start now f =
     (if sn_started (fl_sender f) then f
      else
        let f1 = upd_send (\<lambda>sn. sn\<lparr>sn_started := True\<rparr>) f
        in if no_recovery (fl_cfg f) then f1
           else push_output (SetTimer RttEcho (ts_add now rtt_echo_interval)) f1)"

definition send_push_app_block ::
    "flow \<Rightarrow> timestamp \<Rightarrow> bytes \<Rightarrow> frag_role \<Rightarrow> u32 option \<Rightarrow> u64 option \<Rightarrow> flow option" where
  "send_push_app_block f0 now payload frag seq source_time =
     do {
       let f = sender_start now f0;
       let seqn = (case seq of Some s \<Rightarrow> s | None \<Rightarrow> sn_next_seq (fl_sender f));
       let f1 = upd_send (\<lambda>sn. sn\<lparr>sn_next_seq := seqn + 1\<rparr>) f;
       let st = (case source_time of Some t \<Rightarrow> t | None \<Rightarrow> ntp_from_timestamp now);
       f2 \<leftarrow> (if no_recovery (fl_cfg f1) then Some f1
              else do {
                let idx = ring_index (sn_mask (fl_sender f1)) seqn;
                _ \<leftarrow> vec_get (sn_ring (fl_sender f1)) idx;
                Some (upd_send (\<lambda>sn. sn\<lparr>sn_ring := (sn_ring sn)[idx :=
                        sent_slot seqn st payload frag]\<rparr>) f1)
              });
       let f3 = push_output (media_out (fl_sender f2) seqn st payload frag False) f2;
       let f4 = upd_send (\<lambda>sn. sn\<lparr>sn_data_bw :=
                  ewma_feed (sn_data_bw sn) now (wire_bytes (length payload))\<rparr>) f3;
       Some (upd_stats (\<lambda>s. s\<lparr>st_sent := st_sent s + 1,
                              st_sent_bytes := st_sent_bytes s + length payload\<rparr>) f4)
     }"

definition send_push_app :: "flow \<Rightarrow> timestamp \<Rightarrow> bytes \<Rightarrow> frag_role \<Rightarrow> flow option" where
  "send_push_app f now payload frag = send_push_app_block f now payload frag None None"

definition data_bitrate_bps :: "flow \<Rightarrow> int" where
  "data_bitrate_bps f = slow_bps (sn_data_bw (fl_sender f))"

definition retry_bitrate_bps :: "flow \<Rightarrow> int" where
  "retry_bitrate_bps f = slow_bps (sn_retry_bw (fl_sender f))"

section \<open>Servicing a NACK\<close>

text \<open>What the gates decide for one requested sequence number.\<close>

datatype nack_verdict = Skipped | Suppressed | OverBudget | Exhausted | Resend

definition nack_verdict :: "flow \<Rightarrow> timestamp \<Rightarrow> micros \<Rightarrow> u32 \<Rightarrow> sender_slot \<Rightarrow> nack_verdict" where
  "nack_verdict f now rtt m sl =
     (if ss_state sl \<noteq> Filled \<or> ss_seq sl \<noteq> m then Skipped
      else if ss_retried sl \<and> ts_diff now (ss_last_retry sl) < rtt then Suppressed
      else if over_budget (congestion_control (fl_cfg f)) (sn_data_bw (fl_sender f))
                (sn_retry_bw (fl_sender f)) (recovery_maxbitrate (fl_cfg f)) then OverBudget
      else if max_retries (fl_cfg f) \<le> ss_transmit_count sl then Exhausted
      else Resend)"

text \<open>The effects of a resend.\<close>

definition resend :: "flow \<Rightarrow> timestamp \<Rightarrow> u32 \<Rightarrow> sender_slot \<Rightarrow> flow" where
  "resend f now m sl =
     (let idx = ring_index (sn_mask (fl_sender f)) m;
          f1 = upd_send (\<lambda>sn. sn\<lparr>sn_ring := (sn_ring sn)[idx :=
                 sl\<lparr>ss_last_retry := now, ss_retried := True,
                    ss_transmit_count := ss_transmit_count sl + 1\<rparr>]\<rparr>) f;
          f2 = push_output
                 (media_out (fl_sender f1) m (ss_source_time sl) (ss_payload sl) (ss_frag sl) True) f1;
          f3 = upd_send (\<lambda>sn. sn\<lparr>sn_retry_bw :=
                 ewma_feed (sn_retry_bw sn) now (wire_bytes (length (ss_payload sl)))\<rparr>) f2
      in upd_stats (\<lambda>s. s\<lparr>st_retransmitted := st_retransmitted s + 1,
                          st_retransmitted_bytes :=
                            st_retransmitted_bytes s + length (ss_payload sl)\<rparr>) f3)"

text \<open>The loop \<^verbatim>\<open>for m in missing\<close>, with its exit when the per-pass budget is used up.\<close>

fun nack_loop ::
    "flow \<Rightarrow> timestamp \<Rightarrow> micros \<Rightarrow> u32 list \<Rightarrow> nat \<Rightarrow> flow option" where
  "nack_loop f now rtt [] emitted = Some f"
| "nack_loop f now rtt (m # ms) emitted =
     (case ring_slot (sn_ring (fl_sender f)) (sn_mask (fl_sender f)) m of
        None \<Rightarrow> None
      | Some sl \<Rightarrow>
          (case nack_verdict f now rtt m sl of
             Skipped \<Rightarrow> nack_loop
               (upd_stats (\<lambda>s. s\<lparr>st_retransmit_skipped := st_retransmit_skipped s + 1\<rparr>) f)
               now rtt ms emitted
           | Suppressed \<Rightarrow> nack_loop
               (upd_stats (\<lambda>s. s\<lparr>st_retransmit_suppressed := st_retransmit_suppressed s + 1\<rparr>) f)
               now rtt ms emitted
           | OverBudget \<Rightarrow> nack_loop
               (upd_stats (\<lambda>s. s\<lparr>st_bandwidth_skipped := st_bandwidth_skipped s + 1\<rparr>) f)
               now rtt ms emitted
           | Exhausted \<Rightarrow> nack_loop
               (upd_stats (\<lambda>s. s\<lparr>st_retransmit_exhausted := st_retransmit_exhausted s + 1\<rparr>) f)
               now rtt ms emitted
           | Resend \<Rightarrow>
               if fl_max_nacks_per_loop f \<le> emitted + 1 then Some (resend f now m sl)
               else nack_loop (resend f now m sl) now rtt ms (emitted + 1)))"

definition service_nack :: "flow \<Rightarrow> timestamp \<Rightarrow> u32 list \<Rightarrow> flow option" where
  "service_nack f now missing =
     do {
       rtt0 \<leftarrow> est_last_clamped (fl_est f) (cfg_rtt_min (fl_cfg f)) (cfg_rtt_max (fl_cfg f));
       let rtt = (if congestion_control (fl_cfg f) = Aggressive then micros_add rtt0 rtt0 else rtt0);
       let f1 = upd_send (\<lambda>sn. sn\<lparr>sn_data_bw := ewma_feed (sn_data_bw sn) now 0,
                                   sn_retry_bw := ewma_feed (sn_retry_bw sn) now 0\<rparr>) f;
       nack_loop f1 now rtt missing 0
     }"

section \<open>The sender's timer\<close>

definition sender_handle_timer :: "flow \<Rightarrow> timestamp \<Rightarrow> timer_id \<Rightarrow> flow" where
  "sender_handle_timer f now i =
     (if i = RttEcho \<and> sn_started (fl_sender f)
      then push_output (SetTimer RttEcho (ts_add now rtt_echo_interval))
             (push_output (SendFeedback (sn_tx_path (fl_sender f))
                (RttEchoRequest 0 (ntp_from_timestamp now))) f)
      else f)"

end
