(* ===== verification/Flow_Core.thy ===== *)
theory Flow_Core
  imports Recv_Feed Flow_Sender
begin

text \<open>
  The public methods of \<^verbatim>\<open>Flow\<close> (\<^verbatim>\<open>rist-core/src/flow/mod.rs\<close>): the dispatch by role of
  media, feedback, application pushes and timers, the two output queues, and one step of the
  machine as the host drives it.
\<close>

definition set_rtt_multiplier :: "flow \<Rightarrow> nat \<Rightarrow> flow" where
  "set_rtt_multiplier f m = f\<lparr>fl_cfg := (fl_cfg f)\<lparr>rtt_multiplier := m\<rparr>\<rparr>"

definition flow_stats :: "flow \<Rightarrow> stats" where
  "flow_stats f =
     (case ips_gauges f of (mn, cur, mx) \<Rightarrow>
        (fl_stats f)\<lparr>st_smoothed_rtt_us := est_smoothed (fl_est f),
                     st_data_bitrate_bps := data_bitrate_bps f,
                     st_retry_bitrate_bps := retry_bitrate_bps f,
                     st_ips_min_us := mn, st_ips_cur_us := cur, st_ips_max_us := mx,
                     st_avg_buffer_time_us := avg_buffer_time_us f,
                     st_anchored := rv_started (fl_receiver f),
                     st_short_seq := rv_short_seq (fl_receiver f)\<rparr>)"

definition feed :: "flow \<Rightarrow> timestamp \<Rightarrow> u8 \<Rightarrow> media_packet \<Rightarrow> flow option" where
  "feed f now path pkt = (if fl_role f = Receiver then recv_feed f now path pkt else Some f)"

definition feedback_path :: "flow \<Rightarrow> u8" where
  "feedback_path f =
     (case fl_role f of Sender \<Rightarrow> sn_tx_path (fl_sender f)
                      | Receiver \<Rightarrow> rv_last_path (fl_receiver f))"

definition count_ignored :: "flow \<Rightarrow> flow" where
  "count_ignored f = upd_stats (\<lambda>s. s\<lparr>st_ignored_feedback := st_ignored_feedback s + 1\<rparr>) f"

definition feed_feedback :: "flow \<Rightarrow> timestamp \<Rightarrow> feedback \<Rightarrow> flow option" where
  "feed_feedback f now fb =
     (case fb of
        RttEchoRequest ssrc ts \<Rightarrow>
          Some (push_output (SendFeedback (feedback_path f) (RttEchoResponse ssrc ts 0)) f)
      | RttEchoResponse _ ts delay \<Rightarrow>
          let sent = ntp_to_timestamp ts;
              sample = micros_sub (ts_diff now sent) (int (unat delay))
          in Some (f\<lparr>fl_est := est_observe (fl_est f) sample\<rparr>)
      | Nack _ missing \<Rightarrow>
          if fl_role f = Sender then service_nack f now missing else Some (count_ignored f)
      | SenderReport _ _ \<Rightarrow> Some (count_ignored f)
      | Keepalive \<Rightarrow> Some (count_ignored f)
      | ExtSeq _ \<Rightarrow> Some (count_ignored f)
      | LinkQuality _ \<Rightarrow> Some (count_ignored f)
      | FlowAttribute _ \<Rightarrow> Some (count_ignored f))"

definition push_app_frag :: "flow \<Rightarrow> timestamp \<Rightarrow> bytes \<Rightarrow> frag_role \<Rightarrow> flow option" where
  "push_app_frag f now payload frag =
     (if fl_role f = Sender then send_push_app f now payload frag else Some f)"

definition push_app :: "flow \<Rightarrow> timestamp \<Rightarrow> bytes \<Rightarrow> flow option" where
  "push_app f now payload = push_app_frag f now payload Standalone"

definition push_app_block ::
    "flow \<Rightarrow> timestamp \<Rightarrow> bytes \<Rightarrow> frag_role \<Rightarrow> u32 option \<Rightarrow> u64 option \<Rightarrow> flow option" where
  "push_app_block f now payload frag seq source_time =
     (if fl_role f = Sender then send_push_app_block f now payload frag seq source_time else Some f)"

definition receiver_echo :: "flow \<Rightarrow> timestamp \<Rightarrow> flow option" where
  "receiver_echo f now =
     (if rv_started (fl_receiver f)
      then auto_scale_buffer
             (push_output (SetTimer RttEcho (ts_add now rtt_echo_interval))
               (push_output (SendFeedback (rv_last_path (fl_receiver f))
                  (RttEchoRequest 0 (ntp_from_timestamp now))) f))
      else Some f)"

definition handle_timer :: "flow \<Rightarrow> timestamp \<Rightarrow> timer_id \<Rightarrow> flow option" where
  "handle_timer f now i =
     (case fl_role f of
        Sender \<Rightarrow> Some (sender_handle_timer f now i)
      | Receiver \<Rightarrow>
          (case i of
             Playout \<Rightarrow> deliver_due (upd_recv (\<lambda>r. r\<lparr>rv_playout_armed := False\<rparr>) f) now
           | NackTimer \<Rightarrow>
               do { f' \<leftarrow> process_nacks (upd_recv (\<lambda>r. r\<lparr>rv_nack_armed := False\<rparr>) f) now;
                    Some (schedule_nack now f') }
           | RttEcho \<Rightarrow> receiver_echo f now))"

definition tick :: "flow \<Rightarrow> timestamp \<Rightarrow> flow option" where
  "tick f now =
     (if fl_role f = Receiver then do { f' \<leftarrow> deliver_due f now; process_nacks f' now } else Some f)"

definition poll_output :: "flow \<Rightarrow> flow_output option \<times> flow" where
  "poll_output f =
     (case fl_outputs f of [] \<Rightarrow> (None, f) | x # xs \<Rightarrow> (Some x, f\<lparr>fl_outputs := xs\<rparr>))"

definition poll_event :: "flow \<Rightarrow> event option \<times> flow" where
  "poll_event f =
     (case fl_events f of [] \<Rightarrow> (None, f) | x # xs \<Rightarrow> (Some x, f\<lparr>fl_events := xs\<rparr>))"

section \<open>One step of the machine\<close>

text \<open>Every call a host can make on a flow, with the instant it carries.\<close>

datatype flow_input =
    InFeed timestamp u8 media_packet
  | InFeedback timestamp feedback
  | InPush timestamp bytes frag_role "u32 option" "u64 option"
  | InTimer timestamp timer_id
  | InTick timestamp
  | InPollOutput
  | InPollEvent
  | InMultiplier nat
  | InSenderMax micros

fun flow_step :: "flow \<Rightarrow> flow_input \<Rightarrow> flow option" where
  "flow_step f (InFeed now path pkt) = feed f now path pkt"
| "flow_step f (InFeedback now fb) = feed_feedback f now fb"
| "flow_step f (InPush now payload frag seq st) = push_app_block f now payload frag seq st"
| "flow_step f (InTimer now i) = handle_timer f now i"
| "flow_step f (InTick now) = tick f now"
| "flow_step f InPollOutput = Some (snd (poll_output f))"
| "flow_step f InPollEvent = Some (snd (poll_event f))"
| "flow_step f (InMultiplier m) = Some (set_rtt_multiplier f m)"
| "flow_step f (InSenderMax d) = Some (set_sender_max_buffer f d)"

end
