(* ===== verification/Recv_Inv.thy ===== *)
theory Recv_Inv
  imports Playout_Run Flow_Core
begin

text \<open>
  The ring invariant across the receiver's input path and NACK passes. \<open>core_same\<close> is the frame
  of the operations that only touch timers, statistics, gauges and the missing queue; the insertion
  of an accepted packet extends the window to it and nothing else.
\<close>

section \<open>Operations that leave the ring alone\<close>

definition core_same :: "flow \<Rightarrow> flow \<Rightarrow> bool" where
  "core_same f f' \<longleftrightarrow>
     fl_role f' = fl_role f \<and> fl_cfg f' = fl_cfg f \<and> fl_est f' = fl_est f
     \<and> fl_sender f' = fl_sender f \<and> fl_events f' = fl_events f
     \<and> fl_recovery_buffer f' = fl_recovery_buffer f
     \<and> fl_recovery_buffer_110 f' = fl_recovery_buffer_110 f
     \<and> fl_missing_counter_max f' = fl_missing_counter_max f
     \<and> fl_max_nacks_per_loop f' = fl_max_nacks_per_loop f
     \<and> ring_of f' = ring_of f \<and> cursor_of f' = cursor_of f
     \<and> rv_mask (fl_receiver f') = rv_mask (fl_receiver f)
     \<and> rv_started (fl_receiver f') = rv_started (fl_receiver f)
     \<and> rv_highest (fl_receiver f') = rv_highest (fl_receiver f)"

lemma core_same_refl [simp]: "core_same f f"
  by (simp add: core_same_def)

lemma core_same_trans: "core_same f g \<Longrightarrow> core_same g h \<Longrightarrow> core_same f h"
  by (simp add: core_same_def)

lemma core_same_recv_ok: "core_same f g \<Longrightarrow> recv_ok (fl_receiver g) = recv_ok (fl_receiver f)"
  by (rule recv_ok_cong) (simp_all add: core_same_def)

lemma core_same_stats [frame]: "core_same f (upd_stats h f)"
  and core_same_output [frame]: "core_same f (push_output x f)"
  and core_same_arm [frame]: "core_same f (arm_playout d f)"
  and core_same_disarm [frame]: "core_same f (disarm_playout f)"
  and core_same_schedule [frame]: "core_same f (schedule_nack now f)"
  and core_same_spacing [frame]: "core_same f (sample_arrival_spacing now f)"
  and core_same_framing [frame]: "core_same f (check_framing now pkt f)"
  and core_same_late [frame]: "core_same f (count_too_late b f)"
  and core_same_packet_time [frame]: "core_same f (fst (receiver_packet_time f now st b))"
  by (simp_all add: core_same_def arm_playout_def disarm_playout_def schedule_nack_def
      sample_arrival_spacing_def check_framing_def count_too_late_def receiver_packet_time_def Let_def)

lemma core_same_recv:
  "rv_ring (h (fl_receiver f)) = ring_of f \<Longrightarrow> rv_deliver_next (h (fl_receiver f)) = cursor_of f \<Longrightarrow>
   rv_mask (h (fl_receiver f)) = rv_mask (fl_receiver f) \<Longrightarrow>
   rv_started (h (fl_receiver f)) = rv_started (fl_receiver f) \<Longrightarrow>
   rv_highest (h (fl_receiver f)) = rv_highest (fl_receiver f) \<Longrightarrow> core_same f (upd_recv h f)"
  by (simp add: core_same_def)

section \<open>Missing detection\<close>

text \<open>The configuration under which no range is inverted.\<close>

definition cfg_ok :: "config \<Rightarrow> bool" where
  "cfg_ok cfg \<longleftrightarrow> effective_min (cfg_rtt_min cfg) \<le> cfg_rtt_max cfg
     \<and> recovery_buffer_min cfg \<le> recovery_buffer_max cfg"

lemma add_missing_ok:
  assumes "cfg_ok (fl_cfg f)"
  shows "\<exists>g. add_missing f now path m nt = Some g \<and> core_same f g"
proof -
  obtain c where "est_clamped (fl_est f) (cfg_rtt_min (fl_cfg f)) (cfg_rtt_max (fl_cfg f)) = Some c"
    using assms est_clamped_panic_free unfolding cfg_ok_def by blast
  then show ?thesis by (simp add: add_missing_def core_same_def)
qed

lemma mark_walk_ok:
  "cfg_ok (fl_cfg f) \<Longrightarrow>
   \<exists>g. mark_walk f now path m current nt ip count n = Some g \<and> core_same f g"
proof (induction f now path m current nt ip count n rule: mark_walk.induct)
  case (1 f now path m current nt ip count n)
  note unf = mark_walk.simps [of f now path m current nt ip count n]
  show ?case
  proof (cases "m = current \<or> fl_missing_counter_max f < length (rv_missing (fl_receiver f))")
    case True
    then show ?thesis by (auto simp: unf)
  next
    case False
    obtain g where g: "add_missing f now path m (ts_add nt ip) = Some g" "core_same f g"
      using add_missing_ok [OF "1.prems"] by blast
    show ?thesis
    proof (cases "count + 1 = n")
      case True
      with False g show ?thesis by (simp add: unf)
    next
      case c: False
      have "cfg_ok (fl_cfg g)" using g(2) "1.prems" by (simp add: core_same_def)
      with "1.IH" [OF _ _ refl g(1) c] False obtain h where
        "mark_walk g now path (m + 1) current (ts_add nt ip) ip (count + 1) n = Some h" "core_same g h"
        by auto
      with False g c show ?thesis using core_same_trans by (auto simp: unf)
    qed
  qed
qed

lemma mark_missing_ok:
  assumes "cfg_ok (fl_cfg f)" "ring_geometry (ring_of f) (rv_mask (fl_receiver f))"
  shows "\<exists>g. mark_missing f now path current pt = Some g \<and> core_same f g"
proof -
  note slot = ring_slot_panic_free [OF assms(2)]
  show ?thesis using mark_walk_ok [OF assms(1)]
    by (auto simp: mark_missing_def slot Let_def)
qed

lemma note_arrival_ok:
  assumes "cfg_ok (fl_cfg f)" "ring_geometry (ring_of f) (rv_mask (fl_receiver f))"
  shows "\<exists>g. note_arrival f now path pkt pt oo = Some g \<and> core_same f g"
proof -
  have last: "core_same g (upd_recv (\<lambda>r. r\<lparr>rv_last_found := mp_seq pkt\<rparr>) g)" for g
    by (rule core_same_recv) simp_all
  show ?thesis
    using mark_missing_ok [OF assms, of now path "mp_seq pkt" pt] last core_same_trans
    by (auto simp: note_arrival_def)
qed

lemma unat_of_nat_small: "k < 2 ^ 32 \<Longrightarrow> unat (of_nat k :: u32) = k"
  by (simp add: unat_of_nat)

section \<open>The window grows with an accepted packet\<close>

lemma highest_advance:
  fixes s d h :: u32
  assumes "\<not> seq_less s d" "unat (h + 1 - d) \<le> 2 ^ 31"
  shows "unat (s - d) < 2 ^ 31" and "seq_less h s \<longleftrightarrow> unat (h + 1 - d) \<le> unat (s - d)"
proof -
  let ?o = "unat (s - d)" and ?w = "unat (h + 1 - d)"
  show o: "?o < 2 ^ 31"
  proof (cases "s = d")
    case False
    then have "unat (d - s) = 2 ^ 32 - ?o" "0 < ?o"
      using raw_gap_rev [of d s] by (simp_all add: seq_raw_gap_def unat_gt_0)
    moreover have "?o < 2 ^ 32" using unsigned_less [of "s - d"] by simp
    moreover have "unat (d - s) = 0 \<or> 2 ^ 31 < unat (d - s)"
      using assms(1) by (auto simp: seq_less_iff seq_raw_gap_def)
    moreover have "(2 :: nat) ^ 32 = 2 * 2 ^ 31" by simp
    ultimately show ?thesis by linarith
  qed simp
  show "seq_less h s \<longleftrightarrow> ?w \<le> ?o"
  proof (cases "?w \<le> ?o")
    case True
    then have "s - h = of_nat (?o - ?w + 1)" by (simp add: of_nat_diff algebra_simps)
    moreover have "?o - ?w + 1 < 2 ^ 32" using o by simp
    ultimately have "unat (s - h) = ?o - ?w + 1" by (metis unat_of_nat_small)
    with True o show ?thesis by (simp add: seq_less_iff seq_raw_gap_def)
  next
    case False
    then have "h - s = of_nat (?w - ?o - 1)" by (simp add: of_nat_diff algebra_simps)
    moreover have "?w - ?o - 1 < 2 ^ 31" using assms(2) False by simp
    ultimately have g: "unat (h - s) = ?w - ?o - 1" by (simp add: unat_of_nat)
    have "\<not> seq_less h s"
    proof (cases "h = s")
      case neq: False
      then have "unat (s - h) = 2 ^ 32 - unat (h - s)"
        using raw_gap_rev [of s h] by (simp add: seq_raw_gap_def)
      with g assms(2) False show ?thesis by (simp add: seq_less_iff seq_raw_gap_def)
    qed (simp add: seq_less_def)
    with False show ?thesis by simp
  qed
qed

text \<open>The receiver after an insertion: one slot filled, the newest number advanced.\<close>

lemma insert_recv_ok:
  assumes ok: "recv_ok r" "rv_started r" and new: "\<not> seq_less s (rv_deliver_next r)"
    and x: "sl_state x = Filled" "sl_seq x = s"
    and q: "rv_mask q = rv_mask r" "rv_started q" "rv_deliver_next q = rv_deliver_next r"
      "rv_ring q = (rv_ring r)[ring_index (rv_mask r) s := x]"
      "rv_highest q = (if seq_less (rv_highest r) s then s else rv_highest r)"
  shows "recv_ok q \<and> window q = max (window r) (unat (s - rv_deliver_next r) + 1)"
proof -
  note r = recv_okD [OF ok]
  let ?o = "unat (s - rv_deliver_next r)"
  note adv = highest_advance [OF new, of "rv_highest r", folded window_def, OF r(2)]
  have "unat (s + 1 - rv_deliver_next r) = ?o + 1"
  proof -
    have "s + 1 - rv_deliver_next r = of_nat (?o + 1)" by (simp add: algebra_simps)
    moreover have "?o + 1 < 2 ^ 32" using adv(1) by simp
    ultimately show ?thesis by (metis unat_of_nat_small)
  qed
  then have w: "window q = max (window r) (?o + 1)"
    using adv(2) by (auto simp: window_def q)
  have "ring_index (rv_mask q) (sl_seq (rv_ring q ! i)) = i
      \<and> unat (sl_seq (rv_ring q ! i) - rv_deliver_next q) < window q"
    if i: "i < length (rv_ring q)" "sl_state (rv_ring q ! i) = Filled" for i
  proof (cases "i = ring_index (rv_mask r) s")
    case True
    then show ?thesis using i x w by (auto simp: q)
  next
    case False
    then have "rv_ring q ! i = rv_ring r ! i" by (simp add: q)
    then show ?thesis using r(3) i w by (auto simp: slots_placed_def q)
  qed
  then have "recv_ok q"
    using r w adv(1) q by (simp add: recv_ok_def slots_placed_def)
  with w show ?thesis by simp
qed

lemma touch_recv_ok:
  assumes "recv_ok r" "rv_started r"
  shows "recv_ok (r\<lparr>rv_ring := (rv_ring r)[i := (rv_ring r ! i)\<lparr>sl_path_seen := p\<rparr>]\<rparr>)"
proof -
  have "sl_state ((rv_ring r)[i := (rv_ring r ! i)\<lparr>sl_path_seen := p\<rparr>] ! j) = sl_state (rv_ring r ! j)
      \<and> sl_seq ((rv_ring r)[i := (rv_ring r ! i)\<lparr>sl_path_seen := p\<rparr>] ! j) = sl_seq (rv_ring r ! j)"
    if "j < length (rv_ring r)" for j
    using that by (cases "i = j") simp_all
  then show ?thesis
    using recv_okD [OF assms] assms(2) by (simp add: recv_ok_def slots_placed_def window_def)
qed

section \<open>The input path\<close>

text \<open>What the input path promises: the invariant holds after it, configuration, estimator, sender
  and delivered events are untouched, and while the flow stays anchored the cursor is.\<close>

definition feed_frame :: "flow \<Rightarrow> flow \<Rightarrow> bool" where
  "feed_frame f f' \<longleftrightarrow>
     fl_role f' = fl_role f \<and> fl_cfg f' = fl_cfg f \<and> fl_est f' = fl_est f
     \<and> fl_sender f' = fl_sender f \<and> fl_events f' = fl_events f
     \<and> fl_recovery_buffer f' = fl_recovery_buffer f
     \<and> rv_mask (fl_receiver f') = rv_mask (fl_receiver f)
     \<and> length (ring_of f') = length (ring_of f)"

lemma core_same_feed_frame: "core_same f g \<Longrightarrow> feed_frame f g"
  by (simp add: core_same_def feed_frame_def)

lemma feed_frame_trans: "feed_frame f g \<Longrightarrow> feed_frame g h \<Longrightarrow> feed_frame f h"
  by (simp add: feed_frame_def)

text \<open>A tail that leaves the ring alone carries the promise over.\<close>

lemma core_same_carry:
  assumes "core_same f g" "feed_frame e f" "recv_ok (fl_receiver f)"
  shows "recv_ok (fl_receiver g)" "feed_frame e g"
    "rv_started (fl_receiver g) = rv_started (fl_receiver f)" "cursor_of g = cursor_of f"
    "window (fl_receiver g) = window (fl_receiver f)"
    "held_at (fl_receiver g) j = held_at (fl_receiver f) j"
proof -
  show "recv_ok (fl_receiver g)" using assms core_same_recv_ok by blast
  show "feed_frame e g" using feed_frame_trans [OF assms(2) core_same_feed_frame [OF assms(1)]] .
qed (use assms(1) in \<open>simp_all add: core_same_def window_def held_at_def\<close>)

lemma recv_insert_ok:
  assumes ok: "recv_ok (fl_receiver f)" "rv_started (fl_receiver f)" "cfg_ok (fl_cfg f)"
    and new: "\<not> seq_less (mp_seq pkt) (cursor_of f)"
  shows "\<exists>g. recv_insert f now path pkt pt oo = Some g \<and> recv_ok (fl_receiver g) \<and> feed_frame f g
    \<and> rv_started (fl_receiver g) \<and> cursor_of g = cursor_of f"
proof -
  let ?r = "fl_receiver f"
  let ?idx = "ring_index (rv_mask ?r) (mp_seq pkt)"
  let ?s = "ring_of f ! ?idx"
  note geo = recv_okD(1) [OF ok(1,2)]
  have get: "vec_get (ring_of f) ?idx = Some ?s" using geo by (simp add: ring_index_less)
  show ?thesis
  proof (cases "slot_holds ?s (mp_seq pkt) \<and> sl_source_time ?s = mp_source_time pkt")
    case True
    then show ?thesis
      using get ok(2) touch_recv_ok [OF ok(1,2), of ?idx]
      by (simp add: recv_insert_def feed_frame_def Let_def)
  next
    case False
    define x where "x = fill_slot pkt path now pt (ts_add pt (fl_recovery_buffer f))"
    define f1 where "f1 = upd_stats (\<lambda>st. (count_received pkt st)
                    \<lparr>st_overwritten := st_overwritten st + (if sl_state ?s = Filled then 1 else 0),
                     st_reordered := st_reordered st + (if oo then 1 else 0)\<rparr>) f"
    define f2 where "f2 = upd_recv (\<lambda>r. r\<lparr>rv_ring := (rv_ring r)[?idx := x],
                    rv_highest := (if seq_less (rv_highest r) (mp_seq pkt) then mp_seq pkt
                                   else rv_highest r),
                    rv_last_path := path\<rparr>) f1"
    have "recv_ok (fl_receiver f2) \<and> window (fl_receiver f2) =
        max (window ?r) (unat (mp_seq pkt - cursor_of f) + 1)"
      by (rule insert_recv_ok [OF ok(1,2) new, of x])
        (simp_all add: f2_def f1_def x_def fill_slot_def ok(2))
    moreover have "feed_frame f f2" "cursor_of f2 = cursor_of f"
      "rv_started (fl_receiver f2)" "cfg_ok (fl_cfg f2)"
      using ok by (simp_all add: f2_def f1_def feed_frame_def)
    ultimately have f2: "recv_ok (fl_receiver f2)" "feed_frame f f2" "cursor_of f2 = cursor_of f"
      "rv_started (fl_receiver f2)" "cfg_ok (fl_cfg f2)" by blast+
    obtain f3 where f3: "note_arrival f2 now path pkt pt oo = Some f3" "core_same f2 f3"
      using note_arrival_ok [OF f2(5) recv_okD(1) [OF f2(1,4)]] by blast
    let ?g = "schedule_nack now (arm_playout (ts_add pt (fl_recovery_buffer f)) f3)"
    have run: "recv_insert f now path pkt pt oo = Some ?g"
      using get False f3(1)
      by (simp add: recv_insert_def Let_def f2_def f1_def x_def) blast
    have "core_same f2 ?g"
      using f3(2) core_same_arm core_same_schedule core_same_trans by blast
    from core_same_carry [OF this f2(2) f2(1)] f2 run show ?thesis by simp
  qed
qed

lemma recv_started_ok:
  assumes ok: "recv_ok (fl_receiver f)" "rv_started (fl_receiver f)" "cfg_ok (fl_cfg f)"
  shows "\<exists>g. recv_started f now path pkt = Some g \<and> recv_ok (fl_receiver g) \<and> feed_frame f g
    \<and> rv_started (fl_receiver g) \<and> cursor_of g = cursor_of f"
proof -
  define f1 where "f1 = (if mp_retransmit pkt
      then upd_stats (\<lambda>st. st\<lparr>st_retransmitted_received := st_retransmitted_received st + 1\<rparr>) f
      else f)"
  obtain f2 pt where f2: "receiver_packet_time f1 now (mp_source_time pkt) (mp_retransmit pkt) = (f2, pt)"
    by fastforce
  define f3 where "f3 = (if rv_max_source_time (fl_receiver f2) < mp_source_time pkt
      then upd_recv (\<lambda>r. r\<lparr>rv_max_source_time := mp_source_time pkt, rv_last_packet_time := pt\<rparr>) f2
      else f2)"
  define behind where "behind \<longleftrightarrow> cfg_timing_mode (fl_cfg f3) \<noteq> Arrival
      \<and> pt < rv_last_packet_time (fl_receiver f3) \<and> mp_seq pkt \<noteq> rv_last_found (fl_receiver f3) + 1"
  have "core_same f f1" by (simp add: f1_def frame)
  moreover have "core_same f1 f2"
    using core_same_packet_time [of f1 now "mp_source_time pkt" "mp_retransmit pkt"] f2 by simp
  moreover have "core_same f2 f3" by (auto simp: f3_def intro: core_same_recv)
  ultimately have same: "core_same f f3" using core_same_trans by blast
  have "feed_frame f f" by (simp add: feed_frame_def)
  note carry = core_same_carry [OF same this ok(1)]
  have f3: "recv_ok (fl_receiver f3)" "rv_started (fl_receiver f3)" "cfg_ok (fl_cfg f3)"
    "feed_frame f f3" "cursor_of f3 = cursor_of f"
    using carry ok(2,3) same by (simp_all add: core_same_def)
  have run: "recv_started f now path pkt =
      (if behind \<and> ts_add pt (fl_recovery_buffer_110 f3) < now \<or> seq_less (mp_seq pkt) (cursor_of f3)
       then Some (count_too_late (mp_retransmit pkt) f3)
       else recv_insert f3 now path pkt pt (behind \<and> \<not> mp_retransmit pkt))"
    using f2 by (simp add: recv_started_def Let_def f1_def f3_def behind_def)
  show ?thesis
  proof (cases "behind \<and> ts_add pt (fl_recovery_buffer_110 f3) < now
      \<or> seq_less (mp_seq pkt) (cursor_of f3)")
    case True
    then have "recv_started f now path pkt = Some (count_too_late (mp_retransmit pkt) f3)"
      by (simp only: run if_True)
    with core_same_carry [OF core_same_late f3(4,1)] f3 show ?thesis by simp
  next
    case False
    then have eq: "recv_started f now path pkt =
        recv_insert f3 now path pkt pt (behind \<and> \<not> mp_retransmit pkt)"
      by (simp only: run if_False)
    from False obtain g where g: "recv_insert f3 now path pkt pt (behind \<and> \<not> mp_retransmit pkt) = Some g"
      "recv_ok (fl_receiver g)" "feed_frame f3 g" "rv_started (fl_receiver g)" "cursor_of g = cursor_of f3"
      using recv_insert_ok [OF f3(1-3), of pkt now path pt] by blast
    with eq f3(5) feed_frame_trans [OF f3(4) g(3)] show ?thesis by simp
  qed
qed

lemma reset_recv_ok: "recv_ok (fl_receiver f) \<Longrightarrow> recv_ok (fl_receiver (reset_receiver f))"
  using ring_geometry_length [of "replicate (length (ring_of f)) slot_default" "ring_of f"]
  by (simp add: reset_receiver_def recv_ok_def slot_default_def)

lemma start_ok:
  assumes "recv_ok (fl_receiver f)" "\<not> rv_started (fl_receiver f)"
  shows "\<exists>g. start f now path pkt = Some g \<and> recv_ok (fl_receiver g) \<and> feed_frame f g
    \<and> rv_started (fl_receiver g) \<and> cursor_of g = mp_seq pkt
    \<and> held_at (fl_receiver g) 0 \<and> window (fl_receiver g) = 1"
proof -
  let ?r = "fl_receiver f"
  let ?idx = "ring_index (rv_mask ?r) (mp_seq pkt)"
  have geo: "ring_geometry (ring_of f) (rv_mask ?r)" and empty: "\<forall>s \<in> set (ring_of f). sl_state s = Empty"
    using assms by (simp_all add: recv_ok_def)
  have i: "?idx < length (ring_of f)" using geo by (rule ring_index_less)
  define x where "x = fill_slot pkt path now now (ts_add now (fl_recovery_buffer f))"
  define f1 where "f1 = upd_stats (count_received pkt) (upd_recv (\<lambda>r.
      r\<lparr>rv_offset := ts_diff now (ntp_to_timestamp (mp_source_time pkt)), rv_started := True,
        rv_ssrc := mp_ssrc pkt, rv_short_seq := mp_short_seq pkt,
        rv_last_found := mp_seq pkt, rv_max_source_time := mp_source_time pkt,
        rv_last_packet_time := now, rv_last_resync := now,
        rv_highest := mp_seq pkt, rv_deliver_next := mp_seq pkt, rv_last_path := path,
        rv_ring := (rv_ring r)[ring_index (rv_mask r) (mp_seq pkt) := x]\<rparr>) f)"
  define f2 where "f2 = arm_playout (ts_add now (fl_recovery_buffer f)) f1"
  have run: "start f now path pkt = Some (if no_recovery (fl_cfg f2) then f2
      else push_output (SetTimer RttEcho (ts_add now rtt_echo_interval)) f2)"
    using geo i by (simp add: start_def ring_slot_panic_free f1_def f2_def x_def Let_def)
  have x: "sl_state x = Filled" "sl_seq x = mp_seq pkt" by (simp_all add: x_def fill_slot_def)
  have ring: "sl_state (ring_of f1 ! j) = Filled \<longleftrightarrow> j = ?idx" if "j < length (ring_of f)" for j
    using that i empty x by (cases "j = ?idx") (auto simp: f1_def)
  have "recv_ok (fl_receiver f1)" "held_at (fl_receiver f1) 0" "window (fl_receiver f1) = 1"
    "feed_frame f f1"
    using geo ring x i
    by (simp_all add: f1_def recv_ok_def slots_placed_def window_def held_at_def slot_holds_def
        feed_frame_def)
  note f1 = this
  define g where "g = (if no_recovery (fl_cfg f2) then f2
      else push_output (SetTimer RttEcho (ts_add now rtt_echo_interval)) f2)"
  have "core_same f1 f2" by (simp add: f2_def frame)
  moreover have "core_same f2 g" by (simp add: g_def frame)
  ultimately have "core_same f1 g" by (rule core_same_trans)
  note carry = core_same_carry [OF this f1(4,1)]
  have "cursor_of f1 = mp_seq pkt" "rv_started (fl_receiver f1)" by (simp_all add: f1_def)
  with carry f1 have "recv_ok (fl_receiver g)" "feed_frame f g" "rv_started (fl_receiver g)"
    "cursor_of g = mp_seq pkt" "held_at (fl_receiver g) 0" "window (fl_receiver g) = 1"
    by simp_all
  with run show ?thesis unfolding g_def by blast
qed

text \<open>The whole of \<^verbatim>\<open>recv_feed\<close>: the flow-id change is the only way an anchored flow loses its
  cursor.\<close>

definition foreign_flow :: "receiver_state \<Rightarrow> media_packet \<Rightarrow> bool" where
  "foreign_flow r pkt \<longleftrightarrow> \<not> mp_retransmit pkt \<and> mp_ssrc pkt AND NOT 1 \<noteq> rv_ssrc r AND NOT 1"

lemma check_flow_id_ok:
  assumes "recv_ok (fl_receiver f)"
  shows "recv_ok (fl_receiver (check_flow_id pkt f))" "feed_frame f (check_flow_id pkt f)"
    "rv_started (fl_receiver (check_flow_id pkt f)) \<longleftrightarrow>
       rv_started (fl_receiver f) \<and> \<not> foreign_flow (fl_receiver f) pkt"
    "rv_started (fl_receiver (check_flow_id pkt f)) \<Longrightarrow> check_flow_id pkt f = f"
proof -
  show "recv_ok (fl_receiver (check_flow_id pkt f))"
    using assms reset_recv_ok [OF assms] by (simp add: check_flow_id_def)
qed (auto simp: check_flow_id_def foreign_flow_def reset_receiver_def feed_frame_def split: if_splits)

lemma recv_feed_ok:
  assumes ok: "recv_ok (fl_receiver f)" "cfg_ok (fl_cfg f)"
  shows "\<exists>g. recv_feed f now path pkt = Some g \<and> recv_ok (fl_receiver g) \<and> feed_frame f g
    \<and> (rv_started (fl_receiver f) \<and> \<not> foreign_flow (fl_receiver f) pkt \<longrightarrow>
         rv_started (fl_receiver g) \<and> cursor_of g = cursor_of f)"
proof -
  define f1 where "f1 = sample_arrival_spacing now f"
  define f2 where "f2 = check_flow_id pkt f1"
  define f3 where "f3 = check_framing now pkt f2"
  have "feed_frame f f" by (simp add: feed_frame_def)
  note c1 = core_same_carry [OF core_same_spacing this ok(1), of now, folded f1_def]
  note c2 = check_flow_id_ok [OF c1(1), of pkt, folded f2_def]
  note c3 = core_same_carry [OF core_same_framing feed_frame_trans [OF c1(2) c2(2)] c2(1),
      of now pkt, folded f3_def]
  have ssrc: "rv_ssrc (fl_receiver f1) = rv_ssrc (fl_receiver f)"
    by (simp add: f1_def sample_arrival_spacing_def Let_def)
  have cfg: "cfg_ok (fl_cfg f3)" using c3(2) ok(2) by (simp add: feed_frame_def)
  have run: "recv_feed f now path pkt =
      (if \<not> rv_started (fl_receiver f3)
       then (if mp_retransmit pkt then Some f3 else start f3 now path pkt)
       else recv_started f3 now path pkt)"
    by (simp add: recv_feed_def f1_def f2_def f3_def)
  show ?thesis
  proof (cases "rv_started (fl_receiver f3)")
    case True
    obtain g where g: "recv_started f3 now path pkt = Some g" "recv_ok (fl_receiver g)"
      "feed_frame f3 g" "rv_started (fl_receiver g)" "cursor_of g = cursor_of f3"
      using recv_started_ok [OF c3(1) True cfg] by blast
    have "cursor_of f3 = cursor_of f" using True c1(4) c2(4) c3(3,4) by simp
    with g True run feed_frame_trans [OF c3(2) g(3)] show ?thesis by simp
  next
    case False
    then have foreign: "\<not> (rv_started (fl_receiver f) \<and> \<not> foreign_flow (fl_receiver f) pkt)"
      using c1(3) c2(3) c3(3) ssrc by (simp add: foreign_flow_def)
    show ?thesis
    proof (cases "mp_retransmit pkt")
      case True
      then show ?thesis using run False c3(1,2) foreign by simp
    next
      case fresh: False
      obtain g where "start f3 now path pkt = Some g" "recv_ok (fl_receiver g)" "feed_frame f3 g"
        using start_ok [OF c3(1) False] by blast
      with feed_frame_trans [OF c3(2)] run False fresh foreign show ?thesis by auto
    qed
  qed
qed

section \<open>The NACK pass\<close>

lemma core_same_stats_right [simp]: "core_same e (upd_stats h f) = core_same e f"
  by (simp add: core_same_def)

lemma core_same_token [simp]:
  "core_same e (upd_recv (\<lambda>r. if bucket_limited r
      then r\<lparr>rv_nack_tokens := f64_sub (rv_nack_tokens r) (f64_of_int 1)\<rparr> else r) f) = core_same e f"
  by (simp add: core_same_def)

lemma nack_walk_ok:
  assumes "ring_geometry (ring_of e) (rv_mask (fl_receiver e))" "core_same e f"
  shows "\<exists>g kept' batch'. nack_walk f now retry es kept batch = Some (g, kept', batch') \<and> core_same e g"
  using assms(2)
proof (induction es arbitrary: f kept batch)
  case Nil
  then show ?case by simp
next
  case (Cons x es)
  have "ring_slot (ring_of f) (rv_mask (fl_receiver f)) (me_seq x) =
      Some (ring_of f ! ring_index (rv_mask (fl_receiver f)) (me_seq x))"
    using Cons.prems assms(1) by (simp add: core_same_def ring_slot_panic_free)
  then show ?case using Cons by simp
qed

lemma process_nacks_ok:
  assumes "recv_ok (fl_receiver f)" "cfg_ok (fl_cfg f)"
  shows "\<exists>g. process_nacks f now = Some g \<and> core_same f g"
proof (cases "rv_missing (fl_receiver f) = []")
  case True
  then show ?thesis by (simp add: process_nacks_def)
next
  case False
  obtain retry where retry: "est_retry_interval (fl_est f) (cfg_rtt_min (fl_cfg f))
      (cfg_rtt_max (fl_cfg f)) = Some retry"
    using assms(2) est_retry_interval_panic_free unfolding cfg_ok_def by blast
  let ?f1 = "upd_recv (refill_tokens now) f"
  have "core_same f ?f1" by (rule core_same_recv) (simp_all add: refill_tokens_def Let_def)
  then obtain f2 kept batch where walk:
    "nack_walk ?f1 now retry (rv_missing (fl_receiver ?f1)) [] [] = Some (f2, kept, batch)"
    "core_same f f2"
    using nack_walk_ok [OF recv_ok_geometry [OF assms(1)]] by blast
  have "core_same f (upd_recv (\<lambda>r. r\<lparr>rv_missing := kept\<rparr>) f2)"
    using core_same_trans [OF walk(2) core_same_recv] by simp
  with False retry walk(1) show ?thesis
    using core_same_trans [OF _ core_same_output] by (auto simp: process_nacks_def Let_def)
qed

end
