(* ===== verification/Flow_Inv.thy ===== *)
theory Flow_Inv
  imports Recv_Inv
begin

text \<open>
  The flow as a machine that never panics: every call a host can make on a flow returns and keeps
  \<open>flow_ok\<close>, whatever the packets, feedback, timers and instants it carries, provided the
  configured ranges are not inverted. The locale \<open>total_machine\<close> is interpreted on it.
\<close>

definition sender_ok :: "sender_state \<Rightarrow> bool" where
  "sender_ok sn \<longleftrightarrow> ring_geometry (sn_ring sn) (sn_mask sn)"

definition flow_ok :: "flow \<Rightarrow> bool" where
  "flow_ok f \<longleftrightarrow> cfg_ok (fl_cfg f) \<and> recv_ok (fl_receiver f) \<and> sender_ok (fl_sender f)"

lemma core_same_flow_ok: "core_same f g \<Longrightarrow> flow_ok g = flow_ok f"
  using core_same_recv_ok [of f g] by (simp add: flow_ok_def core_same_def)

lemma feed_frame_flow_ok: "feed_frame f g \<Longrightarrow> recv_ok (fl_receiver g) \<Longrightarrow> flow_ok f \<Longrightarrow> flow_ok g"
  by (simp add: flow_ok_def feed_frame_def)

section \<open>A new flow\<close>

lemma geometry_replicate:
  "k \<le> 31 \<Longrightarrow> ring_geometry (replicate (2 ^ k) x) (ring_mask (2 ^ k))"
  using ring_geometry_mask [of k "replicate (2 ^ k) x"] by simp

lemma receiver_new_ok: "k \<le> 31 \<Longrightarrow> recv_ok (receiver_new (2 ^ k))"
  by (auto simp: recv_ok_def receiver_new_def geometry_replicate slot_default_def)

lemma receiver_empty_ok: "recv_ok receiver_empty"
  using receiver_new_ok [of 0] by (simp add: receiver_empty_def)

lemma sender_new_ok: "k \<le> 31 \<Longrightarrow> sender_ok (sender_new (2 ^ k) ssrc st)"
  by (simp add: sender_ok_def sender_new_def geometry_replicate)

lemma sender_empty_ok: "sender_ok sender_empty"
  using sender_new_ok [of 0] by (simp add: sender_empty_def)

lemma set_return_bandwidth_ok: "recv_ok (set_return_bandwidth r kbps) = recv_ok r"
  by (rule recv_ok_cong) (simp_all add: set_return_bandwidth_def)

lemma effective_ring_size_exp:
  assumes "ring_size cfg \<le> 2 ^ 31"
  shows "\<exists>k \<le> 31. effective_ring_size cfg = 2 ^ k"
proof -
  obtain k where k: "effective_ring_size cfg = 2 ^ k" using effective_ring_size_pow2 by blast
  have "derive_ring_size cfg \<le> 2 ^ 31"
    using derive_ring_size_bounds [of cfg] by (simp add: max_derived_ring_size_def)
  then have "next_power_of_two (derive_ring_size cfg) \<le> 2 ^ 31" by (rule next_power_of_two_le)
  moreover have "next_power_of_two (ring_size cfg) \<le> 2 ^ 31" using assms by (rule next_power_of_two_le)
  ultimately have "(2 :: nat) ^ k \<le> 2 ^ 31" using k unfolding effective_ring_size_def by presburger
  then have "k \<le> 31" by (rule power_le_imp_le_exp [rotated]) simp
  with k show ?thesis by blast
qed

lemma flow_new_ok:
  assumes "cfg_ok cfg" "ring_size cfg \<le> 2 ^ 31"
  shows "flow_ok (flow_new role cfg)"
proof -
  obtain k where k: "k \<le> 31" "effective_ring_size cfg = 2 ^ k"
    using effective_ring_size_exp [OF assms(2)] by blast
  show ?thesis
    using assms(1) receiver_new_ok [OF k(1)] sender_new_ok [OF k(1)] receiver_empty_ok
      sender_empty_ok
    by (cases role) (simp_all add: flow_ok_def flow_new_def Let_def k set_return_bandwidth_ok)
qed

section \<open>The sender\<close>

definition sender_frame :: "flow \<Rightarrow> flow \<Rightarrow> bool" where
  "sender_frame f f' \<longleftrightarrow>
     fl_role f' = fl_role f \<and> fl_cfg f' = fl_cfg f \<and> fl_receiver f' = fl_receiver f
     \<and> fl_est f' = fl_est f \<and> fl_events f' = fl_events f
     \<and> fl_max_nacks_per_loop f' = fl_max_nacks_per_loop f
     \<and> sn_mask (fl_sender f') = sn_mask (fl_sender f)
     \<and> length (sn_ring (fl_sender f')) = length (sn_ring (fl_sender f))"

lemma sender_frame_refl [simp]: "sender_frame f f"
  by (simp add: sender_frame_def)

lemma sender_frame_trans: "sender_frame f g \<Longrightarrow> sender_frame g h \<Longrightarrow> sender_frame f h"
  by (simp add: sender_frame_def)

lemma sender_frame_ok: "sender_frame f g \<Longrightarrow> flow_ok f \<Longrightarrow> flow_ok g"
  by (simp add: sender_frame_def flow_ok_def sender_ok_def
      ring_geometry_length [of "sn_ring (fl_sender g)" "sn_ring (fl_sender f)"])

lemma sender_frame_stats [simp]: "sender_frame e (upd_stats h f) = sender_frame e f"
  by (simp add: sender_frame_def)

lemma sender_start_frame [frame]: "sender_frame f (sender_start now f)"
  by (simp add: sender_start_def sender_frame_def Let_def)

lemma resend_frame: "sender_frame e f \<Longrightarrow> sender_frame e (resend f now m sl)"
  by (simp add: resend_def sender_frame_def Let_def)

lemma send_push_ok:
  assumes "sender_ok (fl_sender f)"
  shows "\<exists>g. send_push_app_block f now payload frag sq st = Some g \<and> sender_frame f g"
proof -
  let ?f = "sender_start now f"
  have geo: "ring_geometry (sn_ring (fl_sender ?f)) (sn_mask (fl_sender ?f))"
    using assms by (simp add: sender_ok_def sender_start_def Let_def)
  show ?thesis
    using sender_start_frame [of f now] ring_index_less [OF geo]
    by (auto simp: send_push_app_block_def Let_def sender_frame_def)
qed

lemma nack_loop_ok:
  assumes "sender_ok (fl_sender e)" "sender_frame e f"
  shows "\<exists>g. nack_loop f now rtt ms k = Some g \<and> sender_frame e g"
  using assms(2)
proof (induction ms arbitrary: f k)
  case Nil
  then show ?case by simp
next
  case (Cons m ms)
  have "ring_geometry (sn_ring (fl_sender f)) (sn_mask (fl_sender f))"
    using assms(1) Cons.prems
    by (simp add: sender_ok_def sender_frame_def
        ring_geometry_length [of "sn_ring (fl_sender f)" "sn_ring (fl_sender e)"])
  then have slot: "ring_slot (sn_ring (fl_sender f)) (sn_mask (fl_sender f)) m =
      Some (sn_ring (fl_sender f) ! ring_index (sn_mask (fl_sender f)) m)"
    by (rule ring_slot_panic_free)
  show ?case
    using Cons slot resend_frame
    by (cases "nack_verdict f now rtt m (sn_ring (fl_sender f) ! ring_index (sn_mask (fl_sender f)) m)")
      simp_all
qed

lemma service_nack_ok:
  assumes "sender_ok (fl_sender f)" "cfg_ok (fl_cfg f)"
  shows "\<exists>g. service_nack f now missing = Some g \<and> sender_frame f g"
proof -
  obtain rtt where "est_last_clamped (fl_est f) (cfg_rtt_min (fl_cfg f)) (cfg_rtt_max (fl_cfg f)) = Some rtt"
    using assms(2) est_last_clamped_panic_free unfolding cfg_ok_def by blast
  then show ?thesis
    using nack_loop_ok [OF assms(1)] by (simp add: service_nack_def Let_def sender_frame_def)
qed

section \<open>The dispatch\<close>

lemma feed_ok: "flow_ok f \<Longrightarrow> \<exists>g. feed f now path pkt = Some g \<and> flow_ok g"
  using recv_feed_ok [of f now path pkt] feed_frame_flow_ok [of f]
  by (auto simp: feed_def flow_ok_def)

lemma count_ignored_ok: "flow_ok f \<Longrightarrow> flow_ok (count_ignored f)"
  by (simp add: count_ignored_def flow_ok_def)

lemma feed_feedback_ok: "flow_ok f \<Longrightarrow> \<exists>g. feed_feedback f now fb = Some g \<and> flow_ok g"
proof (cases fb)
  case (Nack ssrc missing)
  moreover assume ok: "flow_ok f"
  moreover obtain g where "service_nack f now missing = Some g" "sender_frame f g"
    using service_nack_ok [of f] ok unfolding flow_ok_def by blast
  ultimately show ?thesis
    using count_ignored_ok sender_frame_ok by (auto simp: feed_feedback_def)
qed (auto simp: feed_feedback_def Let_def count_ignored_def flow_ok_def)

lemma push_app_block_ok: "flow_ok f \<Longrightarrow> \<exists>g. push_app_block f now p fr sq st = Some g \<and> flow_ok g"
  using send_push_ok [of f now p fr sq st] sender_frame_ok [of f]
  by (auto simp: push_app_block_def flow_ok_def)

lemma auto_scale_ok: "flow_ok f \<Longrightarrow> \<exists>g. auto_scale_buffer f = Some g \<and> flow_ok g"
proof -
  assume ok: "flow_ok f"
  let ?f = "upd_recv (\<lambda>r. r\<lparr>rv_buffer_time_sum := wrap_i64 (rv_buffer_time_sum r + fl_recovery_buffer f),
                  rv_buffer_time_samples := rv_buffer_time_samples r + 1\<rparr>) f"
  have same: "core_same f ?f" by (rule core_same_recv) simp_all
  then have ok1: "flow_ok ?f" using ok core_same_flow_ok by blast
  obtain d where d: "clamp_range (desired_buffer ?f) (recovery_buffer_min (fl_cfg ?f))
      (recovery_buffer_max (fl_cfg ?f)) = Some d"
    using ok1 clamp_range_Some unfolding flow_ok_def cfg_ok_def by blast
  have "flow_ok (upd_recv (\<lambda>r. r\<lparr>rv_loss_snap := a, rv_recovered_snap := b\<rparr>)
      (?f\<lparr>fl_recovery_buffer := x, fl_recovery_buffer_110 := y\<rparr>))" for a b x y
    using ok1 recv_ok_cong [of "(fl_receiver ?f)\<lparr>rv_loss_snap := a, rv_recovered_snap := b\<rparr>"
        "fl_receiver ?f"]
    by (simp add: flow_ok_def)
  with ok ok1 d show ?thesis by (simp add: auto_scale_buffer_def Let_def)
qed

lemma receiver_echo_ok: "flow_ok f \<Longrightarrow> \<exists>g. receiver_echo f now = Some g \<and> flow_ok g"
  using auto_scale_ok core_same_flow_ok [OF core_same_output] by (simp add: receiver_echo_def)

lemma playout_step_flow_ok: "playout_step f now g \<Longrightarrow> flow_ok f \<Longrightarrow> flow_ok g"
  by (simp add: playout_step_def playout_frame_def flow_ok_def)

lemma deliver_due_flow_ok: "flow_ok f \<Longrightarrow> \<exists>g. deliver_due f now = Some g \<and> flow_ok g"
  using deliver_due_step [of f now] playout_step_flow_ok [of f now] unfolding flow_ok_def by blast

lemma process_nacks_flow_ok: "flow_ok f \<Longrightarrow> \<exists>g. process_nacks f now = Some g \<and> flow_ok g"
  using process_nacks_ok [of f now] core_same_flow_ok [of f] unfolding flow_ok_def by blast

lemma tick_ok: "flow_ok f \<Longrightarrow> \<exists>g. tick f now = Some g \<and> flow_ok g"
  using deliver_due_flow_ok [of f now] process_nacks_flow_ok [of _ now]
  by (auto simp: tick_def)

lemma handle_timer_ok: "flow_ok f \<Longrightarrow> \<exists>g. handle_timer f now i = Some g \<and> flow_ok g"
proof -
  assume ok: "flow_ok f"
  have upd: "flow_ok (upd_recv (\<lambda>r. r\<lparr>rv_playout_armed := False\<rparr>) f)"
    "flow_ok (upd_recv (\<lambda>r. r\<lparr>rv_nack_armed := False\<rparr>) f)"
    using ok core_same_flow_ok [OF core_same_recv] by simp_all
  show ?thesis
  proof (cases "fl_role f")
    case Sender
    then show ?thesis
      using ok by (simp add: handle_timer_def sender_handle_timer_def flow_ok_def)
  next
    case Receiver
    then show ?thesis
    proof (cases i)
      case NackTimer
      from process_nacks_flow_ok [OF upd(2), of now] obtain g where
        g: "process_nacks (upd_recv (\<lambda>r. r\<lparr>rv_nack_armed := False\<rparr>) f) now = Some g" "flow_ok g"
        by blast
      with core_same_flow_ok [OF core_same_schedule, of now g] NackTimer Receiver
      show ?thesis by (simp add: handle_timer_def)
    qed (use deliver_due_flow_ok [OF upd(1)] receiver_echo_ok [OF ok]
        in \<open>simp_all add: handle_timer_def\<close>)
  qed
qed

text \<open>Every call keeps the invariant and returns.\<close>

lemma flow_step_ok: "flow_ok f \<Longrightarrow> \<exists>g. flow_step f i = Some g \<and> flow_ok g"
proof (cases i)
  case (InSenderMax d)
  assume "flow_ok f"
  moreover have "core_same f (set_sender_max_buffer f d)"
    by (simp add: set_sender_max_buffer_def core_same_def Let_def)
  ultimately show ?thesis using InSenderMax core_same_flow_ok by auto
qed (use feed_ok feed_feedback_ok push_app_block_ok handle_timer_ok tick_ok in
    \<open>auto simp: flow_ok_def set_rtt_multiplier_def cfg_ok_def poll_output_def poll_event_def
      split: list.splits\<close>)

interpretation flow_machine: total_machine flow_step flow_ok
  by unfold_locales (rule flow_step_ok)

text \<open>C1: no sequence of calls makes a flow panic in a release build, where signed 64-bit arithmetic the code does
  not check wraps: whatever a host feeds it (media of any shape, feedback, application blocks, timers, ticks, in any
  order and at any instants), a flow built from a configuration whose round-trip and buffer ranges are not inverted and
  whose explicit ring size is at most 2^31 answers every call, and its ring, cursor and history invariants hold
  after it. (A build with overflow checks may panic where the model wraps.)\<close>

theorem flow_never_panics:
  assumes "effective_min (cfg_rtt_min cfg) \<le> cfg_rtt_max cfg"
    "recovery_buffer_min cfg \<le> recovery_buffer_max cfg" "ring_size cfg \<le> 2 ^ 31"
  shows "\<exists>f. run_steps flow_step (flow_new role cfg) is = Some f \<and> flow_ok f"
  using assms by (intro flow_machine.run_total flow_new_ok) (simp_all add: cfg_ok_def)

theorem flow_never_panics_witness:
  "\<exists>f. run_steps flow_step (flow_new Receiver librist_defaults)
         [InTick 7, InTimer 9 NackTimer, InFeedback 11 Keepalive] = Some f \<and> flow_ok f"
  by (rule flow_never_panics)
    (simp_all add: librist_defaults_def effective_min_eq micros_from_millis_def default_ring_size_def)

end
