(* ===== verification/Sender_History.thy ===== *)
theory Sender_History
  imports Flow_Inv
begin

text \<open>
  The retransmit history as a packet store, and what servicing a NACK does with it: the interface
  \<open>packet_store\<close> is interpreted on the sender's ring, so the last ring of pushed packets can always
  be answered, and every resend carries the payload, source time and framing role that were first
  sent under its number.
\<close>

type_synonym history = "sender_slot list \<times> u32"
type_synonym sent_packet = "ntp64 \<times> bytes \<times> frag_role"

definition hist_of :: "flow \<Rightarrow> history" where
  "hist_of f = (sn_ring (fl_sender f), sn_mask (fl_sender f))"

definition hist_ok :: "history \<Rightarrow> bool" where
  "hist_ok h = ring_geometry (fst h) (snd h)"

definition hist_slots :: "history \<Rightarrow> nat" where
  "hist_slots h = length (fst h)"

definition hist_lookup :: "history \<Rightarrow> u32 \<Rightarrow> sent_packet option" where
  "hist_lookup h t =
     (let s = fst h ! ring_index (snd h) t
      in if ss_state s = Filled \<and> ss_seq s = t
         then Some (ss_source_time s, ss_payload s, ss_frag s) else None)"

definition hist_store :: "history \<Rightarrow> u32 \<Rightarrow> sent_packet \<Rightarrow> history" where
  "hist_store h t p =
     (case p of (source_time, payload, frag) \<Rightarrow>
        ((fst h)[ring_index (snd h) t := sent_slot t source_time payload frag], snd h))"

lemma ring_index_neq:
  "ring_geometry ring mk \<Longrightarrow> unat t mod length ring \<noteq> unat s mod length ring \<Longrightarrow>
   ring_index mk t \<noteq> ring_index mk s"
  by (simp add: ring_index_eq)

interpretation history: packet_store hist_lookup hist_store hist_slots hist_ok
proof
  fix h :: history and s :: u32 and p :: sent_packet
  assume ok: "hist_ok h"
  obtain st pl fr where p: "p = (st, pl, fr)" by (cases p)
  have i: "ring_index (snd h) s < length (fst h)" using ok by (simp add: hist_ok_def ring_index_less)
  show "hist_ok (hist_store h s p)" using ok by (simp add: hist_ok_def hist_store_def p)
  show "hist_slots (hist_store h s p) = hist_slots h" by (simp add: hist_slots_def hist_store_def p)
  show "hist_slots h dvd 2 ^ 32" 
    using ok ring_geometry_dvd unfolding hist_ok_def hist_slots_def by blast
  show "hist_lookup (hist_store h s p) s = Some p"
    using i by (simp add: hist_lookup_def hist_store_def p sent_slot_def)
  fix t :: u32
  assume "unat t mod hist_slots h \<noteq> unat s mod hist_slots h"
  then have "ring_index (snd h) t \<noteq> ring_index (snd h) s"
    using ok by (simp add: hist_slots_def hist_ok_def ring_index_neq)
  then show "hist_lookup (hist_store h s p) t = hist_lookup h t"
    by (simp add: hist_lookup_def hist_store_def p)
qed

section \<open>Pushing\<close>

text \<open>One automatic push: the next number is taken and stored.\<close>

lemma push_auto:
  assumes "flow_ok f" "fl_role f = Sender" "\<not> no_recovery (fl_cfg f)"
  shows "\<exists>g. flow_step f (InPush now payload frag None None) = Some g \<and> flow_ok g
    \<and> fl_role g = Sender \<and> \<not> no_recovery (fl_cfg g)
    \<and> sn_next_seq (fl_sender g) = sn_next_seq (fl_sender f) + 1
    \<and> hist_of g = hist_store (hist_of f) (sn_next_seq (fl_sender f))
                    (ntp_from_timestamp now, payload, frag)"
proof -
  have geo: "ring_geometry (sn_ring (fl_sender f)) (sn_mask (fl_sender f))"
    using assms(1) by (simp add: flow_ok_def sender_ok_def)
  let ?f = "sender_start now f"
  have keep: "sn_ring (fl_sender ?f) = sn_ring (fl_sender f)" "sn_mask (fl_sender ?f) = sn_mask (fl_sender f)"
    "sn_next_seq (fl_sender ?f) = sn_next_seq (fl_sender f)" "fl_cfg ?f = fl_cfg f" "fl_role ?f = fl_role f"
    by (simp_all add: sender_start_def Let_def)
  obtain g where g: "flow_step f (InPush now payload frag None None) = Some g" "flow_ok g"
    using flow_step_ok [OF assms(1)] by blast
  moreover have "fl_role g = Sender \<and> fl_cfg g = fl_cfg f
    \<and> sn_next_seq (fl_sender g) = sn_next_seq (fl_sender f) + 1
    \<and> hist_of g = hist_store (hist_of f) (sn_next_seq (fl_sender f))
                    (ntp_from_timestamp now, payload, frag)"
    using g(1) assms(2,3) ring_index_less [OF geo]
    by (auto simp: push_app_block_def send_push_app_block_def Let_def keep hist_of_def hist_store_def)
  ultimately show ?thesis using assms(3) by auto
qed

definition pushes :: "(timestamp \<times> bytes) list \<Rightarrow> flow_input list" where
  "pushes ps = map (\<lambda>(now, payload). InPush now payload Standalone None None) ps"

definition sent_as :: "timestamp \<times> bytes \<Rightarrow> sent_packet" where
  "sent_as p = (ntp_from_timestamp (fst p), snd p, Standalone)"

lemma run_pushes:
  assumes "flow_ok f" "fl_role f = Sender" "\<not> no_recovery (fl_cfg f)"
  shows "\<exists>g. run_steps flow_step f (pushes ps) = Some g
    \<and> hist_of g = history.store_run (hist_of f) (sn_next_seq (fl_sender f)) (map sent_as ps)"
  using assms
proof (induction ps arbitrary: f)
  case Nil
  then show ?case by (simp add: pushes_def)
next
  case (Cons p ps)
  obtain now payload where p: "p = (now, payload)" by (cases p)
  from push_auto [OF Cons.prems, of now payload Standalone] obtain g where
    g: "flow_step f (InPush now payload Standalone None None) = Some g" "flow_ok g"
      "fl_role g = Sender" "\<not> no_recovery (fl_cfg g)"
      "sn_next_seq (fl_sender g) = sn_next_seq (fl_sender f) + 1"
      "hist_of g = hist_store (hist_of f) (sn_next_seq (fl_sender f)) (sent_as p)"
    by (auto simp: p sent_as_def)
  from Cons.IH [OF g(2-4)] g(1,5,6) show ?case by (simp add: pushes_def p del: flow_step.simps)
qed

text \<open>The last ring of packets stays answerable. After any run of pushes no longer than the
  history ring, every one of them is found under the number it was given, counted from the next
  number before the run, with its payload, the source time of its instant and its framing role.\<close>

theorem history_answers_last_ring:
  assumes "flow_ok f" "fl_role f = Sender" "\<not> no_recovery (fl_cfg f)"
    "length ps \<le> length (sn_ring (fl_sender f))" "i < length ps"
  shows "\<exists>g. run_steps flow_step f (pushes ps) = Some g
    \<and> hist_lookup (hist_of g) (sn_next_seq (fl_sender f) + of_nat i) = Some (sent_as (ps ! i))"
proof -
  obtain g where g: "run_steps flow_step f (pushes ps) = Some g"
    "hist_of g = history.store_run (hist_of f) (sn_next_seq (fl_sender f)) (map sent_as ps)"
    using run_pushes [OF assms(1-3)] by blast
  have "hist_ok (hist_of f)" "length (map sent_as ps) \<le> hist_slots (hist_of f)"
    using assms(1,4) by (simp_all add: hist_ok_def hist_of_def hist_slots_def flow_ok_def sender_ok_def)
  with history.lookup_store_run [of "hist_of f" "map sent_as ps" i] g assms(5) show ?thesis by simp
qed

theorem history_answers_last_ring_witness:
  "\<exists>g. run_steps flow_step (flow_new Sender (librist_defaults\<lparr>ring_size := 2\<rparr>))
         (pushes [(5, [1]), (6, [2, 3])]) = Some g
    \<and> hist_lookup (hist_of g)
        (sn_next_seq (fl_sender (flow_new Sender (librist_defaults\<lparr>ring_size := 2\<rparr>))) + of_nat 1)
      = Some (sent_as ([(5, [1]), (6, [2, 3])] ! 1))"
proof (rule history_answers_last_ring)
  show "flow_ok (flow_new Sender (librist_defaults\<lparr>ring_size := 2\<rparr>))"
    by (rule flow_new_ok)
      (simp_all add: cfg_ok_def librist_defaults_def effective_min_eq micros_from_millis_def)
qed (simp_all add: flow_new_def Let_def sender_new_def librist_defaults_def effective_ring_size_def
      next_power_of_two_def nbits.simps)

section \<open>Answering a NACK\<close>

text \<open>Resending leaves what the history answers unchanged.\<close>

lemma resend_history:
  assumes "sender_ok (fl_sender f)" "ring_slot (sn_ring (fl_sender f)) (sn_mask (fl_sender f)) m = Some sl"
  shows "hist_lookup (hist_of (resend f now m sl)) t = hist_lookup (hist_of f) t"
proof -
  have "ring_index (sn_mask (fl_sender f)) m < length (sn_ring (fl_sender f))"
    "sn_ring (fl_sender f) ! ring_index (sn_mask (fl_sender f)) m = sl"
    using assms by (auto simp: ring_slot_def vec_get_eq_Some)
  then show ?thesis
    by (cases "ring_index (sn_mask (fl_sender f)) m = ring_index (sn_mask (fl_sender f)) t")
      (simp_all add: resend_def hist_lookup_def hist_of_def Let_def)
qed

definition resend_counts :: "stats \<Rightarrow> nat" where
  "resend_counts st = st_retransmitted st + st_retransmit_skipped st + st_retransmit_suppressed st
     + st_bandwidth_skipped st + st_retransmit_exhausted st"

text \<open>A faithful answer to \<open>missing\<close>: a retransmission of a requested number with what the
  history holds for it.\<close>

definition faithful :: "flow \<Rightarrow> u32 list \<Rightarrow> flow_output \<Rightarrow> bool" where
  "faithful f missing x \<longleftrightarrow>
     (\<exists>m \<in> set missing. \<exists>st p fr. hist_lookup (hist_of f) m = Some (st, p, fr)
        \<and> x = media_out (fl_sender f) m st p fr True)"

definition answered :: "flow \<Rightarrow> u32 list \<Rightarrow> nat \<Rightarrow> flow \<Rightarrow> bool" where
  "answered f missing budget g \<longleftrightarrow>
     (\<exists>xs. fl_outputs g = fl_outputs f @ xs \<and> (\<forall>x \<in> set xs. faithful f missing x)
        \<and> length xs \<le> budget
        \<and> st_retransmitted (fl_stats g) = st_retransmitted (fl_stats f) + length xs
        \<and> resend_counts (fl_stats g) \<le> resend_counts (fl_stats f) + length missing
        \<and> (resend_counts (fl_stats g) = resend_counts (fl_stats f) + length missing
             \<or> length xs = budget))"

lemma faithful_mono:
  "faithful g missing x \<Longrightarrow> (\<And>t. hist_lookup (hist_of g) t = hist_lookup (hist_of f) t)
   \<Longrightarrow> sn_tx_path (fl_sender g) = sn_tx_path (fl_sender f) \<Longrightarrow> sn_ssrc (fl_sender g) = sn_ssrc (fl_sender f)
   \<Longrightarrow> faithful f (m # missing) x"
  unfolding faithful_def media_out_def by auto

lemma answered_withheld:
  assumes "answered f1 ms b g" "fl_sender f1 = fl_sender f" "fl_outputs f1 = fl_outputs f"
    "st_retransmitted (fl_stats f1) = st_retransmitted (fl_stats f)"
    "resend_counts (fl_stats f1) = resend_counts (fl_stats f) + 1"
  shows "answered f (m # ms) b g"
proof -
  have "faithful f (m # ms) x" if "faithful f1 ms x" for x
    using that by (rule faithful_mono) (simp_all add: assms(2) hist_of_def)
  with assms show ?thesis unfolding answered_def by fastforce
qed

lemma answered_resend:
  assumes "answered f1 ms b g" "fl_outputs f1 = fl_outputs f @ [x]" "faithful f (m # ms) x"
    "\<And>t. hist_lookup (hist_of f1) t = hist_lookup (hist_of f) t"
    "sn_tx_path (fl_sender f1) = sn_tx_path (fl_sender f)" "sn_ssrc (fl_sender f1) = sn_ssrc (fl_sender f)"
    "st_retransmitted (fl_stats f1) = st_retransmitted (fl_stats f) + 1"
    "resend_counts (fl_stats f1) = resend_counts (fl_stats f) + 1"
  shows "answered f (m # ms) (Suc b) g"
proof -
  from assms(1) obtain xs where
    xs: "fl_outputs g = fl_outputs f1 @ xs" "\<forall>y \<in> set xs. faithful f1 ms y" "length xs \<le> b"
      "st_retransmitted (fl_stats g) = st_retransmitted (fl_stats f1) + length xs"
      "resend_counts (fl_stats g) \<le> resend_counts (fl_stats f1) + length ms"
      "resend_counts (fl_stats g) = resend_counts (fl_stats f1) + length ms \<or> length xs = b"
    unfolding answered_def by blast
  have "\<forall>y \<in> set (x # xs). faithful f (m # ms) y"
    using xs(2) faithful_mono [OF _ assms(4-6)] assms(3) by auto
  with xs assms(2,7,8) show ?thesis
    unfolding answered_def by (intro exI [of _ "x # xs"]) auto
qed

lemma resend_facts:
  assumes "sender_ok (fl_sender f)"
    "ring_slot (sn_ring (fl_sender f)) (sn_mask (fl_sender f)) m = Some sl"
    "nack_verdict f now rtt m sl = Resend"
  shows "\<exists>x. fl_outputs (resend f now m sl) = fl_outputs f @ [x] \<and> faithful f (m # ms) x"
    and "sn_tx_path (fl_sender (resend f now m sl)) = sn_tx_path (fl_sender f)"
    and "sn_ssrc (fl_sender (resend f now m sl)) = sn_ssrc (fl_sender f)"
    and "st_retransmitted (fl_stats (resend f now m sl)) = st_retransmitted (fl_stats f) + 1"
    and "resend_counts (fl_stats (resend f now m sl)) = resend_counts (fl_stats f) + 1"
    and "fl_max_nacks_per_loop (resend f now m sl) = fl_max_nacks_per_loop f"
    and "sender_ok (fl_sender (resend f now m sl))"
proof -
  have "ss_state sl = Filled \<and> ss_seq sl = m"
    using assms(3) by (auto simp: nack_verdict_def split: if_splits)
  then have "hist_lookup (hist_of f) m = Some (ss_source_time sl, ss_payload sl, ss_frag sl)"
    using assms(2) by (simp add: hist_lookup_def hist_of_def ring_slot_def vec_get_eq_Some)
  then have "faithful f (m # ms)
      (media_out (fl_sender f) m (ss_source_time sl) (ss_payload sl) (ss_frag sl) True)"
    unfolding faithful_def by auto
  then show "\<exists>x. fl_outputs (resend f now m sl) = fl_outputs f @ [x] \<and> faithful f (m # ms) x"
    by (simp add: resend_def Let_def media_out_def)
qed (use assms(1) in \<open>simp_all add: resend_def Let_def resend_counts_def sender_ok_def\<close>)

lemma nack_loop_answered:
  assumes "sender_ok (fl_sender f)" "k < fl_max_nacks_per_loop f"
    "nack_loop f now rtt ms k = Some g"
  shows "answered f ms (fl_max_nacks_per_loop f - k) g
    \<and> (\<forall>t. hist_lookup (hist_of g) t = hist_lookup (hist_of f) t)"
  using assms
proof (induction ms arbitrary: f k)
  case Nil
  then show ?case by (simp add: answered_def)
next
  case (Cons m ms)
  define sl where "sl = sn_ring (fl_sender f) ! ring_index (sn_mask (fl_sender f)) m"
  have slot: "ring_slot (sn_ring (fl_sender f)) (sn_mask (fl_sender f)) m = Some sl"
    using Cons.prems(1) unfolding sl_def sender_ok_def by (rule ring_slot_panic_free)
  have withheld: ?case
    if run: "nack_loop (upd_stats h f) now rtt ms k = Some g"
      and h: "st_retransmitted (h (fl_stats f)) = st_retransmitted (fl_stats f)"
        "resend_counts (h (fl_stats f)) = resend_counts (fl_stats f) + 1" for h
    using Cons.IH [of "upd_stats h f" k] run h Cons.prems(1,2)
      answered_withheld [of "upd_stats h f" ms _ g f m] by (simp add: hist_of_def)
  show ?case
  proof (cases "nack_verdict f now rtt m sl")
    case Resend
    let ?f = "resend f now m sl"
    note facts = resend_facts [OF Cons.prems(1) slot Resend]
    note same = resend_history [OF Cons.prems(1) slot, of now]
    obtain x where x: "fl_outputs ?f = fl_outputs f @ [x]" "faithful f (m # ms) x"
      using facts(1) by blast
    note step = answered_resend [OF _ x same facts(2-5)]
    show ?thesis
    proof (cases "fl_max_nacks_per_loop f \<le> k + 1")
      case True
      then have "g = ?f" "fl_max_nacks_per_loop f - k = 1" using Cons.prems(2,3) slot Resend by simp_all
      then show ?thesis using x facts(4,5) same by (auto simp: answered_def)
    next
      case False
      then have "nack_loop ?f now rtt ms (k + 1) = Some g" using Cons.prems(3) slot Resend by simp
      from Cons.IH [OF facts(7) _ this] False facts(6)
      have rest: "answered ?f ms (fl_max_nacks_per_loop f - (k + 1)) g"
        "\<forall>t. hist_lookup (hist_of g) t = hist_lookup (hist_of ?f) t" by simp_all
      have "Suc (fl_max_nacks_per_loop f - (k + 1)) = fl_max_nacks_per_loop f - k" using False by simp
      with step [OF rest(1)] rest(2) same show ?thesis by metis
    qed
  next
    case Skipped
    then have "nack_loop (upd_stats (\<lambda>s. s\<lparr>st_retransmit_skipped := st_retransmit_skipped s + 1\<rparr>) f) now rtt ms k = Some g"
      using Cons.prems(3) slot by simp
    from withheld [OF this] show ?thesis by (simp add: resend_counts_def)
  next
    case Suppressed
    then have "nack_loop (upd_stats (\<lambda>s. s\<lparr>st_retransmit_suppressed := st_retransmit_suppressed s + 1\<rparr>) f) now rtt ms k = Some g"
      using Cons.prems(3) slot by simp
    from withheld [OF this] show ?thesis by (simp add: resend_counts_def)
  next
    case OverBudget
    then have "nack_loop (upd_stats (\<lambda>s. s\<lparr>st_bandwidth_skipped := st_bandwidth_skipped s + 1\<rparr>) f) now rtt ms k = Some g"
      using Cons.prems(3) slot by simp
    from withheld [OF this] show ?thesis by (simp add: resend_counts_def)
  next
    case Exhausted
    then have "nack_loop (upd_stats (\<lambda>s. s\<lparr>st_retransmit_exhausted := st_retransmit_exhausted s + 1\<rparr>) f) now rtt ms k = Some g"
      using Cons.prems(3) slot by simp
    from withheld [OF this] show ?thesis by (simp add: resend_counts_def)
  qed
qed

text \<open>C24: servicing a NACK is sound and accounted. On a sender whose per-pass budget is positive it
  returns; every packet it emits is a retransmission of a requested number with exactly the
  payload, source time and framing role the history holds for it; no more than the per-pass budget
  are emitted; every request is counted under exactly one verdict, all of them unless the budget
  was used up; and what the history answers is unchanged.\<close>

theorem service_nack_faithful:
  assumes "flow_ok f" "0 < fl_max_nacks_per_loop f"
  shows "\<exists>g. service_nack f now missing = Some g
    \<and> answered f missing (fl_max_nacks_per_loop f) g
    \<and> (\<forall>t. hist_lookup (hist_of g) t = hist_lookup (hist_of f) t)"
proof -
  have ok: "sender_ok (fl_sender f)" "cfg_ok (fl_cfg f)" using assms(1) by (simp_all add: flow_ok_def)
  obtain rtt where rtt: "est_last_clamped (fl_est f) (cfg_rtt_min (fl_cfg f)) (cfg_rtt_max (fl_cfg f)) = Some rtt"
    using ok(2) est_last_clamped_panic_free unfolding cfg_ok_def by blast
  define f1 where "f1 = upd_send (\<lambda>sn. sn\<lparr>sn_data_bw := ewma_feed (sn_data_bw sn) now 0,
      sn_retry_bw := ewma_feed (sn_retry_bw sn) now 0\<rparr>) f"
  define r where "r = (if congestion_control (fl_cfg f) = Aggressive then micros_add rtt rtt else rtt)"
  obtain g where g: "service_nack f now missing = Some g" using service_nack_ok [OF ok] by blast
  then have run: "nack_loop f1 now r missing 0 = Some g"
    using rtt by (simp add: service_nack_def Let_def f1_def r_def)
  have f1: "sender_ok (fl_sender f1)" "fl_max_nacks_per_loop f1 = fl_max_nacks_per_loop f"
    "fl_outputs f1 = fl_outputs f" "fl_stats f1 = fl_stats f" "hist_of f1 = hist_of f"
    "sn_tx_path (fl_sender f1) = sn_tx_path (fl_sender f)" "sn_ssrc (fl_sender f1) = sn_ssrc (fl_sender f)"
    using ok(1) by (simp_all add: f1_def sender_ok_def hist_of_def)
  have "faithful f1 missing x = faithful f missing x" for x
    by (simp add: faithful_def media_out_def f1)
  with nack_loop_answered [OF f1(1) _ run] assms(2) f1 g show ?thesis
    by (simp add: answered_def)
qed

theorem service_nack_faithful_witness:
  "\<exists>g. service_nack (flow_new Sender librist_defaults) 9 [4, 4, 5] = Some g
    \<and> answered (flow_new Sender librist_defaults) [4, 4, 5]
        (fl_max_nacks_per_loop (flow_new Sender librist_defaults)) g
    \<and> (\<forall>t. hist_lookup (hist_of g) t = hist_lookup (hist_of (flow_new Sender librist_defaults)) t)"
proof (rule service_nack_faithful)
  show "flow_ok (flow_new Sender librist_defaults)"
    by (rule flow_new_ok)
      (simp_all add: cfg_ok_def librist_defaults_def effective_min_eq micros_from_millis_def
        default_ring_size_def)
  show "0 < fl_max_nacks_per_loop (flow_new Sender librist_defaults)"
    by (simp add: flow_new_def Let_def derive_max_nacks_per_loop_def effective_kbps_def to_u32_sat_def
        librist_defaults_def micros_from_millis_def trunc_div_def rist_max_jitter_ms_def
        rist_nack_mtu_assumed_def)
qed

section \<open>The retry budget\<close>

definition within_budget :: "flow \<Rightarrow> bool" where
  "within_budget f \<longleftrightarrow>
     (\<forall>s \<in> set (sn_ring (fl_sender f)). ss_transmit_count s \<le> max_retries (fl_cfg f))"

lemma within_budget_update:
  "within_budget f \<Longrightarrow> ss_transmit_count s \<le> max_retries (fl_cfg f) \<Longrightarrow> fl_cfg g = fl_cfg f \<Longrightarrow>
   sn_ring (fl_sender g) = (sn_ring (fl_sender f))[i := s] \<Longrightarrow> within_budget g"
  unfolding within_budget_def using set_update_subset_insert [of "sn_ring (fl_sender f)" i s] by auto

lemma within_budget_same:
  "max_retries (fl_cfg g) = max_retries (fl_cfg f) \<Longrightarrow> sn_ring (fl_sender g) = sn_ring (fl_sender f) \<Longrightarrow>
   within_budget g = within_budget f"
  by (simp add: within_budget_def)

lemma resend_within_budget:
  "within_budget f \<Longrightarrow> nack_verdict f now rtt m sl = Resend \<Longrightarrow> within_budget (resend f now m sl)"
  by (rule within_budget_update [where s = "sl\<lparr>ss_last_retry := now, ss_retried := True,
        ss_transmit_count := ss_transmit_count sl + 1\<rparr>" and i = "ring_index (sn_mask (fl_sender f)) m"])
    (auto simp: nack_verdict_def resend_def Let_def split: if_splits)

lemma nack_loop_within_budget:
  "within_budget f \<Longrightarrow> nack_loop f now rtt ms k = Some g \<Longrightarrow> within_budget g"
proof (induction f now rtt ms k rule: nack_loop.induct)
  case (1 f now rtt emitted)
  then show ?case by simp
next
  case (2 f now rtt m ms emitted)
  then obtain sl where "ring_slot (sn_ring (fl_sender f)) (sn_mask (fl_sender f)) m = Some sl"
    by (auto split: option.splits)
  with 2 show ?case
    using resend_within_budget [of f now rtt m sl]
    by (cases "nack_verdict f now rtt m sl")
      (auto simp: within_budget_def split: if_splits)
qed

lemma send_push_within_budget:
  "within_budget f \<Longrightarrow> send_push_app_block f now payload frag sq st = Some g \<Longrightarrow> within_budget g"
proof -
  assume f: "within_budget f" and run: "send_push_app_block f now payload frag sq st = Some g"
  have cfg: "fl_cfg (sender_start now f) = fl_cfg f"
    "sn_ring (fl_sender (sender_start now f)) = sn_ring (fl_sender f)"
    by (simp_all add: sender_start_def Let_def)
  show ?thesis
  proof (cases "no_recovery (fl_cfg f)")
    case True
    then show ?thesis using run f cfg
      by (auto simp: send_push_app_block_def Let_def within_budget_def)
  next
    case False
    with run obtain i s where "sn_ring (fl_sender g) = (sn_ring (fl_sender f))[i := s]"
      "ss_transmit_count s = 0" "fl_cfg g = fl_cfg f"
      by (auto simp: send_push_app_block_def Let_def cfg sent_slot_def split: bind_splits)
    then show ?thesis using within_budget_update [OF f, of s g i] by simp
  qed
qed

text \<open>Receiver-side calls leave the sender and its budget alone.\<close>

definition sender_same :: "flow \<Rightarrow> flow \<Rightarrow> bool" where
  "sender_same f g \<longleftrightarrow> fl_sender g = fl_sender f \<and> max_retries (fl_cfg g) = max_retries (fl_cfg f)"

lemma sender_same_budget: "sender_same f g \<Longrightarrow> within_budget g = within_budget f"
  by (simp add: sender_same_def within_budget_def)

lemma sender_same_trans: "sender_same f g \<Longrightarrow> sender_same g h \<Longrightarrow> sender_same f h"
  by (simp add: sender_same_def)

lemma core_same_sender: "core_same f g \<Longrightarrow> sender_same f g"
  by (simp add: core_same_def sender_same_def)

lemma feed_sender_same: "flow_ok f \<Longrightarrow> feed f now path pkt = Some g \<Longrightarrow> sender_same f g"
  using recv_feed_ok [of f now path pkt]
  by (auto simp: feed_def flow_ok_def sender_same_def feed_frame_def split: if_splits)

lemma deliver_sender_same: "flow_ok f \<Longrightarrow> deliver_due f now = Some g \<Longrightarrow> sender_same f g"
  using deliver_due_step [of f now]
  by (auto simp: flow_ok_def sender_same_def playout_step_def playout_frame_def)

lemma nacks_sender_same: "flow_ok f \<Longrightarrow> process_nacks f now = Some g \<Longrightarrow> sender_same f g"
  using process_nacks_ok [of f now] core_same_sender by (auto simp: flow_ok_def)

lemma auto_scale_sender_same: "auto_scale_buffer f = Some g \<Longrightarrow> sender_same f g"
  by (auto simp: auto_scale_buffer_def sender_same_def Let_def split: if_splits bind_splits)

lemma timer_sender_same:
  assumes "flow_ok f" "fl_role f = Receiver" "handle_timer f now i = Some g"
  shows "sender_same f g"
proof -
  have upd: "flow_ok (upd_recv (\<lambda>r. r\<lparr>rv_playout_armed := False\<rparr>) f)"
    "flow_ok (upd_recv (\<lambda>r. r\<lparr>rv_nack_armed := False\<rparr>) f)"
    using assms(1) core_same_flow_ok [OF core_same_recv] by simp_all
  show ?thesis
  proof (cases i)
    case Playout
    with assms have "deliver_due (upd_recv (\<lambda>r. r\<lparr>rv_playout_armed := False\<rparr>) f) now = Some g"
      by (simp add: handle_timer_def)
    from deliver_sender_same [OF upd(1) this] show ?thesis by (simp add: sender_same_def)
  next
    case NackTimer
    with assms obtain h where
      h: "process_nacks (upd_recv (\<lambda>r. r\<lparr>rv_nack_armed := False\<rparr>) f) now = Some h" "g = schedule_nack now h"
      by (auto simp: handle_timer_def split: bind_splits)
    from nacks_sender_same [OF upd(2) h(1)] core_same_sender [OF core_same_schedule, of h now] h(2)
    show ?thesis by (simp add: sender_same_def)
  next
    case RttEcho
    with assms show ?thesis
      by (auto simp: handle_timer_def receiver_echo_def sender_same_def split: if_splits
          dest!: auto_scale_sender_same)
  qed
qed

lemma feedback_within_budget:
  assumes "within_budget f" "feed_feedback f now fb = Some g"
  shows "within_budget g"
proof (cases "\<exists>ssrc missing. fb = Nack ssrc missing \<and> fl_role f = Sender")
  case True
  then obtain ssrc missing where fb: "fb = Nack ssrc missing" "fl_role f = Sender" by blast
  with assms(2) obtain r where "nack_loop (upd_send (\<lambda>sn. sn\<lparr>sn_data_bw := ewma_feed (sn_data_bw sn) now 0,
      sn_retry_bw := ewma_feed (sn_retry_bw sn) now 0\<rparr>) f) now r missing 0 = Some g"
    by (auto simp: feed_feedback_def service_nack_def Let_def split: bind_splits)
  then show ?thesis by (rule nack_loop_within_budget [rotated]) (use assms(1) in \<open>simp add: within_budget_def\<close>)
next
  case False
  then show ?thesis using assms
    by (cases fb) (auto simp: feed_feedback_def within_budget_def count_ignored_def Let_def)
qed

lemma flow_step_budget:
  assumes "flow_ok f \<and> within_budget f"
  shows "\<exists>g. flow_step f i = Some g \<and> flow_ok g \<and> within_budget g"
proof -
  from assms have ok: "flow_ok f" and budget: "within_budget f" by blast+
  obtain g where g: "flow_step f i = Some g" "flow_ok g" using flow_step_ok [OF ok] by blast
  have "within_budget g"
  proof (cases i)
    case (InFeed now path pkt)
    with g(1) have "feed f now path pkt = Some g" by simp
    from sender_same_budget [OF feed_sender_same [OF ok this]] budget show ?thesis by simp
  next
    case (InFeedback now fb)
    with g(1) feedback_within_budget [OF budget] show ?thesis by simp
  next
    case (InPush now payload frag sq st)
    with g(1) budget send_push_within_budget show ?thesis
      by (auto simp: push_app_block_def split: if_splits)
  next
    case (InTimer now t)
    then have run: "handle_timer f now t = Some g" using g(1) by simp
    show ?thesis
    proof (cases "fl_role f")
      case Sender
      with run budget show ?thesis
        by (auto simp: handle_timer_def sender_handle_timer_def within_budget_def)
    next
      case Receiver
      from sender_same_budget [OF timer_sender_same [OF ok this run]] budget show ?thesis by simp
    qed
  next
    case (InTick now)
    obtain h where h: "deliver_due f now = Some h" "flow_ok h"
      using deliver_due_flow_ok [OF ok] by blast
    with InTick g(1) have "g = f \<or> process_nacks h now = Some g" by (auto simp: tick_def split: if_splits)
    then have "sender_same f g"
      using sender_same_trans [OF deliver_sender_same [OF ok h(1)] nacks_sender_same [OF h(2)]]
      by (auto simp: sender_same_def)
    from sender_same_budget [OF this] budget show ?thesis by simp
  next
    case (InSenderMax d)
    have "sender_same f (set_sender_max_buffer f d)"
      by (simp add: set_sender_max_buffer_def sender_same_def Let_def)
    from sender_same_budget [OF this] budget g(1) InSenderMax show ?thesis by simp
  qed (use g(1) budget in \<open>auto simp: within_budget_def set_rtt_multiplier_def poll_output_def
      poll_event_def split: list.splits\<close>)
  with g show ?thesis by blast
qed

interpretation budget_machine: total_machine flow_step "\<lambda>f. flow_ok f \<and> within_budget f"
  by unfold_locales (use flow_step_budget in blast)

text \<open>The retry budget holds in every reachable state: whatever calls are made on a new flow, no
  packet of the history has been retransmitted more than \<open>max_retries\<close> times since it was
  pushed.\<close>

theorem retry_budget_respected:
  assumes "effective_min (cfg_rtt_min cfg) \<le> cfg_rtt_max cfg"
    "recovery_buffer_min cfg \<le> recovery_buffer_max cfg" "ring_size cfg \<le> 2 ^ 31"
  shows "\<exists>f. run_steps flow_step (flow_new role cfg) is = Some f
    \<and> (\<forall>s \<in> set (sn_ring (fl_sender f)). ss_transmit_count s \<le> max_retries (fl_cfg f))"
proof -
  have "flow_ok (flow_new role cfg)" using assms by (intro flow_new_ok) (simp_all add: cfg_ok_def)
  moreover have "within_budget (flow_new role cfg)"
    by (cases role) (auto simp: within_budget_def flow_new_def Let_def sender_new_def sender_empty_def
        sender_slot_default_def)
  ultimately show ?thesis
    using budget_machine.run_total [of "flow_new role cfg" "is"] by (auto simp: within_budget_def)
qed

theorem retry_budget_respected_witness:
  "\<exists>f. run_steps flow_step (flow_new Sender librist_defaults)
         [InPush 3 [1, 2] Standalone None None, InFeedback 9 (Nack 0 [0, 0]), InFeedback 10 (Nack 0 [0])] = Some f
    \<and> (\<forall>s \<in> set (sn_ring (fl_sender f)). ss_transmit_count s \<le> max_retries (fl_cfg f))"
  by (rule retry_budget_respected)
    (simp_all add: librist_defaults_def effective_min_eq micros_from_millis_def default_ring_size_def)

end
