(* ===== verification/Nack_Props.thy ===== *)
theory Nack_Props
  imports Flow_Inv
begin

text \<open>
  What missing detection and the NACK pass do: the entries queued by a gap are exactly its numbers
  in order (up to the two early exits), and a pass NACKs only what is queued, absent from the ring,
  due and within its retry and age budgets, accounting for every entry it removes.
\<close>

section \<open>Missing detection\<close>

text \<open>A fresh entry: never NACKed, first due after the reorder delay, its insertion time within the
  recovery buffer of the present.\<close>

definition fresh_entry :: "flow \<Rightarrow> timestamp \<Rightarrow> missing_entry \<Rightarrow> bool" where
  "fresh_entry f now e \<longleftrightarrow> me_nack_count e = 0
     \<and> me_insertion_time e \<le> now \<and> ts_sub now (fl_recovery_buffer f) \<le> me_insertion_time e
     \<and> ts_add now (reorder_buffer (fl_cfg f)) \<le> me_next_nack e"

lemma ts_add_mono: "d \<le> d' \<Longrightarrow> t \<le> u64_max \<Longrightarrow> ts_add t d \<le> ts_add t d'"
  by (cases "0 \<le> d"; cases "0 \<le> d'") (auto simp: ts_add_def)

text \<open>The walk appends an entry for each number it visits.\<close>

definition queued :: "flow \<Rightarrow> missing_entry list \<Rightarrow> flow" where
  "queued f es = upd_stats (\<lambda>st. st\<lparr>st_missing := st_missing st + length es\<rparr>)
     (upd_recv (\<lambda>r. r\<lparr>rv_missing := rv_missing r @ es\<rparr>) f)"

lemma queued_simps [simp]:
  "fl_cfg (queued f es) = fl_cfg f" "fl_recovery_buffer (queued f es) = fl_recovery_buffer f"
  "fl_missing_counter_max (queued f es) = fl_missing_counter_max f"
  "rv_missing (fl_receiver (queued f es)) = rv_missing (fl_receiver f) @ es"
  "fresh_entry (queued f es) = fresh_entry f"
  by (simp_all add: queued_def fresh_entry_def fun_eq_iff)

lemma queued_Nil [simp]: "queued f [] = f"
  by (simp add: queued_def upd_stats_def upd_recv_def)

lemma queued_append [simp]: "queued (queued f es) es' = queued f (es @ es')"
  by (simp add: queued_def upd_stats_def upd_recv_def add.assoc)

lemma add_missing_entry:
  assumes "cfg_ok (fl_cfg f)" "0 \<le> fl_recovery_buffer f" "now \<le> u64_max"
  shows "\<exists>e. add_missing f now path m nt = Some (queued f [e]) \<and> me_seq e = m \<and> fresh_entry f now e"
proof -
  obtain c where c: "est_clamped (fl_est f) (cfg_rtt_min (fl_cfg f)) (cfg_rtt_max (fl_cfg f)) = Some c"
    using assms(1) est_clamped_panic_free unfolding cfg_ok_def by blast
  define ins where "ins = (if now < nt \<or> nt < ts_sub now (fl_recovery_buffer f) then now else nt)"
  define e where "e = \<lparr>me_seq = m, me_path = path, me_nack_count = 0, me_insertion_time = ins,
      me_next_nack = ts_add now (max (trunc_div c 2) (reorder_buffer (fl_cfg f)))\<rparr>"
  have "ts_sub now (fl_recovery_buffer f) \<le> now"
    using assms(2) by (simp add: ts_sub_def ts_add_def sat_neg_def sat_i64_def)
  then have "fresh_entry f now e" "me_seq e = m"
    using assms(3) by (auto simp: e_def ins_def fresh_entry_def intro: ts_add_mono)
  moreover have "add_missing f now path m nt = Some (queued f [e])"
    by (simp add: add_missing_def c e_def ins_def queued_def Let_def)
  ultimately show ?thesis by blast
qed

text \<open>How far the walk may get: over the whole gap, until the queue is over its bound, or for one
  number less than the ring.\<close>

definition marked :: "flow \<Rightarrow> timestamp \<Rightarrow> u32 \<Rightarrow> nat \<Rightarrow> nat \<Rightarrow> missing_entry list \<Rightarrow> bool" where
  "marked f now m gap room es \<longleftrightarrow>
     map me_seq es = map (\<lambda>j. m + of_nat j) [0..<length es]
     \<and> (\<forall>e \<in> set es. fresh_entry f now e) \<and> length es \<le> gap
     \<and> (length es = gap \<or> length es = room
        \<or> fl_missing_counter_max f < length (rv_missing (fl_receiver f)) + length es)"

lemma marked_Cons:
  assumes "marked (queued f [e]) now (m + 1) gap room es" "me_seq e = m" "fresh_entry f now e"
  shows "marked f now m (Suc gap) (Suc room) (e # es)"
proof -
  have "map (\<lambda>j. m + of_nat j) [0..<length (e # es)] = m # map (\<lambda>j. m + 1 + of_nat j) [0..<length es]"
    by (simp add: upt_conv_Cons map_Suc_upt [symmetric] comp_def ac_simps del: upt_Suc)
  with assms show ?thesis by (auto simp: marked_def)
qed

lemma mark_walk_exact:
  assumes "cfg_ok (fl_cfg f)" "0 \<le> fl_recovery_buffer f" "now \<le> u64_max" "count < n"
  shows "\<exists>es. mark_walk f now path m current nt ip count n = Some (queued f es)
    \<and> marked f now m (unat (current - m)) (n - count) es"
  using assms
proof (induction f now path m current nt ip count n rule: mark_walk.induct)
  case (1 f now path m current nt ip count n)
  note unf = mark_walk.simps [of f now path m current nt ip count n]
  show ?case
  proof (cases "m = current \<or> fl_missing_counter_max f < length (rv_missing (fl_receiver f))")
    case True
    then have "mark_walk f now path m current nt ip count n = Some (queued f [])"
      by (auto simp: unf)
    moreover have "marked f now m (unat (current - m)) (n - count) []"
      using True by (auto simp: marked_def)
    ultimately show ?thesis by blast
  next
    case False
    obtain e where e: "add_missing f now path m (ts_add nt ip) = Some (queued f [e])" "me_seq e = m"
      "fresh_entry f now e"
      using add_missing_entry [OF "1.prems"(1-3)] by blast
    have "current - m \<noteq> 0" using False by auto
    then have "1 \<le> unat (current - m)" by (simp add: Suc_le_eq unat_gt_0)
    then have gap: "unat (current - m) = Suc (unat (current - (m + 1)))"
      using unat_gap_add [of 1 current m] by simp
    show ?thesis
    proof (cases "count + 1 = n")
      case True
      then have "mark_walk f now path m current nt ip count n = Some (queued f [e])"
        using False e(1) by (simp add: unf)
      moreover have "marked f now m (unat (current - m)) (n - count) [e]"
        using True e(2,3) gap by (auto simp: marked_def)
      ultimately show ?thesis by blast
    next
      case c: False
      then have n: "count + 1 < n" using "1.prems"(4) by simp
      obtain es where
        es: "mark_walk (queued f [e]) now path (m + 1) current (ts_add nt ip) ip (count + 1) n
            = Some (queued (queued f [e]) es)"
          "marked (queued f [e]) now (m + 1) (unat (current - (m + 1))) (n - (count + 1)) es"
        using "1.IH" [OF _ _ refl e(1) c] False "1.prems"(1-3) n by auto
      have "mark_walk f now path m current nt ip count n = Some (queued f (e # es))"
        using False e(1) c es(1) by (simp add: unf)
      moreover have "marked f now m (unat (current - m)) (n - count) (e # es)"
        using marked_Cons [OF es(2) e(2,3)] n by (simp add: gap Suc_diff_Suc)
      ultimately show ?thesis by blast
    qed
  qed
qed

definition gap_cap :: "receiver_state \<Rightarrow> nat" where
  "gap_cap r = (if rv_short_seq r then max_gap_16 else length (rv_ring r) div 2)"

text \<open>A receiver that has seen number 0, with a ring of four, for the concrete instances.\<close>

definition sample_gap_flow :: flow where
  "sample_gap_flow = (flow_new Receiver librist_defaults)\<lparr>fl_receiver := fl_receiver sample_flow\<rparr>"

lemma librist_cfg_ok: "cfg_ok librist_defaults"
  by (simp add: cfg_ok_def librist_defaults_def effective_min_eq micros_from_millis_def)

lemma sample_gap_facts:
  "fl_receiver sample_gap_flow = fl_receiver sample_flow" "fl_cfg sample_gap_flow = librist_defaults"
  "0 \<le> fl_recovery_buffer sample_gap_flow"
  by (simp_all add: sample_gap_flow_def flow_new_def Let_def recovery_buffer_of_def micros_sub_def
      micros_add_def librist_defaults_def micros_from_millis_def trunc_div_def)

text \<open>C25: missing detection queues exactly the gap. For a packet \<open>current\<close> ahead of the last one
  found, recovery enabled and the gap within the cap of the framing, one entry is appended for each
  number strictly between them, in order and never before the reorder delay, stopping early only
  when the queue is over its bound or the entries reach a ring; a repeated number, a gap past the
  cap or a one-way transport queues nothing. Nothing else of the flow changes.\<close>

theorem mark_missing_exact:
  assumes "recv_ok (fl_receiver f)" "cfg_ok (fl_cfg f)" "0 \<le> fl_recovery_buffer f" "now \<le> u64_max"
    "1 < length (rv_ring (fl_receiver f))"
  shows "\<exists>es. mark_missing f now path current pt = Some (queued f es)
    \<and> (let gap = unat (current - rv_last_found (fl_receiver f))
       in if no_recovery (fl_cfg f) \<or> gap = 0 \<or> gap_cap (fl_receiver f) < gap then es = []
          else marked f now (rv_last_found (fl_receiver f) + 1) (gap - 1)
                 (length (rv_ring (fl_receiver f)) - 1) es)"
proof -
  let ?r = "fl_receiver f"
  let ?gap = "unat (current - rv_last_found ?r)"
  note geo = recv_ok_geometry [OF assms(1)]
  show ?thesis
  proof (cases "no_recovery (fl_cfg f) \<or> ?gap = 0 \<or> gap_cap ?r < ?gap")
    case True
    then have "mark_missing f now path current pt = Some (queued f [])"
      by (auto simp: mark_missing_def gap_cap_def Let_def)
    with True show ?thesis unfolding Let_def by (intro exI [of _ "[]"]) simp
  next
    case False
    then have "unat (current - (rv_last_found ?r + 1)) = ?gap - 1"
      using unat_gap_add [of 1 current "rv_last_found ?r"] by simp
    moreover obtain nt ip where "mark_missing f now path current pt =
        mark_walk f now path (rv_last_found ?r + 1) current nt ip 1 (length (ring_of f))"
      using False by (auto simp: mark_missing_def gap_cap_def Let_def ring_slot_panic_free [OF geo])
    ultimately show ?thesis
      using mark_walk_exact [OF assms(2-4,5), of path "rv_last_found ?r + 1" current nt ip] False
      by (auto simp: Let_def)
  qed
qed

theorem mark_missing_exact_witness:
  "\<exists>es. mark_missing sample_gap_flow 100 0 2 90 = Some (queued sample_gap_flow es)
    \<and> (let gap = unat (2 - rv_last_found (fl_receiver sample_gap_flow))
       in if no_recovery (fl_cfg sample_gap_flow) \<or> gap = 0 \<or> gap_cap (fl_receiver sample_gap_flow) < gap
          then es = []
          else marked sample_gap_flow 100 (rv_last_found (fl_receiver sample_gap_flow) + 1) (gap - 1)
                 (length (rv_ring (fl_receiver sample_gap_flow)) - 1) es)"
  by (rule mark_missing_exact) (simp_all add: sample_gap_facts librist_cfg_ok sample_flow_ok)

section \<open>The NACK pass\<close>

text \<open>An entry leaves the queue when its slot is filled (recovered or reused) or its retry or age
  budget is used up.\<close>

definition settled_entry :: "flow \<Rightarrow> timestamp \<Rightarrow> missing_entry \<Rightarrow> bool" where
  "settled_entry f now e \<longleftrightarrow>
     sl_state (ring_of f ! ring_index (rv_mask (fl_receiver f)) (me_seq e)) = Filled
     \<or> max_retries (fl_cfg f) \<le> me_nack_count e
     \<or> fl_recovery_buffer_110 f < ts_diff now (me_insertion_time e)"

definition renacked :: "timestamp \<Rightarrow> micros \<Rightarrow> missing_entry \<Rightarrow> missing_entry" where
  "renacked now retry e = e\<lparr>me_next_nack := ts_add now retry, me_nack_count := me_nack_count e + 1\<rparr>"

text \<open>The outcome of a pass over \<open>es\<close>: the entries left in order, each marked with whether it was
  NACKed; only due entries are, and without a return-bandwidth cap every due entry is.\<close>

definition pass_rows ::
    "flow \<Rightarrow> timestamp \<Rightarrow> missing_entry list \<Rightarrow> (missing_entry \<times> bool) list \<Rightarrow> bool" where
  "pass_rows f now es rows \<longleftrightarrow>
     map fst rows = filter (\<lambda>e. \<not> settled_entry f now e) es
     \<and> (\<forall>(e, b) \<in> set rows. b \<longrightarrow> me_next_nack e \<le> now)
     \<and> (f64_le (rv_nack_seqs_per_sec (fl_receiver f)) (f64_of_int 0) \<longrightarrow>
          (\<forall>(e, b) \<in> set rows. me_next_nack e \<le> now \<longrightarrow> b))"

definition rows_kept :: "timestamp \<Rightarrow> micros \<Rightarrow> (missing_entry \<times> bool) list \<Rightarrow> missing_entry list" where
  "rows_kept now retry rows = map (\<lambda>(e, b). if b then renacked now retry e else e) rows"

definition rows_batch :: "(missing_entry \<times> bool) list \<Rightarrow> u32 list" where
  "rows_batch rows = map (me_seq \<circ> fst) (filter snd rows)"

definition nack_same :: "flow \<Rightarrow> flow \<Rightarrow> bool" where
  "nack_same f g \<longleftrightarrow> core_same f g
     \<and> rv_nack_seqs_per_sec (fl_receiver g) = rv_nack_seqs_per_sec (fl_receiver f)
     \<and> rv_ssrc (fl_receiver g) = rv_ssrc (fl_receiver f)
     \<and> rv_last_path (fl_receiver g) = rv_last_path (fl_receiver f)
     \<and> fl_outputs g = fl_outputs f"

lemma nack_same_stats [simp]: "nack_same f (upd_stats h g) = nack_same f g"
  by (simp add: nack_same_def core_same_def)

lemma nack_same_token [simp]:
  "nack_same f (upd_recv (\<lambda>r. if bucket_limited r
      then r\<lparr>rv_nack_tokens := f64_sub (rv_nack_tokens r) (f64_of_int 1)\<rparr> else r) g) = nack_same f g"
  by (simp add: nack_same_def core_same_def)

lemma pass_rows_drop: "settled_entry f now e \<Longrightarrow> pass_rows f now es rows \<Longrightarrow> pass_rows f now (e # es) rows"
  by (simp add: pass_rows_def)

lemma pass_rows_keep:
  "\<not> settled_entry f now e \<Longrightarrow> pass_rows f now es rows \<Longrightarrow> (b \<Longrightarrow> me_next_nack e \<le> now) \<Longrightarrow>
   (f64_le (rv_nack_seqs_per_sec (fl_receiver f)) (f64_of_int 0) \<Longrightarrow> me_next_nack e \<le> now \<Longrightarrow> b) \<Longrightarrow>
   pass_rows f now (e # es) ((e, b) # rows)"
  by (auto simp: pass_rows_def)

lemma nack_walk_rows:
  assumes "ring_geometry (ring_of f0) (rv_mask (fl_receiver f0))" "nack_same f0 f"
    "nack_walk f now retry es kept batch = Some (g, kept', batch')"
  shows "\<exists>rows. pass_rows f0 now es rows \<and> nack_same f0 g
    \<and> kept' = kept @ rows_kept now retry rows \<and> batch' = batch @ rows_batch rows"
  using assms(2,3)
proof (induction es arbitrary: f kept batch)
  case Nil
  then show ?case by (intro exI [of _ "[]"]) (simp add: pass_rows_def rows_kept_def rows_batch_def)
next
  case (Cons e es)
  have same: "ring_of f = ring_of f0" "rv_mask (fl_receiver f) = rv_mask (fl_receiver f0)"
    "fl_cfg f = fl_cfg f0" "fl_recovery_buffer_110 f = fl_recovery_buffer_110 f0"
    "rv_nack_seqs_per_sec (fl_receiver f) = rv_nack_seqs_per_sec (fl_receiver f0)"
    using Cons.prems(1) by (simp_all add: nack_same_def core_same_def)
  let ?s = "ring_of f0 ! ring_index (rv_mask (fl_receiver f0)) (me_seq e)"
  have slot: "ring_slot (ring_of f) (rv_mask (fl_receiver f)) (me_seq e) = Some ?s"
    using assms(1) by (simp add: same ring_slot_panic_free)
  show ?case
  proof (cases "settled_entry f0 now e")
    case True
    then obtain h where h: "nack_walk h now retry es kept batch = Some (g, kept', batch')" "nack_same f0 h"
      using Cons.prems slot
      by (auto simp: settled_entry_def slot_holds_def same split: if_splits)
    from Cons.IH [OF h(2,1)] pass_rows_drop [OF True] show ?thesis by blast
  next
    case False
    then have f0: "sl_state ?s \<noteq> Filled" "\<not> max_retries (fl_cfg f) \<le> me_nack_count e"
      "\<not> fl_recovery_buffer_110 f < ts_diff now (me_insertion_time e)"
      by (simp_all add: settled_entry_def same)
    show ?thesis
    proof (cases "nack_due (fl_receiver f) now e")
      case True
      with Cons.prems slot f0 obtain h where
        h: "nack_walk h now retry es (kept @ [renacked now retry e]) (batch @ [me_seq e])
            = Some (g, kept', batch')" "nack_same f0 h"
        by (auto simp: slot_holds_def renacked_def)
      from Cons.IH [OF h(2,1)] obtain rows where rows: "pass_rows f0 now es rows" "nack_same f0 g"
        "kept' = kept @ renacked now retry e # rows_kept now retry rows"
        "batch' = batch @ me_seq e # rows_batch rows" by auto
      have "pass_rows f0 now (e # es) ((e, True) # rows)"
        using pass_rows_keep [OF False rows(1)] True by (simp add: nack_due_def)
      with rows show ?thesis
        by (intro exI [of _ "(e, True) # rows"]) (simp add: rows_kept_def rows_batch_def)
    next
      case no: False
      with Cons.prems slot f0 have
        h: "nack_walk f now retry es (kept @ [e]) batch = Some (g, kept', batch')"
        by (simp add: slot_holds_def)
      from Cons.IH [OF Cons.prems(1) h] obtain rows where rows: "pass_rows f0 now es rows" "nack_same f0 g"
        "kept' = kept @ e # rows_kept now retry rows" "batch' = batch @ rows_batch rows" by auto
      have "pass_rows f0 now (e # es) ((e, False) # rows)"
        using pass_rows_keep [OF False rows(1)] no by (simp add: nack_due_def same)
      with rows show ?thesis
        by (intro exI [of _ "(e, False) # rows"]) (simp add: rows_kept_def rows_batch_def)
    qed
  qed
qed

text \<open>C26: the NACK pass is sound and complete. Over a non-empty missing queue it returns; the entries
  left are, in order, exactly those whose slot is still empty and whose retry and age budgets are not
  used up; the numbers NACKed are those of left entries that were due (all of them when no return
  bandwidth cap is set), each then counted once more and put off by the retry interval; and they
  leave as one NACK on the last media path, none when there are none.\<close>

theorem nack_pass_exact:
  assumes "recv_ok (fl_receiver f)" "cfg_ok (fl_cfg f)" "rv_missing (fl_receiver f) \<noteq> []"
  shows "\<exists>g retry rows. process_nacks f now = Some g
    \<and> est_retry_interval (fl_est f) (cfg_rtt_min (fl_cfg f)) (cfg_rtt_max (fl_cfg f)) = Some retry
    \<and> pass_rows f now (rv_missing (fl_receiver f)) rows
    \<and> rv_missing (fl_receiver g) = rows_kept now retry rows
    \<and> fl_outputs g = fl_outputs f @
        (if rows_batch rows = [] then []
         else [SendFeedback (rv_last_path (fl_receiver f)) (Nack (rv_ssrc (fl_receiver f)) (rows_batch rows))])"
proof -
  obtain retry where retry: "est_retry_interval (fl_est f) (cfg_rtt_min (fl_cfg f))
      (cfg_rtt_max (fl_cfg f)) = Some retry"
    using assms(2) est_retry_interval_panic_free unfolding cfg_ok_def by blast
  let ?f1 = "upd_recv (refill_tokens now) f"
  have miss: "rv_missing (refill_tokens now (fl_receiver f)) = rv_missing (fl_receiver f)"
    by (simp add: refill_tokens_def Let_def)
  have same: "nack_same f ?f1"
    by (simp add: nack_same_def core_same_def refill_tokens_def Let_def)
  obtain g where g: "process_nacks f now = Some g" using process_nacks_ok [OF assms(1,2)] by blast
  then obtain f2 kept batch where walk:
    "nack_walk ?f1 now retry (rv_missing (fl_receiver f)) [] [] = Some (f2, kept, batch)" and
    run: "g = (let f3 = upd_recv (\<lambda>r. r\<lparr>rv_missing := kept\<rparr>) f2
       in if batch = [] then f3
          else push_output (SendFeedback (rv_last_path (fl_receiver f3)) (Nack (rv_ssrc (fl_receiver f3)) batch)) f3)"
    using assms(3) retry by (auto simp: process_nacks_def miss Let_def split: bind_splits)
  from nack_walk_rows [OF recv_ok_geometry [OF assms(1)] same walk] obtain rows where
    rows: "pass_rows f now (rv_missing (fl_receiver f)) rows" "nack_same f f2"
      "kept = rows_kept now retry rows" "batch = rows_batch rows" by auto
  have "rv_missing (fl_receiver g) = rows_kept now retry rows"
    "fl_outputs g = fl_outputs f @ (if rows_batch rows = [] then []
       else [SendFeedback (rv_last_path (fl_receiver f)) (Nack (rv_ssrc (fl_receiver f)) (rows_batch rows))])"
    using rows(2-4) by (simp_all add: run Let_def nack_same_def)
  with g retry rows(1) show ?thesis by blast
qed

definition sample_nack_flow :: flow where
  "sample_nack_flow = queued sample_gap_flow
     [\<lparr>me_seq = 1, me_path = 0, me_nack_count = 0, me_insertion_time = 90, me_next_nack = 95\<rparr>]"

theorem nack_pass_exact_witness:
  "\<exists>g retry rows. process_nacks sample_nack_flow 100 = Some g
    \<and> est_retry_interval (fl_est sample_nack_flow) (cfg_rtt_min (fl_cfg sample_nack_flow))
        (cfg_rtt_max (fl_cfg sample_nack_flow)) = Some retry
    \<and> pass_rows sample_nack_flow 100 (rv_missing (fl_receiver sample_nack_flow)) rows
    \<and> rv_missing (fl_receiver g) = rows_kept 100 retry rows
    \<and> fl_outputs g = fl_outputs sample_nack_flow @
        (if rows_batch rows = [] then []
         else [SendFeedback (rv_last_path (fl_receiver sample_nack_flow))
                 (Nack (rv_ssrc (fl_receiver sample_nack_flow)) (rows_batch rows))])"
proof (rule nack_pass_exact)
  have "recv_ok (fl_receiver sample_nack_flow) = recv_ok (fl_receiver sample_flow)"
    by (rule recv_ok_cong) (simp_all add: sample_nack_flow_def queued_def sample_gap_facts)
  then show "recv_ok (fl_receiver sample_nack_flow)" by (simp add: sample_flow_ok)
qed (simp_all add: sample_nack_flow_def sample_gap_facts librist_cfg_ok)

end
