(* ===== verification/Recv_Props.thy ===== *)
theory Recv_Props
  imports Nack_Props
begin

text \<open>
  The receiver as a reorder buffer: the ring as a packet store, what happens to an accepted packet
  and to a copy of one, that buffered packets come out once they are due, and the bounds of the
  recovery-buffer scaling.
\<close>

section \<open>The reorder ring as a packet store\<close>

type_synonym reorder_ring = "slot list \<times> u32"

text \<open>What a filled slot holds besides its number: payload, source time, arrival, packet time,
  output time, paths seen, framing role and virtual ports.\<close>

type_synonym slot_body =
  "bytes \<times> ntp64 \<times> timestamp \<times> timestamp \<times> timestamp \<times> u64 \<times> frag_role \<times> u16 \<times> u16"

definition body_of :: "slot \<Rightarrow> slot_body" where
  "body_of s = (sl_payload s, sl_source_time s, sl_arrival s, sl_packet_time s, sl_output_time s,
     sl_path_seen s, sl_frag s, sl_virt_src_port s, sl_virt_dst_port s)"

definition slot_of :: "u32 \<Rightarrow> slot_body \<Rightarrow> slot" where
  "slot_of t b = (case b of (payload, st, arr, pt, ot, ps, fr, vs, vd) \<Rightarrow>
     \<lparr>sl_payload = payload, sl_source_time = st, sl_arrival = arr, sl_packet_time = pt,
      sl_output_time = ot, sl_path_seen = ps, sl_seq = t, sl_frag = fr, sl_virt_src_port = vs,
      sl_virt_dst_port = vd, sl_state = Filled\<rparr>)"

definition rx_of :: "flow \<Rightarrow> reorder_ring" where
  "rx_of f = (ring_of f, rv_mask (fl_receiver f))"

definition rx_ok :: "reorder_ring \<Rightarrow> bool" where
  "rx_ok h = ring_geometry (fst h) (snd h)"

definition rx_slots :: "reorder_ring \<Rightarrow> nat" where
  "rx_slots h = length (fst h)"

definition rx_lookup :: "reorder_ring \<Rightarrow> u32 \<Rightarrow> slot_body option" where
  "rx_lookup h t =
     (let s = fst h ! ring_index (snd h) t in if slot_holds s t then Some (body_of s) else None)"

definition rx_store :: "reorder_ring \<Rightarrow> u32 \<Rightarrow> slot_body \<Rightarrow> reorder_ring" where
  "rx_store h t b = ((fst h)[ring_index (snd h) t := slot_of t b], snd h)"

lemma body_of_slot_of [simp]: "body_of (slot_of t b) = b"
  by (simp add: body_of_def slot_of_def split: prod.split)

lemma slot_holds_slot_of [simp]: "slot_holds (slot_of t b) t"
  by (simp add: slot_holds_def slot_of_def split: prod.split)

interpretation reorder: packet_store rx_lookup rx_store rx_slots rx_ok
proof
  fix h :: reorder_ring and s :: u32 and b :: slot_body
  assume "rx_ok h"
  then have geo: "ring_geometry (fst h) (snd h)" by (simp add: rx_ok_def)
  have i: "ring_index (snd h) s < length (fst h)" using geo by (rule ring_index_less)
  show "rx_ok (rx_store h s b)" using geo by (simp add: rx_ok_def rx_store_def)
  show "rx_slots (rx_store h s b) = rx_slots h" by (simp add: rx_slots_def rx_store_def)
  show "rx_slots h dvd 2 ^ 32" using ring_geometry_dvd [OF geo] unfolding rx_slots_def .
  show "rx_lookup (rx_store h s b) s = Some b" using i by (simp add: rx_lookup_def rx_store_def)
  fix t :: u32
  assume "unat t mod rx_slots h \<noteq> unat s mod rx_slots h"
  then have "ring_index (snd h) t \<noteq> ring_index (snd h) s"
    by (simp add: rx_slots_def ring_index_eq [OF geo])
  then show "rx_lookup (rx_store h s b) t = rx_lookup h t" by (simp add: rx_lookup_def rx_store_def)
qed

section \<open>Accepting a packet\<close>

definition sample_packet :: media_packet where
  "sample_packet = \<lparr>mp_seq = 1, mp_source_time = 7, mp_ssrc = 0, mp_payload = [9],
     mp_retransmit = True, mp_path_id = 0, mp_frag = Standalone, mp_virt_src_port = 0,
     mp_virt_dst_port = 0, mp_short_seq = False\<rparr>"

definition packet_body :: "media_packet \<Rightarrow> u8 \<Rightarrow> timestamp \<Rightarrow> timestamp \<Rightarrow> timestamp \<Rightarrow> slot_body" where
  "packet_body pkt path now pt ot = (mp_payload pkt, mp_source_time pkt, now, pt, ot, path_bit path,
     mp_frag pkt, mp_virt_src_port pkt, mp_virt_dst_port pkt)"

lemma fill_slot_of: "fill_slot pkt path now pt ot = slot_of (mp_seq pkt) (packet_body pkt path now pt ot)"
  by (simp add: fill_slot_def slot_of_def packet_body_def)

text \<open>A copy of a held packet: same number and source time.\<close>

definition is_copy :: "flow \<Rightarrow> media_packet \<Rightarrow> bool" where
  "is_copy f pkt \<longleftrightarrow> (\<exists>b. rx_lookup (rx_of f) (mp_seq pkt) = Some b \<and> fst (snd b) = mp_source_time pkt)"

lemma is_copy_iff:
  "is_copy f pkt \<longleftrightarrow>
     (let s = ring_of f ! ring_index (rv_mask (fl_receiver f)) (mp_seq pkt)
      in slot_holds s (mp_seq pkt) \<and> sl_source_time s = mp_source_time pkt)"
  by (auto simp: is_copy_def rx_lookup_def rx_of_def body_of_def Let_def)

lemma add_missing_received:
  "add_missing f now path m nt = Some g \<Longrightarrow> st_received (fl_stats g) = st_received (fl_stats f)"
  by (auto simp: add_missing_def Let_def split: bind_splits)

lemma mark_walk_received:
  "mark_walk f now path m current nt ip count n = Some g \<Longrightarrow>
   st_received (fl_stats g) = st_received (fl_stats f)"
proof (induction f now path m current nt ip count n rule: mark_walk.induct)
  case (1 f now path m current nt ip count n)
  from "1.prems" show ?case
    using "1.IH" add_missing_received
    by (fastforce simp: mark_walk.simps [of f now path m current nt ip count n] Let_def
        split: if_splits option.splits)
qed

lemma note_arrival_received:
  "note_arrival f now path pkt pt late = Some g \<Longrightarrow> st_received (fl_stats g) = st_received (fl_stats f)"
  by (auto simp: note_arrival_def mark_missing_def Let_def split: if_splits bind_splits
      dest!: mark_walk_received)

text \<open>An accepted packet is buffered and only it. A packet at or after the playout cursor that is
  no copy of a held one is filed under its number with its payload, source time, role and ports, to
  be played out a recovery buffer after its packet time; it counts as received once; and a packet
  held under any other number less than a ring away is still held, unchanged.\<close>

theorem accepted_packet_buffered:
  assumes "recv_ok (fl_receiver f)" "rv_started (fl_receiver f)" "cfg_ok (fl_cfg f)"
    "\<not> seq_less (mp_seq pkt) (rv_deliver_next (fl_receiver f))" "\<not> is_copy f pkt"
    "0 < k" "k < length (rv_ring (fl_receiver f))"
  shows "\<exists>g. recv_insert f now path pkt pt late = Some g
    \<and> rx_lookup (rx_of g) (mp_seq pkt)
        = Some (packet_body pkt path now pt (ts_add pt (fl_recovery_buffer f)))
    \<and> rx_lookup (rx_of g) (mp_seq pkt + of_nat k) = rx_lookup (rx_of f) (mp_seq pkt + of_nat k)
    \<and> st_received (fl_stats g) = st_received (fl_stats f) + 1"
proof -
  let ?r = "fl_receiver f"
  let ?idx = "ring_index (rv_mask ?r) (mp_seq pkt)"
  let ?ot = "ts_add pt (fl_recovery_buffer f)"
  note geo = recv_okD(1) [OF assms(1,2)]
  have get: "vec_get (ring_of f) ?idx = Some (ring_of f ! ?idx)" using geo by (simp add: ring_index_less)
  have nodup: "\<not> (slot_holds (ring_of f ! ?idx) (mp_seq pkt)
      \<and> sl_source_time (ring_of f ! ?idx) = mp_source_time pkt)"
    using assms(5) by (simp add: is_copy_iff Let_def)
  obtain g where g: "recv_insert f now path pkt pt late = Some g"
    using recv_insert_ok [OF assms(1-4)] by blast
  define f2 where "f2 = upd_recv (\<lambda>r. r\<lparr>rv_ring := (rv_ring r)[?idx := fill_slot pkt path now pt ?ot],
      rv_highest := (if seq_less (rv_highest r) (mp_seq pkt) then mp_seq pkt else rv_highest r),
      rv_last_path := path\<rparr>)
    (upd_stats (\<lambda>st. (count_received pkt st)
      \<lparr>st_overwritten := st_overwritten st + (if sl_state (ring_of f ! ?idx) = Filled then 1 else 0),
       st_reordered := st_reordered st + (if late then 1 else 0)\<rparr>) f)"
  have "recv_insert f now path pkt pt late =
      (case note_arrival f2 now path pkt pt late of
         None \<Rightarrow> None | Some f3 \<Rightarrow> Some (schedule_nack now (arm_playout ?ot f3)))"
    using get nodup unfolding f2_def
    by (simp add: recv_insert_def Let_def split: option.splits) auto
  with g obtain f3 where f3: "note_arrival f2 now path pkt pt late = Some f3"
    "g = schedule_nack now (arm_playout ?ot f3)" by (auto split: option.splits)
  have geo2: "ring_geometry (ring_of f2) (rv_mask (fl_receiver f2))" "cfg_ok (fl_cfg f2)"
    using geo assms(3) by (simp_all add: f2_def)
  have "core_same f2 f3" using note_arrival_ok [OF geo2(2,1)] f3(1) by (metis option.inject)
  then have "core_same f2 g"
    using f3(2) core_same_trans core_same_arm core_same_schedule by blast
  then have rx: "rx_of g = rx_store (rx_of f) (mp_seq pkt) (packet_body pkt path now pt ?ot)"
    by (simp add: core_same_def rx_of_def rx_store_def f2_def fill_slot_of)
  have ok: "rx_ok (rx_of f)" "k < rx_slots (rx_of f)"
    using geo assms(7) by (simp_all add: rx_ok_def rx_of_def rx_slots_def)
  have "st_received (fl_stats g) = st_received (fl_stats f) + 1"
    using note_arrival_received [OF f3(1)] f3(2)
    by (simp add: f2_def count_received_def schedule_nack_def)
  with g rx reorder.lookup_store [OF ok(1)]
    reorder.lookup_other [OF ok(1) reorder.slot_apart [OF ok(1) assms(6) ok(2)]]
  show ?thesis by simp
qed

theorem accepted_packet_buffered_witness:
  "\<exists>g. recv_insert sample_gap_flow 5 0 sample_packet 5 False = Some g
    \<and> rx_lookup (rx_of g) (mp_seq sample_packet)
        = Some (packet_body sample_packet 0 5 5 (ts_add 5 (fl_recovery_buffer sample_gap_flow)))
    \<and> rx_lookup (rx_of g) (mp_seq sample_packet + of_nat 3)
        = rx_lookup (rx_of sample_gap_flow) (mp_seq sample_packet + of_nat 3)
    \<and> st_received (fl_stats g) = st_received (fl_stats sample_gap_flow) + 1"
proof (rule accepted_packet_buffered)
  show "\<not> seq_less (mp_seq sample_packet) (rv_deliver_next (fl_receiver sample_gap_flow))"
    by (simp add: sample_gap_facts sample_packet_def sample_flow_def receiver_new_def seq_less_iff
        seq_raw_gap_def unsigned_minus_1_eq_mask mask_eq_exp_minus_1)
  show "\<not> is_copy sample_gap_flow sample_packet"
    by (simp add: sample_gap_facts sample_packet_def sample_flow_def receiver_new_def is_copy_iff
        ring_index_def ring_mask_def slot_default_def slot_holds_def)
qed (simp_all add: sample_gap_facts librist_cfg_ok sample_flow_ok)

text \<open>The multipath merge. A packet whose number and source time are already held changes nothing
  but two counters and the paths seen: the held packet, the missing queue, the cursor, the events,
  the outputs and the timers stay as they are.\<close>

theorem copy_only_counted:
  assumes "recv_ok (fl_receiver f)" "is_copy f pkt"
  shows "\<exists>g p. recv_insert f now path pkt pt late = Some g
    \<and> g = upd_stats (\<lambda>st. st\<lparr>st_duplicates := st_duplicates st + 1\<rparr>)
            (upd_recv (\<lambda>r. r\<lparr>rv_ring := (rv_ring r)[ring_index (rv_mask r) (mp_seq pkt) :=
               (rv_ring r ! ring_index (rv_mask r) (mp_seq pkt))\<lparr>sl_path_seen := p\<rparr>]\<rparr>) f)"
proof -
  let ?idx = "ring_index (rv_mask (fl_receiver f)) (mp_seq pkt)"
  have "?idx < length (ring_of f)" using recv_ok_geometry [OF assms(1)] by (rule ring_index_less)
  then have get: "vec_get (ring_of f) ?idx = Some (ring_of f ! ?idx)" by simp
  have "slot_holds (ring_of f ! ?idx) (mp_seq pkt) \<and> sl_source_time (ring_of f ! ?idx) = mp_source_time pkt"
    using assms(2) by (simp add: is_copy_iff Let_def)
  with get have "recv_insert f now path pkt pt late = Some
      (upd_stats (\<lambda>st. st\<lparr>st_duplicates := st_duplicates st + 1\<rparr>)
        (upd_recv (\<lambda>r. r\<lparr>rv_ring := (rv_ring r)[ring_index (rv_mask r) (mp_seq pkt) :=
           (rv_ring r ! ring_index (rv_mask r) (mp_seq pkt))
             \<lparr>sl_path_seen := sl_path_seen (ring_of f ! ?idx) OR path_bit path\<rparr>]\<rparr>) f))"
    by (simp add: recv_insert_def Let_def upd_recv_def upd_stats_def)
  then show ?thesis by blast
qed

theorem copy_only_counted_witness:
  "\<exists>g p. recv_insert sample_gap_flow 5 3 (sample_packet\<lparr>mp_seq := 2, mp_source_time := 0\<rparr>) 5 False = Some g
    \<and> g = upd_stats (\<lambda>st. st\<lparr>st_duplicates := st_duplicates st + 1\<rparr>)
            (upd_recv (\<lambda>r. r\<lparr>rv_ring := (rv_ring r)
               [ring_index (rv_mask r) (mp_seq (sample_packet\<lparr>mp_seq := 2, mp_source_time := 0\<rparr>)) :=
               (rv_ring r ! ring_index (rv_mask r) (mp_seq (sample_packet\<lparr>mp_seq := 2, mp_source_time := 0\<rparr>)))
                 \<lparr>sl_path_seen := p\<rparr>]\<rparr>) sample_gap_flow)"
proof (rule copy_only_counted)
  show "is_copy sample_gap_flow (sample_packet\<lparr>mp_seq := 2, mp_source_time := 0\<rparr>)"
    by (simp add: sample_gap_facts sample_packet_def sample_flow_def receiver_new_def is_copy_iff
        ring_index_def ring_mask_def slot_default_def slot_holds_def sample_slot_def)
qed (simp add: sample_gap_facts sample_flow_ok)

section \<open>Buffered packets come out\<close>

lemma filled_has_offset:
  assumes "recv_ok r" "rv_started r" "window r \<le> length (rv_ring r)"
    "i < length (rv_ring r)" "sl_state (rv_ring r ! i) = Filled"
  shows "\<exists>j < window r. held_at r j \<and> ring_index (rv_mask r) (rv_deliver_next r + of_nat j) = i"
proof -
  let ?j = "unat (sl_seq (rv_ring r ! i) - rv_deliver_next r)"
  have "ring_index (rv_mask r) (sl_seq (rv_ring r ! i)) = i" "?j < window r"
    using recv_okD(3) [OF assms(1,2)] assms(4,5) by (auto simp: slots_placed_def)
  moreover have "rv_deliver_next r + of_nat ?j = sl_seq (rv_ring r ! i)" by simp
  ultimately show ?thesis
    using assms(5) by (intro exI [of _ ?j]) (simp add: held_at_def slot_holds_def)
qed

text \<open>When every buffered packet is due a settled receiver holds none.\<close>

lemma settled_drained:
  assumes ok: "recv_ok r" "rv_started r" "window r \<le> length (rv_ring r)" "settled r now"
    and due: "\<And>s. s \<in> set (rv_ring r) \<Longrightarrow> sl_state s = Filled \<Longrightarrow> sl_output_time s \<le> now"
  shows "filled_count (rv_ring r) = 0"
proof -
  have "\<not> held_at r j" if j: "j < window r" for j
  proof
    assume held: "held_at r j"
    have "j \<le> length (rv_ring r)" using j ok(3) by linarith
    then obtain j0 where j0: "held_at r j0" "now < output_time_at r j0"
      using ok(4) j held unfolding settled_def by blast
    have "ring_index (rv_mask r) (rv_deliver_next r + of_nat j0) < length (rv_ring r)"
      using recv_ok_geometry [OF ok(1)] by (rule ring_index_less)
    with due j0 show False
      by (auto simp: held_at_def slot_holds_def output_time_at_def dest!: nth_mem)
         (metis leD)
  qed
  then have "sl_state (rv_ring r ! i) \<noteq> Filled" if "i < length (rv_ring r)" for i
    using filled_has_offset [OF ok(1-3) that] by blast
  then show ?thesis by (auto simp: filled_count_def filter_empty_conv in_set_conv_nth)
qed

lemma drains_due:
  assumes "recv_ok (fl_receiver f)" "rv_started (fl_receiver f)"
    "window (fl_receiver f) \<le> length (rv_ring (fl_receiver f))"
    "\<forall>s \<in> set (rv_ring (fl_receiver f)). sl_state s = Filled \<longrightarrow> sl_output_time s \<le> now"
  shows "\<exists>g. deliver_due f now = Some g \<and> playout_step f now g
    \<and> filled_count (rv_ring (fl_receiver g)) = 0
    \<and> st_delivered (fl_stats g) = st_delivered (fl_stats f) + filled_count (rv_ring (fl_receiver f))"
proof -
  obtain g where g: "deliver_due f now = Some g" "playout_step f now g" "settled (fl_receiver g) now"
    using deliver_due_step [OF assms(1)] assms(2) by blast
  have ok: "recv_ok (fl_receiver g)" "rv_started (fl_receiver g)"
    and keep: "window (fl_receiver g) \<le> length (ring_of g)"
      "filled_count (ring_of g) + st_delivered (fl_stats g)
        = filled_count (ring_of f) + st_delivered (fl_stats f)"
    and old: "\<forall>s \<in> set (ring_of g). sl_state s = Filled \<longrightarrow> s \<in> set (ring_of f)"
    using g(2) assms(2,3)
    by (auto simp: playout_step_def playout_frame_def keeps_buffered_def delivers_def playout_post_def)
  have "filled_count (ring_of g) = 0"
    using settled_drained [OF ok keep(1) g(3)] old assms(4) by blast
  with g(1,2) keep(2) show ?thesis by simp
qed

text \<open>Nothing buffered is left behind. On an anchored receiver whose window fits the ring, a
  playout call made when every buffered packet is due delivers all of them: none stays buffered and
  the delivered counter grows by exactly the number that were.\<close>

theorem playout_drains_due:
  assumes "recv_ok (fl_receiver f)" "rv_started (fl_receiver f)"
    "window (fl_receiver f) \<le> length (rv_ring (fl_receiver f))"
    "\<forall>s \<in> set (rv_ring (fl_receiver f)). sl_state s = Filled \<longrightarrow> sl_output_time s \<le> now"
  shows "\<exists>g. deliver_due f now = Some g \<and> filled_count (rv_ring (fl_receiver g)) = 0
    \<and> st_delivered (fl_stats g) = st_delivered (fl_stats f) + filled_count (rv_ring (fl_receiver f))"
  using drains_due [OF assms] by blast

theorem playout_drains_due_witness:
  "\<exists>g. deliver_due sample_flow 30 = Some g \<and> filled_count (rv_ring (fl_receiver g)) = 0
    \<and> st_delivered (fl_stats g)
      = st_delivered (fl_stats sample_flow) + filled_count (rv_ring (fl_receiver sample_flow))"
proof (rule playout_drains_due)
  show "\<forall>s \<in> set (rv_ring (fl_receiver sample_flow)). sl_state s = Filled \<longrightarrow> sl_output_time s \<le> 30"
    by (simp add: sample_flow_def receiver_new_def sample_slot_def slot_default_def)
qed (simp_all add: sample_flow_ok)

section \<open>From the wire to the application\<close>

lemma start_ring:
  assumes "ring_geometry (ring_of f) (rv_mask (fl_receiver f))" "start f now path pkt = Some g"
  shows "ring_of g = (ring_of f)[ring_index (rv_mask (fl_receiver f)) (mp_seq pkt) :=
      fill_slot pkt path now now (ts_add now (fl_recovery_buffer f))]"
  using assms(2) by (auto simp: start_def ring_slot_panic_free [OF assms(1)] Let_def split: if_splits)

lemma filled_count_one:
  "(\<And>j. j < length xs \<Longrightarrow> sl_state (xs ! j) = Filled \<longleftrightarrow> j = i) \<Longrightarrow> i < length xs \<Longrightarrow> filled_count xs = 1"
proof -
  assume a: "\<And>j. j < length xs \<Longrightarrow> sl_state (xs ! j) = Filled \<longleftrightarrow> j = i" "i < length xs"
  then have "{j. j < length xs \<and> sl_state (xs ! j) = Filled} = {i}" by auto
  then show ?thesis by (simp add: filled_count_def length_filter_conv_card)
qed

lemma start_buffers_one:
  assumes "recv_ok (fl_receiver f)" "\<not> rv_started (fl_receiver f)" "start f now path pkt = Some g"
  shows "filled_count (ring_of g) = 1"
    "s \<in> set (ring_of g) \<Longrightarrow> sl_state s = Filled \<Longrightarrow>
       s = fill_slot pkt path now now (ts_add now (fl_recovery_buffer f))"
proof -
  let ?i = "ring_index (rv_mask (fl_receiver f)) (mp_seq pkt)"
  let ?x = "fill_slot pkt path now now (ts_add now (fl_recovery_buffer f))"
  note geo = recv_ok_geometry [OF assms(1)]
  have empty: "\<forall>s \<in> set (ring_of f). sl_state s = Empty" using assms(1,2) by (simp add: recv_ok_def)
  have i: "?i < length (ring_of f)" using geo by (rule ring_index_less)
  note ring = start_ring [OF geo assms(3)]
  show "filled_count (ring_of g) = 1"
  proof (rule filled_count_one [of _ ?i])
    fix j assume "j < length (ring_of g)"
    then show "sl_state (ring_of g ! j) = Filled \<longleftrightarrow> j = ?i"
      using empty i by (cases "j = ?i") (auto simp: ring fill_slot_def)
  qed (simp add: ring i)
  show "s = ?x" if "s \<in> set (ring_of g)" "sl_state s = Filled"
    using that empty set_update_subset_insert [of "ring_of f" ?i ?x] by (auto simp: ring)
qed

text \<open>From the wire to the application. A receiver that is not anchored, fed its first fresh
  packet, hands exactly that packet (number, payload, source time, framing role) to the application
  when its playout timer fires a recovery buffer later.\<close>

theorem first_packet_reaches_application:
  assumes "flow_ok f" "fl_role f = Receiver" "\<not> rv_started (fl_receiver f)" "\<not> mp_retransmit pkt"
    "ts_add now (fl_recovery_buffer f) \<le> later"
  shows "\<exists>g h e. feed f now path pkt = Some g \<and> handle_timer g later Playout = Some h
    \<and> fl_events h = fl_events f @ [e] \<and> ev_seq e = mp_seq pkt \<and> ev_payload e = mp_payload pkt
    \<and> ev_source_time e = mp_source_time pkt \<and> ev_frag e = mp_frag pkt"
proof -
  define f1 where "f1 = sample_arrival_spacing now f"
  have same: "core_same f f1" by (simp add: f1_def frame)
  have f1: "recv_ok (fl_receiver f1)" "\<not> rv_started (fl_receiver f1)" "fl_events f1 = fl_events f"
    "fl_recovery_buffer f1 = fl_recovery_buffer f"
    using same assms(1,3) core_same_recv_ok [OF same] by (simp_all add: core_same_def flow_ok_def)
  have "check_framing now pkt (check_flow_id pkt f1) = f1"
    using f1(2) by (simp add: check_framing_def check_flow_id_def)
  then have feed: "feed f now path pkt = start f1 now path pkt"
    using assms(2,4) f1(2) by (simp add: feed_def recv_feed_def f1_def)
  from start_ok [OF f1(1,2)] obtain g where
    g: "start f1 now path pkt = Some g" "recv_ok (fl_receiver g)" "feed_frame f1 g"
      "rv_started (fl_receiver g)" "window (fl_receiver g) = 1" by blast
  note one = start_buffers_one [OF f1(1,2) g(1)]
  define g1 where "g1 = upd_recv (\<lambda>r. r\<lparr>rv_playout_armed := False\<rparr>) g"
  have g1: "core_same g g1" unfolding g1_def by (rule core_same_recv) simp_all
  have ring: "ring_of g1 = ring_of g" using g1 by (simp add: core_same_def)
  have ok1: "recv_ok (fl_receiver g1)" "rv_started (fl_receiver g1)"
    "window (fl_receiver g1) \<le> length (ring_of g1)"
    using g(2,4,5) core_same_recv_ok [OF g1] ring_geometry_pos [OF recv_ok_geometry [OF g(2)]]
    by (simp_all add: g1_def window_def Suc_le_eq)
  have due: "\<forall>s \<in> set (ring_of g1). sl_state s = Filled \<longrightarrow> sl_output_time s \<le> later"
  proof (intro ballI impI)
    fix s assume "s \<in> set (ring_of g1)" "sl_state s = Filled"
    then have "s = fill_slot pkt path now now (ts_add now (fl_recovery_buffer f1))"
      using one(2) by (simp only: ring)
    then show "sl_output_time s \<le> later" using assms(5) f1(4) by (simp add: fill_slot_def)
  qed
  from drains_due [OF ok1 due] obtain h where h: "deliver_due g1 later = Some h"
    "playout_step g1 later h" "st_delivered (fl_stats h) = st_delivered (fl_stats g1) + 1"
    using one(1) by (auto simp: ring)
  then obtain evs offs adv where post: "playout_post g1 later h evs offs adv"
    unfolding playout_step_def delivers_def by blast
  then have "length offs = 1" "map ev_seq evs = map (\<lambda>j. cursor_of g1 + of_nat j) offs"
    using h(3) by (simp_all add: playout_post_def)
  then have "length evs = 1" by (metis length_map)
  then obtain e where e: "evs = [e]" by (auto simp: length_Suc_conv)
  have "\<exists>s \<in> set (ring_of g1). from_slot later e s" using post e by (simp add: playout_post_def)
  then have "from_slot later e (fill_slot pkt path now now (ts_add now (fl_recovery_buffer f1)))"
    using one(2) ring unfolding from_slot_def slot_holds_def by metis
  then have "ev_seq e = mp_seq pkt" "ev_payload e = mp_payload pkt"
    "ev_source_time e = mp_source_time pkt" "ev_frag e = mp_frag pkt"
    by (simp_all add: from_slot_def slot_holds_def fill_slot_def)
  moreover have "fl_events h = fl_events f @ [e]"
    using post e g(3) f1(3) g1 by (simp add: playout_post_def feed_frame_def core_same_def)
  moreover have "handle_timer g later Playout = Some h"
    using h(1) g(3) same assms(2) by (simp add: handle_timer_def g1_def feed_frame_def core_same_def)
  ultimately show ?thesis using feed g(1) by metis
qed

theorem first_packet_reaches_application_witness:
  "\<exists>g h e. feed (flow_new Receiver librist_defaults) 50 0 (sample_packet\<lparr>mp_retransmit := False\<rparr>) = Some g
    \<and> handle_timer g 1000050 Playout = Some h
    \<and> fl_events h = fl_events (flow_new Receiver librist_defaults) @ [e]
    \<and> ev_seq e = mp_seq (sample_packet\<lparr>mp_retransmit := False\<rparr>)
    \<and> ev_payload e = mp_payload (sample_packet\<lparr>mp_retransmit := False\<rparr>)
    \<and> ev_source_time e = mp_source_time (sample_packet\<lparr>mp_retransmit := False\<rparr>)
    \<and> ev_frag e = mp_frag (sample_packet\<lparr>mp_retransmit := False\<rparr>)"
proof (rule first_packet_reaches_application)
  show "flow_ok (flow_new Receiver librist_defaults)"
    by (rule flow_new_ok [OF librist_cfg_ok]) (simp add: librist_defaults_def default_ring_size_def)
  show "\<not> rv_started (fl_receiver (flow_new Receiver librist_defaults))"
    by (simp add: flow_new_def Let_def receiver_new_def librist_defaults_def)
  show "ts_add 50 (fl_recovery_buffer (flow_new Receiver librist_defaults)) \<le> 1000050"
    by (simp add: flow_new_def Let_def recovery_buffer_of_def micros_sub_def micros_add_def ts_add_def
        librist_defaults_def micros_from_millis_def trunc_div_def)
qed (simp_all add: flow_new_def Let_def)

section \<open>The recovery-buffer scaling\<close>

definition scale_ok :: "flow \<Rightarrow> bool" where
  "scale_ok f \<longleftrightarrow> recovery_buffer_min (fl_cfg f) \<le> fl_recovery_buffer f
     \<and> fl_recovery_buffer f \<le> recovery_buffer_max (fl_cfg f)
     \<and> (rv_sender_max_buffer (fl_receiver f) = 0
        \<or> recovery_buffer_min (fl_cfg f) \<le> rv_sender_max_buffer (fl_receiver f))"

text \<open>The recovery buffer stays in its window. A recalculation returns and keeps the buffer
  between the configured bounds; a new value never exceeds what the sender retains, and its 110 percent threshold is set
  with it; a negotiated maximum below the configured minimum switches the scaling off.\<close>

theorem buffer_scaling_in_range:
  assumes "cfg_ok (fl_cfg f)" "scale_ok f"
  shows "\<exists>g. auto_scale_buffer f = Some g \<and> scale_ok g \<and> scale_ok (set_sender_max_buffer f d)
    \<and> (fl_recovery_buffer g = fl_recovery_buffer f
       \<or> fl_recovery_buffer g \<le> rv_sender_max_buffer (fl_receiver f)
         \<and> fl_recovery_buffer_110 g = mul_1_1 (fl_recovery_buffer g))"
proof -
  have max: "scale_ok (set_sender_max_buffer f d)"
    using assms(2) by (simp add: scale_ok_def set_sender_max_buffer_def Let_def not_less)
  let ?f = "upd_recv (\<lambda>r. r\<lparr>rv_buffer_time_sum := wrap_i64 (rv_buffer_time_sum r + fl_recovery_buffer f),
      rv_buffer_time_samples := rv_buffer_time_samples r + 1\<rparr>) f"
  let ?m = "rv_sender_max_buffer (fl_receiver f)"
  have ok: "scale_ok ?f" using assms(2) by (simp add: scale_ok_def)
  show ?thesis
  proof (cases "fl_role f \<noteq> Receiver \<or> rtt_multiplier (fl_cfg f) = 0
      \<or> recovery_buffer_min (fl_cfg f) = recovery_buffer_max (fl_cfg f) \<or> ?m \<le> 0")
    case True
    then have "auto_scale_buffer f = Some (if fl_role f \<noteq> Receiver then f else ?f)"
      by (auto simp: auto_scale_buffer_def Let_def)
    then show ?thesis using ok assms(2) max by simp
  next
    case False
    let ?lo = "recovery_buffer_min (fl_cfg f)" and ?hi = "recovery_buffer_max (fl_cfg f)"
    have "?lo \<le> ?hi" using assms(1) by (simp add: cfg_ok_def)
    define c where "c = (if desired_buffer ?f < ?lo then ?lo
        else if ?hi < desired_buffer ?f then ?hi else desired_buffer ?f)"
    have c: "clamp_range (desired_buffer ?f) ?lo ?hi = Some c"
      using \<open>?lo \<le> ?hi\<close> by (simp add: clamp_range_def c_def)
    define b where "b = (if ?m < c then ?m else c)"
    have b: "?lo \<le> b" "b \<le> ?hi" "b \<le> ?m"
      using clamp_range_bounds [OF c] assms(2) False by (auto simp: b_def scale_ok_def)
    have "auto_scale_buffer f = Some (upd_recv (\<lambda>r. r\<lparr>rv_loss_snap := st_lost (fl_stats ?f),
          rv_recovered_snap := st_recovered (fl_stats ?f)\<rparr>)
        (?f\<lparr>fl_recovery_buffer := b, fl_recovery_buffer_110 := mul_1_1 b\<rparr>))"
      using False c by (simp add: auto_scale_buffer_def Let_def b_def)
    then show ?thesis using b max assms(2) by (simp add: scale_ok_def upd_recv_def)
  qed
qed

theorem buffer_scaling_in_range_witness:
  "\<exists>g. auto_scale_buffer sample_gap_flow = Some g \<and> scale_ok g
    \<and> scale_ok (set_sender_max_buffer sample_gap_flow 7)
    \<and> (fl_recovery_buffer g = fl_recovery_buffer sample_gap_flow
       \<or> fl_recovery_buffer g \<le> rv_sender_max_buffer (fl_receiver sample_gap_flow)
         \<and> fl_recovery_buffer_110 g = mul_1_1 (fl_recovery_buffer g))"
proof (rule buffer_scaling_in_range)
  show "scale_ok sample_gap_flow"
    by (simp add: scale_ok_def sample_gap_flow_def sample_flow_def receiver_new_def flow_new_def Let_def
        recovery_buffer_of_def micros_sub_def micros_add_def librist_defaults_def
        micros_from_millis_def trunc_div_def)
qed (simp add: sample_gap_facts librist_cfg_ok)

end
