(* ===== verification/Ring_Lap.thy ===== *)
theory Ring_Lap
  imports Recv_Props
begin

text \<open>
  The limit of the reorder ring. Skipping a whole ring empties every slot by index aliasing, the
  slot of the packet skipped to among them, so a packet exactly one ring ahead of the cursor is
  received and then lost.
\<close>

lemma find_ahead_first:
  assumes "ring_geometry ring mk" "k \<le> j" "j \<le> limit"
    "\<And>i. k \<le> i \<Longrightarrow> i < j \<Longrightarrow>
       \<not> slot_holds (ring ! ring_index mk (cursor + of_nat i)) (cursor + of_nat i)"
    "slot_holds (ring ! ring_index mk (cursor + of_nat j)) (cursor + of_nat j)"
  shows "find_ahead ring mk cursor k limit = Some (Some (cursor + of_nat j))"
  using assms(2,4)
proof (induction "j - k" arbitrary: k)
  case 0
  then show ?case
    using assms(3,5) ring_slot_panic_free [OF assms(1)]
    by (simp add: find_ahead.simps [of ring mk cursor k limit])
next
  case (Suc n)
  then have "find_ahead ring mk cursor (k + 1) limit = Some (Some (cursor + of_nat j))"
    by (intro Suc.hyps(1)) simp_all
  moreover have "\<not> slot_holds (ring ! ring_index mk (cursor + of_nat k)) (cursor + of_nat k)"
    using Suc by simp
  moreover have "k \<le> limit" using Suc.hyps(2) assms(3) by simp
  ultimately show ?case
    using ring_slot_panic_free [OF assms(1)] by (simp add: find_ahead.simps [of ring mk cursor k limit])
qed

text \<open>A skip of a ring visits every index.\<close>

lemma ring_visits_all:
  assumes "ring_geometry ring mk" "i < length ring"
  shows "\<exists>j < length ring. ring_index mk (c + of_nat j) = i"
proof -
  let ?n = "length ring" and ?b = "ring_index mk c"
  have b: "?b < ?n" using assms(1) by (rule ring_index_less)
  define j where "j = (if ?b \<le> i then i - ?b else i + ?n - ?b)"
  have "j < ?n" "(?b + j) mod ?n = i" using b assms(2) by (auto simp: j_def)
  then show ?thesis using ring_index_add [OF assms(1), of c j] by auto
qed

lemma skip_ring_empties:
  assumes "ring_geometry (ring_of f) (rv_mask (fl_receiver f))"
  shows "\<exists>g. skip_to f (cursor_of f + of_nat (length (ring_of f))) = Some g
    \<and> (\<forall>i < length (ring_of g). sl_state (ring_of g ! i) = Empty) \<and> playout_frame f g
    \<and> cursor_of g = cursor_of f + of_nat (length (ring_of f))
    \<and> st_delivered (fl_stats g) = st_delivered (fl_stats f)
    \<and> st_lost (fl_stats g) = st_lost (fl_stats f) + length (ring_of f) \<and> fl_events g = fl_events f"
proof -
  let ?n = "length (ring_of f)"
  have "?n < 2 ^ 32" using ring_geometry_bound [OF assms] by simp
  then have gap: "unat (cursor_of f + of_nat ?n - cursor_of f) = ?n" by (simp add: unat_of_nat)
  obtain ring where ring:
    "skip_clear (ring_of f) (rv_mask (fl_receiver f)) (cursor_of f) (cursor_of f + of_nat ?n) = Some ring"
    "length ring = ?n"
    "\<And>i. i < ?n \<Longrightarrow> ring ! i =
       (if \<exists>j < ?n. ring_index (rv_mask (fl_receiver f)) (cursor_of f + of_nat j) = i
        then slot_clear (ring_of f ! i) else ring_of f ! i)"
    using skip_clear_char [OF assms, of "cursor_of f" "cursor_of f + of_nat ?n"] unfolding gap by blast
  have "sl_state (ring ! i) = Empty" if "i < ?n" for i
    using ring(3) [OF that] ring_visits_all [OF assms that, of "cursor_of f"] by simp
  then show ?thesis
    using ring(1,2) gap by (simp add: skip_to_def Let_def playout_frame_def)
qed

text \<open>C29: a packet exactly one ring ahead of the playout cursor is lost although it was received. When
  nothing nearer is buffered and it is due, the playout call that finds it skips to it, empties its
  slot with the others and delivers nothing; the numbers before it are counted lost, it is not.\<close>

theorem ring_lap_loses_packet:
  assumes "recv_ok (fl_receiver f)" "rv_started (fl_receiver f)"
    "rv_highest (fl_receiver f) = rv_deliver_next (fl_receiver f) + of_nat (length (rv_ring (fl_receiver f)))"
    "\<forall>j < length (rv_ring (fl_receiver f)). \<not> held_at (fl_receiver f) j"
    "held_at (fl_receiver f) (length (rv_ring (fl_receiver f)))"
    "output_time_at (fl_receiver f) (length (rv_ring (fl_receiver f))) \<le> now"
  shows "\<exists>g. deliver_due f now = Some g \<and> filled_count (rv_ring (fl_receiver g)) = 0
    \<and> fl_events g = fl_events f \<and> st_delivered (fl_stats g) = st_delivered (fl_stats f)
    \<and> st_lost (fl_stats g) = st_lost (fl_stats f) + length (rv_ring (fl_receiver f))"
proof -
  let ?r = "fl_receiver f" and ?n = "length (ring_of f)"
  note geo = recv_okD(1) [OF assms(1,2)]
  have n: "0 < ?n" "?n \<le> 2 ^ 31" using ring_geometry_pos [OF geo] ring_geometry_bound [OF geo] by simp_all
  have "unat (of_nat ?n :: u32) = ?n" using n(2) by (simp add: unat_of_nat)
  then have dist: "seq_distance (cursor_of f) (rv_highest ?r) = int ?n"
    using n(2) by (simp add: assms(3) seq_distance_eq seq_raw_gap_def)
  obtain g where g: "skip_to f (cursor_of f + of_nat ?n) = Some g"
    "\<forall>i < length (ring_of g). sl_state (ring_of g ! i) = Empty" "playout_frame f g"
    "cursor_of g = cursor_of f + of_nat ?n" "st_delivered (fl_stats g) = st_delivered (fl_stats f)"
    "st_lost (fl_stats g) = st_lost (fl_stats f) + ?n" "fl_events g = fl_events f"
    using skip_ring_empties [OF geo] by blast
  have "find_ahead (ring_of f) (rv_mask ?r) (cursor_of f) 1 ?n = Some (Some (cursor_of f + of_nat ?n))"
    using assms(4,5) n(1) by (intro find_ahead_first [OF geo]) (simp_all add: held_at_def Suc_le_eq)
  then have "deliver_loop f now = deliver_loop g now"
    using deliver_loop_hole(2) [OF geo, of "Some (cursor_of f + of_nat ?n)" now] assms(4,6) n(1) g(1) dist
    by (simp add: output_time_at_def)
  moreover have geo': "ring_geometry (ring_of g) (rv_mask (fl_receiver g))"
    using geo g(3) ring_geometry_length [of "ring_of g" "ring_of f"] by (simp add: playout_frame_def)
  moreover have "\<not> held_at (fl_receiver g) 0"
    using g(2) ring_index_less [OF geo'] by (simp add: held_at_def slot_holds_def)
  moreover have "seq_distance (cursor_of g) (rv_highest (fl_receiver g)) \<le> 0"
    using g(3,4) assms(3) by (simp add: playout_frame_def)
  ultimately have "deliver_due f now = Some (disarm_playout g)"
    using deliver_loop_hole(1) [OF geo'] assms(2) by (simp add: deliver_due_def)
  moreover have "filled_count (ring_of g) = 0"
    using g(2) by (auto simp: filled_count_def filter_empty_conv in_set_conv_nth)
  ultimately show ?thesis using g(5-7) by simp
qed

text \<open>Number 1 is due, number 5 was received into the slot they share.\<close>

definition lap_flow :: flow where
  "lap_flow = (flow_new Receiver librist_defaults)\<lparr>fl_receiver :=
     (receiver_new 4)\<lparr>rv_started := True, rv_highest := 5, rv_deliver_next := 1,
       rv_ring := [slot_default, sample_slot 5 10, slot_default, slot_default]\<rparr>\<rparr>"

theorem ring_lap_loses_packet_witness:
  "\<exists>g. deliver_due lap_flow 10 = Some g \<and> filled_count (rv_ring (fl_receiver g)) = 0
    \<and> fl_events g = fl_events lap_flow \<and> st_delivered (fl_stats g) = st_delivered (fl_stats lap_flow)
    \<and> st_lost (fl_stats g) = st_lost (fl_stats lap_flow) + length (rv_ring (fl_receiver lap_flow))"
proof (rule ring_lap_loses_packet)
  note facts = lap_flow_def receiver_new_def ring_mask_def ring_index_def sample_slot_def slot_default_def
  have len: "length (ring_of lap_flow) = 4" by (simp add: lap_flow_def)
  have "ring_geometry (ring_of lap_flow) (rv_mask (fl_receiver lap_flow))"
    using ring_geometry_mask [of 2 "ring_of lap_flow"] by (simp add: lap_flow_def receiver_new_def numeral_eq_Suc)
  moreover have "slots_placed (fl_receiver lap_flow)"
    unfolding slots_placed_def len all_less_4 by (simp add: facts window_def)
  ultimately show "recv_ok (fl_receiver lap_flow)"
    by (simp add: recv_ok_def window_def) (simp add: facts)
  show "\<forall>j < length (ring_of lap_flow). \<not> held_at (fl_receiver lap_flow) j"
    unfolding len all_less_4 by (simp add: facts held_at_def slot_holds_def)
  show "held_at (fl_receiver lap_flow) (length (ring_of lap_flow))"
    "output_time_at (fl_receiver lap_flow) (length (ring_of lap_flow)) \<le> 10"
    unfolding len by (simp_all add: facts held_at_def slot_holds_def output_time_at_def)
qed (simp_all add: lap_flow_def receiver_new_def)

end
