(* ===== verification/Fec_Types.thy ===== *)
theory Fec_Types
  imports Seq_Arith
begin

text \<open>
  Forward error correction, the shared part (\<^verbatim>\<open>rist-core/src/fec/mod.rs\<close>): the wire variants, the
  matrix configuration, the FEC packet between the XOR logic and the header codec, and the recovered
  packet; and the byte-wise XOR both ends accumulate with.
\<close>

datatype fec_variant = St20221 | St20225

fun base_mask :: "fec_variant \<Rightarrow> u32" where
  "base_mask St20221 = 0x00FFFFFF"
| "base_mask St20225 = 0x0000FFFF"

fun base_span :: "fec_variant \<Rightarrow> u32" where
  "base_span St20221 = push_bit 24 1"
| "base_span St20225 = push_bit 16 1"

datatype fec_direction = Column | Row

record fec_config =
  fc_cols :: nat
  fc_rows :: nat
  fc_column_only :: bool
  fc_variant :: fec_variant

definition matrix_size :: "fec_config \<Rightarrow> nat" where
  "matrix_size c = fc_cols c * fc_rows c"

record fec_packet =
  fp_direction :: fec_direction
  fp_base :: u32
  fp_offset :: u16
  fp_na :: u16
  fp_length_recovery :: u16
  fp_pt_recovery :: u8
  fp_ts_recovery :: u32
  fp_payload :: bytes

record recovered =
  rc_seq :: u32
  rc_timestamp :: u32
  rc_payload_type :: u8
  rc_ssrc :: u32
  rc_payload :: bytes

definition fec_seq_add :: "u32 \<Rightarrow> int \<Rightarrow> u32" where
  "fec_seq_add base off = seq_add base off"

definition fec_seq_diff :: "u32 \<Rightarrow> u32 \<Rightarrow> int" where
  "fec_seq_diff base s = seq_distance base s"

section \<open>XOR accumulation\<close>

text \<open>\<^verbatim>\<open>for (dst, src) in buf.iter_mut().zip(payload) { *dst ^= src }\<close>: the buffer keeps its
  length, a short payload counts as padded with zeros, a long one is clipped.\<close>

fun xor_into :: "bytes \<Rightarrow> bytes \<Rightarrow> bytes" where
  "xor_into (d # ds) (s # ss) = (d XOR s) # xor_into ds ss"
| "xor_into ds ss = ds"

definition byte_at :: "bytes \<Rightarrow> nat \<Rightarrow> u8" where
  "byte_at p i = (if i < length p then p ! i else 0)"

lemma length_xor_into [simp]: "length (xor_into d s) = length d"
  by (induction d s rule: xor_into.induct) simp_all

lemma nth_xor_into: "i < length d \<Longrightarrow> xor_into d s ! i = d ! i XOR byte_at s i"
  by (induction d s arbitrary: i rule: xor_into.induct)
    (auto simp: byte_at_def nth_Cons split: nat.splits)

text \<open>The sum of a group under XOR.\<close>

definition xor_sum :: "('a \<Rightarrow> 'b::len word) \<Rightarrow> 'a list \<Rightarrow> 'b word" where
  "xor_sum g xs = foldr (\<lambda>x acc. g x XOR acc) xs 0"

lemma xor_sum_Nil [simp]: "xor_sum g [] = 0"
  and xor_sum_Cons [simp]: "xor_sum g (x # xs) = g x XOR xor_sum g xs"
  by (simp_all add: xor_sum_def)

lemma xor_cancel [simp]: "(a XOR b) XOR b = a" "b XOR (b XOR a) = a" for a b :: "'a::len word"
  by (simp_all add: xor.assoc)

lemma xor_sum_append [simp]: "xor_sum g (xs @ ys) = xor_sum g xs XOR xor_sum g ys"
  by (induction xs) (simp_all add: xor.assoc)

lemma xor_sum_remove:
  "distinct xs \<Longrightarrow> j \<in> set xs \<Longrightarrow> xor_sum g xs = g j XOR xor_sum g (filter (\<lambda>k. k \<noteq> j) xs)"
proof (induction xs)
  case Nil
  then show ?case by simp
next
  case (Cons x xs)
  show ?case
  proof (cases "x = j")
    case True
    with Cons.prems have "filter (\<lambda>k. k \<noteq> j) xs = xs" by (auto simp: filter_id_conv)
    with True show ?thesis by simp
  next
    case False
    with Cons show ?thesis by (simp add: xor.left_commute)
  qed
qed

text \<open>The one missing term: the sum of all with the sum of the present is the absent one.\<close>

lemma xor_sum_missing:
  "distinct xs \<Longrightarrow> j \<in> set xs \<Longrightarrow>
   xor_sum g xs XOR xor_sum g (filter (\<lambda>k. k \<noteq> j) xs) = g j"
  by (simp add: xor_sum_remove [of xs j g])

end
