(* ===== verification/Fec_Encoder.thy ===== *)
theory Fec_Encoder
  imports Fec_Types
begin

text \<open>
  The FEC sender (\<^verbatim>\<open>rist-core/src/fec/encoder.rs\<close>): one XOR accumulator for the current row and one
  per column, a packet emitted whenever one fills. The lemmas give the state after any number of
  consecutive pushes and hence what each emitted packet protects.
\<close>

record fec_group =
  fg_base :: u32
  fg_collected :: nat
  fg_length_clip :: u16
  fg_pt_clip :: u8
  fg_ts_clip :: u32
  fg_payload_clip :: bytes

definition group_new :: "u32 \<Rightarrow> nat \<Rightarrow> fec_group" where
  "group_new base payload_size =
     \<lparr>fg_base = base, fg_collected = 0, fg_length_clip = 0, fg_pt_clip = 0, fg_ts_clip = 0,
      fg_payload_clip = replicate payload_size 0\<rparr>"

definition group_reset :: "u32 \<Rightarrow> fec_group \<Rightarrow> fec_group" where
  "group_reset base g =
     g\<lparr>fg_base := base, fg_collected := 0, fg_length_clip := 0, fg_pt_clip := 0, fg_ts_clip := 0,
       fg_payload_clip := map (\<lambda>b. 0) (fg_payload_clip g)\<rparr>"

definition group_clip :: "u16 \<Rightarrow> u8 \<Rightarrow> u32 \<Rightarrow> bytes \<Rightarrow> fec_group \<Rightarrow> fec_group" where
  "group_clip len pt ts payload g =
     g\<lparr>fg_length_clip := fg_length_clip g XOR len,
       fg_pt_clip := fg_pt_clip g XOR (pt AND 0x7f),
       fg_ts_clip := fg_ts_clip g XOR ts,
       fg_payload_clip := xor_into (fg_payload_clip g) payload\<rparr>"

record fec_encoder =
  fe_cfg :: fec_config
  fe_row :: fec_group
  fe_cols :: "fec_group list"
  fe_row_base :: u32

definition encoder_new :: "fec_config \<Rightarrow> nat \<Rightarrow> u32 \<Rightarrow> fec_encoder" where
  "encoder_new cfg payload_size isn =
     \<lparr>fe_cfg = cfg,
      fe_row = group_new isn payload_size,
      fe_cols = (if 1 < fc_rows cfg
                 then map (\<lambda>i. group_new (fec_seq_add isn (int i)) payload_size) [0..<fc_cols cfg]
                 else []),
      fe_row_base = isn\<rparr>"

definition fec_emit :: "fec_config \<Rightarrow> fec_group \<Rightarrow> fec_direction \<Rightarrow> fec_packet" where
  "fec_emit cfg g dir =
     \<lparr>fp_direction = dir, fp_base = fg_base g, fp_offset = of_nat (fc_cols cfg),
      fp_na = of_nat (fc_rows cfg), fp_length_recovery = fg_length_clip g,
      fp_pt_recovery = fg_pt_clip g, fp_ts_recovery = fg_ts_clip g,
      fp_payload = fg_payload_clip g\<rparr>"

definition fec_emit_row :: "fec_config \<Rightarrow> fec_group \<Rightarrow> fec_packet" where
  "fec_emit_row cfg g =
     \<lparr>fp_direction = Row, fp_base = fg_base g, fp_offset = 1,
      fp_na = of_nat (fc_cols cfg), fp_length_recovery = fg_length_clip g,
      fp_pt_recovery = fg_pt_clip g, fp_ts_recovery = fg_ts_clip g,
      fp_payload = fg_payload_clip g\<rparr>"

text \<open>The three blocks of \<^verbatim>\<open>push\<close>: a packet past the row moves the row group on; the packet is
  clipped into its column, which may fill; the row may fill.\<close>

definition row_advance :: "u32 \<Rightarrow> fec_encoder \<Rightarrow> fec_encoder" where
  "row_advance s e =
     (let l = int (fc_cols (fe_cfg e))
      in if l \<le> fec_seq_diff (fe_row_base e) s
         then let base = fec_seq_add (fe_row_base e) l
              in e\<lparr>fe_row_base := base, fe_row := group_reset base (fe_row e)\<rparr>
         else e)"

definition column_clip ::
    "u32 \<Rightarrow> u32 \<Rightarrow> u8 \<Rightarrow> bytes \<Rightarrow> int \<Rightarrow> fec_encoder \<Rightarrow> fec_encoder \<times> fec_packet list" where
  "column_clip s ts pt payload pos e =
     (if 1 < fc_rows (fe_cfg e) \<and> 0 \<le> pos \<and> nat pos < length (fe_cols e) then
        let ci = nat pos;
            matrix = int (matrix_size (fe_cfg e));
            g0 = fe_cols e ! ci;
            g1 = (if matrix \<le> fec_seq_diff (fg_base g0) s
                  then group_reset (fec_seq_add (fg_base g0) matrix) g0 else g0);
            g2 = group_clip (of_nat (length payload)) pt ts payload g1;
            g3 = g2\<lparr>fg_collected := fg_collected g2 + 1\<rparr>
        in if fc_rows (fe_cfg e) \<le> fg_collected g3
           then (e\<lparr>fe_cols := (fe_cols e)[ci := group_reset (fec_seq_add (fg_base g3) matrix) g3]\<rparr>,
                 [fec_emit (fe_cfg e) g3 Column])
           else (e\<lparr>fe_cols := (fe_cols e)[ci := g3]\<rparr>, [])
      else (e, []))"

definition row_close :: "fec_encoder \<Rightarrow> fec_encoder \<times> fec_packet list" where
  "row_close e =
     (if fc_cols (fe_cfg e) \<le> fg_collected (fe_row e) then
        let base = fec_seq_add (fe_row_base e) (int (fc_cols (fe_cfg e)))
        in (e\<lparr>fe_row_base := base, fe_row := group_reset base (fe_row e)\<rparr>,
            if fc_column_only (fe_cfg e) then [] else [fec_emit_row (fe_cfg e) (fe_row e)])
      else (e, []))"

definition encoder_push ::
    "fec_encoder \<Rightarrow> u32 \<Rightarrow> u32 \<Rightarrow> u8 \<Rightarrow> bytes \<Rightarrow> fec_encoder \<times> fec_packet list" where
  "encoder_push e0 s ts pt payload =
     (let e1 = row_advance s e0;
          pos = fec_seq_diff (fe_row_base e1) s;
          row = group_clip (of_nat (length payload)) pt ts payload (fe_row e1);
          e2 = e1\<lparr>fe_row := row\<lparr>fg_collected := fg_collected row + 1\<rparr>\<rparr>;
          (e3, out1) = column_clip s ts pt payload pos e2;
          (e4, out2) = row_close e3
      in (e4, out1 @ out2))"

section \<open>What a group holds\<close>

type_synonym media = "u32 \<times> u8 \<times> bytes"

text \<open>A group over \<open>ms\<close> starting at \<open>base\<close>: the number collected and the XOR of each field.\<close>

definition holds_sum :: "nat \<Rightarrow> u32 \<Rightarrow> media list \<Rightarrow> fec_group \<Rightarrow> bool" where
  "holds_sum sz base ms g \<longleftrightarrow>
     fg_base g = base \<and> fg_collected g = length ms
     \<and> fg_length_clip g = xor_sum (\<lambda>(ts, pt, p). of_nat (length p)) ms
     \<and> fg_pt_clip g = xor_sum (\<lambda>(ts, pt, p). pt AND 0x7f) ms
     \<and> fg_ts_clip g = xor_sum (\<lambda>(ts, pt, p). ts) ms
     \<and> length (fg_payload_clip g) = sz
     \<and> (\<forall>i < sz. fg_payload_clip g ! i = xor_sum (\<lambda>(ts, pt, p). byte_at p i) ms)"

lemma holds_sum_new [simp]: "holds_sum sz base [] (group_new base sz)"
  by (simp add: holds_sum_def group_new_def)

lemma holds_sum_reset: "holds_sum sz b ms g \<Longrightarrow> holds_sum sz base [] (group_reset base g)"
  by (simp add: holds_sum_def group_reset_def)

lemma holds_sum_clip:
  assumes "holds_sum sz base ms g"
  shows "holds_sum sz base (ms @ [(ts, pt, p)])
    ((group_clip (of_nat (length p)) pt ts p g)\<lparr>fg_collected := fg_collected g + 1\<rparr>)"
  using assms by (simp add: holds_sum_def group_clip_def nth_xor_into)

lemma group_clip_keeps [simp]:
  "fg_collected (group_clip l pt ts p g) = fg_collected g" "fg_base (group_clip l pt ts p g) = fg_base g"
  by (simp_all add: group_clip_def)

section \<open>The state after any number of pushes\<close>

text \<open>How many of the first \<open>n\<close> packets fell into column \<open>c\<close> of \<open>l\<close>.\<close>

definition col_count :: "nat \<Rightarrow> nat \<Rightarrow> nat \<Rightarrow> nat" where
  "col_count l n c = n div l + (if c < n mod l then 1 else 0)"

lemma col_count_0 [simp]: "col_count l 0 c = 0"
  by (simp add: col_count_def)

lemma col_count_self: "col_count l n (n mod l) = n div l"
  by (simp add: col_count_def)

lemma col_count_Suc:
  "0 < l \<Longrightarrow> c < l \<Longrightarrow> col_count l (Suc n) c = col_count l n c + (if c = n mod l then 1 else 0)"
  by (auto simp: col_count_def mod_Suc div_Suc)

text \<open>The packets of the current group of column \<open>c\<close> when it has received \<open>q\<close>.\<close>

definition col_members :: "nat \<Rightarrow> nat \<Rightarrow> media list \<Rightarrow> nat \<Rightarrow> nat \<Rightarrow> media list" where
  "col_members l d ps c q = map (\<lambda>k. ps ! (c + (q div d * d + k) * l)) [0..<q mod d]"

definition col_base :: "u32 \<Rightarrow> nat \<Rightarrow> nat \<Rightarrow> nat \<Rightarrow> nat \<Rightarrow> u32" where
  "col_base isn l d c q = isn + of_nat (c + q div d * d * l)"

definition encodes :: "fec_config \<Rightarrow> nat \<Rightarrow> u32 \<Rightarrow> media list \<Rightarrow> fec_encoder \<Rightarrow> bool" where
  "encodes cfg sz isn ps e \<longleftrightarrow>
     (let l = fc_cols cfg; d = fc_rows cfg; n = length ps
      in fe_cfg e = cfg \<and> fe_row_base e = isn + of_nat (n div l * l)
         \<and> holds_sum sz (fe_row_base e) (drop (n div l * l) ps) (fe_row e)
         \<and> (1 < d \<longrightarrow> length (fe_cols e) = l
              \<and> (\<forall>c < l. holds_sum sz (col_base isn l d c (col_count l n c))
                    (col_members l d ps c (col_count l n c)) (fe_cols e ! c))))"

text \<open>The matrix sizes the wire can carry: both dimensions positive, the whole matrix far inside the
  sequence space.\<close>

definition fec_config_ok :: "fec_config \<Rightarrow> bool" where
  "fec_config_ok cfg \<longleftrightarrow> 0 < fc_cols cfg \<and> 0 < fc_rows cfg \<and> matrix_size cfg \<le> 2 ^ 20"

lemma fec_config_okD:
  assumes "fec_config_ok cfg"
  shows "0 < fc_cols cfg" "0 < fc_rows cfg" "fc_cols cfg * fc_rows cfg \<le> 2 ^ 20" "fc_cols cfg \<le> 2 ^ 20"
proof -
  show 1: "0 < fc_cols cfg" "0 < fc_rows cfg" "fc_cols cfg * fc_rows cfg \<le> 2 ^ 20"
    using assms by (simp_all add: fec_config_ok_def matrix_size_def)
  have "fc_cols cfg * 1 \<le> fc_cols cfg * fc_rows cfg" using 1(2) by (intro mult_le_mono2) simp
  with 1(3) show "fc_cols cfg \<le> 2 ^ 20" by linarith
qed

lemma encodes_new: "encodes cfg sz isn [] (encoder_new cfg sz isn)"
  by (simp add: encodes_def encoder_new_def Let_def col_base_def col_members_def fec_seq_add_def
      seq_add_eq)

lemma fec_diff_small:
  assumes "b \<le> a" "a - b \<le> 2 ^ 31"
  shows "fec_seq_diff (isn + of_nat b) (isn + of_nat a) = int (a - b)"
proof -
  have "isn + of_nat a - (isn + of_nat b) = (of_nat (a - b) :: u32)"
    using assms(1) by (simp add: of_nat_diff)
  moreover have "a - b < 2 ^ 32" using assms(2) by simp
  ultimately have "unat (isn + of_nat a - (isn + of_nat b)) = a - b"
    by (simp add: unat_of_nat)
  with assms(2) show ?thesis by (simp add: fec_seq_diff_def seq_distance_eq seq_raw_gap_def)
qed

lemma fec_add_nat: "fec_seq_add (isn + of_nat a) (int b) = isn + of_nat (a + b)"
  by (simp add: fec_seq_add_def seq_add_eq)

section \<open>What an emitted packet protects\<close>

text \<open>A FEC packet over the packets \<open>b, b + stride, \<dots>\<close> of \<open>ps\<close>, the first sent as \<open>isn\<close>.\<close>

definition protects ::
    "fec_packet \<Rightarrow> nat \<Rightarrow> u32 \<Rightarrow> media list \<Rightarrow> nat \<Rightarrow> nat \<Rightarrow> nat \<Rightarrow> bool" where
  "protects pkt sz isn ps b stride count \<longleftrightarrow>
     fp_base pkt = isn + of_nat b \<and> fp_offset pkt = of_nat stride \<and> fp_na pkt = of_nat count
     \<and> (let ms = map (\<lambda>k. ps ! (b + k * stride)) [0..<count]
        in fp_length_recovery pkt = xor_sum (\<lambda>(ts, pt, p). of_nat (length p)) ms
         \<and> fp_pt_recovery pkt = xor_sum (\<lambda>(ts, pt, p). pt AND 0x7f) ms
         \<and> fp_ts_recovery pkt = xor_sum (\<lambda>(ts, pt, p). ts) ms
         \<and> length (fp_payload pkt) = sz
         \<and> (\<forall>i < sz. fp_payload pkt ! i = xor_sum (\<lambda>(ts, pt, p). byte_at p i) ms))"

lemma holds_sum_protects_column:
  assumes "holds_sum sz (isn + of_nat b) (map (\<lambda>k. ps ! (b + k * fc_cols cfg)) [0..<fc_rows cfg]) g"
  shows "protects (fec_emit cfg g Column) sz isn ps b (fc_cols cfg) (fc_rows cfg)"
  using assms by (simp add: protects_def fec_emit_def holds_sum_def Let_def)

lemma holds_sum_protects_row:
  assumes "holds_sum sz (isn + of_nat b) (map (\<lambda>k. ps ! (b + k * 1)) [0..<fc_cols cfg]) g"
  shows "protects (fec_emit_row cfg g) sz isn ps b 1 (fc_cols cfg)"
  using assms by (simp add: protects_def fec_emit_row_def holds_sum_def Let_def)

text \<open>The members of a column group under one more packet.\<close>

lemma col_members_other:
  assumes "\<And>k. k < q mod d \<Longrightarrow> c + (q div d * d + k) * l < length ps"
  shows "col_members l d (ps @ [x]) c q = col_members l d ps c q"
  using assms by (simp add: col_members_def nth_append)

lemma col_member_bound:
  assumes "0 < l" "c < l" "k < col_count l n c mod d"
  shows "c + (col_count l n c div d * d + k) * l < n"
proof -
  let ?q = "col_count l n c"
  let ?m = "?q div d * d + k"
  have "?m < ?q" using assms(3) by (metis add_less_cancel_left div_mult_mod_eq)
  then have "(?m + 1) * l \<le> ?q * l" by (intro mult_le_mono1) simp
  moreover have "c + ?q * l < n + l"
  proof -
    have n: "n div l * l + n mod l = n" by simp
    show ?thesis
    proof (cases "c < n mod l")
      case True
      then have "?q * l = n div l * l + l" by (simp add: col_count_def)
      with True n show ?thesis by linarith
    next
      case False
      then have "?q * l = n div l * l" by (simp add: col_count_def)
      with n assms(2) show ?thesis by linarith
    qed
  qed
  ultimately show ?thesis by simp
qed

lemma col_members_self:
  assumes "0 < l" "0 < d" "length ps = n" "q = n div l" "c = n mod l"
  shows "map (\<lambda>k. (ps @ [x]) ! (c + (q div d * d + k) * l)) [0..<Suc (q mod d)]
    = col_members l d ps c q @ [x]"
proof -
  have "c + (q div d * d + q mod d) * l = n" using assms by simp
  moreover have "c + (q div d * d + k) * l < n" if "k < q mod d" for k
    using col_member_bound [OF assms(1), of c k n d] that assms by (simp add: col_count_self)
  ultimately show ?thesis using assms(3) by (simp add: col_members_def nth_append)
qed

section \<open>One push\<close>

definition columns_at :: "fec_config \<Rightarrow> nat \<Rightarrow> u32 \<Rightarrow> media list \<Rightarrow> fec_group list \<Rightarrow> bool" where
  "columns_at cfg sz isn ps gs \<longleftrightarrow>
     (let l = fc_cols cfg; d = fc_rows cfg
      in length gs = l
         \<and> (\<forall>c < l. holds_sum sz (col_base isn l d c (col_count l (length ps) c))
               (col_members l d ps c (col_count l (length ps) c)) (gs ! c)))"

text \<open>The packets a push may complete: the column of the pushed packet, and its row.\<close>

definition column_done :: "fec_config \<Rightarrow> nat \<Rightarrow> bool" where
  "column_done cfg n \<longleftrightarrow> 1 < fc_rows cfg \<and> Suc (n div fc_cols cfg mod fc_rows cfg) = fc_rows cfg"

definition column_first :: "fec_config \<Rightarrow> nat \<Rightarrow> nat" where
  "column_first cfg n =
     n mod fc_cols cfg + n div fc_cols cfg div fc_rows cfg * fc_rows cfg * fc_cols cfg"

lemma column_diff:
  assumes "fec_config_ok cfg"
  shows "fec_seq_diff (isn + of_nat (column_first cfg n)) (isn + of_nat n) < int (matrix_size cfg)"
proof -
  let ?l = "fc_cols cfg" and ?d = "fc_rows cfg"
  note ok = fec_config_okD [OF assms]
  let ?a = "n div ?l"
  have 1: "?a * ?l + n mod ?l = n" by (rule div_mult_mod_eq)
  have "?a div ?d * ?d + ?a mod ?d = ?a" by (rule div_mult_mod_eq)
  then have 2: "?a div ?d * ?d * ?l + ?a mod ?d * ?l = ?a * ?l" by (metis distrib_right)
  have n: "n = column_first cfg n + ?a mod ?d * ?l"
    unfolding column_first_def using 1 2 by linarith
  have "?a mod ?d * ?l < ?d * ?l" using ok by simp
  then have lt: "?a mod ?d * ?l < matrix_size cfg" by (simp add: matrix_size_def mult.commute)
  have eq: "n - column_first cfg n = ?a mod ?d * ?l" "column_first cfg n \<le> n" using n by linarith+
  have "n - column_first cfg n \<le> 2 ^ 31"
    unfolding eq(1) using less_le_trans [OF lt, of "2 ^ 31"] ok(3) by (simp add: matrix_size_def)
  then have "fec_seq_diff (isn + of_nat (column_first cfg n)) (isn + of_nat n) = int (n - column_first cfg n)"
    by (rule fec_diff_small [OF eq(2)])
  also have "\<dots> < int (matrix_size cfg)" unfolding eq(1) using lt by (simp only: of_nat_less_iff)
  finally show ?thesis .
qed

lemma columns_at_other:
  assumes "fec_config_ok cfg" "columns_at cfg sz isn ps gs" "c < fc_cols cfg"
    "c \<noteq> length ps mod fc_cols cfg"
  shows "holds_sum sz (col_base isn (fc_cols cfg) (fc_rows cfg) c (col_count (fc_cols cfg) (length (ps @ [x])) c))
    (col_members (fc_cols cfg) (fc_rows cfg) (ps @ [x]) c (col_count (fc_cols cfg) (length (ps @ [x])) c)) (gs ! c)"
proof -
  have "col_count (fc_cols cfg) (length (ps @ [x])) c = col_count (fc_cols cfg) (length ps) c"
    using assms(3,4) by (simp add: col_count_Suc)
  moreover have "col_members (fc_cols cfg) (fc_rows cfg) (ps @ [x]) c (col_count (fc_cols cfg) (length ps) c)
      = col_members (fc_cols cfg) (fc_rows cfg) ps c (col_count (fc_cols cfg) (length ps) c)"
    using assms(3) col_member_bound by (intro col_members_other) simp
  ultimately show ?thesis using assms(2,3) by (simp add: columns_at_def Let_def)
qed

lemma columns_at_update:
  assumes "fec_config_ok cfg" "columns_at cfg sz isn ps gs"
    "holds_sum sz (col_base isn (fc_cols cfg) (fc_rows cfg) (length ps mod fc_cols cfg) (Suc (length ps div fc_cols cfg)))
       (col_members (fc_cols cfg) (fc_rows cfg) (ps @ [x]) (length ps mod fc_cols cfg) (Suc (length ps div fc_cols cfg))) g"
  shows "columns_at cfg sz isn (ps @ [x]) (gs[length ps mod fc_cols cfg := g])"
proof -
  let ?c = "length ps mod fc_cols cfg"
  have l: "0 < fc_cols cfg" "length gs = fc_cols cfg"
    using fec_config_okD(1) [OF assms(1)] assms(2) by (simp_all add: columns_at_def Let_def)
  have "col_count (fc_cols cfg) (length (ps @ [x])) ?c = Suc (length ps div fc_cols cfg)"
    using l by (simp add: col_count_Suc col_count_self)
  then have "holds_sum sz (col_base isn (fc_cols cfg) (fc_rows cfg) c (col_count (fc_cols cfg) (length (ps @ [x])) c))
      (col_members (fc_cols cfg) (fc_rows cfg) (ps @ [x]) c (col_count (fc_cols cfg) (length (ps @ [x])) c))
      (gs[?c := g] ! c)" if "c < fc_cols cfg" for c
    using columns_at_other [OF assms(1,2) that, of x] assms(3) that l by (cases "c = ?c") simp_all
  then show ?thesis using l by (simp add: columns_at_def Let_def)
qed

lemma column_step:
  assumes ok: "fec_config_ok cfg" and two: "1 < fc_rows cfg"
    and e: "fe_cfg e = cfg" "columns_at cfg sz isn ps (fe_cols e)"
    and x: "x = (ts, pt, p)"
  shows "\<exists>gs out. column_clip (isn + of_nat (length ps)) ts pt p (int (length ps mod fc_cols cfg)) e
      = (e\<lparr>fe_cols := gs\<rparr>, out)
    \<and> columns_at cfg sz isn (ps @ [x]) gs
    \<and> (if column_done cfg (length ps)
       then \<exists>pkt. out = [pkt] \<and> fp_direction pkt = Column
         \<and> protects pkt sz isn (ps @ [x]) (column_first cfg (length ps)) (fc_cols cfg) (fc_rows cfg)
       else out = [])"
proof -
  let ?l = "fc_cols cfg" and ?d = "fc_rows cfg" and ?n = "length ps"
  let ?c = "?n mod ?l" and ?a = "?n div ?l"
  note l = fec_config_okD [OF ok]
  have len: "length (fe_cols e) = ?l" using e(2) by (simp add: columns_at_def Let_def)
  define g0 where "g0 = fe_cols e ! ?c"
  have "holds_sum sz (col_base isn ?l ?d ?c (col_count ?l ?n ?c))
      (col_members ?l ?d ps ?c (col_count ?l ?n ?c)) (fe_cols e ! ?c)"
    using e(2) mod_less_divisor [OF l(1), of ?n] unfolding columns_at_def Let_def by blast
  then have g0: "holds_sum sz (isn + of_nat (column_first cfg ?n)) (col_members ?l ?d ps ?c ?a) g0"
    unfolding g0_def col_count_self col_base_def column_first_def .
  have nores: "\<not> int (matrix_size cfg) \<le> fec_seq_diff (fg_base g0) (isn + of_nat ?n)"
    using column_diff [OF ok, of isn ?n] g0 by (simp add: holds_sum_def)
  define g3 where "g3 = (group_clip (of_nat (length p)) pt ts p g0)\<lparr>fg_collected := fg_collected g0 + 1\<rparr>"
  define ms where "ms = map (\<lambda>k. (ps @ [x]) ! (?c + (?a div ?d * ?d + k) * ?l)) [0..<Suc (?a mod ?d)]"
  have "ms = col_members ?l ?d ps ?c ?a @ [(ts, pt, p)]"
    unfolding ms_def using col_members_self [of ?l ?d ps ?n ?a ?c x] l x by simp
  then have g3: "holds_sum sz (isn + of_nat (column_first cfg ?n)) ms g3"
    unfolding g3_def using holds_sum_clip [OF g0, of ts pt p] by simp
  then have coll: "fg_collected g3 = Suc (?a mod ?d)" by (simp add: holds_sum_def ms_def)
  have clip: "column_clip (isn + of_nat ?n) ts pt p (int ?c) e =
      (if ?d \<le> fg_collected g3
       then (e\<lparr>fe_cols := (fe_cols e)[?c := group_reset (fec_seq_add (fg_base g3) (int (matrix_size cfg))) g3]\<rparr>,
             [fec_emit cfg g3 Column])
       else (e\<lparr>fe_cols := (fe_cols e)[?c := g3]\<rparr>, []))"
    using two len l(1) nores
    by (simp add: column_clip_def e(1) Let_def g3_def g0_def)
  show ?thesis
  proof (cases "column_done cfg ?n")
    case True
    then have full: "Suc (?a mod ?d) = ?d" by (simp add: column_done_def)
    then have q: "Suc ?a div ?d = Suc (?a div ?d)" "Suc ?a mod ?d = 0" by (simp_all add: div_Suc mod_Suc)
    have "fg_base g3 = isn + of_nat (column_first cfg ?n)" using g3 by (simp add: holds_sum_def)
    then have "fec_seq_add (fg_base g3) (int (matrix_size cfg))
        = isn + of_nat (column_first cfg ?n + matrix_size cfg)"
      by (simp only: fec_add_nat)
    moreover have "column_first cfg ?n + matrix_size cfg = ?c + Suc (?a div ?d) * ?d * ?l"
      by (simp add: column_first_def matrix_size_def distrib_right)
    ultimately have base: "fec_seq_add (fg_base g3) (int (matrix_size cfg)) = col_base isn ?l ?d ?c (Suc ?a)"
      by (simp only: col_base_def q)
    have "holds_sum sz (col_base isn ?l ?d ?c (Suc ?a)) (col_members ?l ?d (ps @ [x]) ?c (Suc ?a))
        (group_reset (col_base isn ?l ?d ?c (Suc ?a)) g3)"
      using holds_sum_reset [OF g3] by (simp add: col_members_def q)
    from columns_at_update [OF ok e(2) this] have "columns_at cfg sz isn (ps @ [x])
        ((fe_cols e)[?c := group_reset (fec_seq_add (fg_base g3) (int (matrix_size cfg))) g3])"
      by (simp add: base)
    moreover have "protects (fec_emit cfg g3 Column) sz isn (ps @ [x]) (column_first cfg ?n) ?l ?d"
    proof -
      have "?c + (?a div ?d * ?d + k) * ?l = column_first cfg ?n + k * ?l" for k
        by (simp add: column_first_def distrib_right)
      then have "ms = map (\<lambda>k. (ps @ [x]) ! (column_first cfg ?n + k * ?l)) [0..<?d]"
        unfolding ms_def full by simp
      with g3 show ?thesis by (intro holds_sum_protects_column) simp
    qed
    moreover have "column_clip (isn + of_nat ?n) ts pt p (int ?c) e =
      (e\<lparr>fe_cols := (fe_cols e)[?c := group_reset (fec_seq_add (fg_base g3) (int (matrix_size cfg))) g3]\<rparr>,
       [fec_emit cfg g3 Column])"
      using clip coll full by simp
    moreover have "fp_direction (fec_emit cfg g3 Column) = Column" by (simp add: fec_emit_def)
    ultimately show ?thesis unfolding if_P [OF True] by blast
  next
    case False
    then have "Suc (?a mod ?d) \<noteq> ?d" using two by (simp add: column_done_def)
    moreover have "?a mod ?d < ?d" using l(2) by simp
    ultimately have lt: "Suc (?a mod ?d) < ?d" by linarith
    then have q: "Suc ?a div ?d = ?a div ?d" "Suc ?a mod ?d = Suc (?a mod ?d)"
      by (simp_all add: div_Suc mod_Suc)
    have "holds_sum sz (col_base isn ?l ?d ?c (Suc ?a)) (col_members ?l ?d (ps @ [x]) ?c (Suc ?a)) g3"
      using g3 unfolding col_members_def col_base_def q ms_def by (simp add: column_first_def)
    from columns_at_update [OF ok e(2) this]
    have "columns_at cfg sz isn (ps @ [x]) ((fe_cols e)[?c := g3])" .
    moreover have "column_clip (isn + of_nat ?n) ts pt p (int ?c) e =
      (e\<lparr>fe_cols := (fe_cols e)[?c := g3]\<rparr>, [])"
      using clip coll lt by simp
    ultimately show ?thesis unfolding if_not_P [OF False] by blast
  qed
qed

text \<open>The row half: the group never needs moving on, and closes on the last packet of the row.\<close>

definition row_done :: "fec_config \<Rightarrow> nat \<Rightarrow> bool" where
  "row_done cfg n \<longleftrightarrow> Suc (n mod fc_cols cfg) = fc_cols cfg"

definition row_at :: "fec_config \<Rightarrow> nat \<Rightarrow> u32 \<Rightarrow> media list \<Rightarrow> fec_encoder \<Rightarrow> bool" where
  "row_at cfg sz isn ps e \<longleftrightarrow>
     (let b = length ps div fc_cols cfg * fc_cols cfg
      in fe_row_base e = isn + of_nat b \<and> holds_sum sz (isn + of_nat b) (drop b ps) (fe_row e))"

lemma row_position:
  assumes "fec_config_ok cfg" "row_at cfg sz isn ps e"
  shows "fec_seq_diff (fe_row_base e) (isn + of_nat (length ps)) = int (length ps mod fc_cols cfg)"
proof -
  let ?n = "length ps" and ?l = "fc_cols cfg"
  have b: "?n div ?l * ?l \<le> ?n" "?n - ?n div ?l * ?l = ?n mod ?l"
    by (simp_all add: minus_div_mult_eq_mod)
  have "?n mod ?l < ?l" using fec_config_okD(1) [OF assms(1)] by simp
  with b fec_config_okD(4) [OF assms(1)] have "?n - ?n div ?l * ?l \<le> 2 ^ 31" by simp
  from fec_diff_small [OF b(1) this, of isn] b(2) assms(2) show ?thesis
    by (simp add: row_at_def Let_def)
qed

lemma row_advance_same:
  assumes "fec_config_ok cfg" "row_at cfg sz isn ps e" "fe_cfg e = cfg"
  shows "row_advance (isn + of_nat (length ps)) e = e"
proof -
  have "length ps mod fc_cols cfg < fc_cols cfg" using fec_config_okD(1) [OF assms(1)] by simp
  with row_position [OF assms(1,2)] assms(3) show ?thesis by (simp add: row_advance_def Let_def)
qed

lemma row_members:
  assumes "row_done cfg n" "length ps = n"
  shows "drop (n div fc_cols cfg * fc_cols cfg) (ps @ [x])
    = map (\<lambda>k. (ps @ [x]) ! (n div fc_cols cfg * fc_cols cfg + k * 1)) [0..<fc_cols cfg]"
proof (rule nth_equalityI)
  have "n div fc_cols cfg * fc_cols cfg + n mod fc_cols cfg = n" by (rule div_mult_mod_eq)
  then have "Suc n - n div fc_cols cfg * fc_cols cfg = Suc (n mod fc_cols cfg)" by linarith
  then have len: "length (drop (n div fc_cols cfg * fc_cols cfg) (ps @ [x])) = fc_cols cfg"
    using assms by (simp add: row_done_def)
  then show "length (drop (n div fc_cols cfg * fc_cols cfg) (ps @ [x]))
    = length (map (\<lambda>k. (ps @ [x]) ! (n div fc_cols cfg * fc_cols cfg + k * 1)) [0..<fc_cols cfg])"
    by simp
  show "drop (n div fc_cols cfg * fc_cols cfg) (ps @ [x]) ! i
    = map (\<lambda>k. (ps @ [x]) ! (n div fc_cols cfg * fc_cols cfg + k * 1)) [0..<fc_cols cfg] ! i"
    if "i < length (drop (n div fc_cols cfg * fc_cols cfg) (ps @ [x]))" for i
  proof -
    have "i < fc_cols cfg" using that unfolding len .
    moreover have "drop (n div fc_cols cfg * fc_cols cfg) (ps @ [x]) ! i
        = (ps @ [x]) ! (n div fc_cols cfg * fc_cols cfg + i)"
      using that by (intro nth_drop) simp
    ultimately show ?thesis by (simp del: drop_append)
  qed
qed

lemma row_close_step:
  assumes ok: "fec_config_ok cfg" and e: "fe_cfg e = cfg" "fe_row_base e = isn + of_nat (n div fc_cols cfg * fc_cols cfg)"
    and g: "holds_sum sz (isn + of_nat (n div fc_cols cfg * fc_cols cfg))
       (drop (n div fc_cols cfg * fc_cols cfg) (ps @ [x])) (fe_row e)" and n: "n = length ps"
  shows "\<exists>b r out. row_close e = (e\<lparr>fe_row_base := b, fe_row := r\<rparr>, out)
    \<and> row_at cfg sz isn (ps @ [x]) (e\<lparr>fe_row_base := b, fe_row := r\<rparr>)
    \<and> (if row_done cfg n \<and> \<not> fc_column_only cfg
       then \<exists>pkt. out = [pkt] \<and> fp_direction pkt = Row
         \<and> protects pkt sz isn (ps @ [x]) (n div fc_cols cfg * fc_cols cfg) 1 (fc_cols cfg)
       else out = [])"
proof -
  let ?l = "fc_cols cfg"
  have m: "n div ?l * ?l + n mod ?l = n" by (rule div_mult_mod_eq)
  have lt: "n mod ?l < ?l" using fec_config_okD(1) [OF ok] by simp
  have "length (drop (n div ?l * ?l) (ps @ [x])) = Suc n - n div ?l * ?l"
    unfolding length_drop by (simp add: n)
  also have "\<dots> = Suc (n mod ?l)" using m by linarith
  finally have coll: "fg_collected (fe_row e) = Suc (n mod ?l)" using g by (simp add: holds_sum_def)
  show ?thesis
  proof (cases "row_done cfg n")
    case True
    then have full: "fg_collected (fe_row e) = ?l" and q: "Suc n div ?l = Suc (n div ?l)"
      using coll by (simp_all add: row_done_def div_Suc mod_Suc)
    define b where "b = isn + of_nat (Suc n div ?l * ?l)"
    have "fec_seq_add (isn + of_nat (n div ?l * ?l)) (int ?l) = isn + of_nat (n div ?l * ?l + ?l)"
      by (rule fec_add_nat)
    also have "n div ?l * ?l + ?l = Suc n div ?l * ?l" unfolding q by simp
    finally have base: "fec_seq_add (fe_row_base e) (int ?l) = b" unfolding e(2) b_def .
    have "Suc n mod ?l = 0" using True by (simp add: row_done_def mod_Suc)
    then have "Suc n div ?l * ?l = Suc n" by (simp add: mod_eq_0_iff_dvd)
    then have "Suc n div ?l * ?l = length (ps @ [x])" by (simp add: n)
    then have none: "drop (Suc n div ?l * ?l) (ps @ [x]) = []" by (simp only: drop_all)
    have "length (ps @ [x]) = Suc n" using n by simp
    with holds_sum_reset [OF g, of b]
    have "row_at cfg sz isn (ps @ [x]) (e\<lparr>fe_row_base := b, fe_row := group_reset b (fe_row e)\<rparr>)"
      by (simp only: row_at_def Let_def b_def none) simp
    moreover have "row_close e = (e\<lparr>fe_row_base := b, fe_row := group_reset b (fe_row e)\<rparr>,
        if fc_column_only cfg then [] else [fec_emit_row cfg (fe_row e)])"
      using full base e(1) by (simp add: row_close_def Let_def)
    moreover have "protects (fec_emit_row cfg (fe_row e)) sz isn (ps @ [x]) (n div ?l * ?l) 1 ?l"
      using g unfolding row_members [OF True n [symmetric]] by (rule holds_sum_protects_row)
    moreover have "fp_direction (fec_emit_row cfg (fe_row e)) = Row" by (simp add: fec_emit_row_def)
    ultimately show ?thesis using True by (cases "fc_column_only cfg") auto
  next
    case False
    with lt have "Suc (n mod ?l) < ?l" by (simp add: row_done_def)
    then have q: "Suc n div ?l = n div ?l" by (simp add: div_Suc mod_Suc)
    have "row_at cfg sz isn (ps @ [x]) (e\<lparr>fe_row_base := fe_row_base e, fe_row := fe_row e\<rparr>)"
      using g e(2) n q by (simp add: row_at_def Let_def)
    moreover have "row_close e = (e\<lparr>fe_row_base := fe_row_base e, fe_row := fe_row e\<rparr>, [])"
      using coll \<open>Suc (n mod ?l) < ?l\<close> e(1) by (simp add: row_close_def)
    moreover have none: "\<not> (row_done cfg n \<and> \<not> fc_column_only cfg)" using False by simp
    ultimately show ?thesis unfolding if_not_P [OF none] by blast
  qed
qed

text \<open>What the push of the packet number \<open>n\<close> of \<open>ps\<close> returns: the packet over its column when it is
  the last of a column group, then the packet over its row when it is the last of the row.\<close>

definition push_emits :: "fec_config \<Rightarrow> nat \<Rightarrow> u32 \<Rightarrow> media list \<Rightarrow> nat \<Rightarrow> fec_packet list \<Rightarrow> bool" where
  "push_emits cfg sz isn ps n out \<longleftrightarrow>
     (\<exists>cp rp. out = cp @ rp
       \<and> (if column_done cfg n
          then \<exists>pkt. cp = [pkt] \<and> fp_direction pkt = Column
            \<and> protects pkt sz isn ps (column_first cfg n) (fc_cols cfg) (fc_rows cfg)
          else cp = [])
       \<and> (if row_done cfg n \<and> \<not> fc_column_only cfg
          then \<exists>pkt. rp = [pkt] \<and> fp_direction pkt = Row
            \<and> protects pkt sz isn ps (n div fc_cols cfg * fc_cols cfg) 1 (fc_cols cfg)
          else rp = []))"

lemma encodes_iff:
  "encodes cfg sz isn ps e \<longleftrightarrow>
     fe_cfg e = cfg \<and> row_at cfg sz isn ps e \<and> (1 < fc_rows cfg \<longrightarrow> columns_at cfg sz isn ps (fe_cols e))"
  by (auto simp: encodes_def row_at_def columns_at_def Let_def)

lemma encoder_push_step:
  assumes ok: "fec_config_ok cfg" and e: "encodes cfg sz isn ps e"
  shows "\<exists>e' out. encoder_push e (isn + of_nat (length ps)) ts pt p = (e', out)
    \<and> encodes cfg sz isn (ps @ [(ts, pt, p)]) e'
    \<and> push_emits cfg sz isn (ps @ [(ts, pt, p)]) (length ps) out"
proof -
  let ?s = "isn + of_nat (length ps)" and ?ps = "ps @ [(ts, pt, p)]"
  let ?b = "length ps div fc_cols cfg * fc_cols cfg"
  have r: "row_at cfg sz isn ps e" "fe_cfg e = cfg" using e by (simp_all add: encodes_iff)
  define e2 where "e2 = e\<lparr>fe_row := (group_clip (of_nat (length p)) pt ts p (fe_row e))
      \<lparr>fg_collected := fg_collected (fe_row e) + 1\<rparr>\<rparr>"
  have "holds_sum sz (isn + of_nat ?b) (drop ?b ps @ [(ts, pt, p)]) (fe_row e2)"
    unfolding e2_def using holds_sum_clip r(1) by (simp add: row_at_def Let_def)
  then have g: "holds_sum sz (isn + of_nat ?b) (drop ?b ?ps) (fe_row e2)" by simp
  obtain gs cp where c: "column_clip ?s ts pt p (int (length ps mod fc_cols cfg)) e2 = (e2\<lparr>fe_cols := gs\<rparr>, cp)"
    "1 < fc_rows cfg \<longrightarrow> columns_at cfg sz isn ?ps gs"
    "if column_done cfg (length ps)
       then \<exists>pkt. cp = [pkt] \<and> fp_direction pkt = Column
         \<and> protects pkt sz isn ?ps (column_first cfg (length ps)) (fc_cols cfg) (fc_rows cfg)
       else cp = []"
  proof (cases "1 < fc_rows cfg")
    case True
    with e have "columns_at cfg sz isn ps (fe_cols e2)" "fe_cfg e2 = cfg"
      by (simp_all add: encodes_iff e2_def)
    from column_step [OF ok True this(2,1) refl] that show thesis by blast
  next
    case False
    then have "column_clip ?s ts pt p (int (length ps mod fc_cols cfg)) e2 = (e2\<lparr>fe_cols := fe_cols e2\<rparr>, [])"
      using r(2) by (simp add: column_clip_def e2_def)
    with that [of "fe_cols e2" "[]"] False show thesis by (simp add: column_done_def)
  qed
  let ?e3 = "e2\<lparr>fe_cols := gs\<rparr>"
  have e3: "fe_cfg ?e3 = cfg" "fe_row_base ?e3 = isn + of_nat ?b"
    "holds_sum sz (isn + of_nat ?b) (drop ?b ?ps) (fe_row ?e3)"
    using r g by (simp_all add: e2_def row_at_def Let_def)
  from row_close_step [OF ok e3 refl] obtain b rw rp where
    rc: "row_close ?e3 = (?e3\<lparr>fe_row_base := b, fe_row := rw\<rparr>, rp)"
      "row_at cfg sz isn ?ps (?e3\<lparr>fe_row_base := b, fe_row := rw\<rparr>)"
      "if row_done cfg (length ps) \<and> \<not> fc_column_only cfg
       then \<exists>pkt. rp = [pkt] \<and> fp_direction pkt = Row
         \<and> protects pkt sz isn ?ps ?b 1 (fc_cols cfg)
       else rp = []" by blast
  have "encoder_push e ?s ts pt p = (?e3\<lparr>fe_row_base := b, fe_row := rw\<rparr>, cp @ rp)"
    using c(1) rc(1) row_advance_same [OF ok r] row_position [OF ok r(1)]
    by (simp add: encoder_push_def Let_def e2_def)
  moreover have "encodes cfg sz isn ?ps (?e3\<lparr>fe_row_base := b, fe_row := rw\<rparr>)"
    using c(2) rc(2) r(2) by (simp add: encodes_iff e2_def)
  moreover have "push_emits cfg sz isn ?ps (length ps) (cp @ rp)"
    unfolding push_emits_def using c(3) rc(3) by blast
  ultimately show ?thesis by blast
qed

section \<open>Any number of pushes\<close>

fun encoder_run :: "fec_encoder \<Rightarrow> u32 \<Rightarrow> media list \<Rightarrow> fec_encoder \<times> fec_packet list" where
  "encoder_run e s [] = (e, [])"
| "encoder_run e s ((ts, pt, p) # ms) =
     (let (e1, out1) = encoder_push e s ts pt p;
          (e2, out2) = encoder_run e1 (s + 1) ms
      in (e2, out1 @ out2))"

lemma encoder_run_snoc:
  "encoder_run e s (ms @ [(ts, pt, p)]) =
     (let (e1, out1) = encoder_run e s ms;
          (e2, out2) = encoder_push e1 (s + of_nat (length ms)) ts pt p
      in (e2, out1 @ out2))"
  by (induction ms arbitrary: e s) (auto simp: Let_def split_def add.assoc)

lemma encodes_run:
  assumes ok: "fec_config_ok cfg"
  shows "encodes cfg sz isn ps (fst (encoder_run (encoder_new cfg sz isn) isn ps))"
proof (induction ps rule: rev_induct)
  case Nil
  then show ?case by (simp add: encodes_new)
next
  case (snoc x ps)
  obtain ts pt p where x: "x = (ts, pt, p)" by (cases x)
  from encoder_push_step [OF ok snoc, of ts pt p] show ?case
    by (auto simp: x encoder_run_snoc Let_def split_def)
qed

text \<open>The FEC sender emits exactly the parity it promises. After any consecutive packets, one more
  push returns the column packet when that packet is the last of its column group (and there is more
  than one row), then the row packet when it ends a row and the code is not column-only, and nothing
  else; each carries the base, offset and count of its group and the XOR of its members' lengths,
  payload types, timestamps and zero-padded payloads.\<close>

theorem encoder_emits_parity:
  assumes "fec_config_ok cfg"
  shows "push_emits cfg sz isn (ps @ [(ts, pt, p)]) (length ps)
    (snd (encoder_push (fst (encoder_run (encoder_new cfg sz isn) isn ps))
       (isn + of_nat (length ps)) ts pt p))"
  using encoder_push_step [OF assms encodes_run [OF assms, of sz isn ps], of ts pt p] by auto

definition sample_fec :: fec_config where
  "sample_fec = \<lparr>fc_cols = 2, fc_rows = 2, fc_column_only = False, fc_variant = St20221\<rparr>"

definition sample_media :: "media list" where
  "sample_media = [(10, 33, [1, 2]), (20, 33, [4]), (30, 33, [8, 16])]"

lemma sample_fec_ok: "fec_config_ok sample_fec"
  by (simp add: fec_config_ok_def sample_fec_def matrix_size_def)

theorem encoder_emits_parity_witness:
  "push_emits sample_fec 2 0xFFFFFFFE (sample_media @ [(40, 33, [32, 64])]) (length sample_media)
    (snd (encoder_push (fst (encoder_run (encoder_new sample_fec 2 0xFFFFFFFE) 0xFFFFFFFE sample_media))
       (0xFFFFFFFE + of_nat (length sample_media)) 40 33 [32, 64]))
   \<and> column_done sample_fec (length sample_media) \<and> row_done sample_fec (length sample_media)"
  using encoder_emits_parity [OF sample_fec_ok, of 2 "0xFFFFFFFE" sample_media 40 33 "[32, 64]"]
  by (simp add: column_done_def row_done_def sample_fec_def sample_media_def)

end
