(* ===== verification/Fec_Decoder.thy ===== *)
theory Fec_Decoder
  imports Fec_Types
begin

text \<open>
  The FEC receiver (\<^verbatim>\<open>rist-core/src/fec/decoder.rs\<close>): the media and FEC packets of a sliding
  window, and the recovery of the one missing member of a group, repeated until no group yields. The
  hash map of media is a partial function, the vector of FEC packets a list. The recovery loop is a
  recursion that ends because every recovery closes a group.
\<close>

section \<open>State\<close>

definition na10_max :: int where "na10_max = 0x3ff"

record stored_media =
  sm_ts :: u32
  sm_pt :: u8
  sm_ssrc :: u32
  sm_payload :: bytes

record stored_fec =
  sf_base :: u32
  sf_stride :: int
  sf_count :: int
  sf_length_rec :: u16
  sf_pt_rec :: u8
  sf_ts_rec :: u32
  sf_payload :: bytes
  sf_done :: bool

record fec_decoder =
  fd_cfg :: fec_config
  fd_payload_size :: nat
  fd_window :: int
  fd_max_fecs :: nat
  fd_media :: "u32 \<rightharpoonup> stored_media"
  fd_fecs :: "stored_fec list"
  fd_last_seq :: u32
  fd_have_seq :: bool

definition decoder_new :: "fec_config \<Rightarrow> nat \<Rightarrow> u32 \<Rightarrow> fec_decoder" where
  "decoder_new cfg payload_size isn =
     \<lparr>fd_cfg = cfg, fd_payload_size = payload_size,
      fd_window = int (matrix_size cfg * 3 + fc_cols cfg + 8),
      fd_max_fecs = (fc_cols cfg + fc_rows cfg) * 4 + 16,
      fd_media = Map.empty, fd_fecs = [], fd_last_seq = isn, fd_have_seq = False\<rparr>"

section \<open>The window\<close>

definition fd_advance :: "u32 \<Rightarrow> fec_decoder \<Rightarrow> fec_decoder" where
  "fd_advance s d =
     (if \<not> fd_have_seq d \<or> 0 < fec_seq_diff (fd_last_seq d) s
      then d\<lparr>fd_last_seq := s, fd_have_seq := True\<rparr> else d)"

text \<open>\<^verbatim>\<open>widen\<close>: of the three sequence numbers that agree with the truncated base nearest to the anchor,
  the first that is strictly nearer than those before it.\<close>

definition nearer :: "u32 \<Rightarrow> u32 \<Rightarrow> u32 \<Rightarrow> u32" where
  "nearer anchor best c =
     (if \<bar>fec_seq_diff anchor c\<bar> < \<bar>fec_seq_diff anchor best\<bar> then c else best)"

definition fd_widen :: "fec_decoder \<Rightarrow> u32 \<Rightarrow> u32" where
  "fd_widen d base =
     (let mask = base_mask (fc_variant (fd_cfg d));
          span = base_span (fc_variant (fd_cfg d));
          cand = (fd_last_seq d AND NOT mask) OR (base AND mask)
      in foldl (nearer (fd_last_seq d)) cand [cand + span, cand - span])"

definition geometry_ok :: "fec_config \<Rightarrow> int \<Rightarrow> int \<Rightarrow> bool" where
  "geometry_ok cfg stride count \<longleftrightarrow>
     (if stride = int (fc_cols cfg) \<and> count = int (fc_rows cfg) then True
      else if \<not> fc_column_only cfg \<and> stride = 1 \<and> count = int (fc_cols cfg) then True
      else False)"

definition fd_floor :: "fec_decoder \<Rightarrow> u32" where
  "fd_floor d = fec_seq_add (fd_last_seq d) (- fd_window d)"

definition fd_evict :: "fec_decoder \<Rightarrow> fec_decoder" where
  "fd_evict d =
     d\<lparr>fd_media := (\<lambda>s. if 0 \<le> fec_seq_diff (fd_floor d) s then fd_media d s else None),
       fd_fecs := filter (\<lambda>f. 0 \<le> fec_seq_diff (fd_floor d) (sf_base f)) (fd_fecs d)\<rparr>"

section \<open>Recovery\<close>

definition member_seq :: "u32 \<Rightarrow> int \<Rightarrow> nat \<Rightarrow> u32" where
  "member_seq base stride k = fec_seq_add base (int k * stride)"

definition members :: "stored_fec \<Rightarrow> u32 list" where
  "members f = map (member_seq (sf_base f) (sf_stride f)) [0..<nat (sf_count f)]"

text \<open>The scan for the missing member, which gives up at the second one.\<close>

fun missing_scan :: "(u32 \<rightharpoonup> stored_media) \<Rightarrow> u32 list \<Rightarrow> nat \<Rightarrow> u32 \<Rightarrow> (nat \<times> u32) option" where
  "missing_scan media [] n missing = Some (n, missing)"
| "missing_scan media (s # ss) n missing =
     (if media s = None
      then if 1 < n + 1 then None else missing_scan media ss (n + 1) s
      else missing_scan media ss n missing)"

record xor_acc =
  xa_length :: u16
  xa_pt :: u8
  xa_ts :: u32
  xa_ssrc :: u32
  xa_payload :: bytes

definition absorb :: "xor_acc \<Rightarrow> stored_media \<Rightarrow> xor_acc" where
  "absorb a m =
     a\<lparr>xa_ssrc := sm_ssrc m,
       xa_length := xa_length a XOR of_nat (length (sm_payload m)),
       xa_pt := xa_pt a XOR (sm_pt m AND 0x7f),
       xa_ts := xa_ts a XOR sm_ts m,
       xa_payload := xor_into (xa_payload a) (sm_payload m)\<rparr>"

fun absorb_members :: "(u32 \<rightharpoonup> stored_media) \<Rightarrow> u32 list \<Rightarrow> xor_acc \<Rightarrow> xor_acc" where
  "absorb_members media [] a = a"
| "absorb_members media (s # ss) a =
     absorb_members media ss (case media s of Some m \<Rightarrow> absorb a m | None \<Rightarrow> a)"

definition acc_start :: "nat \<Rightarrow> stored_fec \<Rightarrow> xor_acc" where
  "acc_start payload_size f =
     (let n = min (length (sf_payload f)) payload_size
      in \<lparr>xa_length = sf_length_rec f, xa_pt = sf_pt_rec f, xa_ts = sf_ts_rec f, xa_ssrc = 0,
          xa_payload = take n (sf_payload f) @ replicate (payload_size - n) 0\<rparr>)"

definition rebuild :: "fec_decoder \<Rightarrow> stored_fec \<Rightarrow> xor_acc" where
  "rebuild d f = absorb_members (fd_media d) (members f) (acc_start (fd_payload_size d) f)"

definition rebuilt_media :: "xor_acc \<Rightarrow> stored_media" where
  "rebuilt_media a =
     \<lparr>sm_ts = xa_ts a, sm_pt = xa_pt a, sm_ssrc = xa_ssrc a,
      sm_payload = take (unat (xa_length a)) (xa_payload a)\<rparr>"

definition rebuilt_packet :: "u32 \<Rightarrow> xor_acc \<Rightarrow> recovered" where
  "rebuilt_packet missing a =
     \<lparr>rc_seq = missing, rc_timestamp = xa_ts a, rc_payload_type = xa_pt a, rc_ssrc = xa_ssrc a,
      rc_payload = take (unat (xa_length a)) (xa_payload a)\<rparr>"

definition newest_member :: "stored_fec \<Rightarrow> u32" where
  "newest_member f = fec_seq_add (sf_base f) ((sf_count f - 1) * sf_stride f)"

definition set_done :: "nat \<Rightarrow> fec_decoder \<Rightarrow> fec_decoder" where
  "set_done i d = d\<lparr>fd_fecs := (fd_fecs d)[i := (fd_fecs d ! i)\<lparr>sf_done := True\<rparr>]\<rparr>"

text \<open>\<^verbatim>\<open>try_recover\<close> returns true exactly where it pushes a packet, so its result is the packet.\<close>

definition try_recover :: "nat \<Rightarrow> fec_decoder \<Rightarrow> fec_decoder \<times> recovered option" where
  "try_recover i d =
     (let f = fd_fecs d ! i in
      if sf_done f then (d, None)
      else if fec_seq_diff (fd_floor d) (sf_base f) < 0 then (set_done i d, None)
      else if 0 < fec_seq_diff (fd_last_seq d) (newest_member f) then (d, None)
      else case missing_scan (fd_media d) (members f) 0 0 of
        None \<Rightarrow> (d, None)
      | Some (n, missing) \<Rightarrow>
          if n = 0 then (set_done i d, None)
          else
            let a = rebuild d f
            in if fd_payload_size d < unat (xa_length a) then (set_done i d, None)
               else (set_done i (d\<lparr>fd_media := (fd_media d)(missing \<mapsto> rebuilt_media a)\<rparr>),
                     Some (rebuilt_packet missing a)))"

text \<open>One scan over the stored groups, and the packets it recovered.\<close>

fun recover_pass :: "nat list \<Rightarrow> fec_decoder \<Rightarrow> fec_decoder \<times> recovered list" where
  "recover_pass [] d = (d, [])"
| "recover_pass (i # is) d =
     (let (d1, r) = try_recover i d;
          (d2, rs) = recover_pass is d1
      in (d2, (case r of Some p \<Rightarrow> p # rs | None \<Rightarrow> rs)))"

subsection \<open>Every recovery closes a group\<close>

definition pending :: "fec_decoder \<Rightarrow> nat" where
  "pending d = length (filter (\<lambda>f. \<not> sf_done f) (fd_fecs d))"

lemma count_update_done:
  "i < length fs \<Longrightarrow> \<not> sf_done (fs ! i) \<Longrightarrow>
   Suc (length (filter (\<lambda>f. \<not> sf_done f) (fs[i := (fs ! i)\<lparr>sf_done := True\<rparr>]))) =
   length (filter (\<lambda>f. \<not> sf_done f) fs)"
proof (induction fs arbitrary: i)
  case (Cons g fs)
  then show ?case by (cases i) auto
qed simp

lemma set_done_fields [simp]:
  "fd_cfg (set_done i d) = fd_cfg d" "fd_payload_size (set_done i d) = fd_payload_size d"
  "fd_window (set_done i d) = fd_window d" "fd_max_fecs (set_done i d) = fd_max_fecs d"
  "fd_media (set_done i d) = fd_media d" "fd_last_seq (set_done i d) = fd_last_seq d"
  "fd_have_seq (set_done i d) = fd_have_seq d"
  "length (fd_fecs (set_done i d)) = length (fd_fecs d)"
  by (simp_all add: set_done_def)

lemma pending_set_done:
  "i < length (fd_fecs d) \<Longrightarrow> \<not> sf_done (fd_fecs d ! i) \<Longrightarrow> Suc (pending (set_done i d)) = pending d"
  by (simp add: pending_def set_done_def count_update_done)

lemma pending_media [simp]: "pending (d\<lparr>fd_media := m\<rparr>) = pending d"
  by (simp add: pending_def)

text \<open>What one attempt may do, and when.\<close>

lemma try_recover_cases:
  assumes "fd_fecs d ! i = f"
  obtains (settled) "sf_done f" "try_recover i d = (d, None)"
  | (aged) "\<not> sf_done f" "fec_seq_diff (fd_floor d) (sf_base f) < 0" "try_recover i d = (set_done i d, None)"
  | (future) "\<not> sf_done f" "0 < fec_seq_diff (fd_last_seq d) (newest_member f)" "try_recover i d = (d, None)"
  | (many) "\<not> sf_done f" "missing_scan (fd_media d) (members f) 0 0 = None" "try_recover i d = (d, None)"
  | (complete) s where "\<not> sf_done f" "missing_scan (fd_media d) (members f) 0 0 = Some (0, s)"
      "try_recover i d = (set_done i d, None)"
  | (implausible) n s where "\<not> sf_done f" "missing_scan (fd_media d) (members f) 0 0 = Some (n, s)" "n \<noteq> 0"
      "fd_payload_size d < unat (xa_length (rebuild d f))" "try_recover i d = (set_done i d, None)"
  | (found) n s where "\<not> sf_done f" "0 \<le> fec_seq_diff (fd_floor d) (sf_base f)"
      "fec_seq_diff (fd_last_seq d) (newest_member f) \<le> 0"
      "missing_scan (fd_media d) (members f) 0 0 = Some (n, s)" "n \<noteq> 0"
      "unat (xa_length (rebuild d f)) \<le> fd_payload_size d"
      "try_recover i d = (set_done i (d\<lparr>fd_media := (fd_media d)(s \<mapsto> rebuilt_media (rebuild d f))\<rparr>),
         Some (rebuilt_packet s (rebuild d f)))"
proof -
  consider "sf_done f" | "\<not> sf_done f" "fec_seq_diff (fd_floor d) (sf_base f) < 0"
    | "\<not> sf_done f" "\<not> fec_seq_diff (fd_floor d) (sf_base f) < 0"
      "0 < fec_seq_diff (fd_last_seq d) (newest_member f)"
    | "\<not> sf_done f" "\<not> fec_seq_diff (fd_floor d) (sf_base f) < 0"
      "\<not> 0 < fec_seq_diff (fd_last_seq d) (newest_member f)" by blast
  then show thesis
  proof cases
    case 4
    then have t: "try_recover i d = (case missing_scan (fd_media d) (members f) 0 0 of
        None \<Rightarrow> (d, None)
      | Some (n, missing) \<Rightarrow>
          if n = 0 then (set_done i d, None)
          else if fd_payload_size d < unat (xa_length (rebuild d f)) then (set_done i d, None)
          else (set_done i (d\<lparr>fd_media := (fd_media d)(missing \<mapsto> rebuilt_media (rebuild d f))\<rparr>),
                Some (rebuilt_packet missing (rebuild d f))))"
      by (simp only: try_recover_def Let_def assms if_False)
    show thesis
    proof (cases "missing_scan (fd_media d) (members f) 0 0")
      case None
      with 4 t many show thesis by simp
    next
      case (Some r)
      then obtain n s where r: "missing_scan (fd_media d) (members f) 0 0 = Some (n, s)" by (cases r) simp
      consider "n = 0" | "n \<noteq> 0" "fd_payload_size d < unat (xa_length (rebuild d f))"
        | "n \<noteq> 0" "\<not> fd_payload_size d < unat (xa_length (rebuild d f))" by blast
      then show thesis using 4 t r complete implausible found by cases simp_all
    qed
  qed (use assms settled aged future in \<open>simp_all add: try_recover_def Let_def\<close>)
qed

lemma try_recover_length [simp]: "length (fd_fecs (fst (try_recover i d))) = length (fd_fecs d)"
  by (rule try_recover_cases [of d i, OF refl]) simp_all

lemma recover_pass_length [simp]: "length (fd_fecs (fst (recover_pass is d))) = length (fd_fecs d)"
  by (induction "is" arbitrary: d) (simp_all add: Let_def split_def)

lemma try_recover_pending:
  assumes "i < length (fd_fecs d)"
  shows "pending (fst (try_recover i d)) \<le> pending d
    \<and> (snd (try_recover i d) \<noteq> None \<longrightarrow> pending (fst (try_recover i d)) < pending d)"
proof -
  have closed: "pending (set_done i (d\<lparr>fd_media := m\<rparr>)) < pending d \<and> pending (set_done i d) < pending d"
    if "\<not> sf_done (fd_fecs d ! i)" for m
    using pending_set_done [of i d] pending_set_done [of i "d\<lparr>fd_media := m\<rparr>"] assms that by simp
  show ?thesis
    by (rule try_recover_cases [of d i, OF refl]) (use closed in \<open>auto simp: less_imp_le\<close>)
qed

lemma recover_pass_pending:
  assumes "\<forall>i \<in> set is. i < length (fd_fecs d)"
  shows "pending (fst (recover_pass is d)) \<le> pending d
    \<and> (snd (recover_pass is d) \<noteq> [] \<longrightarrow> pending (fst (recover_pass is d)) < pending d)"
  using assms
proof (induction "is" arbitrary: d)
  case (Cons i "is")
  let ?d = "fst (try_recover i d)"
  have "pending (fst (recover_pass is ?d)) \<le> pending ?d
    \<and> (snd (recover_pass is ?d) \<noteq> [] \<longrightarrow> pending (fst (recover_pass is ?d)) < pending ?d)"
    using Cons.prems by (intro Cons.IH) simp
  then show ?case using try_recover_pending [of i d] Cons.prems
    by (auto simp: Let_def split_def split: option.splits)
qed simp

text \<open>\<^verbatim>\<open>recover_all\<close>: passes until one recovers nothing.\<close>

function recover_all :: "fec_decoder \<Rightarrow> fec_decoder \<times> recovered list" where
  "recover_all d =
     (let (d1, rs) = recover_pass [0..<length (fd_fecs d)] d
      in if rs = [] then (d1, [])
         else let (d2, rs2) = recover_all d1 in (d2, rs @ rs2))"
  by pat_completeness auto

termination
proof (relation "measure pending")
  fix d x d1 rs
  assume "x = recover_pass [0..<length (fd_fecs d)] d" "(d1, rs) = x" "rs \<noteq> []"
  then show "(d1, d) \<in> measure pending"
    using recover_pass_pending [of "[0..<length (fd_fecs d)]" d] by (metis atLeastLessThan_iff
        fst_conv in_measure set_upt snd_conv)
qed simp

declare recover_all.simps [simp del]

section \<open>The two inputs\<close>

definition push_media ::
    "u32 \<Rightarrow> u32 \<Rightarrow> u8 \<Rightarrow> u32 \<Rightarrow> bytes \<Rightarrow> fec_decoder \<Rightarrow> fec_decoder \<times> recovered list" where
  "push_media s ts pt ssrc payload d0 =
     (let d = fd_advance s d0 in
      if fd_media d s \<noteq> None then (d, [])
      else let m = \<lparr>sm_ts = ts, sm_pt = pt, sm_ssrc = ssrc, sm_payload = payload\<rparr>;
               (d1, out) = recover_all (d\<lparr>fd_media := (fd_media d)(s \<mapsto> m)\<rparr>)
           in (fd_evict d1, out))"

definition same_group :: "u32 \<Rightarrow> int \<Rightarrow> int \<Rightarrow> stored_fec \<Rightarrow> bool" where
  "same_group base stride count f \<longleftrightarrow>
     sf_base f = base \<and> sf_stride f = stride \<and> sf_count f = count"

text \<open>The bound of \<^verbatim>\<open>new\<close> is at least 16, so \<^verbatim>\<open>remove(0)\<close> finds an element.\<close>

definition make_room :: "fec_decoder \<Rightarrow> fec_decoder" where
  "make_room d =
     (if fd_max_fecs d \<le> length (fd_fecs d) then
        let d1 = fd_evict d
        in if fd_max_fecs d1 \<le> length (fd_fecs d1) then d1\<lparr>fd_fecs := drop 1 (fd_fecs d1)\<rparr> else d1
      else d)"

definition push_fec :: "fec_packet \<Rightarrow> fec_decoder \<Rightarrow> fec_decoder \<times> recovered list" where
  "push_fec p d =
     (let base = fd_widen d (fp_base p);
          stride = int (unat (fp_offset p));
          count = int (unat (fp_na p))
      in if stride \<le> 0 \<or> count \<le> 1 \<or> na10_max < count then (d, [])
         else if \<not> geometry_ok (fd_cfg d) stride count then (d, [])
         else if list_ex (same_group base stride count) (fd_fecs d) then (d, [])
         else
           let d1 = make_room d;
               f = \<lparr>sf_base = base, sf_stride = stride, sf_count = count,
                    sf_length_rec = fp_length_recovery p, sf_pt_rec = fp_pt_recovery p AND 0x7f,
                    sf_ts_rec = fp_ts_recovery p, sf_payload = fp_payload p, sf_done = False\<rparr>;
               (d2, out) = recover_all (d1\<lparr>fd_fecs := fd_fecs d1 @ [f]\<rparr>)
           in (fd_evict d2, out))"

end
