(* ===== verification/Fec_Window.thy ===== *)
theory Fec_Window
  imports Fec_Encoder Fec_Decoder Interfaces
begin

text \<open>
  The window of the FEC receiver under arbitrary input, forged packets included: how far a stored
  packet can be from the anchor, how many FEC packets are kept, that only lost and already sent
  sequence numbers are ever rebuilt, and that a truncated base is widened to the number it stood for.
\<close>

section \<open>Distances\<close>

lemma fec_diff_add: "- (2 ^ 31) < n \<Longrightarrow> n \<le> 2 ^ 31 \<Longrightarrow> fec_seq_diff a (fec_seq_add a n) = n"
  using seq_distance_add [of n a] by (simp add: fec_seq_diff_def fec_seq_add_def)

lemma fec_add_diff: "fec_seq_add a (fec_seq_diff a s) = s"
  by (simp add: fec_seq_diff_def fec_seq_add_def seq_add_eq word_of_int_distance)

lemma fec_add_add: "fec_seq_add (fec_seq_add a m) n = fec_seq_add a (m + n)"
  by (simp add: fec_seq_add_def seq_add_add)

lemma fec_diff_bounds: "- (2 ^ 31) < fec_seq_diff a s" "fec_seq_diff a s \<le> 2 ^ 31"
  using seq_distance_bounds [of a s] by (simp_all add: fec_seq_diff_def)

lemma pow_30_31: "(2 :: int) ^ 30 \<le> 2 ^ 31"
  by simp

text \<open>The two ways to say how far behind the anchor a number lies.\<close>

lemma behind_floor:
  assumes "0 \<le> fd_window d" "fd_window d < 2 ^ 30" "0 \<le> fec_seq_diff (fd_floor d) s"
  shows "fec_seq_diff (fd_last_seq d) s = fec_seq_diff (fd_floor d) s - fd_window d"
proof -
  have "s = fec_seq_add (fd_last_seq d) (fec_seq_diff (fd_floor d) s - fd_window d)"
    using fec_add_diff [of "fd_floor d" s] by (simp add: fd_floor_def fec_add_add)
  moreover have "- (2 ^ 31) < fec_seq_diff (fd_floor d) s - fd_window d"
    "fec_seq_diff (fd_floor d) s - fd_window d \<le> 2 ^ 31"
    using assms fec_diff_bounds [of "fd_floor d" s] pow_30_31 by linarith+
  ultimately show ?thesis using fec_diff_add by metis
qed

lemma floor_behind:
  assumes "0 \<le> fd_window d" "fd_window d < 2 ^ 30" "fec_seq_diff (fd_last_seq d) s \<le> 0"
  shows "fec_seq_diff (fd_floor d) s = fec_seq_diff (fd_last_seq d) s + fd_window d"
proof -
  let ?n = "fec_seq_diff (fd_last_seq d) s"
  have "s = fec_seq_add (fd_floor d) (?n + fd_window d)"
    using fec_add_diff [of "fd_last_seq d" s] by (simp add: fd_floor_def fec_add_add)
  moreover have "- (2 ^ 31) < ?n + fd_window d" "?n + fd_window d \<le> 2 ^ 31"
    using assms fec_diff_bounds [of "fd_last_seq d" s] pow_30_31 by linarith+
  ultimately show ?thesis using fec_diff_add by metis
qed

section \<open>Invariants of the window\<close>

text \<open>What never changes after construction.\<close>

definition fd_static :: "fec_config \<Rightarrow> nat \<Rightarrow> fec_decoder \<Rightarrow> bool" where
  "fd_static cfg sz d \<longleftrightarrow>
     fd_cfg d = cfg \<and> fd_payload_size d = sz
     \<and> fd_window d = int (matrix_size cfg * 3 + fc_cols cfg + 8)
     \<and> fd_max_fecs d = (fc_cols cfg + fc_rows cfg) * 4 + 16"

definition fec_shape :: "fec_config \<Rightarrow> stored_fec \<Rightarrow> bool" where
  "fec_shape cfg f \<longleftrightarrow> 0 < sf_stride f \<and> 1 < sf_count f \<and> sf_count f \<le> na10_max
     \<and> geometry_ok cfg (sf_stride f) (sf_count f)"

text \<open>During recovery: groups of the configured shape, media behind the anchor or, after a jump of
  nearly half the space, out of the window and about to be dropped.\<close>

definition behind :: "fec_decoder \<Rightarrow> u32 \<Rightarrow> bool" where
  "behind d s \<longleftrightarrow> fec_seq_diff (fd_last_seq d) s \<le> 0 \<or> fec_seq_diff (fd_floor d) s < 0"

definition fd_mid :: "fec_config \<Rightarrow> nat \<Rightarrow> fec_decoder \<Rightarrow> bool" where
  "fd_mid cfg sz d \<longleftrightarrow>
     fd_static cfg sz d
     \<and> (\<forall>s. fd_media d s \<noteq> None \<longrightarrow> fd_have_seq d \<and> behind d s)
     \<and> (\<forall>f \<in> set (fd_fecs d). fec_shape cfg f)"

text \<open>Between inputs: everything inside the window, and no more FEC packets than the cap.\<close>

definition fd_ok :: "fec_config \<Rightarrow> nat \<Rightarrow> fec_decoder \<Rightarrow> bool" where
  "fd_ok cfg sz d \<longleftrightarrow>
     fd_mid cfg sz d \<and> length (fd_fecs d) \<le> fd_max_fecs d
     \<and> (\<forall>s. fd_media d s \<noteq> None \<longrightarrow> 0 \<le> fec_seq_diff (fd_floor d) s)
     \<and> (\<forall>f \<in> set (fd_fecs d). 0 \<le> fec_seq_diff (fd_floor d) (sf_base f))"

lemma fd_ok_new: "fd_ok cfg sz (decoder_new cfg sz isn)"
  by (simp add: fd_ok_def fd_mid_def fd_static_def decoder_new_def)

lemma fd_static_window:
  assumes "fec_config_ok cfg" "fd_static cfg sz d"
  shows "0 \<le> fd_window d" "fd_window d < 2 ^ 30"
    "3 * (int (fc_cols cfg) * int (fc_rows cfg)) + int (fc_cols cfg) < fd_window d"
proof -
  have w: "fd_window d = 3 * (int (fc_cols cfg) * int (fc_rows cfg)) + int (fc_cols cfg) + 8"
    using assms(2) by (simp add: fd_static_def matrix_size_def)
  have "int (fc_cols cfg * fc_rows cfg) \<le> int (2 ^ 20)" "int (fc_cols cfg) \<le> int (2 ^ 20)"
    using fec_config_okD(3,4) [OF assms(1)] by (simp_all only: of_nat_le_iff)
  then show "0 \<le> fd_window d" "fd_window d < 2 ^ 30"
    "3 * (int (fc_cols cfg) * int (fc_rows cfg)) + int (fc_cols cfg) < fd_window d"
    using w by simp_all
qed

lemma shape_span:
  assumes "fec_config_ok cfg" "fec_shape cfg f" "fd_static cfg sz d" "0 \<le> k" "k < sf_count f"
  shows "0 \<le> k * sf_stride f" "k * sf_stride f \<le> (sf_count f - 1) * sf_stride f"
    "(sf_count f - 1) * sf_stride f \<le> fd_window d"
proof -
  note f = assms(2) [unfolded fec_shape_def]
  show "0 \<le> k * sf_stride f" "k * sf_stride f \<le> (sf_count f - 1) * sf_stride f"
    using assms(4,5) f by (simp_all add: mult_right_mono)
  have "(sf_count f - 1) * sf_stride f \<le> sf_count f * sf_stride f" using f by (simp add: mult_right_mono)
  also have "\<dots> \<le> 3 * (int (fc_cols cfg) * int (fc_rows cfg)) + int (fc_cols cfg)"
  proof (cases "sf_stride f = int (fc_cols cfg) \<and> sf_count f = int (fc_rows cfg)")
    case True
    then show ?thesis by simp
  next
    case False
    with f have "sf_stride f = 1" "sf_count f = int (fc_cols cfg)"
      by (auto simp: geometry_ok_def split: if_splits)
    then show ?thesis by simp
  qed
  also have "\<dots> \<le> fd_window d" using fd_static_window(3) [OF assms(1,3)] by simp
  finally show "(sf_count f - 1) * sf_stride f \<le> fd_window d" .
qed

text \<open>A group whose base is in the window and whose newest member was sent lies in the window
  entirely.\<close>

lemma group_in_window:
  assumes "fec_config_ok cfg" "fec_shape cfg f" "fd_static cfg sz d"
    "0 \<le> fec_seq_diff (fd_floor d) (sf_base f)"
    "fec_seq_diff (fd_last_seq d) (newest_member f) \<le> 0" "s \<in> set (members f)"
  shows "fec_seq_diff (fd_last_seq d) s \<le> 0" "0 \<le> fec_seq_diff (fd_floor d) s"
proof -
  let ?x = "fec_seq_diff (fd_floor d) (sf_base f)" and ?W = "fd_window d"
  let ?span = "(sf_count f - 1) * sf_stride f"
  note W = fd_static_window [OF assms(1,3)]
  have c: "0 \<le> sf_count f - 1" "sf_count f - 1 < sf_count f" using assms(2) by (simp_all add: fec_shape_def)
  note sp = shape_span [OF assms(1-3) c]
  have x: "?x \<le> 2 ^ 31" by (rule fec_diff_bounds)
  have base: "sf_base f = fec_seq_add (fd_last_seq d) (?x - ?W)"
    using fec_add_diff [of "fd_floor d" "sf_base f"] by (simp add: fd_floor_def fec_add_add)
  then have "newest_member f = fec_seq_add (fd_last_seq d) (?x - ?W + ?span)"
    unfolding newest_member_def by (metis fec_add_add)
  moreover have "- (2 ^ 31) < ?x - ?W + ?span" "?x - ?W + ?span \<le> 2 ^ 31"
    using x sp W assms(4) pow_30_31 by linarith+
  ultimately have new: "?x - ?W + ?span \<le> 0" using fec_diff_add assms(5) by metis
  from assms(6) obtain k where k: "s = fec_seq_add (sf_base f) (int k * sf_stride f)" "int k < sf_count f"
    by (auto simp: members_def member_seq_def zless_nat_eq_int_zless)
  note spk = shape_span [OF assms(1-3) _ k(2)]
  have s: "s = fec_seq_add (fd_last_seq d) (?x - ?W + int k * sf_stride f)"
    using base k(1) by (metis fec_add_add)
  have n: "- ?W \<le> ?x - ?W + int k * sf_stride f" "?x - ?W + int k * sf_stride f \<le> 0"
    using spk new assms(4) by linarith+
  have "fec_seq_diff (fd_last_seq d) s = ?x - ?W + int k * sf_stride f"
    unfolding s using n W pow_30_31 by (intro fec_diff_add) linarith+
  with n floor_behind [OF W(1,2), of s] show "fec_seq_diff (fd_last_seq d) s \<le> 0"
    "0 \<le> fec_seq_diff (fd_floor d) s" by linarith+
qed

section \<open>The scan and the loop\<close>

lemma missing_scan_eq:
  "n \<le> 1 \<Longrightarrow> missing_scan media ss n m =
     (case filter (\<lambda>s. media s = None) ss of
        [] \<Rightarrow> Some (n, m)
      | [s] \<Rightarrow> if n = 0 then Some (1, s) else None
      | _ \<Rightarrow> None)"
proof (induction ss arbitrary: n m)
  case (Cons s ss)
  then show ?case by (cases "n = 0") (auto split: list.splits)
qed simp

definition missing_members :: "fec_decoder \<Rightarrow> stored_fec \<Rightarrow> u32 list" where
  "missing_members d f = filter (\<lambda>s. fd_media d s = None) (members f)"

lemma missing_scan_Some:
  "missing_scan (fd_media d) (members f) 0 0 = Some (n, s) \<Longrightarrow>
     (n = 0 \<and> missing_members d f = []) \<or> (n = 1 \<and> missing_members d f = [s])"
  by (auto simp: missing_scan_eq missing_members_def split: list.splits)

lemma missing_scan_None:
  "missing_scan (fd_media d) (members f) 0 0 = None \<Longrightarrow> 2 \<le> length (missing_members d f)"
  by (auto simp: missing_scan_eq missing_members_def split: list.splits)

lemma recover_pass_rule:
  assumes step: "\<And>d i. P d \<Longrightarrow> i < length (fd_fecs d) \<Longrightarrow>
      P (fst (try_recover i d)) \<and> (\<forall>r. snd (try_recover i d) = Some r \<longrightarrow> Q r)"
    and "P d" "\<forall>i \<in> set is. i < length (fd_fecs d)"
  shows "P (fst (recover_pass is d)) \<and> (\<forall>r \<in> set (snd (recover_pass is d)). Q r)"
  using assms(2,3)
proof (induction "is" arbitrary: d)
  case (Cons i "is")
  have "P (fst (try_recover i d))" "\<forall>r. snd (try_recover i d) = Some r \<longrightarrow> Q r"
    using step [of d i] Cons.prems by simp_all
  with Cons show ?case by (auto simp: Let_def split_def split: option.splits)
qed simp

lemma recover_all_rule:
  assumes step: "\<And>d i. P d \<Longrightarrow> i < length (fd_fecs d) \<Longrightarrow>
      P (fst (try_recover i d)) \<and> (\<forall>r. snd (try_recover i d) = Some r \<longrightarrow> Q r)"
  shows "P d \<Longrightarrow> P (fst (recover_all d)) \<and> (\<forall>r \<in> set (snd (recover_all d)). Q r)"
proof (induction d rule: recover_all.induct)
  case (1 d)
  obtain d1 rs where r: "recover_pass [0..<length (fd_fecs d)] d = (d1, rs)" by force
  have "P d1 \<and> (\<forall>r \<in> set rs. Q r)"
    using recover_pass_rule [of P Q d "[0..<length (fd_fecs d)]", OF step 1(2)] r by simp
  with 1(1) [OF r [symmetric] refl] show ?case
    by (subst (1 2) recover_all.simps) (auto simp: r Let_def split_def)
qed

section \<open>Recovery keeps the window\<close>

lemma set_done_shape:
  assumes "\<forall>f \<in> set (fd_fecs d). R (sf_base f) (sf_stride f) (sf_count f)" "i < length (fd_fecs d)"
  shows "\<forall>f \<in> set (fd_fecs (set_done i d)). R (sf_base f) (sf_stride f) (sf_count f)"
proof -
  have "set (fd_fecs (set_done i d)) \<subseteq> insert ((fd_fecs d ! i)\<lparr>sf_done := True\<rparr>) (set (fd_fecs d))"
    unfolding set_done_def by (simp add: set_update_subset_insert)
  then show ?thesis using assms by (fastforce simp: nth_mem)
qed

lemma behind_cong: "fd_last_seq d = fd_last_seq e \<Longrightarrow> fd_window d = fd_window e \<Longrightarrow> behind d s = behind e s"
  by (simp add: behind_def fd_floor_def)

lemma behind_same [simp]:
  "behind (set_done i d) s = behind d s" "behind (d\<lparr>fd_media := m\<rparr>) s = behind d s"
  "behind (d\<lparr>fd_fecs := fs\<rparr>) s = behind d s"
  by (rule behind_cong; simp)+

lemma fd_floor_same [simp]:
  "fd_floor (set_done i d) = fd_floor d" "fd_floor (d\<lparr>fd_media := m\<rparr>) = fd_floor d"
  "fd_floor (d\<lparr>fd_fecs := fs\<rparr>) = fd_floor d"
  by (simp_all add: fd_floor_def)

lemma fd_mid_set_done:
  assumes mid: "fd_mid cfg sz d" and i: "i < length (fd_fecs d)"
  shows "fd_mid cfg sz (set_done i d)"
proof -
  have "\<forall>f \<in> set (fd_fecs d). (\<lambda>b s c. 0 < s \<and> 1 < c \<and> c \<le> na10_max \<and> geometry_ok cfg s c)
      (sf_base f) (sf_stride f) (sf_count f)"
    using mid unfolding fd_mid_def fec_shape_def by blast
  from set_done_shape [OF this i] have "\<forall>f \<in> set (fd_fecs (set_done i d)). fec_shape cfg f"
    unfolding fec_shape_def .
  with mid show ?thesis unfolding fd_mid_def fd_static_def by simp
qed

lemma length_members [simp]: "length (members f) = nat (sf_count f)"
  by (simp add: members_def)

lemma one_missing_present:
  assumes "fec_shape cfg f" "missing_members d f = [s]"
  obtains t where "t \<in> set (members f)" "fd_media d t \<noteq> None"
proof -
  have "length (missing_members d f) < length (members f)" using assms by (simp add: fec_shape_def)
  then have "filter (\<lambda>s. fd_media d s = None) (members f) \<noteq> members f" by (auto simp: missing_members_def)
  with that show thesis by (auto simp: filter_id_conv)
qed

definition recovery_ctx :: "fec_config \<Rightarrow> nat \<Rightarrow> fec_decoder \<Rightarrow> fec_decoder \<Rightarrow> bool" where
  "recovery_ctx cfg sz d0 d \<longleftrightarrow>
     fd_mid cfg sz d \<and> fd_last_seq d = fd_last_seq d0 \<and> fd_window d = fd_window d0
     \<and> length (fd_fecs d) = length (fd_fecs d0)
     \<and> fd_max_fecs d = fd_max_fecs d0 \<and> fd_media d0 \<subseteq>\<^sub>m fd_media d"

definition fresh_in_window :: "fec_decoder \<Rightarrow> recovered \<Rightarrow> bool" where
  "fresh_in_window d0 r \<longleftrightarrow>
     fd_media d0 (rc_seq r) = None
     \<and> fec_seq_diff (fd_last_seq d0) (rc_seq r) \<le> 0 \<and> 0 \<le> fec_seq_diff (fd_floor d0) (rc_seq r)"

lemma try_recover_ctx:
  assumes ok: "fec_config_ok cfg" and ctx: "recovery_ctx cfg sz d0 d" and i: "i < length (fd_fecs d)"
  shows "recovery_ctx cfg sz d0 (fst (try_recover i d))
    \<and> (\<forall>r. snd (try_recover i d) = Some r \<longrightarrow> fresh_in_window d0 r)"
proof -
  have mid: "fd_mid cfg sz d" using ctx by (simp add: recovery_ctx_def)
  have closed: "recovery_ctx cfg sz d0 (set_done i d)"
    using ctx fd_mid_set_done [OF mid i] by (simp add: recovery_ctx_def)
  define f where "f = fd_fecs d ! i"
  show ?thesis
  proof (rule try_recover_cases [of d i f])
    show "fd_fecs d ! i = f" by (simp add: f_def)
    assume a: "0 \<le> fec_seq_diff (fd_floor d) (sf_base f)"
      "fec_seq_diff (fd_last_seq d) (newest_member f) \<le> 0"
    fix n s
    assume scan: "missing_scan (fd_media d) (members f) 0 0 = Some (n, s)" "n \<noteq> 0"
      and found: "try_recover i d =
        (set_done i (d\<lparr>fd_media := (fd_media d)(s \<mapsto> rebuilt_media (rebuild d f))\<rparr>),
         Some (rebuilt_packet s (rebuild d f)))"
    from missing_scan_Some [OF scan(1)] scan(2) have one: "missing_members d f = [s]" by simp
    then have s: "s \<in> set (members f)" "fd_media d s = None"
      by (auto simp: missing_members_def filter_eq_Cons_iff)
    have shape: "fec_shape cfg f" "fd_static cfg sz d" using mid i by (simp_all add: fd_mid_def f_def)
    note w = group_in_window [OF ok shape a s(1)]
    obtain t where "fd_media d t \<noteq> None" using one_missing_present [OF shape(1) one] by blast
    then have "fd_have_seq d" using mid by (simp add: fd_mid_def)
    with mid w(1) have "fd_mid cfg sz (d\<lparr>fd_media := (fd_media d)(s \<mapsto> rebuilt_media (rebuild d f))\<rparr>)"
      by (simp add: fd_mid_def fd_static_def behind_def)
    then have "fd_mid cfg sz (set_done i (d\<lparr>fd_media := (fd_media d)(s \<mapsto> rebuilt_media (rebuild d f))\<rparr>))"
      using i by (intro fd_mid_set_done) simp_all
    moreover have d0: "fd_media d0 \<subseteq>\<^sub>m fd_media d" using ctx by (simp add: recovery_ctx_def)
    moreover have none: "fd_media d0 s = None" using d0 s(2) by (metis domIff map_le_def)
    moreover have "fd_media d0 \<subseteq>\<^sub>m (fd_media d)(s \<mapsto> rebuilt_media (rebuild d f))"
      using d0 none unfolding map_le_def by (metis domIff fun_upd_apply)
    moreover have "fd_floor d = fd_floor d0" using ctx by (simp add: fd_floor_def recovery_ctx_def)
    ultimately show ?thesis using ctx w
      by (simp add: found recovery_ctx_def fresh_in_window_def rebuilt_packet_def)
  qed (simp_all add: ctx closed)
qed

lemma recover_all_ctx:
  assumes "fec_config_ok cfg" "fd_mid cfg sz d"
  shows "recovery_ctx cfg sz d (fst (recover_all d)) \<and> (\<forall>r \<in> set (snd (recover_all d)). fresh_in_window d r)"
proof (rule recover_all_rule)
  show "recovery_ctx cfg sz d d" using assms(2) by (simp add: recovery_ctx_def)
qed (rule try_recover_ctx [OF assms(1)])

section \<open>The two inputs keep the window\<close>

lemma fd_evict_fields [simp]:
  "fd_cfg (fd_evict d) = fd_cfg d" "fd_payload_size (fd_evict d) = fd_payload_size d"
  "fd_window (fd_evict d) = fd_window d" "fd_max_fecs (fd_evict d) = fd_max_fecs d"
  "fd_last_seq (fd_evict d) = fd_last_seq d" "fd_have_seq (fd_evict d) = fd_have_seq d"
  "fd_floor (fd_evict d) = fd_floor d"
  by (simp_all add: fd_evict_def fd_floor_def)

lemma fd_evict_ok:
  assumes "fd_mid cfg sz d" "length (fd_fecs d) \<le> fd_max_fecs d"
  shows "fd_ok cfg sz (fd_evict d)"
  using assms le_trans [OF length_filter_le]
  by (auto simp: fd_ok_def fd_mid_def fd_static_def fd_evict_def fd_floor_def behind_def split: if_splits)

lemma fd_ok_mid: "fd_ok cfg sz d \<Longrightarrow> fd_mid cfg sz d"
  by (simp add: fd_ok_def)

text \<open>A media packet exactly half the sequence space ahead is as much behind as ahead; every other
  number moves the anchor past all that is stored.\<close>

definition not_half :: "fec_decoder \<Rightarrow> u32 \<Rightarrow> bool" where
  "not_half d s \<longleftrightarrow> fec_seq_diff (fd_last_seq d) s \<noteq> 2 ^ 31"

lemma fd_advance_mid:
  assumes "fec_config_ok cfg" "fd_ok cfg sz d" "not_half d s"
  shows "fd_mid cfg sz (fd_advance s d)"
proof -
  have mid: "fd_mid cfg sz d" using assms(2) by (rule fd_ok_mid)
  then have static: "fd_static cfg sz d" by (simp add: fd_mid_def)
  note W = fd_static_window [OF assms(1) static]
  have "fec_seq_diff s t \<le> 0 \<or> fec_seq_diff (fec_seq_add s (- fd_window d)) t < 0"
    if t: "fd_media d t \<noteq> None" and adv: "\<not> fd_have_seq d \<or> 0 < fec_seq_diff (fd_last_seq d) s" for t
  proof -
    let ?j = "fec_seq_diff (fd_last_seq d) s" and ?n = "fec_seq_diff (fd_last_seq d) t"
    have ok: "fd_have_seq d" "behind d t" "0 \<le> fec_seq_diff (fd_floor d) t"
      using mid t assms(2) by (simp_all add: fd_mid_def fd_ok_def)
    then have n: "?n \<le> 0" by (simp add: behind_def)
    have w: "0 \<le> ?n + fd_window d" using floor_behind [OF W(1,2) n(1)] ok(3) by linarith
    have j: "0 < ?j" "?j \<le> 2 ^ 31" "?j \<noteq> 2 ^ 31"
      using adv ok(1) fec_diff_bounds assms(3) by (simp_all add: not_half_def)
    have "t = fec_seq_add (fd_last_seq d) ?n" "s = fec_seq_add (fd_last_seq d) ?j"
      by (simp_all only: fec_add_diff)
    then have t': "t = fec_seq_add s (?n - ?j)" by (metis add_diff_cancel_left' add_diff_eq fec_add_add)
    show ?thesis
    proof (cases "- (2 ^ 31) < ?n - ?j")
      case True
      then have "fec_seq_diff s (fec_seq_add s (?n - ?j)) = ?n - ?j"
        using n j by (intro fec_diff_add) linarith+
      then show ?thesis using n j unfolding t' [symmetric] by linarith
    next
      case False
      have "t = fec_seq_add (fec_seq_add s (- fd_window d)) (?n - ?j + fd_window d)"
        using t' by (simp add: fec_add_add)
      moreover have "- (2 ^ 31) < ?n - ?j + fd_window d" "?n - ?j + fd_window d < 0"
        using w j False W(2) pow_30_31 by linarith+
      ultimately have "fec_seq_diff (fec_seq_add s (- fd_window d)) t = ?n - ?j + fd_window d"
        using fec_diff_add by (metis less_imp_le less_le_trans zero_le_numeral zero_le_power)
      with \<open>?n - ?j + fd_window d < 0\<close> show ?thesis by simp
    qed
  qed
  with mid show "fd_mid cfg sz (fd_advance s d)"
    by (auto simp: fd_advance_def fd_mid_def fd_static_def behind_def fd_floor_def)
qed

lemma fd_advance_fields [simp]:
  "fd_media (fd_advance s d) = fd_media d" "fd_fecs (fd_advance s d) = fd_fecs d"
  "fd_max_fecs (fd_advance s d) = fd_max_fecs d" "fd_window (fd_advance s d) = fd_window d"
  "fd_have_seq (fd_advance s d)" "fec_seq_diff (fd_last_seq (fd_advance s d)) s \<le> 0"
  "fd_payload_size (fd_advance s d) = fd_payload_size d" "fd_cfg (fd_advance s d) = fd_cfg d"
  by (simp_all add: fd_advance_def fec_seq_diff_def)

lemma fd_mid_insert:
  "fd_mid cfg sz d \<Longrightarrow> fd_have_seq d \<Longrightarrow> behind d s \<Longrightarrow> fd_mid cfg sz (d\<lparr>fd_media := (fd_media d)(s \<mapsto> m)\<rparr>)"
  by (simp add: fd_mid_def fd_static_def)

text \<open>A duplicate never moves the anchor.\<close>

lemma fd_advance_dup:
  assumes "fd_ok cfg sz d" "fd_media d s \<noteq> None"
  shows "fd_advance s d = d"
proof -
  have "fd_have_seq d" "behind d s" "0 \<le> fec_seq_diff (fd_floor d) s"
    using assms by (simp_all add: fd_ok_def fd_mid_def)
  then show ?thesis by (simp add: fd_advance_def behind_def)
qed

lemma recover_all_length: "length (fd_fecs (fst (recover_all d))) = length (fd_fecs d)"
  using recover_all_rule [of "\<lambda>e. length (fd_fecs e) = length (fd_fecs d)" "\<lambda>r. True" d] by simp

lemma push_media_ok:
  assumes "fec_config_ok cfg" "fd_ok cfg sz d" "not_half d s"
  shows "fd_ok cfg sz (fst (push_media s ts pt ssrc payload d))"
proof (cases "fd_media d s = None")
  case False
  with assms(2) show ?thesis by (simp add: push_media_def fd_advance_dup Let_def)
next
  case True
  define d1 where "d1 = (fd_advance s d)\<lparr>fd_media := (fd_media d)(s \<mapsto>
      \<lparr>sm_ts = ts, sm_pt = pt, sm_ssrc = ssrc, sm_payload = payload\<rparr>)\<rparr>"
  have "fd_mid cfg sz d1"
    using fd_mid_insert [OF fd_advance_mid [OF assms], of s] by (simp add: d1_def behind_def)
  note ctx = recover_all_ctx [OF assms(1) this]
  have "length (fd_fecs d1) \<le> fd_max_fecs d1" using assms(2) by (simp add: d1_def fd_ok_def)
  with ctx have "fd_ok cfg sz (fd_evict (fst (recover_all d1)))"
    by (intro fd_evict_ok) (simp_all add: recovery_ctx_def)
  then show ?thesis using True by (simp add: push_media_def Let_def d1_def split_def)
qed

lemma make_room_ok:
  assumes "fd_ok cfg sz d"
  shows "fd_mid cfg sz (make_room d)" "length (fd_fecs (make_room d)) < fd_max_fecs d"
proof -
  have len: "length (fd_fecs d) \<le> fd_max_fecs d" "0 < fd_max_fecs d" "fd_mid cfg sz d"
    using assms by (simp_all add: fd_ok_def fd_mid_def fd_static_def)
  have "fd_mid cfg sz (fd_evict d)" using fd_evict_ok [OF len(3,1)] by (simp add: fd_ok_def)
  then have "fd_mid cfg sz ((fd_evict d)\<lparr>fd_fecs := drop 1 (fd_fecs (fd_evict d))\<rparr>)"
    by (auto simp: fd_mid_def fd_static_def dest: in_set_dropD)
  with \<open>fd_mid cfg sz (fd_evict d)\<close> len(3) show "fd_mid cfg sz (make_room d)"
    by (simp add: make_room_def Let_def)
  have "length (fd_fecs (fd_evict d)) \<le> fd_max_fecs d"
    using len(1) le_trans [OF length_filter_le] by (auto simp: fd_evict_def)
  with len(2) show "length (fd_fecs (make_room d)) < fd_max_fecs d"
    by (auto simp: make_room_def Let_def)
qed

lemma make_room_fields [simp]:
  "fd_cfg (make_room d) = fd_cfg d" "fd_payload_size (make_room d) = fd_payload_size d"
  "fd_window (make_room d) = fd_window d" "fd_max_fecs (make_room d) = fd_max_fecs d"
  "fd_last_seq (make_room d) = fd_last_seq d" "fd_have_seq (make_room d) = fd_have_seq d"
  "fd_floor (make_room d) = fd_floor d"
  by (simp_all add: make_room_def fd_floor_def Let_def)

definition stored_of :: "fec_decoder \<Rightarrow> fec_packet \<Rightarrow> stored_fec" where
  "stored_of d p =
     \<lparr>sf_base = fd_widen d (fp_base p), sf_stride = int (unat (fp_offset p)),
      sf_count = int (unat (fp_na p)), sf_length_rec = fp_length_recovery p,
      sf_pt_rec = fp_pt_recovery p AND 0x7f, sf_ts_rec = fp_ts_recovery p,
      sf_payload = fp_payload p, sf_done = False\<rparr>"

text \<open>A FEC packet is refused, or stored and the recovery run.\<close>

lemma push_fec_cases:
  obtains (refused) "push_fec p d = (d, [])"
  | (stored) "fec_shape (fd_cfg d) (stored_of d p)"
      "push_fec p d =
         (let (d2, out) = recover_all ((make_room d)\<lparr>fd_fecs := fd_fecs (make_room d) @ [stored_of d p]\<rparr>)
          in (fd_evict d2, out))"
proof -
  let ?d1 = "(make_room d)\<lparr>fd_fecs := fd_fecs (make_room d) @ [stored_of d p]\<rparr>"
  let ?st = "int (unat (fp_offset p))" and ?ct = "int (unat (fp_na p))"
  have "push_fec p d =
      (if ?st \<le> 0 \<or> ?ct \<le> 1 \<or> na10_max < ?ct then (d, [])
       else if \<not> geometry_ok (fd_cfg d) ?st ?ct then (d, [])
       else if list_ex (same_group (fd_widen d (fp_base p)) ?st ?ct) (fd_fecs d) then (d, [])
       else (let (d2, out) = recover_all ?d1 in (fd_evict d2, out)))"
    by (simp only: push_fec_def Let_def stored_of_def)
  moreover have "fec_shape (fd_cfg d) (stored_of d p) \<longleftrightarrow>
      \<not> (?st \<le> 0 \<or> ?ct \<le> 1 \<or> na10_max < ?ct) \<and> geometry_ok (fd_cfg d) ?st ?ct"
    unfolding fec_shape_def stored_of_def fec_shape_def stored_fec.simps by linarith
  ultimately show thesis using refused stored by presburger
qed

lemma push_fec_mid:
  assumes "fd_ok cfg sz d" "fec_shape cfg f"
  shows "fd_mid cfg sz ((make_room d)\<lparr>fd_fecs := fd_fecs (make_room d) @ [f]\<rparr>)"
  using make_room_ok(1) [OF assms(1)] assms(2) by (auto simp: fd_mid_def fd_static_def)

lemma push_fec_ok:
  assumes "fec_config_ok cfg" "fd_ok cfg sz d"
  shows "fd_ok cfg sz (fst (push_fec p d))"
proof (cases rule: push_fec_cases [of p d])
  case refused
  with assms(2) show ?thesis by simp
next
  case stored
  define d1 where "d1 = (make_room d)\<lparr>fd_fecs := fd_fecs (make_room d) @ [stored_of d p]\<rparr>"
  have cfg: "fd_cfg d = cfg" using assms(2) by (simp add: fd_ok_def fd_mid_def fd_static_def)
  have "fd_mid cfg sz d1" unfolding d1_def using push_fec_mid [OF assms(2)] stored(1) cfg by simp
  note ctx = recover_all_ctx [OF assms(1) this]
  have "length (fd_fecs d1) \<le> fd_max_fecs d1" using make_room_ok(2) [OF assms(2)] by (simp add: d1_def)
  with ctx have "fd_ok cfg sz (fd_evict (fst (recover_all d1)))"
    by (intro fd_evict_ok) (simp_all add: recovery_ctx_def)
  then show ?thesis by (simp add: stored(2) d1_def Let_def split_def)
qed

section \<open>Widening a truncated base\<close>

lemma and_mask_split: "(a AND NOT (mask n)) OR (b AND mask n) = a - take_bit n a + take_bit n b"
  for a b :: "'a::len word"
proof -
  have "(a AND NOT (mask n)) + take_bit n a = (a AND NOT (mask n)) OR take_bit n a"
    by (rule disjunctive_add) (simp add: bit_simps)
  also have "\<dots> = a" by (rule bit_word_eqI) (auto simp: bit_simps)
  finally have "a AND NOT (mask n) = a - take_bit n a" by (simp add: algebra_simps)
  moreover have "(a AND NOT (mask n)) OR (b AND mask n) = (a AND NOT (mask n)) + (b AND mask n)"
    by (rule disjunctive_add [symmetric]) (simp add: bit_simps)
  ultimately show ?thesis by (simp add: take_bit_eq_mask)
qed

lemma base_mask_span:
  obtains n where "n \<le> 24" "base_mask v = mask n" "base_span v = word_of_int (2 ^ n)"
    "uint (base_span v) = 2 ^ n"
proof (cases v)
  case St20221
  then show thesis by (intro that [of 24]) (simp_all add: mask_eq_exp_minus_1)
next
  case St20225
  then show thesis by (intro that [of 16]) (simp_all add: mask_eq_exp_minus_1)
qed

text \<open>The candidate next to the anchor, as an offset that agrees with the base modulo the span.\<close>

lemma widen_candidate:
  fixes anchor base :: u32 and n :: nat
  defines "delta \<equiv> uint (take_bit n base) - uint (take_bit n anchor)"
  assumes "n \<le> 24"
  shows "(anchor AND NOT (mask n)) OR (base AND mask n) = fec_seq_add anchor delta"
    "- (2 ^ n) < delta" "delta < 2 ^ n" "2 ^ n dvd fec_seq_diff anchor base - delta"
proof -
  have "(anchor AND NOT (mask n)) OR (base AND mask n) = anchor - take_bit n anchor + take_bit n base"
    by (rule and_mask_split)
  also have "\<dots> = anchor + word_of_int delta" by (simp add: delta_def)
  finally show "(anchor AND NOT (mask n)) OR (base AND mask n) = fec_seq_add anchor delta"
    by (simp add: fec_seq_add_def seq_add_eq)
  have u: "uint (take_bit n w) = uint w mod 2 ^ n" for w :: u32
    unfolding unsigned_take_bit_eq by (rule take_bit_eq_mod)
  have "0 \<le> uint w mod 2 ^ n" "uint w mod 2 ^ n < 2 ^ n" for w :: u32 by simp_all
  from this(1) [of base] this(2) [of base] this(1) [of anchor] this(2) [of anchor]
  show "- (2 ^ n) < delta" "delta < 2 ^ n" unfolding delta_def u by linarith+
  define raw where "raw = uint base - uint anchor"
  have "(word_of_int (fec_seq_diff anchor base) :: u32) = word_of_int raw"
    by (simp add: raw_def fec_seq_diff_def word_of_int_distance)
  then have "take_bit LENGTH(32) (fec_seq_diff anchor base) = take_bit LENGTH(32) raw"
    unfolding word_of_int_eq_iff .
  then have "2 ^ 32 dvd fec_seq_diff anchor base - raw" unfolding take_bit_eq_mod mod_eq_dvd_iff by simp
  moreover have "(2 :: int) ^ n dvd 2 ^ 32" using assms(2) by (intro le_imp_power_dvd) simp
  ultimately have "2 ^ n dvd fec_seq_diff anchor base - raw" by (rule dvd_trans [rotated])
  moreover have "2 ^ n dvd raw - delta"
    unfolding delta_def raw_def u by (simp add: mod_eq_dvd_iff [symmetric] mod_diff_eq)
  ultimately have "2 ^ n dvd (fec_seq_diff anchor base - raw) + (raw - delta)" by (rule dvd_add)
  then show "2 ^ n dvd fec_seq_diff anchor base - delta" by simp
qed

lemma nearer_offsets:
  assumes "\<bar>a\<bar> < 2 ^ 30" "\<bar>b\<bar> < 2 ^ 30"
  shows "nearer anchor (fec_seq_add anchor a) (fec_seq_add anchor b)
    = fec_seq_add anchor (if \<bar>b\<bar> < \<bar>a\<bar> then b else a)"
proof -
  have "fec_seq_diff anchor (fec_seq_add anchor a) = a" "fec_seq_diff anchor (fec_seq_add anchor b) = b"
    using assms pow_30_31 by (intro fec_diff_add; linarith)+
  then show ?thesis by (simp add: nearer_def)
qed

lemma nearest_multiple:
  fixes delta beta S :: int
  assumes "- S < delta" "delta < S" "S dvd beta - delta" "2 * \<bar>beta\<bar> < S"
  defines "c1 \<equiv> (if \<bar>delta + S\<bar> < \<bar>delta\<bar> then delta + S else delta)"
  shows "(if \<bar>delta - S\<bar> < \<bar>c1\<bar> then delta - S else c1) = beta"
proof -
  from assms(3) obtain k where k: "beta - delta = S * k" by blast
  have S: "0 < S" using assms(1,2) by linarith
  have "S * k < S * 2" "S * (-2) < S * k" using k assms(1,2,4) by linarith+
  with S have "k < 2" "-2 < k" using mult_less_cancel_left_pos [OF S] by blast+
  then consider "k = 0" | "k = 1" | "k = -1" by linarith
  then show ?thesis using k S assms(1,2,4) unfolding c1_def by cases (auto simp: abs_if split: if_splits)
qed

lemma widen_base:
  assumes "2 * \<bar>fec_seq_diff (fd_last_seq d) base\<bar> < uint (base_span (fc_variant (fd_cfg d)))"
    and "wire AND base_mask (fc_variant (fd_cfg d)) = base AND base_mask (fc_variant (fd_cfg d))"
  shows "fd_widen d wire = base"
proof -
  obtain n where n: "n \<le> 24" "base_mask (fc_variant (fd_cfg d)) = mask n"
    "base_span (fc_variant (fd_cfg d)) = word_of_int (2 ^ n)"
    "uint (base_span (fc_variant (fd_cfg d))) = 2 ^ n" by (rule base_mask_span)
  let ?a = "fd_last_seq d"
  define delta where "delta = uint (take_bit n base) - uint (take_bit n ?a)"
  note c = widen_candidate [OF n(1), where anchor = ?a and base = base, folded delta_def]
  have small: "(2 :: int) ^ n \<le> 2 ^ 24" using n(1) by (intro power_increasing) simp_all
  have span: "fec_seq_add ?a delta + word_of_int (2 ^ n) = fec_seq_add ?a (delta + 2 ^ n)"
    "fec_seq_add ?a delta - word_of_int (2 ^ n) = fec_seq_add ?a (delta - 2 ^ n)"
    by (simp_all add: fec_seq_add_def seq_add_eq)
  have b: "\<bar>delta\<bar> < 2 ^ 30" "\<bar>delta + 2 ^ n\<bar> < 2 ^ 30" "\<bar>delta - 2 ^ n\<bar> < 2 ^ 30"
    using c(2,3) small by (simp_all add: abs_if split: if_splits)
  define c1 where "c1 = (if \<bar>delta + 2 ^ n\<bar> < \<bar>delta\<bar> then delta + 2 ^ n else delta)"
  have b1: "\<bar>c1\<bar> < 2 ^ 30" using b by (simp add: c1_def)
  have "(?a AND NOT (mask n)) OR (wire AND mask n) = fec_seq_add ?a delta"
    using c(1) assms(2) n(2) by simp
  then have "fd_widen d wire = fec_seq_add ?a (if \<bar>delta - 2 ^ n\<bar> < \<bar>c1\<bar> then delta - 2 ^ n else c1)"
    by (simp only: fd_widen_def Let_def n(2,3) foldl.simps span nearer_offsets [OF b(1,2)]
        nearer_offsets [OF b1 b(3), unfolded c1_def] c1_def)
  also have "(if \<bar>delta - 2 ^ n\<bar> < \<bar>c1\<bar> then delta - 2 ^ n else c1) = fec_seq_diff ?a base"
    unfolding c1_def using c(2,3,4) assms(1) n(4) by (intro nearest_multiple) simp_all
  finally show ?thesis by (simp only: fec_add_diff)
qed

text \<open>The truncated base of a FEC packet is widened to the number it stood for, as long as that
  number lies less than half the wire span (of 24 or 16 bits) from the receiver's anchor.\<close>

theorem widen_restores_base:
  assumes "2 * \<bar>fec_seq_diff (fd_last_seq d) base\<bar> < uint (base_span (fc_variant (fd_cfg d)))"
    and "wire AND base_mask (fc_variant (fd_cfg d)) = base AND base_mask (fc_variant (fd_cfg d))"
  shows "fd_widen d wire = base"
  using assms by (rule widen_base)

theorem widen_restores_base_witness:
  "fd_widen ((decoder_new sample_fec 1316 0x01FFFFF0)\<lparr>fd_have_seq := True\<rparr>) 0x000004 = 0x02000004"
  by (rule widen_restores_base)
    (simp_all add: decoder_new_def sample_fec_def fec_seq_diff_def seq_distance_def seq_raw_gap_def)

section \<open>Any run of the receiver\<close>

datatype fec_input = In_Media u32 u32 u8 u32 bytes | In_Fec fec_packet

fun fec_step :: "fec_input \<Rightarrow> fec_decoder \<Rightarrow> fec_decoder \<times> recovered list" where
  "fec_step (In_Media s ts pt ssrc payload) d = push_media s ts pt ssrc payload d"
| "fec_step (In_Fec p) d = push_fec p d"

text \<open>The states a receiver reaches on inputs that \<open>allowed\<close> admits, with all that it recovered.\<close>

inductive fec_run :: "(fec_decoder \<Rightarrow> fec_input \<Rightarrow> bool) \<Rightarrow> fec_decoder \<Rightarrow> fec_decoder \<Rightarrow> recovered list \<Rightarrow> bool"
  for allowed :: "fec_decoder \<Rightarrow> fec_input \<Rightarrow> bool" and d0 :: fec_decoder where
  fec_start: "fec_run allowed d0 d0 []"
| fec_more: "fec_run allowed d0 d out \<Longrightarrow> allowed d i \<Longrightarrow> fec_step i d = (d', rs) \<Longrightarrow>
    fec_run allowed d0 d' (out @ rs)"

lemma fec_run_next:
  "fec_run allowed d0 d out \<Longrightarrow> allowed d i \<Longrightarrow>
   fec_run allowed d0 (fst (fec_step i d)) (out @ snd (fec_step i d))"
  by (rule fec_more) simp_all

text \<open>Any input but a media packet exactly half the sequence space ahead.\<close>

fun not_half_input :: "fec_decoder \<Rightarrow> fec_input \<Rightarrow> bool" where
  "not_half_input d (In_Media s ts pt ssrc payload) = not_half d s"
| "not_half_input d (In_Fec p) = True"

lemma fec_step_ok:
  assumes "fec_config_ok cfg" "fd_ok cfg sz d" "not_half_input d i"
  shows "fd_ok cfg sz (fst (fec_step i d))"
  using assms push_media_ok push_fec_ok by (cases i) simp_all

lemma fec_run_ok:
  assumes "fec_run allowed d0 d out" "fec_config_ok cfg" "fd_ok cfg sz d0"
    "\<And>d i. allowed d i \<Longrightarrow> not_half_input d i"
  shows "fd_ok cfg sz d"
  using assms(1)
proof induction
  case fec_start
  show ?case by (rule assms(3))
next
  case (fec_more d out i d' rs)
  from fec_step_ok [OF assms(2) fec_more.IH assms(4) [OF fec_more.hyps(2)]] fec_more.hyps(3)
  show ?case by simp
qed

text \<open>Neither loss patterns nor forged packets make the memory grow: what is stored is bounded by the
  matrix.\<close>

lemma window_card:
  assumes "fec_config_ok cfg" "fd_ok cfg sz d"
  shows "finite (dom (fd_media d)) \<and> card (dom (fd_media d)) \<le> nat (fd_window d) + 1"
proof -
  have static: "fd_static cfg sz d" using assms(2) by (simp add: fd_ok_def fd_mid_def)
  note W = fd_static_window [OF assms(1) static]
  have sub: "dom (fd_media d) \<subseteq> (\<lambda>k. fec_seq_add (fd_last_seq d) (- int k)) ` {..nat (fd_window d)}"
  proof
    fix s assume "s \<in> dom (fd_media d)"
    then have s: "behind d s" "0 \<le> fec_seq_diff (fd_floor d) s"
      using assms(2) by (auto simp: fd_ok_def fd_mid_def)
    let ?n = "fec_seq_diff (fd_last_seq d) s"
    have "?n \<le> 0" "- fd_window d \<le> ?n"
      using s floor_behind [OF W(1,2), of s] by (auto simp: behind_def)
    moreover have "s = fec_seq_add (fd_last_seq d) ?n" by (simp only: fec_add_diff)
    ultimately show "s \<in> (\<lambda>k. fec_seq_add (fd_last_seq d) (- int k)) ` {..nat (fd_window d)}"
      by (intro image_eqI [where x = "nat (- ?n)"]) simp_all
  qed
  from surj_card_le [OF _ sub] finite_subset [OF sub] show ?thesis by simp
qed

text \<open>The receiver's memory is bounded by the matrix under any input, forged and duplicated FEC
  packets included (a media packet exactly half the sequence space ahead apart): at most four matrices'
  worth of rows and columns and sixteen FEC packets, at most three matrices and a row of media.\<close>

theorem fec_memory_bounded:
  assumes "fec_config_ok cfg" "fec_run not_half_input (decoder_new cfg sz isn) d out"
  shows "length (fd_fecs d) \<le> (fc_cols cfg + fc_rows cfg) * 4 + 16
    \<and> finite (dom (fd_media d))
    \<and> card (dom (fd_media d)) \<le> matrix_size cfg * 3 + fc_cols cfg + 9"
proof -
  have ok: "fd_ok cfg sz d" using fec_run_ok [OF assms(2,1) fd_ok_new] by blast
  then have "fd_static cfg sz d" "length (fd_fecs d) \<le> fd_max_fecs d" by (simp_all add: fd_ok_def fd_mid_def)
  with window_card [OF assms(1) ok] show ?thesis by (simp add: fd_static_def)
qed

lemma sample_run:
  "fec_run not_half_input (decoder_new sample_fec 4 7)
     (fst (fec_step (In_Media 7 0 33 1 [1]) (decoder_new sample_fec 4 7)))
     (snd (fec_step (In_Media 7 0 33 1 [1]) (decoder_new sample_fec 4 7)))"
proof -
  have "not_half_input (decoder_new sample_fec 4 7) (In_Media 7 0 33 1 [1])"
    by (simp add: not_half_def decoder_new_def fec_seq_diff_def)
  then show ?thesis by (rule fec_run_next [OF fec_start, of not_half_input, simplified])
qed

theorem fec_memory_bounded_witness:
  "length (fd_fecs (fst (fec_step (In_Media 7 0 33 1 [1]) (decoder_new sample_fec 4 7)))) \<le> 32
   \<and> finite (dom (fd_media (fst (fec_step (In_Media 7 0 33 1 [1]) (decoder_new sample_fec 4 7)))))
   \<and> card (dom (fd_media (fst (fec_step (In_Media 7 0 33 1 [1]) (decoder_new sample_fec 4 7))))) \<le> 23"
  using fec_memory_bounded [OF sample_fec_ok sample_run]
  by (simp add: sample_fec_def matrix_size_def)

end
