(* ===== verification/Fec_Truth.thy ===== *)
theory Fec_Truth
  imports Fec_Window
begin

text \<open>
  What FEC recovery means: as long as the media and the parity fed to the receiver are what the sender
  sent, everything it rebuilds is what was lost, and no loss a stored group could repair is left.
\<close>

type_synonym sent = "u32 \<Rightarrow> media"

definition agrees :: "sent \<Rightarrow> u32 \<Rightarrow> u32 \<Rightarrow> stored_media \<Rightarrow> bool" where
  "agrees snt ssrc s m \<longleftrightarrow> (case snt s of (ts, pt, p) \<Rightarrow>
     sm_ts m = ts \<and> sm_pt m AND 0x7f = pt AND 0x7f \<and> sm_payload m = p \<and> sm_ssrc m = ssrc)"

definition recovered_true :: "sent \<Rightarrow> u32 \<Rightarrow> recovered \<Rightarrow> bool" where
  "recovered_true snt ssrc r \<longleftrightarrow> (case snt (rc_seq r) of (ts, pt, p) \<Rightarrow>
     rc_timestamp r = ts \<and> rc_payload_type r = pt AND 0x7f \<and> rc_payload r = p \<and> rc_ssrc r = ssrc)"

definition group_true :: "sent \<Rightarrow> nat \<Rightarrow> stored_fec \<Rightarrow> bool" where
  "group_true snt sz f \<longleftrightarrow>
     (let ms = map snt (members f)
      in sf_length_rec f = xor_sum (\<lambda>(ts, pt, p). of_nat (length p)) ms
       \<and> sf_pt_rec f = xor_sum (\<lambda>(ts, pt, p). pt AND 0x7f) ms
       \<and> sf_ts_rec f = xor_sum (\<lambda>(ts, pt, p). ts) ms
       \<and> (\<forall>i < sz. byte_at (sf_payload f) i = xor_sum (\<lambda>(ts, pt, p). byte_at p i) ms))"

definition sent_fits :: "sent \<Rightarrow> nat \<Rightarrow> bool" where
  "sent_fits snt sz \<longleftrightarrow> sz < 2 ^ 16 \<and> (\<forall>s. case snt s of (ts, pt, p) \<Rightarrow> length p \<le> sz)"

section \<open>Rebuilding the missing member\<close>

lemma xor_sum_map [simp]: "xor_sum g (map h xs) = xor_sum (\<lambda>x. g (h x)) xs"
  by (induction xs) simp_all

lemma xor_sum_cong: "(\<And>x. x \<in> set xs \<Longrightarrow> g x = h x) \<Longrightarrow> xor_sum g xs = xor_sum h xs"
  by (induction xs) simp_all

definition present :: "(u32 \<rightharpoonup> stored_media) \<Rightarrow> u32 list \<Rightarrow> stored_media list" where
  "present media ss = map (\<lambda>s. the (media s)) (filter (\<lambda>s. media s \<noteq> None) ss)"

lemma present_Nil [simp]: "present media [] = []"
  and present_Cons: "present media (s # ss) =
    (case media s of Some m \<Rightarrow> m # present media ss | None \<Rightarrow> present media ss)"
  by (auto simp: present_def split: option.splits)

lemma absorb_members_sums:
  "xa_length (absorb_members media ss a) =
     xa_length a XOR xor_sum (\<lambda>m. of_nat (length (sm_payload m))) (present media ss)"
  "xa_pt (absorb_members media ss a) = xa_pt a XOR xor_sum (\<lambda>m. sm_pt m AND 0x7f) (present media ss)"
  "xa_ts (absorb_members media ss a) = xa_ts a XOR xor_sum sm_ts (present media ss)"
  "length (xa_payload (absorb_members media ss a)) = length (xa_payload a)"
  by (induction ss arbitrary: a) (simp_all add: present_Cons absorb_def xor.assoc split: option.splits)

lemma absorb_members_payload:
  "i < length (xa_payload a) \<Longrightarrow> xa_payload (absorb_members media ss a) ! i =
     xa_payload a ! i XOR xor_sum (\<lambda>m. byte_at (sm_payload m) i) (present media ss)"
  by (induction ss arbitrary: a)
    (simp_all add: present_Cons absorb_def nth_xor_into xor.assoc split: option.splits)

lemma absorb_members_ssrc:
  "(\<And>m. m \<in> set (present media ss) \<Longrightarrow> sm_ssrc m = ssrc) \<Longrightarrow>
   xa_ssrc (absorb_members media ss a) = (if present media ss = [] then xa_ssrc a else ssrc)"
proof (induction ss arbitrary: a)
  case (Cons s ss)
  show ?case
  proof (cases "media s")
    case None
    with Cons show ?thesis by (simp add: present_Cons)
  next
    case (Some m)
    with Cons.prems have "sm_ssrc m = ssrc" "\<And>m'. m' \<in> set (present media ss) \<Longrightarrow> sm_ssrc m' = ssrc"
      by (simp_all add: present_Cons)
    with Cons.IH [of "absorb a m"] Some show ?thesis by (simp add: present_Cons absorb_def)
  qed
qed simp

lemma acc_start_payload:
  "length (xa_payload (acc_start sz f)) = sz"
  "i < sz \<Longrightarrow> xa_payload (acc_start sz f) ! i = byte_at (sf_payload f) i"
  by (auto simp: acc_start_def Let_def nth_append byte_at_def)

lemma distinct_members:
  assumes "fec_config_ok cfg" "fec_shape cfg f" "fd_static cfg sz d"
  shows "distinct (members f)"
proof -
  have "fec_seq_diff (sf_base f) (member_seq (sf_base f) (sf_stride f) k) = int k * sf_stride f"
    if "k < nat (sf_count f)" for k
  proof -
    have "int k < sf_count f" using that by linarith
    from shape_span [OF assms _ this] fd_static_window [OF assms(1,3)] pow_30_31
    show ?thesis unfolding member_seq_def by (intro fec_diff_add) linarith+
  qed
  then have "inj_on (member_seq (sf_base f) (sf_stride f)) {0..<nat (sf_count f)}"
    using assms(2) by (intro inj_onI) (metis atLeastLessThan_iff fec_shape_def less_irrefl
        mult_cancel_right of_nat_eq_iff)
  then show ?thesis by (simp add: members_def distinct_map)
qed

text \<open>Under agreement, the XOR over the present members is the XOR over what was sent, less the one
  missing.\<close>

lemma present_sum:
  assumes "distinct ss" "filter (\<lambda>s. media s = None) ss = [j]"
    "\<And>s m. s \<in> set ss \<Longrightarrow> media s = Some m \<Longrightarrow> g m = h (snt s)"
  shows "xor_sum h (map snt ss) XOR xor_sum g (present media ss) = h (snt j)"
proof -
  have f: "filter (\<lambda>s. media s \<noteq> None) ss = filter (\<lambda>s. s \<noteq> j) ss"
  proof (rule filter_cong [OF refl])
    fix s assume "s \<in> set ss"
    moreover have "s \<in> set (filter (\<lambda>s. media s = None) ss) \<longleftrightarrow> s = j" unfolding assms(2) by simp
    moreover have "j \<in> set (filter (\<lambda>s. media s = None) ss)" unfolding assms(2) by simp
    ultimately show "(media s \<noteq> None) = (s \<noteq> j)" by auto
  qed
  have "xor_sum g (present media ss) = xor_sum (\<lambda>s. h (snt s)) (filter (\<lambda>s. media s \<noteq> None) ss)"
    unfolding present_def xor_sum_map using assms(3) by (intro xor_sum_cong) auto
  moreover have "j \<in> set ss" using assms(2) by (metis filter_eq_ConsD in_set_conv_decomp)
  ultimately show ?thesis using xor_sum_missing [OF assms(1), of j "\<lambda>s. h (snt s)"]
    unfolding f xor_sum_map by simp
qed

lemma rebuild_true:
  assumes ok: "fec_config_ok cfg" "fec_shape cfg f" "fd_static cfg sz d"
    and true: "group_true snt sz f" "sent_fits snt sz"
    and media: "\<And>s m. fd_media d s = Some m \<Longrightarrow> agrees snt ssrc s m"
    and one: "missing_members d f = [j]"
  shows "case snt j of (ts, pt, p) \<Rightarrow>
      unat (xa_length (rebuild d f)) = length p \<and> xa_pt (rebuild d f) = pt AND 0x7f
      \<and> xa_ts (rebuild d f) = ts \<and> xa_ssrc (rebuild d f) = ssrc
      \<and> take (length p) (xa_payload (rebuild d f)) = p \<and> length p \<le> sz"
proof -
  obtain ts pt p where j: "snt j = (ts, pt, p)" by (cases "snt j")
  have sz: "fd_payload_size d = sz" using ok(3) by (simp add: fd_static_def)
  have p: "length p \<le> sz" "sz < 2 ^ 16" using true(2) j by (auto simp: sent_fits_def dest: spec [of _ j])
  note dist = distinct_members [OF ok]
  note one' = one [unfolded missing_members_def]
  have ag: "of_nat (length (sm_payload m)) = (\<lambda>(ts, pt, p). of_nat (length p)) (snt s)"
    "sm_pt m AND 0x7f = (\<lambda>(ts, pt, p). pt AND 0x7f) (snt s)" "sm_ts m = (\<lambda>(ts, pt, p). ts) (snt s)"
    "byte_at (sm_payload m) i = (\<lambda>(ts, pt, p). byte_at p i) (snt s)" "sm_ssrc m = ssrc"
    if "fd_media d s = Some m" for s m i
    using media [OF that] by (auto simp: agrees_def split: prod.splits)
  note sum = present_sum [OF dist one', where snt = snt]
  note g = true(1) [unfolded group_true_def Let_def]
  have len: "xa_length (rebuild d f) = of_nat (length p)"
    using sum [of "\<lambda>m. of_nat (length (sm_payload m)) :: u16" "\<lambda>(ts, pt, p). of_nat (length p)", OF ag(1)] g j
    by (simp add: rebuild_def absorb_members_sums acc_start_def Let_def)
  have "xa_pt (rebuild d f) = pt AND 0x7f"
    using sum [of "\<lambda>m. sm_pt m AND 0x7f" "\<lambda>(ts, pt, p). pt AND 0x7f", OF ag(2)] g j
    by (simp add: rebuild_def absorb_members_sums acc_start_def Let_def)
  moreover have "xa_ts (rebuild d f) = ts"
    using sum [of "\<lambda>m. sm_ts m" "\<lambda>(ts, pt, p). ts", OF ag(3)] g j
    by (simp add: rebuild_def absorb_members_sums acc_start_def Let_def)
  moreover have "xa_ssrc (rebuild d f) = ssrc"
  proof -
    obtain t where "t \<in> set (members f)" "fd_media d t \<noteq> None" using one_missing_present [OF ok(2) one] .
    then have "present (fd_media d) (members f) \<noteq> []" by (auto simp: present_def filter_empty_conv)
    moreover have "sm_ssrc m = ssrc" if "m \<in> set (present (fd_media d) (members f))" for m
      using that ag(5) by (auto simp: present_def)
    ultimately show ?thesis by (simp add: rebuild_def absorb_members_ssrc)
  qed
  moreover have "unat (xa_length (rebuild d f)) = length p"
    using p by (simp add: len unat_of_nat)
  moreover have "take (length p) (xa_payload (rebuild d f)) = p"
  proof (rule nth_equalityI)
    show "length (take (length p) (xa_payload (rebuild d f))) = length p"
      using p by (simp add: rebuild_def absorb_members_sums acc_start_payload sz)
    fix i assume i: "i < length (take (length p) (xa_payload (rebuild d f)))"
    then have i': "i < length p" "i < sz" using p by (simp_all add: rebuild_def absorb_members_sums acc_start_payload sz)
    have "xa_payload (rebuild d f) ! i = byte_at p i"
      using sum [of "\<lambda>m. byte_at (sm_payload m) i" "\<lambda>(ts, pt, p). byte_at p i", OF ag(4)] g j i'
      by (simp add: rebuild_def absorb_members_payload acc_start_payload sz)
    with i' show "take (length p) (xa_payload (rebuild d f)) ! i = p ! i" by (simp add: byte_at_def)
  qed
  ultimately show ?thesis using j p by simp
qed

section \<open>The receiver holds only what was sent\<close>

definition fd_true :: "sent \<Rightarrow> u32 \<Rightarrow> nat \<Rightarrow> fec_decoder \<Rightarrow> bool" where
  "fd_true snt ssrc sz d \<longleftrightarrow>
     (\<forall>s m. fd_media d s = Some m \<longrightarrow> agrees snt ssrc s m)
     \<and> (\<forall>f \<in> set (fd_fecs d). group_true snt sz f)"

text \<open>A group marked done is complete, or has left the window.\<close>

definition fd_settled :: "fec_decoder \<Rightarrow> bool" where
  "fd_settled d \<longleftrightarrow>
     (\<forall>f \<in> set (fd_fecs d). sf_done f \<longrightarrow>
        fec_seq_diff (fd_floor d) (sf_base f) < 0 \<or> missing_members d f = [])"

definition fd_work :: "fec_config \<Rightarrow> nat \<Rightarrow> sent \<Rightarrow> u32 \<Rightarrow> fec_decoder \<Rightarrow> bool" where
  "fd_work cfg sz snt ssrc d \<longleftrightarrow> fd_mid cfg sz d \<and> fd_true snt ssrc sz d \<and> fd_settled d"

text \<open>A group the receiver can do nothing about now: out of the window, not yet all sent, complete, or
  with two members or more missing.\<close>

definition resolved :: "fec_decoder \<Rightarrow> stored_fec \<Rightarrow> bool" where
  "resolved d f \<longleftrightarrow>
     fec_seq_diff (fd_floor d) (sf_base f) < 0
     \<or> 0 < fec_seq_diff (fd_last_seq d) (newest_member f)
     \<or> length (missing_members d f) \<noteq> 1"

definition closes :: "stored_fec \<Rightarrow> stored_fec" where
  "closes f = f\<lparr>sf_done := True\<rparr>"

lemma closes_simps [simp]:
  "sf_base (closes f) = sf_base f" "members (closes f) = members f" "sf_done (closes f)"
  "missing_members d (closes f) = missing_members d f" "newest_member (closes f) = newest_member f"
  "group_true snt sz (closes f) = group_true snt sz f" "resolved d (closes f) = resolved d f"
  by (simp_all add: closes_def members_def missing_members_def newest_member_def group_true_def resolved_def)

lemma set_done_cases:
  "f \<in> set (fd_fecs (set_done i d)) \<Longrightarrow> i < length (fd_fecs d) \<Longrightarrow>
   f = closes (fd_fecs d ! i) \<or> f \<in> set (fd_fecs d)"
  using set_update_subset_insert [of "fd_fecs d" i "closes (fd_fecs d ! i)"]
  by (auto simp: set_done_def closes_def)

lemma missing_set_done [simp]: "missing_members (set_done i d) f = missing_members d f"
  by (simp add: missing_members_def)

lemma missing_shrinks:
  "set (missing_members (d\<lparr>fd_media := (fd_media d)(s \<mapsto> m)\<rparr>) f) = set (missing_members d f) - {s}"
  by (auto simp: missing_members_def)

lemma fd_settled_set_done:
  assumes "fd_settled d" "i < length (fd_fecs d)"
    "fec_seq_diff (fd_floor d) (sf_base (fd_fecs d ! i)) < 0 \<or> missing_members d (fd_fecs d ! i) = []"
  shows "fd_settled (set_done i d)"
  unfolding fd_settled_def
proof (intro ballI impI)
  fix f assume "f \<in> set (fd_fecs (set_done i d))" "sf_done f"
  with set_done_cases [OF _ assms(2)] assms
  show "fec_seq_diff (fd_floor (set_done i d)) (sf_base f) < 0 \<or> missing_members (set_done i d) f = []"
    unfolding fd_settled_def by fastforce
qed

lemma fd_settled_insert:
  assumes "fd_settled d"
  shows "fd_settled (d\<lparr>fd_media := (fd_media d)(s \<mapsto> m)\<rparr>)"
proof -
  have "missing_members (d\<lparr>fd_media := (fd_media d)(s \<mapsto> m)\<rparr>) f = []" if "missing_members d f = []" for f
    using missing_shrinks [of d s m f] that by simp
  with assms show ?thesis by (auto simp: fd_settled_def)
qed

lemma fd_true_set_done: "fd_true snt ssrc sz d \<Longrightarrow> i < length (fd_fecs d) \<Longrightarrow> fd_true snt ssrc sz (set_done i d)"
  using set_done_cases [of _ i d] nth_mem [of i "fd_fecs d"] by (fastforce simp: fd_true_def)

lemma fd_work_closed:
  assumes "fd_work cfg sz snt ssrc d" "i < length (fd_fecs d)"
    "fec_seq_diff (fd_floor d) (sf_base (fd_fecs d ! i)) < 0 \<or> missing_members d (fd_fecs d ! i) = []"
  shows "fd_work cfg sz snt ssrc (set_done i d)"
  using assms fd_mid_set_done fd_true_set_done fd_settled_set_done unfolding fd_work_def by blast

lemma try_recover_work:
  assumes ok: "fec_config_ok cfg" and fits: "sent_fits snt sz"
    and work: "fd_work cfg sz snt ssrc d" and i: "i < length (fd_fecs d)"
  shows "fd_work cfg sz snt ssrc (fst (try_recover i d))
    \<and> (\<forall>r. snd (try_recover i d) = Some r \<longrightarrow> recovered_true snt ssrc r)
    \<and> (snd (try_recover i d) = None \<longrightarrow> resolved d (fd_fecs d ! i))"
proof -
  define f where "f = fd_fecs d ! i"
  note closed = fd_work_closed [OF work i, folded f_def]
  have mem: "f \<in> set (fd_fecs d)" using i by (simp add: f_def)
  then have shape: "fec_shape cfg f" "fd_static cfg sz d" "group_true snt sz f"
    and settled: "sf_done f \<longrightarrow> fec_seq_diff (fd_floor d) (sf_base f) < 0 \<or> missing_members d f = []"
    and media: "\<And>s m. fd_media d s = Some m \<Longrightarrow> agrees snt ssrc s m"
    using work by (simp_all add: fd_work_def fd_mid_def fd_true_def fd_settled_def)
  note rb = rebuild_true [OF ok shape(1,2,3) fits media]
  show ?thesis
  proof (rule try_recover_cases [of d i f])
    show "fd_fecs d ! i = f" by (simp add: f_def)
  next
    assume "sf_done f" "try_recover i d = (d, None)"
    with settled work show ?thesis unfolding f_def [symmetric] by (auto simp: resolved_def)
  next
    assume "fec_seq_diff (fd_floor d) (sf_base f) < 0" "try_recover i d = (set_done i d, None)"
    with closed show ?thesis unfolding f_def [symmetric] by (auto simp: resolved_def)
  next
    assume "0 < fec_seq_diff (fd_last_seq d) (newest_member f)" "try_recover i d = (d, None)"
    with work show ?thesis unfolding f_def [symmetric] by (auto simp: resolved_def)
  next
    assume "missing_scan (fd_media d) (members f) 0 0 = None" "try_recover i d = (d, None)"
    with missing_scan_None [of d f] work show ?thesis unfolding f_def [symmetric] by (auto simp: resolved_def)
  next
    fix s assume "missing_scan (fd_media d) (members f) 0 0 = Some (0, s)" "try_recover i d = (set_done i d, None)"
    with missing_scan_Some [of d f 0 s] closed show ?thesis unfolding f_def [symmetric] by (auto simp: resolved_def)
  next
    fix n s assume scan: "missing_scan (fd_media d) (members f) 0 0 = Some (n, s)" "n \<noteq> 0"
      and long: "fd_payload_size d < unat (xa_length (rebuild d f))"
    have "missing_members d f = [s]" using missing_scan_Some [OF scan(1)] scan(2) by simp
    from rb [OF _ this] have "unat (xa_length (rebuild d f)) \<le> sz" by (auto split: prod.splits)
    with long shape(2) show ?thesis by (simp add: fd_static_def)
  next
    fix n s assume scan: "missing_scan (fd_media d) (members f) 0 0 = Some (n, s)" "n \<noteq> 0"
      and found: "try_recover i d =
        (set_done i (d\<lparr>fd_media := (fd_media d)(s \<mapsto> rebuilt_media (rebuild d f))\<rparr>),
         Some (rebuilt_packet s (rebuild d f)))"
    let ?d = "d\<lparr>fd_media := (fd_media d)(s \<mapsto> rebuilt_media (rebuild d f))\<rparr>"
    have one: "missing_members d f = [s]" using missing_scan_Some [OF scan(1)] scan(2) by simp
    note r = rb [OF _ one]
    have rec: "recovered_true snt ssrc (rebuilt_packet s (rebuild d f))"
      using r by (auto simp: recovered_true_def rebuilt_packet_def split: prod.splits)
    have "agrees snt ssrc s (rebuilt_media (rebuild d f))"
      using r by (auto simp: agrees_def rebuilt_media_def and.assoc split: prod.splits)
    then have "fd_true snt ssrc sz ?d" using work by (simp add: fd_work_def fd_true_def)
    moreover have "fd_settled ?d" using work by (intro fd_settled_insert) (simp add: fd_work_def)
    moreover have "missing_members ?d f = []" using missing_shrinks [of d s _ f] one by simp
    moreover have "fd_mid cfg sz (fst (try_recover i d))"
      using try_recover_ctx [OF ok _ i, of sz d] work by (simp add: recovery_ctx_def fd_work_def)
    ultimately have "fd_work cfg sz snt ssrc (set_done i ?d)"
      using i found unfolding fd_work_def
      by (simp add: fd_true_set_done fd_settled_set_done f_def [symmetric])
    with rec found show ?thesis by simp
  qed
qed

section \<open>Nothing recoverable is left\<close>

text \<open>The last pass recovers nothing, so it changes only done marks.\<close>

definition only_marks :: "fec_decoder \<Rightarrow> fec_decoder \<Rightarrow> bool" where
  "only_marks d e \<longleftrightarrow>
     fd_media e = fd_media d \<and> fd_last_seq e = fd_last_seq d \<and> fd_window e = fd_window d
     \<and> map closes (fd_fecs e) = map closes (fd_fecs d)"

lemma only_marks_refl: "only_marks d d"
  by (simp add: only_marks_def)

lemma only_marks_trans: "only_marks d e \<Longrightarrow> only_marks e g \<Longrightarrow> only_marks d g"
  by (simp add: only_marks_def)

lemma only_marks_set_done: "i < length (fd_fecs d) \<Longrightarrow> only_marks d (set_done i d)"
  by (simp add: only_marks_def set_done_def map_update closes_def [symmetric])
    (simp add: closes_def list_update_same_conv)

lemma try_recover_marks:
  assumes i: "i < length (fd_fecs d)" and none: "snd (try_recover i d) = None"
  shows "only_marks d (fst (try_recover i d))"
proof -
  have "fst (try_recover i d) = d \<or> fst (try_recover i d) = set_done i d"
    by (rule try_recover_cases [of d i, OF refl]) (use none in simp_all)
  with only_marks_refl [of d] only_marks_set_done [OF i] show ?thesis by metis
qed

lemma resolved_marks:
  assumes "only_marks d e" "i < length (fd_fecs d)"
  shows "resolved e (fd_fecs e ! i) \<longleftrightarrow> resolved d (fd_fecs d ! i)"
proof -
  have m: "map closes (fd_fecs e) = map closes (fd_fecs d)" using assms(1) by (simp add: only_marks_def)
  then have "length (fd_fecs e) = length (fd_fecs d)" by (rule map_eq_imp_length_eq)
  with assms(2) have "closes (fd_fecs e ! i) = map closes (fd_fecs e) ! i" by simp
  also have "\<dots> = closes (fd_fecs d ! i)" unfolding m using assms(2) by simp
  finally have "resolved e (fd_fecs e ! i) = resolved e (fd_fecs d ! i)"
    using closes_simps(7) [of e "fd_fecs e ! i"] closes_simps(7) [of e "fd_fecs d ! i"] by simp
  moreover have "resolved e f \<longleftrightarrow> resolved d f" for f
    using assms(1) unfolding only_marks_def resolved_def missing_members_def fd_floor_def by simp
  ultimately show ?thesis by simp
qed

lemma quiet_pass_resolved:
  assumes "fec_config_ok cfg" "sent_fits snt sz"
  shows "fd_work cfg sz snt ssrc d \<Longrightarrow> \<forall>i \<in> set is. i < length (fd_fecs d) \<Longrightarrow>
    snd (recover_pass is d) = [] \<Longrightarrow>
    only_marks d (fst (recover_pass is d)) \<and> (\<forall>i \<in> set is. resolved d (fd_fecs d ! i))"
proof (induction "is" arbitrary: d)
  case Nil
  then show ?case by (simp add: only_marks_refl)
next
  case (Cons i "is")
  let ?d = "fst (try_recover i d)"
  have i: "i < length (fd_fecs d)" using Cons.prems(2) by simp
  have none: "snd (try_recover i d) = None" "snd (recover_pass is ?d) = []"
    using Cons.prems(3) by (cases "snd (try_recover i d)"; simp add: Let_def split_def)+
  note step = try_recover_work [OF assms Cons.prems(1) i]
  note marks = try_recover_marks [OF i none(1)]
  have "fd_work cfg sz snt ssrc ?d" using step by blast
  moreover have "\<forall>j \<in> set is. j < length (fd_fecs ?d)" using Cons.prems(2) by simp
  ultimately have "only_marks ?d (fst (recover_pass is ?d)) \<and> (\<forall>j \<in> set is. resolved ?d (fd_fecs ?d ! j))"
    using none(2) by (rule Cons.IH)
  then have ih: "only_marks ?d (fst (recover_pass is ?d))" "\<forall>j \<in> set is. resolved ?d (fd_fecs ?d ! j)"
    by blast+
  have "\<forall>j \<in> set (i # is). resolved d (fd_fecs d ! j)"
    using ih(2) resolved_marks [OF marks] Cons.prems(2) step none(1) by auto
  moreover have "fst (recover_pass (i # is) d) = fst (recover_pass is ?d)" by (simp add: Let_def split_def)
  ultimately show ?case using only_marks_trans [OF marks ih(1)] by presburger
qed

lemma recover_all_resolved:
  assumes ok: "fec_config_ok cfg" "sent_fits snt sz"
  shows "fd_work cfg sz snt ssrc d \<Longrightarrow>
    \<forall>f \<in> set (fd_fecs (fst (recover_all d))). resolved (fst (recover_all d)) f"
proof (induction d rule: recover_all.induct)
  case (1 d)
  obtain d1 rs where r: "recover_pass [0..<length (fd_fecs d)] d = (d1, rs)" by force
  show ?case
  proof (cases "rs = []")
    case True
    then have q: "only_marks d d1" "\<forall>i < length (fd_fecs d). resolved d (fd_fecs d ! i)"
      using quiet_pass_resolved [OF ok 1(2), of "[0..<length (fd_fecs d)]"] r by simp_all
    moreover have "length (fd_fecs d1) = length (fd_fecs d)"
      using q(1) map_eq_imp_length_eq unfolding only_marks_def by blast
    ultimately have "\<forall>f \<in> set (fd_fecs d1). resolved d1 f"
      using resolved_marks [OF q(1)] by (metis in_set_conv_nth)
    with True r show ?thesis by (simp add: recover_all.simps [of d])
  next
    case False
    have "fd_work cfg sz snt ssrc d1"
      using recover_pass_rule [of "fd_work cfg sz snt ssrc" "\<lambda>r. True" d "[0..<length (fd_fecs d)]"]
        try_recover_work [OF ok] 1(2) r by simp
    from 1(1) [OF r [symmetric] refl False this] False r show ?thesis
      by (simp add: recover_all.simps [of d] Let_def split_def)
  qed
qed

lemma recover_all_work:
  assumes "fec_config_ok cfg" "sent_fits snt sz" "fd_work cfg sz snt ssrc d"
  shows "fd_work cfg sz snt ssrc (fst (recover_all d))
    \<and> (\<forall>r \<in> set (snd (recover_all d)). recovered_true snt ssrc r)"
  using assms(3) try_recover_work [OF assms(1,2)]
  by (intro recover_all_rule [of "fd_work cfg sz snt ssrc" "recovered_true snt ssrc"]) blast+

section \<open>Between inputs\<close>

definition fd_good :: "fec_config \<Rightarrow> nat \<Rightarrow> sent \<Rightarrow> u32 \<Rightarrow> fec_decoder \<Rightarrow> bool" where
  "fd_good cfg sz snt ssrc d \<longleftrightarrow>
     fd_ok cfg sz d \<and> fd_true snt ssrc sz d
     \<and> (\<forall>f \<in> set (fd_fecs d). (sf_done f \<longrightarrow> missing_members d f = []) \<and> resolved d f)"

lemma evict_keeps_missing:
  assumes "\<forall>s \<in> set (members f). fd_media d s \<noteq> None \<longrightarrow> 0 \<le> fec_seq_diff (fd_floor d) s"
  shows "missing_members (fd_evict d) f = missing_members d f"
  unfolding missing_members_def using assms by (intro filter_cong) (auto simp: fd_evict_def)

text \<open>A complete group whose base is in the window keeps all its members.\<close>

lemma complete_in_window:
  assumes ok: "fec_config_ok cfg" "fec_shape cfg f" and mid: "fd_mid cfg sz d"
    and base: "0 \<le> fec_seq_diff (fd_floor d) (sf_base f)" and all: "missing_members d f = []"
    and s: "s \<in> set (members f)"
  shows "0 \<le> fec_seq_diff (fd_floor d) s"
proof -
  have static: "fd_static cfg sz d" using mid by (simp add: fd_mid_def)
  note W = fd_static_window [OF ok(1) static]
  let ?x = "fec_seq_diff (fd_floor d) (sf_base f)"
  have "sf_base f \<in> set (members f)"
    using ok(2) by (auto simp: members_def member_seq_def fec_shape_def fec_seq_add_def intro!: image_eqI [of _ _ 0])
  then have "fd_media d (sf_base f) \<noteq> None" using all by (auto simp: missing_members_def filter_empty_conv)
  then have "behind d (sf_base f)" using mid by (simp add: fd_mid_def)
  with base behind_floor [OF W(1,2) base] have x: "?x \<le> fd_window d" by (simp add: behind_def)
  from s obtain k where k: "s = fec_seq_add (sf_base f) (int k * sf_stride f)" "int k < sf_count f"
    by (auto simp: members_def member_seq_def zless_nat_eq_int_zless)
  have "0 \<le> int k" by simp
  note sp = shape_span [OF ok static this k(2)]
  have "s = fec_seq_add (fd_floor d) (?x + int k * sf_stride f)"
    using k(1) fec_add_diff [of "fd_floor d" "sf_base f"] by (metis fec_add_add)
  moreover have "- (2 ^ 31) < ?x + int k * sf_stride f" "?x + int k * sf_stride f \<le> 2 ^ 31"
  proof -
    have "(2 :: int) ^ 30 + 2 ^ 30 = 2 ^ 31" by simp
    with sp x base W show "- (2 ^ 31) < ?x + int k * sf_stride f" "?x + int k * sf_stride f \<le> 2 ^ 31"
      by linarith+
  qed
  ultimately have "fec_seq_diff (fd_floor d) s = ?x + int k * sf_stride f" using fec_diff_add by metis
  with sp base show ?thesis by linarith
qed

lemma evict_good:
  assumes ok: "fec_config_ok cfg" and work: "fd_work cfg sz snt ssrc d"
    and len: "length (fd_fecs d) \<le> fd_max_fecs d" and res: "\<forall>f \<in> set (fd_fecs d). resolved d f"
  shows "fd_good cfg sz snt ssrc (fd_evict d)"
proof -
  have mid: "fd_mid cfg sz d" using work by (simp add: fd_work_def)
  then have static: "fd_static cfg sz d" by (simp add: fd_mid_def)
  have "fd_true snt ssrc sz (fd_evict d)"
    using work by (auto simp: fd_work_def fd_true_def fd_evict_def split: if_splits)
  moreover have "(sf_done f \<longrightarrow> missing_members (fd_evict d) f = []) \<and> resolved (fd_evict d) f"
    if "f \<in> set (fd_fecs (fd_evict d))" for f
  proof -
    have f: "f \<in> set (fd_fecs d)" "0 \<le> fec_seq_diff (fd_floor d) (sf_base f)"
      using that by (auto simp: fd_evict_def)
    then have shape: "fec_shape cfg f" using mid by (simp add: fd_mid_def)
    have "missing_members (fd_evict d) f = []" if "missing_members d f = []"
      using complete_in_window [OF ok shape mid f(2) that] evict_keeps_missing [of f d] that by simp
    moreover have "sf_done f \<longrightarrow> missing_members d f = []"
      using work f by (auto simp: fd_work_def fd_settled_def)
    moreover have "resolved (fd_evict d) f"
    proof (cases "0 < fec_seq_diff (fd_last_seq d) (newest_member f)")
      case True
      then show ?thesis by (simp add: resolved_def)
    next
      case False
      then have "missing_members (fd_evict d) f = missing_members d f"
        using group_in_window [OF ok shape static f(2)] by (intro evict_keeps_missing) simp
      with res f show ?thesis by (auto simp: resolved_def)
    qed
    ultimately show ?thesis by blast
  qed
  ultimately show ?thesis using fd_evict_ok [OF mid len] by (simp add: fd_good_def)
qed

text \<open>Between inputs nothing is left to evict.\<close>

lemma fd_evict_idle: "fd_ok cfg sz d \<Longrightarrow> fd_evict d = d"
proof -
  assume ok: "fd_ok cfg sz d"
  then have "(\<lambda>s. if 0 \<le> fec_seq_diff (fd_floor d) s then fd_media d s else None) = fd_media d"
    by (intro ext) (metis fd_ok_def)
  moreover have "filter (\<lambda>f. 0 \<le> fec_seq_diff (fd_floor d) (sf_base f)) (fd_fecs d) = fd_fecs d"
    using ok by (simp add: fd_ok_def filter_id_conv)
  ultimately show ?thesis by (simp add: fd_evict_def)
qed

lemma make_room_eq:
  "fd_ok cfg sz d \<Longrightarrow> make_room d = d \<or> make_room d = d\<lparr>fd_fecs := drop 1 (fd_fecs d)\<rparr>"
  by (simp add: make_room_def Let_def fd_evict_idle)

section \<open>The two inputs, on truthful input\<close>

text \<open>A FEC packet that covers a group of what was sent, its base cut to the wire width and near enough
  to the anchor to be widened.\<close>

definition parity_of :: "sent \<Rightarrow> nat \<Rightarrow> fec_decoder \<Rightarrow> u32 \<Rightarrow> fec_packet \<Rightarrow> bool" where
  "parity_of snt sz d base p \<longleftrightarrow>
     fp_base p AND base_mask (fc_variant (fd_cfg d)) = base AND base_mask (fc_variant (fd_cfg d))
     \<and> 2 * \<bar>fec_seq_diff (fd_last_seq d) base\<bar> < uint (base_span (fc_variant (fd_cfg d)))
     \<and> (let ms = map (\<lambda>k. snt (member_seq base (int (unat (fp_offset p))) k)) [0..<unat (fp_na p)]
        in fp_length_recovery p = xor_sum (\<lambda>(ts, pt, p). of_nat (length p)) ms
         \<and> fp_pt_recovery p AND 0x7f = xor_sum (\<lambda>(ts, pt, p). pt AND 0x7f) ms
         \<and> fp_ts_recovery p = xor_sum (\<lambda>(ts, pt, p). ts) ms
         \<and> (\<forall>i < sz. byte_at (fp_payload p) i = xor_sum (\<lambda>(ts, pt, p). byte_at p i) ms))"

fun truthful :: "sent \<Rightarrow> nat \<Rightarrow> u32 \<Rightarrow> fec_decoder \<Rightarrow> fec_input \<Rightarrow> bool" where
  "truthful snt sz ssrc d (In_Media s ts pt src payload) \<longleftrightarrow>
     not_half d s \<and> agrees snt ssrc s \<lparr>sm_ts = ts, sm_pt = pt, sm_ssrc = src, sm_payload = payload\<rparr>"
| "truthful snt sz ssrc d (In_Fec p) \<longleftrightarrow> (\<exists>base. parity_of snt sz d base p)"

lemma truthful_not_half: "truthful snt sz ssrc d i \<Longrightarrow> not_half_input d i"
  by (cases i) simp_all

lemma parity_group:
  assumes "parity_of snt sz d base p"
  shows "group_true snt sz (stored_of d p)" "sf_base (stored_of d p) = base"
proof -
  have "fd_widen d (fp_base p) = base"
    using assms unfolding parity_of_def by (intro widen_base) simp_all
  then show "sf_base (stored_of d p) = base" by (simp add: stored_of_def)
  with assms show "group_true snt sz (stored_of d p)"
    by (simp add: parity_of_def group_true_def members_def stored_of_def Let_def comp_def)
qed

lemma fd_good_new: "fd_good cfg sz snt ssrc (decoder_new cfg sz isn)"
  by (simp add: fd_good_def fd_ok_new fd_true_def) (simp add: decoder_new_def)

lemma push_media_good:
  assumes ok: "fec_config_ok cfg" "sent_fits snt sz" and good: "fd_good cfg sz snt ssrc d"
    and half: "not_half d s"
    and ag: "agrees snt ssrc s \<lparr>sm_ts = ts, sm_pt = pt, sm_ssrc = src, sm_payload = payload\<rparr>"
  shows "fd_good cfg sz snt ssrc (fst (push_media s ts pt src payload d))
    \<and> (\<forall>r \<in> set (snd (push_media s ts pt src payload d)). recovered_true snt ssrc r)"
proof (cases "fd_media d s = None")
  case False
  then show ?thesis using good by (auto simp: push_media_def Let_def fd_good_def fd_advance_dup)
next
  case True
  have fok: "fd_ok cfg sz d" using good by (simp add: fd_good_def)
  define m where "m = \<lparr>sm_ts = ts, sm_pt = pt, sm_ssrc = src, sm_payload = payload\<rparr>"
  define d1 where "d1 = (fd_advance s d)\<lparr>fd_media := (fd_media d)(s \<mapsto> m)\<rparr>"
  have "fd_mid cfg sz d1"
    using fd_mid_insert [OF fd_advance_mid [OF ok(1) fok half], of s] by (simp add: d1_def behind_def)
  moreover have "fd_true snt ssrc sz d1"
    using good ag by (simp add: fd_good_def fd_true_def d1_def m_def)
  moreover have "fd_settled d1"
  proof -
    have "missing_members d1 f = []" if "missing_members d f = []" for f
      using that by (auto simp: missing_members_def d1_def filter_empty_conv)
    with good show ?thesis by (auto simp: fd_good_def fd_settled_def d1_def)
  qed
  ultimately have work: "fd_work cfg sz snt ssrc d1" by (simp add: fd_work_def)
  have len: "length (fd_fecs (fst (recover_all d1))) \<le> fd_max_fecs (fst (recover_all d1))"
    using recover_all_ctx [OF ok(1), of sz d1] work fok
    by (simp add: recovery_ctx_def fd_work_def fd_ok_def d1_def)
  have "fd_good cfg sz snt ssrc (fd_evict (fst (recover_all d1)))"
    using recover_all_work [OF ok work] recover_all_resolved [OF ok work]
    by (intro evict_good [OF ok(1) _ len]) simp_all
  with recover_all_work [OF ok work] True show ?thesis
    by (simp add: push_media_def Let_def split_def d1_def m_def)
qed

lemma push_fec_work:
  assumes ok: "fec_config_ok cfg" "sent_fits snt sz" and good: "fd_good cfg sz snt ssrc d"
    and shape: "fec_shape cfg (stored_of d p)" and true: "group_true snt sz (stored_of d p)"
  shows "fd_work cfg sz snt ssrc ((make_room d)\<lparr>fd_fecs := fd_fecs (make_room d) @ [stored_of d p]\<rparr>)"
proof -
  have fok: "fd_ok cfg sz d" using good by (simp add: fd_good_def)
  have room: "fd_media (make_room d) = fd_media d" "set (fd_fecs (make_room d)) \<subseteq> set (fd_fecs d)"
    using make_room_eq [OF fok] by (auto dest: in_set_dropD)
  then have "fd_true snt ssrc sz ((make_room d)\<lparr>fd_fecs := fd_fecs (make_room d) @ [stored_of d p]\<rparr>)"
    using good true by (auto simp: fd_good_def fd_true_def)
  moreover have "fd_settled ((make_room d)\<lparr>fd_fecs := fd_fecs (make_room d) @ [stored_of d p]\<rparr>)"
    using good room by (auto simp: fd_good_def fd_settled_def stored_of_def missing_members_def)
  ultimately show ?thesis using push_fec_mid [OF fok shape] by (simp add: fd_work_def)
qed

lemma push_fec_good:
  assumes ok: "fec_config_ok cfg" "sent_fits snt sz" and good: "fd_good cfg sz snt ssrc d"
    and true: "parity_of snt sz d base p"
  shows "fd_good cfg sz snt ssrc (fst (push_fec p d))
    \<and> (\<forall>r \<in> set (snd (push_fec p d)). recovered_true snt ssrc r)"
proof (cases rule: push_fec_cases [of p d])
  case refused
  with good show ?thesis by simp
next
  case stored
  have fok: "fd_ok cfg sz d" using good by (simp add: fd_good_def)
  then have "fd_cfg d = cfg" by (simp add: fd_ok_def fd_mid_def fd_static_def)
  define d1 where "d1 = (make_room d)\<lparr>fd_fecs := fd_fecs (make_room d) @ [stored_of d p]\<rparr>"
  have work: "fd_work cfg sz snt ssrc d1"
    unfolding d1_def using push_fec_work [OF ok good _ parity_group(1) [OF true]] stored(1) \<open>fd_cfg d = cfg\<close>
    by simp
  have len: "length (fd_fecs (fst (recover_all d1))) \<le> fd_max_fecs (fst (recover_all d1))"
    using recover_all_ctx [OF ok(1), of sz d1] work make_room_ok(2) [OF fok]
    by (simp add: recovery_ctx_def fd_work_def d1_def)
  have "fd_good cfg sz snt ssrc (fd_evict (fst (recover_all d1)))"
    using recover_all_work [OF ok work] recover_all_resolved [OF ok work]
    by (intro evict_good [OF ok(1) _ len]) simp_all
  with recover_all_work [OF ok work] show ?thesis
    by (simp add: stored(2) d1_def [symmetric] Let_def split_def)
qed

lemma fec_run_good:
  assumes "fec_config_ok cfg" "sent_fits snt sz" "fec_run (truthful snt sz ssrc) (decoder_new cfg sz isn) d out"
  shows "fd_good cfg sz snt ssrc d \<and> (\<forall>r \<in> set out. recovered_true snt ssrc r)"
  using assms(3)
proof induction
  case fec_start
  show ?case by (simp add: fd_good_new)
next
  case (fec_more d out i d' rs)
  have "fd_good cfg sz snt ssrc (fst (fec_step i d)) \<and> (\<forall>r \<in> set (snd (fec_step i d)). recovered_true snt ssrc r)"
  proof (cases i)
    case (In_Media s ts pt src payload)
    with fec_more push_media_good [OF assms(1,2), of ssrc d s ts pt src payload] show ?thesis by simp
  next
    case (In_Fec p)
    with fec_more push_fec_good [OF assms(1,2), of ssrc d _ p] show ?thesis by auto
  qed
  with fec_more show ?case by auto
qed

end
