(* ===== verification/Fec_Props.thy ===== *)
theory Fec_Props
  imports Fec_Truth
begin

text \<open>
  The properties of forward error correction as a whole: from the parity the encoder emits to the packet
  the receiver rebuilds.
\<close>

section \<open>What a recovery run stores it also returns\<close>

lemma try_recover_new:
  "fd_media (fst (try_recover i d)) s \<noteq> None \<Longrightarrow>
   fd_media d s \<noteq> None \<or> (\<exists>r. snd (try_recover i d) = Some r \<and> rc_seq r = s)"
  by (rule try_recover_cases [of d i, OF refl]) (auto simp: rebuilt_packet_def split: if_splits)

lemma recover_pass_new:
  "fd_media (fst (recover_pass is d)) s \<noteq> None \<Longrightarrow>
   fd_media d s \<noteq> None \<or> s \<in> rc_seq ` set (snd (recover_pass is d))"
proof (induction "is" arbitrary: d)
  case (Cons i "is")
  from Cons.prems have "fd_media (fst (recover_pass is (fst (try_recover i d)))) s \<noteq> None"
    by (simp add: Let_def split_def)
  from Cons.IH [OF this] try_recover_new [of i d s] show ?case
    by (auto simp: Let_def split_def split: option.splits)
qed simp

lemma recover_all_new:
  "fd_media (fst (recover_all d)) s \<noteq> None \<Longrightarrow>
   fd_media d s \<noteq> None \<or> s \<in> rc_seq ` set (snd (recover_all d))"
proof (induction d rule: recover_all.induct)
  case (1 d)
  obtain d1 rs where r: "recover_pass [0..<length (fd_fecs d)] d = (d1, rs)" by force
  have pass: "fd_media d1 s \<noteq> None \<Longrightarrow> fd_media d s \<noteq> None \<or> s \<in> rc_seq ` set rs"
    using recover_pass_new [of "[0..<length (fd_fecs d)]" d s] r by simp
  show ?case
  proof (cases "rs = []")
    case True
    with r pass 1(2) show ?thesis by (simp add: recover_all.simps [of d])
  next
    case False
    with r have eq: "recover_all d = (fst (recover_all d1), rs @ snd (recover_all d1))"
      by (simp add: recover_all.simps [of d] Let_def split_def)
    from 1(1) [OF r [symmetric] refl False] 1(2) pass show ?thesis by (auto simp: eq)
  qed
qed

lemma try_recover_groups: "map closes (fd_fecs (fst (try_recover i d))) = map closes (fd_fecs d)"
proof (cases "i < length (fd_fecs d)")
  case True
  have "map closes (fd_fecs (set_done i e)) = map closes (fd_fecs d)" if "fd_fecs e = fd_fecs d" for e
    using only_marks_set_done [of i e] True that by (simp add: only_marks_def)
  then show ?thesis by (rule_tac try_recover_cases [of d i, OF refl]) simp_all
next
  case False
  have "fd_fecs (set_done i e) = fd_fecs d" if "fd_fecs e = fd_fecs d" for e
    using False that by (simp add: set_done_def list_update_beyond)
  then show ?thesis by (rule_tac try_recover_cases [of d i, OF refl]) simp_all
qed

lemma recover_all_groups: "map closes (fd_fecs (fst (recover_all d))) = map closes (fd_fecs d)"
  using recover_all_rule [of "\<lambda>e. map closes (fd_fecs e) = map closes (fd_fecs d)" "\<lambda>r. True" d]
    try_recover_groups by simp

section \<open>The receiver\<close>

text \<open>C14: FEC never fabricates. Whatever is lost, reordered or duplicated on the way, if the media and
  the parity that arrive are what the sender sent, every packet the receiver rebuilds has the timestamp,
  payload type, source and payload of the packet sent under its sequence number.\<close>

theorem fec_recovers_truth:
  assumes "fec_config_ok cfg" "sent_fits snt sz"
    and "fec_run (truthful snt sz ssrc) (decoder_new cfg sz isn) d out"
  shows "\<forall>r \<in> set out. recovered_true snt ssrc r"
  using fec_run_good [OF assms] by blast


text \<open>FEC rebuilds only losses. Under any input, forged packets included, a rebuilt packet was not
  held before, and lies in the window, no newer than the newest media packet seen.\<close>

theorem fec_recovers_only_missing:
  assumes "fec_config_ok cfg" "fec_run not_half_input (decoder_new cfg sz isn) d out"
    and "r \<in> set (snd (push_fec p d))"
  shows "fd_media d (rc_seq r) = None
    \<and> fec_seq_diff (fd_last_seq d) (rc_seq r) \<le> 0 \<and> 0 \<le> fec_seq_diff (fd_floor d) (rc_seq r)"
proof (cases rule: push_fec_cases [of p d])
  case refused
  with assms(3) show ?thesis by simp
next
  case stored
  have ok: "fd_ok cfg sz d" using fec_run_ok [OF assms(2,1) fd_ok_new] by blast
  then have "fd_cfg d = cfg" by (simp add: fd_ok_def fd_mid_def fd_static_def)
  define d1 where "d1 = (make_room d)\<lparr>fd_fecs := fd_fecs (make_room d) @ [stored_of d p]\<rparr>"
  have "fd_mid cfg sz d1" unfolding d1_def using push_fec_mid [OF ok] stored(1) \<open>fd_cfg d = cfg\<close> by simp
  from recover_all_ctx [OF assms(1) this] assms(3) have "fresh_in_window d1 r"
    by (simp add: stored(2) d1_def [symmetric] Let_def split_def)
  moreover have "fd_media d1 = fd_media d" using make_room_eq [OF ok] by (auto simp: d1_def)
  ultimately show ?thesis by (simp add: fresh_in_window_def d1_def)
qed

section \<open>From the sender to the receiver\<close>

text \<open>Every packet an encoder emits covers a column or a row of what was pushed.\<close>

definition matrix_group :: "fec_config \<Rightarrow> nat \<Rightarrow> nat \<Rightarrow> bool" where
  "matrix_group cfg stride count \<longleftrightarrow>
     stride = fc_cols cfg \<and> count = fc_rows cfg
     \<or> \<not> fc_column_only cfg \<and> stride = 1 \<and> count = fc_cols cfg"

definition covers :: "fec_config \<Rightarrow> nat \<Rightarrow> u32 \<Rightarrow> media list \<Rightarrow> fec_packet \<Rightarrow> bool" where
  "covers cfg sz isn ps pkt \<longleftrightarrow>
     (\<exists>b stride count. matrix_group cfg stride count \<and> b + (count - 1) * stride < length ps
        \<and> protects pkt sz isn ps b stride count)"

lemma protects_more:
  assumes "protects pkt sz isn ps b stride count" "b + (count - 1) * stride < length ps"
  shows "protects pkt sz isn (ps @ qs) b stride count"
proof -
  have "b + k * stride < length ps" if "k < count" for k
  proof -
    have "k * stride \<le> (count - 1) * stride" using that by (intro mult_le_mono1) simp
    with assms(2) show ?thesis by linarith
  qed
  then have "map (\<lambda>k. (ps @ qs) ! (b + k * stride)) [0..<count] = map (\<lambda>k. ps ! (b + k * stride)) [0..<count]"
    by (simp add: nth_append)
  with assms(1) show ?thesis unfolding protects_def by (simp only:)
qed

lemma push_emits_covers:
  assumes ok: "fec_config_ok cfg" and emits: "push_emits cfg sz isn (ps @ [x]) (length ps) out"
    and pkt: "pkt \<in> set out"
  shows "covers cfg sz isn (ps @ [x]) pkt"
proof -
  let ?n = "length ps" and ?l = "fc_cols cfg" and ?d = "fc_rows cfg"
  note l = fec_config_okD [OF ok]
  from emits pkt consider
      (col) "column_done cfg ?n" "protects pkt sz isn (ps @ [x]) (column_first cfg ?n) ?l ?d"
    | (row) "row_done cfg ?n" "\<not> fc_column_only cfg" "protects pkt sz isn (ps @ [x]) (?n div ?l * ?l) 1 ?l"
    unfolding push_emits_def by (auto split: if_splits)
  then show ?thesis
  proof cases
    case col
    have e: "?n div ?l * ?l + ?n mod ?l = ?n" by (rule div_mult_mod_eq)
    have "?n div ?l div ?d * ?d + ?n div ?l mod ?d = ?n div ?l" by (rule div_mult_mod_eq)
    moreover have "Suc (?n div ?l mod ?d) = ?d" using col(1) by (simp add: column_done_def)
    then have "?n div ?l mod ?d = ?d - 1" by linarith
    ultimately have "?n div ?l div ?d * ?d * ?l + (?d - 1) * ?l = ?n div ?l * ?l" by (metis distrib_right)
    then have "column_first cfg ?n + (?d - 1) * ?l = ?n" unfolding column_first_def using e by linarith
    with col show ?thesis unfolding covers_def matrix_group_def by (metis length_append_singleton lessI)
  next
    case row
    have "?n div ?l * ?l + ?n mod ?l = ?n" by (rule div_mult_mod_eq)
    moreover have "?n mod ?l = ?l - 1" using row(1) by (simp add: row_done_def)
    ultimately have "?n div ?l * ?l + (?l - 1) * 1 = ?n" by linarith
    with row(2,3) show ?thesis unfolding covers_def matrix_group_def by (metis length_append_singleton lessI)
  qed
qed

lemma encoder_run_covers:
  assumes ok: "fec_config_ok cfg"
  shows "pkt \<in> set (snd (encoder_run (encoder_new cfg sz isn) isn ps)) \<Longrightarrow> covers cfg sz isn ps pkt"
proof (induction ps rule: rev_induct)
  case (snoc x ps)
  obtain ts pt p where x: "x = (ts, pt, p)" by (cases x)
  have emits: "push_emits cfg sz isn (ps @ [x]) (length ps)
      (snd (encoder_push (fst (encoder_run (encoder_new cfg sz isn) isn ps)) (isn + of_nat (length ps)) ts pt p))"
    using encoder_push_step [OF ok encodes_run [OF ok, of sz isn ps], of ts pt p] x by auto
  from snoc.prems consider "pkt \<in> set (snd (encoder_run (encoder_new cfg sz isn) isn ps))"
    | "pkt \<in> set (snd (encoder_push (fst (encoder_run (encoder_new cfg sz isn) isn ps))
        (isn + of_nat (length ps)) ts pt p))"
    by (auto simp: x encoder_run_snoc Let_def split_def)
  then show ?case
  proof cases
    case 1
    from snoc.IH [OF this] show ?thesis unfolding covers_def
      by (metis protects_more length_append trans_less_add1)
  next
    case 2
    from push_emits_covers [OF ok emits this] show ?thesis .
  qed
qed simp

lemma xor_sum_masked: "xor_sum (\<lambda>x. g x AND m) xs AND m = xor_sum (\<lambda>x. g x AND m) xs"
  by (induction xs) (simp_all add: and.commute [of _ m] bit.conj_xor_distrib)

text \<open>The sender's numbering as a function of the sequence number.\<close>

definition numbered :: "u32 \<Rightarrow> media list \<Rightarrow> sent \<Rightarrow> bool" where
  "numbered isn ps snt \<longleftrightarrow> (\<forall>i < length ps. snt (isn + of_nat i) = ps ! i)"

lemma matrix_group_shape:
  assumes "matrix_group cfg stride count" "0 < stride" "1 < count" "count < 2 ^ 10"
    "sf_stride f = int stride" "sf_count f = int count"
  shows "fec_shape cfg f"
  using assms by (auto simp: fec_shape_def na10_max_def geometry_ok_def matrix_group_def)

lemma covers_parity:
  assumes ok: "fec_config_ok cfg" "fc_cols cfg < 2 ^ 10" "fc_rows cfg < 2 ^ 10"
    and num: "numbered isn ps snt" and cov: "covers cfg sz isn ps pkt"
    and d: "fd_cfg d = cfg"
      "2 * \<bar>fec_seq_diff (fd_last_seq d) (fp_base pkt)\<bar> < uint (base_span (fc_variant cfg))"
    and wire: "w AND base_mask (fc_variant cfg) = fp_base pkt AND base_mask (fc_variant cfg)"
  shows "parity_of snt sz d (fp_base pkt) (pkt\<lparr>fp_base := w\<rparr>)"
    and "matrix_group cfg (unat (fp_offset pkt)) (unat (fp_na pkt))"
proof -
  obtain b stride count where c: "matrix_group cfg stride count" "b + (count - 1) * stride < length ps"
    "protects pkt sz isn ps b stride count" using cov by (auto simp: covers_def)
  have small: "stride < 2 ^ 16" "count < 2 ^ 16" using c(1) ok by (auto simp: matrix_group_def)
  then have geo: "unat (fp_offset pkt) = stride" "unat (fp_na pkt) = count" "fp_base pkt = isn + of_nat b"
    using c(3) by (simp_all add: protects_def unat_of_nat)
  with c(1) show "matrix_group cfg (unat (fp_offset pkt)) (unat (fp_na pkt))" by simp
  have "snt (member_seq (fp_base pkt) (int stride) k) = ps ! (b + k * stride)" if "k < count" for k
  proof -
    have "k * stride \<le> (count - 1) * stride" using that by (intro mult_le_mono1) simp
    then have "b + k * stride < length ps" using c(2) by linarith
    moreover have "member_seq (fp_base pkt) (int stride) k = isn + of_nat (b + k * stride)"
      unfolding geo member_seq_def by (metis fec_add_nat of_nat_mult)
    ultimately show ?thesis using num by (simp only: numbered_def)
  qed
  then have ms: "map (\<lambda>k. snt (member_seq (fp_base pkt) (int stride) k)) [0..<count]
      = map (\<lambda>k. ps ! (b + k * stride)) [0..<count]" by simp
  have p: "fp_length_recovery pkt = xor_sum (\<lambda>(ts, pt, p). of_nat (length p)) (map (\<lambda>k. ps ! (b + k * stride)) [0..<count])"
    "fp_pt_recovery pkt = xor_sum (\<lambda>(ts, pt, p). pt AND 0x7f) (map (\<lambda>k. ps ! (b + k * stride)) [0..<count])"
    "fp_ts_recovery pkt = xor_sum (\<lambda>(ts, pt, p). ts) (map (\<lambda>k. ps ! (b + k * stride)) [0..<count])"
    "\<forall>i < sz. byte_at (fp_payload pkt) i = xor_sum (\<lambda>(ts, pt, p). byte_at p i) (map (\<lambda>k. ps ! (b + k * stride)) [0..<count])"
    using c(3) by (simp_all add: protects_def Let_def byte_at_def)
  have "fp_pt_recovery pkt AND 0x7f = fp_pt_recovery pkt"
    unfolding p(2) by (simp add: split_def xor_sum_masked)
  moreover have "fp_offset (pkt\<lparr>fp_base := w\<rparr>) = fp_offset pkt" "fp_na (pkt\<lparr>fp_base := w\<rparr>) = fp_na pkt"
    "fp_base (pkt\<lparr>fp_base := w\<rparr>) = w" "fp_length_recovery (pkt\<lparr>fp_base := w\<rparr>) = fp_length_recovery pkt"
    "fp_pt_recovery (pkt\<lparr>fp_base := w\<rparr>) = fp_pt_recovery pkt"
    "fp_ts_recovery (pkt\<lparr>fp_base := w\<rparr>) = fp_ts_recovery pkt"
    "fp_payload (pkt\<lparr>fp_base := w\<rparr>) = fp_payload pkt" by simp_all
  ultimately show "parity_of snt sz d (fp_base pkt) (pkt\<lparr>fp_base := w\<rparr>)"
    using p d wire by (simp only: parity_of_def Let_def geo(1,2) ms)
qed

text \<open>A group of the matrix whose only missing member is \<open>s\<close>, as the receiver sees it.\<close>

definition sole_loss :: "fec_decoder \<Rightarrow> fec_packet \<Rightarrow> u32 \<Rightarrow> bool" where
  "sole_loss d pkt s \<longleftrightarrow>
     (let ms = map (member_seq (fp_base pkt) (int (unat (fp_offset pkt)))) [0..<unat (fp_na pkt)]
      in filter (\<lambda>t. fd_media d t = None) ms = [s]
       \<and> 0 \<le> fec_seq_diff (fd_floor d) (fp_base pkt)
       \<and> fec_seq_diff (fd_last_seq d) (last ms) \<le> 0)"

lemma push_fec_repairs:
  assumes ok: "fec_config_ok cfg" "sent_fits snt sz" and good: "fd_good cfg sz snt ssrc d"
    and true: "parity_of snt sz d base p"
    and shape: "fec_shape cfg (stored_of d p)"
    and one: "missing_members d (stored_of d p) = [s]"
    and win: "0 \<le> fec_seq_diff (fd_floor d) base"
    and sent: "fec_seq_diff (fd_last_seq d) (newest_member (stored_of d p)) \<le> 0"
  shows "\<exists>r \<in> set (snd (push_fec p d)). rc_seq r = s"
proof -
  define f where "f = stored_of d p"
  note f = shape [folded f_def] one [folded f_def] sent [folded f_def]
  have fok: "fd_ok cfg sz d" using good by (simp add: fd_good_def)
  then have static: "fd_cfg d = cfg" by (simp add: fd_ok_def fd_mid_def fd_static_def)
  have base: "sf_base f = base" using parity_group(2) [OF true] by (simp add: f_def)
  have new: "\<not> list_ex (same_group base (sf_stride f) (sf_count f)) (fd_fecs d)"
  proof
    assume "list_ex (same_group base (sf_stride f) (sf_count f)) (fd_fecs d)"
    then obtain g where g: "g \<in> set (fd_fecs d)" "sf_base g = sf_base f" "sf_stride g = sf_stride f"
      "sf_count g = sf_count f" using base by (auto simp: list_ex_iff same_group_def)
    then have "missing_members d g = [s]" "newest_member g = newest_member f"
      using f(2) by (simp_all add: missing_members_def members_def newest_member_def)
    moreover have "resolved d g" "0 \<le> fec_seq_diff (fd_floor d) (sf_base g)"
      using good g(1) fok by (simp_all add: fd_good_def fd_ok_def)
    ultimately show False using f(3) by (simp add: resolved_def)
  qed
  define d1 where "d1 = (make_room d)\<lparr>fd_fecs := fd_fecs (make_room d) @ [f]\<rparr>"
  have push: "push_fec p d = (fd_evict (fst (recover_all d1)), snd (recover_all d1))"
    using new shape static base
    by (simp add: push_fec_def Let_def fec_shape_def stored_of_def d1_def f_def split_def)
  have work: "fd_work cfg sz snt ssrc d1"
    unfolding d1_def f_def by (rule push_fec_work [OF ok good shape parity_group(1) [OF true]])
  then have ctx: "recovery_ctx cfg sz d1 (fst (recover_all d1))"
    using recover_all_ctx [OF ok(1), of sz d1] by (simp add: fd_work_def)
  define d2 where "d2 = fst (recover_all d1)"
  have "f \<in> set (fd_fecs d1)" by (simp add: d1_def)
  then have "closes f \<in> set (map closes (fd_fecs d2))"
    unfolding d2_def recover_all_groups by simp
  then obtain g where g: "g \<in> set (fd_fecs d2)" "closes g = closes f" by auto
  have "resolved d2 g" using recover_all_resolved [OF ok work] g(1) unfolding d2_def by blast
  then have "resolved d2 f" using g(2) closes_simps(7) by metis
  moreover have "fd_floor d2 = fd_floor d" "fd_last_seq d2 = fd_last_seq d"
    using ctx by (simp_all add: recovery_ctx_def fd_floor_def d2_def d1_def)
  ultimately have len: "length (missing_members d2 f) \<noteq> 1"
    using f(3) win base by (simp add: resolved_def)
  have m1: "fd_media d1 = fd_media d" using make_room_eq [OF fok] by (auto simp: d1_def)
  have "fd_media d2 s \<noteq> None"
  proof
    assume none: "fd_media d2 s = None"
    have "missing_members d2 f = missing_members d f"
      unfolding missing_members_def
    proof (rule filter_cong [OF refl])
      fix t assume t: "t \<in> set (members f)"
      have "fd_media d \<subseteq>\<^sub>m fd_media d2" using ctx m1 by (simp add: recovery_ctx_def d2_def)
      moreover have "fd_media d t = None \<Longrightarrow> t = s"
      proof -
        assume "fd_media d t = None"
        with t have "t \<in> set (missing_members d f)" by (simp add: missing_members_def)
        with f(2) show "t = s" by simp
      qed
      moreover have "fd_media d s = None" using f(2) by (auto simp: missing_members_def filter_eq_Cons_iff)
      ultimately show "(fd_media d2 t = None) = (fd_media d t = None)"
        using none by (metis domIff map_le_def)
    qed
    with f(2) len show False by simp
  qed
  moreover have "fd_media d1 s = None"
    using f(2) m1 by (auto simp: missing_members_def filter_eq_Cons_iff)
  ultimately have "s \<in> rc_seq ` set (snd (recover_all d1))"
    using recover_all_new [of d1 s] by (simp add: d2_def)
  then show ?thesis by (auto simp: push)
qed

lemma true_parity_repairs:
  assumes ok: "fec_config_ok cfg" "fc_cols cfg < 2 ^ 10" "fc_rows cfg < 2 ^ 10" and fits: "sent_fits snt sz"
    and good: "fd_good cfg sz snt ssrc d"
    and par: "parity_of snt sz d (fp_base pkt) (pkt\<lparr>fp_base := w\<rparr>)"
      "matrix_group cfg (unat (fp_offset pkt)) (unat (fp_na pkt))"
    and loss: "sole_loss d pkt s" and two: "1 < fp_na pkt"
  shows "\<exists>r \<in> set (snd (push_fec (pkt\<lparr>fp_base := w\<rparr>) d)). rc_seq r = s \<and> recovered_true snt ssrc r"
proof -
  let ?p = "pkt\<lparr>fp_base := w\<rparr>"
  have base: "sf_base (stored_of d ?p) = fp_base pkt" by (rule parity_group(2) [OF par(1)])
  have na: "1 < unat (fp_na pkt)" using two by (simp add: word_less_nat_alt)
  have "unat (fp_na pkt) < 2 ^ 10" "0 < unat (fp_offset pkt)"
    using par(2) ok(2,3) fec_config_okD(1) [OF ok(1)] by (auto simp: matrix_group_def)
  then have shape: "fec_shape cfg (stored_of d ?p)"
    using par(2) na matrix_group_shape [of cfg "unat (fp_offset pkt)" "unat (fp_na pkt)" "stored_of d ?p"]
    by (simp add: stored_of_def)
  have ms: "members (stored_of d ?p)
      = map (member_seq (fp_base pkt) (int (unat (fp_offset pkt)))) [0..<unat (fp_na pkt)]"
    unfolding members_def base by (simp add: stored_of_def)
  have one: "missing_members d (stored_of d ?p) = [s]" and win: "0 \<le> fec_seq_diff (fd_floor d) (fp_base pkt)"
    using loss unfolding missing_members_def ms sole_loss_def Let_def by blast+
  have "newest_member (stored_of d ?p) = last (members (stored_of d ?p))"
    unfolding newest_member_def base ms using na
    by (simp add: last_map member_seq_def stored_of_def of_nat_diff)
  then have sent: "fec_seq_diff (fd_last_seq d) (newest_member (stored_of d ?p)) \<le> 0"
    using loss unfolding ms sole_loss_def Let_def by metis
  from push_fec_repairs [OF ok(1) fits good par(1) shape one win sent]
    push_fec_good [OF ok(1) fits good par(1)] show ?thesis by blast
qed

lemma parity_repairs:
  assumes "fec_config_ok cfg" "fc_cols cfg < 2 ^ 10" "fc_rows cfg < 2 ^ 10"
    and "sent_fits snt sz" "numbered isn ps snt"
    and "pkt \<in> set (snd (encoder_run (encoder_new cfg sz isn) isn ps))"
    and "fec_run (truthful snt sz ssrc) (decoder_new cfg sz isn') d out"
    and "sole_loss d pkt s"
    and "1 < fp_na pkt"
    and "2 * \<bar>fec_seq_diff (fd_last_seq d) (fp_base pkt)\<bar> < uint (base_span (fc_variant cfg))"
    and "w AND base_mask (fc_variant cfg) = fp_base pkt AND base_mask (fc_variant cfg)"
  shows "\<exists>r \<in> set (snd (push_fec (pkt\<lparr>fp_base := w\<rparr>) d)). rc_seq r = s \<and> recovered_true snt ssrc r"
proof -
  have good: "fd_good cfg sz snt ssrc d" using fec_run_good [OF assms(1,4,7)] by blast
  then have cfg: "fd_cfg d = cfg" by (simp add: fd_good_def fd_ok_def fd_mid_def fd_static_def)
  note par = covers_parity [OF assms(1-3,5) encoder_run_covers [OF assms(1,6)] cfg assms(10,11)]
  show ?thesis by (rule true_parity_repairs [OF assms(1-4) good par assms(8,9)])
qed

text \<open>FEC repairs a single loss, from the encoder to the receiver. Take any parity packet an
  encoder emitted for what was sent, its base cut to the wire width on the way: pushed to a receiver that
  misses exactly one member of the packet's group, the group inside the window and already sent, it makes
  the receiver return that member, with the timestamp, payload type, source and payload it was sent
  with.\<close>

theorem parity_repairs_single_loss:
  assumes "fec_config_ok cfg" "fc_cols cfg < 2 ^ 10" "fc_rows cfg < 2 ^ 10"
    and "sent_fits snt sz" "numbered isn ps snt"
    and "pkt \<in> set (snd (encoder_run (encoder_new cfg sz isn) isn ps))"
    and "fec_run (truthful snt sz ssrc) (decoder_new cfg sz isn') d out"
    and "sole_loss d pkt s"
    and "1 < fp_na pkt"
    and "2 * \<bar>fec_seq_diff (fd_last_seq d) (fp_base pkt)\<bar> < uint (base_span (fc_variant cfg))"
    and "w AND base_mask (fc_variant cfg) = fp_base pkt AND base_mask (fc_variant cfg)"
  shows "\<exists>r \<in> set (snd (push_fec (pkt\<lparr>fp_base := w\<rparr>) d)). rc_seq r = s \<and> recovered_true snt ssrc r"
  using assms by (rule parity_repairs)

section \<open>A concrete stream\<close>

text \<open>Four packets on a two-by-two matrix, the second lost, the parity of its row received.\<close>

definition stream :: "media list" where
  "stream = [(10, 33, [1, 2]), (20, 33, [4]), (30, 33, [8, 16]), (40, 33, [32, 64])]"

definition stream_sent :: sent where
  "stream_sent s = (if unat (s - 7) < 4 then stream ! unat (s - 7) else (0, 0, []))"

lemma stream_fits: "sent_fits stream_sent 2"
proof -
  have "i < 4 \<Longrightarrow> length (snd (snd (stream ! i))) \<le> 2" for i :: nat
    by (auto simp: stream_def numeral_eq_Suc less_Suc_eq)
  then show ?thesis by (simp add: sent_fits_def stream_sent_def split_def)
qed

lemma stream_numbered: "numbered 7 (take 2 stream) stream_sent"
proof -
  have "stream_sent (7 + of_nat i) = take 2 stream ! i" if "i = 0 \<or> i = 1" for i
    using that by (auto simp: stream_sent_def stream_def)
  moreover have "i < length (take 2 stream) \<Longrightarrow> i = 0 \<or> i = 1" for i by (auto simp: stream_def)
  ultimately show ?thesis unfolding numbered_def by blast
qed

lemma push_emits_row:
  "push_emits cfg sz isn ps n out \<Longrightarrow> row_done cfg n \<Longrightarrow> \<not> fc_column_only cfg \<Longrightarrow>
   \<exists>pkt \<in> set out. protects pkt sz isn ps (n div fc_cols cfg * fc_cols cfg) 1 (fc_cols cfg)"
  by (auto simp: push_emits_def)

text \<open>The encoder's packet for the first row.\<close>

lemma row_parity_emitted:
  obtains pkt where
    "pkt \<in> set (snd (encoder_run (encoder_new sample_fec 2 7) 7 (take 2 stream)))"
    "fp_base pkt = 7" "fp_offset pkt = 1" "fp_na pkt = 2"
proof -
  have ps: "take 2 stream = [(10, 33, [1, 2])] @ [(20, 33, [4])]" by (simp add: stream_def)
  let ?e = "fst (encoder_run (encoder_new sample_fec 2 7) 7 [(10, 33, [1, 2])])"
  have "push_emits sample_fec 2 7 (take 2 stream) 1 (snd (encoder_push ?e (7 + of_nat 1) 20 33 [4]))"
    using encoder_push_step [OF sample_fec_ok encodes_run [OF sample_fec_ok, of 2 7 "[(10, 33, [1, 2])]"],
        of 20 33 "[4]"] by (auto simp: ps)
  moreover have "row_done sample_fec 1" "\<not> fc_column_only sample_fec"
    by (simp_all add: row_done_def sample_fec_def)
  ultimately obtain pkt where pkt: "pkt \<in> set (snd (encoder_push ?e (7 + of_nat 1) 20 33 [4]))"
    "protects pkt 2 7 (take 2 stream) (1 div fc_cols sample_fec * fc_cols sample_fec) 1 (fc_cols sample_fec)"
    using push_emits_row by blast
  have "pkt \<in> set (snd (encoder_run (encoder_new sample_fec 2 7) 7 (take 2 stream)))"
    unfolding ps encoder_run_snoc using pkt(1) by (simp add: Let_def split_def)
  moreover have "fp_base pkt = 7" "fp_offset pkt = 1" "fp_na pkt = 2"
    using pkt(2) by (simp_all add: protects_def sample_fec_def)
  ultimately show thesis by (rule that)
qed

text \<open>The receiver after the first and the third packet.\<close>

definition first_in :: fec_decoder where
  "first_in = fst (fec_step (In_Media 7 10 33 1 [1, 2]) (decoder_new sample_fec 2 7))"

definition third_in :: fec_decoder where
  "third_in = fst (fec_step (In_Media 9 30 33 1 [8, 16]) first_in)"

lemma push_media_alone:
  "fd_fecs d = [] \<Longrightarrow> fd_media d s = None \<Longrightarrow> push_media s ts pt ssrc p d =
     (fd_evict ((fd_advance s d)\<lparr>fd_media := (fd_media d)(s \<mapsto>
        \<lparr>sm_ts = ts, sm_pt = pt, sm_ssrc = ssrc, sm_payload = p\<rparr>)\<rparr>), [])"
  by (simp add: push_media_def Let_def recover_all.simps)

lemmas seq_eval = fec_seq_diff_def fec_seq_add_def seq_add_eq seq_distance_def seq_raw_gap_def

lemma first_in_eq:
  "fd_fecs first_in = []" "fd_last_seq first_in = 7" "fd_have_seq first_in" "fd_window first_in = 22"
  "fd_media first_in = [7 \<mapsto> \<lparr>sm_ts = 10, sm_pt = 33, sm_ssrc = 1, sm_payload = [1, 2]\<rparr>]"
  "fd_cfg first_in = sample_fec"
  by (auto simp: first_in_def push_media_alone decoder_new_def fd_advance_def fd_evict_def fd_floor_def
      sample_fec_def matrix_size_def seq_eval fun_eq_iff)

lemma third_in_eq:
  "fd_fecs third_in = []" "fd_last_seq third_in = 9" "fd_window third_in = 22"
  "fd_media third_in 7 \<noteq> None" "fd_media third_in 8 = None" "fd_cfg third_in = sample_fec"
  by (auto simp: third_in_def push_media_alone first_in_eq fd_advance_def fd_evict_def fd_floor_def seq_eval)

lemma third_in_run: "fec_run (truthful stream_sent 2 1) (decoder_new sample_fec 2 7) third_in ([] @ [] @ [])"
proof -
  have "truthful stream_sent 2 1 (decoder_new sample_fec 2 7) (In_Media 7 10 33 1 [1, 2])"
    by (simp add: not_half_def decoder_new_def seq_eval agrees_def stream_sent_def stream_def)
  with fec_start have "fec_run (truthful stream_sent 2 1) (decoder_new sample_fec 2 7) first_in
      ([] @ snd (fec_step (In_Media 7 10 33 1 [1, 2]) (decoder_new sample_fec 2 7)))"
    unfolding first_in_def by (rule fec_run_next)
  then have "fec_run (truthful stream_sent 2 1) (decoder_new sample_fec 2 7) first_in []"
    by (simp add: push_media_alone decoder_new_def)
  moreover have "truthful stream_sent 2 1 first_in (In_Media 9 30 33 1 [8, 16])"
    by (simp add: not_half_def first_in_eq seq_eval agrees_def stream_sent_def stream_def)
  ultimately have "fec_run (truthful stream_sent 2 1) (decoder_new sample_fec 2 7) third_in
      ([] @ snd (fec_step (In_Media 9 30 33 1 [8, 16]) first_in))"
    unfolding third_in_def by (rule fec_run_next)
  then show ?thesis by (simp add: push_media_alone first_in_eq)
qed

lemma upt_two: "[0..<2] = [0, 1 :: nat]"
  by (simp add: numeral_2_eq_2)

lemma first_row_lost:
  assumes "fp_base pkt = 7" "fp_offset pkt = 1" "fp_na pkt = 2"
  shows "sole_loss third_in pkt 8" "fc_cols sample_fec < 2 ^ 10" "fc_rows sample_fec < 2 ^ 10" "1 < fp_na pkt"
    "2 * \<bar>fec_seq_diff (fd_last_seq third_in) (fp_base pkt)\<bar> < uint (base_span (fc_variant sample_fec))"
    "0x07000007 AND base_mask (fc_variant sample_fec) = fp_base pkt AND base_mask (fc_variant sample_fec)"
  using third_in_eq
  by (simp_all add: sole_loss_def assms member_seq_def fd_floor_def seq_eval upt_two
      Let_def unsigned_minus_1_eq_mask mask_eq_exp_minus_1 sample_fec_def)

theorem parity_repairs_single_loss_witness:
  "\<exists>pkt \<in> set (snd (encoder_run (encoder_new sample_fec 2 7) 7 (take 2 stream))).
     \<exists>r \<in> set (snd (push_fec (pkt\<lparr>fp_base := 0x07000007\<rparr>) third_in)).
       rc_seq r = 8 \<and> recovered_true stream_sent 1 r"
proof -
  obtain pkt where pkt: "pkt \<in> set (snd (encoder_run (encoder_new sample_fec 2 7) 7 (take 2 stream)))"
    "fp_base pkt = 7" "fp_offset pkt = 1" "fp_na pkt = 2" by (rule row_parity_emitted)
  note f = first_row_lost [OF pkt(2-4)]
  from parity_repairs_single_loss [OF sample_fec_ok f(2,3) stream_fits stream_numbered pkt(1) third_in_run f(1,4-6)]
    pkt(1) show ?thesis by blast
qed

text \<open>The same run continued by that packet recovers a packet.\<close>

lemma repaired_run:
  obtains p d out r where "fec_run (truthful stream_sent 2 1) (decoder_new sample_fec 2 7) d out"
    "r \<in> set out" "rc_seq r = 8" "r \<in> set (snd (push_fec p third_in))"
proof -
  obtain pkt where pkt: "pkt \<in> set (snd (encoder_run (encoder_new sample_fec 2 7) 7 (take 2 stream)))"
    "fp_base pkt = 7" "fp_offset pkt = 1" "fp_na pkt = 2" by (rule row_parity_emitted)
  note f = first_row_lost [OF pkt(2-4)]
  let ?p = "pkt\<lparr>fp_base := 0x07000007\<rparr>"
  obtain r where r: "r \<in> set (snd (push_fec ?p third_in))" "rc_seq r = 8"
    using parity_repairs [OF sample_fec_ok f(2,3) stream_fits stream_numbered pkt(1) third_in_run f(1,4-6)]
    by blast
  have "truthful stream_sent 2 1 third_in (In_Fec ?p)"
    using covers_parity(1) [OF sample_fec_ok f(2,3) stream_numbered encoder_run_covers [OF sample_fec_ok pkt(1)]
        third_in_eq(6) f(5,6)] by auto
  with third_in_run have "fec_run (truthful stream_sent 2 1) (decoder_new sample_fec 2 7)
      (fst (fec_step (In_Fec ?p) third_in)) (([] @ [] @ []) @ snd (fec_step (In_Fec ?p) third_in))"
    by (rule fec_run_next)
  with r that show thesis by simp
qed

theorem fec_recovers_truth_witness:
  "\<exists>d out r. fec_run (truthful stream_sent 2 1) (decoder_new sample_fec 2 7) d out
     \<and> r \<in> set out \<and> rc_seq r = 8 \<and> recovered_true stream_sent 1 r"
proof -
  obtain p d out r where run: "fec_run (truthful stream_sent 2 1) (decoder_new sample_fec 2 7) d out"
    "r \<in> set out" "rc_seq r = 8" by (rule repaired_run)
  with fec_recovers_truth [OF sample_fec_ok stream_fits run(1)] show ?thesis by blast
qed

lemma fec_run_mono:
  "fec_run A d0 d out \<Longrightarrow> (\<And>d i. A d i \<Longrightarrow> B d i) \<Longrightarrow> fec_run B d0 d out"
  by (induction rule: fec_run.induct) (auto intro: fec_run.intros)

theorem fec_recovers_only_missing_witness:
  "\<exists>p r. r \<in> set (snd (push_fec p third_in)) \<and> fd_media third_in (rc_seq r) = None
     \<and> fec_seq_diff (fd_last_seq third_in) (rc_seq r) \<le> 0 \<and> 0 \<le> fec_seq_diff (fd_floor third_in) (rc_seq r)"
proof -
  obtain p d out r where r: "r \<in> set (snd (push_fec p third_in))" by (rule repaired_run)
  have "fec_run not_half_input (decoder_new sample_fec 2 7) third_in ([] @ [] @ [])"
    by (rule fec_run_mono [OF third_in_run truthful_not_half])
  from fec_recovers_only_missing [OF sample_fec_ok this r] r show ?thesis by blast
qed



end
