(* ===== verification/Byte_Codec.thy ===== *)
theory Byte_Codec
  imports Rist_Prelude
begin

text \<open>
  Reading and writing byte buffers, shared by the wire formats: an index or a slice out of range is a
  panic (\<open>None\<close>), \<^verbatim>\<open>copy_from_slice\<close> writes in place. A codec's result is an error or a value inside
  an option, so that its totality is a theorem about it. The collection \<open>codec\<close> evaluates reads
  and writes on buffers given as concatenations.
\<close>

named_theorems codec

definition vec_slice :: "'a list \<Rightarrow> nat \<Rightarrow> nat \<Rightarrow> 'a list option" where
  "vec_slice xs i j = (if i \<le> j \<and> j \<le> length xs then Some (take (j - i) (drop i xs)) else None)"

definition vec_set :: "'a list \<Rightarrow> nat \<Rightarrow> 'a \<Rightarrow> 'a list option" where
  "vec_set xs i x = (if i < length xs then Some (xs[i := x]) else None)"

definition put_slice :: "'a list \<Rightarrow> nat \<Rightarrow> 'a list \<Rightarrow> 'a list option" where
  "put_slice buf i xs =
     (if i + length xs \<le> length buf then Some (take i buf @ xs @ drop (i + length xs) buf) else None)"

definition get_be16 :: "bytes \<Rightarrow> nat \<Rightarrow> u16 option" where
  "get_be16 b i = do { x \<leftarrow> vec_get b i; y \<leftarrow> vec_get b (i + 1); Some (of_be16 x y) }"

definition get_be32 :: "bytes \<Rightarrow> nat \<Rightarrow> u32 option" where
  "get_be32 b i = do {
     w \<leftarrow> vec_get b i; x \<leftarrow> vec_get b (i + 1); y \<leftarrow> vec_get b (i + 2); z \<leftarrow> vec_get b (i + 3);
     Some (of_be32 w x y z) }"

text \<open>64-bit fields, as two 32-bit halves.\<close>

definition be64 :: "u64 \<Rightarrow> bytes" where
  "be64 w = be32 (ucast (drop_bit 32 w)) @ be32 (ucast w)"

definition of_be64 :: "u32 \<Rightarrow> u32 \<Rightarrow> u64" where
  "of_be64 hi lo = push_bit 32 (ucast hi) OR ucast lo"

definition get_be64 :: "bytes \<Rightarrow> nat \<Rightarrow> u64 option" where
  "get_be64 b i = do { hi \<leftarrow> get_be32 b i; lo \<leftarrow> get_be32 b (i + 4); Some (of_be64 hi lo) }"

lemma length_be64 [simp]: "length (be64 w) = 8"
  by (simp add: be64_def)

lemma of_be64_be64 [simp]: "of_be64 (ucast (drop_bit 32 w)) (ucast w) = w"
  unfolding of_be64_def by (rule bit_word_eqI) (auto simp: bit_simps)

section \<open>Reading\<close>

lemma vec_get_append [codec]: "i = length pre \<Longrightarrow> vec_get (pre @ x # post) i = Some x"
  by simp

lemma get_be16_at [codec]: "i = length pre \<Longrightarrow> get_be16 (pre @ be16 w @ post) i = Some w"
  by (simp add: get_be16_def be16_def nth_append)

lemma get_be32_at [codec]: "i = length pre \<Longrightarrow> get_be32 (pre @ be32 w @ post) i = Some w"
  by (simp add: get_be32_def be32_def nth_append)

lemma vec_slice_at [codec]:
  "i = length pre \<Longrightarrow> j = length pre + length xs \<Longrightarrow> vec_slice (pre @ xs @ post) i j = Some xs"
  by (simp add: vec_slice_def)

lemma get_be64_at [codec]: "i = length pre \<Longrightarrow> get_be64 (pre @ be64 w @ post) i = Some w"
  using get_be32_at [of i pre "ucast (drop_bit 32 w)" "be32 (ucast w) @ post"]
    get_be32_at [of "i + 4" "pre @ be32 (ucast (drop_bit 32 w))" "ucast w" post]
  by (simp add: get_be64_def be64_def)

lemma get_be64_total: "i + 8 \<le> length b \<Longrightarrow> \<exists>w. get_be64 b i = Some w"
  by (simp add: get_be64_def get_be32_def)

lemma get_be16_total: "i + 2 \<le> length b \<Longrightarrow> get_be16 b i = Some (of_be16 (b ! i) (b ! (i + 1)))"
  by (simp add: get_be16_def)

lemma get_be32_total:
  "i + 4 \<le> length b \<Longrightarrow>
   get_be32 b i = Some (of_be32 (b ! i) (b ! (i + 1)) (b ! (i + 2)) (b ! (i + 3)))"
  by (simp add: get_be32_def)

lemma vec_slice_total: "i \<le> j \<Longrightarrow> j \<le> length b \<Longrightarrow> vec_slice b i j = Some (take (j - i) (drop i b))"
  by (simp add: vec_slice_def)

section \<open>Writing\<close>

text \<open>A buffer written from its start: what is written so far, then what is left of the original.\<close>

lemma put_slice_grow [codec]:
  "n = length pre \<Longrightarrow> n + length xs \<le> length buf \<Longrightarrow>
   put_slice (pre @ drop n buf) n xs = Some ((pre @ xs) @ drop (n + length xs) buf)"
  by (simp add: put_slice_def add.commute)

lemma vec_set_grow [codec]:
  "n = length pre \<Longrightarrow> n < length buf \<Longrightarrow>
   vec_set (pre @ drop n buf) n x = Some ((pre @ [x]) @ drop (n + 1) buf)"
  by (simp add: vec_set_def list_update_append Cons_nth_drop_Suc [symmetric])

lemma vec_set_first [codec]: "0 < length buf \<Longrightarrow> vec_set buf 0 x = Some ([x] @ drop 1 buf)"
  by (cases buf) (simp_all add: vec_set_def)

section \<open>Bytes of words\<close>

lemma be16_of_be16 [simp]: "be16 (of_be16 a b) = [a, b]"
proof -
  have "ucast (drop_bit 8 (of_be16 a b)) = a" "ucast (of_be16 a b) = b"
    unfolding of_be16_def by (rule bit_word_eqI; auto simp: bit_simps dest: bit_imp_le_length)+
  then show ?thesis by (simp add: be16_def)
qed

lemma be32_of_be32 [simp]: "be32 (of_be32 a b c d) = [a, b, c, d]"
proof -
  have "ucast (drop_bit 24 (of_be32 a b c d)) = a" "ucast (drop_bit 16 (of_be32 a b c d)) = b"
    "ucast (drop_bit 8 (of_be32 a b c d)) = c" "ucast (of_be32 a b c d) = d"
    unfolding of_be32_def by (rule bit_word_eqI; auto simp: bit_simps dest: bit_imp_le_length)+
  then show ?thesis by (simp add: be32_def)
qed

text \<open>A buffer holds the big-endian bytes of what is read from it.\<close>

lemma get_be16_bytes:
  assumes "get_be16 b i = Some w"
  shows "i + 2 \<le> length b" "take 2 (drop i b) = be16 w"
proof -
  have len: "i + 1 < length b" and w: "w = of_be16 (b ! i) (b ! (i + 1))"
    using assms by (auto simp: get_be16_def vec_get_def split: if_splits)
  then have "drop i b = b ! i # b ! (i + 1) # drop (i + 2) b"
    by (metis Cons_nth_drop_Suc Suc_eq_plus1 add_lessD1 add_2_eq_Suc')
  with w show "take 2 (drop i b) = be16 w" by simp
  show "i + 2 \<le> length b" using len by simp
qed

lemma get_be32_bytes:
  assumes "get_be32 b i = Some w"
  shows "i + 4 \<le> length b" "take 4 (drop i b) = be32 w"
proof -
  have len: "i + 3 < length b" and w: "w = of_be32 (b ! i) (b ! (i + 1)) (b ! (i + 2)) (b ! (i + 3))"
    using assms by (auto simp: get_be32_def vec_get_def split: if_splits)
  have "drop i b = b ! i # drop (i + 1) b" "drop (i + 1) b = b ! (i + 1) # drop (i + 2) b"
    "drop (i + 2) b = b ! (i + 2) # drop (i + 3) b" "drop (i + 3) b = b ! (i + 3) # drop (i + 4) b"
    using len Cons_nth_drop_Suc [of i b] Cons_nth_drop_Suc [of "i + 1" b]
      Cons_nth_drop_Suc [of "i + 2" b] Cons_nth_drop_Suc [of "i + 3" b] by (simp_all add: eval_nat_numeral)
  with w show "take 4 (drop i b) = be32 w" by (simp add: take_Cons')
  show "i + 4 \<le> length b" using len by simp
qed

section \<open>Fields of a byte\<close>

lemma bit_positions: "n < 8 \<longleftrightarrow> n \<in> {0, 1, 2, 3, 4, 5, 6, 7 :: nat}"
  by auto

lemma flag_bit: "((drop_bit n b :: 'a::len word) AND 1 \<noteq> 0) = bit b n"
  by (simp add: and_one_eq bit_iff_odd_drop_bit odd_iff_mod_2_eq_one)

lemma top_flag_bit: "(drop_bit 7 (b :: u8) \<noteq> 0) = bit b 7"
proof
  assume "drop_bit 7 b \<noteq> 0"
  then obtain n where "bit b (7 + n)" by (auto simp: bit_eq_iff bit_simps)
  with bit_imp_le_length [OF this] show "bit b 7" by simp
qed (auto simp: bit_eq_iff bit_simps intro: exI [of _ 0])

lemma high_bits: "unat (v :: 'a::len word) < 2 ^ n \<Longrightarrow> n \<le> k \<Longrightarrow> \<not> bit v k"
  by (metis bit_take_bit_iff linorder_not_less take_bit_eq_mod unsigned_take_bit_eq word_unat_eq_iff mod_less)

lemma and_mask_small:
  assumes "unat (v :: 'a::len word) < 2 ^ n"
  shows "v AND mask n = v"
proof (rule bit_word_eqI)
  fix k assume "k < LENGTH('a)"
  then show "bit (v AND mask n) k = bit v k"
    using high_bits [OF assms, of k] by (cases "k < n") (auto simp: bit_simps)
qed

end
