(* ===== verification/Rtp.thy ===== *)
theory Rtp
  imports Byte_Codec
begin

text \<open>
  The RTP packet codec (\<^verbatim>\<open>rist-codec/src/rtp.rs\<close>): header, CSRC list, opaque header extension,
  payload and padding, and the marking of retransmissions in the SSRC. A writer works on a buffer and
  leaves it untouched when it returns an error.
\<close>

section \<open>Types and constants\<close>

datatype rtp_error =
    HeaderTooShort nat nat
  | ExtensionTooShort nat nat
  | PacketTooShort
  | InvalidPadding string
  | ShortBuffer nat nat
  | InvalidVersion u8
  | TooManyCsrc nat
  | ExtensionNotAligned nat
  | ExtensionTooLong nat

definition fixed_header_size :: nat where "fixed_header_size = 12"
definition max_csrc :: nat where "max_csrc = 15"
definition version_mask :: u8 where "version_mask = 0x3"
definition cc_mask :: u8 where "cc_mask = 0xF"
definition pt_mask :: u8 where "pt_mask = 0x7F"
definition csrc_offset :: nat where "csrc_offset = 12"
definition csrc_length :: nat where "csrc_length = 4"
definition ext_header_size :: nat where "ext_header_size = 4"

record rtp_header =
  rh_version :: u8
  rh_padding :: bool
  rh_extension :: bool
  rh_csrc_count :: u8
  rh_marker :: bool
  rh_payload_type :: u8
  rh_sequence_number :: u16
  rh_timestamp :: u32
  rh_ssrc :: u32
  rh_csrc :: "u32 list"
  rh_extension_profile :: u16
  rh_extension_payload :: bytes

record rtp_packet =
  rp_header :: rtp_header
  rp_payload :: bytes
  rp_padding_size :: u8

section \<open>The header\<close>

fun get_csrcs :: "bytes \<Rightarrow> nat \<Rightarrow> nat \<Rightarrow> u32 list option" where
  "get_csrcs b off 0 = Some []"
| "get_csrcs b off (Suc k) =
     do { w \<leftarrow> get_be32 b off; ws \<leftarrow> get_csrcs b (off + csrc_length) k; Some (w # ws) }"

definition header_extension ::
    "bytes \<Rightarrow> rtp_header \<Rightarrow> nat \<Rightarrow> (rtp_error + rtp_header \<times> nat) option" where
  "header_extension b h n =
     (if length b < n + ext_header_size
      then Some (Inl (ExtensionTooShort (length b) (n + ext_header_size)))
      else do {
        profile \<leftarrow> get_be16 b n;
        words \<leftarrow> get_be16 b (n + 2);
        let ext_len = unat words * 4;
        let n = n + ext_header_size;
        if length b < n + ext_len then Some (Inl (ExtensionTooShort (length b) (n + ext_len)))
        else do {
          payload \<leftarrow> vec_slice b n (n + ext_len);
          Some (Inr (h\<lparr>rh_extension_profile := profile, rh_extension_payload := payload\<rparr>, n + ext_len))
        }
      })"

definition header_decode :: "bytes \<Rightarrow> (rtp_error + rtp_header \<times> nat) option" where
  "header_decode b =
     (if length b < fixed_header_size
      then Some (Inl (HeaderTooShort (length b) fixed_header_size))
      else do {
        b0 \<leftarrow> vec_get b 0;
        b1 \<leftarrow> vec_get b 1;
        seqn \<leftarrow> get_be16 b 2;
        ts \<leftarrow> get_be32 b 4;
        ssrc \<leftarrow> get_be32 b 8;
        let n_csrc = unat (b0 AND cc_mask);
        let n = csrc_offset + n_csrc * csrc_length;
        if length b < n then Some (Inl (HeaderTooShort (length b) n))
        else do {
          csrc \<leftarrow> get_csrcs b csrc_offset n_csrc;
          let h = \<lparr>rh_version = drop_bit 6 b0 AND version_mask,
                   rh_padding = (drop_bit 5 b0 AND 1 \<noteq> 0),
                   rh_extension = (drop_bit 4 b0 AND 1 \<noteq> 0),
                   rh_csrc_count = of_nat n_csrc,
                   rh_marker = (drop_bit 7 b1 \<noteq> 0),
                   rh_payload_type = b1 AND pt_mask,
                   rh_sequence_number = seqn, rh_timestamp = ts, rh_ssrc = ssrc, rh_csrc = csrc,
                   rh_extension_profile = 0, rh_extension_payload = []\<rparr>;
          if rh_extension h then header_extension b h n else Some (Inr (h, n))
        }
      })"

definition header_marshal_size :: "rtp_header \<Rightarrow> nat" where
  "header_marshal_size h =
     fixed_header_size + length (rh_csrc h) * csrc_length
     + (if rh_extension h then ext_header_size + length (rh_extension_payload h) else 0)"

fun put_csrcs :: "bytes \<Rightarrow> nat \<Rightarrow> u32 list \<Rightarrow> (bytes \<times> nat) option" where
  "put_csrcs buf n [] = Some (buf, n)"
| "put_csrcs buf n (w # ws) =
     do { buf \<leftarrow> put_slice buf n (be32 w); put_csrcs buf (n + csrc_length) ws }"

definition header_first_byte :: "rtp_header \<Rightarrow> u8" where
  "header_first_byte h =
     (push_bit 6 (rh_version h) OR of_nat (length (rh_csrc h)))
     OR (if rh_padding h then push_bit 5 1 else 0) OR (if rh_extension h then push_bit 4 1 else 0)"

definition header_second_byte :: "rtp_header \<Rightarrow> u8" where
  "header_second_byte h = (rh_payload_type h AND pt_mask) OR (if rh_marker h then push_bit 7 1 else 0)"

definition header_write :: "rtp_header \<Rightarrow> bytes \<Rightarrow> (bytes \<times> nat) option" where
  "header_write h buf =
     do {
       buf \<leftarrow> vec_set buf 0 (header_first_byte h);
       buf \<leftarrow> vec_set buf 1 (header_second_byte h);
       buf \<leftarrow> put_slice buf 2 (be16 (rh_sequence_number h));
       buf \<leftarrow> put_slice buf 4 (be32 (rh_timestamp h));
       buf \<leftarrow> put_slice buf 8 (be32 (rh_ssrc h));
       (buf, n) \<leftarrow> put_csrcs buf csrc_offset (rh_csrc h);
       if rh_extension h then do {
         buf \<leftarrow> put_slice buf n (be16 (rh_extension_profile h));
         buf \<leftarrow> put_slice buf (n + 2) (be16 (of_nat (length (rh_extension_payload h) div 4)));
         buf \<leftarrow> put_slice buf (n + ext_header_size) (rh_extension_payload h);
         Some (buf, n + ext_header_size + length (rh_extension_payload h))
       }
       else Some (buf, n)
     }"

definition header_marshal_to :: "rtp_header \<Rightarrow> bytes \<Rightarrow> (rtp_error + bytes \<times> nat) option" where
  "header_marshal_to h buf =
     (if version_mask < rh_version h then Some (Inl (InvalidVersion (rh_version h)))
      else if max_csrc < length (rh_csrc h) then Some (Inl (TooManyCsrc (length (rh_csrc h))))
      else if rh_extension h \<and> length (rh_extension_payload h) mod 4 \<noteq> 0
      then Some (Inl (ExtensionNotAligned (length (rh_extension_payload h))))
      else if rh_extension h \<and> 0xFFFF < length (rh_extension_payload h) div 4
      then Some (Inl (ExtensionTooLong (length (rh_extension_payload h) div 4)))
      else if length buf < header_marshal_size h
      then Some (Inl (ShortBuffer (length buf) (header_marshal_size h)))
      else do { r \<leftarrow> header_write h buf; Some (Inr r) })"

text \<open>\<^verbatim>\<open>append_to\<close> grows \<open>dst\<close> first, so on an error the zeros stay.\<close>

definition header_append_to :: "rtp_header \<Rightarrow> bytes \<Rightarrow> (bytes \<times> rtp_error option) option" where
  "header_append_to h dst =
     do {
       let start = length dst;
       let grown = dst @ replicate (header_marshal_size h) 0;
       r \<leftarrow> header_marshal_to h (drop start grown);
       Some (case r of Inl e \<Rightarrow> (grown, Some e) | Inr (buf, _) \<Rightarrow> (take start grown @ buf, None))
     }"

section \<open>The packet\<close>

definition padding_of :: "bytes \<Rightarrow> bool \<Rightarrow> nat \<Rightarrow> (rtp_error + u8) option" where
  "padding_of b padding n =
     (if \<not> padding then Some (Inr 0)
      else if length b \<le> n then Some (Inl PacketTooShort)
      else do {
        pad \<leftarrow> vec_get b (length b - 1);
        if pad = 0 then Some (Inl (InvalidPadding ''padding count is zero''))
        else if length b - n < unat pad
        then Some (Inl (InvalidPadding ''padding count exceeds bytes after header''))
        else Some (Inr pad)
      })"

definition packet_decode :: "bytes \<Rightarrow> (rtp_error + rtp_packet) option" where
  "packet_decode b =
     do {
       r \<leftarrow> header_decode b;
       case r of Inl e \<Rightarrow> Some (Inl e)
       | Inr (h, n) \<Rightarrow> do {
           q \<leftarrow> padding_of b (rh_padding h) n;
           case q of Inl e \<Rightarrow> Some (Inl e)
           | Inr pad \<Rightarrow> do {
               payload \<leftarrow> vec_slice b n (length b - unat pad);
               Some (Inr \<lparr>rp_header = h, rp_payload = payload, rp_padding_size = pad\<rparr>)
             }
         }
     }"

definition packet_marshal_size :: "rtp_packet \<Rightarrow> nat" where
  "packet_marshal_size p =
     header_marshal_size (rp_header p) + length (rp_payload p) + unat (rp_padding_size p)"

definition packet_marshal_to :: "rtp_packet \<Rightarrow> bytes \<Rightarrow> (rtp_error + bytes \<times> nat) option" where
  "packet_marshal_to p buf =
     (if rh_padding (rp_header p) \<noteq> (0 < rp_padding_size p)
      then Some (Inl (InvalidPadding ''padding flag and padding_size disagree''))
      else if length buf < packet_marshal_size p
      then Some (Inl (ShortBuffer (length buf) (packet_marshal_size p)))
      else do {
        r \<leftarrow> header_marshal_to (rp_header p) buf;
        case r of Inl e \<Rightarrow> Some (Inl e)
        | Inr (buf, n) \<Rightarrow> do {
            buf \<leftarrow> put_slice buf n (rp_payload p);
            let n = n + length (rp_payload p);
            if 0 < rp_padding_size p then do {
              let pad = unat (rp_padding_size p);
              buf \<leftarrow> put_slice buf n (replicate (pad - 1) 0);
              buf \<leftarrow> vec_set buf (n + pad - 1) (rp_padding_size p);
              Some (Inr (buf, n + pad))
            }
            else Some (Inr (buf, n))
          }
      })"

definition packet_encode :: "rtp_packet \<Rightarrow> (rtp_error + bytes) option" where
  "packet_encode p =
     do {
       r \<leftarrow> packet_marshal_to p (replicate (packet_marshal_size p) 0);
       Some (case r of Inl e \<Rightarrow> Inl e | Inr (buf, n) \<Rightarrow> Inr (take n buf))
     }"

section \<open>Retransmissions\<close>

definition normalize_ssrc :: "u32 \<Rightarrow> u32" where
  "normalize_ssrc ssrc = ssrc AND NOT 1"

definition mark_retransmit :: "u32 \<Rightarrow> u32" where
  "mark_retransmit ssrc = ssrc OR 1"

definition is_retransmit :: "u32 \<Rightarrow> bool" where
  "is_retransmit ssrc \<longleftrightarrow> ssrc AND 1 \<noteq> 0"

section \<open>The layout\<close>

text \<open>The packet format of RFC 3550, as one concatenation.\<close>

definition header_layout :: "rtp_header \<Rightarrow> bytes" where
  "header_layout h =
     [header_first_byte h, header_second_byte h] @ be16 (rh_sequence_number h) @ be32 (rh_timestamp h)
     @ be32 (rh_ssrc h) @ concat (map be32 (rh_csrc h))
     @ (if rh_extension h
        then be16 (rh_extension_profile h) @ be16 (of_nat (length (rh_extension_payload h) div 4))
             @ rh_extension_payload h
        else [])"

definition padding_layout :: "u8 \<Rightarrow> bytes" where
  "padding_layout pad = (if 0 < pad then replicate (unat pad - 1) 0 @ [pad] else [])"

definition packet_layout :: "rtp_packet \<Rightarrow> bytes" where
  "packet_layout p = header_layout (rp_header p) @ rp_payload p @ padding_layout (rp_padding_size p)"

definition header_fits :: "rtp_header \<Rightarrow> bool" where
  "header_fits h \<longleftrightarrow>
     rh_version h \<le> version_mask \<and> length (rh_csrc h) \<le> max_csrc
     \<and> (rh_extension h \<longrightarrow>
          length (rh_extension_payload h) mod 4 = 0 \<and> length (rh_extension_payload h) div 4 \<le> 0xFFFF)"

lemma length_csrcs [simp]: "length (concat (map be32 ws)) = length ws * 4"
  by (induction ws) simp_all

lemma length_header_layout [simp]: "length (header_layout h) = header_marshal_size h"
  by (simp add: header_layout_def header_marshal_size_def fixed_header_size_def csrc_length_def
      ext_header_size_def)

lemma length_padding_layout [simp]: "length (padding_layout pad) = unat pad"
  by (auto simp: padding_layout_def word_less_nat_alt)

lemma length_packet_layout [simp]: "length (packet_layout p) = packet_marshal_size p"
  by (simp add: packet_layout_def packet_marshal_size_def)

section \<open>Writing is the layout\<close>

lemma put_csrcs_grow [codec]:
  "n = length pre \<Longrightarrow> n + length ws * 4 \<le> length buf \<Longrightarrow>
   put_csrcs (pre @ drop n buf) n ws =
     Some ((pre @ concat (map be32 ws)) @ drop (n + length ws * 4) buf, n + length ws * 4)"
proof (induction ws arbitrary: pre n)
  case (Cons w ws)
  have "put_csrcs ((pre @ be32 w) @ drop (n + 4) buf) (n + 4) ws =
      Some (((pre @ be32 w) @ concat (map be32 ws)) @ drop (n + 4 + length ws * 4) buf, n + 4 + length ws * 4)"
    using Cons.prems by (intro Cons.IH) simp_all
  with Cons.prems put_slice_grow [of n pre "be32 w" buf] show ?case
    by (simp add: csrc_length_def add.assoc)
qed simp

lemma header_write_at:
  assumes "header_marshal_size h \<le> length buf"
  shows "header_write h buf =
    Some (header_layout h @ drop (header_marshal_size h) buf, header_marshal_size h)"
proof -
  define n where "n = 12 + length (rh_csrc h) * 4"
  define x where "x = length (rh_extension_payload h)"
  have size: "header_marshal_size h = n + (if rh_extension h then 4 + x else 0)"
    by (simp add: header_marshal_size_def fixed_header_size_def csrc_length_def ext_header_size_def n_def x_def)
  with assms have len: "12 \<le> length buf" "n \<le> length buf" "rh_extension h \<Longrightarrow> n + 4 + x \<le> length buf"
    by (simp_all add: n_def)
  define p2 where "p2 = [header_first_byte h, header_second_byte h]"
  define p4 where "p4 = p2 @ be16 (rh_sequence_number h)"
  define p8 where "p8 = p4 @ be32 (rh_timestamp h)"
  define p12 where "p12 = p8 @ be32 (rh_ssrc h)"
  define pn where "pn = p12 @ concat (map be32 (rh_csrc h))"
  have lens: "length p2 = 2" "length p4 = 4" "length p8 = 8" "length p12 = 12" "length pn = n"
    by (simp_all add: p2_def p4_def p8_def p12_def pn_def n_def)
  have w0: "vec_set buf 0 (header_first_byte h) = Some ([header_first_byte h] @ drop 1 buf)"
    using len(1) by (intro vec_set_first) linarith
  have w1: "vec_set ([header_first_byte h] @ drop 1 buf) 1 (header_second_byte h) = Some (p2 @ drop 2 buf)"
    using vec_set_grow [of 1 "[header_first_byte h]" buf "header_second_byte h"] len(1)
    by (simp add: p2_def numeral_2_eq_2)
  have w2: "put_slice (p2 @ drop 2 buf) 2 (be16 (rh_sequence_number h)) = Some (p4 @ drop 4 buf)"
    using put_slice_grow [of 2 p2 "be16 (rh_sequence_number h)" buf] len(1) lens by (simp add: p4_def)
  have w3: "put_slice (p4 @ drop 4 buf) 4 (be32 (rh_timestamp h)) = Some (p8 @ drop 8 buf)"
    using put_slice_grow [of 4 p4 "be32 (rh_timestamp h)" buf] len(1) lens by (simp add: p8_def)
  have w4: "put_slice (p8 @ drop 8 buf) 8 (be32 (rh_ssrc h)) = Some (p12 @ drop 12 buf)"
    using put_slice_grow [of 8 p8 "be32 (rh_ssrc h)" buf] len(1) lens by (simp add: p12_def)
  have w5: "put_csrcs (p12 @ drop 12 buf) 12 (rh_csrc h) = Some (pn @ drop n buf, n)"
    using put_csrcs_grow [of 12 p12 "rh_csrc h" buf] len(2) lens by (simp add: pn_def n_def)
  note w = w0 w1 w2 w3 w4 w5
  have layout: "header_layout h = pn @ (if rh_extension h then be16 (rh_extension_profile h)
      @ be16 (of_nat (x div 4)) @ rh_extension_payload h else [])"
    by (simp add: header_layout_def pn_def p12_def p8_def p4_def p2_def x_def)
  show ?thesis
  proof (cases "rh_extension h")
    case False
    then show ?thesis by (simp add: header_write_def w [simplified] csrc_offset_def layout size)
  next
    case True
    define pa where "pa = pn @ be16 (rh_extension_profile h)"
    define pb where "pb = pa @ be16 (of_nat (x div 4))"
    have e1: "put_slice (pn @ drop n buf) n (be16 (rh_extension_profile h)) = Some (pa @ drop (n + 2) buf)"
      using put_slice_grow [of n pn "be16 (rh_extension_profile h)" buf] len(3) [OF True] lens by (simp add: pa_def)
    have e2: "put_slice (pa @ drop (n + 2) buf) (n + 2) (be16 (of_nat (x div 4))) = Some (pb @ drop (n + 4) buf)"
    proof -
      have "n + 2 + length (be16 (of_nat (x div 4))) = n + 4" by simp
      moreover have "put_slice (pa @ drop (n + 2) buf) (n + 2) (be16 (of_nat (x div 4)))
          = Some ((pa @ be16 (of_nat (x div 4))) @ drop (n + 2 + length (be16 (of_nat (x div 4)))) buf)"
        by (rule put_slice_grow) (use len(3) [OF True] lens in \<open>simp_all add: pa_def\<close>)
      ultimately show ?thesis by (simp only: pb_def)
    qed
    have e3: "put_slice (pb @ drop (n + 4) buf) (n + 4) (rh_extension_payload h)
        = Some (pb @ rh_extension_payload h @ drop (n + 4 + x) buf)"
      using put_slice_grow [of "n + 4" pb "rh_extension_payload h" buf] len(3) [OF True] lens
      by (simp add: pb_def pa_def x_def add.assoc)
    show ?thesis using True
      by (simp add: header_write_def w [simplified] csrc_offset_def layout size e1 [simplified] e2 [simplified]
          e3 [simplified] ext_header_size_def x_def [symmetric] add.assoc)
        (simp add: pb_def pa_def)
  qed
qed

lemma header_marshal_to_fits:
  "header_fits h \<Longrightarrow> header_marshal_size h \<le> length buf \<Longrightarrow>
   header_marshal_to h buf =
     Some (Inr (header_layout h @ drop (header_marshal_size h) buf, header_marshal_size h))"
  by (auto simp: header_marshal_to_def header_fits_def header_write_at)

lemma padding_write:
  assumes "0 < pad" and "n = length pre" and "n + unat pad \<le> length buf"
  shows "(do { b \<leftarrow> put_slice (pre @ drop n buf) n (replicate (unat pad - 1) 0);
               b \<leftarrow> vec_set b (n + unat pad - 1) pad; Some b })
    = Some ((pre @ padding_layout pad) @ drop (n + unat pad) buf)"
proof -
  have pos: "0 < unat pad" using assms(1) by (simp add: word_less_nat_alt)
  define m where "m = n + (unat pad - 1)"
  define pz where "pz = pre @ replicate (unat pad - 1) 0"
  have m: "m = length pz" "m + 1 = n + unat pad" "n + unat pad - 1 = m"
    using pos assms(2) by (simp_all add: m_def pz_def)
  have "put_slice (pre @ drop n buf) n (replicate (unat pad - 1) 0)
      = Some (pz @ drop (n + length (replicate (unat pad - 1) (0 :: u8))) buf)"
    unfolding pz_def by (rule put_slice_grow) (use assms pos in simp_all)
  then have a: "put_slice (pre @ drop n buf) n (replicate (unat pad - 1) 0) = Some (pz @ drop m buf)"
    by (simp add: m_def)
  have b: "vec_set (pz @ drop m buf) m pad = Some ((pz @ [pad]) @ drop (m + 1) buf)"
    by (rule vec_set_grow) (use m assms(3) in simp_all)
  show ?thesis unfolding m(3) a using b assms(1) m(2) by (simp add: pz_def padding_layout_def)
qed

definition packet_error :: "rtp_packet \<Rightarrow> rtp_error option" where
  "packet_error p =
     (let h = rp_header p; x = length (rh_extension_payload h) in
      if rh_padding h \<noteq> (0 < rp_padding_size p)
      then Some (InvalidPadding ''padding flag and padding_size disagree'')
      else if 3 < rh_version h then Some (InvalidVersion (rh_version h))
      else if 15 < length (rh_csrc h) then Some (TooManyCsrc (length (rh_csrc h)))
      else if rh_extension h \<and> x mod 4 \<noteq> 0 then Some (ExtensionNotAligned x)
      else if rh_extension h \<and> 0xFFFF < x div 4 then Some (ExtensionTooLong (x div 4))
      else None)"

lemma packet_encode_fits:
  assumes fits: "header_fits (rp_header p)" and pad: "rh_padding (rp_header p) = (0 < rp_padding_size p)"
  shows "packet_encode p = Some (Inr (packet_layout p))"
proof -
  define buf :: bytes where "buf = replicate (packet_marshal_size p) 0"
  define h where "h = rp_header p"
  define n where "n = header_marshal_size h"
  define k where "k = n + length (rp_payload p)"
  have size: "packet_marshal_size p = k + unat (rp_padding_size p)" "length buf = packet_marshal_size p"
    by (simp_all add: packet_marshal_size_def buf_def n_def h_def k_def)
  have hm: "header_marshal_to h buf = Some (Inr (header_layout h @ drop n buf, n))"
    unfolding n_def by (rule header_marshal_to_fits) (use fits size in \<open>simp_all add: h_def k_def n_def\<close>)
  have "put_slice (header_layout h @ drop n buf) n (rp_payload p)
      = Some ((header_layout h @ rp_payload p) @ drop (n + length (rp_payload p)) buf)"
    by (rule put_slice_grow) (use size in \<open>simp_all add: n_def k_def\<close>)
  then have pl: "put_slice (header_layout h @ drop n buf) n (rp_payload p)
      = Some ((header_layout h @ rp_payload p) @ drop k buf)"
    by (simp only: k_def)
  have pw: "0 < rp_padding_size p \<Longrightarrow>
      (do { b \<leftarrow> put_slice ((header_layout h @ rp_payload p) @ drop k buf) k
                  (replicate (unat (rp_padding_size p) - 1) 0);
            b \<leftarrow> vec_set b (k + unat (rp_padding_size p) - 1) (rp_padding_size p); Some b })
      = Some (((header_layout h @ rp_payload p) @ padding_layout (rp_padding_size p))
              @ drop (k + unat (rp_padding_size p)) buf)"
    by (rule padding_write) (use size in \<open>simp_all add: n_def k_def\<close>)
  have len: "length (packet_layout p) = k + unat (rp_padding_size p)" using size by simp
  have lay: "packet_layout p = (header_layout h @ rp_payload p) @ padding_layout (rp_padding_size p)"
    by (simp add: packet_layout_def h_def)
  have "packet_marshal_to p buf = Some (Inr (packet_layout p, k + unat (rp_padding_size p)))"
  proof (cases "0 < rp_padding_size p")
    case True
    then show ?thesis
      using pw pad size unfolding packet_marshal_to_def h_def [symmetric] hm
      by (auto simp: pl [simplified] k_def [symmetric] Let_def lay split: Option.bind_splits)
  next
    case False
    then show ?thesis using pad size unfolding packet_marshal_to_def h_def [symmetric] hm
      by (simp add: pl [simplified] k_def [symmetric] lay padding_layout_def word_less_nat_alt)
  qed
  then show ?thesis using len by (simp add: packet_encode_def buf_def)
qed

lemma header_marshal_to_error:
  "header_marshal_to h buf = Some (Inl e) \<Longrightarrow> header_marshal_size h \<le> length buf \<Longrightarrow>
   \<not> header_fits h"
  by (auto simp: header_marshal_to_fits)

lemma packet_error_none:
  "packet_error p = None \<longleftrightarrow>
     header_fits (rp_header p) \<and> rh_padding (rp_header p) = (0 < rp_padding_size p)"
  by (auto simp: packet_error_def header_fits_def Let_def version_mask_def max_csrc_def not_less
      word_neq_0_conv)

lemma packet_encode_error:
  assumes "packet_error p = Some e"
  shows "packet_encode p = Some (Inl e)"
proof -
  have "header_marshal_size (rp_header p) \<le> packet_marshal_size p"
    by (simp add: packet_marshal_size_def)
  then show ?thesis using assms
    by (auto simp: packet_encode_def packet_marshal_to_def packet_error_def header_marshal_to_def
        Let_def version_mask_def max_csrc_def split: if_splits)
qed

section \<open>Reading the layout back\<close>

lemma first_byte_fields:
  assumes "rh_version h \<le> 3" and "length (rh_csrc h) \<le> 15"
  shows "drop_bit 6 (header_first_byte h) AND 3 = rh_version h
    \<and> (drop_bit 5 (header_first_byte h) AND 1 \<noteq> 0) = rh_padding h
    \<and> (drop_bit 4 (header_first_byte h) AND 1 \<noteq> 0) = rh_extension h
    \<and> header_first_byte h AND 0xF = of_nat (length (rh_csrc h))"
proof -
  define v where "v = rh_version h"
  define c where "c = (of_nat (length (rh_csrc h)) :: u8)"
  have v: "\<not> bit v 2" "\<not> bit v 3" "\<not> bit v 4" "\<not> bit v 5" "\<not> bit v 6" "\<not> bit v 7"
    using high_bits [of v 2] assms(1) by (simp_all add: v_def word_le_nat_alt)
  have c: "\<not> bit c 4" "\<not> bit c 5" "\<not> bit c 6" "\<not> bit c 7"
    using high_bits [of c 4] assms(2) by (simp_all add: c_def unat_of_nat)
  note b = header_first_byte_def v_def [symmetric] c_def [symmetric]
  have "drop_bit 6 (header_first_byte h) AND 3 = v"
    unfolding b by (rule bit_word_eqI) (auto simp: bit_positions bit_simps v c)
  moreover have "header_first_byte h AND 0xF = c"
    unfolding b by (rule bit_word_eqI) (auto simp: bit_positions bit_simps v c)
  moreover have "bit (header_first_byte h) 5 = rh_padding h" "bit (header_first_byte h) 4 = rh_extension h"
    unfolding b by (auto simp: bit_simps v c)
  ultimately show ?thesis unfolding flag_bit v_def c_def by blast
qed

lemma second_byte_fields:
  assumes "rh_payload_type h \<le> 0x7F"
  shows "(drop_bit 7 (header_second_byte h) \<noteq> 0) = rh_marker h
    \<and> header_second_byte h AND 0x7F = rh_payload_type h"
proof -
  have t: "\<not> bit (rh_payload_type h) 7"
    using high_bits [of "rh_payload_type h" 7] assms by (simp add: word_le_nat_alt)
  have "header_second_byte h AND 0x7F = rh_payload_type h"
    unfolding header_second_byte_def pt_mask_def by (rule bit_word_eqI) (auto simp: bit_positions bit_simps t)
  moreover have "bit (header_second_byte h) 7 = rh_marker h"
    unfolding header_second_byte_def pt_mask_def by (auto simp: bit_simps t)
  ultimately show ?thesis unfolding top_flag_bit by blast
qed

lemma get_csrcs_at:
  "n = length pre \<Longrightarrow> k = length ws \<Longrightarrow> get_csrcs (pre @ concat (map be32 ws) @ post) n k = Some ws"
proof (induction ws arbitrary: pre n k)
  case (Cons w ws)
  have "get_csrcs ((pre @ be32 w) @ concat (map be32 ws) @ post) (n + 4) (length ws) = Some ws"
    using Cons.prems by (intro Cons.IH) simp_all
  moreover have "get_be32 (pre @ be32 w @ (concat (map be32 ws) @ post)) n = Some w"
    using Cons.prems by (intro get_be32_at)
  ultimately show ?case using Cons.prems by (simp add: csrc_length_def)
qed simp

definition header_canonical :: "rtp_header \<Rightarrow> bool" where
  "header_canonical h \<longleftrightarrow>
     header_fits h \<and> rh_csrc_count h = of_nat (length (rh_csrc h)) \<and> rh_payload_type h \<le> 0x7F
     \<and> (\<not> rh_extension h \<longrightarrow> rh_extension_profile h = 0 \<and> rh_extension_payload h = [])"

lemma header_decode_layout:
  assumes "header_canonical h"
  shows "header_decode (header_layout h @ rest) = Some (Inr (h, header_marshal_size h))"
proof -
  define b where "b = header_layout h @ rest"
  define ext where "ext = (if rh_extension h
        then be16 (rh_extension_profile h) @ be16 (of_nat (length (rh_extension_payload h) div 4))
             @ rh_extension_payload h else [])"
  define n where "n = 12 + length (rh_csrc h) * 4"
  define p8 where "p8 = [header_first_byte h, header_second_byte h] @ be16 (rh_sequence_number h)
      @ be32 (rh_timestamp h)"
  define p12 where "p12 = p8 @ be32 (rh_ssrc h)"
  define pn where "pn = p12 @ concat (map be32 (rh_csrc h))"
  have b: "b = [header_first_byte h] @ header_second_byte h # be16 (rh_sequence_number h)
        @ be32 (rh_timestamp h) @ be32 (rh_ssrc h) @ concat (map be32 (rh_csrc h)) @ ext @ rest"
    by (simp add: b_def header_layout_def ext_def)
  have b2: "b = [header_first_byte h, header_second_byte h] @ be16 (rh_sequence_number h)
        @ be32 (rh_timestamp h) @ be32 (rh_ssrc h) @ concat (map be32 (rh_csrc h)) @ ext @ rest"
    by (simp add: b)
  have fits: "rh_version h \<le> 3" "length (rh_csrc h) \<le> 15" "rh_payload_type h \<le> 0x7F"
      "rh_csrc_count h = of_nat (length (rh_csrc h))"
    using assms by (auto simp: header_canonical_def header_fits_def version_mask_def max_csrc_def)
  note fields = first_byte_fields [OF fits(1,2)] second_byte_fields [OF fits(3)]
  have lens: "length p8 = 8" "length p12 = 12" "length pn = n"
    by (simp_all add: p8_def p12_def pn_def n_def)
  have lb: "12 \<le> length b" "n \<le> length b" by (simp_all add: b n_def)
  have r0: "vec_get b 0 = Some (header_first_byte h)" "vec_get b 1 = Some (header_second_byte h)"
    by (simp_all add: b vec_get_def)
  have r2: "get_be16 b 2 = Some (rh_sequence_number h)"
    unfolding b2 by (rule get_be16_at) simp
  have r4: "get_be32 b 4 = Some (rh_timestamp h)"
    using get_be32_at [of 4 "[header_first_byte h, header_second_byte h] @ be16 (rh_sequence_number h)"] by (simp add: b)
  have r8: "get_be32 b 8 = Some (rh_ssrc h)"
    using get_be32_at [of 8 p8] lens by (simp add: b p8_def)
  have r12: "get_csrcs b 12 (length (rh_csrc h)) = Some (rh_csrc h)"
    using get_csrcs_at [of 12 p12 _ "rh_csrc h"] lens by (simp add: b p12_def p8_def)
  have cnt: "unat (rh_csrc_count h) = length (rh_csrc h)"
    using fits(2,4) by (simp add: unat_of_nat)
  define h0 where "h0 = h\<lparr>rh_extension_profile := 0, rh_extension_payload := []\<rparr>"
  have h0: "\<lparr>rh_version = rh_version h, rh_padding = rh_padding h, rh_extension = rh_extension h,
      rh_csrc_count = rh_csrc_count h, rh_marker = rh_marker h, rh_payload_type = rh_payload_type h,
      rh_sequence_number = rh_sequence_number h, rh_timestamp = rh_timestamp h, rh_ssrc = rh_ssrc h,
      rh_csrc = rh_csrc h, rh_extension_profile = 0, rh_extension_payload = []\<rparr> = h0"
    by (rule rtp_header.equality) (simp_all add: h0_def)
  have decode: "header_decode b = (if rh_extension h then header_extension b h0 n else Some (Inr (h0, n)))"
  proof -
    have v: "drop_bit 6 (header_first_byte h) AND 3 = rh_version h"
      and p: "(drop_bit 5 (header_first_byte h) AND 1 \<noteq> 0) = rh_padding h"
      and x: "(drop_bit 4 (header_first_byte h) AND 1 \<noteq> 0) = rh_extension h"
      and c: "header_first_byte h AND 0xF = rh_csrc_count h"
      and m: "(drop_bit 7 (header_second_byte h) \<noteq> 0) = rh_marker h"
      and t: "header_second_byte h AND 0x7F = rh_payload_type h"
      using fields fits(4) by simp_all
    have cw: "(of_nat (length (rh_csrc h)) :: u8) = rh_csrc_count h" using fits(4) by simp
    show ?thesis using lb unfolding header_decode_def n_def
      by (simp only: not_less r0 r2 r4 r8 bind.bind_lunit fixed_header_size_def cc_mask_def pt_mask_def
          version_mask_def c cnt csrc_offset_def csrc_length_def r12 Let_def if_False v p x m t cw h0
          flip: not_le) (simp add: n_def h0_def)
  qed
  show ?thesis
  proof (cases "rh_extension h")
    case False
    then have "rh_extension_profile h = 0" "rh_extension_payload h = []" "header_marshal_size h = n"
      using assms by (auto simp: header_canonical_def header_marshal_size_def n_def fixed_header_size_def csrc_length_def)
    then have "h0 = h" by (intro rtp_header.equality) (simp_all add: h0_def)
    with False \<open>header_marshal_size h = n\<close> show ?thesis using decode by (simp add: b_def)
  next
    case True
    define x where "x = length (rh_extension_payload h)"
    have size: "header_marshal_size h = n + 4 + x" "x mod 4 = 0" "x div 4 \<le> 0xFFFF"
      using True assms by (auto simp: header_canonical_def header_fits_def header_marshal_size_def n_def
          fixed_header_size_def csrc_length_def ext_header_size_def x_def)
    have bx: "b = pn @ be16 (rh_extension_profile h) @ be16 (of_nat (x div 4)) @ rh_extension_payload h @ rest"
      using True by (simp add: b ext_def pn_def p12_def p8_def x_def)
    have lbx: "n + 4 + x \<le> length b" using lens(3) by (simp add: bx x_def)
    have rp: "get_be16 b n = Some (rh_extension_profile h)"
      unfolding bx by (rule get_be16_at) (simp add: lens)
    have rw: "get_be16 b (n + 2) = Some (of_nat (x div 4))"
      using get_be16_at [of "n + 2" "pn @ be16 (rh_extension_profile h)"] lens by (simp add: bx)
    have rx: "vec_slice b (n + 4) (n + 4 + x) = Some (rh_extension_payload h)"
      using vec_slice_at [of "n + 4" "pn @ be16 (rh_extension_profile h) @ be16 (of_nat (x div 4))" "n + 4 + x"]
        lens by (simp add: bx x_def)
    have w: "unat (of_nat (x div 4) :: u16) * 4 = x"
    proof -
      have "x div 4 * 4 = x" using size(2) by presburger
      then show ?thesis using size(3) by (simp add: unat_of_nat)
    qed
    have upd: "h0\<lparr>rh_extension_profile := rh_extension_profile h, rh_extension_payload := rh_extension_payload h\<rparr> = h"
      by (rule rtp_header.equality) (simp_all add: h0_def)
    have "header_extension b h0 n = Some (Inr (h, n + 4 + x))"
      using lbx unfolding header_extension_def
      by (simp only: ext_header_size_def rp rw bind.bind_lunit Let_def w rx upd) simp
    with True show ?thesis using decode size(1) by (simp add: b_def)
  qed
qed

definition packet_canonical :: "rtp_packet \<Rightarrow> bool" where
  "packet_canonical p \<longleftrightarrow>
     header_canonical (rp_header p) \<and> rh_padding (rp_header p) = (0 < rp_padding_size p)"

lemma packet_decode_layout:
  assumes "packet_canonical p"
  shows "packet_decode (packet_layout p) = Some (Inr p)"
proof -
  define b where "b = packet_layout p"
  define n where "n = header_marshal_size (rp_header p)"
  define pad where "pad = rp_padding_size p"
  have b: "b = header_layout (rp_header p) @ rp_payload p @ padding_layout pad"
    by (simp add: b_def packet_layout_def pad_def)
  have len: "length b = n + length (rp_payload p) + unat pad" by (simp add: b n_def)
  have h: "header_decode b = Some (Inr (rp_header p, n))"
    unfolding b n_def using assms by (intro header_decode_layout) (simp add: packet_canonical_def)
  have "padding_of b (rh_padding (rp_header p)) n = Some (Inr pad)"
  proof (cases "pad = 0")
    case True
    then show ?thesis using assms by (simp add: padding_of_def packet_canonical_def pad_def)
  next
    case False
    then have pos: "0 < pad" "0 < unat pad" "rh_padding (rp_header p)"
      using assms by (simp_all add: packet_canonical_def pad_def word_less_nat_alt unat_gt_0)
    then have "b = (header_layout (rp_header p) @ rp_payload p @ replicate (unat pad - 1) 0) @ [pad]"
      by (simp add: b padding_layout_def)
    then have "last b = pad" "b \<noteq> []" by simp_all
    then have "vec_get b (length b - 1) = Some pad" by (simp add: last_conv_nth)
    with pos False len show ?thesis by (simp add: padding_of_def)
  qed
  moreover have "vec_slice b n (length b - unat pad) = Some (rp_payload p)"
    using vec_slice_at [of n "header_layout (rp_header p)"] len by (simp add: b n_def)
  ultimately show ?thesis
    by (simp add: packet_decode_def b_def [symmetric] h pad_def)
qed

section \<open>What is read\<close>

lemma get_csrcs_total:
  "off + 4 * k \<le> length b \<Longrightarrow>
   \<exists>ws. get_csrcs b off k = Some ws \<and> length ws = k \<and> concat (map be32 ws) = take (4 * k) (drop off b)"
proof (induction k arbitrary: off)
  case (Suc k)
  obtain w where w: "get_be32 b off = Some w" using get_be32_total [of off b] Suc.prems by auto
  obtain ws where ws: "get_csrcs b (off + 4) k = Some ws" "length ws = k"
      "concat (map be32 ws) = take (4 * k) (drop (off + 4) b)"
    using Suc.IH [of "off + 4"] Suc.prems by auto
  have "take (4 * Suc k) (drop off b) = take 4 (drop off b) @ take (4 * k) (drop 4 (drop off b))"
    by (simp add: take_add)
  with w ws get_be32_bytes [OF w] show ?case
    by (simp add: csrc_length_def add.commute)
qed simp

lemma header_extension_reads:
  assumes "n + 4 \<le> length b"
  shows "\<exists>profile words x. get_be16 b n = Some profile \<and> get_be16 b (n + 2) = Some words
    \<and> x = unat words * 4
    \<and> header_extension b h n =
        (if length b < n + 4 + x then Some (Inl (ExtensionTooShort (length b) (n + 4 + x)))
         else Some (Inr (h\<lparr>rh_extension_profile := profile,
                           rh_extension_payload := take x (drop (n + 4) b)\<rparr>, n + 4 + x)))"
proof -
  obtain profile words where "get_be16 b n = Some profile" "get_be16 b (n + 2) = Some words"
    using get_be16_total [of n b] get_be16_total [of "n + 2" b] assms by auto
  then show ?thesis using assms
    by (auto simp: header_extension_def ext_header_size_def vec_slice_def Let_def)
qed

lemma first_bytes:
  assumes "12 \<le> length b" and "get_be16 b 2 = Some seqn" and "get_be32 b 4 = Some ts"
    and "get_be32 b 8 = Some ssrc"
  shows "take 12 b = [b ! 0, b ! 1] @ be16 seqn @ be32 ts @ be32 ssrc"
proof -
  have "take 12 b = take 2 b @ take 2 (drop 2 b) @ take 4 (drop 4 b) @ take 4 (drop 8 b)"
    using take_add [of 2 10 b] take_add [of 2 8 "drop 2 b"] take_add [of 4 4 "drop 4 b"] by simp
  moreover have "take 2 b = [b ! 0, b ! 1]"
    using assms(1) by (cases b; cases "tl b") auto
  ultimately show ?thesis
    using get_be16_bytes(2) [OF assms(2)] get_be32_bytes(2) [OF assms(3)] get_be32_bytes(2) [OF assms(4)]
    by simp
qed

lemma byte_fields:
  fixes c d :: u8
  shows "(push_bit 6 (drop_bit 6 c AND 3) OR (c AND 0xF))
        OR (if drop_bit 5 c AND 1 \<noteq> 0 then push_bit 5 1 else 0)
        OR (if drop_bit 4 c AND 1 \<noteq> 0 then push_bit 4 1 else 0) = c
    \<and> ((d AND 0x7F) AND 0x7F) OR (if drop_bit 7 d \<noteq> 0 then push_bit 7 1 else 0) = d
    \<and> drop_bit 6 c AND 3 \<le> 3 \<and> d AND 0x7F \<le> 0x7F \<and> unat (c AND 0xF) \<le> 15"
proof -
  have "(push_bit 6 (drop_bit 6 c AND 3) OR (c AND 0xF)) OR (if bit c 5 then push_bit 5 1 else 0)
        OR (if bit c 4 then push_bit 4 1 else 0) = c"
    "((d AND 0x7F) AND 0x7F) OR (if bit d 7 then push_bit 7 1 else 0) = d"
    by (rule bit_word_eqI, auto simp: bit_positions bit_simps)+
  moreover have "drop_bit 6 c AND 3 \<le> 3" "d AND 0x7F \<le> 0x7F" "c AND 0xF \<le> 0xF"
    by (rule word_and_le1)+
  ultimately show ?thesis unfolding flag_bit top_flag_bit by (simp add: word_le_nat_alt)
qed

lemma header_decode_reads:
  "\<exists>r. header_decode b = Some r \<and>
     (\<forall>h n. r = Inr (h, n) \<longrightarrow>
        header_canonical h \<and> n = header_marshal_size h \<and> n \<le> length b \<and> take n b = header_layout h)"
proof (cases "length b < 12")
  case True
  then show ?thesis by (simp add: header_decode_def fixed_header_size_def)
next
  case False
  then have len: "12 \<le> length b" by simp
  obtain seqn ts ssrc where
    r: "get_be16 b 2 = Some seqn" "get_be32 b 4 = Some ts" "get_be32 b 8 = Some ssrc"
    using get_be16_total [of 2 b] get_be32_total [of 4 b] get_be32_total [of 8 b] len by auto
  define b0 where "b0 = b ! 0"
  define b1 where "b1 = b ! 1"
  have rb: "vec_get b 0 = Some b0" "vec_get b 1 = Some b1" using len by (auto simp: vec_get_def b0_def b1_def)
  define k where "k = unat (b0 AND 0xF)"
  define n where "n = 12 + k * 4"
  note fields = byte_fields [of b0 b1]
  show ?thesis
  proof (cases "length b < n")
    case True
    then have "header_decode b = Some (Inl (HeaderTooShort (length b) n))"
      using len r rb by (simp add: header_decode_def fixed_header_size_def csrc_offset_def csrc_length_def
          cc_mask_def n_def k_def Let_def)
    then show ?thesis by simp
  next
    case False
    then obtain ws where ws: "get_csrcs b 12 k = Some ws" "length ws = k"
        "concat (map be32 ws) = take (4 * k) (drop 12 b)"
      using get_csrcs_total [of 12 k b] by (auto simp: n_def)
    define h0 where "h0 = \<lparr>rh_version = drop_bit 6 b0 AND 3, rh_padding = (drop_bit 5 b0 AND 1 \<noteq> 0),
        rh_extension = (drop_bit 4 b0 AND 1 \<noteq> 0), rh_csrc_count = of_nat k, rh_marker = (drop_bit 7 b1 \<noteq> 0),
        rh_payload_type = b1 AND 0x7F, rh_sequence_number = seqn, rh_timestamp = ts, rh_ssrc = ssrc,
        rh_csrc = ws, rh_extension_profile = 0, rh_extension_payload = []\<rparr>"
    have dec: "header_decode b = (if rh_extension h0 then header_extension b h0 n else Some (Inr (h0, n)))"
      using len False ws(1) unfolding header_decode_def
      by (simp only: fixed_header_size_def csrc_offset_def csrc_length_def cc_mask_def pt_mask_def version_mask_def
          rb r bind.bind_lunit n_def [symmetric] k_def [symmetric] Let_def h0_def [symmetric]) simp
    have k: "k \<le> 15" using fields by (simp add: k_def)
    have cnt: "(of_nat k :: u8) = b0 AND 0xF" by (simp add: k_def)
    have bytes: "header_first_byte h0 = b0" "header_second_byte h0 = b1"
      using fields ws(2) cnt by (simp_all add: header_first_byte_def header_second_byte_def h0_def pt_mask_def)
    have "take n b = take 12 b @ take (4 * k) (drop 12 b)"
      using take_add [of 12 "4 * k" b] by (simp add: n_def mult.commute)
    then have tn: "take n b = [b0, b1] @ be16 seqn @ be32 ts @ be32 ssrc @ concat (map be32 ws)"
      using first_bytes [OF len r] ws(3) by (simp add: b0_def b1_def)
    show ?thesis
    proof (cases "rh_extension h0")
      case ext: False
      have "header_marshal_size h0 = n"
        using ext ws(2) by (simp add: header_marshal_size_def fixed_header_size_def csrc_length_def n_def h0_def)
      moreover have "header_canonical h0"
        using ext k ws(2) fields by (simp add: header_canonical_def header_fits_def h0_def version_mask_def max_csrc_def)
      moreover have "take n b = header_layout h0"
        using ext tn bytes by (simp add: header_layout_def h0_def)
      ultimately show ?thesis using dec ext False by simp
    next
      case ext: True
      show ?thesis
      proof (cases "length b < n + 4")
        case True
        then show ?thesis using dec ext by (simp add: header_extension_def ext_header_size_def)
      next
        case False
        then obtain profile words x where e: "get_be16 b n = Some profile" "get_be16 b (n + 2) = Some words"
            "x = unat words * 4" and he: "header_extension b h0 n =
              (if length b < n + 4 + x then Some (Inl (ExtensionTooShort (length b) (n + 4 + x)))
               else Some (Inr (h0\<lparr>rh_extension_profile := profile,
                           rh_extension_payload := take x (drop (n + 4) b)\<rparr>, n + 4 + x)))"
          using header_extension_reads [of n b h0] by auto
        define h1 where "h1 = h0\<lparr>rh_extension_profile := profile, rh_extension_payload := take x (drop (n + 4) b)\<rparr>"
        show ?thesis
        proof (cases "length b < n + 4 + x")
          case True
          then show ?thesis using dec ext he by simp
        next
          case False
          have lx: "length (rh_extension_payload h1) = x" using False by (simp add: h1_def)
          have w: "of_nat (x div 4) = words" using e(3) by simp
          have xle: "x div 4 \<le> 0xFFFF" using e(3) unsigned_less [of words, where 'a = nat] by simp
          have same: "rh_version h1 = drop_bit 6 b0 AND 3" "rh_csrc h1 = ws" "rh_extension h1"
              "rh_csrc_count h1 = of_nat k" "rh_payload_type h1 = b1 AND 0x7F" "rh_extension_profile h1 = profile"
              "rh_extension_payload h1 = take x (drop (n + 4) b)"
              "header_first_byte h1 = header_first_byte h0" "header_second_byte h1 = header_second_byte h0"
              "rh_sequence_number h1 = seqn" "rh_timestamp h1 = ts" "rh_ssrc h1 = ssrc"
            using ext by (simp_all add: h1_def h0_def header_first_byte_def header_second_byte_def)
          have "header_marshal_size h1 = n + 4 + x"
            using same(3) lx ws(2) by (simp add: header_marshal_size_def fixed_header_size_def csrc_length_def
                ext_header_size_def n_def same(2))
          moreover have "header_canonical h1"
            using k ws(2) fields xle e(3) lx by (simp add: header_canonical_def header_fits_def same(1-5)
                version_mask_def max_csrc_def)
          moreover have "take (n + 4 + x) b = header_layout h1"
          proof -
            have "take (n + 4 + x) b = take n b @ take 2 (drop n b) @ take 2 (drop (n + 2) b) @ take x (drop (n + 4) b)"
            proof -
              have e: "n + 4 + x = n + (2 + (2 + x))" "2 + n = n + 2" "2 + (n + 2) = n + 4" by simp_all
              show ?thesis unfolding e(1) take_add drop_drop e(2) e(3) ..
            qed
            then show ?thesis
              using get_be16_bytes(2) [OF e(1)] get_be16_bytes(2) [OF e(2)] tn bytes lx w
              by (simp add: header_layout_def same)
          qed
          ultimately show ?thesis using dec ext he False by (simp add: h1_def)
        qed
      qed
    qed
  qed
qed

lemma header_decode_size:
  "header_decode b = Some (Inr (h, n)) \<Longrightarrow>
   header_canonical h \<and> n = header_marshal_size h \<and> n \<le> length b \<and> take n b = header_layout h"
  using header_decode_reads [of b] by auto

lemma packet_decode_reads:
  "\<exists>r. packet_decode b = Some r \<and>
     (\<forall>p. r = Inr p \<longrightarrow>
        packet_canonical p \<and> unat (rp_padding_size p) \<le> length b \<and>
        packet_layout p = take (length b - unat (rp_padding_size p)) b @ padding_layout (rp_padding_size p))"
proof -
  obtain r where r: "header_decode b = Some r" using header_decode_reads by blast
  show ?thesis
  proof (cases r)
    case (Inl e)
    then show ?thesis using r by (simp add: packet_decode_def)
  next
    case (Inr hn)
    obtain h n where hn: "hn = (h, n)" by (cases hn)
    with r Inr have h: "header_decode b = Some (Inr (h, n))" by simp
    note hs = header_decode_size [OF h]
    then have "n \<le> length b" by blast
    obtain q where q: "padding_of b (rh_padding h) n = Some q"
      and ok: "\<And>pad. q = Inr pad \<Longrightarrow> n + unat pad \<le> length b \<and> rh_padding h = (0 < pad)"
    proof (cases "rh_padding h \<and> n < length b")
      case True
      define pad where "pad = b ! (length b - 1)"
      have "vec_get b (length b - 1) = Some pad" using True by (auto simp: vec_get_def pad_def)
      then have e: "padding_of b True n =
          (if pad = 0 then Some (Inl (InvalidPadding ''padding count is zero''))
           else if length b - n < unat pad
           then Some (Inl (InvalidPadding ''padding count exceeds bytes after header''))
           else Some (Inr pad))"
        using True by (simp add: padding_of_def)
      show thesis
        by (rule that [of "if pad = 0 then Inl (InvalidPadding ''padding count is zero'')
             else if length b - n < unat pad
             then Inl (InvalidPadding ''padding count exceeds bytes after header'') else Inr pad"])
          (use True in \<open>auto simp: e word_less_nat_alt unat_gt_0 split: if_splits\<close>)
    next
      case False
      show thesis
        by (rule that [of "if rh_padding h then Inl PacketTooShort else Inr 0"])
          (use False \<open>n \<le> length b\<close> in \<open>auto simp: padding_of_def split: if_splits\<close>)
    qed
    show ?thesis
    proof (cases q)
      case Inl
      then show ?thesis using h q by (simp add: packet_decode_def)
    next
      case (Inr pad)
      define m where "m = length b - unat pad"
      have le: "n \<le> m" "m \<le> length b" "rh_padding h = (0 < pad)" "unat pad \<le> length b"
        using ok [OF Inr] unfolding m_def by (linarith, linarith, blast, linarith)
      define p where "p = \<lparr>rp_header = h, rp_payload = take (m - n) (drop n b), rp_padding_size = pad\<rparr>"
      have "packet_decode b = Some (Inr p)"
        using h q Inr le by (simp add: packet_decode_def p_def vec_slice_def m_def)
      moreover have "packet_canonical p" using hs le by (simp add: packet_canonical_def p_def)
      moreover have "take m b = header_layout h @ take (m - n) (drop n b)"
      proof -
        have "n + (m - n) = m" "take n b = header_layout h" using le(1) hs by (simp, blast)
        then show ?thesis using take_add [of n "m - n" b] by presburger
      qed
      ultimately show ?thesis using le(4) by (simp add: packet_layout_def p_def m_def)
    qed
  qed
qed

section \<open>Properties\<close>

text \<open>\<^verbatim>\<open>Packet::encode\<close> writes exactly the RFC 3550 layout of the packet (the fixed header with the
  CSRC count taken from the list, the CSRCs, the header extension with its length in words, the payload,
  the padding with its count last), or returns the first of its errors in the order of the checks: the
  padding flag and count disagree, a version above 3, more than 15 CSRCs, an extension that is not a whole
  number of words or has more than 65535 of them. It never panics: its in-place writes never leave the
  buffer it sized.\<close>

theorem rtp_encode_is_layout:
  "packet_encode p =
     Some (case packet_error p of Some e \<Rightarrow> Inl e | None \<Rightarrow> Inr (packet_layout p))"
proof (cases "packet_error p")
  case None
  then show ?thesis using packet_encode_fits [of p] packet_error_none [of p] by simp
next
  case (Some e)
  then show ?thesis using packet_encode_error by simp
qed

text \<open>C17: \<^verbatim>\<open>Packet::decode\<close> inverts \<^verbatim>\<open>Packet::encode\<close>: a packet in the form a decoder
  produces (the count field equal to the number of CSRCs, a 7-bit payload type, no extension fields without
  the extension bit, the padding flag set exactly when there is padding) encodes without error, and decoding
  the bytes gives the packet back, field by field.\<close>

theorem rtp_roundtrip:
  assumes "packet_canonical p"
  shows "\<exists>b. packet_encode p = Some (Inr b) \<and> packet_decode b = Some (Inr p)"
  using assms packet_encode_fits [of p] packet_decode_layout
  by (auto simp: packet_canonical_def header_canonical_def)

definition sample_rtp_packet :: rtp_packet where
  "sample_rtp_packet =
     \<lparr>rp_header = \<lparr>rh_version = 2, rh_padding = True, rh_extension = True, rh_csrc_count = 1,
         rh_marker = True, rh_payload_type = 33, rh_sequence_number = 0xFFFE, rh_timestamp = 7,
         rh_ssrc = 0x1234, rh_csrc = [9], rh_extension_profile = 0x5249,
         rh_extension_payload = [1, 2, 3, 4]\<rparr>,
      rp_payload = [0x47, 0x40], rp_padding_size = 2\<rparr>"

theorem rtp_roundtrip_witness:
  "\<exists>b. packet_encode sample_rtp_packet = Some (Inr b) \<and> packet_decode b = Some (Inr sample_rtp_packet)"
  by (rule rtp_roundtrip)
    (simp add: sample_rtp_packet_def packet_canonical_def header_canonical_def header_fits_def version_mask_def
      max_csrc_def)

text \<open>C27: \<^verbatim>\<open>Packet::decode\<close> never panics, whatever bytes arrive; and every packet it accepts is in
  canonical form (its fields within their widths, the CSRC count true, the padding flag consistent) and
  encodes again to the bytes it came from, with only the filler before the padding count zeroed.\<close>

theorem rtp_decode_any_bytes:
  "case packet_decode b of
     None \<Rightarrow> False
   | Some (Inl e) \<Rightarrow> True
   | Some (Inr p) \<Rightarrow>
       packet_canonical p \<and>
       packet_encode p = Some (Inr (take (length b - unat (rp_padding_size p)) b
                                    @ padding_layout (rp_padding_size p)))"
proof -
  obtain r where r: "packet_decode b = Some r" and ok: "\<And>p. r = Inr p \<Longrightarrow> packet_canonical p \<and>
      packet_layout p = take (length b - unat (rp_padding_size p)) b @ padding_layout (rp_padding_size p)"
    using packet_decode_reads [of b] by auto
  have enc: "\<And>p. packet_canonical p \<Longrightarrow> packet_encode p = Some (Inr (packet_layout p))"
    using packet_encode_fits by (auto simp: packet_canonical_def header_canonical_def)
  show ?thesis
  proof (cases r)
    case (Inr p)
    with r ok [OF Inr] enc [of p] show ?thesis by simp
  qed (use r in simp)
qed

section \<open>Retransmission marks\<close>

lemma is_retransmit_bit: "is_retransmit s \<longleftrightarrow> bit s 0"
  using flag_bit [of 0 s] by (simp add: is_retransmit_def)

lemma retransmit_marks:
  "is_retransmit (mark_retransmit s)" "\<not> is_retransmit (normalize_ssrc s)"
  "normalize_ssrc (mark_retransmit s) = normalize_ssrc s"
  unfolding is_retransmit_bit mark_retransmit_def normalize_ssrc_def
  by (simp only: bit_simps, simp)+ (rule bit_word_eqI, simp only: bit_simps, auto)

end
