(* ===== verification/Fec_Header.thy ===== *)
theory Fec_Header
  imports Fec_Types Byte_Codec
begin

text \<open>
  The wire form of a FEC packet (\<^verbatim>\<open>rist-codec/src/fec_header.rs\<close>): a 16-byte header in the ST 2022-1
  or ST 2022-5 layout, then the recovery payload. The base goes out truncated to the variant's width; the
  decoder widens it again (theory \<open>Fec_Window\<close>).
\<close>

datatype fec_header_error = ShortHeader

definition fec_header_size :: nat where "fec_header_size = 16"
definition hdr_na10_max :: u16 where "hdr_na10_max = 0x3ff"

definition fec_header_2022_1 :: "fec_packet \<Rightarrow> bytes option" where
  "fec_header_2022_1 p =
     do {
       h \<leftarrow> put_slice (replicate fec_header_size 0) 0 (be16 (ucast (fp_base p)));
       h \<leftarrow> put_slice h 2 (be16 (fp_length_recovery p));
       h \<leftarrow> vec_set h 4 (fp_pt_recovery p AND 0x7f);
       h \<leftarrow> put_slice h 8 (be32 (fp_ts_recovery p));
       h \<leftarrow> vec_set h 12 (push_bit 6 (if fp_direction p = Row then 1 else 0));
       h \<leftarrow> vec_set h 13 (ucast (fp_offset p));
       h \<leftarrow> vec_set h 14 (ucast (fp_na p));
       vec_set h 15 (ucast (drop_bit 16 (fp_base p)))
     }"

definition fec_header_2022_5 :: "fec_packet \<Rightarrow> bytes option" where
  "fec_header_2022_5 p =
     do {
       h \<leftarrow> vec_set (replicate fec_header_size 0) 1 (fp_pt_recovery p AND 0x7f);
       h \<leftarrow> put_slice h 2 (be16 (ucast (fp_base p)));
       h \<leftarrow> put_slice h 4 (be32 (fp_ts_recovery p));
       h \<leftarrow> put_slice h 8 (be16 (fp_length_recovery p));
       h \<leftarrow> put_slice h 12 (be16 (push_bit 6 (fp_offset p AND hdr_na10_max)));
       put_slice h 14 (be16 (push_bit 6 (fp_na p AND hdr_na10_max)))
     }"

definition fec_encode :: "fec_packet \<Rightarrow> fec_variant \<Rightarrow> bytes option" where
  "fec_encode p v =
     do {
       h \<leftarrow> (case v of St20221 \<Rightarrow> fec_header_2022_1 p | St20225 \<Rightarrow> fec_header_2022_5 p);
       Some (h @ fp_payload p)
     }"

definition fec_decode_2022_1 :: "bytes \<Rightarrow> bytes \<Rightarrow> fec_packet option" where
  "fec_decode_2022_1 h payload =
     do {
       sn_base \<leftarrow> get_be16 h 0;
       sn_base_ext \<leftarrow> vec_get h 15;
       flags \<leftarrow> vec_get h 12;
       offset \<leftarrow> vec_get h 13;
       na \<leftarrow> vec_get h 14;
       len \<leftarrow> get_be16 h 2;
       pt \<leftarrow> vec_get h 4;
       ts \<leftarrow> get_be32 h 8;
       Some \<lparr>fp_direction = (if drop_bit 6 flags AND 1 = 1 then Row else Column),
             fp_base = push_bit 16 (ucast sn_base_ext) OR ucast sn_base,
             fp_offset = ucast offset, fp_na = ucast na, fp_length_recovery = len,
             fp_pt_recovery = pt AND 0x7f, fp_ts_recovery = ts, fp_payload = payload\<rparr>
     }"

definition fec_decode_2022_5 :: "bytes \<Rightarrow> bytes \<Rightarrow> fec_packet option" where
  "fec_decode_2022_5 h payload =
     do {
       offset16 \<leftarrow> get_be16 h 12;
       let offset = drop_bit 6 offset16;
       na16 \<leftarrow> get_be16 h 14;
       let na = drop_bit 6 na16;
       base \<leftarrow> get_be16 h 2;
       len \<leftarrow> get_be16 h 8;
       pt \<leftarrow> vec_get h 1;
       ts \<leftarrow> get_be32 h 4;
       Some \<lparr>fp_direction = (if offset = 1 then Row else Column),
             fp_base = ucast base, fp_offset = offset, fp_na = na, fp_length_recovery = len,
             fp_pt_recovery = pt AND 0x7f, fp_ts_recovery = ts, fp_payload = payload\<rparr>
     }"

definition fec_decode :: "bytes \<Rightarrow> fec_variant \<Rightarrow> (fec_header_error + fec_packet) option" where
  "fec_decode buf v =
     (if length buf < fec_header_size then Some (Inl ShortHeader)
      else do {
        h \<leftarrow> vec_slice buf 0 fec_header_size;
        payload \<leftarrow> vec_slice buf fec_header_size (length buf);
        p \<leftarrow> (case v of St20221 \<Rightarrow> fec_decode_2022_1 h payload | St20225 \<Rightarrow> fec_decode_2022_5 h payload);
        Some (Inr p)
      })"

section \<open>The layouts\<close>

definition fec_layout :: "fec_packet \<Rightarrow> fec_variant \<Rightarrow> bytes" where
  "fec_layout p v =
     (case v of
        St20221 \<Rightarrow>
          be16 (ucast (fp_base p)) @ be16 (fp_length_recovery p) @ [fp_pt_recovery p AND 0x7f, 0, 0, 0]
          @ be32 (fp_ts_recovery p)
          @ [push_bit 6 (if fp_direction p = Row then 1 else 0), ucast (fp_offset p), ucast (fp_na p),
             ucast (drop_bit 16 (fp_base p))]
      | St20225 \<Rightarrow>
          [0, fp_pt_recovery p AND 0x7f] @ be16 (ucast (fp_base p)) @ be32 (fp_ts_recovery p)
          @ be16 (fp_length_recovery p) @ [0, 0] @ be16 (push_bit 6 (fp_offset p AND hdr_na10_max))
          @ be16 (push_bit 6 (fp_na p AND hdr_na10_max)))"

lemma fec_encode_layout: "fec_encode p v = Some (fec_layout p v @ fp_payload p)"
  by (cases v) (simp_all add: fec_encode_def fec_header_2022_1_def fec_header_2022_5_def fec_header_size_def
      fec_layout_def put_slice_def vec_set_def be16_def be32_def numeral_eq_Suc)

definition fec_fits :: "fec_packet \<Rightarrow> fec_variant \<Rightarrow> bool" where
  "fec_fits p v \<longleftrightarrow>
     fp_pt_recovery p \<le> 0x7f \<and>
     (case v of
        St20221 \<Rightarrow> fp_offset p \<le> 0xff \<and> fp_na p \<le> 0xff
      | St20225 \<Rightarrow> fp_offset p \<le> hdr_na10_max \<and> fp_na p \<le> hdr_na10_max
                   \<and> (fp_direction p = Row \<longleftrightarrow> fp_offset p = 1))"

section \<open>Reading the layout back\<close>

lemma base_2022_1:
  fixes b :: u32
  shows "push_bit 16 (ucast (ucast (drop_bit 16 b) :: u8)) OR ucast (ucast b :: u16) = b AND 0xFFFFFF"
proof -
  have m: "(0xFFFFFF :: u32) = mask 24" by (simp add: mask_eq_exp_minus_1)
  show ?thesis unfolding m by (rule bit_word_eqI) (auto simp: bit_simps)
qed

lemma base_2022_5: "ucast (ucast b :: u16) = (b :: u32) AND 0xFFFF"
proof -
  have m: "(0xFFFF :: u32) = mask 16" by (simp add: mask_eq_exp_minus_1)
  show ?thesis unfolding m by (rule bit_word_eqI) (auto simp: bit_simps)
qed

lemma narrow_u16: "(w :: u16) \<le> 0xff \<Longrightarrow> ucast (ucast w :: u8) = w"
  by (rule bit_word_eqI) (use high_bits [of w 8] linorder_not_less in \<open>auto simp: bit_simps word_le_nat_alt\<close>)

lemma ten_bits: "(w :: u16) \<le> hdr_na10_max \<Longrightarrow> drop_bit 6 (push_bit 6 (w AND hdr_na10_max)) = w"
proof -
  assume w: "w \<le> hdr_na10_max"
  have m: "hdr_na10_max = mask 10" by (simp add: mask_eq_exp_minus_1 hdr_na10_max_def)
  have "unat w < 2 ^ 10" using w by (simp add: word_le_nat_alt hdr_na10_max_def)
  then have "w AND hdr_na10_max = w" unfolding m by (rule and_mask_small)
  moreover have "\<And>k. 10 \<le> k \<Longrightarrow> \<not> bit w k" using \<open>unat w < 2 ^ 10\<close> by (rule high_bits)
  ultimately show ?thesis
    by (intro bit_word_eqI) (auto simp: bit_simps intro: ccontr)
qed

lemma seven_bits: "(w :: u8) \<le> 0x7f \<Longrightarrow> w AND 0x7f = w"
  using and_mask_small [of w 7] by (simp add: mask_eq_exp_minus_1 word_le_nat_alt)

lemma read16: "length xs = 16 \<Longrightarrow> vec_slice (xs @ ys) 0 fec_header_size = Some xs
    \<and> vec_slice (xs @ ys) fec_header_size (length (xs @ ys)) = Some ys \<and> \<not> length (xs @ ys) < fec_header_size"
  by (simp add: vec_slice_def fec_header_size_def)

lemma length_fec_layout [simp]: "length (fec_layout p v) = 16"
  by (cases v) (simp_all add: fec_layout_def)

lemma fec_decode_layout:
  assumes "fec_fits p v"
  shows "fec_decode (fec_layout p v @ fp_payload p) v = Some (Inr (p\<lparr>fp_base := fp_base p AND base_mask v\<rparr>))"
proof (cases v)
  case St20221
  define x :: u8 where "x = push_bit 6 (if fp_direction p = Row then 1 else 0)"
  have dir: "drop_bit 6 x AND 1 = (if fp_direction p = Row then 1 else 0)" by (simp add: x_def)
  have lay: "fec_layout p v =
      be16 (ucast (fp_base p)) @ be16 (fp_length_recovery p) @ [fp_pt_recovery p AND 0x7f, 0, 0, 0]
          @ be32 (fp_ts_recovery p) @ [x, ucast (fp_offset p), ucast (fp_na p), ucast (drop_bit 16 (fp_base p))]"
    using St20221 by (simp add: fec_layout_def x_def)
  have fits: "fp_pt_recovery p AND 0x7f = fp_pt_recovery p" "ucast (ucast (fp_offset p) :: u8) = fp_offset p"
      "ucast (ucast (fp_na p) :: u8) = fp_na p"
    using assms St20221 by (simp_all add: fec_fits_def seven_bits narrow_u16)
  have "fec_decode_2022_1 (fec_layout p v) (fp_payload p) = Some (p\<lparr>fp_base := fp_base p AND base_mask v\<rparr>)"
    unfolding lay using St20221 base_2022_1 [of "fp_base p"] dir fits
    by (cases "fp_direction p")
      (simp_all add: fec_decode_2022_1_def get_be16_def get_be32_def vec_get_def be16_def be32_def nth_append)
  then show ?thesis using read16 [of "fec_layout p v" "fp_payload p"] St20221
    by (simp add: fec_decode_def)
next
  case St20225
  define x where "x = push_bit 6 (fp_offset p AND hdr_na10_max)"
  define y where "y = push_bit 6 (fp_na p AND hdr_na10_max)"
  have fits: "fp_pt_recovery p AND 0x7f = fp_pt_recovery p" "drop_bit 6 x = fp_offset p" "drop_bit 6 y = fp_na p"
    using assms St20225 seven_bits ten_bits unfolding x_def y_def fec_fits_def
    by (simp_all del: drop_bit_and)
  have dir: "(if fp_offset p = 1 then Row else Column) = fp_direction p"
    using assms St20225 by (cases "fp_direction p") (simp_all add: fec_fits_def)
  have lay: "fec_layout p v = [0, fp_pt_recovery p AND 0x7f] @ be16 (ucast (fp_base p)) @ be32 (fp_ts_recovery p)
          @ be16 (fp_length_recovery p) @ [0, 0] @ be16 x @ be16 y"
    using St20225 by (simp add: fec_layout_def x_def y_def)
  have "fec_decode_2022_5 (fec_layout p v) (fp_payload p) = Some (p\<lparr>fp_base := fp_base p AND base_mask v\<rparr>)"
    unfolding lay using St20225 base_2022_5 [of "fp_base p"] fits dir
    by (simp add: fec_decode_2022_5_def get_be16_def get_be32_def vec_get_def be16_def be32_def nth_append)
  then show ?thesis using read16 [of "fec_layout p v" "fp_payload p"] St20225
    by (simp add: fec_decode_def)
qed

section \<open>Properties\<close>

text \<open>A FEC packet that fits its variant (7-bit payload-type recovery; 8-bit or 10-bit geometry; under
  ST 2022-5, which has no direction bit, a row exactly when the stride is 1) survives the wire: encoding
  succeeds, takes 16 bytes more than the payload, and decoding gives the packet back, its base cut to the
  24 or 16 bits the header carries.\<close>

theorem fec_header_roundtrip:
  assumes "fec_fits p v"
  shows "\<exists>b. fec_encode p v = Some b \<and> length b = 16 + length (fp_payload p) \<and>
    fec_decode b v = Some (Inr (p\<lparr>fp_base := fp_base p AND base_mask v\<rparr>))"
  using fec_encode_layout fec_decode_layout [OF assms] by simp

definition sample_fec_packet :: fec_packet where
  "sample_fec_packet = \<lparr>fp_direction = Row, fp_base = 0x01FFFFF0, fp_offset = 1, fp_na = 10,
      fp_length_recovery = 0x524, fp_pt_recovery = 0x21, fp_ts_recovery = 77, fp_payload = [1, 2]\<rparr>"

theorem fec_header_roundtrip_witness:
  "\<exists>b. fec_encode sample_fec_packet St20225 = Some b \<and> length b = 16 + length (fp_payload sample_fec_packet) \<and>
    fec_decode b St20225
      = Some (Inr (sample_fec_packet\<lparr>fp_base := fp_base sample_fec_packet AND base_mask St20225\<rparr>))"
  by (rule fec_header_roundtrip) (simp add: sample_fec_packet_def fec_fits_def hdr_na10_max_def)

lemma fec_decode_total: "fec_decode b v \<noteq> None"
  by (cases v) (auto simp: fec_decode_def fec_header_size_def fec_decode_2022_1_def fec_decode_2022_5_def
      vec_slice_def vec_get_def get_be16_def get_be32_def Let_def)

end
