(* ===== verification/Rtcp.thy ===== *)
theory Rtcp
  imports Byte_Codec
begin

text \<open>
  The compound RTCP codec (\<^verbatim>\<open>rist-codec/src/rtcp.rs\<close>): the packet types and their encoders. The
  encoders only append, so an encoding is a concatenation; casts to the width of a field are words.
\<close>

section \<open>Types and constants\<close>

datatype rtcp_error =
    ShortPacket nat nat
  | BadVersion u8
  | EmptyCompound
  | CompoundOrder string

definition pt_sender_report :: u8 where "pt_sender_report = 200"
definition pt_receiver_report :: u8 where "pt_receiver_report = 201"
definition pt_sdes :: u8 where "pt_sdes = 202"
definition pt_app :: u8 where "pt_app = 204"
definition pt_transport_feedback :: u8 where "pt_transport_feedback = 205"
definition app_subtype_range_nack :: u8 where "app_subtype_range_nack = 0"
definition app_subtype_ext_seq :: u8 where "app_subtype_ext_seq = 1"
definition app_subtype_echo_request :: u8 where "app_subtype_echo_request = 2"
definition app_subtype_echo_response :: u8 where "app_subtype_echo_response = 3"
definition fmt_generic_nack :: u8 where "fmt_generic_nack = 1"
definition name_rist :: u32 where "name_rist = 0x52495354"
definition max_nack_records_per_packet :: nat where "max_nack_records_per_packet = 16"
definition max_nack_expand :: nat where "max_nack_expand = 65536"
definition rtcp_header_size :: nat where "rtcp_header_size = 4"
definition app_fixed_size :: nat where "app_fixed_size = 12"
definition version_flag :: u8 where "version_flag = 0x80"
definition sender_report_size :: nat where "sender_report_size = 28"
definition empty_rr_size :: nat where "empty_rr_size = 8"
definition receiver_report_size :: nat where "receiver_report_size = 32"
definition echo_fixed_size :: nat where "echo_fixed_size = 24"
definition ext_seq_size :: nat where "ext_seq_size = 16"
definition sdes_fixed_size :: nat where "sdes_fixed_size = 10"
definition sdes_item_cname :: u8 where "sdes_item_cname = 1"
definition max_cname_len :: nat where "max_cname_len = 255"
definition lqm_extension_size :: nat where "lqm_extension_size = 44"
definition lqm_report_size :: nat where "lqm_report_size = empty_rr_size + lqm_extension_size"

lemmas rtcp_consts = pt_sender_report_def pt_receiver_report_def pt_sdes_def pt_app_def
  pt_transport_feedback_def app_subtype_range_nack_def app_subtype_ext_seq_def
  app_subtype_echo_request_def app_subtype_echo_response_def fmt_generic_nack_def
  rtcp_header_size_def app_fixed_size_def version_flag_def sender_report_size_def
  empty_rr_size_def receiver_report_size_def echo_fixed_size_def ext_seq_size_def sdes_fixed_size_def
  sdes_item_cname_def max_cname_len_def lqm_extension_size_def lqm_report_size_def

record sender_report =
  sr_ssrc :: u32
  sr_ntp :: u64
  sr_rtp_time :: u32
  sr_packet_count :: u32
  sr_octet_count :: u32

record receiver_report =
  rr_sender_ssrc :: u32
  rr_media_ssrc :: u32
  rr_fraction_lost :: u8
  rr_cumulative_lost :: u32
  rr_highest_seq :: u32
  rr_jitter :: u32
  rr_lsr :: u32
  rr_dlsr :: u32

text \<open>The Link Quality Message is an array of 44 bytes, opaque to the codec.\<close>

record link_quality_report =
  lq_ssrc :: u32
  lq_lqm :: bytes

record sdes =
  sd_ssrc :: u32
  sd_cname :: bytes

record nack_range =
  nr_start :: u16
  nr_extra :: u16

record range_nack =
  rn_media_ssrc :: u32
  rn_ranges :: "nack_range list"

record nack_pair =
  np_pid :: u16
  np_blp :: u16

record bitmask_nack =
  bn_sender_ssrc :: u32
  bn_media_ssrc :: u32
  bn_fcis :: "nack_pair list"

record echo_request =
  eq_ssrc :: u32
  eq_timestamp :: u64
  eq_padding :: bytes

record echo_response =
  er_ssrc :: u32
  er_timestamp :: u64
  er_processing_delay :: u32
  er_padding :: bytes

record ext_seq =
  es_ssrc :: u32
  es_seq_high :: u16

datatype rtcp_packet =
    P_Sender_Report sender_report
  | P_Receiver_Report receiver_report
  | P_Empty_Receiver_Report u32
  | P_Link_Quality_Report link_quality_report
  | P_Sdes sdes
  | P_Range_Nack range_nack
  | P_Bitmask_Nack bitmask_nack
  | P_Echo_Request echo_request
  | P_Echo_Response echo_response
  | P_Ext_Seq ext_seq
  | P_Raw bytes

section \<open>Encoding\<close>

text \<open>\<^verbatim>\<open>(n + 3) & !3\<close> on a size.\<close>

definition pad_to_4 :: "nat \<Rightarrow> nat" where
  "pad_to_4 n = (n + 3) div 4 * 4"

definition sdes_size :: "nat \<Rightarrow> nat" where
  "sdes_size n = (sdes_fixed_size + n + 1 + 3) div 4 * 4"

fun rtcp_marshal_size :: "rtcp_packet \<Rightarrow> nat" where
  "rtcp_marshal_size (P_Sender_Report p) = sender_report_size"
| "rtcp_marshal_size (P_Receiver_Report p) = receiver_report_size"
| "rtcp_marshal_size (P_Empty_Receiver_Report ssrc) = empty_rr_size"
| "rtcp_marshal_size (P_Link_Quality_Report p) = lqm_report_size"
| "rtcp_marshal_size (P_Sdes p) = sdes_size (min (length (sd_cname p)) max_cname_len)"
| "rtcp_marshal_size (P_Range_Nack p) = app_fixed_size + 4 * length (rn_ranges p)"
| "rtcp_marshal_size (P_Bitmask_Nack p) = app_fixed_size + 4 * length (bn_fcis p)"
| "rtcp_marshal_size (P_Echo_Request p) = echo_fixed_size + pad_to_4 (length (eq_padding p))"
| "rtcp_marshal_size (P_Echo_Response p) = echo_fixed_size + pad_to_4 (length (er_padding p))"
| "rtcp_marshal_size (P_Ext_Seq p) = ext_seq_size"
| "rtcp_marshal_size (P_Raw b) = length b"

definition rtcp_header_bytes :: "u8 \<Rightarrow> u8 \<Rightarrow> u16 \<Rightarrow> bytes" where
  "rtcp_header_bytes count pt words = [version_flag OR count, pt] @ be16 words"

definition encode_sender_report :: "sender_report \<Rightarrow> bytes" where
  "encode_sender_report p =
     rtcp_header_bytes 0 pt_sender_report 6 @ be32 (sr_ssrc p) @ be64 (sr_ntp p) @ be32 (sr_rtp_time p)
     @ be32 (sr_packet_count p) @ be32 (sr_octet_count p)"

definition encode_empty_receiver_report :: "u32 \<Rightarrow> bytes" where
  "encode_empty_receiver_report ssrc = rtcp_header_bytes 0 pt_receiver_report 1 @ be32 ssrc"

definition encode_receiver_report :: "receiver_report \<Rightarrow> bytes" where
  "encode_receiver_report p =
     rtcp_header_bytes 1 pt_receiver_report 7 @ be32 (rr_sender_ssrc p) @ be32 (rr_media_ssrc p)
     @ be32 (push_bit 24 (ucast (rr_fraction_lost p)) OR (rr_cumulative_lost p AND 0x00FFFFFF))
     @ be32 (rr_highest_seq p) @ be32 (rr_jitter p) @ be32 (rr_lsr p) @ be32 (rr_dlsr p)"

definition encode_link_quality_report :: "link_quality_report \<Rightarrow> bytes" where
  "encode_link_quality_report p =
     rtcp_header_bytes 0 pt_receiver_report (of_nat (lqm_report_size div 4 - 1)) @ be32 (lq_ssrc p) @ lq_lqm p"

definition encode_sdes :: "sdes \<Rightarrow> bytes" where
  "encode_sdes p =
     (let name = take (min (length (sd_cname p)) max_cname_len) (sd_cname p);
          size = sdes_size (length name)
      in rtcp_header_bytes 1 pt_sdes (of_nat (size div 4 - 1)) @ be32 (sd_ssrc p)
         @ [sdes_item_cname, of_nat (length name)] @ name
         @ replicate (size - sdes_fixed_size - length name) 0)"

definition encode_range_nack_packet :: "range_nack \<Rightarrow> bytes" where
  "encode_range_nack_packet p =
     rtcp_header_bytes app_subtype_range_nack pt_app (of_nat (2 + length (rn_ranges p)))
     @ be32 (rn_media_ssrc p) @ be32 name_rist
     @ concat (map (\<lambda>r. be16 (nr_start r) @ be16 (nr_extra r)) (rn_ranges p))"

definition encode_bitmask_nack_packet :: "bitmask_nack \<Rightarrow> bytes" where
  "encode_bitmask_nack_packet p =
     rtcp_header_bytes fmt_generic_nack pt_transport_feedback (of_nat (2 + length (bn_fcis p)))
     @ be32 (bn_sender_ssrc p) @ be32 (bn_media_ssrc p)
     @ concat (map (\<lambda>f. be16 (np_pid f) @ be16 (np_blp f)) (bn_fcis p))"

definition encode_echo :: "u8 \<Rightarrow> u32 \<Rightarrow> u64 \<Rightarrow> u32 \<Rightarrow> bytes \<Rightarrow> bytes" where
  "encode_echo subtype ssrc ts delay padding =
     (let pad = pad_to_4 (length padding)
      in rtcp_header_bytes subtype pt_app (of_nat (5 + pad div 4)) @ be32 ssrc @ be32 name_rist @ be64 ts
         @ be32 delay @ padding @ replicate (pad - length padding) 0)"

definition encode_ext_seq :: "ext_seq \<Rightarrow> bytes" where
  "encode_ext_seq p =
     rtcp_header_bytes app_subtype_ext_seq pt_app 3 @ be32 (es_ssrc p) @ be32 name_rist
     @ be16 (es_seq_high p) @ [0, 0]"

fun rtcp_encode :: "rtcp_packet \<Rightarrow> bytes" where
  "rtcp_encode (P_Sender_Report p) = encode_sender_report p"
| "rtcp_encode (P_Receiver_Report p) = encode_receiver_report p"
| "rtcp_encode (P_Empty_Receiver_Report ssrc) = encode_empty_receiver_report ssrc"
| "rtcp_encode (P_Link_Quality_Report p) = encode_link_quality_report p"
| "rtcp_encode (P_Sdes p) = encode_sdes p"
| "rtcp_encode (P_Range_Nack p) = encode_range_nack_packet p"
| "rtcp_encode (P_Bitmask_Nack p) = encode_bitmask_nack_packet p"
| "rtcp_encode (P_Echo_Request p) =
     encode_echo app_subtype_echo_request (eq_ssrc p) (eq_timestamp p) 0 (eq_padding p)"
| "rtcp_encode (P_Echo_Response p) =
     encode_echo app_subtype_echo_response (er_ssrc p) (er_timestamp p) (er_processing_delay p) (er_padding p)"
| "rtcp_encode (P_Ext_Seq p) = encode_ext_seq p"
| "rtcp_encode (P_Raw b) = b"

section \<open>Decoding\<close>

record rtcp_header =
  hd_count :: u8
  hd_pt :: u8
  hd_size :: nat

definition parse_header :: "bytes \<Rightarrow> (rtcp_error + rtcp_header) option" where
  "parse_header b =
     (if length b < rtcp_header_size then Some (Inl (ShortPacket (length b) rtcp_header_size))
      else do {
        b0 \<leftarrow> vec_get b 0;
        if drop_bit 6 b0 \<noteq> 2 then Some (Inl (BadVersion (drop_bit 6 b0)))
        else do {
          words \<leftarrow> get_be16 b 2;
          let size = (unat words + 1) * 4;
          if length b < size then Some (Inl (ShortPacket (length b) size))
          else do {
            pt \<leftarrow> vec_get b 1;
            Some (Inr \<lparr>hd_count = b0 AND 0x1F, hd_pt = pt, hd_size = size\<rparr>)
          }
        }
      })"

text \<open>The typed decoders return \<open>Some None\<close> for a shape that is not theirs.\<close>

definition decode_sender_report :: "rtcp_header \<Rightarrow> bytes \<Rightarrow> rtcp_packet option option" where
  "decode_sender_report h body =
     (if hd_count h \<noteq> 0 \<or> hd_size h \<noteq> sender_report_size then Some None
      else do {
        ssrc \<leftarrow> get_be32 body 4; ntp \<leftarrow> get_be64 body 8; rtp_time \<leftarrow> get_be32 body 16;
        packets \<leftarrow> get_be32 body 20; octets \<leftarrow> get_be32 body 24;
        Some (Some (P_Sender_Report \<lparr>sr_ssrc = ssrc, sr_ntp = ntp, sr_rtp_time = rtp_time,
          sr_packet_count = packets, sr_octet_count = octets\<rparr>))
      })"

definition decode_receiver_report :: "rtcp_header \<Rightarrow> bytes \<Rightarrow> rtcp_packet option option" where
  "decode_receiver_report h body =
     (if hd_count h = 0 \<and> hd_size h = empty_rr_size then do {
        ssrc \<leftarrow> get_be32 body 4;
        Some (Some (P_Empty_Receiver_Report ssrc))
      }
      else if hd_count h = 1 \<and> hd_size h = receiver_report_size then do {
        sender \<leftarrow> get_be32 body 4; media \<leftarrow> get_be32 body 8; fraction \<leftarrow> vec_get body 12;
        lost \<leftarrow> get_be32 body 12; highest \<leftarrow> get_be32 body 16; jitter \<leftarrow> get_be32 body 20;
        lsr \<leftarrow> get_be32 body 24; dlsr \<leftarrow> get_be32 body 28;
        Some (Some (P_Receiver_Report \<lparr>rr_sender_ssrc = sender, rr_media_ssrc = media,
          rr_fraction_lost = fraction, rr_cumulative_lost = lost AND 0x00FFFFFF, rr_highest_seq = highest,
          rr_jitter = jitter, rr_lsr = lsr, rr_dlsr = dlsr\<rparr>))
      }
      else if hd_count h = 0 \<and> hd_size h = lqm_report_size then do {
        lqm \<leftarrow> vec_slice body 8 lqm_report_size;
        ssrc \<leftarrow> get_be32 body 4;
        Some (Some (P_Link_Quality_Report \<lparr>lq_ssrc = ssrc, lq_lqm = lqm\<rparr>))
      }
      else Some None)"

definition decode_sdes :: "rtcp_header \<Rightarrow> bytes \<Rightarrow> rtcp_packet option option" where
  "decode_sdes h body =
     (if hd_count h \<noteq> 1 \<or> hd_size h < sdes_fixed_size + 1 then Some None
      else do {
        item \<leftarrow> vec_get body 8;
        if item \<noteq> sdes_item_cname then Some None
        else do {
          len \<leftarrow> vec_get body 9;
          let n = unat len;
          if hd_size h < sdes_fixed_size + n + 1 then Some None
          else do {
            tail \<leftarrow> vec_slice body (sdes_fixed_size + n) (length body);
            if \<exists>x\<in>set tail. x \<noteq> 0 then Some None
            else do {
              cname \<leftarrow> vec_slice body sdes_fixed_size (sdes_fixed_size + n);
              ssrc \<leftarrow> get_be32 body 4;
              Some (Some (P_Sdes \<lparr>sd_ssrc = ssrc, sd_cname = cname\<rparr>))
            }
          }
        }
      })"

text \<open>The records of a NACK: \<open>k\<close> pairs of 16-bit fields from an offset.\<close>

fun get_pairs :: "bytes \<Rightarrow> nat \<Rightarrow> nat \<Rightarrow> (u16 \<times> u16) list option" where
  "get_pairs b off 0 = Some []"
| "get_pairs b off (Suc k) =
     do { x \<leftarrow> get_be16 b off; y \<leftarrow> get_be16 b (off + 2); rest \<leftarrow> get_pairs b (off + 4) k; Some ((x, y) # rest) }"

definition decode_range_nack :: "bytes \<Rightarrow> rtcp_packet option" where
  "decode_range_nack body =
     do {
       pairs \<leftarrow> get_pairs body app_fixed_size ((length body - app_fixed_size) div 4);
       media \<leftarrow> get_be32 body 4;
       Some (P_Range_Nack \<lparr>rn_media_ssrc = media,
         rn_ranges = map (\<lambda>(s, e). \<lparr>nr_start = s, nr_extra = e\<rparr>) pairs\<rparr>)
     }"

definition decode_bitmask_nack :: "rtcp_header \<Rightarrow> bytes \<Rightarrow> rtcp_packet option option" where
  "decode_bitmask_nack h body =
     (if hd_count h \<noteq> fmt_generic_nack \<or> hd_size h < app_fixed_size then Some None
      else do {
        pairs \<leftarrow> get_pairs body app_fixed_size ((hd_size h - app_fixed_size) div 4);
        sender \<leftarrow> get_be32 body 4;
        media \<leftarrow> get_be32 body 8;
        Some (Some (P_Bitmask_Nack \<lparr>bn_sender_ssrc = sender, bn_media_ssrc = media,
          bn_fcis = map (\<lambda>(p, m). \<lparr>np_pid = p, np_blp = m\<rparr>) pairs\<rparr>))
      })"

definition decode_echo :: "u8 \<Rightarrow> bytes \<Rightarrow> rtcp_packet option option" where
  "decode_echo subtype body =
     (if length body < echo_fixed_size then Some None
      else do {
        ssrc \<leftarrow> get_be32 body 4;
        ts \<leftarrow> get_be64 body 12;
        padding \<leftarrow> vec_slice body echo_fixed_size (length body);
        if subtype = app_subtype_echo_request
        then Some (Some (P_Echo_Request \<lparr>eq_ssrc = ssrc, eq_timestamp = ts, eq_padding = padding\<rparr>))
        else do {
          delay \<leftarrow> get_be32 body 20;
          Some (Some (P_Echo_Response \<lparr>er_ssrc = ssrc, er_timestamp = ts, er_processing_delay = delay,
            er_padding = padding\<rparr>))
        }
      })"

definition decode_ext_seq :: "bytes \<Rightarrow> rtcp_packet option option" where
  "decode_ext_seq body =
     (if length body \<noteq> ext_seq_size then Some None
      else do {
        ssrc \<leftarrow> get_be32 body 4; high \<leftarrow> get_be16 body 12;
        Some (Some (P_Ext_Seq \<lparr>es_ssrc = ssrc, es_seq_high = high\<rparr>))
      })"

definition decode_app :: "rtcp_header \<Rightarrow> bytes \<Rightarrow> rtcp_packet option option" where
  "decode_app h body =
     (if length body < app_fixed_size then Some None
      else do {
        name \<leftarrow> get_be32 body 8;
        if name \<noteq> name_rist then Some None
        else if hd_count h = app_subtype_range_nack then map_option Some (decode_range_nack body)
        else if hd_count h = app_subtype_ext_seq then decode_ext_seq body
        else if hd_count h = app_subtype_echo_request \<or> hd_count h = app_subtype_echo_response
        then decode_echo (hd_count h) body
        else Some None
      })"

definition decode_typed :: "rtcp_header \<Rightarrow> bytes \<Rightarrow> rtcp_packet option option" where
  "decode_typed h body =
     (if hd_pt h = pt_sender_report then decode_sender_report h body
      else if hd_pt h = pt_receiver_report then decode_receiver_report h body
      else if hd_pt h = pt_sdes then decode_sdes h body
      else if hd_pt h = pt_app then decode_app h body
      else if hd_pt h = pt_transport_feedback then decode_bitmask_nack h body
      else Some None)"

definition rtcp_parse :: "bytes \<Rightarrow> (rtcp_error + rtcp_packet \<times> nat) option" where
  "rtcp_parse b =
     do {
       r \<leftarrow> parse_header b;
       case r of Inl e \<Rightarrow> Some (Inl e)
       | Inr h \<Rightarrow> do {
           body \<leftarrow> vec_slice b 0 (hd_size h);
           b0 \<leftarrow> vec_get b 0;
           typed \<leftarrow> (if b0 AND 0x20 = 0 then decode_typed h body else Some None);
           case typed of Some pkt \<Rightarrow> Some (Inr (pkt, hd_size h))
           | None \<Rightarrow> Some (Inr (P_Raw body, hd_size h))
         }
     }"

end
