(* ===== verification/Rtcp_Compound.thy ===== *)
theory Rtcp_Compound
  imports Rtcp
begin

text \<open>
  Compound RTCP datagrams (\<^verbatim>\<open>rist-codec/src/rtcp.rs\<close>): parsing packet after packet, the ordering
  rules a compound is built under, and the packing of missing sequence numbers into range and bitmask
  NACKs with their expansion back.
\<close>

section \<open>Total reads\<close>

lemma parse_header_total: "\<exists>r. parse_header b = Some r"
  by (cases "length b < 4") (auto simp: parse_header_def rtcp_header_size_def vec_get_def get_be16_total Let_def)

lemma parse_header_size:
  "parse_header b = Some (Inr h) \<Longrightarrow> 4 \<le> hd_size h \<and> hd_size h \<le> length b"
  by (auto simp: parse_header_def Let_def split: if_splits Option.bind_splits)

lemma get_pairs_total: "off + 4 * k \<le> length b \<Longrightarrow> \<exists>ps. get_pairs b off k = Some ps"
proof (induction k arbitrary: off)
  case (Suc k)
  then obtain ps where "get_pairs b (off + 4) k = Some ps" using Suc.IH [of "off + 4"] by fastforce
  with Suc.prems show ?case by (simp add: get_be16_total)
qed simp

lemma reads_total:
  "i + 4 \<le> length b \<Longrightarrow> \<exists>w. get_be32 b i = Some w"
  "i + 2 \<le> length b \<Longrightarrow> \<exists>v. get_be16 b i = Some v"
  "i < length b \<Longrightarrow> \<exists>x. vec_get b i = Some x"
  by (simp_all add: get_be32_total get_be16_total vec_get_def)

lemma decode_typed_total:
  assumes "hd_size h = length body"
  shows "\<exists>r. decode_typed h body = Some r"
proof -
  have sr: "\<exists>r. decode_sender_report h body = Some r" using assms
    by (auto simp: decode_sender_report_def sender_report_size_def get_be32_total get_be64_def)
  have rr: "\<exists>r. decode_receiver_report h body = Some r" using assms
    by (auto simp: decode_receiver_report_def receiver_report_size_def empty_rr_size_def lqm_report_size_def
        lqm_extension_size_def get_be32_total vec_slice_def vec_get_def)
  have sd: "\<exists>r. decode_sdes h body = Some r" using assms
    by (auto simp: decode_sdes_def sdes_fixed_size_def get_be32_total vec_slice_def vec_get_def Let_def)
  have pairs: "\<exists>ps. get_pairs body 12 ((length body - 12) div 4) = Some ps" if "12 \<le> length body"
  proof (rule get_pairs_total)
    show "12 + 4 * ((length body - 12) div 4) \<le> length body" using that by linarith
  qed
  have bn: "\<exists>r. decode_bitmask_nack h body = Some r"
    using assms pairs by (cases "12 \<le> length body")
      (auto simp: decode_bitmask_nack_def app_fixed_size_def get_be32_total)
  have rn: "12 \<le> length body \<Longrightarrow> \<exists>r. decode_range_nack body = Some r"
    using pairs by (auto simp: decode_range_nack_def app_fixed_size_def get_be32_total)
  have ec: "\<exists>r. decode_echo s body = Some r" for s
    by (auto simp: decode_echo_def echo_fixed_size_def get_be32_total get_be64_def vec_slice_def)
  have es: "\<exists>r. decode_ext_seq body = Some r"
    by (auto simp: decode_ext_seq_def ext_seq_size_def get_be32_total get_be16_total)
  have "\<exists>r. decode_app h body = Some r"
    using rn ec es by (auto simp: decode_app_def app_fixed_size_def get_be32_total)
  then show ?thesis using sr rr sd bn by (simp add: decode_typed_def)
qed

lemma rtcp_parse_total:
  "\<exists>r. rtcp_parse b = Some r \<and> (\<forall>p n. r = Inr (p, n) \<longrightarrow> 4 \<le> n \<and> n \<le> length b)"
proof -
  obtain r where r: "parse_header b = Some r" using parse_header_total by blast
  show ?thesis
  proof (cases r)
    case (Inl e)
    with r show ?thesis by (simp add: rtcp_parse_def)
  next
    case (Inr h)
    then have size: "4 \<le> hd_size h" "hd_size h \<le> length b" using r parse_header_size by auto
    obtain t where "decode_typed h (take (hd_size h) b) = Some t"
      using decode_typed_total [of h "take (hd_size h) b"] size by auto
    moreover have "vec_get b 0 = Some (b ! 0)" using size by (auto simp: vec_get_def)
    ultimately show ?thesis using r Inr size
      by (auto simp: rtcp_parse_def vec_slice_def split: option.splits)
  qed
qed

lemma rtcp_parse_consumes:
  "rtcp_parse b = Some (Inr (p, n)) \<Longrightarrow> 4 \<le> n \<and> n \<le> length b"
  using rtcp_parse_total [of b] by auto

section \<open>Compounds\<close>

text \<open>The loop of \<^verbatim>\<open>parse_compound\<close>, on what is left of the datagram.\<close>

function parse_packets :: "bytes \<Rightarrow> (rtcp_error + rtcp_packet list) option" where
  "parse_packets b =
     (if b = [] then Some (Inr [])
      else case rtcp_parse b of
        None \<Rightarrow> None
      | Some (Inl e) \<Rightarrow> Some (Inl e)
      | Some (Inr (pkt, n)) \<Rightarrow> do {
          rest \<leftarrow> parse_packets (drop n b);
          Some (case rest of Inl e \<Rightarrow> Inl e | Inr pkts \<Rightarrow> Inr (pkt # pkts))
        })"
  by auto
termination
  by (relation "measure length") (auto dest: rtcp_parse_consumes)

declare parse_packets.simps [simp del]

definition parse_compound :: "bytes \<Rightarrow> (rtcp_error + rtcp_packet list) option" where
  "parse_compound b = (if b = [] then Some (Inl EmptyCompound) else parse_packets b)"

definition compound_marshal_size :: "rtcp_packet list \<Rightarrow> nat" where
  "compound_marshal_size pkts = sum_list (map rtcp_marshal_size pkts)"

fun is_report :: "rtcp_packet \<Rightarrow> bool" where
  "is_report (P_Sender_Report _) = True"
| "is_report (P_Receiver_Report _) = True"
| "is_report (P_Empty_Receiver_Report _) = True"
| "is_report (P_Link_Quality_Report _) = True"
| "is_report _ = False"

fun is_nack :: "rtcp_packet \<Rightarrow> bool" where
  "is_nack (P_Range_Nack _) = True"
| "is_nack (P_Bitmask_Nack _) = True"
| "is_nack _ = False"

fun is_sdes :: "rtcp_packet \<Rightarrow> bool" where
  "is_sdes (P_Sdes _) = True"
| "is_sdes _ = False"

text \<open>The walk after the report and the SDES: the class of a packet, or the error it is.\<close>

fun packet_class :: "rtcp_packet \<Rightarrow> rtcp_packet list \<Rightarrow> rtcp_error + nat" where
  "packet_class (P_Ext_Seq _) after =
     (if after \<noteq> [] \<and> is_nack (hd after) then Inr 0
      else Inl (CompoundOrder ''ExtSeq must be followed by a NACK packet''))"
| "packet_class (P_Range_Nack _) after = Inr 0"
| "packet_class (P_Bitmask_Nack _) after = Inr 0"
| "packet_class (P_Raw _) after = Inr 0"
| "packet_class (P_Echo_Request _) after = Inr 1"
| "packet_class (P_Echo_Response _) after = Inr 1"
| "packet_class _ after =
     Inl (CompoundOrder ''only feedback and echo packets may follow the report and SDES'')"

fun check_classes :: "nat \<Rightarrow> rtcp_packet list \<Rightarrow> rtcp_error option" where
  "check_classes class [] = None"
| "check_classes class (p # ps) =
     (case packet_class p ps of
        Inl e \<Rightarrow> Some e
      | Inr c \<Rightarrow>
          if c < class then Some (CompoundOrder ''feedback packets must precede the echo packets'')
          else check_classes c ps)"

definition check_compound_order :: "rtcp_packet list \<Rightarrow> rtcp_error option" where
  "check_compound_order pkts =
     (case pkts of
        p # q # rest \<Rightarrow>
          if \<not> is_report p then Some (CompoundOrder ''first packet must be an SR or (empty) RR'')
          else if \<not> is_sdes q then Some (CompoundOrder ''second packet must be the SDES/CNAME'')
          else check_classes 0 rest
      | _ \<Rightarrow> Some (CompoundOrder ''a compound needs a report packet and an SDES packet''))"

definition build_compound :: "bytes \<Rightarrow> rtcp_packet list \<Rightarrow> bytes \<times> rtcp_error option" where
  "build_compound dst pkts =
     (case check_compound_order pkts of
        Some e \<Rightarrow> (dst, Some e)
      | None \<Rightarrow> (foldl (\<lambda>d p. d @ rtcp_encode p) dst pkts, None))"

section \<open>NACK packing\<close>

text \<open>\<^verbatim>\<open>for _ in 0..=extra\<close>: one range expanded after what is collected, up to the cap.\<close>

fun expand_range :: "nat \<Rightarrow> u16 \<Rightarrow> u32 list \<Rightarrow> u32 list" where
  "expand_range 0 s acc = acc"
| "expand_range (Suc k) s acc =
     (if max_nack_expand \<le> length acc then acc else expand_range k (s + 1) (acc @ [ucast s]))"

definition range_missing_seqs :: "range_nack \<Rightarrow> u32 list" where
  "range_missing_seqs p =
     foldl (\<lambda>acc r. expand_range (unat (nr_extra r) + 1) (nr_start r) acc) [] (rn_ranges p)"

fun append_bits :: "nack_pair \<Rightarrow> nat \<Rightarrow> nat list \<Rightarrow> u32 list \<Rightarrow> u32 list" where
  "append_bits p cap [] acc = acc"
| "append_bits p cap (i # is) acc =
     (if cap \<le> length acc then acc
      else append_bits p cap is
        (if np_blp p AND push_bit i 1 \<noteq> 0 then acc @ [ucast (np_pid p + (of_nat i + 1))] else acc))"

definition append_seqs :: "nack_pair \<Rightarrow> nat \<Rightarrow> u32 list \<Rightarrow> u32 list" where
  "append_seqs p cap acc =
     (if cap \<le> length acc then acc else append_bits p cap [0..<16] (acc @ [ucast (np_pid p)]))"

definition bitmask_missing_seqs :: "bitmask_nack \<Rightarrow> u32 list" where
  "bitmask_missing_seqs p =
     foldl (\<lambda>acc f. if max_nack_expand \<le> length acc then acc else append_seqs f max_nack_expand acc) [] (bn_fcis p)"

fun decode_nack :: "rtcp_packet \<Rightarrow> u32 list option" where
  "decode_nack (P_Range_Nack p) = Some (range_missing_seqs p)"
| "decode_nack (P_Bitmask_Nack p) = Some (bitmask_missing_seqs p)"
| "decode_nack _ = None"

definition flush_range ::
    "u32 \<Rightarrow> nack_range list \<Rightarrow> nack_range \<Rightarrow> range_nack list \<Rightarrow> nack_range list \<times> range_nack list" where
  "flush_range media ranges cur pkts =
     (let ranges = ranges @ [cur] in
      if length ranges = max_nack_records_per_packet
      then ([], pkts @ [\<lparr>rn_media_ssrc = media, rn_ranges = ranges\<rparr>])
      else (ranges, pkts))"

fun range_walk ::
    "u32 \<Rightarrow> u32 list \<Rightarrow> nack_range \<Rightarrow> u16 \<Rightarrow> nack_range list \<Rightarrow> range_nack list
      \<Rightarrow> nack_range list \<times> range_nack list" where
  "range_walk media [] cur prev ranges pkts = flush_range media ranges cur pkts"
| "range_walk media (m # ms) cur prev ranges pkts =
     (let s = ucast m in
      if s = prev + 1 \<and> nr_extra cur < 0xFFFF
      then range_walk media ms (cur\<lparr>nr_extra := nr_extra cur + 1\<rparr>) s ranges pkts
      else let (ranges, pkts) = flush_range media ranges cur pkts
           in range_walk media ms \<lparr>nr_start = s, nr_extra = 0\<rparr> s ranges pkts)"

definition encode_range_nack :: "u32 \<Rightarrow> u32 \<Rightarrow> u32 list \<Rightarrow> range_nack list" where
  "encode_range_nack sender media missing =
     (case missing of
        [] \<Rightarrow> []
      | m # ms \<Rightarrow>
          let (ranges, pkts) = range_walk media ms \<lparr>nr_start = ucast m, nr_extra = 0\<rparr> (ucast m) [] []
          in if ranges \<noteq> [] then pkts @ [\<lparr>rn_media_ssrc = media, rn_ranges = ranges\<rparr>] else pkts)"

fun pair_walk :: "u32 list \<Rightarrow> nack_pair \<Rightarrow> nack_pair list" where
  "pair_walk [] cur = [cur]"
| "pair_walk (m # ms) cur =
     (let s = ucast m; d = s - np_pid cur in
      if 1 \<le> d \<and> d \<le> 16
      then pair_walk ms (cur\<lparr>np_blp := np_blp cur OR push_bit (unat (d - 1)) 1\<rparr>)
      else cur # pair_walk ms \<lparr>np_pid = s, np_blp = 0\<rparr>)"

definition nack_pairs_from_seqs :: "u32 list \<Rightarrow> nack_pair list option" where
  "nack_pairs_from_seqs missing =
     do { m \<leftarrow> vec_get missing 0; Some (pair_walk (tl missing) \<lparr>np_pid = ucast m, np_blp = 0\<rparr>) }"

definition push_pair :: "u32 \<Rightarrow> u32 \<Rightarrow> bitmask_nack list \<Rightarrow> nack_pair \<Rightarrow> bitmask_nack list" where
  "push_pair sender media pkts pair =
     (let pkts = (if pkts = [] \<or> length (bn_fcis (last pkts)) = max_nack_records_per_packet
                  then pkts @ [\<lparr>bn_sender_ssrc = sender, bn_media_ssrc = media, bn_fcis = []\<rparr>] else pkts)
      in butlast pkts @ [(last pkts)\<lparr>bn_fcis := bn_fcis (last pkts) @ [pair]\<rparr>])"

definition encode_bitmask_nack :: "u32 \<Rightarrow> u32 \<Rightarrow> u32 list \<Rightarrow> bitmask_nack list option" where
  "encode_bitmask_nack sender media missing =
     (if missing = [] then Some []
      else do { pairs \<leftarrow> nack_pairs_from_seqs missing; Some (foldl (push_pair sender media) [] pairs) })"

end
