(* ===== verification/Rtcp_Props.thy ===== *)
theory Rtcp_Props
  imports Rtcp_Compound
begin

text \<open>
  The RTCP codec's promises: a canonical packet is parsed back from its encoding, a compound from the
  concatenation, any datagram is parsed without a panic, and NACKs expand to the numbers they were packed
  from.
\<close>

section \<open>Parsing one encoding\<close>

lemma header_byte:
  assumes "c \<in> {0, 1, 2, 3 :: u8}"
  shows "drop_bit 6 (0x80 OR c) = 2" "(0x80 OR c) AND 0x1F = c" "(0x80 OR c) AND 0x20 = 0"
  using assms by auto

lemma rtcp_parse_at:
  assumes c: "c \<in> {0, 1, 2, 3}" and len: "4 + length tail = (unat w + 1) * 4"
    and dec: "decode_typed \<lparr>hd_count = c, hd_pt = pt, hd_size = 4 + length tail\<rparr> (rtcp_header_bytes c pt w @ tail)
      = Some (Some p)"
  shows "rtcp_parse ((rtcp_header_bytes c pt w @ tail) @ rest) = Some (Inr (p, 4 + length tail))"
proof -
  define b where "b = (rtcp_header_bytes c pt w @ tail) @ rest"
  have b: "b = (0x80 OR c) # pt # be16 w @ tail @ rest"
    by (simp add: b_def rtcp_header_bytes_def version_flag_def)
  have "get_be16 b 2 = Some w" using get_be16_at [of 2 "[0x80 OR c, pt]" w "tail @ rest"] by (simp add: b)
  moreover have "vec_get b 0 = Some (0x80 OR c)" "vec_get b 1 = Some pt" by (simp_all add: b)
  moreover have lb: "4 + length tail \<le> length b" by (simp add: b)
  ultimately have ph: "parse_header b = Some (Inr \<lparr>hd_count = c, hd_pt = pt, hd_size = 4 + length tail\<rparr>)"
    using header_byte [OF c] len by (simp add: parse_header_def rtcp_header_size_def Let_def)
  have "vec_slice b 0 (4 + length tail) = Some (rtcp_header_bytes c pt w @ tail)"
    using vec_slice_at [of 0 "[]" "4 + length tail" "rtcp_header_bytes c pt w @ tail" rest]
    by (simp add: b_def rtcp_header_bytes_def)
  then show ?thesis using ph header_byte [OF c] dec \<open>vec_get b 0 = Some (0x80 OR c)\<close>
    unfolding b_def [symmetric] by (simp add: rtcp_parse_def)
qed

definition rtcp_canonical :: "rtcp_packet \<Rightarrow> bool" where
  "rtcp_canonical p \<longleftrightarrow>
     (case p of
        P_Receiver_Report r \<Rightarrow> rr_cumulative_lost r \<le> 0xFFFFFF
      | P_Link_Quality_Report r \<Rightarrow> length (lq_lqm r) = 44
      | P_Sdes s \<Rightarrow> length (sd_cname s) \<le> 255
      | P_Range_Nack n \<Rightarrow> length (rn_ranges n) \<le> 65533
      | P_Bitmask_Nack n \<Rightarrow> length (bn_fcis n) \<le> 65533
      | P_Echo_Request e \<Rightarrow> length (eq_padding e) mod 4 = 0 \<and> length (eq_padding e) div 4 \<le> 65530
      | P_Echo_Response e \<Rightarrow> length (er_padding e) mod 4 = 0 \<and> length (er_padding e) div 4 \<le> 65530
      | P_Raw b \<Rightarrow> rtcp_parse b = Some (Inr (P_Raw b, length b))
      | _ \<Rightarrow> True)"

lemmas eval_reads = get_be16_def get_be32_def get_be64_def vec_get_def be16_def be32_def be64_def nth_append

lemma parse_sender_report:
  "rtcp_parse (encode_sender_report p @ rest) = Some (Inr (P_Sender_Report p, 28))"
proof -
  define tail where "tail = be32 (sr_ssrc p) @ be64 (sr_ntp p) @ be32 (sr_rtp_time p)
     @ be32 (sr_packet_count p) @ be32 (sr_octet_count p)"
  have "decode_sender_report \<lparr>hd_count = 0, hd_pt = pt_sender_report, hd_size = 28\<rparr>
      (rtcp_header_bytes 0 pt_sender_report 6 @ tail) = Some (Some (P_Sender_Report p))"
    by (simp add: decode_sender_report_def sender_report_size_def rtcp_header_bytes_def tail_def eval_reads)
  then show ?thesis
    using rtcp_parse_at [of 0 tail 6 pt_sender_report "P_Sender_Report p" rest]
    by (simp add: tail_def encode_sender_report_def decode_typed_def)
qed

lemma parse_empty_receiver_report:
  "rtcp_parse (encode_empty_receiver_report ssrc @ rest) = Some (Inr (P_Empty_Receiver_Report ssrc, 8))"
proof -
  have "decode_receiver_report \<lparr>hd_count = 0, hd_pt = pt_receiver_report, hd_size = 8\<rparr>
      (rtcp_header_bytes 0 pt_receiver_report 1 @ be32 ssrc) = Some (Some (P_Empty_Receiver_Report ssrc))"
    by (simp add: decode_receiver_report_def empty_rr_size_def rtcp_header_bytes_def eval_reads)
  then show ?thesis
    using rtcp_parse_at [of 0 "be32 ssrc" 1 pt_receiver_report "P_Empty_Receiver_Report ssrc" rest]
    by (simp add: encode_empty_receiver_report_def decode_typed_def pt_receiver_report_def pt_sender_report_def)
qed

lemma lost_fields:
  fixes f :: u8 and c :: u32
  assumes "c \<le> 0xFFFFFF"
  shows "ucast (drop_bit 24 (push_bit 24 (ucast f) OR (c AND 0xFFFFFF))) = f"
    and "(push_bit 24 (ucast f) OR (c AND 0xFFFFFF)) AND 0xFFFFFF = c"
proof -
  have m: "(0xFFFFFF :: u32) = mask 24" by (simp add: mask_eq_exp_minus_1)
  have "unat c < 2 ^ 24" using assms by (simp add: word_le_nat_alt)
  then have c: "c AND mask 24 = c" "\<And>k. 24 \<le> k \<Longrightarrow> \<not> bit c k" using and_mask_small high_bits by blast+
  show "ucast (drop_bit 24 (push_bit 24 (ucast f) OR (c AND 0xFFFFFF))) = f"
    unfolding m c(1) by (rule bit_word_eqI) (auto simp: bit_simps c(2))
  show "(push_bit 24 (ucast f) OR (c AND 0xFFFFFF)) AND 0xFFFFFF = c"
    unfolding m c(1)
  proof (rule bit_word_eqI)
    fix n assume "n < LENGTH(32)"
    then show "bit ((push_bit 24 (ucast f) OR c) AND mask 24) n = bit c n"
      using c(2) [of n] by (cases "n < 24") (auto simp: bit_simps)
  qed
qed

lemma parse_receiver_report:
  assumes "rr_cumulative_lost p \<le> 0xFFFFFF"
  shows "rtcp_parse (encode_receiver_report p @ rest) = Some (Inr (P_Receiver_Report p, 32))"
proof -
  define lost where "lost = push_bit 24 (ucast (rr_fraction_lost p)) OR (rr_cumulative_lost p AND 0xFFFFFF)"
  have l: "ucast (drop_bit 24 lost) = rr_fraction_lost p" "lost AND 0xFFFFFF = rr_cumulative_lost p"
    unfolding lost_def by (rule lost_fields [OF assms])+
  have r: "of_be32 (rr_fraction_lost p) (ucast (drop_bit 16 lost)) (ucast (drop_bit 8 lost)) (ucast lost) = lost"
    using of_be32_be32 [of lost] l(1) by simp
  define tail where "tail = be32 (rr_sender_ssrc p) @ be32 (rr_media_ssrc p) @ be32 lost
     @ be32 (rr_highest_seq p) @ be32 (rr_jitter p) @ be32 (rr_lsr p) @ be32 (rr_dlsr p)"
  have "decode_receiver_report \<lparr>hd_count = 1, hd_pt = pt_receiver_report, hd_size = 32\<rparr>
      (rtcp_header_bytes 1 pt_receiver_report 7 @ tail) = Some (Some (P_Receiver_Report p))"
    by (simp add: decode_receiver_report_def empty_rr_size_def receiver_report_size_def rtcp_header_bytes_def
        tail_def eval_reads l r)
  then show ?thesis
    using rtcp_parse_at [of 1 tail 7 pt_receiver_report "P_Receiver_Report p" rest]
    by (simp add: tail_def encode_receiver_report_def lost_def decode_typed_def pt_receiver_report_def
        pt_sender_report_def)
qed

lemma parse_link_quality_report:
  assumes "length (lq_lqm p) = 44"
  shows "rtcp_parse (encode_link_quality_report p @ rest) = Some (Inr (P_Link_Quality_Report p, 52))"
proof -
  have "vec_slice (rtcp_header_bytes 0 pt_receiver_report 12 @ be32 (lq_ssrc p) @ lq_lqm p) 8 52 = Some (lq_lqm p)"
    using vec_slice_at [of 8 "rtcp_header_bytes 0 pt_receiver_report 12 @ be32 (lq_ssrc p)" 52 "lq_lqm p" "[]"] assms
    by (simp add: rtcp_header_bytes_def)
  moreover have "get_be32 (rtcp_header_bytes 0 pt_receiver_report 12 @ be32 (lq_ssrc p) @ lq_lqm p) 4 = Some (lq_ssrc p)"
    using get_be32_at [of 4 "rtcp_header_bytes 0 pt_receiver_report 12" "lq_ssrc p" "lq_lqm p"]
    by (simp add: rtcp_header_bytes_def)
  ultimately have "decode_receiver_report \<lparr>hd_count = 0, hd_pt = pt_receiver_report, hd_size = 52\<rparr>
      (rtcp_header_bytes 0 pt_receiver_report 12 @ be32 (lq_ssrc p) @ lq_lqm p)
      = Some (Some (P_Link_Quality_Report p))"
    by (simp add: decode_receiver_report_def empty_rr_size_def receiver_report_size_def lqm_report_size_def
        lqm_extension_size_def)
  then show ?thesis
    using rtcp_parse_at [of 0 "be32 (lq_ssrc p) @ lq_lqm p" 12 pt_receiver_report "P_Link_Quality_Report p" rest] assms
    by (simp add: encode_link_quality_report_def lqm_report_size_def lqm_extension_size_def empty_rr_size_def
        decode_typed_def pt_receiver_report_def pt_sender_report_def)
qed

lemma parse_ext_seq: "rtcp_parse (encode_ext_seq p @ rest) = Some (Inr (P_Ext_Seq p, 16))"
proof -
  define tail where "tail = be32 (es_ssrc p) @ be32 name_rist @ be16 (es_seq_high p) @ [0, 0]"
  have "decode_app \<lparr>hd_count = 1, hd_pt = pt_app, hd_size = 16\<rparr> (rtcp_header_bytes 1 pt_app 3 @ tail)
      = Some (Some (P_Ext_Seq p))"
    by (simp add: decode_app_def app_fixed_size_def app_subtype_range_nack_def app_subtype_ext_seq_def
        decode_ext_seq_def ext_seq_size_def rtcp_header_bytes_def tail_def eval_reads)
  then show ?thesis
    using rtcp_parse_at [of 1 tail 3 pt_app "P_Ext_Seq p" rest]
    by (simp add: tail_def encode_ext_seq_def decode_typed_def pt_app_def pt_sdes_def app_subtype_ext_seq_def
        pt_receiver_report_def pt_sender_report_def)
qed

lemma get_pairs_at:
  "n = length pre \<Longrightarrow> k = length ps \<Longrightarrow>
   get_pairs (pre @ concat (map (\<lambda>(x, y). be16 x @ be16 y) ps) @ post) n k = Some ps"
proof (induction ps arbitrary: pre n k)
  case (Cons xy ps)
  obtain x y where xy: "xy = (x, y)" by (cases xy)
  let ?r = "concat (map (\<lambda>(x, y). be16 x @ be16 y) ps) @ post"
  have "get_pairs ((pre @ be16 x @ be16 y) @ ?r) (n + 4) (length ps) = Some ps"
    using Cons.prems by (intro Cons.IH) simp_all
  moreover have "get_be16 (pre @ be16 x @ (be16 y @ ?r)) n = Some x" using Cons.prems by (intro get_be16_at)
  moreover have "get_be16 ((pre @ be16 x) @ be16 y @ ?r) (n + 2) = Some y" using Cons.prems by (intro get_be16_at) simp
  ultimately show ?case using Cons.prems by (simp add: xy)
qed simp

lemma length_pairs [simp]: "length (concat (map (\<lambda>(x, y). be16 x @ be16 y) ps)) = 4 * length ps"
  by (induction ps) auto

lemma parse_range_nack:
  assumes "length (rn_ranges p) \<le> 65533"
  shows "rtcp_parse (encode_range_nack_packet p @ rest)
    = Some (Inr (P_Range_Nack p, 12 + 4 * length (rn_ranges p)))"
proof -
  define ps where "ps = map (\<lambda>r. (nr_start r, nr_extra r)) (rn_ranges p)"
  define w :: u16 where "w = of_nat (2 + length (rn_ranges p))"
  define body where "body = concat (map (\<lambda>(x, y). be16 x @ be16 y) ps)"
  define tail where "tail = be32 (rn_media_ssrc p) @ be32 name_rist @ body"
  have unmap: "map (\<lambda>(s, e). \<lparr>nr_start = s, nr_extra = e\<rparr>) ps = rn_ranges p"
    unfolding ps_def map_map by (rule map_idI) simp
  have enc: "encode_range_nack_packet p = rtcp_header_bytes 0 pt_app w @ tail"
    by (simp add: encode_range_nack_packet_def app_subtype_range_nack_def tail_def body_def ps_def w_def comp_def)
  have lt: "length tail = 8 + 4 * length (rn_ranges p)" by (simp add: tail_def body_def) (simp add: ps_def)
  have lw: "unat w = 2 + length (rn_ranges p)" unfolding w_def unat_of_nat using assms by simp
  have reads: "get_be32 (rtcp_header_bytes 0 pt_app w @ tail) 4 = Some (rn_media_ssrc p)"
    "get_be32 (rtcp_header_bytes 0 pt_app w @ tail) 8 = Some name_rist"
    by (simp_all add: tail_def rtcp_header_bytes_def eval_reads)
  have pairs: "get_pairs (rtcp_header_bytes 0 pt_app w @ tail) 12 (length (rn_ranges p)) = Some ps"
    using get_pairs_at [of 12 "rtcp_header_bytes 0 pt_app w @ be32 (rn_media_ssrc p) @ be32 name_rist"
        "length (rn_ranges p)" ps "[]"]
    by (simp add: tail_def body_def ps_def rtcp_header_bytes_def)
  have "decode_app \<lparr>hd_count = 0, hd_pt = pt_app, hd_size = 12 + 4 * length (rn_ranges p)\<rparr>
      (rtcp_header_bytes 0 pt_app w @ tail) = Some (Some (P_Range_Nack p))"
    using reads pairs unmap lt by (simp add: decode_app_def app_fixed_size_def app_subtype_range_nack_def
        decode_range_nack_def rtcp_header_bytes_def)
  then show ?thesis
    using rtcp_parse_at [of 0 tail w pt_app "P_Range_Nack p" rest] lt lw
    by (simp add: enc decode_typed_def pt_app_def pt_sdes_def pt_receiver_report_def pt_sender_report_def)
qed

lemma parse_bitmask_nack:
  assumes "length (bn_fcis p) \<le> 65533"
  shows "rtcp_parse (encode_bitmask_nack_packet p @ rest)
    = Some (Inr (P_Bitmask_Nack p, 12 + 4 * length (bn_fcis p)))"
proof -
  define ps where "ps = map (\<lambda>f. (np_pid f, np_blp f)) (bn_fcis p)"
  define w :: u16 where "w = of_nat (2 + length (bn_fcis p))"
  define body where "body = concat (map (\<lambda>(x, y). be16 x @ be16 y) ps)"
  define tail where "tail = be32 (bn_sender_ssrc p) @ be32 (bn_media_ssrc p) @ body"
  have unmap: "map (\<lambda>(s, e). \<lparr>np_pid = s, np_blp = e\<rparr>) ps = bn_fcis p"
    unfolding ps_def map_map by (rule map_idI) simp
  have enc: "encode_bitmask_nack_packet p = rtcp_header_bytes 1 pt_transport_feedback w @ tail"
    by (simp add: encode_bitmask_nack_packet_def fmt_generic_nack_def tail_def body_def ps_def w_def comp_def)
  have lt: "length tail = 8 + 4 * length (bn_fcis p)" by (simp add: tail_def body_def) (simp add: ps_def)
  have lw: "unat w = 2 + length (bn_fcis p)" unfolding w_def unat_of_nat using assms by simp
  have reads: "get_be32 (rtcp_header_bytes 1 pt_transport_feedback w @ tail) 4 = Some (bn_sender_ssrc p)"
    "get_be32 (rtcp_header_bytes 1 pt_transport_feedback w @ tail) 8 = Some (bn_media_ssrc p)"
    by (simp_all add: tail_def rtcp_header_bytes_def eval_reads)
  have pairs: "get_pairs (rtcp_header_bytes 1 pt_transport_feedback w @ tail) 12 (length (bn_fcis p)) = Some ps"
    using get_pairs_at [of 12
        "rtcp_header_bytes 1 pt_transport_feedback w @ be32 (bn_sender_ssrc p) @ be32 (bn_media_ssrc p)"
        "length (bn_fcis p)" ps "[]"]
    by (simp add: tail_def body_def ps_def rtcp_header_bytes_def)
  have "decode_bitmask_nack \<lparr>hd_count = 1, hd_pt = pt_transport_feedback, hd_size = 12 + 4 * length (bn_fcis p)\<rparr>
      (rtcp_header_bytes 1 pt_transport_feedback w @ tail) = Some (Some (P_Bitmask_Nack p))"
    using reads pairs unmap by (simp add: decode_bitmask_nack_def app_fixed_size_def fmt_generic_nack_def)
  then show ?thesis
    using rtcp_parse_at [of 1 tail w pt_transport_feedback "P_Bitmask_Nack p" rest] lt lw
    by (simp add: enc decode_typed_def pt_transport_feedback_def pt_app_def pt_sdes_def pt_receiver_report_def
        pt_sender_report_def)
qed

lemma pad_to_4_id: "n mod 4 = 0 \<Longrightarrow> pad_to_4 n = n"
  unfolding pad_to_4_def by presburger

lemma echo_parts:
  fixes ssrc delay :: u32 and ts :: u64 and padding :: bytes
  assumes "length padding mod 4 = 0" and "length padding div 4 \<le> 65530"
  defines "w \<equiv> of_nat (5 + length padding div 4) :: u16"
    and "tail \<equiv> be32 ssrc @ be32 name_rist @ be64 ts @ be32 delay @ padding"
  shows "encode_echo s ssrc ts delay padding = rtcp_header_bytes s pt_app w @ tail"
    and "4 + length tail = (unat w + 1) * 4"
    and "length (rtcp_header_bytes s pt_app w @ tail) = 24 + length padding"
    and "get_be32 (rtcp_header_bytes s pt_app w @ tail) 4 = Some ssrc"
    and "get_be32 (rtcp_header_bytes s pt_app w @ tail) 8 = Some name_rist"
    and "get_be64 (rtcp_header_bytes s pt_app w @ tail) 12 = Some ts"
    and "get_be32 (rtcp_header_bytes s pt_app w @ tail) 20 = Some delay"
    and "vec_slice (rtcp_header_bytes s pt_app w @ tail) 24 (24 + length padding) = Some padding"
proof -
  have pad: "pad_to_4 (length padding) = length padding" by (rule pad_to_4_id) (fact assms(1))
  show "encode_echo s ssrc ts delay padding = rtcp_header_bytes s pt_app w @ tail"
    by (simp add: encode_echo_def Let_def pad w_def tail_def)
  have "length padding div 4 * 4 = length padding" using assms(1) by presburger
  moreover have "unat w = 5 + length padding div 4" unfolding w_def unat_of_nat using assms(2) by simp
  ultimately show "4 + length tail = (unat w + 1) * 4" by (simp add: tail_def)
  show "length (rtcp_header_bytes s pt_app w @ tail) = 24 + length padding"
    by (simp add: tail_def rtcp_header_bytes_def)
  show "get_be32 (rtcp_header_bytes s pt_app w @ tail) 4 = Some ssrc"
    "get_be32 (rtcp_header_bytes s pt_app w @ tail) 8 = Some name_rist"
    "get_be64 (rtcp_header_bytes s pt_app w @ tail) 12 = Some ts"
    "get_be32 (rtcp_header_bytes s pt_app w @ tail) 20 = Some delay"
    by (simp_all add: tail_def rtcp_header_bytes_def eval_reads)
  show "vec_slice (rtcp_header_bytes s pt_app w @ tail) 24 (24 + length padding) = Some padding"
    using vec_slice_at [of 24 "rtcp_header_bytes s pt_app w @ be32 ssrc @ be32 name_rist @ be64 ts @ be32 delay"
        "24 + length padding" padding "[]"]
    by (simp add: tail_def rtcp_header_bytes_def)
qed

lemma parse_echo_request:
  assumes "length (eq_padding p) mod 4 = 0" and "length (eq_padding p) div 4 \<le> 65530"
  shows "rtcp_parse (rtcp_encode (P_Echo_Request p) @ rest)
    = Some (Inr (P_Echo_Request p, 24 + length (eq_padding p)))"
proof -
  note e = echo_parts(2) [OF assms, where ssrc = "eq_ssrc p" and ts = "eq_timestamp p" and delay = 0]
    echo_parts(1,3-) [OF assms, where s = 2 and ssrc = "eq_ssrc p" and ts = "eq_timestamp p" and delay = 0]
  define w :: u16 where "w = of_nat (5 + length (eq_padding p) div 4)"
  define tail where "tail = be32 (eq_ssrc p) @ be32 name_rist @ be64 (eq_timestamp p) @ be32 0 @ eq_padding p"
  note e = e [folded w_def tail_def]
  have "decode_app \<lparr>hd_count = 2, hd_pt = pt_app, hd_size = 4 + length tail\<rparr> (rtcp_header_bytes 2 pt_app w @ tail)
      = Some (Some (P_Echo_Request p))"
    using e(3-8) by (simp add: decode_app_def app_fixed_size_def app_subtype_range_nack_def app_subtype_ext_seq_def
        app_subtype_echo_request_def decode_echo_def echo_fixed_size_def del: length_append)
  then have "decode_typed \<lparr>hd_count = 2, hd_pt = pt_app, hd_size = 4 + length tail\<rparr> (rtcp_header_bytes 2 pt_app w @ tail)
      = Some (Some (P_Echo_Request p))"
    unfolding decode_typed_def by (simp add: pt_app_def pt_sdes_def pt_receiver_report_def pt_sender_report_def)
  from rtcp_parse_at [OF _ e(1) this, of rest] show ?thesis
    using e(2) by (simp add: app_subtype_echo_request_def) (simp add: tail_def)
qed

lemma parse_echo_response:
  assumes "length (er_padding p) mod 4 = 0" and "length (er_padding p) div 4 \<le> 65530"
  shows "rtcp_parse (rtcp_encode (P_Echo_Response p) @ rest)
    = Some (Inr (P_Echo_Response p, 24 + length (er_padding p)))"
proof -
  note e = echo_parts(2) [OF assms, where ssrc = "er_ssrc p" and ts = "er_timestamp p"
      and delay = "er_processing_delay p"]
    echo_parts(1,3-) [OF assms, where s = 3 and ssrc = "er_ssrc p" and ts = "er_timestamp p"
      and delay = "er_processing_delay p"]
  define w :: u16 where "w = of_nat (5 + length (er_padding p) div 4)"
  define tail where "tail = be32 (er_ssrc p) @ be32 name_rist @ be64 (er_timestamp p)
      @ be32 (er_processing_delay p) @ er_padding p"
  note e = e [folded w_def tail_def]
  have "decode_app \<lparr>hd_count = 3, hd_pt = pt_app, hd_size = 4 + length tail\<rparr> (rtcp_header_bytes 3 pt_app w @ tail)
      = Some (Some (P_Echo_Response p))"
    using e(3-8) by (simp add: decode_app_def app_fixed_size_def app_subtype_range_nack_def app_subtype_ext_seq_def
        app_subtype_echo_request_def app_subtype_echo_response_def decode_echo_def echo_fixed_size_def
        del: length_append)
  then have "decode_typed \<lparr>hd_count = 3, hd_pt = pt_app, hd_size = 4 + length tail\<rparr> (rtcp_header_bytes 3 pt_app w @ tail)
      = Some (Some (P_Echo_Response p))"
    unfolding decode_typed_def by (simp add: pt_app_def pt_sdes_def pt_receiver_report_def pt_sender_report_def)
  from rtcp_parse_at [OF _ e(1) this, of rest] show ?thesis
    using e(2) by (simp add: app_subtype_echo_response_def) (simp add: tail_def)
qed

lemma parse_sdes:
  assumes "length (sd_cname p) \<le> 255"
  shows "rtcp_parse (encode_sdes p @ rest) = Some (Inr (P_Sdes p, sdes_size (length (sd_cname p))))"
proof -
  define n where "n = length (sd_cname p)"
  define size where "size = sdes_size n"
  define zeros :: bytes where "zeros = replicate (size - 10 - n) 0"
  define w :: u16 where "w = of_nat (size div 4 - 1)"
  define k :: u8 where "k = of_nat n"
  define tail where "tail = be32 (sd_ssrc p) @ [1, k] @ sd_cname p @ zeros"
  have size: "size = (14 + n) div 4 * 4" by (simp add: size_def sdes_size_def sdes_fixed_size_def)
  then have sz: "11 + n \<le> size" "size \<le> 272" "size div 4 * 4 = size" using assms n_def by presburger+
  have enc: "encode_sdes p = rtcp_header_bytes 1 pt_sdes w @ tail"
    using assms by (simp add: encode_sdes_def Let_def max_cname_len_def min_def tail_def w_def k_def zeros_def
        size_def n_def sdes_item_cname_def sdes_fixed_size_def)
  have lz: "length zeros = size - 10 - n" by (simp add: zeros_def)
  have lt: "length tail = size - 4" using sz(1) by (simp add: tail_def lz n_def [symmetric])
  have lb: "length (rtcp_header_bytes 1 pt_sdes w @ tail) = size"
    using lt sz(1) by (simp add: rtcp_header_bytes_def)
  have "unat w = size div 4 - 1"
    unfolding w_def unat_of_nat using sz(2) by simp
  then have len: "4 + length tail = (unat w + 1) * 4" using lt sz by simp
  have k: "unat k = n" using assms by (simp add: k_def n_def unat_of_nat)
  have r: "vec_get (rtcp_header_bytes 1 pt_sdes w @ tail) 8 = Some 1"
    "vec_get (rtcp_header_bytes 1 pt_sdes w @ tail) 9 = Some k"
    "get_be32 (rtcp_header_bytes 1 pt_sdes w @ tail) 4 = Some (sd_ssrc p)"
    by (simp_all add: tail_def rtcp_header_bytes_def eval_reads)
  have s1: "vec_slice (rtcp_header_bytes 1 pt_sdes w @ tail) 10 (10 + n) = Some (sd_cname p)"
    using vec_slice_at [of 10 "rtcp_header_bytes 1 pt_sdes w @ be32 (sd_ssrc p) @ [1, k]" "10 + n" "sd_cname p" zeros]
    by (simp add: tail_def rtcp_header_bytes_def n_def)
  have "vec_slice ((rtcp_header_bytes 1 pt_sdes w @ be32 (sd_ssrc p) @ [1, k] @ sd_cname p) @ zeros @ []) (10 + n) size
      = Some zeros"
    by (rule vec_slice_at) (use sz(1) in \<open>simp_all add: rtcp_header_bytes_def n_def zeros_def\<close>)
  then have s2: "vec_slice (rtcp_header_bytes 1 pt_sdes w @ tail) (10 + n) size = Some zeros"
    by (simp add: tail_def)
  have "\<not> (\<exists>x\<in>set zeros. x \<noteq> 0)" by (simp add: zeros_def)
  then have "decode_sdes \<lparr>hd_count = 1, hd_pt = pt_sdes, hd_size = size\<rparr> (rtcp_header_bytes 1 pt_sdes w @ tail)
      = Some (Some (P_Sdes p))"
    unfolding decode_sdes_def lb using sz(1)
    by (simp add: sdes_fixed_size_def sdes_item_cname_def r k s1 s2 Let_def)
  then have "decode_typed \<lparr>hd_count = 1, hd_pt = pt_sdes, hd_size = 4 + length tail\<rparr> (rtcp_header_bytes 1 pt_sdes w @ tail)
      = Some (Some (P_Sdes p))"
    unfolding decode_typed_def using lt sz(1) by (simp add: pt_sdes_def pt_receiver_report_def pt_sender_report_def)
  from rtcp_parse_at [OF _ len this, of rest] show ?thesis
    using lt sz(1) by (simp add: enc size_def n_def)
qed

lemma parse_header_prefix:
  assumes "parse_header b = Some (Inr h)"
  shows "parse_header (b @ rest) = Some (Inr h)"
proof -
  have len: "4 \<le> length b" using parse_header_size [OF assms] by linarith
  then have e: "vec_get (b @ rest) 0 = vec_get b 0" "vec_get (b @ rest) 1 = vec_get b 1"
      "get_be16 (b @ rest) 2 = get_be16 b 2"
    by (auto simp: vec_get_def get_be16_def nth_append)
  show ?thesis using assms len unfolding parse_header_def e
    by (auto simp: rtcp_header_size_def Let_def split: if_splits Option.bind_splits)
qed

lemma parse_raw:
  assumes "rtcp_parse b = Some (Inr (P_Raw b, length b))"
  shows "rtcp_parse (b @ rest) = Some (Inr (P_Raw b, length b))"
proof -
  obtain h where h: "parse_header b = Some (Inr h)" "hd_size h = length b"
    using assms parse_header_total [of b]
    by (auto simp: rtcp_parse_def split: Option.bind_splits sum.splits option.splits if_splits)
  note ph = parse_header_prefix [OF h(1)]
  have "4 \<le> length b" using parse_header_size [OF h(1)] by linarith
  then have "vec_get (b @ rest) 0 = vec_get b 0" "vec_slice (b @ rest) 0 (length b) = vec_slice b 0 (length b)"
    by (auto simp: vec_get_def nth_append vec_slice_def)
  then show ?thesis using assms h ph by (simp add: rtcp_parse_def)
qed

section \<open>Every packet, every compound\<close>

lemma rtcp_parse_encode:
  assumes "rtcp_canonical p"
  shows "rtcp_parse (rtcp_encode p @ rest) = Some (Inr (p, rtcp_marshal_size p))"
proof (cases p)
  case (P_Sdes s)
  then have "length (sd_cname s) \<le> 255" using assms by (simp add: rtcp_canonical_def)
  then show ?thesis using P_Sdes parse_sdes by (simp add: max_cname_len_def min_def)
next
  case (P_Echo_Request e)
  then show ?thesis using assms parse_echo_request [of e rest]
    by (simp add: rtcp_canonical_def echo_fixed_size_def pad_to_4_id)
next
  case (P_Echo_Response e)
  then show ?thesis using assms parse_echo_response [of e rest]
    by (simp add: rtcp_canonical_def echo_fixed_size_def pad_to_4_id)
qed (use assms parse_sender_report parse_empty_receiver_report parse_receiver_report parse_link_quality_report
    parse_ext_seq parse_range_nack parse_bitmask_nack parse_raw
    in \<open>simp_all add: rtcp_canonical_def sender_report_size_def empty_rr_size_def receiver_report_size_def
      lqm_report_size_def lqm_extension_size_def ext_seq_size_def app_fixed_size_def\<close>)

lemma length_pairs_concat [simp]:
  "length (concat (map (\<lambda>r. be16 (f r) @ be16 (g r)) rs)) = 4 * length rs"
  by (induction rs) simp_all

lemma length_encode_echo: "length (encode_echo s ssrc ts delay padding) = 24 + pad_to_4 (length padding)"
proof -
  have "length padding \<le> pad_to_4 (length padding)" unfolding pad_to_4_def by presburger
  then show ?thesis by (simp add: encode_echo_def rtcp_header_bytes_def Let_def)
qed

lemma length_encode_sdes:
  "length (encode_sdes p) = sdes_size (min (length (sd_cname p)) max_cname_len)"
proof -
  define n where "n = min (length (sd_cname p)) max_cname_len"
  have "11 + n \<le> sdes_size n" unfolding sdes_size_def sdes_fixed_size_def by presburger
  then show ?thesis
    by (simp add: encode_sdes_def rtcp_header_bytes_def Let_def sdes_fixed_size_def n_def min_def split: if_splits)
qed

lemma length_rtcp_encode: "rtcp_canonical p \<Longrightarrow> length (rtcp_encode p) = rtcp_marshal_size p"
  by (cases p)
    (simp_all add: rtcp_canonical_def length_encode_echo length_encode_sdes encode_sender_report_def
      encode_receiver_report_def encode_empty_receiver_report_def encode_link_quality_report_def
      encode_range_nack_packet_def encode_bitmask_nack_packet_def encode_ext_seq_def rtcp_header_bytes_def
      sender_report_size_def empty_rr_size_def receiver_report_size_def lqm_report_size_def
      lqm_extension_size_def ext_seq_size_def app_fixed_size_def echo_fixed_size_def)

lemma parse_packets_encode:
  "\<forall>p\<in>set ps. rtcp_canonical p \<Longrightarrow> parse_packets (concat (map rtcp_encode ps)) = Some (Inr ps)"
proof (induction ps)
  case Nil
  then show ?case by (simp add: parse_packets.simps)
next
  case (Cons p ps)
  let ?rest = "concat (map rtcp_encode ps)"
  have p: "rtcp_parse (rtcp_encode p @ ?rest) = Some (Inr (p, rtcp_marshal_size p))"
    using Cons.prems by (intro rtcp_parse_encode) simp
  have "drop (rtcp_marshal_size p) (rtcp_encode p @ ?rest) = ?rest"
    using Cons.prems length_rtcp_encode [of p] by simp
  moreover have "rtcp_encode p @ ?rest \<noteq> []" using rtcp_parse_consumes [OF p] by force
  moreover have "parse_packets ?rest = Some (Inr ps)" using Cons by simp
  ultimately show ?case by (subst parse_packets.simps) (simp add: p)
qed

lemma build_compound_bytes:
  "build_compound dst ps =
     (case check_compound_order ps of Some e \<Rightarrow> (dst, Some e)
      | None \<Rightarrow> (dst @ concat (map rtcp_encode ps), None))"
proof -
  have "foldl (\<lambda>d p. d @ rtcp_encode p) d ps = d @ concat (map rtcp_encode ps)" for d
    by (induction ps arbitrary: d) simp_all
  then show ?thesis by (simp add: build_compound_def split: option.splits)
qed

section \<open>NACK packing\<close>

text \<open>The 16-bit number a value stands for, in its 32-bit slot.\<close>

definition low16 :: "u32 \<Rightarrow> u32" where
  "low16 m = ucast (ucast m :: u16)"

definition seqs_from :: "u16 \<Rightarrow> nat \<Rightarrow> u32 list" where
  "seqs_from s k = map (\<lambda>i. ucast (s + of_nat i)) [0..<k]"

definition range_seqs :: "nack_range \<Rightarrow> u32 list" where
  "range_seqs r = seqs_from (nr_start r) (unat (nr_extra r) + 1)"

lemma seqs_from_Suc: "seqs_from s (Suc k) = ucast s # seqs_from (s + 1) k"
proof -
  have "[0..<Suc k] = 0 # map Suc [0..<k]" by (simp add: upt_conv_Cons map_Suc_upt del: upt_Suc)
  then show ?thesis by (simp add: seqs_from_def comp_def add.assoc del: upt_Suc)
qed

lemma length_seqs_from [simp]: "length (seqs_from s k) = k"
  by (simp add: seqs_from_def)

lemma expand_range_free:
  "length acc + k \<le> max_nack_expand \<Longrightarrow> expand_range k s acc = acc @ seqs_from s k"
proof (induction k arbitrary: s acc)
  case 0
  then show ?case by (simp add: seqs_from_def)
next
  case (Suc k)
  then show ?case by (simp add: seqs_from_Suc)
qed

lemma range_missing_free:
  "length (concat (map range_seqs (rn_ranges p))) \<le> max_nack_expand \<Longrightarrow>
   range_missing_seqs p = concat (map range_seqs (rn_ranges p))"
proof -
  have "length acc + length (concat (map range_seqs rs)) \<le> max_nack_expand \<Longrightarrow>
      foldl (\<lambda>acc r. expand_range (unat (nr_extra r) + 1) (nr_start r) acc) acc rs
        = acc @ concat (map range_seqs rs)" for rs acc
  proof (induction rs arbitrary: acc)
    case (Cons r rs)
    have "expand_range (unat (nr_extra r) + 1) (nr_start r) acc = acc @ range_seqs r"
      using Cons.prems unfolding range_seqs_def by (intro expand_range_free) simp
    then show ?case using Cons.IH [of "acc @ range_seqs r"] Cons.prems by simp
  qed simp
  then show "length (concat (map range_seqs (rn_ranges p))) \<le> max_nack_expand \<Longrightarrow>
      range_missing_seqs p = concat (map range_seqs (rn_ranges p))"
    by (simp add: range_missing_seqs_def)
qed

text \<open>What the ranges and packets collected so far stand for.\<close>

definition packed :: "nack_range list \<Rightarrow> range_nack list \<Rightarrow> u32 list" where
  "packed ranges pkts = concat (map (\<lambda>p. concat (map range_seqs (rn_ranges p))) pkts) @ concat (map range_seqs ranges)"

definition pack_shape :: "u32 \<Rightarrow> nack_range list \<Rightarrow> range_nack list \<Rightarrow> bool" where
  "pack_shape media ranges pkts \<longleftrightarrow>
     length ranges < 16 \<and> (\<forall>p\<in>set pkts. rn_media_ssrc p = media \<and> length (rn_ranges p) = 16)"

lemma flush_range_packs:
  assumes "pack_shape media ranges pkts" and "flush_range media ranges cur pkts = (ranges', pkts')"
  shows "pack_shape media ranges' pkts' \<and> packed ranges' pkts' = packed ranges pkts @ range_seqs cur"
  using assms by (auto simp: flush_range_def pack_shape_def packed_def max_nack_records_per_packet_def Let_def
      split: if_splits)

lemma range_grows:
  assumes "nr_extra cur < 0xFFFF"
  shows "range_seqs (cur\<lparr>nr_extra := nr_extra cur + 1\<rparr>)
    = range_seqs cur @ [ucast (nr_start cur + (nr_extra cur + 1))]"
proof -
  have "unat (nr_extra cur) < 65535" using assms by (simp add: word_less_nat_alt)
  then have "unat (nr_extra cur + 1) = unat (nr_extra cur) + 1" by (simp add: unat_word_ariths)
  then show ?thesis by (simp add: range_seqs_def seqs_from_def ac_simps)
qed

lemma range_walk_packs:
  "pack_shape media ranges pkts \<Longrightarrow> prev = nr_start cur + nr_extra cur \<Longrightarrow>
   range_walk media ms cur prev ranges pkts = (ranges', pkts') \<Longrightarrow>
   pack_shape media ranges' pkts'
     \<and> packed ranges' pkts' = packed ranges pkts @ range_seqs cur @ map low16 ms"
proof (induction media ms cur prev ranges pkts rule: range_walk.induct)
  case (1 media cur prev ranges pkts)
  then show ?case using flush_range_packs [of media ranges pkts cur ranges' pkts'] by simp
next
  case (2 media m ms cur prev ranges pkts)
  define s :: u16 where "s = ucast m"
  show ?case
  proof (cases "s = prev + 1 \<and> nr_extra cur < 0xFFFF")
    case True
    then have w: "range_walk media ms (cur\<lparr>nr_extra := nr_extra cur + 1\<rparr>) s ranges pkts = (ranges', pkts')"
      using 2(5) by (simp add: s_def Let_def)
    have s: "s = nr_start cur + (nr_extra cur + 1)" using True 2(4) by (simp add: add.assoc)
    then have s': "s = nr_start (cur\<lparr>nr_extra := nr_extra cur + 1\<rparr>) + nr_extra (cur\<lparr>nr_extra := nr_extra cur + 1\<rparr>)"
      by simp
    have "ucast (nr_start cur + (nr_extra cur + 1)) = low16 m"
      unfolding s [symmetric] by (simp add: low16_def s_def)
    then have "range_seqs (cur\<lparr>nr_extra := nr_extra cur + 1\<rparr>) = range_seqs cur @ [low16 m]"
      using True range_grows by simp
    then show ?thesis using 2(1) [OF s_def True 2(3) s' w] by simp
  next
    case False
    obtain r1 p1 where f: "flush_range media ranges cur pkts = (r1, p1)" by fastforce
    have "range_walk media ms \<lparr>nr_start = s, nr_extra = 0\<rparr> s r1 p1 = (ranges', pkts')"
      using 2(5) False f by (auto simp: s_def Let_def split: if_splits)
    moreover have "range_seqs \<lparr>nr_start = s, nr_extra = 0\<rparr> = [low16 m]"
      by (simp add: range_seqs_def seqs_from_def low16_def s_def)
    ultimately show ?thesis
      using 2(2) [OF s_def False f [symmetric] refl] flush_range_packs [OF 2(3) f] by simp
  qed
qed

definition range_nack_seqs :: "range_nack list \<Rightarrow> u32 list" where
  "range_nack_seqs pkts = concat (map (\<lambda>p. concat (map range_seqs (rn_ranges p))) pkts)"

lemma encode_range_packs:
  "range_nack_seqs (encode_range_nack sender media missing) = map low16 missing
   \<and> (\<forall>p\<in>set (encode_range_nack sender media missing).
        rn_media_ssrc p = media \<and> 1 \<le> length (rn_ranges p) \<and> length (rn_ranges p) \<le> 16)"
proof (cases missing)
  case Nil
  then show ?thesis by (simp add: encode_range_nack_def range_nack_seqs_def)
next
  case (Cons m ms)
  define cur where "cur = \<lparr>nr_start = ucast m :: u16, nr_extra = 0\<rparr>"
  obtain ranges pkts where w: "range_walk media ms cur (ucast m) [] [] = (ranges, pkts)" by fastforce
  have shape: "pack_shape media ranges pkts" "packed ranges pkts = packed [] [] @ range_seqs cur @ map low16 ms"
    using range_walk_packs [OF _ _ w] by (simp_all add: pack_shape_def cur_def)
  have "packed [] [] @ range_seqs cur = [low16 m]"
    by (simp add: packed_def cur_def range_seqs_def seqs_from_def low16_def)
  then have "packed ranges pkts = map low16 missing" using shape(2) Cons by simp
  moreover have enc: "encode_range_nack sender media missing =
      (if ranges \<noteq> [] then pkts @ [\<lparr>rn_media_ssrc = media, rn_ranges = ranges\<rparr>] else pkts)"
    by (simp add: encode_range_nack_def Cons w [unfolded cur_def])
  moreover have "range_nack_seqs (encode_range_nack sender media missing) = packed ranges pkts"
    unfolding enc by (auto simp: range_nack_seqs_def packed_def)
  moreover have "\<forall>p\<in>set (encode_range_nack sender media missing).
      rn_media_ssrc p = media \<and> 1 \<le> length (rn_ranges p) \<and> length (rn_ranges p) \<le> 16"
    unfolding enc using shape(1) by (cases ranges) (auto simp: pack_shape_def)
  ultimately show ?thesis by simp
qed

lemma member_length_concat: "x \<in> set xs \<Longrightarrow> length (f x) \<le> length (concat (map f xs))"
  by (induction xs) auto

lemma range_nack_expands:
  assumes "length missing \<le> max_nack_expand"
  shows "concat (map range_missing_seqs (encode_range_nack sender media missing)) = map low16 missing"
proof -
  define pkts where "pkts = encode_range_nack sender media missing"
  have all: "range_nack_seqs pkts = map low16 missing"
    unfolding pkts_def using encode_range_packs by blast
  have "range_missing_seqs p = concat (map range_seqs (rn_ranges p))" if "p \<in> set pkts" for p
  proof (rule range_missing_free)
    have "length (concat (map range_seqs (rn_ranges p))) \<le> length (range_nack_seqs pkts)"
      unfolding range_nack_seqs_def by (rule member_length_concat) (fact that)
    then show "length (concat (map range_seqs (rn_ranges p))) \<le> max_nack_expand" using assms all by simp
  qed
  then have e: "map range_missing_seqs pkts = map (\<lambda>p. concat (map range_seqs (rn_ranges p))) pkts" by simp
  show ?thesis using all unfolding range_nack_seqs_def e [symmetric] unfolding pkts_def .
qed

section \<open>Bitmask NACKs\<close>

definition pair_seqs :: "nack_pair \<Rightarrow> u32 set" where
  "pair_seqs p = insert (ucast (np_pid p)) {ucast (np_pid p + (of_nat i + 1)) |i. i < 16 \<and> bit (np_blp p) i}"

lemma append_bits_free:
  "length acc + length is \<le> cap \<Longrightarrow> \<forall>i\<in>set is. i < 16 \<Longrightarrow>
   length (append_bits p cap is acc) \<le> length acc + length is
   \<and> set (append_bits p cap is acc)
      = set acc \<union> {ucast (np_pid p + (of_nat i + 1)) |i. i \<in> set is \<and> bit (np_blp p) i}"
proof (induction "is" arbitrary: acc)
  case (Cons i "is")
  have b: "(np_blp p AND push_bit i 1 \<noteq> 0) = bit (np_blp p) i"
    using and_exp_eq_0_iff_not_bit [of "np_blp p" i] by simp
  show ?case
  proof (cases "bit (np_blp p) i")
    case True
    then show ?thesis using Cons.IH [of "acc @ [ucast (np_pid p + (of_nat i + 1))]"] Cons.prems b by auto
  next
    case False
    then show ?thesis using Cons.IH [of acc] Cons.prems b by auto
  qed
qed simp

lemma append_seqs_free:
  assumes "length acc + 17 \<le> cap"
  shows "length (append_seqs p cap acc) \<le> length acc + 17 \<and> set (append_seqs p cap acc) = set acc \<union> pair_seqs p"
  using append_bits_free [of "acc @ [ucast (np_pid p)]" "[0..<16]" cap p] assms
  by (auto simp: append_seqs_def pair_seqs_def)

lemma bitmask_missing_free:
  assumes "length (bn_fcis p) \<le> 16"
  shows "set (bitmask_missing_seqs p) = (\<Union>f\<in>set (bn_fcis p). pair_seqs f)"
proof -
  have "length acc + 17 * length fs \<le> max_nack_expand \<Longrightarrow>
      set (foldl (\<lambda>acc f. if max_nack_expand \<le> length acc then acc else append_seqs f max_nack_expand acc) acc fs)
        = set acc \<union> (\<Union>f\<in>set fs. pair_seqs f)" for fs acc
  proof (induction fs arbitrary: acc)
    case (Cons f fs)
    have a: "length (append_seqs f max_nack_expand acc) \<le> length acc + 17"
      "set (append_seqs f max_nack_expand acc) = set acc \<union> pair_seqs f"
      using append_seqs_free [of acc max_nack_expand f] Cons.prems by simp_all
    show ?case using Cons.IH [of "append_seqs f max_nack_expand acc"] Cons.prems a by auto
  qed simp
  from this [of "[]" "bn_fcis p"] assms show ?thesis
    by (simp add: bitmask_missing_seqs_def max_nack_expand_def)
qed

lemma pair_grows:
  fixes d :: u16
  assumes "1 \<le> d" and "d \<le> 16"
  shows "pair_seqs (cur\<lparr>np_blp := np_blp cur OR push_bit (unat (d - 1)) 1\<rparr>)
    = insert (ucast (np_pid cur + d)) (pair_seqs cur)"
proof -
  define i where "i = unat (d - 1)"
  have "unat d \<le> 16" "1 \<le> unat d" using assms by (simp_all add: word_le_nat_alt)
  moreover have "unat (d - 1) = unat d - 1" using assms(1) by (simp add: unat_sub)
  ultimately have i: "i < 16" "of_nat i + 1 = d" by (simp_all add: i_def)
  define blp where "blp = np_blp cur OR push_bit i 1"
  have "bit blp j \<longleftrightarrow> bit (np_blp cur) j \<or> j = i" if "j < 16" for j
    using that unfolding blp_def by (auto simp: bit_simps bit_1_iff)
  then have "pair_seqs (cur\<lparr>np_blp := blp\<rparr>) = insert (ucast (np_pid cur + (of_nat i + 1))) (pair_seqs cur)"
    using i(1) unfolding pair_seqs_def by auto
  then have "pair_seqs (cur\<lparr>np_blp := blp\<rparr>) = insert (ucast (np_pid cur + d)) (pair_seqs cur)"
    by (simp only: i(2))
  then show ?thesis by (simp only: blp_def i_def)
qed

lemma pair_walk_covers: "(\<Union>f\<in>set (pair_walk ms cur). pair_seqs f) = pair_seqs cur \<union> low16 ` set ms"
proof (induction ms arbitrary: cur)
  case (Cons m ms)
  define s :: u16 where "s = ucast m"
  define d where "d = s - np_pid cur"
  have low: "ucast (np_pid cur + d) = low16 m" by (simp add: d_def s_def low16_def)
  show ?case
  proof (cases "1 \<le> d \<and> d \<le> 16")
    case True
    then have "pair_walk (m # ms) cur = pair_walk ms (cur\<lparr>np_blp := np_blp cur OR push_bit (unat (d - 1)) 1\<rparr>)"
      by (simp add: s_def d_def Let_def)
    then show ?thesis using Cons.IH pair_grows [of d cur] True low by simp
  next
    case False
    then have "pair_walk (m # ms) cur = cur # pair_walk ms \<lparr>np_pid = s, np_blp = 0\<rparr>"
      by (auto simp: s_def d_def Let_def)
    moreover have "pair_seqs \<lparr>np_pid = s, np_blp = 0\<rparr> = {low16 m}" by (simp add: pair_seqs_def s_def low16_def)
    ultimately show ?thesis using Cons.IH by simp
  qed
qed simp

definition bitmask_shape :: "u32 \<Rightarrow> u32 \<Rightarrow> bitmask_nack \<Rightarrow> bool" where
  "bitmask_shape sender media p \<longleftrightarrow>
     bn_sender_ssrc p = sender \<and> bn_media_ssrc p = media \<and> 1 \<le> length (bn_fcis p) \<and> length (bn_fcis p) \<le> 16"

lemma push_pair_keeps:
  assumes "\<forall>p\<in>set pkts. bitmask_shape sender media p"
  shows "(\<forall>p\<in>set (push_pair sender media pkts pair). bitmask_shape sender media p)
    \<and> concat (map bn_fcis (push_pair sender media pkts pair)) = concat (map bn_fcis pkts) @ [pair]"
proof (cases "pkts = [] \<or> length (bn_fcis (last pkts)) = 16")
  case True
  then show ?thesis using assms
    by (auto simp: push_pair_def max_nack_records_per_packet_def bitmask_shape_def)
next
  case False
  then obtain ps p where ps: "pkts = ps @ [p]" by (cases pkts rule: rev_cases) auto
  with assms False have "bitmask_shape sender media p" "length (bn_fcis p) \<noteq> 16" by simp_all
  then have "bitmask_shape sender media (p\<lparr>bn_fcis := bn_fcis p @ [pair]\<rparr>)" by (auto simp: bitmask_shape_def)
  with ps False assms show ?thesis by (auto simp: push_pair_def max_nack_records_per_packet_def)
qed

lemma push_pairs_keep:
  "\<forall>p\<in>set pkts. bitmask_shape sender media p \<Longrightarrow>
   (\<forall>p\<in>set (foldl (push_pair sender media) pkts pairs). bitmask_shape sender media p)
   \<and> concat (map bn_fcis (foldl (push_pair sender media) pkts pairs)) = concat (map bn_fcis pkts) @ pairs"
proof (induction pairs arbitrary: pkts)
  case (Cons pair pairs)
  from Cons.IH [of "push_pair sender media pkts pair"] push_pair_keeps [OF Cons.prems, of pair] show ?case by simp
qed simp

lemma bitmask_nack_expands:
  "\<exists>pkts. encode_bitmask_nack sender media missing = Some pkts
    \<and> (\<forall>p\<in>set pkts. bitmask_shape sender media p)
    \<and> (\<Union>p\<in>set pkts. set (bitmask_missing_seqs p)) = low16 ` set missing"
proof (cases missing)
  case Nil
  then show ?thesis by (simp add: encode_bitmask_nack_def)
next
  case (Cons m ms)
  define pairs where "pairs = pair_walk ms \<lparr>np_pid = ucast m, np_blp = 0\<rparr>"
  define pkts where "pkts = foldl (push_pair sender media) [] pairs"
  have enc: "encode_bitmask_nack sender media missing = Some pkts"
    by (simp add: encode_bitmask_nack_def nack_pairs_from_seqs_def Cons vec_get_def pairs_def pkts_def)
  have keep: "\<forall>p\<in>set pkts. bitmask_shape sender media p" "concat (map bn_fcis pkts) = pairs"
    using push_pairs_keep [of "[]" sender media pairs] by (simp_all add: pkts_def)
  have "(\<Union>p\<in>set pkts. set (bitmask_missing_seqs p)) = (\<Union>p\<in>set pkts. \<Union>f\<in>set (bn_fcis p). pair_seqs f)"
    using keep(1) bitmask_missing_free by (intro SUP_cong) (auto simp: bitmask_shape_def)
  also have "\<dots> = (\<Union>f\<in>set (concat (map bn_fcis pkts)). pair_seqs f)" by auto
  also have "\<dots> = low16 ` set missing"
    unfolding keep(2) pairs_def pair_walk_covers by (simp add: Cons pair_seqs_def low16_def)
  finally show ?thesis using enc keep(1) by blast
qed

section \<open>Properties\<close>

text \<open>C18: A compound survives the wire: for canonical packets (fields within their widths) in the order the
  rules demand, \<^verbatim>\<open>build_compound\<close> appends to the buffer exactly their encodings, each of
  \<^verbatim>\<open>marshal_size\<close> bytes, and \<^verbatim>\<open>parse_compound\<close> of those bytes gives the
  packets back, every type and every field.\<close>

theorem rtcp_compound_roundtrip:
  assumes "\<forall>p\<in>set ps. rtcp_canonical p" and "check_compound_order ps = None"
  shows "\<exists>b. build_compound dst ps = (dst @ b, None) \<and> length b = compound_marshal_size ps
    \<and> parse_compound b = Some (Inr ps)"
proof -
  let ?b = "concat (map rtcp_encode ps)"
  obtain p q rest where ps: "ps = p # q # rest"
    using assms(2) by (auto simp: check_compound_order_def split: list.splits)
  have "4 \<le> length (rtcp_encode p)"
    using rtcp_parse_consumes [OF rtcp_parse_encode [of p "[]"]] length_rtcp_encode [of p] assms(1) ps by simp
  then have "?b \<noteq> []" using ps by auto
  moreover have "length ?b = compound_marshal_size ps"
    using assms(1) length_rtcp_encode by (simp add: length_concat compound_marshal_size_def comp_def cong: map_cong)
  ultimately show ?thesis
    using assms parse_packets_encode [of ps] by (simp add: build_compound_bytes parse_compound_def)
qed

definition sample_compound :: "rtcp_packet list" where
  "sample_compound =
     [P_Empty_Receiver_Report 7, P_Sdes \<lparr>sd_ssrc = 7, sd_cname = [0x61, 0x62]\<rparr>,
      P_Ext_Seq \<lparr>es_ssrc = 8, es_seq_high = 2\<rparr>,
      P_Range_Nack \<lparr>rn_media_ssrc = 8, rn_ranges = [\<lparr>nr_start = 0xFFFF, nr_extra = 1\<rparr>]\<rparr>,
      P_Echo_Request \<lparr>eq_ssrc = 7, eq_timestamp = 5, eq_padding = []\<rparr>]"

theorem rtcp_compound_roundtrip_witness:
  "\<exists>b. build_compound [1] sample_compound = ([1] @ b, None) \<and> length b = compound_marshal_size sample_compound
    \<and> parse_compound b = Some (Inr sample_compound)"
  by (rule rtcp_compound_roundtrip)
    (simp_all add: sample_compound_def rtcp_canonical_def check_compound_order_def)

lemma parse_packets_count:
  "case parse_packets b of None \<Rightarrow> False | Some (Inl e) \<Rightarrow> True | Some (Inr ps) \<Rightarrow> 4 * length ps \<le> length b"
proof (induction b rule: parse_packets.induct)
  case (1 b)
  show ?case
  proof (cases "b = []")
    case False
    obtain r where r: "rtcp_parse b = Some r" using rtcp_parse_total by blast
    show ?thesis
    proof (cases r)
      case (Inl e)
      then show ?thesis using False r by (subst parse_packets.simps) simp
    next
      case (Inr pn)
      obtain p n where pn: "r = Inr (p, n)" using Inr by (cases pn) simp
      have n: "4 \<le> n" "n \<le> length b" using rtcp_parse_consumes r pn by blast+
      have "case parse_packets (drop n b) of None \<Rightarrow> False | Some (Inl e) \<Rightarrow> True
          | Some (Inr ps) \<Rightarrow> 4 * length ps \<le> length (drop n b)"
        using 1 [OF False r pn refl] .
      then show ?thesis using False r pn n
        by (subst parse_packets.simps) (auto split: option.splits sum.splits)
    qed
  qed (simp add: parse_packets.simps)
qed

lemma parse_compound_returns: "\<exists>r. parse_compound b = Some r"
  using parse_packets_count [of b] by (cases "parse_packets b") (simp_all add: parse_compound_def)

text \<open>\<^verbatim>\<open>parse_compound\<close> ends without a panic on every datagram: each packet it reads consumes
  at least 4 of the bytes left and never more, so the loop stops, with the packets or the first framing
  error; an accepted datagram holds at most one packet per 4 bytes.\<close>

theorem rtcp_parse_terminates:
  "case parse_compound b of None \<Rightarrow> False | Some (Inl e) \<Rightarrow> True | Some (Inr ps) \<Rightarrow> 4 * length ps \<le> length b"
  using parse_packets_count [of b] by (simp add: parse_compound_def)

text \<open>C19: Packing missing sequence numbers into NACKs asks for exactly them. Range NACKs expand, packet after
  packet, to the numbers given, in the same order (for up to 65536 of them); bitmask NACKs expand to the same
  set of numbers. Either way every packet carries between 1 and 16 records and the SSRCs passed.\<close>

theorem nack_packing_exact:
  assumes "length missing \<le> 65536"
  shows "concat (map range_missing_seqs (encode_range_nack sender media missing)) = map low16 missing
    \<and> list_all (\<lambda>p. rn_media_ssrc p = media \<and> 1 \<le> length (rn_ranges p) \<and> length (rn_ranges p) \<le> 16)
         (encode_range_nack sender media missing)
    \<and> (\<exists>pkts. encode_bitmask_nack sender media missing = Some pkts
         \<and> list_all (bitmask_shape sender media) pkts
         \<and> (\<Union>p\<in>set pkts. set (bitmask_missing_seqs p)) = low16 ` set missing)"
  using range_nack_expands [of missing sender media] encode_range_packs [of sender media missing]
    bitmask_nack_expands [of sender media missing] assms
  by (simp add: max_nack_expand_def list_all_iff)

theorem nack_packing_exact_witness:
  "concat (map range_missing_seqs (encode_range_nack 0 8 [0x1FFFF, 0x20000, 5])) = map low16 [0x1FFFF, 0x20000, 5]
    \<and> list_all (\<lambda>p. rn_media_ssrc p = 8 \<and> 1 \<le> length (rn_ranges p) \<and> length (rn_ranges p) \<le> 16)
         (encode_range_nack 0 8 [0x1FFFF, 0x20000, 5])
    \<and> (\<exists>pkts. encode_bitmask_nack 0 8 [0x1FFFF, 0x20000, 5] = Some pkts
         \<and> list_all (bitmask_shape 0 8) pkts
         \<and> (\<Union>p\<in>set pkts. set (bitmask_missing_seqs p)) = low16 ` set [0x1FFFF, 0x20000, 5])"
  by (rule nack_packing_exact) simp

text \<open>Decoding does not always keep the bytes: an echo request with a non-zero delay field, an EXTSEQ with
  non-zero reserved bytes and an SDES with a spare word of padding are each accepted as typed packets, and
  encoding those packets again gives other bytes.\<close>

theorem rtcp_reencode_differs:
  "(\<exists>b p. rtcp_parse b = Some (Inr (P_Ext_Seq p, length b)) \<and> encode_ext_seq p \<noteq> b)
   \<and> (\<exists>b p. rtcp_parse b = Some (Inr (P_Sdes p, length b)) \<and> length (encode_sdes p) < length b)
   \<and> (\<exists>b p. rtcp_parse b = Some (Inr (P_Echo_Request p, length b)) \<and> rtcp_encode (P_Echo_Request p) \<noteq> b)"
proof (intro conjI exI)
  show "rtcp_parse ([0x81, 204, 0, 3] @ be32 7 @ be32 name_rist @ [0, 1, 9, 9])
      = Some (Inr (P_Ext_Seq \<lparr>es_ssrc = 7, es_seq_high = 1\<rparr>, length ([0x81, 204, 0, 3] @ be32 7 @ be32 name_rist @ [0, 1, 9, 9])))"
    by code_simp
  show "encode_ext_seq \<lparr>es_ssrc = 7, es_seq_high = 1\<rparr> \<noteq> [0x81, 204, 0, 3] @ be32 7 @ be32 name_rist @ [0, 1, 9, 9]"
    by code_simp
  show "rtcp_parse [0x81, 202, 0, 3, 0, 0, 0, 7, 1, 0, 0, 0, 0, 0, 0, 0]
      = Some (Inr (P_Sdes \<lparr>sd_ssrc = 7, sd_cname = []\<rparr>, length [0x81, 202, 0, 3, 0, 0, 0, 7, 1, 0, 0, 0, 0, 0, 0, 0 :: u8]))"
    by code_simp
  show "length (encode_sdes \<lparr>sd_ssrc = 7, sd_cname = []\<rparr>) < length [0x81, 202, 0, 3, 0, 0, 0, 7, 1, 0, 0, 0, 0, 0, 0, 0 :: u8]"
    by code_simp
  show "rtcp_parse ([0x82, 204, 0, 5] @ be32 7 @ be32 name_rist @ be64 3 @ be32 4)
      = Some (Inr (P_Echo_Request \<lparr>eq_ssrc = 7, eq_timestamp = 3, eq_padding = []\<rparr>,
          length ([0x82, 204, 0, 5] @ be32 7 @ be32 name_rist @ be64 3 @ be32 4)))"
    by code_simp
  show "rtcp_encode (P_Echo_Request \<lparr>eq_ssrc = 7, eq_timestamp = 3, eq_padding = []\<rparr>)
      \<noteq> [0x82, 204, 0, 5] @ be32 7 @ be32 name_rist @ be64 3 @ be32 4"
    by code_simp
qed

end
