(* ===== verification/Fallible.thy ===== *)
theory Fallible
  imports Byte_Codec
begin

text \<open>
  Results of fallible code: a value of type \<open>('e + 'a) option\<close> is a panic (\<open>None\<close>), an error
  (\<open>Some (Inl e)\<close>) or a value (\<open>Some (Inr x)\<close>). \<open>res_bind\<close> is the question mark of Rust: it
  passes a value on and returns an error or a panic at once.
\<close>

type_synonym ('e, 'a) result = "('e + 'a) option"

definition res_bind :: "('e, 'a) result \<Rightarrow> ('a \<Rightarrow> ('e, 'b) result) \<Rightarrow> ('e, 'b) result" where
  "res_bind m f = (case m of None \<Rightarrow> None | Some (Inl e) \<Rightarrow> Some (Inl e) | Some (Inr x) \<Rightarrow> f x)"

definition res_ok :: "'a \<Rightarrow> ('e, 'a) result" where
  "res_ok x = Some (Inr x)"

definition res_err :: "'e \<Rightarrow> ('e, 'a) result" where
  "res_err e = Some (Inl e)"

text \<open>A step that cannot fail but may panic.\<close>

definition res_lift :: "'a option \<Rightarrow> ('e, 'a) result" where
  "res_lift m = map_option Inr m"

lemma res_bind_simps [simp]:
  "res_bind (res_ok x) f = f x"
  "res_bind (res_err e) f = res_err e"
  "res_bind None f = None"
  "res_bind (Some (Inr x)) f = f x"
  "res_bind (Some (Inl e)) f = Some (Inl e)"
  by (simp_all add: res_bind_def res_ok_def res_err_def)

lemma res_lift_simps [simp]:
  "res_lift (Some x) = res_ok x"
  "res_lift None = None"
  by (simp_all add: res_lift_def res_ok_def)

lemma res_inject [simp]:
  "res_ok x = res_ok y \<longleftrightarrow> x = y"
  "res_err e = res_err e' \<longleftrightarrow> e = e'"
  "res_ok x \<noteq> res_err e" "res_err e \<noteq> res_ok x"
  "res_ok x \<noteq> None" "res_err e \<noteq> None" "None \<noteq> res_ok x" "None \<noteq> res_err e"
  by (simp_all add: res_ok_def res_err_def)

lemma res_not_panic [simp]: "\<exists>y. res_ok x = Some y" "\<exists>y. res_err e = Some y"
  by (simp_all add: res_ok_def res_err_def)

lemma res_bind_eq_ok: "res_bind m f = res_ok y \<longleftrightarrow> (\<exists>x. m = res_ok x \<and> f x = res_ok y)"
  by (auto simp: res_bind_def res_ok_def split: option.splits sum.splits)

lemma res_lift_eq_ok [simp]: "res_lift m = res_ok x \<longleftrightarrow> m = Some x"
  by (cases m) auto

lemma res_bind_total: "m \<noteq> None \<Longrightarrow> (\<And>x. m = res_ok x \<Longrightarrow> f x \<noteq> None) \<Longrightarrow> res_bind m f \<noteq> None"
  by (auto simp: res_bind_def res_ok_def split: option.splits sum.splits)

lemma res_cases:
  obtains (panic) "m = None" | (err) e where "m = res_err e" | (ok) x where "m = res_ok x"
proof (cases m)
  case (Some r)
  then show thesis using err ok by (cases r) (simp_all add: res_ok_def res_err_def)
qed (rule panic)

section \<open>Returning without a panic\<close>

definition returns :: "('e, 'a) result \<Rightarrow> bool" where
  "returns m \<longleftrightarrow> m \<noteq> None"

lemma returns_simps [simp]: "returns (res_ok x)" "returns (res_err e)" "\<not> returns None" "returns (Some r)"
  "\<not> returns (res_lift None)"
  by (simp_all add: returns_def)

lemma returns_lift: "m \<noteq> None \<Longrightarrow> returns (res_lift m)"
  by (auto simp: returns_def)

lemma returns_bind: "returns m \<Longrightarrow> (\<And>x. m = res_ok x \<Longrightarrow> returns (f x)) \<Longrightarrow> returns (res_bind m f)"
  unfolding returns_def by (rule res_bind_total)

lemma returnsE: "returns m \<Longrightarrow> (\<And>e. m = res_err e \<Longrightarrow> P) \<Longrightarrow> (\<And>x. m = res_ok x \<Longrightarrow> P) \<Longrightarrow> P"
  by (rule res_cases [of m]) (auto simp: returns_def)

text \<open>The reads of a buffer, as facts about its length.\<close>

lemma returns_reads:
  "returns (res_lift (vec_get xs i)) \<longleftrightarrow> i < length xs"
  "returns (res_lift (vec_slice xs i j)) \<longleftrightarrow> i \<le> j \<and> j \<le> length xs"
  "returns (res_lift (get_be16 b i)) \<longleftrightarrow> i + 2 \<le> length b"
  "returns (res_lift (get_be32 b i)) \<longleftrightarrow> i + 4 \<le> length b"
  by (auto simp: vec_get_def vec_slice_def get_be16_def get_be32_def)

end
