(* ===== verification/Srp.thy ===== *)
theory Srp
  imports Fallible
begin

text \<open>
  The SRP-6a engine (\<^verbatim>\<open>rist-codec/src/srp.rs\<close>): the group, the key derivation, the client
  (authenticatee) and the server (authenticator). The third-party crates are the parameter \<open>srp_lib\<close>
  of every definition: the hash of \<^verbatim>\<open>sha2\<close>, the conversions and the modular power of
  \<^verbatim>\<open>num_bigint::BigUint\<close> (whose values are natural numbers) and the comparison of
  \<^verbatim>\<open>subtle\<close>. What the code relies on is \<open>lib_ok\<close>, their documented behaviour. A draw of
  randomness is a parameter too: \<open>fill i\<close> is the buffer the \<open>i\<close>-th call of the generator fills, or its
  failure.
\<close>

section \<open>The libraries\<close>

record srp_lib =
  sl_sha256 :: "bytes \<Rightarrow> bytes"
  sl_modpow :: "nat \<Rightarrow> nat \<Rightarrow> nat \<Rightarrow> nat"
  sl_from_be :: "bytes \<Rightarrow> nat"
  sl_to_be :: "nat \<Rightarrow> bytes"
  sl_ct_eq :: "bytes \<Rightarrow> bytes \<Rightarrow> bool"

text \<open>The number of a big-endian byte string, and the shortest such string of a positive number.\<close>

definition be_nat :: "bytes \<Rightarrow> nat" where
  "be_nat bs = foldl (\<lambda>n b. 256 * n + unat b) 0 bs"

fun be_bytes :: "nat \<Rightarrow> bytes" where
  "be_bytes n = (if n = 0 then [] else be_bytes (n div 256) @ [of_nat n])"

declare be_bytes.simps [simp del]

definition lib_ok :: "srp_lib \<Rightarrow> bool" where
  "lib_ok L \<longleftrightarrow>
     (\<forall>bs. length (sl_sha256 L bs) = 32) \<and>
     (\<forall>b e m. 0 < m \<longrightarrow> sl_modpow L b e m = b ^ e mod m) \<and>
     (\<forall>bs. sl_from_be L bs = be_nat bs) \<and>
     (\<forall>x. 0 < x \<longrightarrow> sl_to_be L x = be_bytes x) \<and>
     (\<forall>x y. sl_ct_eq L x y = (x = y))"

section \<open>Errors, groups and hashing\<close>

definition hash_len :: nat where "hash_len = 32"
definition max_salt_len :: nat where "max_salt_len = 1024"

datatype srp_error =
    InvalidGroup
  | InvalidSalt
  | SaltTooLong
  | InvalidVerifier
  | BadParameter
  | Csprng

text \<open>\<^verbatim>\<open>hash\<close> of a list of parts.\<close>

definition srp_hash :: "srp_lib \<Rightarrow> bytes list \<Rightarrow> bytes" where
  "srp_hash L parts = sl_sha256 L (concat parts)"

definition minimal_bytes :: "srp_lib \<Rightarrow> nat \<Rightarrow> bytes" where
  "minimal_bytes L x = (if nbits x = 0 then [] else sl_to_be L x)"

definition is_zero_mod :: "nat \<Rightarrow> nat \<Rightarrow> bool" where
  "is_zero_mod x n \<longleftrightarrow> nbits (x mod n) = 0"

definition validate_salt :: "bytes \<Rightarrow> (srp_error, unit) result" where
  "validate_salt salt =
     (if salt = [] then res_err InvalidSalt
      else if max_salt_len < length salt then res_err SaltTooLong
      else res_ok ())"

record srp_group =
  sg_n :: nat
  sg_g :: nat
  sg_length :: nat

definition srp_group_new :: "nat \<Rightarrow> nat \<Rightarrow> srp_group" where
  "srp_group_new n g = \<lparr>sg_n = n, sg_g = g, sg_length = (nbits n + 7) div 8\<rparr>"

definition default_n :: nat where
  "default_n = 0xAC6BDB41324A9A9BF166DE5E1389582FAF72B6651987EE07FC3192943DB56050A37329CBB4A099ED8193E0757767A13DD52312AB4B03310DCD7F48A9DA04FD50E8083969EDB767B0CF6095179A163AB3661A05FBD5FAAAE82918A9962F0B93B855F97993EC975EEAA80D740ADBF4FF747359D041D5C33EA71D281E446B14773BCA97B43A23FB801676BD207A436C6481F1D2B9078717461A5B9D32E688F87748544523B524B0D57D5EA77A2775D2ECFA032CFBDBF52FB3786160279004E57AE6AF874E7303CE53299CCC041C7BC308D82A5698F3A8D0C38271AE35F8E9DBFBB694B5C803D89F7AE435DE236D525F54759B65E372FCD68EF20FA7111F9E4AFF73"

definition default_group :: srp_group where
  "default_group = srp_group_new default_n 2"

definition group_valid :: "srp_group \<Rightarrow> bool" where
  "group_valid gr \<longleftrightarrow> 0 < nbits (sg_n gr) \<and> 0 < nbits (sg_g gr)"

text \<open>\<^verbatim>\<open>Group::pad\<close>: a number longer than the group is a panic (the subtraction).\<close>

definition srp_pad :: "srp_lib \<Rightarrow> srp_group \<Rightarrow> nat \<Rightarrow> bytes option" where
  "srp_pad L gr x =
     (let mb = minimal_bytes L x in
      if sg_length gr < length mb then None
      else put_slice (replicate (sg_length gr) 0) (sg_length gr - length mb) mb)"

definition hash_padded :: "srp_lib \<Rightarrow> srp_group \<Rightarrow> nat \<Rightarrow> nat \<Rightarrow> bytes option" where
  "hash_padded L gr a b =
     do { pa \<leftarrow> srp_pad L gr a; pb \<leftarrow> srp_pad L gr b; Some (srp_hash L [pa, pb]) }"

definition hash_unpadded :: "srp_lib \<Rightarrow> nat \<Rightarrow> nat \<Rightarrow> bytes" where
  "hash_unpadded L a b = srp_hash L [minimal_bytes L a, minimal_bytes L b]"

definition k_value :: "srp_lib \<Rightarrow> srp_group \<Rightarrow> bool \<Rightarrow> nat option" where
  "k_value L gr legacy =
     do {
       d \<leftarrow> (if legacy then Some (hash_unpadded L (sg_n gr) (sg_g gr)) else hash_padded L gr (sg_n gr) (sg_g gr));
       Some (sl_from_be L d)
     }"

definition u_value :: "srp_lib \<Rightarrow> srp_group \<Rightarrow> nat \<Rightarrow> nat \<Rightarrow> bool \<Rightarrow> nat option" where
  "u_value L gr a b legacy =
     do {
       d \<leftarrow> (if legacy then Some (hash_unpadded L a b) else hash_padded L gr a b);
       Some (sl_from_be L d)
     }"

definition canon_salt :: "srp_lib \<Rightarrow> bytes \<Rightarrow> bytes" where
  "canon_salt L salt = minimal_bytes L (sl_from_be L salt)"

text \<open>The loop over the 32 positions of the two hashes.\<close>

definition xor_hashes :: "bytes \<Rightarrow> bytes \<Rightarrow> bytes option" where
  "xor_hashes x y =
     (if hash_len \<le> length x \<and> hash_len \<le> length y
      then Some (map (\<lambda>i. x ! i XOR y ! i) [0..<hash_len]) else None)"

definition calc_m1 :: "srp_lib \<Rightarrow> srp_group \<Rightarrow> bytes \<Rightarrow> bytes \<Rightarrow> nat \<Rightarrow> nat \<Rightarrow> bytes \<Rightarrow> bytes option" where
  "calc_m1 L gr username salt a b key =
     do {
       xored \<leftarrow> xor_hashes (srp_hash L [minimal_bytes L (sg_n gr)]) (srp_hash L [minimal_bytes L (sg_g gr)]);
       let h_i = srp_hash L [username];
       Some (srp_hash L [xored, h_i, canon_salt L salt, minimal_bytes L a, minimal_bytes L b, key])
     }"

definition calc_x :: "srp_lib \<Rightarrow> bytes \<Rightarrow> bytes \<Rightarrow> bytes \<Rightarrow> nat" where
  "calc_x L salt username password =
     (let inner = srp_hash L [username, [0x3A], password];
          outer = srp_hash L [canon_salt L salt, inner]
      in sl_from_be L outer)"

definition session_key_of :: "srp_lib \<Rightarrow> nat \<Rightarrow> bytes" where
  "session_key_of L s = srp_hash L [minimal_bytes L s]"

definition calc_m2 :: "srp_lib \<Rightarrow> nat \<Rightarrow> bytes \<Rightarrow> bytes \<Rightarrow> bytes" where
  "calc_m2 L a m1 key = srp_hash L [minimal_bytes L a, m1, key]"

text \<open>\<^verbatim>\<open>make_verifier\<close> is itself an option: \<open>None\<close> here is its \<^verbatim>\<open>None\<close>.\<close>

definition make_verifier :: "srp_lib \<Rightarrow> srp_group \<Rightarrow> bytes \<Rightarrow> bytes \<Rightarrow> bytes \<Rightarrow> bytes option" where
  "make_verifier L gr username password salt =
     (if \<not> group_valid gr \<or> validate_salt salt \<noteq> res_ok () then None
      else let x = calc_x L salt username password;
               v = sl_modpow L (sg_g gr) x (sg_n gr)
           in Some (minimal_bytes L v))"

section \<open>Secrets\<close>

text \<open>The rejection loop of \<^verbatim>\<open>read_secret\<close>: attempt \<open>i\<close>, with \<open>k\<close> of the 256 attempts left.\<close>

fun draw_secret ::
    "srp_lib \<Rightarrow> nat \<Rightarrow> nat \<Rightarrow> (nat \<Rightarrow> bytes option) \<Rightarrow> nat \<Rightarrow> nat \<Rightarrow> (srp_error, nat) result" where
  "draw_secret L n excess fill i 0 = res_err Csprng"
| "draw_secret L n excess fill i (Suc k) =
     (case fill i of
        None \<Rightarrow> res_err Csprng
      | Some buf \<Rightarrow>
          res_bind (res_lift (if 0 < excess
            then do { b0 \<leftarrow> vec_get buf 0; vec_set buf 0 (b0 AND drop_bit excess 0xFF) } else Some buf))
          (\<lambda>buf. let v = sl_from_be L buf in
             if v < n then res_ok v else draw_secret L n excess fill (i + 1) k))"

definition read_secret :: "srp_lib \<Rightarrow> nat \<Rightarrow> (nat \<Rightarrow> bytes option) \<Rightarrow> (srp_error, nat) result" where
  "read_secret L n fill =
     (let bits = nbits n; nbytes = (bits + 7) div 8; excess = nbytes * 8 - bits
      in draw_secret L n excess fill 0 256)"

section \<open>The client\<close>

record srp_client =
  sc_group :: srp_group
  sc_salt :: bytes
  sc_a :: nat
  sc_pub_a :: nat
  sc_legacy_pad :: bool
  sc_computed :: bool
  sc_key :: bytes
  sc_m1 :: bytes

definition srp_client_new ::
    "srp_lib \<Rightarrow> (nat \<Rightarrow> bytes option) \<Rightarrow> srp_group \<Rightarrow> bytes \<Rightarrow> bool \<Rightarrow> (srp_error, srp_client) result" where
  "srp_client_new L fill gr salt legacy =
     (if \<not> group_valid gr then res_err InvalidGroup
      else res_bind (validate_salt salt) (\<lambda>_.
        res_bind (read_secret L (sg_n gr) fill) (\<lambda>a.
          res_ok \<lparr>sc_group = gr, sc_salt = salt, sc_a = a, sc_pub_a = sl_modpow L (sg_g gr) a (sg_n gr),
            sc_legacy_pad = legacy, sc_computed = False, sc_key = replicate hash_len 0,
            sc_m1 = replicate hash_len 0\<rparr>)))"

definition srp_client_a :: "srp_lib \<Rightarrow> srp_client \<Rightarrow> bytes option" where
  "srp_client_a L c = srp_pad L (sc_group c) (sc_pub_a c)"

text \<open>\<^verbatim>\<open>compute_key\<close>: a client is changed only when it succeeds.\<close>

definition compute_key ::
    "srp_lib \<Rightarrow> srp_client \<Rightarrow> bytes \<Rightarrow> bytes \<Rightarrow> bytes \<Rightarrow> (srp_error, srp_client) result" where
  "compute_key L c server_b username password =
     (let gr = sc_group c in
      if server_b = [] \<or> sg_length gr < length server_b then res_err BadParameter
      else let b_pub = sl_from_be L server_b in
      if is_zero_mod b_pub (sg_n gr) then res_err BadParameter
      else res_bind (res_lift (u_value L gr (sc_pub_a c) b_pub (sc_legacy_pad c))) (\<lambda>u.
        if is_zero_mod u (sg_n gr) then res_err BadParameter
        else res_bind (res_lift (k_value L gr (sc_legacy_pad c))) (\<lambda>k.
          let x = calc_x L (sc_salt c) username password;
              gx = sl_modpow L (sg_g gr) x (sg_n gr);
              b_mod = b_pub mod sg_n gr;
              kgx = k * gx mod sg_n gr
          in if b_mod + sg_n gr < kgx then None
          else let base = (b_mod + sg_n gr - kgx) mod sg_n gr;
                   exponent = sc_a c + u * x;
                   s = sl_modpow L base exponent (sg_n gr);
                   key = session_key_of L s
               in res_bind (res_lift (calc_m1 L gr username (sc_salt c) (sc_pub_a c) b_pub key)) (\<lambda>m1.
                    res_ok (c\<lparr>sc_key := key, sc_m1 := m1, sc_computed := True\<rparr>)))))"

definition srp_client_m1 :: "srp_client \<Rightarrow> bytes option" where
  "srp_client_m1 c = (if sc_computed c then Some (sc_m1 c) else None)"

definition verify_m2 :: "srp_lib \<Rightarrow> srp_client \<Rightarrow> bytes \<Rightarrow> bool" where
  "verify_m2 L c m2 =
     (if \<not> sc_computed c \<or> length m2 \<noteq> hash_len then False
      else sl_ct_eq L (calc_m2 L (sc_pub_a c) (sc_m1 c) (sc_key c)) m2)"

definition srp_client_key :: "srp_client \<Rightarrow> bytes option" where
  "srp_client_key c = (if sc_computed c then Some (sc_key c) else None)"

section \<open>The server\<close>

record srp_server =
  sv_group :: srp_group
  sv_salt :: bytes
  sv_v :: nat
  sv_b :: nat
  sv_pub_b :: nat
  sv_pub_a :: "nat option"
  sv_legacy_pad :: bool
  sv_verified :: bool
  sv_key :: bytes
  sv_m2 :: bytes

definition compute_b :: "srp_lib \<Rightarrow> srp_server \<Rightarrow> (srp_error, srp_server) result" where
  "compute_b L s =
     (let gr = sv_group s in
      res_bind (res_lift (k_value L gr (sv_legacy_pad s))) (\<lambda>k.
        let gb = sl_modpow L (sg_g gr) (sv_b s) (sg_n gr);
            kv = k * sv_v s;
            s = s\<lparr>sv_pub_b := (kv + gb) mod sg_n gr\<rparr>
        in if nbits (sv_pub_b s) = 0 then res_err BadParameter else res_ok s))"

definition srp_server_new ::
    "srp_lib \<Rightarrow> (nat \<Rightarrow> bytes option) \<Rightarrow> srp_group \<Rightarrow> bytes \<Rightarrow> bytes \<Rightarrow> bool \<Rightarrow> (srp_error, srp_server) result" where
  "srp_server_new L fill gr verifier salt legacy =
     (if \<not> group_valid gr then res_err InvalidGroup
      else res_bind (validate_salt salt) (\<lambda>_.
        if verifier = [] then res_err InvalidVerifier
        else let v = sl_from_be L verifier in
        if is_zero_mod v (sg_n gr) then res_err InvalidVerifier
        else res_bind (read_secret L (sg_n gr) fill) (\<lambda>b.
          compute_b L \<lparr>sv_group = gr, sv_salt = salt, sv_v = v, sv_b = b, sv_pub_b = 0, sv_pub_a = None,
            sv_legacy_pad = legacy, sv_verified = False, sv_key = replicate hash_len 0,
            sv_m2 = replicate hash_len 0\<rparr>)))"

definition srp_server_b :: "srp_lib \<Rightarrow> srp_server \<Rightarrow> bytes option" where
  "srp_server_b L s = srp_pad L (sv_group s) (sv_pub_b s)"

definition handle_a :: "srp_lib \<Rightarrow> srp_server \<Rightarrow> bytes \<Rightarrow> (srp_error, srp_server) result" where
  "handle_a L s client_a =
     (let gr = sv_group s in
      if client_a = [] \<or> sg_length gr < length client_a then res_err BadParameter
      else let a = sl_from_be L client_a in
      if is_zero_mod a (sg_n gr) then res_err BadParameter
      else res_ok (s\<lparr>sv_pub_a := Some a\<rparr>))"

text \<open>\<^verbatim>\<open>verify_m1\<close> stores the key before it compares the proofs, so a failed proof changes
  the server.\<close>

definition verify_m1 :: "srp_lib \<Rightarrow> srp_server \<Rightarrow> bytes \<Rightarrow> bytes \<Rightarrow> (bool \<times> srp_server) option" where
  "verify_m1 L s username m1 =
     (case sv_pub_a s of
        None \<Rightarrow> Some (False, s)
      | Some pub_a \<Rightarrow>
          if length m1 \<noteq> hash_len then Some (False, s)
          else do {
            let gr = sv_group s;
            u \<leftarrow> u_value L gr pub_a (sv_pub_b s) (sv_legacy_pad s);
            if is_zero_mod u (sg_n gr) then Some (False, s)
            else do {
              let vu = sl_modpow L (sv_v s) u (sg_n gr);
              let avu = pub_a * vu mod sg_n gr;
              let s_shared = sl_modpow L avu (sv_b s) (sg_n gr);
              let s = s\<lparr>sv_key := session_key_of L s_shared\<rparr>;
              want \<leftarrow> calc_m1 L gr username (sv_salt s) pub_a (sv_pub_b s) (sv_key s);
              if \<not> sl_ct_eq L want m1 then Some (False, s)
              else Some (True, s\<lparr>sv_m2 := calc_m2 L pub_a want (sv_key s), sv_verified := True\<rparr>)
            }
          })"

definition srp_server_m2 :: "srp_server \<Rightarrow> bytes option" where
  "srp_server_m2 s = (if sv_verified s then Some (sv_m2 s) else None)"

definition srp_server_key :: "srp_server \<Rightarrow> bytes option" where
  "srp_server_key s = (if sv_verified s then Some (sv_key s) else None)"

end
