(* ===== verification/Utf8.thy ===== *)
theory Utf8
  imports Byte_Codec
begin

text \<open>
  The strings of the source are their UTF-8 bytes. \<open>from_utf8_lossy\<close> is
  \<^verbatim>\<open>String::from_utf8_lossy\<close> of the standard library: valid characters are kept, every maximal
  invalid prefix becomes the replacement character. \<open>utf8_valid\<close> is the invariant of a
  \<^verbatim>\<open>String\<close>.
\<close>

definition byte_at_or_zero :: "bytes \<Rightarrow> nat \<Rightarrow> nat" where
  "byte_at_or_zero b i = (if i < length b then unat (b ! i) else 0)"

definition is_cont :: "nat \<Rightarrow> bool" where
  "is_cont x \<longleftrightarrow> 0x80 \<le> x \<and> x \<le> 0xBF"

text \<open>The second byte a three- or four-byte character may have.\<close>

definition second_ok :: "nat \<Rightarrow> nat \<Rightarrow> bool" where
  "second_ok x y \<longleftrightarrow>
     (if x = 0xE0 then 0xA0 \<le> y \<and> y \<le> 0xBF
      else if x = 0xED then 0x80 \<le> y \<and> y \<le> 0x9F
      else if x = 0xF0 then 0x90 \<le> y \<and> y \<le> 0xBF
      else if x = 0xF4 then 0x80 \<le> y \<and> y \<le> 0x8F
      else is_cont y)"

text \<open>The first character: whether it is valid and how many bytes it takes.\<close>

definition utf8_char :: "bytes \<Rightarrow> bool \<times> nat" where
  "utf8_char b =
     (let x = byte_at_or_zero b 0; y = byte_at_or_zero b 1; z = byte_at_or_zero b 2; w = byte_at_or_zero b 3 in
      if x < 0x80 then (True, 1)
      else if 0xC2 \<le> x \<and> x \<le> 0xDF then (if is_cont y then (True, 2) else (False, 1))
      else if 0xE0 \<le> x \<and> x \<le> 0xEF then
        (if \<not> second_ok x y then (False, 1) else if \<not> is_cont z then (False, 2) else (True, 3))
      else if 0xF0 \<le> x \<and> x \<le> 0xF4 then
        (if \<not> second_ok x y then (False, 1) else if \<not> is_cont z then (False, 2)
         else if \<not> is_cont w then (False, 3) else (True, 4))
      else (False, 1))"

lemma utf8_char_takes: "0 < snd (utf8_char b)"
  by (simp add: utf8_char_def Let_def)

function from_utf8_lossy :: "bytes \<Rightarrow> bytes" where
  "from_utf8_lossy b =
     (if b = [] then []
      else let (ok, n) = utf8_char b
           in (if ok then take n b else [0xEF, 0xBF, 0xBD]) @ from_utf8_lossy (drop n b))"
  by auto
termination
proof (relation "measure length")
  fix b :: bytes and p :: "bool \<times> nat" and ok n
  assume "b \<noteq> []" "p = utf8_char b" "(ok, n) = p"
  then have "0 < n" using utf8_char_takes [of b] by (metis snd_conv)
  then show "(drop n b, b) \<in> measure length" using \<open>b \<noteq> []\<close> by simp
qed simp

function utf8_valid :: "bytes \<Rightarrow> bool" where
  "utf8_valid b =
     (if b = [] then True
      else let (ok, n) = utf8_char b in ok \<and> utf8_valid (drop n b))"
  by auto
termination
proof (relation "measure length")
  fix b :: bytes and p :: "bool \<times> nat" and ok n
  assume "b \<noteq> []" "p = utf8_char b" "(ok, n) = p"
  then have "0 < n" using utf8_char_takes [of b] by (metis snd_conv)
  then show "(drop n b, b) \<in> measure length" using \<open>b \<noteq> []\<close> by simp
qed simp

declare from_utf8_lossy.simps [simp del] utf8_valid.simps [simp del]

lemma from_utf8_lossy_valid: "utf8_valid b \<Longrightarrow> from_utf8_lossy b = b"
proof (induction b rule: utf8_valid.induct)
  case (1 b)
  show ?case
  proof (cases "b = []")
    case False
    obtain ok n where c: "utf8_char b = (ok, n)" by fastforce
    have "ok" "utf8_valid (drop n b)" using "1.prems" False c by (simp_all add: utf8_valid.simps [of b])
    with 1 False c show ?thesis by (simp add: from_utf8_lossy.simps [of b])
  qed (simp add: from_utf8_lossy.simps)
qed

end
