(* ===== verification/Eap_Frame.thy ===== *)
theory Eap_Frame
  imports Srp Utf8
begin

text \<open>
  The EAP-over-EAPOL framing of the Main profile (\<^verbatim>\<open>rist-codec/src/eap.rs\<close>, upper half): the
  message kinds, the frame as one normalized record, its encoder and its parser. Strings are their UTF-8
  bytes.
\<close>

section \<open>Types and constants\<close>

datatype eap_error =
    EapShortBuffer
  | EapBadLength
  | EapUnsupportedType
  | EapUnexpected
  | EapNoVerifier
  | EapSrp srp_error
  | EapAuthFailed
  | EapEmptyCredentials
  | EapCredentialsTooLong
  | EapUnsupportedGroup

definition eapol_type_eap :: u8 where "eapol_type_eap = 0"
definition eapol_type_start :: u8 where "eapol_type_start = 1"
definition eapol_type_logoff :: u8 where "eapol_type_logoff = 2"
definition eap_type_identity :: u8 where "eap_type_identity = 1"
definition eap_type_srp_sha1 :: u8 where "eap_type_srp_sha1 = 19"
definition srp_subtype_challenge :: u8 where "srp_subtype_challenge = 1"
definition srp_subtype_server_key :: u8 where "srp_subtype_server_key = 2"
definition srp_subtype_server_val :: u8 where "srp_subtype_server_val = 3"
definition srp_subtype_password :: u8 where "srp_subtype_password = 0x10"
definition pp_flag_use_key :: u8 where "pp_flag_use_key = 0x80"
definition pp_flag_aes256 :: u8 where "pp_flag_aes256 = 0x40"
definition eap_version_3 :: u8 where "eap_version_3 = 3"
definition eapol_hdr_size :: nat where "eapol_hdr_size = 4"
definition eap_hdr_size :: nat where "eap_hdr_size = 4"
definition srp_hdr_size :: nat where "srp_hdr_size = 2"
definition validator_flags_len :: nat where "validator_flags_len = 4"

lemmas eap_consts = eapol_type_eap_def eapol_type_start_def eapol_type_logoff_def eap_type_identity_def
  eap_type_srp_sha1_def srp_subtype_challenge_def srp_subtype_server_key_def srp_subtype_server_val_def
  srp_subtype_password_def pp_flag_use_key_def pp_flag_aes256_def eap_version_3_def eapol_hdr_size_def
  eap_hdr_size_def srp_hdr_size_def validator_flags_len_def hash_len_def

datatype eap_code = Code_Request | Code_Response | Code_Success | Code_Failure

fun code_to_u8 :: "eap_code \<Rightarrow> u8" where
  "code_to_u8 Code_Request = 1"
| "code_to_u8 Code_Response = 2"
| "code_to_u8 Code_Success = 3"
| "code_to_u8 Code_Failure = 4"

definition code_from_u8 :: "u8 \<Rightarrow> eap_code option" where
  "code_from_u8 b =
     (if b = 1 then Some Code_Request else if b = 2 then Some Code_Response
      else if b = 3 then Some Code_Success else if b = 4 then Some Code_Failure else None)"

datatype eap_kind =
    Kind_Unknown
  | Kind_Start
  | Kind_Logoff
  | Kind_Identity_Request
  | Kind_Identity_Response
  | Kind_Challenge
  | Kind_Client_Key
  | Kind_Server_Key
  | Kind_Client_Validator
  | Kind_Server_Validator
  | Kind_Passphrase_Request
  | Kind_Passphrase_Response
  | Kind_Success
  | Kind_Failure

record eap_frame =
  ef_version :: u8
  ef_code :: eap_code
  ef_identifier :: u8
  ef_kind :: eap_kind
  ef_username :: bytes
  ef_salt :: bytes
  ef_gen_g :: bytes
  ef_gen_n :: bytes
  ef_public :: bytes
  ef_proof :: bytes
  ef_flags :: bytes
  ef_pp_use_key :: bool
  ef_passphrase :: bytes

definition eap_frame_default :: eap_frame where
  "eap_frame_default = \<lparr>ef_version = 0, ef_code = Code_Request, ef_identifier = 0, ef_kind = Kind_Unknown,
     ef_username = [], ef_salt = [], ef_gen_g = [], ef_gen_n = [], ef_public = [], ef_proof = [],
     ef_flags = [0, 0, 0, 0], ef_pp_use_key = False, ef_passphrase = []\<rparr>"

definition start_frame :: eap_frame where
  "start_frame = eap_frame_default\<lparr>ef_version := eap_version_3, ef_kind := Kind_Start\<rparr>"

section \<open>Encoding\<close>

definition encode_body :: "eap_frame \<Rightarrow> bytes" where
  "encode_body f =
     (case ef_kind f of
        Kind_Identity_Request \<Rightarrow> [eap_type_identity]
      | Kind_Identity_Response \<Rightarrow> [eap_type_identity] @ ef_username f
      | Kind_Challenge \<Rightarrow>
          [eap_type_srp_sha1, srp_subtype_challenge] @ be16 0 @ be16 (of_nat (length (ef_salt f))) @ ef_salt f
          @ (if ef_gen_g f = [] then be16 0
             else be16 (of_nat (length (ef_gen_g f))) @ ef_gen_g f @ ef_gen_n f)
      | Kind_Client_Key \<Rightarrow> [eap_type_srp_sha1, srp_subtype_challenge] @ ef_public f
      | Kind_Server_Key \<Rightarrow> [eap_type_srp_sha1, srp_subtype_server_key] @ ef_public f
      | Kind_Client_Validator \<Rightarrow> [eap_type_srp_sha1, srp_subtype_server_key] @ ef_flags f @ ef_proof f
      | Kind_Server_Validator \<Rightarrow> [eap_type_srp_sha1, srp_subtype_server_val] @ ef_flags f @ ef_proof f
      | Kind_Passphrase_Request \<Rightarrow> [eap_type_srp_sha1, srp_subtype_password]
      | Kind_Passphrase_Response \<Rightarrow>
          [eap_type_srp_sha1, srp_subtype_password]
          @ (if ef_pp_use_key f then [pp_flag_use_key] else [pp_flag_aes256] @ ef_passphrase f)
      | Kind_Success \<Rightarrow> [0, 0]
      | Kind_Failure \<Rightarrow> []
      | Kind_Unknown \<Rightarrow> []
      | Kind_Start \<Rightarrow> []
      | Kind_Logoff \<Rightarrow> [])"

definition eap_encode :: "eap_frame \<Rightarrow> bytes" where
  "eap_encode f =
     (let version = (if ef_version f = 0 then eap_version_3 else ef_version f) in
      if ef_kind f = Kind_Start \<or> ef_kind f = Kind_Logoff
      then [version, if ef_kind f = Kind_Logoff then eapol_type_logoff else eapol_type_start, 0, 0]
      else let body = encode_body f; eap_len = of_nat (eap_hdr_size + length body)
           in [version, eapol_type_eap] @ be16 eap_len @ [code_to_u8 (ef_code f), ef_identifier f] @ be16 eap_len @ body)"

definition eap_marshal_size :: "eap_frame \<Rightarrow> nat" where
  "eap_marshal_size f =
     (if ef_kind f = Kind_Start \<or> ef_kind f = Kind_Logoff then eapol_hdr_size
      else eapol_hdr_size + eap_hdr_size + length (encode_body f))"

section \<open>Parsing\<close>

text \<open>\<^verbatim>\<open>read_u16\<close>, with the advanced offset as a second result.\<close>

definition read_u16 :: "bytes \<Rightarrow> nat \<Rightarrow> (eap_error, nat \<times> nat) result" where
  "read_u16 b off =
     (if length b < off + 2 then res_err EapShortBuffer
      else res_bind (res_lift (get_be16 b off)) (\<lambda>v. res_ok (unat v, off + 2)))"

definition parse_challenge :: "eap_frame \<Rightarrow> bytes \<Rightarrow> (eap_error, eap_frame) result" where
  "parse_challenge f p =
     res_bind (read_u16 p 0) (\<lambda>(name_len, off).
       if length p - off < name_len then res_err EapBadLength
       else res_bind (read_u16 p (off + name_len)) (\<lambda>(salt_len, off).
         if length p - off < salt_len then res_err EapBadLength
         else res_bind (res_lift (vec_slice p off (off + salt_len))) (\<lambda>salt.
           res_bind (read_u16 p (off + salt_len)) (\<lambda>(gen_len, off).
             let f = f\<lparr>ef_kind := Kind_Challenge, ef_salt := salt\<rparr> in
             if gen_len \<noteq> 0 then
               if length p - off < gen_len then res_err EapBadLength
               else res_bind (res_lift (vec_slice p off (off + gen_len))) (\<lambda>g.
                 res_bind (res_lift (vec_slice p (off + gen_len) (length p))) (\<lambda>n.
                   res_ok (f\<lparr>ef_gen_g := g, ef_gen_n := n\<rparr>)))
             else res_ok f))))"

definition parse_validator :: "eap_frame \<Rightarrow> eap_kind \<Rightarrow> bytes \<Rightarrow> (eap_error, eap_frame) result" where
  "parse_validator f kind p =
     (if length p < validator_flags_len + hash_len then res_err EapShortBuffer
      else res_bind (res_lift (vec_slice p 0 validator_flags_len)) (\<lambda>flags.
        res_bind (res_lift (vec_slice p validator_flags_len (validator_flags_len + hash_len))) (\<lambda>proof.
          res_ok (f\<lparr>ef_kind := kind, ef_flags := flags, ef_proof := proof\<rparr>))))"

definition parse_srp :: "eap_frame \<Rightarrow> eap_code \<Rightarrow> u8 \<Rightarrow> bytes \<Rightarrow> (eap_error, eap_frame) result" where
  "parse_srp f code subtype payload =
     (if subtype = srp_subtype_challenge \<and> code = Code_Request then parse_challenge f payload
      else if subtype = srp_subtype_challenge \<and> code = Code_Response
      then res_ok (f\<lparr>ef_kind := Kind_Client_Key, ef_public := payload\<rparr>)
      else if subtype = srp_subtype_server_key \<and> code = Code_Request
      then res_ok (f\<lparr>ef_kind := Kind_Server_Key, ef_public := payload\<rparr>)
      else if subtype = srp_subtype_server_key \<and> code = Code_Response
      then parse_validator f Kind_Client_Validator payload
      else if subtype = srp_subtype_server_val then
        (if code = Code_Response \<and> length payload < validator_flags_len + hash_len
         then res_ok (f\<lparr>ef_kind := Kind_Server_Validator\<rparr>)
         else parse_validator f Kind_Server_Validator payload)
      else if subtype = srp_subtype_password \<and> code = Code_Request
      then res_ok (f\<lparr>ef_kind := Kind_Passphrase_Request\<rparr>)
      else if subtype = srp_subtype_password \<and> code = Code_Response
      then let f = f\<lparr>ef_kind := Kind_Passphrase_Response\<rparr> in
           (case payload of
              [] \<Rightarrow> res_ok f
            | flags # rest \<Rightarrow>
                let f = f\<lparr>ef_pp_use_key := (flags AND pp_flag_use_key \<noteq> 0)\<rparr>
                in res_ok (if \<not> ef_pp_use_key f then f\<lparr>ef_passphrase := rest\<rparr> else f))
      else res_err EapUnsupportedType)"

definition parse_method :: "eap_frame \<Rightarrow> eap_code \<Rightarrow> bytes \<Rightarrow> (eap_error, eap_frame) result" where
  "parse_method f code body =
     (case body of
        [] \<Rightarrow> res_err EapShortBuffer
      | m_type # rest \<Rightarrow>
          if m_type = eap_type_identity then
            (if code = Code_Request then res_ok (f\<lparr>ef_kind := Kind_Identity_Request\<rparr>)
             else res_ok (f\<lparr>ef_kind := Kind_Identity_Response, ef_username := from_utf8_lossy rest\<rparr>))
          else if m_type = eap_type_srp_sha1 then
            (if length body < srp_hdr_size then res_err EapShortBuffer
             else res_bind (res_lift (vec_get body 1)) (\<lambda>subtype.
               res_bind (res_lift (vec_slice body srp_hdr_size (length body))) (\<lambda>payload.
                 parse_srp f code subtype payload)))
          else res_err EapUnsupportedType)"

definition parse_eap :: "u8 \<Rightarrow> bytes \<Rightarrow> (eap_error, eap_frame) result" where
  "parse_eap version pkt =
     (if length pkt < eap_hdr_size then res_err EapShortBuffer
      else res_bind (res_lift (vec_get pkt 0)) (\<lambda>code_byte.
        res_bind (res_lift (vec_get pkt 1)) (\<lambda>identifier.
          res_bind (res_lift (get_be16 pkt 2)) (\<lambda>len.
            if unat len \<noteq> length pkt then res_err EapBadLength
            else res_bind (res_lift (vec_slice pkt eap_hdr_size (length pkt))) (\<lambda>body.
              case code_from_u8 code_byte of
                None \<Rightarrow> res_err EapUnsupportedType
              | Some code \<Rightarrow>
                  let f = eap_frame_default\<lparr>ef_version := version, ef_code := code, ef_identifier := identifier\<rparr> in
                  (case code of
                     Code_Success \<Rightarrow> res_ok (f\<lparr>ef_kind := Kind_Success\<rparr>)
                   | Code_Failure \<Rightarrow> res_ok (f\<lparr>ef_kind := Kind_Failure\<rparr>)
                   | _ \<Rightarrow> parse_method f code body))))))"

definition eap_parse :: "bytes \<Rightarrow> (eap_error, eap_frame) result" where
  "eap_parse b =
     (if length b < eapol_hdr_size then res_err EapShortBuffer
      else res_bind (res_lift (vec_get b 0)) (\<lambda>version.
        res_bind (res_lift (vec_get b 1)) (\<lambda>eapol_type.
          res_bind (res_lift (get_be16 b 2)) (\<lambda>len.
            let body_len = unat len in
            if length b < body_len + eapol_hdr_size then res_err EapBadLength
            else if eapol_type = eapol_type_start
            then res_ok (eap_frame_default\<lparr>ef_version := version, ef_kind := Kind_Start\<rparr>)
            else if eapol_type = eapol_type_logoff
            then res_ok (eap_frame_default\<lparr>ef_version := version, ef_kind := Kind_Logoff\<rparr>)
            else if eapol_type = eapol_type_eap
            then res_bind (res_lift (vec_slice b eapol_hdr_size (eapol_hdr_size + body_len))) (\<lambda>pkt. parse_eap version pkt)
            else res_err EapUnsupportedType))))"

section \<open>Totality\<close>

lemma read_u16_returns: "returns (read_u16 b off)"
  by (auto simp: read_u16_def returns_reads intro!: returns_bind)

lemma read_u16_bound: "read_u16 b off = res_ok (v, off') \<Longrightarrow> off' = off + 2 \<and> off' \<le> length b"
  by (auto simp: read_u16_def res_bind_eq_ok split: if_splits)

lemma parse_challenge_returns: "returns (parse_challenge f p)"
  unfolding parse_challenge_def
  by (auto simp: returns_reads Let_def intro!: returns_bind read_u16_returns dest!: read_u16_bound)
    linarith+

lemma parse_validator_returns: "returns (parse_validator f kind p)"
  by (auto simp: parse_validator_def returns_reads intro!: returns_bind)

lemma parse_srp_returns: "returns (parse_srp f code subtype payload)"
  using parse_challenge_returns parse_validator_returns
  by (simp add: parse_srp_def Let_def split: list.split)

lemma parse_method_returns: "returns (parse_method f code body)"
  by (auto simp: parse_method_def srp_hdr_size_def returns_reads Suc_le_eq split: list.split
      intro!: returns_bind parse_srp_returns)

lemma parse_eap_returns: "returns (parse_eap version pkt)"
  unfolding parse_eap_def eap_hdr_size_def Let_def
  by (auto simp: returns_reads parse_method_returns split: option.split eap_code.split intro!: returns_bind)

lemma eap_parse_returns: "returns (eap_parse b)"
  unfolding eap_parse_def eapol_hdr_size_def Let_def
  by (auto simp: returns_reads intro!: returns_bind parse_eap_returns)

end
