(* ===== verification/Eap_Auth.thy ===== *)
theory Eap_Auth
  imports Eap_Frame
begin

text \<open>
  The two EAP-SRP roles (\<^verbatim>\<open>rist-codec/src/eap.rs\<close>, lower half): the authenticatee (client) and the
  authenticator (server), state machines fed with received EAPOL payloads. Every handler returns the reply
  and the new state, inside an option for the panics of the SRP engine; a handler that builds an SRP side
  takes the random draws \<open>fill\<close> it consumes.
\<close>

section \<open>Replies and states\<close>

definition challenge_group :: "eap_frame \<Rightarrow> eap_error + srp_group" where
  "challenge_group f = (if ef_gen_g f = [] then Inr default_group else Inl EapUnsupportedGroup)"

definition negotiated_version :: "eap_frame \<Rightarrow> u8" where
  "negotiated_version req = (if ef_version req = 2 then 2 else eap_version_3)"

definition passphrase_push :: "u8 \<Rightarrow> eap_frame" where
  "passphrase_push identifier = eap_frame_default\<lparr>ef_version := eap_version_3, ef_code := Code_Response,
     ef_identifier := identifier, ef_kind := Kind_Passphrase_Response, ef_pp_use_key := True\<rparr>"

definition success_ack :: "u8 \<Rightarrow> eap_frame" where
  "success_ack identifier = eap_frame_default\<lparr>ef_version := eap_version_3, ef_code := Code_Success,
     ef_identifier := identifier, ef_kind := Kind_Success\<rparr>"

datatype eap_state = Unauth | In_Progress | Authed | Auth_Failed

record eap_reply =
  rp_frame :: "eap_frame option"
  rp_error :: "eap_error option"

definition reply_none :: eap_reply where
  "reply_none = \<lparr>rp_frame = None, rp_error = None\<rparr>"

definition reply_frame :: "eap_frame \<Rightarrow> eap_reply" where
  "reply_frame f = \<lparr>rp_frame = Some f, rp_error = None\<rparr>"

definition reply_err :: "eap_error \<Rightarrow> eap_reply" where
  "reply_err e = \<lparr>rp_frame = None, rp_error = Some e\<rparr>"

definition reply_frame_err :: "eap_frame \<Rightarrow> eap_error \<Rightarrow> eap_reply" where
  "reply_frame_err f e = \<lparr>rp_frame = Some f, rp_error = Some e\<rparr>"

lemmas reply_defs = reply_none_def reply_frame_def reply_err_def reply_frame_err_def

definition static_verifier :: "bytes \<Rightarrow> bytes \<Rightarrow> bytes \<Rightarrow> bytes \<Rightarrow> (bytes \<times> bytes) option" where
  "static_verifier user verifier salt u = (if u = user then Some (verifier, salt) else None)"

section \<open>The authenticatee\<close>

record authenticatee =
  ae_username :: bytes
  ae_password :: bytes
  ae_state :: eap_state
  ae_id :: u8
  ae_id_valid :: bool
  ae_client :: "srp_client option"
  ae_salt :: bytes
  ae_session :: "bytes option"
  ae_use_key_passphrase :: bool
  ae_last_rx :: "bytes option"
  ae_last_reply :: "eap_frame option"

definition authenticatee_new :: "bytes \<Rightarrow> bytes \<Rightarrow> eap_error + authenticatee" where
  "authenticatee_new username password =
     (if username = [] \<or> password = [] then Inl EapEmptyCredentials
      else if 255 < length username \<or> 255 < length password then Inl EapCredentialsTooLong
      else Inr \<lparr>ae_username = username, ae_password = password, ae_state = Unauth, ae_id = 0, ae_id_valid = False,
        ae_client = None, ae_salt = [], ae_session = None, ae_use_key_passphrase = True, ae_last_rx = None,
        ae_last_reply = None\<rparr>)"

definition ae_set_use_key_passphrase :: "bool \<Rightarrow> authenticatee \<Rightarrow> authenticatee" where
  "ae_set_use_key_passphrase use_key st = st\<lparr>ae_use_key_passphrase := use_key\<rparr>"

definition ae_done :: "authenticatee \<Rightarrow> bool" where
  "ae_done st \<longleftrightarrow> ae_state st = Authed \<or> ae_state st = Auth_Failed"

definition ae_authenticated :: "authenticatee \<Rightarrow> bool" where
  "ae_authenticated st \<longleftrightarrow> ae_state st = Authed"

definition ae_start :: "authenticatee \<Rightarrow> eap_frame \<times> authenticatee" where
  "ae_start st = (start_frame, if ae_state st = Unauth then st\<lparr>ae_state := In_Progress\<rparr> else st)"

definition ae_restart :: "authenticatee \<Rightarrow> authenticatee" where
  "ae_restart st = st\<lparr>ae_state := Unauth, ae_id := 0, ae_id_valid := False, ae_client := None, ae_salt := [],
     ae_session := None, ae_last_rx := None, ae_last_reply := None\<rparr>"

definition ae_fail :: "eap_error \<Rightarrow> authenticatee \<Rightarrow> (eap_reply \<times> authenticatee) option" where
  "ae_fail e st = Some (reply_err e, st\<lparr>ae_state := Auth_Failed\<rparr>)"

text \<open>The arms of \<^verbatim>\<open>handle\<close> that drive the SRP exchange.\<close>

definition ae_identity_request :: "authenticatee \<Rightarrow> eap_frame \<Rightarrow> (eap_reply \<times> authenticatee) option" where
  "ae_identity_request st f =
     (let st = st\<lparr>ae_id := ef_identifier f, ae_id_valid := True\<rparr>;
          st = (if ae_state st = Unauth then st\<lparr>ae_state := In_Progress\<rparr> else st)
      in Some (reply_frame (eap_frame_default\<lparr>ef_version := negotiated_version f, ef_code := Code_Response,
           ef_identifier := ef_identifier f, ef_kind := Kind_Identity_Response, ef_username := ae_username st\<rparr>), st))"

definition ae_challenge ::
    "srp_lib \<Rightarrow> (nat \<Rightarrow> bytes option) \<Rightarrow> authenticatee \<Rightarrow> eap_frame \<Rightarrow> (eap_reply \<times> authenticatee) option" where
  "ae_challenge L fill st f =
     (case challenge_group f of
        Inl e \<Rightarrow> ae_fail e st
      | Inr _ \<Rightarrow>
          if ef_salt f = [] then ae_fail EapBadLength st
          else (case srp_client_new L fill default_group (ef_salt f) (negotiated_version f = 2) of
              None \<Rightarrow> None
            | Some (Inl e) \<Rightarrow> ae_fail (EapSrp e) st
            | Some (Inr client) \<Rightarrow> do {
                a \<leftarrow> srp_client_a L client;
                Some (reply_frame (eap_frame_default\<lparr>ef_version := negotiated_version f, ef_code := Code_Response,
                    ef_identifier := ef_identifier f, ef_kind := Kind_Client_Key, ef_public := a\<rparr>),
                  st\<lparr>ae_id := ef_identifier f, ae_id_valid := True, ae_client := Some client,
                    ae_salt := ef_salt f, ae_state := In_Progress\<rparr>)
              }))"

definition ae_server_key :: "srp_lib \<Rightarrow> authenticatee \<Rightarrow> eap_frame \<Rightarrow> (eap_reply \<times> authenticatee) option" where
  "ae_server_key L st f =
     (case ae_client st of
        None \<Rightarrow> ae_fail EapUnexpected st
      | Some client \<Rightarrow>
          let st = st\<lparr>ae_id := ef_identifier f, ae_id_valid := True\<rparr> in
          (case compute_key L client (ef_public f) (ae_username st) (ae_password st) of
             None \<Rightarrow> None
           | Some (Inl e) \<Rightarrow> ae_fail (EapSrp e) st
           | Some (Inr client) \<Rightarrow>
               let m1 = (case srp_client_m1 client of Some m1 \<Rightarrow> m1 | None \<Rightarrow> replicate hash_len 0)
               in Some (reply_frame (eap_frame_default\<lparr>ef_version := negotiated_version f, ef_code := Code_Response,
                    ef_identifier := ef_identifier f, ef_kind := Kind_Client_Validator, ef_proof := m1\<rparr>),
                    st\<lparr>ae_client := Some client\<rparr>)))"

definition ae_server_validator ::
    "srp_lib \<Rightarrow> authenticatee \<Rightarrow> eap_frame \<Rightarrow> (eap_reply \<times> authenticatee) option" where
  "ae_server_validator L st f =
     (case ae_client st of
        None \<Rightarrow> ae_fail EapAuthFailed st
      | Some client \<Rightarrow>
          if ef_proof f = [] then ae_fail EapAuthFailed st
          else let st = st\<lparr>ae_id := ef_identifier f, ae_id_valid := True\<rparr> in
            if \<not> verify_m2 L client (ef_proof f) then ae_fail EapAuthFailed st
            else Some (reply_frame (eap_frame_default\<lparr>ef_version := negotiated_version f, ef_code := Code_Success,
                ef_identifier := ef_identifier f, ef_kind := Kind_Success\<rparr>),
              st\<lparr>ae_session := srp_client_key client, ae_state := Authed\<rparr>))"

definition ae_dispatch ::
    "srp_lib \<Rightarrow> (nat \<Rightarrow> bytes option) \<Rightarrow> authenticatee \<Rightarrow> eap_frame \<Rightarrow> (eap_reply \<times> authenticatee) option" where
  "ae_dispatch L fill st f =
     (case ef_kind f of
        Kind_Identity_Request \<Rightarrow> ae_identity_request st f
      | Kind_Challenge \<Rightarrow> ae_challenge L fill st f
      | Kind_Server_Key \<Rightarrow> ae_server_key L st f
      | Kind_Server_Validator \<Rightarrow> ae_server_validator L st f
      | Kind_Passphrase_Request \<Rightarrow>
          Some (if ae_use_key_passphrase st then reply_frame (passphrase_push (ef_identifier f)) else reply_none, st)
      | Kind_Passphrase_Response \<Rightarrow> Some (reply_frame (success_ack (ef_identifier f)), st)
      | Kind_Success \<Rightarrow> Some (reply_none, st)
      | _ \<Rightarrow> Some (reply_err EapUnexpected, st))"

text \<open>The requests by which a server drives the exchange.\<close>

definition server_driven :: "eap_kind \<Rightarrow> bool" where
  "server_driven k \<longleftrightarrow> k = Kind_Challenge \<or> k = Kind_Server_Key \<or> k = Kind_Server_Validator"

definition ae_handle ::
    "srp_lib \<Rightarrow> (nat \<Rightarrow> bytes option) \<Rightarrow> authenticatee \<Rightarrow> eap_frame \<Rightarrow> (eap_reply \<times> authenticatee) option" where
  "ae_handle L fill st f =
     (if ef_kind f = Kind_Failure then
        if ae_state st \<noteq> In_Progress \<or> ef_identifier f \<noteq> ae_id st then Some (reply_none, st)
        else ae_fail EapAuthFailed st
      else if ae_state st = Authed \<and> server_driven (ef_kind f) then Some (reply_none, st)
      else
        let st = (if ae_state st = Authed \<and> ef_kind f = Kind_Identity_Request then ae_restart st else st) in
        if ae_id_valid st \<and> server_driven (ef_kind f) \<and> ef_identifier f \<noteq> ae_id st \<and> ef_identifier f \<noteq> ae_id st + 1
        then Some (reply_none, st)
        else ae_dispatch L fill st f)"

definition ae_recv ::
    "srp_lib \<Rightarrow> (nat \<Rightarrow> bytes option) \<Rightarrow> authenticatee \<Rightarrow> bytes \<Rightarrow> (eap_reply \<times> authenticatee) option" where
  "ae_recv L fill st payload =
     (if payload \<noteq> [] \<and> ae_last_rx st = Some payload
      then Some (case ae_last_reply st of Some f \<Rightarrow> reply_frame f | None \<Rightarrow> reply_none, st)
      else case eap_parse payload of
        None \<Rightarrow> None
      | Some (Inl e) \<Rightarrow> Some (reply_err e, st)
      | Some (Inr f) \<Rightarrow> do {
          (reply, st) \<leftarrow> ae_handle L fill st f;
          Some (reply, if rp_error reply = None
            then st\<lparr>ae_last_rx := Some payload, ae_last_reply := rp_frame reply\<rparr> else st)
        })"

section \<open>The authenticator\<close>

record authenticator =
  ar_lookup :: "bytes \<Rightarrow> (bytes \<times> bytes) option"
  ar_state :: eap_state
  ar_id :: u8
  ar_server :: "srp_server option"
  ar_username :: bytes
  ar_session :: "bytes option"
  ar_verified :: bool
  ar_use_key_passphrase :: bool
  ar_ever_authed :: bool
  ar_legacy :: bool
  ar_last_rx :: "bytes option"
  ar_last_reply :: "eap_frame option"

definition authenticator_with_mode :: "(bytes \<Rightarrow> (bytes \<times> bytes) option) \<Rightarrow> bool \<Rightarrow> authenticator" where
  "authenticator_with_mode lookup legacy = \<lparr>ar_lookup = lookup, ar_state = Unauth, ar_id = 0, ar_server = None,
     ar_username = [], ar_session = None, ar_verified = False, ar_use_key_passphrase = True,
     ar_ever_authed = False, ar_legacy = legacy, ar_last_rx = None, ar_last_reply = None\<rparr>"

definition ar_version :: "authenticator \<Rightarrow> u8" where
  "ar_version st = (if ar_legacy st then 2 else eap_version_3)"

definition ar_restart :: "authenticator \<Rightarrow> authenticator" where
  "ar_restart st = st\<lparr>ar_state := Unauth, ar_server := None, ar_session := None, ar_verified := False,
     ar_id := ar_id st + 1, ar_last_rx := None, ar_last_reply := None\<rparr>"

definition ar_set_use_key_passphrase :: "bool \<Rightarrow> authenticator \<Rightarrow> authenticator" where
  "ar_set_use_key_passphrase use_key st = st\<lparr>ar_use_key_passphrase := use_key\<rparr>"

definition seed_identifier :: "u8 \<Rightarrow> authenticator \<Rightarrow> authenticator" where
  "seed_identifier n st = (if ar_state st = Unauth then st\<lparr>ar_id := n\<rparr> else st)"

definition ar_done :: "authenticator \<Rightarrow> bool" where
  "ar_done st \<longleftrightarrow> ar_state st = Authed \<or> ar_state st = Auth_Failed"

definition ar_authenticated :: "authenticator \<Rightarrow> bool" where
  "ar_authenticated st \<longleftrightarrow> ar_state st = Authed"

definition ar_start :: "authenticator \<Rightarrow> eap_frame \<times> authenticator" where
  "ar_start st =
     (eap_frame_default\<lparr>ef_version := ar_version st, ef_code := Code_Request, ef_identifier := ar_id st,
        ef_kind := Kind_Identity_Request\<rparr>,
      if ar_state st = Unauth then st\<lparr>ar_state := In_Progress\<rparr> else st)"

definition ar_fail :: "eap_error \<Rightarrow> authenticator \<Rightarrow> (eap_reply \<times> authenticator) option" where
  "ar_fail e st = Some (reply_err e, st\<lparr>ar_state := Auth_Failed\<rparr>)"

definition ar_handle_start :: "authenticator \<Rightarrow> (eap_reply \<times> authenticator) option" where
  "ar_handle_start st =
     (if ar_state st = In_Progress then Some (reply_none, st)
      else let st = (if ar_state st \<noteq> Unauth then ar_restart st else st); (f, st) = ar_start st
           in Some (reply_frame f, st))"

definition ar_logoff :: "authenticator \<Rightarrow> (eap_reply \<times> authenticator) option" where
  "ar_logoff st =
     (if ar_state st = Authed \<or> ar_state st = Auth_Failed \<or> ar_ever_authed st then Some (reply_none, st)
      else Some (reply_none, st\<lparr>ar_state := Unauth, ar_server := None, ar_session := None, ar_verified := False\<rparr>))"

definition ar_identity_response ::
    "srp_lib \<Rightarrow> (nat \<Rightarrow> bytes option) \<Rightarrow> authenticator \<Rightarrow> eap_frame \<Rightarrow> (eap_reply \<times> authenticator) option" where
  "ar_identity_response L fill st f =
     (case ar_lookup st (ef_username f) of
        None \<Rightarrow> ar_fail EapNoVerifier st
      | Some (verifier, salt) \<Rightarrow>
          (case srp_server_new L fill default_group verifier salt (ar_legacy st) of
             None \<Rightarrow> None
           | Some (Inl e) \<Rightarrow> ar_fail (EapSrp e) st
           | Some (Inr server) \<Rightarrow>
               let st = st\<lparr>ar_server := Some server, ar_username := ef_username f, ar_state := In_Progress,
                          ar_id := ar_id st + 1\<rparr>
               in Some (reply_frame (eap_frame_default\<lparr>ef_version := ar_version st, ef_code := Code_Request,
                    ef_identifier := ar_id st, ef_kind := Kind_Challenge, ef_salt := salt\<rparr>), st)))"

definition ar_client_key :: "srp_lib \<Rightarrow> authenticator \<Rightarrow> eap_frame \<Rightarrow> (eap_reply \<times> authenticator) option" where
  "ar_client_key L st f =
     (case ar_server st of
        None \<Rightarrow> ar_fail EapUnexpected st
      | Some server \<Rightarrow>
          (case handle_a L server (ef_public f) of
             None \<Rightarrow> None
           | Some (Inl e) \<Rightarrow> ar_fail (EapSrp e) st
           | Some (Inr server) \<Rightarrow> do {
               b \<leftarrow> srp_server_b L server;
               let st = st\<lparr>ar_server := Some server, ar_id := ar_id st + 1\<rparr>;
               Some (reply_frame (eap_frame_default\<lparr>ef_version := ar_version st, ef_code := Code_Request,
                 ef_identifier := ar_id st, ef_kind := Kind_Server_Key, ef_public := b\<rparr>), st)
             }))"

definition ar_client_validator :: "srp_lib \<Rightarrow> authenticator \<Rightarrow> eap_frame \<Rightarrow> (eap_reply \<times> authenticator) option" where
  "ar_client_validator L st f =
     (case ar_server st of
        None \<Rightarrow> ar_fail EapUnexpected st
      | Some server \<Rightarrow> do {
          (ok, server) \<leftarrow> verify_m1 L server (ar_username st) (ef_proof f);
          let st = st\<lparr>ar_server := Some server\<rparr>;
          if \<not> ok then
            Some (reply_frame_err (eap_frame_default\<lparr>ef_version := ar_version st, ef_code := Code_Failure,
                ef_identifier := ar_id st, ef_kind := Kind_Failure\<rparr>) EapAuthFailed,
              st\<lparr>ar_state := Auth_Failed\<rparr>)
          else do {
            let st = st\<lparr>ar_session := srp_server_key server, ar_verified := True, ar_id := ar_id st + 1\<rparr>;
            let m2 = (case srp_server_m2 server of Some m2 \<Rightarrow> m2 | None \<Rightarrow> replicate hash_len 0);
            Some (reply_frame (eap_frame_default\<lparr>ef_version := ar_version st, ef_code := Code_Request,
              ef_identifier := ar_id st, ef_kind := Kind_Server_Validator, ef_proof := m2\<rparr>), st)
          }
        })"

definition ar_acknowledged :: "authenticator \<Rightarrow> (eap_reply \<times> authenticator) option" where
  "ar_acknowledged st =
     Some (reply_none, if ar_verified st
       then st\<lparr>ar_state := Authed, ar_ever_authed := True, ar_id := ar_id st + 1\<rparr> else st)"

definition ar_dispatch ::
    "srp_lib \<Rightarrow> (nat \<Rightarrow> bytes option) \<Rightarrow> authenticator \<Rightarrow> eap_frame \<Rightarrow> (eap_reply \<times> authenticator) option" where
  "ar_dispatch L fill st f =
     (case ef_kind f of
        Kind_Start \<Rightarrow> ar_handle_start st
      | Kind_Logoff \<Rightarrow> ar_logoff st
      | Kind_Identity_Response \<Rightarrow> ar_identity_response L fill st f
      | Kind_Client_Key \<Rightarrow> ar_client_key L st f
      | Kind_Client_Validator \<Rightarrow> ar_client_validator L st f
      | Kind_Server_Validator \<Rightarrow> ar_acknowledged st
      | Kind_Success \<Rightarrow> ar_acknowledged st
      | Kind_Passphrase_Request \<Rightarrow>
          Some (if ar_use_key_passphrase st then reply_frame (passphrase_push (ef_identifier f)) else reply_none, st)
      | Kind_Passphrase_Response \<Rightarrow> Some (reply_frame (success_ack (ef_identifier f)), st)
      | Kind_Failure \<Rightarrow>
          if ar_state st \<noteq> In_Progress then Some (reply_none, st) else ar_fail EapAuthFailed st
      | _ \<Rightarrow> Some (reply_err EapUnexpected, st))"

text \<open>The kinds whose identifier is not checked.\<close>

definition id_exempt :: "eap_kind \<Rightarrow> bool" where
  "id_exempt k \<longleftrightarrow> k = Kind_Start \<or> k = Kind_Logoff \<or> k = Kind_Passphrase_Request \<or> k = Kind_Passphrase_Response"

definition ar_handle ::
    "srp_lib \<Rightarrow> (nat \<Rightarrow> bytes option) \<Rightarrow> authenticator \<Rightarrow> eap_frame \<Rightarrow> (eap_reply \<times> authenticator) option" where
  "ar_handle L fill st f =
     (if ar_state st \<noteq> Unauth \<and> \<not> id_exempt (ef_kind f) \<and> ef_identifier f \<noteq> ar_id st
      then Some (reply_none, st) else ar_dispatch L fill st f)"

definition ar_recv ::
    "srp_lib \<Rightarrow> (nat \<Rightarrow> bytes option) \<Rightarrow> authenticator \<Rightarrow> bytes \<Rightarrow> (eap_reply \<times> authenticator) option" where
  "ar_recv L fill st payload =
     (if payload \<noteq> [] \<and> ar_last_rx st = Some payload
      then Some (case ar_last_reply st of Some f \<Rightarrow> reply_frame f | None \<Rightarrow> reply_none, st)
      else case eap_parse payload of
        None \<Rightarrow> None
      | Some (Inl e) \<Rightarrow> Some (reply_err e, st)
      | Some (Inr f) \<Rightarrow> do {
          (reply, st) \<leftarrow> ar_handle L fill st f;
          Some (reply, if rp_error reply = None
            then st\<lparr>ar_last_rx := Some payload, ar_last_reply := rp_frame reply\<rparr> else st)
        })"

end
