(* ===== verification/Eap_Wire.thy ===== *)
theory Eap_Wire
  imports Eap_Frame
begin

text \<open>The EAP framing: parsing inverts encoding on every frame a role can send.\<close>

section \<open>Frames that survive the wire\<close>

text \<open>The parser leaves the fields a message does not carry at their defaults.\<close>

definition eap_fields :: "eap_frame \<Rightarrow> eap_frame" where
  "eap_fields f =
     (let g = eap_frame_default\<lparr>ef_version := ef_version f, ef_code := ef_code f, ef_identifier := ef_identifier f,
                ef_kind := ef_kind f\<rparr> in
      case ef_kind f of
        Kind_Identity_Response \<Rightarrow> g\<lparr>ef_username := ef_username f\<rparr>
      | Kind_Challenge \<Rightarrow> g\<lparr>ef_salt := ef_salt f, ef_gen_g := ef_gen_g f, ef_gen_n := ef_gen_n f\<rparr>
      | Kind_Client_Key \<Rightarrow> g\<lparr>ef_public := ef_public f\<rparr>
      | Kind_Server_Key \<Rightarrow> g\<lparr>ef_public := ef_public f\<rparr>
      | Kind_Client_Validator \<Rightarrow> g\<lparr>ef_flags := ef_flags f, ef_proof := ef_proof f\<rparr>
      | Kind_Server_Validator \<Rightarrow> g\<lparr>ef_flags := ef_flags f, ef_proof := ef_proof f\<rparr>
      | Kind_Passphrase_Response \<Rightarrow> g\<lparr>ef_pp_use_key := ef_pp_use_key f, ef_passphrase := ef_passphrase f\<rparr>
      | _ \<Rightarrow> g)"

definition eap_shape :: "eap_frame \<Rightarrow> bool" where
  "eap_shape f \<longleftrightarrow>
     (case ef_kind f of
        Kind_Unknown \<Rightarrow> False
      | Kind_Start \<Rightarrow> ef_code f = Code_Request \<and> ef_identifier f = 0
      | Kind_Logoff \<Rightarrow> ef_code f = Code_Request \<and> ef_identifier f = 0
      | Kind_Identity_Request \<Rightarrow> ef_code f = Code_Request
      | Kind_Identity_Response \<Rightarrow> ef_code f = Code_Response \<and> utf8_valid (ef_username f)
      | Kind_Challenge \<Rightarrow> ef_code f = Code_Request \<and> (ef_gen_g f = [] \<longrightarrow> ef_gen_n f = [])
      | Kind_Client_Key \<Rightarrow> ef_code f = Code_Response
      | Kind_Server_Key \<Rightarrow> ef_code f = Code_Request
      | Kind_Client_Validator \<Rightarrow> ef_code f = Code_Response \<and> length (ef_flags f) = 4 \<and> length (ef_proof f) = 32
      | Kind_Server_Validator \<Rightarrow>
          (ef_code f = Code_Request \<or> ef_code f = Code_Response) \<and> length (ef_flags f) = 4 \<and> length (ef_proof f) = 32
      | Kind_Passphrase_Request \<Rightarrow> ef_code f = Code_Request
      | Kind_Passphrase_Response \<Rightarrow> ef_code f = Code_Response \<and> (ef_pp_use_key f \<longrightarrow> ef_passphrase f = [])
      | Kind_Success \<Rightarrow> ef_code f = Code_Success
      | Kind_Failure \<Rightarrow> ef_code f = Code_Failure)"

definition eap_canonical :: "eap_frame \<Rightarrow> bool" where
  "eap_canonical f \<longleftrightarrow> ef_version f \<noteq> 0 \<and> eap_shape f \<and> eap_fields f = f \<and> length (encode_body f) \<le> 65531"

section \<open>Parsing an encoding\<close>

lemma code_round [simp]: "code_from_u8 (code_to_u8 c) = Some c"
  by (cases c) (simp_all add: code_from_u8_def)

lemma unat_len16: "n \<le> 65535 \<Longrightarrow> unat (of_nat n :: u16) = n"
  by (simp add: unat_of_nat)

lemma eap_parse_packet:
  assumes "length body \<le> 65531"
  shows "eap_parse ([v, eapol_type_eap] @ be16 (of_nat (4 + length body)) @ [code_to_u8 c, i]
      @ be16 (of_nat (4 + length body)) @ body) =
    (let f = eap_frame_default\<lparr>ef_version := v, ef_code := c, ef_identifier := i\<rparr> in
     case c of Code_Success \<Rightarrow> res_ok (f\<lparr>ef_kind := Kind_Success\<rparr>)
     | Code_Failure \<Rightarrow> res_ok (f\<lparr>ef_kind := Kind_Failure\<rparr>)
     | _ \<Rightarrow> parse_method f c body)"
proof -
  let ?w = "of_nat (4 + length body) :: u16"
  let ?pkt = "[code_to_u8 c, i] @ be16 ?w @ body"
  have w: "unat ?w = 4 + length body" using assms by (intro unat_len16) simp
  have slice: "vec_slice ([v, eapol_type_eap] @ be16 ?w @ ?pkt) 4 (4 + unat ?w) = Some ?pkt"
    using vec_slice_at [of 4 "[v, eapol_type_eap] @ be16 ?w" "4 + unat ?w" ?pkt "[]"] w by simp
  have "eap_parse ([v, eapol_type_eap] @ be16 ?w @ ?pkt) = parse_eap v ?pkt"
    using slice w get_be16_at [of 2 "[v, eapol_type_eap]" ?w ?pkt]
    by (simp add: eap_parse_def eap_consts Let_def)
  moreover have "vec_slice ?pkt 4 (length ?pkt) = Some body"
    using vec_slice_at [of 4 "[code_to_u8 c, i] @ be16 ?w" "length ?pkt" body "[]"] by simp
  then have "parse_eap v ?pkt = (let f = eap_frame_default\<lparr>ef_version := v, ef_code := c, ef_identifier := i\<rparr> in
     case c of Code_Success \<Rightarrow> res_ok (f\<lparr>ef_kind := Kind_Success\<rparr>)
     | Code_Failure \<Rightarrow> res_ok (f\<lparr>ef_kind := Kind_Failure\<rparr>)
     | _ \<Rightarrow> parse_method f c body)"
    using w get_be16_at [of 2 "[code_to_u8 c, i]" ?w body]
    by (simp add: parse_eap_def eap_consts Let_def)
  ultimately show ?thesis by simp
qed

lemma parse_method_srp:
  "parse_method f c ([eap_type_srp_sha1, subtype] @ payload) = parse_srp f c subtype payload"
  by (simp add: parse_method_def eap_consts vec_slice_def)

lemma parse_validator_at:
  "length flags = 4 \<Longrightarrow> length proof = 32 \<Longrightarrow>
   parse_validator f k (flags @ proof) = res_ok (f\<lparr>ef_kind := k, ef_flags := flags, ef_proof := proof\<rparr>)"
  by (simp add: parse_validator_def eap_consts vec_slice_def)

lemma read_u16_at: "i = length pre \<Longrightarrow> read_u16 (pre @ be16 w @ post) i = res_ok (unat w, i + 2)"
  by (simp add: read_u16_def get_be16_at)

lemma parse_challenge_at:
  assumes "length salt \<le> 65535" "length g \<le> 65535" "g = [] \<longrightarrow> n = []"
  shows "parse_challenge f (be16 0 @ be16 (of_nat (length salt)) @ salt
      @ (if g = [] then be16 0 else be16 (of_nat (length g)) @ g @ n))
    = res_ok (if g = [] then f\<lparr>ef_kind := Kind_Challenge, ef_salt := salt\<rparr>
        else f\<lparr>ef_kind := Kind_Challenge, ef_salt := salt, ef_gen_g := g, ef_gen_n := n\<rparr>)"
proof -
  let ?sl = "of_nat (length salt) :: u16" and ?gl = "of_nat (length g) :: u16"
  let ?tail = "if g = [] then be16 0 else be16 ?gl @ g @ n"
  let ?p = "be16 0 @ be16 ?sl @ salt @ ?tail"
  have len: "unat ?sl = length salt" "unat ?gl = length g" using assms unat_len16 by simp_all
  have r1: "read_u16 ?p 0 = res_ok (0, 2)" using read_u16_at [of 0 "[]" 0] by simp
  have r2: "read_u16 ?p 2 = res_ok (length salt, 4)"
    using read_u16_at [of 2 "be16 0" ?sl "salt @ ?tail"] len by simp
  have s: "vec_slice ?p 4 (4 + length salt) = Some salt"
    using vec_slice_at [of 4 "be16 0 @ be16 ?sl" "4 + length salt" salt ?tail] by simp
  show ?thesis
  proof (cases "g = []")
    case True
    have "read_u16 ?p (4 + length salt) = res_ok (0, 6 + length salt)"
      using read_u16_at [of "4 + length salt" "be16 0 @ be16 ?sl @ salt" 0 "[]"] True by (simp add: add.commute)
    with True r1 r2 s show ?thesis by (simp add: parse_challenge_def Let_def)
  next
    case False
    have r3: "read_u16 ?p (4 + length salt) = res_ok (length g, 6 + length salt)"
      using read_u16_at [of "4 + length salt" "be16 0 @ be16 ?sl @ salt" ?gl "g @ n"] False len
      by (simp add: add.commute)
    have s2: "vec_slice ?p (6 + length salt) (6 + length salt + length g) = Some g"
      using vec_slice_at [of "6 + length salt" "be16 0 @ be16 ?sl @ salt @ be16 ?gl" "6 + length salt + length g" g n] False
      by simp
    have s3: "vec_slice ?p (6 + length salt + length g) (length ?p) = Some n"
      using vec_slice_at [of "6 + length salt + length g" "be16 0 @ be16 ?sl @ salt @ be16 ?gl @ g" "length ?p" n "[]"] False
      by simp
    from False r1 r2 s r3 s2 s3 show ?thesis by (simp add: parse_challenge_def Let_def)
  qed
qed

lemma eap_parse_bare:
  "eap_parse [v, eapol_type_start, 0, 0] = res_ok (eap_frame_default\<lparr>ef_version := v, ef_kind := Kind_Start\<rparr>)"
  "eap_parse [v, eapol_type_logoff, 0, 0] = res_ok (eap_frame_default\<lparr>ef_version := v, ef_kind := Kind_Logoff\<rparr>)"
  by (simp_all add: eap_parse_def eap_consts get_be16_def of_be16_def Let_def)

lemma parse_srp_parts:
  "parse_srp f Code_Request srp_subtype_challenge p = parse_challenge f p"
  "parse_srp f Code_Response srp_subtype_challenge p = res_ok (f\<lparr>ef_kind := Kind_Client_Key, ef_public := p\<rparr>)"
  "parse_srp f Code_Request srp_subtype_server_key p = res_ok (f\<lparr>ef_kind := Kind_Server_Key, ef_public := p\<rparr>)"
  "parse_srp f Code_Response srp_subtype_server_key p = parse_validator f Kind_Client_Validator p"
  "36 \<le> length p \<or> c = Code_Request \<Longrightarrow> parse_srp f c srp_subtype_server_val p = parse_validator f Kind_Server_Validator p"
  "parse_srp f Code_Request srp_subtype_password p = res_ok (f\<lparr>ef_kind := Kind_Passphrase_Request\<rparr>)"
  "parse_srp f Code_Response srp_subtype_password [pp_flag_use_key]
     = res_ok (f\<lparr>ef_kind := Kind_Passphrase_Response, ef_pp_use_key := True\<rparr>)"
  "parse_srp f Code_Response srp_subtype_password (pp_flag_aes256 # p)
     = res_ok (f\<lparr>ef_kind := Kind_Passphrase_Response, ef_pp_use_key := False, ef_passphrase := p\<rparr>)"
  by (auto simp: parse_srp_def eap_consts Let_def)

lemma parse_method_body:
  assumes "eap_canonical f" "ef_kind f \<noteq> Kind_Start" "ef_kind f \<noteq> Kind_Logoff" "ef_kind f \<noteq> Kind_Success" "ef_kind f \<noteq> Kind_Failure"
  shows "parse_method (eap_frame_default\<lparr>ef_version := ef_version f, ef_code := ef_code f, ef_identifier := ef_identifier f\<rparr>)
    (ef_code f) (encode_body f) = res_ok (eap_fields f)"
proof -
  let ?g = "eap_frame_default\<lparr>ef_version := ef_version f, ef_code := ef_code f, ef_identifier := ef_identifier f\<rparr>"
  have shape: "eap_shape f" and len: "length (encode_body f) \<le> 65531" using assms(1) by (auto simp: eap_canonical_def)
  show ?thesis
  proof (cases "ef_kind f")
    case Kind_Challenge
    have l: "length (ef_salt f) \<le> 65535" "length (ef_gen_g f) \<le> 65535"
      using len Kind_Challenge by (auto simp: encode_body_def split: if_splits)
    have body: "encode_body f = [eap_type_srp_sha1, srp_subtype_challenge] @ be16 0 @ be16 (of_nat (length (ef_salt f)))
        @ ef_salt f @ (if ef_gen_g f = [] then be16 0 else be16 (of_nat (length (ef_gen_g f))) @ ef_gen_g f @ ef_gen_n f)"
      using Kind_Challenge by (simp add: encode_body_def)
    show ?thesis
      unfolding body parse_method_srp
      using shape Kind_Challenge parse_challenge_at [OF l, of "ef_gen_n f" ?g]
      by (auto simp: eap_shape_def parse_srp_parts eap_fields_def eap_frame_default_def)
  next
    case Kind_Client_Validator
    then show ?thesis using shape parse_method_srp [of ?g _ srp_subtype_server_key "ef_flags f @ ef_proof f"]
      by (simp add: encode_body_def eap_shape_def parse_srp_parts parse_validator_at eap_fields_def eap_frame_default_def)
  next
    case Kind_Server_Validator
    then show ?thesis using shape parse_method_srp [of ?g _ srp_subtype_server_val "ef_flags f @ ef_proof f"]
      by (simp add: encode_body_def eap_shape_def parse_srp_parts parse_validator_at eap_fields_def eap_frame_default_def)
  next
    case Kind_Passphrase_Response
    then show ?thesis
      using shape parse_method_srp [of ?g _ srp_subtype_password "[pp_flag_use_key]"]
        parse_method_srp [of ?g _ srp_subtype_password "pp_flag_aes256 # ef_passphrase f"]
      by (auto simp: encode_body_def eap_shape_def parse_srp_parts eap_fields_def eap_frame_default_def)
  next
    case Kind_Client_Key
    then show ?thesis using shape parse_method_srp [of ?g _ srp_subtype_challenge "ef_public f"]
      by (simp add: encode_body_def eap_shape_def parse_srp_parts eap_fields_def eap_frame_default_def)
  next
    case Kind_Server_Key
    then show ?thesis using shape parse_method_srp [of ?g _ srp_subtype_server_key "ef_public f"]
      by (simp add: encode_body_def eap_shape_def parse_srp_parts eap_fields_def eap_frame_default_def)
  next
    case Kind_Passphrase_Request
    then show ?thesis using shape parse_method_srp [of ?g _ srp_subtype_password "[]"]
      by (simp add: encode_body_def eap_shape_def parse_srp_parts eap_fields_def eap_frame_default_def)
  next
    case Kind_Identity_Request
    then show ?thesis using shape
      by (simp add: encode_body_def eap_shape_def parse_method_def eap_fields_def eap_frame_default_def)
  next
    case Kind_Identity_Response
    then show ?thesis using shape
      by (simp add: encode_body_def eap_shape_def parse_method_def from_utf8_lossy_valid eap_fields_def eap_frame_default_def)
  qed (use assms shape in \<open>auto simp: eap_shape_def\<close>)
qed

lemma eap_parse_encode:
  assumes "eap_canonical f"
  shows "eap_parse (eap_encode f) = res_ok f"
proof -
  have can: "ef_version f \<noteq> 0" "eap_shape f" "eap_fields f = f" "length (encode_body f) \<le> 65531"
    using assms by (auto simp: eap_canonical_def)
  consider "ef_kind f = Kind_Start \<or> ef_kind f = Kind_Logoff" | "ef_kind f = Kind_Success \<or> ef_kind f = Kind_Failure"
    | "ef_kind f \<noteq> Kind_Start" "ef_kind f \<noteq> Kind_Logoff" "ef_kind f \<noteq> Kind_Success" "ef_kind f \<noteq> Kind_Failure" by blast
  then show ?thesis
  proof cases
    case 1
    have "eap_parse (eap_encode f) = res_ok (eap_fields f)"
      using 1 can(1,2) by (auto simp: eap_encode_def eap_parse_bare eap_shape_def eap_fields_def eap_frame_default_def)
    then show ?thesis by (simp only: can(3))
  next
    case 2
    have "eap_parse (eap_encode f) = res_ok (eap_fields f)"
      using 2 can(1,2) eap_parse_packet [OF can(4), of "ef_version f" "ef_code f" "ef_identifier f"]
      by (auto simp: eap_encode_def eap_shape_def eap_fields_def eap_frame_default_def eap_hdr_size_def Let_def)
    then show ?thesis by (simp only: can(3))
  next
    case 3
    then have code: "ef_code f = Code_Request \<or> ef_code f = Code_Response"
      using can(2) by (auto simp: eap_shape_def split: eap_kind.splits)
    have "eap_parse (eap_encode f) = res_ok (eap_fields f)"
      using 3 can(1) code parse_method_body [OF assms 3]
        eap_parse_packet [OF can(4), of "ef_version f" "ef_code f" "ef_identifier f"]
      by (auto simp: eap_encode_def eap_hdr_size_def Let_def)
    then show ?thesis by (simp only: can(3))
  qed
qed

lemma length_eap_encode: "length (eap_encode f) = eap_marshal_size f"
  by (simp add: eap_encode_def eap_marshal_size_def eapol_hdr_size_def eap_hdr_size_def Let_def)

section \<open>Properties\<close>

text \<open>EAP frames survive the wire. Every frame in the form a role sends (the fields its kind carries, the
  others at their defaults, at most 65535 bytes of EAP packet) encodes to exactly \<^verbatim>\<open>marshal_size\<close> bytes,
  and parsing them gives the frame back.\<close>

theorem eap_frame_roundtrip:
  assumes "eap_canonical f"
  shows "eap_parse (eap_encode f) = res_ok f \<and> length (eap_encode f) = eap_marshal_size f"
  using eap_parse_encode [OF assms] length_eap_encode by blast

definition sample_challenge :: eap_frame where
  "sample_challenge = eap_frame_default\<lparr>ef_version := 3, ef_identifier := 7, ef_kind := Kind_Challenge,
     ef_salt := [1, 2, 3]\<rparr>"

theorem eap_frame_roundtrip_witness:
  "eap_parse (eap_encode sample_challenge) = res_ok sample_challenge
    \<and> length (eap_encode sample_challenge) = eap_marshal_size sample_challenge"
  by (rule eap_frame_roundtrip)
    (simp add: eap_canonical_def eap_shape_def eap_fields_def encode_body_def sample_challenge_def eap_frame_default_def)

end
