(* ===== verification/Srp_Props.thy ===== *)
theory Srp_Props
  imports Srp
begin

text \<open>
  The SRP engine: it never panics on a well-formed group, the two sides agree on the session key
  whenever the verifier belongs to the password, and each side's proof convinces the other.
\<close>

section \<open>Big-endian numbers\<close>

lemma nbits_zero [simp]: "nbits n = 0 \<longleftrightarrow> n = 0"
  by (subst nbits.simps) simp

lemma nbits_pos [simp]: "0 < nbits n \<longleftrightarrow> 0 < n" "Suc 0 \<le> nbits n \<longleftrightarrow> 0 < n"
  by (simp_all add: Suc_le_eq neq0_conv [symmetric] del: neq0_conv)

lemma be_nat_snoc: "be_nat (bs @ [b]) = 256 * be_nat bs + unat b"
  by (simp add: be_nat_def)

lemma be_nat_Nil [simp]: "be_nat [] = 0"
  by (simp add: be_nat_def)

lemma be_nat_be_bytes [simp]: "be_nat (be_bytes n) = n"
proof (induction n rule: be_bytes.induct)
  case (1 n)
  show ?case
  proof (cases "n = 0")
    case False
    then have "be_nat (be_bytes n) = 256 * (n div 256) + unat (of_nat n :: u8)"
      using 1 by (subst be_bytes.simps) (simp add: be_nat_snoc)
    also have "\<dots> = n" by (simp add: unat_of_nat)
    finally show ?thesis .
  qed (simp add: be_bytes.simps)
qed

lemma be_nat_zeros [simp]: "be_nat (replicate k 0 @ bs) = be_nat bs"
  by (induction k) (simp_all add: be_nat_def)

lemma be_nat_upper: "be_nat bs < 256 ^ length bs"
proof (induction bs rule: rev_induct)
  case (snoc b bs)
  have "unat b < 256" using unsigned_less [of b, where 'a = nat] by simp
  with snoc show ?case by (simp add: be_nat_snoc)
qed simp

lemma length_be_bytes: "n < 256 ^ k \<Longrightarrow> length (be_bytes n) \<le> k"
proof (induction n arbitrary: k rule: be_bytes.induct)
  case (1 n)
  show ?case
  proof (cases "n = 0")
    case False
    with "1.prems" obtain j where k: "k = Suc j" by (cases k) auto
    with "1.prems" have "n div 256 < 256 ^ j" by (simp add: less_mult_imp_div_less)
    from "1.IH" [OF False this] show ?thesis using False k by (subst be_bytes.simps) simp
  qed (simp add: be_bytes.simps)
qed

section \<open>The libraries\<close>

lemma lib_simps:
  assumes "lib_ok L"
  shows "sl_from_be L bs = be_nat bs" "minimal_bytes L x = be_bytes x" "length (srp_hash L parts) = 32"
    "sl_ct_eq L y z = (y = z)" "0 < m \<Longrightarrow> sl_modpow L b e m = b ^ e mod m"
  using assms by (simp_all add: lib_ok_def minimal_bytes_def srp_hash_def be_bytes.simps)

lemma is_zero_mod_eq: "is_zero_mod x n \<longleftrightarrow> x mod n = 0"
  by (simp add: is_zero_mod_def)

text \<open>A group as \<^verbatim>\<open>Group::new\<close> builds it, with a generator below the modulus.\<close>

definition group_wf :: "srp_group \<Rightarrow> bool" where
  "group_wf gr \<longleftrightarrow> 0 < sg_g gr \<and> sg_g gr < sg_n gr \<and> sg_length gr = (nbits (sg_n gr) + 7) div 8"

lemma group_wf_valid: "group_wf gr \<Longrightarrow> group_valid gr"
  by (simp add: group_wf_def group_valid_def)

lemma group_length: "group_wf gr \<Longrightarrow> x \<le> sg_n gr \<Longrightarrow> x < 256 ^ sg_length gr"
proof -
  assume gr: "group_wf gr" and x: "x \<le> sg_n gr"
  have "nbits (sg_n gr) \<le> 8 * sg_length gr" using gr by (simp add: group_wf_def)
  then have "(2::nat) ^ nbits (sg_n gr) \<le> 2 ^ (8 * sg_length gr)" by simp
  also have "\<dots> = 256 ^ sg_length gr" by (simp add: power_mult)
  finally show ?thesis using x nbits_upper [of "sg_n gr"] by linarith
qed

lemma srp_pad_total:
  assumes "lib_ok L" "x < 256 ^ sg_length gr"
  shows "srp_pad L gr x = Some (replicate (sg_length gr - length (be_bytes x)) 0 @ be_bytes x)"
proof -
  have "length (be_bytes x) \<le> sg_length gr" using assms(2) by (rule length_be_bytes)
  then show ?thesis using assms(1)
    by (simp add: srp_pad_def Let_def lib_simps put_slice_def take_replicate drop_replicate)
qed

lemma k_value_total:
  assumes "lib_ok L" "group_wf gr"
  shows "k_value L gr legacy \<noteq> None"
proof -
  have "sg_g gr \<le> sg_n gr" using assms(2) by (simp add: group_wf_def)
  then show ?thesis using assms srp_pad_total [OF assms(1) group_length [OF assms(2)]]
    by (simp add: k_value_def hash_padded_def)
qed

lemma u_value_total:
  assumes "lib_ok L" "a < 256 ^ sg_length gr" "b < 256 ^ sg_length gr"
  shows "u_value L gr a b legacy \<noteq> None"
  using assms srp_pad_total by (simp add: u_value_def hash_padded_def)

lemma calc_m1_total:
  "lib_ok L \<Longrightarrow> \<exists>m1. calc_m1 L gr username salt a b key = Some m1 \<and> length m1 = 32"
  by (simp add: calc_m1_def xor_hashes_def hash_len_def lib_simps Let_def)

lemma length_calc_m2: "lib_ok L \<Longrightarrow> length (calc_m2 L a m1 key) = 32"
  by (simp add: calc_m2_def lib_simps)

lemma length_session_key: "lib_ok L \<Longrightarrow> length (session_key_of L s) = 32"
  by (simp add: session_key_of_def lib_simps)

section \<open>The agreement of the two powers\<close>

lemma srp_base:
  fixes n k p q :: nat
  assumes "0 < n" and p: "q < n" and kv: "kv = k mod n"
  shows "((k + q) mod n + n - kv) mod n = q"
proof -
  have le: "kv < n" using assms by simp
  have "(kv + ((k + q) mod n + n - kv) mod n) mod n = (kv + ((k + q) mod n + n - kv)) mod n"
    by (rule mod_add_right_eq)
  also have "\<dots> = (k + q) mod n" using le by simp
  also have "\<dots> = (kv + q) mod n" unfolding kv by (simp add: mod_add_left_eq)
  finally show ?thesis
    by (rule mod_add_cancel) (use assms in simp_all)
qed

lemma pow_eq:
  fixes g a x u b :: nat
  shows "g ^ (b * (a + u * x)) = (g ^ a * (g ^ x) ^ u) ^ b"
  by (simp only: power_mult [symmetric] power_add [symmetric] mult.commute)

lemma srp_powers_agree:
  fixes n g k x a b u :: nat
  assumes "0 < n" and B: "B = (k * (g ^ x mod n) + g ^ b mod n) mod n"
  shows "((B mod n + n - k * (g ^ x mod n) mod n) mod n) ^ (a + u * x) mod n
    = ((g ^ a mod n) * ((g ^ x mod n) ^ u mod n) mod n) ^ b mod n"
proof -
  have "(B mod n + n - k * (g ^ x mod n) mod n) mod n = g ^ b mod n"
    unfolding B mod_mod_trivial by (rule srp_base) (use assms(1) in simp_all)
  then have "((B mod n + n - k * (g ^ x mod n) mod n) mod n) ^ (a + u * x) mod n = g ^ (b * (a + u * x)) mod n"
    by (simp only: power_mod power_mult)
  also have "\<dots> = ((g ^ a mod n) * ((g ^ x mod n) ^ u mod n) mod n) ^ b mod n"
    unfolding pow_eq by (simp only: power_mod mod_mult_eq)
  finally show ?thesis .
qed

section \<open>States of the two sides\<close>

definition client_wf :: "srp_client \<Rightarrow> bool" where
  "client_wf c \<longleftrightarrow> group_wf (sc_group c) \<and> sc_pub_a c < sg_n (sc_group c) \<and> length (sc_m1 c) = 32"

definition server_wf :: "srp_server \<Rightarrow> bool" where
  "server_wf s \<longleftrightarrow> group_wf (sv_group s) \<and> sv_pub_b s < sg_n (sv_group s)
     \<and> (case sv_pub_a s of None \<Rightarrow> True | Some a \<Rightarrow> a < 256 ^ sg_length (sv_group s))"

lemma draw_secret_below: "draw_secret L n ex fill i k = res_ok v \<Longrightarrow> v < n"
  by (induction k arbitrary: i) (auto simp: res_bind_eq_ok Let_def split: option.splits if_splits)

lemma draw_secret_total:
  "(\<And>i buf. fill i = Some buf \<Longrightarrow> ex = 0 \<or> buf \<noteq> []) \<Longrightarrow> draw_secret L n ex fill i k \<noteq> None"
proof (induction k arbitrary: i)
  case (Suc k)
  have "\<exists>b. (if 0 < ex then do { b0 \<leftarrow> vec_get buf 0; vec_set buf 0 (b0 AND drop_bit ex 0xFF) } else Some buf) = Some b"
    if "fill i = Some buf" for buf
    using Suc.prems [OF that] by (cases buf) (auto simp: vec_set_def vec_get_def)
  then show ?case using Suc
    by (auto simp: Let_def split: option.splits)
qed simp

lemma read_secret_below: "read_secret L n fill = res_ok v \<Longrightarrow> v < n"
  using draw_secret_below by (auto simp: read_secret_def Let_def)

lemma srp_client_new_wf:
  assumes "lib_ok L" "group_wf gr" "srp_client_new L fill gr salt legacy = res_ok c"
  shows "client_wf c" "sc_group c = gr" "sc_salt c = salt" "sc_legacy_pad c = legacy"
    "sc_pub_a c = sg_g gr ^ sc_a c mod sg_n gr" "validate_salt salt = res_ok ()"
  using assms group_wf_valid [OF assms(2)]
  by (auto simp: srp_client_new_def res_bind_eq_ok client_wf_def lib_simps group_wf_def hash_len_def split: if_splits)

lemma compute_b_wf:
  assumes "lib_ok L" "group_wf (sv_group s0)" "sv_pub_a s0 = None" "compute_b L s0 = res_ok s"
  shows "server_wf s \<and> (\<exists>k. k_value L (sv_group s0) (sv_legacy_pad s0) = Some k
    \<and> s = s0\<lparr>sv_pub_b := (k * sv_v s0 + sg_g (sv_group s0) ^ sv_b s0 mod sg_n (sv_group s0)) mod sg_n (sv_group s0)\<rparr>)
    \<and> sv_pub_b s \<noteq> 0"
  using assms
  by (cases "k_value L (sv_group s0) (sv_legacy_pad s0)")
    (auto simp: compute_b_def server_wf_def lib_simps group_wf_def Let_def split: if_splits)

lemma srp_server_new_wf:
  assumes L: "lib_ok L" and gr: "group_wf gr" and new: "srp_server_new L fill gr verifier salt legacy = res_ok s"
  shows "server_wf s" "sv_group s = gr" "sv_salt s = salt" "sv_legacy_pad s = legacy" "sv_v s = be_nat verifier"
    "\<exists>k. k_value L gr legacy = Some k \<and> sv_pub_b s = (k * sv_v s + sg_g gr ^ sv_b s mod sg_n gr) mod sg_n gr"
    "sv_pub_b s \<noteq> 0" "validate_salt salt = res_ok ()" "\<not> sv_verified s"
proof -
  obtain b where salt: "validate_salt salt = res_ok ()" and B: "compute_b L
      \<lparr>sv_group = gr, sv_salt = salt, sv_v = be_nat verifier, sv_b = b, sv_pub_b = 0, sv_pub_a = None,
        sv_legacy_pad = legacy, sv_verified = False, sv_key = replicate hash_len 0,
        sv_m2 = replicate hash_len 0\<rparr> = res_ok s"
    using new L by (auto simp: srp_server_new_def res_bind_eq_ok lib_simps Let_def split: if_splits)
  obtain k where k: "k_value L gr legacy = Some k" and s: "s =
      \<lparr>sv_group = gr, sv_salt = salt, sv_v = be_nat verifier, sv_b = b,
        sv_pub_b = (k * be_nat verifier + sg_g gr ^ b mod sg_n gr) mod sg_n gr, sv_pub_a = None,
        sv_legacy_pad = legacy, sv_verified = False, sv_key = replicate hash_len 0,
        sv_m2 = replicate hash_len 0\<rparr>" and wf: "server_wf s" and nz: "sv_pub_b s \<noteq> 0"
    using compute_b_wf [OF L _ _ B] gr by auto
  show "server_wf s" "sv_pub_b s \<noteq> 0" "validate_salt salt = res_ok ()" by fact+
  show "sv_group s = gr" "sv_salt s = salt" "sv_legacy_pad s = legacy" "sv_v s = be_nat verifier"
    "\<not> sv_verified s" by (simp_all add: s)
  show "\<exists>k. k_value L gr legacy = Some k \<and> sv_pub_b s = (k * sv_v s + sg_g gr ^ sv_b s mod sg_n gr) mod sg_n gr"
    using k by (simp add: s)
qed

section \<open>Totality\<close>

lemma srp_client_a_total:
  assumes "lib_ok L" "client_wf c"
  shows "\<exists>a. srp_client_a L c = Some a \<and> length a = sg_length (sc_group c) \<and> be_nat a = sc_pub_a c"
proof -
  have "sc_pub_a c < 256 ^ sg_length (sc_group c)"
    using assms(2) group_length [of "sc_group c" "sc_pub_a c"] by (simp add: client_wf_def)
  then show ?thesis using srp_pad_total [OF assms(1)] length_be_bytes by (simp add: srp_client_a_def)
qed

lemma srp_server_b_total:
  assumes "lib_ok L" "server_wf s"
  shows "\<exists>b. srp_server_b L s = Some b \<and> length b = sg_length (sv_group s) \<and> be_nat b = sv_pub_b s"
proof -
  have "sv_pub_b s < 256 ^ sg_length (sv_group s)"
    using assms(2) group_length [of "sv_group s" "sv_pub_b s"] by (simp add: server_wf_def)
  then show ?thesis using srp_pad_total [OF assms(1)] length_be_bytes by (simp add: srp_server_b_def)
qed

lemma be_nat_below: "length bs \<le> k \<Longrightarrow> be_nat bs < 256 ^ k"
  using be_nat_upper [of bs] power_increasing [of "length bs" k "256 :: nat"] by linarith

lemma compute_key_total:
  assumes L: "lib_ok L" and c: "client_wf c"
  shows "compute_key L c server_b user pw \<noteq> None \<and>
    (compute_key L c server_b user pw = res_ok c' \<longrightarrow> client_wf c' \<and> sc_computed c')"
proof -
  let ?gr = "sc_group c"
  have gr: "group_wf ?gr" using c by (simp add: client_wf_def)
  have kgx: "\<not> y + sg_n ?gr < x mod sg_n ?gr" for x y
    using gr mod_less_divisor [of "sg_n ?gr" x] unfolding group_wf_def by linarith
  show ?thesis
  proof (cases "server_b = [] \<or> sg_length ?gr < length server_b")
    case False
    then have b: "be_nat server_b < 256 ^ sg_length ?gr" using be_nat_below by simp
    have a: "sc_pub_a c < 256 ^ sg_length ?gr"
      using c group_length [of ?gr "sc_pub_a c"] by (simp add: client_wf_def)
    obtain u where u: "u_value L ?gr (sc_pub_a c) (be_nat server_b) (sc_legacy_pad c) = Some u"
      using u_value_total [OF L a b] by fast
    obtain k where k: "k_value L ?gr (sc_legacy_pad c) = Some k" using k_value_total [OF L gr] by fast
    have m1: "\<exists>m1. calc_m1 L ?gr user (sc_salt c) (sc_pub_a c) (be_nat server_b) key = Some m1 \<and> length m1 = 32" for key
      by (rule calc_m1_total [OF L])
    show ?thesis
    proof (cases "is_zero_mod (be_nat server_b) (sg_n ?gr) \<or> is_zero_mod u (sg_n ?gr)")
      case True
      with False u show ?thesis by (auto simp: compute_key_def lib_simps [OF L] Let_def)
    next
      case no: False
      obtain m1 where m1: "calc_m1 L ?gr user (sc_salt c) (sc_pub_a c) (be_nat server_b)
          (session_key_of L (sl_modpow L ((be_nat server_b mod sg_n ?gr + sg_n ?gr
             - k * sl_modpow L (sg_g ?gr) (calc_x L (sc_salt c) user pw) (sg_n ?gr) mod sg_n ?gr) mod sg_n ?gr)
             (sc_a c + u * calc_x L (sc_salt c) user pw) (sg_n ?gr))) = Some m1" "length m1 = 32"
        using m1 by blast
      show ?thesis
        using False no u k m1 kgx c by (auto simp: compute_key_def lib_simps(1) [OF L] Let_def client_wf_def)
    qed
  qed (auto simp: compute_key_def)
qed

lemma handle_a_wf:
  assumes "lib_ok L" "server_wf s" "handle_a L s client_a = res_ok s'"
  shows "server_wf s'"
  using assms be_nat_below by (auto simp: handle_a_def server_wf_def lib_simps Let_def split: if_splits)

lemma handle_a_total: "handle_a L s client_a \<noteq> None"
  by (simp add: handle_a_def Let_def)

text \<open>The server's shared secret and the proof it expects, given the scrambling parameter.\<close>

definition server_secret :: "srp_server \<Rightarrow> nat \<Rightarrow> nat \<Rightarrow> nat" where
  "server_secret s a u = (a * (sv_v s ^ u mod sg_n (sv_group s)) mod sg_n (sv_group s)) ^ sv_b s mod sg_n (sv_group s)"

lemma verify_m1_eval:
  assumes L: "lib_ok L" and s: "server_wf s" and a: "sv_pub_a s = Some a" and len: "length m1 = 32"
    and u: "u_value L (sv_group s) a (sv_pub_b s) (sv_legacy_pad s) = Some u" "\<not> is_zero_mod u (sg_n (sv_group s))"
    and want: "calc_m1 L (sv_group s) user (sv_salt s) a (sv_pub_b s) key = Some want"
    and key: "key = session_key_of L (server_secret s a u)"
  shows "verify_m1 L s user m1 = Some (if want = m1
    then (True, s\<lparr>sv_key := key, sv_m2 := calc_m2 L a want key, sv_verified := True\<rparr>) else (False, s\<lparr>sv_key := key\<rparr>))"
proof -
  have n: "0 < sg_n (sv_group s)" using s by (simp add: server_wf_def group_wf_def)
  show ?thesis using a len u want n unfolding key server_secret_def
    by (simp add: verify_m1_def hash_len_def Let_def lib_simps [OF L])
qed

lemma verify_m1_total:
  assumes L: "lib_ok L" and s: "server_wf s"
  shows "case verify_m1 L s user m1 of None \<Rightarrow> False
    | Some (ok, s') \<Rightarrow> server_wf s' \<and> sv_verified s' = (ok \<or> sv_verified s)"
proof (cases "\<exists>a. sv_pub_a s = Some a \<and> length m1 = 32")
  case False
  then have "verify_m1 L s user m1 = Some (False, s)"
    by (auto simp: verify_m1_def hash_len_def split: option.splits)
  with s show ?thesis by simp
next
  case True
  then obtain a where a: "sv_pub_a s = Some a" and len: "length m1 = 32" by auto
  let ?gr = "sv_group s"
  have gr: "group_wf ?gr" and lt: "a < 256 ^ sg_length ?gr" using s a by (simp_all add: server_wf_def)
  have "sv_pub_b s < 256 ^ sg_length ?gr"
    using s group_length [OF gr, of "sv_pub_b s"] by (simp add: server_wf_def)
  then obtain u where u: "u_value L ?gr a (sv_pub_b s) (sv_legacy_pad s) = Some u"
    using u_value_total [OF L lt] by fast
  obtain want where want: "calc_m1 L ?gr user (sv_salt s) a (sv_pub_b s)
      (session_key_of L (server_secret s a u)) = Some want" using calc_m1_total [OF L] by blast
  show ?thesis
  proof (cases "is_zero_mod u (sg_n ?gr)")
    case True
    then have "verify_m1 L s user m1 = Some (False, s)" using a len u by (simp add: verify_m1_def hash_len_def)
    with s show ?thesis by simp
  next
    case False
    from verify_m1_eval [OF L s a len u False want refl] s a len show ?thesis
      by (simp add: server_wf_def)
  qed
qed

section \<open>Agreement\<close>

lemma make_verifier_nat:
  assumes "lib_ok L" "group_wf gr" "make_verifier L gr user pw salt = Some v"
  shows "be_nat v = sg_g gr ^ calc_x L salt user pw mod sg_n gr"
  using assms by (auto simp: make_verifier_def lib_simps group_wf_def Let_def split: if_splits)

text \<open>What the exchange of the two public values leads to, on both sides.\<close>

lemma srp_exchange:
  assumes L: "lib_ok L" and gr: "group_wf gr"
    and client: "srp_client_new L fc gr salt legacy = res_ok c"
    and server: "srp_server_new L fs gr v salt legacy = res_ok s"
    and v: "make_verifier L gr user pw salt = Some v"
    and A: "sc_pub_a c \<noteq> 0"
    and u: "u_value L gr (sc_pub_a c) (sv_pub_b s) legacy = Some u" "\<not> is_zero_mod u (sg_n gr)"
    and pa: "srp_client_a L c = Some pa" and pb: "srp_server_b L s = Some pb"
  shows "\<exists>c' s' m1 m2 key. handle_a L s pa = res_ok (s\<lparr>sv_pub_a := Some (sc_pub_a c)\<rparr>)
    \<and> compute_key L c pb user pw = res_ok c' \<and> client_wf c'
    \<and> srp_client_m1 c' = Some m1 \<and> verify_m1 L (s\<lparr>sv_pub_a := Some (sc_pub_a c)\<rparr>) user m1 = Some (True, s')
    \<and> server_wf s' \<and> srp_server_m2 s' = Some m2 \<and> verify_m2 L c' m2
    \<and> length m1 = 32 \<and> length m2 = 32
    \<and> srp_client_key c' = Some key \<and> srp_server_key s' = Some key"
proof -
  note cw = srp_client_new_wf [OF L gr client]
  note sw = srp_server_new_wf [OF L gr server]
  have n: "0 < sg_n gr" using gr by (simp add: group_wf_def)
  have "nbits (sg_n gr) \<noteq> 0" using n by simp
  then have len: "0 < sg_length gr" using gr by (simp add: group_wf_def div_greater_zero_iff)
  let ?n = "sg_n gr" and ?x = "calc_x L salt user pw" and ?A = "sc_pub_a c" and ?B = "sv_pub_b s"
  let ?s = "s\<lparr>sv_pub_a := Some ?A\<rparr>"
  have A': "?A < ?n" using cw(1,2) by (simp add: client_wf_def)
  have B': "?B < ?n" using sw(1,2) by (simp add: server_wf_def)
  have pa': "length pa = sg_length gr" "be_nat pa = ?A"
    using srp_client_a_total [OF L cw(1)] pa cw(2) by auto
  have pb': "length pb = sg_length gr" "be_nat pb = ?B"
    using srp_server_b_total [OF L sw(1)] pb sw(2) by auto
  have ne: "pa \<noteq> []" "pb \<noteq> []" using pa'(1) pb'(1) len by auto
  have ha: "handle_a L s pa = res_ok ?s"
    using pa' ne A A' sw(2) by (simp add: handle_a_def Let_def lib_simps [OF L] is_zero_mod_eq)
  have s_wf: "server_wf ?s" using sw(1,2) A' group_length [OF gr, of ?A] by (simp add: server_wf_def)
  obtain k where k: "k_value L gr legacy = Some k" and B: "?B = (k * be_nat v + sg_g gr ^ sv_b s mod ?n) mod ?n"
    using sw(5,6) by auto
  have v': "be_nat v = sg_g gr ^ ?x mod ?n" by (rule make_verifier_nat [OF L gr v])
  define S where "S = server_secret ?s ?A u"
  have S: "((?B mod ?n + ?n - k * (sg_g gr ^ ?x mod ?n) mod ?n) mod ?n) ^ (sc_a c + u * ?x) mod ?n = S"
    unfolding S_def server_secret_def using srp_powers_agree [OF n B [unfolded v']] cw(5) sw(2,5) v' by simp
  obtain m1 where m1: "calc_m1 L gr user salt ?A ?B (session_key_of L S) = Some m1" "length m1 = 32"
    using calc_m1_total [OF L] by blast
  let ?c = "c\<lparr>sc_key := session_key_of L S, sc_m1 := m1, sc_computed := True\<rparr>"
  have no: "\<not> ?B mod ?n + ?n < k * (sg_g gr ^ ?x mod ?n) mod ?n"
    using mod_less_divisor [OF n, of "k * (sg_g gr ^ ?x mod ?n)"] by linarith
  have ck: "compute_key L c pb user pw = res_ok ?c"
    using ne pb' B' sw(7) u k m1(1) cw(2,3,4) no S n
    by (simp add: compute_key_def Let_def lib_simps [OF L] is_zero_mod_eq)
  have vm: "verify_m1 L ?s user m1 = Some (True, ?s\<lparr>sv_key := session_key_of L S,
      sv_m2 := calc_m2 L ?A m1 (session_key_of L S), sv_verified := True\<rparr>)"
    using verify_m1_eval [OF L s_wf _ m1(2), of ?A u user "session_key_of L S" m1] u m1(1) sw(2,3,4)
    by (simp add: S_def)
  show ?thesis
    using ha ck vm m1(2) cw(1) s_wf length_calc_m2 [OF L]
    by (simp add: client_wf_def server_wf_def srp_client_m1_def srp_server_m2_def verify_m2_def hash_len_def
        lib_simps(4) [OF L] srp_client_key_def srp_server_key_def)
qed

section \<open>The default group\<close>

lemma nbits_eq: "2 ^ k \<le> n \<Longrightarrow> n < 2 ^ (k + 1) \<Longrightarrow> nbits n = k + 1"
proof -
  assume lo: "2 ^ k \<le> n" and hi: "n < 2 ^ (k + 1)"
  have "nbits n \<le> k + 1" using hi by (rule nbits_le)
  moreover have "\<not> nbits n \<le> k"
  proof
    assume "nbits n \<le> k"
    then have "(2 :: nat) ^ nbits n \<le> 2 ^ k" by simp
    with lo nbits_upper [of n] show False by linarith
  qed
  ultimately show ?thesis by linarith
qed

lemma nbits_default_n: "nbits default_n = 2048"
proof -
  have "nbits default_n = 2047 + 1" by (rule nbits_eq) (simp_all add: default_n_def)
  then show ?thesis by simp
qed

lemma default_n_large: "2 < default_n"
  by (simp add: default_n_def)

lemma default_group_simps [simp]:
  "sg_n default_group = default_n" "sg_g default_group = 2" "sg_length default_group = 256"
  by (simp_all add: default_group_def srp_group_new_def nbits_default_n)

lemma default_group_wf [simp]: "group_wf default_group"
  by (simp add: group_wf_def nbits_default_n default_n_large)

lemma power_nonzero_mod_odd:
  fixes n :: nat
  assumes "odd n" "1 < n"
  shows "2 ^ e mod n \<noteq> 0"
proof
  assume "2 ^ e mod n = 0"
  then have "n dvd 2 ^ e" by (simp add: mod_eq_0_iff_dvd)
  moreover have "coprime n (2 ^ e)" using assms(1) by simp
  ultimately have "n dvd 1" by (metis coprime_common_divisor dvd_refl)
  with assms(2) show False by simp
qed

lemma default_public_nonzero: "2 ^ e mod default_n \<noteq> 0"
  by (rule power_nonzero_mod_odd) (simp_all add: default_n_def)

section \<open>Properties\<close>

text \<open>The string a client proof is the hash of.\<close>

definition m1_input :: "srp_lib \<Rightarrow> srp_group \<Rightarrow> bytes \<Rightarrow> bytes \<Rightarrow> nat \<Rightarrow> nat \<Rightarrow> bytes \<Rightarrow> bytes" where
  "m1_input L gr username salt a b key =
     map (\<lambda>i. srp_hash L [minimal_bytes L (sg_n gr)] ! i XOR srp_hash L [minimal_bytes L (sg_g gr)] ! i) [0..<32]
     @ srp_hash L [username] @ canon_salt L salt @ minimal_bytes L a @ minimal_bytes L b @ key"

lemma calc_m1_input: "lib_ok L \<Longrightarrow> calc_m1 L gr user salt a b key = Some (sl_sha256 L (m1_input L gr user salt a b key))"
  by (simp add: calc_m1_def xor_hashes_def m1_input_def hash_len_def lib_simps Let_def) (simp add: srp_hash_def)

lemma compute_key_m1:
  assumes "lib_ok L" "compute_key L c server_b user pw = res_ok c'"
  shows "sc_m1 c' = sl_sha256 L (m1_input L (sc_group c) user (sc_salt c) (sc_pub_a c) (be_nat server_b) (sc_key c'))
    \<and> length (sc_key c') = 32"
  using assms by (auto simp: compute_key_def Let_def res_bind_eq_ok calc_m1_input length_session_key lib_simps(1)
      split: if_splits)

lemma verify_m1_accepts:
  assumes "lib_ok L" "verify_m1 L s user m1 = Some (True, s')"
  shows "\<exists>a. sv_pub_a s = Some a \<and> m1 = sl_sha256 L (m1_input L (sv_group s) user (sv_salt s) a (sv_pub_b s) (sv_key s'))
    \<and> length (sv_key s') = 32 \<and> sv_verified s' \<and> sv_m2 s' = calc_m2 L a m1 (sv_key s')"
  using assms by (auto simp: verify_m1_def Let_def calc_m1_input length_session_key lib_simps(4)
      split: option.splits if_splits Option.bind_splits)

text \<open>C7: The two sides agree. When the server's verifier was made from the password the client uses (same user
  name, salt and hashing mode), the client's public value is not zero and the scrambling parameter is not zero
  modulo the group, then each accepts the other's public value, the server accepts the client's proof, the client
  accepts the server's, and both hold the same session key.\<close>

theorem srp_agreement:
  assumes "lib_ok L" "group_wf gr"
    and "srp_client_new L fc gr salt legacy = res_ok c" "srp_server_new L fs gr v salt legacy = res_ok s"
    and "make_verifier L gr user pw salt = Some v"
    and "sc_pub_a c \<noteq> 0" "u_value L gr (sc_pub_a c) (sv_pub_b s) legacy = Some u" "\<not> is_zero_mod u (sg_n gr)"
  shows "\<exists>pa pb s1 c1 m1 s2 m2 key. srp_client_a L c = Some pa \<and> srp_server_b L s = Some pb
    \<and> handle_a L s pa = res_ok s1 \<and> compute_key L c pb user pw = res_ok c1
    \<and> srp_client_m1 c1 = Some m1 \<and> verify_m1 L s1 user m1 = Some (True, s2)
    \<and> srp_server_m2 s2 = Some m2 \<and> verify_m2 L c1 m2
    \<and> srp_client_key c1 = Some key \<and> srp_server_key s2 = Some key"
proof -
  obtain pa pb where p: "srp_client_a L c = Some pa" "srp_server_b L s = Some pb"
    using srp_client_a_total [OF assms(1) srp_client_new_wf(1) [OF assms(1-3)]]
      srp_server_b_total [OF assms(1) srp_server_new_wf(1) [OF assms(1,2,4)]] by blast
  from p srp_exchange [OF assms(1-8) p] show ?thesis by blast
qed

text \<open>A library whose hash is constant, a group of 23 elements, and the two sides in it.\<close>

definition toy_lib :: srp_lib where
  "toy_lib = \<lparr>sl_sha256 = (\<lambda>bs. replicate 31 0 @ [1]), sl_modpow = (\<lambda>b e m. b ^ e mod m),
     sl_from_be = be_nat, sl_to_be = be_bytes, sl_ct_eq = (=)\<rparr>"

lemma toy_lib_ok: "lib_ok toy_lib"
  by (simp add: lib_ok_def toy_lib_def)

definition toy_group :: srp_group where
  "toy_group = srp_group_new 23 5"

definition toy_client :: srp_client where
  "toy_client = \<lparr>sc_group = toy_group, sc_salt = [1], sc_a = 2, sc_pub_a = 2, sc_legacy_pad = False,
     sc_computed = False, sc_key = replicate 32 0, sc_m1 = replicate 32 0\<rparr>"

definition toy_server :: srp_server where
  "toy_server = \<lparr>sv_group = toy_group, sv_salt = [1], sv_v = 5, sv_b = 3, sv_pub_b = 15, sv_pub_a = None,
     sv_legacy_pad = False, sv_verified = False, sv_key = replicate 32 0, sv_m2 = replicate 32 0\<rparr>"

theorem srp_agreement_witness:
  "\<exists>pa pb s1 c1 m1 s2 m2 key. srp_client_a toy_lib toy_client = Some pa \<and> srp_server_b toy_lib toy_server = Some pb
    \<and> handle_a toy_lib toy_server pa = res_ok s1 \<and> compute_key toy_lib toy_client pb [0x61] [0x62] = res_ok c1
    \<and> srp_client_m1 c1 = Some m1 \<and> verify_m1 toy_lib s1 [0x61] m1 = Some (True, s2)
    \<and> srp_server_m2 s2 = Some m2 \<and> verify_m2 toy_lib c1 m2
    \<and> srp_client_key c1 = Some key \<and> srp_server_key s2 = Some key"
proof (rule srp_agreement [where fc = "\<lambda>i. Some [2]" and fs = "\<lambda>i. Some [3]" and v = "[5]" and u = 1])
  show "lib_ok toy_lib" by (rule toy_lib_ok)
  show "group_wf toy_group" by code_simp
  show "srp_client_new toy_lib (\<lambda>i. Some [2]) toy_group [1] False = res_ok toy_client" by code_simp
  show "srp_server_new toy_lib (\<lambda>i. Some [3]) toy_group [5] [1] False = res_ok toy_server" by code_simp
  show "make_verifier toy_lib toy_group [0x61] [0x62] [1] = Some [5]" by code_simp
  show "sc_pub_a toy_client \<noteq> 0" by code_simp
  show "u_value toy_lib toy_group (sc_pub_a toy_client) (sv_pub_b toy_server) False = Some 1" by code_simp
  show "\<not> is_zero_mod 1 (sg_n toy_group)" by code_simp
qed

text \<open>An accepted proof binds the session key. If the server accepts the proof that a client computed,
  whatever password, salt or public values either side used, then both hold the same session key, or the two
  strings hashed into the proof are an explicit collision of the hash function.\<close>

theorem srp_proof_binds_key:
  assumes "lib_ok L" and "compute_key L c server_b user pw = res_ok c1" and "srp_client_m1 c1 = Some m1"
    and "verify_m1 L s user' m1 = Some (True, s1)"
  shows "srp_client_key c1 = srp_server_key s1 \<or>
    (\<exists>a. sv_pub_a s = Some a \<and>
      (let p = m1_input L (sc_group c) user (sc_salt c) (sc_pub_a c) (be_nat server_b) (sc_key c1);
           q = m1_input L (sv_group s) user' (sv_salt s) a (sv_pub_b s) (sv_key s1)
       in p \<noteq> q \<and> sl_sha256 L p = sl_sha256 L q))"
proof -
  from verify_m1_accepts [OF assms(1,4)] obtain a where a: "sv_pub_a s = Some a"
    "m1 = sl_sha256 L (m1_input L (sv_group s) user' (sv_salt s) a (sv_pub_b s) (sv_key s1))"
    "length (sv_key s1) = 32" "sv_verified s1" by blast
  have c: "sc_computed c1" "sc_m1 c1 = m1" using assms(3) by (auto simp: srp_client_m1_def split: if_splits)
  note m = compute_key_m1 [OF assms(1,2)]
  show ?thesis
  proof (cases "sc_key c1 = sv_key s1")
    case True
    then show ?thesis using c(1) a(4) by (simp add: srp_client_key_def srp_server_key_def)
  next
    case False
    have "drop (length x - 32) x = sc_key c1 \<Longrightarrow> drop (length y - 32) y = sv_key s1 \<Longrightarrow> x \<noteq> y" for x y :: bytes
      using False by auto
    then have "m1_input L (sc_group c) user (sc_salt c) (sc_pub_a c) (be_nat server_b) (sc_key c1)
      \<noteq> m1_input L (sv_group s) user' (sv_salt s) a (sv_pub_b s) (sv_key s1)"
      using m a(3) by (simp add: m1_input_def)
    then show ?thesis using a m c(2) by (auto simp: Let_def)
  qed
qed

definition toy_client_computed :: srp_client where
  "toy_client_computed = toy_client\<lparr>sc_computed := True, sc_key := replicate 31 0 @ [1], sc_m1 := replicate 31 0 @ [1]\<rparr>"

theorem srp_proof_binds_key_witness:
  "srp_client_key toy_client_computed = srp_server_key (toy_server\<lparr>sv_pub_a := Some 2, sv_key := replicate 31 0 @ [1],
       sv_m2 := replicate 31 0 @ [1], sv_verified := True\<rparr>) \<or>
    (\<exists>a. sv_pub_a (toy_server\<lparr>sv_pub_a := Some 2\<rparr>) = Some a \<and>
      (let p = m1_input toy_lib (sc_group toy_client) [0x61] (sc_salt toy_client) (sc_pub_a toy_client) (be_nat [15])
             (sc_key toy_client_computed);
           q = m1_input toy_lib (sv_group (toy_server\<lparr>sv_pub_a := Some 2\<rparr>)) [0x61]
             (sv_salt (toy_server\<lparr>sv_pub_a := Some 2\<rparr>)) a (sv_pub_b (toy_server\<lparr>sv_pub_a := Some 2\<rparr>))
             (sv_key (toy_server\<lparr>sv_pub_a := Some 2, sv_key := replicate 31 0 @ [1],
                sv_m2 := replicate 31 0 @ [1], sv_verified := True\<rparr>))
       in p \<noteq> q \<and> sl_sha256 toy_lib p = sl_sha256 toy_lib q))"
proof (rule srp_proof_binds_key [where pw = "[0x62]" and ?m1.0 = "replicate 31 0 @ [1]"])
  show "lib_ok toy_lib" by (rule toy_lib_ok)
  show "compute_key toy_lib toy_client [15] [0x61] [0x62] = res_ok toy_client_computed" by code_simp
  show "srp_client_m1 toy_client_computed = Some (replicate 31 0 @ [1])" by code_simp
  show "verify_m1 toy_lib (toy_server\<lparr>sv_pub_a := Some 2\<rparr>) [0x61] (replicate 31 0 @ [1])
    = Some (True, toy_server\<lparr>sv_pub_a := Some 2, sv_key := replicate 31 0 @ [1],
        sv_m2 := replicate 31 0 @ [1], sv_verified := True\<rparr>)" by code_simp
qed

end
