(* ===== verification/Eap_Inv.thy ===== *)
theory Eap_Inv
  imports Eap_Auth Eap_Wire Srp_Props Interfaces
begin

text \<open>
  The invariants of the EAP-SRP roles: every call returns and keeps them, for any payload and any random
  draws.
\<close>

section \<open>The invariant of the authenticatee\<close>

definition ae_ok :: "authenticatee \<Rightarrow> bool" where
  "ae_ok st \<longleftrightarrow> (case ae_client st of None \<Rightarrow> True | Some c \<Rightarrow> client_wf c)"

lemma ae_ok_simps [simp]:
  "ae_ok (st\<lparr>ae_state := x\<rparr>) = ae_ok st" "ae_ok (st\<lparr>ae_id := i\<rparr>) = ae_ok st"
  "ae_ok (st\<lparr>ae_id_valid := b\<rparr>) = ae_ok st" "ae_ok (st\<lparr>ae_salt := s\<rparr>) = ae_ok st"
  "ae_ok (st\<lparr>ae_session := k\<rparr>) = ae_ok st" "ae_ok (st\<lparr>ae_last_rx := r\<rparr>) = ae_ok st"
  "ae_ok (st\<lparr>ae_last_reply := p\<rparr>) = ae_ok st" "ae_ok (st\<lparr>ae_use_key_passphrase := b\<rparr>) = ae_ok st"
  "ae_ok (st\<lparr>ae_client := None\<rparr>)" "ae_ok (st\<lparr>ae_client := Some c\<rparr>) = client_wf c"
  by (simp_all add: ae_ok_def)

lemma ae_restart_ok: "ae_ok (ae_restart st)"
  by (simp add: ae_restart_def)

lemma read_secret_default: "read_secret L default_n fill \<noteq> None"
  unfolding read_secret_def Let_def by (rule draw_secret_total) (simp add: nbits_default_n)

lemma srp_client_new_default: "srp_client_new L fill default_group salt legacy \<noteq> None"
proof -
  have "returns (srp_client_new L fill default_group salt legacy)"
    using read_secret_default [of L fill]
    by (auto simp: srp_client_new_def validate_salt_def group_wf_valid returns_def [of "read_secret _ _ _"] intro!: returns_bind)
  then show ?thesis by (simp add: returns_def)
qed

lemma srp_server_new_default:
  assumes "lib_ok L"
  shows "srp_server_new L fill default_group v salt legacy \<noteq> None"
proof -
  have "returns (srp_server_new L fill default_group v salt legacy)"
    using read_secret_default [of L fill] k_value_total [OF assms default_group_wf]
    by (auto simp: srp_server_new_def compute_b_def validate_salt_def group_wf_valid Let_def
        returns_def [of "read_secret _ _ _"] intro!: returns_bind returns_lift)
  then show ?thesis by (simp add: returns_def)
qed

definition keeps_ae :: "(eap_reply \<times> authenticatee) option \<Rightarrow> bool" where
  "keeps_ae m \<longleftrightarrow> (case m of None \<Rightarrow> False | Some (r, st) \<Rightarrow> ae_ok st)"

lemma keeps_ae_simps [simp]: "keeps_ae (Some (r, st)) = ae_ok st" "keeps_ae (ae_fail e st) = ae_ok st"
  by (simp_all add: keeps_ae_def ae_fail_def)

lemma ae_challenge_ok:
  assumes L: "lib_ok L" and "ae_ok st"
  shows "keeps_ae (ae_challenge L fill st f)"
proof -
  obtain r where r: "srp_client_new L fill default_group (ef_salt f) (negotiated_version f = 2) = Some r"
    using srp_client_new_default by fast
  show ?thesis
  proof (cases r)
    case (Inr c)
    then have c: "client_wf c" using srp_client_new_wf(1) [OF L default_group_wf] r by (simp add: res_ok_def)
    obtain a where "srp_client_a L c = Some a" using srp_client_a_total [OF L c] by blast
    with assms r Inr c show ?thesis by (auto simp: ae_challenge_def challenge_group_def)
  qed (use assms r in \<open>auto simp: ae_challenge_def challenge_group_def\<close>)
qed

lemma ae_server_key_ok:
  assumes L: "lib_ok L" and ok: "ae_ok st"
  shows "keeps_ae (ae_server_key L st f)"
proof (cases "ae_client st")
  case (Some c)
  then have c: "client_wf c" using ok by (simp add: ae_ok_def)
  note k = compute_key_total [OF L c, of "ef_public f" "ae_username st" "ae_password st"]
  obtain r where r: "compute_key L c (ef_public f) (ae_username st) (ae_password st) = Some r" using k by fast
  show ?thesis
  proof (cases r)
    case (Inr c')
    then have "client_wf c'" using k [of c'] r by (simp add: res_ok_def)
    with Some r Inr show ?thesis by (simp add: ae_server_key_def Let_def)
  qed (use Some r ok in \<open>simp add: ae_server_key_def Let_def\<close>)
qed (use ok in \<open>simp add: ae_server_key_def\<close>)

lemma ae_handle_ok:
  assumes L: "lib_ok L" and ok: "ae_ok st"
  shows "keeps_ae (ae_handle L fill st f)"
proof -
  have "keeps_ae (ae_dispatch L fill st f)" if "ae_ok st" for st
    using that ae_challenge_ok [OF L that] ae_server_key_ok [OF L that]
    by (auto simp: ae_dispatch_def ae_identity_request_def ae_server_validator_def Let_def split: eap_kind.split option.split)
  then show ?thesis using ok ae_restart_ok by (simp add: ae_handle_def Let_def)
qed

lemma ae_recv_ok:
  assumes L: "lib_ok L" and ok: "ae_ok st"
  shows "keeps_ae (ae_recv L fill st payload)"
proof -
  obtain r where r: "eap_parse payload = Some r" using eap_parse_returns [of payload] by (auto simp: returns_def)
  show ?thesis
  proof (cases r)
    case (Inr f)
    obtain rp st' where "ae_handle L fill st f = Some (rp, st')" "ae_ok st'"
      using ae_handle_ok [OF L ok, of fill f] by (auto simp: keeps_ae_def split: option.splits)
    with r Inr ok show ?thesis by (simp add: ae_recv_def)
  qed (use r ok in \<open>simp add: ae_recv_def\<close>)
qed

section \<open>The invariant of the authenticator\<close>

definition ar_ok :: "authenticator \<Rightarrow> bool" where
  "ar_ok st \<longleftrightarrow> (case ar_server st of None \<Rightarrow> True | Some s \<Rightarrow> server_wf s)
     \<and> (ar_state st = Authed \<longrightarrow> ar_verified st)"

definition keeps_ar :: "(eap_reply \<times> authenticator) option \<Rightarrow> bool" where
  "keeps_ar m \<longleftrightarrow> (case m of None \<Rightarrow> False | Some (r, st) \<Rightarrow> ar_ok st)"

lemma keeps_ar_simps [simp]:
  "keeps_ar (Some (r, st)) = ar_ok st"
  "keeps_ar (ar_fail e st) = ar_ok (st\<lparr>ar_state := Auth_Failed\<rparr>)"
  by (simp_all add: keeps_ar_def ar_fail_def)

lemma ar_identity_response_ok:
  assumes L: "lib_ok L" and ok: "ar_ok st"
  shows "keeps_ar (ar_identity_response L fill st f)"
proof (cases "ar_lookup st (ef_username f)")
  case (Some vs)
  obtain v salt where vs: "vs = (v, salt)" by fastforce
  obtain r where r: "srp_server_new L fill default_group v salt (ar_legacy st) = Some r"
    using srp_server_new_default [OF L] by fast
  show ?thesis
  proof (cases r)
    case (Inr s)
    then have "server_wf s" using srp_server_new_wf(1) [OF L default_group_wf] r by (simp add: res_ok_def)
    with Some vs r Inr show ?thesis by (simp add: ar_identity_response_def ar_ok_def Let_def)
  qed (use Some vs r ok in \<open>simp add: ar_identity_response_def ar_ok_def\<close>)
qed (use ok in \<open>simp add: ar_identity_response_def ar_ok_def\<close>)

lemma ar_client_key_ok:
  assumes L: "lib_ok L" and ok: "ar_ok st"
  shows "keeps_ar (ar_client_key L st f)"
proof (cases "ar_server st")
  case (Some s)
  then have s: "server_wf s" using ok by (simp add: ar_ok_def)
  obtain r where r: "handle_a L s (ef_public f) = Some r" using handle_a_total by fast
  show ?thesis
  proof (cases r)
    case (Inr s')
    then have s': "server_wf s'" using handle_a_wf [OF L s] r by (simp add: res_ok_def)
    obtain b where "srp_server_b L s' = Some b" using srp_server_b_total [OF L s'] by blast
    with Some r Inr s' ok show ?thesis by (simp add: ar_client_key_def ar_ok_def Let_def)
  qed (use Some r ok s in \<open>simp add: ar_client_key_def ar_ok_def\<close>)
qed (use ok in \<open>simp add: ar_client_key_def ar_ok_def\<close>)

lemma ar_client_validator_ok:
  assumes L: "lib_ok L" and ok: "ar_ok st"
  shows "keeps_ar (ar_client_validator L st f)"
proof (cases "ar_server st")
  case (Some s)
  then have s: "server_wf s" using ok by (simp add: ar_ok_def)
  obtain b s' where v: "verify_m1 L s (ar_username st) (ef_proof f) = Some (b, s')" "server_wf s'"
    using verify_m1_total [OF L s, of "ar_username st" "ef_proof f"] by (auto split: option.splits)
  with Some ok show ?thesis by (simp add: ar_client_validator_def ar_ok_def Let_def)
qed (use ok in \<open>simp add: ar_client_validator_def ar_ok_def\<close>)

lemma ar_handle_ok:
  assumes L: "lib_ok L" and ok: "ar_ok st"
  shows "keeps_ar (ar_handle L fill st f)"
proof -
  have start: "keeps_ar (ar_handle_start st)" "keeps_ar (ar_logoff st)" "keeps_ar (ar_acknowledged st)"
    "ar_ok (st\<lparr>ar_state := Auth_Failed\<rparr>)"
    using ok by (auto simp: ar_handle_start_def ar_logoff_def ar_acknowledged_def ar_start_def ar_restart_def ar_ok_def Let_def)
  show ?thesis
    using ok start ar_identity_response_ok [OF L ok] ar_client_key_ok [OF L ok] ar_client_validator_ok [OF L ok]
    by (auto simp: ar_handle_def ar_dispatch_def split: eap_kind.split)
qed

lemma ar_recv_ok:
  assumes L: "lib_ok L" and ok: "ar_ok st"
  shows "keeps_ar (ar_recv L fill st payload)"
proof -
  obtain r where r: "eap_parse payload = Some r" using eap_parse_returns [of payload] by (auto simp: returns_def)
  show ?thesis
  proof (cases r)
    case (Inr f)
    obtain rp st' where "ar_handle L fill st f = Some (rp, st')" "ar_ok st'"
      using ar_handle_ok [OF L ok, of fill f] by (auto simp: keeps_ar_def split: option.splits)
    with r Inr ok show ?thesis by (simp add: ar_recv_def ar_ok_def)
  qed (use r ok in \<open>simp add: ar_recv_def\<close>)
qed

section \<open>The two machines\<close>

text \<open>Everything a host can do to a role; a received payload comes with the random draws it may consume. The
  state carries the libraries.\<close>

datatype ae_input = AE_Start | AE_Restart | AE_Use_Key bool | AE_Recv "nat \<Rightarrow> bytes option" bytes

fun ae_step :: "srp_lib \<times> authenticatee \<Rightarrow> ae_input \<Rightarrow> (srp_lib \<times> authenticatee) option" where
  "ae_step (L, st) AE_Start = Some (L, snd (ae_start st))"
| "ae_step (L, st) AE_Restart = Some (L, ae_restart st)"
| "ae_step (L, st) (AE_Use_Key b) = Some (L, ae_set_use_key_passphrase b st)"
| "ae_step (L, st) (AE_Recv fill payload) = do { (r, st) \<leftarrow> ae_recv L fill st payload; Some (L, st) }"

datatype ar_input = AR_Start | AR_Restart | AR_Use_Key bool | AR_Seed u8 | AR_Recv "nat \<Rightarrow> bytes option" bytes

fun ar_step :: "srp_lib \<times> authenticator \<Rightarrow> ar_input \<Rightarrow> (srp_lib \<times> authenticator) option" where
  "ar_step (L, st) AR_Start = Some (L, snd (ar_start st))"
| "ar_step (L, st) AR_Restart = Some (L, ar_restart st)"
| "ar_step (L, st) (AR_Use_Key b) = Some (L, ar_set_use_key_passphrase b st)"
| "ar_step (L, st) (AR_Seed n) = Some (L, seed_identifier n st)"
| "ar_step (L, st) (AR_Recv fill payload) = do { (r, st) \<leftarrow> ar_recv L fill st payload; Some (L, st) }"

definition ae_inv :: "srp_lib \<times> authenticatee \<Rightarrow> bool" where
  "ae_inv p \<longleftrightarrow> lib_ok (fst p) \<and> ae_ok (snd p)"

definition ar_inv :: "srp_lib \<times> authenticator \<Rightarrow> bool" where
  "ar_inv p \<longleftrightarrow> lib_ok (fst p) \<and> ar_ok (snd p)"

lemma ae_step_total: "ae_inv p \<Longrightarrow> \<exists>p'. ae_step p i = Some p' \<and> ae_inv p'"
proof (cases i)
  case (AE_Recv fill payload)
  assume "ae_inv p"
  moreover obtain L st where p: "p = (L, st)" by fastforce
  ultimately have "keeps_ae (ae_recv L fill st payload)" "lib_ok L" using ae_recv_ok by (simp_all add: ae_inv_def)
  then show ?thesis using AE_Recv p by (auto simp: keeps_ae_def ae_inv_def split: option.splits)
qed (cases p; simp add: ae_inv_def ae_start_def ae_restart_ok ae_set_use_key_passphrase_def)+

lemma ar_step_total: "ar_inv p \<Longrightarrow> \<exists>p'. ar_step p i = Some p' \<and> ar_inv p'"
proof (cases i)
  case (AR_Recv fill payload)
  assume "ar_inv p"
  moreover obtain L st where p: "p = (L, st)" by fastforce
  ultimately have "keeps_ar (ar_recv L fill st payload)" "lib_ok L" using ar_recv_ok by (simp_all add: ar_inv_def)
  then show ?thesis using AR_Recv p by (auto simp: keeps_ar_def ar_inv_def split: option.splits)
qed (cases p; simp add: ar_inv_def ar_start_def ar_restart_def seed_identifier_def ar_set_use_key_passphrase_def ar_ok_def)+

interpretation client_machine: total_machine ae_step ae_inv
  by unfold_locales (rule ae_step_total)

interpretation server_machine: total_machine ar_step ar_inv
  by unfold_locales (rule ar_step_total)

end
