(* ===== verification/Eap_Props.thy ===== *)
theory Eap_Props
  imports Eap_Inv
begin

text \<open>
  The EAP-SRP roles: neither panics on any input, neither authenticates without a checked proof of the peer,
  a full exchange over the wire ends with both authenticated under the same key, and the authenticator's
  identity is not tied to the proof.
\<close>

section \<open>Where a session comes from\<close>

lemma ae_dispatch_session:
  assumes "ae_dispatch L fill st f = Some (r, st')" "ae_state st' = Authed"
  shows "(ae_state st = Authed \<and> ae_session st' = ae_session st) \<or>
    (ef_kind f = Kind_Server_Validator \<and>
     (\<exists>c. ae_client st = Some c \<and> verify_m2 L c (ef_proof f) \<and> ae_session st' = srp_client_key c))"
  using assms
  by (auto simp: ae_dispatch_def ae_identity_request_def ae_challenge_def ae_server_key_def ae_server_validator_def
      ae_fail_def Let_def split: eap_kind.splits option.splits sum.splits if_splits Option.bind_splits)

lemma ae_handle_session:
  assumes "ae_handle L fill st f = Some (r, st')" "ae_state st' = Authed"
  shows "(ae_state st = Authed \<and> ae_session st' = ae_session st) \<or>
    (ef_kind f = Kind_Server_Validator \<and>
     (\<exists>c. ae_client st = Some c \<and> verify_m2 L c (ef_proof f) \<and> ae_session st' = srp_client_key c))"
proof (cases "ef_kind f = Kind_Identity_Request")
  case True
  then show ?thesis using assms
    by (auto simp: ae_handle_def ae_dispatch_def ae_identity_request_def server_driven_def Let_def ae_restart_def
        split: if_splits)
next
  case False
  then show ?thesis using assms ae_dispatch_session [of L fill st f r st']
    by (auto simp: ae_handle_def ae_fail_def Let_def split: if_splits)
qed

lemma ar_dispatch_session:
  assumes "ar_dispatch L fill st f = Some (r, st')" "ar_verified st'"
  shows "(ar_verified st \<and> ar_session st' = ar_session st) \<or>
    (ef_kind f = Kind_Client_Validator \<and>
     (\<exists>s s'. ar_server st = Some s \<and> verify_m1 L s (ar_username st) (ef_proof f) = Some (True, s')
        \<and> ar_session st' = srp_server_key s'))"
  using assms
  by (auto simp: ar_dispatch_def ar_handle_start_def ar_logoff_def ar_identity_response_def ar_client_key_def
      ar_client_validator_def ar_acknowledged_def ar_fail_def ar_start_def ar_restart_def Let_def
      split: eap_kind.splits option.splits sum.splits if_splits Option.bind_splits)

lemma ar_handle_session:
  assumes "ar_handle L fill st f = Some (r, st')" "ar_verified st'"
  shows "(ar_verified st \<and> ar_session st' = ar_session st) \<or>
    (ef_kind f = Kind_Client_Validator \<and>
     (\<exists>s s'. ar_server st = Some s \<and> verify_m1 L s (ar_username st) (ef_proof f) = Some (True, s')
        \<and> ar_session st' = srp_server_key s'))"
  using assms ar_dispatch_session [of L fill st f r st'] by (auto simp: ar_handle_def split: if_splits)

lemma ae_recv_session:
  assumes "ae_recv L fill st payload = Some (r, st')" "ae_state st' = Authed"
  shows "(ae_state st = Authed \<and> ae_session st' = ae_session st) \<or>
    (\<exists>f c. eap_parse payload = res_ok f \<and> ef_kind f = Kind_Server_Validator \<and>
      ae_client st = Some c \<and> verify_m2 L c (ef_proof f) \<and> ae_session st' = srp_client_key c)"
  using assms ae_handle_session [of L fill st]
  by (fastforce simp: ae_recv_def res_ok_def split: if_splits option.splits sum.splits Option.bind_splits)

lemma ar_recv_session:
  assumes "ar_recv L fill st payload = Some (r, st')" "ar_verified st'"
  shows "(ar_verified st \<and> ar_session st' = ar_session st) \<or>
    (\<exists>f s s'. eap_parse payload = res_ok f \<and> ef_kind f = Kind_Client_Validator \<and> ar_server st = Some s \<and>
      verify_m1 L s (ar_username st) (ef_proof f) = Some (True, s') \<and> ar_session st' = srp_server_key s')"
  using assms ar_handle_session [of L fill st]
  by (fastforce simp: ar_recv_def res_ok_def split: if_splits option.splits sum.splits Option.bind_splits)

text \<open>A checked proof in the history of a role: an earlier input carried it, and it is the source of the
  session key.\<close>

definition ae_proof_in :: "srp_lib \<Rightarrow> authenticatee \<Rightarrow> ae_input list \<Rightarrow> bytes option \<Rightarrow> bool" where
  "ae_proof_in L st0 is key \<longleftrightarrow>
     (\<exists>pre fill payload post st f c. is = pre @ AE_Recv fill payload # post
        \<and> run_steps ae_step (L, st0) pre = Some (L, st) \<and> eap_parse payload = res_ok f
        \<and> ef_kind f = Kind_Server_Validator \<and> ae_client st = Some c \<and> verify_m2 L c (ef_proof f)
        \<and> key = srp_client_key c)"

definition ar_proof_in :: "srp_lib \<Rightarrow> authenticator \<Rightarrow> ar_input list \<Rightarrow> bytes option \<Rightarrow> bool" where
  "ar_proof_in L st0 is key \<longleftrightarrow>
     (\<exists>pre fill payload post st f s s'. is = pre @ AR_Recv fill payload # post
        \<and> run_steps ar_step (L, st0) pre = Some (L, st) \<and> eap_parse payload = res_ok f
        \<and> ef_kind f = Kind_Client_Validator \<and> ar_server st = Some s
        \<and> verify_m1 L s (ar_username st) (ef_proof f) = Some (True, s') \<and> key = srp_server_key s')"

lemma ae_proof_snoc: "ae_proof_in L st0 is key \<Longrightarrow> ae_proof_in L st0 (is @ [i]) key"
  unfolding ae_proof_in_def by (metis append.assoc append_Cons)

lemma ar_proof_snoc: "ar_proof_in L st0 is key \<Longrightarrow> ar_proof_in L st0 (is @ [i]) key"
  unfolding ar_proof_in_def by (metis append.assoc append_Cons)

lemma ae_step_lib: "ae_step (L, st) i = Some (L', st') \<Longrightarrow> L' = L"
  by (cases i) (auto split: Option.bind_splits)

lemma ar_step_lib: "ar_step (L, st) i = Some (L', st') \<Longrightarrow> L' = L"
  by (cases i) (auto split: Option.bind_splits)

lemma ae_history:
  assumes "ae_state st0 \<noteq> Authed" "run_steps ae_step (L, st0) is = Some (L', st)"
  shows "L' = L \<and> (ae_state st = Authed \<longrightarrow> ae_proof_in L st0 is (ae_session st))"
  using assms(2)
proof (induction "is" arbitrary: L' st rule: rev_induct)
  case (snoc i "is")
  then obtain L1 st1 where run: "run_steps ae_step (L, st0) is = Some (L1, st1)" and step: "ae_step (L1, st1) i = Some (L', st)"
    by (auto simp: run_steps_append split: option.splits)
  have L1: "L1 = L" and L': "L' = L" using snoc.IH [OF run] ae_step_lib [OF step] by auto
  have "ae_proof_in L st0 (is @ [i]) (ae_session st)" if authed: "ae_state st = Authed"
  proof -
    have "(ae_state st1 = Authed \<and> ae_session st = ae_session st1) \<or>
      (\<exists>fill payload f c. i = AE_Recv fill payload \<and> eap_parse payload = res_ok f \<and> ef_kind f = Kind_Server_Validator \<and>
        ae_client st1 = Some c \<and> verify_m2 L c (ef_proof f) \<and> ae_session st = srp_client_key c)"
    proof (cases i)
      case (AE_Recv fill payload)
      then obtain r where "ae_recv L fill st1 payload = Some (r, st)"
        using step L1 by (auto split: Option.bind_splits)
      from ae_recv_session [OF this authed] AE_Recv show ?thesis by blast
    qed (use step authed L1 in \<open>auto simp: ae_start_def ae_restart_def ae_set_use_key_passphrase_def split: if_splits\<close>)
    then show ?thesis
    proof
      assume "ae_state st1 = Authed \<and> ae_session st = ae_session st1"
      then show ?thesis using snoc.IH [OF run] ae_proof_snoc by auto
    next
      assume "\<exists>fill payload f c. i = AE_Recv fill payload \<and> eap_parse payload = res_ok f
        \<and> ef_kind f = Kind_Server_Validator \<and> ae_client st1 = Some c \<and> verify_m2 L c (ef_proof f)
        \<and> ae_session st = srp_client_key c"
      then show ?thesis using run L1 unfolding ae_proof_in_def by blast
    qed
  qed
  with L' show ?case by blast
qed (use assms(1) in simp)

lemma ar_history:
  assumes "\<not> ar_verified st0" "run_steps ar_step (L, st0) is = Some (L', st)"
  shows "L' = L \<and> (ar_verified st \<longrightarrow> ar_proof_in L st0 is (ar_session st))"
  using assms(2)
proof (induction "is" arbitrary: L' st rule: rev_induct)
  case (snoc i "is")
  then obtain L1 st1 where run: "run_steps ar_step (L, st0) is = Some (L1, st1)" and step: "ar_step (L1, st1) i = Some (L', st)"
    by (auto simp: run_steps_append split: option.splits)
  have L1: "L1 = L" and L': "L' = L" using snoc.IH [OF run] ar_step_lib [OF step] by auto
  have "ar_proof_in L st0 (is @ [i]) (ar_session st)" if verified: "ar_verified st"
  proof -
    have "(ar_verified st1 \<and> ar_session st = ar_session st1) \<or>
      (\<exists>fill payload f s s'. i = AR_Recv fill payload \<and> eap_parse payload = res_ok f \<and> ef_kind f = Kind_Client_Validator \<and>
        ar_server st1 = Some s \<and> verify_m1 L s (ar_username st1) (ef_proof f) = Some (True, s')
        \<and> ar_session st = srp_server_key s')"
    proof (cases i)
      case (AR_Recv fill payload)
      then obtain r where "ar_recv L fill st1 payload = Some (r, st)"
        using step L1 by (auto split: Option.bind_splits)
      from ar_recv_session [OF this verified] AR_Recv show ?thesis by blast
    qed (use step verified L1 in \<open>auto simp: ar_start_def ar_restart_def seed_identifier_def ar_set_use_key_passphrase_def split: if_splits\<close>)
    then show ?thesis
    proof
      assume "ar_verified st1 \<and> ar_session st = ar_session st1"
      then show ?thesis using snoc.IH [OF run] ar_proof_snoc by auto
    next
      assume "\<exists>fill payload f s s'. i = AR_Recv fill payload \<and> eap_parse payload = res_ok f
        \<and> ef_kind f = Kind_Client_Validator \<and> ar_server st1 = Some s
        \<and> verify_m1 L s (ar_username st1) (ef_proof f) = Some (True, s') \<and> ar_session st = srp_server_key s'"
      then show ?thesis using run L1 unfolding ar_proof_in_def by blast
    qed
  qed
  with L' show ?case by blast
qed (use assms(1) in simp)

section \<open>Frames of an exchange\<close>

lemma eap_encode_inject: "eap_canonical f \<Longrightarrow> eap_canonical g \<Longrightarrow> eap_encode f = eap_encode g \<longleftrightarrow> f = g"
  using eap_parse_encode by (metis res_inject(1))

lemma ae_recv_frame:
  assumes "eap_canonical f" "ae_last_rx st \<noteq> Some (eap_encode f)" "ae_handle L fill st f = Some (r, st')"
  shows "ae_recv L fill st (eap_encode f) = Some (r, if rp_error r = None
    then st'\<lparr>ae_last_rx := Some (eap_encode f), ae_last_reply := rp_frame r\<rparr> else st')"
  using assms eap_parse_encode [OF assms(1)] by (auto simp: ae_recv_def res_ok_def)

lemma ar_recv_frame:
  assumes "eap_canonical f" "ar_last_rx st \<noteq> Some (eap_encode f)" "ar_handle L fill st f = Some (r, st')"
  shows "ar_recv L fill st (eap_encode f) = Some (r, if rp_error r = None
    then st'\<lparr>ar_last_rx := Some (eap_encode f), ar_last_reply := rp_frame r\<rparr> else st')"
  using assms eap_parse_encode [OF assms(1)] by (auto simp: ar_recv_def res_ok_def)

text \<open>The exchange of a client and a server over a lossless link: each reply is encoded and handed to the other
  side, for at most the number of deliveries given, until one side has nothing to send.\<close>

fun eap_talk :: "srp_lib \<Rightarrow> (nat \<Rightarrow> bytes option) \<Rightarrow> (nat \<Rightarrow> bytes option) \<Rightarrow> nat \<Rightarrow> bool \<Rightarrow> eap_frame
    \<Rightarrow> authenticatee \<times> authenticator \<Rightarrow> (authenticatee \<times> authenticator) option" where
  "eap_talk L fc fs 0 to_server f cs = None"
| "eap_talk L fc fs (Suc n) True f (c, s) =
     do { (r, s) \<leftarrow> ar_recv L fs s (eap_encode f);
          case rp_frame r of None \<Rightarrow> Some (c, s) | Some g \<Rightarrow> eap_talk L fc fs n False g (c, s) }"
| "eap_talk L fc fs (Suc n) False f (c, s) =
     do { (r, c) \<leftarrow> ae_recv L fc c (eap_encode f);
          case rp_frame r of None \<Rightarrow> Some (c, s) | Some g \<Rightarrow> eap_talk L fc fs n True g (c, s) }"

definition eap_msg :: "u8 \<Rightarrow> eap_code \<Rightarrow> u8 \<Rightarrow> eap_kind \<Rightarrow> eap_frame" where
  "eap_msg v c i k = eap_frame_default\<lparr>ef_version := v, ef_code := c, ef_identifier := i, ef_kind := k\<rparr>"

lemma eap_msg_canonical:
  assumes "v \<noteq> 0"
  shows "eap_canonical start_frame"
    "eap_canonical (eap_msg v Code_Request i Kind_Identity_Request)"
    "utf8_valid u \<Longrightarrow> length u \<le> 255 \<Longrightarrow> eap_canonical (eap_msg v Code_Response i Kind_Identity_Response\<lparr>ef_username := u\<rparr>)"
    "length salt \<le> 1024 \<Longrightarrow> eap_canonical (eap_msg v Code_Request i Kind_Challenge\<lparr>ef_salt := salt\<rparr>)"
    "length p = 256 \<Longrightarrow> eap_canonical (eap_msg v Code_Response i Kind_Client_Key\<lparr>ef_public := p\<rparr>)"
    "length p = 256 \<Longrightarrow> eap_canonical (eap_msg v Code_Request i Kind_Server_Key\<lparr>ef_public := p\<rparr>)"
    "length m = 32 \<Longrightarrow> eap_canonical (eap_msg v Code_Response i Kind_Client_Validator\<lparr>ef_proof := m\<rparr>)"
    "length m = 32 \<Longrightarrow> eap_canonical (eap_msg v Code_Request i Kind_Server_Validator\<lparr>ef_proof := m\<rparr>)"
    "eap_canonical (eap_msg v Code_Success i Kind_Success)"
  using assms
  by (simp_all add: eap_canonical_def eap_shape_def eap_fields_def encode_body_def eap_msg_def start_frame_def
      eap_frame_default_def eap_version_3_def)

lemma eap_msg_simps [simp]:
  "ef_version (eap_msg v c i k) = v" "ef_code (eap_msg v c i k) = c"
  "ef_identifier (eap_msg v c i k) = i" "ef_kind (eap_msg v c i k) = k"
  "ef_kind start_frame = Kind_Start" "ef_gen_g (eap_msg v c i k) = []"
  by (simp_all add: eap_msg_def start_frame_def eap_frame_default_def)

lemma handshake_run:
  assumes L: "lib_ok L" and c: "authenticatee_new user pw = Inr c" and u8: "utf8_valid user"
    and look: "lookup user = Some (v, salt)" and v: "make_verifier L default_group user pw salt = Some v"
    and cl: "srp_client_new L fc default_group salt legacy = res_ok cl"
    and sv: "srp_server_new L fs default_group v salt legacy = res_ok sv"
    and uv: "u_value L default_group (sc_pub_a cl) (sv_pub_b sv) legacy = Some uv" "uv mod default_n \<noteq> 0"
  shows "\<exists>c' s' key. eap_talk L fc fs 9 True (fst (ae_start c))
      (snd (ae_start c), seed_identifier n (authenticator_with_mode lookup legacy)) = Some (c', s')
    \<and> ae_authenticated c' \<and> ar_authenticated s' \<and> ar_username s' = user
    \<and> ae_session c' = Some key \<and> ar_session s' = Some key"
proof -
  note cw = srp_client_new_wf [OF L default_group_wf cl]
  note sw = srp_server_new_wf [OF L default_group_wf sv]
  have A: "sc_pub_a cl \<noteq> 0" using cw(5) default_public_nonzero by simp
  obtain pa where pa: "srp_client_a L cl = Some pa" "length pa = 256"
    using srp_client_a_total [OF L cw(1)] cw(2) by auto
  obtain pb where pb: "srp_server_b L sv = Some pb" "length pb = 256"
    using srp_server_b_total [OF L sw(1)] sw(2) by auto
  define sv1 where "sv1 = sv\<lparr>sv_pub_a := Some (sc_pub_a cl)\<rparr>"
  have uv': "\<not> is_zero_mod uv (sg_n default_group)" using uv(2) by (simp add: is_zero_mod_eq)
  obtain cl1 sv2 m1 m2 key where X: "handle_a L sv pa = res_ok sv1" "compute_key L cl pb user pw = res_ok cl1"
    "srp_client_m1 cl1 = Some m1" "verify_m1 L sv1 user m1 = Some (True, sv2)" "srp_server_m2 sv2 = Some m2"
    "verify_m2 L cl1 m2" "length m1 = 32" "length m2 = 32" "srp_client_key cl1 = Some key" "srp_server_key sv2 = Some key"
    using srp_exchange [OF L default_group_wf cl sv v A uv(1) uv' pa(1) pb(1)] unfolding sv1_def by blast
  have pb1: "srp_server_b L sv1 = Some pb" using pb(1) by (simp add: srp_server_b_def sv1_def)
  have user: "user \<noteq> []" "length user \<le> 255" and c_eq: "c = \<lparr>ae_username = user, ae_password = pw, ae_state = Unauth,
      ae_id = 0, ae_id_valid = False, ae_client = None, ae_salt = [], ae_session = None, ae_use_key_passphrase = True,
      ae_last_rx = None, ae_last_reply = None\<rparr>"
    using c by (auto simp: authenticatee_new_def split: if_splits)
  have salt: "salt \<noteq> []" "length salt \<le> 1024"
    using sw(8) by (auto simp: validate_salt_def max_salt_len_def split: if_splits)
  define w :: u8 where "w = (if legacy then 2 else 3)"
  have w: "w \<noteq> 0" by (simp add: w_def)
  note can = eap_msg_canonical [OF w]
  have neg: "negotiated_version f = w" if "ef_version f = w" for f
    using that by (simp add: negotiated_version_def w_def eap_version_3_def)
  have leg: "(w = 2) = legacy" by (simp add: w_def)
  define F0 where "F0 = start_frame"
  define F1 where "F1 = eap_msg w Code_Request n Kind_Identity_Request"
  define F2 where "F2 = eap_msg w Code_Response n Kind_Identity_Response\<lparr>ef_username := user\<rparr>"
  define F3 where "F3 = eap_msg w Code_Request (n + 1) Kind_Challenge\<lparr>ef_salt := salt\<rparr>"
  define F4 where "F4 = eap_msg w Code_Response (n + 1) Kind_Client_Key\<lparr>ef_public := pa\<rparr>"
  define F5 where "F5 = eap_msg w Code_Request (n + 2) Kind_Server_Key\<lparr>ef_public := pb\<rparr>"
  define F6 where "F6 = eap_msg w Code_Response (n + 2) Kind_Client_Validator\<lparr>ef_proof := m1\<rparr>"
  define F7 where "F7 = eap_msg w Code_Request (n + 3) Kind_Server_Validator\<lparr>ef_proof := m2\<rparr>"
  define F8 where "F8 = eap_msg w Code_Success (n + 3) Kind_Success"
  note F = F0_def F1_def F2_def F3_def F4_def F5_def F6_def F7_def F8_def
  have cF: "eap_canonical F0" "eap_canonical F1" "eap_canonical F2" "eap_canonical F3" "eap_canonical F4"
    "eap_canonical F5" "eap_canonical F6" "eap_canonical F7" "eap_canonical F8"
    using can u8 user salt pa(2) pb(2) X(7,8) unfolding F by blast+
  have kF: "ef_kind F0 = Kind_Start" "ef_kind F1 = Kind_Identity_Request" "ef_kind F2 = Kind_Identity_Response"
    "ef_kind F3 = Kind_Challenge" "ef_kind F4 = Kind_Client_Key" "ef_kind F5 = Kind_Server_Key"
    "ef_kind F6 = Kind_Client_Validator" "ef_kind F7 = Kind_Server_Validator" "ef_kind F8 = Kind_Success"
    unfolding F by simp_all
  have dF: "eap_encode f \<noteq> eap_encode g" if "eap_canonical f" "eap_canonical g" "ef_kind f \<noteq> ef_kind g" for f g
    using that eap_encode_inject by auto
  define seen_c where "seen_c = (\<lambda>f g (st :: authenticatee). st\<lparr>ae_last_rx := Some (eap_encode f), ae_last_reply := Some g\<rparr>)"
  define seen_s where "seen_s = (\<lambda>f g (st :: authenticator). st\<lparr>ar_last_rx := Some (eap_encode f), ar_last_reply := g\<rparr>)"
  define c0 where "c0 = c\<lparr>ae_state := In_Progress\<rparr>"
  define s0 where "s0 = seed_identifier n (authenticator_with_mode lookup legacy)"
  have s0: "s0 = authenticator_with_mode lookup legacy\<lparr>ar_id := n\<rparr>"
    by (simp add: s0_def seed_identifier_def authenticator_with_mode_def)
  have ver: "ar_version st = w" if "ar_legacy st = legacy" for st
    using that by (simp add: ar_version_def w_def eap_version_3_def)
  define s1 where "s1 = seen_s F0 (Some F1) (s0\<lparr>ar_state := In_Progress\<rparr>)"
  define c1 where "c1 = seen_c F1 F2 (c0\<lparr>ae_id := n, ae_id_valid := True\<rparr>)"
  define s2 where "s2 = seen_s F2 (Some F3) (s1\<lparr>ar_server := Some sv, ar_username := user, ar_id := n + 1\<rparr>)"
  define c2 where "c2 = seen_c F3 F4 (c1\<lparr>ae_id := n + 1, ae_client := Some cl, ae_salt := salt\<rparr>)"
  define s3 where "s3 = seen_s F4 (Some F5) (s2\<lparr>ar_server := Some sv1, ar_id := n + 2\<rparr>)"
  define c3 where "c3 = seen_c F5 F6 (c2\<lparr>ae_id := n + 2, ae_client := Some cl1\<rparr>)"
  define s4 where "s4 = seen_s F6 (Some F7) (s3\<lparr>ar_server := Some sv2, ar_session := Some key, ar_verified := True, ar_id := n + 3\<rparr>)"
  define c4 where "c4 = seen_c F7 F8 (c3\<lparr>ae_id := n + 3, ae_session := Some key, ae_state := Authed\<rparr>)"
  define s5 where "s5 = seen_s F8 None (s4\<lparr>ar_state := Authed, ar_ever_authed := True, ar_id := n + 4\<rparr>)"
  note st = c0_def c1_def c2_def c3_def c4_def s1_def s2_def s3_def s4_def s5_def seen_c_def seen_s_def s0 c_eq
    authenticator_with_mode_def
  have r1: "ar_recv L fs s0 (eap_encode F0) = Some (reply_frame F1, s1)"
    by (subst ar_recv_frame [OF cF(1), where r = "reply_frame F1" and st' = "s0\<lparr>ar_state := In_Progress\<rparr>"])
      (simp_all add: st ar_handle_def ar_dispatch_def kF ar_handle_start_def ar_start_def ver F eap_msg_def reply_frame_def)
  have r2: "ae_recv L fc c0 (eap_encode F1) = Some (reply_frame F2, c1)"
    by (subst ae_recv_frame [OF cF(2), where r = "reply_frame F2" and st' = "c0\<lparr>ae_id := n, ae_id_valid := True\<rparr>"])
      (simp_all add: st ae_handle_def ae_dispatch_def kF ae_identity_request_def server_driven_def neg F Let_def reply_frame_def, simp add: eap_msg_def)
  have "ar_handle L fs s1 F2 = Some (reply_frame F3, s2\<lparr>ar_last_rx := ar_last_rx s1, ar_last_reply := ar_last_reply s1\<rparr>)"
    using sv look
    by (simp add: st ar_handle_def ar_dispatch_def kF ar_identity_response_def ver Let_def res_ok_def, simp add: F eap_msg_def ver Let_def)
  then have r3: "ar_recv L fs s1 (eap_encode F2) = Some (reply_frame F3, s2)"
    using dF [OF cF(3) cF(1)] kF by (subst ar_recv_frame [OF cF(3)]) (auto simp: s1_def s2_def seen_s_def reply_frame_def)
  have "ae_handle L fc c1 F3 = Some (reply_frame F4, c2\<lparr>ae_last_rx := ae_last_rx c1, ae_last_reply := ae_last_reply c1\<rparr>)"
    using cl pa salt
    by (simp add: st ae_handle_def ae_dispatch_def kF ae_challenge_def challenge_group_def server_driven_def neg leg F
        Let_def res_ok_def, simp add: eap_msg_def ver neg Let_def add.commute)
  then have r4: "ae_recv L fc c1 (eap_encode F3) = Some (reply_frame F4, c2)"
    using dF [OF cF(4) cF(2)] kF by (subst ae_recv_frame [OF cF(4)]) (auto simp: c1_def c2_def seen_c_def reply_frame_def)
  have "ar_handle L fs s2 F4 = Some (reply_frame F5, s3\<lparr>ar_last_rx := ar_last_rx s2, ar_last_reply := ar_last_reply s2\<rparr>)"
    using X(1) pb1
    by (simp add: st ar_handle_def ar_dispatch_def kF ar_client_key_def ver F Let_def res_ok_def, simp add: eap_msg_def ver neg Let_def add.commute)
  then have r5: "ar_recv L fs s2 (eap_encode F4) = Some (reply_frame F5, s3)"
    using dF [OF cF(5) cF(3)] kF by (subst ar_recv_frame [OF cF(5)]) (auto simp: s2_def s3_def seen_s_def reply_frame_def)
  have "ae_handle L fc c2 F5 = Some (reply_frame F6, c3\<lparr>ae_last_rx := ae_last_rx c2, ae_last_reply := ae_last_reply c2\<rparr>)"
    using X(2,3)
    by (simp add: st ae_handle_def ae_dispatch_def kF ae_server_key_def server_driven_def neg F Let_def res_ok_def,
        simp add: eap_msg_def ver neg Let_def add.commute)
  then have r6: "ae_recv L fc c2 (eap_encode F5) = Some (reply_frame F6, c3)"
    using dF [OF cF(6) cF(4)] kF by (subst ae_recv_frame [OF cF(6)]) (auto simp: c2_def c3_def seen_c_def reply_frame_def)
  have "ar_handle L fs s3 F6 = Some (reply_frame F7, s4\<lparr>ar_last_rx := ar_last_rx s3, ar_last_reply := ar_last_reply s3\<rparr>)"
    using X(4,5,10)
    by (simp add: st ar_handle_def ar_dispatch_def kF ar_client_validator_def ver F Let_def, simp add: eap_msg_def ver neg Let_def add.commute)
  then have r7: "ar_recv L fs s3 (eap_encode F6) = Some (reply_frame F7, s4)"
    using dF [OF cF(7) cF(5)] kF by (subst ar_recv_frame [OF cF(7)]) (auto simp: s3_def s4_def seen_s_def reply_frame_def)
  have "m2 \<noteq> []" using X(8) by auto
  then have "ae_handle L fc c3 F7 = Some (reply_frame F8, c4\<lparr>ae_last_rx := ae_last_rx c3, ae_last_reply := ae_last_reply c3\<rparr>)"
    using X(6,9)
    by (simp add: st ae_handle_def ae_dispatch_def kF ae_server_validator_def server_driven_def neg F Let_def,
        simp add: eap_msg_def ver neg Let_def add.commute)
  then have r8: "ae_recv L fc c3 (eap_encode F7) = Some (reply_frame F8, c4)"
    using dF [OF cF(8) cF(6)] kF by (subst ae_recv_frame [OF cF(8)]) (auto simp: c3_def c4_def seen_c_def reply_frame_def)
  have "ar_handle L fs s4 F8 = Some (reply_none, s5\<lparr>ar_last_rx := ar_last_rx s4, ar_last_reply := ar_last_reply s4\<rparr>)"
    by (simp add: st ar_handle_def ar_dispatch_def kF ar_acknowledged_def F)
  then have r9: "ar_recv L fs s4 (eap_encode F8) = Some (reply_none, s5)"
    using dF [OF cF(9) cF(7)] kF by (subst ar_recv_frame [OF cF(9)]) (auto simp: s4_def s5_def seen_s_def reply_none_def)
  have "eap_talk L fc fs 9 True F0 (c0, s0) = Some (c4, s5)"
    by (simp add: eval_nat_numeral r1 r2 r3 r4 r5 r6 r7 r8 r9 reply_frame_def reply_none_def)
  moreover have "ae_start c = (F0, c0)" by (simp add: ae_start_def c0_def F0_def c_eq)
  moreover have "ae_authenticated c4" "ar_authenticated s5" "ar_username s5 = user" "ae_session c4 = Some key"
    "ar_session s5 = Some key"
    by (simp_all add: ae_authenticated_def ar_authenticated_def c4_def s5_def s4_def s3_def s2_def seen_c_def seen_s_def)
  ultimately show ?thesis unfolding s0_def by auto
qed

lemma eap_talk_runs:
  "eap_talk L fc fs n to_server f (c, s) = Some (c', s') \<Longrightarrow>
   \<exists>xs ys. run_steps ar_step (L, s) xs = Some (L, s') \<and> run_steps ae_step (L, c) ys = Some (L, c')"
proof (induction n arbitrary: to_server f c s)
  case (Suc n)
  show ?case
  proof (cases to_server)
    case True
    with Suc.prems obtain r s1 where r: "ar_recv L fs s (eap_encode f) = Some (r, s1)"
      by (auto split: Option.bind_splits)
    then have one: "run_steps ar_step (L, s) (AR_Recv fs (eap_encode f) # xs) = run_steps ar_step (L, s1) xs" for xs
      by simp
    show ?thesis
    proof (cases "rp_frame r")
      case None
      then have "c' = c" "s' = s1" using Suc.prems True r by simp_all
      then show ?thesis using one [of "[]"] run_steps.simps(1) by metis
    next
      case (Some g)
      then obtain xs ys where "run_steps ar_step (L, s1) xs = Some (L, s')" "run_steps ae_step (L, c) ys = Some (L, c')"
        using Suc.IH [of False g c s1] Suc.prems True r by auto
      then show ?thesis using one by metis
    qed
  next
    case False
    with Suc.prems obtain r c1 where r: "ae_recv L fc c (eap_encode f) = Some (r, c1)"
      by (auto split: Option.bind_splits)
    then have one: "run_steps ae_step (L, c) (AE_Recv fc (eap_encode f) # ys) = run_steps ae_step (L, c1) ys" for ys
      by simp
    show ?thesis
    proof (cases "rp_frame r")
      case None
      then have "c' = c1" "s' = s" using Suc.prems False r by simp_all
      then show ?thesis using one [of "[]"] run_steps.simps(1) by metis
    next
      case (Some g)
      then obtain xs ys where "run_steps ar_step (L, s) xs = Some (L, s')" "run_steps ae_step (L, c1) ys = Some (L, c')"
        using Suc.IH [of True g c1 s] Suc.prems False r by auto
      then show ?thesis using one by metis
    qed
  qed
qed simp

section \<open>A sample exchange\<close>

text \<open>In the constant-hash library every hash is the number 1, so the exponents are small.\<close>

definition sample_ae_client :: srp_client where
  "sample_ae_client = \<lparr>sc_group = default_group, sc_salt = [1], sc_a = 1, sc_pub_a = 2, sc_legacy_pad = False,
     sc_computed = False, sc_key = replicate 32 0, sc_m1 = replicate 32 0\<rparr>"

definition sample_ar_server :: srp_server where
  "sample_ar_server = \<lparr>sv_group = default_group, sv_salt = [1], sv_v = 2, sv_b = 3, sv_pub_b = 10, sv_pub_a = None,
     sv_legacy_pad = False, sv_verified = False, sv_key = replicate 32 0, sv_m2 = replicate 32 0\<rparr>"

lemma toy_hash: "srp_hash toy_lib ps = replicate 31 0 @ [1]"
  by (simp add: srp_hash_def toy_lib_def)

lemma toy_hash_nat: "be_nat [b] = unat b"
  by (simp add: be_nat_def)

lemma toy_from_be: "sl_from_be toy_lib = be_nat" "sl_modpow toy_lib = (\<lambda>b e m. b ^ e mod m)"
  by (simp_all add: toy_lib_def)

lemma toy_scramble: "u_value toy_lib default_group a b False = Some 1" if "a < default_n" "b < default_n"
  using that srp_pad_total [OF toy_lib_ok group_length [OF default_group_wf]]
  by (simp add: u_value_def hash_padded_def toy_hash toy_from_be toy_hash_nat)

lemma toy_multiplier: "k_value toy_lib default_group False = Some 1"
  using srp_pad_total [OF toy_lib_ok group_length [OF default_group_wf]] default_n_large
  by (simp add: k_value_def hash_padded_def toy_hash toy_from_be toy_hash_nat)

lemma toy_secret: "x < default_n \<Longrightarrow> be_nat [b] = x \<Longrightarrow> read_secret toy_lib default_n (\<lambda>i. Some [b]) = res_ok x"
proof -
  assume "x < default_n" "be_nat [b] = x"
  then have "draw_secret toy_lib default_n 0 (\<lambda>i. Some [b]) 0 (Suc 255) = res_ok x"
    unfolding draw_secret.simps by (simp add: toy_from_be)
  then show ?thesis by (simp add: read_secret_def nbits_default_n)
qed

lemma default_n_over: "10 < default_n"
  by (simp add: default_n_def)

lemma sample_verifier: "make_verifier toy_lib default_group [0x61] [0x62] [1] = Some [2]"
  using default_n_large
  by (simp add: make_verifier_def validate_salt_def max_salt_len_def group_wf_valid calc_x_def toy_hash toy_from_be
      toy_hash_nat lib_simps(2) [OF toy_lib_ok] be_bytes.simps Let_def)

lemma sample_client_new: "srp_client_new toy_lib (\<lambda>i. Some [1]) default_group [1] False = res_ok sample_ae_client"
  using default_n_large toy_secret [of 1 1]
  by (simp add: srp_client_new_def validate_salt_def max_salt_len_def group_wf_valid toy_from_be sample_ae_client_def
      hash_len_def be_nat_def)

lemma sample_server_new: "srp_server_new toy_lib (\<lambda>i. Some [3]) default_group [2] [1] False = res_ok sample_ar_server"
  using default_n_large default_n_over toy_secret [of 3 3]
  by (simp add: srp_server_new_def validate_salt_def max_salt_len_def group_wf_valid toy_from_be sample_ar_server_def
      hash_len_def be_nat_def compute_b_def toy_multiplier Let_def is_zero_mod_eq)

definition sample_authenticatee :: authenticatee where
  "sample_authenticatee = \<lparr>ae_username = [0x61], ae_password = [0x62], ae_state = Unauth, ae_id = 0,
     ae_id_valid = False, ae_client = None, ae_salt = [], ae_session = None, ae_use_key_passphrase = True,
     ae_last_rx = None, ae_last_reply = None\<rparr>"

lemma sample_valid: "utf8_valid [0x61]" "utf8_valid [0x63]"
  by (simp_all add: utf8_valid.simps utf8_char_def byte_at_or_zero_def Let_def)

section \<open>Properties\<close>

text \<open>C5: The authentication completes. Over a lossless link, a client whose password made the server's verifier
  and a server that knows the user (in either hashing mode, whatever its first identifier) reach, within nine
  deliveries of encoded frames, a state where both report success, the server names the user, and both hold the
  same session key; the only thing assumed of the random draws is that they gave each side a secret and that the
  scrambling parameter is not zero.\<close>

theorem eap_handshake_completes:
  assumes "lib_ok L" and "authenticatee_new user pw = Inr c" and "utf8_valid user"
    and "lookup user = Some (v, salt)" and "make_verifier L default_group user pw salt = Some v"
    and "srp_client_new L fc default_group salt legacy = res_ok cl"
    and "srp_server_new L fs default_group v salt legacy = res_ok sv"
    and "u_value L default_group (sc_pub_a cl) (sv_pub_b sv) legacy = Some uv" and "uv mod default_n \<noteq> 0"
  shows "\<exists>c' s' key. eap_talk L fc fs 9 True (fst (ae_start c))
      (snd (ae_start c), seed_identifier n (authenticator_with_mode lookup legacy)) = Some (c', s')
    \<and> ae_authenticated c' \<and> ar_authenticated s' \<and> ar_username s' = user
    \<and> ae_session c' = Some key \<and> ar_session s' = Some key"
  by (rule handshake_run) (fact assms)+

theorem eap_handshake_completes_witness:
  "\<exists>c' s' key. eap_talk toy_lib (\<lambda>i. Some [1]) (\<lambda>i. Some [3]) 9 True (fst (ae_start sample_authenticatee))
      (snd (ae_start sample_authenticatee),
       seed_identifier 0xFE (authenticator_with_mode (static_verifier [0x61] [2] [1]) False)) = Some (c', s')
    \<and> ae_authenticated c' \<and> ar_authenticated s' \<and> ar_username s' = [0x61]
    \<and> ae_session c' = Some key \<and> ar_session s' = Some key"
proof (rule eap_handshake_completes)
  show "authenticatee_new [0x61] [0x62] = Inr sample_authenticatee"
    by (simp add: authenticatee_new_def sample_authenticatee_def)
  show "static_verifier [0x61] [2] [1] [0x61] = Some ([2], [1])" by (simp add: static_verifier_def)
  show "u_value toy_lib default_group (sc_pub_a sample_ae_client) (sv_pub_b sample_ar_server) False = Some 1"
    using toy_scramble [of 2 10] default_n_large default_n_over by (simp add: sample_ae_client_def sample_ar_server_def)
  show "1 mod default_n \<noteq> 0" using default_n_large by simp
qed (rule toy_lib_ok sample_valid sample_verifier sample_client_new sample_server_new)+

text \<open>C6: Neither role authenticates its peer without a proof. Whatever a host and the network do to an
  authenticator, if it reports success then an earlier received frame was a CLIENT-VALIDATOR whose M1 the SRP server
  of that moment accepted, and the session key is the one of that check; likewise an authenticatee reports success
  only after a SERVER-VALIDATOR whose M2 its SRP client accepted.\<close>

theorem eap_success_needs_proof:
  assumes "run_steps ar_step (L, authenticator_with_mode lookup legacy) is = Some (L1, s)"
    and "lib_ok L" and "ar_authenticated s"
    and "authenticatee_new user pw = Inr c0" and "run_steps ae_step (L, c0) js = Some (L2, c)" and "ae_authenticated c"
  shows "ar_proof_in L (authenticator_with_mode lookup legacy) is (ar_session s) \<and> ae_proof_in L c0 js (ae_session c)"
proof -
  have "ar_ok (authenticator_with_mode lookup legacy)" by (simp add: ar_ok_def authenticator_with_mode_def)
  then have "ar_inv (L, authenticator_with_mode lookup legacy)" using assms(2) by (simp add: ar_inv_def)
  from server_machine.run_inv [OF this assms(1)] have "ar_verified s"
    using assms(3) by (simp add: ar_inv_def ar_ok_def ar_authenticated_def)
  moreover have "\<not> ar_verified (authenticator_with_mode lookup legacy)" by (simp add: authenticator_with_mode_def)
  moreover have "ae_state c0 \<noteq> Authed" using assms(4) by (auto simp: authenticatee_new_def split: if_splits)
  ultimately show ?thesis
    using ar_history assms(1) ae_history [OF _ assms(5)] assms(6) unfolding ae_authenticated_def by blast
qed

theorem eap_success_needs_proof_witness:
  "\<exists>is js s c. run_steps ar_step (toy_lib, authenticator_with_mode (static_verifier [0x61] [2] [1]) False) is = Some (toy_lib, s)
    \<and> run_steps ae_step (toy_lib, sample_authenticatee) js = Some (toy_lib, c) \<and> ar_authenticated s \<and> ae_authenticated c
    \<and> ar_proof_in toy_lib (authenticator_with_mode (static_verifier [0x61] [2] [1]) False) is (ar_session s)
    \<and> ae_proof_in toy_lib sample_authenticatee js (ae_session c)"
proof -
  let ?s = "authenticator_with_mode (static_verifier [0x61] [2] [1]) False"
  have new: "authenticatee_new [0x61] [0x62] = Inr sample_authenticatee"
    by (simp add: authenticatee_new_def sample_authenticatee_def)
  obtain c s where talk: "eap_talk toy_lib (\<lambda>i. Some [1]) (\<lambda>i. Some [3]) 9 True (fst (ae_start sample_authenticatee))
      (snd (ae_start sample_authenticatee), seed_identifier 0 ?s) = Some (c, s)" and auth: "ae_authenticated c" "ar_authenticated s"
    using handshake_run [OF toy_lib_ok new sample_valid(1), where lookup = "static_verifier [0x61] [2] [1]" and v = "[2]"
        and salt = "[1]" and legacy = False and n = 0, OF _ sample_verifier sample_client_new sample_server_new, of 1]
      toy_scramble [of 2 10] default_n_large default_n_over
    by (auto simp: static_verifier_def sample_ae_client_def sample_ar_server_def)
  obtain "is" js where runs: "run_steps ar_step (toy_lib, seed_identifier 0 ?s) is = Some (toy_lib, s)"
    "run_steps ae_step (toy_lib, snd (ae_start sample_authenticatee)) js = Some (toy_lib, c)"
    using eap_talk_runs [OF talk] by blast
  have runs': "run_steps ar_step (toy_lib, ?s) (AR_Seed 0 # is) = Some (toy_lib, s)"
    "run_steps ae_step (toy_lib, sample_authenticatee) (AE_Start # js) = Some (toy_lib, c)"
    using runs by simp_all
  from eap_success_needs_proof [OF runs'(1) toy_lib_ok auth(2) new runs'(2) auth(1)] runs' auth
  show ?thesis by blast
qed

text \<open>No input makes either role panic: started, restarted, reconfigured and fed any payloads with any random
  draws in any order, both always return.\<close>

theorem eap_never_panics:
  assumes "lib_ok L" and "authenticatee_new user pw = Inr c"
  shows "run_steps ae_step (L, c) is \<noteq> None \<and> run_steps ar_step (L, authenticator_with_mode lookup legacy) js \<noteq> None"
proof -
  have "ae_inv (L, c)" using assms by (auto simp: ae_inv_def ae_ok_def authenticatee_new_def split: if_splits)
  moreover have "ar_inv (L, authenticator_with_mode lookup legacy)"
    using assms(1) by (simp add: ar_inv_def ar_ok_def authenticator_with_mode_def)
  ultimately show ?thesis using client_machine.run_never_panics server_machine.run_never_panics by blast
qed

theorem eap_never_panics_witness:
  "run_steps ae_step (toy_lib, sample_authenticatee) [AE_Start, AE_Recv (\<lambda>i. None) [3, 0, 0]] \<noteq> None
    \<and> run_steps ar_step (toy_lib, authenticator_with_mode (static_verifier [0x61] [2] [1]) False)
        [AR_Start, AR_Recv (\<lambda>i. None) [3, 1, 0, 0]] \<noteq> None"
  by (rule eap_never_panics [where user = "[0x61]" and pw = "[0x62]"])
    (simp_all add: toy_lib_ok authenticatee_new_def sample_authenticatee_def)

text \<open>An established session of the authenticatee survives forged frames: no received payload other than an
  IDENTITY REQUEST, failures, challenges and validators among them, takes it out of success or changes its session
  key or its SRP state.\<close>

theorem authenticatee_session_stable:
  assumes "ae_authenticated st" and "ae_recv L fill st payload = Some (r, st')"
    and "\<not> (\<exists>f. eap_parse payload = res_ok f \<and> ef_kind f = Kind_Identity_Request)"
  shows "ae_authenticated st' \<and> ae_session st' = ae_session st \<and> ae_client st' = ae_client st"
proof -
  have "ae_state st1 = Authed \<and> ae_session st1 = ae_session st \<and> ae_client st1 = ae_client st"
    if "eap_parse payload = Some (Inr f)" "ae_handle L fill st f = Some (r1, st1)" for f r1 st1
  proof -
    have "ef_kind f \<noteq> Kind_Identity_Request" using that(1) assms(3) by (auto simp: res_ok_def)
    then show ?thesis using that(2) assms(1)
      by (auto simp: ae_handle_def ae_dispatch_def server_driven_def ae_authenticated_def Let_def
          split: if_splits eap_kind.splits)
  qed
  then show ?thesis using assms(1,2)
    by (fastforce simp: ae_recv_def ae_authenticated_def split: if_splits option.splits sum.splits Option.bind_splits)
qed

theorem authenticatee_session_stable_witness:
  "ae_authenticated (sample_authenticatee\<lparr>ae_state := Authed, ae_session := Some [7], ae_last_rx := Some [3, 0, 0, 4, 4, 9, 0, 4],
      ae_last_reply := None\<rparr>)
    \<and> ae_session (sample_authenticatee\<lparr>ae_state := Authed, ae_session := Some [7], ae_last_rx := Some [3, 0, 0, 4, 4, 9, 0, 4],
      ae_last_reply := None\<rparr>) = ae_session (sample_authenticatee\<lparr>ae_state := Authed, ae_session := Some [7]\<rparr>)
    \<and> ae_client (sample_authenticatee\<lparr>ae_state := Authed, ae_session := Some [7], ae_last_rx := Some [3, 0, 0, 4, 4, 9, 0, 4],
      ae_last_reply := None\<rparr>) = ae_client (sample_authenticatee\<lparr>ae_state := Authed, ae_session := Some [7]\<rparr>)"
proof (rule authenticatee_session_stable)
  show "ae_authenticated (sample_authenticatee\<lparr>ae_state := Authed, ae_session := Some [7]\<rparr>)"
    by (simp add: ae_authenticated_def)
  have parse: "eap_parse [3, 0, 0, 4, 4, 9, 0, 4] = res_ok (eap_msg 3 Code_Failure 9 Kind_Failure)" by code_simp
  show "ae_recv toy_lib (\<lambda>i. None) (sample_authenticatee\<lparr>ae_state := Authed, ae_session := Some [7]\<rparr>) [3, 0, 0, 4, 4, 9, 0, 4]
    = Some (reply_none, sample_authenticatee\<lparr>ae_state := Authed, ae_session := Some [7],
        ae_last_rx := Some [3, 0, 0, 4, 4, 9, 0, 4], ae_last_reply := None\<rparr>)"
    using parse by (simp add: ae_recv_def res_ok_def ae_handle_def sample_authenticatee_def reply_none_def)
  show "\<not> (\<exists>f. eap_parse [3, 0, 0, 4, 4, 9, 0, 4] = res_ok f \<and> ef_kind f = Kind_Identity_Request)"
    using parse by simp
qed

text \<open>C8: The authenticator's identity is not bound to the proof. After a proof of any user was accepted
  (\<^verbatim>\<open>verified\<close>), an IDENTITY RESPONSE naming another user of the verifier table, with the current
  identifier, replaces the user name and the SRP server but not the mark, so the EAP-SUCCESS that follows makes the
  authenticator report success for that other user, under the session key of the first, with no proof by the other.\<close>

theorem authenticator_identity_not_bound:
  assumes "ar_verified st" and "utf8_valid other" and "length other \<le> 255"
    and "ar_lookup st other = Some (v, salt)"
    and "srp_server_new L fs default_group v salt (ar_legacy st) = res_ok sv"
    and "ar_last_rx st \<noteq> Some (eap_encode (eap_msg 3 Code_Response (ar_id st) Kind_Identity_Response\<lparr>ef_username := other\<rparr>))"
  shows "\<exists>r1 st1 r2 st2.
      ar_recv L fs st (eap_encode (eap_msg 3 Code_Response (ar_id st) Kind_Identity_Response\<lparr>ef_username := other\<rparr>)) = Some (r1, st1)
    \<and> ar_recv L fs st1 (eap_encode (eap_msg 3 Code_Success (ar_id st + 1) Kind_Success)) = Some (r2, st2)
    \<and> ar_authenticated st2 \<and> ar_username st2 = other \<and> ar_session st2 = ar_session st"
proof -
  let ?f = "eap_msg 3 Code_Response (ar_id st) Kind_Identity_Response\<lparr>ef_username := other\<rparr>"
  let ?g = "eap_msg 3 Code_Success (ar_id st + 1) Kind_Success"
  let ?st1 = "st\<lparr>ar_server := Some sv, ar_username := other, ar_state := In_Progress, ar_id := ar_id st + 1\<rparr>"
  have can: "eap_canonical ?f" "eap_canonical ?g"
    by (rule eap_msg_canonical; use assms in simp)+
  have "?f \<noteq> ?g" by (auto dest: arg_cong [of _ _ ef_kind])
  then have ne: "eap_encode ?f \<noteq> eap_encode ?g" using eap_encode_inject [OF can] by simp
  obtain r1 where h1: "ar_handle L fs st ?f = Some (r1, ?st1)" and r1: "rp_error r1 = None"
    using assms by (auto simp: ar_handle_def ar_dispatch_def ar_identity_response_def reply_frame_def res_ok_def Let_def)
  let ?st1' = "?st1\<lparr>ar_last_rx := Some (eap_encode ?f), ar_last_reply := rp_frame r1\<rparr>"
  have one: "ar_recv L fs st (eap_encode ?f) = Some (r1, ?st1')"
    using ar_recv_frame [OF can(1) assms(6) h1] r1 by simp
  have "ar_handle L fs ?st1' ?g = Some (reply_none, ?st1'\<lparr>ar_state := Authed, ar_ever_authed := True, ar_id := ar_id st + 2\<rparr>)"
    using assms(1) by (simp add: ar_handle_def ar_dispatch_def ar_acknowledged_def add.commute)
  from ar_recv_frame [OF can(2) _ this] ne
  have two: "ar_recv L fs ?st1' (eap_encode ?g) = Some (reply_none,
      ?st1'\<lparr>ar_state := Authed, ar_ever_authed := True, ar_id := ar_id st + 2,
        ar_last_rx := Some (eap_encode ?g), ar_last_reply := None\<rparr>)"
    by (simp add: reply_none_def)
  show ?thesis using one two by (fastforce simp: ar_authenticated_def)
qed

definition sample_verified :: authenticator where
  "sample_verified = authenticator_with_mode (\<lambda>u. Some ([2], [1])) False\<lparr>ar_state := In_Progress, ar_id := 3,
     ar_server := Some sample_ar_server, ar_username := [0x61], ar_session := Some [7], ar_verified := True\<rparr>"

theorem authenticator_identity_not_bound_witness:
  "\<exists>r1 st1 r2 st2.
      ar_recv toy_lib (\<lambda>i. Some [3]) sample_verified (eap_encode (eap_msg 3 Code_Response (ar_id sample_verified)
        Kind_Identity_Response\<lparr>ef_username := [0x63]\<rparr>)) = Some (r1, st1)
    \<and> ar_recv toy_lib (\<lambda>i. Some [3]) st1 (eap_encode (eap_msg 3 Code_Success (ar_id sample_verified + 1) Kind_Success)) = Some (r2, st2)
    \<and> ar_authenticated st2 \<and> ar_username st2 = [0x63] \<and> ar_session st2 = ar_session sample_verified"
  by (rule authenticator_identity_not_bound [where v = "[2]" and salt = "[1]" and sv = sample_ar_server])
    (simp_all add: sample_verified_def authenticator_with_mode_def sample_valid sample_server_new)

text \<open>A retransmission is answered from the cache. When a received payload was processed without an error, the
  same payload arriving again is answered with the same frame and leaves the role as it is, so no SRP side is rebuilt
  with a new secret.\<close>

lemma eap_retransmission_replays:
  assumes "ar_recv L fs st payload = Some (r, st')" and "rp_error r = None"
    and "ae_recv L fc ct payload' = Some (q, ct')" and "rp_error q = None" and "payload \<noteq> []" and "payload' \<noteq> []"
  shows "ar_recv L fs' st' payload = Some (r, st') \<and> ae_recv L fc' ct' payload' = Some (q, ct')"
proof -
  have "ar_last_rx st' = Some payload \<and> ar_last_reply st' = rp_frame r"
    using assms(1,2) by (auto simp: ar_recv_def reply_defs split: if_splits option.splits sum.splits Option.bind_splits)
  moreover have "ae_last_rx ct' = Some payload' \<and> ae_last_reply ct' = rp_frame q"
    using assms(3,4) by (auto simp: ae_recv_def reply_defs split: if_splits option.splits sum.splits Option.bind_splits)
  moreover have "(case rp_frame x of Some f \<Rightarrow> reply_frame f | None \<Rightarrow> reply_none) = x" if "rp_error x = None" for x
    using that by (cases x) (auto simp: reply_defs split: option.split)
  ultimately show ?thesis using assms by (simp add: ar_recv_def ae_recv_def)
qed

end
