(* ===== verification/Gre.thy ===== *)
theory Gre
  imports Fallible Clock
begin

text \<open>
  The GRE tunnel headers of the Main profile (\<^verbatim>\<open>rist-codec/src/gre.rs\<close>): the base header with its
  optional key and sequence fields, the reduced-overhead header, the VSF wrapper, the keep-alive body with its
  capability bits, and buffer negotiation.
\<close>

section \<open>Constants and errors\<close>

datatype gre_error =
    GreShortBuffer nat nat
  | GreNonConformant u8 u8
  | GreUnsupportedVsfProto u16
  | GreVersionTooLarge u8

definition proto_keepalive :: u16 where "proto_keepalive = 0x88B5"
definition proto_reduced :: u16 where "proto_reduced = 0x88B6"
definition proto_full :: u16 where "proto_full = 0x0800"
definition proto_eapol :: u16 where "proto_eapol = 0x888E"
definition proto_vsf :: u16 where "proto_vsf = 0xCCE0"
definition vsf_type_rist :: u16 where "vsf_type_rist = 0"
definition vsf_subtype_reduced :: u16 where "vsf_subtype_reduced = 0"
definition vsf_subtype_keepalive :: u16 where "vsf_subtype_keepalive = 0x8000"
definition vsf_subtype_future_nonce :: u16 where "vsf_subtype_future_nonce = 0x8001"
definition vsf_subtype_buffer_negotiation :: u16 where "vsf_subtype_buffer_negotiation = 0x8002"
definition gre_version_min :: u8 where "gre_version_min = 1"
definition gre_version_cur :: u8 where "gre_version_cur = 2"
definition default_virt_src_port :: u16 where "default_virt_src_port = 1971"
definition default_virt_dst_port :: u16 where "default_virt_dst_port = 1968"
definition gre_base_header_size :: nat where "gre_base_header_size = 4"
definition reduced_header_size :: nat where "reduced_header_size = 4"
definition vsf_proto_size :: nat where "vsf_proto_size = 4"
definition keepalive_size :: nat where "keepalive_size = 8"
definition adv_ext_size :: nat where "adv_ext_size = 4"
definition buffer_negotiation_size :: nat where "buffer_negotiation_size = 6"
definition nonce_size :: nat where "nonce_size = 4"
definition seq_size :: nat where "seq_size = 4"
definition bit_checksum :: nat where "bit_checksum = 7"
definition bit_reserved :: nat where "bit_reserved = 6"
definition bit_key :: nat where "bit_key = 5"
definition bit_seq :: nat where "bit_seq = 4"
definition bit_h :: nat where "bit_h = 6"
definition flags2_rver_shift :: nat where "flags2_rver_shift = 3"
definition flags2_rver_mask :: u8 where "flags2_rver_mask = 7"
definition flags2_low_mask :: u8 where "flags2_low_mask = 7"

lemmas gre_consts = proto_keepalive_def proto_reduced_def proto_full_def proto_eapol_def proto_vsf_def
  vsf_type_rist_def gre_base_header_size_def reduced_header_size_def vsf_proto_size_def keepalive_size_def
  adv_ext_size_def buffer_negotiation_size_def nonce_size_def seq_size_def bit_checksum_def bit_reserved_def
  bit_key_def bit_seq_def bit_h_def flags2_rver_shift_def flags2_rver_mask_def flags2_low_mask_def

definition is_reserved :: "u16 \<Rightarrow> bool" where
  "is_reserved prot_type \<longleftrightarrow>
     prot_type = proto_reduced \<or> prot_type = proto_keepalive \<or> prot_type = proto_eapol \<or> prot_type = proto_vsf"

section \<open>The base header\<close>

record gre_header =
  gh_version :: u8
  gh_has_key :: bool
  gh_has_seq :: bool
  gh_key_size_256 :: bool
  gh_nonce :: bytes
  gh_seq :: u32
  gh_prot_type :: u16

definition gre_size :: "gre_header \<Rightarrow> nat" where
  "gre_size h =
     gre_base_header_size + (if gh_has_key h then nonce_size else 0) + (if gh_has_seq h then seq_size else 0)"

text \<open>\<^verbatim>\<open>append_to\<close>: the bytes appended, or the error before anything is.\<close>

definition gre_encode :: "gre_header \<Rightarrow> gre_error + bytes" where
  "gre_encode h =
     (if flags2_rver_mask < gh_version h then Inl (GreVersionTooLarge (gh_version h))
      else
        let flags1 = 0;
            flags2 = push_bit flags2_rver_shift (gh_version h AND flags2_rver_mask);
            flags1 = (if gh_has_seq h then flags1 OR push_bit bit_seq 1 else flags1);
            flags1' = (if gh_has_key h then flags1 OR push_bit bit_key 1 else flags1);
            flags2 = (if gh_has_key h \<and> gh_key_size_256 h then flags2 OR push_bit bit_h 1 else flags2)
        in Inr ([flags1', flags2] @ be16 (gh_prot_type h) @ (if gh_has_key h then gh_nonce h else [])
             @ (if gh_has_seq h then be32 (gh_seq h) else [])))"

definition gre_parse :: "bytes \<Rightarrow> (gre_error, gre_header \<times> nat) result" where
  "gre_parse b =
     (if length b < gre_base_header_size then res_err (GreShortBuffer (length b) gre_base_header_size)
      else res_bind (res_lift (vec_get b 0)) (\<lambda>flags1.
        res_bind (res_lift (vec_get b 1)) (\<lambda>flags2.
          if flags1 AND push_bit bit_reserved 1 \<noteq> 0 \<or> flags2 AND flags2_low_mask \<noteq> 0
          then res_err (GreNonConformant flags1 flags2)
          else res_bind (res_lift (get_be16 b 2)) (\<lambda>prot_type.
            let has_key = (flags1 AND push_bit bit_key 1 \<noteq> 0);
                has_seq = (flags1 AND push_bit bit_seq 1 \<noteq> 0);
                h = \<lparr>gh_version = drop_bit flags2_rver_shift flags2 AND flags2_rver_mask, gh_has_key = has_key,
                     gh_has_seq = has_seq, gh_key_size_256 = False, gh_nonce = [0, 0, 0, 0], gh_seq = 0,
                     gh_prot_type = prot_type\<rparr>;
                h = (if has_key then h\<lparr>gh_key_size_256 := (flags2 AND push_bit bit_h 1 \<noteq> 0)\<rparr> else h);
                has_checksum = (flags1 AND push_bit bit_checksum 1 \<noteq> 0);
                need = gre_base_header_size + (if has_checksum then 4 else 0) + (if has_key then nonce_size else 0)
                  + (if has_seq then seq_size else 0)
            in if length b < need then res_err (GreShortBuffer (length b) need)
               else
                 let off = gre_base_header_size + (if has_checksum then 4 else 0) in
                 res_bind (if has_key
                   then res_bind (res_lift (vec_slice b off (off + nonce_size))) (\<lambda>nonce.
                     res_ok (h\<lparr>gh_nonce := nonce\<rparr>, off + nonce_size))
                   else res_ok (h, off)) (\<lambda>(h, off).
                 if has_seq
                 then res_bind (res_lift (get_be32 b off)) (\<lambda>seq. res_ok (h\<lparr>gh_seq := seq\<rparr>, off + seq_size))
                 else res_ok (h, off))))))"

section \<open>Reduced-overhead header and VSF wrapper\<close>

record reduced_header =
  rh_src_port :: u16
  rh_dst_port :: u16

definition reduced_header_default :: reduced_header where
  "reduced_header_default = \<lparr>rh_src_port = default_virt_src_port, rh_dst_port = default_virt_dst_port\<rparr>"

definition reduced_encode :: "reduced_header \<Rightarrow> bytes" where
  "reduced_encode h = be16 (rh_src_port h) @ be16 (rh_dst_port h)"

definition reduced_parse :: "bytes \<Rightarrow> (gre_error, reduced_header \<times> nat) result" where
  "reduced_parse b =
     (if length b < reduced_header_size then res_err (GreShortBuffer (length b) reduced_header_size)
      else res_bind (res_lift (get_be16 b 0)) (\<lambda>src. res_bind (res_lift (get_be16 b 2)) (\<lambda>dst.
        res_ok (\<lparr>rh_src_port = src, rh_dst_port = dst\<rparr>, reduced_header_size))))"

record vsf_proto =
  vp_ty :: u16
  vp_subtype :: u16

definition vsf_encode :: "vsf_proto \<Rightarrow> bytes" where
  "vsf_encode v = be16 (vp_ty v) @ be16 (vp_subtype v)"

definition vsf_parse :: "bytes \<Rightarrow> (gre_error, vsf_proto \<times> nat) result" where
  "vsf_parse b =
     (if length b < vsf_proto_size then res_err (GreShortBuffer (length b) vsf_proto_size)
      else res_bind (res_lift (get_be16 b 0)) (\<lambda>ty. res_bind (res_lift (get_be16 b 2)) (\<lambda>subtype.
        if ty \<noteq> vsf_type_rist then res_err (GreUnsupportedVsfProto ty)
        else res_ok (\<lparr>vp_ty = ty, vp_subtype = subtype\<rparr>, vsf_proto_size))))"

section \<open>Capabilities and keep-alive\<close>

definition cap_n :: nat where "cap_n = 0"
definition cap_l :: nat where "cap_l = 1"
definition cap_e :: nat where "cap_e = 2"
definition cap_p :: nat where "cap_p = 3"
definition cap_a :: nat where "cap_a = 4"
definition cap_b :: nat where "cap_b = 5"
definition cap_r :: nat where "cap_r = 6"
definition cap_x :: nat where "cap_x = 7"
definition cap_f :: nat where "cap_f = 3"
definition cap_j :: nat where "cap_j = 4"
definition cap_v :: nat where "cap_v = 5"
definition cap_t :: nat where "cap_t = 6"
definition cap_d :: nat where "cap_d = 7"
definition adv_i :: nat where "adv_i = 7"
definition adv_g :: nat where "adv_g = 6"
definition adv_c :: nat where "adv_c = 5"

lemmas cap_bits = cap_n_def cap_l_def cap_e_def cap_p_def cap_a_def cap_b_def cap_r_def cap_x_def
  cap_f_def cap_j_def cap_v_def cap_t_def cap_d_def adv_i_def adv_g_def adv_c_def

record capabilities =
  ca_n :: bool
  ca_l :: bool
  ca_e :: bool
  ca_p :: bool
  ca_a :: bool
  ca_b :: bool
  ca_r :: bool
  ca_x :: bool
  ca_f :: bool
  ca_j :: bool
  ca_v :: bool
  ca_t :: bool
  ca_d :: bool

definition capabilities_default :: capabilities where
  "capabilities_default = \<lparr>ca_n = False, ca_l = False, ca_e = False, ca_p = False, ca_a = False, ca_b = False,
     ca_r = False, ca_x = False, ca_f = False, ca_j = False, ca_v = False, ca_t = False, ca_d = False\<rparr>"

definition capabilities_standard :: capabilities where
  "capabilities_standard = capabilities_default\<lparr>ca_n := True, ca_e := True, ca_b := True, ca_v := True\<rparr>"

text \<open>The loop that sets the bits of one octet.\<close>

definition set_bits :: "(bool \<times> nat) list \<Rightarrow> u8" where
  "set_bits conds = foldl (\<lambda>c (cond, n). if cond then c OR push_bit n 1 else c) 0 conds"

definition caps_encode :: "capabilities \<Rightarrow> u8 \<times> u8" where
  "caps_encode k =
     (set_bits [(ca_n k, cap_n), (ca_l k, cap_l), (ca_e k, cap_e), (ca_p k, cap_p), (ca_a k, cap_a), (ca_b k, cap_b),
        (ca_r k, cap_r), (ca_x k, cap_x)],
      set_bits [(ca_f k, cap_f), (ca_j k, cap_j), (ca_v k, cap_v), (ca_t k, cap_t), (ca_d k, cap_d)])"

definition test_bit_at :: "u8 \<Rightarrow> nat \<Rightarrow> bool" where
  "test_bit_at byte pos \<longleftrightarrow> byte AND push_bit pos 1 \<noteq> 0"

definition caps_decode :: "u8 \<Rightarrow> u8 \<Rightarrow> capabilities" where
  "caps_decode c1 c2 =
     \<lparr>ca_n = test_bit_at c1 cap_n, ca_l = test_bit_at c1 cap_l, ca_e = test_bit_at c1 cap_e,
      ca_p = test_bit_at c1 cap_p, ca_a = test_bit_at c1 cap_a, ca_b = test_bit_at c1 cap_b,
      ca_r = test_bit_at c1 cap_r, ca_x = test_bit_at c1 cap_x, ca_f = test_bit_at c2 cap_f,
      ca_j = test_bit_at c2 cap_j, ca_v = test_bit_at c2 cap_v, ca_t = test_bit_at c2 cap_t,
      ca_d = test_bit_at c2 cap_d\<rparr>"

record adv_ext_caps =
  ax_i :: bool
  ax_g :: bool
  ax_c :: bool

definition adv_ext_default :: adv_ext_caps where
  "adv_ext_default = \<lparr>ax_i = False, ax_g = False, ax_c = False\<rparr>"

definition adv_ext_encode :: "adv_ext_caps \<Rightarrow> u8" where
  "adv_ext_encode x = set_bits [(ax_i x, adv_i), (ax_g x, adv_g), (ax_c x, adv_c)]"

definition adv_ext_decode :: "u8 \<Rightarrow> adv_ext_caps" where
  "adv_ext_decode byte = \<lparr>ax_i = test_bit_at byte adv_i, ax_g = test_bit_at byte adv_g, ax_c = test_bit_at byte adv_c\<rparr>"

record keepalive =
  ka_mac :: bytes
  ka_caps :: capabilities
  ka_has_adv_ext :: bool
  ka_adv_ext :: adv_ext_caps
  ka_json :: bytes

definition keepalive_marshal_size :: "keepalive \<Rightarrow> nat" where
  "keepalive_marshal_size k = keepalive_size + (if ka_has_adv_ext k then adv_ext_size else 0) + length (ka_json k)"

definition keepalive_encode :: "keepalive \<Rightarrow> bytes" where
  "keepalive_encode k =
     (let (c1, c2) = caps_encode (ka_caps k) in
      ka_mac k @ [c1, c2] @ (if ka_has_adv_ext k then [adv_ext_encode (ka_adv_ext k), 0, 0, 0] else [])
      @ (if ka_json k \<noteq> [] then ka_json k else []))"

definition keepalive_parse :: "bytes \<Rightarrow> (gre_error, keepalive) result" where
  "keepalive_parse b =
     (if length b < keepalive_size then res_err (GreShortBuffer (length b) keepalive_size)
      else res_bind (res_lift (vec_get b 6)) (\<lambda>c1. res_bind (res_lift (vec_get b 7)) (\<lambda>c2.
        res_bind (res_lift (vec_slice b 0 6)) (\<lambda>mac. res_bind (res_lift (vec_slice b keepalive_size (length b))) (\<lambda>rest.
          let k = \<lparr>ka_mac = mac, ka_caps = caps_decode c1 c2, ka_has_adv_ext = False, ka_adv_ext = adv_ext_default,
                   ka_json = []\<rparr>
          in if adv_ext_size \<le> length rest
             then res_bind (res_lift (vec_get rest 0)) (\<lambda>x.
               res_bind (res_lift (vec_slice rest adv_ext_size (length rest))) (\<lambda>json.
                 let k = k\<lparr>ka_has_adv_ext := True, ka_adv_ext := adv_ext_decode x\<rparr>
                 in res_ok (if json \<noteq> [] then k\<lparr>ka_json := json\<rparr> else k)))
             else res_ok (if rest \<noteq> [] then k\<lparr>ka_json := rest\<rparr> else k))))))"

section \<open>Buffer negotiation\<close>

record buffer_negotiation =
  bg_sender_max_ms :: u16
  bg_receiver_cur_ms :: u16
  bg_proto_type :: u16

definition bg_sender_max :: "buffer_negotiation \<Rightarrow> int option" where
  "bg_sender_max n =
     (if bg_sender_max_ms n \<noteq> 0 then Some (micros_from_millis (uint (bg_sender_max_ms n))) else None)"

definition for_sender_buffer :: "int \<Rightarrow> int \<Rightarrow> buffer_negotiation" where
  "for_sender_buffer recovery_buffer_max rtt_min =
     (let us = sat_i64 (recovery_buffer_max + sat_i64 (rtt_min * 2));
          ms = trunc_div us 1000;
          max_ms = (if 0 \<le> ms \<and> ms \<le> 65535 then of_int ms else 65535)
      in \<lparr>bg_sender_max_ms = max_ms, bg_receiver_cur_ms = 0, bg_proto_type = 0\<rparr>)"

definition negotiation_encode :: "buffer_negotiation \<Rightarrow> bytes" where
  "negotiation_encode n = be16 (bg_sender_max_ms n) @ be16 (bg_receiver_cur_ms n) @ be16 (bg_proto_type n)"

definition negotiation_parse :: "bytes \<Rightarrow> (gre_error, buffer_negotiation) result" where
  "negotiation_parse b =
     (if length b < buffer_negotiation_size then res_err (GreShortBuffer (length b) buffer_negotiation_size)
      else res_bind (res_lift (get_be16 b 0)) (\<lambda>s. res_bind (res_lift (get_be16 b 2)) (\<lambda>r.
        res_bind (res_lift (get_be16 b 4)) (\<lambda>p.
          res_ok \<lparr>bg_sender_max_ms = s, bg_receiver_cur_ms = r, bg_proto_type = p\<rparr>))))"

end
