(* ===== verification/Gre_Props.thy ===== *)
theory Gre_Props
  imports Gre
begin

text \<open>The GRE headers: parsing inverts encoding, through a whole stack of headers, and returns on any bytes.\<close>

section \<open>Bits of an octet\<close>

lemma test_bit_at_eq: "n < 8 \<Longrightarrow> test_bit_at b n = bit b n"
  by (simp add: test_bit_at_def push_bit_of_1 and_exp_eq_0_iff_not_bit)

lemma bit_set_bits_acc:
  "n < 8 \<Longrightarrow> bit (foldl (\<lambda>c (cond, n). if cond then c OR push_bit n 1 else c) (acc :: u8) conds) n
    \<longleftrightarrow> bit acc n \<or> (True, n) \<in> set conds"
  by (induction conds arbitrary: acc) (auto simp: bit_simps split: prod.split)

lemma bit_set_bits: "n < 8 \<Longrightarrow> bit (set_bits conds) n \<longleftrightarrow> (True, n) \<in> set conds"
  by (simp add: set_bits_def bit_set_bits_acc)

lemma caps_decode_encode: "caps_decode (fst (caps_encode k)) (snd (caps_encode k)) = k"
  by (cases k) (simp add: caps_encode_def caps_decode_def cap_bits test_bit_at_eq bit_set_bits)

lemma set_bits_of_byte:
  "set_bits [(bit c 0, 0), (bit c 1, 1), (bit c 2, 2), (bit c 3, 3), (bit c 4, 4), (bit c 5, 5), (bit c 6, 6), (bit c 7, 7)] = c"
  (is "?w = c")
proof (rule bit_word_eqI)
  fix n assume "n < LENGTH(8)"
  then have n: "n < 8" by simp
  show "bit ?w n = bit c n"
    unfolding bit_set_bits [OF n] using n [unfolded bit_positions] by (elim insertE emptyE) simp_all
qed

lemma set_bits_of_byte_high:
  "set_bits [(bit c 3, 3), (bit c 4, 4), (bit c 5, 5), (bit c 6, 6), (bit c 7, 7)] = c AND 0xF8"
  (is "?w = _")
proof (rule bit_word_eqI)
  fix n assume "n < LENGTH(8)"
  then have n: "n < 8" by simp
  show "bit ?w n = bit (c AND 0xF8) n"
    unfolding bit_set_bits [OF n] using n [unfolded bit_positions] by (elim insertE emptyE) (simp_all add: bit_and_iff)
qed

lemma caps_encode_decode:
  "caps_encode (caps_decode c1 c2) = (c1, c2 AND 0xF8)"
  unfolding caps_encode_def caps_decode_def cap_bits
  by (simp add: test_bit_at_eq set_bits_of_byte set_bits_of_byte_high set_bits_of_byte [simplified])

lemma adv_ext_decode_encode: "adv_ext_decode (adv_ext_encode x) = x"
  by (cases x) (auto simp: adv_ext_encode_def adv_ext_decode_def cap_bits test_bit_at_eq bit_set_bits)

section \<open>The base header\<close>

definition gre_canonical :: "gre_header \<Rightarrow> bool" where
  "gre_canonical h \<longleftrightarrow> gh_version h \<le> 7 \<and> length (gh_nonce h) = 4
     \<and> (\<not> gh_has_key h \<longrightarrow> gh_nonce h = [0, 0, 0, 0] \<and> \<not> gh_key_size_256 h) \<and> (\<not> gh_has_seq h \<longrightarrow> gh_seq h = 0)"

text \<open>The two flag octets, and what the parser reads in them.\<close>

definition gre_flags1 :: "gre_header \<Rightarrow> u8" where
  "gre_flags1 h = (if gh_has_seq h then 0x10 else 0) OR (if gh_has_key h then 0x20 else 0)"

definition gre_flags2 :: "gre_header \<Rightarrow> u8" where
  "gre_flags2 h = push_bit 3 (gh_version h) OR (if gh_has_key h \<and> gh_key_size_256 h then 0x40 else 0)"

lemma version_cases: "(v :: u8) \<le> 7 \<Longrightarrow> v \<in> {0, 1, 2, 3, 4, 5, 6, 7}"
proof -
  assume "v \<le> 7"
  then have "unat v \<le> 7" by (simp add: word_le_nat_alt)
  then have "unat v \<in> {0, 1, 2, 3, 4, 5, 6, 7}" by auto
  then show ?thesis by (simp add: word_unat_eq_iff)
qed

lemma gre_encode_bytes:
  assumes "gre_canonical h"
  shows "gre_encode h = Inr ([gre_flags1 h, gre_flags2 h] @ be16 (gh_prot_type h)
    @ (if gh_has_key h then gh_nonce h else []) @ (if gh_has_seq h then be32 (gh_seq h) else []))"
proof -
  have v: "gh_version h \<in> {0, 1, 2, 3, 4, 5, 6, 7}"
    using assms by (intro version_cases) (simp add: gre_canonical_def)
  then show ?thesis
    by (cases "gh_has_seq h"; cases "gh_has_key h"; cases "gh_key_size_256 h")
      (auto simp: gre_encode_def gre_consts gre_flags1_def gre_flags2_def Let_def)
qed

lemma gre_flags_read:
  assumes "gh_version h \<le> 7"
  shows "gre_flags1 h AND push_bit bit_reserved 1 = 0" "gre_flags2 h AND flags2_low_mask = 0"
    "(gre_flags1 h AND push_bit bit_key 1 \<noteq> 0) = gh_has_key h" "(gre_flags1 h AND push_bit bit_seq 1 \<noteq> 0) = gh_has_seq h"
    "gre_flags1 h AND push_bit bit_checksum 1 = 0"
    "drop_bit flags2_rver_shift (gre_flags2 h) AND flags2_rver_mask = gh_version h"
    "(gre_flags2 h AND push_bit bit_h 1 \<noteq> 0) = (gh_has_key h \<and> gh_key_size_256 h)"
  using version_cases [OF assms]
  by (auto simp: gre_flags1_def gre_flags2_def gre_consts)

lemma gre_parse_encode:
  assumes can: "gre_canonical h"
  shows "\<exists>b. gre_encode h = Inr b \<and> length b = gre_size h \<and> gre_parse (b @ rest) = res_ok (h, gre_size h)"
proof -
  note bytes = gre_encode_bytes [OF can]
  have v: "gh_version h \<le> 7" and len: "length (gh_nonce h) = 4" using can by (auto simp: gre_canonical_def)
  note fl = gre_flags_read [OF v]
  let ?b = "[gre_flags1 h, gre_flags2 h] @ be16 (gh_prot_type h)
    @ (if gh_has_key h then gh_nonce h else []) @ (if gh_has_seq h then be32 (gh_seq h) else [])"
  have size: "length ?b = gre_size h" using len by (simp add: gre_size_def gre_consts)
  have p: "get_be16 (?b @ rest) 2 = Some (gh_prot_type h)"
    using get_be16_at [of 2 "[gre_flags1 h, gre_flags2 h]" "gh_prot_type h"] by simp
  have n: "gh_has_key h \<Longrightarrow> vec_slice (?b @ rest) 4 8 = Some (gh_nonce h)"
    using vec_slice_at [of 4 "[gre_flags1 h, gre_flags2 h] @ be16 (gh_prot_type h)" 8 "gh_nonce h"] len by simp
  have s: "gh_has_seq h \<Longrightarrow> get_be32 (?b @ rest) (if gh_has_key h then 8 else 4) = Some (gh_seq h)"
    using get_be32_at [of "if gh_has_key h then 8 else 4" "[gre_flags1 h, gre_flags2 h] @ be16 (gh_prot_type h) @ (if gh_has_key h then gh_nonce h else [])"
        "gh_seq h" rest] len by (cases "gh_has_key h") auto
  have "gre_parse (?b @ rest) = res_ok (h, gre_size h)"
    using p n s fl size can
    by (cases h; cases "gh_has_key h"; cases "gh_has_seq h")
      (simp_all add: gre_parse_def gre_size_def gre_consts(12-20) nonce_size_def seq_size_def gre_base_header_size_def gre_canonical_def Let_def)
  then show ?thesis using bytes size by simp
qed

lemma reduced_parse_encode: "reduced_parse (reduced_encode r @ rest) = res_ok (r, 4)"
  using get_be16_at [of 0 "[]" "rh_src_port r"] get_be16_at [of 2 "be16 (rh_src_port r)" "rh_dst_port r" rest]
  by (simp add: reduced_parse_def reduced_encode_def reduced_header_size_def)

lemma vsf_parse_encode: "vp_ty v = vsf_type_rist \<Longrightarrow> vsf_parse (vsf_encode v @ rest) = res_ok (v, 4)"
  using get_be16_at [of 0 "[]" "vp_ty v"] get_be16_at [of 2 "be16 (vp_ty v)" "vp_subtype v" rest]
  by (simp add: vsf_parse_def vsf_encode_def vsf_proto_size_def)

lemma negotiation_parse_encode: "negotiation_parse (negotiation_encode n @ rest) = res_ok n"
  using get_be16_at [of 0 "[]" "bg_sender_max_ms n"] get_be16_at [of 2 "be16 (bg_sender_max_ms n)" "bg_receiver_cur_ms n"]
    get_be16_at [of 4 "be16 (bg_sender_max_ms n) @ be16 (bg_receiver_cur_ms n)" "bg_proto_type n" rest]
  by (simp add: negotiation_parse_def negotiation_encode_def buffer_negotiation_size_def)

section \<open>Keep-alive\<close>

definition keepalive_canonical :: "keepalive \<Rightarrow> bool" where
  "keepalive_canonical k \<longleftrightarrow> length (ka_mac k) = 6
     \<and> (\<not> ka_has_adv_ext k \<longrightarrow> ka_adv_ext k = adv_ext_default \<and> length (ka_json k) < 4)"

lemma keepalive_parse_bytes:
  assumes "length mac = 6"
  shows "keepalive_parse (mac @ [c1, c2] @ rest) =
    (let k = \<lparr>ka_mac = mac, ka_caps = caps_decode c1 c2, ka_has_adv_ext = False, ka_adv_ext = adv_ext_default, ka_json = []\<rparr>
     in if 4 \<le> length rest
        then res_ok (k\<lparr>ka_has_adv_ext := True, ka_adv_ext := adv_ext_decode (rest ! 0), ka_json := drop 4 rest\<rparr>)
        else res_ok (k\<lparr>ka_json := rest\<rparr>))"
proof -
  let ?b = "mac @ [c1, c2] @ rest"
  have "vec_get ?b 6 = Some c1" "vec_get ?b 7 = Some c2" using assms by (simp_all add: nth_append)
  moreover have "vec_slice ?b 0 6 = Some mac" "vec_slice ?b 8 (length ?b) = Some rest"
    using vec_slice_at [of 0 "[]" 6 mac] vec_slice_at [of 8 "mac @ [c1, c2]" "length ?b" rest "[]"] assms by simp_all
  moreover have "4 \<le> length rest \<Longrightarrow> vec_get rest 0 = Some (rest ! 0)" by (rule vec_get_Some) linarith
  ultimately show ?thesis
    using assms by (simp add: keepalive_parse_def keepalive_size_def adv_ext_size_def vec_slice_def Let_def)
qed

lemma keepalive_parse_encode:
  assumes "keepalive_canonical k"
  shows "keepalive_parse (keepalive_encode k) = res_ok k \<and> length (keepalive_encode k) = keepalive_marshal_size k"
proof -
  obtain c1 c2 where c: "caps_encode (ka_caps k) = (c1, c2)" by fastforce
  have caps: "caps_decode c1 c2 = ka_caps k" using caps_decode_encode [of "ka_caps k"] c by simp
  have mac: "length (ka_mac k) = 6" using assms by (simp add: keepalive_canonical_def)
  let ?rest = "(if ka_has_adv_ext k then [adv_ext_encode (ka_adv_ext k), 0, 0, 0] else []) @ ka_json k"
  have enc: "keepalive_encode k = ka_mac k @ [c1, c2] @ ?rest" using c by (simp add: keepalive_encode_def)
  show ?thesis
    unfolding enc keepalive_parse_bytes [OF mac] using assms caps mac
    by (cases k) (auto simp: keepalive_canonical_def adv_ext_decode_encode keepalive_marshal_size_def keepalive_size_def
        adv_ext_size_def Let_def)
qed

section \<open>Properties\<close>

text \<open>A stack of GRE headers survives the wire. For every base header within its field widths, wrapper and
  port pair, parsing the concatenation gives the base header and its size; the wrapper is then at that offset, the
  ports after it, and what is left is the payload. Capability octets and the five defined ones of the second octet are
  inverse both ways.\<close>

theorem gre_stack_roundtrip:
  assumes "gre_canonical h" and "vp_ty v = vsf_type_rist"
  shows "\<exists>b. gre_encode h = Inr b
    \<and> gre_parse (b @ vsf_encode v @ reduced_encode r @ payload) = res_ok (h, gre_size h)
    \<and> vsf_parse (drop (gre_size h) (b @ vsf_encode v @ reduced_encode r @ payload)) = res_ok (v, vsf_proto_size)
    \<and> reduced_parse (drop (gre_size h + vsf_proto_size) (b @ vsf_encode v @ reduced_encode r @ payload))
        = res_ok (r, reduced_header_size)
    \<and> drop (gre_size h + vsf_proto_size + reduced_header_size) (b @ vsf_encode v @ reduced_encode r @ payload) = payload
    \<and> caps_encode (caps_decode c1 c2) = (c1, c2 AND 0xF8)"
proof -
  obtain b where b: "gre_encode h = Inr b" "length b = gre_size h"
    "gre_parse (b @ vsf_encode v @ reduced_encode r @ payload) = res_ok (h, gre_size h)"
    using gre_parse_encode [OF assms(1)] by blast
  have "length (vsf_encode v) = 4" "length (reduced_encode r) = 4" by (simp_all add: vsf_encode_def reduced_encode_def)
  then show ?thesis
    using b vsf_parse_encode [OF assms(2)] reduced_parse_encode caps_encode_decode
    by (simp add: vsf_proto_size_def reduced_header_size_def)
qed

definition sample_gre :: gre_header where
  "sample_gre = \<lparr>gh_version = 2, gh_has_key = True, gh_has_seq = True, gh_key_size_256 = True, gh_nonce = [1, 2, 3, 4],
     gh_seq = 9, gh_prot_type = proto_vsf\<rparr>"

theorem gre_stack_roundtrip_witness:
  "\<exists>b. gre_encode sample_gre = Inr b
    \<and> gre_parse (b @ vsf_encode \<lparr>vp_ty = 0, vp_subtype = 0\<rparr> @ reduced_encode reduced_header_default @ [5]) = res_ok (sample_gre, gre_size sample_gre)
    \<and> vsf_parse (drop (gre_size sample_gre) (b @ vsf_encode \<lparr>vp_ty = 0, vp_subtype = 0\<rparr> @ reduced_encode reduced_header_default @ [5]))
        = res_ok (\<lparr>vp_ty = 0, vp_subtype = 0\<rparr>, vsf_proto_size)
    \<and> reduced_parse (drop (gre_size sample_gre + vsf_proto_size)
          (b @ vsf_encode \<lparr>vp_ty = 0, vp_subtype = 0\<rparr> @ reduced_encode reduced_header_default @ [5]))
        = res_ok (reduced_header_default, reduced_header_size)
    \<and> drop (gre_size sample_gre + vsf_proto_size + reduced_header_size)
        (b @ vsf_encode \<lparr>vp_ty = 0, vp_subtype = 0\<rparr> @ reduced_encode reduced_header_default @ [5]) = [5]
    \<and> caps_encode (caps_decode 0x25 0xFF) = (0x25, 0xFF AND 0xF8)"
  by (rule gre_stack_roundtrip) (simp_all add: gre_canonical_def sample_gre_def vsf_type_rist_def)

text \<open>Keep-alives survive the wire, with one ambiguity: a keep-alive round-trips exactly when it has the
  extended block or fewer than four bytes of JSON; the body written for any other one is read as a keep-alive with an
  extended block.\<close>

theorem keepalive_roundtrip:
  assumes "length (ka_mac k) = 6" and "\<not> ka_has_adv_ext k \<Longrightarrow> ka_adv_ext k = adv_ext_default"
  shows "(keepalive_parse (keepalive_encode k) = res_ok k) = (ka_has_adv_ext k \<or> length (ka_json k) < 4)
    \<and> length (keepalive_encode k) = keepalive_marshal_size k"
proof (cases "ka_has_adv_ext k \<or> length (ka_json k) < 4")
  case True
  then have "keepalive_canonical k" using assms by (auto simp: keepalive_canonical_def)
  then show ?thesis using keepalive_parse_encode True by blast
next
  case False
  obtain c1 c2 where c: "caps_encode (ka_caps k) = (c1, c2)" by fastforce
  have "keepalive_encode k = ka_mac k @ [c1, c2] @ ka_json k" using False c by (auto simp: keepalive_encode_def)
  then show ?thesis
    using False keepalive_parse_bytes [OF assms(1), of c1 c2 "ka_json k"] assms(1)
    by (auto simp: keepalive_marshal_size_def keepalive_size_def Let_def dest: arg_cong [of _ _ ka_has_adv_ext])
qed

theorem keepalive_roundtrip_witness:
  "(keepalive_parse (keepalive_encode \<lparr>ka_mac = [1, 2, 3, 4, 5, 6], ka_caps = capabilities_standard, ka_has_adv_ext = False,
       ka_adv_ext = adv_ext_default, ka_json = [1, 2, 3, 4]\<rparr>)
     = res_ok \<lparr>ka_mac = [1, 2, 3, 4, 5, 6], ka_caps = capabilities_standard, ka_has_adv_ext = False,
       ka_adv_ext = adv_ext_default, ka_json = [1, 2, 3, 4]\<rparr>)
   = (ka_has_adv_ext \<lparr>ka_mac = [1, 2, 3, 4, 5, 6], ka_caps = capabilities_standard, ka_has_adv_ext = False,
       ka_adv_ext = adv_ext_default, ka_json = [1, 2, 3, 4]\<rparr>
      \<or> length (ka_json \<lparr>ka_mac = [1, 2, 3, 4, 5, 6], ka_caps = capabilities_standard, ka_has_adv_ext = False,
       ka_adv_ext = adv_ext_default, ka_json = [1, 2, 3, 4]\<rparr>) < 4)
   \<and> length (keepalive_encode \<lparr>ka_mac = [1, 2, 3, 4, 5, 6], ka_caps = capabilities_standard, ka_has_adv_ext = False,
       ka_adv_ext = adv_ext_default, ka_json = [1, 2, 3, 4]\<rparr>)
     = keepalive_marshal_size \<lparr>ka_mac = [1, 2, 3, 4, 5, 6], ka_caps = capabilities_standard, ka_has_adv_ext = False,
       ka_adv_ext = adv_ext_default, ka_json = [1, 2, 3, 4]\<rparr>"
  by (rule keepalive_roundtrip) simp_all

section \<open>Totality\<close>

lemma gre_parse_returns: "returns (gre_parse b)"
  by (auto simp: gre_parse_def gre_consts returns_reads res_bind_eq_ok Let_def intro!: returns_bind)

lemma keepalive_parse_returns: "returns (keepalive_parse b)"
  by (auto simp: keepalive_parse_def keepalive_size_def adv_ext_size_def returns_reads Let_def intro!: returns_bind)

lemma gre_small_parse_returns: "returns (vsf_parse b)" "returns (reduced_parse b)" "returns (negotiation_parse b)"
  by (auto simp: vsf_parse_def reduced_parse_def negotiation_parse_def gre_consts returns_reads intro!: returns_bind)

lemma gre_parse_offset: "gre_parse b = res_ok (h, off) \<Longrightarrow> off \<le> length b \<and> gre_size h \<le> off"
  by (auto simp: gre_parse_def gre_size_def gre_consts res_bind_eq_ok Let_def split: if_splits)

end
