(* ===== verification/Adv.thy ===== *)
theory Adv
  imports Fallible
begin

text \<open>
  The packet format of the Advanced profile (\<^verbatim>\<open>rist-codec/src/adv.rs\<close>): the RTP header with the
  profile extension and its optional fields, and the control messages with their bodies, the NACK packing
  among them. Reads index the buffer as the source does; an index out of range would be the panic
  \<open>None\<close>.
\<close>

section \<open>Constants and errors\<close>

datatype adv_error =
    AdvShortBuffer nat nat
  | AdvInvalidVersion u8
  | AdvInvalidPayloadType u8
  | AdvFieldRange string
  | AdvShortControl nat nat

definition adv_keepalive_cap_i :: u32 where "adv_keepalive_cap_i = push_bit 31 1"
definition adv_keepalive_cap_g :: u32 where "adv_keepalive_cap_g = push_bit 30 1"
definition adv_keepalive_cap_c :: u32 where "adv_keepalive_cap_c = push_bit 29 1"
definition adv_nack_body_size :: nat where "adv_nack_body_size = 12"
definition adv_rtt_echo_body_size :: nat where "adv_rtt_echo_body_size = 16"
definition adv_keepalive_body_size :: nat where "adv_keepalive_body_size = 10"
definition adv_psk_nonce_body_size :: nat where "adv_psk_nonce_body_size = 8"
definition adv_max_nack_decode_range :: u32 where "adv_max_nack_decode_range = 10000"
definition adv_payload_type :: u8 where "adv_payload_type = 127"
definition adv_clock_hz :: u32 where "adv_clock_hz = 1000000"
definition adv_rtp_flags :: u8 where "adv_rtp_flags = 0x80"
definition adv_dynamic_pt_min :: u8 where "adv_dynamic_pt_min = 96"
definition adv_flag_f :: u8 where "adv_flag_f = 0x80"
definition adv_flag_l :: u8 where "adv_flag_l = 0x40"
definition adv_flag_e :: u8 where "adv_flag_e = 0x20"
definition adv_flag_r :: u8 where "adv_flag_r = 0x10"
definition adv_flag_i :: u8 where "adv_flag_i = 0x08"
definition adv_flag_p :: u8 where "adv_flag_p = 0x04"
definition adv_flag_h :: u8 where "adv_flag_h = 0x02"
definition adv_flag_psk2 :: u8 where "adv_flag_psk2 = 0x01"
definition adv_psk10_shift :: nat where "adv_psk10_shift = 6"
definition adv_psk10_mask :: u8 where "adv_psk10_mask = 0xC0"
definition adv_lpc_shift :: nat where "adv_lpc_shift = 4"
definition adv_lpc_mask :: u8 where "adv_lpc_mask = 0x30"
definition adv_type_mask :: u8 where "adv_type_mask = 0x0F"
definition adv_type_reserved :: u8 where "adv_type_reserved = 0"
definition adv_type_ipv4 :: u8 where "adv_type_ipv4 = 1"
definition adv_type_ipv6 :: u8 where "adv_type_ipv6 = 2"
definition adv_type_reduced_udp :: u8 where "adv_type_reduced_udp = 3"
definition adv_type_control :: u8 where "adv_type_control = 4"
definition adv_type_direct :: u8 where "adv_type_direct = 5"
definition adv_type_layer2 :: u8 where "adv_type_layer2 = 6"
definition adv_type_gre_rfc2784 :: u8 where "adv_type_gre_rfc2784 = 7"
definition adv_type_gre_main :: u8 where "adv_type_gre_main = 8"
definition adv_psk_none :: u8 where "adv_psk_none = 0"
definition adv_psk_aes_ctr :: u8 where "adv_psk_aes_ctr = 1"
definition adv_psk_hmac_sha256 :: u8 where "adv_psk_hmac_sha256 = 2"
definition adv_psk_aes_ctr_hmac :: u8 where "adv_psk_aes_ctr_hmac = 3"
definition adv_psk_aes_gcm :: u8 where "adv_psk_aes_gcm = 4"
definition adv_psk_chacha20_poly :: u8 where "adv_psk_chacha20_poly = 5"
definition adv_psk_user_no_hash :: u8 where "adv_psk_user_no_hash = 6"
definition adv_psk_user_hash :: u8 where "adv_psk_user_hash = 7"
definition adv_psk_max_incl :: u8 where "adv_psk_max_incl = 7"
definition adv_psk_hash_size :: nat where "adv_psk_hash_size = 16"
definition adv_psk_nonce_size :: nat where "adv_psk_nonce_size = 4"
definition adv_psk_iv_size :: nat where "adv_psk_iv_size = 4"
definition adv_lpc_none :: u8 where "adv_lpc_none = 0"
definition adv_lpc_lz4 :: u8 where "adv_lpc_lz4 = 1"
definition adv_lpc_reserved :: u8 where "adv_lpc_reserved = 2"
definition adv_lpc_field_present :: u8 where "adv_lpc_field_present = 3"
definition adv_lpc_max_incl :: u8 where "adv_lpc_max_incl = 3"
definition adv_ci_nack_bitmask :: u16 where "adv_ci_nack_bitmask = 0x0000"
definition adv_ci_nack_range :: u16 where "adv_ci_nack_range = 0x0001"
definition adv_ci_lqm_global :: u16 where "adv_ci_lqm_global = 0x0002"
definition adv_ci_lqm_link_specific :: u16 where "adv_ci_lqm_link_specific = 0x0003"
definition adv_ci_rtt_echo_req :: u16 where "adv_ci_rtt_echo_req = 0x0010"
definition adv_ci_rtt_echo_resp :: u16 where "adv_ci_rtt_echo_resp = 0x0011"
definition adv_ci_fec_2022_5_row :: u16 where "adv_ci_fec_2022_5_row = 0x0020"
definition adv_ci_fec_2022_5_col :: u16 where "adv_ci_fec_2022_5_col = 0x0021"
definition adv_ci_fec_2022_1_row :: u16 where "adv_ci_fec_2022_1_row = 0x0022"
definition adv_ci_fec_2022_1_col :: u16 where "adv_ci_fec_2022_1_col = 0x0023"
definition adv_ci_keepalive :: u16 where "adv_ci_keepalive = 0x8000"
definition adv_ci_flow_attr :: u16 where "adv_ci_flow_attr = 0x8001"
definition adv_ci_srp_auth :: u16 where "adv_ci_srp_auth = 0x8010"
definition adv_ci_psk_nonce :: u16 where "adv_ci_psk_nonce = 0x8011"
definition adv_ci_unsupported :: u16 where "adv_ci_unsupported = 0x8020"
definition adv_rtp_size :: nat where "adv_rtp_size = 12"
definition adv_ext_len :: nat where "adv_ext_len = 4"
definition adv_header_min :: nat where "adv_header_min = adv_rtp_size + adv_ext_len"
definition adv_flow_id_size :: nat where "adv_flow_id_size = 4"
definition adv_compression_size :: nat where "adv_compression_size = 4"
definition adv_pfd_size :: nat where "adv_pfd_size = 4"
definition adv_ctrl_hdr_size :: nat where "adv_ctrl_hdr_size = 4"
definition adv_rtp_ext_hdr_size :: nat where "adv_rtp_ext_hdr_size = 4"

lemmas adv_consts = adv_payload_type_def adv_rtp_flags_def adv_dynamic_pt_min_def adv_flag_f_def adv_flag_l_def
  adv_flag_e_def adv_flag_r_def adv_flag_i_def adv_flag_p_def adv_flag_h_def adv_flag_psk2_def adv_psk10_shift_def
  adv_psk10_mask_def adv_lpc_shift_def adv_lpc_mask_def adv_type_mask_def adv_psk_aes_ctr_def adv_psk_hmac_sha256_def
  adv_psk_aes_ctr_hmac_def adv_psk_aes_gcm_def adv_psk_chacha20_poly_def adv_psk_user_hash_def adv_psk_max_incl_def
  adv_lpc_max_incl_def adv_lpc_field_present_def

lemmas adv_sizes = adv_psk_hash_size_def adv_psk_nonce_size_def adv_psk_iv_size_def adv_rtp_size_def adv_ext_len_def
  adv_header_min_def adv_flow_id_size_def adv_compression_size_def adv_pfd_size_def adv_ctrl_hdr_size_def
  adv_rtp_ext_hdr_size_def adv_nack_body_size_def adv_rtt_echo_body_size_def adv_keepalive_body_size_def
  adv_psk_nonce_body_size_def

section \<open>Header fields\<close>

definition psk_has_hash :: "u8 \<Rightarrow> bool" where
  "psk_has_hash psk \<longleftrightarrow>
     psk = adv_psk_hmac_sha256 \<or> psk = adv_psk_aes_ctr_hmac \<or> psk = adv_psk_aes_gcm \<or> psk = adv_psk_chacha20_poly
     \<or> psk = adv_psk_user_hash"

definition psk_has_nonce :: "u8 \<Rightarrow> bool" where
  "psk_has_nonce psk \<longleftrightarrow> adv_psk_aes_ctr \<le> psk"

definition psk_has_iv :: "u8 \<Rightarrow> bool" where
  "psk_has_iv psk \<longleftrightarrow> psk = adv_psk_aes_ctr \<or> adv_psk_aes_ctr_hmac \<le> psk"

definition psk_hdr_size :: "u8 \<Rightarrow> nat" where
  "psk_hdr_size psk =
     (if psk_has_hash psk then adv_psk_hash_size else 0) + (if psk_has_nonce psk then adv_psk_nonce_size else 0)
     + (if psk_has_iv psk then adv_psk_iv_size else 0)"

definition ssrc_is_protected :: "u32 \<Rightarrow> bool" where
  "ssrc_is_protected ssrc \<longleftrightarrow> ssrc AND 1 = 0"

definition ssrc_protected :: "u32 \<Rightarrow> u32" where
  "ssrc_protected ssrc = ssrc AND NOT 1"

definition ssrc_unprotected :: "u32 \<Rightarrow> u32" where
  "ssrc_unprotected ssrc = ssrc OR 1"

definition split_seq :: "u32 \<Rightarrow> u16 \<times> u16" where
  "split_seq seq = (ucast seq, ucast (drop_bit 16 seq))"

definition join_seq :: "u16 \<Rightarrow> u16 \<Rightarrow> u32" where
  "join_seq high low = push_bit 16 (ucast high) OR ucast low"

record flow_id =
  fi_outer :: u16
  fi_inner :: u16
  fi_sub :: u8

definition flow_id_encode :: "flow_id \<Rightarrow> bytes" where
  "flow_id_encode f =
     be16 (fi_outer f) @ [ucast (drop_bit 4 (fi_inner f) AND 0xFF),
       ucast (push_bit 4 (fi_inner f AND 0x0F)) OR (fi_sub f AND 0x0F)]"

definition flow_id_parse :: "bytes \<Rightarrow> flow_id option" where
  "flow_id_parse b = do {
     inner_hi \<leftarrow> vec_get b 2; inner_lo_sub \<leftarrow> vec_get b 3; outer \<leftarrow> get_be16 b 0;
     Some \<lparr>fi_outer = outer, fi_inner = push_bit 4 (ucast inner_hi) OR ucast (drop_bit 4 inner_lo_sub),
           fi_sub = inner_lo_sub AND 0x0F\<rparr> }"

record pfd =
  pfd_id_type :: u8
  pfd_id_value :: u32

definition pfd_encode :: "pfd \<Rightarrow> bytes" where
  "pfd_encode p = be32 (push_bit 28 (ucast (pfd_id_type p AND 0x0F)) OR (pfd_id_value p AND 0x0FFFFFFF))"

definition pfd_parse :: "bytes \<Rightarrow> pfd option" where
  "pfd_parse b = do {
     v \<leftarrow> get_be32 b 0; Some \<lparr>pfd_id_type = ucast (drop_bit 28 v), pfd_id_value = v AND 0x0FFFFFFF\<rparr> }"

definition is_unfragmented :: "u8 \<Rightarrow> bool" where
  "is_unfragmented flags \<longleftrightarrow> flags AND (adv_flag_f OR adv_flag_l) = adv_flag_f OR adv_flag_l"

definition is_fragmented :: "u8 \<Rightarrow> bool" where
  "is_fragmented flags \<longleftrightarrow> \<not> is_unfragmented flags"

definition is_first_fragment :: "u8 \<Rightarrow> bool" where
  "is_first_fragment flags \<longleftrightarrow> flags AND adv_flag_f \<noteq> 0 \<and> flags AND adv_flag_l = 0"

definition is_last_fragment :: "u8 \<Rightarrow> bool" where
  "is_last_fragment flags \<longleftrightarrow> flags AND adv_flag_f = 0 \<and> flags AND adv_flag_l \<noteq> 0"

section \<open>Building a packet\<close>

record adv_params =
  ap_seq :: u32
  ap_timestamp :: u32
  ap_ssrc :: u32
  ap_enc_type :: u8
  ap_psk_mode :: u8
  ap_lpc_mode :: u8
  ap_first_frag :: bool
  ap_last_frag :: bool
  ap_expedite :: bool
  ap_retransmit :: bool
  ap_flow_id :: "flow_id option"
  ap_psk_hash :: "bytes option"
  ap_psk_nonce :: "bytes option"
  ap_psk_iv :: "bytes option"
  ap_compression :: "bytes option"
  ap_pfd :: "pfd option"
  ap_hdr_ext :: bytes

definition adv_header_size :: "adv_params \<Rightarrow> nat" where
  "adv_header_size p =
     adv_header_min + (if ap_flow_id p \<noteq> None then adv_flow_id_size else 0) + psk_hdr_size (ap_psk_mode p)
     + (if ap_lpc_mode p = adv_lpc_field_present then adv_compression_size else 0)
     + (if ap_pfd p \<noteq> None then adv_pfd_size else 0) + length (ap_hdr_ext p)"

definition append_or_zero :: "bytes option \<Rightarrow> nat \<Rightarrow> bytes" where
  "append_or_zero b n = (case b of Some b \<Rightarrow> b | None \<Rightarrow> replicate n 0)"

definition adv_flags_byte :: "adv_params \<Rightarrow> u8" where
  "adv_flags_byte p =
     (let flags = 0;
          flags = (if ap_first_frag p then flags OR adv_flag_f else flags);
          flags = (if ap_last_frag p then flags OR adv_flag_l else flags);
          flags = (if ap_expedite p then flags OR adv_flag_e else flags);
          flags = (if ap_retransmit p then flags OR adv_flag_r else flags);
          flags = (if ap_flow_id p \<noteq> None then flags OR adv_flag_i else flags);
          flags = (if ap_pfd p \<noteq> None then flags OR adv_flag_p else flags);
          flags = (if ap_hdr_ext p \<noteq> [] then flags OR adv_flag_h else flags)
      in flags OR (drop_bit 2 (ap_psk_mode p) AND adv_flag_psk2))"

definition adv_params_byte :: "adv_params \<Rightarrow> u8" where
  "adv_params_byte p =
     push_bit adv_psk10_shift (ap_psk_mode p AND 0x03) OR push_bit adv_lpc_shift (ap_lpc_mode p AND 0x03)
     OR (ap_enc_type p AND adv_type_mask)"

text \<open>\<^verbatim>\<open>build\<close>: the bytes appended, or the error before anything is.\<close>

definition adv_build :: "adv_params \<Rightarrow> bytes \<Rightarrow> adv_error + bytes" where
  "adv_build p payload =
     (if adv_type_mask < ap_enc_type p then Inl (AdvFieldRange ''enc_type exceeds 4-bit field'')
      else if adv_psk_max_incl < ap_psk_mode p then Inl (AdvFieldRange ''psk_mode exceeds 3-bit field'')
      else if adv_lpc_max_incl < ap_lpc_mode p then Inl (AdvFieldRange ''lpc_mode exceeds 2-bit field'')
      else
        let (low, high) = split_seq (ap_seq p) in
        Inr ([adv_rtp_flags, adv_payload_type] @ be16 low @ be32 (ap_timestamp p) @ be32 (ap_ssrc p) @ be16 high
          @ [adv_flags_byte p, adv_params_byte p]
          @ (case ap_flow_id p of Some f \<Rightarrow> flow_id_encode f | None \<Rightarrow> [])
          @ (if psk_has_hash (ap_psk_mode p) then append_or_zero (ap_psk_hash p) adv_psk_hash_size else [])
          @ (if psk_has_nonce (ap_psk_mode p) then append_or_zero (ap_psk_nonce p) adv_psk_nonce_size else [])
          @ (if psk_has_iv (ap_psk_mode p) then append_or_zero (ap_psk_iv p) adv_psk_iv_size else [])
          @ (if ap_lpc_mode p = adv_lpc_field_present then append_or_zero (ap_compression p) adv_compression_size
             else [])
          @ (case ap_pfd p of Some f \<Rightarrow> pfd_encode f | None \<Rightarrow> [])
          @ (if ap_hdr_ext p \<noteq> [] then ap_hdr_ext p else [])
          @ payload))"

section \<open>Parsing a packet\<close>

record adv_parsed =
  pp_seq :: u32
  pp_timestamp :: u32
  pp_ssrc :: u32
  pp_rtp_ext_present :: bool
  pp_rtp_padding :: bool
  pp_first_frag :: bool
  pp_last_frag :: bool
  pp_expedite :: bool
  pp_retransmit :: bool
  pp_psk_mode :: u8
  pp_lpc_mode :: u8
  pp_enc_type :: u8
  pp_flow_id :: "flow_id option"
  pp_psk_hash :: "bytes option"
  pp_psk_nonce :: "bytes option"
  pp_psk_iv :: "bytes option"
  pp_compression :: "bytes option"
  pp_pfd :: "pfd option"
  pp_hdr_ext :: "bytes option"
  pp_payload :: bytes

text \<open>The offset after the CSRC list and the RTP header extension.\<close>

definition adv_rtp_end :: "bytes \<Rightarrow> u8 \<Rightarrow> (adv_error, nat) result" where
  "adv_rtp_end b flags0 =
     (let offset = adv_rtp_size + unat (flags0 AND 0x0F) * 4 in
      if length b < offset then res_err (AdvShortBuffer (length b) offset)
      else if flags0 AND 0x10 \<noteq> 0
      then if length b < offset + adv_rtp_ext_hdr_size
           then res_err (AdvShortBuffer (length b) (offset + adv_rtp_ext_hdr_size))
           else res_bind (res_lift (get_be16 b (offset + 2))) (\<lambda>ext_words.
             let offset = offset + adv_rtp_ext_hdr_size + unat ext_words * 4 in
             if length b < offset then res_err (AdvShortBuffer (length b) offset) else res_ok offset)
      else res_ok offset)"

text \<open>\<^verbatim>\<open>take\<close>, and the same check before the flow id and the payload format: the field and the offset
  after it.\<close>

definition adv_take :: "bytes \<Rightarrow> bool \<Rightarrow> nat \<Rightarrow> nat \<Rightarrow> (adv_error, bytes option \<times> nat) result" where
  "adv_take b wanted n offset =
     (if \<not> wanted then res_ok (None, offset)
      else if length b < offset + n then res_err (AdvShortBuffer (length b) (offset + n))
      else res_bind (res_lift (vec_slice b offset (offset + n))) (\<lambda>f. res_ok (Some f, offset + n)))"

definition adv_read :: "('a \<Rightarrow> 'b option) \<Rightarrow> 'a option \<Rightarrow> ('e, 'b option) result" where
  "adv_read parse f =
     (case f of None \<Rightarrow> res_ok None | Some x \<Rightarrow> res_bind (res_lift (parse x)) (\<lambda>y. res_ok (Some y)))"

definition adv_hdr_ext :: "bytes \<Rightarrow> bool \<Rightarrow> nat \<Rightarrow> (adv_error, bytes option \<times> nat) result" where
  "adv_hdr_ext b wanted offset =
     (if \<not> wanted then res_ok (None, offset)
      else if length b < offset + adv_rtp_ext_hdr_size
      then res_err (AdvShortBuffer (length b) (offset + adv_rtp_ext_hdr_size))
      else res_bind (res_lift (get_be16 b (offset + 2))) (\<lambda>hdr_words.
        adv_take b True (adv_rtp_ext_hdr_size + unat hdr_words * 4) offset))"

definition adv_parse :: "bytes \<Rightarrow> (adv_error, adv_parsed) result" where
  "adv_parse b =
     (if length b < adv_header_min then res_err (AdvShortBuffer (length b) adv_header_min)
      else res_bind (res_lift (vec_get b 0)) (\<lambda>flags0.
        if flags0 AND 0xC0 \<noteq> 0x80 then res_err (AdvInvalidVersion flags0)
        else res_bind (res_lift (vec_get b 1)) (\<lambda>b1.
          let pt = b1 AND 0x7F in
          if pt \<noteq> adv_payload_type \<and> pt < adv_dynamic_pt_min then res_err (AdvInvalidPayloadType pt)
          else
            res_bind (res_lift (get_be32 b 4)) (\<lambda>timestamp.
            res_bind (res_lift (get_be32 b 8)) (\<lambda>ssrc.
            res_bind (res_lift (get_be16 b 2)) (\<lambda>rtp_seq.
            res_bind (adv_rtp_end b flags0) (\<lambda>offset.
            if length b < offset + adv_ext_len then res_err (AdvShortBuffer (length b) (offset + adv_ext_len))
            else
              res_bind (res_lift (get_be16 b offset)) (\<lambda>seq_ext.
              res_bind (res_lift (vec_get b (offset + 2))) (\<lambda>ext_flags.
              res_bind (res_lift (vec_get b (offset + 3))) (\<lambda>ext_params.
              let offset = offset + adv_ext_len;
                  psk_mode = push_bit 2 (ext_flags AND adv_flag_psk2)
                    OR drop_bit adv_psk10_shift (ext_params AND adv_psk10_mask);
                  lpc_mode = drop_bit adv_lpc_shift (ext_params AND adv_lpc_mask)
              in
              res_bind (adv_take b (ext_flags AND adv_flag_i \<noteq> 0) adv_flow_id_size offset) (\<lambda>(flow, offset).
              res_bind (adv_read flow_id_parse flow) (\<lambda>flow_id.
              res_bind (adv_take b (psk_has_hash psk_mode) adv_psk_hash_size offset) (\<lambda>(psk_hash, offset).
              res_bind (adv_take b (psk_has_nonce psk_mode) adv_psk_nonce_size offset) (\<lambda>(psk_nonce, offset).
              res_bind (adv_take b (psk_has_iv psk_mode) adv_psk_iv_size offset) (\<lambda>(psk_iv, offset).
              res_bind (adv_take b (lpc_mode = adv_lpc_field_present) adv_compression_size offset)
                (\<lambda>(compression, offset).
              res_bind (adv_take b (ext_flags AND adv_flag_p \<noteq> 0) adv_pfd_size offset) (\<lambda>(pfd, offset).
              res_bind (adv_read pfd_parse pfd) (\<lambda>pfd.
              res_bind (adv_hdr_ext b (ext_flags AND adv_flag_h \<noteq> 0) offset) (\<lambda>(hdr_ext, offset).
              res_bind (res_lift (vec_slice b offset (length b))) (\<lambda>payload.
              res_ok \<lparr>pp_seq = join_seq seq_ext rtp_seq, pp_timestamp = timestamp, pp_ssrc = ssrc,
                pp_rtp_ext_present = (flags0 AND 0x10 \<noteq> 0), pp_rtp_padding = (flags0 AND 0x20 \<noteq> 0),
                pp_first_frag = (ext_flags AND adv_flag_f \<noteq> 0), pp_last_frag = (ext_flags AND adv_flag_l \<noteq> 0),
                pp_expedite = (ext_flags AND adv_flag_e \<noteq> 0), pp_retransmit = (ext_flags AND adv_flag_r \<noteq> 0),
                pp_psk_mode = psk_mode, pp_lpc_mode = lpc_mode, pp_enc_type = ext_params AND adv_type_mask,
                pp_flow_id = flow_id, pp_psk_hash = psk_hash, pp_psk_nonce = psk_nonce, pp_psk_iv = psk_iv,
                pp_compression = compression, pp_pfd = pfd, pp_hdr_ext = hdr_ext, pp_payload = payload\<rparr>))))))))))))))))))))"

end
