(* ===== verification/Adv_Control.thy ===== *)
theory Adv_Control
  imports Adv
begin

text \<open>
  The control messages of the Advanced profile (\<^verbatim>\<open>rist-codec/src/adv.rs\<close>, from \<^verbatim>\<open>build_control\<close>
  on): the sub-header, the bodies, and the packing of missing numbers into bitmask and range NACKs.
\<close>

section \<open>The sub-header\<close>

definition build_control :: "u16 \<Rightarrow> bytes \<Rightarrow> bytes" where
  "build_control ci body = be16 ci @ be16 (of_nat (length body)) @ body"

definition build_unsupported :: "u32 \<Rightarrow> u16 \<Rightarrow> bytes \<Rightarrow> bytes" where
  "build_unsupported responder_ssrc incoming_ci head =
     build_control adv_ci_unsupported (be32 responder_ssrc @ be16 incoming_ci @ [0, 0] @ head @ [0, 0])"

definition parse_control :: "bytes \<Rightarrow> (adv_error, u16 \<times> bytes) result" where
  "parse_control b =
     (if length b < adv_ctrl_hdr_size then res_err (AdvShortControl (length b) adv_ctrl_hdr_size)
      else res_bind (res_lift (get_be16 b 0)) (\<lambda>ci. res_bind (res_lift (get_be16 b 2)) (\<lambda>body_len.
        if length b < adv_ctrl_hdr_size + unat body_len
        then res_err (AdvShortControl (length b) (adv_ctrl_hdr_size + unat body_len))
        else res_bind (res_lift (vec_slice b adv_ctrl_hdr_size (adv_ctrl_hdr_size + unat body_len)))
          (\<lambda>body. res_ok (ci, body)))))"

section \<open>Bodies\<close>

record adv_bitmask =
  ab_media_ssrc :: u32
  ab_pss :: u32
  ab_blp :: u32

definition adv_bitmask_body :: "adv_bitmask \<Rightarrow> bytes" where
  "adv_bitmask_body n = be32 (ab_media_ssrc n) @ be32 (ab_pss n) @ be32 (ab_blp n)"

definition adv_bitmask_missing :: "adv_bitmask \<Rightarrow> u32 list" where
  "adv_bitmask_missing n =
     ab_pss n # foldl (\<lambda>out i. if ab_blp n AND push_bit i 1 \<noteq> 0 then out @ [ab_pss n + (1 + of_nat i)] else out)
       [] [0..<32]"

definition adv_bitmask_parse :: "bytes \<Rightarrow> (adv_error, adv_bitmask) result" where
  "adv_bitmask_parse body =
     (if length body < adv_nack_body_size then res_err (AdvShortControl (length body) adv_nack_body_size)
      else res_bind (res_lift (get_be32 body 0)) (\<lambda>m. res_bind (res_lift (get_be32 body 4)) (\<lambda>p.
        res_bind (res_lift (get_be32 body 8)) (\<lambda>l.
          res_ok \<lparr>ab_media_ssrc = m, ab_pss = p, ab_blp = l\<rparr>))))"

record adv_range =
  ag_media_ssrc :: u32
  ag_pss :: u32
  ag_nalp :: u32

definition adv_range_body :: "adv_range \<Rightarrow> bytes" where
  "adv_range_body n = be32 (ag_media_ssrc n) @ be32 (ag_pss n) @ be32 (ag_nalp n)"

definition adv_range_missing :: "adv_range \<Rightarrow> u32 list" where
  "adv_range_missing n =
     (let count = min (ag_nalp n) adv_max_nack_decode_range
      in map (\<lambda>i. ag_pss n + of_nat i) [0..<unat count + 1])"

definition adv_range_parse :: "bytes \<Rightarrow> (adv_error, adv_range) result" where
  "adv_range_parse body =
     (if length body < adv_nack_body_size then res_err (AdvShortControl (length body) adv_nack_body_size)
      else res_bind (res_lift (get_be32 body 0)) (\<lambda>m. res_bind (res_lift (get_be32 body 4)) (\<lambda>p.
        res_bind (res_lift (get_be32 body 8)) (\<lambda>l.
          res_ok \<lparr>ag_media_ssrc = m, ag_pss = p, ag_nalp = l\<rparr>))))"

record adv_echo =
  ec_requester_ssrc :: u32
  ec_timestamp_msw :: u32
  ec_timestamp_lsw :: u32
  ec_processing_delay :: u32

definition adv_echo_timestamp :: "adv_echo \<Rightarrow> u64" where
  "adv_echo_timestamp e = push_bit 32 (ucast (ec_timestamp_msw e)) OR ucast (ec_timestamp_lsw e)"

definition adv_echo_from_timestamp :: "u32 \<Rightarrow> u64 \<Rightarrow> u32 \<Rightarrow> adv_echo" where
  "adv_echo_from_timestamp requester_ssrc ts processing_delay =
     \<lparr>ec_requester_ssrc = requester_ssrc, ec_timestamp_msw = ucast (drop_bit 32 ts), ec_timestamp_lsw = ucast ts,
      ec_processing_delay = processing_delay\<rparr>"

definition adv_echo_body :: "adv_echo \<Rightarrow> bytes" where
  "adv_echo_body e = be32 (ec_requester_ssrc e) @ be32 (ec_timestamp_msw e) @ be32 (ec_timestamp_lsw e)
     @ be32 (ec_processing_delay e)"

definition adv_echo_parse :: "bytes \<Rightarrow> (adv_error, adv_echo) result" where
  "adv_echo_parse body =
     (if length body < adv_rtt_echo_body_size then res_err (AdvShortControl (length body) adv_rtt_echo_body_size)
      else res_bind (res_lift (get_be32 body 0)) (\<lambda>r. res_bind (res_lift (get_be32 body 4)) (\<lambda>m.
        res_bind (res_lift (get_be32 body 8)) (\<lambda>l. res_bind (res_lift (get_be32 body 12)) (\<lambda>d.
          res_ok \<lparr>ec_requester_ssrc = r, ec_timestamp_msw = m, ec_timestamp_lsw = l, ec_processing_delay = d\<rparr>)))))"

record adv_keepalive =
  ak_mac :: bytes
  ak_caps :: u32

definition adv_keepalive_body :: "adv_keepalive \<Rightarrow> bytes" where
  "adv_keepalive_body k = ak_mac k @ be32 (ak_caps k)"

definition adv_keepalive_parse :: "bytes \<Rightarrow> (adv_error, adv_keepalive) result" where
  "adv_keepalive_parse body =
     (if length body < adv_keepalive_body_size then res_err (AdvShortControl (length body) adv_keepalive_body_size)
      else res_bind (res_lift (get_be32 body 6)) (\<lambda>caps. res_bind (res_lift (vec_slice body 0 6)) (\<lambda>mac.
        res_ok \<lparr>ak_mac = mac, ak_caps = caps\<rparr>)))"

record adv_nonce =
  an_nonce :: bytes
  an_key_bits :: u16

definition adv_nonce_body :: "adv_nonce \<Rightarrow> bytes" where
  "adv_nonce_body p = an_nonce p @ be16 (an_key_bits p) @ [0, 0]"

definition adv_nonce_parse :: "bytes \<Rightarrow> (adv_error, adv_nonce) result" where
  "adv_nonce_parse body =
     (if length body < adv_psk_nonce_body_size then res_err (AdvShortControl (length body) adv_psk_nonce_body_size)
      else res_bind (res_lift (get_be16 body 4)) (\<lambda>bits. res_bind (res_lift (vec_slice body 0 4)) (\<lambda>nonce.
        res_ok \<lparr>an_nonce = nonce, an_key_bits = bits\<rparr>)))"

section \<open>Framed messages\<close>

definition build_nack_bitmask :: "adv_bitmask \<Rightarrow> bytes" where
  "build_nack_bitmask n = build_control adv_ci_nack_bitmask (adv_bitmask_body n)"

definition build_nack_range :: "adv_range \<Rightarrow> bytes" where
  "build_nack_range n = build_control adv_ci_nack_range (adv_range_body n)"

definition build_rtt_echo_request :: "adv_echo \<Rightarrow> bytes" where
  "build_rtt_echo_request e = build_control adv_ci_rtt_echo_req (adv_echo_body e)"

definition build_rtt_echo_response :: "adv_echo \<Rightarrow> bytes" where
  "build_rtt_echo_response e = build_control adv_ci_rtt_echo_resp (adv_echo_body e)"

definition build_adv_keepalive :: "adv_keepalive \<Rightarrow> bytes" where
  "build_adv_keepalive k = build_control adv_ci_keepalive (adv_keepalive_body k)"

definition build_psk_nonce :: "adv_nonce \<Rightarrow> bytes" where
  "build_psk_nonce p = build_control adv_ci_psk_nonce (adv_nonce_body p)"

definition build_flow_attr :: "bytes \<Rightarrow> bytes" where
  "build_flow_attr json = build_control adv_ci_flow_attr json"

section \<open>NACK packing\<close>

definition sort_seqs_wrap :: "u32 list \<Rightarrow> u32 list" where
  "sort_seqs_wrap s = (case s of [] \<Rightarrow> [] | pivot # _ \<Rightarrow> sort_key (\<lambda>x. sint (x - pivot)) s)"

text \<open>The inner loops: the entry grown from its first number, and the suffix where the next one starts.\<close>

fun bitmask_window :: "u32 \<Rightarrow> u32 \<Rightarrow> u32 list \<Rightarrow> u32 \<times> u32 list" where
  "bitmask_window pss blp [] = (blp, [])"
| "bitmask_window pss blp (x # xs) =
     (let delta = x - pss in
      if delta = 0 then bitmask_window pss blp xs
      else if 32 < delta then (blp, x # xs)
      else bitmask_window pss (blp OR push_bit (unat (delta - 1)) 1) xs)"

fun range_run :: "u32 \<Rightarrow> u32 \<Rightarrow> u32 list \<Rightarrow> u32 \<times> u32 list" where
  "range_run pss cur [] = (cur, [])"
| "range_run pss cur (nxt # xs) =
     (if nxt = cur then range_run pss nxt xs
      else if nxt \<noteq> cur + 1 then (cur, nxt # xs)
      else if adv_max_nack_decode_range \<le> nxt - pss then (cur, nxt # xs)
      else range_run pss nxt xs)"

lemma bitmask_window_shorter: "length (snd (bitmask_window pss blp xs)) \<le> length xs"
  by (induction pss blp xs rule: bitmask_window.induct) (auto simp: Let_def)

lemma range_run_shorter: "length (snd (range_run pss cur xs)) \<le> length xs"
  by (induction pss cur xs rule: range_run.induct) (auto simp: Let_def)

function bitmask_entries :: "u32 \<Rightarrow> u32 list \<Rightarrow> adv_bitmask list" where
  "bitmask_entries media [] = []"
| "bitmask_entries media (pss # xs) =
     \<lparr>ab_media_ssrc = media, ab_pss = pss, ab_blp = fst (bitmask_window pss 0 xs)\<rparr>
     # bitmask_entries media (snd (bitmask_window pss 0 xs))"
  by pat_completeness auto
termination by (relation "measure (length \<circ> snd)") (auto simp: le_imp_less_Suc bitmask_window_shorter)

function range_entries :: "u32 \<Rightarrow> u32 list \<Rightarrow> adv_range list" where
  "range_entries media [] = []"
| "range_entries media (pss # xs) =
     \<lparr>ag_media_ssrc = media, ag_pss = pss, ag_nalp = fst (range_run pss pss xs) - pss\<rparr>
     # range_entries media (snd (range_run pss pss xs))"
  by pat_completeness auto
termination by (relation "measure (length \<circ> snd)") (auto simp: le_imp_less_Suc range_run_shorter)

definition adv_encode_bitmask_nack :: "u32 \<Rightarrow> u32 list \<Rightarrow> adv_bitmask list" where
  "adv_encode_bitmask_nack media_ssrc missing =
     (if missing = [] then [] else bitmask_entries media_ssrc (sort_seqs_wrap missing))"

definition adv_encode_range_nack :: "u32 \<Rightarrow> u32 list \<Rightarrow> adv_range list" where
  "adv_encode_range_nack media_ssrc missing =
     (if missing = [] then [] else range_entries media_ssrc (sort_seqs_wrap missing))"

end
