(* ===== verification/Adv_Props.thy ===== *)
theory Adv_Props
  imports Adv_Control Rtcp_Props
begin

text \<open>
  The Advanced packet format: parsing inverts building on every packet whose fields fit their wire widths, and
  returns on any bytes; control messages and their bodies round-trip; the NACKs packed from a list of missing numbers
  ask for exactly those numbers.
\<close>

section \<open>Fields\<close>

lemma and_flag: "(x :: u8) AND push_bit n 1 = 0 \<longleftrightarrow> \<not> bit x n"
  by (metis and_exp_eq_0_iff_not_bit push_bit_of_1)

lemma flag_tests:
  "((x :: u8) AND 0x80 = 0) = (\<not> bit x 7)" "(x AND 0x40 = 0) = (\<not> bit x 6)" "(x AND 0x20 = 0) = (\<not> bit x 5)"
  "(x AND 0x10 = 0) = (\<not> bit x 4)" "(x AND 8 = 0) = (\<not> bit x 3)" "(x AND 4 = 0) = (\<not> bit x 2)"
  "(x AND 2 = 0) = (\<not> bit x 1)"
  using and_flag [of x 7] and_flag [of x 6] and_flag [of x 5] and_flag [of x 4] and_flag [of x 3] and_flag [of x 2]
    and_flag [of x 1] by (simp_all add: push_bit_eq_mult)

lemma adv_flags_bits:
  "bit (adv_flags_byte p) 7 = ap_first_frag p" "bit (adv_flags_byte p) 6 = ap_last_frag p"
  "bit (adv_flags_byte p) 5 = ap_expedite p" "bit (adv_flags_byte p) 4 = ap_retransmit p"
  "bit (adv_flags_byte p) 3 = (ap_flow_id p \<noteq> None)" "bit (adv_flags_byte p) 2 = (ap_pfd p \<noteq> None)"
  "bit (adv_flags_byte p) 1 = (ap_hdr_ext p \<noteq> [])" "bit (adv_flags_byte p) 0 = bit (ap_psk_mode p) 2"
  by (simp_all add: adv_flags_byte_def adv_consts Let_def bit_or_iff bit_and_iff bit_drop_bit_eq del: not_None_eq)

lemma join_split_seq [simp]: "join_seq (ucast (drop_bit 16 seq)) (ucast seq) = seq"
  unfolding join_seq_def by (rule bit_word_eqI) (auto simp: bit_simps)

lemma mask_numerals:
  "(0xFF :: 'a::len word) = mask 8" "(0x0F :: 'a word) = mask 4" "(0x0FFFFFFF :: 'a word) = mask 28"
  "(0xC0 :: 'a word) = push_bit 6 (mask 2)" "(0x30 :: 'a word) = push_bit 4 (mask 2)" "(3 :: 'a word) = mask 2"
  by (simp_all add: mask_eq_exp_minus_1 push_bit_eq_mult)

lemma flow_id_parse_encode:
  assumes "unat (fi_inner f) < 2 ^ 12" "unat (fi_sub f) < 2 ^ 4"
  shows "flow_id_parse (flow_id_encode f) = Some f"
proof -
  have i: "\<And>k. bit (fi_inner f) k \<Longrightarrow> k < 12" using high_bits [OF assms(1)] by (meson linorder_not_less)
  have s: "\<And>k. bit (fi_sub f) k \<Longrightarrow> k < 4" using high_bits [OF assms(2)] by (meson linorder_not_less)
  have inner: "(push_bit 4 (ucast (ucast (drop_bit 4 (fi_inner f) AND 0xFF) :: u8)) OR
      ucast (drop_bit 4 ((ucast (push_bit 4 (fi_inner f AND 0x0F)) :: u8) OR (fi_sub f AND 0x0F))) :: u16) = fi_inner f"
    unfolding mask_numerals by (rule bit_word_eqI) (auto simp: bit_simps dest: i)
  have sub: "((ucast (push_bit 4 (fi_inner f AND 0x0F)) :: u8) OR (fi_sub f AND 0x0F)) AND 0x0F = fi_sub f"
    unfolding mask_numerals by (rule bit_word_eqI) (auto simp: bit_simps dest: s)
  show ?thesis
    by (simp add: flow_id_parse_def flow_id_encode_def eval_reads inner [simplified] sub [simplified])
qed

lemma pfd_parse_encode:
  assumes "unat (pfd_id_type p) < 2 ^ 4" "unat (pfd_id_value p) < 2 ^ 28"
  shows "pfd_parse (pfd_encode p) = Some p"
proof -
  have i: "\<And>k. bit (pfd_id_type p) k \<Longrightarrow> k < 4" using high_bits [OF assms(1)] by (meson linorder_not_less)
  have s: "\<And>k. bit (pfd_id_value p) k \<Longrightarrow> k < 28" using high_bits [OF assms(2)] by (meson linorder_not_less)
  have t: "ucast (drop_bit 28 ((push_bit 28 (ucast (pfd_id_type p AND 0x0F)) :: u32) OR (pfd_id_value p AND 0x0FFFFFFF)))
      = pfd_id_type p"
    unfolding mask_numerals by (rule bit_word_eqI) (auto simp: bit_simps dest: i s)
  have v: "((push_bit 28 (ucast (pfd_id_type p AND 0x0F)) :: u32) OR (pfd_id_value p AND 0x0FFFFFFF)) AND 0x0FFFFFFF
      = pfd_id_value p"
    unfolding mask_numerals by (rule bit_word_eqI) (auto simp: bit_simps dest: i s)
  show ?thesis
    unfolding pfd_parse_def pfd_encode_def get_be32_at [of 0 "[]" _ "[]", simplified] Option.bind.bind_lunit t v
    by simp
qed

lemma small_bits: "(v :: u8) \<le> w \<Longrightarrow> unat w < 2 ^ n \<Longrightarrow> bit v k \<Longrightarrow> k < n"
  using high_bits [of v n k] by (meson word_le_nat_alt linorder_not_less order_le_less_trans)

lemma psk_mode_read:
  assumes "ap_psk_mode p \<le> 7"
  shows "push_bit 2 (adv_flags_byte p AND adv_flag_psk2)
    OR drop_bit adv_psk10_shift (adv_params_byte p AND adv_psk10_mask) = ap_psk_mode p"
proof -
  have b: "bit (ap_psk_mode p) k \<Longrightarrow> k < 3" for k using small_bits [OF assms, of 3 k] by simp
  show ?thesis
    unfolding adv_consts adv_params_byte_def mask_numerals
  proof (rule bit_word_eqI)
    fix n assume "n < LENGTH(8)"
    then have "n \<in> {0, 1, 2, 3, 4, 5, 6, 7}" by auto
    then show "bit (push_bit 2 (adv_flags_byte p AND 1) OR drop_bit 6 ((push_bit 6 (ap_psk_mode p AND mask 2)
        OR push_bit 4 (ap_lpc_mode p AND mask 2) OR (ap_enc_type p AND mask 4)) AND push_bit 6 (mask 2))) n
      = bit (ap_psk_mode p) n"
      by (elim insertE emptyE) (use b [of n] in \<open>auto simp: bit_simps adv_flags_bits(8) simp del: bit_0\<close>)
  qed
qed

lemma lpc_mode_read:
  assumes "ap_lpc_mode p \<le> 3"
  shows "drop_bit adv_lpc_shift (adv_params_byte p AND adv_lpc_mask) = ap_lpc_mode p"
proof -
  have b: "\<not> k < 2 \<Longrightarrow> \<not> bit (ap_lpc_mode p) k" for k using small_bits [OF assms, of 2 k] by auto
  show ?thesis
    unfolding adv_consts adv_params_byte_def mask_numerals
    by (rule bit_word_eqI, rename_tac n, case_tac "n < 2") (auto simp: bit_simps b)
qed

lemma enc_type_read:
  assumes "ap_enc_type p \<le> 15"
  shows "adv_params_byte p AND adv_type_mask = ap_enc_type p"
proof -
  have b: "\<not> k < 4 \<Longrightarrow> \<not> bit (ap_enc_type p) k" for k using small_bits [OF assms, of 4 k] by auto
  show ?thesis
    unfolding adv_consts adv_params_byte_def mask_numerals
    by (rule bit_word_eqI, rename_tac n, case_tac "n < 4") (auto simp: bit_simps b)
qed
section \<open>Packets\<close>

definition adv_flow_fits :: "flow_id option \<Rightarrow> bool" where
  "adv_flow_fits f = (case f of None \<Rightarrow> True | Some f \<Rightarrow> unat (fi_inner f) < 2 ^ 12 \<and> unat (fi_sub f) < 2 ^ 4)"

definition adv_pfd_fits :: "pfd option \<Rightarrow> bool" where
  "adv_pfd_fits f = (case f of None \<Rightarrow> True | Some f \<Rightarrow> unat (pfd_id_type f) < 2 ^ 4 \<and> unat (pfd_id_value f) < 2 ^ 28)"

definition adv_array_fits :: "nat \<Rightarrow> bytes option \<Rightarrow> bool" where
  "adv_array_fits n b = (case b of None \<Rightarrow> True | Some b \<Rightarrow> length b = n)"

definition adv_hdr_ext_fits :: "bytes \<Rightarrow> bool" where
  "adv_hdr_ext_fits b \<longleftrightarrow> b = [] \<or>
     (case get_be16 b 2 of None \<Rightarrow> False | Some words \<Rightarrow> length b = adv_rtp_ext_hdr_size + unat words * 4)"

definition adv_fits :: "adv_params \<Rightarrow> bool" where
  "adv_fits p \<longleftrightarrow> ap_enc_type p \<le> 15 \<and> ap_psk_mode p \<le> 7 \<and> ap_lpc_mode p \<le> 3
     \<and> adv_flow_fits (ap_flow_id p) \<and> adv_pfd_fits (ap_pfd p) \<and> adv_hdr_ext_fits (ap_hdr_ext p)
     \<and> adv_array_fits 16 (ap_psk_hash p) \<and> adv_array_fits 4 (ap_psk_nonce p) \<and> adv_array_fits 4 (ap_psk_iv p)
     \<and> adv_array_fits 4 (ap_compression p)"

definition adv_parsed_of :: "adv_params \<Rightarrow> bytes \<Rightarrow> adv_parsed" where
  "adv_parsed_of p payload =
     \<lparr>pp_seq = ap_seq p, pp_timestamp = ap_timestamp p, pp_ssrc = ap_ssrc p, pp_rtp_ext_present = False,
      pp_rtp_padding = False, pp_first_frag = ap_first_frag p, pp_last_frag = ap_last_frag p,
      pp_expedite = ap_expedite p, pp_retransmit = ap_retransmit p, pp_psk_mode = ap_psk_mode p,
      pp_lpc_mode = ap_lpc_mode p, pp_enc_type = ap_enc_type p, pp_flow_id = ap_flow_id p,
      pp_psk_hash = (if psk_has_hash (ap_psk_mode p) then Some (append_or_zero (ap_psk_hash p) 16) else None),
      pp_psk_nonce = (if psk_has_nonce (ap_psk_mode p) then Some (append_or_zero (ap_psk_nonce p) 4) else None),
      pp_psk_iv = (if psk_has_iv (ap_psk_mode p) then Some (append_or_zero (ap_psk_iv p) 4) else None),
      pp_compression = (if ap_lpc_mode p = 3 then Some (append_or_zero (ap_compression p) 4) else None),
      pp_pfd = ap_pfd p, pp_hdr_ext = (if ap_hdr_ext p = [] then None else Some (ap_hdr_ext p)),
      pp_payload = payload\<rparr>"

lemma length_append_or_zero: "adv_array_fits n b \<Longrightarrow> length (append_or_zero b n) = n"
  by (cases b) (auto simp: adv_array_fits_def append_or_zero_def)

lemma adv_take_at:
  assumes "b = pre @ f @ post" "i = length pre" "f = (if w then x else [])" "w \<Longrightarrow> length x = n"
  shows "adv_take b w n i = res_ok (if w then Some x else None, length (pre @ f))"
  using assms vec_slice_at [of i pre "i + n" x post] by (auto simp: adv_take_def)

lemma adv_take_array:
  assumes "f = (if w then append_or_zero x n else [])" "adv_array_fits n x"
    "b = pre @ f @ post" "i = length pre" "j = length (pre @ f)"
  shows "adv_take b w n i = res_ok (if w then Some (append_or_zero x n) else None, j)"
  using adv_take_at [OF assms(3,4,1)] length_append_or_zero [OF assms(2)] assms(5) by simp

lemma adv_hdr_ext_at:
  assumes "b = pre @ e @ post" "i = length pre" "adv_hdr_ext_fits e"
  shows "adv_hdr_ext b (e \<noteq> []) i = res_ok (if e = [] then None else Some e, length (pre @ e))"
proof (cases "e = []")
  case False
  then obtain w where w: "get_be16 e 2 = Some w" "length e = 4 + unat w * 4"
    using assms(3) by (auto simp: adv_hdr_ext_fits_def adv_rtp_ext_hdr_size_def split: option.splits)
  have "get_be16 b (i + 2) = Some w"
    using w assms(1,2) get_be16_total [of 2 e] get_be16_total [of "i + 2" b] by (simp add: nth_append)
  moreover have "adv_take b True (length e) i = res_ok (Some e, length (pre @ e))"
    using adv_take_at [OF assms(1,2), of True e] by simp
  ultimately show ?thesis using w False assms(1,2) by (simp add: adv_hdr_ext_def adv_rtp_ext_hdr_size_def)
qed (simp add: adv_hdr_ext_def assms(2))

lemma adv_header_reads:
  assumes "b = [adv_rtp_flags, adv_payload_type] @ be16 low @ be32 ts @ be32 ssrc @ be16 high @ [fl, pb] @ rest"
  shows "vec_get b 0 = Some adv_rtp_flags" "vec_get b 1 = Some adv_payload_type" "get_be16 b 2 = Some low"
    "get_be32 b 4 = Some ts" "get_be32 b 8 = Some ssrc" "get_be16 b 12 = Some high" "vec_get b 14 = Some fl"
    "vec_get b 15 = Some pb" "length b = 16 + length rest" "adv_rtp_end b adv_rtp_flags = res_ok 12"
proof -
  define h where "h = [adv_rtp_flags, adv_payload_type]"
  have b: "b = h @ be16 low @ be32 ts @ be32 ssrc @ be16 high @ [fl, pb] @ rest" and h: "length h = 2"
    by (simp_all add: assms h_def)
  show "get_be16 b 2 = Some low" unfolding b by (rule get_be16_at) (simp add: h)
  show "get_be32 b 4 = Some ts"
    using get_be32_at [of 4 "h @ be16 low" ts "be32 ssrc @ be16 high @ [fl, pb] @ rest"] by (simp add: b h)
  show "get_be32 b 8 = Some ssrc"
    using get_be32_at [of 8 "h @ be16 low @ be32 ts" ssrc "be16 high @ [fl, pb] @ rest"] by (simp add: b h)
  show "get_be16 b 12 = Some high"
    using get_be16_at [of 12 "h @ be16 low @ be32 ts @ be32 ssrc" high "[fl, pb] @ rest"] by (simp add: b h)
  show "vec_get b 14 = Some fl"
    using vec_get_append [of 14 "h @ be16 low @ be32 ts @ be32 ssrc @ be16 high" fl "[pb] @ rest"] by (simp add: b h)
  show "vec_get b 15 = Some pb"
    using vec_get_append [of 15 "h @ be16 low @ be32 ts @ be32 ssrc @ be16 high @ [fl]" pb rest] by (simp add: b h)
  show "length b = 16 + length rest" by (simp add: b h)
  then show "adv_rtp_end b adv_rtp_flags = res_ok 12" by (simp add: adv_rtp_end_def adv_rtp_size_def adv_rtp_flags_def)
qed (simp_all add: assms vec_get_def)

lemma ext_if_nil: "(if xs \<noteq> [] then xs else []) = xs"
  by simp

lemma adv_parse_build:
  assumes fits: "adv_fits p"
  shows "\<exists>b. adv_build p payload = Inr b \<and> length b = adv_header_size p + length payload
    \<and> adv_parse b = res_ok (adv_parsed_of p payload)"
proof -
  note f = fits [unfolded adv_fits_def]
  define x1 where "x1 = (case ap_flow_id p of Some f \<Rightarrow> flow_id_encode f | None \<Rightarrow> [])"
  define x2 where "x2 = (if psk_has_hash (ap_psk_mode p) then append_or_zero (ap_psk_hash p) 16 else [])"
  define x3 where "x3 = (if psk_has_nonce (ap_psk_mode p) then append_or_zero (ap_psk_nonce p) 4 else [])"
  define x4 where "x4 = (if psk_has_iv (ap_psk_mode p) then append_or_zero (ap_psk_iv p) 4 else [])"
  define x5 where "x5 = (if ap_lpc_mode p = adv_lpc_field_present then append_or_zero (ap_compression p) 4 else [])"
  define x6 where "x6 = (case ap_pfd p of Some f \<Rightarrow> pfd_encode f | None \<Rightarrow> [])"
  define x7 where "x7 = ap_hdr_ext p"
  define h where "h = [adv_rtp_flags, adv_payload_type] @ be16 (ucast (ap_seq p)) @ be32 (ap_timestamp p)
    @ be32 (ap_ssrc p) @ be16 (ucast (drop_bit 16 (ap_seq p))) @ [adv_flags_byte p, adv_params_byte p]"
  define b where "b = h @ x1 @ x2 @ x3 @ x4 @ x5 @ x6 @ x7 @ payload"
  have guards: "\<not> adv_type_mask < ap_enc_type p" "\<not> adv_psk_max_incl < ap_psk_mode p"
    "\<not> adv_lpc_max_incl < ap_lpc_mode p"
    using f by (simp_all add: adv_type_mask_def adv_psk_max_incl_def adv_lpc_max_incl_def not_less)
  have built: "adv_build p payload = Inr b"
    unfolding adv_build_def split_seq_def b_def h_def x1_def x2_def x3_def x4_def x5_def x6_def x7_def append_assoc
    by (simp only: guards if_False Let_def prod.case ext_if_nil adv_sizes)
  have lh: "length h = 16" by (simp add: h_def)
  have bh: "b = [adv_rtp_flags, adv_payload_type] @ be16 (ucast (ap_seq p)) @ be32 (ap_timestamp p)
    @ be32 (ap_ssrc p) @ be16 (ucast (drop_bit 16 (ap_seq p))) @ [adv_flags_byte p, adv_params_byte p]
    @ (x1 @ x2 @ x3 @ x4 @ x5 @ x6 @ x7 @ payload)"
    unfolding b_def h_def by (simp only: append_assoc)
  note reads = adv_header_reads [OF bh]
  define o1 o2 o3 o4 o5 o6 o7 where "o1 = length (h @ x1)" and "o2 = length ((h @ x1) @ x2)"
    and "o3 = length ((h @ x1 @ x2) @ x3)" and "o4 = length ((h @ x1 @ x2 @ x3) @ x4)"
    and "o5 = length ((h @ x1 @ x2 @ x3 @ x4) @ x5)" and "o6 = length ((h @ x1 @ x2 @ x3 @ x4 @ x5) @ x6)"
    and "o7 = length ((h @ x1 @ x2 @ x3 @ x4 @ x5 @ x6) @ x7)"
  have b1: "b = h @ x1 @ (x2 @ x3 @ x4 @ x5 @ x6 @ x7 @ payload)"
    and b2: "b = (h @ x1) @ x2 @ x3 @ x4 @ x5 @ x6 @ x7 @ payload"
    and b3: "b = (h @ x1 @ x2) @ x3 @ x4 @ x5 @ x6 @ x7 @ payload"
    and b4: "b = (h @ x1 @ x2 @ x3) @ x4 @ x5 @ x6 @ x7 @ payload"
    and b5: "b = (h @ x1 @ x2 @ x3 @ x4) @ x5 @ x6 @ x7 @ payload"
    and b6: "b = (h @ x1 @ x2 @ x3 @ x4 @ x5) @ x6 @ x7 @ payload"
    by (simp_all only: b_def append_assoc)
  have t1: "adv_take b (ap_flow_id p \<noteq> None) 4 16 = res_ok (map_option flow_id_encode (ap_flow_id p), o1)"
    using adv_take_at [OF b1, of 16 "ap_flow_id p \<noteq> None" x1 4] lh
    by (cases "ap_flow_id p") (simp_all add: x1_def o1_def flow_id_encode_def)
  have r1: "adv_read flow_id_parse (map_option flow_id_encode (ap_flow_id p)) = res_ok (ap_flow_id p)"
    using f flow_id_parse_encode by (auto simp: adv_read_def adv_flow_fits_def split: option.splits)
  have t2: "adv_take b (psk_has_hash (ap_psk_mode p)) 16 o1
      = res_ok (if psk_has_hash (ap_psk_mode p) then Some (append_or_zero (ap_psk_hash p) 16) else None, o2)"
    using f by (intro adv_take_array [OF x2_def _ b2]) (simp_all only: o1_def o2_def append_assoc)
  have t3: "adv_take b (psk_has_nonce (ap_psk_mode p)) 4 o2
      = res_ok (if psk_has_nonce (ap_psk_mode p) then Some (append_or_zero (ap_psk_nonce p) 4) else None, o3)"
    using f by (intro adv_take_array [OF x3_def _ b3]) (simp_all only: o2_def o3_def append_assoc)
  have t4: "adv_take b (psk_has_iv (ap_psk_mode p)) 4 o3
      = res_ok (if psk_has_iv (ap_psk_mode p) then Some (append_or_zero (ap_psk_iv p) 4) else None, o4)"
    using f by (intro adv_take_array [OF x4_def _ b4]) (simp_all only: o3_def o4_def append_assoc)
  have t5: "adv_take b (ap_lpc_mode p = adv_lpc_field_present) 4 o4
      = res_ok (if ap_lpc_mode p = adv_lpc_field_present then Some (append_or_zero (ap_compression p) 4) else None, o5)"
    using f by (intro adv_take_array [OF x5_def _ b5]) (simp_all only: o4_def o5_def append_assoc)
  have t6: "adv_take b (ap_pfd p \<noteq> None) 4 o5 = res_ok (map_option pfd_encode (ap_pfd p), o6)"
    using adv_take_at [OF b6, of o5 "ap_pfd p \<noteq> None" x6 4]
    by (cases "ap_pfd p") (simp_all add: x6_def o5_def o6_def pfd_encode_def)
  have r6: "adv_read pfd_parse (map_option pfd_encode (ap_pfd p)) = res_ok (ap_pfd p)"
    using f pfd_parse_encode by (auto simp: adv_read_def adv_pfd_fits_def split: option.splits)
  have t7: "adv_hdr_ext b (ap_hdr_ext p \<noteq> []) o6 = res_ok (if ap_hdr_ext p = [] then None else Some (ap_hdr_ext p), o7)"
    using adv_hdr_ext_at [of b "h @ x1 @ x2 @ x3 @ x4 @ x5 @ x6" x7 payload o6] f
    by (simp add: b_def o6_def o7_def x7_def)
  have t8: "vec_slice b o7 (length b) = Some payload"
    using vec_slice_at [of o7 "h @ x1 @ x2 @ x3 @ x4 @ x5 @ x6 @ x7" "length b" payload "[]"] by (simp add: b_def o7_def)
  have pads: "adv_rtp_flags AND 0xC0 = 0x80" "(adv_rtp_flags AND 0x10 = 0)" "(adv_rtp_flags AND 0x20 = 0)"
    "adv_payload_type AND 0x7F = adv_payload_type"
    by (simp_all add: adv_rtp_flags_def adv_payload_type_def)
  have modes: "push_bit 2 (adv_flags_byte p AND adv_flag_psk2)
      OR drop_bit adv_psk10_shift (adv_params_byte p AND adv_psk10_mask) = ap_psk_mode p"
    "drop_bit adv_lpc_shift (adv_params_byte p AND adv_lpc_mask) = ap_lpc_mode p"
    "adv_params_byte p AND adv_type_mask = ap_enc_type p"
    using f psk_mode_read lpc_mode_read enc_type_read by simp_all
  have flags: "(adv_flags_byte p AND adv_flag_i \<noteq> 0) = (ap_flow_id p \<noteq> None)"
    "(adv_flags_byte p AND adv_flag_p \<noteq> 0) = (ap_pfd p \<noteq> None)"
    "(adv_flags_byte p AND adv_flag_h \<noteq> 0) = (ap_hdr_ext p \<noteq> [])"
    "(adv_flags_byte p AND adv_flag_f \<noteq> 0) = ap_first_frag p"
    "(adv_flags_byte p AND adv_flag_l \<noteq> 0) = ap_last_frag p"
    "(adv_flags_byte p AND adv_flag_e \<noteq> 0) = ap_expedite p"
    "(adv_flags_byte p AND adv_flag_r \<noteq> 0) = ap_retransmit p"
    by (simp_all add: adv_flag_i_def adv_flag_p_def adv_flag_h_def adv_flag_f_def adv_flag_l_def adv_flag_e_def
        adv_flag_r_def flag_tests adv_flags_bits del: One_nat_def)
  have sizes: "adv_header_min = 16" "adv_ext_len = 4" "(12::nat) + 4 = 16" "(12::nat) + 2 = 14" "(12::nat) + 3 = 15"
    "\<not> length b < 16"
    using reads(9) by (simp_all add: adv_sizes)
  have "adv_parse b = res_ok (adv_parsed_of p payload)"
    unfolding adv_parse_def
    by (simp only: sizes reads(1-8,10) pads if_False res_lift_simps res_bind_simps Let_def simp_thms modes flags adv_flow_id_size_def
        adv_psk_hash_size_def adv_psk_nonce_size_def adv_psk_iv_size_def adv_compression_size_def adv_pfd_size_def
        t1 r1 t2 t3 t4 t5 t6 r6 t7 t8 prod.case join_split_seq res_inject)
      (simp add: adv_parsed_of_def adv_lpc_field_present_def)
  moreover have "length b = adv_header_size p + length payload"
  proof -
    have "length x1 = (if ap_flow_id p \<noteq> None then 4 else 0)" "length x6 = (if ap_pfd p \<noteq> None then 4 else 0)"
      by (auto simp: x1_def x6_def flow_id_encode_def pfd_encode_def)
    moreover have "length x2 = (if psk_has_hash (ap_psk_mode p) then 16 else 0)"
      "length x3 = (if psk_has_nonce (ap_psk_mode p) then 4 else 0)" "length x4 = (if psk_has_iv (ap_psk_mode p) then 4 else 0)"
      "length x5 = (if ap_lpc_mode p = adv_lpc_field_present then 4 else 0)"
      using f by (simp_all add: x2_def x3_def x4_def x5_def length_append_or_zero)
    ultimately show ?thesis
      by (simp only: b_def length_append lh adv_header_size_def psk_hdr_size_def adv_sizes x7_def)
  qed
  ultimately show ?thesis using built by blast
qed


lemma adv_take_returns: "returns (adv_take b w n i)"
  by (auto simp: adv_take_def returns_reads intro!: returns_bind)

lemma adv_take_ok:
  "adv_take b w n i = res_ok (f, j) \<Longrightarrow> i \<le> length b \<Longrightarrow>
   i \<le> j \<and> j \<le> length b \<and> (\<forall>x. f = Some x \<longrightarrow> length x = n)"
  by (auto simp: adv_take_def res_bind_eq_ok vec_slice_def split: if_splits)

lemma adv_hdr_ext_returns: "returns (adv_hdr_ext b w i)"
  by (auto simp: adv_hdr_ext_def adv_rtp_ext_hdr_size_def returns_reads adv_take_returns intro!: returns_bind)

lemma adv_hdr_ext_ok: "adv_hdr_ext b w i = res_ok (f, j) \<Longrightarrow> i \<le> length b \<Longrightarrow> i \<le> j \<and> j \<le> length b"
  by (auto simp: adv_hdr_ext_def res_bind_eq_ok dest: adv_take_ok split: if_splits)

lemma adv_rtp_end_returns: "returns (adv_rtp_end b f)"
  by (auto simp: adv_rtp_end_def adv_rtp_ext_hdr_size_def returns_reads Let_def intro!: returns_bind)

lemma adv_read_returns: "(\<And>x. f = Some x \<Longrightarrow> parse x \<noteq> None) \<Longrightarrow> returns (adv_read parse f)"
  by (auto simp: adv_read_def returns_def split: option.splits intro!: res_bind_total)

lemma flow_id_parse_total: "length b = 4 \<Longrightarrow> flow_id_parse b \<noteq> None"
  and pfd_parse_total: "length b = 4 \<Longrightarrow> pfd_parse b \<noteq> None"
  by (simp_all add: flow_id_parse_def pfd_parse_def get_be16_total get_be32_total)

lemma adv_parse_returns: "returns (adv_parse b)"
  unfolding adv_parse_def Let_def
  by (auto simp: returns_reads adv_sizes adv_take_returns adv_hdr_ext_returns adv_rtp_end_returns adv_flow_id_size_def
      intro!: returns_bind adv_read_returns flow_id_parse_total pfd_parse_total dest!: adv_take_ok adv_hdr_ext_ok)

lemma below_of_bits:
  assumes "\<And>k. bit (v :: 'a::len word) k \<Longrightarrow> k < n"
  shows "unat v < 2 ^ n"
proof -
  have "take_bit n v = v" using assms by (auto simp: bit_eq_iff bit_simps)
  then show ?thesis by (metis unsigned_take_bit_eq take_bit_nat_less_exp)
qed

lemma le_of_bits: "(\<And>k. bit (v :: u8) k \<Longrightarrow> k < n) \<Longrightarrow> 2 ^ n \<le> unat w + 1 \<Longrightarrow> v \<le> w"
  using below_of_bits [of v n] by (simp add: word_le_nat_alt)

lemma read_modes_fit:
  "push_bit 2 (x AND adv_flag_psk2) OR drop_bit adv_psk10_shift (y AND adv_psk10_mask) \<le> (7 :: u8)"
  "drop_bit adv_lpc_shift (y AND adv_lpc_mask) \<le> (3 :: u8)"
  "(y AND adv_type_mask) \<le> (15 :: u8)"
proof -
  have four: "bit (4 :: int) k \<longleftrightarrow> k = 2" for k using bit_exp_iff [of 2 k, where 'a = int] by auto
  show "push_bit 2 (x AND adv_flag_psk2) OR drop_bit adv_psk10_shift (y AND adv_psk10_mask) \<le> (7 :: u8)"
    unfolding adv_consts mask_numerals(4) by (rule le_of_bits [of _ 3]) (auto simp: bit_simps four)
  show "drop_bit adv_lpc_shift (y AND adv_lpc_mask) \<le> (3 :: u8)"
    unfolding adv_consts mask_numerals(5) by (rule le_of_bits [of _ 2]) (auto simp: bit_simps)
  have "k < 4" if "bit (y AND 0x0F) k" for k using that unfolding mask_numerals(2) by (simp add: bit_simps)
  then show "(y AND adv_type_mask) \<le> (15 :: u8)"
    using le_of_bits [of "y AND 0x0F" 4 15] by (simp add: adv_type_mask_def)
qed

lemma flow_id_parse_fits: "flow_id_parse b = Some f \<Longrightarrow> adv_flow_fits (Some f)"
proof -
  assume "flow_id_parse b = Some f"
  then obtain hi lo :: u8 where f: "fi_inner f = push_bit 4 (ucast hi) OR ucast (drop_bit 4 lo)" "fi_sub f = lo AND mask 4"
    by (auto simp: flow_id_parse_def mask_numerals(2) bind_eq_Some_conv)
  have "k < 12" if "bit (fi_inner f) k" for k
    using that bit_imp_le_length [of hi "k - 4"] bit_imp_le_length [of lo "4 + k"] by (auto simp: f bit_simps)
  moreover have "k < 4" if "bit (fi_sub f) k" for k using that by (auto simp: f bit_simps)
  ultimately show ?thesis
    using below_of_bits [of "fi_inner f" 12] below_of_bits [of "fi_sub f" 4] by (simp add: adv_flow_fits_def)
qed

lemma pfd_parse_fits: "pfd_parse b = Some f \<Longrightarrow> adv_pfd_fits (Some f)"
proof -
  assume "pfd_parse b = Some f"
  then obtain v :: u32 where f: "pfd_id_type f = ucast (drop_bit 28 v)" "pfd_id_value f = v AND mask 28"
    by (auto simp: pfd_parse_def mask_numerals(3) bind_eq_Some_conv)
  have "k < 4" if "bit (pfd_id_type f) k" for k
    using that bit_imp_le_length [of v "28 + k"] by (auto simp: f bit_simps)
  moreover have "k < 28" if "bit (pfd_id_value f) k" for k using that by (auto simp: f bit_simps)
  ultimately show ?thesis
    using below_of_bits [of "pfd_id_type f" 4] below_of_bits [of "pfd_id_value f" 28] by (simp add: adv_pfd_fits_def)
qed

lemma adv_read_fits:
  "adv_read parse f = res_ok g \<Longrightarrow> (\<And>x y. parse x = Some y \<Longrightarrow> P y) \<Longrightarrow> pred_option P g"
  by (auto simp: adv_read_def res_bind_eq_ok split: option.splits)

lemma adv_take_fits: "adv_take b w n i = res_ok (f, j) \<Longrightarrow> adv_array_fits n f \<and> (f \<noteq> None) = w"
  by (auto simp: adv_take_def res_bind_eq_ok vec_slice_def adv_array_fits_def split: if_splits)

lemma adv_hdr_ext_fits:
  assumes "adv_hdr_ext b w i = res_ok (f, j)"
  shows "(case f of None \<Rightarrow> \<not> w | Some e \<Rightarrow> w \<and> e \<noteq> [] \<and> adv_hdr_ext_fits e)"
proof (cases w)
  case True
  then obtain words where w: "get_be16 b (i + 2) = Some words" "adv_take b True (4 + unat words * 4) i = res_ok (f, j)"
    using assms by (auto simp: adv_hdr_ext_def adv_rtp_ext_hdr_size_def res_bind_eq_ok split: if_splits)
  then obtain e where e: "f = Some e" "vec_slice b i (i + (4 + unat words * 4)) = Some e"
    by (auto simp: adv_take_def res_bind_eq_ok split: if_splits)
  then have "e = take (4 + unat words * 4) (drop i b)" "i + (4 + unat words * 4) \<le> length b"
    by (auto simp: vec_slice_def split: if_splits)
  then have "length e = 4 + unat words * 4" "get_be16 e 2 = get_be16 b (i + 2)"
    by (simp_all add: get_be16_total eval_nat_numeral)
  then show ?thesis using True e w by (auto simp: adv_hdr_ext_fits_def adv_rtp_ext_hdr_size_def)
qed (use assms in \<open>auto simp: adv_hdr_ext_def\<close>)

definition adv_params_of :: "adv_parsed \<Rightarrow> adv_params" where
  "adv_params_of q =
     \<lparr>ap_seq = pp_seq q, ap_timestamp = pp_timestamp q, ap_ssrc = pp_ssrc q, ap_enc_type = pp_enc_type q,
      ap_psk_mode = pp_psk_mode q, ap_lpc_mode = pp_lpc_mode q, ap_first_frag = pp_first_frag q,
      ap_last_frag = pp_last_frag q, ap_expedite = pp_expedite q, ap_retransmit = pp_retransmit q,
      ap_flow_id = pp_flow_id q, ap_psk_hash = pp_psk_hash q, ap_psk_nonce = pp_psk_nonce q, ap_psk_iv = pp_psk_iv q,
      ap_compression = pp_compression q, ap_pfd = pp_pfd q,
      ap_hdr_ext = (case pp_hdr_ext q of Some e \<Rightarrow> e | None \<Rightarrow> [])\<rparr>"

definition adv_plain :: "adv_parsed \<Rightarrow> adv_parsed" where
  "adv_plain q = q\<lparr>pp_rtp_ext_present := False, pp_rtp_padding := False\<rparr>"

lemma adv_rtp_end_ok: "adv_rtp_end b f = res_ok i \<Longrightarrow> i \<le> length b"
  by (auto simp: adv_rtp_end_def Let_def res_bind_eq_ok split: if_splits)

lemma adv_parse_fits:
  assumes "adv_parse b = res_ok q"
  shows "adv_fits (adv_params_of q) \<and> adv_parsed_of (adv_params_of q) (pp_payload q) = adv_plain q
    \<and> (\<exists>i. pp_payload q = drop i b)"
proof -
  obtain flags pb i0 i1 i2 i3 i4 i5 i6 i7 flow pfd where
    m: "pp_psk_mode q = push_bit 2 (flags AND adv_flag_psk2) OR drop_bit adv_psk10_shift (pb AND adv_psk10_mask)"
      "pp_lpc_mode q = drop_bit adv_lpc_shift (pb AND adv_lpc_mask)" "pp_enc_type q = pb AND adv_type_mask"
    and r: "adv_read flow_id_parse flow = (res_ok (pp_flow_id q) :: (adv_error, _) result)"
      "adv_read pfd_parse pfd = (res_ok (pp_pfd q) :: (adv_error, _) result)"
    and t: "adv_take b (psk_has_hash (pp_psk_mode q)) adv_psk_hash_size i1 = res_ok (pp_psk_hash q, i2)"
      "adv_take b (psk_has_nonce (pp_psk_mode q)) adv_psk_nonce_size i2 = res_ok (pp_psk_nonce q, i3)"
      "adv_take b (psk_has_iv (pp_psk_mode q)) adv_psk_iv_size i3 = res_ok (pp_psk_iv q, i4)"
      "adv_take b (pp_lpc_mode q = adv_lpc_field_present) adv_compression_size i4 = res_ok (pp_compression q, i5)"
      "adv_hdr_ext b (flags AND adv_flag_h \<noteq> 0) i6 = res_ok (pp_hdr_ext q, i7)"
    and p: "vec_slice b i7 (length b) = Some (pp_payload q)"
    using assms unfolding adv_parse_def Let_def res_bind_eq_ok
    by (auto simp: res_bind_eq_ok simp del: push_bit_and drop_bit_and split: if_splits)
  have i: "pp_payload q = drop i7 b" using p by (auto simp: vec_slice_def split: if_splits)
  note fits = adv_take_fits [OF t(1)] adv_take_fits [OF t(2)] adv_take_fits [OF t(3)] adv_take_fits [OF t(4)]
    adv_hdr_ext_fits [OF t(5)]
  have "adv_flow_fits (pp_flow_id q)" "adv_pfd_fits (pp_pfd q)"
    using adv_read_fits [OF r(1), where P = "\<lambda>f. adv_flow_fits (Some f)"]
      adv_read_fits [OF r(2), where P = "\<lambda>f. adv_pfd_fits (Some f)"] flow_id_parse_fits pfd_parse_fits
    by (cases "pp_flow_id q"; cases "pp_pfd q"; force simp: adv_flow_fits_def adv_pfd_fits_def)+
  moreover have "pp_enc_type q \<le> 15" "pp_psk_mode q \<le> 7" "pp_lpc_mode q \<le> 3"
    unfolding m by (rule read_modes_fit)+
  moreover have "adv_hdr_ext_fits (ap_hdr_ext (adv_params_of q))"
    using fits(5) by (cases "pp_hdr_ext q") (simp_all add: adv_params_of_def adv_hdr_ext_fits_def [of "[]"])
  moreover note fits(1-4)[unfolded adv_sizes]
  ultimately have "adv_fits (adv_params_of q)"
    unfolding adv_fits_def by (simp only: adv_params_of_def adv_params.simps simp_thms)
  moreover have "adv_parsed_of (adv_params_of q) (pp_payload q) = adv_plain q"
  proof -
    have pad: "(if w then Some (append_or_zero f n) else None) = f" if "adv_array_fits n f \<and> (f \<noteq> None) = w" for f w n
      using that by (cases f) (auto simp: append_or_zero_def)
    have hdr: "(if (case pp_hdr_ext q of Some e \<Rightarrow> e | None \<Rightarrow> []) = [] then None
        else Some (case pp_hdr_ext q of Some e \<Rightarrow> e | None \<Rightarrow> [])) = pp_hdr_ext q"
      using fits(5) by (cases "pp_hdr_ext q") auto
    show ?thesis
      unfolding adv_parsed_of_def adv_params_of_def adv_params.simps hdr
      using pad [OF fits(1)] pad [OF fits(2)] pad [OF fits(3)] pad [OF fits(4)]
      by (simp only: adv_sizes adv_lpc_field_present_def) (simp add: adv_plain_def)
  qed
  ultimately show ?thesis using i by blast
qed

section \<open>Control messages\<close>

lemma parse_control_build:
  assumes "length body < 65536"
  shows "parse_control (build_control ci body @ rest) = res_ok (ci, body)"
proof -
  let ?b = "be16 ci @ be16 (of_nat (length body)) @ body @ rest"
  have "unat (of_nat (length body) :: u16) = length body" using assms by (simp add: unat_of_nat)
  moreover have "get_be16 ?b 0 = Some ci" "get_be16 ?b 2 = Some (of_nat (length body))"
    using get_be16_at [of 0 "[]" ci] get_be16_at [of 2 "be16 ci" "of_nat (length body)" "body @ rest"] by simp_all
  moreover have "vec_slice ?b 4 (4 + length body) = Some body"
    using vec_slice_at [of 4 "be16 ci @ be16 (of_nat (length body))" "4 + length body" body rest] by simp
  ultimately show ?thesis by (simp add: parse_control_def build_control_def adv_ctrl_hdr_size_def)
qed

lemma parse_control_returns: "returns (parse_control b)"
  by (auto simp: parse_control_def adv_ctrl_hdr_size_def returns_reads intro!: returns_bind)

lemma get_words:
  "get_be32 (be32 a @ r) 0 = Some a" "get_be32 (be32 a @ be32 b @ r) 4 = Some b"
  "get_be32 (be32 a @ be32 b @ be32 c @ r) 8 = Some c" "get_be32 (be32 a @ be32 b @ be32 c @ be32 d @ r) 12 = Some d"
  using get_be32_at [of 0 "[]" a r] get_be32_at [of 4 "be32 a" b r] get_be32_at [of 8 "be32 a @ be32 b" c r]
    get_be32_at [of 12 "be32 a @ be32 b @ be32 c" d r] by simp_all

lemma adv_bodies_parse:
  "adv_bitmask_parse (adv_bitmask_body n @ r) = res_ok n"
  "adv_range_parse (adv_range_body g @ r) = res_ok g"
  "adv_echo_parse (adv_echo_body e @ r) = res_ok e"
  by (simp_all add: adv_bitmask_parse_def adv_bitmask_body_def adv_range_parse_def adv_range_body_def adv_echo_parse_def
      adv_echo_body_def adv_sizes get_words)

lemma adv_keepalive_parse_body:
  "length (ak_mac k) = 6 \<Longrightarrow> adv_keepalive_parse (adv_keepalive_body k @ r) = res_ok k"
  using get_be32_at [of 6 "ak_mac k" "ak_caps k" r] vec_slice_at [of 0 "[]" 6 "ak_mac k" "be32 (ak_caps k) @ r"]
  by (simp add: adv_keepalive_parse_def adv_keepalive_body_def adv_sizes)

lemma adv_nonce_parse_body: "length (an_nonce k) = 4 \<Longrightarrow> adv_nonce_parse (adv_nonce_body k @ r) = res_ok k"
  using get_be16_at [of 4 "an_nonce k" "an_key_bits k" "[0, 0] @ r"]
    vec_slice_at [of 0 "[]" 4 "an_nonce k" "be16 (an_key_bits k) @ [0, 0] @ r"]
  by (simp add: adv_nonce_parse_def adv_nonce_body_def adv_sizes)

lemma adv_body_parse_returns:
  "returns (adv_bitmask_parse b)" "returns (adv_range_parse b)" "returns (adv_echo_parse b)"
  "returns (adv_keepalive_parse b)" "returns (adv_nonce_parse b)"
  by (auto simp: adv_bitmask_parse_def adv_range_parse_def adv_echo_parse_def adv_keepalive_parse_def adv_nonce_parse_def
      adv_sizes returns_reads intro!: returns_bind)

lemma adv_echo_timestamp_split: "adv_echo_timestamp (adv_echo_from_timestamp s ts d) = ts"
  unfolding adv_echo_timestamp_def adv_echo_from_timestamp_def
  by (rule bit_word_eqI) (auto simp: bit_simps)

section \<open>NACK packing\<close>

text \<open>The numbers from \<open>p\<close> to \<open>q\<close>, round the circle.\<close>

definition span :: "u32 \<Rightarrow> u32 \<Rightarrow> u32 set" where
  "span p q = {x. x - p \<le> q - p}"

lemma span_refl [simp]: "span p p = {p}"
  by (auto simp: span_def)

lemma span_step:
  assumes "q + 1 - p \<noteq> 0"
  shows "span p (q + 1) = insert (q + 1) (span p q)"
proof -
  have "x \<le> w + 1 \<longleftrightarrow> x = w + 1 \<or> x \<le> w" if "w + 1 \<noteq> 0" for x w :: u32
    using that unat_eq_0 [of "w + 1"] unsigned_less [of w, where 'a = nat] by (auto simp: word_le_nat_alt unat_plus_if' word_unat_eq_iff split: if_splits)
  from this [of "q - p"] assms have "x - p \<le> q + 1 - p \<longleftrightarrow> x - p = q + 1 - p \<or> x - p \<le> q - p" for x
    by (simp add: algebra_simps)
  then show ?thesis by (auto simp: span_def)
qed

lemma range_run_covers:
  assumes "range_run pss cur xs = (stop, rest)" "cur - pss < adv_max_nack_decode_range"
  shows "stop - pss < adv_max_nack_decode_range \<and> span pss stop \<union> set rest = span pss cur \<union> set xs"
  using assms
proof (induction pss cur xs rule: range_run.induct)
  case (2 pss cur nxt xs)
  have in_span: "cur \<in> span pss cur" by (simp add: span_def)
  consider "nxt = cur" | "nxt = cur + 1" "nxt \<noteq> cur" "nxt - pss < adv_max_nack_decode_range" | "(stop, rest) = (cur, nxt # xs)"
    using 2(3) by (auto simp: not_le split: if_splits)
  then show ?case
  proof cases
    case 1
    then have "range_run pss nxt xs = (stop, rest)" using 2(3) by simp
    from 2(1) [OF 1 this] 2(4) 1 in_span show ?thesis by auto
  next
    case step: 2
    then have low: "\<not> adv_max_nack_decode_range \<le> nxt - pss" by (simp add: not_le)
    then have run: "range_run pss nxt xs = (stop, rest)" using 2(3) step by simp
    have "cur + 1 - pss \<noteq> 0"
    proof
      assume "cur + 1 - pss = 0"
      then have "cur - pss = - 1" by (simp add: algebra_simps)
      then show False using 2(4) by (simp add: adv_max_nack_decode_range_def)
    qed
    then have "span pss nxt = insert nxt (span pss cur)" using span_step step by simp
    with 2(2) [OF step(2) _ low run] step show ?thesis by simp
  next
    case 3
    with 2(4) show ?thesis by simp
  qed
qed auto

lemma span_image: "span p (p + k) = (\<lambda>i. p + of_nat i) ` {0..<unat k + 1}"
proof
  show "span p (p + k) \<subseteq> (\<lambda>i. p + of_nat i) ` {0..<unat k + 1}"
  proof
    fix x assume "x \<in> span p (p + k)"
    then have "unat (x - p) < unat k + 1" by (simp add: span_def word_le_nat_alt)
    moreover have "x = p + of_nat (unat (x - p))" by simp
    ultimately show "x \<in> (\<lambda>i. p + of_nat i) ` {0..<unat k + 1}" by (metis atLeastLessThan_iff image_eqI zero_le)
  qed
  have "unat (of_nat i :: u32) = i" if "i < unat k + 1" for i
    using that by (intro le_unat_uoi [of i k]) simp
  then show "(\<lambda>i. p + of_nat i) ` {0..<unat k + 1} \<subseteq> span p (p + k)"
    by (auto simp: span_def word_le_nat_alt)
qed

lemma range_missing_span:
  assumes "ag_nalp g < adv_max_nack_decode_range"
  shows "set (adv_range_missing g) = span (ag_pss g) (ag_pss g + ag_nalp g)"
proof -
  have "min (ag_nalp g) adv_max_nack_decode_range = ag_nalp g" using assms by (auto simp: min_def)
  then show ?thesis unfolding span_image adv_range_missing_def Let_def set_map set_upt by simp
qed

lemma range_entries_ask:
  "(\<Union>g\<in>set (range_entries media xs). set (adv_range_missing g)) = set xs
   \<and> list_all (\<lambda>g. ag_media_ssrc g = media \<and> ag_nalp g < adv_max_nack_decode_range) (range_entries media xs)"
proof (induction media xs rule: range_entries.induct)
  case (2 media pss xs)
  obtain stop rest where r: "range_run pss pss xs = (stop, rest)" by fastforce
  have "stop - pss < adv_max_nack_decode_range \<and> span pss stop \<union> set rest = insert pss (set xs)"
    using range_run_covers [OF r] by (simp add: adv_max_nack_decode_range_def)
  then show ?case using 2 r by (auto simp: range_missing_span)
qed simp

lemma bitmask_missing_set:
  "set (adv_bitmask_missing n) = {ab_pss n} \<union> {ab_pss n + (1 + of_nat i) | i. i < 32 \<and> bit (ab_blp n) i}"
proof -
  have tests: "(\<lambda>out i. if ab_blp n AND push_bit i 1 \<noteq> 0 then out @ [ab_pss n + (1 + of_nat i)] else out)
      = (\<lambda>out i. if bit (ab_blp n) i then out @ [ab_pss n + (1 + of_nat i)] else out)"
    by (simp add: and_exp_eq_0_iff_not_bit fun_eq_iff)
  have "set (foldl (\<lambda>out i. if bit (ab_blp n) i then out @ [ab_pss n + (1 + of_nat i)] else out) acc is)
      = set acc \<union> {ab_pss n + (1 + of_nat i) | i. i \<in> set is \<and> bit (ab_blp n) i}" for acc "is"
    by (induction "is" arbitrary: acc) auto
  then show ?thesis unfolding adv_bitmask_missing_def tests by auto
qed

lemma bitmask_window_covers:
  assumes "bitmask_window pss blp xs = (blp', rest)"
  shows "{pss + (1 + of_nat i) | i. i < 32 \<and> bit blp' i} \<union> {pss} \<union> set rest
    = {pss + (1 + of_nat i) | i. i < 32 \<and> bit blp i} \<union> {pss} \<union> set xs"
  using assms
proof (induction pss blp xs rule: bitmask_window.induct)
  case (2 pss blp x xs)
  consider "x = pss" | "x \<noteq> pss" "\<not> 32 < x - pss" | "(blp', rest) = (blp, x # xs)"
    using 2(3) by (auto simp: Let_def split: if_splits)
  then show ?case
  proof cases
    case 2
    define k where "k = unat (x - pss - 1)"
    have "0 < unat (x - pss)" "unat (x - pss) \<le> 32" using 2 by (auto simp: word_less_nat_alt unat_gt_0)
    then have k: "k < 32" "x = pss + (1 + of_nat k)"
      by (auto simp: k_def unat_sub_if' unat_gt_0) 
    have "bitmask_window pss (blp OR push_bit k 1) xs = (blp', rest)"
      using 2 \<open>bitmask_window pss blp (x # xs) = (blp', rest)\<close> by (simp add: Let_def k_def)
    moreover have "{pss + (1 + of_nat i) | i. i < 32 \<and> bit (blp OR push_bit k 1) i}
        = insert x {pss + (1 + of_nat i) | i. i < 32 \<and> bit blp i}"
      using k by (auto simp: bit_simps)
    ultimately show ?thesis using "2.IH"(2) 2 by (simp add: k_def) blast
  qed (use 2 in \<open>auto simp: Let_def\<close>)
qed simp

lemma bitmask_entries_ask:
  "(\<Union>n\<in>set (bitmask_entries media xs). set (adv_bitmask_missing n)) = set xs
   \<and> list_all (\<lambda>n. ab_media_ssrc n = media) (bitmask_entries media xs)"
proof (induction media xs rule: bitmask_entries.induct)
  case (2 media pss xs)
  obtain blp rest where r: "bitmask_window pss 0 xs = (blp, rest)" by fastforce
  have "{pss + (1 + of_nat i) | i. i < 32 \<and> bit blp i} \<union> {pss} \<union> set rest = insert pss (set xs)"
    using bitmask_window_covers [OF r] by simp
  then show ?case using 2 r by (auto simp: bitmask_missing_set)
qed simp

lemma set_sort_seqs_wrap [simp]: "set (sort_seqs_wrap s) = set s"
  by (cases s) (simp_all add: sort_seqs_wrap_def del: sort_key_simps)

lemma adv_nacks_ask:
  "(\<Union>n\<in>set (adv_encode_bitmask_nack media missing). set (adv_bitmask_missing n)) = set missing"
  "(\<Union>g\<in>set (adv_encode_range_nack media missing). set (adv_range_missing g)) = set missing"
  using bitmask_entries_ask range_entries_ask
  by (simp_all add: adv_encode_bitmask_nack_def adv_encode_range_nack_def)

lemma range_missing_length: "length (adv_range_missing g) = unat (min (ag_nalp g) adv_max_nack_decode_range) + 1"
  by (simp add: adv_range_missing_def Let_def)

section \<open>Properties\<close>

text \<open>An Advanced packet survives the wire. Every packet whose fields fit their wire widths is built without an
  error, in the announced number of header bytes, and parsed back: sequence number, timestamp, flags, modes, flow id,
  descriptor, extension and payload as given, and the opaque fields of its modes as given or zero.\<close>

theorem adv_packet_roundtrip:
  assumes "adv_fits p"
  shows "\<exists>b. adv_build p payload = Inr b \<and> length b = adv_header_size p + length payload
    \<and> adv_parse b = res_ok (adv_parsed_of p payload)"
  using assms by (rule adv_parse_build)

definition sample_adv :: adv_params where
  "sample_adv = \<lparr>ap_seq = 0x00012345, ap_timestamp = 7, ap_ssrc = 2, ap_enc_type = adv_type_control, ap_psk_mode = 5,
     ap_lpc_mode = 3, ap_first_frag = True, ap_last_frag = True, ap_expedite = False, ap_retransmit = True,
     ap_flow_id = Some \<lparr>fi_outer = 9, fi_inner = 0xABC, fi_sub = 5\<rparr>, ap_psk_hash = None, ap_psk_nonce = Some [1, 2, 3, 4],
     ap_psk_iv = None, ap_compression = Some [5, 6, 7, 8], ap_pfd = Some \<lparr>pfd_id_type = 1, pfd_id_value = 77\<rparr>,
     ap_hdr_ext = [0, 1, 0, 1, 9, 9, 9, 9]\<rparr>"

lemma sample_adv_fits: "adv_fits sample_adv"
  by (simp add: adv_fits_def sample_adv_def adv_type_control_def adv_flow_fits_def adv_pfd_fits_def adv_hdr_ext_fits_def
      adv_array_fits_def get_be16_def of_be16_def adv_rtp_ext_hdr_size_def)

theorem adv_packet_roundtrip_witness:
  "\<exists>b. adv_build sample_adv [1, 2] = Inr b \<and> length b = adv_header_size sample_adv + length [1, 2 :: u8]
    \<and> adv_parse b = res_ok (adv_parsed_of sample_adv [1, 2])"
  by (rule adv_packet_roundtrip [OF sample_adv_fits])

text \<open>Parsing any bytes returns. What is accepted carries a suffix of the input as its payload, and can be built
  again into a packet that parses to the same fields, CSRCs, RTP extension and padding left out.\<close>

theorem adv_parse_any_bytes:
  "case adv_parse b of
     None \<Rightarrow> False
   | Some (Inl e) \<Rightarrow> True
   | Some (Inr q) \<Rightarrow>
       (\<exists>i. pp_payload q = drop i b)
       \<and> (\<exists>b'. adv_build (adv_params_of q) (pp_payload q) = Inr b' \<and> adv_parse b' = res_ok (adv_plain q))"
proof -
  have "adv_parse b \<noteq> None" using adv_parse_returns [of b] by (simp add: returns_def)
  moreover have "(\<exists>i. pp_payload q = drop i b)
      \<and> (\<exists>b'. adv_build (adv_params_of q) (pp_payload q) = Inr b' \<and> adv_parse b' = res_ok (adv_plain q))"
    if "adv_parse b = Some (Inr q)" for q
    using adv_parse_fits [of b q] adv_parse_build [of "adv_params_of q" "pp_payload q"] that
    by (auto simp: res_ok_def)
  ultimately show ?thesis by (auto split: option.splits sum.splits)
qed

text \<open>A list of missing numbers reaches the sender exactly. The bitmask NACKs and the range NACKs packed from any
  list, each built into a packet of its own, parsed, stripped of its control header and expanded, ask together for
  exactly the numbers of the list; no range is cut by the decoder's cap.\<close>

theorem adv_nacks_exact:
  assumes "adv_fits p"
  shows "(\<Union>n\<in>set (adv_encode_bitmask_nack media missing). set (adv_bitmask_missing n)) = set missing
    \<and> (\<Union>g\<in>set (adv_encode_range_nack media missing). set (adv_range_missing g)) = set missing
    \<and> list_all (\<lambda>n. \<exists>b. adv_build p (build_nack_bitmask n) = Inr b
        \<and> res_bind (adv_parse b) (\<lambda>q. res_bind (parse_control (pp_payload q)) (\<lambda>(ci, body).
            res_bind (adv_bitmask_parse body) (\<lambda>n. res_ok (ci, n)))) = res_ok (adv_ci_nack_bitmask, n))
        (adv_encode_bitmask_nack media missing)
    \<and> list_all (\<lambda>g. ag_nalp g < adv_max_nack_decode_range \<and> (\<exists>b. adv_build p (build_nack_range g) = Inr b
        \<and> res_bind (adv_parse b) (\<lambda>q. res_bind (parse_control (pp_payload q)) (\<lambda>(ci, body).
            res_bind (adv_range_parse body) (\<lambda>g. res_ok (ci, g)))) = res_ok (adv_ci_nack_range, g)))
        (adv_encode_range_nack media missing)"
proof -
  have ctrl: "\<exists>b. adv_build p (build_control ci body) = Inr b
      \<and> res_bind (adv_parse b) (\<lambda>q. res_bind (parse_control (pp_payload q)) f) = f (ci, body)"
    if "length body < 65536" for ci body and f :: "u16 \<times> bytes \<Rightarrow> (adv_error, 'b) result"
    using adv_parse_build [OF assms, of "build_control ci body"] parse_control_build [OF that, of ci "[]"]
    by (auto simp: adv_parsed_of_def)
  have "\<exists>b. adv_build p (build_nack_bitmask n) = Inr b
      \<and> res_bind (adv_parse b) (\<lambda>q. res_bind (parse_control (pp_payload q)) (\<lambda>(ci, body).
          res_bind (adv_bitmask_parse body) (\<lambda>n. res_ok (ci, n)))) = res_ok (adv_ci_nack_bitmask, n)" for n
    using ctrl [of "adv_bitmask_body n" adv_ci_nack_bitmask "\<lambda>(ci, body). res_bind (adv_bitmask_parse body) (\<lambda>n. res_ok (ci, n))"]
      adv_bodies_parse(1) [of n "[]"] by (simp add: build_nack_bitmask_def adv_bitmask_body_def)
  moreover have "\<exists>b. adv_build p (build_nack_range g) = Inr b
      \<and> res_bind (adv_parse b) (\<lambda>q. res_bind (parse_control (pp_payload q)) (\<lambda>(ci, body).
          res_bind (adv_range_parse body) (\<lambda>g. res_ok (ci, g)))) = res_ok (adv_ci_nack_range, g)" for g
    using ctrl [of "adv_range_body g" adv_ci_nack_range "\<lambda>(ci, body). res_bind (adv_range_parse body) (\<lambda>g. res_ok (ci, g))"]
      adv_bodies_parse(2) [of g "[]"] by (simp add: build_nack_range_def adv_range_body_def)
  moreover have "list_all (\<lambda>g. ag_nalp g < adv_max_nack_decode_range) (adv_encode_range_nack media missing)"
    using range_entries_ask [of media "sort_seqs_wrap missing"] by (simp add: adv_encode_range_nack_def list_all_iff)
  ultimately show ?thesis using adv_nacks_ask by (simp add: list_all_iff)
qed

theorem adv_nacks_exact_witness:
  "(\<Union>n\<in>set (adv_encode_bitmask_nack 5 [0xFFFFFFFF, 3, 4, 0]). set (adv_bitmask_missing n)) = set [0xFFFFFFFF, 3, 4, 0]
    \<and> (\<Union>g\<in>set (adv_encode_range_nack 5 [0xFFFFFFFF, 3, 4, 0]). set (adv_range_missing g)) = set [0xFFFFFFFF, 3, 4, 0]
    \<and> list_all (\<lambda>n. \<exists>b. adv_build sample_adv (build_nack_bitmask n) = Inr b
        \<and> res_bind (adv_parse b) (\<lambda>q. res_bind (parse_control (pp_payload q)) (\<lambda>(ci, body).
            res_bind (adv_bitmask_parse body) (\<lambda>n. res_ok (ci, n)))) = res_ok (adv_ci_nack_bitmask, n))
        (adv_encode_bitmask_nack 5 [0xFFFFFFFF, 3, 4, 0])
    \<and> list_all (\<lambda>g. ag_nalp g < adv_max_nack_decode_range \<and> (\<exists>b. adv_build sample_adv (build_nack_range g) = Inr b
        \<and> res_bind (adv_parse b) (\<lambda>q. res_bind (parse_control (pp_payload q)) (\<lambda>(ci, body).
            res_bind (adv_range_parse body) (\<lambda>g. res_ok (ci, g)))) = res_ok (adv_ci_nack_range, g)))
        (adv_encode_range_nack 5 [0xFFFFFFFF, 3, 4, 0])"
  by (rule adv_nacks_exact [OF sample_adv_fits])

end
