(* ===== verification/Npd.thy ===== *)
theory Npd
  imports Fallible
begin

text \<open>
  Null-packet deletion (\<^verbatim>\<open>rist-codec/src/npd.rs\<close>): MPEG-TS null packets are removed from a payload
  before it is sent, and put back by the receiver from a bitmap carried in an RTP header extension. A shift by
  a negative amount is a panic.
\<close>

section \<open>Constants, errors and the header extension\<close>

datatype npd_error =
    Npd_Short_Ext
  | Npd_Bad_Identifier
  | Npd_Bad_Length
  | Npd_Payload_Size
  | Npd_Too_Many_Packets
  | Npd_Sync_Byte
  | Npd_Truncated

definition npd_identifier :: u16 where "npd_identifier = 0x5249"
definition npd_length :: u16 where "npd_length = 1"
definition npd_ext_size :: nat where "npd_ext_size = 8"
definition npd_flag_npd :: u8 where "npd_flag_npd = push_bit 7 1"
definition npd_size_204 :: u8 where "npd_size_204 = push_bit 7 1"
definition npd_null_bitmap_mask :: u8 where "npd_null_bitmap_mask = 0x7F"
definition npd_max_packets :: nat where "npd_max_packets = 7"
definition npd_size_ts_188 :: nat where "npd_size_ts_188 = 188"
definition npd_size_ts_204 :: nat where "npd_size_ts_204 = 204"
definition npd_sync_byte :: u8 where "npd_sync_byte = 0x47"
definition npd_null_pid :: u16 where "npd_null_pid = 0x1FFF"
definition npd_ts_header_size :: nat where "npd_ts_header_size = 4"
definition npd_flags2_bit4 :: u8 where "npd_flags2_bit4 = push_bit 4 1"

lemmas npd_consts = npd_identifier_def npd_length_def npd_ext_size_def npd_flag_npd_def npd_size_204_def
  npd_null_bitmap_mask_def npd_max_packets_def npd_size_ts_188_def npd_size_ts_204_def npd_sync_byte_def
  npd_null_pid_def npd_ts_header_size_def npd_flags2_bit4_def

record npd_ext =
  ne_npd :: bool
  ne_size204 :: bool
  ne_null_bitmap :: u8
  ne_seq_ext :: u16

definition npd_ext_encode :: "npd_ext \<Rightarrow> bytes" where
  "npd_ext_encode e =
     (let flags = (if ne_npd e then npd_flag_npd else 0);
          bits = ne_null_bitmap e AND npd_null_bitmap_mask;
          bits = (if ne_size204 e then bits OR npd_size_204 else bits)
      in be16 npd_identifier @ be16 npd_length @ [flags, bits] @ be16 (ne_seq_ext e))"

definition npd_ext_parse :: "bytes \<Rightarrow> (npd_error, npd_ext \<times> nat) result" where
  "npd_ext_parse b =
     (if length b < npd_ext_size then res_err Npd_Short_Ext
      else res_bind (res_lift (get_be16 b 0)) (\<lambda>ident.
        if ident \<noteq> npd_identifier then res_err Npd_Bad_Identifier
        else res_bind (res_lift (get_be16 b 2)) (\<lambda>len.
          if len \<noteq> npd_length then res_err Npd_Bad_Length
          else res_bind (res_lift (vec_get b 4)) (\<lambda>flags. res_bind (res_lift (vec_get b 5)) (\<lambda>bits.
            res_bind (res_lift (get_be16 b 6)) (\<lambda>seq_ext.
              res_ok (\<lparr>ne_npd = (flags AND npd_flag_npd \<noteq> 0), ne_size204 = (bits AND npd_size_204 \<noteq> 0),
                ne_null_bitmap = bits AND npd_null_bitmap_mask, ne_seq_ext = seq_ext\<rparr>, npd_ext_size)))))))"

definition npd_bits :: "bool \<Rightarrow> u8 \<Rightarrow> u8" where
  "npd_bits size204 bitmap =
     (let b = bitmap AND npd_null_bitmap_mask in if size204 then b OR npd_size_204 else b)"

definition npd_packet_size :: "u8 \<Rightarrow> nat" where
  "npd_packet_size bits = (if bits AND npd_size_204 \<noteq> 0 then npd_size_ts_204 else npd_size_ts_188)"

text \<open>\<^verbatim>\<open>1 << (6 - i)\<close>, a panic for a larger index.\<close>

definition npd_null_bit :: "nat \<Rightarrow> u8 option" where
  "npd_null_bit i = (if i \<le> 6 then Some (push_bit (6 - i) 1) else None)"

section \<open>Suppressing\<close>

text \<open>The first pass: the sync bytes checked, the bitmap and the count of null packets.\<close>

fun npd_scan :: "bytes \<Rightarrow> nat \<Rightarrow> nat list \<Rightarrow> u8 \<Rightarrow> nat \<Rightarrow> (npd_error, u8 \<times> nat) result" where
  "npd_scan input sz [] bits suppressed = res_ok (bits, suppressed)"
| "npd_scan input sz (i # is) bits suppressed =
     (let off = i * sz in
      res_bind (res_lift (vec_get input off)) (\<lambda>sync.
        if sync \<noteq> npd_sync_byte then res_err Npd_Sync_Byte
        else res_bind (res_lift (get_be16 input (off + 1))) (\<lambda>flags1.
          if flags1 = npd_null_pid
          then res_bind (res_lift (npd_null_bit i)) (\<lambda>b. npd_scan input sz is (bits OR b) (suppressed + 1))
          else npd_scan input sz is bits suppressed)))"

text \<open>The second pass: the packets kept.\<close>

fun npd_keep :: "bytes \<Rightarrow> nat \<Rightarrow> u8 \<Rightarrow> nat list \<Rightarrow> (npd_error, bytes) result" where
  "npd_keep input sz bits [] = res_ok []"
| "npd_keep input sz bits (i # is) =
     res_bind (res_lift (npd_null_bit i)) (\<lambda>b.
       if bits AND b = 0
       then res_bind (res_lift (vec_slice input (i * sz) (i * sz + sz))) (\<lambda>p.
         res_bind (npd_keep input sz bits is) (\<lambda>rest. res_ok (p @ rest)))
       else npd_keep input sz bits is)"

text \<open>\<^verbatim>\<open>suppress\<close>: the bits byte, the number of bytes suppressed and the bytes appended.\<close>

definition npd_suppress :: "bytes \<Rightarrow> (npd_error, u8 \<times> nat \<times> bytes) result" where
  "npd_suppress input =
     (if length input mod npd_size_ts_188 \<noteq> 0 \<and> length input mod npd_size_ts_204 \<noteq> 0
      then res_err Npd_Payload_Size
      else
        let (sz, bits) = (if length input mod npd_size_ts_188 \<noteq> 0 then (npd_size_ts_204, npd_size_204)
                            else (npd_size_ts_188, 0));
            count = length input div sz
        in if npd_max_packets < count then res_err Npd_Too_Many_Packets
           else res_bind (npd_scan input sz [0..<count] bits 0) (\<lambda>(bits, suppressed).
             if suppressed = 0 then res_ok (bits, 0, input)
             else res_bind (npd_keep input sz bits [0..<count]) (\<lambda>out. res_ok (bits, suppressed * sz, out))))"

section \<open>Expanding\<close>

definition npd_count_ones :: "u8 \<Rightarrow> nat" where
  "npd_count_ones b = length (filter (bit b) [0..<8])"

definition npd_null_packet :: "nat \<Rightarrow> bytes" where
  "npd_null_packet sz = [npd_sync_byte, 0x1F, 0xFF, npd_flags2_bit4] @ replicate (sz - npd_ts_header_size) 0xFF"

fun npd_fill :: "bytes \<Rightarrow> nat \<Rightarrow> u8 \<Rightarrow> nat list \<Rightarrow> nat \<Rightarrow> (npd_error, bytes) result" where
  "npd_fill input sz bitmap [] in_off = res_ok []"
| "npd_fill input sz bitmap (i # is) in_off =
     res_bind (res_lift (npd_null_bit i)) (\<lambda>b.
       if bitmap AND b = 0
       then if length input < in_off + sz then res_err Npd_Truncated
            else res_bind (res_lift (vec_slice input in_off (in_off + sz))) (\<lambda>p.
              res_bind (npd_fill input sz bitmap is (in_off + sz)) (\<lambda>rest. res_ok (p @ rest)))
       else res_bind (npd_fill input sz bitmap is in_off) (\<lambda>rest. res_ok (npd_null_packet sz @ rest)))"

definition npd_expand :: "bytes \<Rightarrow> u8 \<Rightarrow> (npd_error, bytes) result" where
  "npd_expand input bits =
     (let sz = npd_packet_size bits;
          ts_count = length input div sz;
          bitmap = bits AND npd_null_bitmap_mask;
          null_count = npd_count_ones bitmap
      in if null_count = 0 then res_ok input
         else if npd_max_packets < ts_count + null_count then res_err Npd_Too_Many_Packets
         else npd_fill input sz bitmap [0..<ts_count + null_count] 0)"

end
