(* ===== verification/Npd_Props.thy ===== *)
theory Npd_Props
  imports Npd
begin

text \<open>
  Null-packet deletion, exactly: which inputs are suppressed and which refused; expanding what was suppressed
  gives the input back with every null packet in its canonical form, so byte for byte when its null packets were
  canonical; the header extension survives the wire.
\<close>

section \<open>The header extension\<close>

lemma npd_flag_bit: "((x :: u8) AND push_bit 7 1 = 0) = (\<not> bit x 7)"
  by (metis and_exp_eq_0_iff_not_bit push_bit_of_1)

lemma npd_low_bits: "(0x7F :: u8) = mask 7"
  by (simp add: mask_eq_exp_minus_1)

lemma npd_ext_parse_encode:
  "npd_ext_parse (npd_ext_encode e @ rest) = res_ok (e\<lparr>ne_null_bitmap := ne_null_bitmap e AND npd_null_bitmap_mask\<rparr>, 8)"
proof -
  define flags where "flags = (if ne_npd e then npd_flag_npd else 0)"
  define bits where "bits = (if ne_size204 e then (ne_null_bitmap e AND npd_null_bitmap_mask) OR npd_size_204
    else ne_null_bitmap e AND npd_null_bitmap_mask)"
  let ?b = "be16 npd_identifier @ be16 npd_length @ [flags, bits] @ be16 (ne_seq_ext e) @ rest"
  have reads: "get_be16 ?b 0 = Some npd_identifier" "get_be16 ?b 2 = Some npd_length" "vec_get ?b 4 = Some flags"
    "vec_get ?b 5 = Some bits" "get_be16 ?b 6 = Some (ne_seq_ext e)"
    using get_be16_at [of 0 "[]" npd_identifier] get_be16_at [of 2 "be16 npd_identifier" npd_length]
      get_be16_at [of 6 "be16 npd_identifier @ be16 npd_length @ [flags, bits]" "ne_seq_ext e" rest]
    by (simp_all add: vec_get_def nth_append)
  have "(flags AND npd_flag_npd \<noteq> 0) = ne_npd e" by (simp add: flags_def npd_flag_npd_def)
  moreover have "(bits AND npd_size_204 \<noteq> 0) = ne_size204 e"
    by (simp only: npd_size_204_def npd_flag_bit) (auto simp: bits_def npd_size_204_def npd_null_bitmap_mask_def bit_simps)
  moreover have "bits AND npd_null_bitmap_mask = ne_null_bitmap e AND npd_null_bitmap_mask"
  proof -
    have "npd_size_204 AND npd_null_bitmap_mask = 0" by (simp add: npd_size_204_def npd_null_bitmap_mask_def)
    then show ?thesis by (simp add: bits_def bit.conj_disj_distrib2 and.assoc)
  qed
  ultimately show ?thesis
    using reads by (simp add: npd_ext_parse_def npd_ext_encode_def Let_def flags_def [symmetric] bits_def [symmetric] npd_ext_size_def)
qed

lemma npd_ext_parse_returns: "returns (npd_ext_parse b)"
  by (auto simp: npd_ext_parse_def npd_ext_size_def returns_reads intro!: returns_bind)

section \<open>Packets of a payload\<close>

definition ts_packet :: "bytes \<Rightarrow> nat \<Rightarrow> nat \<Rightarrow> bytes" where
  "ts_packet input sz i = take sz (drop (i * sz) input)"

definition ts_synced :: "bytes \<Rightarrow> bool" where
  "ts_synced p \<longleftrightarrow> vec_get p 0 = Some npd_sync_byte"

definition ts_null :: "bytes \<Rightarrow> bool" where
  "ts_null p \<longleftrightarrow> get_be16 p 1 = Some npd_null_pid"

lemma ts_packet_reads:
  assumes "i * sz + sz \<le> length input" "3 \<le> sz"
  shows "vec_get input (i * sz) = vec_get (ts_packet input sz i) 0"
    "get_be16 input (i * sz + 1) = get_be16 (ts_packet input sz i) 1"
    "vec_slice input (i * sz) (i * sz + sz) = Some (ts_packet input sz i)"
    "length (ts_packet input sz i) = sz" "vec_get (ts_packet input sz i) 0 \<noteq> None" "get_be16 (ts_packet input sz i) 1 \<noteq> None"
  using assms by (simp_all add: ts_packet_def vec_get_def get_be16_def vec_slice_def)

lemma null_bit_test: "i \<le> 6 \<Longrightarrow> npd_null_bit i = Some (push_bit (6 - i) 1) \<and> ((b AND push_bit (6 - i) 1 = 0) = (\<not> bit b (6 - i)))"
  by (metis and_exp_eq_0_iff_not_bit npd_null_bit_def push_bit_of_1)

definition npd_marks :: "bytes \<Rightarrow> nat \<Rightarrow> u8 \<Rightarrow> nat list \<Rightarrow> u8" where
  "npd_marks input sz bits is =
     foldl (\<lambda>b i. if ts_null (ts_packet input sz i) then b OR push_bit (6 - i) 1 else b) bits is"

lemma npd_scan_exact:
  assumes "list_all (\<lambda>i. i \<le> 6 \<and> i * sz + sz \<le> length input) is" "3 \<le> sz"
  shows "npd_scan input sz is bits n =
    (if list_all (\<lambda>i. ts_synced (ts_packet input sz i)) is
     then res_ok (npd_marks input sz bits is, n + length (filter (\<lambda>i. ts_null (ts_packet input sz i)) is))
     else res_err Npd_Sync_Byte)"
  using assms
proof (induction "is" arbitrary: bits n)
  case (Cons i "is")
  then have r: "i * sz + sz \<le> length input" "i \<le> 6" by simp_all
  note reads = ts_packet_reads [OF r(1) Cons.prems(2)]
  from reads(5,6) obtain s w where sw: "vec_get (ts_packet input sz i) 0 = Some s" "get_be16 (ts_packet input sz i) 1 = Some w"
    by auto
  have bit: "npd_null_bit i = Some (push_bit (6 - i) 1)" using r(2) by (simp add: npd_null_bit_def)
  show ?case
    using Cons reads(1,2) sw bit
    by (simp add: Let_def ts_synced_def ts_null_def npd_marks_def)
qed (simp add: npd_marks_def)

lemma bit_npd_marks:
  assumes "list_all (\<lambda>i. i \<le> 6) is"
  shows "bit (npd_marks input sz bits is) n \<longleftrightarrow>
    bit bits n \<or> (\<exists>i\<in>set is. ts_null (ts_packet input sz i) \<and> n = 6 - i)"
proof -
  have one: "bit (b OR push_bit (6 - i) 1 :: u8) n \<longleftrightarrow> bit b n \<or> n = 6 - i" for b i
    by (auto simp: bit_simps)
  show ?thesis
    unfolding npd_marks_def
    by (induction "is" arbitrary: bits) (auto simp: one simp del: push_bit_of_1)
qed

lemma npd_keep_exact:
  assumes "list_all (\<lambda>i. i \<le> 6 \<and> i * sz + sz \<le> length input) is" "3 \<le> sz"
  shows "npd_keep input sz bits is =
    res_ok (concat (map (ts_packet input sz) (filter (\<lambda>i. \<not> bit bits (6 - i)) is)))"
  using assms
proof (induction "is")
  case (Cons i "is")
  then show ?case using null_bit_test [of i bits] ts_packet_reads(3) [of i sz input] by simp
qed simp

lemma npd_fill_exact:
  assumes "list_all (\<lambda>i. i \<le> 6 \<and> (\<not> bit bitmap (6 - i) \<longrightarrow> length (f i) = sz)) is"
  shows "npd_fill (pre @ concat (map f (filter (\<lambda>i. \<not> bit bitmap (6 - i)) is))) sz bitmap is (length pre) =
    res_ok (concat (map (\<lambda>i. if bit bitmap (6 - i) then npd_null_packet sz else f i) is))"
  using assms
proof (induction "is" arbitrary: pre)
  case (Cons i "is")
  note t = null_bit_test [of i bitmap]
  show ?case
  proof (cases "bit bitmap (6 - i)")
    case True
    then show ?thesis using Cons t by simp
  next
    case False
    let ?rest = "concat (map f (filter (\<lambda>i. \<not> bit bitmap (6 - i)) is))"
    have "npd_fill (pre @ f i @ ?rest) sz bitmap is (length pre + sz)
        = res_ok (concat (map (\<lambda>i. if bit bitmap (6 - i) then npd_null_packet sz else f i) is))"
      using Cons.IH [of "pre @ f i"] Cons.prems False by simp
    moreover have "vec_slice (pre @ f i @ ?rest) (length pre) (length pre + sz) = Some (f i)"
      using Cons.prems False by (intro vec_slice_at) simp_all
    ultimately show ?thesis using False Cons.prems t by simp
  qed
qed simp


section \<open>Expanding what was suppressed\<close>

definition ts_size :: "bytes \<Rightarrow> nat" where
  "ts_size input = (if length input mod 188 = 0 then 188 else 204)"

definition ts_count :: "bytes \<Rightarrow> nat" where
  "ts_count input = length input div ts_size input"

definition ts_packets :: "bytes \<Rightarrow> bytes list" where
  "ts_packets input = map (ts_packet input (ts_size input)) [0..<ts_count input]"

text \<open>The payload the receiver delivers: null packets in canonical form.\<close>

definition ts_normal :: "bytes \<Rightarrow> bytes" where
  "ts_normal input = concat (map (\<lambda>p. if ts_null p then npd_null_packet (ts_size input) else p) (ts_packets input))"

lemma concat_ts_packets:
  assumes "length input = n * sz"
  shows "concat (map (ts_packet input sz) [0..<n]) = input"
proof -
  have "k \<le> n \<Longrightarrow> concat (map (ts_packet input sz) [0..<k]) = take (k * sz) input" for k
  proof (induction k)
    case (Suc k)
    have "take (k * sz + sz) input = take (k * sz) input @ take sz (drop (k * sz) input)" by (rule take_add)
    with Suc show ?case by (simp add: ts_packet_def add.commute)
  qed simp
  from this [of n] show ?thesis using assms by simp
qed

lemma count_ones_marks:
  assumes "n \<le> 7" "\<And>k. bit b k \<longleftrightarrow> (\<exists>i<n. P i \<and> k = 6 - i)"
  shows "npd_count_ones b = length (filter P [0..<n])"
proof -
  have "length (filter (bit b) [0..<8]) = card {k. k < 8 \<and> bit b k}"
    by (subst distinct_card [symmetric]) (auto intro: arg_cong [of _ _ card])
  also have "{k. k < 8 \<and> bit b k} = (\<lambda>i. 6 - i) ` {i. i < n \<and> P i}" using assms by auto
  also have "card \<dots> = card {i. i < n \<and> P i}" using assms(1) by (intro card_image) (auto simp: inj_on_def)
  also have "\<dots> = length (filter P [0..<n])"
    by (subst distinct_card [symmetric]) (auto intro: arg_cong [of _ _ card])
  finally show ?thesis by (simp add: npd_count_ones_def)
qed

lemma length_null_packet [simp]: "4 \<le> sz \<Longrightarrow> length (npd_null_packet sz) = sz"
  by (simp add: npd_null_packet_def npd_ts_header_size_def)

definition ts_base :: "bytes \<Rightarrow> u8" where
  "ts_base input = (if length input mod 188 = 0 then 0 else npd_size_204)"

definition ts_bits :: "bytes \<Rightarrow> u8" where
  "ts_bits input = npd_marks input (ts_size input) (ts_base input) [0..<ts_count input]"

lemma ts_small:
  assumes "ts_count input \<le> 7"
  shows "list_all (\<lambda>i. i \<le> 6 \<and> i * ts_size input + ts_size input \<le> length input) [0..<ts_count input]"
proof -
  have "i * ts_size input + ts_size input \<le> length input" if "i < ts_count input" for i
  proof -
    have "(i + 1) * ts_size input \<le> ts_count input * ts_size input" using that by (intro mult_right_mono) simp_all
    also have "\<dots> \<le> length input" by (simp add: ts_count_def)
    finally show ?thesis by (simp add: algebra_simps)
  qed
  then show ?thesis using assms by (auto simp: list_all_iff)
qed

lemma bit_ts_bits:
  assumes "ts_count input \<le> 7"
  shows "k < 7 \<Longrightarrow> bit (ts_bits input) k \<longleftrightarrow> (\<exists>i<ts_count input. ts_null (ts_packet input (ts_size input) i) \<and> k = 6 - i)"
    and "bit (ts_bits input) 7 \<longleftrightarrow> length input mod 188 \<noteq> 0"
proof -
  have small: "list_all (\<lambda>i. i \<le> 6) [0..<ts_count input]" using ts_small [OF assms] by (auto simp: list_all_iff)
  note b = bit_npd_marks [OF small, of input "ts_size input" "ts_base input", folded ts_bits_def]
  have base: "bit (ts_base input) k \<longleftrightarrow> k = 7 \<and> length input mod 188 \<noteq> 0" for k
    using bit_exp_iff [of 7 k, where 'a = u8] by (auto simp: ts_base_def npd_size_204_def)
  show "k < 7 \<Longrightarrow> bit (ts_bits input) k \<longleftrightarrow> (\<exists>i<ts_count input. ts_null (ts_packet input (ts_size input) i) \<and> k = 6 - i)"
    "bit (ts_bits input) 7 \<longleftrightarrow> length input mod 188 \<noteq> 0"
    unfolding b base by auto
qed

lemma npd_suppress_exact:
  "npd_suppress input =
    (if length input mod 188 \<noteq> 0 \<and> length input mod 204 \<noteq> 0 then res_err Npd_Payload_Size
     else if 7 < ts_count input then res_err Npd_Too_Many_Packets
     else if \<not> list_all ts_synced (ts_packets input) then res_err Npd_Sync_Byte
     else if filter ts_null (ts_packets input) = [] then res_ok (ts_bits input, 0, input)
     else res_ok (ts_bits input, length (filter ts_null (ts_packets input)) * ts_size input,
       concat (filter (\<lambda>p. \<not> ts_null p) (ts_packets input))))"
proof (cases "(length input mod 188 \<noteq> 0 \<and> length input mod 204 \<noteq> 0) \<or> 7 < ts_count input")
  case True
  then show ?thesis
    by (auto simp: npd_suppress_def npd_consts ts_count_def ts_size_def)
next
  case False
  define n sz where "n = ts_count input" and "sz = ts_size input"
  have n: "n \<le> 7" using False by (simp add: n_def)
  note small = ts_small [OF n [unfolded n_def], folded n_def sz_def]
  have sz: "3 \<le> sz" by (simp add: sz_def ts_size_def)
  have body: "npd_suppress input = res_bind (npd_scan input sz [0..<n] (ts_base input) 0) (\<lambda>(bits, suppressed).
      if suppressed = 0 then res_ok (bits, 0, input)
      else res_bind (npd_keep input sz bits [0..<n]) (\<lambda>out. res_ok (bits, suppressed * sz, out)))"
    unfolding n_def sz_def ts_count_def ts_size_def ts_base_def
    using False by (cases "length input mod 188 = 0") (auto simp: npd_suppress_def npd_consts ts_count_def ts_size_def Let_def)
  have scan: "npd_scan input sz [0..<n] (ts_base input) 0 =
      (if list_all ts_synced (ts_packets input)
       then res_ok (ts_bits input, length (filter ts_null (ts_packets input))) else res_err Npd_Sync_Byte)"
    unfolding npd_scan_exact [OF small sz]
    by (simp add: ts_bits_def ts_packets_def n_def sz_def list_all_iff filter_map comp_def)
  have keep: "npd_keep input sz (ts_bits input) [0..<n] = res_ok (concat (filter (\<lambda>p. \<not> ts_null p) (ts_packets input)))"
  proof -
    have "bit (ts_bits input) (6 - i) = ts_null (ts_packet input sz i)" if "i \<in> set [0..<n]" for i
    proof -
      have "6 - i = 6 - j \<longleftrightarrow> i = j" if "j < n" for j using that \<open>i \<in> set [0..<n]\<close> n by auto
      then show ?thesis using that n bit_ts_bits(1) [of input "6 - i"] by (auto simp: n_def sz_def)
    qed
    then have "filter (\<lambda>i. \<not> bit (ts_bits input) (6 - i)) [0..<n] = filter (\<lambda>i. \<not> ts_null (ts_packet input sz i)) [0..<n]"
      by (intro filter_cong) auto
    then show ?thesis
      unfolding npd_keep_exact [OF small sz] by (simp add: ts_packets_def n_def sz_def filter_map comp_def)
  qed
  show ?thesis unfolding body scan using False keep by (simp add: sz_def [symmetric])
qed

lemma npd_expand_suppressed:
  assumes ok: "npd_suppress input = res_ok (bits, n, out)"
  shows "npd_expand out bits = res_ok (ts_normal input) \<and> length out + n = length input"
proof -
  let ?k = "ts_count input" and ?sz = "ts_size input" and ?ps = "ts_packets input"
  have count: "?k \<le> 7" and len: "length input mod 188 = 0 \<or> length input mod 204 = 0" and bits: "bits = ts_bits input"
    and out': "out = (if filter ts_null ?ps = [] then input else concat (filter (\<lambda>p. \<not> ts_null p) ?ps))"
    and n: "n = length (filter ts_null ?ps) * ?sz"
    using ok by (auto simp: npd_suppress_exact not_less split: if_splits)
  have total: "length input = ?k * ?sz" using len by (auto simp: ts_count_def ts_size_def)
  have "concat ?ps = input" unfolding ts_packets_def by (rule concat_ts_packets [OF total])
  then have out: "out = concat (filter (\<lambda>p. \<not> ts_null p) ?ps)"
    using out' by (auto simp: filter_empty_conv filter_id_conv [THEN iffD2])
  have sz: "?sz = npd_packet_size bits"
    unfolding npd_packet_size_def npd_size_204_def npd_flag_bit bits ts_size_def bit_ts_bits(2) [OF count]
    by (simp add: npd_size_ts_188_def npd_size_ts_204_def)
  define N where "N = (\<lambda>i. ts_null (ts_packet input ?sz i))"
  define bitmap where "bitmap = bits AND npd_null_bitmap_mask"
  have bm: "bit bitmap k \<longleftrightarrow> (\<exists>i<?k. N i \<and> k = 6 - i)" for k
    using bit_ts_bits(1) [OF count, of k] count
    by (auto simp: bitmap_def npd_null_bitmap_mask_def npd_low_bits bit_simps bits N_def)
  have marks: "bit bitmap (6 - i) = N i" if "i < ?k" for i
  proof -
    have "6 - i = 6 - j \<longleftrightarrow> i = j" if "j < ?k" for j using that \<open>i < ?k\<close> count by auto
    then show ?thesis using that unfolding bm by auto
  qed
  have ones: "npd_count_ones bitmap = length (filter N [0..<?k])" by (rule count_ones_marks [OF count bm])
  have kept: "out = concat (map (ts_packet input ?sz) (filter (\<lambda>i. \<not> bit bitmap (6 - i)) [0..<?k]))"
  proof -
    have "filter (\<lambda>i. \<not> bit bitmap (6 - i)) [0..<?k] = filter (\<lambda>i. \<not> N i) [0..<?k]"
      using marks by (intro filter_cong) auto
    then show ?thesis by (simp add: out ts_packets_def filter_map comp_def N_def)
  qed
  note small = ts_small [OF count]
  have plen: "length (ts_packet input ?sz i) = ?sz" if "i < ?k" for i
    using small that ts_packet_reads(4) [of i ?sz input] by (auto simp: list_all_iff ts_size_def)
  have "length out = length (filter (\<lambda>i. \<not> N i) [0..<?k]) * ?sz"
  proof -
    have "length (concat (map (ts_packet input ?sz) is)) = length is * ?sz" if "list_all (\<lambda>i. i < ?k) is" for "is"
      using that by (induction "is") (simp_all add: plen)
    from this [of "filter (\<lambda>i. \<not> N i) [0..<?k]"] show ?thesis
      by (simp add: out ts_packets_def filter_map comp_def N_def list_all_iff)
  qed
  moreover have "length (filter N [0..<?k]) + length (filter (\<lambda>i. \<not> N i) [0..<?k]) = ?k"
    using sum_length_filter_compl [of N "[0..<?k]"] by simp
  moreover have nn: "n = length (filter N [0..<?k]) * ?sz" by (simp add: n ts_packets_def filter_map comp_def N_def)
  moreover have "0 < ?sz" by (simp add: ts_size_def)
  ultimately have split: "length out div ?sz + npd_count_ones bitmap = ?k" and lens: "length out + n = length input"
    by (simp_all add: ones total add_mult_distrib [symmetric] add.commute)
  have fill: "npd_fill out ?sz bitmap [0..<?k] 0
      = res_ok (concat (map (\<lambda>i. if bit bitmap (6 - i) then npd_null_packet ?sz else ts_packet input ?sz i) [0..<?k]))"
    using npd_fill_exact [of bitmap "ts_packet input ?sz" ?sz "[0..<?k]" "[]"] count plen
    by (simp add: kept list_all_iff)
  have normal: "concat (map (\<lambda>i. if bit bitmap (6 - i) then npd_null_packet ?sz else ts_packet input ?sz i) [0..<?k]) = ts_normal input"
    unfolding ts_normal_def ts_packets_def map_map comp_def
    by (intro arg_cong [where f = concat] map_cong) (simp_all add: marks N_def)
  have "npd_expand out bits = res_ok (ts_normal input)"
  proof (cases "npd_count_ones bitmap = 0")
    case True
    then have "\<not> N i" if "i < ?k" for i using ones that by (auto simp: filter_empty_conv)
    then have "ts_normal input = concat ?ps"
      unfolding ts_normal_def by (intro arg_cong [where f = concat] map_idI) (auto simp: ts_packets_def N_def)
    moreover have "out = concat ?ps"
      unfolding out using \<open>\<And>i. i < ?k \<Longrightarrow> \<not> N i\<close> by (subst filter_True) (auto simp: ts_packets_def N_def)
    ultimately show ?thesis using True by (simp add: npd_expand_def bitmap_def)
  next
    case False
    then show ?thesis using split count fill normal
      by (simp add: npd_expand_def bitmap_def [symmetric] sz [symmetric] Let_def npd_max_packets_def)
  qed
  then show ?thesis using lens by blast
qed

lemma npd_fill_returns:
  assumes "list_all (\<lambda>i. i \<le> 6) is"
  shows "returns (npd_fill input sz bitmap is off)"
  using assms
  by (induction "is" arbitrary: off)
    (auto simp: npd_null_bit_def returns_reads intro!: returns_bind)

lemma npd_expand_returns: "returns (npd_expand input bits)"
  by (auto simp: npd_expand_def Let_def npd_max_packets_def list_all_iff intro!: npd_fill_returns)

lemma npd_suppress_returns: "returns (npd_suppress input)"
  unfolding npd_suppress_exact by simp

lemma npd_bits_split: "npd_bits (bits AND npd_size_204 \<noteq> 0) (bits AND npd_null_bitmap_mask) = bits"
  unfolding npd_bits_def npd_size_204_def npd_flag_bit npd_null_bitmap_mask_def npd_low_bits Let_def
  by (rule bit_word_eqI, rename_tac k, case_tac "k = 7") (auto simp: bit_simps simp del: push_bit_of_1)

lemma ts_normal_lengths:
  assumes "npd_suppress input = res_ok (bits, n, out)"
  shows "list_all (\<lambda>p. length p = ts_size input) (ts_packets input)" "concat (ts_packets input) = input"
proof -
  have count: "ts_count input \<le> 7" and len: "length input mod 188 = 0 \<or> length input mod 204 = 0"
    using assms by (auto simp: npd_suppress_exact not_less split: if_splits)
  have "length (ts_packet input (ts_size input) i) = ts_size input" if "i < ts_count input" for i
    using ts_small [OF count] that ts_packet_reads(4) [of i "ts_size input" input] by (auto simp: list_all_iff ts_size_def)
  then show "list_all (\<lambda>p. length p = ts_size input) (ts_packets input)" by (auto simp: ts_packets_def list_all_iff)
  show "concat (ts_packets input) = input"
    unfolding ts_packets_def using len by (intro concat_ts_packets) (auto simp: ts_count_def ts_size_def)
qed

lemma ts_normal_eq:
  assumes "npd_suppress input = res_ok (bits, n, out)"
  shows "(ts_normal input = input) = list_all (\<lambda>p. p = npd_null_packet (ts_size input)) (filter ts_null (ts_packets input))"
proof -
  let ?f = "\<lambda>p. if ts_null p then npd_null_packet (ts_size input) else p"
  note l = ts_normal_lengths [OF assms]
  have sz: "4 \<le> ts_size input" by (simp add: ts_size_def)
  have "ts_normal input = input \<longleftrightarrow> concat (map ?f (ts_packets input)) = concat (ts_packets input)"
    by (simp add: ts_normal_def l(2))
  also have "\<dots> \<longleftrightarrow> map ?f (ts_packets input) = ts_packets input"
  proof (rule iffI, rule concat_injective)
    show "\<forall>(x, y)\<in>set (zip (map ?f (ts_packets input)) (ts_packets input)). length x = length y"
      using l(1) sz by (auto simp: zip_map1 zip_same list_all_iff)
  qed simp_all
  also have "\<dots> \<longleftrightarrow> list_all (\<lambda>p. p = npd_null_packet (ts_size input)) (filter ts_null (ts_packets input))"
    by (auto simp: list_all_iff map_eq_conv [of _ _ id, simplified] split: if_splits)
  finally show ?thesis .
qed

section \<open>Properties\<close>

text \<open>C40: Null-packet deletion is transparent. When a payload is accepted, the bytes kept and the bytes suppressed
  add up to it, the bits byte survives the header extension, and expanding with the bits read back gives the payload
  with its null packets in canonical form: the very payload when its null packets were canonical. Neither direction
  ever panics.\<close>

theorem npd_roundtrip:
  assumes "npd_suppress input = res_ok (bits, n, out)"
  shows "\<exists>e. npd_ext_parse (npd_ext_encode \<lparr>ne_npd = (0 < n), ne_size204 = (bits AND npd_size_204 \<noteq> 0),
        ne_null_bitmap = bits, ne_seq_ext = seq_ext\<rparr>) = res_ok (e, npd_ext_size)
    \<and> npd_bits (ne_size204 e) (ne_null_bitmap e) = bits
    \<and> npd_expand out (npd_bits (ne_size204 e) (ne_null_bitmap e)) = res_ok (ts_normal input)
    \<and> length out + n = length input
    \<and> (ts_normal input = input) = list_all (\<lambda>p. p = npd_null_packet (ts_size input)) (filter ts_null (ts_packets input))
    \<and> returns (npd_suppress other) \<and> returns (npd_expand other bits')"
proof -
  let ?e = "\<lparr>ne_npd = (0 < n), ne_size204 = (bits AND npd_size_204 \<noteq> 0), ne_null_bitmap = bits, ne_seq_ext = seq_ext\<rparr>"
  show ?thesis
    using npd_ext_parse_encode [of ?e "[]"] npd_bits_split [of bits] npd_expand_suppressed [OF assms] ts_normal_eq [OF assms]
      npd_suppress_returns [of other] npd_expand_returns [of other bits']
    by (simp add: npd_ext_size_def)
qed

definition sample_ts :: bytes where
  "sample_ts = npd_sync_byte # replicate 187 1 @ npd_null_packet 188"

lemma sample_ts_suppressed: "npd_suppress sample_ts = res_ok (push_bit 5 1, 188, npd_sync_byte # replicate 187 1)"
  by code_simp

theorem npd_roundtrip_witness:
  "\<exists>e. npd_ext_parse (npd_ext_encode \<lparr>ne_npd = (0 < (188 :: nat)), ne_size204 = ((push_bit 5 1 :: u8) AND npd_size_204 \<noteq> 0),
        ne_null_bitmap = push_bit 5 1, ne_seq_ext = 7\<rparr>) = res_ok (e, npd_ext_size)
    \<and> npd_bits (ne_size204 e) (ne_null_bitmap e) = push_bit 5 1
    \<and> npd_expand (npd_sync_byte # replicate 187 1) (npd_bits (ne_size204 e) (ne_null_bitmap e)) = res_ok (ts_normal sample_ts)
    \<and> length (npd_sync_byte # replicate 187 1) + 188 = length sample_ts
    \<and> (ts_normal sample_ts = sample_ts) = list_all (\<lambda>p. p = npd_null_packet (ts_size sample_ts)) (filter ts_null (ts_packets sample_ts))
    \<and> returns (npd_suppress [1]) \<and> returns (npd_expand [1] 9)"
  by (rule npd_roundtrip [OF sample_ts_suppressed])

end
