(* ===== verification/Lpc.thy ===== *)
theory Lpc
  imports Fallible
begin

text \<open>
  Payload compression (\<^verbatim>\<open>rist-codec/src/lpc.rs\<close>): the LZ4 block format. The decoder is a loop over
  the block with the output built so far, the encoder a greedy match finder over a hash table of positions. An
  index out of range and a subtraction below zero are panics.
\<close>

section \<open>Constants and errors\<close>

datatype lpc_error = Lpc_Corrupt | Lpc_Output_Too_Large

definition lpc_min_match :: nat where "lpc_min_match = 4"
definition lpc_last_literals :: nat where "lpc_last_literals = 5"
definition lpc_mf_limit :: nat where "lpc_mf_limit = lpc_min_match + lpc_last_literals"
definition lpc_min_length :: nat where "lpc_min_length = lpc_mf_limit + 1"
definition lpc_hash_log :: nat where "lpc_hash_log = 12"
definition lpc_hash_table_size :: nat where "lpc_hash_table_size = 2 ^ lpc_hash_log"
definition lpc_run_mask :: nat where "lpc_run_mask = 15"
definition lpc_max_offset :: nat where "lpc_max_offset = 65535"

lemmas lpc_consts = lpc_min_match_def lpc_last_literals_def lpc_mf_limit_def lpc_min_length_def lpc_run_mask_def
  lpc_max_offset_def

definition compress_bound :: "nat \<Rightarrow> nat" where
  "compress_bound n = n + n div 255 + 16"

definition nat_sub :: "nat \<Rightarrow> nat \<Rightarrow> nat option" where
  "nat_sub a b = (if b \<le> a then Some (a - b) else None)"

section \<open>Decoding\<close>

text \<open>The loop of \<^verbatim>\<open>read_length\<close>; \<open>None\<close> is the code's own \<^verbatim>\<open>None\<close>.\<close>

function read_length_loop :: "bytes \<Rightarrow> nat \<Rightarrow> nat \<Rightarrow> nat \<Rightarrow> (nat \<times> nat) option" where
  "read_length_loop src sp tot advance =
     (if length src \<le> sp then None
      else let b = src ! sp; tot = tot + unat b; advance = advance + 1
           in if b \<noteq> 255 then Some (tot, advance) else read_length_loop src (sp + 1) tot advance)"
  by pat_completeness auto
termination by (relation "measure (\<lambda>(src, sp, _). length src - sp)") auto

declare read_length_loop.simps [simp del]

definition read_length :: "bytes \<Rightarrow> nat \<Rightarrow> (nat \<times> nat) option" where
  "read_length src sp = read_length_loop src sp 0 0"

text \<open>A length nibble with its extension bytes: the length and the offset after them.\<close>

definition lpc_length :: "bytes \<Rightarrow> nat \<Rightarrow> nat \<Rightarrow> nat \<Rightarrow> (lpc_error, nat \<times> nat) result" where
  "lpc_length src nibble base sp =
     (if nibble = lpc_run_mask
      then (case read_length src sp of
              None \<Rightarrow> res_err Lpc_Corrupt
            | Some (extra, adv) \<Rightarrow> res_ok (base + extra, sp + adv))
      else res_ok (base, sp))"

text \<open>The copy, one byte at a time: the source may run into the bytes being written.\<close>

fun copy_match :: "bytes \<Rightarrow> nat \<Rightarrow> nat \<Rightarrow> bytes option" where
  "copy_match out pos 0 = Some out"
| "copy_match out pos (Suc k) = do { b \<leftarrow> vec_get out pos; copy_match (out @ [b]) (pos + 1) k }"

lemma res_bind_cong [fundef_cong]:
  "m = m' \<Longrightarrow> (\<And>x. m' = res_ok x \<Longrightarrow> f x = g x) \<Longrightarrow> res_bind m f = res_bind m' g"
  by (auto simp: res_bind_def res_ok_def split: option.splits sum.splits)

lemma read_length_loop_advances:
  "read_length_loop src sp tot advance = Some (t, a) \<Longrightarrow> advance < a \<and> sp + (a - advance) \<le> length src"
  by (induction src sp tot advance rule: read_length_loop.induct)
    (subst (asm) (2) read_length_loop.simps, fastforce simp: Let_def split: if_splits)

lemma lpc_length_advances: "lpc_length src nibble base sp = res_ok (l, sp') \<Longrightarrow> sp \<le> sp'"
  by (auto simp: lpc_length_def split: if_splits option.splits)

text \<open>One turn of \<^verbatim>\<open>while sp < n\<close> per call, the output carried along.\<close>

function lz_decode :: "bytes \<Rightarrow> nat \<Rightarrow> nat \<Rightarrow> bytes \<Rightarrow> (lpc_error, bytes) result" where
  "lz_decode src max_out sp out =
     (if length src \<le> sp then res_ok out
      else
        res_bind (res_lift (vec_get src sp)) (\<lambda>token.
        res_bind (lpc_length src (unat (drop_bit 4 token)) (unat (drop_bit 4 token)) (sp + 1)) (\<lambda>(lit_len, sp1).
        res_bind (res_lift (nat_sub (length src) sp1)) (\<lambda>left.
        if left < lit_len then res_err Lpc_Corrupt
        else if max_out < length out + lit_len then res_err Lpc_Output_Too_Large
        else
          res_bind (res_lift (vec_slice src sp1 (sp1 + lit_len))) (\<lambda>literals.
          let out = out @ literals; sp2 = sp1 + lit_len in
          if sp2 = length src then res_ok out
          else if length src < sp2 + 2 then res_err Lpc_Corrupt
          else
            res_bind (res_lift (vec_get src sp2)) (\<lambda>lo. res_bind (res_lift (vec_get src (sp2 + 1))) (\<lambda>hi.
            let offset = unat (of_be16 hi lo) in
            if offset = 0 then res_err Lpc_Corrupt
            else
              let low = unat (token AND 15) in
              res_bind (lpc_length src low (low + lpc_min_match) (sp2 + 2)) (\<lambda>(match_len, sp3).
              if length out < offset then res_err Lpc_Corrupt
              else
                let match_pos = length out - offset in
                if max_out < length out + match_len then res_err Lpc_Output_Too_Large
                else
                  res_bind (res_lift (copy_match out match_pos match_len)) (\<lambda>out.
                  if sp3 = length src then res_err Lpc_Corrupt
                  else lz_decode src max_out sp3 out)))))))))"
  by pat_completeness auto
termination
  by (relation "measure (\<lambda>(src, _, sp, _). length src - sp)") (auto dest!: lpc_length_advances)

declare lz_decode.simps [simp del]

definition lpc_decompress :: "bytes \<Rightarrow> nat \<Rightarrow> (lpc_error, bytes) result" where
  "lpc_decompress src max_out = lz_decode src max_out 0 []"

section \<open>Encoding\<close>

definition load32 :: "bytes \<Rightarrow> nat \<Rightarrow> u32 option" where
  "load32 b i = do {
     w \<leftarrow> vec_get b i; x \<leftarrow> vec_get b (i + 1); y \<leftarrow> vec_get b (i + 2); z \<leftarrow> vec_get b (i + 3);
     Some (of_be32 z y x w) }"

definition lpc_hash :: "u32 \<Rightarrow> u32" where
  "lpc_hash v = drop_bit (32 - lpc_hash_log) (v * 2654435761)"

fun append_length :: "nat \<Rightarrow> bytes" where
  "append_length n = (if 255 \<le> n then 255 # append_length (n - 255) else [of_nat n])"

declare append_length.simps [simp del]

definition emit_sequence :: "bytes \<Rightarrow> nat \<Rightarrow> nat \<Rightarrow> nat \<Rightarrow> bytes option" where
  "emit_sequence literals lit_len offset match_len = do {
     mtok \<leftarrow> nat_sub match_len lpc_min_match;
     let token = (if lpc_run_mask \<le> lit_len then of_nat (push_bit 4 lpc_run_mask) else of_nat (push_bit 4 lit_len) :: u8);
     let token = token OR (if lpc_run_mask \<le> mtok then of_nat lpc_run_mask else of_nat mtok);
     Some ([token]
       @ (if lpc_run_mask \<le> lit_len then append_length (lit_len - lpc_run_mask) else [])
       @ literals @ [of_nat offset, of_nat (drop_bit 8 offset)]
       @ (if lpc_run_mask \<le> mtok then append_length (mtok - lpc_run_mask) else [])) }"

definition emit_last_literals :: "bytes \<Rightarrow> bytes" where
  "emit_last_literals literals =
     (let lit_len = length literals in
      (if lpc_run_mask \<le> lit_len
       then [of_nat (push_bit 4 lpc_run_mask)] @ append_length (lit_len - lpc_run_mask)
       else [of_nat (push_bit 4 lit_len)]) @ literals)"

text \<open>The match extended forward: where it ends, its length aside.\<close>

function extend_match :: "bytes \<Rightarrow> nat \<Rightarrow> nat \<Rightarrow> nat \<Rightarrow> nat option" where
  "extend_match src match_limit m_end r_end =
     (if m_end < match_limit
      then do {
        x \<leftarrow> vec_get src m_end; y \<leftarrow> vec_get src r_end;
        if x = y then extend_match src match_limit (m_end + 1) (r_end + 1) else Some m_end }
      else Some m_end)"
  by pat_completeness auto
termination by (relation "measure (\<lambda>(_, l, m, _). l - m)") auto

declare extend_match.simps [simp del]

lemma extend_match_grows: "extend_match src l m r = Some e \<Longrightarrow> m \<le> e"
proof (induction src l m r rule: extend_match.induct)
  case (1 src l m r)
  from "1.prems" have "(if m < l then do { x \<leftarrow> vec_get src m; y \<leftarrow> vec_get src r;
      if x = y then extend_match src l (m + 1) (r + 1) else Some m } else Some m) = Some e"
    by (simp add: extend_match.simps [of src l m r])
  then show ?case using "1.IH" by (fastforce simp: bind_eq_Some_conv split: if_splits)
qed

text \<open>The table maps a hash to the position last seen with it, as a 32-bit signed number, \<open>- 1\<close> for none.\<close>

definition table_get :: "u32 list \<Rightarrow> bytes \<Rightarrow> nat \<Rightarrow> u32 option" where
  "table_get table src i = do { v \<leftarrow> load32 src i; vec_get table (unat (lpc_hash v)) }"

definition table_put :: "u32 list \<Rightarrow> bytes \<Rightarrow> nat \<Rightarrow> u32 list option" where
  "table_put table src i = do { v \<leftarrow> load32 src i; vec_set table (unat (lpc_hash v)) (of_nat i) }"

text \<open>Whether the table's position starts the same four bytes, near enough: its offset.\<close>

definition match_at :: "bytes \<Rightarrow> u32 \<Rightarrow> nat \<Rightarrow> nat option option" where
  "match_at src r ip =
     (if sint r < 0 then Some None
      else
        let refp = unat r in
        do { d \<leftarrow> nat_sub ip refp;
             if lpc_max_offset < d then Some None
             else do { a \<leftarrow> load32 src refp; b \<leftarrow> load32 src ip; Some (if a \<noteq> b then None else Some refp) } })"

text \<open>One turn of \<^verbatim>\<open>while ip <= search_limit\<close> per call: the bytes emitted from here on, the final
  literals included.\<close>

function lz_encode :: "bytes \<Rightarrow> nat \<Rightarrow> nat \<Rightarrow> u32 list \<Rightarrow> nat \<Rightarrow> nat \<Rightarrow> bytes option" where
  "lz_encode src match_limit search_limit table anchor ip =
     (if search_limit < ip
      then do { rest \<leftarrow> vec_slice src anchor (length src); Some (emit_last_literals rest) }
      else do {
        r \<leftarrow> table_get table src ip;
        table \<leftarrow> table_put table src ip;
        m \<leftarrow> match_at src r ip;
        case m of
          None \<Rightarrow> lz_encode src match_limit search_limit table anchor (ip + 1)
        | Some refp \<Rightarrow> do {
            m_end \<leftarrow> extend_match src match_limit (ip + lpc_min_match) (refp + lpc_min_match);
            match_len \<leftarrow> nat_sub m_end ip;
            lit_len \<leftarrow> nat_sub ip anchor;
            literals \<leftarrow> vec_slice src anchor ip;
            s \<leftarrow> emit_sequence literals lit_len (ip - refp) match_len;
            table \<leftarrow> (if 1 \<le> m_end \<and> m_end - 1 \<le> search_limit then table_put table src (m_end - 1) else Some table);
            rest \<leftarrow> lz_encode src match_limit search_limit table m_end m_end;
            Some (s @ rest) } })"
  by pat_completeness auto
termination
  by (relation "measure (\<lambda>(_, _, l, _, _, ip). l + 1 - ip)") (auto simp: lpc_min_match_def dest!: extend_match_grows)

declare lz_encode.simps [simp del]

definition lpc_compress :: "bytes \<Rightarrow> bytes option" where
  "lpc_compress src =
     (if length src < lpc_min_length then Some (emit_last_literals src)
      else do {
        match_limit \<leftarrow> nat_sub (length src) lpc_last_literals;
        search_limit \<leftarrow> nat_sub (length src) lpc_mf_limit;
        table \<leftarrow> table_put (replicate lpc_hash_table_size (- 1)) src 0;
        lz_encode src match_limit search_limit table 0 1 })"

end
