(* ===== verification/Lpc_Props.thy ===== *)
theory Lpc_Props
  imports Lpc
begin

text \<open>
  Payload compression is lossless: for every input the encoder returns, within the bound announced, a block that
  the decoder turns back into the input. The decoder returns on any bytes, with no more output than allowed.
\<close>

section \<open>Length fields\<close>

lemma length_append_length: "length (append_length n) = n div 255 + 1"
  by (induction n rule: append_length.induct) (subst append_length.simps, auto simp: le_div_geq)

lemma read_length_append:
  "read_length_loop (pre @ append_length n @ post) (length pre) t a = Some (t + n, a + length (append_length n))"
proof (induction n arbitrary: pre t a rule: append_length.induct)
  case (1 n)
  show ?case
  proof (cases "255 \<le> n")
    case True
    have "read_length_loop ((pre @ [255]) @ append_length (n - 255) @ post) (length (pre @ [255])) (t + 255) (a + 1)
        = Some (t + 255 + (n - 255), a + 1 + length (append_length (n - 255)))"
      using "1.IH" [OF True, of "pre @ [255]"] .
    then show ?thesis
      using True by (subst read_length_loop.simps) (simp add: append_length.simps [of n] nth_append)
  next
    case False
    have "(of_nat n :: u8) \<noteq> 255" "unat (of_nat n :: u8) = n"
      using False by (auto simp: unat_of_nat word_of_nat_eq_iff take_bit_nat_eq_self dest: arg_cong [of _ _ unat])
    then show ?thesis
      using False by (subst read_length_loop.simps) (simp add: append_length.simps [of n] nth_append)
  qed
qed

definition length_ext :: "nat \<Rightarrow> bytes" where
  "length_ext n = (if 15 \<le> n then append_length (n - 15) else [])"

lemma lpc_length_read:
  "lpc_length (pre @ length_ext n @ post) (min 15 n) (min 15 n + c) (length pre)
     = res_ok (n + c, length pre + length (length_ext n))"
  by (auto simp: lpc_length_def length_ext_def lpc_run_mask_def read_length_def read_length_append min_def)

section \<open>Copies\<close>

lemma copy_match_total:
  "pos < length out \<Longrightarrow> \<exists>xs. copy_match out pos k = Some (out @ xs) \<and> length xs = k"
proof (induction k arbitrary: out pos)
  case (Suc k)
  then show ?case using Suc.IH [of "pos + 1" "out @ [out ! pos]"] by auto
qed simp

lemma copy_match_source:
  assumes "pos < ip" "ip + k \<le> length src" "\<And>i. i < k \<Longrightarrow> src ! (pos + i) = src ! (ip + i)"
  shows "copy_match (take ip src) pos k = Some (take (ip + k) src)"
  using assms
proof (induction k arbitrary: ip pos)
  case (Suc k)
  have "take ip src @ [src ! pos] = take (ip + 1) src"
    using Suc.prems(2) Suc.prems(3) [of 0] by (simp add: take_Suc_conv_app_nth)
  moreover have "src ! (pos + 1 + i) = src ! (ip + 1 + i)" if "i < k" for i using Suc.prems(3) [of "Suc i"] that by simp
  ultimately show ?case using Suc.prems Suc.IH [of "pos + 1" "ip + 1"] by simp
qed simp

section \<open>Decoding an emitted sequence\<close>

lemma token_nibbles:
  assumes "l \<le> 15" "m \<le> 15"
  shows "unat (drop_bit 4 ((of_nat (push_bit 4 l) :: u8) OR of_nat m)) = l"
    "unat (((of_nat (push_bit 4 l) :: u8) OR of_nat m) AND 15) = m"
proof -
  define x y where "x = (of_nat l :: u8)" and "y = (of_nat m :: u8)"
  have u: "unat x = l" "unat y = m" using assms by (simp_all add: x_def y_def unat_of_nat)
  have b: "\<not> k < 4 \<Longrightarrow> \<not> bit x k" "\<not> k < 4 \<Longrightarrow> \<not> bit y k" for k
    using high_bits [of x 4 k] high_bits [of y 4 k] u assms by simp_all
  have push: "(of_nat (push_bit 4 l) :: u8) = push_bit 4 x" by (simp add: x_def push_bit_eq_mult)
  have "drop_bit 4 (push_bit 4 x OR y) = x"
    by (rule bit_word_eqI, rename_tac k, case_tac "k < 4") (auto simp: bit_simps b)
  moreover have "(push_bit 4 x OR y) AND mask 4 = y"
    by (rule bit_word_eqI, rename_tac k, case_tac "k < 4") (auto simp: bit_simps b)
  moreover have "(15 :: u8) = mask 4" by (simp add: mask_eq_exp_minus_1)
  ultimately show "unat (drop_bit 4 ((of_nat (push_bit 4 l) :: u8) OR of_nat m)) = l"
    "unat (((of_nat (push_bit 4 l) :: u8) OR of_nat m) AND 15) = m"
    by (simp_all only: push y_def [symmetric] u)
qed

lemma emit_sequence_bytes:
  assumes "4 \<le> ml"
  shows "emit_sequence lits (length lits) off ml =
    Some ([of_nat (push_bit 4 (min 15 (length lits))) OR of_nat (min 15 (ml - 4))] @ length_ext (length lits) @ lits
      @ [of_nat off, of_nat (drop_bit 8 off)] @ length_ext (ml - 4))"
  using assms
  by (auto simp: emit_sequence_def nat_sub_def lpc_min_match_def lpc_run_mask_def length_ext_def min_def)

lemma offset_read:
  assumes "off \<le> 65535"
  shows "unat (of_be16 (of_nat (drop_bit 8 off)) (of_nat off)) = off"
proof -
  have "of_be16 (of_nat (drop_bit 8 off)) (of_nat off) = (of_nat off :: u16)"
    unfolding of_be16_def by (rule bit_word_eqI) (auto simp: bit_simps)
  then show ?thesis using assms by (simp add: unat_of_nat)
qed


lemma token_split:
  "unat (drop_bit 4 ((of_nat (push_bit 4 (min 15 l)) :: u8) OR of_nat (min 15 m))) = min 15 l"
  "unat (((of_nat (push_bit 4 (min 15 l)) :: u8) OR of_nat (min 15 m)) AND 15) = min 15 m"
  by (rule token_nibbles; simp)+

lemma lz_decode_sequence:
  assumes "emit_sequence lits (length lits) off ml = Some s" "4 \<le> ml" "1 \<le> off" "off \<le> 65535"
    "off \<le> length (out @ lits)" "copy_match (out @ lits) (length (out @ lits) - off) ml = Some out'"
    "length (out @ lits) + ml \<le> max_out" "post \<noteq> []"
  shows "lz_decode (pre @ s @ post) max_out (length pre) out = lz_decode (pre @ s @ post) max_out (length (pre @ s)) out'"
proof -
  define token where "token = ((of_nat (push_bit 4 (min 15 (length lits))) :: u8) OR of_nat (min 15 (ml - 4)))"
  define lx where "lx = length_ext (length lits)"
  define mx where "mx = length_ext (ml - 4)"
  define lo hi where "lo = (of_nat off :: u8)" and "hi = (of_nat (drop_bit 8 off) :: u8)"
  define b where "b = pre @ s @ post"
  have s: "s = [token] @ lx @ lits @ [lo, hi] @ mx"
    using assms(1) emit_sequence_bytes [OF assms(2)] by (simp add: token_def lx_def mx_def lo_def hi_def)
  define i1 i2 i3 where "i1 = length pre + 1 + length lx" and "i2 = i1 + length lits" and "i3 = i2 + 2 + length mx"
  have len: "length b = i3 + length post" by (simp add: b_def s i1_def i2_def i3_def)
  have r0: "vec_get b (length pre) = Some token" by (simp add: b_def s)
  have nib: "unat (drop_bit 4 token) = min 15 (length lits)" "unat (token AND 15) = min 15 (ml - 4)"
    unfolding token_def by (rule token_split)+
  have r1: "lpc_length b (min 15 (length lits)) (min 15 (length lits)) (length pre + 1) = res_ok (length lits, i1)"
    using lpc_length_read [of "pre @ [token]" "length lits" "lits @ [lo, hi] @ mx @ post" 0]
    by (simp add: b_def s lx_def i1_def)
  have r2: "vec_slice b i1 i2 = Some lits"
    using vec_slice_at [of i1 "pre @ [token] @ lx" i2 lits "[lo, hi] @ mx @ post"]
    by (simp add: b_def s i1_def i2_def)
  have r3: "vec_get b i2 = Some lo" "vec_get b (i2 + 1) = Some hi"
    using vec_get_append [of i2 "pre @ [token] @ lx @ lits" lo "[hi] @ mx @ post"]
      vec_get_append [of "i2 + 1" "pre @ [token] @ lx @ lits @ [lo]" hi "mx @ post"]
    by (simp_all add: b_def s i1_def i2_def)
  have r4: "lpc_length b (min 15 (ml - 4)) (min 15 (ml - 4) + 4) (i2 + 2) = res_ok (ml, i3)"
    using lpc_length_read [of "pre @ [token] @ lx @ lits @ [lo, hi]" "ml - 4" post 4] assms(2)
    by (simp add: b_def s mx_def i1_def i2_def i3_def add.assoc)
  have off: "unat (of_be16 hi lo) = off" unfolding hi_def lo_def using offset_read assms(4) .
  have r5: "nat_sub (length b) i1 = Some (length lits + 2 + length mx + length post)"
    by (simp add: len i2_def i3_def nat_sub_def)
  have "0 < length post" using assms(8) by simp
  then have c: "\<not> length b \<le> length pre" "\<not> length lits + 2 + length mx + length post < length lits"
    "\<not> max_out < length out + length lits" "i2 \<noteq> length b" "\<not> length b < i2 + 2" "off \<noteq> 0"
    "\<not> length (out @ lits) < off" "\<not> max_out < length (out @ lits) + ml" "i3 \<noteq> length b"
    using assms len by (simp_all add: i1_def i2_def i3_def)
  have "lz_decode b max_out (length pre) out = lz_decode b max_out i3 out'"
    by (subst lz_decode.simps)
      (simp only: c r0 r1 r2 r3 r4 r5 nib off assms(6) if_False Let_def prod.case res_lift_simps res_bind_simps
        i2_def [symmetric] lpc_min_match_def)
  then show ?thesis by (simp add: b_def s i1_def i2_def i3_def add.assoc)
qed

lemma lz_decode_last:
  assumes "length out + length lits \<le> max_out"
  shows "lz_decode (pre @ emit_last_literals lits) max_out (length pre) out = res_ok (out @ lits)"
proof -
  define token where "token = (of_nat (push_bit 4 (min 15 (length lits))) :: u8)"
  define lx where "lx = length_ext (length lits)"
  define b where "b = pre @ emit_last_literals lits"
  have s: "emit_last_literals lits = [token] @ lx @ lits"
    by (auto simp: emit_last_literals_def Let_def token_def lx_def length_ext_def lpc_run_mask_def min_def)
  define i1 where "i1 = length pre + 1 + length lx"
  have len: "length b = i1 + length lits" by (simp add: b_def s i1_def)
  have r0: "vec_get b (length pre) = Some token" by (simp add: b_def s)
  have nib: "unat (drop_bit 4 token) = min 15 (length lits)"
    using token_split(1) [of "length lits" 0] by (simp add: token_def)
  have r1: "lpc_length b (min 15 (length lits)) (min 15 (length lits)) (length pre + 1) = res_ok (length lits, i1)"
    using lpc_length_read [of "pre @ [token]" "length lits" "lits" 0] by (simp add: b_def s lx_def i1_def)
  have r2: "vec_slice b i1 (length b) = Some lits"
    using vec_slice_at [of i1 "pre @ [token] @ lx" "length b" lits "[]"] by (simp add: b_def s i1_def)
  have r5: "nat_sub (length b) i1 = Some (length lits)" by (simp add: len nat_sub_def)
  have c: "\<not> length b \<le> length pre" "\<not> length lits < length lits" "\<not> max_out < length out + length lits"
    "i1 + length lits = length b"
    using assms len by (simp_all add: i1_def)
  show ?thesis
    unfolding b_def [symmetric]
    by (subst lz_decode.simps)
      (simp only: c r0 r1 r2 r5 nib if_False if_True Let_def prod.case res_lift_simps res_bind_simps simp_thms)
qed

section \<open>The match finder\<close>

definition table_ok :: "u32 list \<Rightarrow> nat \<Rightarrow> bool" where
  "table_ok table ip \<longleftrightarrow> length table = 4096 \<and> list_all (\<lambda>r. sint r < 0 \<or> unat r < ip) table"

lemma load32_total: "i + 4 \<le> length b \<Longrightarrow> load32 b i = Some (of_be32 (b ! (i + 3)) (b ! (i + 2)) (b ! (i + 1)) (b ! i))"
  by (simp add: load32_def)

lemma lpc_hash_below: "unat (lpc_hash v) < 4096"
proof -
  have "unat (drop_bit 20 w) < 4096" for w :: u32
  proof -
    have "unat (drop_bit 20 w) = unat w div 2 ^ 20" by (simp add: drop_bit_eq_div unat_div)
    then show ?thesis using unsigned_less [of w, where 'a = nat] by simp
  qed
  then show ?thesis by (simp add: lpc_hash_def lpc_hash_log_def)
qed

lemma table_get_ok:
  assumes "table_ok table ip" "i + 4 \<le> length src"
  shows "\<exists>r. table_get table src i = Some r \<and> (sint r < 0 \<or> unat r < ip)"
  using assms lpc_hash_below
  by (auto simp: table_get_def load32_total table_ok_def list_all_length)

lemma table_put_ok:
  assumes "table_ok table ip" "i + 4 \<le> length src" "ip \<le> jp" "i < jp"
  shows "\<exists>t. table_put table src i = Some t \<and> table_ok t jp"
proof -
  have "unat (of_nat i :: u32) \<le> i" by (simp add: unat_of_nat)
  then have "unat (of_nat i :: u32) < jp" using assms(4) by simp
  then show ?thesis
    using assms lpc_hash_below
    by (auto simp: table_put_def load32_total table_ok_def vec_set_def list_all_length nth_list_update intro: less_le_trans)
qed

lemma load32_be: "load32 b i = Some v \<Longrightarrow> be32 v = [b ! (i + 3), b ! (i + 2), b ! (i + 1), b ! i]"
  by (auto simp: load32_def bind_eq_Some_conv vec_get_def split: if_splits)

lemma load32_bytes:
  assumes "load32 b i = Some v" "load32 b j = Some v" "k < 4"
  shows "b ! (i + k) = b ! (j + k)"
proof -
  have "k = 0 \<or> k = 1 \<or> k = 2 \<or> k = 3" using assms(3) by auto
  then show ?thesis using load32_be [OF assms(1)] load32_be [OF assms(2)] by auto
qed

lemma match_at_ok:
  assumes "sint r < 0 \<or> unat r < ip" "ip + 4 \<le> length src"
  shows "\<exists>m. match_at src r ip = Some m \<and> (\<forall>refp. m = Some refp \<longrightarrow>
      refp < ip \<and> ip - refp \<le> 65535 \<and> (\<forall>k<4. src ! (refp + k) = src ! (ip + k)))"
proof (cases "sint r < 0")
  case False
  then have less: "unat r < ip" using assms(1) by simp
  then obtain v w where vw: "load32 src (unat r) = Some v" "load32 src ip = Some w"
    using assms(2) by (simp add: load32_total)
  then have "v = w \<Longrightarrow> \<forall>k<4. src ! (unat r + k) = src ! (ip + k)" using load32_bytes by blast
  then show ?thesis using False less vw by (simp add: match_at_def nat_sub_def lpc_max_offset_def Let_def)
qed (simp add: match_at_def)

lemma extend_match_ok:
  assumes "r < m" "l \<le> length src" "m \<le> l"
  shows "\<exists>e. extend_match src l m r = Some e \<and> m \<le> e \<and> e \<le> l \<and> (\<forall>i<e - m. src ! (r + i) = src ! (m + i))"
  using assms
proof (induction src l m r rule: extend_match.induct)
  case (1 src l m r)
  show ?case
  proof (cases "m < l \<and> src ! m = src ! r")
    case True
    then obtain e where e: "extend_match src l (m + 1) (r + 1) = Some e" "m + 1 \<le> e" "e \<le> l"
      "\<forall>i<e - (m + 1). src ! (r + 1 + i) = src ! (m + 1 + i)"
      using 1 by (auto simp: vec_get_def)
    have "src ! (r + i) = src ! (m + i)" if "i < e - m" for i
      using e(4) [rule_format, of "i - 1"] that True by (cases i) auto
    then show ?thesis using e True 1 by (subst extend_match.simps) (auto simp: vec_get_def)
  next
    case False
    then show ?thesis using 1 by (subst extend_match.simps) (auto simp: vec_get_def)
  qed
qed


section \<open>Lossless and bounded\<close>

text \<open>What is emitted from position \<open>anchor\<close> on: a block tail that decodes to the rest of the source.\<close>

definition tail_ok :: "bytes \<Rightarrow> nat \<Rightarrow> bytes \<Rightarrow> bool" where
  "tail_ok src anchor rest \<longleftrightarrow> rest \<noteq> []
     \<and> length rest \<le> (length src - anchor) + (length src - anchor) div 255 + 2
     \<and> (\<forall>pre max_out. length src \<le> max_out \<longrightarrow>
          lz_decode (pre @ rest) max_out (length pre) (take anchor src) = res_ok src)"

lemma length_length_ext: "length (length_ext n) \<le> n div 255 + 1" "n < 15 \<Longrightarrow> length (length_ext n) = 0"
  by (auto simp: length_ext_def length_append_length div_le_mono)

lemma tail_ok_last:
  assumes "anchor \<le> length src"
  shows "tail_ok src anchor (emit_last_literals (drop anchor src))"
proof -
  let ?l = "drop anchor src"
  have "length (emit_last_literals ?l) = 1 + length (length_ext (length ?l)) + length ?l"
    by (auto simp: emit_last_literals_def Let_def length_ext_def lpc_run_mask_def)
  moreover have "length (length_ext (length ?l)) \<le> length ?l div 255 + 1" by (rule length_length_ext)
  moreover have "lz_decode (pre @ emit_last_literals ?l) max_out (length pre) (take anchor src) = res_ok src"
    if "length src \<le> max_out" for pre max_out
    using lz_decode_last [of "take anchor src" ?l max_out pre] that assms by simp
  moreover have "emit_last_literals ?l \<noteq> []" by (simp add: emit_last_literals_def Let_def)
  ultimately show ?thesis by (simp add: tail_ok_def)
qed

lemma sequence_length:
  assumes "4 \<le> ml" "emit_sequence lits (length lits) off ml = Some s"
  shows "length s \<le> length lits + ml + length lits div 255"
proof -
  have "length s = 3 + length (length_ext (length lits)) + length lits + length (length_ext (ml - 4))"
    using assms(2) emit_sequence_bytes [OF assms(1)] by auto
  moreover have "length (length_ext (length lits)) \<le> length lits div 255 + 1" by (rule length_length_ext)
  moreover have "4 + length (length_ext (ml - 4)) \<le> ml"
  proof (cases "ml - 4 < 15")
    case False
    have "length (length_ext (ml - 4)) \<le> (ml - 4) div 255 + 1" by (rule length_length_ext)
    also have "\<dots> \<le> ml - 4" using False by linarith
    finally show ?thesis using False by simp
  qed (use assms length_length_ext(2) in auto)
  ultimately show ?thesis by linarith
qed

lemma tail_ok_match:
  assumes "tail_ok src m_end rest" "anchor \<le> ip" "ip + 4 \<le> m_end" "m_end \<le> length src" "refp < ip" "ip - refp \<le> 65535"
    "\<And>i. i < m_end - ip \<Longrightarrow> src ! (refp + i) = src ! (ip + i)"
  shows "\<exists>s. emit_sequence (take (ip - anchor) (drop anchor src)) (ip - anchor) (ip - refp) (m_end - ip) = Some s
    \<and> tail_ok src anchor (s @ rest)"
proof -
  define lits where "lits = take (ip - anchor) (drop anchor src)"
  have l: "length lits = ip - anchor" using assms(2-4) by (simp add: lits_def)
  obtain s where s: "emit_sequence lits (length lits) (ip - refp) (m_end - ip) = Some s"
    using emit_sequence_bytes [of "m_end - ip"] assms(3) by (simp add: le_diff_conv2)
  have out: "take anchor src @ lits = take ip src"
    using assms(2) take_add [of anchor "ip - anchor" src] by (simp add: lits_def)
  have copy: "copy_match (take ip src) (length (take ip src) - (ip - refp)) (m_end - ip) = Some (take m_end src)"
    using copy_match_source [of refp ip "m_end - ip" src] assms(3-7) by simp
  have "lz_decode (pre @ s @ rest) max_out (length pre) (take anchor src) = res_ok src" if "length src \<le> max_out" for pre max_out
  proof -
    have "lz_decode (pre @ s @ rest) max_out (length pre) (take anchor src)
        = lz_decode (pre @ s @ rest) max_out (length (pre @ s)) (take m_end src)"
      using assms that copy out
      by (intro lz_decode_sequence [OF s]) (simp_all add: tail_ok_def le_diff_conv2)
    also have "\<dots> = res_ok src" using assms(1) that unfolding tail_ok_def by (metis append_assoc)
    finally show ?thesis .
  qed
  moreover have "length s + length rest \<le> (length src - anchor) + (length src - anchor) div 255 + 2"
  proof -
    have "length s \<le> (ip - anchor) + (m_end - ip) + (ip - anchor) div 255"
      using sequence_length [OF _ s] assms(3) l by (simp add: le_diff_conv2)
    moreover have "length rest \<le> (length src - m_end) + (length src - m_end) div 255 + 2"
      using assms(1) by (simp add: tail_ok_def)
    moreover have "(ip - anchor) div 255 + (length src - m_end) div 255 \<le> (length src - anchor) div 255"
      using assms(2-4) by linarith
    ultimately show ?thesis using assms(2-4) by linarith
  qed
  ultimately show ?thesis using s l assms(1) unfolding lits_def tail_ok_def by auto
qed

lemma lz_encode_ok:
  assumes "table_ok table ip" "anchor \<le> ip" "anchor \<le> length src" "9 \<le> length src"
  shows "\<exists>rest. lz_encode src (length src - 5) (length src - 9) table anchor ip = Some rest \<and> tail_ok src anchor rest"
  using assms
proof (induction "length src + 1 - ip" arbitrary: table anchor ip rule: less_induct)
  case less
  show ?case
  proof (cases "length src - 9 < ip")
    case True
    then show ?thesis
      using tail_ok_last [OF less.prems(3)] less.prems(3)
      by (subst lz_encode.simps) (simp add: vec_slice_def)
  next
    case False
    then have ip: "ip + 9 \<le> length src" using less.prems(4) by simp
    then have ip4: "ip + 4 \<le> length src" by simp
    obtain r where r: "table_get table src ip = Some r" "sint r < 0 \<or> unat r < ip"
      using table_get_ok [OF less.prems(1) ip4] by blast
    obtain t where t: "table_put table src ip = Some t" "table_ok t (ip + 1)"
      using table_put_ok [OF less.prems(1) ip4, of "ip + 1"] by auto
    obtain m where m: "match_at src r ip = Some m" "\<And>refp. m = Some refp \<Longrightarrow>
        refp < ip \<and> ip - refp \<le> 65535 \<and> (\<forall>k<4. src ! (refp + k) = src ! (ip + k))"
      using match_at_ok [OF r(2) ip4] by blast
    show ?thesis
    proof (cases m)
      case None
      have "\<exists>rest. lz_encode src (length src - 5) (length src - 9) t anchor (ip + 1) = Some rest \<and> tail_ok src anchor rest"
        using less.hyps [of "ip + 1" t anchor] less.prems t(2) ip by simp
      then show ?thesis using False r t m None by (subst lz_encode.simps) simp
    next
      case (Some refp)
      note ref = m(2) [OF Some]
      have lim: "ip + 4 \<le> length src - 5" using ip by linarith
      obtain e where e: "extend_match src (length src - 5) (ip + 4) (refp + 4) = Some e" "ip + 4 \<le> e" "e \<le> length src - 5"
        "\<forall>i<e - (ip + 4). src ! (refp + 4 + i) = src ! (ip + 4 + i)"
        using extend_match_ok [of "refp + 4" "ip + 4" "length src - 5" src] ref lim by auto
      have same: "src ! (refp + i) = src ! (ip + i)" if "i < e - ip" for i
        using e(4) [rule_format, of "i - 4"] that ref by (cases "i < 4") auto
      obtain t' where t': "(if 1 \<le> e \<and> e - 1 \<le> length src - 9 then table_put t src (e - 1) else Some t) = Some t'" "table_ok t' e"
      proof (cases "e - 1 \<le> length src - 9")
        case True
        then have "e - 1 + 4 \<le> length src" using less.prems(4) by linarith
        then show ?thesis using True that table_put_ok [OF t(2), of "e - 1" src e] e(2) by auto
      next
        case False
        have "table_ok t e" using t(2) e(2) by (auto simp: table_ok_def list_all_iff)
        then show ?thesis using that False by simp
      qed
      obtain rest where rest: "lz_encode src (length src - 5) (length src - 9) t' e e = Some rest" "tail_ok src e rest"
      proof -
        have "length src + 1 - e < length src + 1 - ip" "e \<le> length src" using e ip by linarith+
        then show ?thesis using that less.hyps [of e t' e] less.prems(4) t'(2) by auto
      qed
      have e_len: "e \<le> length src" using e(3) by linarith
      obtain s where s: "emit_sequence (take (ip - anchor) (drop anchor src)) (ip - anchor) (ip - refp) (e - ip) = Some s"
        "tail_ok src anchor (s @ rest)"
        using tail_ok_match [OF rest(2) less.prems(2) e(2) _ _ _ same] ref e_len by auto
      show ?thesis
        using False r t m Some e rest s t' less.prems ip
        by (subst lz_encode.simps) (simp add: lpc_min_match_def nat_sub_def vec_slice_def)
    qed
  qed
qed

lemma compress_tail:
  "\<exists>c. lpc_compress src = Some c \<and> tail_ok src 0 c"
proof (cases "length src < lpc_min_length")
  case True
  then show ?thesis using tail_ok_last [of 0 src] by (simp add: lpc_compress_def)
next
  case False
  then have len: "10 \<le> length src" by (simp add: lpc_consts)
  have "table_ok (replicate lpc_hash_table_size (- 1)) 0"
    by (simp add: table_ok_def list_all_iff lpc_hash_table_size_def lpc_hash_log_def)
  then obtain t where t: "table_put (replicate lpc_hash_table_size (- 1)) src 0 = Some t" "table_ok t 1"
    using table_put_ok [of _ 0 0 src 1] len by fastforce
  then obtain c where "lz_encode src (length src - 5) (length src - 9) t 0 1 = Some c" "tail_ok src 0 c"
    using lz_encode_ok [of t 1 0 src] len by auto
  then show ?thesis using False len t by (simp add: lpc_compress_def nat_sub_def lpc_consts)
qed

section \<open>Any block\<close>

lemma read_length_loop_within: "read_length_loop src sp t a = Some (t', a') \<Longrightarrow> sp + (a' - a) \<le> length src \<and> a < a'"
  using read_length_loop_advances by blast

lemma lpc_length_within:
  "lpc_length src nibble c sp = res_ok (l, sp') \<Longrightarrow> sp \<le> length src \<Longrightarrow> sp \<le> sp' \<and> sp' \<le> length src"
  "returns (lpc_length src nibble c sp)"
  by (auto simp: lpc_length_def read_length_def dest: read_length_loop_within split: if_splits option.splits)

definition within :: "nat \<Rightarrow> (lpc_error, bytes) result \<Rightarrow> bool" where
  "within max_out r \<longleftrightarrow> (case r of None \<Rightarrow> False | Some (Inl e) \<Rightarrow> True | Some (Inr b) \<Rightarrow> length b \<le> max_out)"

lemma within_simps [simp]: "within n (res_ok b) \<longleftrightarrow> length b \<le> n" "within n (res_err e)"
  by (simp_all add: within_def res_ok_def res_err_def)

lemma within_bind: "returns m \<Longrightarrow> (\<And>x. m = res_ok x \<Longrightarrow> within n (f x)) \<Longrightarrow> within n (res_bind m f)"
  by (erule returnsE) simp_all

lemma copy_match_returns: "pos < length out \<Longrightarrow> returns (res_lift (copy_match out pos k))"
  using copy_match_total by (metis returns_lift option.distinct(1))

lemma copy_match_length: "copy_match out pos k = Some x \<Longrightarrow> pos < length out \<Longrightarrow> length x = length out + k"
  using copy_match_total [of pos out k] by auto

lemma lz_decode_any: "length out \<le> max_out \<Longrightarrow> sp \<le> length src \<Longrightarrow> within max_out (lz_decode src max_out sp out)"
proof (induction "length src - sp" arbitrary: sp out rule: less_induct)
  case less
  have loop: "within max_out (lz_decode src max_out sp3 out3)"
    if "Suc (Suc (b + a)) \<le> sp3" "Suc sp \<le> b" "sp3 \<le> length src" "copy_match out' pos ml = Some out3" "pos < length out'"
      "length out' + ml \<le> max_out" for b a sp3 out' pos ml out3
    using less.hyps [of sp3 out3] copy_match_length [OF that(4,5)] that by simp
  show ?case
    apply (subst lz_decode.simps)
    apply (use less.prems in \<open>auto simp: Let_def nat_sub_def returns_reads lpc_length_within(2) vec_slice_def not_less
        intro!: within_bind dest!: lpc_length_within(1)\<close>)
         apply linarith+
     apply (rule copy_match_returns, simp)
    apply (erule (3) loop; simp)
    done
qed

section \<open>Properties\<close>

text \<open>C39: Compression is lossless. For every input the encoder returns, without a panic, a block no longer than
  announced, which the decoder turns back into the input under every output bound that admits it. On arbitrary bytes
  the decoder returns and never yields more output than allowed.\<close>

theorem lpc_lossless:
  "(\<exists>c. lpc_compress src = Some c \<and> length c \<le> compress_bound (length src)
      \<and> lpc_decompress c (length src + slack) = res_ok src)
   \<and> (case lpc_decompress block max_out of None \<Rightarrow> False | Some (Inl e) \<Rightarrow> True | Some (Inr b) \<Rightarrow> length b \<le> max_out)"
proof -
  obtain c where c: "lpc_compress src = Some c" "tail_ok src 0 c" using compress_tail by blast
  then have "length c \<le> compress_bound (length src)" by (simp add: tail_ok_def compress_bound_def)
  moreover have "\<forall>pre max_out. length src \<le> max_out \<longrightarrow>
      lz_decode (pre @ c) max_out (length pre) (take 0 src) = res_ok src"
    using c(2) unfolding tail_ok_def by blast
  from this [rule_format, of "length src + slack" "[]"] have "lpc_decompress c (length src + slack) = res_ok src"
    by (simp add: lpc_decompress_def)
  ultimately show ?thesis
    using c lz_decode_any [of "[]" max_out 0 block] by (simp add: lpc_decompress_def within_def)
qed

end
