(* ===== verification/Psk.thy ===== *)
theory Psk
  imports Fallible
begin

text \<open>
  Pre-shared-key payload encryption (\<^verbatim>\<open>rist-codec/src/crypto.rs\<close>): key derivation from passphrase
  and nonce, the encryptor with its key rotation, the decryptor with its live and its announced key. The two
  third-party primitives, PBKDF2 and the AES counter-mode keystream, are fields of the parameter
  \<open>psk_lib\<close>; the draws of the random generator are an argument, \<open>None\<close> for a failed draw.
\<close>

section \<open>Parameters, constants and errors\<close>

datatype aes_key_bits = Aes128 | Aes192 | Aes256

record psk_lib =
  pl_pbkdf2 :: "bytes \<Rightarrow> bytes \<Rightarrow> nat \<Rightarrow> nat \<Rightarrow> bytes"
  pl_aes_ctr :: "aes_key_bits \<Rightarrow> bytes \<Rightarrow> bytes \<Rightarrow> bytes \<Rightarrow> bytes"

datatype crypto_error =
    Crypto_Empty_Password
  | Crypto_Invalid_Nonce_Length
  | Crypto_Zero_Nonce
  | Crypto_Key_Reuse_Exhausted
  | Crypto_Csprng
  | Crypto_Auth_Failed
  | Crypto_Unknown_Psk_Mode
  | Crypto_Cha_Cha_Key_Size
  | Crypto_Iv_Exhausted

definition pbkdf2_iterations :: nat where "pbkdf2_iterations = 1024"
definition psk_nonce_size :: nat where "psk_nonce_size = 4"
definition psk_iv_size :: nat where "psk_iv_size = 16"
definition max_password_len :: nat where "max_password_len = 127"
definition nonce_b_bit_mask :: u8 where "nonce_b_bit_mask = push_bit 7 1"
definition u32_limit :: nat where "u32_limit = 4294967295"

fun aes_bytes :: "aes_key_bits \<Rightarrow> nat" where
  "aes_bytes Aes128 = 16"
| "aes_bytes Aes192 = 24"
| "aes_bytes Aes256 = 32"

fun aes_bits :: "aes_key_bits \<Rightarrow> u16" where
  "aes_bits Aes128 = 128"
| "aes_bits Aes192 = 192"
| "aes_bits Aes256 = 256"

definition aes_from_bits :: "u16 \<Rightarrow> aes_key_bits option" where
  "aes_from_bits bits =
     (if bits = 128 then Some Aes128 else if bits = 192 then Some Aes192 else if bits = 256 then Some Aes256 else None)"

definition aes_from_h_bit :: "bool \<Rightarrow> aes_key_bits" where
  "aes_from_h_bit h = (if h then Aes256 else Aes128)"

section \<open>Key derivation\<close>

definition bound_password :: "bytes \<Rightarrow> bytes" where
  "bound_password password = take max_password_len (takeWhile (\<lambda>b. b \<noteq> 0) password)"

definition derive_key :: "psk_lib \<Rightarrow> bytes \<Rightarrow> bytes \<Rightarrow> aes_key_bits \<Rightarrow> crypto_error + bytes" where
  "derive_key L password nonce4 bits =
     (if password = [] then Inl Crypto_Empty_Password
      else if length nonce4 \<noteq> psk_nonce_size then Inl Crypto_Invalid_Nonce_Length
      else Inr (pl_pbkdf2 L (bound_password password) nonce4 pbkdf2_iterations (aes_bytes bits)))"

definition derive_key_raw :: "psk_lib \<Rightarrow> bytes \<Rightarrow> bytes \<Rightarrow> aes_key_bits \<Rightarrow> crypto_error + bytes" where
  "derive_key_raw L password nonce4 bits =
     (if password = [] then Inl Crypto_Empty_Password
      else if length nonce4 \<noteq> psk_nonce_size then Inl Crypto_Invalid_Nonce_Length
      else Inr (pl_pbkdf2 L password nonce4 pbkdf2_iterations (aes_bytes bits)))"

definition derive_dispatch :: "psk_lib \<Rightarrow> bool \<Rightarrow> bytes \<Rightarrow> bytes \<Rightarrow> aes_key_bits \<Rightarrow> crypto_error + bytes" where
  "derive_dispatch L raw password nonce4 bits =
     (if raw then derive_key_raw L password nonce4 bits else derive_key L password nonce4 bits)"

definition build_iv :: "u32 \<Rightarrow> bytes" where
  "build_iv seq = be32 seq @ replicate (psk_iv_size - 4) 0"

text \<open>The cipher is chosen by the length of the key.\<close>

definition aes_ctr_apply :: "psk_lib \<Rightarrow> bytes \<Rightarrow> bytes \<Rightarrow> bytes \<Rightarrow> bytes" where
  "aes_ctr_apply L key iv buf =
     pl_aes_ctr L (if length key = 32 then Aes256 else if length key = 24 then Aes192 else Aes128) key iv buf"

text \<open>Whether the four bytes are zero, as a big-endian number.\<close>

definition is_zero_nonce :: "bytes \<Rightarrow> bool" where
  "is_zero_nonce nonce \<longleftrightarrow> get_be32 nonce 0 = Some 0"

text \<open>One-shot decryption.\<close>

definition psk_decrypt :: "psk_lib \<Rightarrow> bytes \<Rightarrow> aes_key_bits \<Rightarrow> bytes \<Rightarrow> u32 \<Rightarrow> bytes \<Rightarrow> crypto_error + bytes" where
  "psk_decrypt L password bits nonce seq src =
     (if is_zero_nonce nonce then Inl Crypto_Zero_Nonce
      else case derive_key L password nonce bits of
        Inl e \<Rightarrow> Inl e
      | Inr key \<Rightarrow> Inr (aes_ctr_apply L key (build_iv seq) src))"

section \<open>Nonces\<close>

text \<open>Clearing bit 7 of the first byte, and setting it for the odd passphrase.\<close>

fun mark_nonce :: "bool \<Rightarrow> bytes \<Rightarrow> bytes" where
  "mark_nonce oddp [] = []"
| "mark_nonce oddp (b # bs) =
     (let b = b AND NOT nonce_b_bit_mask in (if oddp then b OR nonce_b_bit_mask else b) # bs)"

text \<open>The loop over the remaining attempts.\<close>

fun draw_nonce :: "bool \<Rightarrow> bytes option list \<Rightarrow> crypto_error + bytes" where
  "draw_nonce oddp [] = Inl Crypto_Csprng"
| "draw_nonce oddp (None # ds) = Inl Crypto_Csprng"
| "draw_nonce oddp (Some raw # ds) = (if \<not> is_zero_nonce raw then Inr (mark_nonce oddp raw) else draw_nonce oddp ds)"

definition generate_nonce :: "bool \<Rightarrow> (nat \<Rightarrow> bytes option) \<Rightarrow> crypto_error + bytes" where
  "generate_nonce oddp draws = draw_nonce oddp (map draws [0..<8])"

section \<open>The encryptor\<close>

record psk_key =
  pk_password :: bytes
  pk_bits :: aes_key_bits
  pk_key_rotation :: u32
  pk_odd :: bool
  pk_raw :: bool
  pk_nonce :: bytes
  pk_key :: bytes
  pk_used_times :: nat

text \<open>\<^verbatim>\<open>rekey\<close>: on an error the nonce may already be the new one.\<close>

definition psk_rekey :: "psk_lib \<Rightarrow> (nat \<Rightarrow> bytes option) \<Rightarrow> psk_key \<Rightarrow> psk_key \<times> crypto_error option" where
  "psk_rekey L draws k =
     (case generate_nonce (pk_odd k) draws of
        Inl e \<Rightarrow> (k, Some e)
      | Inr nonce \<Rightarrow>
          let k = k\<lparr>pk_nonce := nonce\<rparr> in
          case derive_dispatch L (pk_raw k) (pk_password k) nonce (pk_bits k) of
            Inl e \<Rightarrow> (k, Some e)
          | Inr key \<Rightarrow> (k\<lparr>pk_key := key, pk_used_times := 0\<rparr>, None))"

definition psk_key_new_inner ::
    "psk_lib \<Rightarrow> (nat \<Rightarrow> bytes option) \<Rightarrow> bytes \<Rightarrow> aes_key_bits \<Rightarrow> u32 \<Rightarrow> bool \<Rightarrow> bool \<Rightarrow> crypto_error + psk_key" where
  "psk_key_new_inner L draws password bits key_rotation oddp raw =
     (if password = [] then Inl Crypto_Empty_Password
      else
        case psk_rekey L draws \<lparr>pk_password = password, pk_bits = bits, pk_key_rotation = key_rotation, pk_odd = oddp,
            pk_raw = raw, pk_nonce = [0, 0, 0, 0], pk_key = [], pk_used_times = 0\<rparr> of
          (k, None) \<Rightarrow> Inr k
        | (_, Some e) \<Rightarrow> Inl e)"

definition psk_key_new ::
    "psk_lib \<Rightarrow> (nat \<Rightarrow> bytes option) \<Rightarrow> bytes \<Rightarrow> aes_key_bits \<Rightarrow> u32 \<Rightarrow> bool \<Rightarrow> crypto_error + psk_key" where
  "psk_key_new L draws password bits key_rotation oddp = psk_key_new_inner L draws password bits key_rotation oddp False"

definition psk_key_new_raw ::
    "psk_lib \<Rightarrow> (nat \<Rightarrow> bytes option) \<Rightarrow> bytes \<Rightarrow> aes_key_bits \<Rightarrow> u32 \<Rightarrow> bool \<Rightarrow> crypto_error + psk_key" where
  "psk_key_new_raw L draws password bits key_rotation oddp = psk_key_new_inner L draws password bits key_rotation oddp True"

definition rotate_due :: "psk_key \<Rightarrow> bool" where
  "rotate_due k \<longleftrightarrow>
     pk_used_times k = u32_limit \<or> (0 < pk_key_rotation k \<and> unat (pk_key_rotation k) \<le> pk_used_times k)"

definition psk_encrypt ::
    "psk_lib \<Rightarrow> (nat \<Rightarrow> bytes option) \<Rightarrow> u32 \<Rightarrow> bytes \<Rightarrow> psk_key \<Rightarrow> psk_key \<times> (crypto_error + bytes)" where
  "psk_encrypt L draws seq plaintext k =
     (let (k, err) = (if rotate_due k then psk_rekey L draws k else (k, None)) in
      case err of
        Some e \<Rightarrow> (k, Inl e)
      | None \<Rightarrow> (k\<lparr>pk_used_times := pk_used_times k + 1\<rparr>, Inr (aes_ctr_apply L (pk_key k) (build_iv seq) plaintext)))"

section \<open>The decryptor\<close>

record decryptor =
  dc_password :: bytes
  dc_bits :: aes_key_bits
  dc_raw :: bool
  dc_nonce :: bytes
  dc_key :: bytes
  dc_has_nonce :: bool
  dc_used_times :: nat
  dc_next_nonce :: bytes
  dc_next_bits :: aes_key_bits
  dc_next_key :: bytes
  dc_has_next :: bool

definition decryptor_new_inner :: "bytes \<Rightarrow> aes_key_bits \<Rightarrow> bool \<Rightarrow> crypto_error + decryptor" where
  "decryptor_new_inner password bits raw =
     (if password = [] then Inl Crypto_Empty_Password
      else Inr \<lparr>dc_password = password, dc_bits = bits, dc_raw = raw, dc_nonce = [0, 0, 0, 0], dc_key = [],
        dc_has_nonce = False, dc_used_times = 0, dc_next_nonce = [0, 0, 0, 0], dc_next_bits = bits, dc_next_key = [],
        dc_has_next = False\<rparr>)"

definition decryptor_new :: "bytes \<Rightarrow> aes_key_bits \<Rightarrow> crypto_error + decryptor" where
  "decryptor_new password bits = decryptor_new_inner password bits False"

definition decryptor_new_raw :: "bytes \<Rightarrow> aes_key_bits \<Rightarrow> crypto_error + decryptor" where
  "decryptor_new_raw password bits = decryptor_new_inner password bits True"

definition dec_precompute :: "psk_lib \<Rightarrow> bytes \<Rightarrow> aes_key_bits \<Rightarrow> decryptor \<Rightarrow> decryptor" where
  "dec_precompute L nonce bits d =
     (if is_zero_nonce nonce \<or> (dc_has_nonce d \<and> nonce = dc_nonce d \<and> bits = dc_bits d)
        \<or> (dc_has_next d \<and> nonce = dc_next_nonce d \<and> bits = dc_next_bits d)
      then d
      else case derive_dispatch L (dc_raw d) (dc_password d) nonce bits of
        Inl e \<Rightarrow> d
      | Inr key \<Rightarrow> d\<lparr>dc_next_nonce := nonce, dc_next_bits := bits, dc_next_key := key, dc_has_next := True\<rparr>)"

definition set_key_bits :: "aes_key_bits \<Rightarrow> decryptor \<Rightarrow> decryptor" where
  "set_key_bits bits d =
     (if bits \<noteq> dc_bits d then d\<lparr>dc_bits := bits, dc_has_nonce := False, dc_has_next := False\<rparr> else d)"

text \<open>The key for a changed nonce: promoted, or derived.\<close>

definition dec_rekey :: "psk_lib \<Rightarrow> bytes \<Rightarrow> decryptor \<Rightarrow> crypto_error + decryptor" where
  "dec_rekey L nonce d =
     (let keyed = (if dc_has_next d \<and> nonce = dc_next_nonce d \<and> dc_bits d = dc_next_bits d
        then Inr (d\<lparr>dc_key := dc_next_key d, dc_next_key := [], dc_has_next := False\<rparr>)
        else case derive_dispatch L (dc_raw d) (dc_password d) nonce (dc_bits d) of
          Inl e \<Rightarrow> Inl e
        | Inr key \<Rightarrow> Inr (d\<lparr>dc_key := key\<rparr>))
      in case keyed of
        Inl e \<Rightarrow> Inl e
      | Inr d \<Rightarrow> Inr (d\<lparr>dc_nonce := nonce, dc_has_nonce := True, dc_used_times := 0\<rparr>))"

definition dec_decrypt :: "psk_lib \<Rightarrow> bytes \<Rightarrow> u32 \<Rightarrow> bytes \<Rightarrow> decryptor \<Rightarrow> decryptor \<times> (crypto_error + bytes)" where
  "dec_decrypt L nonce seq src d =
     (if is_zero_nonce nonce then (d, Inl Crypto_Zero_Nonce)
      else
        case (if \<not> dc_has_nonce d \<or> nonce \<noteq> dc_nonce d then dec_rekey L nonce d else Inr d) of
          Inl e \<Rightarrow> (d, Inl e)
        | Inr d \<Rightarrow>
            if u32_limit < dc_used_times d then (d, Inl Crypto_Key_Reuse_Exhausted)
            else (d\<lparr>dc_used_times := dc_used_times d + 1\<rparr>, Inr (aes_ctr_apply L (dc_key d) (build_iv seq) src)))"

end
