(* ===== verification/Psk_Props.thy ===== *)
theory Psk_Props
  imports Psk Interfaces
begin

text \<open>
  What the pre-shared-key layer guarantees: the caching decryptor gives for every packet what one-shot decryption
  gives, whatever it was fed before; a stream is recovered under loss, reordering and duplication; no
  initialisation vector is used twice under one key; and where the zero nonce slips through.
\<close>

section \<open>Derivation\<close>

abbreviation psk_kdf :: "psk_lib \<Rightarrow> bool \<Rightarrow> bytes \<Rightarrow> bytes \<Rightarrow> aes_key_bits \<Rightarrow> bytes" where
  "psk_kdf L raw password nonce bits \<equiv>
     pl_pbkdf2 L (if raw then password else bound_password password) nonce pbkdf2_iterations (aes_bytes bits)"

lemma derive_dispatch_ok:
  "password \<noteq> [] \<Longrightarrow> length nonce = 4 \<Longrightarrow> derive_dispatch L raw password nonce bits = Inr (psk_kdf L raw password nonce bits)"
  by (simp add: derive_dispatch_def derive_key_raw_def derive_key_def psk_nonce_size_def)

lemma derive_key_ok:
  "password \<noteq> [] \<Longrightarrow> length nonce = 4 \<Longrightarrow> derive_key L password nonce bits = Inr (psk_kdf L False password nonce bits)"
  by (simp add: derive_key_def psk_nonce_size_def)

section \<open>The decryptor over a history of inputs\<close>

datatype dec_input =
    Dec_Announce bytes aes_key_bits
  | Dec_Key_Bits aes_key_bits
  | Dec_Packet bytes u32 bytes

fun dec_step :: "psk_lib \<Rightarrow> dec_input \<Rightarrow> decryptor \<Rightarrow> decryptor" where
  "dec_step L (Dec_Announce nonce bits) d = dec_precompute L nonce bits d"
| "dec_step L (Dec_Key_Bits bits) d = set_key_bits bits d"
| "dec_step L (Dec_Packet nonce seq src) d = fst (dec_decrypt L nonce seq src d)"

definition dec_run :: "psk_lib \<Rightarrow> dec_input list \<Rightarrow> decryptor \<Rightarrow> decryptor" where
  "dec_run L is d = fold (dec_step L) is d"

text \<open>A nonce is an array of four bytes.\<close>

fun dec_input_ok :: "dec_input \<Rightarrow> bool" where
  "dec_input_ok (Dec_Announce nonce bits) = (length nonce = 4)"
| "dec_input_ok (Dec_Key_Bits bits) = True"
| "dec_input_ok (Dec_Packet nonce seq src) = (length nonce = 4)"

text \<open>The key size in force after a history.\<close>

fun bits_in_force :: "aes_key_bits \<Rightarrow> dec_input list \<Rightarrow> aes_key_bits" where
  "bits_in_force bits [] = bits"
| "bits_in_force bits (Dec_Key_Bits b # is) = bits_in_force b is"
| "bits_in_force bits (_ # is) = bits_in_force bits is"

text \<open>Both slots hold the key of the nonce and size they name.\<close>

definition dec_inv :: "psk_lib \<Rightarrow> bool \<Rightarrow> bytes \<Rightarrow> decryptor \<Rightarrow> bool" where
  "dec_inv L raw password d \<longleftrightarrow>
     dc_password d = password \<and> dc_raw d = raw \<and> password \<noteq> []
     \<and> (dc_has_nonce d \<longrightarrow> dc_key d = psk_kdf L raw password (dc_nonce d) (dc_bits d))
     \<and> (dc_has_next d \<longrightarrow> dc_next_key d = psk_kdf L raw password (dc_next_nonce d) (dc_next_bits d))"

lemma dec_inv_new: "decryptor_new_inner password bits raw = Inr d \<Longrightarrow> dec_inv L raw password d"
  by (auto simp: decryptor_new_inner_def dec_inv_def split: if_splits)

lemma dec_inv_precompute:
  assumes "dec_inv L raw password d" "length nonce = 4"
  shows "dec_inv L raw password (dec_precompute L nonce bits d)"
    and "dc_bits (dec_precompute L nonce bits d) = dc_bits d"
    and "dc_used_times (dec_precompute L nonce bits d) = dc_used_times d"
  using assms by (auto simp: dec_precompute_def dec_inv_def derive_dispatch_ok)

lemma dec_inv_set_bits:
  assumes "dec_inv L raw password d"
  shows "dec_inv L raw password (set_key_bits bits d)" and "dc_bits (set_key_bits bits d) = bits"
    and "dc_used_times (set_key_bits bits d) = dc_used_times d"
  using assms by (auto simp: set_key_bits_def dec_inv_def)

lemma dec_rekey_ok:
  assumes "dec_inv L raw password d" "length nonce = 4"
  shows "\<exists>d'. dec_rekey L nonce d = Inr d' \<and> dec_inv L raw password d' \<and> dc_bits d' = dc_bits d
    \<and> dc_key d' = psk_kdf L raw password nonce (dc_bits d) \<and> dc_used_times d' = 0"
proof (cases "dc_has_next d \<and> nonce = dc_next_nonce d \<and> dc_bits d = dc_next_bits d")
  case True
  with assms show ?thesis by (auto simp: dec_rekey_def dec_inv_def)
next
  case False
  have "derive_dispatch L (dc_raw d) (dc_password d) nonce (dc_bits d) = Inr (psk_kdf L raw password nonce (dc_bits d))"
    using assms by (simp add: dec_inv_def derive_dispatch_ok)
  with False assms(1) show ?thesis by (simp add: dec_rekey_def dec_inv_def)
qed

text \<open>One packet: the state stays consistent and the result is the keystream of the derived key.\<close>

lemma dec_decrypt_spec:
  assumes "dec_inv L raw password d" "length nonce = 4"
  shows "dec_inv L raw password (fst (dec_decrypt L nonce seq src d))"
    and "dc_bits (fst (dec_decrypt L nonce seq src d)) = dc_bits d"
    and "dc_used_times (fst (dec_decrypt L nonce seq src d)) \<le> dc_used_times d + 1"
    and "dc_used_times d \<le> u32_limit \<Longrightarrow> \<not> is_zero_nonce nonce \<Longrightarrow>
      snd (dec_decrypt L nonce seq src d) =
        Inr (aes_ctr_apply L (psk_kdf L raw password nonce (dc_bits d)) (build_iv seq) src)"
proof -
  obtain d' where d': "dec_rekey L nonce d = Inr d'" "dec_inv L raw password d'" "dc_bits d' = dc_bits d"
    "dc_key d' = psk_kdf L raw password nonce (dc_bits d)" "dc_used_times d' = 0"
    using dec_rekey_ok [OF assms] by blast
  note facts = dec_decrypt_def d' u32_limit_def
  show "dec_inv L raw password (fst (dec_decrypt L nonce seq src d))"
    using assms d'(2) by (auto simp: facts(1-2) facts(4-) dec_inv_def)
  show "dc_bits (fst (dec_decrypt L nonce seq src d)) = dc_bits d"
    by (simp add: facts)
  show "dc_used_times (fst (dec_decrypt L nonce seq src d)) \<le> dc_used_times d + 1"
    by (simp add: facts)
  show "snd (dec_decrypt L nonce seq src d) =
        Inr (aes_ctr_apply L (psk_kdf L raw password nonce (dc_bits d)) (build_iv seq) src)"
    if "dc_used_times d \<le> u32_limit" "\<not> is_zero_nonce nonce"
    using that assms(1) by (auto simp: facts dec_inv_def)
qed

lemma dec_step_inv:
  assumes "dec_inv L raw password d" "dec_input_ok i"
  shows "dec_inv L raw password (dec_step L i d) \<and> dc_bits (dec_step L i d) = bits_in_force (dc_bits d) [i]
    \<and> dc_used_times (dec_step L i d) \<le> dc_used_times d + 1"
  using assms dec_decrypt_spec(3) [of L raw password d]
  by (cases i) (simp_all add: dec_inv_precompute dec_inv_set_bits dec_decrypt_spec(1,2))

lemma bits_in_force_step: "bits_in_force bits (i # is) = bits_in_force (bits_in_force bits [i]) is"
  by (cases i) simp_all

lemma dec_run_inv:
  assumes "dec_inv L raw password d" "list_all dec_input_ok is"
  shows "dec_inv L raw password (dec_run L is d) \<and> dc_bits (dec_run L is d) = bits_in_force (dc_bits d) is
    \<and> dc_used_times (dec_run L is d) \<le> dc_used_times d + length is"
  using assms
proof (induction "is" arbitrary: d)
  case Nil
  then show ?case by (simp add: dec_run_def)
next
  case (Cons i "is")
  have step: "dec_inv L raw password (dec_step L i d)" "dc_bits (dec_step L i d) = bits_in_force (dc_bits d) [i]"
    "dc_used_times (dec_step L i d) \<le> dc_used_times d + 1"
    using dec_step_inv Cons.prems by auto
  have run: "dec_run L (i # is) d = dec_run L is (dec_step L i d)"
    by (simp add: dec_run_def)
  show ?case
    using Cons.IH [OF step(1)] Cons.prems(2) step(2,3)
    by (simp add: run bits_in_force_step [of _ i "is"])
qed

lemma decryptor_new_fields:
  "decryptor_new_inner password bits raw = Inr d \<Longrightarrow> dc_bits d = bits \<and> dc_used_times d = 0"
  by (auto simp: decryptor_new_inner_def split: if_splits)

text \<open>The result for a packet after any history shorter than the reuse limit.\<close>

lemma dec_after_history:
  assumes "decryptor_new_inner password bits raw = Inr d" "list_all dec_input_ok is" "length is \<le> u32_limit"
    "length nonce = 4" "\<not> is_zero_nonce nonce"
  shows "snd (dec_decrypt L nonce seq src (dec_run L is d)) =
      Inr (aes_ctr_apply L (psk_kdf L raw password nonce (bits_in_force bits is)) (build_iv seq) src)"
proof -
  note run = dec_run_inv [OF dec_inv_new [OF assms(1)] assms(2)]
  note new = decryptor_new_fields [OF assms(1)]
  show ?thesis
    using dec_decrypt_spec(4) [of L raw password "dec_run L is d" nonce seq src] run [of L] new assms(3-5) by simp
qed

lemma decryptor_new_nonempty: "decryptor_new_inner password bits raw = Inr d \<Longrightarrow> password \<noteq> []"
  by (auto simp: decryptor_new_inner_def)

section \<open>The encryptor over a stream\<close>

text \<open>The nonces that are drawn are arrays of four bytes.\<close>

definition draws_ok :: "(nat \<Rightarrow> bytes option) \<Rightarrow> bool" where
  "draws_ok draws \<longleftrightarrow> list_all (\<lambda>i. case draws i of None \<Rightarrow> True | Some raw \<Rightarrow> length raw = 4) [0..<8]"

text \<open>No draw is the marker bit alone.\<close>

definition draws_marked :: "(nat \<Rightarrow> bytes option) \<Rightarrow> bool" where
  "draws_marked draws \<longleftrightarrow> list_all (\<lambda>i. draws i \<noteq> Some [0x80, 0, 0, 0]) [0..<8]"

fun psk_send ::
    "psk_lib \<Rightarrow> ((nat \<Rightarrow> bytes option) \<times> u32 \<times> bytes) list \<Rightarrow> psk_key \<Rightarrow> (crypto_error + bytes \<times> u32 \<times> bytes) list" where
  "psk_send L [] k = []"
| "psk_send L ((draws, seq, plain) # xs) k =
     (case psk_encrypt L draws seq plain k of
        (k, Inl e) \<Rightarrow> Inl e # psk_send L xs k
      | (k, Inr ct) \<Rightarrow> Inr (pk_nonce k, seq, ct) # psk_send L xs k)"

lemma length4: "length xs = 4 \<longleftrightarrow> (\<exists>a b c d. xs = [a, b, c, d])"
  by (auto simp: numeral_eq_Suc length_Suc_conv)

lemma zero_nonce_iff: "is_zero_nonce [a, b, c, d] \<longleftrightarrow> a = 0 \<and> b = 0 \<and> c = 0 \<and> d = (0 :: u8)"
proof
  assume "is_zero_nonce [a, b, c, d]"
  then have "be32 0 = [a, b, c, d]"
    using get_be32_bytes(2) [of "[a, b, c, d]" 0 0] by (simp add: is_zero_nonce_def)
  then show "a = 0 \<and> b = 0 \<and> c = 0 \<and> d = 0"
    by (simp add: be32_def)
qed (simp add: is_zero_nonce_def get_be32_def of_be32_def)

lemma marker_bit: "n < 8 \<Longrightarrow> bit nonce_b_bit_mask n \<longleftrightarrow> n = 7"
  by (simp add: nonce_b_bit_mask_def bit_push_bit_iff bit_1_iff del: push_bit_of_1) auto

lemma unmark_zero: "b AND NOT nonce_b_bit_mask = 0 \<Longrightarrow> b = 0 \<or> b = (0x80 :: u8)"
proof -
  assume z: "b AND NOT nonce_b_bit_mask = 0"
  have low: "\<not> bit b n" if "n < 7" for n
  proof -
    have "\<not> bit (b AND NOT nonce_b_bit_mask) n" by (simp add: z)
    with that show ?thesis by (simp add: bit_and_iff bit_not_iff marker_bit)
  qed
  have eq: "b = (if bit b 7 then nonce_b_bit_mask else 0)"
  proof (rule bit_word_eqI)
    fix n assume "n < LENGTH(8)"
    then consider "n < 7" | "n = 7" by fastforce
    then show "bit b n = bit (if bit b 7 then nonce_b_bit_mask else 0) n"
      using low by cases (auto simp: marker_bit)
  qed
  show ?thesis
  proof (cases "bit b 7")
    case True
    with eq have "b = nonce_b_bit_mask" by simp
    then show ?thesis by (simp add: nonce_b_bit_mask_def)
  next
    case False
    with eq show ?thesis by simp
  qed
qed

lemma mark_nonzero: "b OR nonce_b_bit_mask \<noteq> (0 :: u8)"
proof
  assume "b OR nonce_b_bit_mask = 0"
  then have "\<not> bit (b OR nonce_b_bit_mask) 7" by simp
  then show False by (simp add: nonce_b_bit_mask_def bit_simps)
qed

lemma length_mark_nonce [simp]: "length (mark_nonce oddp raw) = length raw"
  by (cases raw) (simp_all add: Let_def)

lemma marked_nonce_ok:
  assumes "length raw = 4" "\<not> is_zero_nonce raw" "oddp \<or> raw \<noteq> [0x80, 0, 0, 0]"
  shows "\<not> is_zero_nonce (mark_nonce oddp raw)"
  using assms mark_nonzero unmark_zero [of "hd raw"] by (auto simp: length4 Let_def zero_nonce_iff split: if_splits)

lemma draw_nonce_cases:
  assumes "list_all (\<lambda>d. case d of None \<Rightarrow> True | Some raw \<Rightarrow> length raw = 4) ds" "oddp \<or> list_all (\<lambda>d. d \<noteq> Some [0x80, 0, 0, 0]) ds"
  shows "case draw_nonce oddp ds of Inl e \<Rightarrow> e = Crypto_Csprng | Inr nonce \<Rightarrow> length nonce = 4 \<and> \<not> is_zero_nonce nonce"
  using assms
proof (induction oddp ds rule: draw_nonce.induct)
  case (3 oddp raw ds)
  then show ?case using marked_nonce_ok [of raw oddp] by auto
qed auto

lemma generate_nonce_cases:
  assumes "draws_ok draws" "oddp \<or> draws_marked draws"
  obtains "generate_nonce oddp draws = Inl Crypto_Csprng"
  | nonce where "generate_nonce oddp draws = Inr nonce" "length nonce = 4" "\<not> is_zero_nonce nonce"
  using draw_nonce_cases [of "map draws [0..<8]" oddp] assms
  by (cases "generate_nonce oddp draws")
    (auto simp: generate_nonce_def draws_ok_def draws_marked_def list_all_iff)

text \<open>The encryptor's key is the one of its nonce, and no key is used beyond its bounds.\<close>

definition psk_inv :: "psk_lib \<Rightarrow> bool \<Rightarrow> bytes \<Rightarrow> aes_key_bits \<Rightarrow> u32 \<Rightarrow> bool \<Rightarrow> psk_key \<Rightarrow> bool" where
  "psk_inv L raw password bits rotation oddp k \<longleftrightarrow>
     pk_password k = password \<and> pk_raw k = raw \<and> pk_bits k = bits \<and> pk_key_rotation k = rotation \<and> pk_odd k = oddp
     \<and> password \<noteq> [] \<and> length (pk_nonce k) = 4 \<and> \<not> is_zero_nonce (pk_nonce k)
     \<and> pk_key k = psk_kdf L raw password (pk_nonce k) bits
     \<and> pk_used_times k \<le> u32_limit \<and> (0 < rotation \<longrightarrow> pk_used_times k \<le> unat rotation)"

lemma psk_rekey_cases:
  assumes "pk_password k \<noteq> []" "draws_ok draws" "pk_odd k \<or> draws_marked draws"
  obtains "psk_rekey L draws k = (k, Some Crypto_Csprng)"
  | nonce where "psk_rekey L draws k =
      (k\<lparr>pk_nonce := nonce, pk_key := psk_kdf L (pk_raw k) (pk_password k) nonce (pk_bits k), pk_used_times := 0\<rparr>, None)"
      "length nonce = 4" "\<not> is_zero_nonce nonce"
  using assms by (elim generate_nonce_cases) (auto simp: psk_rekey_def derive_dispatch_ok)

lemma psk_new_inv:
  assumes "psk_key_new_inner L draws password bits rotation oddp raw = Inr k" "draws_ok draws" "oddp \<or> draws_marked draws"
  shows "psk_inv L raw password bits rotation oddp k"
proof -
  let ?k0 = "\<lparr>pk_password = password, pk_bits = bits, pk_key_rotation = rotation, pk_odd = oddp,
            pk_raw = raw, pk_nonce = [0, 0, 0, 0], pk_key = [], pk_used_times = 0\<rparr>"
  have ne: "password \<noteq> []" using assms(1) by (auto simp: psk_key_new_inner_def)
  have odd: "pk_odd ?k0 \<or> draws_marked draws" "pk_password ?k0 \<noteq> []" using assms(3) ne by simp_all
  show ?thesis
  proof (rule psk_rekey_cases [OF odd(2) assms(2) odd(1), of L])
  qed (use assms(1) ne in \<open>auto simp: psk_key_new_inner_def psk_inv_def\<close>)
qed

text \<open>One packet: either no random bytes were to be had, or the keystream of the nonce in force.\<close>

lemma psk_encrypt_cases:
  assumes "psk_inv L raw password bits rotation oddp k" "draws_ok draws" "oddp \<or> draws_marked draws"
  obtains "psk_encrypt L draws seq plain k = (k, Inl Crypto_Csprng)" "rotate_due k"
  | k' where "psk_encrypt L draws seq plain k =
      (k', Inr (aes_ctr_apply L (psk_kdf L raw password (pk_nonce k') bits) (build_iv seq) plain))"
      "psk_inv L raw password bits rotation oddp k'"
      "pk_used_times k' = (if rotate_due k then 1 else pk_used_times k + 1)"
proof (cases "rotate_due k")
  case False
  have "pk_used_times k < u32_limit" "0 < rotation \<longrightarrow> pk_used_times k < unat rotation"
    using assms(1) False by (auto simp: rotate_due_def psk_inv_def)
  with assms(1) False show ?thesis
    by (intro that(2) [of "k\<lparr>pk_used_times := pk_used_times k + 1\<rparr>"]) (auto simp: psk_encrypt_def psk_inv_def)
next
  case True
  have prems: "pk_password k \<noteq> []" "pk_odd k \<or> draws_marked draws"
    using assms(1,3) by (auto simp: psk_inv_def)
  have one: "0 < rotation \<longrightarrow> Suc 0 \<le> unat rotation"
    by (simp add: unat_gt_0 Suc_leI word_neq_0_conv)
  show ?thesis
  proof (rule psk_rekey_cases [OF prems(1) assms(2) prems(2), of L])
    assume "psk_rekey L draws k = (k, Some Crypto_Csprng)"
    with True show ?thesis by (intro that(1)) (simp_all add: psk_encrypt_def)
  next
    fix nonce
    assume r: "psk_rekey L draws k =
      (k\<lparr>pk_nonce := nonce, pk_key := psk_kdf L (pk_raw k) (pk_password k) nonce (pk_bits k), pk_used_times := 0\<rparr>, None)"
      and n: "length nonce = 4" "\<not> is_zero_nonce nonce"
    show ?thesis
      using assms(1) True n one
      by (intro that(2) [of "k\<lparr>pk_nonce := nonce, pk_key := psk_kdf L raw password nonce bits, pk_used_times := 1\<rparr>"])
        (auto simp: psk_encrypt_def r psk_inv_def u32_limit_def)
  qed
qed

text \<open>What a receiver with any history makes of every packet of a stream.\<close>

lemma psk_send_received:
  assumes inv: "\<And>b key iv buf. pl_aes_ctr L b key iv (pl_aes_ctr L b key iv buf) = buf"
    and dec: "decryptor_new_inner password dbits raw = Inr d"
    and history: "list_all dec_input_ok is" "length is \<le> u32_limit" "bits_in_force dbits is = bits"
    and draws: "list_all (\<lambda>(draws, seq, plain). draws_ok draws \<and> (oddp \<or> draws_marked draws)) xs"
    and key: "psk_inv L raw password bits rotation oddp k"
  shows "list_all2 (\<lambda>(draws, seq, plain) out. case out of
      Inl e \<Rightarrow> e = Crypto_Csprng
    | Inr (nonce, s, ct) \<Rightarrow> s = seq \<and> snd (dec_decrypt L nonce s ct (dec_run L is d)) = Inr plain) xs (psk_send L xs k)"
  using draws key
proof (induction xs arbitrary: k)
  case Nil
  then show ?case by simp
next
  case (Cons x xs)
  obtain draws seq plain where x: "x = (draws, seq, plain)" by (cases x)
  have ok: "draws_ok draws" "oddp \<or> draws_marked draws" using Cons.prems(1) by (auto simp: x)
  show ?case
  proof (rule psk_encrypt_cases [OF Cons.prems(2) ok])
    assume "psk_encrypt L draws seq plain k = (k, Inl Crypto_Csprng)"
    with Cons show ?thesis by (simp add: x)
  next
    fix k'
    assume e: "psk_encrypt L draws seq plain k =
      (k', Inr (aes_ctr_apply L (psk_kdf L raw password (pk_nonce k') bits) (build_iv seq) plain))"
      and k': "psk_inv L raw password bits rotation oddp k'"
    have "snd (dec_decrypt L (pk_nonce k') seq ct (dec_run L is d)) =
        Inr (aes_ctr_apply L (psk_kdf L raw password (pk_nonce k') bits) (build_iv seq) ct)" for ct
      using dec_after_history [OF dec history(1,2)] k' by (simp add: psk_inv_def history(3))
    with Cons.IH k' Cons.prems(1) show ?thesis
      by (simp add: x e aes_ctr_apply_def inv)
  qed
qed

text \<open>The keys and initialisation vectors a stream of consecutive sequence numbers uses, each with the number of
  rekeyings before it: a failed packet uses none.\<close>

fun psk_ivs ::
    "psk_lib \<Rightarrow> ((nat \<Rightarrow> bytes option) \<times> bytes) list \<Rightarrow> u32 \<Rightarrow> nat \<Rightarrow> psk_key \<Rightarrow> (nat \<times> bytes \<times> bytes) list" where
  "psk_ivs L [] seq epoch k = []"
| "psk_ivs L ((draws, plain) # xs) seq epoch k =
     (case psk_encrypt L draws seq plain k of
        (k', Inl e) \<Rightarrow> psk_ivs L xs (seq + 1) epoch k'
      | (k', Inr ct) \<Rightarrow>
          let epoch = (if rotate_due k then epoch + 1 else epoch) in
          (epoch, pk_key k', build_iv seq) # psk_ivs L xs (seq + 1) epoch k')"

lemma build_iv_inj: "build_iv a = build_iv b \<longleftrightarrow> a = b"
proof
  assume "build_iv a = build_iv b"
  then have "take 4 (build_iv a) = take 4 (build_iv b)" by simp
  then have eq: "be32 a = be32 b" by (simp add: build_iv_def be32_def)
  have "get_be32 (be32 w) 0 = Some w" for w
    using get_be32_at [of 0 "[]" w "[]"] by simp
  with eq show "a = b" by (metis option.inject)
qed simp

text \<open>A vector of the current epoch has a sequence number within what is left of the key's uses.\<close>

lemma psk_ivs_epoch:
  assumes "psk_inv L raw password bits rotation oddp k"
    and "list_all (\<lambda>(draws, plain). draws_ok draws \<and> (oddp \<or> draws_marked draws)) xs"
    and "(e, key, iv) \<in> set (psk_ivs L xs seq epoch k)"
  shows "epoch \<le> e \<and> (e = epoch \<longrightarrow>
    \<not> rotate_due k \<and> (\<exists>j. iv = build_iv (seq + of_nat j) \<and> j + pk_used_times k < u32_limit))"
  using assms
proof (induction xs arbitrary: k seq epoch)
  case Nil
  then show ?case by simp
next
  case (Cons x xs)
  obtain draws plain where x: "x = (draws, plain)" by (cases x)
  have ok: "draws_ok draws" "oddp \<or> draws_marked draws" using Cons.prems(2) by (auto simp: x)
  show ?case
  proof (rule psk_encrypt_cases [OF Cons.prems(1) ok])
    assume "psk_encrypt L draws seq plain k = (k, Inl Crypto_Csprng)" "rotate_due k"
    with Cons.IH [OF Cons.prems(1), of "seq + 1" epoch] Cons.prems(2,3) show ?thesis by (auto simp: x)
  next
    fix k'
    assume enc: "psk_encrypt L draws seq plain k =
      (k', Inr (aes_ctr_apply L (psk_kdf L raw password (pk_nonce k') bits) (build_iv seq) plain))"
      and k': "psk_inv L raw password bits rotation oddp k'"
      and used: "pk_used_times k' = (if rotate_due k then 1 else pk_used_times k + 1)"
    note IH = Cons.IH [OF k' _, of "seq + 1"]
    show ?thesis
    proof (cases "rotate_due k")
      case True
      with IH [of "epoch + 1"] Cons.prems(2,3) enc show ?thesis by (auto simp: x)
    next
      case False
      have limit: "pk_used_times k < u32_limit"
        using False Cons.prems(1) by (auto simp: rotate_due_def psk_inv_def)
      from Cons.prems(3) enc False consider "e = epoch" "iv = build_iv seq" | "(e, key, iv) \<in> set (psk_ivs L xs (seq + 1) epoch k')"
        by (auto simp: x)
      then show ?thesis
      proof cases
        case 1
        with limit False show ?thesis by (intro conjI impI exI [of _ 0]) simp_all
      next
        case 2
        have tail: "epoch \<le> e" "e = epoch \<Longrightarrow> \<exists>j. iv = build_iv (seq + 1 + of_nat j) \<and> j + (pk_used_times k + 1) < u32_limit"
          using IH [of epoch] 2 Cons.prems(2) used False by auto
        have "\<exists>j. iv = build_iv (seq + of_nat j) \<and> j + pk_used_times k < u32_limit" if same: "e = epoch"
        proof -
          from tail(2) [OF same] obtain j where "iv = build_iv (seq + 1 + of_nat j)" "j + (pk_used_times k + 1) < u32_limit"
            by blast
          then show ?thesis by (intro exI [of _ "Suc j"]) (simp add: algebra_simps)
        qed
        with tail(1) False show ?thesis by blast
      qed
    qed
  qed
qed

lemma psk_ivs_distinct:
  assumes "psk_inv L raw password bits rotation oddp k"
    and "list_all (\<lambda>(draws, plain). draws_ok draws \<and> (oddp \<or> draws_marked draws)) xs"
  shows "distinct (map (\<lambda>(e, key, iv). (e, iv)) (psk_ivs L xs seq epoch k))"
  using assms
proof (induction xs arbitrary: k seq epoch)
  case Nil
  then show ?case by simp
next
  case (Cons x xs)
  obtain draws plain where x: "x = (draws, plain)" by (cases x)
  have ok: "draws_ok draws" "oddp \<or> draws_marked draws" using Cons.prems(2) by (auto simp: x)
  show ?case
  proof (rule psk_encrypt_cases [OF Cons.prems(1) ok])
    assume "psk_encrypt L draws seq plain k = (k, Inl Crypto_Csprng)"
    with Cons show ?thesis by (simp add: x)
  next
    fix k'
    assume enc: "psk_encrypt L draws seq plain k =
      (k', Inr (aes_ctr_apply L (psk_kdf L raw password (pk_nonce k') bits) (build_iv seq) plain))"
      and k': "psk_inv L raw password bits rotation oddp k'"
      and used: "pk_used_times k' = (if rotate_due k then 1 else pk_used_times k + 1)"
    define ep where "ep = (if rotate_due k then epoch + 1 else epoch)"
    have fresh: "(ep, key, build_iv seq) \<notin> set (psk_ivs L xs (seq + 1) ep k')" for key
    proof
      assume mem: "(ep, key, build_iv seq) \<in> set (psk_ivs L xs (seq + 1) ep k')"
      have "list_all (\<lambda>(draws, plain). draws_ok draws \<and> (oddp \<or> draws_marked draws)) xs"
        using Cons.prems(2) by simp
      from psk_ivs_epoch [OF k' this mem] obtain j where
        "seq = seq + 1 + of_nat j" "j + pk_used_times k' < u32_limit" by (auto simp: build_iv_inj)
      with used have j: "of_nat (Suc j) = (0 :: u32)" "Suc j < u32_limit"
        by (auto simp: algebra_simps split: if_splits)
      have "unat (of_nat (Suc j) :: u32) = Suc j"
        using j(2) by (simp add: unat_of_nat u32_limit_def del: of_nat_Suc)
      with j(1) show False by (metis Zero_not_Suc unat_0)
    qed
    have "distinct (map (\<lambda>(e, key, iv). (e, iv)) (psk_ivs L xs (seq + 1) ep k'))" using Cons.IH k' Cons.prems(2) by simp
    with fresh show ?thesis by (auto simp: x enc ep_def [symmetric])
  qed
qed

text \<open>One key to an epoch.\<close>

lemma psk_encrypt_same_key:
  "psk_encrypt L draws seq plain k = (k', out) \<Longrightarrow> \<not> rotate_due k \<Longrightarrow> pk_key k' = pk_key k"
  by (auto simp: psk_encrypt_def)

lemma psk_ivs_key:
  assumes "psk_inv L raw password bits rotation oddp k"
    and "list_all (\<lambda>(draws, plain). draws_ok draws \<and> (oddp \<or> draws_marked draws)) xs"
  shows "\<exists>key_of. key_of epoch = pk_key k \<and> list_all (\<lambda>(e, key, iv). key = key_of e) (psk_ivs L xs seq epoch k)"
  using assms
proof (induction xs arbitrary: k seq epoch)
  case Nil
  then show ?case by (simp add: exI [of _ "\<lambda>_. pk_key k"])
next
  case (Cons x xs)
  obtain draws plain where x: "x = (draws, plain)" by (cases x)
  have ok: "draws_ok draws" "oddp \<or> draws_marked draws" using Cons.prems(2) by (auto simp: x)
  have rest: "list_all (\<lambda>(draws, plain). draws_ok draws \<and> (oddp \<or> draws_marked draws)) xs"
    using Cons.prems(2) by simp
  show ?case
  proof (rule psk_encrypt_cases [OF Cons.prems(1) ok])
    assume "psk_encrypt L draws seq plain k = (k, Inl Crypto_Csprng)"
    with Cons.IH [OF Cons.prems(1) rest] show ?thesis by (simp add: x)
  next
    fix k'
    assume enc: "psk_encrypt L draws seq plain k =
      (k', Inr (aes_ctr_apply L (psk_kdf L raw password (pk_nonce k') bits) (build_iv seq) plain))"
      and k': "psk_inv L raw password bits rotation oddp k'"
    show ?thesis
    proof (cases "rotate_due k")
      case False
      obtain key_of where "key_of epoch = pk_key k'"
        "list_all (\<lambda>(e, key, iv). key = key_of e) (psk_ivs L xs (seq + 1) epoch k')"
        using Cons.IH [OF k' rest] by blast
      with False psk_encrypt_same_key [OF enc] show ?thesis by (intro exI [of _ key_of]) (simp add: x enc)
    next
      case True
      obtain key_of where key: "key_of (epoch + 1) = pk_key k'"
        "list_all (\<lambda>(e, key, iv). key = key_of e) (psk_ivs L xs (seq + 1) (epoch + 1) k')"
        using Cons.IH [OF k' rest] by blast
      have "list_all (\<lambda>(e, key, iv). key = (key_of(epoch := pk_key k)) e) (psk_ivs L xs (seq + 1) (epoch + 1) k')"
        using key(2) psk_ivs_epoch [OF k' rest] by (fastforce simp: list_all_iff)
      with key(1) True show ?thesis by (intro exI [of _ "key_of(epoch := pk_key k)"]) (simp add: x enc)
    qed
  qed
qed

text \<open>How often a key is used.\<close>

lemma psk_ivs_count:
  assumes "psk_inv L raw password bits rotation oddp k"
    and "list_all (\<lambda>(draws, plain). draws_ok draws \<and> (oddp \<or> draws_marked draws)) xs"
  shows "length (filter (\<lambda>(e', key, iv). e' = e) (psk_ivs L xs seq epoch k))
    \<le> (if e < epoch then 0 else if e = epoch then u32_limit - pk_used_times k else u32_limit)"
  using assms
proof (induction xs arbitrary: k seq epoch)
  case Nil
  then show ?case by simp
next
  case (Cons x xs)
  obtain draws plain where x: "x = (draws, plain)" by (cases x)
  have ok: "draws_ok draws" "oddp \<or> draws_marked draws" using Cons.prems(2) by (auto simp: x)
  have rest: "list_all (\<lambda>(draws, plain). draws_ok draws \<and> (oddp \<or> draws_marked draws)) xs"
    using Cons.prems(2) by simp
  show ?case
  proof (rule psk_encrypt_cases [OF Cons.prems(1) ok])
    assume "psk_encrypt L draws seq plain k = (k, Inl Crypto_Csprng)"
    with Cons.IH [OF Cons.prems(1) rest, of "seq + 1" epoch] show ?thesis by (simp add: x)
  next
    fix k'
    assume enc: "psk_encrypt L draws seq plain k =
      (k', Inr (aes_ctr_apply L (psk_kdf L raw password (pk_nonce k') bits) (build_iv seq) plain))"
      and k': "psk_inv L raw password bits rotation oddp k'"
      and used: "pk_used_times k' = (if rotate_due k then 1 else pk_used_times k + 1)"
    note IH = Cons.IH [OF k' rest, of "seq + 1"]
    show ?thesis
    proof (cases "rotate_due k")
      case True
      with IH [of "epoch + 1"] used show ?thesis by (auto simp: x enc u32_limit_def split: if_splits)
    next
      case False
      then have "pk_used_times k < u32_limit"
        using Cons.prems(1) by (auto simp: rotate_due_def psk_inv_def)
      with IH [of epoch] used False show ?thesis by (auto simp: x enc split: if_splits)
    qed
  qed
qed

section \<open>The properties\<close>

text \<open>A keystream to compute with: the key stretches the passphrase and the nonce, the cipher is an exclusive or.\<close>

definition toy_psk_lib :: psk_lib where
  "toy_psk_lib = \<lparr>pl_pbkdf2 = (\<lambda>password salt iterations n. take n (concat (replicate n (password @ salt)))),
     pl_aes_ctr = (\<lambda>bits key iv buf. map (\<lambda>b. b XOR (sum_list key + sum_list iv)) buf)\<rparr>"

definition sample_draws :: "nat \<Rightarrow> bytes option" where
  "sample_draws i = (if i = 0 then Some [0, 0, 0, 0] else Some [0x92, 1, 2, of_nat i])"

definition sample_decryptor :: decryptor where
  "sample_decryptor = \<lparr>dc_password = [112, 119], dc_bits = Aes128, dc_raw = False, dc_nonce = [0, 0, 0, 0], dc_key = [],
     dc_has_nonce = False, dc_used_times = 0, dc_next_nonce = [0, 0, 0, 0], dc_next_bits = Aes128, dc_next_key = [],
     dc_has_next = False\<rparr>"

definition sample_history :: "dec_input list" where
  "sample_history = [Dec_Packet [1, 2, 3, 4] 7 [5, 6], Dec_Announce [9, 9, 9, 9] Aes256, Dec_Key_Bits Aes256,
     Dec_Announce [8, 8, 8, 8] Aes256, Dec_Packet [8, 8, 8, 8] 8 [1]]"

definition sample_psk_key :: psk_key where
  "sample_psk_key = \<lparr>pk_password = [112, 119], pk_bits = Aes256, pk_key_rotation = 1, pk_odd = True, pk_raw = False,
     pk_nonce = [0x92, 1, 2, 1], pk_key = psk_kdf toy_psk_lib False [112, 119] [0x92, 1, 2, 1] Aes256, pk_used_times = 0\<rparr>"

text \<open>C37: The decryptor caches the key of the live nonce and of an announced one, drops both when the key size changes,
  and promotes the announced one. Whatever announcements, size changes and packets it was fed before, valid or not,
  in any order and below the reuse limit of 2^32 - 1 uses, it gives for the next packet exactly what one-shot
  decryption of that packet gives under the key size last set, the refusal of a zero nonce included.\<close>

theorem decryptor_equals_one_shot:
  assumes "decryptor_new password bits = Inr d" "list_all dec_input_ok is" "length is \<le> u32_limit" "length nonce = 4"
  shows "snd (dec_decrypt L nonce seq src (dec_run L is d)) = psk_decrypt L password (bits_in_force bits is) nonce seq src"
proof (cases "is_zero_nonce nonce")
  case True
  then show ?thesis by (simp add: dec_decrypt_def psk_decrypt_def)
next
  case False
  have new: "decryptor_new_inner password bits False = Inr d" using assms(1) by (simp add: decryptor_new_def)
  show ?thesis
    using dec_after_history [OF new assms(2-4) False, of L seq src] False assms(4) decryptor_new_nonempty [OF new]
    by (simp add: psk_decrypt_def derive_key_ok)
qed

theorem decryptor_equals_one_shot_witness:
  "snd (dec_decrypt toy_psk_lib [9, 9, 9, 9] 3 [1, 2, 3] (dec_run toy_psk_lib sample_history sample_decryptor))
     = psk_decrypt toy_psk_lib [112, 119] Aes256 [9, 9, 9, 9] 3 [1, 2, 3]"
proof -
  have "decryptor_new [112, 119] Aes128 = Inr sample_decryptor"
    by (simp add: decryptor_new_def decryptor_new_inner_def sample_decryptor_def)
  from decryptor_equals_one_shot [OF this, of sample_history "[9, 9, 9, 9]" toy_psk_lib 3 "[1, 2, 3]"]
  show ?thesis by (simp add: sample_history_def u32_limit_def)
qed

text \<open>A stream is recovered: every packet the encryptor produces, under any rotation threshold and over any number
  of rekeyings, is decrypted to its plaintext by a decryptor with the same passphrase and form of derivation whatever
  the decryptor received before (so under loss, reordering, duplication and forged packets), once the key size is the
  sender's. The encryptor fails only when no random bytes are to be had. Assumed are the involution of the counter-mode
  keystream and that no draw is the marker bit alone, or the passphrase is the odd one.\<close>

theorem psk_stream_recovered:
  assumes "\<And>b key iv buf. pl_aes_ctr L b key iv (pl_aes_ctr L b key iv buf) = buf"
    and "psk_key_new_inner L draws0 password bits rotation oddp raw = Inr k"
    and "draws_ok draws0" "oddp \<or> draws_marked draws0"
    and "list_all (\<lambda>(draws, seq, plain). draws_ok draws \<and> (oddp \<or> draws_marked draws)) xs"
    and "decryptor_new_inner password dbits raw = Inr d"
    and "list_all dec_input_ok is" "length is \<le> u32_limit" "bits_in_force dbits is = bits"
  shows "list_all2 (\<lambda>(draws, seq, plain) out. case out of
      Inl e \<Rightarrow> e = Crypto_Csprng
    | Inr (nonce, s, ct) \<Rightarrow> s = seq \<and> snd (dec_decrypt L nonce s ct (dec_run L is d)) = Inr plain) xs (psk_send L xs k)"
  by (rule psk_send_received [OF assms(1,6-9,5) psk_new_inv [OF assms(2-4)]])

theorem psk_stream_recovered_witness:
  "list_all2 (\<lambda>(draws, seq, plain) out. case out of
      Inl e \<Rightarrow> e = Crypto_Csprng
    | Inr (nonce, s, ct) \<Rightarrow> s = seq
        \<and> snd (dec_decrypt toy_psk_lib nonce s ct (dec_run toy_psk_lib sample_history sample_decryptor)) = Inr plain)
     [(sample_draws, 1, [10, 20]), (sample_draws, 2, [30])]
     (psk_send toy_psk_lib [(sample_draws, 1, [10, 20]), (sample_draws, 2, [30])] sample_psk_key)"
proof (rule psk_stream_recovered)
  show "pl_aes_ctr toy_psk_lib b key iv (pl_aes_ctr toy_psk_lib b key iv buf) = buf" for b key iv buf
    by (induction buf) (simp_all add: toy_psk_lib_def xor.assoc)
  have rk: "generate_nonce True sample_draws = Inr [0x92, 1, 2, 1]" by code_simp
  show "psk_key_new_inner toy_psk_lib sample_draws [112, 119] Aes256 1 True False = Inr sample_psk_key"
    by (simp add: psk_key_new_inner_def psk_rekey_def rk derive_dispatch_ok sample_psk_key_def)
  show "draws_ok sample_draws" by code_simp
  show "True \<or> draws_marked sample_draws" by simp
  show "list_all (\<lambda>(draws, seq, plain). draws_ok draws \<and> (True \<or> draws_marked draws))
      [(sample_draws, 1 :: u32, [10 :: u8, 20]), (sample_draws, 2, [30])]"
    using \<open>draws_ok sample_draws\<close> by simp
  show "decryptor_new_inner [112, 119] Aes128 False = Inr sample_decryptor"
    by (simp add: decryptor_new_inner_def sample_decryptor_def)
  show "list_all dec_input_ok sample_history" "length sample_history \<le> u32_limit"
    "bits_in_force Aes128 sample_history = Aes256"
    by (simp_all add: sample_history_def u32_limit_def)
qed

text \<open>C38: A key meets no initialisation vector twice between two rekeyings: over a stream of any length with consecutive
  sequence numbers, which wrap after 2^32 packets, all packets under one rekeying have one key, their vectors are
  pairwise distinct, and they are at most 2^32 - 1, even when the configured threshold is zero. Two packets with the
  same vector therefore lie under different rekeyings; nothing rules out that two draws give the same nonce, and
  so that two rekeyings give the same key. Assumed is that the random draws have their length, and that none is the
  marker bit alone or the passphrase is the odd one.\<close>

theorem psk_iv_never_reused:
  assumes "psk_key_new_inner L draws0 password bits rotation oddp raw = Inr k"
    and "draws_ok draws0" "oddp \<or> draws_marked draws0"
    and "list_all (\<lambda>(draws, plain). draws_ok draws \<and> (oddp \<or> draws_marked draws)) xs"
  shows "distinct (map (\<lambda>(e, key, iv). (e, iv)) (psk_ivs L xs seq 0 k))
    \<and> (\<exists>key_of. list_all (\<lambda>(e, key, iv). key = key_of e) (psk_ivs L xs seq 0 k))
    \<and> (\<forall>e. length (filter (\<lambda>(e', key, iv). e' = e) (psk_ivs L xs seq 0 k)) \<le> 2 ^ 32 - 1)"
proof -
  note inv = psk_new_inv [OF assms(1-3)]
  have "length (filter (\<lambda>(e', key, iv). e' = e) (psk_ivs L xs seq 0 k)) \<le> 2 ^ 32 - 1" for e
    using psk_ivs_count [OF inv assms(4), of e seq 0] by (simp add: u32_limit_def split: if_splits)
  with psk_ivs_distinct [OF inv assms(4)] psk_ivs_key [OF inv assms(4)] show ?thesis by blast
qed

theorem psk_iv_never_reused_witness:
  "distinct (map (\<lambda>(e, key, iv). (e, iv))
     (psk_ivs toy_psk_lib [(sample_draws, [1]), (sample_draws, [2]), (sample_draws, [3])] 4294967295 0 sample_psk_key))"
proof (rule psk_iv_never_reused [THEN conjunct1])
  have rk: "generate_nonce True sample_draws = Inr [0x92, 1, 2, 1]" by code_simp
  show "psk_key_new_inner toy_psk_lib sample_draws [112, 119] Aes256 1 True False = Inr sample_psk_key"
    by (simp add: psk_key_new_inner_def psk_rekey_def rk derive_dispatch_ok sample_psk_key_def)
  show "draws_ok sample_draws" by code_simp
  show "True \<or> draws_marked sample_draws" by simp
  show "list_all (\<lambda>(draws, plain). draws_ok draws \<and> (True \<or> draws_marked draws))
      [(sample_draws, [1 :: u8]), (sample_draws, [2]), (sample_draws, [3])]"
    using \<open>draws_ok sample_draws\<close> by simp
qed

text \<open>The zero nonce can be sent: the draw is tested before its marker bit is cleared, so when the first draw is
  the marker bit alone and the passphrase is the even one, a new key has the zero nonce, and every decryptor refuses
  the packets encrypted under it.\<close>

theorem marker_draw_gives_zero_nonce:
  assumes "password \<noteq> []" "draws 0 = Some [0x80, 0, 0, 0]"
  shows "\<exists>k. psk_key_new L draws password bits rotation False = Inr k \<and> is_zero_nonce (pk_nonce k)
    \<and> (\<forall>seq src d. snd (dec_decrypt L (pk_nonce k) seq src d) = Inl Crypto_Zero_Nonce)"
proof -
  have nz: "\<not> is_zero_nonce [0x80, 0, 0, 0]" by (simp add: zero_nonce_iff)
  have mark: "mark_nonce False [0x80, 0, 0, 0] = [0, 0, 0, 0]" by code_simp
  have gen: "generate_nonce False draws = Inr [0, 0, 0, 0]"
    using assms(2) nz mark by (simp add: generate_nonce_def upt_rec [of 0])
  have zero: "is_zero_nonce [0, 0, 0, 0]" by (simp add: zero_nonce_iff)
  show ?thesis
    using assms(1) zero
    by (simp add: psk_key_new_def psk_key_new_inner_def psk_rekey_def gen derive_dispatch_ok dec_decrypt_def)
qed

theorem marker_draw_gives_zero_nonce_witness:
  "\<exists>k. psk_key_new toy_psk_lib (\<lambda>i. Some [0x80, 0, 0, 0]) [112, 119] Aes128 0 False = Inr k \<and> is_zero_nonce (pk_nonce k)
    \<and> (\<forall>seq src d. snd (dec_decrypt toy_psk_lib (pk_nonce k) seq src d) = Inl Crypto_Zero_Nonce)"
  by (rule marker_draw_gives_zero_nonce) simp_all

end
