(* ===== verification/Codec_Simple.thy ===== *)
theory Codec_Simple
  imports Wire Rtp Rtcp_Compound Gre Psk Npd Adv Lpc
begin

text \<open>
  The Simple-profile codec strategy of the host (\<^verbatim>\<open>rist/src/codec.rs\<close>): it stands between the flow, which
  sees 32-bit sequence numbers and NTP-64 source times, and the wire, which carries 16-bit RTP sequence numbers, 32-bit
  timestamps at 90 kHz and compound RTCP. The two widenings back to the flow's numbers are stateful. Signed 64-bit
  products wrap as in a release build.
\<close>

section \<open>Errors and conversions\<close>

datatype codec_error =
    CE_Rtp rtp_error
  | CE_Rtcp rtcp_error
  | CE_Bad_Version u8
  | CE_Gre gre_error
  | CE_Crypto crypto_error
  | CE_Npd npd_error
  | CE_Main string
  | CE_Adv adv_error
  | CE_Lpc lpc_error
  | CE_Adv_Profile string

text \<open>\<^verbatim>\<open>?\<close> with a conversion of the error.\<close>

definition res_from :: "('e \<Rightarrow> 'f) \<Rightarrow> ('e, 'a) result \<Rightarrow> ('f, 'a) result" where
  "res_from f m = (case m of None \<Rightarrow> None | Some (Inl e) \<Rightarrow> Some (Inl (f e)) | Some (Inr x) \<Rightarrow> Some (Inr x))"

lemma res_from_simps [simp]:
  "res_from f (res_ok x) = res_ok x"
  "res_from f (res_err e) = res_err (f e)"
  "res_from f None = None"
  "res_from f (Some (Inr x)) = res_ok x"
  "res_from f (Some (Inl e)) = res_err (f e)"
  by (simp_all add: res_from_def res_ok_def res_err_def)

definition rtp_version :: u8 where "rtp_version = 2"
definition payload_type_mpegts :: u8 where "payload_type_mpegts = 33"

definition rtp_ticks_from_micros :: "int \<Rightarrow> int" where
  "rtp_ticks_from_micros us = trunc_div (wrap_i64 (us * 9)) 100"

definition micros_from_rtp_ticks :: "int \<Rightarrow> int" where
  "micros_from_rtp_ticks ticks = trunc_div (wrap_i64 (ticks * 100)) 9"

definition rtp_ts_from_source :: "ntp64 \<Rightarrow> u32" where
  "rtp_ts_from_source src = of_int (rtp_ticks_from_micros (wrap_i64 (int (ntp_to_timestamp src))))"

section \<open>Media\<close>

definition rtp_header_default :: rtp_header where
  "rtp_header_default =
     \<lparr>rh_version = 0, rh_padding = False, rh_extension = False, rh_csrc_count = 0, rh_marker = False,
      rh_payload_type = 0, rh_sequence_number = 0, rh_timestamp = 0, rh_ssrc = 0, rh_csrc = [],
      rh_extension_profile = 0, rh_extension_payload = []\<rparr>"

text \<open>The RTP packet of a media packet.\<close>

definition media_rtp :: "media_packet \<Rightarrow> rtp_packet" where
  "media_rtp pkt =
     \<lparr>rp_header = rtp_header_default\<lparr>rh_version := rtp_version, rh_payload_type := payload_type_mpegts,
        rh_sequence_number := ucast (mp_seq pkt), rh_timestamp := rtp_ts_from_source (mp_source_time pkt),
        rh_ssrc := (if mp_retransmit pkt then mark_retransmit (mp_ssrc pkt) else mp_ssrc pkt)\<rparr>,
      rp_payload = mp_payload pkt, rp_padding_size = 0\<rparr>"

definition encode_media :: "media_packet \<Rightarrow> (codec_error, bytes) result" where
  "encode_media pkt = res_from CE_Rtp (packet_encode (media_rtp pkt))"

record media_decoder =
  md_started :: bool
  md_ref_seq :: u32
  md_ref_ticks :: int
  md_last_wire_ts :: u32

definition media_decoder_new :: media_decoder where
  "media_decoder_new = \<lparr>md_started = False, md_ref_seq = 0, md_ref_ticks = 0, md_last_wire_ts = 0\<rparr>"

definition widen_seq :: "u16 \<Rightarrow> u32 \<Rightarrow> u32" where
  "widen_seq wire16 reference =
     (let cand = (reference AND 0xFFFF0000) OR ucast wire16;
          diff = uint cand - uint reference
      in if 2 ^ 15 < diff then cand - 2 ^ 16 else if diff < - (2 ^ 15) then cand + 2 ^ 16 else cand)"

definition widen_ticks :: "u32 \<Rightarrow> int \<Rightarrow> int" where
  "widen_ticks wire32 reference =
     (let cand = (reference AND NOT 0xFFFFFFFF) OR uint wire32;
          diff = cand - reference
      in if 2 ^ 31 < diff then wrap_i64 (cand - 2 ^ 32) else if diff < - (2 ^ 31) then wrap_i64 (cand + 2 ^ 32) else cand)"

text \<open>\<^verbatim>\<open>micros_from_rtp_ticks(ticks).max(0) as u64\<close> as an NTP time.\<close>

definition source_of_ticks :: "int \<Rightarrow> ntp64" where
  "source_of_ticks ticks = ntp_from_timestamp (nat (max (micros_from_rtp_ticks ticks) 0))"

definition md_source_time :: "u32 \<Rightarrow> media_decoder \<Rightarrow> ntp64" where
  "md_source_time wire_ts d = source_of_ticks (widen_ticks wire_ts (md_ref_ticks d))"

definition md_widen :: "u16 \<Rightarrow> u32 \<Rightarrow> media_decoder \<Rightarrow> media_decoder \<times> u32 \<times> ntp64" where
  "md_widen seq16 ts32 d =
     (let (seq32, ticks) = (if md_started d then (widen_seq seq16 (md_ref_seq d), widen_ticks ts32 (md_ref_ticks d))
            else (ucast seq16, uint ts32));
          d = d\<lparr>md_started := True, md_ref_seq := seq32, md_ref_ticks := ticks\<rparr>
      in (d, seq32, source_of_ticks ticks))"

definition md_decode :: "bytes \<Rightarrow> media_decoder \<Rightarrow> (media_decoder \<times> (codec_error + media_packet)) option" where
  "md_decode buf d =
     (case packet_decode buf of
        None \<Rightarrow> None
      | Some (Inl e) \<Rightarrow> Some (d, Inl (CE_Rtp e))
      | Some (Inr p) \<Rightarrow>
          if rh_version (rp_header p) \<noteq> rtp_version then Some (d, Inl (CE_Bad_Version (rh_version (rp_header p))))
          else
            let (d, seq, source_time) = md_widen (rh_sequence_number (rp_header p)) (rh_timestamp (rp_header p))
              (d\<lparr>md_last_wire_ts := rh_timestamp (rp_header p)\<rparr>)
            in Some (d, Inr \<lparr>mp_seq = seq, mp_source_time = source_time, mp_ssrc = normalize_ssrc (rh_ssrc (rp_header p)),
              mp_payload = rp_payload p, mp_retransmit = is_retransmit (rh_ssrc (rp_header p)), mp_path_id = 0,
              mp_frag = Standalone, mp_virt_src_port = 0, mp_virt_dst_port = 0, mp_short_seq = True\<rparr>))"

section \<open>Feedback\<close>

text \<open>The loop over the feedback effects, with the NACK and the echo packets collected so far.\<close>

fun feedback_packets ::
    "u32 \<Rightarrow> bool \<Rightarrow> feedback list \<Rightarrow> rtcp_packet list \<Rightarrow> rtcp_packet list
      \<Rightarrow> (rtcp_packet list \<times> rtcp_packet list) option" where
  "feedback_packets local_ssrc bitmask [] nacks echoes = Some (nacks, echoes)"
| "feedback_packets local_ssrc bitmask (Nack ssrc missing # fbs) nacks echoes =
     (if bitmask then do {
        ps \<leftarrow> encode_bitmask_nack 0 ssrc missing;
        feedback_packets local_ssrc bitmask fbs (nacks @ map P_Bitmask_Nack ps) echoes }
      else feedback_packets local_ssrc bitmask fbs
        (nacks @ map P_Range_Nack (encode_range_nack local_ssrc ssrc missing)) echoes)"
| "feedback_packets local_ssrc bitmask (RttEchoRequest ssrc ts # fbs) nacks echoes =
     feedback_packets local_ssrc bitmask fbs nacks
       (echoes @ [P_Echo_Request \<lparr>eq_ssrc = local_ssrc, eq_timestamp = ts, eq_padding = []\<rparr>])"
| "feedback_packets local_ssrc bitmask (RttEchoResponse ssrc ts delay # fbs) nacks echoes =
     feedback_packets local_ssrc bitmask fbs nacks
       (echoes @ [P_Echo_Response \<lparr>er_ssrc = ssrc, er_timestamp = ts, er_processing_delay = delay, er_padding = []\<rparr>])"
| "feedback_packets local_ssrc bitmask (SenderReport ntp rtp # fbs) nacks echoes =
     feedback_packets local_ssrc bitmask fbs nacks echoes"
| "feedback_packets local_ssrc bitmask (Keepalive # fbs) nacks echoes =
     feedback_packets local_ssrc bitmask fbs nacks echoes"
| "feedback_packets local_ssrc bitmask (ExtSeq hi # fbs) nacks echoes =
     feedback_packets local_ssrc bitmask fbs nacks echoes"
| "feedback_packets local_ssrc bitmask (LinkQuality lqm # fbs) nacks echoes =
     feedback_packets local_ssrc bitmask fbs nacks echoes"
| "feedback_packets local_ssrc bitmask (FlowAttribute json # fbs) nacks echoes =
     feedback_packets local_ssrc bitmask fbs nacks echoes"

definition encode_feedback ::
    "rtcp_packet \<Rightarrow> u32 \<Rightarrow> bytes \<Rightarrow> feedback list \<Rightarrow> bool \<Rightarrow> (codec_error, bytes) result" where
  "encode_feedback lead local_ssrc cname fbs bitmask =
     (case feedback_packets local_ssrc bitmask fbs [] [] of
        None \<Rightarrow> None
      | Some (nacks, echoes) \<Rightarrow>
          let pkts = [lead, P_Sdes \<lparr>sd_ssrc = local_ssrc, sd_cname = cname\<rparr>] @ nacks @ echoes in
          case build_compound [] pkts of
            (dst, None) \<Rightarrow> res_ok dst
          | (_, Some e) \<Rightarrow> res_err (CE_Rtcp e))"

definition widen_seq_at_most :: "u16 \<Rightarrow> u32 \<Rightarrow> u32" where
  "widen_seq_at_most wire16 reference =
     (let cand = (reference AND 0xFFFF0000) OR ucast wire16
      in if reference < cand then cand - 2 ^ 16 else cand)"

definition nack_to_wire :: "u32 \<Rightarrow> u32 list \<Rightarrow> u32 \<Rightarrow> feedback" where
  "nack_to_wire ssrc narrow nack_ref = Nack ssrc (map (\<lambda>s. widen_seq_at_most (ucast s) nack_ref) narrow)"

text \<open>What the flow gets of one packet.\<close>

fun feedback_of :: "u32 \<Rightarrow> rtcp_packet \<Rightarrow> feedback list" where
  "feedback_of nack_ref (P_Range_Nack p) = [nack_to_wire (rn_media_ssrc p) (range_missing_seqs p) nack_ref]"
| "feedback_of nack_ref (P_Bitmask_Nack p) = [nack_to_wire (bn_media_ssrc p) (bitmask_missing_seqs p) nack_ref]"
| "feedback_of nack_ref (P_Echo_Request p) = [RttEchoRequest (eq_ssrc p) (eq_timestamp p)]"
| "feedback_of nack_ref (P_Echo_Response p) = [RttEchoResponse (er_ssrc p) (er_timestamp p) (er_processing_delay p)]"
| "feedback_of nack_ref (P_Link_Quality_Report p) = [LinkQuality (lq_lqm p)]"
| "feedback_of nack_ref _ = []"

definition decode_feedback :: "bytes \<Rightarrow> u32 \<Rightarrow> (codec_error, feedback list) result" where
  "decode_feedback b nack_ref =
     res_bind (res_from CE_Rtcp (parse_compound b)) (\<lambda>pkts. res_ok (concat (map (feedback_of nack_ref) pkts)))"

end
