(* ===== verification/Codec_Simple_Props.thy ===== *)
theory Codec_Simple_Props
  imports Codec_Simple Rtcp_Props
begin

text \<open>
  What the Simple-profile strategy preserves: the widenings recover the flow's numbers near the last one seen, a media
  stream reaches the receiving flow with one constant shift of its numbers, and the feedback of a flow reaches the
  peer's flow through compound RTCP.
\<close>

section \<open>Widening\<close>

lemma int_high_or_low:
  fixes x y :: int
  assumes "0 \<le> y" "y < 2 ^ n"
  shows "(x AND NOT (mask n)) OR y = x div 2 ^ n * 2 ^ n + y"
proof -
  have hi: "x AND NOT (mask n) = push_bit n (drop_bit n x)"
    by (rule bit_eqI) (auto simp: bit_simps)
  have y: "take_bit n y = y" using assms by (simp add: take_bit_int_eq_self_iff)
  have low: "bit y i \<longleftrightarrow> i < n \<and> bit y i" for i
    by (metis y bit_take_bit_iff)
  have "push_bit n (drop_bit n x) AND y = 0"
  proof (rule bit_eqI)
    fix i show "bit (push_bit n (drop_bit n x) AND y) i = bit (0 :: int) i"
      using low [of i] by (auto simp: bit_simps)
  qed
  then have "push_bit n (drop_bit n x) OR y = push_bit n (drop_bit n x) + y"
    by (metis disjunctive_add_eq_or)
  then show ?thesis unfolding hi by (simp add: push_bit_eq_mult drop_bit_eq_div)
qed

lemma uint_high_or_low:
  "uint ((reference AND 0xFFFF0000) OR ucast (w :: u16) :: u32) = uint reference div 65536 * 65536 + uint w"
proof -
  have m: "(0xFFFF0000 :: u32) = NOT (mask 16)" by (simp add: mask_eq_decr_exp)
  have r: "uint (reference AND NOT (mask 16)) = uint reference AND NOT (mask 16)"
  proof (rule bit_eqI)
    fix i show "bit (uint (reference AND NOT (mask 16))) i = bit (uint reference AND NOT (mask 16)) i"
      by (auto simp: bit_simps dest: bit_imp_le_length)
  qed
  have w: "uint (ucast w :: u32) = uint w"
    by (rule bit_eqI) (auto simp: bit_simps dest: bit_imp_le_length)
  have "uint ((reference AND NOT (mask 16)) OR ucast w :: u32) = (uint reference AND NOT (mask 16)) OR uint w"
    by (simp only: unsigned_or_eq r w)
  also have "\<dots> = uint reference div 65536 * 65536 + uint w"
    using int_high_or_low [of "uint w" 16 "uint reference"] uint_lt2p [of w] by simp
  finally show ?thesis unfolding m .
qed

lemma uint_ucast_of_int: "uint (ucast (of_int x :: u32) :: u16) = x mod 2 ^ 16"
  by (simp add: unsigned_ucast_eq unsigned_of_int take_bit_eq_mod mod_mod_cancel del: of_int_add)

text \<open>A number is taken to the nearest reading of its low bits, across the wrap of the 32-bit space too.\<close>

lemma widen_seq_near:
  assumes v: "v = reference + of_int d" and d: "- (2 ^ 15) < d" "d < 2 ^ 15"
  shows "widen_seq (ucast v) reference = v"
proof -
  define r where "r = uint reference"
  define q where "q = r div 65536"
  define m where "m = r mod 65536"
  have rqm: "r = q * 65536 + m" "0 \<le> m" "m < 65536" by (simp_all add: q_def m_def)
  have vr: "v = of_int (r + d)" by (simp add: v r_def)
  have "uint (ucast v :: u16) = (r + d) mod 2 ^ 16"
    unfolding vr by (rule uint_ucast_of_int)
  then have w: "uint (ucast v :: u16) = (m + d) mod 65536" using rqm(1) by (simp add: add.assoc)
  define cand :: u32 where "cand = (reference AND 0xFFFF0000) OR ucast (ucast v :: u16)"
  have c: "uint cand = q * 65536 + (m + d) mod 65536"
    unfolding cand_def uint_high_or_low w q_def r_def by (rule refl)
  have cand: "cand = of_int (q * 65536 + (m + d) mod 65536)"
    unfolding c [symmetric] by simp
  have diff: "uint cand - uint reference = (m + d) mod 65536 - m"
    using c rqm(1) by (simp add: r_def)
  have unfold: "widen_seq (ucast v) reference = (if 2 ^ 15 < (m + d) mod 65536 - m then cand - 2 ^ 16
      else if (m + d) mod 65536 - m < - (2 ^ 15) then cand + 2 ^ 16 else cand)"
    unfolding widen_seq_def Let_def cand_def [symmetric] diff by (rule refl)
  have at: "x = r + d \<Longrightarrow> of_int x = v" for x by (simp add: vr)
  consider "m + d < 0" | "0 \<le> m + d" "m + d < 65536" | "65536 \<le> m + d" by linarith
  then show ?thesis
  proof cases
    case 1
    have "(m + d + 65536) mod 65536 = m + d + 65536"
      using 1 rqm d by (intro mod_pos_pos_trivial) simp_all
    then have mod: "(m + d) mod 65536 = m + d + 65536" by simp
    have "cand - 2 ^ 16 = of_int (q * 65536 + (m + d + 65536) - 2 ^ 16)" unfolding cand mod by simp
    also have "\<dots> = v" by (rule at) (simp add: rqm(1))
    finally show ?thesis unfolding unfold mod using d by simp
  next
    case 2
    then have mod: "(m + d) mod 65536 = m + d" using rqm d by simp
    have "cand = of_int (q * 65536 + (m + d))" unfolding cand mod by simp
    also have "\<dots> = v" by (rule at) (simp add: rqm(1))
    finally show ?thesis unfolding unfold mod using d by simp
  next
    case 3
    have "(m + d - 65536) mod 65536 = m + d - 65536"
      using 3 rqm d by (intro mod_pos_pos_trivial) simp_all
    then have mod: "(m + d) mod 65536 = m + d - 65536" by simp
    have "cand + 2 ^ 16 = of_int (q * 65536 + (m + d - 65536) + 2 ^ 16)" unfolding cand mod by simp
    also have "\<dots> = v" by (rule at) (simp add: rqm(1))
    finally show ?thesis unfolding unfold mod using d by simp
  qed
qed

lemma widen_ticks_near:
  assumes "- (2 ^ 31) < v - r" "v - r < 2 ^ 31" "- (2 ^ 60) < r" "r < 2 ^ 60"
  shows "widen_ticks (of_int v) r = v"
proof -
  define q where "q = r div 2 ^ 32"
  define m where "m = r mod 2 ^ 32"
  define d where "d = v - r"
  have rqm: "r = q * 2 ^ 32 + m" "0 \<le> m" "m < 2 ^ 32" by (simp_all add: q_def m_def)
  have "uint (of_int v :: u32) = v mod 2 ^ 32" by (simp add: unsigned_of_int take_bit_eq_mod)
  then have w: "uint (of_int v :: u32) = (m + d) mod 2 ^ 32"
    using rqm(1) by (simp add: d_def m_def mod_simps)
  define cand where "cand = (r AND NOT 0xFFFFFFFF) OR uint (of_int v :: u32)"
  have m32: "(0xFFFFFFFF :: int) = mask 32" by (simp add: mask_eq_exp_minus_1)
  have c: "cand = q * 2 ^ 32 + (m + d) mod 2 ^ 32"
    using int_high_or_low [of "uint (of_int v :: u32)" 32 r] uint_lt2p [of "of_int v :: u32"]
    by (simp only: cand_def m32 w q_def) simp
  have diff: "cand - r = (m + d) mod 2 ^ 32 - m" using c rqm(1) by simp
  note def = widen_ticks_def Let_def cand_def [symmetric]
  consider "m + d < 0" | "0 \<le> m + d" "m + d < 2 ^ 32" | "2 ^ 32 \<le> m + d" by linarith
  then show ?thesis
  proof cases
    case 1
    have "(m + d + 2 ^ 32) mod 2 ^ 32 = m + d + 2 ^ 32"
      using 1 rqm assms by (intro mod_pos_pos_trivial) (simp_all add: d_def)
    then have mod: "(m + d) mod 2 ^ 32 = m + d + 2 ^ 32" by simp
    have cv: "cand - 2 ^ 32 = v" using c rqm(1) mod by (simp add: d_def)
    have "2 ^ 31 < cand - r" using diff mod assms by (simp add: d_def)
    then show ?thesis using cv assms unfolding def by simp
  next
    case 2
    then have mod: "(m + d) mod 2 ^ 32 = m + d" by simp
    have cv: "cand = v" using c rqm(1) mod by (simp add: d_def)
    show ?thesis using cv assms unfolding def by simp
  next
    case 3
    have "(m + d - 2 ^ 32) mod 2 ^ 32 = m + d - 2 ^ 32"
      using 3 rqm assms by (intro mod_pos_pos_trivial) (simp_all add: d_def)
    then have mod: "(m + d) mod 2 ^ 32 = m + d - 2 ^ 32" by simp
    have cv: "cand + 2 ^ 32 = v" using c rqm(1) mod by (simp add: d_def)
    have "cand - r < - (2 ^ 31)" using diff mod assms by (simp add: d_def)
    then show ?thesis using cv assms unfolding def by simp
  qed
qed

text \<open>A NACK's number is taken to its latest reading not after the reference, over a whole span of 16 bits.\<close>

lemma widen_at_most:
  assumes "uint (reference - s) < 2 ^ 16"
  shows "widen_seq_at_most (ucast s) reference = s"
proof -
  define d where "d = uint (reference - s)"
  define r where "r = uint reference"
  define q where "q = r div 65536"
  define m where "m = r mod 65536"
  have rqm: "r = q * 65536 + m" "0 \<le> m" "m < 65536" by (simp_all add: q_def m_def)
  have d: "0 \<le> d" "d < 65536" using assms by (simp_all add: d_def)
  have "of_int d = reference - s" by (simp add: d_def)
  then have sr: "s = of_int (r - d)" by (simp add: r_def)
  have "uint (ucast s :: u16) = (r - d) mod 2 ^ 16" unfolding sr by (rule uint_ucast_of_int)
  moreover have "r - d = q * 65536 + (m - d)" using rqm(1) by simp
  ultimately have w: "uint (ucast s :: u16) = (m - d) mod 65536" by simp
  define cand :: u32 where "cand = (reference AND 0xFFFF0000) OR ucast (ucast s :: u16)"
  have c: "uint cand = q * 65536 + (m - d) mod 65536"
    unfolding cand_def uint_high_or_low w q_def r_def by (rule refl)
  have cand: "cand = of_int (q * 65536 + (m - d) mod 65536)"
    unfolding c [symmetric] by simp
  have less: "reference < cand \<longleftrightarrow> m < (m - d) mod 65536"
    using c rqm(1) by (simp add: word_less_def r_def)
  have unfold: "widen_seq_at_most (ucast s) reference = (if reference < cand then cand - 2 ^ 16 else cand)"
    unfolding widen_seq_at_most_def Let_def cand_def [symmetric] by (rule refl)
  show ?thesis
  proof (cases "d \<le> m")
    case True
    then have "(m - d) mod 65536 = m - d" using rqm d by simp
    then have "cand = of_int (q * 65536 + (m - d))" unfolding cand by simp
    moreover have "\<not> reference < cand" unfolding less using \<open>(m - d) mod 65536 = m - d\<close> d by simp
    ultimately show ?thesis unfolding unfold using rqm(1) by (simp add: sr algebra_simps)
  next
    case False
    have "(m - d + 65536) mod 65536 = m - d + 65536"
      using False rqm d by (intro mod_pos_pos_trivial) simp_all
    then have mod: "(m - d) mod 65536 = m - d + 65536" by simp
    then have "cand - 2 ^ 16 = of_int (q * 65536 + (m - d + 65536) - 2 ^ 16)" unfolding cand by simp
    moreover have "reference < cand" unfolding less mod using d by simp
    ultimately show ?thesis unfolding unfold using rqm(1) by (simp add: sr algebra_simps)
  qed
qed

section \<open>A media stream over the wire\<close>

lemma media_rtp_canonical: "packet_canonical (media_rtp p)"
  by (simp add: media_rtp_def packet_canonical_def header_canonical_def header_fits_def rtp_header_default_def
      rtp_version_def payload_type_mpegts_def version_mask_def max_csrc_def)

lemma media_wire:
  shows "encode_media p = res_ok (packet_layout (media_rtp p))"
    and "packet_decode (packet_layout (media_rtp p)) = Some (Inr (media_rtp p))"
  using packet_encode_fits [of "media_rtp p"] packet_decode_layout [of "media_rtp p"] media_rtp_canonical [of p]
  by (auto simp: encode_media_def packet_canonical_def header_canonical_def res_ok_def)

text \<open>Source time in ticks of the RTP clock, before it is cut to 32 bits.\<close>

definition media_ticks :: "media_packet \<Rightarrow> int" where
  "media_ticks p = rtp_ticks_from_micros (int (ntp_to_timestamp (mp_source_time p)))"

lemma ntp_to_timestamp_bound: "ntp_to_timestamp n < 2 ^ 52"
proof -
  have a: "unat (drop_bit 32 n) < 2 ^ 32"
  proof -
    have "unat n < 2 ^ LENGTH(64)" by (rule unsigned_less)
    then have "unat n < 2 ^ 32 * 2 ^ 32" by simp
    moreover have "unat (drop_bit 32 n) = unat n div 2 ^ 32" by (subst unat_drop_bit_eq) (simp add: drop_bit_eq_div)
    ultimately show ?thesis by (simp only: less_mult_imp_div_less)
  qed
  have b: "unat (n AND mask 32) < 2 ^ 32" unfolding unat_and_mask by simp
  have "(unat (n AND mask 32) * us_per_second + 2 ^ 31) div 2 ^ 32 \<le> us_per_second"
    using b by (intro less_Suc_eq_le [THEN iffD1] less_mult_imp_div_less) (simp add: us_per_second_def)
  then show ?thesis using a by (simp add: ntp_to_timestamp_def Let_def mask32 us_per_second_def)
qed

lemma media_ticks_bounds: "0 \<le> media_ticks p" "media_ticks p < 2 ^ 49"
proof -
  define t where "t = int (ntp_to_timestamp (mp_source_time p))"
  have t: "0 \<le> t" "t < 2 ^ 52"
    using ntp_to_timestamp_bound [of "mp_source_time p"] by (simp_all add: t_def)
  then have "media_ticks p = t * 9 div 100"
    by (simp add: media_ticks_def rtp_ticks_from_micros_def t_def [symmetric] trunc_div_def)
  with t show "0 \<le> media_ticks p" "media_ticks p < 2 ^ 49" by simp_all
qed

lemma media_rtp_timestamp: "rtp_ts_from_source (mp_source_time p) = of_int (media_ticks p)"
  using ntp_to_timestamp_bound [of "mp_source_time p"] by (simp add: rtp_ts_from_source_def media_ticks_def)

text \<open>What the receiving flow gets of a packet when the decoder's numbers are \<open>shift\<close> below the sender's and its
  ticks \<open>base\<close> below.\<close>

definition media_received :: "u32 \<Rightarrow> int \<Rightarrow> media_packet \<Rightarrow> media_packet" where
  "media_received shift base p =
     \<lparr>mp_seq = mp_seq p - shift, mp_source_time = source_of_ticks (media_ticks p - base), mp_ssrc = mp_ssrc p,
      mp_payload = mp_payload p, mp_retransmit = mp_retransmit p, mp_path_id = 0, mp_frag = Standalone,
      mp_virt_src_port = 0, mp_virt_dst_port = 0, mp_short_seq = True\<rparr>"

text \<open>The next packet to arrive is within half the range of the wire fields.\<close>

definition media_near :: "media_packet \<Rightarrow> media_packet \<Rightarrow> bool" where
  "media_near p q \<longleftrightarrow>
     - (2 ^ 15) < sint (mp_seq q - mp_seq p) \<and> sint (mp_seq q - mp_seq p) < 2 ^ 15
     \<and> \<bar>media_ticks q - media_ticks p\<bar> < 2 ^ 31"

fun near_stream :: "media_packet \<Rightarrow> media_packet list \<Rightarrow> bool" where
  "near_stream p [] = True"
| "near_stream p (q # qs) = (media_near p q \<and> near_stream q qs)"

fun media_link :: "media_packet list \<Rightarrow> media_decoder \<Rightarrow> (codec_error + media_packet) list option" where
  "media_link [] d = Some []"
| "media_link (p # ps) d =
     (case encode_media p of
        None \<Rightarrow> None
      | Some (Inl e) \<Rightarrow> map_option (Cons (Inl e)) (media_link ps d)
      | Some (Inr b) \<Rightarrow>
          (case md_decode b d of None \<Rightarrow> None | Some (d', r) \<Rightarrow> map_option (Cons r) (media_link ps d')))"

lemma ssrc_marks:
  assumes "\<not> is_retransmit ssrc"
  shows "normalize_ssrc ssrc = ssrc" "normalize_ssrc (mark_retransmit ssrc) = ssrc" "is_retransmit (mark_retransmit ssrc)"
proof -
  show n: "normalize_ssrc ssrc = ssrc"
    using assms unfolding is_retransmit_bit normalize_ssrc_def
    by (intro bit_word_eqI) (auto simp: bit_and_iff bit_not_iff bit_1_iff intro: gr0I)
  show "normalize_ssrc (mark_retransmit ssrc) = ssrc" using retransmit_marks(3) n by simp
  show "is_retransmit (mark_retransmit ssrc)" by (rule retransmit_marks)
qed

text \<open>One packet through a decoder that has seen a packet before.\<close>

definition md_follows :: "u32 \<Rightarrow> int \<Rightarrow> media_packet \<Rightarrow> media_decoder \<Rightarrow> bool" where
  "md_follows shift base p d \<longleftrightarrow> md_started d \<and> md_ref_seq d = mp_seq p - shift \<and> md_ref_ticks d = media_ticks p - base"

lemma md_decode_at:
  assumes "\<not> is_retransmit (mp_ssrc p)"
    and "md_widen (ucast (mp_seq p)) (of_int (media_ticks p)) (d\<lparr>md_last_wire_ts := of_int (media_ticks p)\<rparr>)
      = (d', mp_seq p - shift, source_of_ticks (media_ticks p - base))"
  shows "md_decode (packet_layout (media_rtp p)) d = Some (d', Inr (media_received shift base p))"
  using assms unfolding md_decode_def media_wire(2)
  by (simp add: media_rtp_def rtp_header_default_def media_rtp_timestamp media_received_def
      ssrc_marks Let_def)

lemma mod_16_of_32: "z mod 4294967296 mod 65536 = z mod (65536 :: int)"
  by (rule mod_mod_cancel) simp

lemma ucast16_add: "ucast (a + b :: u32) = (ucast a + ucast b :: u16)"
proof -
  have "(x mod 4294967296 + y mod 4294967296) mod 65536 = (x + y) mod 65536" for x y :: int
    by (metis (no_types) mod_16_of_32 mod_add_eq)
  then show ?thesis by transfer (simp add: take_bit_eq_mod mod_16_of_32)
qed

lemma low16_shift: "ucast shift = (0 :: u16) \<Longrightarrow> ucast (s - shift :: u32) = (ucast s :: u16)"
  using ucast16_add [of "s - shift" shift] by simp

lemma md_widen_follows:
  assumes prev: "md_follows shift base p d" and near: "media_near p q"
    and cut: "ucast shift = (0 :: u16)" "base mod 2 ^ 32 = 0" "0 \<le> base" "base < 2 ^ 49"
  shows "\<exists>d'. md_widen (ucast (mp_seq q)) (of_int (media_ticks q)) (d\<lparr>md_last_wire_ts := ts\<rparr>)
      = (d', mp_seq q - shift, source_of_ticks (media_ticks q - base)) \<and> md_follows shift base q d'"
proof -
  define e where "e = sint (mp_seq q - mp_seq p)"
  have "mp_seq q - shift = (mp_seq p - shift) + of_int e" by (simp add: e_def)
  then have "widen_seq (ucast (mp_seq q - shift)) (mp_seq p - shift) = mp_seq q - shift"
    by (rule widen_seq_near) (use near in \<open>simp_all add: media_near_def e_def\<close>)
  then have seq: "widen_seq (ucast (mp_seq q)) (mp_seq p - shift) = mp_seq q - shift"
    by (simp add: low16_shift [OF cut(1)])
  have "uint (of_int base :: u32) = 0" using cut(2) by (simp add: unsigned_of_int take_bit_eq_mod)
  then have "of_int (media_ticks q - base) = (of_int (media_ticks q) :: u32)" by (simp add: unsigned_eq_0_iff)
  moreover have "widen_ticks (of_int (media_ticks q - base)) (media_ticks p - base) = media_ticks q - base"
    using near cut(3,4) media_ticks_bounds [of p] media_ticks_bounds [of q]
    by (intro widen_ticks_near) (auto simp: media_near_def abs_less_iff)
  ultimately have ticks: "widen_ticks (of_int (media_ticks q)) (media_ticks p - base) = media_ticks q - base" by simp
  show ?thesis using prev by (simp add: md_follows_def md_widen_def seq ticks)
qed

lemma media_link_follows:
  assumes "md_follows shift base p d" "near_stream p qs" "list_all (\<lambda>q. \<not> is_retransmit (mp_ssrc q)) qs"
    and cut: "ucast shift = (0 :: u16)" "base mod 2 ^ 32 = 0" "0 \<le> base" "base < 2 ^ 49"
  shows "media_link qs d = Some (map (\<lambda>q. Inr (media_received shift base q)) qs)"
  using assms(1-3)
proof (induction qs arbitrary: p d)
  case Nil
  then show ?case by simp
next
  case (Cons q qs)
  obtain d' where w: "md_widen (ucast (mp_seq q)) (of_int (media_ticks q))
      (d\<lparr>md_last_wire_ts := of_int (media_ticks q)\<rparr>) = (d', mp_seq q - shift, source_of_ticks (media_ticks q - base))"
    "md_follows shift base q d'"
    using md_widen_follows [OF Cons.prems(1) _ cut, of q] Cons.prems(2) by auto
  have "md_decode (packet_layout (media_rtp q)) d = Some (d', Inr (media_received shift base q))"
    using Cons.prems(3) w(1) by (intro md_decode_at) simp_all
  moreover have "media_link qs d' = Some (map (\<lambda>q. Inr (media_received shift base q)) qs)"
    using Cons.IH [OF w(2)] Cons.prems(2,3) by simp
  ultimately show ?case by (simp add: media_wire(1) res_ok_def)
qed

text \<open>The shift and the base are what the wire fields of the first packet cut off.\<close>

definition first_shift :: "media_packet \<Rightarrow> u32" where
  "first_shift p = mp_seq p - ucast (ucast (mp_seq p) :: u16)"

definition first_base :: "media_packet \<Rightarrow> int" where
  "first_base p = media_ticks p div 2 ^ 32 * 2 ^ 32"

lemma first_consts:
  "ucast (first_shift p) = (0 :: u16)" "first_base p mod 2 ^ 32 = 0" "0 \<le> first_base p" "first_base p < 2 ^ 49"
proof -
  have "ucast (ucast (ucast (mp_seq p) :: u16) :: u32) = (ucast (mp_seq p) :: u16)"
    by (rule bit_word_eqI) (auto simp: bit_simps)
  then show "ucast (first_shift p) = (0 :: u16)"
    using ucast16_add [of "first_shift p" "ucast (ucast (mp_seq p) :: u16)"] by (simp add: first_shift_def)
  have "first_base p \<le> media_ticks p" using pos_mod_sign [of "2 ^ 32" "media_ticks p"]
    by (simp add: first_base_def minus_mod_eq_div_mult [symmetric])
  then show "first_base p < 2 ^ 49" using media_ticks_bounds [of p] by simp
  show "0 \<le> first_base p" using media_ticks_bounds [of p] by (simp add: first_base_def)
qed (simp add: first_base_def)

lemma media_link_first:
  assumes "\<not> is_retransmit (mp_ssrc p)"
  shows "\<exists>d. md_decode (packet_layout (media_rtp p)) media_decoder_new
      = Some (d, Inr (media_received (first_shift p) (first_base p) p)) \<and> md_follows (first_shift p) (first_base p) p d"
proof -
  have seq: "mp_seq p - first_shift p = ucast (ucast (mp_seq p) :: u16)" by (simp add: first_shift_def)
  have ticks: "media_ticks p - first_base p = uint (of_int (media_ticks p) :: u32)"
    by (simp add: first_base_def minus_div_mult_eq_mod unsigned_of_int take_bit_eq_mod)
  let ?d = "media_decoder_new\<lparr>md_last_wire_ts := of_int (media_ticks p), md_started := True,
      md_ref_seq := mp_seq p - first_shift p, md_ref_ticks := media_ticks p - first_base p\<rparr>"
  have "md_widen (ucast (mp_seq p)) (of_int (media_ticks p)) (media_decoder_new\<lparr>md_last_wire_ts := of_int (media_ticks p)\<rparr>)
      = (?d, mp_seq p - first_shift p, source_of_ticks (media_ticks p - first_base p))"
    by (simp add: md_widen_def media_decoder_new_def seq ticks)
  from md_decode_at [OF assms this] show ?thesis by (auto simp: md_follows_def)
qed

lemma media_link_received:
  assumes "list_all (\<lambda>q. \<not> is_retransmit (mp_ssrc q)) (p # ps)" "near_stream p ps"
  shows "media_link (p # ps) media_decoder_new
    = Some (map (\<lambda>q. Inr (media_received (first_shift p) (first_base p) q)) (p # ps))"
proof -
  obtain d where d: "md_decode (packet_layout (media_rtp p)) media_decoder_new
      = Some (d, Inr (media_received (first_shift p) (first_base p) p))" "md_follows (first_shift p) (first_base p) p d"
    using media_link_first [of p] assms(1) by auto
  have "media_link ps d = Some (map (\<lambda>q. Inr (media_received (first_shift p) (first_base p) q)) ps)"
    using assms by (intro media_link_follows [OF d(2)] first_consts) simp_all
  with d(1) show ?thesis by (simp add: media_wire(1) res_ok_def)
qed

section \<open>Feedback over the wire\<close>

text \<open>The sequence numbers a list of feedback asks for on one SSRC, and its echo messages as sent: a request carries
  the local SSRC.\<close>

definition asked_of :: "u32 \<Rightarrow> feedback \<Rightarrow> u32 list" where
  "asked_of ssrc fb = (case fb of Nack s missing \<Rightarrow> if s = ssrc then missing else [] | _ \<Rightarrow> [])"

definition asked :: "u32 \<Rightarrow> feedback list \<Rightarrow> u32 list" where
  "asked ssrc fbs = concat (map (asked_of ssrc) fbs)"

definition echo_of :: "u32 \<Rightarrow> feedback \<Rightarrow> feedback list" where
  "echo_of local_ssrc fb =
     (case fb of RttEchoRequest s t \<Rightarrow> [RttEchoRequest local_ssrc t] | RttEchoResponse s t d \<Rightarrow> [fb] | _ \<Rightarrow> [])"

definition echoes_in :: "feedback list \<Rightarrow> feedback list" where
  "echoes_in fbs = filter (\<lambda>fb. case fb of RttEchoRequest s t \<Rightarrow> True | RttEchoResponse s t d \<Rightarrow> True | _ \<Rightarrow> False) fbs"

text \<open>A NACK the sender's history can answer: every number is one of the last 65536 before the reference; a range
  NACK holds no more numbers than its decoder expands.\<close>

definition answerable :: "bool \<Rightarrow> u32 \<Rightarrow> feedback \<Rightarrow> bool" where
  "answerable bitmask nack_ref fb =
     (case fb of
        Nack s missing \<Rightarrow> (bitmask \<or> length missing \<le> 65536) \<and> list_all (\<lambda>m. uint (nack_ref - m) < 2 ^ 16) missing
      | _ \<Rightarrow> True)"

definition nack_packet_ok :: "rtcp_packet \<Rightarrow> bool" where
  "nack_packet_ok p \<longleftrightarrow> is_nack p \<and> rtcp_canonical p"

lemma widen_low16:
  assumes "uint (nack_ref - m) < 2 ^ 16"
  shows "widen_seq_at_most (ucast (low16 m)) nack_ref = m"
proof -
  have "ucast (low16 m) = (ucast m :: u16)"
    by (rule bit_word_eqI) (auto simp: low16_def bit_simps)
  with widen_at_most [OF assms] show ?thesis by simp
qed

text \<open>What one NACK becomes.\<close>

lemma range_nack_asked:
  fixes sender media ssrc :: u32
  assumes "length missing \<le> 65536" "list_all (\<lambda>m. uint (nack_ref - m) < 2 ^ 16) missing"
  defines "ps \<equiv> map P_Range_Nack (encode_range_nack sender media missing)"
  shows "list_all nack_packet_ok ps \<and> echoes_in (concat (map (feedback_of nack_ref) ps)) = []
    \<and> set (asked ssrc (concat (map (feedback_of nack_ref) ps))) = set (asked_of ssrc (Nack media missing))"
proof -
  let ?es = "encode_range_nack sender media missing"
  note shape = encode_range_packs [of sender media missing, THEN conjunct2]
  have "list_all nack_packet_ok ps"
    using shape by (auto simp: ps_def list_all_iff nack_packet_ok_def rtcp_canonical_def)
  moreover have "echoes_in (concat (map (feedback_of nack_ref) ps)) = []"
    by (simp add: ps_def echoes_in_def nack_to_wire_def comp_def filter_concat)
  moreover have "set (asked ssrc (concat (map (feedback_of nack_ref) ps))) = set (asked_of ssrc (Nack media missing))"
  proof (cases "media = ssrc")
    case True
    have "set (asked ssrc (concat (map (feedback_of nack_ref) ps)))
        = (\<lambda>s. widen_seq_at_most (ucast s) nack_ref) ` set (concat (map range_missing_seqs ?es))"
      using shape True by (auto simp: ps_def asked_def asked_of_def nack_to_wire_def)
    also have "\<dots> = set missing"
      using range_nack_expands [of missing sender media] assms(1,2) widen_low16
      by (force simp: max_nack_expand_def list_all_iff image_image)
    finally show ?thesis using True by (simp add: asked_of_def)
  next
    case False
    then show ?thesis using shape by (auto simp: ps_def asked_def asked_of_def nack_to_wire_def)
  qed
  ultimately show ?thesis by simp
qed

lemma bitmask_nack_asked:
  assumes "list_all (\<lambda>m. uint (nack_ref - m) < 2 ^ 16) missing"
  obtains pkts where "encode_bitmask_nack 0 media missing = Some pkts"
    "list_all nack_packet_ok (map P_Bitmask_Nack pkts)"
    "echoes_in (concat (map (feedback_of nack_ref) (map P_Bitmask_Nack pkts))) = []"
    "\<And>ssrc. set (asked ssrc (concat (map (feedback_of nack_ref) (map P_Bitmask_Nack pkts))))
      = set (asked_of ssrc (Nack media missing))"
proof -
  obtain pkts where pkts: "encode_bitmask_nack 0 media missing = Some pkts"
    "\<forall>p\<in>set pkts. bitmask_shape 0 media p"
    "(\<Union>p\<in>set pkts. set (bitmask_missing_seqs p)) = low16 ` set missing"
    using bitmask_nack_expands by blast
  show thesis
  proof (rule that [OF pkts(1)])
    show "list_all nack_packet_ok (map P_Bitmask_Nack pkts)"
      using pkts(2) by (auto simp: list_all_iff nack_packet_ok_def rtcp_canonical_def bitmask_shape_def)
    show "echoes_in (concat (map (feedback_of nack_ref) (map P_Bitmask_Nack pkts))) = []"
      by (simp add: echoes_in_def nack_to_wire_def comp_def filter_concat)
    fix ssrc
    show "set (asked ssrc (concat (map (feedback_of nack_ref) (map P_Bitmask_Nack pkts))))
      = set (asked_of ssrc (Nack media missing))"
    proof (cases "media = ssrc")
      case True
      have "set (asked ssrc (concat (map (feedback_of nack_ref) (map P_Bitmask_Nack pkts))))
          = (\<lambda>s. widen_seq_at_most (ucast s) nack_ref) ` (\<Union>p\<in>set pkts. set (bitmask_missing_seqs p))"
        using pkts(2) True by (auto simp: asked_def asked_of_def nack_to_wire_def bitmask_shape_def)
      also have "\<dots> = set missing"
        unfolding pkts(3) using assms widen_low16 by (force simp: list_all_iff image_image)
      finally show ?thesis using True by (simp add: asked_of_def)
    next
      case False
      then show ?thesis using pkts(2) by (auto simp: asked_def asked_of_def nack_to_wire_def bitmask_shape_def)
    qed
  qed
qed

lemma asked_simps [simp]:
  "asked ssrc [] = []" "asked ssrc (fb # fbs) = asked_of ssrc fb @ asked ssrc fbs"
  "asked ssrc (xs @ ys) = asked ssrc xs @ asked ssrc ys"
  by (simp_all add: asked_def)

lemma echoes_in_append [simp]: "echoes_in [] = []" "echoes_in (xs @ ys) = echoes_in xs @ echoes_in ys"
  by (simp_all add: echoes_in_def)

lemma no_echo_no_nack [simp]:
  "echo_of l (SenderReport n r) = []" "echo_of l Keepalive = []" "echo_of l (ExtSeq h) = []"
  "echo_of l (LinkQuality q) = []" "echo_of l (FlowAttribute j) = []"
  "asked_of s (SenderReport n r) = []" "asked_of s Keepalive = []" "asked_of s (ExtSeq h) = []"
  "asked_of s (LinkQuality q) = []" "asked_of s (FlowAttribute j) = []"
  by (simp_all add: echo_of_def asked_of_def)

definition echo_packet_ok :: "rtcp_packet \<Rightarrow> bool" where
  "echo_packet_ok p \<longleftrightarrow>
     (case p of P_Echo_Request e \<Rightarrow> eq_padding e = [] | P_Echo_Response e \<Rightarrow> er_padding e = [] | _ \<Rightarrow> False)"

lemma feedback_packets_spec:
  assumes "list_all (answerable bitmask nack_ref) fbs"
  shows "\<exists>ns es. feedback_packets local_ssrc bitmask fbs nacks echoes = Some (nacks @ ns, echoes @ es)
    \<and> list_all nack_packet_ok ns \<and> list_all echo_packet_ok es
    \<and> concat (map (feedback_of nack_ref) es) = concat (map (echo_of local_ssrc) fbs)
    \<and> echoes_in (concat (map (feedback_of nack_ref) ns)) = []
    \<and> (\<forall>ssrc. set (asked ssrc (concat (map (feedback_of nack_ref) ns))) = set (asked ssrc fbs))"
  using assms
proof (induction fbs arbitrary: nacks echoes)
  case Nil
  then show ?case by simp
next
  case (Cons fb fbs)
  let ?goal = "\<lambda>ns es. feedback_packets local_ssrc bitmask (fb # fbs) nacks echoes = Some (nacks @ ns, echoes @ es)
    \<and> list_all nack_packet_ok ns \<and> list_all echo_packet_ok es
    \<and> concat (map (feedback_of nack_ref) es) = concat (map (echo_of local_ssrc) (fb # fbs))
    \<and> echoes_in (concat (map (feedback_of nack_ref) ns)) = []
    \<and> (\<forall>ssrc. set (asked ssrc (concat (map (feedback_of nack_ref) ns))) = set (asked ssrc (fb # fbs)))"
  have IH: "\<exists>ns es. feedback_packets local_ssrc bitmask fbs nacks' echoes' = Some (nacks' @ ns, echoes' @ es)
    \<and> list_all nack_packet_ok ns \<and> list_all echo_packet_ok es
    \<and> concat (map (feedback_of nack_ref) es) = concat (map (echo_of local_ssrc) fbs)
    \<and> echoes_in (concat (map (feedback_of nack_ref) ns)) = []
    \<and> (\<forall>ssrc. set (asked ssrc (concat (map (feedback_of nack_ref) ns))) = set (asked ssrc fbs))" for nacks' echoes'
    using Cons.prems by (intro Cons.IH) simp
  show ?case
  proof (cases fb)
    case (Nack media missing)
    have ok: "list_all (\<lambda>m. uint (nack_ref - m) < 2 ^ 16) missing" "bitmask \<or> length missing \<le> 65536"
      using Cons.prems by (simp_all add: Nack answerable_def)
    obtain ps where ps: "\<And>fbs. feedback_packets local_ssrc bitmask (fb # fbs) nacks echoes
          = feedback_packets local_ssrc bitmask fbs (nacks @ ps) echoes"
      "list_all nack_packet_ok ps" "echoes_in (concat (map (feedback_of nack_ref) ps)) = []"
      "\<And>ssrc. set (asked ssrc (concat (map (feedback_of nack_ref) ps))) = set (asked_of ssrc fb)"
    proof (cases bitmask)
      case True
      obtain pkts where pkts: "encode_bitmask_nack 0 media missing = Some pkts"
        "list_all nack_packet_ok (map P_Bitmask_Nack pkts)"
        "echoes_in (concat (map (feedback_of nack_ref) (map P_Bitmask_Nack pkts))) = []"
        "\<And>ssrc. set (asked ssrc (concat (map (feedback_of nack_ref) (map P_Bitmask_Nack pkts))))
          = set (asked_of ssrc (Nack media missing))"
        using bitmask_nack_asked [OF ok(1)] by blast
      show thesis
        by (rule that [OF _ pkts(2,3) pkts(4) [folded Nack]]) (simp add: Nack True pkts(1))
    next
      case False
      then show thesis using range_nack_asked [OF _ ok(1), of local_ssrc media] ok(2) that by (simp add: Nack)
    qed
    obtain ns es where IHs: "feedback_packets local_ssrc bitmask fbs (nacks @ ps) echoes = Some ((nacks @ ps) @ ns, echoes @ es)"
      "list_all nack_packet_ok ns" "list_all echo_packet_ok es"
      "concat (map (feedback_of nack_ref) es) = concat (map (echo_of local_ssrc) fbs)"
      "echoes_in (concat (map (feedback_of nack_ref) ns)) = []"
      "\<And>ssrc. set (asked ssrc (concat (map (feedback_of nack_ref) ns))) = set (asked ssrc fbs)"
      using IH by blast
    have "?goal (ps @ ns) es"
      using ps IHs by (simp add: echo_of_def Nack)
    then show ?thesis by blast
  next
    case (RttEchoRequest s t)
    from IH [of nacks "echoes @ [P_Echo_Request \<lparr>eq_ssrc = local_ssrc, eq_timestamp = t, eq_padding = []\<rparr>]"]
    obtain ns es where IHs: "feedback_packets local_ssrc bitmask (fb # fbs) nacks echoes
        = Some (nacks @ ns, echoes @ P_Echo_Request \<lparr>eq_ssrc = local_ssrc, eq_timestamp = t, eq_padding = []\<rparr> # es)"
      "list_all nack_packet_ok ns" "list_all echo_packet_ok es"
      "concat (map (feedback_of nack_ref) es) = concat (map (echo_of local_ssrc) fbs)"
      "echoes_in (concat (map (feedback_of nack_ref) ns)) = []"
      "\<And>ssrc. set (asked ssrc (concat (map (feedback_of nack_ref) ns))) = set (asked ssrc fbs)"
      by (auto simp: RttEchoRequest)
    have "?goal ns (P_Echo_Request \<lparr>eq_ssrc = local_ssrc, eq_timestamp = t, eq_padding = []\<rparr> # es)"
      using IHs by (simp add: RttEchoRequest echo_of_def echo_packet_ok_def asked_of_def)
    then show ?thesis by blast
  next
    case (RttEchoResponse s t d)
    let ?e = "P_Echo_Response \<lparr>er_ssrc = s, er_timestamp = t, er_processing_delay = d, er_padding = []\<rparr>"
    from IH [of nacks "echoes @ [?e]"]
    obtain ns es where IHs: "feedback_packets local_ssrc bitmask (fb # fbs) nacks echoes = Some (nacks @ ns, echoes @ ?e # es)"
      "list_all nack_packet_ok ns" "list_all echo_packet_ok es"
      "concat (map (feedback_of nack_ref) es) = concat (map (echo_of local_ssrc) fbs)"
      "echoes_in (concat (map (feedback_of nack_ref) ns)) = []"
      "\<And>ssrc. set (asked ssrc (concat (map (feedback_of nack_ref) ns))) = set (asked ssrc fbs)"
      by (auto simp: RttEchoResponse)
    have "?goal ns (?e # es)"
      using IHs by (simp add: RttEchoResponse echo_of_def echo_packet_ok_def asked_of_def)
    then show ?thesis by blast
  qed (use IH [of nacks echoes] in simp_all)
qed

lemma check_classes_echoes: "list_all echo_packet_ok es \<Longrightarrow> c \<le> 1 \<Longrightarrow> check_classes c es = None"
  by (induction es arbitrary: c) (auto simp: echo_packet_ok_def split: rtcp_packet.splits)

lemma check_classes_nacks:
  "list_all nack_packet_ok ns \<Longrightarrow> list_all echo_packet_ok es \<Longrightarrow> check_classes 0 (ns @ es) = None"
proof (induction ns)
  case Nil
  then show ?case by (simp add: check_classes_echoes)
next
  case (Cons p ns)
  then show ?case by (cases p) (simp_all add: nack_packet_ok_def)
qed

lemma echo_packet_canonical: "echo_packet_ok p \<Longrightarrow> rtcp_canonical p"
  by (cases p) (simp_all add: echo_packet_ok_def rtcp_canonical_def)

lemma echo_lists:
  "echoes_in (concat (map (echo_of local_ssrc) fbs)) = concat (map (echo_of local_ssrc) fbs)"
  "asked ssrc (concat (map (echo_of local_ssrc) fbs)) = []"
proof (induction fbs)
  case (Cons fb fbs)
  { case 1 then show ?case using Cons(1) by (cases fb) (simp_all add: echo_of_def echoes_in_def)
  next case 2 then show ?case using Cons(2) by (cases fb) (simp_all add: echo_of_def asked_of_def) }
qed simp_all

lemma report_feedback:
  assumes "is_report lead"
  shows "echoes_in (feedback_of nack_ref lead) = []" "asked ssrc (feedback_of nack_ref lead) = []"
  using assms by (cases lead; simp add: echoes_in_def asked_of_def)+

lemma feedback_wire:
  assumes "list_all (answerable bitmask nack_ref) fbs"
    and "is_report lead" "rtcp_canonical lead" "length cname \<le> 255"
  shows "\<exists>b out. encode_feedback lead local_ssrc cname fbs bitmask = res_ok b \<and> decode_feedback b nack_ref = res_ok out
    \<and> echoes_in out = concat (map (echo_of local_ssrc) fbs) \<and> (\<forall>ssrc. set (asked ssrc out) = set (asked ssrc fbs))"
proof -
  obtain ns es where p: "feedback_packets local_ssrc bitmask fbs [] [] = Some (ns, es)"
    "list_all nack_packet_ok ns" "list_all echo_packet_ok es"
    "concat (map (feedback_of nack_ref) es) = concat (map (echo_of local_ssrc) fbs)"
    "echoes_in (concat (map (feedback_of nack_ref) ns)) = []"
    "\<And>ssrc. set (asked ssrc (concat (map (feedback_of nack_ref) ns))) = set (asked ssrc fbs)"
    using feedback_packets_spec [OF assms(1), of local_ssrc "[]" "[]"] by auto
  define pkts where "pkts = [lead, P_Sdes \<lparr>sd_ssrc = local_ssrc, sd_cname = cname\<rparr>] @ ns @ es"
  have "rtcp_canonical (P_Sdes \<lparr>sd_ssrc = local_ssrc, sd_cname = cname\<rparr>)"
    using assms(4) by (simp add: rtcp_canonical_def)
  then have canon: "\<forall>p\<in>set pkts. rtcp_canonical p"
    using p(2,3) assms(3) echo_packet_canonical by (auto simp: pkts_def list_all_iff nack_packet_ok_def)
  have order: "check_compound_order pkts = None"
    using p(2,3) assms(2) by (simp add: pkts_def check_compound_order_def check_classes_nacks)
  let ?b = "concat (map rtcp_encode pkts)"
  have build: "build_compound [] pkts = (?b, None)" by (simp add: build_compound_bytes order)
  have "parse_packets ?b = Some (Inr pkts)" using canon by (rule parse_packets_encode)
  moreover have "?b \<noteq> []"
    using assms(3) rtcp_parse_consumes [OF rtcp_parse_encode [of lead "[]"]] length_rtcp_encode [of lead]
    by (auto simp: pkts_def)
  ultimately have parse: "parse_compound ?b = Some (Inr pkts)" by (simp add: parse_compound_def)
  let ?out = "concat (map (feedback_of nack_ref) pkts)"
  have enc: "encode_feedback lead local_ssrc cname fbs bitmask = res_ok ?b"
    using build by (simp add: encode_feedback_def p(1) pkts_def)
  have dec: "decode_feedback ?b nack_ref = res_ok ?out" by (simp add: decode_feedback_def parse)
  have "echoes_in ?out = concat (map (echo_of local_ssrc) fbs)"
    using p(4,5) report_feedback(1) [OF assms(2)] echo_lists(1) by (simp add: pkts_def)
  moreover have "set (asked ssrc ?out) = set (asked ssrc fbs)" for ssrc
    using p(4,6) report_feedback(2) [OF assms(2)] echo_lists(2) by (simp add: pkts_def)
  ultimately show ?thesis using enc dec by blast
qed

section \<open>The properties\<close>

text \<open>C36: A media stream reaches the receiving flow. Whatever loss, duplication, retransmission and reordering made of it,
  as long as each packet to arrive is within 2^15 numbers and 2^31 ticks of the one before, the fresh decoder gives
  the flow every packet with its payload, SSRC and retransmission mark, its 32-bit number less one constant (what the
  16-bit field cut off the first), across the wrap of both fields and of the 32-bit space, and its source time in ticks
  less one constant: copies of one packet get the same number and source time.\<close>

theorem media_stream_received:
  assumes "list_all (\<lambda>q. \<not> is_retransmit (mp_ssrc q)) (p # ps)" "near_stream p ps"
  shows "media_link (p # ps) media_decoder_new
    = Some (map (\<lambda>q. Inr (media_received (first_shift p) (first_base p) q)) (p # ps))"
  using assms by (rule media_link_received)

definition sample_media :: "u32 \<Rightarrow> bool \<Rightarrow> media_packet" where
  "sample_media seq again =
     \<lparr>mp_seq = seq, mp_source_time = push_bit 32 77, mp_ssrc = 8, mp_payload = [0x47], mp_retransmit = again,
      mp_path_id = 0, mp_frag = Standalone, mp_virt_src_port = 0, mp_virt_dst_port = 0, mp_short_seq = True\<rparr>"

theorem media_stream_received_witness:
  "media_link [sample_media 0xFFFFFFFE False, sample_media 1 False, sample_media 0xFFFFFFFF True] media_decoder_new
    = Some (map (\<lambda>q. Inr (media_received (first_shift (sample_media 0xFFFFFFFE False))
        (first_base (sample_media 0xFFFFFFFE False)) q))
      [sample_media 0xFFFFFFFE False, sample_media 1 False, sample_media 0xFFFFFFFF True])"
proof (rule media_stream_received)
  show "list_all (\<lambda>q. \<not> is_retransmit (mp_ssrc q))
      [sample_media 0xFFFFFFFE False, sample_media 1 False, sample_media 0xFFFFFFFF True]"
    by (simp add: sample_media_def is_retransmit_def)
  have same: "media_ticks (sample_media a x) = media_ticks (sample_media b y)" for a b x y
    by (simp add: media_ticks_def sample_media_def)
  have t: "\<bar>media_ticks (sample_media a x) - media_ticks (sample_media b y)\<bar> < 2 ^ 31" for a b x y
    using same [of a x b y] by simp
  show "near_stream (sample_media 0xFFFFFFFE False) [sample_media 1 False, sample_media 0xFFFFFFFF True]"
    using t by (simp add: media_near_def) (simp add: sample_media_def)
qed

text \<open>Feedback reaches the peer's flow. From the feedback of a flow the strategy builds a compound behind any
  canonical report, and decoding it at the sender's position gives on every SSRC a request for exactly the 32-bit
  numbers asked for, in either NACK form, when each is one of the last 65536 before that position (and a range NACK
  has at most 65536), and the echo messages in order, a request stamped with the local SSRC.\<close>

theorem feedback_reaches_peer:
  assumes "list_all (answerable bitmask nack_ref) fbs"
    and "is_report lead" "rtcp_canonical lead" "length cname \<le> 255"
  shows "\<exists>b out. encode_feedback lead local_ssrc cname fbs bitmask = res_ok b \<and> decode_feedback b nack_ref = res_ok out
    \<and> echoes_in out = concat (map (echo_of local_ssrc) fbs) \<and> (\<forall>ssrc. set (asked ssrc out) = set (asked ssrc fbs))"
  using assms by (rule feedback_wire)

definition sample_feedback :: "feedback list" where
  "sample_feedback = [RttEchoRequest 0 5, Nack 8 [0xFFFFFFFF, 3], Keepalive, RttEchoResponse 4 6 7, Nack 8 [4]]"

theorem feedback_reaches_peer_witness:
  "\<exists>b out. encode_feedback (P_Empty_Receiver_Report 9) 9 [0x61] sample_feedback False = res_ok b
    \<and> decode_feedback b 6 = res_ok out
    \<and> echoes_in out = concat (map (echo_of 9) sample_feedback)
    \<and> (\<forall>ssrc. set (asked ssrc out) = set (asked ssrc sample_feedback))"
  by (rule feedback_reaches_peer) (simp_all add: sample_feedback_def answerable_def rtcp_canonical_def)

end
