(* ===== verification/State_Results.thy ===== *)
theory State_Results
  imports Fallible
begin

text \<open>
  Fallible methods on a mutable receiver: \<open>None\<close> is a panic, otherwise the state at the return and the
  error or the value. A state changed before an early return stays changed.
\<close>

type_synonym ('s, 'e, 'a) st_result = "('s \<times> ('e + 'a)) option"

definition st_ok :: "'s \<Rightarrow> 'a \<Rightarrow> ('s, 'e, 'a) st_result" where
  "st_ok s x = Some (s, Inr x)"

definition st_err :: "'s \<Rightarrow> 'e \<Rightarrow> ('s, 'e, 'a) st_result" where
  "st_err s e = Some (s, Inl e)"

text \<open>A call that does not touch the state, and one that does.\<close>

definition st_try :: "'s \<Rightarrow> ('e, 'a) result \<Rightarrow> ('a \<Rightarrow> ('s, 'e, 'b) st_result) \<Rightarrow> ('s, 'e, 'b) st_result" where
  "st_try s m f = (case m of None \<Rightarrow> None | Some (Inl e) \<Rightarrow> st_err s e | Some (Inr x) \<Rightarrow> f x)"

definition st_bind :: "('s, 'e, 'a) st_result \<Rightarrow> ('s \<Rightarrow> 'a \<Rightarrow> ('s, 'e, 'b) st_result) \<Rightarrow> ('s, 'e, 'b) st_result" where
  "st_bind m f = (case m of None \<Rightarrow> None | Some (s, Inl e) \<Rightarrow> st_err s e | Some (s, Inr x) \<Rightarrow> f s x)"

lemma st_try_simps [simp]:
  "st_try s (res_ok x) f = f x"
  "st_try s (res_err e) f = st_err s e"
  "st_try s None f = None"
  "st_try s (Some (Inr x)) f = f x"
  "st_try s (Some (Inl e)) f = st_err s e"
  by (simp_all add: st_try_def res_ok_def res_err_def)

lemma st_bind_simps [simp]:
  "st_bind (st_ok s x) f = f s x"
  "st_bind (st_err s e) f = st_err s e"
  "st_bind None f = None"
  by (simp_all add: st_bind_def st_ok_def st_err_def)

lemma st_inject [simp]:
  "st_ok s x = st_ok s' y \<longleftrightarrow> s = s' \<and> x = y"
  "st_err s e = st_err s' e' \<longleftrightarrow> s = s' \<and> e = e'"
  "st_ok s x \<noteq> st_err s' e" "st_err s' e \<noteq> st_ok s x"
  "st_ok s x \<noteq> None" "st_err s e \<noteq> None" "None \<noteq> st_ok s x" "None \<noteq> st_err s e"
  by (simp_all add: st_ok_def st_err_def)

text \<open>A relation between the state before and the state after that every step keeps.\<close>

definition st_keeps :: "('s \<Rightarrow> bool) \<Rightarrow> ('s, 'e, 'a) st_result \<Rightarrow> bool" where
  "st_keeps P m \<longleftrightarrow> (case m of None \<Rightarrow> False | Some (s, r) \<Rightarrow> P s)"

lemma st_keeps_simps [simp]:
  "st_keeps P (st_ok s x) \<longleftrightarrow> P s" "st_keeps P (st_err s e) \<longleftrightarrow> P s" "\<not> st_keeps P None"
  by (simp_all add: st_keeps_def st_ok_def st_err_def)

lemma st_keeps_try:
  "P s \<Longrightarrow> returns m \<Longrightarrow> (\<And>x. m = res_ok x \<Longrightarrow> st_keeps P (f x)) \<Longrightarrow> st_keeps P (st_try s m f)"
  by (auto elim: returnsE)

lemma st_keeps_bind:
  assumes "st_keeps Q m" "\<And>s. Q s \<Longrightarrow> P s" "\<And>s x. m = st_ok s x \<Longrightarrow> Q s \<Longrightarrow> st_keeps P (f s x)"
  shows "st_keeps P (st_bind m f)"
proof (cases m)
  case None
  with assms(1) show ?thesis by simp
next
  case (Some p)
  obtain s r where p: "p = (s, r)" by (cases p)
  show ?thesis
  proof (cases r)
    case (Inl e)
    then have "m = st_err s e" by (simp add: Some p st_err_def)
    with assms(1,2) show ?thesis by simp
  next
    case (Inr x)
    then have m: "m = st_ok s x" by (simp add: Some p st_ok_def)
    with assms(1) have "Q s" by simp
    with m assms(3) show ?thesis by simp
  qed
qed

end
