(* ===== verification/Codec_Main.thy ===== *)
theory Codec_Main
  imports Codec_Simple State_Results
begin

text \<open>
  The Main-profile codec strategy (\<^verbatim>\<open>rist/src/codec_main.rs\<close>): media and compound RTCP inside GRE behind
  the reduced-overhead header, encrypted under the pre-shared key, with null-packet deletion, the EXTSEQ packets that
  carry the upper half of a NACK's numbers, and the GRE control messages. A method takes the codec and returns the
  changed one; the draws of the random generator an encryption may need are an argument.
\<close>

section \<open>The codec\<close>

definition rtcp_pt_byte_low :: nat where "rtcp_pt_byte_low = 1"
definition rtcp_pt_min :: u8 where "rtcp_pt_min = 72"
definition rtcp_pt_max :: u8 where "rtcp_pt_max = 77"

datatype control_kind = Control_None | Control_Keepalive

datatype main_decoded =
    D_Media media_packet
  | D_Feedback "feedback list"
  | D_Buffer_Neg buffer_negotiation
  | D_Ignored

text \<open>\<^verbatim>\<open>Inner\<close>: region, whether RTCP, whether encrypted, virtual source and destination port.\<close>

datatype main_region_kind =
    R_Inner bytes bool bool u16 u16
  | R_Control main_decoded

record main_codec =
  mc_send_key :: "psk_key option"
  mc_recv_key :: "decryptor option"
  mc_key_size_256 :: bool
  mc_gre_seq :: u32
  mc_dec :: media_decoder
  mc_src_port :: u16
  mc_dst_port :: u16
  mc_npd_enabled :: bool
  mc_ssrc :: u32
  mc_cname :: bytes
  mc_last_rx_cname :: "bytes option"
  mc_last_peer_caps :: "capabilities option"

definition mc_new ::
    "psk_key option \<Rightarrow> decryptor option \<Rightarrow> bool \<Rightarrow> u16 \<Rightarrow> u16 \<Rightarrow> bool \<Rightarrow> u32 \<Rightarrow> bytes \<Rightarrow> main_codec" where
  "mc_new send_key recv_key key_size_256 src_port dst_port npd_enabled ssrc cname =
     \<lparr>mc_send_key = send_key, mc_recv_key = recv_key, mc_key_size_256 = key_size_256, mc_gre_seq = 0,
      mc_dec = media_decoder_new, mc_src_port = src_port, mc_dst_port = dst_port, mc_npd_enabled = npd_enabled,
      mc_ssrc = ssrc, mc_cname = cname, mc_last_rx_cname = None, mc_last_peer_caps = None\<rparr>"

definition mc_set_npd :: "bool \<Rightarrow> main_codec \<Rightarrow> main_codec" where
  "mc_set_npd on c = c\<lparr>mc_npd_enabled := on\<rparr>"

definition mc_has_psk :: "main_codec \<Rightarrow> bool" where
  "mc_has_psk c \<longleftrightarrow> mc_send_key c \<noteq> None"

definition mc_set_send_session_key ::
    "psk_lib \<Rightarrow> (nat \<Rightarrow> bytes option) \<Rightarrow> bytes \<Rightarrow> main_codec \<Rightarrow> (main_codec, codec_error, unit) st_result" where
  "mc_set_send_session_key L draws k c =
     (case psk_key_new_raw L draws k Aes256 0 False of
        Inl e \<Rightarrow> st_err c (CE_Crypto e)
      | Inr key \<Rightarrow> st_ok (c\<lparr>mc_send_key := Some key, mc_key_size_256 := True\<rparr>) ())"

definition mc_set_recv_session_key :: "bytes \<Rightarrow> main_codec \<Rightarrow> (main_codec, codec_error, unit) st_result" where
  "mc_set_recv_session_key k c =
     (case decryptor_new_raw k Aes256 of
        Inl e \<Rightarrow> st_err c (CE_Crypto e)
      | Inr key \<Rightarrow> st_ok (c\<lparr>mc_recv_key := Some key, mc_key_size_256 := True\<rparr>) ())"

definition mc_last_wire_ts :: "main_codec \<Rightarrow> u32" where
  "mc_last_wire_ts c = md_last_wire_ts (mc_dec c)"

definition mc_fec_source_time :: "u32 \<Rightarrow> main_codec \<Rightarrow> ntp64" where
  "mc_fec_source_time wire_ts c = md_source_time wire_ts (mc_dec c)"

definition mc_fec_payload :: "bytes \<Rightarrow> main_codec \<Rightarrow> bytes option" where
  "mc_fec_payload payload c =
     (if \<not> mc_npd_enabled c then Some payload
      else case npd_suppress payload of
        None \<Rightarrow> None
      | Some (Inl e) \<Rightarrow> Some payload
      | Some (Inr (bits, suppressed, reduced)) \<Rightarrow>
          if suppressed = 0 then Some payload
          else case npd_expand reduced bits of
            None \<Rightarrow> None
          | Some (Inl e) \<Rightarrow> Some payload
          | Some (Inr canon) \<Rightarrow> Some canon)"

section \<open>Framing\<close>

definition gre_header_default :: gre_header where
  "gre_header_default =
     \<lparr>gh_version = 0, gh_has_key = False, gh_has_seq = False, gh_key_size_256 = False, gh_nonce = [0, 0, 0, 0],
      gh_seq = 0, gh_prot_type = 0\<rparr>"

definition next_gre_seq :: "main_codec \<Rightarrow> main_codec" where
  "next_gre_seq c = c\<lparr>mc_gre_seq := mc_gre_seq c + 1\<rparr>"

text \<open>The block every framing method ends with: the region encrypted behind a header with the key fields, or in
  clear behind the header as it is.\<close>

definition mc_protect ::
    "psk_lib \<Rightarrow> (nat \<Rightarrow> bytes option) \<Rightarrow> gre_header \<Rightarrow> bytes \<Rightarrow> main_codec \<Rightarrow> (main_codec, codec_error, bytes) st_result" where
  "mc_protect L draws hdr region c =
     (case mc_send_key c of
        Some key \<Rightarrow>
          let (key, r) = psk_encrypt L draws (gh_seq hdr) region key;
              c = c\<lparr>mc_send_key := Some key\<rparr>
          in (case r of
                Inl e \<Rightarrow> st_err c (CE_Crypto e)
              | Inr ct \<Rightarrow>
                  (case gre_encode (hdr\<lparr>gh_has_key := True, gh_key_size_256 := mc_key_size_256 c,
                      gh_nonce := pk_nonce key\<rparr>) of
                     Inl e \<Rightarrow> st_err c (CE_Gre e)
                   | Inr out \<Rightarrow> st_ok c (out @ ct)))
      | None \<Rightarrow> (case gre_encode hdr of Inl e \<Rightarrow> st_err c (CE_Gre e) | Inr out \<Rightarrow> st_ok c (out @ region)))"

definition mc_frame ::
    "psk_lib \<Rightarrow> (nat \<Rightarrow> bytes option) \<Rightarrow> bytes \<Rightarrow> main_codec \<Rightarrow> (main_codec, codec_error, bytes) st_result" where
  "mc_frame L draws inner c =
     (let hdr = gre_header_default\<lparr>gh_version := gre_version_min, gh_has_seq := True, gh_prot_type := proto_reduced,
            gh_seq := mc_gre_seq c\<rparr>;
          reduced = \<lparr>rh_src_port = mc_src_port c, rh_dst_port = mc_dst_port c\<rparr>
      in mc_protect L draws hdr (reduced_encode reduced @ inner) (next_gre_seq c))"

definition mc_frame_control ::
    "psk_lib \<Rightarrow> (nat \<Rightarrow> bytes option) \<Rightarrow> bytes \<Rightarrow> u8 \<Rightarrow> u16 \<Rightarrow> u16 \<Rightarrow> main_codec \<Rightarrow> (main_codec, codec_error, bytes) st_result" where
  "mc_frame_control L draws body version proto vsf_subtype c =
     (let hdr = gre_header_default\<lparr>gh_version := version, gh_has_seq := True, gh_seq := mc_gre_seq c\<rparr>;
          (hdr, region) = (if gre_version_cur \<le> version
            then (hdr\<lparr>gh_prot_type := proto_vsf\<rparr>, vsf_encode \<lparr>vp_ty = vsf_type_rist, vp_subtype = vsf_subtype\<rparr> @ body)
            else (hdr\<lparr>gh_prot_type := proto\<rparr>, body))
      in mc_protect L draws hdr region (next_gre_seq c))"

definition mc_encode_keepalive ::
    "psk_lib \<Rightarrow> (nat \<Rightarrow> bytes option) \<Rightarrow> keepalive \<Rightarrow> u8 \<Rightarrow> main_codec \<Rightarrow> (main_codec, codec_error, bytes) st_result" where
  "mc_encode_keepalive L draws ka version c =
     mc_frame_control L draws (keepalive_encode ka) version proto_keepalive vsf_subtype_keepalive c"

definition mc_encode_buffer_neg ::
    "psk_lib \<Rightarrow> (nat \<Rightarrow> bytes option) \<Rightarrow> buffer_negotiation \<Rightarrow> main_codec \<Rightarrow> (main_codec, codec_error, bytes) st_result" where
  "mc_encode_buffer_neg L draws bn c =
     mc_frame_control L draws (negotiation_encode bn) gre_version_cur proto_vsf vsf_subtype_buffer_negotiation c"

definition mc_encode_eapol :: "bytes \<Rightarrow> main_codec \<Rightarrow> (main_codec, codec_error, bytes) st_result" where
  "mc_encode_eapol eap c =
     (let hdr = gre_header_default\<lparr>gh_version := gre_version_min, gh_has_seq := True, gh_prot_type := proto_eapol,
            gh_seq := mc_gre_seq c\<rparr>;
          c = next_gre_seq c
      in case gre_encode hdr of Inl e \<Rightarrow> st_err c (CE_Gre e) | Inr out \<Rightarrow> st_ok c (out @ eap))"

definition mc_encode_oob ::
    "psk_lib \<Rightarrow> (nat \<Rightarrow> bytes option) \<Rightarrow> bytes \<Rightarrow> u16 \<Rightarrow> main_codec \<Rightarrow> (main_codec, codec_error, bytes) st_result" where
  "mc_encode_oob L draws payload prot_type c =
     (let hdr = gre_header_default\<lparr>gh_version := gre_version_min, gh_has_seq := True, gh_prot_type := prot_type,
            gh_seq := mc_gre_seq c\<rparr>
      in mc_protect L draws hdr payload (next_gre_seq c))"

section \<open>Media\<close>

text \<open>The RTP packet with the null-packet extension.\<close>

definition npd_media_rtp :: "media_packet \<Rightarrow> bytes \<Rightarrow> bytes \<Rightarrow> rtp_packet" where
  "npd_media_rtp pkt ext_payload reduced =
     \<lparr>rp_header = rtp_header_default\<lparr>rh_version := rtp_version, rh_payload_type := payload_type_mpegts,
        rh_sequence_number := ucast (mp_seq pkt), rh_timestamp := rtp_ts_from_source (mp_source_time pkt),
        rh_ssrc := (if mp_retransmit pkt then mark_retransmit (mp_ssrc pkt) else mp_ssrc pkt),
        rh_extension := True, rh_extension_profile := npd_identifier, rh_extension_payload := ext_payload\<rparr>,
      rp_payload = reduced, rp_padding_size = 0\<rparr>"

definition mc_build_media_rtp :: "media_packet \<Rightarrow> main_codec \<Rightarrow> (codec_error, bytes) result" where
  "mc_build_media_rtp pkt c =
     (if mc_npd_enabled c then
        case npd_suppress (mp_payload pkt) of
          None \<Rightarrow> None
        | Some (Inl e) \<Rightarrow> encode_media pkt
        | Some (Inr (bits, suppressed, reduced)) \<Rightarrow>
            if 0 < suppressed then
              let ext = \<lparr>ne_npd = True, ne_size204 = (bits AND npd_size_204 \<noteq> 0),
                    ne_null_bitmap = bits AND npd_null_bitmap_mask, ne_seq_ext = 0\<rparr>;
                  ext_full = npd_ext_encode ext
              in res_bind (res_lift (vec_slice ext_full 4 (length ext_full))) (\<lambda>ext_payload.
                   res_from CE_Rtp (packet_encode (npd_media_rtp pkt ext_payload reduced)))
            else encode_media pkt
      else encode_media pkt)"

definition mc_encode_media ::
    "psk_lib \<Rightarrow> (nat \<Rightarrow> bytes option) \<Rightarrow> media_packet \<Rightarrow> main_codec \<Rightarrow> (main_codec, codec_error, bytes) st_result" where
  "mc_encode_media L draws pkt c = st_try c (mc_build_media_rtp pkt c) (\<lambda>inner. mc_frame L draws inner c)"

text \<open>The payload a received RTP packet carries: expanded when it has the extension in its canonical shape.\<close>

definition main_payload :: "rtp_packet \<Rightarrow> (codec_error, bytes) result" where
  "main_payload p =
     (if rh_extension (rp_header p) \<and> rh_extension_profile (rp_header p) = npd_identifier
        \<and> length (rh_extension_payload (rp_header p)) = npd_ext_size - 4
      then
        let ext_wire = be16 npd_identifier @ be16 npd_length @ rh_extension_payload (rp_header p)
        in res_bind (res_from CE_Npd (npd_ext_parse ext_wire)) (\<lambda>(ext, n).
             if ne_npd ext
             then res_from CE_Npd (npd_expand (rp_payload p) (npd_bits (ne_size204 ext) (ne_null_bitmap ext)))
             else res_ok (rp_payload p))
      else res_ok (rp_payload p))"

definition mc_decode_media ::
    "bytes \<Rightarrow> u16 \<Rightarrow> u16 \<Rightarrow> main_codec \<Rightarrow> (main_codec, codec_error, media_packet) st_result" where
  "mc_decode_media region virt_src_port virt_dst_port c =
     st_try c (res_from CE_Rtp (packet_decode region)) (\<lambda>p.
       if rh_version (rp_header p) \<noteq> rtp_version then st_err c (CE_Bad_Version (rh_version (rp_header p)))
       else st_try c (main_payload p) (\<lambda>payload.
         let (dec, seq, source_time) = md_widen (rh_sequence_number (rp_header p)) (rh_timestamp (rp_header p)) (mc_dec c)
         in st_ok (c\<lparr>mc_dec := dec\<rparr>)
              \<lparr>mp_seq = seq, mp_source_time = source_time, mp_ssrc = normalize_ssrc (rh_ssrc (rp_header p)),
               mp_payload = payload, mp_retransmit = is_retransmit (rh_ssrc (rp_header p)), mp_path_id = 0,
               mp_frag = Standalone, mp_virt_src_port = virt_src_port, mp_virt_dst_port = virt_dst_port,
               mp_short_seq = True\<rparr>))"

section \<open>Feedback\<close>

definition mc_nack_packets ::
    "u32 \<Rightarrow> u32 \<Rightarrow> u32 list \<Rightarrow> bool \<Rightarrow> rtcp_packet list \<Rightarrow> rtcp_packet list option" where
  "mc_nack_packets local_ssrc media_ssrc missing bitmask out =
     (if bitmask
      then do { ps \<leftarrow> encode_bitmask_nack 0 media_ssrc missing; Some (out @ map P_Bitmask_Nack ps) }
      else Some (out @ map P_Range_Nack (encode_range_nack local_ssrc media_ssrc missing)))"

definition seq_high :: "u32 \<Rightarrow> u16" where
  "seq_high s = ucast (drop_bit 16 s)"

text \<open>The runs of equal upper half, each behind its EXTSEQ packet.\<close>

function nack_runs :: "u32 \<Rightarrow> u32 \<Rightarrow> bool \<Rightarrow> u32 list \<Rightarrow> rtcp_packet list \<Rightarrow> rtcp_packet list option" where
  "nack_runs local_ssrc media_ssrc bitmask [] out = Some out"
| "nack_runs local_ssrc media_ssrc bitmask (m # ms) out =
     (let hi = seq_high m;
          run = takeWhile (\<lambda>s. seq_high s = hi) (m # ms)
      in do {
        out \<leftarrow> mc_nack_packets local_ssrc media_ssrc run bitmask
          (out @ [P_Ext_Seq \<lparr>es_ssrc = local_ssrc, es_seq_high = hi\<rparr>]);
        nack_runs local_ssrc media_ssrc bitmask (dropWhile (\<lambda>s. seq_high s = hi) (m # ms)) out })"
  by pat_completeness auto

termination
  by (relation "measure (\<lambda>(l, s, b, ms, out). length ms)") (auto simp: le_imp_less_Suc length_dropWhile_le)

definition mc_encode_nack ::
    "u32 \<Rightarrow> u32 \<Rightarrow> u32 list \<Rightarrow> bool \<Rightarrow> rtcp_packet list \<Rightarrow> rtcp_packet list option" where
  "mc_encode_nack local_ssrc media_ssrc missing bitmask out =
     (if missing = [] then Some out
      else if \<not> list_ex (\<lambda>s. drop_bit 16 s \<noteq> 0) missing then mc_nack_packets local_ssrc media_ssrc missing bitmask out
      else nack_runs local_ssrc media_ssrc bitmask missing out)"

fun main_feedback_packets ::
    "u32 \<Rightarrow> bool \<Rightarrow> feedback list \<Rightarrow> rtcp_packet list \<Rightarrow> rtcp_packet list
      \<Rightarrow> (rtcp_packet list \<times> rtcp_packet list) option" where
  "main_feedback_packets local_ssrc bitmask [] nacks echoes = Some (nacks, echoes)"
| "main_feedback_packets local_ssrc bitmask (Nack ssrc missing # fbs) nacks echoes =
     do { nacks \<leftarrow> mc_encode_nack local_ssrc ssrc missing bitmask nacks;
          main_feedback_packets local_ssrc bitmask fbs nacks echoes }"
| "main_feedback_packets local_ssrc bitmask (RttEchoRequest ssrc ts # fbs) nacks echoes =
     main_feedback_packets local_ssrc bitmask fbs nacks
       (echoes @ [P_Echo_Request \<lparr>eq_ssrc = local_ssrc, eq_timestamp = ts, eq_padding = []\<rparr>])"
| "main_feedback_packets local_ssrc bitmask (RttEchoResponse ssrc ts delay # fbs) nacks echoes =
     main_feedback_packets local_ssrc bitmask fbs nacks
       (echoes @ [P_Echo_Response \<lparr>er_ssrc = ssrc, er_timestamp = ts, er_processing_delay = delay, er_padding = []\<rparr>])"
| "main_feedback_packets local_ssrc bitmask (SenderReport ntp rtp # fbs) nacks echoes =
     main_feedback_packets local_ssrc bitmask fbs nacks echoes"
| "main_feedback_packets local_ssrc bitmask (Keepalive # fbs) nacks echoes =
     main_feedback_packets local_ssrc bitmask fbs nacks echoes"
| "main_feedback_packets local_ssrc bitmask (ExtSeq hi # fbs) nacks echoes =
     main_feedback_packets local_ssrc bitmask fbs nacks echoes"
| "main_feedback_packets local_ssrc bitmask (LinkQuality lqm # fbs) nacks echoes =
     main_feedback_packets local_ssrc bitmask fbs nacks echoes"
| "main_feedback_packets local_ssrc bitmask (FlowAttribute json # fbs) nacks echoes =
     main_feedback_packets local_ssrc bitmask fbs nacks echoes"

definition mc_build_compound ::
    "rtcp_packet \<Rightarrow> feedback list \<Rightarrow> bool \<Rightarrow> main_codec \<Rightarrow> (codec_error, bytes) result" where
  "mc_build_compound lead fbs bitmask c =
     (case main_feedback_packets (mc_ssrc c) bitmask fbs [] [] of
        None \<Rightarrow> None
      | Some (nacks, echoes) \<Rightarrow>
          let pkts = [lead, P_Sdes \<lparr>sd_ssrc = mc_ssrc c, sd_cname = mc_cname c\<rparr>] @ nacks @ echoes in
          case build_compound [] pkts of
            (dst, None) \<Rightarrow> res_ok dst
          | (_, Some e) \<Rightarrow> res_err (CE_Rtcp e))"

definition mc_encode_feedback ::
    "psk_lib \<Rightarrow> (nat \<Rightarrow> bytes option) \<Rightarrow> rtcp_packet \<Rightarrow> feedback list \<Rightarrow> bool \<Rightarrow> main_codec
      \<Rightarrow> (main_codec, codec_error, bytes) st_result" where
  "mc_encode_feedback L draws lead fbs bitmask c =
     st_try c (mc_build_compound lead fbs bitmask c) (\<lambda>compound. mc_frame L draws compound c)"

definition fold_nack :: "u32 \<Rightarrow> u32 list \<Rightarrow> u16 \<Rightarrow> bool \<Rightarrow> u32 \<Rightarrow> feedback" where
  "fold_nack ssrc narrow hi have_ext nack_ref =
     (if have_ext then Nack ssrc (map (\<lambda>s. push_bit 16 (ucast hi) OR (s AND 0xFFFF)) narrow)
      else Nack ssrc (map (\<lambda>s. widen_seq_at_most (ucast s) nack_ref) narrow))"

text \<open>The loop over the packets of a compound: the upper half announced, whether it still stands, the feedback so
  far and the peer's name.\<close>

fun main_feedback_loop ::
    "u32 \<Rightarrow> bool \<Rightarrow> rtcp_packet list \<Rightarrow> u16 \<Rightarrow> bool \<Rightarrow> feedback list \<Rightarrow> bytes option
      \<Rightarrow> feedback list \<times> bytes option" where
  "main_feedback_loop nack_ref encrypted [] hi have_ext out cname = (out, cname)"
| "main_feedback_loop nack_ref encrypted (p # ps) hi have_ext out cname =
     (case p of
        P_Ext_Seq e \<Rightarrow> main_feedback_loop nack_ref encrypted ps (es_seq_high e) True out cname
      | P_Range_Nack pk \<Rightarrow>
          main_feedback_loop nack_ref encrypted ps hi False
            (out @ [fold_nack (rn_media_ssrc pk) (range_missing_seqs pk) hi have_ext nack_ref]) cname
      | P_Bitmask_Nack pk \<Rightarrow>
          main_feedback_loop nack_ref encrypted ps hi False
            (out @ [fold_nack (bn_media_ssrc pk) (bitmask_missing_seqs pk) hi have_ext nack_ref]) cname
      | P_Echo_Request pk \<Rightarrow>
          main_feedback_loop nack_ref encrypted ps hi have_ext (out @ [RttEchoRequest (eq_ssrc pk) (eq_timestamp pk)]) cname
      | P_Echo_Response pk \<Rightarrow>
          main_feedback_loop nack_ref encrypted ps hi have_ext
            (out @ [RttEchoResponse (er_ssrc pk) (er_timestamp pk) (er_processing_delay pk)]) cname
      | P_Link_Quality_Report pk \<Rightarrow>
          main_feedback_loop nack_ref encrypted ps hi have_ext (out @ [LinkQuality (lq_lqm pk)]) cname
      | P_Sdes s \<Rightarrow>
          main_feedback_loop nack_ref encrypted ps hi have_ext out
            (if encrypted \<and> cname \<noteq> Some (sd_cname s) then Some (sd_cname s) else cname)
      | _ \<Rightarrow> main_feedback_loop nack_ref encrypted ps hi have_ext out cname)"

definition mc_decode_feedback ::
    "bytes \<Rightarrow> u32 \<Rightarrow> bool \<Rightarrow> main_codec \<Rightarrow> (main_codec, codec_error, feedback list) st_result" where
  "mc_decode_feedback region nack_ref encrypted c =
     st_try c (res_from CE_Rtcp (parse_compound region)) (\<lambda>pkts.
       let (out, cname) = main_feedback_loop nack_ref encrypted pkts 0 False [] (mc_last_rx_cname c)
       in st_ok (c\<lparr>mc_last_rx_cname := cname\<rparr>) out)"

section \<open>Receiving\<close>

text \<open>Decryption at the key size the header signals.\<close>

definition mc_open :: "psk_lib \<Rightarrow> gre_header \<Rightarrow> bytes \<Rightarrow> decryptor \<Rightarrow> decryptor \<times> (crypto_error + bytes)" where
  "mc_open L hdr region key =
     dec_decrypt L (gh_nonce hdr) (gh_seq hdr) region (set_key_bits (aes_from_h_bit (gh_key_size_256 hdr)) key)"

definition mc_unwrap_region ::
    "psk_lib \<Rightarrow> gre_header \<Rightarrow> bytes \<Rightarrow> main_codec \<Rightarrow> (main_codec, codec_error, bytes) st_result" where
  "mc_unwrap_region L hdr after_gre c =
     (if gh_has_key hdr then
        (case mc_recv_key c of
           None \<Rightarrow> st_err c (CE_Main ''encrypted datagram but no decryptor configured'')
         | Some key \<Rightarrow>
             let (key, r) = mc_open L hdr after_gre key;
                 c = c\<lparr>mc_recv_key := Some key\<rparr>
             in (case r of Inl e \<Rightarrow> st_err c (CE_Crypto e) | Inr pt \<Rightarrow> st_ok c pt))
      else if mc_recv_key c \<noteq> None then st_err c (CE_Main ''cleartext datagram but decryptor configured'')
      else st_ok c after_gre)"

text \<open>The inner packet behind the reduced-overhead header, told apart by its payload-type byte.\<close>

definition mc_demux :: "bytes \<Rightarrow> bool \<Rightarrow> main_codec \<Rightarrow> (main_codec, codec_error, main_region_kind) st_result" where
  "mc_demux region encrypted c =
     st_try c (res_from CE_Gre (reduced_parse region)) (\<lambda>(reduced, n).
       st_try c (res_lift (vec_slice region n (length region))) (\<lambda>region.
         if length region \<le> rtcp_pt_byte_low then st_err c (CE_Main ''inner packet too short to demux'')
         else st_try c (res_lift (vec_get region rtcp_pt_byte_low)) (\<lambda>b.
           let pt = b AND 0x7F in
           st_ok c (R_Inner region (rtcp_pt_min \<le> pt \<and> pt \<le> rtcp_pt_max) encrypted
             (rh_src_port reduced) (rh_dst_port reduced)))))"

definition mc_main_region ::
    "psk_lib \<Rightarrow> bytes \<Rightarrow> main_codec \<Rightarrow> (main_codec, codec_error, main_region_kind) st_result" where
  "mc_main_region L b c =
     st_try c (res_from CE_Gre (gre_parse b)) (\<lambda>(hdr, off).
       if gh_prot_type hdr \<noteq> proto_reduced \<and> gh_prot_type hdr \<noteq> proto_vsf
       then st_err c (CE_Main ''GRE protocol type is not reduced'')
       else
         st_try c (res_lift (vec_slice b off (length b))) (\<lambda>after_gre.
           st_bind (mc_unwrap_region L hdr after_gre c) (\<lambda>c region.
             if gh_prot_type hdr = proto_vsf then
               st_try c (res_from CE_Gre (vsf_parse region)) (\<lambda>(vsf, vn).
                 st_try c (res_lift (vec_slice region vn (length region))) (\<lambda>rest.
                   if vp_subtype vsf = vsf_subtype_buffer_negotiation then
                     st_try c (res_from CE_Gre (negotiation_parse rest)) (\<lambda>bn. st_ok c (R_Control (D_Buffer_Neg bn)))
                   else if vp_subtype vsf \<noteq> vsf_subtype_reduced then
                     (if vp_subtype vsf = vsf_subtype_keepalive then
                        (case keepalive_parse rest of
                           None \<Rightarrow> None
                         | Some (Inl e) \<Rightarrow> st_ok c (R_Control D_Ignored)
                         | Some (Inr ka) \<Rightarrow> st_ok (c\<lparr>mc_last_peer_caps := Some (ka_caps ka)\<rparr>) (R_Control D_Ignored))
                      else st_ok c (R_Control D_Ignored))
                   else mc_demux rest (gh_has_key hdr) c))
             else mc_demux region (gh_has_key hdr) c)))"

definition mc_decode :: "psk_lib \<Rightarrow> bytes \<Rightarrow> u32 \<Rightarrow> main_codec \<Rightarrow> (main_codec, codec_error, main_decoded) st_result" where
  "mc_decode L b nack_ref c =
     st_bind (mc_main_region L b c) (\<lambda>c r.
       case r of
         R_Control d \<Rightarrow> st_ok c d
       | R_Inner region is_rtcp encrypted virt_src_port virt_dst_port \<Rightarrow>
           if is_rtcp
           then st_bind (mc_decode_feedback region nack_ref encrypted c) (\<lambda>c fbs. st_ok c (D_Feedback fbs))
           else st_bind (mc_decode_media region virt_src_port virt_dst_port c) (\<lambda>c pkt. st_ok c (D_Media pkt)))"

text \<open>\<^verbatim>\<open>find_map\<close> for the name in the SDES.\<close>

fun first_cname :: "rtcp_packet list \<Rightarrow> bytes option" where
  "first_cname [] = None"
| "first_cname (P_Sdes s # ps) = Some (sd_cname s)"
| "first_cname (p # ps) = first_cname ps"

text \<open>Probes: the value is returned with the changed codec; \<open>None\<close> is a panic.\<close>

definition mc_feedback_cname :: "psk_lib \<Rightarrow> bytes \<Rightarrow> main_codec \<Rightarrow> (main_codec \<times> bytes option) option" where
  "mc_feedback_cname L b c =
     (case mc_main_region L b c of
        None \<Rightarrow> None
      | Some (c, Inr (R_Inner region True True _ _)) \<Rightarrow>
          (case parse_compound region of
             None \<Rightarrow> None
           | Some (Inl e) \<Rightarrow> Some (c, None)
           | Some (Inr pkts) \<Rightarrow> Some (c, first_cname pkts))
      | Some (c, _) \<Rightarrow> Some (c, None))"

definition mc_peek_eapol :: "bytes \<Rightarrow> (bytes option) option" where
  "mc_peek_eapol b =
     (case gre_parse b of
        None \<Rightarrow> None
      | Some (Inl e) \<Rightarrow> Some None
      | Some (Inr (hdr, off)) \<Rightarrow>
          if gh_prot_type hdr = proto_eapol then map_option Some (vec_slice b off (length b)) else Some None)"

definition mc_peek_oob :: "psk_lib \<Rightarrow> bytes \<Rightarrow> main_codec \<Rightarrow> (main_codec, codec_error, (bytes \<times> u16) option) st_result" where
  "mc_peek_oob L b c =
     (case gre_parse b of
        None \<Rightarrow> None
      | Some (Inl e) \<Rightarrow> st_ok c None
      | Some (Inr (hdr, off)) \<Rightarrow>
          if is_reserved (gh_prot_type hdr) then st_ok c None
          else st_try c (res_lift (vec_slice b off (length b))) (\<lambda>region.
            if gh_has_key hdr then
              (case mc_recv_key c of
                 None \<Rightarrow> st_err c (CE_Main ''encrypted OOB but no decryptor configured'')
               | Some key \<Rightarrow>
                   let (key, r) = mc_open L hdr region key;
                       c = c\<lparr>mc_recv_key := Some key\<rparr>
                   in (case r of
                         Inl e \<Rightarrow> st_err c (CE_Crypto e)
                       | Inr pt \<Rightarrow> st_ok c (Some (pt, gh_prot_type hdr))))
            else st_ok c (Some (region, gh_prot_type hdr))))"

text \<open>The body of a keep-alive, if it parses.\<close>

definition control_body :: "bytes \<Rightarrow> u8 \<Rightarrow> main_codec \<Rightarrow> (main_codec \<times> control_kind \<times> keepalive option \<times> u8) option" where
  "control_body region version c =
     (case keepalive_parse region of
        None \<Rightarrow> None
      | Some (Inl e) \<Rightarrow> Some (c, Control_Keepalive, None, version)
      | Some (Inr ka) \<Rightarrow> Some (c, Control_Keepalive, Some ka, version))"

definition mc_peek_control ::
    "psk_lib \<Rightarrow> bytes \<Rightarrow> main_codec \<Rightarrow> (main_codec \<times> control_kind \<times> keepalive option \<times> u8) option" where
  "mc_peek_control L b c =
     (case gre_parse b of
        None \<Rightarrow> None
      | Some (Inl e) \<Rightarrow> Some (c, Control_None, None, 0)
      | Some (Inr (hdr, off)) \<Rightarrow>
          if gh_prot_type hdr \<noteq> proto_keepalive then Some (c, Control_None, None, gh_version hdr)
          else if gh_has_key hdr then
            (case mc_recv_key c of
               None \<Rightarrow> Some (c, Control_None, None, gh_version hdr)
             | Some key \<Rightarrow>
                 (case vec_slice b off (length b) of
                    None \<Rightarrow> None
                  | Some region \<Rightarrow>
                      let (key, r) = mc_open L hdr region key;
                          c = c\<lparr>mc_recv_key := Some key\<rparr>
                      in (case r of
                            Inl e \<Rightarrow> Some (c, Control_Keepalive, None, gh_version hdr)
                          | Inr pt \<Rightarrow> control_body pt (gh_version hdr) c)))
          else (case vec_slice b off (length b) of None \<Rightarrow> None | Some region \<Rightarrow> control_body region (gh_version hdr) c))"

end
