(* ===== verification/Codec_Main_Props.thy ===== *)
theory Codec_Main_Props
  imports Codec_Main Codec_Simple_Props Gre_Props Npd_Props Psk_Props
begin

text \<open>
  What the Main-profile strategy guarantees, over the lemmas of the layers it stacks: no datagram makes it panic; a
  media stream and the feedback of a flow reach the peer through RTP or RTCP, null-packet deletion, encryption and GRE;
  and the two places where it loses information, the wire time the FEC needs and the upper half of later NACKs.
\<close>

section \<open>Any datagram\<close>

lemma returns_from [simp]: "returns (res_from f m) \<longleftrightarrow> returns m"
  by (cases m) (auto simp: res_from_def returns_def split: sum.splits)

lemma returns_some: "\<exists>r. m = Some r \<Longrightarrow> returns m"
  by (auto simp: returns_def)

lemma packet_decode_returns: "returns (packet_decode b)"
  using packet_decode_reads [of b] by (intro returns_some) blast

lemma main_payload_returns: "returns (main_payload p)"
  by (auto simp: main_payload_def npd_ext_parse_returns npd_expand_returns intro!: returns_bind)

text \<open>The wire time last recorded.\<close>

abbreviation wire_ts_is :: "u32 \<Rightarrow> main_codec \<Rightarrow> bool" where
  "wire_ts_is t c \<equiv> mc_last_wire_ts c = t"

lemma md_widen_wire_ts: "md_widen s t d = (d', x) \<Longrightarrow> md_last_wire_ts d' = md_last_wire_ts d"
  by (auto simp: md_widen_def Let_def split: prod.splits)

lemma res_from_ok [simp]: "res_from f m = res_ok x \<longleftrightarrow> m = res_ok x"
  by (cases m) (auto simp: res_from_def res_ok_def split: sum.splits)

lemma small_parse_offsets:
  "reduced_parse b = res_ok (r, n) \<Longrightarrow> n \<le> length b"
  "vsf_parse b = res_ok (v, n) \<Longrightarrow> n \<le> length b"
  by (auto simp: reduced_parse_def vsf_parse_def reduced_header_size_def vsf_proto_size_def res_bind_eq_ok split: if_splits)

lemma mc_decode_media_keeps: "wire_ts_is t c \<Longrightarrow> st_keeps (wire_ts_is t) (mc_decode_media region sp dp c)"
  unfolding mc_decode_media_def
  by (intro st_keeps_try)
    (auto simp: packet_decode_returns main_payload_returns mc_last_wire_ts_def Let_def split: prod.split
      intro!: st_keeps_try dest: md_widen_wire_ts)

lemma mc_decode_feedback_keeps: "wire_ts_is t c \<Longrightarrow> st_keeps (wire_ts_is t) (mc_decode_feedback region r e c)"
  unfolding mc_decode_feedback_def
  by (intro st_keeps_try) (auto simp: parse_compound_returns returns_some mc_last_wire_ts_def split: prod.split)

lemma mc_unwrap_keeps: "wire_ts_is t c \<Longrightarrow> st_keeps (wire_ts_is t) (mc_unwrap_region L hdr b c)"
  by (auto simp: mc_unwrap_region_def mc_last_wire_ts_def Let_def split: option.split prod.split sum.split)

lemma mc_demux_keeps: "wire_ts_is t c \<Longrightarrow> st_keeps (wire_ts_is t) (mc_demux region e c)"
  unfolding mc_demux_def
  by (auto simp: gre_small_parse_returns returns_reads rtcp_pt_byte_low_def Let_def
      dest!: small_parse_offsets intro!: st_keeps_try)

lemma keepalive_step_keeps:
  assumes "wire_ts_is t c"
  shows "st_keeps (wire_ts_is t) (case keepalive_parse rest of
      None \<Rightarrow> None
    | Some (Inl e) \<Rightarrow> st_ok c (R_Control D_Ignored)
    | Some (Inr ka) \<Rightarrow> st_ok (c\<lparr>mc_last_peer_caps := Some (ka_caps ka)\<rparr>) (R_Control D_Ignored))"
  using assms keepalive_parse_returns [of rest] by (auto simp: returns_def mc_last_wire_ts_def split: sum.split)

lemma mc_main_region_keeps:
  assumes "wire_ts_is t c"
  shows "st_keeps (wire_ts_is t) (mc_main_region L b c)"
  unfolding mc_main_region_def
proof (intro st_keeps_try, goal_cases)
  case (3 hp)
  obtain hdr off where hp: "hp = (hdr, off)" by (cases hp)
  have off: "off \<le> length b" using 3 gre_parse_offset by (simp add: hp)
  show ?case
    using assms off by (auto simp: hp returns_reads gre_small_parse_returns mc_demux_keeps mc_unwrap_keeps
        keepalive_step_keeps dest!: small_parse_offsets intro!: st_keeps_try st_keeps_bind [where Q = "wire_ts_is t"])
qed (use assms in \<open>simp_all add: gre_parse_returns\<close>)

lemma mc_decode_keeps:
  assumes "wire_ts_is t c"
  shows "st_keeps (wire_ts_is t) (mc_decode L b r c)"
  unfolding mc_decode_def
proof (rule st_keeps_bind [OF mc_main_region_keeps [OF assms]], simp)
  fix c' rk assume c': "wire_ts_is t c'"
  show "st_keeps (wire_ts_is t) (case rk of
      R_Control d \<Rightarrow> st_ok c' d
    | R_Inner region is_rtcp encrypted virt_src_port virt_dst_port \<Rightarrow>
        if is_rtcp then st_bind (mc_decode_feedback region r encrypted c') (\<lambda>c fbs. st_ok c (D_Feedback fbs))
        else st_bind (mc_decode_media region virt_src_port virt_dst_port c') (\<lambda>c pkt. st_ok c (D_Media pkt)))"
    using c' by (auto simp: mc_decode_feedback_keeps mc_decode_media_keeps split: main_region_kind.split
        intro!: st_keeps_bind [where Q = "wire_ts_is t"])
qed

section \<open>Framing and opening\<close>

text \<open>A draw that can be used at once.\<close>

definition draws_fresh :: "(nat \<Rightarrow> bytes option) \<Rightarrow> bool" where
  "draws_fresh draws \<longleftrightarrow>
     (case draws 0 of None \<Rightarrow> False | Some raw \<Rightarrow> length raw = 4 \<and> \<not> is_zero_nonce raw \<and> raw \<noteq> [0x80, 0, 0, 0])"

lemma generate_nonce_fresh:
  assumes "draws_fresh draws"
  shows "\<exists>nonce. generate_nonce oddp draws = Inr nonce \<and> length nonce = 4 \<and> \<not> is_zero_nonce nonce"
  using assms marked_nonce_ok
  by (auto simp: draws_fresh_def generate_nonce_def upt_rec [of 0] split: option.splits)

lemma psk_encrypt_fresh:
  assumes inv: "psk_inv L raw password bits rotation oddp k" and fresh: "draws_fresh draws"
  shows "\<exists>k'. psk_encrypt L draws seq plain k =
      (k', Inr (aes_ctr_apply L (psk_kdf L raw password (pk_nonce k') bits) (build_iv seq) plain))
    \<and> psk_inv L raw password bits rotation oddp k'"
proof (cases "rotate_due k")
  case False
  have "pk_used_times k < u32_limit" "0 < rotation \<longrightarrow> pk_used_times k < unat rotation"
    using inv False by (auto simp: rotate_due_def psk_inv_def)
  with inv False show ?thesis
    by (intro exI [of _ "k\<lparr>pk_used_times := pk_used_times k + 1\<rparr>"]) (auto simp: psk_encrypt_def psk_inv_def)
next
  case True
  obtain nonce where n: "generate_nonce (pk_odd k) draws = Inr nonce" "length nonce = 4" "\<not> is_zero_nonce nonce"
    using generate_nonce_fresh [OF fresh] by blast
  have one: "0 < rotation \<longrightarrow> Suc 0 \<le> unat rotation"
    by (simp add: unat_gt_0 Suc_leI word_neq_0_conv)
  have "psk_rekey L draws k = (k\<lparr>pk_nonce := nonce, pk_key := psk_kdf L raw password nonce bits, pk_used_times := 0\<rparr>, None)"
    using inv n by (auto simp: psk_rekey_def psk_inv_def derive_dispatch_ok)
  with inv True n one show ?thesis
    by (intro exI [of _ "k\<lparr>pk_nonce := nonce, pk_key := psk_kdf L raw password nonce bits, pk_used_times := 1\<rparr>"])
      (auto simp: psk_encrypt_def psk_inv_def u32_limit_def)
qed

text \<open>The two ends hold the same passphrase, or none, and the receiver can open \<open>n\<close> more packets.\<close>

definition sender_keyed :: "psk_lib \<Rightarrow> (bool \<times> bytes) option \<Rightarrow> main_codec \<Rightarrow> bool" where
  "sender_keyed L keys cs \<longleftrightarrow>
     (case (keys, mc_send_key cs) of
        (None, None) \<Rightarrow> True
      | (Some (raw, password), Some k) \<Rightarrow>
          psk_inv L raw password (aes_from_h_bit (mc_key_size_256 cs)) (pk_key_rotation k) (pk_odd k) k
      | _ \<Rightarrow> False)"

definition receiver_keyed :: "psk_lib \<Rightarrow> (bool \<times> bytes) option \<Rightarrow> nat \<Rightarrow> main_codec \<Rightarrow> bool" where
  "receiver_keyed L keys n cr \<longleftrightarrow>
     (case (keys, mc_recv_key cr) of
        (None, None) \<Rightarrow> True
      | (Some (raw, password), Some d) \<Rightarrow> dec_inv L raw password d \<and> dc_used_times d + n \<le> u32_limit + 1
      | _ \<Rightarrow> False)"

lemma sender_keyed_cong:
  "mc_send_key cs' = mc_send_key cs \<Longrightarrow> mc_key_size_256 cs' = mc_key_size_256 cs
    \<Longrightarrow> sender_keyed L keys cs' = sender_keyed L keys cs"
  by (simp only: sender_keyed_def)

lemma receiver_keyed_cong:
  "mc_recv_key cr' = mc_recv_key cr \<Longrightarrow> receiver_keyed L keys n cr' = receiver_keyed L keys n cr"
  by (simp only: receiver_keyed_def)

text \<open>The keystream is its own inverse.\<close>

definition ctr_involutive :: "psk_lib \<Rightarrow> bool" where
  "ctr_involutive L \<longleftrightarrow> (\<forall>b key iv buf. pl_aes_ctr L b key iv (pl_aes_ctr L b key iv buf) = buf)"

lemma ctr_twice: "ctr_involutive L \<Longrightarrow> aes_ctr_apply L key iv (aes_ctr_apply L key iv buf) = buf"
  by (simp add: ctr_involutive_def aes_ctr_apply_def)

lemma vec_slice_to_end: "n = length a \<Longrightarrow> vec_slice (a @ b) n (length (a @ b)) = Some b"
  by (simp add: vec_slice_def)

text \<open>Every receiver with the keys gets the region behind the header, whatever it received before.\<close>

definition opens_to :: "psk_lib \<Rightarrow> (bool \<times> bytes) option \<Rightarrow> gre_header \<Rightarrow> bytes \<Rightarrow> bytes \<Rightarrow> bool" where
  "opens_to L keys hdr ct region \<longleftrightarrow>
     (\<forall>n cr. receiver_keyed L keys (Suc n) cr \<longrightarrow>
        (\<exists>cr'. mc_unwrap_region L hdr ct cr = st_ok cr' region \<and> receiver_keyed L keys n cr'
           \<and> cr' = cr\<lparr>mc_recv_key := mc_recv_key cr'\<rparr>))"

lemma sealed_opens_to:
  assumes inv: "ctr_involutive L" and nonce: "length nonce = 4" "\<not> is_zero_nonce nonce"
    and hdr: "gh_has_key hdr" "gh_nonce hdr = nonce"
  shows "opens_to L (Some (raw, password)) hdr (aes_ctr_apply L
    (psk_kdf L raw password nonce (aes_from_h_bit (gh_key_size_256 hdr))) (build_iv (gh_seq hdr)) region) region"
  unfolding opens_to_def
proof (intro allI impI)
  fix n cr
  assume "receiver_keyed L (Some (raw, password)) (Suc n) cr"
  then obtain d where d: "mc_recv_key cr = Some d" "dec_inv L raw password d" "dc_used_times d + Suc n \<le> u32_limit + 1"
    by (auto simp: receiver_keyed_def split: option.splits)
  define bits where "bits = aes_from_h_bit (gh_key_size_256 hdr)"
  define key where "key = psk_kdf L raw password nonce bits"
  define ct where "ct = aes_ctr_apply L key (build_iv (gh_seq hdr)) region"
  define d0 where "d0 = set_key_bits bits d"
  note b = dec_inv_set_bits [OF d(2), of bits, folded d0_def]
  define d' where "d' = fst (dec_decrypt L nonce (gh_seq hdr) ct d0)"
  note spec = dec_decrypt_spec [OF b(1) nonce(1), of "gh_seq hdr" ct, folded d'_def]
  have "dc_used_times d0 \<le> u32_limit" using d(3) b(3) by simp
  then have "snd (dec_decrypt L nonce (gh_seq hdr) ct d0) = Inr (aes_ctr_apply L key (build_iv (gh_seq hdr)) ct)"
    using spec(4) nonce(2) b(2) by (simp add: key_def)
  then have dec: "dec_decrypt L nonce (gh_seq hdr) ct d0 = (d', Inr region)"
    unfolding d'_def by (simp add: prod_eq_iff ct_def ctr_twice [OF inv])
  have "mc_unwrap_region L hdr ct cr = st_ok (cr\<lparr>mc_recv_key := Some d'\<rparr>) region"
    using d(1) dec hdr by (simp add: mc_unwrap_region_def mc_open_def d0_def bits_def)
  moreover have "receiver_keyed L (Some (raw, password)) n (cr\<lparr>mc_recv_key := Some d'\<rparr>)"
    using spec(1,3) b(3) d(3) by (simp add: receiver_keyed_def)
  ultimately show "\<exists>cr'. mc_unwrap_region L hdr (aes_ctr_apply L (psk_kdf L raw password nonce
      (aes_from_h_bit (gh_key_size_256 hdr))) (build_iv (gh_seq hdr)) region) cr = st_ok cr' region
      \<and> receiver_keyed L (Some (raw, password)) n cr' \<and> cr' = cr\<lparr>mc_recv_key := mc_recv_key cr'\<rparr>"
    unfolding ct_def key_def bits_def by (intro exI [of _ "cr\<lparr>mc_recv_key := Some d'\<rparr>"]) simp
qed

lemma clear_opens_to: "\<not> gh_has_key hdr \<Longrightarrow> opens_to L None hdr region region"
  by (auto simp: opens_to_def receiver_keyed_def mc_unwrap_region_def split: option.splits)

lemma protect_opens:
  assumes inv: "ctr_involutive L" and keyed: "sender_keyed L keys cs" and fresh: "draws_fresh draws"
    and hdr: "gre_canonical hdr" "\<not> gh_has_key hdr" "gh_has_seq hdr"
  shows "\<exists>cs' hdr' out ct. mc_protect L draws hdr region cs = st_ok cs' (out @ ct)
    \<and> gre_parse (out @ ct) = res_ok (hdr', length out) \<and> gh_prot_type hdr' = gh_prot_type hdr
    \<and> gh_has_key hdr' = (keys \<noteq> None) \<and> opens_to L keys hdr' ct region
    \<and> sender_keyed L keys cs' \<and> cs' = cs\<lparr>mc_send_key := mc_send_key cs'\<rparr>"
proof (cases keys)
  case None
  then have send: "mc_send_key cs = None" using keyed by (auto simp: sender_keyed_def split: option.splits)
  obtain out where out: "gre_encode hdr = Inr out" "length out = gre_size hdr"
    "\<And>rest. gre_parse (out @ rest) = res_ok (hdr, gre_size hdr)"
    using gre_parse_encode [OF hdr(1)] by (metis sum.inject(2))
  show ?thesis
    using out send hdr(2) keyed None clear_opens_to [OF hdr(2)]
    by (intro exI [of _ cs] exI [of _ hdr] exI [of _ out] exI [of _ region]) (simp add: mc_protect_def)
next
  case (Some rp)
  obtain raw password where keys: "keys = Some (raw, password)" using Some by (cases rp) simp
  obtain k where k: "mc_send_key cs = Some k"
    and ki: "psk_inv L raw password (aes_from_h_bit (mc_key_size_256 cs)) (pk_key_rotation k) (pk_odd k) k"
    using keyed by (auto simp: sender_keyed_def keys split: option.splits)
  define bits where "bits = aes_from_h_bit (mc_key_size_256 cs)"
  obtain k' where k': "psk_encrypt L draws (gh_seq hdr) region k = (k', Inr (aes_ctr_apply L
      (psk_kdf L raw password (pk_nonce k') bits) (build_iv (gh_seq hdr)) region))"
    "psk_inv L raw password bits (pk_key_rotation k) (pk_odd k) k'"
    using psk_encrypt_fresh [OF ki fresh] unfolding bits_def by blast
  define ct where "ct = aes_ctr_apply L (psk_kdf L raw password (pk_nonce k') bits) (build_iv (gh_seq hdr)) region"
  define hdr' where "hdr' = hdr\<lparr>gh_has_key := True, gh_key_size_256 := mc_key_size_256 cs, gh_nonce := pk_nonce k'\<rparr>"
  have nonce: "length (pk_nonce k') = 4" "\<not> is_zero_nonce (pk_nonce k')" using k'(2) by (auto simp: psk_inv_def)
  have "gre_canonical hdr'" using hdr nonce(1) by (auto simp: gre_canonical_def hdr'_def)
  then obtain out where out: "gre_encode hdr' = Inr out" "length out = gre_size hdr'"
    "\<And>rest. gre_parse (out @ rest) = res_ok (hdr', gre_size hdr')"
    using gre_parse_encode by (metis sum.inject(2))
  have "sender_keyed L keys (cs\<lparr>mc_send_key := Some k'\<rparr>)"
    using k'(2) by (auto simp: sender_keyed_def keys bits_def psk_inv_def)
  moreover have "mc_protect L draws hdr region cs = st_ok (cs\<lparr>mc_send_key := Some k'\<rparr>) (out @ ct)"
    using k k'(1) out(1) by (simp add: mc_protect_def hdr'_def ct_def)
  moreover have "opens_to L keys hdr' ct region"
    using sealed_opens_to [OF inv nonce, of hdr' raw password region] by (simp add: keys ct_def bits_def hdr'_def)
  ultimately show ?thesis
    using out(2,3)
    by (intro exI [of _ "cs\<lparr>mc_send_key := Some k'\<rparr>"] exI [of _ hdr'] exI [of _ out] exI [of _ ct])
      (simp add: hdr'_def keys)
qed

text \<open>What the payload-type byte of an inner packet says.\<close>

definition inner_is_rtcp :: "bytes \<Rightarrow> bool" where
  "inner_is_rtcp inner \<longleftrightarrow> rtcp_pt_min \<le> inner ! 1 AND 0x7F \<and> inner ! 1 AND 0x7F \<le> rtcp_pt_max"

lemma demux_inner:
  assumes "2 \<le> length inner"
  shows "mc_demux (reduced_encode r @ inner) e c
    = st_ok c (R_Inner inner (inner_is_rtcp inner) e (rh_src_port r) (rh_dst_port r))"
proof -
  have "vec_slice (reduced_encode r @ inner) 4 (length (reduced_encode r @ inner)) = Some inner"
    by (rule vec_slice_to_end) (simp add: reduced_encode_def)
  moreover have "vec_get inner 1 = Some (inner ! 1)" using assms by (simp add: vec_get_def)
  ultimately show ?thesis
    using assms reduced_parse_encode [of r inner]
    by (simp add: mc_demux_def rtcp_pt_byte_low_def inner_is_rtcp_def Let_def)
qed

text \<open>Every receiver with the keys finds the inner packet in the datagram.\<close>

definition carries :: "psk_lib \<Rightarrow> (bool \<times> bytes) option \<Rightarrow> bytes \<Rightarrow> bytes \<Rightarrow> u16 \<Rightarrow> u16 \<Rightarrow> bool" where
  "carries L keys b inner src dst \<longleftrightarrow>
     (\<forall>n cr. receiver_keyed L keys (Suc n) cr \<longrightarrow>
        (\<exists>cr'. mc_main_region L b cr = st_ok cr' (R_Inner inner (inner_is_rtcp inner) (keys \<noteq> None) src dst)
           \<and> receiver_keyed L keys n cr' \<and> cr' = cr\<lparr>mc_recv_key := mc_recv_key cr'\<rparr>))"

lemma frame_carries:
  assumes inv: "ctr_involutive L" and keyed: "sender_keyed L keys cs" and fresh: "draws_fresh draws"
    and inner: "2 \<le> length inner"
  shows "\<exists>cs' b. mc_frame L draws inner cs = st_ok cs' b \<and> carries L keys b inner (mc_src_port cs) (mc_dst_port cs)
    \<and> sender_keyed L keys cs' \<and> cs' = cs\<lparr>mc_gre_seq := mc_gre_seq cs + 1, mc_send_key := mc_send_key cs'\<rparr>"
proof -
  define hdr where "hdr = gre_header_default\<lparr>gh_version := gre_version_min, gh_has_seq := True,
    gh_prot_type := proto_reduced, gh_seq := mc_gre_seq cs\<rparr>"
  define r where "r = \<lparr>rh_src_port = mc_src_port cs, rh_dst_port = mc_dst_port cs\<rparr>"
  have can: "gre_canonical hdr" "\<not> gh_has_key hdr" "gh_has_seq hdr"
    by (simp_all add: hdr_def gre_header_default_def gre_canonical_def gre_version_min_def)
  have keyed': "sender_keyed L keys (next_gre_seq cs)"
    using keyed sender_keyed_cong [of "next_gre_seq cs" cs] by (simp add: next_gre_seq_def)
  obtain cs' hdr' out ct where o: "mc_protect L draws hdr (reduced_encode r @ inner) (next_gre_seq cs) = st_ok cs' (out @ ct)"
    "gre_parse (out @ ct) = res_ok (hdr', length out)" "gh_prot_type hdr' = gh_prot_type hdr"
    "gh_has_key hdr' = (keys \<noteq> None)" "opens_to L keys hdr' ct (reduced_encode r @ inner)"
    "sender_keyed L keys cs'" "cs' = (next_gre_seq cs)\<lparr>mc_send_key := mc_send_key cs'\<rparr>"
    using protect_opens [OF inv keyed' fresh can] by blast
  have frame: "mc_frame L draws inner cs = st_ok cs' (out @ ct)"
    using o(1) by (simp add: mc_frame_def hdr_def r_def)
  have slice: "vec_slice (out @ ct) (length out) (length (out @ ct)) = Some ct" by (rule vec_slice_to_end) simp
  have region: "mc_main_region L (out @ ct) cr = mc_demux (reduced_encode r @ inner) (keys \<noteq> None) cr'"
    if "mc_unwrap_region L hdr' ct cr = st_ok cr' (reduced_encode r @ inner)" for cr cr'
    using that o(2,3,4) slice by (simp add: mc_main_region_def hdr_def proto_reduced_def proto_vsf_def)
  have "carries L keys (out @ ct) inner (mc_src_port cs) (mc_dst_port cs)"
    unfolding carries_def
  proof (intro allI impI)
    fix n cr assume "receiver_keyed L keys (Suc n) cr"
    then obtain cr' where c: "mc_unwrap_region L hdr' ct cr = st_ok cr' (reduced_encode r @ inner)"
      "receiver_keyed L keys n cr'" "cr' = cr\<lparr>mc_recv_key := mc_recv_key cr'\<rparr>"
      using o(5) unfolding opens_to_def by blast
    show "\<exists>cr'. mc_main_region L (out @ ct) cr
          = st_ok cr' (R_Inner inner (inner_is_rtcp inner) (keys \<noteq> None) (mc_src_port cs) (mc_dst_port cs))
        \<and> receiver_keyed L keys n cr' \<and> cr' = cr\<lparr>mc_recv_key := mc_recv_key cr'\<rparr>"
      using region [OF c(1)] c(2,3) demux_inner [OF inner, of r "keys \<noteq> None" cr'] by (intro exI [of _ cr']) (simp add: r_def)
  qed
  moreover have "cs' = cs\<lparr>mc_gre_seq := mc_gre_seq cs + 1, mc_send_key := mc_send_key cs'\<rparr>"
    using o(7) by (simp add: next_gre_seq_def)
  ultimately show ?thesis using frame o(6) by blast
qed

section \<open>Media through the tunnel\<close>

text \<open>The payload a receiver reconstructs: null packets in canonical form when they were suppressed.\<close>

definition main_carried :: "bool \<Rightarrow> bytes \<Rightarrow> bytes" where
  "main_carried npd payload =
     (if npd then case npd_suppress payload of
        Some (Inr (bits, n, reduced)) \<Rightarrow> if 0 < n then ts_normal payload else payload
      | _ \<Rightarrow> payload else payload)"

text \<open>The RTP packet of a media packet, with or without the extension.\<close>

lemma build_media_rtp_spec:
  "\<exists>rp. mc_build_media_rtp pkt c = res_ok (packet_layout rp) \<and> packet_decode (packet_layout rp) = Some (Inr rp)
    \<and> rh_version (rp_header rp) = rtp_version \<and> rh_payload_type (rp_header rp) = payload_type_mpegts
    \<and> rh_marker (rp_header rp) = False
    \<and> rh_sequence_number (rp_header rp) = ucast (mp_seq pkt)
    \<and> rh_timestamp (rp_header rp) = of_int (media_ticks pkt)
    \<and> rh_ssrc (rp_header rp) = (if mp_retransmit pkt then mark_retransmit (mp_ssrc pkt) else mp_ssrc pkt)
    \<and> main_payload rp = res_ok (main_carried (mc_npd_enabled c) (mp_payload pkt))"
proof -
  have plain: "mc_build_media_rtp pkt c = encode_media pkt \<Longrightarrow> main_carried (mc_npd_enabled c) (mp_payload pkt) = mp_payload pkt
      \<Longrightarrow> ?thesis"
    using media_wire [of pkt]
    by (intro exI [of _ "media_rtp pkt"])
      (simp add: media_rtp_timestamp main_payload_def, simp add: media_rtp_def rtp_header_default_def media_rtp_timestamp)
  show ?thesis
  proof (cases "mc_npd_enabled c")
    case False
    then show ?thesis by (intro plain) (simp_all add: mc_build_media_rtp_def main_carried_def)
  next
    case True
    show ?thesis
    proof (rule res_cases [of "npd_suppress (mp_payload pkt)"])
      assume "npd_suppress (mp_payload pkt) = None"
      then show ?thesis using npd_suppress_returns [of "mp_payload pkt"] by simp
    next
      fix e assume "npd_suppress (mp_payload pkt) = res_err e"
      then show ?thesis by (intro plain) (simp_all add: mc_build_media_rtp_def main_carried_def res_err_def)
    next
      fix x assume ok: "npd_suppress (mp_payload pkt) = res_ok x"
      obtain bits n reduced where x: "x = (bits, n, reduced)" by (cases x)
      note sup = ok [unfolded x]
      show ?thesis
      proof (cases "0 < n")
        case False
        with sup show ?thesis by (intro plain) (simp_all add: mc_build_media_rtp_def main_carried_def res_ok_def)
      next
        case n: True
        define ext where "ext = \<lparr>ne_npd = True, ne_size204 = (bits AND npd_size_204 \<noteq> 0),
          ne_null_bitmap = bits AND npd_null_bitmap_mask, ne_seq_ext = 0\<rparr>"
        obtain xp where xp: "npd_ext_encode ext = be16 npd_identifier @ be16 npd_length @ xp" "length xp = 4"
          by (simp add: npd_ext_encode_def Let_def)
        define rp where "rp = npd_media_rtp pkt xp reduced"
        have slice: "vec_slice (npd_ext_encode ext) 4 (length (npd_ext_encode ext)) = Some xp"
          using vec_slice_to_end [of 4 "be16 npd_identifier @ be16 npd_length" xp] by (simp add: xp(1))
        have can: "packet_canonical rp"
          using xp(2) by (simp add: rp_def npd_media_rtp_def packet_canonical_def header_canonical_def header_fits_def
              rtp_header_default_def rtp_version_def payload_type_mpegts_def version_mask_def max_csrc_def)
        have enc: "packet_encode rp = Some (Inr (packet_layout rp))"
          using can packet_encode_fits [of rp] by (simp add: packet_canonical_def header_canonical_def)
        have build: "mc_build_media_rtp pkt c = res_ok (packet_layout rp)"
          using True sup n slice enc by (simp add: mc_build_media_rtp_def res_ok_def ext_def rp_def)
        have mask: "bits AND npd_null_bitmap_mask AND npd_null_bitmap_mask = bits AND npd_null_bitmap_mask"
          by (simp add: and.assoc)
        have parse: "npd_ext_parse (be16 npd_identifier @ be16 npd_length @ xp) = res_ok (ext, 8)"
          using npd_ext_parse_encode [of ext "[]"] by (simp add: xp(1) [symmetric]) (simp add: ext_def mask)
        have "main_payload rp = res_ok (ts_normal (mp_payload pkt))"
          using npd_expand_suppressed [OF sup] npd_bits_split [of bits] xp(2) parse
          by (simp add: main_payload_def rp_def npd_media_rtp_def rtp_header_default_def npd_ext_size_def ext_def)
        with build packet_decode_layout [OF can] show ?thesis
          using True sup n
          by (intro exI [of _ rp]) (simp add: rp_def npd_media_rtp_def rtp_header_default_def media_rtp_timestamp
              main_carried_def res_ok_def)
      qed
    qed
  qed
qed

text \<open>What the receiving flow gets of a packet: the Simple profile's reconstruction, with the expanded payload and the
  virtual ports of the tunnel.\<close>

definition tunnelled :: "main_codec \<Rightarrow> u32 \<Rightarrow> int \<Rightarrow> media_packet \<Rightarrow> media_packet" where
  "tunnelled cs shift base q =
     (media_received shift base q)\<lparr>mp_payload := main_carried (mc_npd_enabled cs) (mp_payload q),
        mp_virt_src_port := mc_src_port cs, mp_virt_dst_port := mc_dst_port cs\<rparr>"

text \<open>A datagram every receiver with the keys decodes to the packet, at the place its decoder gives the packet.\<close>

definition media_datagram :: "psk_lib \<Rightarrow> (bool \<times> bytes) option \<Rightarrow> main_codec \<Rightarrow> bytes \<Rightarrow> media_packet \<Rightarrow> bool" where
  "media_datagram L keys cs b q \<longleftrightarrow>
     (\<forall>n cr d' shift base r. receiver_keyed L keys (Suc n) cr
        \<longrightarrow> md_widen (ucast (mp_seq q)) (of_int (media_ticks q)) (mc_dec cr)
            = (d', mp_seq q - shift, source_of_ticks (media_ticks q - base))
        \<longrightarrow> (\<exists>cr'. mc_decode L b r cr = st_ok cr' (D_Media (tunnelled cs shift base q))
               \<and> receiver_keyed L keys n cr' \<and> mc_dec cr' = d'))"

lemma media_datagramD:
  assumes "media_datagram L keys cs b q" "receiver_keyed L keys (Suc n) cr"
    and "md_widen (ucast (mp_seq q)) (of_int (media_ticks q)) (mc_dec cr)
      = (d', mp_seq q - shift, source_of_ticks (media_ticks q - base))"
  shows "\<exists>cr'. mc_decode L b r cr = st_ok cr' (D_Media (tunnelled cs shift base q))
    \<and> receiver_keyed L keys n cr' \<and> mc_dec cr' = d'"
  using assms unfolding media_datagram_def by blast

lemma media_inner:
  assumes "rh_payload_type (rp_header rp) = payload_type_mpegts" "rh_marker (rp_header rp) = False"
  shows "\<not> inner_is_rtcp (packet_layout rp)" "2 \<le> length (packet_layout rp)"
proof -
  have "packet_layout rp ! 1 = header_second_byte (rp_header rp)"
    by (simp add: packet_layout_def header_layout_def)
  then show "\<not> inner_is_rtcp (packet_layout rp)"
    using assms by (simp add: inner_is_rtcp_def header_second_byte_def payload_type_mpegts_def pt_mask_def rtcp_pt_min_def)
  show "2 \<le> length (packet_layout rp)"
    by (simp add: packet_marshal_size_def header_marshal_size_def fixed_header_size_def)
qed

lemma encode_media_datagram:
  assumes inv: "ctr_involutive L" and keyed: "sender_keyed L keys cs" and fresh: "draws_fresh draws"
    and base: "\<not> is_retransmit (mp_ssrc q)"
  shows "\<exists>cs' b. mc_encode_media L draws q cs = st_ok cs' b \<and> media_datagram L keys cs b q
    \<and> sender_keyed L keys cs' \<and> cs' = cs\<lparr>mc_gre_seq := mc_gre_seq cs + 1, mc_send_key := mc_send_key cs'\<rparr>"
proof -
  obtain rp where rp: "mc_build_media_rtp q cs = res_ok (packet_layout rp)"
    "packet_decode (packet_layout rp) = Some (Inr rp)" "rh_version (rp_header rp) = rtp_version"
    "rh_payload_type (rp_header rp) = payload_type_mpegts" "rh_marker (rp_header rp) = False"
    "rh_sequence_number (rp_header rp) = ucast (mp_seq q)" "rh_timestamp (rp_header rp) = of_int (media_ticks q)"
    "rh_ssrc (rp_header rp) = (if mp_retransmit q then mark_retransmit (mp_ssrc q) else mp_ssrc q)"
    "main_payload rp = res_ok (main_carried (mc_npd_enabled cs) (mp_payload q))"
    using build_media_rtp_spec by blast
  note inner = media_inner [OF rp(4,5)]
  obtain cs' b where f: "mc_frame L draws (packet_layout rp) cs = st_ok cs' b"
    "carries L keys b (packet_layout rp) (mc_src_port cs) (mc_dst_port cs)" "sender_keyed L keys cs'"
    "cs' = cs\<lparr>mc_gre_seq := mc_gre_seq cs + 1, mc_send_key := mc_send_key cs'\<rparr>"
    using frame_carries [OF inv keyed fresh inner(2)] by blast
  have "media_datagram L keys cs b q"
    unfolding media_datagram_def
  proof (intro allI impI)
    fix n cr d' shift bs r
    assume k: "receiver_keyed L keys (Suc n) cr"
      and w: "md_widen (ucast (mp_seq q)) (of_int (media_ticks q)) (mc_dec cr)
        = (d', mp_seq q - shift, source_of_ticks (media_ticks q - bs))"
    obtain c where c: "mc_main_region L b cr = st_ok c
        (R_Inner (packet_layout rp) (inner_is_rtcp (packet_layout rp)) (keys \<noteq> None) (mc_src_port cs) (mc_dst_port cs))"
      "receiver_keyed L keys n c" "c = cr\<lparr>mc_recv_key := mc_recv_key c\<rparr>"
      using f(2) k unfolding carries_def by blast
    have "mc_dec c = mc_dec cr" using c(3) by (metis main_codec.ext_inject main_codec.surjective main_codec.update_convs(2))
    then have "mc_decode L b r cr = st_ok (c\<lparr>mc_dec := d'\<rparr>) (D_Media (tunnelled cs shift bs q))"
      using c(1) inner(1) w rp base
      by (simp add: mc_decode_def mc_decode_media_def tunnelled_def media_received_def ssrc_marks)
    moreover have "receiver_keyed L keys n (c\<lparr>mc_dec := d'\<rparr>)"
      using c(2) receiver_keyed_cong [of "c\<lparr>mc_dec := d'\<rparr>" c] by simp
    ultimately show "\<exists>cr'. mc_decode L b r cr = st_ok cr' (D_Media (tunnelled cs shift bs q))
        \<and> receiver_keyed L keys n cr' \<and> mc_dec cr' = d'" by auto
  qed
  with f rp(1) show ?thesis by (auto simp: mc_encode_media_def)
qed

text \<open>The datagrams of a stream as sent, and what a receiver makes of datagrams as they arrive.\<close>

fun main_transmit :: "psk_lib \<Rightarrow> ((nat \<Rightarrow> bytes option) \<times> media_packet) list \<Rightarrow> main_codec \<Rightarrow> bytes list option" where
  "main_transmit L [] cs = Some []"
| "main_transmit L ((draws, q) # xs) cs =
     (case mc_encode_media L draws q cs of
        Some (cs', Inr b) \<Rightarrow> map_option (Cons b) (main_transmit L xs cs')
      | _ \<Rightarrow> None)"

fun main_arrive :: "psk_lib \<Rightarrow> u32 \<Rightarrow> bytes list \<Rightarrow> main_codec \<Rightarrow> (codec_error + main_decoded) list option" where
  "main_arrive L r [] cr = Some []"
| "main_arrive L r (b # bs) cr =
     (case mc_decode L b r cr of None \<Rightarrow> None | Some (cr', x) \<Rightarrow> map_option (Cons x) (main_arrive L r bs cr'))"

lemma media_datagram_cong:
  "mc_npd_enabled cs' = mc_npd_enabled cs \<Longrightarrow> mc_src_port cs' = mc_src_port cs \<Longrightarrow> mc_dst_port cs' = mc_dst_port cs
    \<Longrightarrow> media_datagram L keys cs' b q = media_datagram L keys cs b q"
  by (simp add: media_datagram_def tunnelled_def)

lemma main_transmit_datagrams:
  assumes "ctr_involutive L" "sender_keyed L keys cs"
    "list_all (\<lambda>(draws, q). draws_fresh draws \<and> \<not> is_retransmit (mp_ssrc q)) xs"
  shows "\<exists>bs. main_transmit L xs cs = Some bs \<and> list_all2 (\<lambda>(draws, q) b. media_datagram L keys cs b q) xs bs"
  using assms(2,3)
proof (induction xs arbitrary: cs)
  case Nil
  then show ?case by simp
next
  case (Cons x xs)
  obtain draws q where x: "x = (draws, q)" by (cases x)
  obtain cs' b where e: "mc_encode_media L draws q cs = st_ok cs' b" "media_datagram L keys cs b q"
    "sender_keyed L keys cs'" "cs' = cs\<lparr>mc_gre_seq := mc_gre_seq cs + 1, mc_send_key := mc_send_key cs'\<rparr>"
    using encode_media_datagram [OF assms(1) Cons.prems(1), of draws q] Cons.prems(2) by (auto simp: x)
  have same: "media_datagram L keys cs' b q = media_datagram L keys cs b q" for b q
    by (rule media_datagram_cong) (subst e(4), simp)+
  obtain bs where "main_transmit L xs cs' = Some bs" "list_all2 (\<lambda>(draws, q) b. media_datagram L keys cs b q) xs bs"
    using Cons.IH [OF e(3)] Cons.prems(2) by (auto simp: same)
  with e(1,2) show ?case by (simp add: x st_ok_def)
qed

lemma md_widen_first:
  "\<exists>d'. md_widen (ucast (mp_seq p)) (of_int (media_ticks p)) media_decoder_new
      = (d', mp_seq p - first_shift p, source_of_ticks (media_ticks p - first_base p))
    \<and> md_follows (first_shift p) (first_base p) p d'"
proof -
  have seq: "mp_seq p - first_shift p = ucast (ucast (mp_seq p) :: u16)" by (simp add: first_shift_def)
  have ticks: "media_ticks p - first_base p = uint (of_int (media_ticks p) :: u32)"
    by (simp add: first_base_def minus_div_mult_eq_mod unsigned_of_int take_bit_eq_mod)
  show ?thesis by (simp add: md_widen_def media_decoder_new_def md_follows_def seq ticks)
qed

lemma main_arrive_follows:
  assumes dg: "\<And>i. i < length xs \<Longrightarrow> media_datagram L keys cs (bs ! i) (xs ! i)"
    and cut: "ucast shift = (0 :: u16)" "base mod 2 ^ 32 = 0" "0 \<le> base" "base < 2 ^ 49"
    and "receiver_keyed L keys (length ns) cr" "md_follows shift base p (mc_dec cr)"
    and "list_all (\<lambda>i. i < length xs) ns" "near_stream p (map ((!) xs) ns)"
  shows "main_arrive L r (map ((!) bs) ns) cr = Some (map (\<lambda>i. Inr (D_Media (tunnelled cs shift base (xs ! i)))) ns)"
  using assms(6-9)
proof (induction ns arbitrary: cr p)
  case Nil
  then show ?case by simp
next
  case (Cons i ns)
  obtain d' where w: "md_widen (ucast (mp_seq (xs ! i))) (of_int (media_ticks (xs ! i))) (mc_dec cr)
      = (d', mp_seq (xs ! i) - shift, source_of_ticks (media_ticks (xs ! i) - base))" "md_follows shift base (xs ! i) d'"
    using md_widen_follows [OF Cons.prems(2) _ cut, of "xs ! i" "md_last_wire_ts (mc_dec cr)"] Cons.prems(4) by auto
  obtain cr' where c: "mc_decode L (bs ! i) r cr = st_ok cr' (D_Media (tunnelled cs shift base (xs ! i)))"
    "receiver_keyed L keys (length ns) cr'" "mc_dec cr' = d'"
    using media_datagramD [OF dg _ w(1), where n = "length ns" and r = r] Cons.prems(1,3) by auto
  have "main_arrive L r (map ((!) bs) ns) cr' = Some (map (\<lambda>i. Inr (D_Media (tunnelled cs shift base (xs ! i)))) ns)"
    using Cons.IH [OF c(2), of "xs ! i"] w(2) c(3) Cons.prems(3,4) by simp
  with c(1) show ?case by (simp add: st_ok_def)
qed

section \<open>Feedback through the tunnel\<close>

fun nack_media :: "rtcp_packet \<Rightarrow> u32" where
  "nack_media (P_Range_Nack p) = rn_media_ssrc p"
| "nack_media (P_Bitmask_Nack p) = bn_media_ssrc p"
| "nack_media _ = 0"

fun nack_narrow :: "rtcp_packet \<Rightarrow> u32 list" where
  "nack_narrow (P_Range_Nack p) = range_missing_seqs p"
| "nack_narrow (P_Bitmask_Nack p) = bitmask_missing_seqs p"
| "nack_narrow _ = []"

lemma nack_packets_spec:
  assumes "missing \<noteq> []" "bitmask \<or> length missing \<le> 65536"
  shows "\<exists>ps. (\<forall>out. mc_nack_packets local_ssrc media missing bitmask out = Some (out @ ps)) \<and> ps \<noteq> []
    \<and> list_all nack_packet_ok ps \<and> list_all (\<lambda>p. nack_media p = media) ps
    \<and> (\<Union>p\<in>set ps. set (nack_narrow p)) = low16 ` set missing"
proof (cases bitmask)
  case True
  obtain pkts where pkts: "encode_bitmask_nack 0 media missing = Some pkts" "\<forall>p\<in>set pkts. bitmask_shape 0 media p"
    "(\<Union>p\<in>set pkts. set (bitmask_missing_seqs p)) = low16 ` set missing"
    using bitmask_nack_expands by blast
  have ne: "pkts \<noteq> []" using pkts(3) assms(1) by auto
  show ?thesis
    by (rule exI [of _ "map P_Bitmask_Nack pkts"], intro conjI)
      (use pkts ne True in \<open>auto simp: mc_nack_packets_def nack_packet_ok_def rtcp_canonical_def bitmask_shape_def list_all_iff\<close>)
next
  case False
  let ?ps = "encode_range_nack local_ssrc media missing"
  note shape = encode_range_packs [of local_ssrc media missing, THEN conjunct2]
  have "concat (map range_missing_seqs ?ps) = map low16 missing"
    using assms False by (intro range_nack_expands) (simp add: max_nack_expand_def)
  then have eq: "(\<Union>p\<in>set ?ps. set (range_missing_seqs p)) = low16 ` set missing"
    by (metis list.set_map set_concat image_image)
  have ne: "?ps \<noteq> []" using eq assms(1) by auto
  have ok: "list_all nack_packet_ok (map P_Range_Nack ?ps)" "list_all (\<lambda>p. nack_media p = media) (map P_Range_Nack ?ps)"
    using shape by (auto simp: nack_packet_ok_def rtcp_canonical_def list_all_iff)
  show ?thesis
    by (rule exI [of _ "map P_Range_Nack ?ps"], intro conjI)
      (use eq ne ok False in \<open>simp_all add: mc_nack_packets_def\<close>)
qed

text \<open>Both ways of widening a number give it back when it is answerable and, behind an EXTSEQ, in its half.\<close>

lemma ext_widens:
  assumes "seq_high m = hi"
  shows "push_bit 16 (ucast hi) OR (low16 m AND 0xFFFF) = m"
proof -
  have m: "(0xFFFF :: u32) = mask 16" by (simp add: mask_eq_exp_minus_1)
  show ?thesis
    unfolding m assms [symmetric]
    by (rule bit_word_eqI) (auto simp: seq_high_def low16_def bit_simps)
qed

definition run_answerable :: "u32 \<Rightarrow> u32 list \<Rightarrow> bool" where
  "run_answerable nack_ref missing \<longleftrightarrow> list_all (\<lambda>m. uint (nack_ref - m) < 2 ^ 16) missing"

lemma fold_nack_widens:
  assumes "run_answerable nack_ref missing" "have_ext \<Longrightarrow> list_all (\<lambda>m. seq_high m = hi) missing"
    and "set narrow \<subseteq> low16 ` set missing"
  shows "fold_nack media narrow hi have_ext nack_ref = Nack media (map (\<lambda>s. widen_seq_at_most (ucast s) nack_ref) narrow)"
proof -
  have "push_bit 16 (ucast hi) OR (s AND 0xFFFF) = widen_seq_at_most (ucast s) nack_ref"
    if ext: have_ext and s: "s \<in> set narrow" for s
  proof -
    from s assms(3) obtain m where m: "m \<in> set missing" "s = low16 m" by auto
    with assms(1,2) ext show ?thesis by (simp add: run_answerable_def list_all_iff widen_low16 ext_widens)
  qed
  then show ?thesis by (simp add: fold_nack_def)
qed

lemma loop_nack:
  "is_nack p \<Longrightarrow> main_feedback_loop nack_ref enc (p # ps) hi have_ext out cname
    = main_feedback_loop nack_ref enc ps hi False (out @ [fold_nack (nack_media p) (nack_narrow p) hi have_ext nack_ref]) cname"
  by (cases p) simp_all

lemma loop_nacks:
  assumes "run_answerable nack_ref missing" "have_ext \<Longrightarrow> list_all (\<lambda>m. seq_high m = hi) missing"
    and "list_all nack_packet_ok ps" "list_all (\<lambda>p. nack_media p = media) ps"
    and "(\<Union>p\<in>set ps. set (nack_narrow p)) \<subseteq> low16 ` set missing"
  shows "main_feedback_loop nack_ref enc (ps @ rest) hi have_ext out cname
    = main_feedback_loop nack_ref enc rest hi (have_ext \<and> ps = [])
        (out @ map (\<lambda>p. Nack media (map (\<lambda>s. widen_seq_at_most (ucast s) nack_ref) (nack_narrow p))) ps) cname"
  using assms(2-)
proof (induction ps arbitrary: have_ext out)
  case Nil
  then show ?case by simp
next
  case (Cons p ps)
  have fold: "fold_nack media (nack_narrow p) hi have_ext nack_ref
      = Nack media (map (\<lambda>s. widen_seq_at_most (ucast s) nack_ref) (nack_narrow p))"
    using fold_nack_widens [OF assms(1) Cons.prems(1)] Cons.prems(3,4) by simp
  show ?case
    using Cons.IH [of False] Cons.prems by (simp add: loop_nack nack_packet_ok_def fold del: main_feedback_loop.simps)
qed

lemma asked_nacks:
  assumes "run_answerable nack_ref missing" "(\<Union>p\<in>set ps. set (nack_narrow p)) = low16 ` set missing"
  shows "set (asked ssrc (map (\<lambda>p. Nack media (map (\<lambda>s. widen_seq_at_most (ucast s) nack_ref) (nack_narrow p))) ps))
    = set (asked_of ssrc (Nack media missing))"
proof (cases "media = ssrc")
  case True
  have "set (asked ssrc (map (\<lambda>p. Nack media (map (\<lambda>s. widen_seq_at_most (ucast s) nack_ref) (nack_narrow p))) ps))
      = (\<lambda>s. widen_seq_at_most (ucast s) nack_ref) ` (\<Union>p\<in>set ps. set (nack_narrow p))"
    using True by (auto simp: asked_def asked_of_def)
  also have "\<dots> = set missing"
    unfolding assms(2) using assms(1) widen_low16 by (force simp: run_answerable_def list_all_iff image_image)
  finally show ?thesis using True by (simp add: asked_of_def)
next
  case False
  then show ?thesis by (auto simp: asked_def asked_of_def)
qed

text \<open>The NACK part of a compound: every EXTSEQ is followed by a NACK.\<close>

fun nack_part :: "rtcp_packet list \<Rightarrow> bool" where
  "nack_part [] = True"
| "nack_part (p # ps) = ((nack_packet_ok p \<or> (\<exists>e. p = P_Ext_Seq e) \<and> ps \<noteq> [] \<and> is_nack (hd ps)) \<and> nack_part ps)"

lemma nack_part_append: "nack_part xs \<Longrightarrow> nack_part ys \<Longrightarrow> nack_part (xs @ ys)"
  by (induction xs) (auto simp: hd_append)

lemma nack_part_nacks: "list_all nack_packet_ok ps \<Longrightarrow> nack_part ps"
  by (induction ps) auto

lemma nack_part_canonical: "nack_part ps \<Longrightarrow> p \<in> set ps \<Longrightarrow> rtcp_canonical p"
  by (induction ps) (auto simp: nack_packet_ok_def rtcp_canonical_def)

lemma nack_part_classes: "nack_part ps \<Longrightarrow> list_all echo_packet_ok es \<Longrightarrow> check_classes 0 (ps @ es) = None"
proof (induction ps)
  case Nil
  then show ?case by (simp add: check_classes_echoes)
next
  case (Cons p ps)
  then show ?case by (cases p) (auto simp: nack_packet_ok_def hd_append)
qed

text \<open>What a decoder at the reference makes of packets standing for the requests \<open>wanted\<close>.\<close>

definition nacks_for :: "u32 \<Rightarrow> rtcp_packet list \<Rightarrow> (u32 \<Rightarrow> u32 set) \<Rightarrow> bool" where
  "nacks_for nack_ref ps wanted \<longleftrightarrow> nack_part ps
     \<and> (\<forall>enc rest hi out cname. \<exists>hi' fs. main_feedback_loop nack_ref enc (ps @ rest) hi False out cname
            = main_feedback_loop nack_ref enc rest hi' False (out @ fs) cname
          \<and> echoes_in fs = [] \<and> (\<forall>ssrc. set (asked ssrc fs) = wanted ssrc))"

lemma nacks_for_append:
  assumes xs: "nacks_for r xs u" and ys: "nacks_for r ys v" and w: "w = (\<lambda>ssrc. u ssrc \<union> v ssrc)"
  shows "nacks_for r (xs @ ys) w"
  unfolding nacks_for_def
proof (intro conjI allI)
  show "nack_part (xs @ ys)" using xs ys by (simp add: nacks_for_def nack_part_append)
  fix enc rest hi out cname
  obtain h1 f1 where 1: "main_feedback_loop r enc (xs @ (ys @ rest)) hi False out cname
      = main_feedback_loop r enc (ys @ rest) h1 False (out @ f1) cname" "echoes_in f1 = []" "\<And>ssrc. set (asked ssrc f1) = u ssrc"
    using xs unfolding nacks_for_def by blast
  obtain h2 f2 where 2: "main_feedback_loop r enc (ys @ rest) h1 False (out @ f1) cname
      = main_feedback_loop r enc rest h2 False ((out @ f1) @ f2) cname" "echoes_in f2 = []" "\<And>ssrc. set (asked ssrc f2) = v ssrc"
    using ys unfolding nacks_for_def by blast
  show "\<exists>hi' fs. main_feedback_loop r enc ((xs @ ys) @ rest) hi False out cname
      = main_feedback_loop r enc rest hi' False (out @ fs) cname \<and> echoes_in fs = [] \<and> (\<forall>ssrc. set (asked ssrc fs) = w ssrc)"
    using 1 2 by (intro exI [of _ h2] exI [of _ "f1 @ f2"]) (simp add: w)
qed

lemma nacks_for_Nil: "nacks_for r [] (\<lambda>ssrc. {})"
  unfolding nacks_for_def
proof (intro conjI allI)
  fix enc rest hi out cname
  show "\<exists>hi' fs. main_feedback_loop r enc ([] @ rest) hi False out cname
      = main_feedback_loop r enc rest hi' False (out @ fs) cname \<and> echoes_in fs = [] \<and> (\<forall>ssrc. set (asked ssrc fs) = {})"
    by (rule exI [of _ hi], rule exI [of _ "[]"]) simp
qed simp

lemma echoes_in_nacks [simp]: "echoes_in (map (\<lambda>p. Nack m (f p)) ps) = []"
  by (simp add: echoes_in_def filter_map comp_def)

lemma nacks_for_plain:
  assumes "run_answerable r missing" "list_all nack_packet_ok ps" "list_all (\<lambda>p. nack_media p = media) ps"
    and "(\<Union>p\<in>set ps. set (nack_narrow p)) = low16 ` set missing"
  shows "nacks_for r ps (\<lambda>ssrc. set (asked_of ssrc (Nack media missing)))"
  unfolding nacks_for_def
proof (intro conjI allI)
  show "nack_part ps" using assms(2) by (rule nack_part_nacks)
  fix enc rest hi out cname
  show "\<exists>hi' fs. main_feedback_loop r enc (ps @ rest) hi False out cname
      = main_feedback_loop r enc rest hi' False (out @ fs) cname \<and> echoes_in fs = []
      \<and> (\<forall>ssrc. set (asked ssrc fs) = set (asked_of ssrc (Nack media missing)))"
    using loop_nacks [OF assms(1) _ assms(2,3), of False hi enc rest out cname] assms(4) asked_nacks [OF assms(1,4), of _ media]
    by (intro exI [of _ hi] exI [of _ "map (\<lambda>p. Nack media (map (\<lambda>s. widen_seq_at_most (ucast s) r) (nack_narrow p))) ps"]) simp
qed

lemma nacks_for_run:
  assumes "run_answerable r missing" "list_all nack_packet_ok ps" "list_all (\<lambda>p. nack_media p = media) ps" "ps \<noteq> []"
    and "(\<Union>p\<in>set ps. set (nack_narrow p)) = low16 ` set missing" "list_all (\<lambda>m. seq_high m = hi) missing"
  shows "nacks_for r (P_Ext_Seq \<lparr>es_ssrc = l, es_seq_high = hi\<rparr> # ps) (\<lambda>ssrc. set (asked_of ssrc (Nack media missing)))"
  unfolding nacks_for_def
proof (intro conjI allI)
  have "is_nack (hd ps)" using assms(2,4) by (cases ps) (simp_all add: nack_packet_ok_def)
  then show "nack_part (P_Ext_Seq \<lparr>es_ssrc = l, es_seq_high = hi\<rparr> # ps)"
    using assms(4) nack_part_nacks [OF assms(2)] by simp
  fix enc rest hi0 out cname
  show "\<exists>hi' fs. main_feedback_loop r enc ((P_Ext_Seq \<lparr>es_ssrc = l, es_seq_high = hi\<rparr> # ps) @ rest) hi0 False out cname
      = main_feedback_loop r enc rest hi' False (out @ fs) cname \<and> echoes_in fs = []
      \<and> (\<forall>ssrc. set (asked ssrc fs) = set (asked_of ssrc (Nack media missing)))"
    using loop_nacks [OF assms(1) _ assms(2,3), of True hi enc rest out cname] assms(4-6) asked_nacks [OF assms(1,5), of _ media]
    by (intro exI [of _ hi] exI [of _ "map (\<lambda>p. Nack media (map (\<lambda>s. widen_seq_at_most (ucast s) r) (nack_narrow p))) ps"]) simp
qed

text \<open>Behind its EXTSEQ a run that fits one packet is widened from the EXTSEQ alone, wherever the reference is.\<close>

lemma nacks_for_single:
  assumes "nack_packet_ok p" "nack_media p = media" "set (nack_narrow p) = low16 ` set missing"
    and "list_all (\<lambda>m. seq_high m = hi) missing"
  shows "nacks_for r [P_Ext_Seq \<lparr>es_ssrc = l, es_seq_high = hi\<rparr>, p] (\<lambda>ssrc. set (asked_of ssrc (Nack media missing)))"
  unfolding nacks_for_def
proof (intro conjI allI)
  have p: "is_nack p" using assms(1) by (simp add: nack_packet_ok_def)
  show "nack_part [P_Ext_Seq \<lparr>es_ssrc = l, es_seq_high = hi\<rparr>, p]" using assms(1) p by simp
  define fb where "fb = fold_nack media (nack_narrow p) hi True r"
  have fb: "fb = Nack media (map (\<lambda>s. push_bit 16 (ucast hi) OR (s AND 0xFFFF)) (nack_narrow p))"
    by (simp add: fb_def fold_nack_def)
  have "push_bit 16 (ucast hi) OR (low16 m AND 0xFFFF) = m" if "m \<in> set missing" for m
    by (rule ext_widens) (use assms(4) that in \<open>simp add: list_all_iff\<close>)
  then have "(\<lambda>s. push_bit 16 (ucast hi) OR (s AND 0xFFFF)) ` set (nack_narrow p) = set missing"
    unfolding assms(3) image_image by (simp cong: image_cong)
  then have "set (asked_of ssrc fb) = set (asked_of ssrc (Nack media missing))" for ssrc
    by (simp add: fb asked_of_def)
  moreover have "echoes_in [fb] = []" by (simp add: fb echoes_in_def)
  moreover fix enc rest hi0 out cname
  have "main_feedback_loop r enc ([P_Ext_Seq \<lparr>es_ssrc = l, es_seq_high = hi\<rparr>, p] @ rest) hi0 False out cname
      = main_feedback_loop r enc rest hi False (out @ [fb]) cname"
    using p assms(2) by (cases p) (simp_all add: fb_def)
  ultimately show "\<exists>hi' fs. main_feedback_loop r enc ([P_Ext_Seq \<lparr>es_ssrc = l, es_seq_high = hi\<rparr>, p] @ rest) hi0 False out cname
      = main_feedback_loop r enc rest hi' False (out @ fs) cname \<and> echoes_in fs = []
      \<and> (\<forall>ssrc. set (asked ssrc fs) = set (asked_of ssrc (Nack media missing)))"
    by (intro exI [of _ hi] exI [of _ "[fb]"]) (simp add: asked_def)
qed

text \<open>The runs of a list by upper half, and the NACKs the tunnel carries exactly: behind an EXTSEQ a run that fits one
  packet or lies among the last 65536 numbers before the reference; without one only the latter.\<close>

function high_runs :: "u32 list \<Rightarrow> u32 list list" where
  "high_runs [] = []"
| "high_runs (m # ms) = takeWhile (\<lambda>s. seq_high s = seq_high m) (m # ms)
     # high_runs (dropWhile (\<lambda>s. seq_high s = seq_high m) (m # ms))"
  by pat_completeness auto

termination
  by (relation "measure length") (auto simp: le_imp_less_Suc length_dropWhile_le)

definition one_packet :: "u32 \<Rightarrow> u32 \<Rightarrow> bool \<Rightarrow> u32 list \<Rightarrow> bool" where
  "one_packet l media bitmask run \<longleftrightarrow>
     (case mc_nack_packets l media run bitmask [] of None \<Rightarrow> False | Some ps \<Rightarrow> length ps \<le> 1)"

definition main_answerable :: "u32 \<Rightarrow> bool \<Rightarrow> u32 \<Rightarrow> feedback \<Rightarrow> bool" where
  "main_answerable l bitmask r fb =
     (case fb of
        Nack media missing \<Rightarrow> (bitmask \<or> length missing \<le> 65536)
          \<and> (if list_ex (\<lambda>s. drop_bit 16 s \<noteq> 0) missing
               then list_all (\<lambda>run. run_answerable r run \<or> one_packet l media bitmask run) (high_runs missing)
               else run_answerable r missing)
      | _ \<Rightarrow> True)"

lemma asked_of_split: "set xs \<union> set ys = set zs \<Longrightarrow>
  set (asked_of ssrc (Nack m xs)) \<union> set (asked_of ssrc (Nack m ys)) = set (asked_of ssrc (Nack m zs))"
  by (auto simp: asked_of_def)

lemma nack_runs_spec:
  assumes "list_all (\<lambda>run. run_answerable r run \<or> one_packet l media bitmask run) (high_runs missing)" "bitmask \<or> length missing \<le> 65536"
  shows "\<exists>ps. nack_runs l media bitmask missing out = Some (out @ ps)
    \<and> nacks_for r ps (\<lambda>ssrc. set (asked_of ssrc (Nack media missing)))"
  using assms
proof (induction l media bitmask missing out rule: nack_runs.induct)
  case (1 l media bitmask out)
  then show ?case by (intro exI [of _ "[]"]) (simp add: asked_of_def nacks_for_Nil)
next
  case (2 l media bitmask m ms out)
  define hi where "hi = seq_high m"
  define run where "run = takeWhile (\<lambda>s. seq_high s = hi) (m # ms)"
  define rest where "rest = dropWhile (\<lambda>s. seq_high s = hi) (m # ms)"
  have split: "set run \<union> set rest = set (m # ms)"
    unfolding run_def rest_def by (metis set_append takeWhile_dropWhile_id)
  have ans: "run_answerable r run \<or> one_packet l media bitmask run"
    "list_all (\<lambda>run. run_answerable r run \<or> one_packet l media bitmask run) (high_runs rest)"
    using "2.prems"(1) by (simp_all add: run_def rest_def hi_def del: takeWhile.simps dropWhile.simps)
  have len: "length run \<le> length (m # ms)" "length rest \<le> length (m # ms)"
    unfolding run_def rest_def by (rule length_takeWhile_le, rule length_dropWhile_le)
  have high: "list_all (\<lambda>s. seq_high s = hi) run" unfolding run_def by (auto simp: list_all_iff dest: set_takeWhileD)
  have ne: "run \<noteq> []" by (simp add: run_def hi_def)
  let ?ext = "P_Ext_Seq \<lparr>es_ssrc = l, es_seq_high = hi\<rparr>"
  obtain ps where every: "\<And>out. mc_nack_packets l media run bitmask out = Some (out @ ps)" and "ps \<noteq> []"
    "list_all nack_packet_ok ps" "list_all (\<lambda>p. nack_media p = media) ps"
    "(\<Union>p\<in>set ps. set (nack_narrow p)) = low16 ` set run"
    using nack_packets_spec [OF ne, of bitmask l media] "2.prems"(2) len(1) by fastforce
  note ps = every [of "out @ [?ext]"] this(2-)
  have run: "nacks_for r (?ext # ps) (\<lambda>ssrc. set (asked_of ssrc (Nack media run)))"
    using ans(1)
  proof
    assume "run_answerable r run"
    then show ?thesis by (rule nacks_for_run [OF _ ps(3,4,2,5) high])
  next
    assume "one_packet l media bitmask run"
    then have "length ps \<le> 1" by (simp add: one_packet_def every)
    with ps(2) obtain p where p: "ps = [p]" by (cases ps) auto
    show ?thesis unfolding p by (rule nacks_for_single) (use ps(3-5) high in \<open>simp_all add: p\<close>)
  qed
  have IH: "\<exists>qs. nack_runs l media bitmask rest ((out @ [?ext]) @ ps) = Some (((out @ [?ext]) @ ps) @ qs)
      \<and> nacks_for r qs (\<lambda>ssrc. set (asked_of ssrc (Nack media rest)))"
    using "2.IH" [OF refl refl ps(1) [unfolded run_def hi_def]] ans(2) "2.prems"(2) len(2)
    unfolding rest_def hi_def by fastforce
  then obtain qs where qs: "nack_runs l media bitmask rest ((out @ [?ext]) @ ps) = Some (((out @ [?ext]) @ ps) @ qs)"
    "nacks_for r qs (\<lambda>ssrc. set (asked_of ssrc (Nack media rest)))" by blast
  have "nacks_for r ((?ext # ps) @ qs) (\<lambda>ssrc. set (asked_of ssrc (Nack media (m # ms))))"
    by (rule nacks_for_append [OF run qs(2)]) (simp add: asked_of_split [OF split])
  moreover have "nack_runs l media bitmask (m # ms) out = Some (out @ (?ext # ps) @ qs)"
    using ps(1) qs(1) by (simp add: Let_def run_def rest_def hi_def del: takeWhile.simps dropWhile.simps)
  ultimately show ?case by blast
qed

lemma encode_nack_spec:
  assumes "main_answerable l bitmask r (Nack media missing)"
  shows "\<exists>ps. mc_encode_nack l media missing bitmask out = Some (out @ ps)
    \<and> nacks_for r ps (\<lambda>ssrc. set (asked_of ssrc (Nack media missing)))"
proof (cases "missing = []")
  case True
  then show ?thesis by (intro exI [of _ "[]"]) (simp add: mc_encode_nack_def asked_of_def nacks_for_Nil)
next
  case False
  have len: "bitmask \<or> length missing \<le> 65536" using assms by (simp add: main_answerable_def)
  show ?thesis
  proof (cases "list_ex (\<lambda>s. drop_bit 16 s \<noteq> 0) missing")
    case True
    then have "list_all (\<lambda>run. run_answerable r run \<or> one_packet l media bitmask run) (high_runs missing)"
      using assms by (simp add: main_answerable_def)
    from nack_runs_spec [OF this len] show ?thesis using True False by (simp add: mc_encode_nack_def)
  next
    case low: False
    then have ans: "run_answerable r missing" using assms by (simp add: main_answerable_def)
    obtain ps where ps: "mc_nack_packets l media missing bitmask out = Some (out @ ps)"
      "list_all nack_packet_ok ps" "list_all (\<lambda>p. nack_media p = media) ps"
      "(\<Union>p\<in>set ps. set (nack_narrow p)) = low16 ` set missing"
      using nack_packets_spec [OF False len] by blast
    show ?thesis using nacks_for_plain [OF ans ps(2-4)] ps(1) False low by (auto simp: mc_encode_nack_def)
  qed
qed

lemma main_feedback_packets_spec:
  assumes "list_all (main_answerable l bitmask r) fbs"
  shows "\<exists>ns es. main_feedback_packets l bitmask fbs nacks echoes = Some (nacks @ ns, echoes @ es)
    \<and> nacks_for r ns (\<lambda>ssrc. set (asked ssrc fbs)) \<and> list_all echo_packet_ok es
    \<and> concat (map (feedback_of r) es) = concat (map (echo_of l) fbs)"
  using assms
proof (induction fbs arbitrary: nacks echoes)
  case Nil
  then show ?case by (simp add: nacks_for_Nil)
next
  case (Cons fb fbs)
  let ?goal = "\<lambda>ns es. main_feedback_packets l bitmask (fb # fbs) nacks echoes = Some (nacks @ ns, echoes @ es)
    \<and> nacks_for r ns (\<lambda>ssrc. set (asked ssrc (fb # fbs))) \<and> list_all echo_packet_ok es
    \<and> concat (map (feedback_of r) es) = concat (map (echo_of l) (fb # fbs))"
  have IH: "\<exists>ns es. main_feedback_packets l bitmask fbs nacks' echoes' = Some (nacks' @ ns, echoes' @ es)
    \<and> nacks_for r ns (\<lambda>ssrc. set (asked ssrc fbs)) \<and> list_all echo_packet_ok es
    \<and> concat (map (feedback_of r) es) = concat (map (echo_of l) fbs)" for nacks' echoes'
    using Cons.prems by (intro Cons.IH) simp
  show ?case
  proof (cases fb)
    case (Nack media missing)
    have ok: "main_answerable l bitmask r (Nack media missing)" using Cons.prems by (simp add: Nack)
    obtain ps where ps: "mc_encode_nack l media missing bitmask nacks = Some (nacks @ ps)"
      "nacks_for r ps (\<lambda>ssrc. set (asked_of ssrc fb))"
      using encode_nack_spec [OF ok, of nacks] by (auto simp: Nack)
    obtain ns es where i: "main_feedback_packets l bitmask fbs (nacks @ ps) echoes = Some ((nacks @ ps) @ ns, echoes @ es)"
      "nacks_for r ns (\<lambda>ssrc. set (asked ssrc fbs))" "list_all echo_packet_ok es"
      "concat (map (feedback_of r) es) = concat (map (echo_of l) fbs)"
      using IH by blast
    have "nacks_for r (ps @ ns) (\<lambda>ssrc. set (asked ssrc (fb # fbs)))"
      by (rule nacks_for_append [OF ps(2) i(2)]) simp
    then have "?goal (ps @ ns) es" using ps(1) i by (simp add: Nack echo_of_def)
    then show ?thesis by blast
  next
    case (RttEchoRequest s t)
    let ?e = "P_Echo_Request \<lparr>eq_ssrc = l, eq_timestamp = t, eq_padding = []\<rparr>"
    obtain ns es where i: "main_feedback_packets l bitmask fbs nacks (echoes @ [?e]) = Some (nacks @ ns, (echoes @ [?e]) @ es)"
      "nacks_for r ns (\<lambda>ssrc. set (asked ssrc fbs))" "list_all echo_packet_ok es"
      "concat (map (feedback_of r) es) = concat (map (echo_of l) fbs)"
      using IH by blast
    then have "?goal ns (?e # es)" by (simp add: RttEchoRequest echo_of_def echo_packet_ok_def asked_of_def)
    then show ?thesis by blast
  next
    case (RttEchoResponse s t d)
    let ?e = "P_Echo_Response \<lparr>er_ssrc = s, er_timestamp = t, er_processing_delay = d, er_padding = []\<rparr>"
    obtain ns es where i: "main_feedback_packets l bitmask fbs nacks (echoes @ [?e]) = Some (nacks @ ns, (echoes @ [?e]) @ es)"
      "nacks_for r ns (\<lambda>ssrc. set (asked ssrc fbs))" "list_all echo_packet_ok es"
      "concat (map (feedback_of r) es) = concat (map (echo_of l) fbs)"
      using IH by blast
    then have "?goal ns (?e # es)" by (simp add: RttEchoResponse echo_of_def echo_packet_ok_def asked_of_def)
    then show ?thesis by blast
  qed (use IH [of nacks echoes] in simp_all)
qed

lemma loop_echoes:
  "list_all echo_packet_ok es \<Longrightarrow> main_feedback_loop r enc es hi False out cname = (out @ concat (map (feedback_of r) es), cname)"
  by (induction es arbitrary: out) (auto simp: echo_packet_ok_def split: rtcp_packet.splits)

lemma loop_lead:
  "is_report lead \<Longrightarrow> main_feedback_loop r enc (lead # ps) hi False [] cname
    = main_feedback_loop r enc ps hi False (feedback_of r lead) cname"
  by (cases lead) simp_all

lemma report_inner:
  assumes "is_report lead"
  shows "inner_is_rtcp (rtcp_encode lead @ rest)" "2 \<le> length (rtcp_encode lead @ rest)"
proof -
  have "\<exists>c pt n tail. rtcp_encode lead = rtcp_header_bytes c pt n @ tail \<and> (pt = 200 \<or> pt = 201)"
    using assms
    by (cases lead) (auto simp: encode_sender_report_def encode_empty_receiver_report_def encode_receiver_report_def
        encode_link_quality_report_def pt_sender_report_def pt_receiver_report_def)
  then show "inner_is_rtcp (rtcp_encode lead @ rest)" "2 \<le> length (rtcp_encode lead @ rest)"
    by (auto simp: inner_is_rtcp_def rtcp_header_bytes_def rtcp_pt_min_def rtcp_pt_max_def)
qed

text \<open>A compound and what any decoder at the reference makes of it.\<close>

lemma compound_spec:
  assumes fbs: "list_all (main_answerable (mc_ssrc c) bitmask r) fbs"
    and lead: "is_report lead" "rtcp_canonical lead" "length (mc_cname c) \<le> 255"
  shows "\<exists>b. mc_build_compound lead fbs bitmask c = res_ok b \<and> inner_is_rtcp b \<and> 2 \<le> length b
    \<and> (\<forall>enc cr. \<exists>out. mc_decode_feedback b r enc cr
           = st_ok (cr\<lparr>mc_last_rx_cname := (if enc then Some (mc_cname c) else mc_last_rx_cname cr)\<rparr>) out
         \<and> echoes_in out = concat (map (echo_of (mc_ssrc c)) fbs) \<and> (\<forall>ssrc. set (asked ssrc out) = set (asked ssrc fbs)))"
proof -
  obtain ns es where p: "main_feedback_packets (mc_ssrc c) bitmask fbs [] [] = Some (ns, es)"
    "nacks_for r ns (\<lambda>ssrc. set (asked ssrc fbs))" "list_all echo_packet_ok es"
    "concat (map (feedback_of r) es) = concat (map (echo_of (mc_ssrc c)) fbs)"
    using main_feedback_packets_spec [OF fbs, of "[]" "[]"] by auto
  define sdes where "sdes = P_Sdes \<lparr>sd_ssrc = mc_ssrc c, sd_cname = mc_cname c\<rparr>"
  define pkts where "pkts = [lead, sdes] @ ns @ es"
  have part: "nack_part ns" using p(2) by (simp add: nacks_for_def)
  have "rtcp_canonical sdes" using lead(3) by (simp add: sdes_def rtcp_canonical_def)
  then have canon: "\<forall>q\<in>set pkts. rtcp_canonical q"
    using lead(2) p(3) nack_part_canonical [OF part] echo_packet_canonical by (auto simp: pkts_def list_all_iff)
  have order: "check_compound_order pkts = None"
    using lead(1) nack_part_classes [OF part p(3)] by (simp add: pkts_def sdes_def check_compound_order_def)
  let ?b = "concat (map rtcp_encode pkts)"
  have build: "mc_build_compound lead fbs bitmask c = res_ok ?b"
    using build_compound_bytes [of "[]" pkts] order p(1) by (simp add: mc_build_compound_def pkts_def sdes_def)
  have b: "?b = rtcp_encode lead @ concat (map rtcp_encode (sdes # ns @ es))" by (simp add: pkts_def)
  note inner = report_inner [OF lead(1), of "concat (map rtcp_encode (sdes # ns @ es))", folded b]
  have "parse_packets ?b = Some (Inr pkts)" using canon by (rule parse_packets_encode)
  moreover have "?b \<noteq> []" using inner(2) by (metis list.size(3) not_numeral_le_zero)
  ultimately have parse: "parse_compound ?b = Some (Inr pkts)" by (simp add: parse_compound_def)
  have "\<exists>out. mc_decode_feedback ?b r enc cr
           = st_ok (cr\<lparr>mc_last_rx_cname := (if enc then Some (mc_cname c) else mc_last_rx_cname cr)\<rparr>) out
         \<and> echoes_in out = concat (map (echo_of (mc_ssrc c)) fbs) \<and> (\<forall>ssrc. set (asked ssrc out) = set (asked ssrc fbs))"
    for enc cr
  proof -
    define name where "name = (if enc then Some (mc_cname c) else mc_last_rx_cname cr)"
    obtain hi fs where fs: "main_feedback_loop r enc (ns @ es) 0 False (feedback_of r lead) name
        = main_feedback_loop r enc es hi False (feedback_of r lead @ fs) name"
      "echoes_in fs = []" "\<And>ssrc. set (asked ssrc fs) = set (asked ssrc fbs)"
      using p(2) unfolding nacks_for_def by blast
    define out where "out = (feedback_of r lead @ fs) @ concat (map (feedback_of r) es)"
    have "main_feedback_loop r enc pkts 0 False [] (mc_last_rx_cname cr)
        = main_feedback_loop r enc (ns @ es) 0 False (feedback_of r lead) name"
      using lead(1) by (auto simp: pkts_def sdes_def loop_lead name_def simp del: main_feedback_loop.simps(2))
        (auto simp: name_def)
    then have "main_feedback_loop r enc pkts 0 False [] (mc_last_rx_cname cr) = (out, name)"
      using fs(1) loop_echoes [OF p(3)] by (simp add: out_def)
    then have "mc_decode_feedback ?b r enc cr = st_ok (cr\<lparr>mc_last_rx_cname := name\<rparr>) out"
      by (simp add: mc_decode_feedback_def parse)
    moreover have "echoes_in out = concat (map (echo_of (mc_ssrc c)) fbs)"
      using fs(2) p(4) echo_lists(1) report_feedback(1) [OF lead(1)] by (simp add: out_def)
    moreover have "set (asked ssrc out) = set (asked ssrc fbs)" for ssrc
      using fs(3) p(4) echo_lists(2) report_feedback(2) [OF lead(1)] by (simp add: out_def)
    ultimately show ?thesis unfolding name_def by blast
  qed
  with build inner show ?thesis by blast
qed

section \<open>The probes\<close>

lemma keyed_slice: "gre_parse b = Some (Inr (hdr, off)) \<Longrightarrow> \<exists>x. vec_slice b off (length b) = Some x"
  using gre_parse_offset [of b hdr off] by (auto simp: res_ok_def vec_slice_def)

lemma gre_parse_some: "\<exists>r. gre_parse b = Some r"
  using gre_parse_returns [of b] by (simp add: returns_def)

lemma control_body_some: "control_body region v c \<noteq> None"
  using keepalive_parse_returns [of region] by (auto simp: control_body_def returns_def split: sum.split)

lemma peeks_return:
  "mc_peek_eapol b \<noteq> None" "mc_peek_oob L b c \<noteq> None" "mc_peek_control L b c \<noteq> None" "mc_feedback_cname L b c \<noteq> None"
proof -
  obtain r where r: "gre_parse b = Some r" using gre_parse_some by blast
  have "mc_peek_eapol b \<noteq> None \<and> mc_peek_oob L b c \<noteq> None \<and> mc_peek_control L b c \<noteq> None"
  proof (cases r)
    case (Inl e)
    with r show ?thesis by (simp add: mc_peek_eapol_def mc_peek_oob_def mc_peek_control_def)
  next
    case (Inr p)
    obtain hdr off where p: "p = (hdr, off)" by (cases p)
    obtain x where x: "vec_slice b off (length b) = Some x" using keyed_slice r Inr p by blast
    have "mc_peek_eapol b \<noteq> None" using r x by (simp add: Inr p mc_peek_eapol_def)
    moreover have "mc_peek_oob L b c \<noteq> None"
      using r x by (auto simp: Inr p mc_peek_oob_def Let_def st_ok_def st_err_def split: option.split prod.split sum.split)
    moreover have "mc_peek_control L b c \<noteq> None"
      using r x control_body_some by (auto simp: Inr p mc_peek_control_def Let_def split: option.split prod.split sum.split)
    ultimately show ?thesis by blast
  qed
  then show "mc_peek_eapol b \<noteq> None" "mc_peek_oob L b c \<noteq> None" "mc_peek_control L b c \<noteq> None" by simp_all
  obtain cr rr where m: "mc_main_region L b c = Some (cr, rr)"
    using mc_main_region_keeps [OF refl, of c L b] by (auto simp: st_keeps_def split: option.splits)
  have pc: "parse_compound region \<noteq> None" for region using parse_compound_returns [of region] by auto
  show "mc_feedback_cname L b c \<noteq> None"
    using m pc by (auto simp: mc_feedback_cname_def split: sum.split main_region_kind.split bool.split option.split)
      (metis not_None_eq)
qed

section \<open>Samples\<close>

definition sample_fresh :: "nat \<Rightarrow> bytes option" where
  "sample_fresh i = Some [0x92, 1, 2, 3]"

definition sample_main_sender :: main_codec where
  "sample_main_sender = mc_new (Some sample_psk_key) None True 1971 1968 True 8 [0x61]"

definition sample_main_receiver :: main_codec where
  "sample_main_receiver = mc_new None (Some sample_decryptor) False 1971 1968 False 8 [0x62]"

lemma sample_main_keyed:
  "sender_keyed toy_psk_lib (Some (False, [112, 119])) sample_main_sender"
  "receiver_keyed toy_psk_lib (Some (False, [112, 119])) 9 sample_main_receiver"
  "ctr_involutive toy_psk_lib" "draws_fresh sample_fresh"
proof -
  show "sender_keyed toy_psk_lib (Some (False, [112, 119])) sample_main_sender"
    by (simp add: sender_keyed_def sample_main_sender_def mc_new_def sample_psk_key_def psk_inv_def aes_from_h_bit_def
        zero_nonce_iff u32_limit_def)
  show "receiver_keyed toy_psk_lib (Some (False, [112, 119])) 9 sample_main_receiver"
    by (simp add: receiver_keyed_def sample_main_receiver_def mc_new_def sample_decryptor_def dec_inv_def u32_limit_def)
  show "ctr_involutive toy_psk_lib"
    unfolding ctr_involutive_def
  proof (intro allI)
    fix b key iv buf
    show "pl_aes_ctr toy_psk_lib b key iv (pl_aes_ctr toy_psk_lib b key iv buf) = buf"
      by (induction buf) (simp_all add: toy_psk_lib_def xor.assoc)
  qed
  show "draws_fresh sample_fresh" by (simp add: draws_fresh_def sample_fresh_def zero_nonce_iff)
qed

section \<open>The properties\<close>

text \<open>C9: A media stream crosses the tunnel. Whatever a sender with the same keys sends (through null-packet deletion,
  encryption with its rotations, GRE), each datagram can be lost, repeated or overtaken: the receiving flow gets for
  every datagram that arrives the packet it was made of, with null packets restored in canonical form and the virtual
  ports of the tunnel, numbered as on the Simple profile, as long as each arrival is within half the range of the
  wire fields of the one before.\<close>

theorem main_stream_received:
  assumes "ctr_involutive L" "sender_keyed L keys cs" "receiver_keyed L keys (length ns + 1) cr"
    and "mc_dec cr = media_decoder_new"
    and "list_all (\<lambda>(draws, q). draws_fresh draws \<and> \<not> is_retransmit (mp_ssrc q)) xs"
    and "list_all (\<lambda>i. i < length xs) (n # ns)" "near_stream (snd (xs ! n)) (map (\<lambda>i. snd (xs ! i)) ns)"
  shows "\<exists>bs. main_transmit L xs cs = Some bs \<and> length bs = length xs
    \<and> main_arrive L r (map ((!) bs) (n # ns)) cr
      = Some (map (\<lambda>i. Inr (D_Media (tunnelled cs (first_shift (snd (xs ! n))) (first_base (snd (xs ! n))) (snd (xs ! i))))) (n # ns))"
proof -
  let ?p = "snd (xs ! n)" and ?qs = "map snd xs"
  obtain bs where bs: "main_transmit L xs cs = Some bs" "list_all2 (\<lambda>(draws, q) b. media_datagram L keys cs b q) xs bs"
    using main_transmit_datagrams [OF assms(1,2,5)] by blast
  have dg: "media_datagram L keys cs (bs ! i) (?qs ! i)" if "i < length ?qs" for i
    using list_all2_nthD [OF bs(2), of i] that by (simp add: case_prod_beta)
  have n: "n < length xs" "list_all (\<lambda>i. i < length ?qs) ns" using assms(6) by simp_all
  have near: "near_stream ?p (map ((!) ?qs) ns)"
    using assms(7) n(2) by (simp add: list_all_iff cong: map_cong)
  obtain d' where w: "md_widen (ucast (mp_seq ?p)) (of_int (media_ticks ?p)) media_decoder_new
      = (d', mp_seq ?p - first_shift ?p, source_of_ticks (media_ticks ?p - first_base ?p))"
    "md_follows (first_shift ?p) (first_base ?p) ?p d'"
    using md_widen_first by blast
  obtain cr' where c: "mc_decode L (bs ! n) r cr = st_ok cr' (D_Media (tunnelled cs (first_shift ?p) (first_base ?p) ?p))"
    "receiver_keyed L keys (length ns) cr'" "mc_dec cr' = d'"
    using media_datagramD [OF dg, where i1 = n and n = "length ns" and cr = cr and r = r] n(1) assms(3,4) w(1) by auto
  have "main_arrive L r (map ((!) bs) ns) cr'
      = Some (map (\<lambda>i. Inr (D_Media (tunnelled cs (first_shift ?p) (first_base ?p) (?qs ! i)))) ns)"
    using main_arrive_follows [OF dg first_consts c(2) _ n(2) near, where r = r] w(2) c(3) by simp
  then show ?thesis
    using bs c(1) n(2) list_all2_lengthD [OF bs(2)]
    by (simp add: st_ok_def list_all_iff cong: map_cong)
qed

theorem main_stream_received_witness:
  "\<exists>bs. main_transmit toy_psk_lib [(sample_fresh, sample_media 0xFFFFFFFF False), (sample_fresh, sample_media 0 False)]
      sample_main_sender = Some bs
    \<and> length bs = length [(sample_fresh, sample_media 0xFFFFFFFF False), (sample_fresh, sample_media 0 False)]
    \<and> main_arrive toy_psk_lib 5 (map ((!) bs) [1, 0, 0]) sample_main_receiver
      = Some (map (\<lambda>i. Inr (D_Media (tunnelled sample_main_sender
          (first_shift (snd ([(sample_fresh, sample_media 0xFFFFFFFF False), (sample_fresh, sample_media 0 False)] ! 1)))
          (first_base (snd ([(sample_fresh, sample_media 0xFFFFFFFF False), (sample_fresh, sample_media 0 False)] ! 1)))
          (snd ([(sample_fresh, sample_media 0xFFFFFFFF False), (sample_fresh, sample_media 0 False)] ! i))))) [1, 0, 0])"
proof (rule main_stream_received [OF sample_main_keyed(3,1)])
  show "receiver_keyed toy_psk_lib (Some (False, [112, 119])) (length [0 :: nat, 0] + 1) sample_main_receiver"
    using sample_main_keyed(2) by (simp add: receiver_keyed_def sample_main_receiver_def mc_new_def)
  show "mc_dec sample_main_receiver = media_decoder_new" by (simp add: sample_main_receiver_def mc_new_def)
  have same: "media_ticks (sample_media a x) = media_ticks (sample_media b y)" for a b x y
    by (simp add: media_ticks_def sample_media_def)
  have t: "\<bar>media_ticks (sample_media a x) - media_ticks (sample_media b y)\<bar> < 2 ^ 31" for a b x y
    using same [of a x b y] by simp
  show "near_stream (snd ([(sample_fresh, sample_media 0xFFFFFFFF False), (sample_fresh, sample_media 0 False)] ! 1))
      (map (\<lambda>i. snd ([(sample_fresh, sample_media 0xFFFFFFFF False), (sample_fresh, sample_media 0 False)] ! i)) [0, 0])"
    using t by (simp add: media_near_def) (simp add: sample_media_def)
qed (simp_all add: sample_main_keyed(4) sample_media_def is_retransmit_def)

text \<open>C10: Feedback crosses the tunnel. When some number of a NACK has a non-zero upper half, every run of its numbers
  that share an upper half travels behind an EXTSEQ packet with that half. The compound a flow's feedback becomes is
  decoded by every receiver with the keys, whatever it received before, into requests for exactly the 32-bit numbers
  asked for on each SSRC and the echo messages in order, provided that each run behind an EXTSEQ fits one NACK packet,
  wherever its numbers lie, or has only numbers among the last 65536 before the reference; a NACK without EXTSEQ
  needs the latter. A NACK in range form holds at most 65536 numbers. The peer's name is taken from encrypted datagrams only. (A run of several packets that lies
  farther back comes out wrong: the first of its packets uses up the EXTSEQ.)\<close>

theorem main_feedback_received:
  assumes "ctr_involutive L" "sender_keyed L keys cs" "receiver_keyed L keys (Suc n) cr" "draws_fresh draws"
    and "list_all (main_answerable (mc_ssrc cs) bitmask r) fbs" "is_report lead" "rtcp_canonical lead" "length (mc_cname cs) \<le> 255"
  shows "\<exists>cs' b cr' out. mc_encode_feedback L draws lead fbs bitmask cs = st_ok cs' b
    \<and> mc_decode L b r cr = st_ok cr' (D_Feedback out)
    \<and> echoes_in out = concat (map (echo_of (mc_ssrc cs)) fbs) \<and> (\<forall>ssrc. set (asked ssrc out) = set (asked ssrc fbs))
    \<and> mc_last_rx_cname cr' = (if keys \<noteq> None then Some (mc_cname cs) else mc_last_rx_cname cr)
    \<and> mc_dec cr' = mc_dec cr"
proof -
  obtain i where i: "mc_build_compound lead fbs bitmask cs = res_ok i" "inner_is_rtcp i" "2 \<le> length i"
    "\<And>enc c. \<exists>out. mc_decode_feedback i r enc c
         = st_ok (c\<lparr>mc_last_rx_cname := (if enc then Some (mc_cname cs) else mc_last_rx_cname c)\<rparr>) out
       \<and> echoes_in out = concat (map (echo_of (mc_ssrc cs)) fbs) \<and> (\<forall>ssrc. set (asked ssrc out) = set (asked ssrc fbs))"
    using compound_spec [OF assms(5-8)] by blast
  obtain cs' b where f: "mc_frame L draws i cs = st_ok cs' b" "carries L keys b i (mc_src_port cs) (mc_dst_port cs)"
    using frame_carries [OF assms(1,2,4) i(3)] by blast
  obtain c where c: "mc_main_region L b cr = st_ok c (R_Inner i (inner_is_rtcp i) (keys \<noteq> None) (mc_src_port cs) (mc_dst_port cs))"
    "c = cr\<lparr>mc_recv_key := mc_recv_key c\<rparr>"
    using f(2) assms(3) unfolding carries_def by blast
  have same: "mc_last_rx_cname c = mc_last_rx_cname cr" "mc_dec c = mc_dec cr" by (subst c(2), simp)+
  obtain out where out: "mc_decode_feedback i r (keys \<noteq> None) c
       = st_ok (c\<lparr>mc_last_rx_cname := (if keys \<noteq> None then Some (mc_cname cs) else mc_last_rx_cname c)\<rparr>) out"
    "echoes_in out = concat (map (echo_of (mc_ssrc cs)) fbs)" "\<And>ssrc. set (asked ssrc out) = set (asked ssrc fbs)"
    using i(4) by blast
  have "mc_decode L b r cr
      = st_ok (c\<lparr>mc_last_rx_cname := (if keys \<noteq> None then Some (mc_cname cs) else mc_last_rx_cname c)\<rparr>) (D_Feedback out)"
    using c(1) i(2) out(1) by (simp add: mc_decode_def)
  moreover have "mc_encode_feedback L draws lead fbs bitmask cs = st_ok cs' b"
    using i(1) f(1) by (simp add: mc_encode_feedback_def)
  ultimately show ?thesis
    using out(2,3) same
    by (intro exI [of _ cs'] exI [of _ b] exI [of _ out]
        exI [of _ "c\<lparr>mc_last_rx_cname := (if keys \<noteq> None then Some (mc_cname cs) else mc_last_rx_cname c)\<rparr>"]) simp
qed

text \<open>The second NACK asks for numbers a whole turn of the lower half before the reference.\<close>

definition sample_main_feedback :: "feedback list" where
  "sample_main_feedback = [RttEchoRequest 0 5, Nack 8 [0x3FFFF, 0x40003], Keepalive, Nack 8 [0x10005, 0x10007, 0x20001]]"

lemma sample_main_answerable: "list_all (main_answerable l True 0x40006) sample_main_feedback"
proof -
  have "one_packet l 8 True [0x10005, 0x10007]" "one_packet l 8 True [0x20001]" by code_simp+
  then show ?thesis by (simp add: sample_main_feedback_def main_answerable_def run_answerable_def seq_high_def)
qed

theorem main_feedback_received_witness:
  "\<exists>cs' b cr' out. mc_encode_feedback toy_psk_lib sample_fresh (P_Empty_Receiver_Report 8) sample_main_feedback True
      sample_main_sender = st_ok cs' b
    \<and> mc_decode toy_psk_lib b 0x40006 sample_main_receiver = st_ok cr' (D_Feedback out)
    \<and> echoes_in out = concat (map (echo_of (mc_ssrc sample_main_sender)) sample_main_feedback)
    \<and> (\<forall>ssrc. set (asked ssrc out) = set (asked ssrc sample_main_feedback))
    \<and> mc_last_rx_cname cr' = (if Some (False, [112 :: u8, 119]) \<noteq> None then Some (mc_cname sample_main_sender)
        else mc_last_rx_cname sample_main_receiver)
    \<and> mc_dec cr' = mc_dec sample_main_receiver"
proof (rule main_feedback_received [OF sample_main_keyed(3,1) _ sample_main_keyed(4) sample_main_answerable])
  show "receiver_keyed toy_psk_lib (Some (False, [112, 119])) (Suc 8) sample_main_receiver"
    using sample_main_keyed(2) by simp
qed (simp_all add: rtcp_canonical_def sample_main_sender_def mc_new_def)

lemma main_arrive_returns: "main_arrive L r bs cr \<noteq> None"
proof (induction bs arbitrary: cr)
  case (Cons b bs)
  obtain cr' x where "mc_decode L b r cr = Some (cr', x)"
    using mc_decode_keeps [OF refl, of cr L b r] by (auto simp: st_keeps_def split: option.splits)
  with Cons show ?case by simp
qed simp

text \<open>C35: No datagram makes the codec panic: from any state, decoding any sequence of byte strings returns an error or
  a value for each, and the four probes the driver runs first (EAPOL, out-of-band data, control, peer name) return on
  any bytes.\<close>

theorem main_any_datagram:
  "main_arrive L r bs c \<noteq> None \<and> mc_peek_eapol b \<noteq> None \<and> mc_peek_oob L b c \<noteq> None
    \<and> mc_peek_control L b c \<noteq> None \<and> mc_feedback_cname L b c \<noteq> None"
  using main_arrive_returns peeks_return by blast

text \<open>The codec after a sequence of datagrams.\<close>

fun main_after :: "psk_lib \<Rightarrow> u32 \<Rightarrow> bytes list \<Rightarrow> main_codec \<Rightarrow> main_codec option" where
  "main_after L r [] c = Some c"
| "main_after L r (b # bs) c = (case mc_decode L b r c of None \<Rightarrow> None | Some (c', x) \<Rightarrow> main_after L r bs c')"

text \<open>The Main profile loses the wire time its FEC is keyed on: whatever is received, the time the driver passes to
  the FEC decoder with every media packet stays what it was at the start, zero, since the Main decoder widens the
  fields without recording the timestamp as the Simple decoder does.\<close>

theorem main_wire_time_never_recorded:
  "\<exists>c. main_after L r bs (mc_new send_key recv_key size256 sp dp npd ssrc cname) = Some c \<and> mc_last_wire_ts c = 0"
proof -
  have run: "wire_ts_is t c \<Longrightarrow> \<exists>c'. main_after L r bs c = Some c' \<and> wire_ts_is t c'" for t c
  proof (induction bs arbitrary: c)
    case (Cons b bs)
    obtain c' x where "mc_decode L b r c = Some (c', x)" "wire_ts_is t c'"
      using mc_decode_keeps [OF Cons.prems, of L b r] by (auto simp: st_keeps_def split: option.splits)
    with Cons.IH show ?case by simp
  qed simp
  show ?thesis by (rule run) (simp add: mc_new_def mc_last_wire_ts_def media_decoder_new_def)
qed

lemma append_no_bits: "np_blp p = 0 \<Longrightarrow> append_bits p cap is acc = acc"
  by (induction "is") simp_all

text \<open>One number with a non-zero upper half is decoded to itself, whatever the reference.\<close>

lemma single_nack_loop:
  assumes "seq_high m \<noteq> 0"
  shows "\<exists>ps. mc_encode_nack l media [m] bitmask [] = Some ps \<and> nack_part ps
    \<and> (\<forall>enc out cname. \<exists>fs. main_feedback_loop r enc ps 0 False out cname = (out @ fs, cname)
         \<and> set (asked media fs) = {m})"
proof -
  have hi: "drop_bit 16 m \<noteq> 0" using assms by (auto simp: seq_high_def)
  let ?ext = "P_Ext_Seq \<lparr>es_ssrc = l, es_seq_high = seq_high m\<rparr>"
  obtain ps where ps: "mc_nack_packets l media [m] bitmask [?ext] = Some ([?ext] @ ps)" "ps \<noteq> []"
    "list_all nack_packet_ok ps" "list_all (\<lambda>p. nack_media p = media) ps" "(\<Union>p\<in>set ps. set (nack_narrow p)) = {low16 m}"
    using nack_packets_spec [of "[m]" bitmask l media] by auto
  have enc: "mc_encode_nack l media [m] bitmask [] = Some (?ext # ps)"
    using hi ps(1) by (simp add: mc_encode_nack_def)
  have part: "nack_part (?ext # ps)"
    using ps(2,3) nack_part_nacks [OF ps(3)] by (cases ps) (simp_all add: nack_packet_ok_def)
  have single: "\<exists>p. ps = [p] \<and> nack_narrow p = [low16 m]"
  proof (cases bitmask)
    case True
    then show ?thesis using ps(1)
      by (auto simp: mc_nack_packets_def encode_bitmask_nack_def nack_pairs_from_seqs_def vec_get_def push_pair_def
          bitmask_missing_seqs_def append_seqs_def append_no_bits max_nack_expand_def low16_def Let_def)
  next
    case False
    then show ?thesis using ps(1) range_nack_expands [of "[m]" l media]
      by (auto simp: mc_nack_packets_def encode_range_nack_def flush_range_def max_nack_records_per_packet_def
          max_nack_expand_def Let_def)
  qed
  then obtain p where p: "ps = [p]" "nack_narrow p = [low16 m]" by blast
  have pn: "is_nack p" "nack_media p = media" using ps(3,4) by (simp_all add: p nack_packet_ok_def)
  have "main_feedback_loop r enc (?ext # ps) 0 False out cname = (out @ [Nack media [m]], cname)" for enc out cname
  proof -
    have "main_feedback_loop r enc (?ext # ps) 0 False out cname = main_feedback_loop r enc ps (seq_high m) True out cname"
      by simp
    also have "\<dots> = main_feedback_loop r enc [] (seq_high m) False
        (out @ [fold_nack (nack_media p) (nack_narrow p) (seq_high m) True r]) cname"
      unfolding p(1) by (rule loop_nack [OF pn(1)])
    also have "\<dots> = (out @ [Nack media [m]], cname)"
      using ext_widens [OF refl, of m] by (simp add: p(2) pn(2) fold_nack_def)
    finally show ?thesis .
  qed
  then show ?thesis using enc part by (intro exI [of _ "?ext # ps"]) (auto simp: asked_of_def)
qed

text \<open>Recovery fails for a receiver that joined late. Its numbers are the sender's less what the 16-bit field cut
  off its first packet. Once its own count has a non-zero upper half, its NACK goes out behind an EXTSEQ packet with
  that half, the sender's decoder takes the half as authoritative wherever the sender stands, and the number asked
  for is the receiver's, not the sender's: the history has no such packet.\<close>

theorem late_joiner_nack_misses:
  assumes "is_report lead" "rtcp_canonical lead" "length (mc_cname c) \<le> 255"
    and "first_shift p \<noteq> 0" "seq_high (mp_seq (tunnelled cs (first_shift p) (first_base p) q)) \<noteq> 0"
  shows "\<exists>b cr' out. mc_build_compound lead [Nack media [mp_seq (tunnelled cs (first_shift p) (first_base p) q)]] bitmask c = res_ok b
    \<and> mc_decode_feedback b r enc cr = st_ok cr' out
    \<and> set (asked media out) = {mp_seq q - first_shift p} \<and> mp_seq q - first_shift p \<noteq> mp_seq q"
proof -
  define n where "n = mp_seq q - first_shift p"
  have seq: "mp_seq (tunnelled cs (first_shift p) (first_base p) q) = n"
    by (simp add: tunnelled_def media_received_def n_def)
  have hi: "seq_high n \<noteq> 0" using assms(5) unfolding seq .
  obtain ps where ps: "mc_encode_nack (mc_ssrc c) media [n] bitmask [] = Some ps" "nack_part ps"
    "\<And>enc out cname. \<exists>fs. main_feedback_loop r enc ps 0 False out cname = (out @ fs, cname) \<and> set (asked media fs) = {n}"
    using single_nack_loop [OF hi, of "mc_ssrc c" media bitmask r] by blast
  define sdes where "sdes = P_Sdes \<lparr>sd_ssrc = mc_ssrc c, sd_cname = mc_cname c\<rparr>"
  define pkts where "pkts = [lead, sdes] @ ps"
  have "rtcp_canonical sdes" using assms(3) by (simp add: sdes_def rtcp_canonical_def)
  then have canon: "\<forall>x\<in>set pkts. rtcp_canonical x"
    using assms(2) nack_part_canonical [OF ps(2)] by (auto simp: pkts_def)
  have order: "check_compound_order pkts = None"
    using assms(1) nack_part_classes [OF ps(2), of "[]"] by (simp add: pkts_def sdes_def check_compound_order_def)
  let ?b = "concat (map rtcp_encode pkts)"
  have build: "mc_build_compound lead [Nack media [n]] bitmask c = res_ok ?b"
    using build_compound_bytes [of "[]" pkts] order ps(1) by (simp add: mc_build_compound_def pkts_def sdes_def)
  have "?b = rtcp_encode lead @ concat (map rtcp_encode (sdes # ps))" by (simp add: pkts_def)
  then have "?b \<noteq> []"
    using report_inner(2) [OF assms(1), of "concat (map rtcp_encode (sdes # ps))"] by (metis list.size(3) not_numeral_le_zero)
  then have parse: "parse_compound ?b = Some (Inr pkts)"
    using parse_packets_encode [OF canon] by (simp add: parse_compound_def)
  define name where "name = (if enc \<and> mc_last_rx_cname cr \<noteq> Some (mc_cname c) then Some (mc_cname c) else mc_last_rx_cname cr)"
  have "main_feedback_loop r enc pkts 0 False [] (mc_last_rx_cname cr)
      = main_feedback_loop r enc (sdes # ps) 0 False (feedback_of r lead) (mc_last_rx_cname cr)"
    unfolding pkts_def by (simp add: loop_lead [OF assms(1)] del: main_feedback_loop.simps)
  also have "\<dots> = main_feedback_loop r enc ps 0 False (feedback_of r lead) name"
    by (simp add: sdes_def name_def)
  finally obtain fs where fs: "main_feedback_loop r enc pkts 0 False [] (mc_last_rx_cname cr) = (feedback_of r lead @ fs, name)"
    "set (asked media fs) = {n}" using ps(3) by metis
  have "mc_decode_feedback ?b r enc cr = st_ok (cr\<lparr>mc_last_rx_cname := name\<rparr>) (feedback_of r lead @ fs)"
    using fs(1) by (simp add: mc_decode_feedback_def parse)
  moreover have "set (asked media (feedback_of r lead @ fs)) = {n}"
    using fs(2) report_feedback(2) [OF assms(1)] by simp
  moreover have "n \<noteq> mp_seq q" using assms(4) by (simp add: n_def)
  ultimately show ?thesis using build unfolding seq n_def by blast
qed

theorem late_joiner_nack_misses_witness:
  "\<exists>b cr' out. mc_build_compound (P_Empty_Receiver_Report 8)
      [Nack 8 [mp_seq (tunnelled sample_main_sender (first_shift (sample_media 0x50000 False))
        (first_base (sample_media 0x50000 False)) (sample_media 0x60005 False))]] False sample_main_receiver = res_ok b
    \<and> mc_decode_feedback b 0x60010 True sample_main_sender = st_ok cr' out
    \<and> set (asked 8 out) = {mp_seq (sample_media 0x60005 False) - first_shift (sample_media 0x50000 False)}
    \<and> mp_seq (sample_media 0x60005 False) - first_shift (sample_media 0x50000 False) \<noteq> mp_seq (sample_media 0x60005 False)"
proof (rule late_joiner_nack_misses)
  have s: "first_shift (sample_media 0x50000 False) = 0x50000" by (simp add: first_shift_def sample_media_def)
  show "first_shift (sample_media 0x50000 False) \<noteq> 0" by (simp add: s)
  show "seq_high (mp_seq (tunnelled sample_main_sender (first_shift (sample_media 0x50000 False))
      (first_base (sample_media 0x50000 False)) (sample_media 0x60005 False))) \<noteq> 0"
    by (simp add: tunnelled_def media_received_def s) (simp add: seq_high_def sample_media_def)
qed (simp_all add: rtcp_canonical_def sample_main_receiver_def mc_new_def)

text \<open>An EXTSEQ packet qualifies only the first NACK packet behind it: of seventeen scattered numbers, which take two
  range NACK packets, the last is widened from the sender's position instead.\<close>

definition scattered :: "u32 list" where
  "scattered = map (\<lambda>i. 0x10000 + 2 * of_nat i) [0..<17]"

lemma scattered_list: "scattered = [0x10000, 0x10002, 0x10004, 0x10006, 0x10008, 0x1000A, 0x1000C, 0x1000E, 0x10010,
    0x10012, 0x10014, 0x10016, 0x10018, 0x1001A, 0x1001C, 0x1001E, 0x10020]"
  by (simp add: scattered_def upt_rec)

lemma scattered_packed: "encode_range_nack 1 8 scattered =
    [\<lparr>rn_media_ssrc = 8, rn_ranges = map (\<lambda>s. \<lparr>nr_start = s, nr_extra = 0\<rparr>)
        [0, 2, 4, 6, 8, 10, 12, 14, 16, 18, 20, 22, 24, 26, 28, 30]\<rparr>,
     \<lparr>rn_media_ssrc = 8, rn_ranges = [\<lparr>nr_start = 32, nr_extra = 0\<rparr>]\<rparr>]"
  unfolding scattered_list
  by (simp add: encode_range_nack_def flush_range_def max_nack_records_per_packet_def Let_def)

theorem extseq_first_packet_only:
  "\<exists>ps. mc_encode_nack 1 8 scattered False [] = Some ps
    \<and> fst (main_feedback_loop 0x30000 False ps 0 False [] None) = [Nack 8 (take 16 scattered), Nack 8 [0x20020]]
    \<and> last scattered = 0x10020"
proof -
  have high: "list_all (\<lambda>s. seq_high s = 1) scattered"
    unfolding scattered_list by (simp add: seq_high_def)
  obtain m ms where s: "scattered = m # ms" by (cases scattered) (simp add: scattered_list, blast)
  have m: "seq_high m = 1" using high unfolding s by simp
  have run: "takeWhile (\<lambda>x. seq_high x = 1) scattered = scattered" "dropWhile (\<lambda>x. seq_high x = 1) scattered = []"
    using high by (simp_all add: list_all_iff)
  have ex: "list_ex (\<lambda>x. drop_bit 16 x \<noteq> 0) scattered" unfolding scattered_list by simp
  have runs: "nack_runs 1 8 False scattered [] = Some (P_Ext_Seq \<lparr>es_ssrc = 1, es_seq_high = 1\<rparr>
      # map P_Range_Nack (encode_range_nack 1 8 scattered))"
    using run unfolding s
    by (simp only: nack_runs.simps Let_def m takeWhile.simps dropWhile.simps) (simp add: mc_nack_packets_def)
  have enc: "mc_encode_nack 1 8 scattered False [] = Some (P_Ext_Seq \<lparr>es_ssrc = 1, es_seq_high = 1\<rparr>
      # map P_Range_Nack (encode_range_nack 1 8 scattered))"
    using ex runs by (auto simp: mc_encode_nack_def)
  have "fst (main_feedback_loop 0x30000 False (P_Ext_Seq \<lparr>es_ssrc = 1, es_seq_high = 1\<rparr>
      # map P_Range_Nack (encode_range_nack 1 8 scattered)) 0 False [] None)
      = [Nack 8 (take 16 scattered), Nack 8 [0x20020]]"
    unfolding scattered_packed
    by (simp add: range_missing_seqs_def max_nack_expand_def fold_nack_def scattered_list widen_seq_at_most_def Let_def)
  then show ?thesis using enc by (simp add: scattered_list)
qed

end
