(* ===== verification/Codec_Adv.thy ===== *)
theory Codec_Adv
  imports Codec_Main Adv_Control
begin

text \<open>
  The Advanced-profile codec strategy (\<^verbatim>\<open>rist/src/codec_adv.rs\<close>): media compressed, then encrypted, behind
  the Advanced header with the native 32-bit sequence number, and control messages, one per datagram, on the odd SSRC.
  The receiver reconstructs source times from a timestamp that wraps every 65 milliseconds by extrapolating from the
  sequence number. A method takes the codec and returns the changed one; signed 64-bit arithmetic wraps as in a
  release build; the draws of the random generator are an argument.
\<close>

section \<open>The codec\<close>

definition adv_clock_shift :: nat where "adv_clock_shift = 16"
definition max_adv_decompressed :: nat where "max_adv_decompressed = 10000"

record adv_codec =
  av_send_key :: "psk_key option"
  av_recv_key :: "decryptor option"
  av_compression :: bool
  av_ssrc :: u32
  av_src_port :: u16
  av_dst_port :: u16
  av_ctrl_seq :: u32
  av_ts_started :: bool
  av_ts_base_seq :: u32
  av_ts_base_ticks :: int
  av_ts_ref_seq :: u32
  av_ts_ref_ticks :: int
  av_pending_unsupported :: "(u16 \<times> bytes) list"
  av_peer_adv_cap :: "bool option"

definition av_new :: "psk_key option \<Rightarrow> decryptor option \<Rightarrow> bool \<Rightarrow> u32 \<Rightarrow> u16 \<Rightarrow> u16 \<Rightarrow> adv_codec" where
  "av_new send_key recv_key compression ssrc src_port dst_port =
     \<lparr>av_send_key = send_key, av_recv_key = recv_key, av_compression = compression, av_ssrc = ssrc,
      av_src_port = src_port, av_dst_port = dst_port, av_ctrl_seq = 0, av_ts_started = False, av_ts_base_seq = 0,
      av_ts_base_ticks = 0, av_ts_ref_seq = 0, av_ts_ref_ticks = 0, av_pending_unsupported = [],
      av_peer_adv_cap = None\<rparr>"

definition av_take_unsupported :: "adv_codec \<Rightarrow> adv_codec \<times> (u16 \<times> bytes) list" where
  "av_take_unsupported c = (c\<lparr>av_pending_unsupported := []\<rparr>, av_pending_unsupported c)"

definition av_take_peer_adv_cap :: "adv_codec \<Rightarrow> adv_codec \<times> bool option" where
  "av_take_peer_adv_cap c = (c\<lparr>av_peer_adv_cap := None\<rparr>, av_peer_adv_cap c)"

definition av_has_psk :: "adv_codec \<Rightarrow> bool" where
  "av_has_psk c \<longleftrightarrow> av_send_key c \<noteq> None"

definition av_set_session_key ::
    "psk_lib \<Rightarrow> (nat \<Rightarrow> bytes option) \<Rightarrow> bytes \<Rightarrow> adv_codec \<Rightarrow> (adv_codec, codec_error, unit) st_result" where
  "av_set_session_key L draws k c =
     (case psk_key_new_raw L draws k Aes256 0 False of
        Inl e \<Rightarrow> st_err c (CE_Crypto e)
      | Inr key \<Rightarrow>
          let c = c\<lparr>av_send_key := Some key\<rparr> in
          case decryptor_new_raw k Aes256 of
            Inl e \<Rightarrow> st_err c (CE_Crypto e)
          | Inr d \<Rightarrow> st_ok (c\<lparr>av_recv_key := Some d\<rparr>) ())"

definition flow_id_from_ports :: "u16 \<Rightarrow> u16 \<Rightarrow> flow_id" where
  "flow_id_from_ports src_port dst_port = \<lparr>fi_outer = dst_port, fi_inner = src_port AND 0x0FFF, fi_sub = 0\<rparr>"

fun frag_to_flags :: "frag_role \<Rightarrow> bool \<times> bool" where
  "frag_to_flags Standalone = (True, True)"
| "frag_to_flags First = (True, False)"
| "frag_to_flags Middle = (False, False)"
| "frag_to_flags Last = (False, True)"

fun flags_to_frag :: "bool \<Rightarrow> bool \<Rightarrow> frag_role" where
  "flags_to_frag True True = Standalone"
| "flags_to_frag True False = First"
| "flags_to_frag False False = Middle"
| "flags_to_frag False True = Last"

definition adv_params_default :: adv_params where
  "adv_params_default =
     \<lparr>ap_seq = 0, ap_timestamp = 0, ap_ssrc = 0, ap_enc_type = 0, ap_psk_mode = 0, ap_lpc_mode = 0,
      ap_first_frag = False, ap_last_frag = False, ap_expedite = False, ap_retransmit = False, ap_flow_id = None,
      ap_psk_hash = None, ap_psk_nonce = None, ap_psk_iv = None, ap_compression = None, ap_pfd = None, ap_hdr_ext = []\<rparr>"

section \<open>Media\<close>

definition adv_ts_from_source :: "ntp64 \<Rightarrow> u32" where
  "adv_ts_from_source src = ucast (push_bit adv_clock_shift (of_nat (ntp_to_timestamp src)) :: u64)"

text \<open>The payload as it is framed before encryption: compressed when that makes it shorter.\<close>

definition av_compress :: "adv_codec \<Rightarrow> bytes \<Rightarrow> (bytes \<times> u8) option" where
  "av_compress c payload =
     (if av_compression c \<and> payload \<noteq> [] then
        case lpc_compress payload of
          None \<Rightarrow> None
        | Some smaller \<Rightarrow> Some (if length smaller < length payload then (smaller, adv_lpc_lz4) else (payload, adv_lpc_none))
      else Some (payload, adv_lpc_none))"

definition av_media_params :: "media_packet \<Rightarrow> u8 \<Rightarrow> adv_codec \<Rightarrow> adv_params" where
  "av_media_params pkt lpc_mode c =
     (let (first_frag, last_frag) = frag_to_flags (mp_frag pkt);
          params = adv_params_default\<lparr>ap_seq := mp_seq pkt, ap_timestamp := adv_ts_from_source (mp_source_time pkt),
            ap_ssrc := ssrc_protected (av_ssrc c), ap_enc_type := adv_type_direct, ap_psk_mode := adv_psk_none,
            ap_lpc_mode := lpc_mode, ap_first_frag := first_frag, ap_last_frag := last_frag,
            ap_retransmit := mp_retransmit pkt\<rparr>
      in if av_src_port c \<noteq> 0 \<or> av_dst_port c \<noteq> 0
         then params\<lparr>ap_flow_id := Some (flow_id_from_ports (av_src_port c) (av_dst_port c))\<rparr>
         else params)"

definition av_encode_media ::
    "psk_lib \<Rightarrow> (nat \<Rightarrow> bytes option) \<Rightarrow> media_packet \<Rightarrow> adv_codec \<Rightarrow> (adv_codec, codec_error, bytes) st_result" where
  "av_encode_media L draws pkt c =
     (case av_compress c (mp_payload pkt) of
        None \<Rightarrow> None
      | Some (payload, lpc_mode) \<Rightarrow>
          let params = av_media_params pkt lpc_mode c in
          case av_send_key c of
            None \<Rightarrow> st_try c (res_from CE_Adv (Some (adv_build params payload))) (st_ok c)
          | Some key \<Rightarrow>
              let (key, r) = psk_encrypt L draws (mp_seq pkt) payload key;
                  c = c\<lparr>av_send_key := Some key\<rparr>
              in (case r of
                    Inl e \<Rightarrow> st_err c (CE_Crypto e)
                  | Inr payload \<Rightarrow>
                      let params = params\<lparr>ap_psk_mode := adv_psk_aes_ctr, ap_psk_nonce := Some (pk_nonce key),
                            ap_psk_iv := Some (be32 (mp_seq pkt))\<rparr>
                      in st_try c (res_from CE_Adv (Some (adv_build params payload))) (st_ok c)))"

text \<open>The extrapolated reference, and the source time in microseconds.\<close>

definition av_reference :: "u32 \<Rightarrow> adv_codec \<Rightarrow> int" where
  "av_reference seq_num c =
     (let d = sint (av_ts_ref_seq c - av_ts_base_seq c) in
      if 0 < d then
        let ticks_per_seq = trunc_div (wrap_i64 (av_ts_ref_ticks c - av_ts_base_ticks c)) d
        in wrap_i64 (av_ts_ref_ticks c + wrap_i64 (sint (seq_num - av_ts_ref_seq c) * ticks_per_seq))
      else av_ts_ref_ticks c)"

definition av_source_micros :: "u32 \<Rightarrow> u32 \<Rightarrow> adv_codec \<Rightarrow> adv_codec \<times> int" where
  "av_source_micros seq_num wire_ts c =
     (if \<not> av_ts_started c
      then (c\<lparr>av_ts_started := True, av_ts_base_seq := seq_num, av_ts_base_ticks := uint wire_ts,
              av_ts_ref_seq := seq_num, av_ts_ref_ticks := uint wire_ts\<rparr>,
            drop_bit adv_clock_shift (uint wire_ts))
      else
        let ticks = widen_ticks wire_ts (av_reference seq_num c) in
        (if 0 < sint (seq_num - av_ts_ref_seq c)
         then c\<lparr>av_ts_ref_seq := seq_num, av_ts_ref_ticks := ticks\<rparr> else c,
         drop_bit adv_clock_shift (max ticks 0)))"

text \<open>Decryption and decompression of a payload.\<close>

definition av_decrypt :: "psk_lib \<Rightarrow> adv_parsed \<Rightarrow> adv_codec \<Rightarrow> (adv_codec, codec_error, bytes) st_result" where
  "av_decrypt L p c =
     (if pp_psk_mode p = adv_psk_none then
        if av_recv_key c \<noteq> None
        then st_err c (CE_Adv_Profile ''cleartext payload but a decryptor is configured'')
        else st_ok c (pp_payload p)
      else if pp_psk_mode p = adv_psk_aes_ctr then
        (case av_recv_key c of
           None \<Rightarrow> st_err c (CE_Adv_Profile ''encrypted payload but no decryptor configured'')
         | Some key \<Rightarrow>
             (case (pp_psk_nonce p, pp_psk_iv p) of
                (Some nonce, Some iv) \<Rightarrow>
                  if length nonce \<noteq> psk_nonce_size then None
                  else st_try c (res_lift (get_be32 iv 0)) (\<lambda>iv_seq.
                    let (key, r) = dec_decrypt L nonce iv_seq (pp_payload p) key;
                        c = c\<lparr>av_recv_key := Some key\<rparr>
                    in (case r of Inl e \<Rightarrow> st_err c (CE_Crypto e) | Inr pt \<Rightarrow> st_ok c pt))
              | _ \<Rightarrow> st_err c (CE_Adv_Profile ''AES-CTR payload missing nonce/iv'')))
      else st_err c (CE_Adv_Profile ''unsupported PSK mode''))"

definition av_decompress :: "adv_parsed \<Rightarrow> bytes \<Rightarrow> (codec_error, bytes) result" where
  "av_decompress p data =
     (if pp_lpc_mode p = adv_lpc_none then res_ok data
      else if pp_lpc_mode p = adv_lpc_lz4
      then if data \<noteq> [] then res_from CE_Lpc (lpc_decompress data max_adv_decompressed) else res_ok data
      else res_err (CE_Adv_Profile ''unsupported LPC mode''))"

definition av_decode_media :: "psk_lib \<Rightarrow> adv_parsed \<Rightarrow> adv_codec \<Rightarrow> (adv_codec, codec_error, media_packet) st_result" where
  "av_decode_media L p c =
     st_bind (av_decrypt L p c) (\<lambda>c data.
       st_try c (av_decompress p data) (\<lambda>data.
         let (c, us) = av_source_micros (pp_seq p) (pp_timestamp p) c in
         st_ok c
           \<lparr>mp_seq = pp_seq p, mp_source_time = ntp_from_timestamp (nat (max us 0)),
            mp_ssrc = ssrc_protected (pp_ssrc p), mp_payload = data, mp_retransmit = pp_retransmit p, mp_path_id = 0,
            mp_frag = flags_to_frag (pp_first_frag p) (pp_last_frag p), mp_virt_src_port = 0, mp_virt_dst_port = 0,
            mp_short_seq = False\<rparr>))"

section \<open>Control messages\<close>

definition av_ctrl_ssrc :: "adv_codec \<Rightarrow> u32" where
  "av_ctrl_ssrc c = ssrc_unprotected (av_ssrc c)"

definition av_control_params :: "bool \<Rightarrow> bool \<Rightarrow> u32 \<Rightarrow> adv_codec \<Rightarrow> adv_params" where
  "av_control_params first_frag last_frag ts c =
     adv_params_default\<lparr>ap_seq := av_ctrl_seq c, ap_timestamp := ts, ap_ssrc := av_ctrl_ssrc c,
       ap_enc_type := adv_type_control, ap_psk_mode := adv_psk_none, ap_lpc_mode := adv_lpc_none,
       ap_first_frag := first_frag, ap_last_frag := last_frag, ap_expedite := True\<rparr>"

definition av_frame_control_frag ::
    "bytes \<Rightarrow> bool \<Rightarrow> bool \<Rightarrow> u32 \<Rightarrow> adv_codec \<Rightarrow> (adv_codec, codec_error, bytes) st_result" where
  "av_frame_control_frag payload first_frag last_frag ts c =
     (let c' = c\<lparr>av_ctrl_seq := av_ctrl_seq c + 1\<rparr> in
      st_try c' (res_from CE_Adv (Some (adv_build (av_control_params first_frag last_frag ts c) payload))) (st_ok c'))"

definition av_frame_control :: "bytes \<Rightarrow> u32 \<Rightarrow> adv_codec \<Rightarrow> (adv_codec, codec_error, bytes) st_result" where
  "av_frame_control payload ts c = av_frame_control_frag payload True True ts c"

definition av_encode_unsupported ::
    "u16 \<Rightarrow> bytes \<Rightarrow> u32 \<Rightarrow> adv_codec \<Rightarrow> (adv_codec, codec_error, bytes) st_result" where
  "av_encode_unsupported ci head ts c = av_frame_control (build_unsupported (av_ctrl_ssrc c) ci head) ts c"

definition av_keepalive_datagram :: "u32 \<Rightarrow> adv_codec \<Rightarrow> (adv_codec, codec_error, bytes) st_result" where
  "av_keepalive_datagram ts c =
     av_frame_control (build_adv_keepalive \<lparr>ak_mac = [0, 0, 0, 0, 0, 0], ak_caps = adv_keepalive_cap_i\<rparr>) ts c"

definition av_lqm_datagram :: "bytes \<Rightarrow> u32 \<Rightarrow> adv_codec \<Rightarrow> (adv_codec, codec_error, bytes) st_result" where
  "av_lqm_datagram lqm ts c = av_frame_control (build_control adv_ci_lqm_global lqm) ts c"

definition av_flow_attr_datagram :: "bytes \<Rightarrow> u32 \<Rightarrow> adv_codec \<Rightarrow> (adv_codec, codec_error, bytes) st_result" where
  "av_flow_attr_datagram json ts c = av_frame_control (build_flow_attr json) ts c"

text \<open>One datagram for each message, added to those already made.\<close>

fun av_frame_all :: "bytes list \<Rightarrow> u32 \<Rightarrow> bytes list \<Rightarrow> adv_codec \<Rightarrow> (adv_codec, codec_error, bytes list) st_result" where
  "av_frame_all [] ts out c = st_ok c out"
| "av_frame_all (m # ms) ts out c = st_bind (av_frame_control m ts c) (\<lambda>c b. av_frame_all ms ts (out @ [b]) c)"

text \<open>The control messages of one feedback.\<close>

definition av_messages :: "bool \<Rightarrow> adv_codec \<Rightarrow> feedback \<Rightarrow> bytes list" where
  "av_messages bitmask c fb =
     (case fb of
        Nack ssrc missing \<Rightarrow>
          if bitmask then map build_nack_bitmask (adv_encode_bitmask_nack ssrc missing)
          else map build_nack_range (adv_encode_range_nack ssrc missing)
      | RttEchoRequest ssrc timestamp \<Rightarrow>
          [build_rtt_echo_request (adv_echo_from_timestamp (av_ctrl_ssrc c) timestamp 0)]
      | RttEchoResponse ssrc timestamp delay \<Rightarrow>
          [build_rtt_echo_response (adv_echo_from_timestamp (av_ctrl_ssrc c) timestamp delay)]
      | Keepalive \<Rightarrow> [build_adv_keepalive \<lparr>ak_mac = [0, 0, 0, 0, 0, 0], ak_caps = adv_keepalive_cap_i\<rparr>]
      | _ \<Rightarrow> [])"

fun av_feedback_loop ::
    "feedback list \<Rightarrow> bool \<Rightarrow> u32 \<Rightarrow> bytes list \<Rightarrow> adv_codec \<Rightarrow> (adv_codec, codec_error, bytes list) st_result" where
  "av_feedback_loop [] bitmask ts out c = st_ok c out"
| "av_feedback_loop (fb # fbs) bitmask ts out c =
     st_bind (av_frame_all (av_messages bitmask c fb) ts out c) (\<lambda>c out. av_feedback_loop fbs bitmask ts out c)"

definition av_encode_feedback ::
    "feedback list \<Rightarrow> bool \<Rightarrow> u32 \<Rightarrow> adv_codec \<Rightarrow> (adv_codec, codec_error, bytes list) st_result" where
  "av_encode_feedback fbs bitmask ts c = av_feedback_loop fbs bitmask ts [] c"

section \<open>Receiving\<close>

definition av_decode_control :: "bytes \<Rightarrow> (codec_error, feedback list) result" where
  "av_decode_control payload =
     res_bind (res_from CE_Adv (parse_control payload)) (\<lambda>(ci, body).
       if ci = adv_ci_nack_bitmask then
         res_bind (res_from CE_Adv (adv_bitmask_parse body)) (\<lambda>n. res_ok [Nack (ab_media_ssrc n) (adv_bitmask_missing n)])
       else if ci = adv_ci_nack_range then
         res_bind (res_from CE_Adv (adv_range_parse body)) (\<lambda>n. res_ok [Nack (ag_media_ssrc n) (adv_range_missing n)])
       else if ci = adv_ci_rtt_echo_req then
         res_bind (res_from CE_Adv (adv_echo_parse body)) (\<lambda>e. res_ok [RttEchoRequest 0 (adv_echo_timestamp e)])
       else if ci = adv_ci_rtt_echo_resp then
         res_bind (res_from CE_Adv (adv_echo_parse body)) (\<lambda>e.
           res_ok [RttEchoResponse 0 (adv_echo_timestamp e) (ec_processing_delay e)])
       else if ci = adv_ci_lqm_global \<or> ci = adv_ci_lqm_link_specific then
         if length body < 44 then res_ok []
         else res_bind (res_lift (vec_slice body 0 44)) (\<lambda>lqm. res_ok [LinkQuality lqm])
       else if ci = adv_ci_flow_attr then res_ok [FlowAttribute body]
       else res_ok [])"

text \<open>The control indices that carry feedback, and those that are recognised without any.\<close>

definition av_feedback_ci :: "u16 \<Rightarrow> bool" where
  "av_feedback_ci ci \<longleftrightarrow>
     ci \<in> set [adv_ci_nack_bitmask, adv_ci_nack_range, adv_ci_rtt_echo_req, adv_ci_rtt_echo_resp, adv_ci_lqm_global,
       adv_ci_lqm_link_specific, adv_ci_flow_attr]"

definition av_silent_ci :: "u16 \<Rightarrow> bool" where
  "av_silent_ci ci \<longleftrightarrow>
     ci \<in> set [adv_ci_srp_auth, adv_ci_unsupported, adv_ci_fec_2022_5_row, adv_ci_fec_2022_5_col, adv_ci_fec_2022_1_row,
       adv_ci_fec_2022_1_col]"

definition av_decode_control_msg ::
    "psk_lib \<Rightarrow> bytes \<Rightarrow> adv_codec \<Rightarrow> (adv_codec, codec_error, main_decoded) st_result" where
  "av_decode_control_msg L payload c =
     st_try c (res_from CE_Adv (parse_control payload)) (\<lambda>(ci, body).
       if ci = adv_ci_psk_nonce then
         (case adv_nonce_parse body of
            None \<Rightarrow> None
          | Some (Inl e) \<Rightarrow> st_ok c D_Ignored
          | Some (Inr pn) \<Rightarrow>
              (case av_recv_key c of
                 None \<Rightarrow> st_ok c D_Ignored
               | Some key \<Rightarrow>
                   let bits = (case aes_from_bits (an_key_bits pn) of None \<Rightarrow> Aes128 | Some b \<Rightarrow> b)
                   in st_ok (c\<lparr>av_recv_key := Some (dec_precompute L (an_nonce pn) bits key)\<rparr>) D_Ignored))
       else if av_feedback_ci ci then st_try c (av_decode_control payload) (\<lambda>fbs. st_ok c (D_Feedback fbs))
       else if ci = adv_ci_keepalive then
         (case adv_keepalive_parse body of
            None \<Rightarrow> None
          | Some (Inl e) \<Rightarrow> st_ok c D_Ignored
          | Some (Inr ka) \<Rightarrow> st_ok (c\<lparr>av_peer_adv_cap := Some (ak_caps ka AND adv_keepalive_cap_i \<noteq> 0)\<rparr>) D_Ignored)
       else if av_silent_ci ci then st_ok c D_Ignored
       else
         let n = min (length body) 6;
             head = take n body @ replicate (6 - n) 0
         in st_ok (c\<lparr>av_pending_unsupported := av_pending_unsupported c @ [(ci, head)]\<rparr>) D_Ignored)"

definition av_decode_parsed :: "psk_lib \<Rightarrow> adv_parsed \<Rightarrow> adv_codec \<Rightarrow> (adv_codec, codec_error, main_decoded) st_result" where
  "av_decode_parsed L p c =
     (if pp_enc_type p = adv_type_control then av_decode_control_msg L (pp_payload p) c
      else if pp_enc_type p = adv_type_direct
      then st_bind (av_decode_media L p c) (\<lambda>c pkt. st_ok c (D_Media pkt))
      else st_err c (CE_Adv_Profile ''unsupported encapsulation type''))"

definition av_decode :: "psk_lib \<Rightarrow> bytes \<Rightarrow> adv_codec \<Rightarrow> (adv_codec, codec_error, main_decoded) st_result" where
  "av_decode L buf c = st_try c (res_from CE_Adv (adv_parse buf)) (\<lambda>p. av_decode_parsed L p c)"

end
