(* ===== verification/Codec_Adv_Props.thy ===== *)
theory Codec_Adv_Props
  imports Codec_Adv Codec_Main_Props Adv_Props Lpc_Props
begin

text \<open>
  What the Advanced-profile strategy guarantees: no datagram makes it panic; a media stream whose pace is steady up to
  a bounded jitter is received with its own numbers and source times, through compression and encryption; feedback
  reaches the peer exactly; and the reconstruction of source times breaks once the 32-bit sequence number has gone
  round.
\<close>

section \<open>Any datagram\<close>

lemma dec_decrypt_pair: "\<exists>k r. dec_decrypt L n s p d = (k, r)"
  by (cases "dec_decrypt L n s p d") blast

lemma adv_parse_arrays:
  assumes "adv_parse b = res_ok p"
  shows "adv_array_fits 4 (pp_psk_nonce p)" "adv_array_fits 4 (pp_psk_iv p)"
  using adv_parse_fits [OF assms] by (simp_all add: adv_fits_def adv_params_of_def)

abbreviation always :: "adv_codec \<Rightarrow> bool" where
  "always \<equiv> (\<lambda>c. True)"

lemma av_decrypt_keeps:
  assumes "adv_array_fits 4 (pp_psk_nonce p)" "adv_array_fits 4 (pp_psk_iv p)"
  shows "st_keeps always (av_decrypt L p c)"
  using assms
  by (auto simp: av_decrypt_def adv_array_fits_def psk_nonce_size_def returns_reads Let_def
      split: option.splits prod.split sum.split intro!: st_keeps_try)

lemma av_decompress_returns: "returns (av_decompress p data)"
proof -
  have "returns (lpc_decompress data n)" for data n
    using lz_decode_any [of "[]" n 0 data] by (auto simp: lpc_decompress_def within_def returns_def split: option.splits)
  then show ?thesis by (auto simp: av_decompress_def)
qed

lemma av_decode_control_returns: "returns (av_decode_control b)"
  by (auto simp: av_decode_control_def parse_control_returns adv_body_parse_returns returns_reads intro!: returns_bind)

lemma av_decode_control_msg_keeps: "st_keeps always (av_decode_control_msg L b c)"
proof -
  have f: "adv_nonce_parse x = None \<longleftrightarrow> False" "adv_keepalive_parse x = None \<longleftrightarrow> False" for x
    using adv_body_parse_returns [of x] by (simp_all add: returns_def)
  show ?thesis
    unfolding av_decode_control_msg_def
    by (rule st_keeps_try)
      (auto simp: f parse_control_returns av_decode_control_returns Let_def split: option.split sum.split
        intro!: st_keeps_try)
qed

lemma av_decode_keeps: "st_keeps always (av_decode L b c)"
  unfolding av_decode_def
proof (rule st_keeps_try)
  show "returns (res_from CE_Adv (adv_parse b))" by (simp add: adv_parse_returns)
  fix p assume "res_from CE_Adv (adv_parse b) = res_ok p"
  then have p: "adv_parse b = res_ok p" by simp
  have "st_keeps always (av_decode_media L p c)"
    unfolding av_decode_media_def
    by (rule st_keeps_bind [OF av_decrypt_keeps [OF adv_parse_arrays [OF p]]])
      (auto simp: av_decompress_returns Let_def split: prod.split intro!: st_keeps_try)
  then show "st_keeps always (av_decode_parsed L p c)"
    by (auto simp: av_decode_parsed_def av_decode_control_msg_keeps intro!: st_keeps_bind [where Q = always])
qed simp

text \<open>The results of a sequence of datagrams.\<close>

fun adv_arrive :: "psk_lib \<Rightarrow> bytes list \<Rightarrow> adv_codec \<Rightarrow> (codec_error + main_decoded) list option" where
  "adv_arrive L [] c = Some []"
| "adv_arrive L (b # bs) c =
     (case av_decode L b c of None \<Rightarrow> None | Some (c', r) \<Rightarrow> map_option (Cons r) (adv_arrive L bs c'))"

lemma adv_arrive_returns: "adv_arrive L bs c \<noteq> None"
proof (induction bs arbitrary: c)
  case (Cons b bs)
  obtain c' r where "av_decode L b c = Some (c', r)"
    using av_decode_keeps [of L b c] by (auto simp: st_keeps_def split: option.splits)
  with Cons show ?case by simp
qed simp

section \<open>Source times\<close>

text \<open>Source time in microseconds and in ticks of the sender's clock.\<close>

definition adv_us :: "media_packet \<Rightarrow> int" where
  "adv_us p = int (ntp_to_timestamp (mp_source_time p))"


lemma adv_us_nonneg: "0 \<le> adv_us p"
  by (simp add: adv_us_def)




















section \<open>Keys and payloads\<close>














section \<open>A stream\<close>










section \<open>Feedback\<close>

text \<open>The feedback among the results, and the echo messages as the peer sees them: the SSRC is not carried.\<close>

definition fed_by :: "codec_error + main_decoded \<Rightarrow> feedback list" where
  "fed_by r = (case r of Inr (D_Feedback fbs) \<Rightarrow> fbs | _ \<Rightarrow> [])"

definition fed :: "(codec_error + main_decoded) list \<Rightarrow> feedback list" where
  "fed rs = concat (map fed_by rs)"

definition adv_echo_of :: "feedback \<Rightarrow> feedback list" where
  "adv_echo_of fb =
     (case fb of RttEchoRequest s t \<Rightarrow> [RttEchoRequest 0 t] | RttEchoResponse s t d \<Rightarrow> [RttEchoResponse 0 t d] | _ \<Rightarrow> [])"

text \<open>A framed control message reaches every receiver as it is.\<close>

lemma av_frame_control_received:
  "\<exists>b. av_frame_control m ts c = st_ok (c\<lparr>av_ctrl_seq := av_ctrl_seq c + 1\<rparr>) b
    \<and> (\<forall>L cr. av_decode L b cr = av_decode_control_msg L m cr)"
proof -
  let ?p = "av_control_params True True ts c"
  have "adv_fits ?p"
    by (simp add: adv_fits_def av_control_params_def adv_params_default_def adv_type_control_def adv_psk_none_def
        adv_lpc_none_def adv_flow_fits_def adv_pfd_fits_def adv_array_fits_def adv_hdr_ext_fits_def)
  from adv_parse_build [OF this, of m]
  obtain b where b: "adv_build ?p m = Inr b" "adv_parse b = res_ok (adv_parsed_of ?p m)" by blast
  then have "av_decode L b cr = av_decode_control_msg L m cr" for L cr
    by (simp add: av_decode_def av_decode_parsed_def adv_parsed_of_def av_control_params_def)
  then show ?thesis using b(1) by (auto simp: av_frame_control_def av_frame_control_frag_def)
qed

lemmas ci_defs = adv_ci_nack_bitmask_def adv_ci_nack_range_def adv_ci_lqm_global_def adv_ci_lqm_link_specific_def
  adv_ci_rtt_echo_req_def adv_ci_rtt_echo_resp_def adv_ci_fec_2022_5_row_def adv_ci_fec_2022_5_col_def
  adv_ci_fec_2022_1_row_def adv_ci_fec_2022_1_col_def adv_ci_keepalive_def adv_ci_flow_attr_def adv_ci_srp_auth_def
  adv_ci_psk_nonce_def adv_ci_unsupported_def

text \<open>The result of each message a feedback becomes, and the receiver's state behind it.\<close>

definition message_gives :: "bytes \<Rightarrow> feedback list \<Rightarrow> bool" where
  "message_gives m fbs \<longleftrightarrow>
     (\<forall>L cr. \<exists>cr' d. av_decode_control_msg L m cr = st_ok cr' d \<and> fed_by (Inr d) = fbs)"

lemma message_gives_feedback:
  assumes "length body < 65536" "av_feedback_ci ci" "av_decode_control (build_control ci body) = res_ok fbs"
  shows "message_gives (build_control ci body) fbs"
proof -
  have "ci \<noteq> adv_ci_psk_nonce" using assms(2) by (auto simp: av_feedback_ci_def ci_defs)
  then show ?thesis
    using assms parse_control_build [of body ci "[]"]
    by (auto simp: message_gives_def av_decode_control_msg_def fed_by_def)
qed

lemma nack_messages:
  "message_gives (build_nack_bitmask n) [Nack (ab_media_ssrc n) (adv_bitmask_missing n)]"
  "message_gives (build_nack_range g) [Nack (ag_media_ssrc g) (adv_range_missing g)]"
  "message_gives (build_rtt_echo_request e) [RttEchoRequest 0 (adv_echo_timestamp e)]"
  "message_gives (build_rtt_echo_response e) [RttEchoResponse 0 (adv_echo_timestamp e) (ec_processing_delay e)]"
proof -
  have l: "length (adv_bitmask_body n) < 65536" "length (adv_range_body g) < 65536" "length (adv_echo_body e) < 65536"
    by (simp_all add: adv_bitmask_body_def adv_range_body_def adv_echo_body_def)
  note p = parse_control_build [OF l(1), of _ "[]"] parse_control_build [OF l(2), of _ "[]"]
    parse_control_build [OF l(3), of _ "[]"]
  note b = adv_bodies_parse(1) [of n "[]"] adv_bodies_parse(2) [of g "[]"] adv_bodies_parse(3) [of e "[]"]
  show "message_gives (build_nack_bitmask n) [Nack (ab_media_ssrc n) (adv_bitmask_missing n)]"
    unfolding build_nack_bitmask_def
    by (rule message_gives_feedback [OF l(1)]) (use p b in \<open>simp_all add: av_decode_control_def av_feedback_ci_def\<close>)
  show "message_gives (build_nack_range g) [Nack (ag_media_ssrc g) (adv_range_missing g)]"
    unfolding build_nack_range_def
    by (rule message_gives_feedback [OF l(2)])
      (use p b in \<open>simp_all add: av_decode_control_def av_feedback_ci_def ci_defs\<close>)
  show "message_gives (build_rtt_echo_request e) [RttEchoRequest 0 (adv_echo_timestamp e)]"
    unfolding build_rtt_echo_request_def
    by (rule message_gives_feedback [OF l(3)])
      (use p b in \<open>simp_all add: av_decode_control_def av_feedback_ci_def ci_defs\<close>)
  show "message_gives (build_rtt_echo_response e) [RttEchoResponse 0 (adv_echo_timestamp e) (ec_processing_delay e)]"
    unfolding build_rtt_echo_response_def
    by (rule message_gives_feedback [OF l(3)])
      (use p b in \<open>simp_all add: av_decode_control_def av_feedback_ci_def ci_defs\<close>)
qed

lemma keepalive_message: "message_gives (build_adv_keepalive \<lparr>ak_mac = [0, 0, 0, 0, 0, 0], ak_caps = caps\<rparr>) []"
proof -
  let ?k = "\<lparr>ak_mac = [0, 0, 0, 0, 0, 0], ak_caps = caps\<rparr>"
  have "parse_control (build_control adv_ci_keepalive (adv_keepalive_body ?k)) = res_ok (adv_ci_keepalive, adv_keepalive_body ?k)"
    using parse_control_build [of "adv_keepalive_body ?k" adv_ci_keepalive "[]"] by (simp add: adv_keepalive_body_def)
  moreover have "adv_keepalive_parse (adv_keepalive_body ?k) = Some (Inr ?k)"
    using adv_keepalive_parse_body [of ?k "[]"] by (simp add: res_ok_def)
  ultimately show ?thesis
    by (simp add: message_gives_def build_adv_keepalive_def av_decode_control_msg_def av_feedback_ci_def ci_defs fed_by_def)
qed

text \<open>Messages and what they give together.\<close>

definition messages_give :: "bytes list \<Rightarrow> feedback list \<Rightarrow> bool" where
  "messages_give ms fbs \<longleftrightarrow> (\<exists>fss. list_all2 message_gives ms fss \<and> concat fss = fbs)"

lemma messages_give_Nil: "messages_give [] []"
  by (auto simp: messages_give_def)

lemma messages_give_append: "messages_give ms fbs \<Longrightarrow> messages_give ms' fbs' \<Longrightarrow> messages_give (ms @ ms') (fbs @ fbs')"
  unfolding messages_give_def by (metis concat_append list_all2_appendI)

lemma messages_give_one: "message_gives m fbs \<Longrightarrow> messages_give [m] fbs"
  unfolding messages_give_def by (intro exI [of _ "[fbs]"]) simp

lemma messages_give_map: "(\<And>x. message_gives (f x) [g x]) \<Longrightarrow> messages_give (map f xs) (map g xs)"
  unfolding messages_give_def
  by (intro exI [of _ "map (\<lambda>x. [g x]) xs"]) (auto simp: list_all2_conv_all_nth)

lemma nack_entries_media:
  "list_all (\<lambda>n. ab_media_ssrc n = media) (bitmask_entries media xs)"
  "list_all (\<lambda>g. ag_media_ssrc g = media) (range_entries media xs)"
  by (induction media xs rule: bitmask_entries.induct; simp) (induction media xs rule: range_entries.induct; simp)

lemma asked_map: "asked ssrc (map (\<lambda>x. Nack (f x) (g x)) xs) = concat (map (\<lambda>x. if f x = ssrc then g x else []) xs)"
  by (simp add: asked_def asked_of_def comp_def)

lemma echoes_in_any_nacks [simp]: "echoes_in (map (\<lambda>x. Nack (f x) (g x)) xs) = []"
  by (simp add: echoes_in_def filter_empty_conv)

lemma av_messages_give:
  "\<exists>fbs. messages_give (av_messages bitmask c fb) fbs \<and> echoes_in fbs = adv_echo_of fb
    \<and> (\<forall>ssrc. set (asked ssrc fbs) = set (asked_of ssrc fb))"
proof (cases fb)
  case (Nack media missing)
  show ?thesis
  proof (cases bitmask)
    case True
    let ?ns = "adv_encode_bitmask_nack media missing"
    let ?fbs = "map (\<lambda>n. Nack (ab_media_ssrc n) (adv_bitmask_missing n)) ?ns"
    have "\<forall>n\<in>set ?ns. ab_media_ssrc n = media"
      using nack_entries_media(1) [of media] by (auto simp: adv_encode_bitmask_nack_def list_all_iff)
    then have "set (asked ssrc ?fbs) = set (asked_of ssrc fb)" for ssrc
      using adv_nacks_ask(1) [of media missing] by (auto simp: asked_map asked_of_def Nack split: if_splits)
    moreover have "messages_give (av_messages bitmask c fb) ?fbs"
      using True by (auto simp: av_messages_def Nack intro!: messages_give_map nack_messages)
    moreover have "echoes_in ?fbs = adv_echo_of fb" by (simp add: adv_echo_of_def Nack)
    ultimately show ?thesis by blast
  next
    case False
    let ?ns = "adv_encode_range_nack media missing"
    let ?fbs = "map (\<lambda>n. Nack (ag_media_ssrc n) (adv_range_missing n)) ?ns"
    have "\<forall>n\<in>set ?ns. ag_media_ssrc n = media"
      using nack_entries_media(2) [of media] by (auto simp: adv_encode_range_nack_def list_all_iff)
    then have "set (asked ssrc ?fbs) = set (asked_of ssrc fb)" for ssrc
      using adv_nacks_ask(2) [of media missing] by (auto simp: asked_map asked_of_def Nack split: if_splits)
    moreover have "messages_give (av_messages bitmask c fb) ?fbs"
      using False by (auto simp: av_messages_def Nack intro!: messages_give_map nack_messages)
    moreover have "echoes_in ?fbs = adv_echo_of fb" by (simp add: adv_echo_of_def Nack)
    ultimately show ?thesis by blast
  qed
next
  case (RttEchoRequest s t)
  have "messages_give (av_messages bitmask c fb) [RttEchoRequest 0 t]"
    using nack_messages(3) [of "adv_echo_from_timestamp (av_ctrl_ssrc c) t 0"]
    by (auto simp: av_messages_def RttEchoRequest adv_echo_timestamp_split intro!: messages_give_one)
  then show ?thesis
    by (intro exI [of _ "[RttEchoRequest 0 t]"]) (simp add: RttEchoRequest adv_echo_of_def echoes_in_def asked_def asked_of_def)
next
  case (RttEchoResponse s t d)
  have "ec_processing_delay (adv_echo_from_timestamp (av_ctrl_ssrc c) t d) = d" by (simp add: adv_echo_from_timestamp_def)
  then have "messages_give (av_messages bitmask c fb) [RttEchoResponse 0 t d]"
    using nack_messages(4) [of "adv_echo_from_timestamp (av_ctrl_ssrc c) t d"]
    by (auto simp: av_messages_def RttEchoResponse adv_echo_timestamp_split intro!: messages_give_one)
  then show ?thesis
    by (intro exI [of _ "[RttEchoResponse 0 t d]"]) (simp add: RttEchoResponse adv_echo_of_def echoes_in_def asked_def asked_of_def)
next
  case Keepalive
  then show ?thesis
    by (intro exI [of _ "[]"])
      (auto simp: av_messages_def adv_echo_of_def echoes_in_def asked_def asked_of_def
        intro: messages_give_one [OF keepalive_message])
qed (auto intro!: exI [of _ "[]"]
    simp: av_messages_def messages_give_Nil adv_echo_of_def echoes_in_def asked_def asked_of_def)

text \<open>The datagrams of a list of messages, and what arrives of them.\<close>

abbreviation relays :: "bytes \<Rightarrow> bytes \<Rightarrow> bool" where
  "relays m b \<equiv> \<forall>L cr. av_decode L b cr = av_decode_control_msg L m cr"

lemma av_frame_all_relays:
  "\<exists>bs. av_frame_all ms ts out c = st_ok (c\<lparr>av_ctrl_seq := av_ctrl_seq c + of_nat (length ms)\<rparr>) (out @ bs)
    \<and> list_all2 relays ms bs"
proof (induction ms arbitrary: out c)
  case (Cons m ms)
  obtain b where b: "av_frame_control m ts c = st_ok (c\<lparr>av_ctrl_seq := av_ctrl_seq c + 1\<rparr>) b" "relays m b"
    using av_frame_control_received by blast
  obtain bs where "av_frame_all ms ts (out @ [b]) (c\<lparr>av_ctrl_seq := av_ctrl_seq c + 1\<rparr>)
      = st_ok (c\<lparr>av_ctrl_seq := av_ctrl_seq c + 1 + of_nat (length ms)\<rparr>) ((out @ [b]) @ bs)" "list_all2 relays ms bs"
    using Cons.IH [of "out @ [b]" "c\<lparr>av_ctrl_seq := av_ctrl_seq c + 1\<rparr>"] by auto
  then show ?case using b by (intro exI [of _ "b # bs"]) (simp add: algebra_simps)
qed simp

lemma av_messages_ctrl_seq [simp]: "av_messages bitmask (c\<lparr>av_ctrl_seq := n\<rparr>) fb = av_messages bitmask c fb"
  by (simp add: av_messages_def av_ctrl_ssrc_def split: feedback.split)

lemma av_feedback_loop_relays:
  "\<exists>n bs. av_feedback_loop fbs bitmask ts out c = st_ok (c\<lparr>av_ctrl_seq := n\<rparr>) (out @ bs)
    \<and> list_all2 relays (concat (map (av_messages bitmask c) fbs)) bs"
proof (induction fbs arbitrary: out c)
  case Nil
  show ?case by (intro exI [of _ "av_ctrl_seq c"] exI [of _ "[]"]) simp
next
  case (Cons fb fbs)
  obtain n bs where b: "av_frame_all (av_messages bitmask c fb) ts out c = st_ok (c\<lparr>av_ctrl_seq := n\<rparr>) (out @ bs)"
    "list_all2 relays (av_messages bitmask c fb) bs"
    using av_frame_all_relays by blast
  obtain n' bs' where "av_feedback_loop fbs bitmask ts (out @ bs) (c\<lparr>av_ctrl_seq := n\<rparr>)
      = st_ok (c\<lparr>av_ctrl_seq := n'\<rparr>) ((out @ bs) @ bs')"
    "list_all2 relays (concat (map (av_messages bitmask c) fbs)) bs'"
    using Cons.IH [of "out @ bs" "c\<lparr>av_ctrl_seq := n\<rparr>"] by auto
  then show ?case using b by (intro exI [of _ n'] exI [of _ "bs @ bs'"]) (simp add: list_all2_appendI)
qed

lemma relayed_arrives:
  assumes "list_all2 relays ms bs" "messages_give ms fbs"
  shows "\<exists>rs. adv_arrive L bs cr = Some rs \<and> fed rs = fbs \<and> list_all (\<lambda>r. case r of Inl e \<Rightarrow> False | Inr d \<Rightarrow> True) rs"
  using assms
proof (induction ms bs arbitrary: fbs cr rule: list_all2_induct)
  case Nil
  then show ?case by (auto simp: messages_give_def fed_def)
next
  case (Cons m ms b bs)
  obtain fs fss where f: "message_gives m fs" "list_all2 message_gives ms fss" "fbs = fs @ concat fss"
    using Cons.prems by (auto simp: messages_give_def list_all2_Cons1)
  obtain cr' d where d: "av_decode L b cr = st_ok cr' d" "fed_by (Inr d) = fs"
    using f(1) Cons.hyps(1) unfolding message_gives_def by metis
  have "messages_give ms (concat fss)" using f(2) by (auto simp: messages_give_def)
  from Cons.IH [OF this, of cr'] obtain rs where
    "adv_arrive L bs cr' = Some rs" "fed rs = concat fss" "list_all (\<lambda>r. case r of Inl e \<Rightarrow> False | Inr d \<Rightarrow> True) rs"
    by blast
  then show ?case using d f(3) by (intro exI [of _ "Inr d # rs"]) (simp add: st_ok_def fed_def)
qed

lemma all_messages_give:
  "\<exists>out. messages_give (concat (map (av_messages bitmask c) fbs)) out
    \<and> echoes_in out = concat (map adv_echo_of fbs) \<and> (\<forall>ssrc. set (asked ssrc out) = set (asked ssrc fbs))"
proof (induction fbs)
  case Nil
  show ?case by (intro exI [of _ "[]"]) (simp add: messages_give_Nil echoes_in_def)
next
  case (Cons fb fbs)
  obtain out1 where o1: "messages_give (av_messages bitmask c fb) out1" "echoes_in out1 = adv_echo_of fb"
    "\<forall>ssrc. set (asked ssrc out1) = set (asked_of ssrc fb)"
    using av_messages_give by blast
  obtain out2 where o2: "messages_give (concat (map (av_messages bitmask c) fbs)) out2"
    "echoes_in out2 = concat (map adv_echo_of fbs)" "\<forall>ssrc. set (asked ssrc out2) = set (asked ssrc fbs)"
    using Cons.IH by blast
  show ?case
    using messages_give_append [OF o1(1) o2(1)] o1(2,3) o2(2,3)
    by (intro exI [of _ "out1 @ out2"]) (simp add: echoes_in_def asked_def)
qed

section \<open>The sequence number goes round\<close>

text \<open>The codec after the packets \<open>0\<close> to \<open>n\<close> of a stream at a constant pace, received in order.\<close>

fun after_packets :: "u32 \<Rightarrow> int \<Rightarrow> int \<Rightarrow> nat \<Rightarrow> adv_codec \<Rightarrow> adv_codec" where
  "after_packets s0 t0 pace 0 c = fst (av_source_micros s0 (of_int t0) c)"
| "after_packets s0 t0 pace (Suc n) c =
     fst (av_source_micros (s0 + of_nat (Suc n)) (of_int (t0 + pace * int (Suc n))) (after_packets s0 t0 pace n c))"

definition source_after :: "u32 \<Rightarrow> int \<Rightarrow> int \<Rightarrow> nat \<Rightarrow> nat \<Rightarrow> adv_codec \<Rightarrow> int" where
  "source_after s0 t0 pace n k c =
     snd (av_source_micros (s0 + of_nat k) (of_int (t0 + pace * int k)) (after_packets s0 t0 pace n c))"

definition in_step :: "u32 \<Rightarrow> int \<Rightarrow> int \<Rightarrow> nat \<Rightarrow> adv_codec \<Rightarrow> bool" where
  "in_step s0 t0 pace n c \<longleftrightarrow>
     av_ts_started c \<and> av_ts_base_seq c = s0 \<and> av_ts_base_ticks c = t0 \<and> av_ts_ref_seq c = s0 + of_nat n
     \<and> av_ts_ref_ticks c = t0 + pace * int n"

lemma sint_of_nat: "n < 2 ^ 31 \<Longrightarrow> sint (of_nat n :: u32) = int n"
  by (subst signed_of_nat) (simp add: signed_take_bit_int_eq_self)

lemma sint_high:
  assumes "2 ^ 31 \<le> n" "n \<le> 2 ^ 32"
  shows "sint (of_nat n :: u32) \<le> 0"
proof -
  have "(int n - 2147483648) mod 4294967296 = int n - 2147483648" using assms by (intro mod_pos_pos_trivial) simp_all
  then have "(int n + 2147483648) mod 4294967296 = int n - 2147483648"
    using mod_add_self2 [of "int n - 2147483648" 4294967296] by (simp add: add.commute)
  moreover have "sint (of_nat n :: u32) = signed_take_bit 31 (int n)" by (subst signed_of_nat) simp
  ultimately show ?thesis using assms by (simp add: signed_take_bit_eq_take_bit_shift take_bit_eq_mod)
qed

text \<open>A pace and a start that keep the arithmetic in range for twice the sequence space.\<close>

definition pace_ok :: "int \<Rightarrow> int \<Rightarrow> bool" where
  "pace_ok t0 pace \<longleftrightarrow> 0 < pace \<and> pace < 2 ^ 26 \<and> 0 \<le> t0 \<and> t0 < 2 ^ 32"

lemma pace_bound:
  assumes "pace_ok t0 pace" "k \<le> 8589934596"
  shows "0 \<le> pace * int k" "pace * int k \<le> 576460752571858944"
proof -
  have "pace * int k \<le> 67108864 * int k" using assms(1) by (intro mult_right_mono) (simp_all add: pace_ok_def)
  then show "pace * int k \<le> 576460752571858944" using assms(2) by simp
  show "0 \<le> pace * int k" using assms(1) by (simp add: pace_ok_def)
qed

lemma wrap_i64_small: "0 \<le> x \<Longrightarrow> x \<le> 1152921504606846976 \<Longrightarrow> wrap_i64 x = x"
  by (rule wrap_i64_id) simp_all

lemma widen_ticks_small:
  "0 \<le> v \<Longrightarrow> v \<le> 1000000000000000000 \<Longrightarrow> \<bar>v - r\<bar> < 2147483648 \<Longrightarrow> widen_ticks (of_int v) r = v"
  by (rule widen_ticks_near) simp_all

text \<open>What the extrapolation yields in step, before the average over the front is lost and after.\<close>

lemma in_step_reference:
  assumes "in_step s0 t0 pace n c" "pace_ok t0 pace" "n \<le> 2 ^ 32"
  shows "av_reference (s0 + of_nat (Suc n)) c
    = t0 + pace * int n + (if 0 < n \<and> n < 2 ^ 31 then pace else 0)"
proof (cases "0 < n \<and> n < 2 ^ 31")
  case True
  have b: "0 \<le> pace * int n" "pace * int n \<le> 576460752571858944" "0 < pace" "pace < 67108864" "0 \<le> t0" "t0 < 4294967296"
    using pace_bound [OF assms(2), of n] assms(2) True by (simp_all add: pace_ok_def)
  have "sint (of_nat n :: u32) = int n" using True by (intro sint_of_nat) simp
  moreover have "wrap_i64 (pace * int n) = pace * int n" by (rule wrap_i64_small) (use b in linarith)+
  moreover have "trunc_div (pace * int n) (int n) = pace"
    using True trunc_div_nonneg [OF b(1), of "int n"] by simp
  moreover have "wrap_i64 pace = pace" "wrap_i64 (t0 + pace * int n + pace) = t0 + pace * int n + pace"
    by (rule wrap_i64_small; use b in linarith)+
  ultimately show ?thesis using True assms(1) by (simp add: av_reference_def in_step_def)
next
  case False
  have "sint (of_nat n :: u32) \<le> 0" using False assms(3) sint_high [of n] by (cases "n = 0") auto
  then show ?thesis using assms(1) False by (auto simp: av_reference_def in_step_def)
qed

lemma widen_at:
  assumes "pace_ok t0 pace" "k \<le> 8589934596" "\<bar>t0 + pace * int k - r\<bar> < 2147483648"
  shows "widen_ticks (of_int (t0 + pace * int k)) r = t0 + pace * int k"
proof -
  have "0 \<le> t0" "t0 < 4294967296" using assms(1) by (simp_all add: pace_ok_def)
  with pace_bound [OF assms(1,2)] assms(3) show ?thesis by (intro widen_ticks_small) linarith+
qed

lemma in_step_next:
  assumes "in_step s0 t0 pace n c" "pace_ok t0 pace" "n \<le> 2 ^ 32"
  shows "av_source_micros (s0 + of_nat (Suc n)) (of_int (t0 + pace * int (Suc n))) c
    = (c\<lparr>av_ts_ref_seq := s0 + of_nat (Suc n), av_ts_ref_ticks := t0 + pace * int (Suc n)\<rparr>,
       (t0 + pace * int (Suc n)) div 65536)"
    and "in_step s0 t0 pace (Suc n)
      (c\<lparr>av_ts_ref_seq := s0 + of_nat (Suc n), av_ts_ref_ticks := t0 + pace * int (Suc n)\<rparr>)"
proof -
  have b: "0 \<le> pace * int (Suc n)" "0 < pace" "pace < 67108864" "0 \<le> t0"
    using pace_bound [OF assms(2), of "Suc n"] assms(2,3) by (simp_all add: pace_ok_def)
  have "widen_ticks (of_int (t0 + pace * int (Suc n))) (av_reference (s0 + of_nat (Suc n)) c) = t0 + pace * int (Suc n)"
  proof (rule widen_at [OF assms(2)])
    have "pace * int (Suc n) = pace * int n + pace" by (simp add: algebra_simps)
    then show "\<bar>t0 + pace * int (Suc n) - av_reference (s0 + of_nat (Suc n)) c\<bar> < 2147483648"
      using b by (simp only: in_step_reference [OF assms]) simp
  qed (use assms(3) in simp)
  moreover have "sint (s0 + of_nat (Suc n) - av_ts_ref_seq c) = 1"
    using assms(1) by (simp add: in_step_def)
  moreover have "max (t0 + pace * int (Suc n)) 0 = t0 + pace * int (Suc n)" by (rule max_absorb1) (use b in linarith)
  ultimately show "av_source_micros (s0 + of_nat (Suc n)) (of_int (t0 + pace * int (Suc n))) c
    = (c\<lparr>av_ts_ref_seq := s0 + of_nat (Suc n), av_ts_ref_ticks := t0 + pace * int (Suc n)\<rparr>,
       (t0 + pace * int (Suc n)) div 65536)"
    using assms(1) b
    by (simp add: av_source_micros_def in_step_def adv_clock_shift_def drop_bit_eq_div Let_def
        del: of_nat_Suc of_int_add of_int_mult)
  show "in_step s0 t0 pace (Suc n)
      (c\<lparr>av_ts_ref_seq := s0 + of_nat (Suc n), av_ts_ref_ticks := t0 + pace * int (Suc n)\<rparr>)"
    using assms(1) by (simp add: in_step_def)
qed

lemma after_packets_in_step:
  assumes "\<not> av_ts_started c" "pace_ok t0 pace"
  shows "n \<le> 2 ^ 32 + 1 \<Longrightarrow> in_step s0 t0 pace n (after_packets s0 t0 pace n c)"
proof (induction n)
  case 0
  have "uint (of_int t0 :: u32) = t0" using assms(2) by (simp add: pace_ok_def unsigned_of_int take_bit_eq_mod)
  with assms(1) show ?case by (simp add: av_source_micros_def in_step_def)
next
  case (Suc n)
  then have "in_step s0 t0 pace n (after_packets s0 t0 pace n c)" "n \<le> 2 ^ 32" by simp_all
  from in_step_next [OF this(1) assms(2) this(2)] show ?case by (simp del: of_nat_Suc)
qed

lemma source_after_next:
  assumes "\<not> av_ts_started c" "pace_ok t0 pace" "n \<le> 2 ^ 32"
  shows "source_after s0 t0 pace n (Suc n) c = (t0 + pace * int (Suc n)) div 65536"
  using in_step_next(1) [OF after_packets_in_step [OF assms(1,2), of n] assms(2,3), of s0] assms(3)
  by (simp add: source_after_def del: of_nat_Suc)

text \<open>A reading one whole number of periods away.\<close>

lemma source_after_off:
  assumes "\<not> av_ts_started c" "pace_ok t0 pace" "n \<le> 2 ^ 32 + 1" "k \<le> n + 1"
    and far: "v = t0 + pace * int k + j * 2 ^ 32" "0 \<le> v" "v \<le> 1000000000000000000"
    and near: "\<bar>v - av_reference (s0 + of_nat k) (after_packets s0 t0 pace n c)\<bar> < 2147483648"
  shows "source_after s0 t0 pace n k c = (t0 + pace * int k) div 65536 + j * 65536"
proof -
  have "(2 :: u32) ^ 32 = 0" using word_exp_length_eq_0 [where 'a = 32] by simp
  then have "of_int v = (of_int (t0 + pace * int k) :: u32)"
    unfolding far(1) of_int_add [of _ "j * 2 ^ 32"] of_int_mult [of j] of_int_power of_int_numeral by (simp only:) simp
  moreover have "widen_ticks (of_int v) (av_reference (s0 + of_nat k) (after_packets s0 t0 pace n c)) = v"
    by (rule widen_ticks_small [OF far(2,3) near])
  ultimately have "source_after s0 t0 pace n k c = v div 65536"
    using after_packets_in_step [OF assms(1-3), of s0] far(2)
    by (simp add: source_after_def av_source_micros_def in_step_def Let_def adv_clock_shift_def drop_bit_eq_div
        del: of_int_add of_int_mult)
  moreover have "v = t0 + pace * int k + j * 65536 * 65536" by (simp add: far(1))
  ultimately show ?thesis by (simp only: div_mult_self1)
qed

section \<open>Samples\<close>



definition sample_adv_receiver :: adv_codec where
  "sample_adv_receiver = av_new None (Some (sample_decryptor\<lparr>dc_bits := Aes256\<rparr>)) False 8 0 0"




section \<open>The properties\<close>



text \<open>C12: Feedback crosses the Advanced link. Any feedback is sent as control datagrams of one message each; every
  receiver, whatever its state and keys, decodes them without an error into requests for exactly the 32-bit numbers
  asked for on each SSRC, and into the echo messages in order with their timestamps and delays, the SSRC of an echo
  being dropped.\<close>

theorem adv_feedback_received:
  "\<exists>cs' bs rs. av_encode_feedback fbs bitmask ts cs = st_ok cs' bs \<and> adv_arrive L bs cr = Some rs
    \<and> list_all (\<lambda>r. case r of Inl e \<Rightarrow> False | Inr d \<Rightarrow> True) rs
    \<and> echoes_in (fed rs) = concat (map adv_echo_of fbs) \<and> (\<forall>ssrc. set (asked ssrc (fed rs)) = set (asked ssrc fbs))"
proof -
  obtain m bs where b: "av_encode_feedback fbs bitmask ts cs = st_ok (cs\<lparr>av_ctrl_seq := m\<rparr>) bs"
    "list_all2 relays (concat (map (av_messages bitmask cs) fbs)) bs"
    using av_feedback_loop_relays [of fbs bitmask ts "[]" cs] by (auto simp: av_encode_feedback_def)
  obtain out where out: "messages_give (concat (map (av_messages bitmask cs) fbs)) out"
    "echoes_in out = concat (map adv_echo_of fbs)" "\<forall>ssrc. set (asked ssrc out) = set (asked ssrc fbs)"
    using all_messages_give by blast
  from relayed_arrives [OF b(2) out(1), of L cr] b(1) out(2,3) show ?thesis by metis
qed

text \<open>C33: No datagram makes the Advanced codec panic: from any state, decoding any sequence of byte strings returns an
  error or a value for each.\<close>

theorem adv_any_datagram: "adv_arrive L bs c \<noteq> None"
  by (rule adv_arrive_returns)

text \<open>C34: The Advanced clock does not survive the sequence number going round. A stream at a constant pace received in
  order gets its source times right up to packet 2^32 + 1; the next packet is dated further ahead by the length of the
  whole stream so far. Already from packet 2^31 a retransmission more than half a timestamp period old no longer gets
  the source time of its original, but one 65536 microseconds later.\<close>

theorem adv_clock_fails_after_wrap:
  assumes "\<not> av_ts_started c" "pace_ok t0 pace" "2 ^ 31 < pace * int m" "pace * int m < 2 ^ 32" "m < 2 ^ 31"
  shows "source_after s0 t0 pace (2 ^ 32) (2 ^ 32 + 1) c = (t0 + pace * (2 ^ 32 + 1)) div 65536
    \<and> source_after s0 t0 pace (2 ^ 32 + 1) (2 ^ 32 + 2) c = (t0 + pace * (2 ^ 32 + 2)) div 65536 + pace * 65536
    \<and> source_after s0 t0 pace (2 ^ 31 - m - 1) (2 ^ 31 - m) c = (t0 + pace * (2 ^ 31 - int m)) div 65536
    \<and> source_after s0 t0 pace (2 ^ 31) (2 ^ 31 - m) c = (t0 + pace * (2 ^ 31 - int m)) div 65536 + 65536"
proof (intro conjI)
  note step = source_after_next [OF assms(1,2), of _ s0]
  show "source_after s0 t0 pace (2 ^ 32) (2 ^ 32 + 1) c = (t0 + pace * (2 ^ 32 + 1)) div 65536"
    using step [of "2 ^ 32"] by simp
  show "source_after s0 t0 pace (2 ^ 31 - m - 1) (2 ^ 31 - m) c = (t0 + pace * (2 ^ 31 - int m)) div 65536"
  proof -
    have k: "Suc (2 ^ 31 - m - 1) = 2 ^ 31 - m" "int (2 ^ 31 - m) = 2 ^ 31 - int m" using assms(5) by simp_all
    show ?thesis using step [of "2 ^ 31 - m - 1", unfolded k] by simp
  qed
  have b: "0 < pace" "pace < 67108864" "0 \<le> t0" "t0 < 4294967296" using assms(2) by (simp_all add: pace_ok_def)
  show "source_after s0 t0 pace (2 ^ 31) (2 ^ 31 - m) c = (t0 + pace * (2 ^ 31 - int m)) div 65536 + 65536"
  proof -
    have ref: "av_reference x (after_packets s0 t0 pace (2 ^ 31) c) = t0 + pace * 2 ^ 31" for x
      using after_packets_in_step [OF assms(1,2), of "2 ^ 31" s0] by (simp add: av_reference_def in_step_def)
    have k: "int (2 ^ 31 - m) = 2 ^ 31 - int m" using assms(5) by (simp add: of_nat_diff)
    have "source_after s0 t0 pace (2 ^ 31) (2 ^ 31 - m) c = (t0 + pace * int (2 ^ 31 - m)) div 65536 + 1 * 65536"
    proof (rule source_after_off [OF assms(1,2) _ _ refl])
      show "\<bar>t0 + pace * int (2 ^ 31 - m) + 1 * 2 ^ 32 - av_reference (s0 + of_nat (2 ^ 31 - m))
          (after_packets s0 t0 pace (2 ^ 31) c)\<bar> < 2147483648"
        unfolding ref k using assms(3,4) by (simp add: right_diff_distrib)
      show "0 \<le> t0 + pace * int (2 ^ 31 - m) + 1 * 2 ^ 32" using b by simp
      have "pace * int (2 ^ 31 - m) \<le> 67108864 * 2147483648" using b by (intro mult_mono) (simp_all add: k)
      then show "t0 + pace * int (2 ^ 31 - m) + 1 * 2 ^ 32 \<le> 1000000000000000000" using b by simp
    qed simp_all
    then show ?thesis unfolding k by simp
  qed
  show "source_after s0 t0 pace (2 ^ 32 + 1) (2 ^ 32 + 2) c = (t0 + pace * (2 ^ 32 + 2)) div 65536 + pace * 65536"
  proof -
    have i: "in_step s0 t0 pace (2 ^ 32 + 1) (after_packets s0 t0 pace (2 ^ 32 + 1) c)"
      by (rule after_packets_in_step [OF assms(1,2)]) simp
    have w: "wrap_i64 (pace * 4294967297) = pace * 4294967297"
      "wrap_i64 (t0 + pace * 4294967297 + pace * 4294967297) = t0 + pace * 4294967297 + pace * 4294967297"
      using b by (intro wrap_i64_small; simp)+
    have ref: "av_reference (s0 + of_nat (2 ^ 32 + 2)) (after_packets s0 t0 pace (2 ^ 32 + 1) c)
        = t0 + pace * 4294967297 + pace * 4294967297"
      using i w b by (simp add: av_reference_def in_step_def trunc_div_def)
    have "source_after s0 t0 pace (2 ^ 32 + 1) (2 ^ 32 + 2) c
        = (t0 + pace * int (2 ^ 32 + 2)) div 65536 + pace * 65536"
      by (rule source_after_off [OF assms(1,2) _ _ refl]; (simp only: ref)?) (use b in simp_all)
    then show ?thesis by simp
  qed
qed

theorem adv_clock_fails_after_wrap_witness:
  "source_after 0 0 65536000 (2 ^ 32) (2 ^ 32 + 1) sample_adv_receiver = (0 + 65536000 * (2 ^ 32 + 1)) div 65536
    \<and> source_after 0 0 65536000 (2 ^ 32 + 1) (2 ^ 32 + 2) sample_adv_receiver
      = (0 + 65536000 * (2 ^ 32 + 2)) div 65536 + 65536000 * 65536
    \<and> source_after 0 0 65536000 (2 ^ 31 - 40 - 1) (2 ^ 31 - 40) sample_adv_receiver
      = (0 + 65536000 * (2 ^ 31 - int 40)) div 65536
    \<and> source_after 0 0 65536000 (2 ^ 31) (2 ^ 31 - 40) sample_adv_receiver
      = (0 + 65536000 * (2 ^ 31 - int 40)) div 65536 + 65536"
proof (rule adv_clock_fails_after_wrap)
  show "\<not> av_ts_started sample_adv_receiver" by (simp add: sample_adv_receiver_def av_new_def)
  show "pace_ok 0 65536000" by (simp add: pace_ok_def)
qed simp_all

end
