(* ===== verification/Split_Merge.thy ===== *)
theory Split_Merge
  imports Wire
begin

text \<open>
  Packet split and merge (\<^verbatim>\<open>rist/src/split.rs\<close>): the sender cuts a payload in two halves that
  travel under consecutive sequence numbers and one source time; the receiver's \<open>merger\<close> holds an
  even-numbered delivery until its partner comes. There is no marker on the wire: only the parity, the
  order and the source time tell a pair.
\<close>

section \<open>Splitting\<close>

datatype split_mode = Split_Off | Split_Auto | Half
datatype merge_mode = Merge_Off | Pairs | Merge_Auto

definition ts_packet_len :: nat where "ts_packet_len = 188"
definition ts_sync_byte :: u8 where "ts_sync_byte = 0x47"

definition split_point :: "split_mode \<Rightarrow> bytes \<Rightarrow> (nat \<times> nat) option" where
  "split_point mode payload =
     (let len = length payload in
      if len < 2 then None
      else case mode of
        Split_Off \<Rightarrow> None
      | Split_Auto \<Rightarrow>
          let first = (if 2 * ts_packet_len \<le> len \<and> len mod ts_packet_len = 0 \<and> payload ! 0 = ts_sync_byte
                       then max (len div ts_packet_len div 2) 1 * ts_packet_len
                       else len div 2)
          in Some (first, len - first)
      | Half \<Rightarrow> Some (len div 2, len - len div 2))"

definition is_split_pair :: "u32 \<Rightarrow> u64 \<Rightarrow> u32 \<Rightarrow> u64 \<Rightarrow> bool" where
  "is_split_pair first_seq first_src second_seq second_src \<longleftrightarrow>
     first_seq AND 1 = 0 \<and> second_seq = first_seq + 1 \<and> first_src = second_src"

definition split_payload :: "split_mode \<Rightarrow> bytes \<Rightarrow> bytes \<times> bytes option" where
  "split_payload mode payload =
     (if mode = Split_Off \<or> payload = [] then (payload, None)
      else
        let (first, _) = (case split_point mode payload of Some s \<Rightarrow> s | None \<Rightarrow> (0, length payload))
        in (take first payload, Some (drop first payload)))"

section \<open>Merging\<close>

datatype merge_out = Hold | One bytes | Two bytes bytes

fun payloads :: "merge_out \<Rightarrow> bytes list" where
  "payloads Hold = []"
| "payloads (One p) = [p]"
| "payloads (Two a b) = [a, b]"

record merger =
  mg_mode :: merge_mode
  mg_auto_enabled :: bool
  mg_held :: "(u32 \<times> u64 \<times> bytes) option"

definition merger_new :: "merge_mode \<Rightarrow> merger" where
  "merger_new mode = \<lparr>mg_mode = mode, mg_auto_enabled = False, mg_held = None\<rparr>"

definition set_auto_enabled :: "bool \<Rightarrow> merger \<Rightarrow> merger" where
  "set_auto_enabled on m = m\<lparr>mg_auto_enabled := on\<rparr>"

definition merger_active :: "merger \<Rightarrow> bool" where
  "merger_active m =
     (case mg_mode m of Merge_Off \<Rightarrow> False | Pairs \<Rightarrow> True | Merge_Auto \<Rightarrow> mg_auto_enabled m)"

definition combine :: "bytes \<Rightarrow> bytes \<Rightarrow> bytes" where
  "combine fst_half snd_half = fst_half @ snd_half"

definition merger_fresh :: "u32 \<Rightarrow> u64 \<Rightarrow> bytes \<Rightarrow> merger \<Rightarrow> merger \<times> merge_out" where
  "merger_fresh s src payload m =
     (if s AND 1 = 0 then (m\<lparr>mg_held := Some (s, src, payload)\<rparr>, Hold) else (m, One payload))"

text \<open>The \<^verbatim>\<open>unreachable!\<close> of \<^verbatim>\<open>deliver\<close> is a panic.\<close>

definition merger_deliver ::
    "u32 \<Rightarrow> u64 \<Rightarrow> bytes \<Rightarrow> bool \<Rightarrow> merger \<Rightarrow> (merger \<times> merge_out) option" where
  "merger_deliver s src payload discontinuity m =
     (if \<not> merger_active m then Some (m, One payload)
      else case mg_held m of
        Some (h_seq, h_src, first) \<Rightarrow>
          if \<not> discontinuity \<and> is_split_pair h_seq h_src s src
          then Some (m\<lparr>mg_held := None\<rparr>, One (combine first payload))
          else (case merger_fresh s src payload (m\<lparr>mg_held := None\<rparr>) of
                  (m, Hold) \<Rightarrow> Some (m, One first)
                | (m, One p) \<Rightarrow> Some (m, Two first p)
                | (m, Two _ _) \<Rightarrow> None)
      | None \<Rightarrow> Some (merger_fresh s src payload m))"

section \<open>Runs\<close>

text \<open>\<^verbatim>\<open>push_split\<close> of the drivers over a list of writes (source time, payload), under the consecutive
  numbers the flow hands out: number, source time, payload of each packet.\<close>

type_synonym half_packet = "u32 \<times> u64 \<times> bytes"

fun push_split :: "split_mode \<Rightarrow> u32 \<Rightarrow> (u64 \<times> bytes) list \<Rightarrow> half_packet list" where
  "push_split mode s [] = []"
| "push_split mode s ((t, p) # ws) =
     (case split_payload mode p of
        (a, None) \<Rightarrow> (s, t, a) # push_split mode (s + 1) ws
      | (a, Some b) \<Rightarrow> (s, t, a) # (s + 1, t, b) # push_split mode (s + 2) ws)"

text \<open>The receiving drain: each delivered packet with its discontinuity flag through the merger.\<close>

fun merge_run :: "merger \<Rightarrow> (half_packet \<times> bool) list \<Rightarrow> (merger \<times> bytes list) option" where
  "merge_run m [] = Some (m, [])"
| "merge_run m (((s, src, p), disc) # ds) =
     do {
       (m, out) \<leftarrow> merger_deliver s src p disc m;
       (m, rest) \<leftarrow> merge_run m ds;
       Some (m, payloads out @ rest)
     }"

section \<open>Lemmas\<close>

lemma split_point_sum: "split_point mode p = Some (a, b) \<Longrightarrow> a + b = length p \<and> 0 < a \<and> 0 < b"
proof -
  assume sp: "split_point mode p = Some (a, b)"
  then have len: "2 \<le> length p" by (auto simp: split_point_def Let_def split: if_splits)
  consider (half) "a = length p div 2" "b = length p - length p div 2"
    | (ts) "2 * 188 \<le> length p" "a = max (length p div 188 div 2) 1 * 188" "b = length p - a"
    using sp len by (auto simp: split_point_def Let_def ts_packet_len_def split: split_mode.splits if_splits)
  then show ?thesis
  proof cases
    case half
    then show ?thesis using len by linarith
  next
    case ts
    then have "length p div 188 div 2 * 188 \<le> length p div 2" "1 \<le> length p div 188 div 2" by linarith+
    with ts have "0 < a" "a < length p" by (simp_all add: max_def) linarith
    with ts show ?thesis by simp
  qed
qed

lemma split_payload_shape:
  assumes "mode \<noteq> Split_Off" and "p \<noteq> []"
  shows "\<exists>a b. split_payload mode p = (a, Some b) \<and> a @ b = p"
  using assms by (auto simp: split_payload_def Let_def split: prod.splits option.splits)

lemma split_payload_parts:
  "split_payload mode p = (a, None) \<Longrightarrow> a = p"
  "split_payload mode p = (a, Some b) \<Longrightarrow> a @ b = p"
  by (auto simp: split_payload_def Let_def split: prod.splits option.splits if_splits)

lemma low_bit_even: "s AND 1 = 0 \<longleftrightarrow> even s" for s :: u32
  by (simp add: and_one_eq even_iff_mod_2_eq_zero)

lemma even_next: "s AND 1 = 0 \<Longrightarrow> (s + 2) AND 1 = 0" for s :: u32
  unfolding low_bit_even by simp

lemma next_differs: "s + 1 \<noteq> (s :: u32)" "s + 1 + 1 \<noteq> (s :: u32)"
  by simp_all

lemma merge_pair:
  assumes "merger_active m" and "mg_held m = None" and "s AND 1 = 0"
  shows "merge_run m (((s, t, a), False) # ((s + 1, t, b), False) # ds) =
    (case merge_run m ds of None \<Rightarrow> None | Some (m', out) \<Rightarrow> Some (m', (a @ b) # out))"
proof -
  have "merger_deliver s t a False m = Some (m\<lparr>mg_held := Some (s, t, a)\<rparr>, Hold)"
    using assms by (simp add: merger_deliver_def merger_fresh_def)
  moreover have "merger_deliver (s + 1) t b False (m\<lparr>mg_held := Some (s, t, a)\<rparr>) = Some (m, One (a @ b))"
    using assms by (simp add: merger_deliver_def merger_active_def is_split_pair_def combine_def
        cong: merge_mode.case_cong)
  ultimately show ?thesis by (auto split: option.splits Option.bind_splits)
qed

lemma merge_split_run:
  "mode \<noteq> Split_Off \<Longrightarrow> merger_active m \<Longrightarrow> mg_held m = None \<Longrightarrow> s AND 1 = 0 \<Longrightarrow> \<forall>w\<in>set ws. snd w \<noteq> [] \<Longrightarrow>
   merge_run m (map (\<lambda>k. (k, False)) (push_split mode s ws)) = Some (m, map snd ws)"
proof (induction mode s ws rule: push_split.induct)
  case (2 mode s t p ws)
  obtain a b where ab: "split_payload mode p = (a, Some b)" "a @ b = p"
    using split_payload_shape [of mode p] 2 by auto
  have "merge_run m (map (\<lambda>k. (k, False)) (push_split mode (s + 2) ws)) = Some (m, map snd ws)"
    using 2 ab even_next by simp
  then show ?case using merge_pair [of m s t a b] 2 ab by simp
qed simp

lemma push_split_step:
  obtains (whole) "split_payload mode p = (p, None)"
    "push_split mode s ((t, p) # ws) = (s, t, p) # push_split mode (s + 1) ws"
  | (halves) a b where "split_payload mode p = (a, Some b)" "a @ b = p"
    "push_split mode s ((t, p) # ws) = (s, t, a) # (s + 1, t, b) # push_split mode (s + 2) ws"
proof (cases "split_payload mode p")
  case (Pair a half)
  show thesis
  proof (cases half)
    case None
    then show thesis using Pair whole split_payload_parts(1) [of mode p a] by simp
  next
    case (Some b)
    then show thesis using Pair halves split_payload_parts(2) [of mode p a b] by simp
  qed
qed

lemma push_split_times: "(n, t, q) \<in> set (push_split mode s ws) \<Longrightarrow> t \<in> fst ` set ws"
proof (induction ws arbitrary: s)
  case (Cons w ws)
  obtain t' p where w: "w = (t', p)" by (cases w)
  show ?case by (rule push_split_step [of mode p s t' ws]) (use Cons w in auto)
qed simp

lemma push_split_pair:
  "distinct (map fst ws) \<Longrightarrow> (n, t, a) \<in> set (push_split mode s ws) \<Longrightarrow>
   (n + 1, t, b) \<in> set (push_split mode s ws) \<Longrightarrow> (t, a @ b) \<in> set ws"
proof (induction ws arbitrary: s)
  case (Cons w ws)
  obtain t' p where w: "w = (t', p)" by (cases w)
  show ?case
  proof (cases "t = t'")
    case True
    then have rest: "\<And>n q s. (n, t, q) \<notin> set (push_split mode s ws)"
      using push_split_times Cons.prems(1) w by fastforce
    show ?thesis
      by (rule push_split_step [of mode p s t' ws]) (use Cons.prems True w rest next_differs in auto)
  next
    case False
    show ?thesis
      by (rule push_split_step [of mode p s t' ws]) (use Cons False w in auto)
  qed
qed simp

text \<open>What a delivery may hand on, given the packets the sender made.\<close>

definition sound_out :: "split_mode \<Rightarrow> u32 \<Rightarrow> (u64 \<times> bytes) list \<Rightarrow> bytes \<Rightarrow> bool" where
  "sound_out mode s ws q \<longleftrightarrow>
     q \<in> snd ` set ws \<or> q \<in> (\<lambda>(n, t, h). h) ` set (push_split mode s ws)"

definition held_sound :: "half_packet set \<Rightarrow> merger \<Rightarrow> bool" where
  "held_sound P m \<longleftrightarrow> (case mg_held m of None \<Rightarrow> True | Some k \<Rightarrow> k \<in> P)"

definition held_bytes :: "merger \<Rightarrow> bytes" where
  "held_bytes m = (case mg_held m of None \<Rightarrow> [] | Some (_, _, q) \<Rightarrow> q)"

lemma merger_deliver_cases:
  assumes "merger_active m \<or> mg_held m = None"
  obtains (pass) "merger_deliver n t q disc m = Some (m, One q)" "mg_held m = None"
  | (hold) "merger_deliver n t q disc m = Some (m\<lparr>mg_held := Some (n, t, q)\<rparr>, Hold)"
      "mg_held m = None" "merger_active m"
  | (pair) n' a where "merger_deliver n t q disc m = Some (m\<lparr>mg_held := None\<rparr>, One (a @ q))"
      "mg_held m = Some (n', t, a)" "n = n' + 1"
  | (flush) n' t' a where "merger_deliver n t q disc m = Some (m\<lparr>mg_held := None\<rparr>, Two a q)"
      "mg_held m = Some (n', t', a)"
  | (swap) n' t' a where "merger_deliver n t q disc m = Some (m\<lparr>mg_held := Some (n, t, q)\<rparr>, One a)"
      "mg_held m = Some (n', t', a)" "merger_active m"
proof (cases "mg_held m")
  case None
  then show thesis
    using pass hold by (cases "merger_active m"; cases "n AND 1 = 0") (simp_all add: merger_deliver_def merger_fresh_def)
next
  case (Some k)
  then obtain n' t' a where k: "mg_held m = Some (n', t', a)" by (cases k) auto
  with assms have act: "merger_active m" by simp
  show thesis
  proof (cases "\<not> disc \<and> is_split_pair n' t' n t")
    case True
    then show thesis using pair [of a n'] k act by (simp add: merger_deliver_def combine_def is_split_pair_def)
  next
    case False
    then show thesis using flush [of a n' t'] swap [of a n' t'] k act
      by (cases "n AND 1 = 0") (auto simp: merger_deliver_def merger_fresh_def)
  qed
qed

lemma active_held [simp]: "merger_active (m\<lparr>mg_held := h\<rparr>) = merger_active m"
  by (simp add: merger_active_def cong: merge_mode.case_cong)

lemma merge_run_sound:
  assumes "distinct (map fst ws)"
  shows "fst ` set ds \<subseteq> set (push_split mode s ws) \<Longrightarrow> merger_active m \<or> mg_held m = None \<Longrightarrow>
    held_sound (set (push_split mode s ws)) m \<Longrightarrow>
    \<exists>m' out. merge_run m ds = Some (m', out) \<and> (\<forall>q\<in>set out. sound_out mode s ws q)
      \<and> concat out @ held_bytes m' = held_bytes m @ concat (map (\<lambda>((n, t, q), disc). q) ds)"
proof (induction ds arbitrary: m)
  case Nil
  then show ?case by simp
next
  case (Cons d ds)
  obtain n t q disc where d: "d = ((n, t, q), disc)" by (cases d) auto
  let ?P = "set (push_split mode s ws)"
  have q: "(n, t, q) \<in> ?P" and ds: "fst ` set ds \<subseteq> ?P" using Cons.prems(1) d by auto
  have sq: "sound_out mode s ws q" using q by (force simp: sound_out_def)
  have sh: "sound_out mode s ws a" if "mg_held m = Some (n', t', a)" for n' t' a
    using Cons.prems(3) that by (force simp: held_sound_def sound_out_def)
  have key: "\<exists>m1 o1. merger_deliver n t q disc m = Some (m1, o1) \<and> (merger_active m1 \<or> mg_held m1 = None)
      \<and> held_sound ?P m1 \<and> (\<forall>x\<in>set (payloads o1). sound_out mode s ws x)
      \<and> concat (payloads o1) @ held_bytes m1 = held_bytes m @ q"
    using Cons.prems(2)
  proof (cases rule: merger_deliver_cases [of m n t q disc])
    case (pair n' a)
    then have "(n', t, a) \<in> ?P" using Cons.prems(3) by (simp add: held_sound_def)
    then have "(t, a @ q) \<in> set ws" using push_split_pair [OF assms] q pair(3) by blast
    then have "sound_out mode s ws (a @ q)" by (force simp: sound_out_def)
    then show ?thesis using pair by (simp add: held_sound_def held_bytes_def)
  qed (use q sq sh in \<open>auto simp: held_sound_def held_bytes_def\<close>)
  then obtain m1 o1 where m1: "merger_deliver n t q disc m = Some (m1, o1)" "merger_active m1 \<or> mg_held m1 = None"
      "held_sound ?P m1" "\<forall>x\<in>set (payloads o1). sound_out mode s ws x"
      "concat (payloads o1) @ held_bytes m1 = held_bytes m @ q" by blast
  from Cons.IH [OF ds m1(2,3)] obtain m' out where r: "merge_run m1 ds = Some (m', out)"
      "\<forall>x\<in>set out. sound_out mode s ws x"
      "concat out @ held_bytes m' = held_bytes m1 @ concat (map (\<lambda>((n, t, q), disc). q) ds)" by blast
  have "concat (payloads o1 @ out) @ held_bytes m'
      = (concat (payloads o1) @ held_bytes m1) @ concat (map (\<lambda>((n, t, q), disc). q) ds)"
    by (simp add: r(3))
  then have "concat (payloads o1 @ out) @ held_bytes m'
      = held_bytes m @ concat (map (\<lambda>((n, t, q), disc). q) (d # ds))"
    by (simp add: m1(5) d)
  moreover have "merge_run m (d # ds) = Some (m', payloads o1 @ out)" by (simp add: d m1(1) r(1))
  ultimately show ?case using m1(4) r(2) by auto
qed

section \<open>Properties\<close>

text \<open>Split and merge are inverse: whatever non-empty payloads are written under any split mode,
  starting at an even number, an active merger that gets the packets in order hands on exactly the payloads
  written, one for one, and ends with nothing held.\<close>

theorem split_merge_roundtrip:
  assumes "mode \<noteq> Split_Off" and "s AND 1 = 0" and "\<forall>w\<in>set ws. snd w \<noteq> []"
    and "merger_active m" and "mg_held m = None"
  shows "merge_run m (map (\<lambda>k. (k, False)) (push_split mode s ws)) = Some (m, map snd ws)"
  using assms by (intro merge_split_run) simp_all

definition sample_writes :: "(u64 \<times> bytes) list" where
  "sample_writes = [(7, [1, 2, 3]), (8, [4]), (9, [5, 6])]"

theorem split_merge_roundtrip_witness:
  "merge_run (merger_new Pairs) (map (\<lambda>k. (k, False)) (push_split Split_Auto 0xFFFFFFFE sample_writes))
     = Some (merger_new Pairs, map snd sample_writes)"
  by (rule split_merge_roundtrip) (simp_all add: merger_new_def merger_active_def sample_writes_def)

text \<open>Switching an automatic merger off leaves a held half behind: deliveries pass it by until merging is
  switched on again.\<close>

lemma auto_off_strands_half:
  assumes "mg_mode m = Merge_Auto"
  shows "merge_run (set_auto_enabled False m) ds = Some (set_auto_enabled False m, map (\<lambda>((n, t, q), disc). q) ds)"
  by (induction ds) (auto simp: assms merger_deliver_def merger_active_def set_auto_enabled_def)

end
