(* ===== verification/Fragments.thy ===== *)
theory Fragments
  imports Split_Merge
begin

text \<open>
  Fragmentation of the Advanced profile: the sender's cut of a payload into a run of fragments
  (\<^verbatim>\<open>push_app\<close> in \<^verbatim>\<open>rist/src/driver_adv.rs\<close>, with the size check of
  \<^verbatim>\<open>Sender::send\<close>), and the receiver's \<^verbatim>\<open>FragReassembler\<close>
  (\<^verbatim>\<open>rist/src/reassembler.rs\<close>).
\<close>

section \<open>The reassembler\<close>

definition max_reassembly_fragments :: nat where "max_reassembly_fragments = 64"

record reassembler =
  ra_buf :: bytes
  ra_active :: bool
  ra_count :: nat

definition reasm_reset :: "reassembler \<Rightarrow> reassembler" where
  "reasm_reset r = r\<lparr>ra_buf := [], ra_active := False, ra_count := 0\<rparr>"

definition reasm_new :: reassembler where
  "reasm_new = \<lparr>ra_buf = [], ra_active = False, ra_count = 0\<rparr>"

fun reasm_push :: "frag_role \<Rightarrow> bytes \<Rightarrow> bool \<Rightarrow> reassembler \<Rightarrow> reassembler \<times> bytes option" where
  "reasm_push First payload discontinuity r =
     (r\<lparr>ra_buf := payload, ra_active := True, ra_count := 1\<rparr>, None)"
| "reasm_push Middle payload discontinuity r =
     (if \<not> ra_active r \<or> discontinuity \<or> max_reassembly_fragments \<le> ra_count r
      then (reasm_reset r, None)
      else (r\<lparr>ra_buf := ra_buf r @ payload, ra_count := ra_count r + 1\<rparr>, None))"
| "reasm_push Last payload discontinuity r =
     (if \<not> ra_active r \<or> discontinuity \<or> max_reassembly_fragments \<le> ra_count r
      then (reasm_reset r, None)
      else (reasm_reset r, Some (ra_buf r @ payload)))"
| "reasm_push Standalone payload discontinuity r = (reasm_reset r, Some payload)"

section \<open>The sender's cut\<close>

definition max_fragments_per_write :: nat where
  "max_fragments_per_write = max_reassembly_fragments"

text \<open>\<^verbatim>\<open>Sender::send\<close> refuses a write of more than so many fragments; \<open>None\<close> is acceptance.\<close>

definition send_too_large :: "nat \<Rightarrow> bytes \<Rightarrow> (nat \<times> nat) option" where
  "send_too_large fragment_size payload =
     (if 0 < fragment_size \<and> fragment_size * max_fragments_per_write < length payload
      then Some (length payload, fragment_size * max_fragments_per_write) else None)"

function cut_fragments :: "nat \<Rightarrow> bytes \<Rightarrow> nat \<Rightarrow> (frag_role \<times> bytes) list" where
  "cut_fragments frag_size p off =
     (if frag_size = 0 \<or> length p \<le> off then []
      else
        let e = min (off + frag_size) (length p);
            role = (if off = 0 then First else if e = length p then Last else Middle)
        in (role, take (e - off) (drop off p)) # cut_fragments frag_size p e)"
  by auto
termination by (relation "measure (\<lambda>(f, p, off). length p - off)") auto

declare cut_fragments.simps [simp del]

definition adv_push_app :: "split_mode \<Rightarrow> nat \<Rightarrow> bytes \<Rightarrow> (frag_role \<times> bytes) list" where
  "adv_push_app mode frag_size p =
     (if mode \<noteq> Split_Off
      then (case split_payload mode p of
              (a, None) \<Rightarrow> [(Standalone, a)]
            | (a, Some b) \<Rightarrow> [(Standalone, a), (Standalone, b)])
      else if frag_size = 0 \<or> length p \<le> frag_size then [(Standalone, p)]
      else cut_fragments frag_size p 0)"

section \<open>Runs\<close>

type_synonym fragment = "frag_role \<times> bytes \<times> bool"

fun reasm_run :: "reassembler \<Rightarrow> fragment list \<Rightarrow> reassembler \<times> bytes list" where
  "reasm_run r [] = (r, [])"
| "reasm_run r ((role, p, disc) # fs) =
     (let (r1, out) = reasm_push role p disc r; (r2, rest) = reasm_run r1 fs
      in (r2, (case out of None \<Rightarrow> [] | Some q \<Rightarrow> [q]) @ rest))"

lemma reasm_run_append:
  "reasm_run r (fs @ gs) =
     (let (r1, a) = reasm_run r fs; (r2, b) = reasm_run r1 gs in (r2, a @ b))"
  by (induction r fs rule: reasm_run.induct) (auto simp: Let_def split: prod.splits)

text \<open>The run that is open after a history: a first fragment, then middles without a gap, at most 64.\<close>

definition middles :: "fragment list \<Rightarrow> bool" where
  "middles ms \<longleftrightarrow> (\<forall>(role, p, disc)\<in>set ms. role = Middle \<and> \<not> disc)"

definition bytes_of :: "fragment list \<Rightarrow> bytes" where
  "bytes_of ms = concat (map (\<lambda>(role, p, disc). p) ms)"

definition open_run :: "fragment list \<Rightarrow> bytes \<Rightarrow> nat \<Rightarrow> bool" where
  "open_run hist b n \<longleftrightarrow>
     (\<exists>pre p disc ms. hist = pre @ (First, p, disc) # ms \<and> middles ms \<and> length ms < 64
        \<and> b = p @ bytes_of ms \<and> n = length ms + 1)"

lemma open_run_Nil: "\<not> open_run [] b n"
  by (simp add: open_run_def)

lemma open_run_First: "open_run (hist @ [(First, p, disc)]) b n \<longleftrightarrow> b = p \<and> n = 1"
proof
  assume "open_run (hist @ [(First, p, disc)]) b n"
  then obtain pre p' d ms where h: "hist @ [(First, p, disc)] = pre @ (First, p', d) # ms" "middles ms"
      "b = p' @ bytes_of ms" "n = length ms + 1" by (auto simp: open_run_def)
  have "ms = []"
  proof (rule ccontr)
    assume "ms \<noteq> []"
    then obtain ms' x where ms: "ms = ms' @ [x]" by (cases ms rule: rev_cases) auto
    with h(1) have "x = (First, p, disc)" by simp
    with h(2) show False by (simp add: middles_def ms)
  qed
  with h show "b = p \<and> n = 1" by (simp add: bytes_of_def)
next
  assume "b = p \<and> n = 1"
  then show "open_run (hist @ [(First, p, disc)]) b n"
    unfolding open_run_def by (intro exI [of _ hist] exI [of _ p] exI [of _ disc] exI [of _ "[]"])
      (simp add: middles_def bytes_of_def)
qed

lemma open_run_Middle:
  "open_run (hist @ [(Middle, p, disc)]) b n \<longleftrightarrow>
     (\<not> disc \<and> (\<exists>c k. open_run hist c k \<and> k < 64 \<and> b = c @ p \<and> n = k + 1))"
proof
  assume "open_run (hist @ [(Middle, p, disc)]) b n"
  then obtain pre p' d ms where h: "hist @ [(Middle, p, disc)] = pre @ (First, p', d) # ms" "middles ms"
      "length ms < 64" "b = p' @ bytes_of ms" "n = length ms + 1" by (auto simp: open_run_def)
  then obtain ms' x where ms: "ms = ms' @ [x]" by (cases ms rule: rev_cases) auto
  with h(1) have x: "x = (Middle, p, disc)" "hist = pre @ (First, p', d) # ms'" by simp_all
  have "open_run hist (p' @ bytes_of ms') (length ms' + 1)"
    unfolding open_run_def x(2) using h(2,3) ms
    by (intro exI [of _ pre] exI [of _ p'] exI [of _ d] exI [of _ ms']) (simp add: middles_def)
  then show "\<not> disc \<and> (\<exists>c k. open_run hist c k \<and> k < 64 \<and> b = c @ p \<and> n = k + 1)"
    using h ms x by (auto simp: middles_def bytes_of_def)
next
  assume "\<not> disc \<and> (\<exists>c k. open_run hist c k \<and> k < 64 \<and> b = c @ p \<and> n = k + 1)"
  then obtain pre p' d ms where h: "\<not> disc" "hist = pre @ (First, p', d) # ms" "middles ms" "length ms + 1 < 64"
      "b = (p' @ bytes_of ms) @ p" "n = length ms + 2" by (auto simp: open_run_def)
  then show "open_run (hist @ [(Middle, p, disc)]) b n"
    unfolding open_run_def
    by (intro exI [of _ pre] exI [of _ p'] exI [of _ d] exI [of _ "ms @ [(Middle, p, disc)]"])
      (auto simp: middles_def bytes_of_def)
qed

lemma open_run_closed:
  assumes "role = Last \<or> role = Standalone"
  shows "\<not> open_run (hist @ [(role, p, disc)]) b n"
proof
  assume "open_run (hist @ [(role, p, disc)]) b n"
  then obtain pre p' d ms where h: "hist @ [(role, p, disc)] = pre @ (First, p', d) # ms" "middles ms"
    by (auto simp: open_run_def)
  show False
  proof (cases ms rule: rev_cases)
    case Nil
    with h(1) assms show False by auto
  next
    case (snoc ms' x)
    with h(1) have "x = (role, p, disc)" by simp
    with h(2) snoc assms show False by (auto simp: middles_def)
  qed
qed

lemma open_run_unique: "open_run hist b n \<Longrightarrow> open_run hist c k \<Longrightarrow> b = c \<and> n = k"
proof (induction hist arbitrary: b n c k rule: rev_induct)
  case Nil
  then show ?case by (simp add: open_run_Nil)
next
  case (snoc x hist)
  obtain role p disc where x: "x = (role, p, disc)" by (cases x)
  show ?case
  proof (cases role)
    case Standalone
    then show ?thesis using snoc.prems x open_run_closed by blast
  next
    case First
    then show ?thesis using snoc.prems by (simp add: x open_run_First)
  next
    case Middle
    then show ?thesis using snoc.prems snoc.IH by (auto simp: x open_run_Middle)
  next
    case Last
    then show ?thesis using snoc.prems x open_run_closed by blast
  qed
qed

text \<open>The reassembler's state is the open run of the history.\<close>

definition reasm_tracks :: "fragment list \<Rightarrow> reassembler \<Rightarrow> bool" where
  "reasm_tracks hist r \<longleftrightarrow>
     (if ra_active r then open_run hist (ra_buf r) (ra_count r) else \<forall>b n. \<not> open_run hist b n)"

lemma reasm_push_tracks:
  assumes "reasm_tracks hist r"
  shows "reasm_tracks (hist @ [(role, p, disc)]) (fst (reasm_push role p disc r))"
proof (cases role)
  case Middle
  show ?thesis
  proof (cases "ra_active r")
    case True
    then have o: "open_run hist b n \<longleftrightarrow> b = ra_buf r \<and> n = ra_count r" for b n
      using assms open_run_unique by (auto simp: reasm_tracks_def)
    show ?thesis
      using True Middle by (auto simp: reasm_tracks_def open_run_Middle o reasm_reset_def max_reassembly_fragments_def)
  next
    case False
    then show ?thesis using Middle assms by (auto simp: reasm_tracks_def open_run_Middle reasm_reset_def)
  qed
qed (use open_run_closed in \<open>auto simp: reasm_tracks_def open_run_First reasm_reset_def\<close>)

lemma reasm_run_tracks:
  "reasm_tracks hist r \<Longrightarrow> reasm_tracks (hist @ fs) (fst (reasm_run r fs))"
proof (induction fs arbitrary: hist r)
  case (Cons f fs)
  obtain role p disc where f: "f = (role, p, disc)" by (cases f)
  show ?case using Cons.IH [OF reasm_push_tracks [OF Cons.prems, of role p disc]]
    by (simp add: f Let_def case_prod_beta)
qed simp

lemma reasm_last:
  assumes "reasm_tracks hist r"
  shows "snd (reasm_push Last p disc r) = Some q \<longleftrightarrow>
    \<not> disc \<and> (\<exists>b n. open_run hist b n \<and> n < 64 \<and> q = b @ p)"
proof (cases "ra_active r")
  case True
  then have "open_run hist b n \<longleftrightarrow> b = ra_buf r \<and> n = ra_count r" for b n
    using assms open_run_unique by (auto simp: reasm_tracks_def)
  then show ?thesis using True by (auto simp: max_reassembly_fragments_def)
next
  case False
  then show ?thesis using assms by (auto simp: reasm_tracks_def)
qed

lemma reasm_tracks_new: "reasm_tracks [] reasm_new"
  by (simp add: reasm_tracks_def reasm_new_def open_run_Nil)

section \<open>The sender's runs\<close>

lemma cut_step:
  assumes "0 < f" and "off < length p"
  shows "cut_fragments f p off =
    ((if off = 0 then First else if length p \<le> off + f then Last else Middle), take f (drop off p))
      # cut_fragments f p (min (off + f) (length p))"
proof -
  have "take (min (off + f) (length p) - off) (drop off p) = take f (drop off p)"
    using assms by (simp add: min_def)
  moreover have "(min (off + f) (length p) = length p) = (length p \<le> off + f)" by auto
  ultimately show ?thesis using assms by (subst cut_fragments.simps) (simp add: Let_def)
qed

lemma cut_end [simp]: "cut_fragments f p (length p) = []"
  by (subst cut_fragments.simps) simp

definition undamaged :: "(frag_role \<times> bytes) list \<Rightarrow> fragment list" where
  "undamaged fs = map (\<lambda>(role, p). (role, p, False)) fs"

lemma reasm_rest:
  "0 < f \<Longrightarrow> 0 < off \<Longrightarrow> off < length p \<Longrightarrow> ra_active r \<Longrightarrow> ra_buf r = take off p \<Longrightarrow>
   ra_count r \<le> 64 \<Longrightarrow> length p - off \<le> f * (64 - ra_count r) \<Longrightarrow>
   reasm_run r (undamaged (cut_fragments f p off)) = (reasm_reset r, [p])"
proof (induction "length p - off" arbitrary: off r rule: less_induct)
  case less
  have count: "ra_count r < 64" using less.prems by (cases "ra_count r = 64") auto
  show ?case
  proof (cases "length p \<le> off + f")
    case True
    then have "cut_fragments f p off = [(Last, drop off p)]"
      using cut_step [OF less.prems(1,3)] less.prems(2) by simp
    then show ?thesis using less.prems count
      by (simp add: undamaged_def max_reassembly_fragments_def append_take_drop_id)
  next
    case False
    define r' where "r' = r\<lparr>ra_buf := take (off + f) p, ra_count := ra_count r + 1\<rparr>"
    have "length p - (off + f) \<le> f * (64 - ra_count r')"
    proof -
      have "f * (64 - ra_count r) = f + f * (64 - ra_count r')"
        proof -
        have "64 - ra_count r = Suc (64 - ra_count r')" using count by (simp add: r'_def)
        then show ?thesis by simp
      qed
      then show ?thesis using less.prems(7) by linarith
    qed
    then have "reasm_run r' (undamaged (cut_fragments f p (off + f))) = (reasm_reset r', [p])"
      using less.prems False count by (intro less.hyps) (simp_all add: r'_def)
    moreover have "cut_fragments f p off = (Middle, take f (drop off p)) # cut_fragments f p (off + f)"
      using cut_step [OF less.prems(1,3)] less.prems(2) False by simp
    moreover have "reasm_push Middle (take f (drop off p)) False r = (r', None)"
      using less.prems count by (simp add: r'_def max_reassembly_fragments_def take_add)
    ultimately show ?thesis by (simp add: undamaged_def reasm_reset_def r'_def)
  qed
qed

lemma adv_push_app_run:
  assumes "send_too_large f p = None"
  shows "snd (reasm_run r (undamaged (adv_push_app Split_Off f p))) = [p]"
proof (cases "f = 0 \<or> length p \<le> f")
  case True
  then show ?thesis by (simp add: adv_push_app_def undamaged_def)
next
  case False
  define r' where "r' = r\<lparr>ra_buf := take f p, ra_active := True, ra_count := 1\<rparr>"
  from assms False have "length p \<le> f * 64"
    by (simp add: send_too_large_def max_fragments_per_write_def max_reassembly_fragments_def split: if_splits)
  then have "length p - f \<le> f * (64 - ra_count r')" by (simp add: r'_def)
  then have "reasm_run r' (undamaged (cut_fragments f p f)) = (reasm_reset r', [p])"
    using False by (intro reasm_rest) (simp_all add: r'_def)
  moreover have "cut_fragments f p 0 = (First, take f p) # cut_fragments f p f"
    using cut_step [of f 0 p] False by (cases p) (auto simp: min_def)
  moreover have "reasm_push First (take f p) False r = (r', None)" by (simp add: r'_def)
  ultimately show ?thesis using False by (simp add: adv_push_app_def undamaged_def)
qed

lemma undamaged_append: "undamaged (xs @ ys) = undamaged xs @ undamaged ys"
  by (simp add: undamaged_def)

section \<open>Properties\<close>

text \<open>What the reassembler hands on when a \<^verbatim>\<open>Last\<close> fragment arrives is determined by the whole history
  of deliveries: it yields a payload exactly when that fragment has no gap before it and follows, at the end of
  the history, a \<^verbatim>\<open>First\<close> and then at most 62 \<^verbatim>\<open>Middle\<close>s none of which has a gap before it; and the payload is the
  concatenation of that run. A broken, unopened or over-long run yields nothing.\<close>

theorem reassembler_exact:
  "snd (reasm_push Last p disc (fst (reasm_run reasm_new hist))) = Some q \<longleftrightarrow>
     \<not> disc \<and> (\<exists>b n. open_run hist b n \<and> n < 64 \<and> q = b @ p)"
  using reasm_last reasm_run_tracks [OF reasm_tracks_new, of hist] by simp

text \<open>Fragmentation loses nothing: if \<^verbatim>\<open>Sender::send\<close> accepts every write (none longer than 64
  fragments), the fragments \<^verbatim>\<open>push_app\<close> cuts them into, delivered in order without gaps to a
  reassembler in any state, give back exactly the payloads written, one for one.\<close>

theorem fragments_roundtrip:
  assumes "\<forall>p\<in>set ps. send_too_large f p = None"
  shows "snd (reasm_run r (undamaged (concat (map (adv_push_app Split_Off f) ps)))) = ps"
  using assms
proof (induction ps arbitrary: r)
  case Nil
  then show ?case by (simp add: undamaged_def)
next
  case (Cons p ps)
  then show ?case using adv_push_app_run [of f p r]
    by (simp add: undamaged_append reasm_run_append Let_def case_prod_beta)
qed

theorem fragments_roundtrip_witness:
  "snd (reasm_run reasm_new (undamaged (concat (map (adv_push_app Split_Off 2) [[1, 2, 3, 4, 5], [6], [7, 8, 9]]))))
     = [[1, 2, 3, 4, 5], [6], [7, 8, 9]]"
  by (rule fragments_roundtrip)
    (simp add: send_too_large_def max_fragments_per_write_def max_reassembly_fragments_def)

end
