(* ===== verification/Host_Fec.thy ===== *)
theory Host_Fec
  imports Codec_Adv Flow_Core Fec_Encoder Fec_Decoder Fec_Header Fragments
begin

text \<open>
  The host side of forward error correction (\<^verbatim>\<open>rist/src/fec.rs\<close>) and the parts of the drivers that
  carry it: the public configuration and its validation, the engine of a flow (encoder, decoder, carriage state),
  the in-band carriage of the Advanced profile (\<^verbatim>\<open>driver_adv.rs\<close>: control messages, fragmented) and the
  separate-port carriage of the Simple and Main profiles (\<^verbatim>\<open>driver.rs\<close>, \<^verbatim>\<open>driver_main.rs\<close>: RTP on
  the media port plus 2 or 4). Sending on a socket is the list of datagrams sent; re-injecting recovered packets is
  the list of them; \<open>None\<close> is a panic.
\<close>

section \<open>Constants and configuration\<close>

definition fec_pt :: u8 where "fec_pt = 127"
definition fec_max_ctrl_body :: nat where "fec_max_ctrl_body = 1400"
definition fec_column_port_offset :: u16 where "fec_column_port_offset = 2"
definition fec_row_port_offset :: u16 where "fec_row_port_offset = 4"
definition fec_rtp_payload_size :: nat where "fec_rtp_payload_size = 1500"
definition fec_adv_payload_size :: nat where "fec_adv_payload_size = 2048"

datatype profile = Profile_Simple | Profile_Main | Profile_Advanced

datatype fec_carriage = Carriage_Default | Carriage_In_Band | Carriage_Separate_Ports

record host_fec_config =
  hc_columns :: nat
  hc_rows :: nat
  hc_column_only :: bool
  hc_carriage :: fec_carriage
  hc_variant :: fec_variant

definition host_fec_default :: host_fec_config where
  "host_fec_default =
     \<lparr>hc_columns = 10, hc_rows = 10, hc_column_only = False, hc_carriage = Carriage_Default, hc_variant = St20221\<rparr>"

fun carriage_separate_ports :: "fec_carriage \<Rightarrow> profile \<Rightarrow> bool" where
  "carriage_separate_ports Carriage_Default prof \<longleftrightarrow> prof \<noteq> Profile_Advanced"
| "carriage_separate_ports Carriage_In_Band prof \<longleftrightarrow> False"
| "carriage_separate_ports Carriage_Separate_Ports prof \<longleftrightarrow> True"

definition resolved_separate_ports :: "host_fec_config \<Rightarrow> profile \<Rightarrow> bool" where
  "resolved_separate_ports cfg prof = carriage_separate_ports (hc_carriage cfg) prof"

datatype fec_config_error = Fec_Invalid string

fun matrix_limits :: "fec_variant \<Rightarrow> nat \<times> nat \<times> nat" where
  "matrix_limits St20221 = (20, 20, 100)"
| "matrix_limits St20225 = (1020, 255, 6000)"

definition fec_validate :: "host_fec_config \<Rightarrow> profile \<Rightarrow> fec_config_error + unit" where
  "fec_validate cfg prof =
     (let (max_l, max_d, max_matrix) = matrix_limits (hc_variant cfg);
          min_l = (if hc_column_only cfg then 1 else 4)
      in if hc_columns cfg < min_l \<or> max_l < hc_columns cfg
         then Inl (Fec_Invalid ''FEC columns (L) out of range for the variant'')
         else if hc_rows cfg < 4 \<or> max_d < hc_rows cfg
         then Inl (Fec_Invalid ''FEC rows (D) out of range for the variant'')
         else if max_matrix < hc_columns cfg * hc_rows cfg
         then Inl (Fec_Invalid ''FEC matrix L*D exceeds the variant limit'')
         else if hc_carriage cfg = Carriage_In_Band \<and> prof \<noteq> Profile_Advanced
         then Inl (Fec_Invalid ''in-band FEC carriage requires the Advanced profile'')
         else Inr ())"

section \<open>The reassembler of control fragments\<close>

record ctrl_reassembler =
  cr_reasm :: reassembler
  cr_last_seq :: u32
  cr_have_seq :: bool

definition ctrl_reasm_new :: ctrl_reassembler where
  "ctrl_reasm_new = \<lparr>cr_reasm = reasm_new, cr_last_seq = 0, cr_have_seq = False\<rparr>"

definition ctrl_reasm_push ::
    "u32 \<Rightarrow> frag_role \<Rightarrow> bytes \<Rightarrow> ctrl_reassembler \<Rightarrow> ctrl_reassembler \<times> bytes option" where
  "ctrl_reasm_push s role payload r =
     (let discontinuity = (cr_have_seq r \<and> s \<noteq> cr_last_seq r + 1);
          (inner, out) = reasm_push role payload discontinuity (cr_reasm r)
      in (r\<lparr>cr_last_seq := s, cr_have_seq := True, cr_reasm := inner\<rparr>, out))"

section \<open>The engine of a flow\<close>

record fec_state =
  fs_core_cfg :: fec_config
  fs_variant :: fec_variant
  fs_payload_size :: nat
  fs_enc :: "fec_encoder option"
  fs_dec :: "fec_decoder option"
  fs_col_seq :: u16
  fs_row_seq :: u16
  fs_ctrl_reasm :: ctrl_reassembler
  fs_recovered :: nat

definition host_core_config :: "host_fec_config \<Rightarrow> fec_config" where
  "host_core_config cfg =
     \<lparr>fc_cols = hc_columns cfg, fc_rows = hc_rows cfg, fc_column_only = hc_column_only cfg,
      fc_variant = hc_variant cfg\<rparr>"

definition fec_payload_size :: "profile \<Rightarrow> nat" where
  "fec_payload_size prof = (if prof = Profile_Advanced then fec_adv_payload_size else fec_rtp_payload_size)"

definition fs_new :: "host_fec_config \<Rightarrow> profile \<Rightarrow> fec_state" where
  "fs_new cfg prof =
     \<lparr>fs_core_cfg = host_core_config cfg, fs_variant = hc_variant cfg, fs_payload_size = fec_payload_size prof,
      fs_enc = None, fs_dec = None, fs_col_seq = 0, fs_row_seq = 0, fs_ctrl_reasm = ctrl_reasm_new,
      fs_recovered = 0\<rparr>"

definition fs_clip :: "u32 \<Rightarrow> u32 \<Rightarrow> u8 \<Rightarrow> bytes \<Rightarrow> fec_state \<Rightarrow> fec_state \<times> fec_packet list" where
  "fs_clip s ts pt payload f =
     (let e = (case fs_enc f of Some e \<Rightarrow> e | None \<Rightarrow> encoder_new (fs_core_cfg f) (fs_payload_size f) s);
          (e, out) = encoder_push e s ts pt payload
      in (f\<lparr>fs_enc := Some e\<rparr>, out))"

definition fs_recv_media ::
    "u32 \<Rightarrow> u32 \<Rightarrow> u8 \<Rightarrow> u32 \<Rightarrow> bytes \<Rightarrow> fec_state \<Rightarrow> fec_state \<times> recovered list" where
  "fs_recv_media s ts pt ssrc payload f =
     (let d = (case fs_dec f of Some d \<Rightarrow> d | None \<Rightarrow> decoder_new (fs_core_cfg f) (fs_payload_size f) s);
          (d, out) = push_media s ts pt ssrc payload d
      in (f\<lparr>fs_dec := Some d, fs_recovered := fs_recovered f + length out\<rparr>, out))"

definition fs_recv_fec :: "bytes \<Rightarrow> fec_state \<Rightarrow> (fec_state \<times> recovered list) option" where
  "fs_recv_fec body f =
     (case fs_dec f of
        None \<Rightarrow> Some (f, [])
      | Some d \<Rightarrow>
          case fec_decode body (fs_variant f) of
            None \<Rightarrow> None
          | Some (Inl e) \<Rightarrow> Some (f, [])
          | Some (Inr pkt) \<Rightarrow>
              let (d, out) = push_fec pkt d
              in Some (f\<lparr>fs_dec := Some d, fs_recovered := fs_recovered f + length out\<rparr>, out))"

definition fs_ctrl_reasm_push ::
    "u32 \<Rightarrow> frag_role \<Rightarrow> bytes \<Rightarrow> fec_state \<Rightarrow> fec_state \<times> bytes option" where
  "fs_ctrl_reasm_push s role payload f =
     (let (r, out) = ctrl_reasm_push s role payload (fs_ctrl_reasm f) in (f\<lparr>fs_ctrl_reasm := r\<rparr>, out))"

definition fs_next_col_seq :: "fec_state \<Rightarrow> fec_state \<times> u16" where
  "fs_next_col_seq f = (f\<lparr>fs_col_seq := fs_col_seq f + 1\<rparr>, fs_col_seq f)"

definition fs_next_row_seq :: "fec_state \<Rightarrow> fec_state \<times> u16" where
  "fs_next_row_seq f = (f\<lparr>fs_row_seq := fs_row_seq f + 1\<rparr>, fs_row_seq f)"

section \<open>In-band carriage (Advanced)\<close>

fun fec_ci :: "fec_variant \<Rightarrow> fec_direction \<Rightarrow> u16" where
  "fec_ci St20221 Row = adv_ci_fec_2022_1_row"
| "fec_ci St20221 Column = adv_ci_fec_2022_1_col"
| "fec_ci St20225 Row = adv_ci_fec_2022_5_row"
| "fec_ci St20225 Column = adv_ci_fec_2022_5_col"

fun is_fec_ci :: "u16 \<Rightarrow> fec_variant \<Rightarrow> bool" where
  "is_fec_ci ci St20221 \<longleftrightarrow> ci = adv_ci_fec_2022_1_row \<or> ci = adv_ci_fec_2022_1_col"
| "is_fec_ci ci St20225 \<longleftrightarrow> ci = adv_ci_fec_2022_5_row \<or> ci = adv_ci_fec_2022_5_col"

definition adv_ctrl_ts :: "timestamp \<Rightarrow> u32" where
  "adv_ctrl_ts now = ucast (push_bit 16 (of_nat now :: u64))"

text \<open>The datagrams of one control message; a fragment that cannot be framed is skipped.\<close>

definition send_framed :: "(adv_codec, codec_error, bytes) st_result \<Rightarrow> (adv_codec \<times> bytes list) option" where
  "send_framed m = (case m of None \<Rightarrow> None | Some (c, Inl e) \<Rightarrow> Some (c, []) | Some (c, Inr dg) \<Rightarrow> Some (c, [dg]))"

function send_ctrl_fragments :: "u32 \<Rightarrow> bytes \<Rightarrow> nat \<Rightarrow> adv_codec \<Rightarrow> (adv_codec \<times> bytes list) option" where
  "send_ctrl_fragments ts body off c =
     (if length body \<le> off then Some (c, [])
      else
        let e = min (off + fec_max_ctrl_body) (length body) in
        do {
          chunk \<leftarrow> vec_slice body off e;
          (c, dgs) \<leftarrow> send_framed (av_frame_control_frag chunk (off = 0) (e = length body) ts c);
          (c, rest) \<leftarrow> send_ctrl_fragments ts body e c;
          Some (c, dgs @ rest)
        })"
  by auto
termination
  by (relation "measure (\<lambda>(ts, body, off, c). length body - off)") (auto simp: fec_max_ctrl_body_def)

declare send_ctrl_fragments.simps [simp del]

definition send_fec_message :: "u32 \<Rightarrow> fec_variant \<Rightarrow> fec_packet \<Rightarrow> adv_codec \<Rightarrow> (adv_codec \<times> bytes list) option" where
  "send_fec_message ts variant fp c =
     do {
       fec_bytes \<leftarrow> fec_encode fp variant;
       let body = build_control (fec_ci variant (fp_direction fp)) fec_bytes;
       if length body \<le> fec_max_ctrl_body
       then send_framed (av_frame_control_frag body True True ts c)
       else send_ctrl_fragments ts body 0 c
     }"

fun send_fec_messages ::
    "u32 \<Rightarrow> fec_variant \<Rightarrow> fec_packet list \<Rightarrow> adv_codec \<Rightarrow> (adv_codec \<times> bytes list) option" where
  "send_fec_messages ts variant [] c = Some (c, [])"
| "send_fec_messages ts variant (fp # fps) c =
     do {
       (c, dgs) \<leftarrow> send_fec_message ts variant fp c;
       (c, rest) \<leftarrow> send_fec_messages ts variant fps c;
       Some (c, dgs @ rest)
     }"

text \<open>\<open>known\<close>: the peer's media address is known.\<close>

definition send_fec_adv ::
    "timestamp \<Rightarrow> bool \<Rightarrow> bytes \<Rightarrow> u32 \<Rightarrow> fec_state option \<Rightarrow> adv_codec
     \<Rightarrow> (fec_state option \<times> adv_codec \<times> bytes list) option" where
  "send_fec_adv now known datagram s fec c =
     (if \<not> known then Some (fec, c, [])
      else case fec of
        None \<Rightarrow> Some (None, c, [])
      | Some f \<Rightarrow>
          let (f, fps) = fs_clip s 0 0 datagram f in
          if fps = [] then Some (Some f, c, [])
          else do {
            (c, dgs) \<leftarrow> send_fec_messages (adv_ctrl_ts now) (fs_variant f) fps c;
            Some (Some f, c, dgs)
          })"

text \<open>Whether the datagram was consumed as FEC, and what it made FEC recover.\<close>

definition try_fec_control :: "adv_parsed \<Rightarrow> fec_state \<Rightarrow> (fec_state \<times> bool \<times> recovered list) option" where
  "try_fec_control p f =
     (if \<not> pp_first_frag p \<or> \<not> pp_last_frag p then
        let (f, out) = fs_ctrl_reasm_push (pp_seq p) (flags_to_frag (pp_first_frag p) (pp_last_frag p)) (pp_payload p) f
        in (case out of
              None \<Rightarrow> Some (f, True, [])
            | Some full \<Rightarrow>
                case parse_control full of
                  None \<Rightarrow> None
                | Some (Inl e) \<Rightarrow> Some (f, True, [])
                | Some (Inr (ci, body)) \<Rightarrow>
                    if \<not> is_fec_ci ci (fs_variant f) then Some (f, True, [])
                    else do { (f, rs) \<leftarrow> fs_recv_fec body f; Some (f, True, rs) })
      else
        case parse_control (pp_payload p) of
          None \<Rightarrow> None
        | Some (Inl e) \<Rightarrow> Some (f, False, [])
        | Some (Inr (ci, body)) \<Rightarrow>
            if \<not> is_fec_ci ci (fs_variant f) then Some (f, False, [])
            else do { (f, rs) \<leftarrow> fs_recv_fec body f; Some (f, True, rs) })"

section \<open>Separate-port carriage (Simple and Main)\<close>

text \<open>The RTP packet around a FEC packet, and the port it goes to.\<close>

definition fec_rtp :: "u16 \<Rightarrow> u32 \<Rightarrow> bytes \<Rightarrow> rtp_packet" where
  "fec_rtp rtp_seq ssrc fec_bytes =
     \<lparr>rp_header = rtp_header_default\<lparr>rh_version := rtp_version, rh_payload_type := fec_pt,
        rh_sequence_number := rtp_seq, rh_ssrc := ssrc\<rparr>,
      rp_payload = fec_bytes, rp_padding_size = 0\<rparr>"

definition fec_port_step :: "fec_direction \<Rightarrow> fec_state \<Rightarrow> fec_state \<times> u16 \<times> u16" where
  "fec_port_step dir f =
     (case dir of
        Column \<Rightarrow> (let (f, s) = fs_next_col_seq f in (f, s, fec_column_port_offset))
      | Row \<Rightarrow> (let (f, s) = fs_next_row_seq f in (f, s, fec_row_port_offset)))"

fun send_fec_rtp ::
    "u16 \<Rightarrow> u32 \<Rightarrow> fec_variant \<Rightarrow> fec_packet list \<Rightarrow> fec_state \<Rightarrow> (fec_state \<times> (u16 \<times> bytes) list) option" where
  "send_fec_rtp port ssrc variant [] f = Some (f, [])"
| "send_fec_rtp port ssrc variant (fp # fps) f =
     (let (f, rtp_seq, port_off) = fec_port_step (fp_direction fp) f in
      do {
        fec_bytes \<leftarrow> fec_encode fp variant;
        r \<leftarrow> packet_encode (fec_rtp rtp_seq ssrc fec_bytes);
        (f, rest) \<leftarrow> send_fec_rtp port ssrc variant fps f;
        Some (f, (case r of Inl e \<Rightarrow> rest | Inr dg \<Rightarrow> (port + port_off, dg) # rest))
      })"

text \<open>The port of the peer's media address, if it is known; the payload is the packet's, or on the Main
  profile the canonical form its null packets are restored to.\<close>

definition send_fec_over ::
    "u16 option \<Rightarrow> u32 \<Rightarrow> media_packet \<Rightarrow> bytes \<Rightarrow> fec_state \<Rightarrow> (fec_state \<times> (u16 \<times> bytes) list) option" where
  "send_fec_over dst ssrc pkt payload f =
     (case dst of
        None \<Rightarrow> Some (f, [])
      | Some port \<Rightarrow>
          let (f, fps) = fs_clip (mp_seq pkt) (rtp_ts_from_source (mp_source_time pkt)) fec_pt payload f
          in send_fec_rtp port ssrc (fs_variant f) fps f)"

definition send_fec_simple ::
    "u16 option \<Rightarrow> u32 \<Rightarrow> media_packet \<Rightarrow> fec_state option \<Rightarrow> (fec_state option \<times> (u16 \<times> bytes) list) option" where
  "send_fec_simple dst ssrc pkt fec =
     (case fec of
        None \<Rightarrow> Some (None, [])
      | Some f \<Rightarrow> do { (f, sent) \<leftarrow> send_fec_over dst ssrc pkt (mp_payload pkt) f; Some (Some f, sent) })"

definition send_fec_main ::
    "u16 option \<Rightarrow> u32 \<Rightarrow> media_packet \<Rightarrow> main_codec \<Rightarrow> fec_state option
     \<Rightarrow> (fec_state option \<times> (u16 \<times> bytes) list) option" where
  "send_fec_main dst ssrc pkt c fec =
     (if dst = None then Some (fec, [])
      else case fec of
        None \<Rightarrow> Some (None, [])
      | Some f \<Rightarrow>
          do {
            fpay \<leftarrow> mc_fec_payload (mp_payload pkt) c;
            (f, sent) \<leftarrow> send_fec_over dst ssrc pkt fpay f;
            Some (Some f, sent)
          })"

definition on_fec_rtp :: "bytes \<Rightarrow> fec_state option \<Rightarrow> (fec_state option \<times> recovered list) option" where
  "on_fec_rtp data fec =
     (case packet_decode data of
        None \<Rightarrow> None
      | Some (Inl e) \<Rightarrow> Some (fec, [])
      | Some (Inr p) \<Rightarrow>
          case fec of
            None \<Rightarrow> Some (None, [])
          | Some f \<Rightarrow> do { (f, rs) \<leftarrow> fs_recv_fec (rp_payload p) f; Some (Some f, rs) })"

text \<open>The media packet a recovery enters the flow as: its source time is read off the decoder's reference
  without moving it.\<close>

definition recovered_media :: "recovered \<Rightarrow> media_decoder \<Rightarrow> media_packet" where
  "recovered_media r d =
     \<lparr>mp_seq = rc_seq r, mp_source_time = md_source_time (rc_timestamp r) d, mp_ssrc = rc_ssrc r,
      mp_payload = rc_payload r, mp_retransmit = False, mp_path_id = 0, mp_frag = Standalone,
      mp_virt_src_port = 0, mp_virt_dst_port = 0, mp_short_seq = True\<rparr>"

fun feed_recovered :: "timestamp \<Rightarrow> recovered list \<Rightarrow> media_decoder \<Rightarrow> flow \<Rightarrow> flow option" where
  "feed_recovered now [] d fl = Some fl"
| "feed_recovered now (r # rs) d fl =
     do { fl \<leftarrow> feed fl now 0 (recovered_media r d); feed_recovered now rs d fl }"

end
