(* ===== verification/Host_Fec_Props.thy ===== *)
theory Host_Fec_Props
  imports Host_Fec Fec_Props Adv_Props Codec_Simple_Props
begin

text \<open>
  What the host's forward error correction guarantees: a validated matrix fits the wire, a parity packet
  survives either carriage and repairs a loss at the other end; and what goes wrong when a member of the group
  arrived as a retransmission.
\<close>

section \<open>A validated configuration\<close>

lemma fec_validate_ok:
  assumes "fec_validate cfg prof = Inr ()"
  shows "4 \<le> hc_rows cfg" "hc_rows cfg \<le> 255" "hc_columns cfg \<le> 1020" "1 \<le> hc_columns cfg"
    "\<not> hc_column_only cfg \<Longrightarrow> 4 \<le> hc_columns cfg" "hc_columns cfg * hc_rows cfg \<le> 6000"
    "hc_variant cfg = St20221 \<Longrightarrow> hc_columns cfg \<le> 20"
  using assms by (cases "hc_variant cfg"; auto simp: fec_validate_def Let_def split: if_splits)+

lemma validated_core:
  assumes "fec_validate cfg prof = Inr ()"
  shows "fec_config_ok (host_core_config cfg)" "fc_cols (host_core_config cfg) < 2 ^ 10"
    "fc_rows (host_core_config cfg) < 2 ^ 10"
  using fec_validate_ok [OF assms]
  by (simp_all add: fec_config_ok_def host_core_config_def matrix_size_def)

lemma sizes_fit: "fec_payload_size prof < 2 ^ 16" "fec_payload_size Profile_Advanced = 2048"
  by (simp_all add: fec_payload_size_def fec_adv_payload_size_def fec_rtp_payload_size_def)

section \<open>The engine runs the core encoder\<close>

fun fs_clip_run :: "fec_state \<Rightarrow> u32 \<Rightarrow> media list \<Rightarrow> fec_state \<times> fec_packet list" where
  "fs_clip_run f s [] = (f, [])"
| "fs_clip_run f s ((ts, pt, p) # ms) =
     (let (f1, out1) = fs_clip s ts pt p f; (f2, out2) = fs_clip_run f1 (s + 1) ms in (f2, out1 @ out2))"

lemma fs_clip_run_started:
  "fs_enc f = Some e \<Longrightarrow> snd (fs_clip_run f s ms) = snd (encoder_run e s ms)"
proof (induction ms arbitrary: f e s)
  case (Cons m ms)
  obtain ts pt p where m: "m = (ts, pt, p)" by (cases m)
  obtain e1 out where e1: "encoder_push e s ts pt p = (e1, out)" by force
  have "snd (fs_clip_run (f\<lparr>fs_enc := Some e1\<rparr>) (s + 1) ms) = snd (encoder_run e1 (s + 1) ms)"
    by (rule Cons.IH) simp
  then show ?case using Cons.prems e1 by (simp add: m fs_clip_def Let_def split_def)
qed simp

lemma fs_clip_run_new:
  "snd (fs_clip_run (fs_new cfg prof) isn ms)
     = snd (encoder_run (encoder_new (host_core_config cfg) (fec_payload_size prof) isn) isn ms)"
proof (cases ms)
  case (Cons m rest)
  obtain ts pt p where m: "m = (ts, pt, p)" by (cases m)
  let ?e = "encoder_new (host_core_config cfg) (fec_payload_size prof) isn"
  let ?f = "(fs_new cfg prof)\<lparr>fs_enc := Some ?e\<rparr>"
  have "snd (fs_clip_run (fs_new cfg prof) isn ms) = snd (fs_clip_run ?f isn ms)"
    by (simp add: Cons m fs_clip_def fs_new_def Let_def split_def)
  then show ?thesis using fs_clip_run_started [of ?f ?e isn ms] by simp
qed simp

section \<open>The wire form of a parity packet\<close>

text \<open>The base loses its high bits; ST 2022-5 has no direction bit, so a reader takes stride 1 for a row.\<close>

definition wire_direction :: "fec_variant \<Rightarrow> fec_packet \<Rightarrow> fec_direction" where
  "wire_direction v p = (case v of St20221 \<Rightarrow> fp_direction p | St20225 \<Rightarrow> if fp_offset p = 1 then Row else Column)"

definition wire_form :: "fec_variant \<Rightarrow> fec_packet \<Rightarrow> fec_packet" where
  "wire_form v p = p\<lparr>fp_base := fp_base p AND base_mask v, fp_direction := wire_direction v p\<rparr>"

lemma fec_layout_direction: "fec_layout (p\<lparr>fp_direction := wire_direction v p\<rparr>) v = fec_layout p v"
  by (cases v) (simp_all add: fec_layout_def wire_direction_def)

lemma fec_decode_encoded:
  assumes "fp_pt_recovery p \<le> 0x7f" "fp_offset p \<le> hdr_na10_max" "fp_na p \<le> hdr_na10_max"
    and "v = St20221 \<Longrightarrow> fp_offset p \<le> 0xff \<and> fp_na p \<le> 0xff"
  shows "fec_decode (fec_layout p v @ fp_payload p) v = Some (Inr (wire_form v p))"
proof -
  let ?p = "p\<lparr>fp_direction := wire_direction v p\<rparr>"
  have "fec_fits ?p v" using assms by (cases v) (auto simp: fec_fits_def wire_direction_def)
  from fec_decode_layout [OF this] show ?thesis by (simp add: fec_layout_direction wire_form_def)
qed

lemma push_fec_wire_form: "push_fec (wire_form v p) d = push_fec (p\<lparr>fp_base := fp_base p AND base_mask v\<rparr>) d"
  by (cases p) (simp add: push_fec_def wire_form_def Let_def split_def)

lemma xor_sum_seven: "xor_sum (\<lambda>x. g x AND 0x7f) xs \<le> (0x7f :: u8)"
  using word_and_le1 [of "xor_sum (\<lambda>x. g x AND 0x7f) xs" "0x7f"] by (simp add: xor_sum_masked)

text \<open>What an encoder of a validated configuration emits.\<close>

lemma emitted_fields:
  assumes cfg: "fec_validate cfg prof = Inr ()"
    and pkt: "pkt \<in> set (snd (fs_clip_run (fs_new cfg prof) isn ps))"
  shows "length (fp_payload pkt) = fec_payload_size prof" "1 < fp_na pkt"
    "fec_decode (fec_layout pkt (hc_variant cfg) @ fp_payload pkt) (hc_variant cfg)
       = Some (Inr (wire_form (hc_variant cfg) pkt))"
proof -
  have ok: "fec_config_ok (host_core_config cfg)" by (rule validated_core [OF cfg])
  have "covers (host_core_config cfg) (fec_payload_size prof) isn ps pkt"
    using encoder_run_covers [OF ok] pkt by (simp add: fs_clip_run_new)
  then obtain b stride count where c: "matrix_group (host_core_config cfg) stride count"
      "protects pkt (fec_payload_size prof) isn ps b stride count"
    by (auto simp: covers_def)
  note p = c(2) [unfolded protects_def Let_def]
  show "length (fp_payload pkt) = fec_payload_size prof" using p by simp
  have range: "stride \<le> 1020" "count \<le> 1020" "4 \<le> count"
      "hc_variant cfg = St20221 \<Longrightarrow> stride \<le> 255 \<and> count \<le> 255"
    using c(1) fec_validate_ok [OF cfg] by (auto simp: matrix_group_def host_core_config_def)
  then have u: "unat (fp_offset pkt) = stride" "unat (fp_na pkt) = count"
    using p by (simp_all add: unat_of_nat)
  show "1 < fp_na pkt" using u range by (simp add: word_less_nat_alt)
  have "fp_pt_recovery pkt \<le> 0x7f" using p by (simp add: split_def xor_sum_seven)
  moreover have "fp_offset pkt \<le> hdr_na10_max" "fp_na pkt \<le> hdr_na10_max"
    using u range by (simp_all add: word_le_nat_alt hdr_na10_max_def)
  moreover have "hc_variant cfg = St20221 \<Longrightarrow> fp_offset pkt \<le> 0xff \<and> fp_na pkt \<le> 0xff"
    using u range by (simp add: word_le_nat_alt)
  ultimately show "fec_decode (fec_layout pkt (hc_variant cfg) @ fp_payload pkt) (hc_variant cfg)
       = Some (Inr (wire_form (hc_variant cfg) pkt))" by (rule fec_decode_encoded)
qed

text \<open>A validated FEC configuration fits its wire format. Whatever is clipped, every parity packet the
  engine of a validated matrix emits is encoded without panic in 16 bytes more than the profile's buffer
  (1500 or 2048 bytes, however short the media), and decoding gives back its matrix geometry, its recovery fields and its
  payload; the base comes back cut to the header's bits and the direction, which ST 2022-5 does not carry, as
  row exactly when the stride is 1.\<close>

theorem validated_fec_fits_wire:
  assumes "fec_validate cfg prof = Inr ()"
    and "pkt \<in> set (snd (fs_clip_run (fs_new cfg prof) isn ps))"
  shows "\<exists>b. fec_encode pkt (hc_variant cfg) = Some b \<and> length b = 16 + fec_payload_size prof
    \<and> fec_decode b (hc_variant cfg) = Some (Inr (wire_form (hc_variant cfg) pkt))"
  using emitted_fields [OF assms] fec_encode_layout by simp

section \<open>In-band carriage\<close>

text \<open>The receiving end: what \<^verbatim>\<open>on_adv\<close> does with the control datagrams of a peer as long as they are FEC.\<close>

fun fec_receive :: "bytes list \<Rightarrow> fec_state \<Rightarrow> (fec_state \<times> recovered list) option" where
  "fec_receive [] f = Some (f, [])"
| "fec_receive (b # bs) f =
     (case adv_parse b of
        None \<Rightarrow> None
      | Some (Inl e) \<Rightarrow> fec_receive bs f
      | Some (Inr p) \<Rightarrow>
          if pp_enc_type p \<noteq> adv_type_control then fec_receive bs f
          else do {
            (f, consumed, rs) \<leftarrow> try_fec_control p f;
            (f, rest) \<leftarrow> fec_receive bs f;
            Some (f, rs @ rest)
          })"

lemma control_frag_framed:
  "\<exists>b. av_frame_control_frag m ff lf ts c = st_ok (c\<lparr>av_ctrl_seq := av_ctrl_seq c + 1\<rparr>) b
    \<and> adv_parse b = res_ok (adv_parsed_of (av_control_params ff lf ts c) m)"
proof -
  have "adv_fits (av_control_params ff lf ts c)"
    by (simp add: adv_fits_def av_control_params_def adv_params_default_def adv_type_control_def adv_psk_none_def
        adv_lpc_none_def adv_flow_fits_def adv_pfd_fits_def adv_array_fits_def adv_hdr_ext_fits_def)
  from adv_parse_build [OF this, of m] show ?thesis by (auto simp: av_frame_control_frag_def)
qed

lemma control_params_fields [simp]:
  "pp_first_frag (adv_parsed_of (av_control_params ff lf ts c) m) = ff"
  "pp_last_frag (adv_parsed_of (av_control_params ff lf ts c) m) = lf"
  "pp_seq (adv_parsed_of (av_control_params ff lf ts c) m) = av_ctrl_seq c"
  "pp_payload (adv_parsed_of (av_control_params ff lf ts c) m) = m"
  "pp_enc_type (adv_parsed_of (av_control_params ff lf ts c) m) = adv_type_control"
  by (simp_all add: adv_parsed_of_def av_control_params_def)

text \<open>A message of two fragments: what the sender makes of it, and the receiver.\<close>

lemma two_fragments_sent:
  assumes "fec_max_ctrl_body < length body" "length body \<le> 2 * fec_max_ctrl_body"
  obtains b1 b2 where
    "send_ctrl_fragments ts body 0 c = Some (c\<lparr>av_ctrl_seq := av_ctrl_seq c + 1 + 1\<rparr>, [b1, b2])"
    "adv_parse b1 = res_ok (adv_parsed_of (av_control_params True False ts c) (take fec_max_ctrl_body body))"
    "adv_parse b2 = res_ok (adv_parsed_of (av_control_params False True ts (c\<lparr>av_ctrl_seq := av_ctrl_seq c + 1\<rparr>))
       (drop fec_max_ctrl_body body))"
proof -
  let ?m = fec_max_ctrl_body and ?n = "length body"
  let ?c1 = "c\<lparr>av_ctrl_seq := av_ctrl_seq c + 1\<rparr>"
  have m: "0 < ?m" "body \<noteq> []" using assms by (auto simp: fec_max_ctrl_body_def)
  obtain b1 where b1: "av_frame_control_frag (take ?m body) True False ts c = st_ok ?c1 b1"
    "adv_parse b1 = res_ok (adv_parsed_of (av_control_params True False ts c) (take ?m body))"
    using control_frag_framed by blast
  obtain b2 where b2: "av_frame_control_frag (drop ?m body) False True ts ?c1
      = st_ok (?c1\<lparr>av_ctrl_seq := av_ctrl_seq ?c1 + 1\<rparr>) b2"
    "adv_parse b2 = res_ok (adv_parsed_of (av_control_params False True ts ?c1) (drop ?m body))"
    using control_frag_framed by blast
  have e: "min (0 + ?m) ?n = ?m" "min (?m + ?m) ?n = ?n" using assms by simp_all
  have s1: "vec_slice body 0 ?m = Some (take ?m body)" using assms by (simp add: vec_slice_def)
  have s2: "vec_slice body ?m ?n = Some (drop ?m body)" using assms by (simp add: vec_slice_def)
  have end_: "send_ctrl_fragments ts body ?n c2 = Some (c2, [])" for c2
    by (subst send_ctrl_fragments.simps) simp
  have second: "send_ctrl_fragments ts body ?m ?c1 = Some (c\<lparr>av_ctrl_seq := av_ctrl_seq c + 1 + 1\<rparr>, [b2])"
    using assms m b2(1) end_ by (subst send_ctrl_fragments.simps) (simp add: e s2 send_framed_def st_ok_def Let_def)
  have "send_ctrl_fragments ts body 0 c = Some (c\<lparr>av_ctrl_seq := av_ctrl_seq c + 1 + 1\<rparr>, [b1, b2])"
    using assms m b1(1) second
    by (subst send_ctrl_fragments.simps) (simp add: e(1) [simplified] s1 send_framed_def st_ok_def Let_def)
  with b1(2) b2(2) that show thesis by blast
qed

lemma two_fragments_received:
  assumes b: "adv_parse b1 = res_ok (adv_parsed_of (av_control_params True False ts c) x)"
    "adv_parse b2 = res_ok (adv_parsed_of (av_control_params False True ts (c\<lparr>av_ctrl_seq := av_ctrl_seq c + 1\<rparr>)) y)"
    and msg: "x @ y = build_control ci fb" "length fb < 65536" "is_fec_ci ci (fs_variant f)"
    and d: "fs_dec f = Some d" "fec_decode fb (fs_variant f) = Some (Inr pkt)"
  obtains f' where "fec_receive [b1, b2] f = Some (f', snd (push_fec pkt d))"
proof -
  let ?r = "fs_ctrl_reasm f"
  let ?r1 = "?r\<lparr>cr_last_seq := av_ctrl_seq c, cr_have_seq := True,
      cr_reasm := (cr_reasm ?r)\<lparr>ra_buf := x, ra_active := True, ra_count := 1\<rparr>\<rparr>"
  have p1: "try_fec_control (adv_parsed_of (av_control_params True False ts c) x) f
      = Some (f\<lparr>fs_ctrl_reasm := ?r1\<rparr>, True, [])"
    by (simp add: try_fec_control_def fs_ctrl_reasm_push_def ctrl_reasm_push_def Let_def)
  have parse: "parse_control (x @ y) = Some (Inr (ci, fb))"
    using parse_control_build [OF msg(2), of ci "[]"] by (simp add: msg(1) res_ok_def)
  have "\<exists>f'. try_fec_control
      (adv_parsed_of (av_control_params False True ts (c\<lparr>av_ctrl_seq := av_ctrl_seq c + 1\<rparr>)) y)
      (f\<lparr>fs_ctrl_reasm := ?r1\<rparr>) = Some (f', True, snd (push_fec pkt d))"
    using msg(3) d parse
    by (simp add: try_fec_control_def fs_ctrl_reasm_push_def ctrl_reasm_push_def Let_def
        max_reassembly_fragments_def fs_recv_fec_def split_def)
  then show thesis using p1 b that by (auto simp: res_ok_def)
qed

lemma fec_ci_matches: "is_fec_ci (fec_ci v dir) v"
  by (cases v; cases dir) simp_all

lemma inband_message_arrives:
  assumes cfg: "fec_validate cfg Profile_Advanced = Inr ()"
    and pkt: "pkt \<in> set (snd (fs_clip_run (fs_new cfg Profile_Advanced) isn ps))"
    and f: "fs_variant f = hc_variant cfg" "fs_dec f = Some d"
  obtains c' b1 b2 f' where "send_fec_message ts (hc_variant cfg) pkt c = Some (c', [b1, b2])"
    "fec_receive [b1, b2] f = Some (f', snd (push_fec (wire_form (hc_variant cfg) pkt) d))"
proof -
  let ?v = "hc_variant cfg"
  define fb where "fb = fec_layout pkt ?v @ fp_payload pkt"
  note e = emitted_fields [OF cfg pkt]
  have enc: "fec_encode pkt ?v = Some fb" by (simp add: fec_encode_layout fb_def)
  have len: "length fb = 2064" by (simp add: fb_def e(1) sizes_fit)
  let ?body = "build_control (fec_ci ?v (fp_direction pkt)) fb"
  have bl: "length ?body = 2068" by (simp add: build_control_def len)
  obtain b1 b2 where b: "send_ctrl_fragments ts ?body 0 c = Some (c\<lparr>av_ctrl_seq := av_ctrl_seq c + 1 + 1\<rparr>, [b1, b2])"
    "adv_parse b1 = res_ok (adv_parsed_of (av_control_params True False ts c) (take fec_max_ctrl_body ?body))"
    "adv_parse b2 = res_ok (adv_parsed_of (av_control_params False True ts (c\<lparr>av_ctrl_seq := av_ctrl_seq c + 1\<rparr>))
       (drop fec_max_ctrl_body ?body))"
    by (rule two_fragments_sent [of ?body ts c]) (simp_all add: bl fec_max_ctrl_body_def)
  have sent: "send_fec_message ts ?v pkt c = Some (c\<lparr>av_ctrl_seq := av_ctrl_seq c + 1 + 1\<rparr>, [b1, b2])"
    using b(1) by (simp add: send_fec_message_def enc bl fec_max_ctrl_body_def Let_def)
  have "fec_decode fb (fs_variant f) = Some (Inr (wire_form ?v pkt))" using e(3) f(1) by (simp add: fb_def)
  moreover have "length fb < 65536" "is_fec_ci (fec_ci ?v (fp_direction pkt)) (fs_variant f)"
    using len fec_ci_matches f(1) by simp_all
  ultimately obtain f' where "fec_receive [b1, b2] f = Some (f', snd (push_fec (wire_form ?v pkt) d))"
    using two_fragments_received [OF b(2,3) append_take_drop_id _ _ f(2)] by blast
  with sent show thesis by (rule that)
qed



section \<open>Separate-port carriage\<close>






section \<open>A member that arrived as a retransmission\<close>

text \<open>A retransmission is the datagram of the first transmission with one bit of its fifteenth byte set.\<close>

lemma or_low_bit: "(x :: u8) AND 1 = 0 \<or> x AND 1 = 1"
  by (cases "odd x") (simp_all add: and_one_eq odd_iff_mod_2_eq_one)

lemma flags_retransmit:
  assumes "\<not> ap_retransmit p"
  shows "adv_flags_byte (p\<lparr>ap_retransmit := True\<rparr>) = adv_flags_byte p XOR adv_flag_r"
proof -
  have b: "drop_bit 2 (ap_psk_mode p) AND adv_flag_psk2 = 0 \<or> drop_bit 2 (ap_psk_mode p) AND adv_flag_psk2 = 1"
    using or_low_bit by (simp only: adv_flag_psk2_def)
  show ?thesis
    unfolding adv_flags_byte_def Let_def adv_params.simps
    using b assms
    by (cases "ap_first_frag p"; cases "ap_last_frag p"; cases "ap_expedite p"; cases "ap_flow_id p = None";
        cases "ap_pfd p = None"; cases "ap_hdr_ext p = []")
      (auto simp: adv_flag_f_def adv_flag_l_def adv_flag_e_def adv_flag_r_def adv_flag_i_def adv_flag_p_def adv_flag_h_def)
qed

definition mark_at :: "nat \<Rightarrow> u8 \<Rightarrow> bytes \<Rightarrow> bytes" where
  "mark_at i m p = p[i := (p ! i) XOR m]"

lemma length_mark_at [simp]: "length (mark_at i m p) = length p"
  by (simp add: mark_at_def)

lemma byte_at_mark: "byte_at (mark_at i m p) j = byte_at p j XOR (if j = i \<and> i < length p then m else 0)"
  by (auto simp: byte_at_def mark_at_def nth_list_update)

lemma build_retransmit:
  assumes "adv_build q x = Inr b" "\<not> ap_retransmit q"
  shows "adv_build (q\<lparr>ap_retransmit := True\<rparr>) x = Inr (mark_at 14 adv_flag_r b)" "14 < length b"
proof -
  obtain pre post where b: "b = pre @ adv_flags_byte q # post" "length pre = 14"
    "adv_build (q\<lparr>ap_retransmit := True\<rparr>) x = Inr (pre @ adv_flags_byte (q\<lparr>ap_retransmit := True\<rparr>) # post)"
    using assms(1) that [of "[adv_rtp_flags, adv_payload_type] @ be16 (ucast (ap_seq q)) @ be32 (ap_timestamp q)
        @ be32 (ap_ssrc q) @ be16 (ucast (drop_bit 16 (ap_seq q)))"]
    by (auto simp: adv_build_def split_seq_def Let_def adv_params_byte_def be16_def be32_def split: if_splits)
  then show "adv_build (q\<lparr>ap_retransmit := True\<rparr>) x = Inr (mark_at 14 adv_flag_r b)" "14 < length b"
    by (simp_all add: mark_at_def flags_retransmit assms(2) nth_append list_update_append)
qed

lemma xor_sum_two:
  assumes "distinct ss" "t \<in> set ss" "s \<in> set ss" "t \<noteq> s"
    and "g t XOR g s = h t XOR h s" and "\<And>u. u \<noteq> t \<Longrightarrow> u \<noteq> s \<Longrightarrow> g u = h u"
  shows "xor_sum g ss = xor_sum h ss"
proof -
  let ?r = "filter (\<lambda>u. u \<noteq> s) (filter (\<lambda>u. u \<noteq> t) ss)"
  have split: "xor_sum k ss = (k t XOR k s) XOR xor_sum k ?r" for k :: "'a \<Rightarrow> 'b word"
    using xor_sum_remove [OF assms(1,2), of k] xor_sum_remove [of "filter (\<lambda>u. u \<noteq> t) ss" s k] assms(1,3,4)
    by (simp add: xor.assoc)
  have "xor_sum g ?r = xor_sum h ?r" by (rule xor_sum_cong) (use assms(6) in auto)
  then show ?thesis using assms(5) by (simp only: split)
qed
lemma marked_differs:
  assumes "i < length p" "m \<noteq> 0"
  shows "mark_at i m p \<noteq> p"
proof
  assume "mark_at i m p = p"
  then have "p ! i XOR m = p ! i" using assms(1) by (metis mark_at_def nth_list_update_eq)
  then have "(p ! i XOR m) XOR p ! i = 0" by simp
  then have "m = 0" by (simp add: xor.commute xor.left_commute)
  with assms(2) show False by contradiction
qed

lemma retransmit_parses:
  assumes "adv_build q x = Inr b" "\<not> ap_retransmit q" "adv_fits q"
  shows "adv_parse (mark_at 14 adv_flag_r b) = res_ok (adv_parsed_of (q\<lparr>ap_retransmit := True\<rparr>) x)"
proof -
  have "adv_fits (q\<lparr>ap_retransmit := True\<rparr>)" using assms(3) by (simp add: adv_fits_def)
  then obtain b' where "adv_build (q\<lparr>ap_retransmit := True\<rparr>) x = Inr b'"
    "adv_parse b' = res_ok (adv_parsed_of (q\<lparr>ap_retransmit := True\<rparr>) x)" using adv_parse_build by blast
  then show ?thesis using build_retransmit(1) [OF assms(1,2)] by simp
qed

text \<open>Marking two members of a group leaves the parity as it was.\<close>

definition mark_media :: "nat \<Rightarrow> u8 \<Rightarrow> media \<Rightarrow> media" where
  "mark_media i m x = (case x of (ts, pt, p) \<Rightarrow> (ts, pt, mark_at i m p))"

lemma marked_parity:
  assumes par: "parity_of snt sz d base p"
    and ss: "ss = map (member_seq base (int (unat (fp_offset p)))) [0..<unat (fp_na p)]"
    and dist: "distinct ss" "t \<in> set ss" "s \<in> set ss" "t \<noteq> s"
    and long: "i < length (snd (snd (snt t)))" "i < length (snd (snd (snt s)))"
  shows "parity_of (snt(t := mark_media i m (snt t), s := mark_media i m (snt s))) sz d base p"
proof -
  let ?snt = "snt(t := mark_media i m (snt t), s := mark_media i m (snt s))"
  obtain tt pt bt where t: "snt t = (tt, pt, bt)" by (cases "snt t")
  obtain ts ps bs where s: "snt s = (ts, ps, bs)" by (cases "snt s")
  have ms: "map (\<lambda>k. f (member_seq base (int (unat (fp_offset p))) k)) [0..<unat (fp_na p)] = map f ss"
    for f :: sent by (simp add: ss comp_def)
  have swap: "xor_sum g (map ?snt ss) = xor_sum g (map snt ss)"
    if "g (mark_media i m (snt t)) XOR g (mark_media i m (snt s)) = g (snt t) XOR g (snt s)"
    for g :: "media \<Rightarrow> 'b::len word"
    using xor_sum_two [OF dist, of "\<lambda>u. g (?snt u)" "\<lambda>u. g (snt u)"] that dist(4) by simp
  have x: "xor_sum (\<lambda>(ts, pt, p). of_nat (length p)) (map ?snt ss) = xor_sum (\<lambda>(ts, pt, p). of_nat (length p) :: u16) (map snt ss)"
    "xor_sum (\<lambda>(ts, pt, p). pt AND 0x7f) (map ?snt ss) = xor_sum (\<lambda>(ts, pt, p). pt AND 0x7f) (map snt ss)"
    "xor_sum (\<lambda>(ts, pt, p). ts) (map ?snt ss) = xor_sum (\<lambda>(ts, pt, p). ts) (map snt ss)"
    by (rule swap; simp add: mark_media_def t s)+
  have y: "xor_sum (\<lambda>(ts, pt, p). byte_at p j) (map ?snt ss) = xor_sum (\<lambda>(ts, pt, p). byte_at p j) (map snt ss)" for j
    by (rule swap) (use long in \<open>simp add: mark_media_def t s byte_at_mark xor.assoc xor.left_commute xor.commute\<close>)
  show ?thesis using par unfolding parity_of_def ms Let_def x y by blast
qed

text \<open>A receiver that has heard media other than \<open>s\<close>, as \<open>snt\<close> has them.\<close>

fun heard_besides :: "u32 \<Rightarrow> sent \<Rightarrow> u32 \<Rightarrow> fec_decoder \<Rightarrow> fec_input \<Rightarrow> bool" where
  "heard_besides s snt ssrc d (In_Media u ts pt src p) \<longleftrightarrow> u \<noteq> s \<and> truthful snt 0 ssrc d (In_Media u ts pt src p)"
| "heard_besides s snt ssrc d (In_Fec p) \<longleftrightarrow> False"

lemma heard_besides_truthful:
  assumes "fec_run (heard_besides s snt ssrc) d0 d out"
  shows "fec_run (truthful (snt(s := x)) sz ssrc) d0 d out"
proof (rule fec_run_mono [OF assms])
  fix d i
  assume "heard_besides s snt ssrc d i"
  then show "truthful (snt(s := x)) sz ssrc d i" by (cases i) (simp_all add: agrees_def)
qed

lemma marked_repair:
  assumes cfg: "fec_validate cfg prof = Inr ()" and sz: "sz = fec_payload_size prof"
    and fits: "sent_fits snt sz" "numbered isn ps snt"
    and pkt: "pkt \<in> set (snd (fs_clip_run (fs_new cfg prof) isn ps))"
    and run: "fec_run (heard_besides s (snt(t := mark_media i m (snt t))) ssrc)
        (decoder_new (host_core_config cfg) sz isn') d out"
    and loss: "sole_loss d pkt s"
    and near: "2 * \<bar>fec_seq_diff (fd_last_seq d) (fp_base pkt)\<bar> < uint (base_span (hc_variant cfg))"
    and t: "t \<noteq> s" "t \<in> set (map (member_seq (fp_base pkt) (int (unat (fp_offset pkt)))) [0..<unat (fp_na pkt)])"
    and long: "i < length (snd (snd (snt t)))" "i < length (snd (snd (snt s)))"
  shows "\<exists>r \<in> set (snd (push_fec (wire_form (hc_variant cfg) pkt) d)).
    rc_seq r = s \<and> rc_payload r = mark_at i m (snd (snd (snt s)))"
proof -
  let ?core = "host_core_config cfg"
  let ?snt = "snt(t := mark_media i m (snt t), s := mark_media i m (snt s))"
  let ?w = "fp_base pkt AND base_mask (hc_variant cfg)"
  let ?p = "pkt\<lparr>fp_base := ?w\<rparr>"
  have v: "fc_variant ?core = hc_variant cfg" by (simp add: host_core_config_def)
  note core = validated_core [OF cfg]
  have fits': "sent_fits ?snt sz" using fits(1) by (auto simp: sent_fits_def mark_media_def split_def)
  have good: "fd_good ?core sz ?snt ssrc d"
    using fec_run_good [OF core(1) fits' heard_besides_truthful [OF run]] by blast
  then have dcfg: "fd_cfg d = ?core" and stat: "fd_static ?core sz d"
    by (simp_all add: fd_good_def fd_ok_def fd_mid_def fd_static_def)
  have cov: "covers ?core sz isn ps pkt"
    using encoder_run_covers [OF core(1)] pkt by (simp add: fs_clip_run_new sz)
  have par: "parity_of snt sz d (fp_base pkt) ?p" "matrix_group ?core (unat (fp_offset pkt)) (unat (fp_na pkt))"
    by (rule covers_parity [OF core fits(2) cov dcfg]; use near v in \<open>simp add: and.assoc\<close>)+
  have two: "1 < fp_na pkt" by (rule emitted_fields(2) [OF cfg pkt])
  let ?ss = "map (member_seq (fp_base pkt) (int (unat (fp_offset pkt)))) [0..<unat (fp_na pkt)]"
  have "unat (fp_na pkt) < 2 ^ 10" "0 < unat (fp_offset pkt)" "1 < unat (fp_na pkt)"
    using par(2) core(2,3) fec_config_okD(1) [OF core(1)] two by (auto simp: matrix_group_def word_less_nat_alt)
  then have shape: "fec_shape ?core (stored_of d ?p)"
    using par(2) matrix_group_shape [of ?core "unat (fp_offset pkt)" "unat (fp_na pkt)" "stored_of d ?p"]
    by (simp add: stored_of_def)
  have base: "sf_base (stored_of d ?p) = fp_base pkt" by (rule parity_group(2) [OF par(1)])
  have ss: "members (stored_of d ?p) = ?ss" unfolding members_def base by (simp add: stored_of_def)
  have "distinct ?ss" using distinct_members [OF core(1) shape stat] by (simp only: ss)
  moreover have "filter (\<lambda>t. fd_media d t = None) ?ss = [s]" using loss unfolding sole_loss_def Let_def by blast
  then have "s \<in> set ?ss" by (metis filter_is_subset list.set_intros(1) subsetD)
  ultimately have par': "parity_of ?snt sz d (fp_base pkt) ?p"
    using t long by (intro marked_parity [OF par(1), where ss = ?ss]) simp_all
  obtain r where r: "r \<in> set (snd (push_fec ?p d))" "rc_seq r = s" "recovered_true ?snt ssrc r"
    using true_parity_repairs [OF core fits' good par' par(2) loss two] by blast
  have "rc_payload r = mark_at i m (snd (snd (snt s)))"
    using r(2,3) by (simp add: recovered_true_def mark_media_def split_def)
  with r(1,2) show ?thesis unfolding push_fec_wire_form by blast
qed

text \<open>C32: A defect. The sender's FEC protects the first transmission of a datagram; the receiver feeds its FEC
  every media datagram, retransmissions included, which differ in the retransmit flag. So after one loss of a group was
  repaired by a retransmission, a second loss in it that the parity repairs comes back wrong: what is recovered is not the
  datagram that was sent, but parses as a retransmission of it.\<close>

theorem retransmit_spoils_recovery:
  assumes "fec_validate cfg Profile_Advanced = Inr ()"
    and "sent_fits snt 2048" "numbered isn ps snt"
    and "pkt \<in> set (snd (fs_clip_run (fs_new cfg Profile_Advanced) isn ps))"
    and "snt t = (0, 0, bt)" "adv_build qt y = Inr bt" "\<not> ap_retransmit qt"
    and "snt s = (0, 0, bs)" "adv_build qs x = Inr bs" "\<not> ap_retransmit qs" "adv_fits qs"
    and "adv_build (qt\<lparr>ap_retransmit := True\<rparr>) y = Inr bt'"
    and "fec_run (heard_besides s (snt(t := (0, 0, bt'))) ssrc) (decoder_new (host_core_config cfg) 2048 isn') d out"
    and "sole_loss d pkt s" "t \<noteq> s"
    and "t \<in> set (map (member_seq (fp_base pkt) (int (unat (fp_offset pkt)))) [0..<unat (fp_na pkt)])"
    and "2 * \<bar>fec_seq_diff (fd_last_seq d) (fp_base pkt)\<bar> < uint (base_span (hc_variant cfg))"
    and "fs_variant f = hc_variant cfg" "fs_dec f = Some d"
  shows "\<exists>c' b1 b2 f' rs. send_fec_message ts (hc_variant cfg) pkt c = Some (c', [b1, b2])
    \<and> fec_receive [b1, b2] f = Some (f', rs)
    \<and> (\<exists>r \<in> set rs. rc_seq r = s \<and> rc_payload r \<noteq> bs
         \<and> adv_parse (rc_payload r) = res_ok (adv_parsed_of (qs\<lparr>ap_retransmit := True\<rparr>) x))"
proof -
  note bt = build_retransmit [OF assms(6,7)] and bs = build_retransmit [OF assms(9,10)]
  have "snt(t := (0, 0, bt')) = snt(t := mark_media 14 adv_flag_r (snt t))"
    using bt(1) assms(12) by (simp add: mark_media_def assms(5))
  note run = assms(13) [unfolded this]
  have long: "14 < length (snd (snd (snt t)))" "14 < length (snd (snd (snt s)))"
    using bt(2) bs(2) by (simp_all add: assms(5,8))
  have "\<exists>r \<in> set (snd (push_fec (wire_form (hc_variant cfg) pkt) d)).
      rc_seq r = s \<and> rc_payload r = mark_at 14 adv_flag_r (snd (snd (snt s)))"
    by (rule marked_repair [OF assms(1) sizes_fit(2) [symmetric] assms(2-4) run assms(14,17,15,16) long])
  then obtain r where r: "r \<in> set (snd (push_fec (wire_form (hc_variant cfg) pkt) d))" "rc_seq r = s"
    "rc_payload r = mark_at 14 adv_flag_r bs" by (auto simp: assms(8))
  have "adv_flag_r \<noteq> 0" by (simp add: adv_flag_r_def)
  then have "rc_payload r \<noteq> bs" unfolding r(3) by (rule marked_differs [OF bs(2)])
  moreover have "adv_parse (rc_payload r) = res_ok (adv_parsed_of (qs\<lparr>ap_retransmit := True\<rparr>) x)"
    unfolding r(3) by (rule retransmit_parses [OF assms(9,10,11)])
  moreover obtain c' b1 b2 f' where "send_fec_message ts (hc_variant cfg) pkt c = Some (c', [b1, b2])"
    "fec_receive [b1, b2] f = Some (f', snd (push_fec (wire_form (hc_variant cfg) pkt) d))"
    by (rule inband_message_arrives [OF assms(1,4,18,19), of ts c])
  ultimately show ?thesis using r(1,2) by blast
qed

section \<open>A concrete group\<close>

text \<open>One column of four packets, numbered from 7; the third is lost.\<close>

definition sample_host_fec :: host_fec_config where
  "sample_host_fec = host_fec_default\<lparr>hc_columns := 1, hc_rows := 4, hc_column_only := True, hc_variant := St20225\<rparr>"

abbreviation sample_column :: fec_config where
  "sample_column \<equiv> host_core_config sample_host_fec"

lemma sample_host_fec_valid: "fec_validate sample_host_fec prof = Inr ()"
  by (simp add: fec_validate_def sample_host_fec_def host_fec_default_def)

lemma sample_column_simps [simp]:
  "fc_cols sample_column = 1" "fc_rows sample_column = 4" "fc_column_only sample_column"
  "fc_variant sample_column = St20225" "hc_variant sample_host_fec = St20225"
  by (simp_all add: host_core_config_def sample_host_fec_def host_fec_default_def)

lemma push_emits_column:
  "push_emits cfg sz isn ps n out \<Longrightarrow> column_done cfg n \<Longrightarrow>
   \<exists>pkt \<in> set out. protects pkt sz isn ps (column_first cfg n) (fc_cols cfg) (fc_rows cfg)"
  by (auto simp: push_emits_def)

lemma column_parity_emitted:
  fixes ps :: "media list"
  assumes "length ps = 4"
  obtains pkt where "pkt \<in> set (snd (fs_clip_run (fs_new sample_host_fec prof) isn ps))"
    "fp_base pkt = isn" "fp_offset pkt = 1" "fp_na pkt = 4"
proof -
  let ?sz = "fec_payload_size prof"
  have ok: "fec_config_ok sample_column" by (rule validated_core [OF sample_host_fec_valid])
  obtain qs x where ps: "ps = qs @ [x]" using assms by (cases ps rule: rev_cases) auto
  with assms have len: "length qs = 3" by simp
  obtain ts pt p where x: "x = (ts, pt, p)" by (cases x)
  let ?e = "fst (encoder_run (encoder_new sample_column ?sz isn) isn qs)"
  have "push_emits sample_column ?sz isn ps 3 (snd (encoder_push ?e (isn + of_nat 3) ts pt p))"
    using encoder_push_step [OF ok encodes_run [OF ok, of ?sz isn qs], of ts pt p] by (auto simp: ps x len)
  moreover have "column_done sample_column 3" by (simp add: column_done_def)
  ultimately obtain pkt where pkt: "pkt \<in> set (snd (encoder_push ?e (isn + of_nat 3) ts pt p))"
    "protects pkt ?sz isn ps (column_first sample_column 3) 1 4"
    using push_emits_column by fastforce
  have "pkt \<in> set (snd (fs_clip_run (fs_new sample_host_fec prof) isn ps))"
    unfolding fs_clip_run_new ps x encoder_run_snoc using pkt(1) by (simp add: Let_def split_def len)
  moreover have "fp_base pkt = isn" "fp_offset pkt = 1" "fp_na pkt = 4"
    using pkt(2) by (simp_all add: protects_def column_first_def)
  ultimately show thesis by (rule that)
qed

text \<open>The receiver after the first, the second and the fourth.\<close>

definition hear :: "sent \<Rightarrow> u32 \<Rightarrow> fec_decoder \<Rightarrow> fec_decoder" where
  "hear snt s d = (case snt s of (ts, pt, p) \<Rightarrow> fst (push_media s ts pt 1 p d))"

lemma hear_alone:
  assumes "fd_fecs d = []" "fd_media d s = None"
  shows "hear snt s d = fd_evict ((fd_advance s d)\<lparr>fd_media := (fd_media d)(s \<mapsto> (case snt s of (ts, pt, p) \<Rightarrow>
    \<lparr>sm_ts = ts, sm_pt = pt, sm_ssrc = 1, sm_payload = p\<rparr>))\<rparr>)"
  using assms by (simp add: hear_def push_media_alone split: prod.split)

lemma hear_run:
  assumes "fec_run (heard_besides l snt 1) d0 d []" "fd_fecs d = []" "fd_media d s = None" "s \<noteq> l" "not_half d s"
  shows "fec_run (heard_besides l snt 1) d0 (hear snt s d) []"
proof -
  obtain ts pt p where x: "snt s = (ts, pt, p)" by (cases "snt s")
  have "heard_besides l snt 1 d (In_Media s ts pt 1 p)" using assms(4,5) by (simp add: agrees_def x)
  from fec_run_next [OF assms(1) this] show ?thesis
    by (simp add: hear_def x push_media_alone [OF assms(2,3)])
qed

lemma three_heard:
  obtains d where "fec_run (heard_besides 9 snt 1) (decoder_new sample_column sz 7) d []"
    "fd_last_seq d = 10" "fd_window d = 21" "fd_media d 9 = None"
    "fd_media d 7 \<noteq> None" "fd_media d 8 \<noteq> None" "fd_media d 10 \<noteq> None"
proof -
  let ?d0 = "decoder_new sample_column sz 7"
  define d1 where "d1 = hear snt 7 ?d0"
  define d2 where "d2 = hear snt 8 d1"
  define d3 where "d3 = hear snt 10 d2"
  have d0: "fd_fecs ?d0 = []" "fd_media ?d0 = Map.empty" "fd_last_seq ?d0 = 7" "\<not> fd_have_seq ?d0" "fd_window ?d0 = 21"
    by (simp_all add: decoder_new_def matrix_size_def)
  have d1: "fd_fecs d1 = []" "fd_media d1 7 \<noteq> None" "fd_media d1 8 = None" "fd_media d1 9 = None" "fd_media d1 10 = None"
      "fd_last_seq d1 = 7" "fd_have_seq d1" "fd_window d1 = 21"
    unfolding d1_def by (simp_all add: hear_alone d0 fd_advance_def fd_evict_def fd_floor_def seq_eval)
  have d2: "fd_fecs d2 = []" "fd_media d2 7 \<noteq> None" "fd_media d2 8 \<noteq> None" "fd_media d2 9 = None" "fd_media d2 10 = None"
      "fd_last_seq d2 = 8" "fd_have_seq d2" "fd_window d2 = 21"
    unfolding d2_def using d1 by (simp_all add: hear_alone fd_advance_def fd_evict_def fd_floor_def seq_eval)
  have d3: "fd_last_seq d3 = 10" "fd_window d3 = 21" "fd_media d3 9 = None"
      "fd_media d3 7 \<noteq> None" "fd_media d3 8 \<noteq> None" "fd_media d3 10 \<noteq> None"
    unfolding d3_def using d2 by (simp_all add: hear_alone fd_advance_def fd_evict_def fd_floor_def seq_eval)
  have "fec_run (heard_besides 9 snt 1) ?d0 d1 []"
    unfolding d1_def by (rule hear_run [OF fec_start]) (simp_all add: d0 not_half_def seq_eval)
  then have "fec_run (heard_besides 9 snt 1) ?d0 d2 []"
    unfolding d2_def using d1 by (intro hear_run) (simp_all add: not_half_def seq_eval)
  then have "fec_run (heard_besides 9 snt 1) ?d0 d3 []"
    unfolding d3_def using d2 by (intro hear_run) (simp_all add: not_half_def seq_eval)
  with d3 that show thesis by blast
qed

lemma upt_four: "[0..<4] = [0, 1, 2, 3 :: nat]"
  by (simp add: numeral_eq_Suc upt_rec)

lemma third_lost:
  assumes "fp_base pkt = 7" "fp_offset pkt = 1" "fp_na pkt = 4"
    and "fd_last_seq d = 10" "fd_window d = 21" "fd_media d 9 = None"
    and "fd_media d 7 \<noteq> None" "fd_media d 8 \<noteq> None" "fd_media d 10 \<noteq> None"
  shows "sole_loss d pkt 9"
    "2 * \<bar>fec_seq_diff (fd_last_seq d) (fp_base pkt)\<bar> < uint (base_span (hc_variant sample_host_fec))"
    "7 \<in> set (map (member_seq (fp_base pkt) (int (unat (fp_offset pkt)))) [0..<unat (fp_na pkt)])"
  using assms(4-)
  by (simp_all add: sole_loss_def assms(1-3) member_seq_def fd_floor_def seq_eval upt_four
      Let_def unsigned_minus_1_eq_mask mask_eq_exp_minus_1)

text \<open>Four small datagrams.\<close>

definition sample_params :: "u32 \<Rightarrow> adv_params" where
  "sample_params n = adv_params_default\<lparr>ap_seq := n, ap_ssrc := 1000, ap_first_frag := True, ap_last_frag := True\<rparr>"

definition sample_datagram :: "u32 \<Rightarrow> bytes" where
  "sample_datagram n = (case adv_build (sample_params n) [5] of Inr b \<Rightarrow> b | Inl e \<Rightarrow> [])"

definition sample_sent :: sent where
  "sample_sent n = (0, 0, sample_datagram n)"

definition sample_batch :: "media list" where
  "sample_batch = map sample_sent [7, 8, 9, 10]"

lemma sample_params_fit: "adv_fits (sample_params n)" "\<not> ap_retransmit (sample_params n)"
    "adv_header_size (sample_params n) = 16"
proof -
  show "adv_fits (sample_params n)" "\<not> ap_retransmit (sample_params n)"
    by (simp_all add: adv_fits_def sample_params_def adv_params_default_def adv_flow_fits_def adv_pfd_fits_def
        adv_array_fits_def adv_hdr_ext_fits_def)
  have "adv_header_size (sample_params n) = adv_header_size (sample_params 0)"
    by (simp add: adv_header_size_def sample_params_def)
  also have "\<dots> = 16" by code_simp
  finally show "adv_header_size (sample_params n) = 16" .
qed

lemma sample_built: "adv_build (sample_params n) [5] = Inr (sample_datagram n)" "length (sample_datagram n) = 17"
  using adv_parse_build [OF sample_params_fit(1) [of n], of "[5]"]
  by (auto simp: sample_datagram_def sample_params_fit(3))

lemma sample_batch_sent: "sent_fits sample_sent (fec_payload_size prof)" "sent_fits sample_sent 2048"
    "numbered 7 sample_batch sample_sent" "length sample_batch = 4"
proof -
  have "17 \<le> fec_payload_size prof"
    by (simp add: fec_payload_size_def fec_adv_payload_size_def fec_rtp_payload_size_def)
  then show "sent_fits sample_sent (fec_payload_size prof)" "sent_fits sample_sent 2048"
    using sizes_fit(1) [of prof] by (simp_all add: sent_fits_def sample_sent_def sample_built(2))
  show "length sample_batch = 4" by (simp add: sample_batch_def)
  have "sample_sent (7 + of_nat i) = sample_batch ! i" if "i < 4" for i
    using that by (auto simp: sample_batch_def numeral_eq_Suc less_Suc_eq)
  then show "numbered 7 sample_batch sample_sent" by (simp add: numbered_def sample_batch_def)
qed

definition sample_receiver :: "profile \<Rightarrow> fec_decoder \<Rightarrow> fec_state" where
  "sample_receiver prof d = (fs_new sample_host_fec prof)\<lparr>fs_dec := Some d\<rparr>"

lemma sample_receiver_simps [simp]:
  "fs_variant (sample_receiver prof d) = hc_variant sample_host_fec" "fs_dec (sample_receiver prof d) = Some d"
  by (simp_all add: sample_receiver_def fs_new_def)

theorem validated_fec_fits_wire_witness:
  "\<exists>pkt b. pkt \<in> set (snd (fs_clip_run (fs_new sample_host_fec Profile_Simple) 7 sample_batch))
    \<and> fec_encode pkt St20225 = Some b \<and> length b = 1516
    \<and> fec_decode b St20225 = Some (Inr (wire_form St20225 pkt))"
proof -
  obtain pkt where pkt: "pkt \<in> set (snd (fs_clip_run (fs_new sample_host_fec Profile_Simple) 7 sample_batch))"
    by (rule column_parity_emitted [OF sample_batch_sent(4)])
  from validated_fec_fits_wire [OF sample_host_fec_valid this] pkt show ?thesis
    by (auto simp: fec_payload_size_def fec_rtp_payload_size_def)
qed



theorem retransmit_spoils_recovery_witness:
  "\<exists>pkt d c' b1 b2 f' rs. send_fec_message 0 St20225 pkt (av_new None None False 1000 0 0) = Some (c', [b1, b2])
    \<and> fd_media d 9 = None \<and> fec_receive [b1, b2] (sample_receiver Profile_Advanced d) = Some (f', rs)
    \<and> (\<exists>r \<in> set rs. rc_seq r = 9 \<and> rc_payload r \<noteq> sample_datagram 9
         \<and> adv_parse (rc_payload r) = res_ok (adv_parsed_of ((sample_params 9)\<lparr>ap_retransmit := True\<rparr>) [5]))"
proof -
  let ?b = "mark_at 14 adv_flag_r (sample_datagram 7)"
  obtain pkt where pkt: "pkt \<in> set (snd (fs_clip_run (fs_new sample_host_fec Profile_Advanced) 7 sample_batch))"
    "fp_base pkt = 7" "fp_offset pkt = 1" "fp_na pkt = 4"
    by (rule column_parity_emitted [OF sample_batch_sent(4)])
  obtain d where d: "fec_run (heard_besides 9 (sample_sent(7 := (0, 0, ?b))) 1) (decoder_new sample_column 2048 7) d []"
    "fd_last_seq d = 10" "fd_window d = 21" "fd_media d 9 = None"
    "fd_media d 7 \<noteq> None" "fd_media d 8 \<noteq> None" "fd_media d 10 \<noteq> None" by (rule three_heard)
  note l = third_lost [OF pkt(2-4) d(2-7)]
  have st: "sample_sent n = (0, 0, sample_datagram n)" for n by (simp add: sample_sent_def)
  have ne: "(7 :: u32) \<noteq> 9" by simp
  from retransmit_spoils_recovery [OF sample_host_fec_valid sample_batch_sent(2,3) pkt(1) st sample_built(1)
      sample_params_fit(2) st sample_built(1) sample_params_fit(2,1) build_retransmit(1) [OF sample_built(1)
      sample_params_fit(2)] d(1) l(1) ne l(3,2) sample_receiver_simps [of Profile_Advanced d], of 0 "av_new None None False 1000 0 0"] d(4)
  show ?thesis unfolding sample_column_simps by blast
qed

end
