(* ===== verification/Bonding.thy ===== *)
theory Bonding
  imports Rtt
begin

text \<open>
  The bonding group (\<^verbatim>\<open>rist/src/bonding.rs\<close>): the paths that feed one flow, their liveness, the
  redundant fan-out, the weighted load-share rotation and the election of the path a NACK goes out on.
  Weights, credits, priorities and counters are naturals: the code only compares them, copies them, adds one
  to a \<^verbatim>\<open>u64\<close> counter or takes one off a credit with saturation.
\<close>

section \<open>State\<close>

definition weight_duplicate :: nat where "weight_duplicate = 0"

record bond_path =
  bp_index :: u8
  bp_weight :: nat
  bp_w_count :: nat
  bp_priority :: nat
  bp_rtt :: estimator
  bp_last_seen :: timestamp
  bp_seen :: bool
  bp_dead :: bool
  bp_recv_pkts :: nat
  bp_recv_bytes :: nat
  bp_sent_pkts :: nat
  bp_sent_bytes :: nat
  bp_retx_pkts :: nat
  bp_retx_bytes :: nat

record path_stats =
  ps_index :: u8
  ps_rtt :: micros
  ps_alive :: bool
  ps_weight :: nat
  ps_priority :: nat
  ps_recv_pkts :: nat
  ps_recv_bytes :: nat
  ps_sent_pkts :: nat
  ps_sent_bytes :: nat
  ps_retx_pkts :: nat
  ps_retx_bytes :: nat

record group =
  gr_paths :: "bond_path list"
  gr_timeout :: micros
  gr_dup_grace :: micros
  gr_rtt_min :: micros
  gr_rtt_max :: micros

definition bond_group_new :: "micros \<Rightarrow> micros \<Rightarrow> micros \<Rightarrow> micros \<Rightarrow> group" where
  "bond_group_new session_timeout dup_grace rtt_min rtt_max =
     \<lparr>gr_paths = [], gr_timeout = session_timeout, gr_dup_grace = dup_grace,
      gr_rtt_min = rtt_min, gr_rtt_max = rtt_max\<rparr>"

text \<open>\<^verbatim>\<open>path\<close> and \<^verbatim>\<open>path_mut\<close>: the first path with the index.\<close>

definition find_path :: "group \<Rightarrow> u8 \<Rightarrow> bond_path option" where
  "find_path g i = find (\<lambda>p. bp_index p = i) (gr_paths g)"

fun update_path :: "u8 \<Rightarrow> (bond_path \<Rightarrow> bond_path) \<Rightarrow> bond_path list \<Rightarrow> bond_path list" where
  "update_path i f [] = []"
| "update_path i f (p # ps) = (if bp_index p = i then f p # ps else p # update_path i f ps)"

definition on_path :: "u8 \<Rightarrow> (bond_path \<Rightarrow> bond_path) \<Rightarrow> group \<Rightarrow> group" where
  "on_path i f g = g\<lparr>gr_paths := update_path i f (gr_paths g)\<rparr>"

section \<open>Registration and observation\<close>

definition remove_path :: "u8 \<Rightarrow> group \<Rightarrow> group \<times> bool" where
  "remove_path i g =
     (let kept = filter (\<lambda>p. bp_index p \<noteq> i) (gr_paths g)
      in (g\<lparr>gr_paths := kept\<rparr>, length kept \<noteq> length (gr_paths g)))"

definition add_path :: "u8 \<Rightarrow> nat \<Rightarrow> nat \<Rightarrow> group \<Rightarrow> group" where
  "add_path i weight priority g =
     (if \<exists>p\<in>set (gr_paths g). bp_index p = i then g
      else g\<lparr>gr_paths := gr_paths g @
        [\<lparr>bp_index = i, bp_weight = weight, bp_w_count = weight, bp_priority = priority,
          bp_rtt = est_new (gr_rtt_min g), bp_last_seen = 0, bp_seen = False, bp_dead = False,
          bp_recv_pkts = 0, bp_recv_bytes = 0, bp_sent_pkts = 0, bp_sent_bytes = 0,
          bp_retx_pkts = 0, bp_retx_bytes = 0\<rparr>]\<rparr>)"

definition observe_path :: "u8 \<Rightarrow> timestamp \<Rightarrow> group \<Rightarrow> group" where
  "observe_path i now = on_path i (\<lambda>p. p\<lparr>bp_seen := True, bp_last_seen := now, bp_dead := False\<rparr>)"

definition observe_rtt :: "u8 \<Rightarrow> micros \<Rightarrow> group \<Rightarrow> group" where
  "observe_rtt i sample = on_path i (\<lambda>p. p\<lparr>bp_rtt := est_observe (bp_rtt p) sample\<rparr>)"

definition count_recv :: "u8 \<Rightarrow> nat \<Rightarrow> group \<Rightarrow> group" where
  "count_recv i n = on_path i (\<lambda>p. p\<lparr>bp_recv_pkts := bp_recv_pkts p + 1, bp_recv_bytes := bp_recv_bytes p + n\<rparr>)"

definition count_sent :: "u8 \<Rightarrow> nat \<Rightarrow> bool \<Rightarrow> group \<Rightarrow> group" where
  "count_sent i n retransmit =
     on_path i (\<lambda>p. if retransmit
       then p\<lparr>bp_retx_pkts := bp_retx_pkts p + 1, bp_retx_bytes := bp_retx_bytes p + n\<rparr>
       else p\<lparr>bp_sent_pkts := bp_sent_pkts p + 1, bp_sent_bytes := bp_sent_bytes p + n\<rparr>)"

definition set_weight :: "u8 \<Rightarrow> nat \<Rightarrow> group \<Rightarrow> group" where
  "set_weight i weight g =
     (if find_path g i = None then g
      else let g = on_path i (\<lambda>p. p\<lparr>bp_weight := weight\<rparr>) g
           in g\<lparr>gr_paths := map (\<lambda>q. q\<lparr>bp_w_count := bp_weight q\<rparr>) (gr_paths g)\<rparr>)"

section \<open>Liveness\<close>

definition path_live :: "group \<Rightarrow> timestamp \<Rightarrow> bond_path \<Rightarrow> bool" where
  "path_live g now p \<longleftrightarrow> bp_seen p \<and> ts_diff now (bp_last_seen p) \<le> gr_timeout g"

definition alive :: "group \<Rightarrow> u8 \<Rightarrow> timestamp \<Rightarrow> bool" where
  "alive g i now = (case find_path g i of None \<Rightarrow> False | Some p \<Rightarrow> path_live g now p)"

definition proven_dead :: "group \<Rightarrow> bond_path \<Rightarrow> timestamp \<Rightarrow> bool" where
  "proven_dead g p now \<longleftrightarrow> bp_seen p \<and> gr_timeout g < ts_diff now (bp_last_seen p)"

definition dup_dead :: "group \<Rightarrow> bond_path \<Rightarrow> timestamp \<Rightarrow> bool" where
  "dup_dead g p now \<longleftrightarrow>
     bp_seen p \<and> micros_add (gr_timeout g) (gr_dup_grace g) < ts_diff now (bp_last_seen p)"

fun tick_paths :: "micros \<Rightarrow> timestamp \<Rightarrow> bond_path list \<Rightarrow> bond_path list \<times> u8 list" where
  "tick_paths timeout now [] = ([], [])"
| "tick_paths timeout now (p # ps) =
     (let (ps', died) = tick_paths timeout now ps in
      if \<not> bp_seen p \<or> bp_dead p then (p # ps', died)
      else if timeout < ts_diff now (bp_last_seen p) then (p\<lparr>bp_dead := True\<rparr> # ps', bp_index p # died)
      else (p # ps', died))"

definition group_tick :: "timestamp \<Rightarrow> group \<Rightarrow> group \<times> u8 list" where
  "group_tick now g =
     (let (ps, died) = tick_paths (gr_timeout g) now (gr_paths g) in (g\<lparr>gr_paths := ps\<rparr>, died))"

fun snapshots :: "group \<Rightarrow> timestamp \<Rightarrow> bond_path list \<Rightarrow> path_stats list option" where
  "snapshots g now [] = Some []"
| "snapshots g now (p # ps) =
     do {
       rtt \<leftarrow> est_clamped (bp_rtt p) (gr_rtt_min g) (gr_rtt_max g);
       rest \<leftarrow> snapshots g now ps;
       Some (\<lparr>ps_index = bp_index p, ps_rtt = rtt, ps_alive = path_live g now p,
              ps_weight = bp_weight p, ps_priority = bp_priority p,
              ps_recv_pkts = bp_recv_pkts p, ps_recv_bytes = bp_recv_bytes p,
              ps_sent_pkts = bp_sent_pkts p, ps_sent_bytes = bp_sent_bytes p,
              ps_retx_pkts = bp_retx_pkts p, ps_retx_bytes = bp_retx_bytes p\<rparr> # rest)
     }"

definition peer_snapshots :: "group \<Rightarrow> timestamp \<Rightarrow> path_stats list option" where
  "peer_snapshots g now = snapshots g now (gr_paths g)"

section \<open>Transmission\<close>

definition duplicate_targets :: "group \<Rightarrow> timestamp \<Rightarrow> u8 list" where
  "duplicate_targets g now =
     map bp_index (filter (\<lambda>p. bp_weight p = weight_duplicate \<and> \<not> dup_dead g p now) (gr_paths g))"

definition should_duplicate :: "group \<Rightarrow> u8 \<Rightarrow> timestamp \<Rightarrow> bool" where
  "should_duplicate g i now =
     (case find_path g i of None \<Rightarrow> False
      | Some p \<Rightarrow> bp_weight p = weight_duplicate \<and> \<not> dup_dead g p now)"

definition has_weighted :: "group \<Rightarrow> bool" where
  "has_weighted g \<longleftrightarrow> (\<exists>p\<in>set (gr_paths g). 0 < bp_weight p)"

text \<open>The shape of the elections: one pass over the paths, keeping the first of the best.\<close>

fun first_best :: "('a \<Rightarrow> bool) \<Rightarrow> ('a \<Rightarrow> 'a \<Rightarrow> bool) \<Rightarrow> 'a option \<Rightarrow> 'a list \<Rightarrow> 'a option" where
  "first_best ok better best [] = best"
| "first_best ok better best (p # ps) =
     first_best ok better
       (if \<not> ok p then best
        else case best of None \<Rightarrow> Some p | Some b \<Rightarrow> if better p b then Some p else best) ps"

definition best_weighted :: "group \<Rightarrow> timestamp \<Rightarrow> u8 option" where
  "best_weighted g now =
     map_option bp_index
       (first_best (\<lambda>p. \<not> (bp_weight p = 0 \<or> proven_dead g p now)) (\<lambda>p b. bp_w_count b < bp_w_count p)
          None (gr_paths g))"

definition spend :: "u8 \<Rightarrow> group \<Rightarrow> group" where
  "spend i = on_path i (\<lambda>p. p\<lparr>bp_w_count := bp_w_count p - 1\<rparr>)"

definition refill :: "timestamp \<Rightarrow> group \<Rightarrow> group" where
  "refill now g =
     g\<lparr>gr_paths := map (\<lambda>p. if 0 < bp_weight p \<and> \<not> (bp_seen p \<and> gr_timeout g < ts_diff now (bp_last_seen p))
                          then p\<lparr>bp_w_count := bp_weight p\<rparr> else p) (gr_paths g)\<rparr>"

definition select_weighted :: "timestamp \<Rightarrow> group \<Rightarrow> group \<times> u8 option" where
  "select_weighted now g =
     (if \<not> has_weighted g then (g, None)
      else case best_weighted g now of
        None \<Rightarrow> (g, None)
      | Some best \<Rightarrow>
          if (case find_path g best of None \<Rightarrow> False | Some p \<Rightarrow> bp_w_count p = 0)
          then let g = refill now g in
            (case best_weighted g now of
               None \<Rightarrow> (g, None)
             | Some best \<Rightarrow> (spend best g, Some best))
          else (spend best g, Some best))"

section \<open>NACK routing\<close>

definition nack_rtt :: "group \<Rightarrow> bond_path \<Rightarrow> micros option" where
  "nack_rtt g p = est_last_clamped (bp_rtt p) (gr_rtt_min g) (gr_rtt_max g)"

definition preferred :: "group \<Rightarrow> bond_path \<Rightarrow> bond_path \<Rightarrow> bool option" where
  "preferred g cand best =
     (if bp_priority best < bp_priority cand then Some True
      else if bp_priority cand < bp_priority best then Some False
      else do { c \<leftarrow> nack_rtt g cand; b \<leftarrow> nack_rtt g best; Some (c < b) })"

fun elect_live :: "group \<Rightarrow> (bond_path \<Rightarrow> bool) \<Rightarrow> bond_path option \<Rightarrow> bond_path list \<Rightarrow> bond_path option option" where
  "elect_live g ok best [] = Some best"
| "elect_live g ok best (p # ps) =
     (if \<not> ok p then elect_live g ok best ps
      else case best of
        None \<Rightarrow> elect_live g ok (Some p) ps
      | Some b \<Rightarrow> do { w \<leftarrow> preferred g p b; elect_live g ok (if w then Some p else best) ps })"

definition select_nack_path :: "group \<Rightarrow> timestamp \<Rightarrow> (u8 \<Rightarrow> bool) \<Rightarrow> u8 option option" where
  "select_nack_path g now addr_known =
     do {
       best \<leftarrow> elect_live g (\<lambda>p. \<not> (\<not> alive g (bp_index p) now \<or> \<not> addr_known (bp_index p))) None (gr_paths g);
       case best of Some b \<Rightarrow> Some (Some (bp_index b))
       | None \<Rightarrow>
           Some (map_option bp_index
             (first_best (\<lambda>p. \<not> (\<not> bp_seen p \<or> \<not> addr_known (bp_index p)))
                (\<lambda>p b. bp_last_seen b < bp_last_seen p) None (gr_paths g)))
     }"

definition group_rtt :: "group \<Rightarrow> u8 \<Rightarrow> micros option" where
  "group_rtt g i =
     (case find_path g i of None \<Rightarrow> Some (gr_rtt_min g)
      | Some p \<Rightarrow> est_clamped (bp_rtt p) (gr_rtt_min g) (gr_rtt_max g))"

end
