(* ===== verification/Host_Config.thy ===== *)
theory Host_Config
  imports Host_Fec Bonding
begin

text \<open>
  The public configuration (\<^verbatim>\<open>rist/src/config.rs\<close>): its fields and libRIST defaults, the
  \<^verbatim>\<open>with_*\<close> builder, and validation; and what the session layer derives from it
  (\<^verbatim>\<open>rist/src/session.rs\<close>: the flow parameters, the FEC engine, the codecs, the bonding group). A
  \<^verbatim>\<open>Duration\<close> is a number of nanoseconds; counts of 32 bits are natural numbers; strings are their
  UTF-8 bytes. A callback is the truth value of whether it is set. The build has the feature \<^verbatim>\<open>dtls\<close>.
  Whether an interface name exists is known to the operating system only and is an argument.
\<close>

section \<open>IP literals\<close>

text \<open>The parser of \<^verbatim>\<open>std::net::IpAddr\<close>, as a recogniser: each reader returns what is left.\<close>

definition char_byte :: "char \<Rightarrow> u8" where
  "char_byte c = of_nat (of_char c)"

definition ascii :: "string \<Rightarrow> bytes" where
  "ascii s = map char_byte s"

definition byte_digit :: "nat \<Rightarrow> u8 \<Rightarrow> nat option" where
  "byte_digit radix b =
     (let v = (if 48 \<le> b \<and> b \<le> 57 then Some (unat (b - 48))
               else if 97 \<le> b \<and> b \<le> 122 then Some (unat (b - 97) + 10)
               else if 65 \<le> b \<and> b \<le> 90 then Some (unat (b - 65) + 10) else None)
      in case v of None \<Rightarrow> None | Some d \<Rightarrow> if d < radix then Some d else None)"

definition is_digit_in :: "nat \<Rightarrow> u8 \<Rightarrow> bool" where
  "is_digit_in radix b \<longleftrightarrow> byte_digit radix b \<noteq> None"

definition digits_value :: "nat \<Rightarrow> bytes \<Rightarrow> nat" where
  "digits_value radix ds = foldl (\<lambda>n b. n * radix + (case byte_digit radix b of Some d \<Rightarrow> d | None \<Rightarrow> 0)) 0 ds"

text \<open>A number of at most so many digits and at most the given value.\<close>

definition read_ip_number :: "nat \<Rightarrow> nat \<Rightarrow> bool \<Rightarrow> nat \<Rightarrow> bytes \<Rightarrow> bytes option" where
  "read_ip_number radix max_digits allow_zero_prefix limit s =
     (let ds = takeWhile (is_digit_in radix) s in
      if ds = [] \<or> max_digits < length ds \<or> limit < digits_value radix ds
        \<or> (\<not> allow_zero_prefix \<and> hd ds = 48 \<and> 1 < length ds)
      then None else Some (drop (length ds) s))"

definition read_ip_char :: "char \<Rightarrow> bytes \<Rightarrow> bytes option" where
  "read_ip_char c s = (case s of [] \<Rightarrow> None | b # rest \<Rightarrow> if b = char_byte c then Some rest else None)"

definition read_ip_separated :: "char \<Rightarrow> nat \<Rightarrow> (bytes \<Rightarrow> bytes option) \<Rightarrow> bytes \<Rightarrow> bytes option" where
  "read_ip_separated c index inner s =
     (if 0 < index then (case read_ip_char c s of None \<Rightarrow> None | Some rest \<Rightarrow> inner rest) else inner s)"

definition read_ipv4 :: "bytes \<Rightarrow> bytes option" where
  "read_ipv4 s =
     do {
       s \<leftarrow> read_ip_separated CHR ''.'' 0 (read_ip_number 10 3 False 255) s;
       s \<leftarrow> read_ip_separated CHR ''.'' 1 (read_ip_number 10 3 False 255) s;
       s \<leftarrow> read_ip_separated CHR ''.'' 2 (read_ip_number 10 3 False 255) s;
       read_ip_separated CHR ''.'' 3 (read_ip_number 10 3 False 255) s
     }"

text \<open>The groups of an IPv6 address from index \<open>i\<close> on, of at most \<open>limit\<close>: their number, whether the
  last two were an IPv4 address, and the rest.\<close>

function read_ipv6_groups :: "nat \<Rightarrow> nat \<Rightarrow> bytes \<Rightarrow> nat \<times> bool \<times> bytes" where
  "read_ipv6_groups limit i s =
     (if limit \<le> i then (limit, False, s)
      else
        case (if i + 1 < limit then read_ip_separated CHR '':'' i read_ipv4 s else None) of
          Some rest \<Rightarrow> (i + 2, True, rest)
        | None \<Rightarrow>
            (case read_ip_separated CHR '':'' i (read_ip_number 16 4 True 65535) s of
               None \<Rightarrow> (i, False, s)
             | Some rest \<Rightarrow> read_ipv6_groups limit (i + 1) rest))"
  by auto
termination by (relation "measure (\<lambda>(limit, i, s). limit - i)") auto

declare read_ipv6_groups.simps [simp del]

definition read_ipv6 :: "bytes \<Rightarrow> bytes option" where
  "read_ipv6 s =
     (let (head_size, head_ipv4, s) = read_ipv6_groups 8 0 s in
      if head_size = 8 then Some s
      else if head_ipv4 then None
      else do {
        s \<leftarrow> read_ip_char CHR '':'' s;
        s \<leftarrow> read_ip_char CHR '':'' s;
        let (tail_size, tail_ipv4, s) = read_ipv6_groups (8 - (head_size + 1)) 0 s;
        Some s
      })"

definition is_ip_literal :: "bytes \<Rightarrow> bool" where
  "is_ip_literal s =
     (case read_ipv4 s of
        Some rest \<Rightarrow> rest = []
      | None \<Rightarrow> (case read_ipv6 s of Some rest \<Rightarrow> rest = [] | None \<Rightarrow> False))"

section \<open>The configuration\<close>

type_synonym duration = nat

definition dur_millis :: "nat \<Rightarrow> duration" where "dur_millis n = n * 1000000"
definition as_millis :: "duration \<Rightarrow> nat" where "as_millis d = d div 1000000"
definition as_micros :: "duration \<Rightarrow> nat" where "as_micros d = d div 1000"

fun profile_as_u8 :: "profile \<Rightarrow> u8" where
  "profile_as_u8 Profile_Simple = 0"
| "profile_as_u8 Profile_Main = 1"
| "profile_as_u8 Profile_Advanced = 2"

definition profile_from_u8 :: "u8 \<Rightarrow> profile" where
  "profile_from_u8 v = (if v = 1 then Profile_Main else if v = 2 then Profile_Advanced else Profile_Simple)"

fun profile_as_str :: "profile \<Rightarrow> string" where
  "profile_as_str Profile_Simple = ''simple''"
| "profile_as_str Profile_Main = ''main''"
| "profile_as_str Profile_Advanced = ''advanced''"

datatype nack_type = Nack_Range_Type | Nack_Bitmask_Type

text \<open>Of the DTLS parameters, the ways to authenticate.\<close>

record dtls_auth =
  da_psk :: bool
  da_certificate :: bool
  da_insecure_skip_verify :: bool
  da_peer_cert_fingerprint :: bool

record host_config =
  cf_profile :: profile
  cf_buffer_min :: duration
  cf_buffer_max :: duration
  cf_reorder_buffer :: duration
  cf_rtt_min :: duration
  cf_rtt_max :: duration
  cf_rtt_multiplier :: nat
  cf_min_retries :: nat
  cf_max_retries :: nat
  cf_session_timeout :: duration
  cf_keepalive_interval :: duration
  cf_max_bitrate_kbps :: nat
  cf_congestion_control :: congestion_mode
  cf_timing_mode :: timing_mode
  cf_block_delivery :: bool
  cf_return_bandwidth :: nat
  cf_virt_src_port :: u16
  cf_virt_dst_port :: u16
  cf_nack_type :: nack_type
  cf_cname :: "bytes option"
  cf_secret :: "bytes option"
  cf_aes_key_bits :: "aes_key_bits option"
  cf_key_rotation :: u32
  cf_srp_username :: "bytes option"
  cf_srp_password :: "bytes option"
  cf_srp_compat :: bool
  cf_srp_users :: "(bytes \<times> bytes) list"
  cf_compression :: bool
  cf_recovery_depth :: "u8 option"
  cf_adv_sender_start_main :: bool
  cf_drop_advanced_rtt_echo_request :: bool
  cf_fragment_size :: nat
  cf_null_packet_deletion :: bool
  cf_one_way :: bool
  cf_weight :: nat
  cf_split_mode :: split_mode
  cf_merge_mode :: merge_mode
  cf_local_port :: u16
  cf_source_adaptation :: bool
  cf_min_bitrate_kbps :: nat
  cf_on_rate_adapt :: bool
  cf_on_flow_attr :: bool
  cf_on_connect :: bool
  cf_on_disconnect :: bool
  cf_fec :: "host_fec_config option"
  cf_dtls :: "dtls_auth option"
  cf_interface :: "bytes option"
  cf_multicast_ttl :: u8
  cf_multicast_source :: "bytes option"
  cf_multicast_loopback :: bool

definition config_default :: host_config where
  "config_default =
     \<lparr>cf_profile = Profile_Advanced, cf_buffer_min = dur_millis 1000, cf_buffer_max = dur_millis 1000,
      cf_reorder_buffer = dur_millis 15, cf_rtt_min = dur_millis 5, cf_rtt_max = dur_millis 500,
      cf_rtt_multiplier = 7, cf_min_retries = 6, cf_max_retries = 20, cf_session_timeout = dur_millis 2000,
      cf_keepalive_interval = dur_millis 1000, cf_max_bitrate_kbps = 100000, cf_congestion_control = Normal,
      cf_timing_mode = Source, cf_block_delivery = False, cf_return_bandwidth = 0, cf_virt_src_port = 1971,
      cf_virt_dst_port = 1968, cf_nack_type = Nack_Range_Type, cf_cname = None, cf_secret = None,
      cf_aes_key_bits = None, cf_key_rotation = 0, cf_srp_username = None, cf_srp_password = None,
      cf_srp_compat = False, cf_srp_users = [], cf_compression = False, cf_recovery_depth = None,
      cf_adv_sender_start_main = False, cf_drop_advanced_rtt_echo_request = True, cf_fragment_size = 0,
      cf_null_packet_deletion = False, cf_one_way = False, cf_weight = 0, cf_split_mode = Split_Off,
      cf_merge_mode = Merge_Off, cf_local_port = 0, cf_source_adaptation = False, cf_min_bitrate_kbps = 500,
      cf_on_rate_adapt = False, cf_on_flow_attr = False, cf_on_connect = False, cf_on_disconnect = False,
      cf_fec = None, cf_dtls = None, cf_interface = None, cf_multicast_ttl = 0, cf_multicast_source = None,
      cf_multicast_loopback = False\<rparr>"

section \<open>The builder\<close>

definition with_buffer :: "duration \<Rightarrow> host_config \<Rightarrow> host_config" where
  "with_buffer d c = c\<lparr>cf_buffer_min := d, cf_buffer_max := d\<rparr>"

definition with_buffer_range :: "duration \<Rightarrow> duration \<Rightarrow> host_config \<Rightarrow> host_config" where
  "with_buffer_range mn mx c = c\<lparr>cf_buffer_min := mn, cf_buffer_max := mx\<rparr>"

definition with_rtt :: "duration \<Rightarrow> duration \<Rightarrow> host_config \<Rightarrow> host_config" where
  "with_rtt mn mx c = c\<lparr>cf_rtt_min := mn, cf_rtt_max := mx\<rparr>"

definition with_retries :: "nat \<Rightarrow> nat \<Rightarrow> host_config \<Rightarrow> host_config" where
  "with_retries mn mx c = c\<lparr>cf_min_retries := mn, cf_max_retries := mx\<rparr>"

definition with_srp_credentials :: "bytes \<Rightarrow> bytes \<Rightarrow> host_config \<Rightarrow> host_config" where
  "with_srp_credentials user password c = c\<lparr>cf_srp_username := Some user, cf_srp_password := Some password\<rparr>"

definition with_srp_users :: "(bytes \<times> bytes) list \<Rightarrow> host_config \<Rightarrow> host_config" where
  "with_srp_users users c = c\<lparr>cf_srp_users := cf_srp_users c @ users\<rparr>"

definition with_profile :: "profile \<Rightarrow> host_config \<Rightarrow> host_config" where
  "with_profile x c = c\<lparr>cf_profile := x\<rparr>"

definition with_nack_type :: "nack_type \<Rightarrow> host_config \<Rightarrow> host_config" where
  "with_nack_type x c = c\<lparr>cf_nack_type := x\<rparr>"

definition with_keepalive :: "duration \<Rightarrow> host_config \<Rightarrow> host_config" where
  "with_keepalive x c = c\<lparr>cf_keepalive_interval := x\<rparr>"

definition with_session_timeout :: "duration \<Rightarrow> host_config \<Rightarrow> host_config" where
  "with_session_timeout x c = c\<lparr>cf_session_timeout := x\<rparr>"

definition with_key_rotation :: "u32 \<Rightarrow> host_config \<Rightarrow> host_config" where
  "with_key_rotation x c = c\<lparr>cf_key_rotation := x\<rparr>"

definition with_srp_compat :: "bool \<Rightarrow> host_config \<Rightarrow> host_config" where
  "with_srp_compat x c = c\<lparr>cf_srp_compat := x\<rparr>"

definition with_compression :: "bool \<Rightarrow> host_config \<Rightarrow> host_config" where
  "with_compression x c = c\<lparr>cf_compression := x\<rparr>"

definition with_adv_sender_start_main :: "bool \<Rightarrow> host_config \<Rightarrow> host_config" where
  "with_adv_sender_start_main x c = c\<lparr>cf_adv_sender_start_main := x\<rparr>"

definition with_drop_advanced_rtt_echo_request :: "bool \<Rightarrow> host_config \<Rightarrow> host_config" where
  "with_drop_advanced_rtt_echo_request x c = c\<lparr>cf_drop_advanced_rtt_echo_request := x\<rparr>"

definition with_fragment_size :: "nat \<Rightarrow> host_config \<Rightarrow> host_config" where
  "with_fragment_size x c = c\<lparr>cf_fragment_size := x\<rparr>"

definition with_null_packet_deletion :: "bool \<Rightarrow> host_config \<Rightarrow> host_config" where
  "with_null_packet_deletion x c = c\<lparr>cf_null_packet_deletion := x\<rparr>"

definition with_one_way :: "bool \<Rightarrow> host_config \<Rightarrow> host_config" where
  "with_one_way x c = c\<lparr>cf_one_way := x\<rparr>"

definition with_weight :: "nat \<Rightarrow> host_config \<Rightarrow> host_config" where
  "with_weight x c = c\<lparr>cf_weight := x\<rparr>"

definition with_local_port :: "u16 \<Rightarrow> host_config \<Rightarrow> host_config" where
  "with_local_port x c = c\<lparr>cf_local_port := x\<rparr>"

definition with_split_mode :: "split_mode \<Rightarrow> host_config \<Rightarrow> host_config" where
  "with_split_mode x c = c\<lparr>cf_split_mode := x\<rparr>"

definition with_merge_mode :: "merge_mode \<Rightarrow> host_config \<Rightarrow> host_config" where
  "with_merge_mode x c = c\<lparr>cf_merge_mode := x\<rparr>"

definition with_source_adaptation :: "bool \<Rightarrow> host_config \<Rightarrow> host_config" where
  "with_source_adaptation x c = c\<lparr>cf_source_adaptation := x\<rparr>"

definition with_min_bitrate :: "nat \<Rightarrow> host_config \<Rightarrow> host_config" where
  "with_min_bitrate x c = c\<lparr>cf_min_bitrate_kbps := x\<rparr>"

definition with_congestion_control :: "congestion_mode \<Rightarrow> host_config \<Rightarrow> host_config" where
  "with_congestion_control x c = c\<lparr>cf_congestion_control := x\<rparr>"

definition with_timing_mode :: "timing_mode \<Rightarrow> host_config \<Rightarrow> host_config" where
  "with_timing_mode x c = c\<lparr>cf_timing_mode := x\<rparr>"

definition with_block_delivery :: "bool \<Rightarrow> host_config \<Rightarrow> host_config" where
  "with_block_delivery x c = c\<lparr>cf_block_delivery := x\<rparr>"

definition with_return_bandwidth :: "nat \<Rightarrow> host_config \<Rightarrow> host_config" where
  "with_return_bandwidth x c = c\<lparr>cf_return_bandwidth := x\<rparr>"

definition with_multicast_ttl :: "u8 \<Rightarrow> host_config \<Rightarrow> host_config" where
  "with_multicast_ttl x c = c\<lparr>cf_multicast_ttl := x\<rparr>"

definition with_multicast_loopback :: "bool \<Rightarrow> host_config \<Rightarrow> host_config" where
  "with_multicast_loopback x c = c\<lparr>cf_multicast_loopback := x\<rparr>"

definition with_secret :: "bytes \<Rightarrow> host_config \<Rightarrow> host_config" where
  "with_secret x c = c\<lparr>cf_secret := Some x\<rparr>"

definition with_aes_key_bits :: "aes_key_bits \<Rightarrow> host_config \<Rightarrow> host_config" where
  "with_aes_key_bits x c = c\<lparr>cf_aes_key_bits := Some x\<rparr>"

definition with_recovery_depth :: "u8 \<Rightarrow> host_config \<Rightarrow> host_config" where
  "with_recovery_depth x c = c\<lparr>cf_recovery_depth := Some x\<rparr>"

definition with_multicast_interface :: "bytes \<Rightarrow> host_config \<Rightarrow> host_config" where
  "with_multicast_interface x c = c\<lparr>cf_interface := Some x\<rparr>"

definition with_multicast_source :: "bytes \<Rightarrow> host_config \<Rightarrow> host_config" where
  "with_multicast_source x c = c\<lparr>cf_multicast_source := Some x\<rparr>"

definition with_cname :: "bytes \<Rightarrow> host_config \<Rightarrow> host_config" where
  "with_cname x c = c\<lparr>cf_cname := Some x\<rparr>"

definition with_fec :: "host_fec_config \<Rightarrow> host_config \<Rightarrow> host_config" where
  "with_fec x c = c\<lparr>cf_fec := Some x\<rparr>"

definition with_dtls :: "dtls_auth \<Rightarrow> host_config \<Rightarrow> host_config" where
  "with_dtls x c = c\<lparr>cf_dtls := Some x\<rparr>"

definition with_rate_callback :: "host_config \<Rightarrow> host_config" where
  "with_rate_callback c = c\<lparr>cf_on_rate_adapt := True\<rparr>"

definition with_flow_attr_callback :: "host_config \<Rightarrow> host_config" where
  "with_flow_attr_callback c = c\<lparr>cf_on_flow_attr := True\<rparr>"

definition with_connect_callback :: "host_config \<Rightarrow> host_config" where
  "with_connect_callback c = c\<lparr>cf_on_connect := True\<rparr>"

definition with_disconnect_callback :: "host_config \<Rightarrow> host_config" where
  "with_disconnect_callback c = c\<lparr>cf_on_disconnect := True\<rparr>"

section \<open>Validation\<close>

datatype config_error =
    Buffer_Out_Of_Range nat
  | Buffer_Range_Inverted
  | Reorder_Too_Large
  | Rtt_Out_Of_Range
  | Rtt_Range_Inverted
  | Rtt_Multiplier_Out_Of_Range nat
  | Recovery_Depth_Out_Of_Range u8
  | Retries_Out_Of_Range
  | Retries_Inverted
  | Keepalive_Zero
  | Session_Timeout_Below_Keepalive
  | Max_Bitrate_Zero
  | Profile_Feature_Unsupported string string
  | Multicast_Interface_Not_Found bytes
  | Multicast_Source_Invalid bytes
  | One_Way_With_Auth
  | Config_Fec fec_config_error
  | Dtls_Invalid string

definition recovery_depth_max :: u8 where "recovery_depth_max = 16"

fun profile_name :: "profile \<Rightarrow> string" where
  "profile_name Profile_Simple = ''Simple''"
| "profile_name Profile_Main = ''Main''"
| "profile_name Profile_Advanced = ''Advanced''"

text \<open>Each group of checks returns the first violation.\<close>

definition has_srp :: "host_config \<Rightarrow> bool" where
  "has_srp c \<longleftrightarrow> cf_srp_username c \<noteq> None \<or> cf_srp_password c \<noteq> None \<or> cf_srp_users c \<noteq> []"

definition check_ranges :: "host_config \<Rightarrow> config_error option" where
  "check_ranges c =
     (if as_millis (cf_buffer_min c) < 50 \<or> 30000 < as_millis (cf_buffer_min c)
      then Some (Buffer_Out_Of_Range (as_millis (cf_buffer_min c)))
      else if cf_buffer_max c < cf_buffer_min c then Some Buffer_Range_Inverted
      else if cf_buffer_min c < cf_reorder_buffer c then Some Reorder_Too_Large
      else if as_millis (cf_rtt_min c) < 1 \<or> 1000 < as_millis (cf_rtt_min c) then Some Rtt_Out_Of_Range
      else if cf_rtt_max c < cf_rtt_min c \<or> 1000 < as_millis (cf_rtt_max c) then Some Rtt_Range_Inverted
      else if cf_rtt_multiplier c < 1 \<or> 100 < cf_rtt_multiplier c
      then Some (Rtt_Multiplier_Out_Of_Range (cf_rtt_multiplier c))
      else if 100 < cf_min_retries c \<or> 100 < cf_max_retries c then Some Retries_Out_Of_Range
      else if cf_max_retries c < cf_min_retries c then Some Retries_Inverted
      else if cf_keepalive_interval c = 0 then Some Keepalive_Zero
      else if cf_session_timeout c < cf_keepalive_interval c then Some Session_Timeout_Below_Keepalive
      else if cf_max_bitrate_kbps c = 0 then Some Max_Bitrate_Zero
      else if cf_one_way c \<and> has_srp c then Some One_Way_With_Auth
      else None)"

definition check_knobs :: "host_config \<Rightarrow> config_error option" where
  "check_knobs c =
     (let adv = (cf_profile c = Profile_Advanced); name = profile_name (cf_profile c) in
      if cf_block_delivery c \<and> cf_profile c \<noteq> Profile_Main
      then Some (Profile_Feature_Unsupported ''per-packet block delivery'' name)
      else if cf_on_flow_attr c \<and> \<not> adv then Some (Profile_Feature_Unsupported ''flow attributes'' name)
      else if cf_recovery_depth c \<noteq> None \<and> \<not> adv then Some (Profile_Feature_Unsupported ''recovery depth'' name)
      else if cf_adv_sender_start_main c \<and> \<not> adv
      then Some (Profile_Feature_Unsupported ''Advanced sender Main fallback'' name)
      else if \<not> cf_drop_advanced_rtt_echo_request c \<and> \<not> adv
      then Some (Profile_Feature_Unsupported ''answering Advanced RTT-echo'' name)
      else case cf_recovery_depth c of
        Some depth \<Rightarrow> if recovery_depth_max < depth then Some (Recovery_Depth_Out_Of_Range depth) else None
      | None \<Rightarrow> None)"

fun check_profile :: "profile \<Rightarrow> host_config \<Rightarrow> config_error option" where
  "check_profile Profile_Simple c =
     (if cf_secret c \<noteq> None then Some (Profile_Feature_Unsupported ''PSK encryption (secret)'' ''Simple'')
      else if has_srp c then Some (Profile_Feature_Unsupported ''EAP-SRP authentication'' ''Simple'')
      else if cf_compression c then Some (Profile_Feature_Unsupported ''LZ4 compression'' ''Simple'')
      else if cf_null_packet_deletion c then Some (Profile_Feature_Unsupported ''null-packet deletion'' ''Simple'')
      else if cf_fragment_size c \<noteq> 0 then Some (Profile_Feature_Unsupported ''payload fragmentation'' ''Simple'')
      else None)"
| "check_profile Profile_Main c =
     (if cf_compression c then Some (Profile_Feature_Unsupported ''LZ4 compression'' ''Main'')
      else if cf_fragment_size c \<noteq> 0 then Some (Profile_Feature_Unsupported ''payload fragmentation'' ''Main'')
      else if cf_aes_key_bits c = Some Aes192 then Some (Profile_Feature_Unsupported ''192-bit AES keys'' ''Main'')
      else None)"
| "check_profile Profile_Advanced c =
     (if cf_null_packet_deletion c then Some (Profile_Feature_Unsupported ''null-packet deletion'' ''Advanced'')
      else None)"

definition check_fec :: "host_config \<Rightarrow> config_error option" where
  "check_fec c =
     (case cf_fec c of
        None \<Rightarrow> None
      | Some fec \<Rightarrow> (case fec_validate fec (cf_profile c) of Inl e \<Rightarrow> Some (Config_Fec e) | Inr _ \<Rightarrow> None))"

definition validate_dtls :: "host_config \<Rightarrow> config_error option" where
  "validate_dtls c =
     (case cf_dtls c of
        None \<Rightarrow> None
      | Some dtls \<Rightarrow>
          if cf_profile c \<noteq> Profile_Main
          then Some (Profile_Feature_Unsupported ''DTLS'' (profile_name (cf_profile c)))
          else if cf_secret c \<noteq> None
          then Some (Dtls_Invalid ''DTLS and the GRE PSK secret are mutually exclusive'')
          else if cf_srp_username c \<noteq> None \<or> cf_srp_password c \<noteq> None
          then Some (Dtls_Invalid ''DTLS and EAP-SRP authentication are mutually exclusive'')
          else if \<not> da_psk dtls \<and> \<not> da_certificate dtls \<and> \<not> da_insecure_skip_verify dtls
            \<and> \<not> da_peer_cert_fingerprint dtls
          then Some (Dtls_Invalid ''DTLS needs at least one authentication method (PSK or certificate)'')
          else if cf_fec c \<noteq> None
          then Some (Dtls_Invalid ''DTLS and forward error correction are not supported together'')
          else None)"

text \<open>\<open>known\<close>: the names of the interfaces of the host.\<close>

definition check_multicast :: "(bytes \<Rightarrow> bool) \<Rightarrow> host_config \<Rightarrow> config_error option" where
  "check_multicast known c =
     (case cf_interface c of
        Some name \<Rightarrow>
          if \<not> known name then Some (Multicast_Interface_Not_Found name)
          else (case cf_multicast_source c of
                  Some src \<Rightarrow> if is_ip_literal src then None else Some (Multicast_Source_Invalid src)
                | None \<Rightarrow> None)
      | None \<Rightarrow>
          (case cf_multicast_source c of
             Some src \<Rightarrow> if is_ip_literal src then None else Some (Multicast_Source_Invalid src)
           | None \<Rightarrow> None))"

fun first_violation :: "config_error option list \<Rightarrow> config_error + unit" where
  "first_violation [] = Inr ()"
| "first_violation (None # vs) = first_violation vs"
| "first_violation (Some e # vs) = Inl e"

definition validate_config :: "(bytes \<Rightarrow> bool) \<Rightarrow> host_config \<Rightarrow> config_error + unit" where
  "validate_config known c =
     first_violation [check_ranges c, check_knobs c, check_profile (cf_profile c) c, check_fec c, validate_dtls c,
       check_multicast known c]"

section \<open>What the session derives\<close>

definition dur_to_micros :: "duration \<Rightarrow> micros" where
  "dur_to_micros d = min (int (as_micros d)) i64_max"

definition effective_rtt_bounds :: "host_config \<Rightarrow> micros \<times> micros" where
  "effective_rtt_bounds c =
     (let rtt_min = dur_to_micros (cf_rtt_min c);
          rtt_min =
            (if 0 < cf_max_retries c then
               let low = trunc_div (dur_to_micros (cf_buffer_min c)) (int (cf_max_retries c))
               in if rtt_min < low then low else rtt_min
             else rtt_min)
      in (rtt_min, max (dur_to_micros (cf_rtt_max c)) rtt_min))"

definition flow_config :: "host_config \<Rightarrow> u32 \<Rightarrow> u32 \<Rightarrow> config" where
  "flow_config c ssrc first =
     (let (rtt_min, rtt_max) = effective_rtt_bounds c in
      \<lparr>recovery_buffer_min = dur_to_micros (cf_buffer_min c), recovery_buffer_max = dur_to_micros (cf_buffer_max c),
       reorder_buffer = dur_to_micros (cf_reorder_buffer c), cfg_rtt_min = rtt_min, cfg_rtt_max = rtt_max,
       rtt_multiplier = cf_rtt_multiplier c, min_retries = cf_min_retries c, max_retries = cf_max_retries c,
       ring_size = (case cf_recovery_depth c of None \<Rightarrow> 0 | Some d \<Rightarrow> min (2 ^ (16 + unat d)) (2 ^ 24)),
       recovery_maxbitrate = cf_max_bitrate_kbps c, congestion_control = cf_congestion_control c, cfg_ssrc = ssrc,
       start_seq = first, no_recovery = cf_one_way c, cfg_timing_mode = cf_timing_mode c,
       return_maxbitrate = cf_return_bandwidth c\<rparr>)"

definition build_fec :: "host_config \<Rightarrow> fec_state option" where
  "build_fec c = map_option (\<lambda>f. fs_new f (cf_profile c)) (cf_fec c)"

definition default_cname :: bytes where "default_cname = ascii ''ristrust''"

definition cname_of :: "host_config \<Rightarrow> bytes" where
  "cname_of c = (case cf_cname c of Some n \<Rightarrow> n | None \<Rightarrow> default_cname)"

definition bitmask_of :: "host_config \<Rightarrow> bool" where
  "bitmask_of c \<longleftrightarrow> cf_nack_type c = Nack_Bitmask_Type"

record adv_opts =
  ao_sender_start_main :: bool
  ao_drop_rtt_echo_request :: bool

definition adv_opts_of :: "host_config \<Rightarrow> adv_opts" where
  "adv_opts_of c =
     \<lparr>ao_sender_start_main = cf_adv_sender_start_main c,
      ao_drop_rtt_echo_request = cf_drop_advanced_rtt_echo_request c\<rparr>"

definition flow_mac :: "u32 \<Rightarrow> bytes" where
  "flow_mac ssrc = [0x02, 0x00] @ be32 ssrc"

text \<open>The random draws are arguments, \<open>None\<close> where the generator of the system fails.\<close>

definition default_flow_ssrc :: u32 where "default_flow_ssrc = 0x52495354"

definition random_even_ssrc :: "u32 option \<Rightarrow> u32" where
  "random_even_ssrc draw = (case draw of None \<Rightarrow> default_flow_ssrc | Some w \<Rightarrow> w AND NOT 1)"

definition random_start_seq :: "u16 option \<Rightarrow> bool \<Rightarrow> u32" where
  "random_start_seq draw evenp =
     (case draw of None \<Rightarrow> 0 | Some w \<Rightarrow> if evenp then ucast w AND NOT 1 else ucast w)"

definition build_psk_keys ::
    "psk_lib \<Rightarrow> (nat \<Rightarrow> bytes option) \<Rightarrow> host_config
     \<Rightarrow> crypto_error + psk_key option \<times> decryptor option \<times> bool" where
  "build_psk_keys L draws c =
     (case cf_secret c of
        None \<Rightarrow> Inr (None, None, False)
      | Some secret \<Rightarrow>
          let bits = (case cf_aes_key_bits c of None \<Rightarrow> Aes256 | Some b \<Rightarrow> b) in
          (case psk_key_new L draws secret bits (cf_key_rotation c) False of
             Inl e \<Rightarrow> Inl e
           | Inr send \<Rightarrow>
               (case decryptor_new secret bits of
                  Inl e \<Rightarrow> Inl e
                | Inr recv \<Rightarrow> Inr (Some send, Some recv, bits = Aes256))))"

definition build_main_codec ::
    "psk_lib \<Rightarrow> (nat \<Rightarrow> bytes option) \<Rightarrow> host_config \<Rightarrow> u32 \<Rightarrow> crypto_error + main_codec" where
  "build_main_codec L draws c ssrc =
     (case build_psk_keys L draws c of
        Inl e \<Rightarrow> Inl e
      | Inr (send, recv, size_256) \<Rightarrow>
          Inr (mc_new send recv size_256 (cf_virt_src_port c) (cf_virt_dst_port c) (cf_null_packet_deletion c) ssrc
            (cname_of c)))"

definition build_adv_codec ::
    "psk_lib \<Rightarrow> (nat \<Rightarrow> bytes option) \<Rightarrow> host_config \<Rightarrow> u32 \<Rightarrow> crypto_error + adv_codec" where
  "build_adv_codec L draws c ssrc =
     (case build_psk_keys L draws c of
        Inl e \<Rightarrow> Inl e
      | Inr (send, recv, _) \<Rightarrow>
          Inr (av_new send recv (cf_compression c) ssrc (cf_virt_src_port c) (cf_virt_dst_port c)))"

definition bonding_group :: "host_config \<Rightarrow> group" where
  "bonding_group c =
     (let (rtt_min, rtt_max) = effective_rtt_bounds c in
      bond_group_new (dur_to_micros (cf_session_timeout c)) (recovery_buffer_of (flow_config c 0 0)) rtt_min rtt_max)"

definition require_bondable :: "host_config \<Rightarrow> string + unit" where
  "require_bondable c =
     (if cf_dtls c \<noteq> None then Inl ''rist: DTLS is not supported with SMPTE 2022-7 bonding''
      else if cf_profile c = Profile_Advanced \<and> cf_srp_username c \<noteq> None
      then Inl ''rist: EAP-SRP is not supported with Advanced-profile bonding (shared media codec)''
      else Inr ())"

definition require_reversible :: "host_config \<Rightarrow> string + unit" where
  "require_reversible c =
     (if cf_dtls c \<noteq> None then Inl ''rist: reversed-role transport does not support DTLS'' else Inr ())"

end
