(* ===== verification/Url.thy ===== *)
theory Url
  imports Host_Config Utf8
begin

text \<open>
  The \<^verbatim>\<open>rist://\<close> URL parser (\<^verbatim>\<open>rist/src/url.rs\<close>): the split into scheme, authority and query,
  percent-decoding, and the fold of the query parameters into a configuration. Strings are their UTF-8 bytes. The
  hash map of parameters is an association list in the order of insertion; what is found in it matters, and,
  where the code walks it, its random order of iteration, which is a parameter of the model.
  An error says what was refused, not how the message is worded.
\<close>

definition max_url_millis :: nat where "max_url_millis = 7 * 24 * 3600 * 1000"

datatype url_error =
    Url_Unsupported_Scheme bytes
  | Url_Malformed_Ipv6
  | Url_No_Port
  | Url_No_Host_Or_Port
  | Url_Unknown_Parameter bytes
  | Url_Not_Integer bytes bytes
  | Url_Not_Port bytes bytes
  | Url_Out_Of_Range bytes
  | Url_Bad_Choice bytes

section \<open>Strings\<close>

text \<open>\<^verbatim>\<open>split_once\<close>: before and after the first occurrence of a non-empty pattern.\<close>

fun split_once :: "bytes \<Rightarrow> bytes \<Rightarrow> (bytes \<times> bytes) option" where
  "split_once pat [] = None"
| "split_once pat (x # xs) =
     (if take (length pat) (x # xs) = pat then Some ([], drop (length pat) (x # xs))
      else map_option (\<lambda>(a, b). (x # a, b)) (split_once pat xs))"

definition rsplit_once :: "u8 \<Rightarrow> bytes \<Rightarrow> (bytes \<times> bytes) option" where
  "rsplit_once c s = map_option (\<lambda>(a, b). (rev b, rev a)) (split_once [c] (rev s))"

fun split_on :: "u8 \<Rightarrow> bytes \<Rightarrow> bytes list" where
  "split_on c [] = [[]]"
| "split_on c (x # xs) =
     (if x = c then [] # split_on c xs
      else case split_on c xs of [] \<Rightarrow> [[x]] | p # ps \<Rightarrow> (x # p) # ps)"

definition strip_prefix :: "u8 \<Rightarrow> bytes \<Rightarrow> bytes option" where
  "strip_prefix c s = (case s of [] \<Rightarrow> None | x # xs \<Rightarrow> if x = c then Some xs else None)"

text \<open>\<^verbatim>\<open>str::parse::<i64>\<close>: an optional sign and digits.\<close>

definition parse_i64 :: "bytes \<Rightarrow> int option" where
  "parse_i64 s =
     (let (negative, ds) =
            (case s of [] \<Rightarrow> (False, [])
             | x # xs \<Rightarrow> if x = char_byte CHR ''-'' then (True, xs)
                        else if x = char_byte CHR ''+'' then (False, xs) else (False, s))
      in if ds = [] \<or> \<not> list_all (is_digit_in 10) ds then None
         else let n = (if negative then - int (digits_value 10 ds) else int (digits_value 10 ds))
              in if - (2 ^ 63) \<le> n \<and> n < 2 ^ 63 then Some n else None)"

text \<open>\<^verbatim>\<open>u8::from_str_radix(hex, 16)\<close> of two characters; a sign \<^verbatim>\<open>+\<close> before the digits is accepted.\<close>

definition hex_pair :: "u8 \<Rightarrow> u8 \<Rightarrow> u8 option" where
  "hex_pair h l =
     (if h = char_byte CHR ''+'' then map_option of_nat (byte_digit 16 l)
      else case (byte_digit 16 h, byte_digit 16 l) of
        (Some a, Some b) \<Rightarrow> Some (of_nat (a * 16 + b))
      | _ \<Rightarrow> None)"

fun percent_bytes :: "bytes \<Rightarrow> bytes" where
  "percent_bytes (b # h # l # rest) =
     (if b = char_byte CHR ''+'' then char_byte CHR '' '' # percent_bytes (h # l # rest)
      else if b = char_byte CHR ''%'' then
        (case hex_pair h l of
           Some x \<Rightarrow> x # percent_bytes rest
         | None \<Rightarrow> b # percent_bytes (h # l # rest))
      else b # percent_bytes (h # l # rest))"
| "percent_bytes (b # rest) =
     (if b = char_byte CHR ''+'' then char_byte CHR '' '' # percent_bytes rest else b # percent_bytes rest)"
| "percent_bytes [] = []"

definition percent_decode :: "bytes \<Rightarrow> bytes" where
  "percent_decode s = from_utf8_lossy (percent_bytes s)"

section \<open>The authority and the query\<close>

definition parse_authority :: "bytes \<Rightarrow> url_error + bytes" where
  "parse_authority authority =
     (case strip_prefix (char_byte CHR ''['') authority of
        Some after \<Rightarrow>
          (case split_once [char_byte CHR '']''] after of
             None \<Rightarrow> Inl Url_Malformed_Ipv6
           | Some (host, tail) \<Rightarrow>
               let port = (case strip_prefix (char_byte CHR '':'') tail of Some p \<Rightarrow> p | None \<Rightarrow> []) in
               if port = [] then Inl Url_No_Port
               else Inr (ascii ''['' @ host @ ascii '']:'' @ port))
      | None \<Rightarrow>
          (case rsplit_once (char_byte CHR '':'') authority of
             None \<Rightarrow> Inl Url_No_Port
           | Some (host, port) \<Rightarrow>
               if port = [] \<or> host = [] then Inl Url_No_Host_Or_Port else Inr (host @ ascii '':'' @ port)))"

type_synonym query = "(bytes \<times> bytes) list"

text \<open>The pair of one piece, and its insertion where the key is not yet present.\<close>

definition query_pair :: "bytes \<Rightarrow> bytes \<times> bytes" where
  "query_pair piece =
     (let (key, v) = (case split_once (ascii ''='') piece of Some kv \<Rightarrow> kv | None \<Rightarrow> (piece, []))
      in (percent_decode key, percent_decode v))"

definition query_insert :: "query \<Rightarrow> bytes \<Rightarrow> query" where
  "query_insert q piece =
     (if piece = [] then q
      else let (key, v) = query_pair piece in if map_of q key = None then q @ [(key, v)] else q)"

definition parse_query :: "bytes \<Rightarrow> query" where
  "parse_query s = foldl query_insert [] (split_on (char_byte CHR ''&'') s)"

definition recognized_url_params :: "string list" where
  "recognized_url_params =
     [''buffer'', ''buffer-min'', ''buffer-max'', ''rtt'', ''rtt-min'', ''rtt-max'', ''rtt-multiplier'',
      ''reorder-buffer'', ''session-timeout'', ''keepalive'', ''keepalive-interval'', ''bandwidth'',
      ''return-bandwidth'', ''weight'', ''aes-type'', ''key-rotation'', ''min-retries'', ''max-retries'',
      ''recovery-depth'', ''virt-src-port'', ''virt-dst-port'', ''local-port'', ''profile'', ''cname'', ''secret'',
      ''username'', ''password'', ''compression'', ''miface'', ''ttl'', ''source'', ''congestion-control'',
      ''timing-mode'', ''split'', ''merge'', ''srp-compat'', ''recovery-priority'', ''reflector'', ''local-port'']"

text \<open>The walk over the hash map stops at the first unknown key of a random order of iteration. Which of the
  unknown keys that is, is the choice \<open>pick\<close>, made anew for every map.\<close>

definition reject_unknown_params :: "(bytes list \<Rightarrow> nat) \<Rightarrow> query \<Rightarrow> url_error option" where
  "reject_unknown_params pick q =
     (let unknown = filter (\<lambda>key. key \<notin> set (map ascii recognized_url_params)) (map fst q)
      in if unknown = [] then None
         else Some (Url_Unknown_Parameter (unknown ! (pick unknown mod length unknown))))"

section \<open>Folding a parameter\<close>

definition url_get :: "query \<Rightarrow> string \<Rightarrow> bytes option" where
  "url_get q key = map_of q (ascii key)"

definition url_int :: "query \<Rightarrow> string \<Rightarrow> url_error + int option" where
  "url_int q key =
     (case url_get q key of
        None \<Rightarrow> Inr None
      | Some v \<Rightarrow> (case parse_i64 v of None \<Rightarrow> Inl (Url_Not_Integer (ascii key) v) | Some n \<Rightarrow> Inr (Some n)))"

definition url_millis :: "query \<Rightarrow> string \<Rightarrow> url_error + duration option" where
  "url_millis q key =
     (case url_int q key of
        Inl e \<Rightarrow> Inl e
      | Inr None \<Rightarrow> Inr None
      | Inr (Some n) \<Rightarrow>
          if n < 0 \<or> int max_url_millis < n then Inl (Url_Out_Of_Range (ascii key))
          else Inr (Some (dur_millis (nat n))))"

definition clamp_u32 :: "string \<Rightarrow> int \<Rightarrow> url_error + nat" where
  "clamp_u32 key n = (if n < 0 \<or> 2 ^ 32 \<le> n then Inl (Url_Out_Of_Range (ascii key)) else Inr (nat n))"

text \<open>A step reads one parameter and updates the configuration when it is present.\<close>

type_synonym url_step = "query \<Rightarrow> host_config \<Rightarrow> url_error + host_config"

definition step_millis :: "string \<Rightarrow> (duration \<Rightarrow> host_config \<Rightarrow> host_config) \<Rightarrow> url_step" where
  "step_millis key upd q c =
     (case url_millis q key of Inl e \<Rightarrow> Inl e | Inr None \<Rightarrow> Inr c | Inr (Some d) \<Rightarrow> Inr (upd d c))"

definition step_int :: "string \<Rightarrow> (int \<Rightarrow> host_config \<Rightarrow> url_error + host_config) \<Rightarrow> url_step" where
  "step_int key upd q c =
     (case url_int q key of Inl e \<Rightarrow> Inl e | Inr None \<Rightarrow> Inr c | Inr (Some n) \<Rightarrow> upd n c)"

definition step_u32 :: "string \<Rightarrow> (nat \<Rightarrow> host_config \<Rightarrow> host_config) \<Rightarrow> url_step" where
  "step_u32 key upd =
     step_int key (\<lambda>n c. case clamp_u32 key n of Inl e \<Rightarrow> Inl e | Inr k \<Rightarrow> Inr (upd k c))"

definition step_port :: "string \<Rightarrow> (u16 \<Rightarrow> host_config \<Rightarrow> host_config) \<Rightarrow> url_step" where
  "step_port key upd q c =
     (case url_get q key of
        None \<Rightarrow> Inr c
      | Some v \<Rightarrow>
          (case parse_i64 v of
             None \<Rightarrow> Inl (Url_Not_Port (ascii key) v)
           | Some n \<Rightarrow> if n < 0 \<or> 65535 < n then Inl (Url_Not_Port (ascii key) v) else Inr (upd (of_int n) c)))"

definition step_string :: "string \<Rightarrow> (bytes \<Rightarrow> host_config \<Rightarrow> host_config) \<Rightarrow> url_step" where
  "step_string key upd q c = (case url_get q key of None \<Rightarrow> Inr c | Some v \<Rightarrow> Inr (upd v c))"

text \<open>A choice between words, or between numbers.\<close>

definition step_word :: "string \<Rightarrow> (bytes \<Rightarrow> (host_config \<Rightarrow> host_config) option) \<Rightarrow> url_step" where
  "step_word key pick q c =
     (case url_get q key of
        None \<Rightarrow> Inr c
      | Some v \<Rightarrow> (case pick v of None \<Rightarrow> Inl (Url_Bad_Choice (ascii key)) | Some upd \<Rightarrow> Inr (upd c)))"

definition step_choice :: "string \<Rightarrow> (int \<Rightarrow> (host_config \<Rightarrow> host_config) option) \<Rightarrow> url_step" where
  "step_choice key pick =
     step_int key (\<lambda>n c. case pick n of None \<Rightarrow> Inl (Url_Bad_Choice (ascii key)) | Some upd \<Rightarrow> Inr (upd c))"

fun url_steps :: "url_step list \<Rightarrow> url_step" where
  "url_steps [] q c = Inr c"
| "url_steps (f # fs) q c = (case f q c of Inl e \<Rightarrow> Inl e | Inr c \<Rightarrow> url_steps fs q c)"

section \<open>The parameters, in the order they are applied\<close>

definition aes_choice :: "int \<Rightarrow> (host_config \<Rightarrow> host_config) option" where
  "aes_choice n =
     map_option (\<lambda>b c. c\<lparr>cf_aes_key_bits := Some b\<rparr>)
       (if n = 128 then Some Aes128 else if n = 192 then Some Aes192 else if n = 256 then Some Aes256 else None)"

definition profile_choice :: "int \<Rightarrow> (host_config \<Rightarrow> host_config) option" where
  "profile_choice n =
     map_option (\<lambda>p c. c\<lparr>cf_profile := p\<rparr>)
       (if n = 0 then Some Profile_Simple else if n = 1 then Some Profile_Main
        else if n = 2 then Some Profile_Advanced else None)"

definition depth_choice :: "int \<Rightarrow> (host_config \<Rightarrow> host_config) option" where
  "depth_choice n =
     (if 0 \<le> n \<and> n \<le> uint recovery_depth_max
      then Some (\<lambda>c. c\<lparr>cf_recovery_depth := Some (of_int n)\<rparr>) else None)"

definition congestion_choice :: "int \<Rightarrow> (host_config \<Rightarrow> host_config) option" where
  "congestion_choice n =
     map_option (\<lambda>m c. c\<lparr>cf_congestion_control := m\<rparr>)
       (if n = 0 then Some Off else if n = 1 then Some Normal else if n = 2 then Some Aggressive else None)"

definition timing_choice :: "int \<Rightarrow> (host_config \<Rightarrow> host_config) option" where
  "timing_choice n =
     map_option (\<lambda>m c. c\<lparr>cf_timing_mode := m\<rparr>)
       (if n = 0 then Some Source else if n = 1 \<or> n = 2 then Some Arrival else None)"

definition split_choice :: "bytes \<Rightarrow> (host_config \<Rightarrow> host_config) option" where
  "split_choice v =
     map_option (\<lambda>m c. c\<lparr>cf_split_mode := m\<rparr>)
       (if v = ascii ''off'' then Some Split_Off
        else if v = ascii ''auto'' \<or> v = ascii ''ts'' then Some Split_Auto
        else if v = ascii ''half'' then Some Half else None)"

definition merge_choice :: "bytes \<Rightarrow> (host_config \<Rightarrow> host_config) option" where
  "merge_choice v =
     map_option (\<lambda>m c. c\<lparr>cf_merge_mode := m\<rparr>)
       (if v = ascii ''off'' then Some Merge_Off
        else if v = ascii ''pairs'' then Some Pairs
        else if v = ascii ''auto'' then Some Merge_Auto else None)"

definition apply_enum_params :: url_step where
  "apply_enum_params =
     url_steps
       [step_choice ''aes-type'' aes_choice, step_choice ''profile'' profile_choice,
        step_choice ''recovery-depth'' depth_choice, step_choice ''congestion-control'' congestion_choice,
        step_u32 ''return-bandwidth'' (\<lambda>n c. c\<lparr>cf_return_bandwidth := n\<rparr>),
        step_choice ''timing-mode'' timing_choice, step_word ''split'' split_choice,
        step_word ''merge'' merge_choice]"

definition ttl_value :: "int \<Rightarrow> host_config \<Rightarrow> url_error + host_config" where
  "ttl_value n c =
     (if n < 0 \<or> 255 < n then Inl (Url_Bad_Choice (ascii ''ttl'')) else Inr (c\<lparr>cf_multicast_ttl := of_int n\<rparr>))"

definition apply_string_and_feature_params :: url_step where
  "apply_string_and_feature_params =
     url_steps
       [step_string ''cname'' (\<lambda>v c. c\<lparr>cf_cname := Some v\<rparr>),
        step_string ''secret'' (\<lambda>v c. c\<lparr>cf_secret := Some v\<rparr>),
        step_string ''miface'' (\<lambda>v c. c\<lparr>cf_interface := Some v\<rparr>),
        step_int ''ttl'' ttl_value,
        step_string ''source'' (\<lambda>v c. c\<lparr>cf_multicast_source := Some v\<rparr>),
        step_string ''username'' (\<lambda>v c. c\<lparr>cf_srp_username := Some v\<rparr>),
        step_string ''password'' (\<lambda>v c. c\<lparr>cf_srp_password := Some v\<rparr>),
        step_int ''compression'' (\<lambda>n c. Inr (c\<lparr>cf_compression := (n \<noteq> 0)\<rparr>)),
        step_u32 ''key-rotation'' (\<lambda>n c. c\<lparr>cf_key_rotation := of_nat n\<rparr>),
        step_int ''srp-compat'' (\<lambda>n c. Inr (c\<lparr>cf_srp_compat := (n \<noteq> 0)\<rparr>)),
        step_u32 ''weight'' (\<lambda>n c. c\<lparr>cf_weight := n\<rparr>)]"

definition apply_query :: "(bytes list \<Rightarrow> nat) \<Rightarrow> url_step" where
  "apply_query pick q c =
     (case reject_unknown_params pick q of
        Some e \<Rightarrow> Inl e
      | None \<Rightarrow>
          url_steps
            [step_millis ''buffer'' (\<lambda>d c. c\<lparr>cf_buffer_min := d, cf_buffer_max := d\<rparr>),
             step_millis ''rtt'' (\<lambda>d c. c\<lparr>cf_rtt_min := d, cf_rtt_max := d\<rparr>),
             step_millis ''buffer-min'' (\<lambda>d c. c\<lparr>cf_buffer_min := d\<rparr>),
             step_millis ''buffer-max'' (\<lambda>d c. c\<lparr>cf_buffer_max := d\<rparr>),
             step_millis ''rtt-min'' (\<lambda>d c. c\<lparr>cf_rtt_min := d\<rparr>),
             step_millis ''rtt-max'' (\<lambda>d c. c\<lparr>cf_rtt_max := d\<rparr>),
             step_millis ''reorder-buffer'' (\<lambda>d c. c\<lparr>cf_reorder_buffer := d\<rparr>),
             step_millis ''session-timeout'' (\<lambda>d c. c\<lparr>cf_session_timeout := d\<rparr>),
             step_millis ''keepalive'' (\<lambda>d c. c\<lparr>cf_keepalive_interval := d\<rparr>),
             step_millis ''keepalive-interval'' (\<lambda>d c. c\<lparr>cf_keepalive_interval := d\<rparr>),
             step_u32 ''rtt-multiplier'' (\<lambda>n c. c\<lparr>cf_rtt_multiplier := n\<rparr>),
             step_u32 ''bandwidth'' (\<lambda>n c. c\<lparr>cf_max_bitrate_kbps := n\<rparr>),
             step_u32 ''min-retries'' (\<lambda>n c. c\<lparr>cf_min_retries := n\<rparr>),
             step_u32 ''max-retries'' (\<lambda>n c. c\<lparr>cf_max_retries := n\<rparr>),
             step_port ''virt-src-port'' (\<lambda>n c. c\<lparr>cf_virt_src_port := n\<rparr>),
             step_port ''virt-dst-port'' (\<lambda>n c. c\<lparr>cf_virt_dst_port := n\<rparr>),
             step_port ''local-port'' (\<lambda>n c. c\<lparr>cf_local_port := n\<rparr>),
             apply_enum_params, apply_string_and_feature_params] q c)"

definition parse_url ::
    "(bytes list \<Rightarrow> nat) \<Rightarrow> bytes \<Rightarrow> host_config \<Rightarrow> url_error + bytes \<times> host_config" where
  "parse_url pick raw base =
     (case split_once (ascii ''://'') raw of
        None \<Rightarrow> Inr (raw, base)
      | Some (scheme, rest) \<Rightarrow>
          if scheme \<noteq> ascii ''rist'' then Inl (Url_Unsupported_Scheme scheme)
          else
            let (authority, query) =
                  (case split_once (ascii ''?'') rest of Some aq \<Rightarrow> aq | None \<Rightarrow> (rest, []));
                authority = hd (split_on (char_byte CHR ''/'') authority)
            in (case parse_authority authority of
                  Inl e \<Rightarrow> Inl e
                | Inr addr \<Rightarrow>
                    (case apply_query pick (parse_query query) base of
                       Inl e \<Rightarrow> Inl e
                     | Inr cfg \<Rightarrow> Inr (addr, cfg))))"

end
