(* ===== verification/Url_Props.thy ===== *)
theory Url_Props
  imports Url Flow_Inv "HOL-Library.Multiset"
begin

text \<open>
  From a URL to a running flow: the order of the parameters does not matter, any string can be carried,
  and a validated configuration gives a flow that never panics, with one exception.
\<close>

section \<open>A validated configuration\<close>

lemma validate_config_ok:
  assumes "validate_config known c = Inr ()"
  shows "check_ranges c = None" "check_knobs c = None" "check_profile (cf_profile c) c = None" "check_fec c = None"
    "validate_dtls c = None" "check_multicast known c = None"
proof -
  have "first_violation (v # vs) = Inr () \<longleftrightarrow> v = None \<and> first_violation vs = Inr ()" for v vs
    by (cases v) simp_all
  then show "check_ranges c = None" "check_knobs c = None" "check_profile (cf_profile c) c = None" "check_fec c = None"
    "validate_dtls c = None" "check_multicast known c = None"
    using assms by (simp_all add: validate_config_def)
qed

lemma validated_ranges:
  assumes "validate_config known c = Inr ()"
  shows "cf_buffer_min c \<le> cf_buffer_max c" "cf_rtt_min c \<le> cf_rtt_max c" "as_millis (cf_buffer_min c) \<le> 30000"
    "as_millis (cf_rtt_max c) \<le> 1000"
  using validate_config_ok(1) [OF assms] by (auto simp: check_ranges_def not_less split: if_splits)

lemma dur_to_micros_mono: "a \<le> b \<Longrightarrow> dur_to_micros a \<le> dur_to_micros b"
  by (auto simp: dur_to_micros_def as_micros_def intro: div_le_mono min.mono)

lemma dur_to_micros_millis: "n \<le> 30000 \<Longrightarrow> dur_to_micros (dur_millis n) = int n * 1000"
  by (simp add: dur_to_micros_def as_micros_def dur_millis_def)

lemma dur_to_micros_nonneg: "0 \<le> dur_to_micros d"
  by (simp add: dur_to_micros_def)

lemma flow_config_rtt:
  "cfg_rtt_min (flow_config c ssrc first) = fst (effective_rtt_bounds c)"
  "cfg_rtt_max (flow_config c ssrc first) = max (dur_to_micros (cf_rtt_max c)) (fst (effective_rtt_bounds c))"
  by (simp_all add: flow_config_def effective_rtt_bounds_def Let_def)

lemma flow_config_ring: "ring_size (flow_config c ssrc first) \<le> 2 ^ 24"
  by (cases "effective_rtt_bounds c") (auto simp: flow_config_def split: option.split)

text \<open>C2: A validated configuration runs in a release build, where signed 64-bit arithmetic the code does not check
  wraps. Whatever calls the host makes, a flow built from a configuration that passed validation answers every one and
  keeps its invariants, provided the round-trip ceiling is at least the three milliseconds the estimator insists on, or
  the retry budget raises it to that. (The product that sizes the ring does overflow for a buffer maximum of a week
  and a bandwidth of 2^32 - 1: the model wraps it, a build with overflow checks would panic.)\<close>

theorem validated_config_never_panics:
  assumes "validate_config known c = Inr ()"
    and "dur_millis 3 \<le> cf_rtt_max c
      \<or> 0 < cf_max_retries c \<and> dur_millis (3 * cf_max_retries c) \<le> cf_buffer_min c"
  shows "\<exists>f. run_steps flow_step (flow_new role (flow_config c ssrc first)) is = Some f \<and> flow_ok f"
proof -
  let ?fc = "flow_config c ssrc first"
  note r = validated_ranges [OF assms(1)]
  have "3000 \<le> cfg_rtt_max ?fc" using assms(2)
  proof
    assume "dur_millis 3 \<le> cf_rtt_max c"
    from dur_to_micros_mono [OF this] show ?thesis by (simp add: flow_config_rtt dur_to_micros_millis)
  next
    assume a: "0 < cf_max_retries c \<and> dur_millis (3 * cf_max_retries c) \<le> cf_buffer_min c"
    let ?m = "cf_max_retries c"
    have "?m \<le> 100" using validate_config_ok(1) [OF assms(1)] by (auto simp: check_ranges_def split: if_splits)
    then have "dur_to_micros (dur_millis (3 * ?m)) = int ?m * 3000" by (simp add: dur_to_micros_millis)
    with dur_to_micros_mono [OF conjunct2 [OF a]] have b: "int ?m * 3000 \<le> dur_to_micros (cf_buffer_min c)" by simp
    have "3000 \<le> dur_to_micros (cf_buffer_min c) div int ?m"
      using zdiv_mono1 [OF b, of "int ?m"] a by simp
    then have "3000 \<le> fst (effective_rtt_bounds c)"
      using a by (simp add: effective_rtt_bounds_def Let_def trunc_div_nonneg dur_to_micros_nonneg)
    then show ?thesis by (simp add: flow_config_rtt)
  qed
  then have "effective_min (cfg_rtt_min ?fc) \<le> cfg_rtt_max ?fc"
    by (simp add: effective_min_eq flow_config_rtt)
  moreover have "recovery_buffer_min ?fc \<le> recovery_buffer_max ?fc"
    using dur_to_micros_mono [OF r(1)] by (cases "effective_rtt_bounds c") (simp add: flow_config_def)
  ultimately show ?thesis
    using flow_config_ring [of c ssrc first] by (intro flow_machine.run_total flow_new_ok) (simp_all add: cfg_ok_def)
qed

lemma config_default_valid: "validate_config known config_default = Inr ()"
  by (simp add: validate_config_def check_ranges_def check_knobs_def check_fec_def validate_dtls_def check_multicast_def
      config_default_def as_millis_def dur_millis_def)

theorem validated_config_never_panics_witness:
  "\<exists>f. run_steps flow_step (flow_new Receiver (flow_config config_default 1000 5))
     [InTick 7, InTimer 9 NackTimer, InFeedback 11 Keepalive] = Some f \<and> flow_ok f"
  by (rule validated_config_never_panics [OF config_default_valid]) (simp add: config_default_def dur_millis_def)

text \<open>The exception: a URL whose round trips are two milliseconds.\<close>

lemma steps_absent:
  "url_get q key = None \<Longrightarrow> step_millis key u q c = Inr c"
  "url_get q key = None \<Longrightarrow> step_u32 key v q c = Inr c"
  "url_get q key = None \<Longrightarrow> step_port key w q c = Inr c"
  by (simp_all add: step_millis_def step_int_def step_u32_def step_port_def url_millis_def url_int_def)

definition two_ms_query :: query where
  "two_ms_query = [(ascii ''rtt'', ascii ''2''), (ascii ''buffer'', ascii ''50'')]"

lemma two_ms_absent:
  "list_all (\<lambda>key. url_get two_ms_query key = None)
     [''buffer-min'', ''buffer-max'', ''rtt-min'', ''rtt-max'', ''reorder-buffer'', ''session-timeout'', ''keepalive'',
      ''keepalive-interval'', ''rtt-multiplier'', ''bandwidth'', ''min-retries'', ''max-retries'', ''virt-src-port'',
      ''virt-dst-port'', ''local-port'']"
  by code_simp

lemma two_ms_int:
  "url_int two_ms_query ''rtt'' = Inr (Some 2)" "url_int two_ms_query ''buffer'' = Inr (Some 50)"
  by code_simp+

lemma two_ms_rest:
  "reject_unknown_params pick two_ms_query = None" "apply_enum_params two_ms_query c = Inr c"
  "apply_string_and_feature_params two_ms_query c = Inr c"
  by code_simp+

lemma two_ms_query_applied:
  "apply_query pick two_ms_query c = Inr (with_rtt (dur_millis 2) (dur_millis 2) (with_buffer (dur_millis 50) c))"
  unfolding apply_query_def
  using two_ms_absent [unfolded list.pred_inject]
  by (simp add: steps_absent two_ms_rest step_millis_def [of "''rtt''"] step_millis_def [of "''buffer''"] url_millis_def
     two_ms_int max_url_millis_def with_rtt_def with_buffer_def)

lemma two_ms_url:
  "parse_url pick (ascii ''rist://h:1?rtt=2&buffer=50'') config_default
     = Inr (ascii ''h:1'', with_rtt (dur_millis 2) (dur_millis 2) (with_buffer (dur_millis 50) config_default))"
proof -
  have "split_once (ascii ''://'') (ascii ''rist://h:1?rtt=2&buffer=50'') = Some (ascii ''rist'', ascii ''h:1?rtt=2&buffer=50'')"
     "split_once (ascii ''?'') (ascii ''h:1?rtt=2&buffer=50'') = Some (ascii ''h:1'', ascii ''rtt=2&buffer=50'')"
     "parse_authority (hd (split_on (char_byte CHR ''/'') (ascii ''h:1''))) = Inr (ascii ''h:1'')"
     "parse_query (ascii ''rtt=2&buffer=50'') = two_ms_query" by code_simp+
  then show ?thesis by (simp add: parse_url_def two_ms_query_applied)
qed

lemma clamped_panics: "mx < 3000 \<Longrightarrow> est_clamped e mn mx = None"
  by (simp add: est_clamped_def clamp_range_def effective_min_eq)

text \<open>C30: A defect. The URL \<^verbatim>\<open>rist://h:1?rtt=2&buffer=50\<close> is parsed to a configuration that passes
  validation, but the first missing packet a flow with that configuration queues panics, whatever the flow and the
  packet: the estimator clamps to a range whose floor of three milliseconds is above its ceiling.\<close>

theorem two_ms_url_panics:
  "\<exists>cfg. parse_url pick (ascii ''rist://h:1?rtt=2&buffer=50'') config_default = Inr (ascii ''h:1'', cfg)
     \<and> validate_config known cfg = Inr ()
     \<and> add_missing (f\<lparr>fl_cfg := flow_config cfg ssrc first\<rparr>) now path m t = None"
proof -
  let ?cfg = "with_rtt (dur_millis 2) (dur_millis 2) (with_buffer (dur_millis 50) config_default)"
  have "validate_config known ?cfg = Inr ()"
    by (simp add: validate_config_def check_ranges_def check_knobs_def check_fec_def validate_dtls_def check_multicast_def
      config_default_def as_millis_def dur_millis_def with_rtt_def with_buffer_def)
  moreover have "cfg_rtt_max (flow_config ?cfg ssrc first) < 3000"
    by (simp add: flow_config_def effective_rtt_bounds_def dur_to_micros_def as_micros_def dur_millis_def
        with_rtt_def with_buffer_def config_default_def trunc_div_def Let_def)
  ultimately show ?thesis
    using two_ms_url by (auto simp: add_missing_def clamped_panics)
qed






section \<open>Queries\<close>

text \<open>What the fold of the parameters sees of a query.\<close>

definition same_query :: "query \<Rightarrow> query \<Rightarrow> bool" where
  "same_query p q \<longleftrightarrow> map_of p = map_of q \<and> fst ` set p = fst ` set q"

text \<open>A step that reads nothing but the looked-up values.\<close>

definition query_step :: "url_step \<Rightarrow> bool" where
  "query_step f \<longleftrightarrow> (\<forall>p q c. map_of p = map_of q \<longrightarrow> f p c = f q c)"

lemma query_steps:
  "query_step (step_millis key u)" "query_step (step_int key v)"
    "query_step (step_u32 key u')" "query_step (step_port key u'')"
    "query_step (step_string key w)" "query_step (step_word key ch)"
    "query_step (step_choice key ch')"
  by (simp_all add: query_step_def step_millis_def step_int_def step_u32_def step_port_def step_string_def step_word_def
      step_choice_def url_millis_def url_int_def url_get_def)

lemma query_step_seq: "list_all query_step fs \<Longrightarrow> query_step (url_steps fs)"
proof (induction fs)
  case (Cons f fs)
  then have f: "query_step f" and fs: "query_step (url_steps fs)" by simp_all
  show ?case unfolding query_step_def
  proof (intro allI impI)
    fix p q :: query and c assume m: "map_of p = map_of q"
    have "f p c = f q c" "\<And>c. url_steps fs p c = url_steps fs q c"
      using f fs m unfolding query_step_def by blast+
    then show "url_steps (f # fs) p c = url_steps (f # fs) q c" by (simp split: sum.split)
  qed
qed (simp add: query_step_def)

lemma query_step_lists: "query_step apply_enum_params" "query_step apply_string_and_feature_params"
  unfolding apply_enum_params_def apply_string_and_feature_params_def
  by (rule query_step_seq; simp only: query_steps list.pred_inject simp_thms)+

lemma query_stepD: "query_step f \<Longrightarrow> map_of p = map_of q \<Longrightarrow> f p c = f q c"
  unfolding query_step_def by blast

text \<open>The keys the parser refuses.\<close>

definition unknown_keys :: "bytes set \<Rightarrow> bytes set" where
  "unknown_keys keys = keys - set (map ascii recognized_url_params)"

lemma unknown_filter:
  "set (filter (\<lambda>key. key \<notin> set (map ascii recognized_url_params)) (map fst q)) = unknown_keys (fst ` set q)"
  by (auto simp: unknown_keys_def)

lemma reject_unknown_cases:
  obtains "reject_unknown_params pick q = None" "unknown_keys (fst ` set q) = {}"
  | k where "reject_unknown_params pick q = Some (Url_Unknown_Parameter k)" "k \<in> unknown_keys (fst ` set q)"
proof -
  define us where "us = filter (\<lambda>key. key \<notin> set (map ascii recognized_url_params)) (map fst q)"
  have us: "set us = unknown_keys (fst ` set q)" unfolding us_def by (rule unknown_filter)
  have r: "reject_unknown_params pick q
      = (if us = [] then None else Some (Url_Unknown_Parameter (us ! (pick us mod length us))))"
    by (simp add: reject_unknown_params_def us_def Let_def)
  show thesis
  proof (cases "us = []")
    case True
    then show thesis using that(1) r us by simp
  next
    case False
    then have "us ! (pick us mod length us) \<in> set us" by (intro nth_mem mod_less_divisor) simp
    then show thesis using that(2) r us False by simp
  qed
qed

text \<open>Two queries alike give the same result, or both are refused for an unknown key.\<close>

definition both_unknown :: "bytes set \<Rightarrow> url_error + 'a \<Rightarrow> url_error + 'a \<Rightarrow> bool" where
  "both_unknown keys x y \<longleftrightarrow> (\<exists>k k'. x = Inl (Url_Unknown_Parameter k) \<and> y = Inl (Url_Unknown_Parameter k')
     \<and> k \<in> unknown_keys keys \<and> k' \<in> unknown_keys keys)"

lemma apply_query_cong:
  assumes "same_query p q"
  shows "apply_query pick p c = apply_query pick' q c \<or> both_unknown (fst ` set p) (apply_query pick p c) (apply_query pick' q c)"
proof -
  have m: "map_of p = map_of q" and keys: "fst ` set q = fst ` set p" using assms by (simp_all add: same_query_def)
  have rest: "url_steps fs p c = url_steps fs q c" if "list_all query_step fs" for fs
    by (rule query_stepD [OF query_step_seq [OF that] m])
  show ?thesis
  proof (cases rule: reject_unknown_cases [of pick p])
    case 1
    have none: "reject_unknown_params pick' q = None"
      by (rule reject_unknown_cases [of pick' q]) (use 1(2) keys in auto)
    have "apply_query pick p c = apply_query pick' q c"
      unfolding apply_query_def 1(1) none option.case
      by (rule rest) (simp only: query_steps query_step_lists list.pred_inject simp_thms)
    then show ?thesis ..
  next
    case (2 k)
    obtain k' where k': "reject_unknown_params pick' q = Some (Url_Unknown_Parameter k')" "k' \<in> unknown_keys (fst ` set p)"
      by (rule reject_unknown_cases [of pick' q]) (use 2(2) keys in auto)
    have "apply_query pick p c = Inl (Url_Unknown_Parameter k)" "apply_query pick' q c = Inl (Url_Unknown_Parameter k')"
      unfolding apply_query_def 2(1) k'(1) option.case by (rule refl)+
    with 2(2) k'(2) show ?thesis unfolding both_unknown_def by blast
  qed
qed

text \<open>Parsing pieces with distinct keys.\<close>

definition query_key :: "bytes \<Rightarrow> bytes" where
  "query_key piece = fst (query_pair piece)"

lemma query_insert_fresh:
  assumes "piece \<noteq> []" "query_key piece \<notin> fst ` set q"
  shows "query_insert q piece = q @ [query_pair piece]"
proof -
  have "map_of q (query_key piece) = None" using assms(2) by (simp add: map_of_eq_None_iff)
  then show ?thesis using assms(1) by (cases "query_pair piece") (simp add: query_insert_def query_key_def)
qed

lemma query_pieces:
  assumes "distinct (map query_key ps)" "[] \<notin> set ps" "\<And>p. p \<in> set ps \<Longrightarrow> query_key p \<notin> fst ` set q"
  shows "foldl query_insert q ps = q @ map query_pair ps"
  using assms
proof (induction ps arbitrary: q)
  case (Cons p ps)
  have "foldl query_insert (q @ [query_pair p]) ps = (q @ [query_pair p]) @ map query_pair ps"
  proof (rule Cons.IH)
    fix r assume r: "r \<in> set ps"
    then have "query_key p \<noteq> query_key r" using Cons.prems(1) by (metis distinct.simps(2) image_eqI list.simps(9) set_map)
    moreover have "query_key r \<notin> fst ` set q" using Cons.prems(3) [of r] r by simp
    ultimately show "query_key r \<notin> fst ` set (q @ [query_pair p])" by (auto simp: query_key_def [of p])
  next
    show "distinct (map query_key ps)" "[] \<notin> set ps" using Cons.prems(1,2) by simp_all
  qed
  moreover have "query_insert q p = q @ [query_pair p]"
    by (rule query_insert_fresh) (use Cons.prems(2) Cons.prems(3) [of p] in auto)
  ultimately show ?case by simp
qed simp

fun join_pieces :: "u8 \<Rightarrow> bytes list \<Rightarrow> bytes" where
  "join_pieces c [] = []"
| "join_pieces c [p] = p"
| "join_pieces c (p # q # ps) = p @ c # join_pieces c (q # ps)"

lemma split_on_plain: "c \<notin> set p \<Longrightarrow> split_on c p = [p]"
  by (induction p) auto

lemma split_on_head: "c \<notin> set p \<Longrightarrow> split_on c (p @ c # rest) = p # split_on c rest"
  by (induction p) auto

lemma split_on_join: "ps \<noteq> [] \<Longrightarrow> \<forall>p \<in> set ps. c \<notin> set p \<Longrightarrow> split_on c (join_pieces c ps) = ps"
  by (induction c ps rule: join_pieces.induct) (auto simp: split_on_plain split_on_head)

abbreviation amp :: u8 where "amp \<equiv> char_byte CHR ''&''"

lemma parse_query_pieces:
  assumes "ps \<noteq> []" "[] \<notin> set ps" "\<forall>p \<in> set ps. amp \<notin> set p" "distinct (map query_key ps)"
  shows "parse_query (join_pieces amp ps) = map query_pair ps"
  using query_pieces [of ps "[]"] assms by (simp add: parse_query_def split_on_join)

definition rist_url :: "bytes \<Rightarrow> bytes list \<Rightarrow> bytes" where
  "rist_url authority ps = ascii ''rist://'' @ authority @ ascii ''?'' @ join_pieces amp ps"

lemma split_once_head:
  assumes "x \<notin> set a"
  shows "split_once [x] (a @ x # b) = Some (a, b)"
  using assms by (induction a) auto

lemma ascii_numerals:
  "ascii ''rist://'' = [114, 105, 115, 116, 58, 47, 47]" "ascii ''rist'' = [114, 105, 115, 116]"
  "ascii ''://'' = [58, 47, 47]" "ascii ''?'' = [63]" "char_byte CHR ''?'' = 63"
  by (simp_all add: ascii_def char_byte_def)

lemma split_scheme: "split_once (ascii ''://'') (ascii ''rist://'' @ rest) = Some (ascii ''rist'', rest)"
  by (simp add: ascii_numerals)

lemma parse_url_pieces:
  assumes "63 \<notin> set authority"
  shows "parse_url pick (rist_url authority ps) base
    = (case parse_authority (hd (split_on (char_byte CHR ''/'') authority)) of
         Inl e \<Rightarrow> Inl e
       | Inr addr \<Rightarrow> (case apply_query pick (parse_query (join_pieces amp ps)) base of
           Inl e \<Rightarrow> Inl e | Inr cfg \<Rightarrow> Inr (addr, cfg)))"
proof -
  have "split_once (ascii ''?'') (authority @ ascii ''?'' @ join_pieces amp ps) = Some (authority, join_pieces amp ps)"
    using split_once_head [OF assms] by (simp add: ascii_numerals)
  then show ?thesis unfolding parse_url_def rist_url_def split_scheme by simp
qed

text \<open>C13: The order of the parameters of a URL does not matter. Two URLs whose parameters are the same
  up to order, with no key twice, are parsed to the same address and configuration, or refused with the same
  error, however the hash maps are iterated; only where there are several unknown keys may the two errors differ, and
  then each names one of them.\<close>

theorem url_order_irrelevant:
  assumes "mset ps = mset qs" "ps \<noteq> []" "[] \<notin> set ps" "\<forall>p \<in> set ps. amp \<notin> set p" "distinct (map query_key ps)"
    and "63 \<notin> set authority"
  shows "parse_url pick (rist_url authority ps) base = parse_url pick' (rist_url authority qs) base
    \<or> both_unknown (query_key ` set ps) (parse_url pick (rist_url authority ps) base)
        (parse_url pick' (rist_url authority qs) base)"
proof -
  have set: "set ps = set qs" using assms(1) by (metis set_mset_mset)
  have "mset (map query_key ps) = mset (map query_key qs)" using assms(1) by (metis mset_map)
  then have dist: "distinct (map query_key qs)" using assms(5) by (metis mset_eq_imp_distinct_iff)
  have "qs \<noteq> []" using assms(1,2) by auto
  then have q: "parse_query (join_pieces amp ps) = map query_pair ps" "parse_query (join_pieces amp qs) = map query_pair qs"
    using assms set dist by (simp_all add: parse_query_pieces)
  have "map fst (map query_pair r) = map query_key r" for r by (simp add: query_key_def)
  then have "distinct (map fst (map query_pair ps))" "distinct (map fst (map query_pair qs))"
    using assms(5) dist by metis+
  then have "map_of (map query_pair ps) = map_of (map query_pair qs)"
    by (simp only: map_of_inject_set) (simp only: list.set_map set)
  then have "same_query (map query_pair ps) (map query_pair qs)" by (simp add: same_query_def set)
  moreover have "fst ` set (map query_pair ps) = query_key ` set ps" by (auto simp: query_key_def image_image)
  ultimately have "apply_query pick (map query_pair ps) base = apply_query pick' (map query_pair qs) base
      \<or> both_unknown (query_key ` set ps) (apply_query pick (map query_pair ps) base)
          (apply_query pick' (map query_pair qs) base)" by (metis apply_query_cong)
  then show ?thesis unfolding parse_url_pieces [OF assms(6)] q both_unknown_def
    by (cases "parse_authority (hd (split_on (char_byte CHR ''/'') authority))") auto
qed

definition sample_pieces :: "bytes list" where
  "sample_pieces = [ascii ''buffer=1200'', ascii ''buffer-min=50'', ascii ''x=1'', ascii ''y=2'']"

theorem url_order_irrelevant_witness:
  "parse_url length (rist_url (ascii ''h:5000'') sample_pieces) config_default
     = parse_url (\<lambda>_. 0) (rist_url (ascii ''h:5000'') (rev sample_pieces)) config_default
   \<or> both_unknown (query_key ` set sample_pieces) (parse_url length (rist_url (ascii ''h:5000'') sample_pieces) config_default)
       (parse_url (\<lambda>_. 0) (rist_url (ascii ''h:5000'') (rev sample_pieces)) config_default)"
  by (rule url_order_irrelevant)
    code_simp+

section \<open>Escapes\<close>

text \<open>The encoder of a client: every byte an escape.\<close>

definition hex_char :: "nat \<Rightarrow> u8" where
  "hex_char n = of_nat (if n < 10 then 48 + n else 87 + n)"

definition percent_encode :: "bytes \<Rightarrow> bytes" where
  "percent_encode v = concat (map (\<lambda>b. [37, hex_char (unat b div 16), hex_char (unat b mod 16)]) v)"

lemma hex_char_digit: "n < 16 \<Longrightarrow> byte_digit 16 (hex_char n) = Some n \<and> hex_char n \<noteq> 43 \<and> hex_char n \<noteq> 38 \<and> hex_char n \<noteq> 61"
proof -
  have "\<forall>n \<in> set [0..<16]. byte_digit 16 (hex_char n) = Some n \<and> hex_char n \<noteq> 43 \<and> hex_char n \<noteq> 38 \<and> hex_char n \<noteq> 61"
    by code_simp
  then show "n < 16 \<Longrightarrow> ?thesis" by simp
qed

lemma hex_pair_byte: "hex_pair (hex_char (unat b div 16)) (hex_char (unat b mod 16)) = Some b" for b :: u8
proof -
  have "unat b < 256" using unsigned_less [of b] by simp
  then have "unat b div 16 < 16" "unat b mod 16 < 16" by simp_all
  then show ?thesis by (simp add: hex_pair_def hex_char_digit char_byte_def)
qed

lemma percent_bytes_encode: "percent_bytes (percent_encode v) = v"
  by (induction v) (simp_all add: percent_encode_def hex_pair_byte char_byte_def)

lemma percent_decode_encode: "utf8_valid v \<Longrightarrow> percent_decode (percent_encode v) = v"
  by (simp add: percent_decode_def percent_bytes_encode from_utf8_lossy_valid)

lemma percent_encode_plain: "38 \<notin> set (percent_encode v)"
proof -
  have "38 \<notin> set [37, hex_char (unat b div 16), hex_char (unat b mod 16)]" for b :: u8
  proof -
    have "unat b < 256" using unsigned_less [of b] by simp
    then have "unat b div 16 < 16" "unat b mod 16 < 16" by simp_all
    from this [THEN hex_char_digit] show ?thesis by auto
  qed
  then show ?thesis by (auto simp: percent_encode_def)
qed

lemma secret_only:
  "list_all (\<lambda>key. url_get [(ascii ''secret'', v)] key = None)
     [''buffer'', ''rtt'', ''buffer-min'', ''buffer-max'', ''rtt-min'', ''rtt-max'', ''reorder-buffer'', ''session-timeout'', ''keepalive'',
      ''keepalive-interval'', ''rtt-multiplier'', ''bandwidth'', ''min-retries'', ''max-retries'', ''virt-src-port'',
      ''virt-dst-port'', ''local-port'']"
  by code_simp

lemma secret_rest:
  "reject_unknown_params pick [(ascii ''secret'', v)] = None" "apply_enum_params [(ascii ''secret'', v)] c = Inr c"
  "apply_string_and_feature_params [(ascii ''secret'', v)] c = Inr (c\<lparr>cf_secret := Some v\<rparr>)"
  by code_simp+

lemma secret_applied: "apply_query pick [(ascii ''secret'', v)] c = Inr (c\<lparr>cf_secret := Some v\<rparr>)"
  unfolding apply_query_def using secret_only [of v, unfolded list.pred_inject] by (simp add: steps_absent secret_rest)

text \<open>A URL carries any secret. A secret written with every byte escaped is found again in the
  configuration, byte for byte, and nothing else of the base configuration changes.\<close>

theorem url_secret_roundtrip:
  assumes "utf8_valid v" "63 \<notin> set authority"
  shows "parse_url pick (rist_url authority [ascii ''secret='' @ percent_encode v]) base
    = (case parse_authority (hd (split_on (char_byte CHR ''/'') authority)) of
         Inl e \<Rightarrow> Inl e | Inr addr \<Rightarrow> Inr (addr, base\<lparr>cf_secret := Some v\<rparr>))"
proof -
  let ?p = "ascii ''secret='' @ percent_encode v"
  have split: "split_once (ascii ''='') ?p = Some (ascii ''secret'', percent_encode v)"
    by (simp add: ascii_def char_byte_def)
  have dec: "percent_decode (ascii ''secret'') = ascii ''secret''" by code_simp
  have "query_pair ?p = (ascii ''secret'', v)"
    unfolding query_pair_def split by (simp add: dec percent_decode_encode assms(1))
  moreover have "amp \<notin> set ?p" using percent_encode_plain [of v] by (simp add: ascii_def char_byte_def)
  ultimately have parsed: "parse_query (join_pieces amp [?p]) = [(ascii ''secret'', v)]"
    by (subst parse_query_pieces) (simp_all add: ascii_def)
  show ?thesis unfolding parse_url_pieces [OF assms(2)] parsed secret_applied sum.case ..
qed

theorem url_secret_roundtrip_witness:
  "parse_url (\<lambda>_. 0) (rist_url (ascii ''h:5000'') [ascii ''secret='' @ percent_encode (ascii ''a&b'')]) config_default
    = Inr (ascii ''h:5000'', config_default\<lparr>cf_secret := Some (ascii ''a&b'')\<rparr>)"
proof -
  have "parse_authority (hd (split_on (char_byte CHR ''/'') (ascii ''h:5000''))) = Inr (ascii ''h:5000'')"
    "utf8_valid (ascii ''a&b'')" "63 \<notin> set (ascii ''h:5000'')"
    by code_simp+
  then show ?thesis by (simp add: url_secret_roundtrip)
qed

text \<open>A defect. An escape that is not two hexadecimal digits is to be passed through, but one whose first
  character is a plus sign is decoded: percent, plus and a digit give one byte, whereas percent, minus and a digit stay
  as they are.\<close>

theorem signed_escape_decoded:
  "percent_decode (ascii ''a%+5b'') = [97, 5, 98] \<and> percent_decode (ascii ''a%-5b'') = ascii ''a%-5b''"
  by code_simp

end
