(* ===== verification/Replay_Window.thy ===== *)
theory Replay_Window
  imports Rist_Prelude
begin

text \<open>
  The anti-replay window of a DTLS epoch (\<^verbatim>\<open>rist-codec/src/dtls/replay.rs\<close>): a 64-bit bitmap over the
  most recent sequence numbers. The abstract window is the set of all numbers ever marked; the relation
  \<open>window_of\<close> connects them, and every operation refines its counterpart on the set.
\<close>

section \<open>The window\<close>

definition replay_window_size :: u64 where "replay_window_size = 64"

record replay_window =
  rw_right :: u64
  rw_bitmap :: u64
  rw_seen :: bool

definition replay_new :: replay_window where
  "replay_new = \<lparr>rw_right = 0, rw_bitmap = 0, rw_seen = False\<rparr>"

definition replay_check :: "replay_window \<Rightarrow> u64 \<Rightarrow> bool" where
  "replay_check w s =
     (if \<not> rw_seen w \<or> rw_right w < s then True
      else let diff = rw_right w - s in
        if replay_window_size \<le> diff then False
        else rw_bitmap w AND push_bit (unat diff) 1 = 0)"

definition replay_mark :: "u64 \<Rightarrow> replay_window \<Rightarrow> replay_window" where
  "replay_mark s w =
     (if \<not> rw_seen w then w\<lparr>rw_seen := True, rw_right := s, rw_bitmap := 1\<rparr>
      else if rw_right w < s then
        let shift = s - rw_right w in
        w\<lparr>rw_bitmap := (if replay_window_size \<le> shift then 1 else push_bit (unat shift) (rw_bitmap w) OR 1),
          rw_right := s\<rparr>
      else
        let diff = rw_right w - s in
        if diff < replay_window_size then w\<lparr>rw_bitmap := rw_bitmap w OR push_bit (unat diff) 1\<rparr> else w)"

section \<open>The set it stands for\<close>

definition fresh :: "u64 set \<Rightarrow> u64 \<Rightarrow> bool" where
  "fresh S s \<longleftrightarrow> s \<notin> S \<and> (\<forall>t\<in>S. unat t < unat s + 64)"

definition window_of :: "u64 set \<Rightarrow> replay_window \<Rightarrow> bool" where
  "window_of S w \<longleftrightarrow>
     (if rw_seen w
      then rw_right w \<in> S \<and> (\<forall>t\<in>S. t \<le> rw_right w)
        \<and> (\<forall>d<64. bit (rw_bitmap w) d \<longleftrightarrow> (\<exists>t\<in>S. unat t + d = unat (rw_right w)))
      else S = {})"

lemma window_of_new: "window_of {} replay_new"
  by (simp add: window_of_def replay_new_def)

lemma one_bit: "w AND 2 ^ d = 0 \<longleftrightarrow> \<not> bit (w :: 'a::len word) d"
  by (rule and_exp_eq_0_iff_not_bit)

lemma unat_diff: "s \<le> r \<Longrightarrow> unat ((r :: u64) - s) = unat r - unat s"
  by (rule unat_sub)

lemma check_refines:
  assumes "window_of S w"
  shows "replay_check w s \<longleftrightarrow> fresh S s"
proof (cases "rw_seen w")
  case False
  with assms show ?thesis by (simp add: window_of_def replay_check_def fresh_def)
next
  case seen: True
  with assms have top: "rw_right w \<in> S" "\<And>t. t \<in> S \<Longrightarrow> unat t \<le> unat (rw_right w)"
    and bits: "\<And>d. d < 64 \<Longrightarrow> bit (rw_bitmap w) d \<longleftrightarrow> (\<exists>t\<in>S. unat t + d = unat (rw_right w))"
    by (auto simp: window_of_def word_le_nat_alt)
  show ?thesis
  proof (cases "rw_right w < s")
    case True
    then have "unat (rw_right w) < unat s" by (simp add: word_less_nat_alt)
    with top(2) have "s \<notin> S" "\<forall>t\<in>S. unat t < unat s + 64" by fastforce+
    with True show ?thesis by (simp add: replay_check_def fresh_def)
  next
    case False
    then have le: "s \<le> rw_right w" by simp
    define d where "d = unat (rw_right w) - unat s"
    have d: "unat (rw_right w - s) = d" "unat s + d = unat (rw_right w)"
      using le unat_diff [OF le] by (simp_all add: d_def word_le_nat_alt)
    show ?thesis
    proof (cases "d < 64")
      case True
      have "(\<exists>t\<in>S. unat t + d = unat (rw_right w)) \<longleftrightarrow> s \<in> S"
        using d(2) by (metis add_right_cancel word_unat_eq_iff)
      moreover have "\<forall>t\<in>S. unat t < unat s + 64" using top(2) d(2) True by fastforce
      ultimately show ?thesis using seen False True d(1)
        by (simp add: replay_check_def fresh_def one_bit bits replay_window_size_def word_le_nat_alt Let_def)
    next
      case False
      then have "\<not> unat (rw_right w) < unat s + 64" using d(2) by linarith
      then have "\<not> fresh S s" using top(1) by (auto simp: fresh_def)
      with False seen le d(1) show ?thesis
        by (simp add: replay_check_def replay_window_size_def word_le_nat_alt word_less_nat_alt Let_def)
    qed
  qed
qed

lemma mark_refines:
  assumes "window_of S w"
  shows "window_of (insert s S) (replay_mark s w)"
proof (cases "rw_seen w")
  case False
  with assms show ?thesis by (auto simp: window_of_def replay_mark_def bit_1_iff)
next
  case seen: True
  with assms have top: "rw_right w \<in> S" "\<And>t. t \<in> S \<Longrightarrow> unat t \<le> unat (rw_right w)"
    and bits: "\<And>d. d < 64 \<Longrightarrow> bit (rw_bitmap w) d \<longleftrightarrow> (\<exists>t\<in>S. unat t + d = unat (rw_right w))"
    by (auto simp: window_of_def word_le_nat_alt)
  show ?thesis
  proof (cases "rw_right w < s")
    case True
    then have lt: "unat (rw_right w) < unat s" by (simp add: word_less_nat_alt)
    define k where "k = unat s - unat (rw_right w)"
    have k: "unat (s - rw_right w) = k" "unat (rw_right w) + k = unat s" "0 < k"
      using lt unat_diff [of "rw_right w" s] by (simp_all add: k_def word_le_nat_alt)
    have mark: "replay_mark s w = w\<lparr>rw_bitmap := (if 64 \<le> k then 1 else push_bit k (rw_bitmap w) OR 1), rw_right := s\<rparr>"
      using seen True k(1) by (simp add: replay_mark_def replay_window_size_def word_le_nat_alt Let_def)
    have "bit (if 64 \<le> k then 1 else push_bit k (rw_bitmap w) OR 1) d
        \<longleftrightarrow> (\<exists>t\<in>insert s S. unat t + d = unat s)" if d: "d < 64" for d
    proof (cases "d < k")
      case True
      then have "\<not> (\<exists>t\<in>S. unat t + d = unat s)" using top(2) k(2) by fastforce
      with True show ?thesis by (auto simp: bit_simps bit_1_iff)
    next
      case False
      then have "\<And>t. unat t + d = unat s \<longleftrightarrow> unat t + (d - k) = unat (rw_right w)"
        using k(2) by linarith
      then have "(\<exists>t\<in>insert s S. unat t + d = unat s) \<longleftrightarrow> (\<exists>t\<in>S. unat t + (d - k) = unat (rw_right w))"
        using lt k(3) False by auto
      then show ?thesis using False d k(3) bits [of "d - k"] by (auto simp: bit_simps bit_1_iff)
    qed
    moreover have "\<forall>t\<in>insert s S. t \<le> s" using top(2) lt by (fastforce simp: word_le_nat_alt)
    ultimately show ?thesis using seen unfolding mark window_of_def by simp
  next
    case False
    then have le: "s \<le> rw_right w" by simp
    define d0 where "d0 = unat (rw_right w) - unat s"
    have d0: "unat (rw_right w - s) = d0" "unat s + d0 = unat (rw_right w)"
      using le unat_diff [OF le] by (simp_all add: d0_def word_le_nat_alt)
    have mark: "replay_mark s w = (if d0 < 64 then w\<lparr>rw_bitmap := rw_bitmap w OR push_bit d0 1\<rparr> else w)"
      using seen False d0(1) by (simp add: replay_mark_def replay_window_size_def word_less_nat_alt Let_def)
    have "bit (rw_bitmap (replay_mark s w)) d \<longleftrightarrow> (\<exists>t\<in>insert s S. unat t + d = unat (rw_right w))"
      if d: "d < 64" for d
    proof -
      have "unat s + d = unat (rw_right w) \<longleftrightarrow> d = d0" using d0(2) by auto
      then show ?thesis using d bits [OF d] by (auto simp: mark bit_simps bit_1_iff)
    qed
    moreover have "rw_right (replay_mark s w) = rw_right w" "rw_seen (replay_mark s w)"
      using seen by (simp_all add: mark)
    ultimately show ?thesis using top le by (auto simp: window_of_def word_le_nat_alt)
  qed
qed

section \<open>Properties\<close>

text \<open>The records of an epoch as \<^verbatim>\<open>process_record\<close> filters them: a record that \<^verbatim>\<open>check\<close>
  admits and whose fragment opens is marked, any other is dropped.\<close>

fun replay_filter :: "('r \<Rightarrow> u64) \<Rightarrow> ('r \<Rightarrow> bool) \<Rightarrow> replay_window \<Rightarrow> 'r list \<Rightarrow> replay_window \<times> 'r list" where
  "replay_filter num opens w [] = (w, [])"
| "replay_filter num opens w (r # rs) =
     (if replay_check w (num r) \<and> opens r
      then let (w', out) = replay_filter num opens (replay_mark (num r) w) rs in (w', r # out)
      else replay_filter num opens w rs)"

fun accepted :: "('r \<Rightarrow> u64) \<Rightarrow> ('r \<Rightarrow> bool) \<Rightarrow> u64 set \<Rightarrow> 'r list \<Rightarrow> 'r list" where
  "accepted num opens S [] = []"
| "accepted num opens S (r # rs) =
     (if fresh S (num r) \<and> opens r then r # accepted num opens (insert (num r) S) rs
      else accepted num opens S rs)"

lemma filter_refines:
  "window_of S w \<Longrightarrow>
   snd (replay_filter num opens w rs) = accepted num opens S rs
   \<and> window_of (S \<union> num ` set (accepted num opens S rs)) (fst (replay_filter num opens w rs))"
proof (induction rs arbitrary: S w)
  case (Cons r rs)
  then show ?case
    using check_refines [OF Cons.prems, of "num r"] Cons.IH [OF mark_refines [OF Cons.prems, of "num r"]]
    by (auto split: prod.splits)
qed simp

lemma accepted_fresh:
  "distinct (map num (accepted num opens S rs)) \<and> num ` set (accepted num opens S rs) \<inter> S = {}"
  by (induction rs arbitrary: S) (auto simp: fresh_def)

text \<open>C22: The replay window refines the set of all sequence numbers accepted so far: over any sequence
  of records, the 64-bit window accepts exactly the records that the set would (never seen, and less than 64
  below the highest), it still represents that set at the end, and no sequence number is ever accepted twice.
  Records that do not authenticate leave no trace.\<close>

theorem replay_window_refines_set:
  "snd (replay_filter num opens replay_new rs) = accepted num opens {} rs
   \<and> window_of (num ` set (accepted num opens {} rs)) (fst (replay_filter num opens replay_new rs))
   \<and> distinct (map num (snd (replay_filter num opens replay_new rs)))"
  using filter_refines [OF window_of_new, of num opens rs] accepted_fresh [of num opens "{}" rs] by simp

end
