(* ===== verification/Split_Wire.thy ===== *)
theory Split_Wire
  imports Split_Merge Codec_Simple_Props
begin

text \<open>
  Split and merge over the wire of the Simple profile: the pairing rests on the source time, which the sender takes
  from the microsecond of the write and the wire cuts to ticks of 90 kHz. Writes in different ticks are told apart
  whatever the network does; two writes in one tick can be spliced.
\<close>

section \<open>From the write to the merger\<close>

text \<open>The packets of a list of writes (instant, payload): \<^verbatim>\<open>push_split\<close> stamps both halves with the
  NTP time of the instant.\<close>

definition stamped :: "(timestamp \<times> bytes) list \<Rightarrow> (u64 \<times> bytes) list" where
  "stamped ws = map (\<lambda>(now, p). (ntp_from_timestamp now, p)) ws"

text \<open>The media packet the flow sends for a half, marked when it is sent again.\<close>

definition half_media :: "u32 \<Rightarrow> half_packet \<times> bool \<Rightarrow> media_packet" where
  "half_media ssrc k = (case k of ((n, t, h), again) \<Rightarrow>
     \<lparr>mp_seq = n, mp_source_time = t, mp_ssrc = ssrc, mp_payload = h, mp_retransmit = again, mp_path_id = 0,
      mp_frag = Standalone, mp_virt_src_port = 0, mp_virt_dst_port = 0, mp_short_seq = False\<rparr>)"

text \<open>What the receiving drain is handed of the packets that were decoded.\<close>

fun handed :: "(codec_error + media_packet) list \<Rightarrow> half_packet list" where
  "handed [] = []"
| "handed (Inl e # rs) = handed rs"
| "handed (Inr q # rs) = (mp_seq q, mp_source_time q, mp_payload q) # handed rs"

text \<open>The tick of the RTP clock a write falls in.\<close>

definition wire_tick :: "timestamp \<Rightarrow> int" where
  "wire_tick now = rtp_ticks_from_micros (int (ntp_to_timestamp (ntp_from_timestamp now)))"

definition tick_of :: "u64 \<Rightarrow> int" where
  "tick_of t = rtp_ticks_from_micros (int (ntp_to_timestamp t))"

section \<open>Lemmas\<close>

lemma half_media_simps [simp]:
  "mp_seq (half_media ssrc ((n, t, h), again)) = n" "mp_ssrc (half_media ssrc k) = ssrc"
  "mp_source_time (half_media ssrc ((n, t, h), again)) = t" "mp_payload (half_media ssrc ((n, t, h), again)) = h"
  "media_ticks (half_media ssrc ((n, t, h), again)) = tick_of t"
  by (simp_all add: half_media_def media_ticks_def tick_of_def split: prod.split)

lemma wire_tick_value: "wire_tick now = int (now mod (2 ^ 32 * us_per_second)) * 9 div 100"
proof -
  define u where "u = now mod (2 ^ 32 * us_per_second)"
  have "u < 2 ^ 32 * us_per_second" unfolding u_def by (rule mod_less_divisor) (simp add: us_per_second_def)
  then have u: "int u < 4294967296000000" by (simp add: us_per_second_def)
  have "wire_tick now = trunc_div (wrap_i64 (int u * 9)) 100"
    by (simp add: wire_tick_def ntp_roundtrip u_def rtp_ticks_from_micros_def)
  also have "\<dots> = int u * 9 div 100" using u by (simp add: trunc_div_def)
  finally show ?thesis by (simp add: u_def)
qed

text \<open>Different ticks are received as different source times, when neither lies before the base.\<close>

lemma micros_of_tick:
  assumes "base \<le> wire_tick now" "0 \<le> base"
  shows "micros_from_rtp_ticks (wire_tick now - base) = (wire_tick now - base) * 100 div 9"
    "0 \<le> (wire_tick now - base) * 100 div 9" "(wire_tick now - base) * 100 div 9 < 4294967296000000"
proof -
  define u where "u = int (now mod (2 ^ 32 * us_per_second))"
  have "now mod (2 ^ 32 * us_per_second) < 2 ^ 32 * us_per_second"
    by (rule mod_less_divisor) (simp add: us_per_second_def)
  then have u: "0 \<le> u" "u < 4294967296000000" by (simp_all add: u_def us_per_second_def)
  have w: "wire_tick now = u * 9 div 100" by (simp add: wire_tick_value u_def)
  have t: "0 \<le> wire_tick now - base" "wire_tick now - base \<le> u * 9 div 100" using assms w by simp_all
  define d where "d = wire_tick now - base"
  have "(u * 9) div 100 * 100 \<le> u * 9" by (metis div_mult_mod_eq le_add_same_cancel1 pos_mod_sign zero_less_numeral)
  moreover have "d * 100 \<le> (u * 9) div 100 * 100" using t(2) by (simp add: d_def)
  ultimately have "d * 100 \<le> u * 9" by linarith
  then have "(wire_tick now - base) * 100 \<le> u * 9" by (simp add: d_def)
  with t(1) u show "0 \<le> (wire_tick now - base) * 100 div 9" "(wire_tick now - base) * 100 div 9 < 4294967296000000"
    "micros_from_rtp_ticks (wire_tick now - base) = (wire_tick now - base) * 100 div 9"
    by (simp_all add: micros_from_rtp_ticks_def trunc_div_def)
qed

lemma received_time_inj:
  assumes "base \<le> wire_tick a" "base \<le> wire_tick b" "0 \<le> base"
    and "source_of_ticks (wire_tick a - base) = source_of_ticks (wire_tick b - base)"
  shows "wire_tick a = wire_tick b"
proof -
  define x where "x = wire_tick a - base"
  define y where "y = wire_tick b - base"
  note a = micros_of_tick [OF assms(1,3), folded x_def] and b = micros_of_tick [OF assms(2,3), folded y_def]
  define n where "n = nat (x * 100 div 9)"
  define m where "m = nat (y * 100 div 9)"
  have whole: "ntp_to_timestamp (ntp_from_timestamp i) = i" if "i < 4294967296000000" for i
    unfolding ntp_roundtrip us_per_second_def using that by (intro mod_less) simp
  have "source_of_ticks x = ntp_from_timestamp n" "source_of_ticks y = ntp_from_timestamp m"
    using a(2) b(2) by (simp_all add: source_of_ticks_def a(1) b(1) n_def m_def)
  then have "ntp_from_timestamp n = ntp_from_timestamp m"
    using assms(4) unfolding x_def [symmetric] y_def [symmetric] by (simp only:)
  moreover have "n < 4294967296000000" "m < 4294967296000000"
    using a(2,3) b(2,3) by (simp_all add: n_def m_def nat_less_iff)
  ultimately have "n = m" using whole by metis
  then have "x * 100 div 9 = y * 100 div 9" using a(2) b(2) by (simp only: n_def m_def eq_nat_nat_iff)
  moreover have "x * 100 div 9 * 9 + x * 100 mod 9 = x * 100" "y * 100 div 9 * 9 + y * 100 mod 9 = y * 100"
    by (rule div_mult_mod_eq)+
  moreover have "0 \<le> x * 100 mod 9" "x * 100 mod 9 < 9" "0 \<le> y * 100 mod 9" "y * 100 mod 9 < 9" by simp_all
  ultimately have "x * 100 - y * 100 < 9" "y * 100 - x * 100 < 9" by linarith+
  then have "x = y" by arith
  then show ?thesis by (simp add: x_def y_def)
qed

lemma push_split_renumbered:
  "push_split mode (s - c) (map (\<lambda>(t, p). (f t, p)) ws) = map (\<lambda>(n, t, h). (n - c, f t, h)) (push_split mode s ws)"
proof (induction mode s ws rule: push_split.induct)
  case (2 mode s t p ws)
  have shift: "s - c + 1 = s + 1 - c" "s - c + 2 = s + 2 - c" by simp_all
  show ?case
    using 2 by (cases "split_payload mode p"; cases "snd (split_payload mode p)") (simp_all add: shift)
qed simp

lemma sound_out_renumbered:
  "sound_out mode (s - c) (map (\<lambda>(t, p). (f t, p)) ws) q = sound_out mode s ws q"
  unfolding sound_out_def push_split_renumbered by (force simp: image_image split_def)

lemma handed_received:
  "handed (map (\<lambda>q. Inr (media_received c base q)) (map (half_media ssrc) ks))
    = map (\<lambda>((n, t, h), again). (n - c, source_of_ticks (tick_of t - base), h)) ks"
  by (induction ks) (auto simp: media_received_def half_media_def media_ticks_def tick_of_def)

text \<open>A link with a fresh decoder, then the merger on any choice of what came out.\<close>

lemma link_then_merge:
  assumes ticks: "distinct (map (\<lambda>(now, p). wire_tick now) ws)"
    and ks: "fst ` set (k # ks) \<subseteq> set (push_split mode s (stamped ws))"
    and link: "\<not> is_retransmit ssrc" "near_stream (half_media ssrc k) (map (half_media ssrc) ks)"
    and base: "list_all (\<lambda>(now, p). first_base (half_media ssrc k) \<le> wire_tick now) ws"
    and order: "list_all (\<lambda>(i, disc). i < length (k # ks)) order"
    and m: "mg_held m = None"
  shows "\<exists>rs m' out. media_link (map (half_media ssrc) (k # ks)) media_decoder_new = Some rs
    \<and> merge_run m (map (\<lambda>(i, disc). (handed rs ! i, disc)) order) = Some (m', out)
    \<and> (\<forall>q\<in>set out. sound_out mode s (stamped ws) q)
    \<and> concat out @ held_bytes m' = concat (map (\<lambda>(i, disc). snd (snd (fst ((k # ks) ! i)))) order)"
proof -
  define c where "c = first_shift (half_media ssrc k)"
  define b where "b = first_base (half_media ssrc k)"
  define rs where "rs = map (\<lambda>q. Inr (media_received c b q) :: codec_error + media_packet) (map (half_media ssrc) (k # ks))"
  define f where "f t = source_of_ticks (tick_of t - b)" for t
  define ws' where "ws' = map (\<lambda>(t, p). (f t, p)) (stamped ws)"
  have rs: "media_link (map (half_media ssrc) (k # ks)) media_decoder_new = Some rs"
    unfolding rs_def c_def b_def list.map(2)
    by (subst media_link_received) (use link in \<open>simp_all add: list_all_iff\<close>)
  have h: "handed rs = map (\<lambda>((n, t, h), again). (n - c, f t, h)) (k # ks)"
    unfolding rs_def f_def by (rule handed_received)
  have parts: "handed rs ! i \<in> set (push_split mode (s - c) ws')" "snd (snd (handed rs ! i)) = snd (snd (fst ((k # ks) ! i)))"
    if "i < length (k # ks)" for i
  proof -
    obtain n t q again where e: "(k # ks) ! i = ((n, t, q), again)" by (metis surj_pair)
    have "(k # ks) ! i \<in> set (k # ks)" using that by (rule nth_mem)
    then have "(n, t, q) \<in> set (push_split mode s (stamped ws))" using ks e by force
    then have "(n - c, f t, q) \<in> set (push_split mode (s - c) ws')"
      unfolding ws'_def push_split_renumbered by force
    moreover have nth: "handed rs ! i = (n - c, f t, q)" unfolding h using that by (subst nth_map) (simp_all add: e)
    ultimately show "handed rs ! i \<in> set (push_split mode (s - c) ws')" by simp
    show "snd (snd (handed rs ! i)) = snd (snd (fst ((k # ks) ! i)))" by (simp add: nth e)
  qed
  define ds where "ds = map (\<lambda>(i, disc). (handed rs ! i, disc)) order"
  have sub: "fst ` set ds \<subseteq> set (push_split mode (s - c) ws')"
    using order parts(1) by (auto simp: ds_def list_all_iff)
  have keys: "map fst ws' = map (\<lambda>now. source_of_ticks (wire_tick now - b)) (map fst ws)"
    by (simp add: ws'_def stamped_def f_def tick_of_def wire_tick_def comp_def split_def)
  have "inj_on (\<lambda>now. source_of_ticks (wire_tick now - b)) (set (map fst ws))"
  proof (rule inj_onI)
    fix x y assume x: "x \<in> set (map fst ws)" and y: "y \<in> set (map fst ws)"
      and eq: "source_of_ticks (wire_tick x - b) = source_of_ticks (wire_tick y - b)"
    have "b \<le> wire_tick x" "b \<le> wire_tick y" using base x y by (auto simp: b_def list_all_iff)
    moreover have "0 \<le> b" unfolding b_def by (rule first_consts)
    ultimately have same: "wire_tick x = wire_tick y" using received_time_inj eq by blast
    have "inj_on wire_tick (set (map fst ws))"
      using ticks distinct_map [of wire_tick "map fst ws"] by (simp add: comp_def split_def)
    with same x y show "x = y" by (simp add: inj_on_eq_iff)
  qed
  moreover have "distinct (map fst ws)"
    using ticks distinct_map [of wire_tick "map fst ws"] by (simp add: comp_def split_def)
  ultimately have "distinct (map fst ws')" unfolding keys distinct_map [of _ "map fst ws"] by blast
  from merge_run_sound [OF this sub, of m] m obtain m' out where r: "merge_run m ds = Some (m', out)"
    "\<forall>q\<in>set out. sound_out mode (s - c) ws' q"
    "concat out @ held_bytes m' = concat (map (\<lambda>((n, t, q), disc). q) ds)"
    by (auto simp: held_sound_def held_bytes_def)
  have "map (\<lambda>((n, t, q), disc). q) ds = map (\<lambda>(i, disc). snd (snd (fst ((k # ks) ! i)))) order"
    using order parts(2) by (auto simp: ds_def list_all_iff split_def)
  moreover have "\<forall>q\<in>set out. sound_out mode s (stamped ws) q" using r(2) by (simp add: ws'_def sound_out_renumbered)
  ultimately show ?thesis using rs r(1,3) unfolding ds_def by metis
qed

section \<open>Properties\<close>

text \<open>C20: The merger splices no two writes, on the Simple profile, when every write has its own tick of the 90 kHz wire
  clock. The packets of the writes, split or not, cross the wire in any order, with losses, repeats and
  retransmissions within the range the decoder resolves, none stamped before the tick base that the first arrival
  sets; the flow hands any of them to the merger in any order, with any discontinuity flags. Then \<^verbatim>\<open>deliver\<close>
  never reaches its \<^verbatim>\<open>unreachable!\<close>, each payload it hands on is a payload that was written or one half of
  one, and the bytes handed on with those still held are the bytes delivered, in order. (Writes in one tick, less
  than 12 microseconds apart, can be spliced.)\<close>

theorem merge_never_splices:
  assumes "distinct (map (\<lambda>(now, p). wire_tick now) ws)"
    and "fst ` set (k # ks) \<subseteq> set (push_split mode s (stamped ws))"
    and "\<not> is_retransmit ssrc" "near_stream (half_media ssrc k) (map (half_media ssrc) ks)"
    and "list_all (\<lambda>(now, p). first_base (half_media ssrc k) \<le> wire_tick now) ws"
    and "list_all (\<lambda>(i, disc). i < length (k # ks)) order" "mg_held m = None"
  shows "\<exists>rs m' out. media_link (map (half_media ssrc) (k # ks)) media_decoder_new = Some rs
    \<and> merge_run m (map (\<lambda>(i, disc). (handed rs ! i, disc)) order) = Some (m', out)
    \<and> (\<forall>q\<in>set out. sound_out mode s (stamped ws) q)
    \<and> concat out @ held_bytes m' = concat (map (\<lambda>(i, disc). snd (snd (fst ((k # ks) ! i)))) order)"
  using assms by (rule link_then_merge)

definition tick_writes :: "(timestamp \<times> bytes) list" where
  "tick_writes = [(1000, [1, 2, 3]), (1012, [4]), (1024, [5, 6])]"

definition tick_arrivals :: "(half_packet \<times> bool) list" where
  "tick_arrivals = [((9, ntp_from_timestamp 1024, [6]), True), ((5, ntp_from_timestamp 1000, [2, 3]), False)]"

definition first_arrival :: "half_packet \<times> bool" where
  "first_arrival = ((4, ntp_from_timestamp 1000, [1]), False)"

lemma tick_values: "wire_tick 1000 = 90" "wire_tick 1012 = 91" "wire_tick 1024 = 92"
  by (simp_all add: wire_tick_value us_per_second_def)

theorem merge_never_splices_witness:
  "\<exists>rs m' out. media_link (map (half_media 8) (first_arrival # tick_arrivals)) media_decoder_new = Some rs
    \<and> merge_run (merger_new Pairs) (map (\<lambda>(i, disc). (handed rs ! i, disc)) [(1, False), (0, True), (2, False)]) = Some (m', out)
    \<and> (\<forall>q\<in>set out. sound_out Half 4 (stamped tick_writes) q)
    \<and> concat out @ held_bytes m'
      = concat (map (\<lambda>(i, disc). snd (snd (fst ((first_arrival # tick_arrivals) ! i)))) [(1, False), (0, True), (2, False)])"
proof (rule merge_never_splices)
  have t: "tick_of (ntp_from_timestamp n) = wire_tick n" for n by (simp add: tick_of_def wire_tick_def)
  show "near_stream (half_media 8 first_arrival) (map (half_media 8) tick_arrivals)"
    by (simp add: first_arrival_def tick_arrivals_def media_near_def t tick_values)
  have "first_base (half_media 8 first_arrival) = 0"
    by (simp add: first_base_def first_arrival_def t tick_values)
  then show "list_all (\<lambda>(now, p). first_base (half_media 8 first_arrival) \<le> wire_tick now) tick_writes"
    by (simp add: tick_writes_def tick_values)
qed (simp_all add: tick_writes_def tick_values first_arrival_def tick_arrivals_def stamped_def merger_new_def
    is_retransmit_def split_payload_def split_point_def)

text \<open>A defect. Two writes of an unsplit sender that fall in one tick, here six microseconds apart, are received with
  one source time, and a merger of mode \<^verbatim>\<open>pairs\<close> hands them on as one payload.\<close>

theorem same_tick_writes_spliced:
  "\<exists>rs m'. media_link (map (half_media 8) (map (\<lambda>k. (k, False)) (push_split Split_Off 4 (stamped [(102, [1]), (108, [2])]))))
      media_decoder_new = Some rs
    \<and> merge_run (merger_new Pairs) (map (\<lambda>k. (k, False)) (handed rs)) = Some (m', [[1, 2]])"
proof -
  define k where "k = ((4 :: u32, ntp_from_timestamp 102, [1 :: u8]), False)"
  define k' where "k' = ((5 :: u32, ntp_from_timestamp 108, [2 :: u8]), False)"
  have ks: "map (\<lambda>k. (k, False)) (push_split Split_Off 4 (stamped [(102, [1]), (108, [2])])) = [k, k']"
    by (simp add: stamped_def split_payload_def k_def k'_def)
  have t: "tick_of (ntp_from_timestamp 102) = 9" "tick_of (ntp_from_timestamp 108) = 9"
    using wire_tick_value [of 102] wire_tick_value [of 108] by (simp_all add: tick_of_def wire_tick_def us_per_second_def)
  have first: "first_shift (half_media 8 k) = 0" "first_base (half_media 8 k) = 0"
    by (simp_all add: first_shift_def first_base_def k_def t)
  define rs where "rs = map (\<lambda>q. Inr (media_received 0 0 q) :: codec_error + media_packet) (map (half_media 8) [k, k'])"
  have "media_link [half_media 8 k, half_media 8 k'] media_decoder_new = Some rs"
    unfolding rs_def
    using media_link_received [of "half_media 8 k" "[half_media 8 k']", unfolded first]
    by (simp add: is_retransmit_def media_near_def k_def k'_def t)
  moreover have "handed rs = [(4, source_of_ticks 9, [1]), (5, source_of_ticks 9, [2])]"
    unfolding rs_def handed_received by (simp add: k_def k'_def t)
  ultimately show ?thesis
    unfolding ks by (simp add: merger_deliver_def merger_fresh_def merger_new_def merger_active_def is_split_pair_def combine_def)
qed

end
