(* ===== verification/Bonding_Props.thy ===== *)
theory Bonding_Props
  imports Bonding
begin

text \<open>
  What the bonding group promises: registered indices stay distinct, elections return the first of the best
  eligible paths, the load-share rotation is exactly fair over a round, and a NACK goes out on the
  preferred live path.
\<close>

definition group_ok :: "group \<Rightarrow> bool" where
  "group_ok g \<longleftrightarrow> distinct (map bp_index (gr_paths g))"

section \<open>Paths by index\<close>

lemma find_path_iff:
  "group_ok g \<Longrightarrow> find_path g i = Some p \<longleftrightarrow> p \<in> set (gr_paths g) \<and> bp_index p = i"
proof -
  have "distinct (map bp_index ps) \<Longrightarrow> find (\<lambda>p. bp_index p = i) ps = Some p \<longleftrightarrow> p \<in> set ps \<and> bp_index p = i" for ps
    by (induction ps) (auto simp: image_iff)
  then show "group_ok g \<Longrightarrow> ?thesis" by (simp add: group_ok_def find_path_def)
qed

lemma update_path_map:
  "distinct (map bp_index ps) \<Longrightarrow> update_path i f ps = map (\<lambda>p. if bp_index p = i then f p else p) ps"
proof (induction ps)
  case (Cons p ps)
  then have "bp_index p = i \<Longrightarrow> map (\<lambda>p. if bp_index p = i then f p else p) ps = ps"
    by (intro map_idI) (auto simp: image_iff)
  with Cons show ?case by simp
qed simp

lemma update_path_indices:
  "(\<And>p. bp_index (f p) = bp_index p) \<Longrightarrow> map bp_index (update_path i f ps) = map bp_index ps"
  by (induction ps) auto

lemma on_path_ok: "(\<And>p. bp_index (f p) = bp_index p) \<Longrightarrow> group_ok (on_path i f g) = group_ok g"
  by (simp add: group_ok_def on_path_def update_path_indices)

lemma group_ok_new: "group_ok (bond_group_new t d mn mx)"
  by (simp add: group_ok_def bond_group_new_def)

lemma group_ok_steps:
  assumes "group_ok g"
  shows "group_ok (add_path i w pr g)" "group_ok (fst (remove_path i g))" "group_ok (observe_path i now g)"
    "group_ok (observe_rtt i s g)" "group_ok (count_recv i n g)" "group_ok (count_sent i n rt g)"
    "group_ok (spend i g)" "group_ok (refill now g)" "group_ok (set_weight i w g)" "group_ok (fst (group_tick now g))"
proof -
  show "group_ok (add_path i w pr g)" using assms by (auto simp: add_path_def group_ok_def)
  show "group_ok (fst (remove_path i g))" using assms
    by (simp add: remove_path_def group_ok_def distinct_map inj_on_def Let_def)
  show "group_ok (observe_path i now g)" "group_ok (observe_rtt i s g)" "group_ok (count_recv i n g)"
    "group_ok (count_sent i n rt g)" "group_ok (spend i g)"
    using assms by (simp_all add: observe_path_def observe_rtt_def count_recv_def count_sent_def spend_def on_path_ok)
  have [simp]: "map (bp_index \<circ> (\<lambda>p. if C p then p\<lparr>bp_w_count := bp_weight p\<rparr> else p)) ps = map bp_index ps" for C ps
    by (intro map_cong) auto
  show "group_ok (refill now g)" using assms by (simp add: refill_def group_ok_def)
  have "group_ok (on_path i (\<lambda>p. p\<lparr>bp_weight := w\<rparr>) g)" using assms by (simp add: on_path_ok)
  then show "group_ok (set_weight i w g)" using assms by (simp add: set_weight_def group_ok_def Let_def comp_def)
  have "map bp_index (fst (tick_paths t now ps)) = map bp_index ps" for t ps
    by (induction t now ps rule: tick_paths.induct) (auto simp: Let_def split: prod.splits)
  then show "group_ok (fst (group_tick now g))" using assms
    by (simp add: group_tick_def group_ok_def case_prod_beta Let_def)
qed

section \<open>Elections\<close>

text \<open>An election needs a preference whose ties are transitive: the winner is then no worse than any eligible
  candidate.\<close>

locale election =
  fixes better :: "'a \<Rightarrow> 'a \<Rightarrow> bool"
  assumes asym: "better x y \<Longrightarrow> \<not> better y x"
    and neg_trans: "\<not> better x y \<Longrightarrow> \<not> better y z \<Longrightarrow> \<not> better x z"
begin

lemma irrefl: "\<not> better x x"
  using asym by blast

lemma first_best_from:
  "\<exists>r. first_best ok better (Some b) ps = Some r \<and> (r = b \<or> r \<in> set ps \<and> ok r)
    \<and> \<not> better b r \<and> (\<forall>q\<in>set ps. ok q \<longrightarrow> \<not> better q r)"
proof (induction ps arbitrary: b)
  case Nil
  then show ?case by (simp add: irrefl)
next
  case (Cons p ps)
  show ?case
  proof (cases "ok p \<and> better p b")
    case True
    obtain r where r: "first_best ok better (Some p) ps = Some r" "r = p \<or> r \<in> set ps \<and> ok r"
        "\<not> better p r" "\<forall>q\<in>set ps. ok q \<longrightarrow> \<not> better q r" using Cons.IH by blast
    have "\<not> better b p" using True asym by blast
    then have "\<not> better b r" using neg_trans r(3) by blast
    moreover have "first_best ok better (Some b) (p # ps) = Some r" using True r(1) by simp
    ultimately show ?thesis using True r(2-4) by (intro exI [of _ r]) fastforce
  next
    case False
    obtain r where r: "first_best ok better (Some b) ps = Some r" "r = b \<or> r \<in> set ps \<and> ok r"
        "\<not> better b r" "\<forall>q\<in>set ps. ok q \<longrightarrow> \<not> better q r" using Cons.IH by blast
    have "ok p \<longrightarrow> \<not> better p r" using neg_trans False r(3) by blast
    moreover have "first_best ok better (Some b) (p # ps) = Some r" using False r(1) by auto
    ultimately show ?thesis using r(2-4) by (intro exI [of _ r]) fastforce
  qed
qed

lemma first_best_none:
  "(first_best ok better None ps = None \<longleftrightarrow> (\<forall>q\<in>set ps. \<not> ok q))
   \<and> (\<forall>r. first_best ok better None ps = Some r \<longrightarrow>
        r \<in> set ps \<and> ok r \<and> (\<forall>q\<in>set ps. ok q \<longrightarrow> \<not> better q r))"
proof (induction ps)
  case Nil
  then show ?case by simp
next
  case (Cons p ps)
  show ?case
  proof (cases "ok p")
    case True
    then obtain r where "first_best ok better None (p # ps) = Some r" "r = p \<or> r \<in> set ps \<and> ok r"
        "\<not> better p r" "\<forall>q\<in>set ps. ok q \<longrightarrow> \<not> better q r"
      using first_best_from [of ok p ps] by force
    with True show ?thesis by auto
  next
    case False
    then have "first_best ok better None (p # ps) = first_best ok better None ps" by simp
    with Cons.IH False show ?thesis by (metis list.set_intros(2) set_ConsD)
  qed
qed

lemmas nobody_elected = first_best_none [THEN conjunct1]

lemmas elected = first_best_none [THEN conjunct2, rule_format]

end

definition nack_better :: "group \<Rightarrow> bond_path \<Rightarrow> bond_path \<Rightarrow> bool" where
  "nack_better g p b \<longleftrightarrow>
     bp_priority b < bp_priority p
     \<or> bp_priority p = bp_priority b \<and> the (nack_rtt g p) < the (nack_rtt g b)"

interpretation by_credit: election "\<lambda>p b. bp_w_count b < bp_w_count p"
  by unfold_locales auto

interpretation by_age: election "\<lambda>p b. bp_last_seen b < bp_last_seen p"
  by unfold_locales auto

interpretation by_nack: election "nack_better g" for g
  by unfold_locales (auto simp: nack_better_def)

section \<open>NACK routing\<close>

definition rtt_bounds_ok :: "group \<Rightarrow> bool" where
  "rtt_bounds_ok g \<longleftrightarrow> effective_min (gr_rtt_min g) \<le> gr_rtt_max g"

lemma preferred_some: "rtt_bounds_ok g \<Longrightarrow> preferred g p b = Some (nack_better g p b)"
proof -
  assume "rtt_bounds_ok g"
  then obtain c d where "nack_rtt g p = Some c" "nack_rtt g b = Some d"
    using est_last_clamped_panic_free by (auto simp: nack_rtt_def rtt_bounds_ok_def) blast
  then show ?thesis by (auto simp: preferred_def nack_better_def)
qed

lemma elect_live_first_best:
  "rtt_bounds_ok g \<Longrightarrow> elect_live g ok best ps = Some (first_best ok (nack_better g) best ps)"
  by (induction ps arbitrary: best) (auto simp: preferred_some split: option.splits)

lemma alive_path: "group_ok g \<Longrightarrow> p \<in> set (gr_paths g) \<Longrightarrow> alive g (bp_index p) now = path_live g now p"
  using find_path_iff [of g "bp_index p" p] by (simp add: alive_def)

definition usable :: "group \<Rightarrow> timestamp \<Rightarrow> (u8 \<Rightarrow> bool) \<Rightarrow> bond_path \<Rightarrow> bool" where
  "usable g now known p \<longleftrightarrow> p \<in> set (gr_paths g) \<and> path_live g now p \<and> known (bp_index p)"

definition fallback :: "group \<Rightarrow> (u8 \<Rightarrow> bool) \<Rightarrow> bond_path \<Rightarrow> bool" where
  "fallback g known p \<longleftrightarrow> p \<in> set (gr_paths g) \<and> bp_seen p \<and> known (bp_index p)"

text \<open>The path a NACK should take.\<close>

definition nack_target :: "group \<Rightarrow> timestamp \<Rightarrow> (u8 \<Rightarrow> bool) \<Rightarrow> bond_path \<Rightarrow> bool" where
  "nack_target g now known p \<longleftrightarrow>
     (if \<exists>q. usable g now known q
      then usable g now known p \<and> (\<forall>q. usable g now known q \<longrightarrow> \<not> nack_better g q p)
      else fallback g known p \<and> (\<forall>q. fallback g known q \<longrightarrow> bp_last_seen q \<le> bp_last_seen p))"

lemma select_nack_path_elects:
  assumes "group_ok g" and "rtt_bounds_ok g"
  shows "\<exists>r. select_nack_path g now known = Some r \<and>
    (case r of
       None \<Rightarrow> \<forall>p. \<not> fallback g known p
     | Some i \<Rightarrow> \<exists>p. bp_index p = i \<and> nack_target g now known p)"
proof -
  define ok where "ok = (\<lambda>p :: bond_path. alive g (bp_index p) now \<and> known (bp_index p))"
  have ok: "usable g now known p \<longleftrightarrow> p \<in> set (gr_paths g) \<and> ok p" for p
    using alive_path [OF assms(1)] by (auto simp: usable_def ok_def)
  show ?thesis
  proof (cases "first_best ok (nack_better g) None (gr_paths g)")
    case (Some p)
    then have "select_nack_path g now known = Some (Some (bp_index p))"
      by (simp add: select_nack_path_def elect_live_first_best [OF assms(2)] ok_def)
    moreover have "usable g now known p \<and> (\<forall>q. usable g now known q \<longrightarrow> \<not> nack_better g q p)"
      using by_nack.elected [OF Some] unfolding ok by blast
    then have "nack_target g now known p" unfolding nack_target_def by (subst if_P) blast+
    ultimately show ?thesis by auto
  next
    case None
    from by_nack.nobody_elected [THEN iffD1, OF None] have "\<forall>p\<in>set (gr_paths g). \<not> ok p" .
    then have live: "\<not> (\<exists>q. usable g now known q)" by (auto simp: ok)
    have sel: "select_nack_path g now known = Some (map_option bp_index
             (first_best (\<lambda>p. bp_seen p \<and> known (bp_index p)) (\<lambda>p b. bp_last_seen b < bp_last_seen p)
                None (gr_paths g)))"
      using None by (simp add: select_nack_path_def elect_live_first_best [OF assms(2)] ok_def)
    show ?thesis
    proof (cases "first_best (\<lambda>p. bp_seen p \<and> known (bp_index p)) (\<lambda>p b. bp_last_seen b < bp_last_seen p)
                None (gr_paths g)")
      case none: None
      have "\<forall>p\<in>set (gr_paths g). \<not> (bp_seen p \<and> known (bp_index p))"
        by (rule by_age.nobody_elected [THEN iffD1, OF none])
      then have "\<forall>p. \<not> fallback g known p" by (auto simp: fallback_def)
      then show ?thesis using sel none by simp
    next
      case (Some p)
      then have "fallback g known p \<and> (\<forall>q. fallback g known q \<longrightarrow> bp_last_seen q \<le> bp_last_seen p)"
        using by_age.elected [OF Some] unfolding fallback_def not_less by blast
      then have "nack_target g now known p" unfolding nack_target_def using live by (subst if_not_P) blast+
      with sel Some show ?thesis by auto
    qed
  qed
qed

section \<open>Load sharing\<close>

definition weighted :: "group \<Rightarrow> bond_path list" where
  "weighted g = filter (\<lambda>p. 0 < bp_weight p) (gr_paths g)"

definition weighted_live :: "group \<Rightarrow> timestamp \<Rightarrow> bool" where
  "weighted_live g now \<longleftrightarrow> (\<forall>p\<in>set (weighted g). \<not> proven_dead g p now)"

text \<open>What the rotation leaves alone.\<close>

definition rotation_frame :: "group \<Rightarrow> (u8 \<times> nat \<times> bool \<times> timestamp) list \<times> micros" where
  "rotation_frame g =
     (map (\<lambda>p. (bp_index p, bp_weight p, bp_seen p, bp_last_seen p)) (gr_paths g), gr_timeout g)"

lemma spend_map:
  "group_ok g \<Longrightarrow> gr_paths (spend i g) =
     map (\<lambda>p. if bp_index p = i then p\<lparr>bp_w_count := bp_w_count p - 1\<rparr> else p) (gr_paths g)"
  by (simp add: spend_def on_path_def update_path_map group_ok_def)

lemma rotation_frame_steps:
  "group_ok g \<Longrightarrow> rotation_frame (spend i g) = rotation_frame g"
  "rotation_frame (refill now g) = rotation_frame g"
proof -
  show "group_ok g \<Longrightarrow> rotation_frame (spend i g) = rotation_frame g"
    by (simp add: rotation_frame_def spend_map) (simp add: spend_def on_path_def)
  show "rotation_frame (refill now g) = rotation_frame g"
    by (auto simp: rotation_frame_def refill_def)
qed

lemma frame_live:
  assumes "rotation_frame g = rotation_frame g'"
  shows "weighted_live g now = weighted_live g' now"
proof -
  have "weighted_live h now \<longleftrightarrow> (\<forall>(i, w, seen, last)\<in>set (fst (rotation_frame h)).
      0 < w \<longrightarrow> \<not> (seen \<and> snd (rotation_frame h) < ts_diff now last))" for h
    by (auto simp: weighted_live_def weighted_def proven_dead_def rotation_frame_def)
  with assms show ?thesis by simp
qed

lemma best_weighted_live:
  assumes "weighted_live g now" and "weighted g \<noteq> []"
  shows "\<exists>p. best_weighted g now = Some (bp_index p) \<and> p \<in> set (weighted g)
    \<and> (\<forall>q\<in>set (weighted g). bp_w_count q \<le> bp_w_count p)"
proof -
  define ok where "ok = (\<lambda>p. \<not> (bp_weight p = 0 \<or> proven_dead g p now))"
  have ok: "p \<in> set (gr_paths g) \<and> ok p \<longleftrightarrow> p \<in> set (weighted g)" for p
    using assms(1) by (auto simp: ok_def weighted_def weighted_live_def)
  show ?thesis
  proof (cases "first_best ok (\<lambda>p b. bp_w_count b < bp_w_count p) None (gr_paths g)")
    case None
    from by_credit.nobody_elected [THEN iffD1, OF None] have "\<forall>p\<in>set (gr_paths g). \<not> ok p" .
    then have "q \<notin> set (weighted g)" for q using ok [of q] by blast
    then show ?thesis using assms(2) by (cases "weighted g") auto
  next
    case (Some p)
    then have "best_weighted g now = Some (bp_index p)" by (simp add: best_weighted_def ok_def)
    moreover have "p \<in> set (weighted g) \<and> (\<forall>q\<in>set (weighted g). bp_w_count q \<le> bp_w_count p)"
      using by_credit.elected [OF Some] ok unfolding not_less by blast
    ultimately show ?thesis by blast
  qed
qed

text \<open>One election: the round is refilled when every credit is spent, then a path with credit spends one.\<close>

lemma weighted_refill:
  assumes "weighted_live g now"
  shows "weighted (refill now g) = map (\<lambda>p. p\<lparr>bp_w_count := bp_weight p\<rparr>) (weighted g)"
proof -
  define d where "d = (\<lambda>p :: bond_path. bp_seen p \<and> gr_timeout g < ts_diff now (bp_last_seen p))"
  have m: "filter (\<lambda>p. 0 < bp_weight p)
          (map (\<lambda>p. if 0 < bp_weight p \<and> \<not> d p then p\<lparr>bp_w_count := bp_weight p\<rparr> else p) ps)
        = map (\<lambda>p. p\<lparr>bp_w_count := bp_weight p\<rparr>) (filter (\<lambda>p. 0 < bp_weight p) ps)"
    if "\<forall>p\<in>set (filter (\<lambda>p. 0 < bp_weight p) ps). \<not> d p" for ps
    using that by (induction ps) auto
  have "\<forall>p\<in>set (filter (\<lambda>p. 0 < bp_weight p) (gr_paths g)). \<not> d p"
    using assms by (simp add: weighted_live_def weighted_def proven_dead_def d_def)
  from m [OF this] show ?thesis by (simp add: weighted_def refill_def d_def)
qed

lemma select_weighted_step:
  assumes ok: "group_ok g" and live: "weighted_live g now" and some: "weighted g \<noteq> []"
  shows "\<exists>h p. select_weighted now g = (spend (bp_index p) h, Some (bp_index p)) \<and> p \<in> set (weighted h)
    \<and> 0 < bp_w_count p
    \<and> (h = g \<or> h = refill now g \<and> (\<forall>q\<in>set (weighted g). bp_w_count q = 0))"
proof -
  obtain p where p: "best_weighted g now = Some (bp_index p)" "p \<in> set (weighted g)"
      "\<forall>q\<in>set (weighted g). bp_w_count q \<le> bp_w_count p"
    using best_weighted_live [OF live some] by blast
  have has: "has_weighted g" using p(2) by (auto simp: has_weighted_def weighted_def)
  have find: "find_path g (bp_index p) = Some p"
    using find_path_iff [OF ok, of "bp_index p" p] p(2) by (simp add: weighted_def)
  show ?thesis
  proof (cases "bp_w_count p = 0")
    case False
    then have "select_weighted now g = (spend (bp_index p) g, Some (bp_index p))"
      by (simp add: select_weighted_def has p(1) find)
    with False p(2) show ?thesis by blast
  next
    case True
    define h where "h = refill now g"
    have h: "weighted_live h now" "weighted h = map (\<lambda>p. p\<lparr>bp_w_count := bp_weight p\<rparr>) (weighted g)"
      using live frame_live [OF rotation_frame_steps(2), of now g now] weighted_refill [OF live] by (simp_all add: h_def)
    obtain q where q: "best_weighted h now = Some (bp_index q)" "q \<in> set (weighted h)"
      using best_weighted_live [OF h(1)] h(2) some by auto
    have "0 < bp_w_count q" using q(2) unfolding h(2) by (auto simp: weighted_def)
    moreover have "select_weighted now g = (spend (bp_index q) h, Some (bp_index q))"
      by (simp add: select_weighted_def has p(1) find True h_def [symmetric] q(1) Let_def)
    moreover have "\<forall>r\<in>set (weighted g). bp_w_count r = 0" using p(3) True by simp
    ultimately show ?thesis using q(2) h_def by blast
  qed
qed

text \<open>The ledger of a rotation: what each path spent and still holds, after so many rounds.\<close>

definition ledger :: "group \<Rightarrow> nat \<Rightarrow> u8 option list \<Rightarrow> bool" where
  "ledger g rounds outs \<longleftrightarrow>
     (\<forall>p\<in>set (weighted g). bp_w_count p \<le> bp_weight p
        \<and> count_list outs (Some (bp_index p)) + bp_w_count p = rounds * bp_weight p)
     \<and> sum_list (map bp_w_count (weighted g)) + length outs = rounds * sum_list (map bp_weight (weighted g))"

lemma weighted_spend:
  assumes "group_ok g"
  shows "weighted (spend i g) =
    map (\<lambda>p. if bp_index p = i then p\<lparr>bp_w_count := bp_w_count p - 1\<rparr> else p) (weighted g)"
proof -
  have "filter (\<lambda>p. 0 < bp_weight p) (map (\<lambda>p. if bp_index p = i then p\<lparr>bp_w_count := bp_w_count p - 1\<rparr> else p) ps)
    = map (\<lambda>p. if bp_index p = i then p\<lparr>bp_w_count := bp_w_count p - 1\<rparr> else p) (filter (\<lambda>p. 0 < bp_weight p) ps)" for ps
    by (induction ps) auto
  with assms show ?thesis by (simp add: weighted_def spend_map)
qed

lemma sum_spend:
  "distinct (map bp_index ps) \<Longrightarrow> p \<in> set ps \<Longrightarrow> 0 < bp_w_count p \<Longrightarrow>
   sum_list (map bp_w_count
     (map (\<lambda>q. if bp_index q = bp_index p then q\<lparr>bp_w_count := bp_w_count q - 1\<rparr> else q) ps)) + 1
   = sum_list (map bp_w_count ps)"
proof (induction ps)
  case (Cons q ps)
  show ?case
  proof (cases "q = p")
    case True
    with Cons.prems have "map (\<lambda>q. if bp_index q = bp_index p then q\<lparr>bp_w_count := bp_w_count q - 1\<rparr> else q) ps = ps"
      by (intro map_idI) (auto simp: image_iff)
    with True Cons.prems show ?thesis by simp
  next
    case False
    with Cons.prems have "bp_index q \<noteq> bp_index p" by auto
    with False Cons show ?thesis by simp
  qed
qed simp

lemma ledger_spend:
  assumes ok: "group_ok g" and p: "p \<in> set (weighted g)" "0 < bp_w_count p" and led: "ledger g r outs"
  shows "ledger (spend (bp_index p) g) r (outs @ [Some (bp_index p)])"
proof -
  have dist: "distinct (map bp_index (weighted g))"
    using ok by (simp add: group_ok_def weighted_def distinct_map inj_on_def)
  have same: "q = p" if "q \<in> set (weighted g)" "bp_index q = bp_index p" for q
    using dist that p(1) by (auto simp: distinct_map inj_on_def)
  have "map bp_weight (weighted (spend (bp_index p) g)) = map bp_weight (weighted g)"
    by (simp add: weighted_spend [OF ok])
  moreover have "sum_list (map bp_w_count (weighted (spend (bp_index p) g))) + 1 = sum_list (map bp_w_count (weighted g))"
    using sum_spend [OF dist p] by (simp add: weighted_spend [OF ok])
  moreover have "\<forall>q\<in>set (weighted (spend (bp_index p) g)). bp_w_count q \<le> bp_weight q
      \<and> count_list (outs @ [Some (bp_index p)]) (Some (bp_index q)) + bp_w_count q = r * bp_weight q"
  proof
    fix q' assume "q' \<in> set (weighted (spend (bp_index p) g))"
    then obtain q where q: "q \<in> set (weighted g)"
        "q' = (if bp_index q = bp_index p then q\<lparr>bp_w_count := bp_w_count q - 1\<rparr> else q)"
      unfolding weighted_spend [OF ok] by auto
    have led_q: "bp_w_count q \<le> bp_weight q" "count_list outs (Some (bp_index q)) + bp_w_count q = r * bp_weight q"
      using led q(1) by (simp_all add: ledger_def)
    show "bp_w_count q' \<le> bp_weight q'
      \<and> count_list (outs @ [Some (bp_index p)]) (Some (bp_index q')) + bp_w_count q' = r * bp_weight q'"
    proof (cases "bp_index q = bp_index p")
      case True
      then have "0 < bp_w_count q" using same [OF q(1)] p(2) by simp
      then have "count_list outs (Some (bp_index q)) + 1 + (bp_w_count q - 1) = r * bp_weight q"
          "bp_w_count q - 1 \<le> bp_weight q"
        using led_q by linarith+
      moreover from True q(2) have "bp_w_count q' = bp_w_count q - 1" "bp_weight q' = bp_weight q"
          "count_list (outs @ [Some (bp_index p)]) (Some (bp_index q')) = count_list outs (Some (bp_index q)) + 1"
        by simp_all
      ultimately show ?thesis by presburger
    next
      case False
      with q(2) led_q show ?thesis by simp
    qed
  qed
  ultimately show ?thesis using led by (simp add: ledger_def)
qed

lemma ledger_refill:
  assumes "weighted_live g now" and "ledger g r outs" and "\<forall>q\<in>set (weighted g). bp_w_count q = 0"
  shows "ledger (refill now g) (r + 1) outs"
proof -
  have "sum_list (map bp_w_count (weighted g)) = 0"
    using assms(3) by (simp add: sum_list_eq_0_iff)
  with assms(2,3) show ?thesis
    unfolding ledger_def weighted_refill [OF assms(1)] by (simp add: comp_def)
qed

fun select_run :: "timestamp list \<Rightarrow> group \<Rightarrow> group \<times> u8 option list" where
  "select_run [] g = (g, [])"
| "select_run (now # nows) g =
     (let (g1, o1) = select_weighted now g; (g2, os) = select_run nows g1 in (g2, o1 # os))"

lemma ledger_run:
  "group_ok g \<Longrightarrow> weighted g \<noteq> [] \<Longrightarrow> \<forall>now\<in>set nows. weighted_live g now \<Longrightarrow> ledger g r outs \<Longrightarrow>
   \<exists>r'. ledger (fst (select_run nows g)) r' (outs @ snd (select_run nows g))
     \<and> rotation_frame (fst (select_run nows g)) = rotation_frame g"
proof (induction nows arbitrary: g r outs)
  case Nil
  then show ?case by auto
next
  case (Cons now nows)
  have live: "weighted_live g now" using Cons.prems(3) by simp
  obtain h p where sel: "select_weighted now g = (spend (bp_index p) h, Some (bp_index p))"
      and p: "p \<in> set (weighted h)" "0 < bp_w_count p"
      and h: "h = g \<or> h = refill now g \<and> (\<forall>q\<in>set (weighted g). bp_w_count q = 0)"
    using select_weighted_step [OF Cons.prems(1) live Cons.prems(2)] by blast
  have okh: "group_ok h" using h Cons.prems(1) group_ok_steps(8) by blast
  have frameh: "rotation_frame h = rotation_frame g" using h rotation_frame_steps(2) by blast
  obtain r1 where led: "ledger h r1 outs"
    using h Cons.prems(4) ledger_refill [OF live Cons.prems(4)] by blast
  define g1 where "g1 = spend (bp_index p) h"
  have led1: "ledger g1 r1 (outs @ [Some (bp_index p)])"
    unfolding g1_def by (rule ledger_spend [OF okh p led])
  have frame1: "rotation_frame g1 = rotation_frame g"
    using rotation_frame_steps(1) [OF okh] frameh by (simp add: g1_def)
  have ok1: "group_ok g1" unfolding g1_def by (rule group_ok_steps(7) [OF okh])
  have some1: "weighted g1 \<noteq> []" using p(1) weighted_spend [OF okh, of "bp_index p"] by (auto simp: g1_def)
  have live1: "\<forall>now\<in>set nows. weighted_live g1 now" using frame_live [OF frame1] Cons.prems(3) by simp
  from Cons.IH [OF ok1 some1 live1 led1] frame1 show ?case
    by (simp add: sel g1_def [symmetric] Let_def case_prod_beta)
qed

lemma sum_list_tight:
  "\<forall>x\<in>set xs. f x \<le> (g x :: nat) \<Longrightarrow> sum_list (map f xs) = sum_list (map g xs) \<Longrightarrow> x \<in> set xs \<Longrightarrow> f x = g x"
proof (induction xs)
  case (Cons y ys)
  have "sum_list (map f ys) \<le> sum_list (map g ys)" using Cons.prems(1) by (intro sum_list_mono) simp
  with Cons.prems have "f y = g y" "sum_list (map f ys) = sum_list (map g ys)" by simp_all
  with Cons show ?case by auto
qed simp

text \<open>What a full ledger says once the elections made are a whole number of rounds.\<close>

lemma ledger_whole_rounds:
  assumes led: "ledger g r outs" and rounds: "length outs = n * sum_list (map bp_weight (weighted g))"
    and p: "p \<in> set (weighted g)"
  shows "count_list outs (Some (bp_index p)) = n * bp_weight p"
proof -
  define W where "W = sum_list (map bp_weight (weighted g))"
  define C where "C = sum_list (map bp_w_count (weighted g))"
  have le: "\<forall>q\<in>set (weighted g). bp_w_count q \<le> bp_weight q"
    and eq: "count_list outs (Some (bp_index p)) + bp_w_count p = r * bp_weight p"
    and sum: "C + n * W = r * W"
    using led p rounds by (auto simp: ledger_def C_def W_def)
  have "C \<le> W" unfolding C_def W_def using le by (intro sum_list_mono) simp
  have "0 < bp_weight p" using p by (simp add: weighted_def)
  moreover have "bp_weight p \<le> W" unfolding W_def using p member_le_sum_list [of "bp_weight p" "map bp_weight (weighted g)"] by auto
  ultimately have "0 < W" by simp
  have "n * W \<le> r * W" using sum by linarith
  then have "n \<le> r" using \<open>0 < W\<close> by simp
  moreover have "r * W \<le> (n + 1) * W" using sum \<open>C \<le> W\<close> by (simp add: algebra_simps)
  then have "r \<le> n + 1" using \<open>0 < W\<close> by (metis mult_le_cancel2)
  ultimately consider "r = n" | "r = n + 1" by linarith
  then show ?thesis
  proof cases
    case 1
    with sum have "C = 0" by simp
    then have "bp_w_count p = 0" using p by (simp add: C_def sum_list_eq_0_iff)
    with eq 1 show ?thesis by simp
  next
    case 2
    with sum have "C = W" by (simp add: algebra_simps)
    then have "bp_w_count p = bp_weight p" using sum_list_tight [OF le _ p] by (simp add: C_def W_def)
    with eq 2 show ?thesis by simp
  qed
qed

lemma length_select_run [simp]: "length (snd (select_run nows g)) = length nows"
  by (induction nows arbitrary: g) (simp_all add: Let_def case_prod_beta)

lemma frame_weights:
  assumes "rotation_frame g = rotation_frame g'"
  shows "map (\<lambda>p. (bp_index p, bp_weight p)) (weighted g) = map (\<lambda>p. (bp_index p, bp_weight p)) (weighted g')"
proof -
  have "map (\<lambda>p. (bp_index p, bp_weight p)) (weighted h)
      = filter (\<lambda>(i, w). 0 < w) (map (\<lambda>(i, w, seen, last). (i, w)) (fst (rotation_frame h)))" for h
    by (simp add: weighted_def rotation_frame_def filter_map comp_def)
  with assms show ?thesis by simp
qed

lemma rotation_fair:
  assumes ok: "group_ok g" and live: "\<forall>now\<in>set nows. weighted_live g now"
    and full: "\<forall>p\<in>set (weighted g). bp_w_count p = bp_weight p"
    and rounds: "length nows = n * sum_list (map bp_weight (weighted g))" and p: "p \<in> set (weighted g)"
  shows "count_list (snd (select_run nows g)) (Some (bp_index p)) = n * bp_weight p"
proof -
  define g' where "g' = fst (select_run nows g)"
  have "map bp_w_count (weighted g) = map bp_weight (weighted g)" using full by simp
  with full have "ledger g 1 []" by (simp add: ledger_def del: map_eq_conv)
  moreover have "weighted g \<noteq> []" using p by auto
  ultimately obtain r where led: "ledger g' r (snd (select_run nows g))" and frame: "rotation_frame g' = rotation_frame g"
    using ledger_run [OF ok _ live, of 1 "[]"] unfolding g'_def by auto
  note same = frame_weights [OF frame]
  have "map bp_weight (weighted g') = map bp_weight (weighted g)"
    using arg_cong [OF same, of "map snd"] by (simp add: comp_def)
  then have len: "length (snd (select_run nows g)) = n * sum_list (map bp_weight (weighted g'))"
    using rounds by simp
  have "(bp_index p, bp_weight p) \<in> set (map (\<lambda>p. (bp_index p, bp_weight p)) (weighted g'))"
    unfolding same using p by simp
  then obtain q where "q \<in> set (weighted g')" "bp_index q = bp_index p" "bp_weight q = bp_weight p" by auto
  with ledger_whole_rounds [OF led len, of q] show ?thesis by simp
qed

section \<open>Fan-out\<close>

lemma select_weighted_is_weighted:
  assumes "group_ok g" and "snd (select_weighted now g) = Some i"
  shows "\<exists>p\<in>set (gr_paths g). bp_index p = i \<and> 0 < bp_weight p"
proof -
  have best: "\<exists>p\<in>set (gr_paths h). bp_index p = j \<and> 0 < bp_weight p" if b: "best_weighted h now = Some j" for h j
  proof -
    obtain p where p: "first_best (\<lambda>p. \<not> (bp_weight p = 0 \<or> proven_dead h p now)) (\<lambda>p b. bp_w_count b < bp_w_count p)
          None (gr_paths h) = Some p" "bp_index p = j" using b unfolding best_weighted_def by blast
    from by_credit.elected [OF p(1)] p(2) show ?thesis by auto
  qed
  have refill: "\<exists>p\<in>set (gr_paths g). bp_index p = j \<and> 0 < bp_weight p"
    if "\<exists>p\<in>set (gr_paths (refill now g)). bp_index p = j \<and> 0 < bp_weight p" for j
    using that by (auto simp: refill_def split: if_splits)
  from assms(2) consider "best_weighted g now = Some i" | "best_weighted (refill now g) now = Some i"
    by (auto simp: select_weighted_def Let_def split: if_splits option.splits)
  then show ?thesis using best refill by cases blast+
qed

section \<open>Properties\<close>

text \<open>C21: The load-share rotation is exactly fair: from full credits, while every weighted path stays live,
  any whole number \<open>n\<close> of rounds (as many elections as the weights sum to) elects each weighted path exactly
  \<open>n\<close> times its weight, whatever the order of the paths and the times of the elections.\<close>

theorem weighted_rotation_fair:
  assumes "group_ok g" and "\<forall>now\<in>set nows. weighted_live g now"
    and "\<forall>p\<in>set (weighted g). bp_w_count p = bp_weight p"
    and "length nows = n * sum_list (map bp_weight (weighted g))" and "p \<in> set (weighted g)"
  shows "count_list (snd (select_run nows g)) (Some (bp_index p)) = n * bp_weight p"
  using assms by (rule rotation_fair)

definition sample_group :: group where
  "sample_group = add_path 2 0 0 (add_path 1 1 0 (add_path 0 2 5 (bond_group_new 2000000 1000000 5000 500000)))"

lemma sample_paths:
  "map (\<lambda>p. (bp_index p, bp_weight p, bp_w_count p, bp_seen p)) (gr_paths sample_group)
     = [(0, 2, 2, False), (1, 1, 1, False), (2, 0, 0, False)]"
  by (simp add: sample_group_def add_path_def bond_group_new_def)

theorem weighted_rotation_fair_witness:
  "count_list (snd (select_run [10, 20, 30, 40, 50, 60] sample_group)) (Some 0) = 2 * 2"
proof -
  have w: "\<exists>p q. weighted sample_group = [p, q] \<and> bp_index p = 0 \<and> bp_weight p = 2 \<and> bp_w_count p = 2
      \<and> \<not> bp_seen p \<and> bp_weight q = 1 \<and> bp_w_count q = 1 \<and> \<not> bp_seen q"
    by (simp add: weighted_def sample_group_def add_path_def bond_group_new_def)
  then obtain p q where p: "weighted sample_group = [p, q]" "bp_index p = 0" "bp_weight p = 2" "bp_w_count p = 2"
      "\<not> bp_seen p" "bp_weight q = 1" "bp_w_count q = 1" "\<not> bp_seen q" by blast
  have "group_ok sample_group" by (simp add: group_ok_def sample_group_def add_path_def bond_group_new_def)
  then show ?thesis
    using weighted_rotation_fair [of sample_group "[10, 20, 30, 40, 50, 60]" 2 p] p
    by (simp add: weighted_live_def proven_dead_def)
qed

text \<open>A NACK takes the preferred path: when some live path has a known return address, the elected path
  is one of those, and none of them has a higher priority, or the same priority and a lower last round trip;
  when none is live, it is the most recently seen path with a known address; and no path is elected only when
  no seen path has one. The election never panics while the round-trip bounds are the right way round.\<close>

theorem nack_takes_preferred_path:
  assumes "group_ok g" and "rtt_bounds_ok g"
  shows "\<exists>r. select_nack_path g now known = Some r \<and>
    (case r of
       None \<Rightarrow> \<forall>p. \<not> fallback g known p
     | Some i \<Rightarrow> \<exists>p. bp_index p = i \<and> nack_target g now known p)"
  using assms by (rule select_nack_path_elects)

theorem nack_takes_preferred_path_witness:
  "\<exists>r. select_nack_path (observe_path 1 500 sample_group) 900 (\<lambda>i. i < 2) = Some r \<and>
    (case r of
       None \<Rightarrow> \<forall>p. \<not> fallback (observe_path 1 500 sample_group) (\<lambda>i. i < 2) p
     | Some i \<Rightarrow> \<exists>p. bp_index p = i \<and> nack_target (observe_path 1 500 sample_group) 900 (\<lambda>i. i < 2) p)"
proof (rule nack_takes_preferred_path)
  show "group_ok (observe_path 1 500 sample_group)"
    by (rule group_ok_steps) (simp add: group_ok_def sample_group_def add_path_def bond_group_new_def)
  show "rtt_bounds_ok (observe_path 1 500 sample_group)"
    by (simp add: rtt_bounds_ok_def observe_path_def on_path_def sample_group_def add_path_def bond_group_new_def
        effective_min_eq)
qed

text \<open>No path carries the same datagram twice: the redundant targets together with the path the
  rotation elects are distinct, redundant targets have weight 0 and the elected path a positive weight.\<close>

theorem fan_out_distinct:
  assumes "group_ok g"
  shows "distinct (duplicate_targets g now
    @ (case snd (select_weighted now g) of None \<Rightarrow> [] | Some i \<Rightarrow> [i]))"
proof -
  have inj: "inj_on bp_index (set (gr_paths g))" and dist: "distinct (gr_paths g)"
    using assms by (simp_all add: group_ok_def distinct_map)
  have "distinct (duplicate_targets g now)"
    using inj dist by (simp add: duplicate_targets_def distinct_map inj_on_def)
  moreover have "i \<notin> set (duplicate_targets g now)" if elected: "snd (select_weighted now g) = Some i" for i
  proof -
    obtain p where "p \<in> set (gr_paths g)" "bp_index p = i" "0 < bp_weight p"
      using select_weighted_is_weighted [OF assms elected] by blast
    then show ?thesis using inj by (auto simp: duplicate_targets_def weight_duplicate_def inj_on_def)
  qed
  ultimately show ?thesis by (auto split: option.splits)
qed

theorem fan_out_distinct_witness:
  "distinct (duplicate_targets sample_group 100
    @ (case snd (select_weighted 100 sample_group) of None \<Rightarrow> [] | Some i \<Rightarrow> [i]))"
  by (rule fan_out_distinct) (simp add: group_ok_def sample_group_def add_path_def bond_group_new_def)

end
