(* ===== verification/Float64_Order.thy ===== *)
theory Float64_Order
  imports Complex_Main Float64
begin

text \<open>
  The order of binary64 values and the monotonicity of rounding, on which every argument about the rate
  controller rests. A value is read as a real number; rounding to 53 bits is a function on integers that commutes
  with shifts.
\<close>

definition f64_val :: "f64 \<Rightarrow> real" where
  "f64_val a = of_int (f64_mant a) * 2 powi f64_exp a"

lemma align_val:
  assumes "f64_align a b = (x, y, e)"
  shows "f64_val a = of_int x * 2 powi e" "f64_val b = of_int y * 2 powi e"
proof -
  have "of_int m * 2 powi k = of_int (m * 2 ^ nat (k - e)) * (2 :: real) powi e" if "e \<le> k" for m k :: int
  proof -
    have "(2::real) powi k = 2 powi (k - e) * 2 powi e" by (simp flip: power_int_add)
    also have "(2::real) powi (k - e) = 2 ^ nat (k - e)" using that by (simp add: power_int_def)
    finally show ?thesis by simp
  qed
  then show "f64_val a = of_int x * 2 powi e" "f64_val b = of_int y * 2 powi e"
    using assms by (auto simp: f64_align_def Let_def f64_val_def)
qed

lemma f64_le_iff: "f64_le a b \<longleftrightarrow> f64_val a \<le> f64_val b"
proof -
  obtain x y e where al: "f64_align a b = (x, y, e)" by (cases "f64_align a b") auto
  then show ?thesis by (simp add: f64_le_def align_val [OF al])
qed

lemma f64_less_iff: "f64_less a b \<longleftrightarrow> f64_val a < f64_val b"
proof -
  obtain x y e where al: "f64_align a b = (x, y, e)" by (cases "f64_align a b") auto
  then show ?thesis by (simp add: f64_less_def align_val [OF al])
qed

section \<open>Rounding\<close>

text \<open>Rounding a natural number to 53 significant bits, as a number.\<close>

definition rint :: "nat \<Rightarrow> nat" where
  "rint m = round_mant m (nbits m - 53) * 2 ^ (nbits m - 53)"

lemma nbits_lower: "0 < m \<Longrightarrow> 2 ^ (nbits m - 1) \<le> m"
proof (induction m rule: nbits.induct)
  case (1 m)
  then have n: "nbits m = Suc (nbits (m div 2))" by (simp add: nbits.simps [of m])
  show ?case
  proof (cases "m div 2 = 0")
    case True
    then show ?thesis using "1.prems" by (simp add: n nbits.simps)
  next
    case False
    with 1 have "2 ^ (nbits (m div 2) - 1) \<le> m div 2" by simp
    moreover have "0 < nbits (m div 2)" using False by (simp add: nbits.simps [of "m div 2"])
    ultimately have "(2::nat) ^ nbits (m div 2) \<le> 2 * (m div 2)"
      by (cases "nbits (m div 2)") simp_all
    then show ?thesis by (simp add: n)
  qed
qed

lemma nbits_mono: "m \<le> n \<Longrightarrow> nbits m \<le> nbits n"
  using nbits_upper [of n] by (intro nbits_le) simp

lemma nbits_shift: "0 < m \<Longrightarrow> nbits (m * 2 ^ j) = nbits m + j"
proof (induction j)
  case (Suc j)
  have "nbits (2 * (m * 2 ^ j)) = Suc (nbits (m * 2 ^ j))"
    using Suc.prems by (subst nbits.simps) simp
  then show ?case using Suc by (simp add: ac_simps)
qed simp

lemma round_mant_mono: "m \<le> n \<Longrightarrow> round_mant m k \<le> round_mant n k"
proof (cases "k = 0")
  case False
  assume mn: "m \<le> n"
  let ?q = "\<lambda>x. x div (2 :: nat) ^ k"
  have q: "?q m \<le> ?q n" using mn by (rule div_le_mono)
  show ?thesis
  proof (cases "?q m = ?q n")
    case True
    then have "m mod 2 ^ k \<le> n mod 2 ^ k"
      using mn div_mult_mod_eq [of m "2 ^ k"] div_mult_mod_eq [of n "2 ^ k"] by simp
    then show ?thesis using True by (auto simp: round_mant_def Let_def)
  next
    case neq: False
    with q have "?q m + 1 \<le> ?q n" by simp
    then show ?thesis by (auto simp: round_mant_def Let_def)
  qed
qed simp

lemma rint_mono: "m \<le> n \<Longrightarrow> rint m \<le> rint n"
proof -
  assume mn: "m \<le> n"
  define k l where "k = nbits m - 53" and "l = nbits n - 53"
  have kl: "k \<le> l" using nbits_mono [OF mn] by (simp add: k_def l_def)
  show ?thesis
  proof (cases "k = l")
    case True
    then show ?thesis using round_mant_mono [OF mn, of k] by (simp add: rint_def k_def [symmetric] l_def [symmetric])
  next
    case False
    define b where "b = nbits n - 1"
    have b: "k \<le> b" "l \<le> b" "nbits m \<le> b" using False kl by (auto simp: k_def l_def b_def)
    have "m < 2 ^ b" using nbits_upper [of m] power_increasing [OF b(3), of "2::nat"] by linarith
    then have "m \<le> 2 ^ (b - k) * 2 ^ k" using b(1) by (simp flip: power_add)
    then have "round_mant m k \<le> 2 ^ (b - k)" by (rule round_mant_upper)
    then have "rint m \<le> 2 ^ (b - k) * 2 ^ k" by (simp add: rint_def k_def [symmetric])
    then have up: "rint m \<le> 2 ^ b" using b(1) by (simp flip: power_add)
    have "0 < n" using False kl by (cases "n = 0") (simp_all add: l_def nbits.simps [of 0])
    then have "2 ^ b \<le> n" unfolding b_def by (rule nbits_lower)
    then have "2 ^ (b - l) * 2 ^ l \<le> n" using b(2) by (simp flip: power_add)
    then have "2 ^ (b - l) \<le> round_mant n l" by (rule round_mant_lower)
    then have "2 ^ (b - l) * 2 ^ l \<le> rint n" by (simp add: rint_def l_def [symmetric])
    with up show ?thesis using b(2) by (simp flip: power_add)
  qed
qed

lemma round_mant_shift: "round_mant (m * 2 ^ j) (k + j) = round_mant m k" if "0 < k"
proof -
  have "m * 2 ^ j div 2 ^ (k + j) = m div 2 ^ k" by (simp add: power_add)
  moreover have "m * 2 ^ j mod 2 ^ (k + j) = m mod 2 ^ k * 2 ^ j" by (simp add: power_add mult_mod_left)
  moreover have "(2::nat) ^ (k + j - 1) = 2 ^ (k - 1) * 2 ^ j" using that by (cases k) (simp_all add: power_add)
  ultimately show ?thesis using that by (simp add: round_mant_def Let_def)
qed

lemma round_mant_exact: "k \<le> j \<Longrightarrow> round_mant (m * 2 ^ j) k = m * 2 ^ (j - k)"
proof -
  assume "k \<le> j"
  then have "m * 2 ^ j = m * 2 ^ (j - k) * 2 ^ k" by (simp flip: power_add)
  then have "m * 2 ^ j div 2 ^ k = m * 2 ^ (j - k)" "m * 2 ^ j mod 2 ^ k = 0"
    by (metis nonzero_mult_div_cancel_right power_not_zero zero_neq_numeral, metis mod_mult_self2_is_0)
  moreover have "(0::nat) < 2 ^ (k - 1)" by simp
  ultimately show ?thesis using \<open>k \<le> j\<close> unfolding round_mant_def Let_def by simp
qed

lemma rint_shift: "rint (m * 2 ^ j) = rint m * 2 ^ j"
proof (cases "m = 0")
  case False
  show ?thesis
  proof (cases "53 < nbits m")
    case True
    then have e: "nbits (m * 2 ^ j) - 53 = nbits m - 53 + j" using False by (simp add: nbits_shift)
    have "round_mant (m * 2 ^ j) (nbits m - 53 + j) = round_mant m (nbits m - 53)" 
      by (rule round_mant_shift) (use True in simp)
    then show ?thesis unfolding rint_def e by (simp only: power_add mult.assoc)
  next
    case small: False
    let ?k = "nbits (m * 2 ^ j) - 53"
    have "?k \<le> j" using small False by (simp add: nbits_shift)
    then have "rint (m * 2 ^ j) = m * 2 ^ (j - ?k) * 2 ^ ?k" by (simp add: rint_def round_mant_exact)
    also have "\<dots> = m * 2 ^ j" using \<open>?k \<le> j\<close> by (simp flip: power_add)
    finally show ?thesis using small by (simp add: rint_def)
  qed
qed (simp add: rint_def nbits.simps [of 0])

lemma rint_exact: "m < 2 ^ 53 \<Longrightarrow> rint m = m"
  using nbits_le [of m 53] by (simp add: rint_def)

definition rint_int :: "int \<Rightarrow> int" where
  "rint_int m = sgn m * int (rint (nat \<bar>m\<bar>))"

lemma rint_int_mono: "m \<le> n \<Longrightarrow> rint_int m \<le> rint_int n"
proof -
  assume mn: "m \<le> n"
  have z: "rint 0 = 0" by (simp add: rint_def nbits.simps [of 0])
  consider "0 \<le> m" | "m < 0" "0 \<le> n" | "n < 0" by linarith
  then show ?thesis
  proof cases
    case 1
    then show ?thesis using mn rint_mono [of "nat m" "nat n"] z by (simp add: rint_int_def sgn_if)
  next
    case 2
    then show ?thesis by (simp add: rint_int_def sgn_if)
  next
    case 3
    then show ?thesis using mn rint_mono [of "nat (- n)" "nat (- m)"] by (simp add: rint_int_def sgn_if)
  qed
qed

lemma rint_int_shift: "rint_int (m * 2 ^ j) = rint_int m * 2 ^ j"
proof -
  have "nat \<bar>m * 2 ^ j\<bar> = nat \<bar>m\<bar> * 2 ^ j" by (simp add: abs_mult nat_mult_distrib nat_power_eq)
  then show ?thesis by (simp add: rint_int_def rint_shift sgn_mult)
qed

lemma rnd_val: "f64_val (f64_rnd m e) = of_int (rint_int m) * 2 powi e"
  by (simp add: f64_rnd_def f64_val_def rint_int_def rint_def Let_def power_int_add mult.assoc)

lemma rnd_mono:
  assumes "of_int m * 2 powi e \<le> of_int n * (2 :: real) powi f"
  shows "f64_val (f64_rnd m e) \<le> f64_val (f64_rnd n f)"
proof -
  define d where "d = min e f"
  have up: "of_int x * (2::real) powi k = of_int (x * 2 ^ nat (k - d)) * 2 powi d" if "d \<le> k" for x k
    using that power_int_add [of "2 :: real" "k - d" d] by (simp add: power_int_def)
  have "real_of_int (m * 2 ^ nat (e - d)) * 2 powi d \<le> real_of_int (n * 2 ^ nat (f - d)) * 2 powi d"
    using assms up [of e m] up [of f n] by (simp only: d_def min.cobounded1 min.cobounded2)
  then have "real_of_int (m * 2 ^ nat (e - d)) \<le> real_of_int (n * 2 ^ nat (f - d))" by (rule mult_right_le_imp_le) simp
  then have "m * 2 ^ nat (e - d) \<le> n * 2 ^ nat (f - d)" by (simp only: of_int_le_iff)
  from rint_int_mono [OF this]
  have "rint_int m * 2 ^ nat (e - d) \<le> rint_int n * 2 ^ nat (f - d)" by (simp add: rint_int_shift)
  then have "real_of_int (rint_int m * 2 ^ nat (e - d)) * 2 powi d \<le> real_of_int (rint_int n * 2 ^ nat (f - d)) * 2 powi d"
    by (intro mult_right_mono) (simp_all only: of_int_le_iff, simp)
  then show ?thesis using up [of e "rint_int m"] up [of f "rint_int n"]
    by (simp only: rnd_val d_def min.cobounded1 min.cobounded2)
qed

section \<open>The operations\<close>

lemma f64_add_mono:
  assumes "f64_val a \<le> f64_val a'" "f64_val b \<le> f64_val b'"
  shows "f64_val (f64_add a b) \<le> f64_val (f64_add a' b')"
proof -
  obtain x y e x' y' e' where al: "f64_align a b = (x, y, e)" "f64_align a' b' = (x', y', e')"
    by (cases "f64_align a b", cases "f64_align a' b'") auto
  have "of_int (x + y) * (2::real) powi e \<le> of_int (x' + y') * 2 powi e'"
    using assms by (simp add: align_val [OF al(1)] align_val [OF al(2)] distrib_right)
  from rnd_mono [OF this] show ?thesis by (simp add: f64_add_def al)
qed

lemma f64_sub_mono:
  assumes "f64_val a \<le> f64_val a'" "f64_val b' \<le> f64_val b"
  shows "f64_val (f64_sub a b) \<le> f64_val (f64_sub a' b')"
proof -
  obtain x y e x' y' e' where al: "f64_align a b = (x, y, e)" "f64_align a' b' = (x', y', e')"
    by (cases "f64_align a b", cases "f64_align a' b'") auto
  have "of_int (x - y) * (2::real) powi e \<le> of_int (x' - y') * 2 powi e'"
    using assms by (simp add: align_val [OF al(1)] align_val [OF al(2)] left_diff_distrib)
  from rnd_mono [OF this] show ?thesis by (simp add: f64_sub_def al)
qed

lemma f64_mul_mono:
  assumes "f64_val a * f64_val b \<le> f64_val a' * f64_val b'"
  shows "f64_val (f64_mul a b) \<le> f64_val (f64_mul a' b')"
proof -
  have p: "of_int (f64_mant u * f64_mant v) * (2::real) powi (f64_exp u + f64_exp v) = f64_val u * f64_val v" for u v
    by (simp add: f64_val_def power_int_add)
  show ?thesis unfolding f64_mul_def by (rule rnd_mono) (simp only: p assms)
qed

lemma f64_of_int_val: "\<bar>i\<bar> < 2 ^ 53 \<Longrightarrow> f64_val (f64_of_int i) = of_int i"
  by (simp add: f64_of_int_exact f64_val_def)

lemma rnd_int_val: "\<bar>i\<bar> < 2 ^ 53 \<Longrightarrow> f64_val (f64_rnd i e) = of_int i * 2 powi e"
  by (simp add: rnd_val rint_int_def rint_exact nat_less_iff mult_sgn_abs)

text \<open>The quotient of two numbers with one divisor grows with the dividend.\<close>

lemma f64_div_mono:
  assumes "0 \<le> u" "u \<le> v" "v < 2 ^ 53" "0 < d" "d < 2 ^ 53"
  shows "f64_val (f64_div (f64_of_int u) (f64_of_int d)) \<le> f64_val (f64_div (f64_of_int v) (f64_of_int d))"
proof -
  define s where "s = 64 + nbits (nat d)"
  define g where "g m = 2 * (m * 2 ^ s div nat d) + (if m * 2 ^ s mod nat d = 0 then 0 else 1)" for m
  have q: "f64_div (f64_of_int x) (f64_of_int d) = f64_rnd (int (g (nat x))) (- int s - 1)" if "0 \<le> x" "x < 2 ^ 53" for x
  proof (cases "x = 0")
    case True
    then show ?thesis using assms by (simp add: f64_div_def f64_of_int_exact g_def s_def Let_def)
  next
    case False
    then show ?thesis using assms that
      by (simp add: f64_div_def f64_of_int_exact g_def s_def Let_def)
  qed
  have "g (nat u) \<le> g (nat v)"
  proof -
    let ?m = "nat u * 2 ^ s" and ?n = "nat v * 2 ^ s"
    have mn: "?m \<le> ?n" using assms by (simp add: nat_mono)
    then have le: "?m div nat d \<le> ?n div nat d" by (rule div_le_mono)
    show ?thesis
    proof (cases "?m div nat d = ?n div nat d")
      case True
      then have "?m mod nat d \<le> ?n mod nat d"
        using diff_le_mono [OF mn, of "?n div nat d * nat d"] by (metis minus_div_mult_eq_mod)
      then show ?thesis using True by (simp add: g_def)
    next
      case False
      then show ?thesis using le by (simp add: g_def)
    qed
  qed
  then have "of_int (int (g (nat u))) * (2::real) powi (- int s - 1) \<le> of_int (int (g (nat v))) * 2 powi (- int s - 1)"
    by (intro mult_right_mono) simp_all
  from rnd_mono [OF this] show ?thesis using assms by (simp add: q)
qed

text \<open>\<^verbatim>\<open>x as u32\<close>: truncation towards zero, clipped at both ends.\<close>

definition f64_trunc :: "f64 \<Rightarrow> int" where
  "f64_trunc a =
     (if 0 \<le> f64_exp a then f64_mant a * 2 ^ nat (f64_exp a)
      else sgn (f64_mant a) * (\<bar>f64_mant a\<bar> div 2 ^ nat (- f64_exp a)))"

definition f64_to_u32 :: "f64 \<Rightarrow> nat" where
  "f64_to_u32 a = min (nat (f64_trunc a)) 4294967295"

lemma f64_trunc_nonneg:
  assumes "0 \<le> f64_mant a"
  shows "f64_trunc a = \<lfloor>f64_val a\<rfloor>"
proof (cases "0 \<le> f64_exp a")
  case True
  then obtain n where n: "f64_exp a = int n" by (metis nonneg_int_cases)
  have "f64_val a = of_int (f64_mant a * 2 ^ n)" by (simp add: f64_val_def n)
  then have "\<lfloor>f64_val a\<rfloor> = f64_mant a * 2 ^ n" by (simp only: floor_of_int)
  then show ?thesis by (simp add: f64_trunc_def n)
next
  case False
  then obtain n where n: "f64_exp a = - int n" by (metis nonpos_int_cases linear)
  then have "0 < n" using False by simp
  have "f64_val a = of_int (f64_mant a) / of_int (2 ^ n)" by (simp add: f64_val_def n power_int_minus divide_inverse)
  then have "\<lfloor>f64_val a\<rfloor> = f64_mant a div 2 ^ n" by (simp only: floor_divide_of_int_eq)
  moreover have "f64_trunc a = f64_mant a div 2 ^ n"
    using assms \<open>0 < n\<close> by (cases "f64_mant a = 0") (simp_all add: f64_trunc_def n)
  ultimately show ?thesis by simp
qed

lemma f64_trunc_neg:
  assumes "f64_mant a < 0"
  shows "f64_trunc a \<le> 0"
proof -
  have "\<bar>f64_mant a\<bar> div 2 ^ nat (- f64_exp a) \<ge> 0" by (intro pos_imp_zdiv_nonneg_iff [THEN iffD2]) simp_all
  then show ?thesis using assms by (simp add: f64_trunc_def mult_le_0_iff)
qed

lemma f64_val_sign: "0 \<le> f64_val a \<longleftrightarrow> 0 \<le> f64_mant a"
proof -
  have "(0::real) < 2 powi f64_exp a" by simp
  then show ?thesis by (simp add: f64_val_def zero_le_mult_iff not_le [symmetric])
qed

lemma f64_to_u32_val: "f64_to_u32 a = min (nat \<lfloor>f64_val a\<rfloor>) 4294967295"
proof (cases "0 \<le> f64_mant a")
  case False
  then have "f64_val a < 0" using f64_val_sign [of a] by linarith
  then have "\<lfloor>f64_val a\<rfloor> < 0" by simp
  with False show ?thesis using f64_trunc_neg [of a] by (simp add: f64_to_u32_def)
qed (simp add: f64_to_u32_def f64_trunc_nonneg)

lemma f64_to_u32_mono: "f64_val a \<le> f64_val b \<Longrightarrow> f64_to_u32 a \<le> f64_to_u32 b"
  unfolding f64_to_u32_val by (intro min.mono nat_mono floor_mono) simp_all

text \<open>Maximum and clamp.\<close>

definition f64_max :: "f64 \<Rightarrow> f64 \<Rightarrow> f64" where
  "f64_max a b = (if f64_le a b then b else a)"

definition f64_clamp :: "f64 \<Rightarrow> f64 \<Rightarrow> f64 \<Rightarrow> f64" where
  "f64_clamp a lo hi = (if f64_less a lo then lo else if f64_less hi a then hi else a)"

lemma f64_max_val: "f64_val (f64_max a b) = max (f64_val a) (f64_val b)"
  by (simp add: f64_max_def f64_le_iff)

lemma f64_clamp_val:
  "f64_val lo \<le> f64_val hi \<Longrightarrow> f64_val (f64_clamp a lo hi) = max (f64_val lo) (min (f64_val hi) (f64_val a))"
  by (auto simp: f64_clamp_def f64_less_iff)

end
