(* ===== verification/Adapt.thy ===== *)
theory Adapt
  imports Float64_Order Host_Config
begin

text \<open>
  Source adaptation (VSF TR-06-4 part 1): the Link Quality Message and the rate controller
  (\<^verbatim>\<open>rist-codec/src/adapt.rs\<close>), the receiver's emitter and the sender's bridge to the controller
  (\<^verbatim>\<open>rist/src/adapt.rs\<close>) and the calls of the drivers. Unchecked arithmetic wraps, as in a release
  build. Counters and rates are natural numbers, the fields of the message words.
\<close>

section \<open>The message\<close>

definition lqm_size :: nat where "lqm_size = 44"

datatype adapt_error = Short_Lqm nat

record lqm =
  lm_sequence_number :: u32
  lm_reporting_period_ms :: u32
  lm_nack_window_ms :: u32
  lm_source_received :: u32
  lm_original_lost :: u32
  lm_retransmitted_received :: u32
  lm_recovered :: u32
  lm_unrecovered :: u32
  lm_late :: u32
  lm_data_bandwidth_kbps :: u32
  lm_retransmission_bandwidth_kbps :: u32

definition lqm_encode :: "lqm \<Rightarrow> bytes" where
  "lqm_encode m =
     concat (map be32
       [lm_sequence_number m, lm_reporting_period_ms m, lm_nack_window_ms m, lm_source_received m,
        lm_original_lost m, lm_retransmitted_received m, lm_recovered m, lm_unrecovered m, lm_late m,
        lm_data_bandwidth_kbps m, lm_retransmission_bandwidth_kbps m])"

definition lqm_append_to :: "lqm \<Rightarrow> bytes \<Rightarrow> bytes" where
  "lqm_append_to m dst = dst @ lqm_encode m"

definition lqm_parse :: "bytes \<Rightarrow> (adapt_error + lqm) option" where
  "lqm_parse b =
     (if length b < lqm_size then Some (Inl (Short_Lqm (length b)))
      else do {
        sequence_number \<leftarrow> get_be32 b 0;
        reporting_period \<leftarrow> get_be32 b 4;
        nack_window \<leftarrow> get_be32 b 8;
        source_received \<leftarrow> get_be32 b 12;
        original_lost \<leftarrow> get_be32 b 16;
        retransmitted \<leftarrow> get_be32 b 20;
        recovered \<leftarrow> get_be32 b 24;
        unrecovered \<leftarrow> get_be32 b 28;
        late \<leftarrow> get_be32 b 32;
        data_bandwidth \<leftarrow> get_be32 b 36;
        retransmission_bandwidth \<leftarrow> get_be32 b 40;
        Some (Inr \<lparr>lm_sequence_number = sequence_number, lm_reporting_period_ms = reporting_period,
          lm_nack_window_ms = nack_window, lm_source_received = source_received, lm_original_lost = original_lost,
          lm_retransmitted_received = retransmitted, lm_recovered = recovered, lm_unrecovered = unrecovered,
          lm_late = late, lm_data_bandwidth_kbps = data_bandwidth,
          lm_retransmission_bandwidth_kbps = retransmission_bandwidth\<rparr>)
      })"

definition f64_of_u32 :: "u32 \<Rightarrow> f64" where
  "f64_of_u32 w = f64_of_int (uint w)"

definition f64_zero :: f64 where "f64_zero = F64 0 0"

definition lqm_denom :: "lqm \<Rightarrow> f64" where
  "lqm_denom m = f64_add (f64_of_u32 (lm_source_received m)) (f64_of_u32 (lm_original_lost m))"

text \<open>\<^verbatim>\<open>denom == 0.0\<close>.\<close>

definition f64_is_zero :: "f64 \<Rightarrow> bool" where
  "f64_is_zero a \<longleftrightarrow> f64_mant a = 0"

definition loss_fraction :: "lqm \<Rightarrow> f64" where
  "loss_fraction m =
     (let denom = lqm_denom m
      in if f64_is_zero denom then f64_zero else f64_div (f64_of_u32 (lm_original_lost m)) denom)"

definition residual_loss_fraction :: "lqm \<Rightarrow> f64" where
  "residual_loss_fraction m =
     (let denom = lqm_denom m
      in if f64_is_zero denom then f64_zero else f64_div (f64_of_u32 (lm_unrecovered m)) denom)"

definition bandwidth_kbps :: "nat \<Rightarrow> u32 \<Rightarrow> u32" where
  "bandwidth_kbps delta_bytes period_ms =
     (if period_ms = 0 then 0
      else let bits = min u64_max (delta_bytes * 8); p = unat period_ms
           in of_nat ((bits + p div 2) mod 2 ^ 64 div p))"

section \<open>The rate controller\<close>

definition max_cut :: f64 where "max_cut = F64 8106479329266893 (- 53)"
definition f64_one :: f64 where "f64_one = F64 1 0"

record controller_config =
  cc_min_kbps :: nat
  cc_max_kbps :: nat
  cc_initial_kbps :: nat
  cc_target_loss :: f64
  cc_increase_kbps :: nat
  cc_decrease_gain :: f64

text \<open>The literals \<^verbatim>\<open>0.005\<close> and \<^verbatim>\<open>8.0\<close>.\<close>

definition controller_config_default :: controller_config where
  "controller_config_default =
     \<lparr>cc_min_kbps = 500, cc_max_kbps = 100000, cc_initial_kbps = 100000,
      cc_target_loss = F64 5764607523034235 (- 60), cc_increase_kbps = 1000, cc_decrease_gain = F64 8 0\<rparr>"

record controller =
  ct_cfg :: controller_config
  ct_current :: nat

text \<open>Only called with bounds in order.\<close>

definition clamp_kbps :: "nat \<Rightarrow> nat \<Rightarrow> nat \<Rightarrow> nat" where
  "clamp_kbps v lo hi = (if v < lo then lo else if hi < v then hi else v)"

definition controller_new :: "controller_config \<Rightarrow> controller" where
  "controller_new cfg =
     (let cfg = (if cc_max_kbps cfg < cc_min_kbps cfg then cfg\<lparr>cc_max_kbps := cc_min_kbps cfg\<rparr> else cfg)
      in \<lparr>ct_cfg = cfg, ct_current = clamp_kbps (cc_initial_kbps cfg) (cc_min_kbps cfg) (cc_max_kbps cfg)\<rparr>)"

definition increase :: "controller \<Rightarrow> controller" where
  "increase c =
     c\<lparr>ct_current := clamp_kbps (min 4294967295 (ct_current c + cc_increase_kbps (ct_cfg c)))
        (cc_min_kbps (ct_cfg c)) (cc_max_kbps (ct_cfg c))\<rparr>"

definition decrease :: "f64 \<Rightarrow> controller \<Rightarrow> controller" where
  "decrease reduction c =
     (let reduction = f64_clamp reduction f64_zero max_cut;
          scaled = f64_to_u32 (f64_mul (f64_of_int (int (ct_current c))) (f64_sub f64_one reduction))
      in c\<lparr>ct_current := clamp_kbps scaled (cc_min_kbps (ct_cfg c)) (cc_max_kbps (ct_cfg c))\<rparr>)"

definition observe_loss :: "f64 \<Rightarrow> controller \<Rightarrow> controller" where
  "observe_loss l c =
     (let loss = f64_max l f64_zero; target = cc_target_loss (ct_cfg c)
      in if f64_le loss target then increase c
         else decrease (f64_mul (cc_decrease_gain (ct_cfg c)) (f64_sub loss target)) c)"

definition observe_lqm :: "lqm \<Rightarrow> controller \<Rightarrow> controller" where
  "observe_lqm m c =
     (if lm_source_received m = 0 \<and> lm_original_lost m = 0 \<and> lm_unrecovered m = 0 then c
      else
        let orig_loss = loss_fraction m; target = cc_target_loss (ct_cfg c)
        in if lm_unrecovered m = 0 \<and> f64_le orig_loss target then increase c
           else decrease (f64_mul (cc_decrease_gain (ct_cfg c))
                  (f64_max (residual_loss_fraction m) (f64_sub orig_loss target))) c)"

section \<open>The emitter of the receiver\<close>

definition rtp_header_bytes_len :: nat where "rtp_header_bytes_len = 12"

record lqm_emitter =
  le_seq :: u32
  le_period :: duration
  le_nack_window_ms :: u32
  le_last_emit :: timestamp
  le_prev :: stats
  le_rx_bytes :: nat
  le_rx_retrans_bytes :: nat
  le_prev_rx_bytes :: nat
  le_prev_rx_retrans_bytes :: nat
  le_prev_fec_recovered :: nat

definition emitter_new :: "duration \<Rightarrow> u32 \<Rightarrow> timestamp \<Rightarrow> lqm_emitter" where
  "emitter_new period nack_window_ms begin_time =
     \<lparr>le_seq = 0, le_period = period, le_nack_window_ms = nack_window_ms, le_last_emit = begin_time,
      le_prev = stats_default, le_rx_bytes = 0, le_rx_retrans_bytes = 0, le_prev_rx_bytes = 0,
      le_prev_rx_retrans_bytes = 0, le_prev_fec_recovered = 0\<rparr>"

definition emitter_meter :: "nat \<Rightarrow> bool \<Rightarrow> lqm_emitter \<Rightarrow> lqm_emitter" where
  "emitter_meter payload_len retransmit e =
     (let bytes = payload_len + rtp_header_bytes_len in
      if retransmit then e\<lparr>le_rx_retrans_bytes := min u64_max (le_rx_retrans_bytes e + bytes)\<rparr>
      else e\<lparr>le_rx_bytes := min u64_max (le_rx_bytes e + bytes)\<rparr>)"

definition emitter_due :: "timestamp \<Rightarrow> lqm_emitter \<Rightarrow> bool" where
  "emitter_due now e \<longleftrightarrow> min (int (as_micros (le_period e))) i64_max \<le> ts_diff now (le_last_emit e)"

text \<open>\<^verbatim>\<open>delta\<close>: the growth of a counter, in a field of 32 bits.\<close>

definition count_delta :: "nat \<Rightarrow> nat \<Rightarrow> u32" where
  "count_delta now prev = of_nat (min (now - prev) 4294967295)"

definition sub_u64 :: "nat \<Rightarrow> nat \<Rightarrow> nat" where
  "sub_u64 a b = nat ((int a - int b) mod 2 ^ 64)"

definition emitter_build :: "timestamp \<Rightarrow> stats \<Rightarrow> nat \<Rightarrow> lqm_emitter \<Rightarrow> lqm_emitter \<times> lqm" where
  "emitter_build now st fec_recovered e =
     (let elapsed_us = max 0 (ts_diff now (le_last_emit e));
          period_ms = of_nat (min (nat (elapsed_us div 1000)) 4294967295);
          seq = le_seq e + 1;
          fec_delta = count_delta fec_recovered (le_prev_fec_recovered e);
          src_received = count_delta (st_received st) (st_received (le_prev e));
          moved_fec = min fec_delta src_received
      in (e\<lparr>le_seq := seq, le_prev := st, le_prev_rx_bytes := le_rx_bytes e,
            le_prev_rx_retrans_bytes := le_rx_retrans_bytes e, le_prev_fec_recovered := fec_recovered,
            le_last_emit := now\<rparr>,
          \<lparr>lm_sequence_number = seq, lm_reporting_period_ms = period_ms, lm_nack_window_ms = le_nack_window_ms e,
           lm_source_received = src_received - moved_fec,
           lm_original_lost = count_delta (st_missing st) (st_missing (le_prev e)),
           lm_retransmitted_received = count_delta (st_recovered st) (st_recovered (le_prev e)),
           lm_recovered = count_delta (st_recovered st) (st_recovered (le_prev e)) + moved_fec,
           lm_unrecovered = count_delta (st_lost st) (st_lost (le_prev e)),
           lm_late = count_delta (st_too_late st) (st_too_late (le_prev e)),
           lm_data_bandwidth_kbps = bandwidth_kbps (sub_u64 (le_rx_bytes e) (le_prev_rx_bytes e)) period_ms,
           lm_retransmission_bandwidth_kbps =
             bandwidth_kbps (sub_u64 (le_rx_retrans_bytes e) (le_prev_rx_retrans_bytes e)) period_ms\<rparr>))"

definition build_lqm_emitter :: "host_config \<Rightarrow> lqm_emitter option" where
  "build_lqm_emitter c =
     (if \<not> cf_source_adaptation c \<or> cf_one_way c then None
      else Some (emitter_new (cf_keepalive_interval c)
             (of_nat (min (as_millis (cf_buffer_min c)) 4294967295)) 0))"

text \<open>The step of the Simple driver's tick: when a period has elapsed and the return address is known, one report
  leads a compound to it. The emitter is advanced whether or not the compound can be encoded.\<close>

definition maybe_emit_lqm ::
    "timestamp \<Rightarrow> 'addr option \<Rightarrow> stats \<Rightarrow> nat \<Rightarrow> u32 \<Rightarrow> bytes \<Rightarrow> bool \<Rightarrow> lqm_emitter option
      \<Rightarrow> (lqm_emitter option \<times> ('addr \<times> bytes) option) option" where
  "maybe_emit_lqm now rtcp_dst st fec ssrc cname bitmask em =
     (case em of
        None \<Rightarrow> Some (None, None)
      | Some e \<Rightarrow>
          if \<not> emitter_due now e then Some (Some e, None)
          else (case rtcp_dst of
            None \<Rightarrow> Some (Some e, None)
          | Some dst \<Rightarrow>
              let (e, m) = emitter_build now st fec e;
                  lqr = P_Link_Quality_Report \<lparr>lq_ssrc = ssrc, lq_lqm = lqm_encode m\<rparr>
              in (case encode_feedback lqr ssrc cname [] bitmask of
                    None \<Rightarrow> None
                  | Some (Inl _) \<Rightarrow> Some (Some e, None)
                  | Some (Inr b) \<Rightarrow> Some (Some e, Some (dst, b)))))"

section \<open>The bridge of the sender\<close>

text \<open>Rate control exists when a callback is configured; what the callback is called with is the second
  component.\<close>

definition rate_from_config :: "host_config \<Rightarrow> controller option" where
  "rate_from_config c =
     (if \<not> cf_on_rate_adapt c then None
      else
        let cc = controller_config_default\<lparr>cc_max_kbps := cf_max_bitrate_kbps c,
              cc_initial_kbps := cf_max_bitrate_kbps c, cc_increase_kbps := max (cf_max_bitrate_kbps c div 100) 1\<rparr>;
            cc = (if 0 < cf_min_bitrate_kbps c then cc\<lparr>cc_min_kbps := cf_min_bitrate_kbps c\<rparr> else cc)
        in Some (controller_new cc))"

definition rate_handle :: "bytes \<Rightarrow> controller \<Rightarrow> (controller \<times> nat option) option" where
  "rate_handle b c =
     do {
       r \<leftarrow> lqm_parse b;
       case r of
         Inl _ \<Rightarrow> Some (c, None)
       | Inr m \<Rightarrow> let c = observe_lqm m c in Some (c, Some (ct_current c))
     }"

end
