(* ===== verification/Adapt_Props.thy ===== *)
theory Adapt_Props
  imports Adapt Codec_Simple_Props
begin

text \<open>
  What source adaptation guarantees: the message survives the wire, the reports of a receiver add up to its
  counters, the target of the controller stays within its bounds and falls with the loss; and the one sense in which
  it does not.
\<close>

section \<open>The message\<close>

lemma lqm_parse_encode: "lqm_parse (lqm_encode m @ rest) = Some (Inr m)"
proof -
  let ?f = "[lm_sequence_number m, lm_reporting_period_ms m, lm_nack_window_ms m, lm_source_received m,
        lm_original_lost m, lm_retransmitted_received m, lm_recovered m, lm_unrecovered m, lm_late m,
        lm_data_bandwidth_kbps m, lm_retransmission_bandwidth_kbps m]"
  have len: "length (concat (map be32 xs)) = 4 * length xs" for xs by (induction xs) simp_all
  have get: "get_be32 (lqm_encode m @ rest) (4 * i) = Some (?f ! i)" if "i < 11" for i
  proof -
    have "concat (map be32 ?f) = concat (map be32 (take i ?f)) @ be32 (?f ! i) @ concat (map be32 (drop (Suc i) ?f))"
      using that by (subst id_take_nth_drop [of i ?f]) simp_all
    then show ?thesis using that
      get_be32_at [of "4 * i" "concat (map be32 (take i ?f))" "?f ! i" "concat (map be32 (drop (Suc i) ?f)) @ rest"]
      by (simp only: lqm_encode_def append_assoc len length_take) simp
  qed
  have "length (lqm_encode m) = 44" by (simp add: lqm_encode_def)
  then show ?thesis
    using get [of 0] get [of 1] get [of 2] get [of 3] get [of 4] get [of 5] get [of 6] get [of 7] get [of 8]
      get [of 9] get [of 10]
    by (simp add: lqm_parse_def lqm_size_def)
qed

lemma lqm_parse_total: "\<exists>r. lqm_parse b = Some r"
  by (auto simp: lqm_parse_def lqm_size_def get_be32_total)

lemma lqm_length: "length (lqm_encode m) = 44"
  by (simp add: lqm_encode_def)

text \<open>A report reaches the controller. What the emitter of a receiver hands to the socket is a compound that the
  sender's codec takes apart into the one report, and its rate controller observes exactly the message that was built.\<close>

theorem report_reaches_controller:
  assumes "maybe_emit_lqm now (Some dst) st fec ssrc cname bitmask (Some e) = Some (em, Some (to, b))"
    and "length cname \<le> 255"
  shows "\<exists>m. em = Some (fst (emitter_build now st fec e)) \<and> m = snd (emitter_build now st fec e) \<and> to = dst
    \<and> decode_feedback b r = res_ok [LinkQuality (lqm_encode m)]
    \<and> rate_handle (lqm_encode m) c = Some (observe_lqm m c, Some (ct_current (observe_lqm m c)))"
proof -
  obtain e' m where build: "emitter_build now st fec e = (e', m)" by force
  define lead where "lead = P_Link_Quality_Report \<lparr>lq_ssrc = ssrc, lq_lqm = lqm_encode m\<rparr>"
  define sdes where "sdes = P_Sdes \<lparr>sd_ssrc = ssrc, sd_cname = cname\<rparr>"
  have order: "check_compound_order [lead, sdes] = None"
    by (simp add: lead_def sdes_def check_compound_order_def)
  have enc: "encode_feedback lead ssrc cname [] bitmask = res_ok (rtcp_encode lead @ rtcp_encode sdes)"
    by (simp add: encode_feedback_def sdes_def [symmetric] build_compound_bytes order)
  have sent: "em = Some e'" "to = dst" "b = rtcp_encode lead @ rtcp_encode sdes"
    using assms(1) enc by (auto simp: maybe_emit_lqm_def build lead_def [symmetric] res_ok_def split: if_splits)
  have "\<forall>p\<in>set [lead, sdes]. rtcp_canonical p"
    using assms(2) by (simp add: lead_def sdes_def rtcp_canonical_def lqm_length)
  from parse_packets_encode [OF this] have "parse_packets b = Some (Inr [lead, sdes])" by (simp add: sent(3))
  moreover have "b \<noteq> []"
    by (auto simp: sent(3) lead_def encode_link_quality_report_def rtcp_header_bytes_def)
  ultimately have "decode_feedback b r = res_ok [LinkQuality (lqm_encode m)]"
    by (simp add: decode_feedback_def parse_compound_def lead_def sdes_def)
  moreover have "rate_handle (lqm_encode m) c = Some (observe_lqm m c, Some (ct_current (observe_lqm m c)))"
    using lqm_parse_encode [of m "[]"] by (simp add: rate_handle_def Let_def)
  ultimately show ?thesis using sent(1,2) by (simp add: build)
qed

section \<open>The controller\<close>

definition controller_ok :: "controller \<Rightarrow> bool" where
  "controller_ok c \<longleftrightarrow>
     cc_min_kbps (ct_cfg c) \<le> ct_current c \<and> ct_current c \<le> cc_max_kbps (ct_cfg c)
     \<and> cc_max_kbps (ct_cfg c) < 2 ^ 32 \<and> 0 \<le> f64_mant (cc_decrease_gain (ct_cfg c))"

lemma clamp_kbps_eq: "lo \<le> hi \<Longrightarrow> clamp_kbps v lo hi = max lo (min hi v)"
  by (simp add: clamp_kbps_def)

lemma clamp_kbps_bounds: "lo \<le> hi \<Longrightarrow> lo \<le> clamp_kbps v lo hi \<and> clamp_kbps v lo hi \<le> hi"
  by (simp add: clamp_kbps_def)

lemma steps_ok:
  assumes "controller_ok c"
  shows "controller_ok (increase c)" "controller_ok (decrease r c)"
  using assms clamp_kbps_bounds by (auto simp: controller_ok_def increase_def decrease_def Let_def)

lemma observe_ok:
  assumes "controller_ok c"
  shows "controller_ok (observe_loss l c)" "controller_ok (observe_lqm m c)"
  using assms by (simp_all add: observe_loss_def observe_lqm_def steps_ok Let_def)

lemma const_vals: "f64_val f64_zero = 0" "f64_val f64_one = 1" "0 \<le> f64_val max_cut" "f64_val max_cut \<le> 1"
  by (simp_all add: f64_zero_def f64_one_def max_cut_def f64_val_def power_int_def power_one_over)

text \<open>A cut never raises the target, and a larger cut lowers it more.\<close>

lemma cut_val: "f64_val (f64_clamp r f64_zero max_cut) = max 0 (min (f64_val max_cut) (f64_val r))"
  by (simp add: f64_clamp_val const_vals)

lemma decrease_mono:
  assumes "controller_ok c" "f64_val r \<le> f64_val r'"
  shows "ct_current (decrease r' c) \<le> ct_current (decrease r c)"
proof -
  let ?k = "\<lambda>r. f64_sub f64_one (f64_clamp r f64_zero max_cut)"
  have "f64_val (?k r') \<le> f64_val (?k r)"
    by (rule f64_sub_mono) (use assms(2) in \<open>simp_all add: cut_val\<close>)
  moreover have "0 \<le> f64_val (f64_of_int (int (ct_current c)))"
    using assms(1) by (subst f64_of_int_val) (simp_all add: controller_ok_def)
  ultimately have "f64_to_u32 (f64_mul (f64_of_int (int (ct_current c))) (?k r'))
      \<le> f64_to_u32 (f64_mul (f64_of_int (int (ct_current c))) (?k r))"
    by (intro f64_to_u32_mono f64_mul_mono mult_left_mono)
  then show ?thesis using assms(1)
    by (simp add: decrease_def Let_def clamp_kbps_eq controller_ok_def)
qed

lemma decrease_le:
  assumes "controller_ok c"
  shows "ct_current (decrease r c) \<le> ct_current c"
proof -
  let ?n = "f64_of_int (int (ct_current c))" and ?k = "f64_sub f64_one (f64_clamp r f64_zero max_cut)"
  have n: "ct_current c < 2 ^ 32" using assms by (simp add: controller_ok_def)
  then have vn: "f64_val ?n = real (ct_current c)" by (simp add: f64_of_int_val)
  have "f64_val ?k \<le> f64_val (f64_sub f64_one f64_zero)"
    by (rule f64_sub_mono) (simp_all add: cut_val const_vals)
  also have "\<dots> = 1"
    by (simp add: f64_sub_def f64_one_def f64_zero_def f64_align_def rnd_int_val)
  finally have "f64_val ?n * f64_val ?k \<le> f64_val ?n * f64_val f64_one"
    by (intro mult_left_mono) (simp_all add: vn const_vals)
  then have "f64_val (f64_mul ?n ?k) \<le> f64_val (f64_mul ?n f64_one)" by (rule f64_mul_mono)
  also have "\<dots> = real (ct_current c)"
    using n by (simp add: f64_mul_def f64_of_int_exact f64_one_def rnd_int_val)
  finally have "f64_to_u32 (f64_mul ?n ?k) \<le> ct_current c"
    unfolding f64_to_u32_val by (auto simp: min_def nat_le_iff floor_le_iff)
  then show ?thesis using assms by (simp add: decrease_def Let_def clamp_kbps_def controller_ok_def)
qed

lemma increase_ge: "controller_ok c \<Longrightarrow> ct_current c \<le> ct_current (increase c)"
  by (auto simp: increase_def clamp_kbps_def controller_ok_def)

lemma decrease_le_increase: "controller_ok c \<Longrightarrow> ct_current (decrease r c) \<le> ct_current (increase c)"
  using decrease_le increase_ge order_trans by blast

lemma gain_mono:
  "controller_ok c \<Longrightarrow> f64_val a \<le> f64_val b \<Longrightarrow>
   f64_val (f64_mul (cc_decrease_gain (ct_cfg c)) a) \<le> f64_val (f64_mul (cc_decrease_gain (ct_cfg c)) b)"
  by (intro f64_mul_mono mult_left_mono) (simp_all add: controller_ok_def f64_val_sign)

text \<open>More loss never raises the target: of two loss fractions fed to the same controller the larger gives
  the lower target, or the same.\<close>

theorem more_loss_lower_target:
  assumes "controller_ok c" "f64_le l l'"
  shows "ct_current (observe_loss l' c) \<le> ct_current (observe_loss l c)"
proof -
  let ?t = "cc_target_loss (ct_cfg c)"
  have m: "f64_val (f64_max l f64_zero) \<le> f64_val (f64_max l' f64_zero)"
    using assms(2) by (simp add: f64_max_val f64_le_iff)
  have "f64_val (f64_sub (f64_max l f64_zero) ?t) \<le> f64_val (f64_sub (f64_max l' f64_zero) ?t)"
    by (rule f64_sub_mono [OF m order_refl])
  then have d: "ct_current (decrease (f64_mul (cc_decrease_gain (ct_cfg c)) (f64_sub (f64_max l' f64_zero) ?t)) c)
      \<le> ct_current (decrease (f64_mul (cc_decrease_gain (ct_cfg c)) (f64_sub (f64_max l f64_zero) ?t)) c)"
    by (intro decrease_mono gain_mono assms(1))
  show ?thesis unfolding observe_loss_def Let_def f64_le_iff
    using m d decrease_le_increase [OF assms(1)] by auto
qed

lemma denom_exact: "lqm_denom m = F64 (uint (lm_source_received m) + uint (lm_original_lost m)) 0"
proof -
  have u: "uint w < 2 ^ 32" "0 \<le> uint w" for w :: u32 using uint_lt2p [of w] by simp_all
  let ?s = "uint (lm_source_received m) + uint (lm_original_lost m)"
  have "\<bar>?s\<bar> < 2 ^ 53" using u(1) [of "lm_source_received m"] u(1) [of "lm_original_lost m"] by simp
  from f64_of_int_exact [OF this] have r: "f64_rnd ?s 0 = F64 ?s 0" by (simp only: f64_of_int_def)
  show ?thesis
    using u(1) [of "lm_source_received m"] u(1) [of "lm_original_lost m"]
    by (simp add: lqm_denom_def f64_add_def f64_of_u32_def f64_of_int_exact f64_align_def r)
qed

lemma u32_fraction_mono:
  assumes "a \<le> b" "0 < s" "s < 2 ^ 33"
  shows "f64_val (f64_div (f64_of_u32 a) (F64 s 0)) \<le> f64_val (f64_div (f64_of_u32 b) (F64 s 0))"
proof -
  have "F64 s 0 = f64_of_int s" using assms by (simp add: f64_of_int_exact)
  moreover have "uint b < 2 ^ 32" using uint_lt2p [of b] by simp
  ultimately show ?thesis using assms unfolding f64_of_u32_def
    by (simp only:) (rule f64_div_mono, simp_all add: word_le_def)
qed

text \<open>Of two reports that account for equally many packets, the one with more losses and more
  unrecovered packets never gives the higher target.\<close>

theorem lqm_target_monotone:
  assumes "controller_ok c"
    and "uint (lm_source_received m) + uint (lm_original_lost m)
      = uint (lm_source_received m') + uint (lm_original_lost m')"
    and "lm_original_lost m \<le> lm_original_lost m'" "lm_unrecovered m \<le> lm_unrecovered m'"
  shows "ct_current (observe_lqm m' c) \<le> ct_current (observe_lqm m c)"
proof -
  define s where "s = uint (lm_source_received m) + uint (lm_original_lost m)"
  define t where "t = cc_target_loss (ct_cfg c)"
  have den: "lqm_denom m = F64 s 0" "lqm_denom m' = F64 s 0" by (simp_all add: denom_exact s_def assms(2))
  have s: "0 \<le> s" "s < 2 ^ 33"
    using uint_lt2p [of "lm_source_received m"] uint_lt2p [of "lm_original_lost m"] by (simp_all add: s_def)
  have frac: "f64_val (loss_fraction m) \<le> f64_val (loss_fraction m')"
    "f64_val (residual_loss_fraction m) \<le> f64_val (residual_loss_fraction m')"
    using u32_fraction_mono [OF assms(3) _ s(2)] u32_fraction_mono [OF assms(4) _ s(2)] s(1)
    by (auto simp: loss_fraction_def residual_loss_fraction_def den f64_is_zero_def)
  let ?sev = "\<lambda>m. f64_max (residual_loss_fraction m) (f64_sub (loss_fraction m) t)"
  have "f64_val (?sev m) \<le> f64_val (?sev m')"
    unfolding f64_max_val by (intro max.mono frac f64_sub_mono order_refl)
  then have dec: "ct_current (decrease (f64_mul (cc_decrease_gain (ct_cfg c)) (?sev m')) c)
      \<le> ct_current (decrease (f64_mul (cc_decrease_gain (ct_cfg c)) (?sev m)) c)"
    by (intro decrease_mono gain_mono assms(1))
  have zero: "lm_source_received x = 0 \<and> lm_original_lost x = 0
      \<longleftrightarrow> uint (lm_source_received x) + uint (lm_original_lost x) = 0" for x
    by (simp add: add_nonneg_eq_0_iff uint_0_iff)
  have hold: "lm_source_received m = 0 \<and> lm_original_lost m = 0
      \<longleftrightarrow> lm_source_received m' = 0 \<and> lm_original_lost m' = 0"
    unfolding zero assms(2) ..
  have unrec: "lm_unrecovered m = 0" if "lm_unrecovered m' = 0" using assms(4) that by simp
  show ?thesis
  proof (cases "lm_source_received m = 0 \<and> lm_original_lost m = 0 \<and> lm_unrecovered m = 0")
    case True
    then have "observe_lqm m' c = c \<or> (\<exists>r. observe_lqm m' c = decrease r c)"
    proof (cases "lm_unrecovered m' = 0")
      case z: True
      then show ?thesis using True hold by (simp add: observe_lqm_def)
    next
      case False
      then show ?thesis by (auto simp: observe_lqm_def Let_def)
    qed
    then show ?thesis using True decrease_le [OF assms(1)] by (auto simp: observe_lqm_def)
  next
    case False
    then have "\<not> (lm_source_received m' = 0 \<and> lm_original_lost m' = 0 \<and> lm_unrecovered m' = 0)"
      using hold unrec by blast
    with False show ?thesis
      unfolding observe_lqm_def Let_def t_def [symmetric] f64_le_iff
      using dec decrease_le_increase [OF assms(1)] frac(1) unrec by auto
  qed
qed

section \<open>The sense in which it does not fall\<close>

text \<open>Evaluation of one operation, the sizes of its mantissas given.\<close>

lemma rnd_eval:
  assumes "0 < m" "nbits (nat m) = b" "round_mant (nat m) (b - 53) = w" "v = int w" "f = e + int (b - 53)"
  shows "f64_rnd m e = F64 v f"
  using assms by (simp add: f64_rnd_def Let_def)

lemma div_eval:
  assumes "0 < m" "0 < d" "nbits (nat d) = k" "nat m * 2 ^ (64 + k) = nat d * q + r" "0 < r" "r < nat d"
    and "f64_rnd (2 * int q + 1) (- 65 - int k) = v"
  shows "f64_div (F64 m 0) (F64 d 0) = v"
proof -
  have "nat m * 2 ^ (64 + k) div nat d = q" "nat m * 2 ^ (64 + k) mod nat d = r"
    using assms(4,6) by (simp_all add: div_nat_eqI)
  then show ?thesis using assms by (simp add: f64_div_def Let_def)
qed

lemmas mant_eval = nbits.simps round_mant_def

lemma sample_divisions:
  "f64_div (F64 100 0) (F64 1000 0) = F64 7205759403792794 (- 56)"
  "f64_div (F64 101 0) (F64 1001 0) = F64 7270546451379342 (- 56)"
  "f64_div (F64 100 0) (F64 1001 0) = F64 7198560842949844 (- 56)"
  by (rule div_eval [where k = 10 and q = 1888946593147858085478 and r = 400]
      div_eval [where k = 10 and q = 1905930128950386280053 and r = 131]
      div_eval [where k = 10 and q = 1887059533614243841636 and r = 764]; 
      (rule rnd_eval [where b = 72])?; simp add: mant_eval; fail)+

lemma sample_differences:
  "f64_sub (F64 7205759403792794 (- 56)) (F64 5764607523034235 (- 60)) = F64 6845471433603154 (- 56)"
  "f64_sub (F64 7270546451379342 (- 56)) (F64 5764607523034235 (- 60)) = F64 6910258481189702 (- 56)"
  "f64_sub (F64 1 0) (F64 7205759403792794 (- 53)) = F64 1801439850948198 (- 53)"
  "f64_sub (F64 1 0) (F64 7198560842949844 (- 53)) = F64 1808638411791148 (- 53)"
  by (simp_all add: f64_sub_def f64_align_def rnd_eval [OF _ refl refl refl refl] mant_eval)

lemma sample_products:
  "f64_mul (F64 8 0) (F64 7205759403792794 (- 56)) = F64 7205759403792794 (- 53)"
  "f64_mul (F64 8 0) (F64 7198560842949844 (- 56)) = F64 7198560842949844 (- 53)"
  "f64_mul (F64 100000 0) (F64 1801439850948198 (- 53)) = F64 5497558138879999 (- 38)"
  "f64_mul (F64 100000 0) (F64 1808638411791148 (- 53)) = F64 5519526403171228 (- 38)"
  by (simp_all add: f64_mul_def rnd_eval [OF _ refl refl refl refl] mant_eval)

definition sample_report :: "u32 \<Rightarrow> lqm" where
  "sample_report lost =
     \<lparr>lm_sequence_number = 1, lm_reporting_period_ms = 1000, lm_nack_window_ms = 1000, lm_source_received = 900,
      lm_original_lost = lost, lm_retransmitted_received = 0, lm_recovered = lost - 100, lm_unrecovered = 100,
      lm_late = 0, lm_data_bandwidth_kbps = 0, lm_retransmission_bandwidth_kbps = 0\<rparr>"

lemma sample_comparisons:
  "f64_le (F64 7205759403792794 (- 56)) (F64 6845471433603154 (- 56)) = False"
  "f64_le (F64 7198560842949844 (- 56)) (F64 6910258481189702 (- 56)) = False"
  "f64_less (F64 7205759403792794 (- 53)) (F64 0 0) = False" "f64_less (F64 7198560842949844 (- 53)) (F64 0 0) = False"
  "f64_less (F64 8106479329266893 (- 53)) (F64 7205759403792794 (- 53)) = False"
  "f64_less (F64 8106479329266893 (- 53)) (F64 7198560842949844 (- 53)) = False"
  by (simp_all add: f64_le_def f64_less_def f64_align_def)

lemma sample_targets:
  "ct_current (observe_lqm (sample_report 100) (controller_new controller_config_default)) = 19999"
  "ct_current (observe_lqm (sample_report 101) (controller_new controller_config_default)) = 20079"
proof -
  have c: "controller_new controller_config_default = \<lparr>ct_cfg = controller_config_default, ct_current = 100000\<rparr>"
    by (simp add: controller_new_def controller_config_default_def clamp_kbps_def)
  have d: "lqm_denom (sample_report 100) = F64 1000 0" "lqm_denom (sample_report 101) = F64 1001 0"
    by (simp_all add: denom_exact sample_report_def)
  have f: "residual_loss_fraction (sample_report 100) = F64 7205759403792794 (- 56)"
    "residual_loss_fraction (sample_report 101) = F64 7198560842949844 (- 56)"
    "loss_fraction (sample_report 100) = F64 7205759403792794 (- 56)"
    "loss_fraction (sample_report 101) = F64 7270546451379342 (- 56)"
    unfolding residual_loss_fraction_def loss_fraction_def d
    by (simp_all add: sample_report_def f64_is_zero_def f64_of_u32_def f64_of_int_exact sample_divisions)
  have u: "lm_unrecovered (sample_report l) = 100" for l by (simp add: sample_report_def)
  show "ct_current (observe_lqm (sample_report 100) (controller_new controller_config_default)) = 19999"
    "ct_current (observe_lqm (sample_report 101) (controller_new controller_config_default)) = 20079"
    unfolding c observe_lqm_def Let_def f u
    by (simp_all add: controller_config_default_def sample_differences sample_products sample_comparisons f64_max_def
        decrease_def f64_clamp_def f64_zero_def f64_one_def max_cut_def f64_of_int_exact f64_to_u32_def f64_trunc_def
        clamp_kbps_def)
qed

text \<open>A defect. More loss can raise the target: when one packet more is lost, and recovered, the
  fraction that went unrecovered falls, and with it the cut.\<close>

theorem more_loss_raises_target:
  "ct_current (observe_lqm (sample_report 100) (controller_new controller_config_default))
     < ct_current (observe_lqm (sample_report 101) (controller_new controller_config_default))"
  by (simp add: sample_targets)

text \<open>The default controller, and reports with the same count of packets.\<close>

lemma default_ok: "controller_ok (controller_new controller_config_default)"
  by (simp add: controller_ok_def controller_new_def controller_config_default_def clamp_kbps_def)

theorem more_loss_lower_target_witness:
  "ct_current (observe_loss (F64 3 (- 3)) (controller_new controller_config_default))
     \<le> ct_current (observe_loss (F64 1 (- 3)) (controller_new controller_config_default))"
  by (rule more_loss_lower_target [OF default_ok]) (simp add: f64_le_def f64_align_def)

theorem lqm_target_monotone_witness:
  "ct_current (observe_lqm ((sample_report 100)\<lparr>lm_source_received := 800, lm_original_lost := 200\<rparr>)
       (controller_new controller_config_default))
     \<le> ct_current (observe_lqm (sample_report 100) (controller_new controller_config_default))"
  by (rule lqm_target_monotone [OF default_ok]) (simp_all add: sample_report_def)

section \<open>The reports of a receiver\<close>

datatype emitter_op = Meter nat bool | Report timestamp stats nat

text \<open>A run of the emitter and the messages it builds.\<close>

fun emitter_run :: "emitter_op list \<Rightarrow> lqm_emitter \<Rightarrow> lqm_emitter \<times> lqm list" where
  "emitter_run [] e = (e, [])"
| "emitter_run (Meter n r # ops) e = emitter_run ops (emitter_meter n r e)"
| "emitter_run (Report now st fec # ops) e =
     (let (e, m) = emitter_build now st fec e; (e, ms) = emitter_run ops e in (e, m # ms))"

text \<open>The counters the host passes only grow, and by less than \<open>2 ^ 31\<close> from one report to the next.\<close>

definition stats_grow :: "stats \<Rightarrow> stats \<Rightarrow> bool" where
  "stats_grow p st \<longleftrightarrow> list_all (\<lambda>f. f p \<le> f st \<and> f st < f p + 2 ^ 31)
     [st_received, st_missing, st_recovered, st_lost, st_too_late]"

fun ops_grow :: "stats \<Rightarrow> emitter_op list \<Rightarrow> bool" where
  "ops_grow p [] \<longleftrightarrow> True"
| "ops_grow p (Meter n r # ops) \<longleftrightarrow> ops_grow p ops"
| "ops_grow p (Report now st fec # ops) \<longleftrightarrow> stats_grow p st \<and> ops_grow st ops"

lemma count_delta_val: "now < prev + 2 ^ 31 \<Longrightarrow> unat (count_delta now prev) = now - prev"
  by (simp add: count_delta_def unat_of_nat)

text \<open>One report: what it counts is what the counters have grown by; FEC only moves packets from received to
  recovered.\<close>

lemma moved_sum:
  fixes a b :: u32
  assumes "unat a < 2 ^ 31" "unat b < 2 ^ 31"
  shows "unat (a - min c a) + unat (b + min c a) = unat a + unat b"
proof -
  define m where "m = min c a"
  have m: "m \<le> a" by (simp add: m_def)
  then have "unat m \<le> unat a" by (simp only: word_le_nat_alt)
  moreover have "unat (a - m) = unat a - unat m" by (rule unat_sub [OF m])
  moreover have "unat (b + m) = unat b + unat m"
    using assms \<open>unat m \<le> unat a\<close> by (intro unat_add_lem [THEN iffD1]) simp
  ultimately show ?thesis by (simp add: m_def [symmetric])
qed

lemma emitter_build_exact:
  assumes "stats_grow (le_prev e) st" "emitter_build now st fec e = (e', m)"
  shows "le_prev e' = st" "le_seq e' = le_seq e + 1" "lm_sequence_number m = le_seq e + 1"
    "st_missing st = st_missing (le_prev e) + unat (lm_original_lost m)"
    "st_lost st = st_lost (le_prev e) + unat (lm_unrecovered m)"
    "st_too_late st = st_too_late (le_prev e) + unat (lm_late m)"
    "st_received st + st_recovered st
      = st_received (le_prev e) + st_recovered (le_prev e) + unat (lm_source_received m) + unat (lm_recovered m)"
proof -
  have grow: "f p \<le> f st \<and> f st < f p + 2 ^ 31"
    if "f \<in> set [st_received, st_missing, st_recovered, st_lost, st_too_late]" "p = le_prev e" for f p
    using assms(1) that by (simp only: stats_grow_def list_all_iff)
  have count: "f st = f (le_prev e) + unat (count_delta (f st) (f (le_prev e)))" "unat (count_delta (f st) (f (le_prev e))) < 2 ^ 31"
    if "f \<in> set [st_received, st_missing, st_recovered, st_lost, st_too_late]" for f
    using grow [OF that refl] by (auto simp: count_delta_val less_diff_conv2)
  let ?src = "count_delta (st_received st) (st_received (le_prev e))"
  let ?rec = "count_delta (st_recovered st) (st_recovered (le_prev e))"
  have m: "lm_source_received m = ?src - min (count_delta fec (le_prev_fec_recovered e)) ?src"
    "lm_recovered m = ?rec + min (count_delta fec (le_prev_fec_recovered e)) ?src"
    "lm_original_lost m = count_delta (st_missing st) (st_missing (le_prev e))"
    "lm_unrecovered m = count_delta (st_lost st) (st_lost (le_prev e))"
    "lm_late m = count_delta (st_too_late st) (st_too_late (le_prev e))"
    "lm_sequence_number m = le_seq e + 1" "le_prev e' = st" "le_seq e' = le_seq e + 1"
    using assms(2) by (auto simp: emitter_build_def Let_def)
  then show "le_prev e' = st" "le_seq e' = le_seq e + 1" "lm_sequence_number m = le_seq e + 1" by simp_all
  show "st_missing st = st_missing (le_prev e) + unat (lm_original_lost m)"
    unfolding m(3) by (rule count(1)) simp
  show "st_lost st = st_lost (le_prev e) + unat (lm_unrecovered m)"
    unfolding m(4) by (rule count(1)) simp
  show "st_too_late st = st_too_late (le_prev e) + unat (lm_late m)"
    unfolding m(5) by (rule count(1)) simp
  have "unat (lm_source_received m) + unat (lm_recovered m) = unat ?src + unat ?rec"
    unfolding m(1,2) by (rule moved_sum) (rule count(2), simp)+
  then show "st_received st + st_recovered st
      = st_received (le_prev e) + st_recovered (le_prev e) + unat (lm_source_received m) + unat (lm_recovered m)"
    using count(1) [of st_received] count(1) [of st_recovered] by simp
qed

text \<open>The sum of a field over the messages.\<close>

definition field_total :: "(lqm \<Rightarrow> u32) \<Rightarrow> lqm list \<Rightarrow> nat" where
  "field_total f ms = sum_list (map (\<lambda>m. unat (f m)) ms)"

lemma field_total_simps [simp]: "field_total f [] = 0" "field_total f (m # ms) = unat (f m) + field_total f ms"
  by (simp_all add: field_total_def)

text \<open>The numbers of a run of messages.\<close>

fun numbered_from :: "u32 \<Rightarrow> lqm list \<Rightarrow> bool" where
  "numbered_from s [] = True"
| "numbered_from s (m # ms) = (lm_sequence_number m = s \<and> numbered_from (s + 1) ms)"

lemma emitter_meter_same [simp]: "le_prev (emitter_meter n r e) = le_prev e" "le_seq (emitter_meter n r e) = le_seq e"
  by (simp_all add: emitter_meter_def Let_def)

text \<open>Nothing is lost between the reports. As long as the counters of the flow only grow, and by less than
  \<open>2 ^ 31\<close> from one report to the next, the reports of any run account for them exactly, whatever is metered and
  whatever FEC recovered: original losses, unrecovered and late packets each sum up to the growth of their counter, the received
  and recovered ones together to the growth of theirs; and the reports are numbered without gaps.\<close>

theorem reports_account_for_counters:
  assumes "ops_grow (le_prev e) ops" "emitter_run ops e = (e', ms)"
  shows "st_missing (le_prev e') = st_missing (le_prev e) + field_total lm_original_lost ms
    \<and> st_lost (le_prev e') = st_lost (le_prev e) + field_total lm_unrecovered ms
    \<and> st_too_late (le_prev e') = st_too_late (le_prev e) + field_total lm_late ms
    \<and> st_received (le_prev e') + st_recovered (le_prev e')
      = st_received (le_prev e) + st_recovered (le_prev e) + field_total lm_source_received ms + field_total lm_recovered ms
    \<and> numbered_from (le_seq e + 1) ms"
  using assms
proof (induction ops arbitrary: e ms)
  case Nil
  then show ?case by simp
next
  case (Cons op ops)
  show ?case
  proof (cases op)
    case (Meter n r)
    with Cons.IH [of "emitter_meter n r e" ms] Cons.prems show ?thesis by simp
  next
    case (Report now st fec)
    obtain e1 m where b: "emitter_build now st fec e = (e1, m)" by force
    obtain e2 ns where r: "emitter_run ops e1 = (e2, ns)" by force
    have g: "stats_grow (le_prev e) st" "ops_grow st ops" using Cons.prems(1) by (simp_all add: Report)
    note one = emitter_build_exact [OF g(1) b]
    have ms: "ms = m # ns" "e2 = e'" using Cons.prems(2) by (simp_all add: Report b r)
    have "ops_grow (le_prev e1) ops" using g(2) one(1) by simp
    from Cons.IH [OF this r [unfolded ms(2)]] show ?thesis
      unfolding one(1,2) ms(1) using one(3-7) by simp
  qed
qed

end
