(* ===== verification/Spec2Isabelle.thy ===== *)
theory Spec2Isabelle
  imports Sender_History Recv_Props Ring_Lap Fec_Props Rtp Fec_Header Rtcp_Props Eap_Props Gre_Props Adv_Props Npd_Props Lpc_Props Psk_Props Codec_Simple_Props Codec_Main_Props Codec_Adv_Props Host_Fec_Props Url_Props Replay_Window Fragments Split_Wire Bonding_Props Adapt_Props
begin

text \<open>
  A verification development for ristrust, an implementation of the Reliable Internet Stream Transport
  (VSF TR-06-1/2/3) in Rust. The program has three crates: \<^verbatim>\<open>rist-core\<close> (a sans-I/O protocol core:
  the host passes it packets, feedback and timer expiries with the current instant and polls it for
  outputs and events), \<^verbatim>\<open>rist-codec\<close> (the wire formats) and \<^verbatim>\<open>rist\<close> (sockets, tasks and
  configuration around the two). This development models the protocol core completely, and of the other two
  crates the parts with logic of their own that the list below names.

  \<^bold>\<open>The parts and their theories.\<close>

  \<^item> \<open>Rist_Prelude\<close>: the machine integers, saturating and truncating arithmetic, the indexing of
    vectors as an option (\<open>None\<close> is an index out of range), the collection \<open>panic_free\<close>.
    \<open>Float64\<close>: the part of IEEE binary64 arithmetic the source computes with, on rationals.
  \<^item> \<open>Seq_Arith\<close> (\<^verbatim>\<open>rist-core/src/seq.rs\<close>), \<open>Clock\<close> (\<^verbatim>\<open>clock.rs\<close>), \<open>Rtt\<close>
    (\<^verbatim>\<open>rtt.rs\<close>), \<open>Wire\<close> (\<^verbatim>\<open>wire.rs\<close>, \<^verbatim>\<open>flow/effects.rs\<close>).
  \<^item> \<open>Interfaces\<close>: the two contracts. \<open>packet_store\<close> is the sequence-indexed ring as its users see it;
    \<open>total_machine\<close> is a state machine that never panics under its invariant. They are interpreted on
    the receiver's reorder ring (\<open>Recv_Props\<close>), the sender's history (\<open>Sender_History\<close>) and the flow
    itself (\<open>Flow_Inv\<close>, \<open>Sender_History\<close>).
  \<^item> \<open>Flow_Config\<close> (the parameters and derived bounds of \<^verbatim>\<open>flow/mod.rs\<close>, \<^verbatim>\<open>flow/congestion.rs\<close>),
    \<open>Flow_State\<close> (the state \<open>flow\<close> of a receiver or sender), \<open>Playout\<close>, \<open>Nack_Queue\<close> and
    \<open>Recv_Feed\<close> (\<^verbatim>\<open>flow/receiver.rs\<close>: delivery, missing detection and NACKs, input and buffer
    scaling), \<open>Flow_Sender\<close> (\<^verbatim>\<open>flow/sender.rs\<close>), \<open>Flow_Core\<close> (the public methods of \<open>Flow\<close> and one
    step of the machine).
  \<^item> \<open>Fec_Types\<close>, \<open>Fec_Encoder\<close>, \<open>Fec_Decoder\<close> (\<^verbatim>\<open>rist-core/src/fec\<close>).
  \<^item> \<open>Byte_Codec\<close> (reading and writing buffers), \<open>Fallible\<close> and \<open>State_Results\<close> (errors and panics of
    functions and of methods), \<open>Utf8\<close> (the strings of the source).
  \<^item> The formats of \<^verbatim>\<open>rist-codec\<close>: \<open>Rtp\<close> (\<^verbatim>\<open>rtp.rs\<close>), \<open>Fec_Header\<close>
    (\<^verbatim>\<open>fec_header.rs\<close>), \<open>Rtcp\<close> and \<open>Rtcp_Compound\<close> (\<^verbatim>\<open>rtcp.rs\<close>: the packet types both ways; compounds,
    their ordering rules and NACK packing), \<open>Gre\<close> (\<^verbatim>\<open>gre.rs\<close>: the tunnel headers of the Main
    profile), \<open>Adv\<close> and \<open>Adv_Control\<close> (\<^verbatim>\<open>adv.rs\<close>: the header and the control messages of the Advanced
    profile), \<open>Npd\<close> (\<^verbatim>\<open>npd.rs\<close>: null-packet deletion), \<open>Lpc\<close> (\<^verbatim>\<open>lpc.rs\<close>: LZ4 blocks).
  \<^item> The security of \<^verbatim>\<open>rist-codec\<close>: \<open>Psk\<close> (\<^verbatim>\<open>crypto.rs\<close>: passphrase keys, nonces, rotation and
    the caching decryptor), \<open>Srp\<close> (\<^verbatim>\<open>srp.rs\<close>: the SRP-6a engine), \<open>Eap_Frame\<close> and
    \<open>Eap_Auth\<close> (\<^verbatim>\<open>eap.rs\<close>: the framing and the two roles), \<open>Replay_Window\<close> (\<^verbatim>\<open>dtls/replay.rs\<close> and
    the filter of \<^verbatim>\<open>dtls/conn.rs\<close>).
  \<^item> The codec strategies of the host, which stand between the flow and the datagrams: \<open>Codec_Simple\<close>
    (\<^verbatim>\<open>rist/src/codec.rs\<close>), \<open>Codec_Main\<close> (\<^verbatim>\<open>codec_main.rs\<close>), \<open>Codec_Adv\<close>
    (\<^verbatim>\<open>codec_adv.rs\<close>); and \<open>Host_Fec\<close> (\<^verbatim>\<open>fec.rs\<close> and the framing of parity in the drivers).
  \<^item> \<open>Split_Merge\<close> (\<^verbatim>\<open>rist/src/split.rs\<close>), \<open>Fragments\<close> (\<^verbatim>\<open>reassembler.rs\<close>, \<^verbatim>\<open>push_app\<close> of
    \<^verbatim>\<open>driver_adv.rs\<close>), \<open>Bonding\<close> (\<^verbatim>\<open>bonding.rs\<close>): the host policies around the flow.
  \<^item> \<open>Host_Config\<close> (\<^verbatim>\<open>config.rs\<close> and what \<^verbatim>\<open>session.rs\<close> derives from it: flow parameters,
    keys and codecs), \<open>Url\<close> (\<^verbatim>\<open>url.rs\<close>).
  \<^item> \<open>Float64_Order\<close> (order and rounding of binary64, for proofs and for \<^verbatim>\<open>max\<close>, \<^verbatim>\<open>clamp\<close> and
    the cast to \<^verbatim>\<open>u32\<close>) and \<open>Adapt\<close> (\<^verbatim>\<open>rist-codec/src/adapt.rs\<close>, \<^verbatim>\<open>rist/src/adapt.rs\<close>: source
    adaptation).

  \<^bold>\<open>State and errors.\<close> A struct is a record, an enum a datatype, a mutating method a function from the
  old state to the new one. A panic (an index out of range, a clamp with inverted bounds) is the value
  \<open>None\<close>. Sequence numbers, SSRCs and wire fields are words of their width; instants and counters are
  natural numbers and durations integers with the saturations of the source written out. Signed 64-bit arithmetic that
  the code leaves unchecked wraps (\<open>wrap_i64\<close>), as it does in a release build; a build with overflow checks
  would panic there, which the theorems that a call returns do not cover. Statistics are unbounded
  natural numbers.

  \<^bold>\<open>What is shown.\<close> \<open>Playout_Inv\<close>, \<open>Playout_Run\<close>: playout is in order, conserves packets and is live.
  \<open>Recv_Inv\<close>, \<open>Flow_Inv\<close>: the invariant of a flow and that every call keeps it and returns.
  \<open>Sender_History\<close>: the history answers for the last ring of packets, NACK service is faithful and
  within its budgets. \<open>Nack_Props\<close>: missing detection and the NACK pass, exactly. \<open>Recv_Props\<close>: what an
  accepted packet does, up to its delivery; the scaling of the buffer. \<open>Ring_Lap\<close>: a defect, the loss of
  received packets when the stream jumps by a ring or more. \<open>Fec_Window\<close>, \<open>Fec_Truth\<close>, \<open>Fec_Props\<close>:
  the FEC receiver is bounded under any input, rebuilds only what was lost, rebuilds it as it was
  sent, and leaves nothing recoverable; end to end from the encoder. \<open>Rtp\<close>, \<open>Fec_Header\<close>: writers produce
  the layout of the format, readers return on any bytes, and the two are inverse. \<open>Rtcp_Props\<close>:
  the same of compounds, the end of the parse loop, NACK packing asks for exactly the missing numbers.
  \<open>Gre_Props\<close>, \<open>Adv_Props\<close>, \<open>Npd_Props\<close>, \<open>Lpc_Props\<close>, \<open>Eap_Wire\<close>: the round trips of the other formats and
  that their readers return on any bytes. \<open>Psk_Props\<close>: the caching decryptor equals one-shot decryption,
  no initialisation vector is used twice between two rekeyings, and where the zero nonce slips through. \<open>Srp_Props\<close>:
  the two sides agree on the key exactly as the protocol intends. \<open>Eap_Inv\<close>, \<open>Eap_Props\<close>: the roles
  never panic, never succeed without a checked proof, complete the handshake over the encoded frames; and a
  defect, the identity reported is not the one that was proved. \<open>Codec_Simple_Props\<close>, \<open>Codec_Main_Props\<close>,
  \<open>Codec_Adv_Props\<close>: a media stream and the feedback of a flow reach the peer through all layers of a
  profile, no datagram makes a codec panic, and where a codec loses information. \<open>Host_Fec_Props\<close>: parity
  repairs a loss through either carriage when all else was heard as first sent, and what a retransmitted member
  spoils. \<open>Url_Props\<close>: the order of the parameters of a URL does not matter (up to the choice among several unknown
  keys), a secret is carried exactly, a flow with a validated configuration never panics, with one exception that
  is exhibited. \<open>Replay_Window\<close>: the bitmap
  refines the set of accepted numbers. \<open>Split_Merge\<close>, \<open>Fragments\<close>: payloads survive splitting and
  fragmentation. \<open>Split_Wire\<close>: over the wire, whose clock ticks at 90 kHz, writes in different ticks are never
  spliced, and two in one tick can be. \<open>Bonding_Props\<close>: the elections of a bonding group, through
  the locale \<open>election\<close> of a preference with transitive ties. \<open>Adapt_Props\<close>: a report reaches the
  controller as it was built, the reports account for the counters of the flow, the target falls with the loss, and
  the one sense in which it does not.

  \<^bold>\<open>Loops.\<close> No loop is cut off by fuel: the playout loop ends because each turn empties a slot or
  brings the cursor nearer the newest number, the walks over sequence numbers because the distance to
  their end shrinks, the FEC recovery loop because every recovery closes a group, the cut into fragments
  because each takes at least one byte, the parse of a compound because each packet has at least four, the
  block decoder and encoder of LZ4 because each sequence consumes input.

  \<^bold>\<open>Parameters.\<close> The cryptographic primitives come from other packages and are arguments of the
  definitions that use them: the block cipher in counter mode and the key derivation of \<open>Psk\<close>, the hash and
  the group of \<open>Srp\<close>. What the proofs need of them is a named hypothesis (the cipher keeps the length and
  is its own inverse under one key and vector; the digest has its length). Random draws and the current instant are
  arguments too, and so are the list of network interfaces and the choice that the random order of a hash map
  makes among several unknown keys of a URL.

  \<^bold>\<open>Not modelled.\<close> The DTLS handshake and record layer with their certificates (except the replay
  filter), which is mostly calls of third-party cryptography; the
  asynchronous drivers with their sockets, tasks and timers, which are input and output around the modelled
  parts (of them only the framing of parity packets and of fragments and the report of the Simple driver are modelled). Logging and metrics have no
  effect on the protocol. Of \<^verbatim>\<open>Bytes\<close> only the contents are modelled, not the sharing of buffers.
\<close>

end
